(* ===== verification/Prelude.thy ===== *)
theory Prelude
  imports Main "HOL-Library.Word"
begin

unbundle bit_operations_syntax

text \<open>
  Vocabulary shared by every component: the machine types of the Rust sources, results and
  panics as values, and the generic lemmas on results, options and lists that carry the
  component proofs.

  \<^item> \<open>u8\<close>, \<open>u32\<close>, \<open>u64\<close> are words; \<open>+\<close> and \<open>-\<close> wrap, as they do in the release
    profile of the workspace (\<open>Cargo.toml\<close> enables no overflow checks there).
  \<^item> \<open>DateTime<Utc>\<close> is an \<open>int\<close> (time elapsed since the epoch), so it has the linear order
    that the code relies on; \<open>Duration\<close> is an \<open>int\<close> too.
  \<^item> \<open>Result<T, E>\<close> is the sum \<open>E + T\<close>. Code that may also panic (\<open>unreachable!\<close>,
    \<open>unimplemented!\<close>, \<open>unwrap\<close>) returns \<open>('e, 'a) res\<close>: the error is then either
    \<open>Panic\<close> or \<open>Fail\<close> of the source's error.
  \<^item> The question mark operator is \<open>and_then\<close>.
\<close>

section \<open>Types\<close>

type_synonym u8 = "8 word"
type_synonym u32 = "32 word"
type_synonym u64 = "64 word"
type_synonym datetime = int
type_synonym duration = int

datatype 'e fault = Panic string | Fail 'e

type_synonym ('e, 'a) res = "'e fault + 'a"

section \<open>Fact collections\<close>

named_theorems res_simps \<open>success and failure of composed results\<close>

section \<open>Results\<close>

definition and_then :: "'e + 'a \<Rightarrow> ('a \<Rightarrow> 'e + 'b) \<Rightarrow> 'e + 'b" where
  "and_then r f = (case r of Inl e \<Rightarrow> Inl e | Inr x \<Rightarrow> f x)"

definition map_err :: "('e \<Rightarrow> 'f) \<Rightarrow> 'e + 'a \<Rightarrow> 'f + 'a" where
  "map_err f r = (case r of Inl e \<Rightarrow> Inl (f e) | Inr x \<Rightarrow> Inr x)"

lemma and_then_Inl [simp]: "and_then (Inl e) f = Inl e"
  by (simp add: and_then_def)

lemma and_then_Inr [simp]: "and_then (Inr x) f = f x"
  by (simp add: and_then_def)

lemma and_then_right [simp]: "and_then r Inr = r"
  by (cases r) simp_all

lemma map_err_Inl [simp]: "map_err f (Inl e) = Inl (f e)"
  by (simp add: map_err_def)

lemma map_err_Inr [simp]: "map_err f (Inr x) = Inr x"
  by (simp add: map_err_def)

lemma and_then_eq_Inr [res_simps]:
  "and_then r f = Inr y \<longleftrightarrow> (\<exists>x. r = Inr x \<and> f x = Inr y)"
  by (cases r) auto

lemma and_then_eq_Inl [res_simps]:
  "and_then r f = Inl e \<longleftrightarrow> r = Inl e \<or> (\<exists>x. r = Inr x \<and> f x = Inl e)"
  by (cases r) auto

lemma map_err_eq_Inr [res_simps]: "map_err f r = Inr x \<longleftrightarrow> r = Inr x"
  by (cases r) auto

lemma map_err_eq_Inl [res_simps]: "map_err f r = Inl e' \<longleftrightarrow> (\<exists>e. r = Inl e \<and> e' = f e)"
  by (cases r) auto

lemma isl_and_then [res_simps]:
  "isl (and_then r f) \<longleftrightarrow> isl r \<or> (\<exists>x. r = Inr x \<and> isl (f x))"
  by (cases r) auto

lemma not_isl_iff [res_simps]: "\<not> isl r \<longleftrightarrow> (\<exists>x. r = Inr x)"
  by (cases r) auto

subsection \<open>Requiring a condition\<close>

text \<open>\<open>ensure b e\<close> is the early return \<open>if !b { return Err(e) }\<close>.\<close>

definition ensure :: "bool \<Rightarrow> 'e \<Rightarrow> 'e + unit" where
  "ensure b e = (if b then Inr () else Inl e)"

lemma ensure_eq_Inr [res_simps]: "ensure b e = Inr u \<longleftrightarrow> b"
  by (simp add: ensure_def)

lemma ensure_eq_Inl [res_simps]: "ensure b e = Inl e' \<longleftrightarrow> \<not> b \<and> e' = e"
  by (auto simp: ensure_def)

lemma ensure_simps [simp]: "ensure True e = Inr ()" "ensure False e = Inl e"
  by (simp_all add: ensure_def)

subsection \<open>Fallible loops over lists\<close>

text \<open>A \<open>for\<close> loop whose body may return early with an error.\<close>

fun try_each :: "('a \<Rightarrow> 'e + unit) \<Rightarrow> 'a list \<Rightarrow> 'e + unit" where
  "try_each f [] = Inr ()"
| "try_each f (x # xs) = and_then (f x) (\<lambda>_. try_each f xs)"

lemma try_each_ok [res_simps]: "try_each f xs = Inr () \<longleftrightarrow> (\<forall>x \<in> set xs. f x = Inr ())"
  by (induction xs) (auto simp: and_then_eq_Inr)

lemma try_each_err: "try_each f xs = Inl e \<Longrightarrow> \<exists>x \<in> set xs. f x = Inl e"
  by (induction xs) (auto simp: and_then_eq_Inl)

subsection \<open>Operations that change a state and may fail\<close>

text \<open>
  An operation maps the state to its result and the state it leaves, also when it fails;
  \<open>fbind\<close> is the question mark operator on such operations.
\<close>

definition fbind ::
  "('s \<Rightarrow> ('e, 'a) res \<times> 's) \<Rightarrow> ('a \<Rightarrow> 's \<Rightarrow> ('e, 'b) res \<times> 's) \<Rightarrow> 's \<Rightarrow> ('e, 'b) res \<times> 's" where
  "fbind m k s = (case m s of (Inl f, s') \<Rightarrow> (Inl f, s') | (Inr x, s') \<Rightarrow> k x s')"

definition freturn :: "'a \<Rightarrow> 's \<Rightarrow> ('e, 'a) res \<times> 's" where
  "freturn x s = (Inr x, s)"

fun feach :: "('a \<Rightarrow> 's \<Rightarrow> ('e, unit) res \<times> 's) \<Rightarrow> 'a list \<Rightarrow> 's \<Rightarrow> ('e, unit) res \<times> 's" where
  "feach f [] = freturn ()"
| "feach f (x # xs) = fbind (f x) (\<lambda>_. feach f xs)"

section \<open>Signed words\<close>

text \<open>Identifiers that the sources keep as \<open>i64\<close> are integers; their increments wrap.\<close>

definition wrap_i64 :: "int \<Rightarrow> int" where
  "wrap_i64 n = signed_take_bit 63 n"

lemma wrap_i64_id: "0 \<le> n \<Longrightarrow> n < 2 ^ 63 \<Longrightarrow> wrap_i64 n = n"
  by (simp add: wrap_i64_def signed_take_bit_int_eq_self)

section \<open>Options\<close>

text \<open>\<open>Option::or\<close>.\<close>

definition opt_or :: "'a option \<Rightarrow> 'a option \<Rightarrow> 'a option" where
  "opt_or a b = (case a of None \<Rightarrow> b | Some x \<Rightarrow> Some x)"

lemma opt_or_simps [simp]: "opt_or None b = b" "opt_or (Some x) b = Some x"
  by (simp_all add: opt_or_def)

section \<open>Lists\<close>

lemma find_mem: "find P xs = Some x \<Longrightarrow> x \<in> set xs \<and> P x"
  by (induction xs) (auto split: if_splits)

lemma find_None: "find P xs = None \<longleftrightarrow> (\<forall>x \<in> set xs. \<not> P x)"
  by (induction xs) auto

end
