(* ===== verification/Multiformats.thy ===== *)
theory Multiformats
  imports Prelude
begin

text \<open>
  The multiformats utilities (\<open>src/src/utils/multiformats\<close>): multicodec codes and
  names, the multibase text encodings, and the multihash container with its binary and text
  forms.
\<close>

section \<open>Multicodec (multicodec.rs)\<close>

datatype multicodec =
    CIDv1
  | Sha2_256
  | Sha3_256
  | Ed25519Pub
  | Arrow0_Sha3_256
  | ODFMetadataBlock
  | ODFDatasetSnapshot

text \<open>The discriminants of the \<open>repr(u32)\<close> enum: \<open>value.code as u32\<close>.\<close>

fun multicodec_code :: "multicodec \<Rightarrow> u32" where
  "multicodec_code CIDv1 = 0x01"
| "multicodec_code Sha2_256 = 0x12"
| "multicodec_code Sha3_256 = 0x16"
| "multicodec_code Ed25519Pub = 0xed"
| "multicodec_code Arrow0_Sha3_256 = 0x300016"
| "multicodec_code ODFMetadataBlock = 0x400000"
| "multicodec_code ODFDatasetSnapshot = 0x400001"

definition multicodec_try_from_u32 :: "u32 \<Rightarrow> u32 + multicodec" where
  "multicodec_try_from_u32 v =
     (if v = 0x01 then Inr CIDv1
      else if v = 0x12 then Inr Sha2_256
      else if v = 0x16 then Inr Sha3_256
      else if v = 0xed then Inr Ed25519Pub
      else if v = 0x300016 then Inr Arrow0_Sha3_256
      else if v = 0x400000 then Inr ODFMetadataBlock
      else if v = 0x400001 then Inr ODFDatasetSnapshot
      else Inl v)"

definition multicodec_from_str :: "string \<Rightarrow> string + multicodec" where
  "multicodec_from_str s =
     (if s = ''cidv1'' then Inr CIDv1
      else if s = ''sha2-256'' then Inr Sha2_256
      else if s = ''sha3-256'' then Inr Sha3_256
      else if s = ''ed25519-pub'' then Inr Ed25519Pub
      else if s = ''arrow0-sha3-256'' then Inr Arrow0_Sha3_256
      else if s = ''odf-metadata-block'' then Inr ODFMetadataBlock
      else if s = ''odf-dataset-snapshot'' then Inr ODFDatasetSnapshot
      else Inl s)"

fun multicodec_display :: "multicodec \<Rightarrow> string" where
  "multicodec_display CIDv1 = ''cidv1''"
| "multicodec_display Sha2_256 = ''sha2-256''"
| "multicodec_display Sha3_256 = ''sha3-256''"
| "multicodec_display Ed25519Pub = ''ed25519-pub''"
| "multicodec_display Arrow0_Sha3_256 = ''arrow0-sha3-256''"
| "multicodec_display ODFMetadataBlock = ''odf-metadata-block''"
| "multicodec_display ODFDatasetSnapshot = ''odf-dataset-snapshot''"

lemma multicodec_u32_roundtrip [simp]: "multicodec_try_from_u32 (multicodec_code c) = Inr c"
  by (cases c) (simp_all add: multicodec_try_from_u32_def)

lemma multicodec_str_roundtrip [simp]: "multicodec_from_str (multicodec_display c) = Inr c"
  by (cases c) (simp_all add: multicodec_from_str_def)

lemma multicodec_try_from_u32_sound: "multicodec_try_from_u32 v = Inr c \<Longrightarrow> v = multicodec_code c"
  by (auto simp: multicodec_try_from_u32_def split: if_splits)

lemma multicodec_from_str_sound: "multicodec_from_str s = Inr c \<Longrightarrow> s = multicodec_display c"
  by (auto simp: multicodec_from_str_def split: if_splits)

section \<open>Third-party codecs\<close>

text \<open>
  The crates the code calls: \<open>unsigned_varint\<close>, \<open>hex\<close>, \<open>bs58\<close> and \<open>sha3\<close>. They are a parameter of
  every operation that uses them; \<open>externs_ok\<close> states their documented behaviour.
\<close>

datatype bs58_error = Bs58BufferTooSmall | Bs58Invalid

record externs =
  uvar_encode_u32 :: "u32 \<Rightarrow> u8 list"
  uvar_decode_u32 :: "u8 list \<Rightarrow> (u32 \<times> u8 list) option"
  uvar_decode_usize :: "u8 list \<Rightarrow> (nat \<times> u8 list) option"
  hex_encode :: "u8 list \<Rightarrow> u8 list"
  hex_decode :: "u8 list \<Rightarrow> u8 list option"
  bs58_encode :: "u8 list \<Rightarrow> u8 list"
  bs58_decode :: "u8 list \<Rightarrow> nat \<Rightarrow> bs58_error + u8 list"
  sha3_256_digest :: "u8 list \<Rightarrow> u8 list"

definition varint_ok :: "externs \<Rightarrow> bool" where
  "varint_ok x \<longleftrightarrow>
     (\<forall>n rest. uvar_decode_u32 x (uvar_encode_u32 x n @ rest) = Some (n, rest)) \<and>
     (\<forall>n rest. uvar_decode_usize x (uvar_encode_u32 x n @ rest) = Some (unat n, rest)) \<and>
     (\<forall>n. unat n < 2 ^ 28 \<longrightarrow> length (uvar_encode_u32 x n) \<le> 4)"

definition hex_ok :: "externs \<Rightarrow> bool" where
  "hex_ok x \<longleftrightarrow>
     (\<forall>bs. hex_decode x (hex_encode x bs) = Some bs) \<and>
     (\<forall>bs. length (hex_encode x bs) = 2 * length bs) \<and>
     (\<forall>bs. \<forall>b \<in> set (hex_encode x bs). b < 128)"

definition sha3_ok :: "externs \<Rightarrow> bool" where
  "sha3_ok x \<longleftrightarrow> (\<forall>bs. length (sha3_256_digest x bs) = 32)"

definition externs_ok :: "externs \<Rightarrow> bool" where
  "externs_ok x \<longleftrightarrow> varint_ok x \<and> hex_ok x \<and> sha3_ok x"

section \<open>Multibase (multibase.rs)\<close>

datatype multibase = Base16 | Base58Btc

datatype multibase_error =
    UnsupportedEncoding u8
  | MultibaseBufferTooSmall
  | Malformed

text \<open>
  \<open>decode(s, buf)\<close>: the result is the decoded prefix of the buffer of the given size. The first
  byte is split off with \<open>split_at(1)\<close>, which panics on the empty string.
\<close>

definition multibase_decode :: "externs \<Rightarrow> u8 list \<Rightarrow> nat \<Rightarrow> (multibase_error, u8 list) res" where
  "multibase_decode x s buf_len =
     (case s of
        [] \<Rightarrow> Inl (Panic ''split_at: mid > len'')
      | prefix # encoded \<Rightarrow>
          if prefix = 0x66 \<or> prefix = 0x46 then
            (if length encoded div 2 > buf_len then Inl (Fail MultibaseBufferTooSmall)
             else case hex_decode x encoded of
                    Some data \<Rightarrow> Inr data
                  | None \<Rightarrow> Inl (Fail Malformed))
          else if prefix = 0x7a then
            (case bs58_decode x encoded buf_len of
               Inr data \<Rightarrow> Inr data
             | Inl Bs58BufferTooSmall \<Rightarrow> Inl (Fail MultibaseBufferTooSmall)
             | Inl Bs58Invalid \<Rightarrow> Inl (Fail Malformed))
          else Inl (Fail (UnsupportedEncoding prefix)))"

text \<open>\<open>MultibaseFmt::to_str\<close> with a stack buffer of the given size.\<close>

definition multibase_encode :: "externs \<Rightarrow> nat \<Rightarrow> u8 list \<Rightarrow> multibase \<Rightarrow> (unit, u8 list) res" where
  "multibase_encode x buf_len bytes enc =
     (let (prefix, text) =
        (case enc of Base16 \<Rightarrow> (0x66, hex_encode x bytes) | Base58Btc \<Rightarrow> (0x7a, bs58_encode x bytes))
      in if 1 + length text > buf_len then Inl (Panic ''buffer too small'')
         else Inr (prefix # text))"

lemma multibase_base16_roundtrip:
  assumes "hex_ok x" and "multibase_encode x n bytes Base16 = Inr s" and "length bytes \<le> m"
  shows "multibase_decode x s m = Inr bytes"
  using assms
  by (auto simp: multibase_encode_def multibase_decode_def hex_ok_def Let_def split: if_splits)

section \<open>Multihash (multihash.rs)\<close>

definition MAX_VARINT_LEN :: nat where
  "MAX_VARINT_LEN = 4"

definition MAX_MULTIHASH_DIGEST_LEN :: nat where
  "MAX_MULTIHASH_DIGEST_LEN = 32"

definition MAX_MULTIHASH_BINARY_REPR_LEN :: nat where
  "MAX_MULTIHASH_BINARY_REPR_LEN = MAX_VARINT_LEN + MAX_VARINT_LEN + MAX_MULTIHASH_DIGEST_LEN"

definition MAX_MULTIHASH_MULTIBASE_REPR_LEN :: nat where
  "MAX_MULTIHASH_MULTIBASE_REPR_LEN = 1 + MAX_MULTIHASH_BINARY_REPR_LEN * 2"

lemmas multihash_len_defs =
  MAX_VARINT_LEN_def MAX_MULTIHASH_DIGEST_LEN_def MAX_MULTIHASH_BINARY_REPR_LEN_def
  MAX_MULTIHASH_MULTIBASE_REPR_LEN_def

text \<open>The digest buffer is zero-padded, so that the derived equality compares digests.\<close>

record multihash =
  mh_buf :: "u8 list"
  mh_len :: nat
  mh_code :: multicodec

datatype multihash_error =
    BufferTooSmall
  | VarintError
  | UnsupportedCode u32
  | DeserializeError

definition multihash_new :: "multicodec \<Rightarrow> u8 list \<Rightarrow> multihash_error + multihash" where
  "multihash_new code digest =
     (if length digest > MAX_MULTIHASH_DIGEST_LEN then Inl BufferTooSmall
      else Inr \<lparr>mh_buf = digest @ replicate (MAX_MULTIHASH_DIGEST_LEN - length digest) 0,
                mh_len = length digest, mh_code = code\<rparr>)"

definition multihash_digest :: "multihash \<Rightarrow> u8 list" where
  "multihash_digest h = take (mh_len h) (mh_buf h)"

definition multihash_from_bytes :: "externs \<Rightarrow> u8 list \<Rightarrow> multihash_error + multihash" where
  "multihash_from_bytes x bytes =
     (case uvar_decode_u32 x bytes of
        None \<Rightarrow> Inl VarintError
      | Some (code, rest) \<Rightarrow>
          (case multicodec_try_from_u32 code of
             Inl c \<Rightarrow> Inl (UnsupportedCode c)
           | Inr code \<Rightarrow>
               (case uvar_decode_usize x rest of
                  None \<Rightarrow> Inl VarintError
                | Some (len, rest) \<Rightarrow>
                    if len \<noteq> length rest then Inl DeserializeError
                    else multihash_new code rest)))"

text \<open>\<open>MultihashBytes::new\<close> writes into a fixed buffer and unwraps each write.\<close>

definition multihash_as_bytes :: "externs \<Rightarrow> multihash \<Rightarrow> (unit, u8 list) res" where
  "multihash_as_bytes x h =
     (let bytes = uvar_encode_u32 x (multicodec_code (mh_code h)) @
                  uvar_encode_u32 x (of_nat (mh_len h)) @ multihash_digest h
      in if length bytes > MAX_MULTIHASH_BINARY_REPR_LEN then Inl (Panic ''failed to write whole buffer'')
         else Inr bytes)"

definition multihash_from_digest_sha3_256 :: "externs \<Rightarrow> u8 list \<Rightarrow> (multihash_error, multihash) res" where
  "multihash_from_digest_sha3_256 x data =
     (case multihash_new Sha3_256 (sha3_256_digest x data) of
        Inl _ \<Rightarrow> Inl (Panic ''Buffer too small'')
      | Inr h \<Rightarrow> Inr h)"

datatype multihash_parse_error = ParseBase multibase_error | ParseHash multihash_error

definition multihash_from_multibase :: "externs \<Rightarrow> u8 list \<Rightarrow> (multihash_parse_error, multihash) res" where
  "multihash_from_multibase x s =
     (case multibase_decode x s MAX_MULTIHASH_BINARY_REPR_LEN of
        Inl (Panic m) \<Rightarrow> Inl (Panic m)
      | Inl (Fail e) \<Rightarrow> Inl (Fail (ParseBase e))
      | Inr bytes \<Rightarrow> map_err (\<lambda>e. Fail (ParseHash e)) (multihash_from_bytes x bytes))"

text \<open>\<open>as_multibase().to_stack_string()\<close>: the default encoding is base 16.\<close>

definition multihash_to_text :: "externs \<Rightarrow> multihash \<Rightarrow> (unit, u8 list) res" where
  "multihash_to_text x h =
     and_then (multihash_as_bytes x h)
       (\<lambda>bytes. multibase_encode x MAX_MULTIHASH_MULTIBASE_REPR_LEN bytes Base16)"

definition wf_multihash :: "multihash \<Rightarrow> bool" where
  "wf_multihash h \<longleftrightarrow>
     length (mh_buf h) = MAX_MULTIHASH_DIGEST_LEN \<and> mh_len h \<le> MAX_MULTIHASH_DIGEST_LEN
     \<and> (\<forall>b \<in> set (drop (mh_len h) (mh_buf h)). b = 0)"

lemma wf_multihash_new: "multihash_new c d = Inr h \<Longrightarrow> wf_multihash h"
  by (auto simp: multihash_new_def wf_multihash_def split: if_splits)

lemma multihash_digest_new: "multihash_new c d = Inr h \<Longrightarrow> multihash_digest h = d"
  by (auto simp: multihash_new_def multihash_digest_def split: if_splits)

lemma length_multihash_digest: "wf_multihash h \<Longrightarrow> length (multihash_digest h) = mh_len h"
  by (simp add: wf_multihash_def multihash_digest_def)

lemma multihash_new_digest:
  assumes "wf_multihash h"
  shows "multihash_new (mh_code h) (multihash_digest h) = Inr h"
proof -
  have "drop (mh_len h) (mh_buf h) = replicate (MAX_MULTIHASH_DIGEST_LEN - mh_len h) 0"
    using assms by (auto simp: wf_multihash_def intro!: replicate_eqI)
  then have "multihash_digest h @ replicate (MAX_MULTIHASH_DIGEST_LEN - mh_len h) 0 = mh_buf h"
    by (metis append_take_drop_id multihash_digest_def)
  then show ?thesis
    using assms by (simp add: multihash_new_def length_multihash_digest wf_multihash_def)
qed

lemma multicodec_code_bound: "unat (multicodec_code c) < 2 ^ 28"
  by (cases c) simp_all

lemma unat_mh_len:
  assumes "wf_multihash h"
  shows "unat (of_nat (mh_len h) :: u32) = mh_len h"
  using assms
  by (simp add: wf_multihash_def MAX_MULTIHASH_DIGEST_LEN_def unat_of_nat take_bit_eq_mod)

text \<open>The fixed buffers are large enough, so writing a multihash never panics.\<close>

lemma multihash_as_bytes_ok:
  assumes "varint_ok x" and "wf_multihash h"
  shows "multihash_as_bytes x h =
           Inr (uvar_encode_u32 x (multicodec_code (mh_code h)) @
                uvar_encode_u32 x (of_nat (mh_len h)) @ multihash_digest h)"
proof -
  have "length (uvar_encode_u32 x (multicodec_code (mh_code h))) \<le> 4"
    using assms(1) multicodec_code_bound [of "mh_code h"] by (simp add: varint_ok_def)
  moreover have "unat (of_nat (mh_len h) :: u32) < 2 ^ 28"
    using assms(2) by (simp add: unat_mh_len) (simp add: wf_multihash_def multihash_len_defs)
  then have "length (uvar_encode_u32 x (of_nat (mh_len h))) \<le> 4"
    using assms(1) unfolding varint_ok_def by blast
  moreover have "length (multihash_digest h) \<le> 32"
    using assms(2) by (simp add: length_multihash_digest wf_multihash_def multihash_len_defs)
  ultimately show ?thesis
    by (simp add: multihash_as_bytes_def multihash_len_defs Let_def)
qed

lemma multihash_bytes_roundtrip_aux:
  assumes "varint_ok x" and "wf_multihash h"
  shows "\<exists>bytes. multihash_as_bytes x h = Inr bytes \<and> length bytes \<le> MAX_MULTIHASH_BINARY_REPR_LEN
           \<and> multihash_from_bytes x bytes = Inr h"
proof -
  note b = multihash_as_bytes_ok [OF assms]
  then have "length (uvar_encode_u32 x (multicodec_code (mh_code h)) @
      uvar_encode_u32 x (of_nat (mh_len h)) @ multihash_digest h) \<le> MAX_MULTIHASH_BINARY_REPR_LEN"
    by (simp add: multihash_as_bytes_def Let_def split: if_splits)
  moreover have "multihash_from_bytes x (uvar_encode_u32 x (multicodec_code (mh_code h)) @
      uvar_encode_u32 x (of_nat (mh_len h)) @ multihash_digest h) = Inr h"
    using assms
    by (simp add: multihash_from_bytes_def varint_ok_def length_multihash_digest
        multihash_new_digest unat_mh_len)
  ultimately show ?thesis using b by blast
qed

lemma multihash_text_roundtrip_aux:
  assumes "externs_ok x" and "wf_multihash h"
  shows "\<exists>s. multihash_to_text x h = Inr s \<and> multihash_from_multibase x s = Inr h
           \<and> (\<forall>b \<in> set s. b < 128)"
proof -
  have ok: "varint_ok x" "hex_ok x" using assms(1) by (simp_all add: externs_ok_def)
  obtain bytes where b: "multihash_as_bytes x h = Inr bytes"
      "length bytes \<le> MAX_MULTIHASH_BINARY_REPR_LEN" "multihash_from_bytes x bytes = Inr h"
    using multihash_bytes_roundtrip_aux [OF ok(1) assms(2)] by blast
  let ?s = "0x66 # hex_encode x bytes"
  have enc: "multibase_encode x MAX_MULTIHASH_MULTIBASE_REPR_LEN bytes Base16 = Inr ?s"
    using ok(2) b(2) by (simp add: multibase_encode_def hex_ok_def multihash_len_defs)
  then have "multibase_decode x ?s MAX_MULTIHASH_BINARY_REPR_LEN = Inr bytes"
    using ok(2) b(2) by (blast intro: multibase_base16_roundtrip)
  then have "multihash_from_multibase x ?s = Inr h"
    using b(3) by (simp add: multihash_from_multibase_def)
  moreover have "multihash_to_text x h = Inr ?s"
    using b(1) enc by (simp add: multihash_to_text_def)
  moreover have "\<forall>b \<in> set ?s. b < 128"
    using ok(2) by (simp add: hex_ok_def)
  ultimately show ?thesis by blast
qed

lemma multihash_from_digest_sha3_256_ok:
  assumes "sha3_ok x"
  shows "\<exists>h. multihash_from_digest_sha3_256 x data = Inr h \<and> wf_multihash h"
proof -
  have "length (sha3_256_digest x data) \<le> MAX_MULTIHASH_DIGEST_LEN"
    using assms by (simp add: sha3_ok_def multihash_len_defs)
  then obtain h where "multihash_new Sha3_256 (sha3_256_digest x data) = Inr h"
    by (simp add: multihash_new_def)
  then show ?thesis
    by (simp add: multihash_from_digest_sha3_256_def wf_multihash_new)
qed

end
