(* ===== verification/Odf_Metadata.thy ===== *)
theory Odf_Metadata
  imports Multiformats
begin

text \<open>
  The data model of dataset metadata: the structs and enums of
  \<open>src/src/domain/opendatafabric/src/dtos/dtos_generated.rs\<close> that make up a metadata block, the
  helpers of \<open>dtos_extra.rs\<close> and \<open>metadata/metadata_block_types.rs\<close>, the event type flags of
  \<open>dtos_enum_flags_generated.rs\<close>, and the identity types they refer to. A struct is a record
  whose field names carry a prefix of the struct, since Rust field names repeat.
\<close>

section \<open>Identity (identity/)\<close>

datatype dataset_id = DatasetID "u8 list"
datatype account_id = AccountID "u8 list"

type_synonym account_name = string
type_synonym dataset_name = string

record dataset_alias =
  alias_account_name :: "account_name option"
  alias_dataset_name :: dataset_name

record dataset_handle =
  handle_id :: dataset_id
  handle_alias :: dataset_alias

datatype dataset_ref =
    RefID dataset_id
  | RefAlias dataset_alias
  | RefHandle dataset_handle

fun dataset_ref_id :: "dataset_ref \<Rightarrow> dataset_id option" where
  "dataset_ref_id (RefID i) = Some i"
| "dataset_ref_id (RefHandle h) = Some (handle_id h)"
| "dataset_ref_id (RefAlias _) = None"

type_synonym repo_name = string

record dataset_alias_remote =
  remote_repo_name :: repo_name
  remote_account_name :: "account_name option"
  remote_dataset_name :: dataset_name

record dataset_handle_remote =
  remote_handle_id :: dataset_id
  remote_handle_alias :: dataset_alias_remote

text \<open>A URL is its serialization, on which the \<open>url\<close> crate defines equality and order.\<close>

type_synonym url = string

datatype dataset_ref_remote =
    RemoteID "repo_name option" dataset_id
  | RemoteAlias dataset_alias_remote
  | RemoteUrl url
  | RemoteHandle dataset_handle_remote

datatype dataset_ref_any =
    AnyID "repo_name option" dataset_id
  | AnyRemoteAlias repo_name "account_name option" dataset_name
  | AnyLocalAlias "account_name option" dataset_name
  | AnyAmbiguousAlias string dataset_name
  | AnyUrl url
  | AnyLocalHandle dataset_handle
  | AnyRemoteHandle dataset_handle_remote

section \<open>Data transfer objects (dtos_generated.rs)\<close>

record offset_interval =
  oi_start :: u64
  oi_end :: u64

record data_slice =
  ds_logical_hash :: multihash
  ds_physical_hash :: multihash
  ds_offset_interval :: offset_interval
  ds_size :: u64

record checkpoint =
  cp_physical_hash :: multihash
  cp_size :: u64

record source_state =
  ss_source_name :: string
  ss_kind :: string
  ss_value :: string

record add_data =
  ad_prev_checkpoint :: "multihash option"
  ad_prev_offset :: "u64 option"
  ad_new_data :: "data_slice option"
  ad_new_checkpoint :: "checkpoint option"
  ad_new_watermark :: "datetime option"
  ad_new_source_state :: "source_state option"

record execute_transform_input =
  eti_dataset_id :: dataset_id
  eti_prev_block_hash :: "multihash option"
  eti_new_block_hash :: "multihash option"
  eti_prev_offset :: "u64 option"
  eti_new_offset :: "u64 option"

record execute_transform =
  et_query_inputs :: "execute_transform_input list"
  et_prev_checkpoint :: "multihash option"
  et_prev_offset :: "u64 option"
  et_new_data :: "data_slice option"
  et_new_checkpoint :: "checkpoint option"
  et_new_watermark :: "datetime option"

datatype dataset_kind = Root | Derivative

record seed =
  seed_dataset_id :: dataset_id
  seed_dataset_kind :: dataset_kind

record sql_query_step =
  sqs_alias :: "string option"
  sqs_query :: string

record temporal_table =
  tt_name :: string
  tt_primary_key :: "string list"

record transform_sql =
  ts_engine :: string
  ts_version :: "string option"
  ts_query :: "string option"
  ts_queries :: "sql_query_step list option"
  ts_temporal_tables :: "temporal_table list option"

datatype transform = Sql transform_sql

record transform_input =
  ti_dataset_ref :: dataset_ref
  ti_alias :: "string option"

record set_transform =
  st_inputs :: "transform_input list"
  st_transform :: transform

record env_var =
  ev_name :: string
  ev_value :: "string option"

datatype event_time_source =
    FromMetadata
  | FromPath string "string option"
  | FromSystemTime

datatype source_caching = Forever

datatype source_ordering = ByEventTime | ByName

record request_header =
  rh_name :: string
  rh_value :: string

datatype mqtt_qos = AtMostOnce | AtLeastOnce | ExactlyOnce

record mqtt_topic_subscription =
  mts_path :: string
  mts_qos :: "mqtt_qos option"

record fetch_step_url =
  fsu_url :: string
  fsu_event_time :: "event_time_source option"
  fsu_cache :: "source_caching option"
  fsu_headers :: "request_header list option"

record fetch_step_files_glob =
  fsg_path :: string
  fsg_event_time :: "event_time_source option"
  fsg_cache :: "source_caching option"
  fsg_order :: "source_ordering option"

record fetch_step_container =
  fsc_image :: string
  fsc_command :: "string list option"
  fsc_args :: "string list option"
  fsc_env :: "env_var list option"

record fetch_step_mqtt =
  fsm_host :: string
  fsm_port :: int
  fsm_username :: "string option"
  fsm_password :: "string option"
  fsm_topics :: "mqtt_topic_subscription list"

record fetch_step_ethereum_logs =
  fse_chain_id :: "u64 option"
  fse_node_url :: "string option"
  fse_filter :: "string option"
  fse_signature :: "string option"

datatype fetch_step =
    Url fetch_step_url
  | FilesGlob fetch_step_files_glob
  | Container fetch_step_container
  | Mqtt fetch_step_mqtt
  | EthereumLogs fetch_step_ethereum_logs

datatype compression_format = Gzip | Zip

datatype prep_step =
    Decompress compression_format "string option"
  | Pipe "string list"

record read_step_csv =
  csv_schema :: "string list option"
  csv_separator :: "string option"
  csv_encoding :: "string option"
  csv_quote :: "string option"
  csv_escape :: "string option"
  csv_header :: "bool option"
  csv_infer_schema :: "bool option"
  csv_null_value :: "string option"
  csv_date_format :: "string option"
  csv_timestamp_format :: "string option"

record read_step_json =
  json_sub_path :: "string option"
  json_schema :: "string list option"
  json_date_format :: "string option"
  json_encoding :: "string option"
  json_timestamp_format :: "string option"

record read_step_nd_json =
  ndjson_schema :: "string list option"
  ndjson_date_format :: "string option"
  ndjson_encoding :: "string option"
  ndjson_timestamp_format :: "string option"

datatype read_step =
    Csv read_step_csv
  | GeoJson "string list option"
  | EsriShapefile "string list option" "string option"
  | Parquet "string list option"
  | Json read_step_json
  | NdJson read_step_nd_json
  | NdGeoJson "string list option"

datatype merge_strategy =
    MergeAppend
  | MergeLedger "string list"
  | MergeSnapshot "string list" "string list option"

record set_polling_source =
  sps_fetch :: fetch_step
  sps_prepare :: "prep_step list option"
  sps_read :: read_step
  sps_preprocess :: "transform option"
  sps_merge :: merge_strategy

record add_push_source =
  aps_source_name :: string
  aps_read :: read_step
  aps_preprocess :: "transform option"
  aps_merge :: merge_strategy

record set_vocab =
  sv_offset_column :: "string option"
  sv_operation_type_column :: "string option"
  sv_system_time_column :: "string option"
  sv_event_time_column :: "string option"

record attachment_embedded =
  ae_path :: string
  ae_content :: string

datatype attachments = Embedded "attachment_embedded list"

record set_info =
  si_description :: "string option"
  si_keywords :: "string list option"

record set_license =
  sl_short_name :: string
  sl_name :: string
  sl_spdx_id :: "string option"
  sl_website_url :: string

record set_data_schema =
  sds_schema :: "u8 list"

datatype metadata_event =
    is_AddData: AddData add_data
  | is_ExecuteTransform: ExecuteTransform execute_transform
  | is_Seed: Seed seed
  | is_SetPollingSource: SetPollingSource set_polling_source
  | is_SetTransform: SetTransform set_transform
  | is_SetVocab: SetVocab set_vocab
  | is_SetAttachments: SetAttachments attachments
  | is_SetInfo: SetInfo set_info
  | is_SetLicense: SetLicense set_license
  | is_SetDataSchema: SetDataSchema set_data_schema
  | is_AddPushSource: AddPushSource add_push_source
  | is_DisablePushSource: DisablePushSource string
  | is_DisablePollingSource: DisablePollingSource

record metadata_block =
  system_time :: datetime
  prev_block_hash :: "multihash option"
  sequence_number :: u64
  event :: metadata_event

section \<open>Helpers (dtos_extra.rs)\<close>

definition add_data_last_offset :: "add_data \<Rightarrow> u64 option" where
  "add_data_last_offset e =
     opt_or (map_option (\<lambda>d. oi_end (ds_offset_interval d)) (ad_new_data e)) (ad_prev_offset e)"

definition add_data_is_empty :: "add_data \<Rightarrow> bool" where
  "add_data_is_empty e \<longleftrightarrow>
     ad_new_data e = None \<and> ad_new_checkpoint e = None \<and> ad_new_watermark e = None
     \<and> ad_new_source_state e = None"

definition execute_transform_last_offset :: "execute_transform \<Rightarrow> u64 option" where
  "execute_transform_last_offset e =
     opt_or (map_option (\<lambda>d. oi_end (ds_offset_interval d)) (et_new_data e)) (et_prev_offset e)"

definition execute_transform_is_empty :: "execute_transform \<Rightarrow> bool" where
  "execute_transform_is_empty e \<longleftrightarrow>
     et_new_data e = None \<and> et_new_checkpoint e = None \<and> et_new_watermark e = None"

definition input_last_block_hash :: "execute_transform_input \<Rightarrow> multihash option" where
  "input_last_block_hash i = opt_or (eti_new_block_hash i) (eti_prev_block_hash i)"

definition input_last_offset :: "execute_transform_input \<Rightarrow> u64 option" where
  "input_last_offset i = opt_or (eti_new_offset i) (eti_prev_offset i)"

definition input_num_records :: "execute_transform_input \<Rightarrow> u64" where
  "input_num_records i =
     (case eti_new_offset i of
        Some new_offset \<Rightarrow>
          (case eti_prev_offset i of
             Some prev_offset \<Rightarrow> new_offset - prev_offset
           | None \<Rightarrow> new_offset + 1)
      | None \<Rightarrow> 0)"

definition data_slice_num_records :: "data_slice \<Rightarrow> u64" where
  "data_slice_num_records d = oi_end (ds_offset_interval d) - oi_start (ds_offset_interval d) + 1"

section \<open>Event type flags (dtos_enum_flags_generated.rs)\<close>

type_synonym event_flags = u32

definition ADD_DATA :: event_flags where "ADD_DATA = push_bit 0 1"
definition EXECUTE_TRANSFORM :: event_flags where "EXECUTE_TRANSFORM = push_bit 1 1"
definition SEED :: event_flags where "SEED = push_bit 2 1"
definition SET_POLLING_SOURCE :: event_flags where "SET_POLLING_SOURCE = push_bit 3 1"
definition SET_TRANSFORM :: event_flags where "SET_TRANSFORM = push_bit 4 1"
definition SET_VOCAB :: event_flags where "SET_VOCAB = push_bit 5 1"
definition SET_ATTACHMENTS :: event_flags where "SET_ATTACHMENTS = push_bit 6 1"
definition SET_INFO :: event_flags where "SET_INFO = push_bit 7 1"
definition SET_LICENSE :: event_flags where "SET_LICENSE = push_bit 8 1"
definition SET_DATA_SCHEMA :: event_flags where "SET_DATA_SCHEMA = push_bit 9 1"
definition ADD_PUSH_SOURCE :: event_flags where "ADD_PUSH_SOURCE = push_bit 10 1"
definition DISABLE_PUSH_SOURCE :: event_flags where "DISABLE_PUSH_SOURCE = push_bit 11 1"
definition DISABLE_POLLING_SOURCE :: event_flags where "DISABLE_POLLING_SOURCE = push_bit 12 1"

definition DATA_BLOCK :: event_flags where
  "DATA_BLOCK = ADD_DATA OR EXECUTE_TRANSFORM"

fun event_flag :: "metadata_event \<Rightarrow> event_flags" where
  "event_flag (AddData _) = ADD_DATA"
| "event_flag (ExecuteTransform _) = EXECUTE_TRANSFORM"
| "event_flag (Seed _) = SEED"
| "event_flag (SetPollingSource _) = SET_POLLING_SOURCE"
| "event_flag (SetTransform _) = SET_TRANSFORM"
| "event_flag (SetVocab _) = SET_VOCAB"
| "event_flag (SetAttachments _) = SET_ATTACHMENTS"
| "event_flag (SetInfo _) = SET_INFO"
| "event_flag (SetLicense _) = SET_LICENSE"
| "event_flag (SetDataSchema _) = SET_DATA_SCHEMA"
| "event_flag (AddPushSource _) = ADD_PUSH_SOURCE"
| "event_flag (DisablePushSource _) = DISABLE_PUSH_SOURCE"
| "event_flag DisablePollingSource = DISABLE_POLLING_SOURCE"

text \<open>The operations of the \<open>bitflags\<close> type: \<open>contains\<close>, \<open>is_empty\<close> and \<open>-=\<close>.\<close>

definition flags_contains :: "event_flags \<Rightarrow> event_flags \<Rightarrow> bool" where
  "flags_contains fs f \<longleftrightarrow> fs AND f = f"

definition flags_is_empty :: "event_flags \<Rightarrow> bool" where
  "flags_is_empty fs \<longleftrightarrow> fs = 0"

definition flags_minus :: "event_flags \<Rightarrow> event_flags \<Rightarrow> event_flags" where
  "flags_minus fs f = fs AND NOT f"

lemmas flag_defs =
  ADD_DATA_def EXECUTE_TRANSFORM_def SEED_def SET_POLLING_SOURCE_def SET_TRANSFORM_def
  SET_VOCAB_def SET_ATTACHMENTS_def SET_INFO_def SET_LICENSE_def SET_DATA_SCHEMA_def
  ADD_PUSH_SOURCE_def DISABLE_PUSH_SOURCE_def DISABLE_POLLING_SOURCE_def DATA_BLOCK_def

lemmas flag_op_defs = flags_contains_def flags_is_empty_def flags_minus_def

section \<open>Data stream views (metadata_block_types.rs)\<close>

record data_stream_event =
  dse_prev_checkpoint :: "multihash option"
  dse_prev_offset :: "u64 option"
  dse_new_data :: "data_slice option"
  dse_new_checkpoint :: "checkpoint option"
  dse_new_watermark :: "datetime option"

definition data_stream_last_offset :: "data_stream_event \<Rightarrow> u64 option" where
  "data_stream_last_offset e =
     opt_or (map_option (\<lambda>d. oi_end (ds_offset_interval d)) (dse_new_data e)) (dse_prev_offset e)"

fun as_data_stream_event :: "metadata_event \<Rightarrow> data_stream_event option" where
  "as_data_stream_event (AddData e) =
     Some \<lparr>dse_prev_checkpoint = ad_prev_checkpoint e, dse_prev_offset = ad_prev_offset e,
           dse_new_data = ad_new_data e, dse_new_checkpoint = ad_new_checkpoint e,
           dse_new_watermark = ad_new_watermark e\<rparr>"
| "as_data_stream_event (ExecuteTransform e) =
     Some \<lparr>dse_prev_checkpoint = et_prev_checkpoint e, dse_prev_offset = et_prev_offset e,
           dse_new_data = et_new_data e, dse_new_checkpoint = et_new_checkpoint e,
           dse_new_watermark = et_new_watermark e\<rparr>"
| "as_data_stream_event _ = None"

record data_stream_block =
  dsb_system_time :: datetime
  dsb_prev_block_hash :: "multihash option"
  dsb_event :: data_stream_event

definition as_data_stream_block :: "metadata_block \<Rightarrow> data_stream_block option" where
  "as_data_stream_block b =
     map_option (\<lambda>e. \<lparr>dsb_system_time = system_time b, dsb_prev_block_hash = prev_block_hash b,
                      dsb_event = e\<rparr>)
       (as_data_stream_event (event b))"

section \<open>Changes of a dataset (dataset_changes_service.rs)\<close>

record dataset_increment =
  di_num_blocks :: u64
  di_num_records :: u64
  di_updated_watermark :: "datetime option"

section \<open>The outcome of a compaction (compaction_service.rs)\<close>

datatype compaction_result =
    CompactionNothingToDo
  | CompactionSuccess multihash multihash nat nat  \<comment> \<open>old head, new head, old and new number of blocks\<close>

section \<open>Messages on the life cycle of datasets (core_message_types.rs)\<close>

datatype dataset_visibility = VisibilityPrivate | VisibilityPublic

fun visibility_is_private :: "dataset_visibility \<Rightarrow> bool" where
  "visibility_is_private VisibilityPrivate = True"
| "visibility_is_private VisibilityPublic = False"

fun visibility_is_public :: "dataset_visibility \<Rightarrow> bool" where
  "visibility_is_public VisibilityPrivate = False"
| "visibility_is_public VisibilityPublic = True"

datatype dataset_lifecycle_message =
    LifecycleCreated dataset_id account_id dataset_visibility
  | LifecycleDependenciesUpdated dataset_id "dataset_id list"
  | LifecycleDeleted dataset_id

section \<open>Recognising events\<close>

text \<open>The patterns the validators match on, as predicates.\<close>

fun is_data_event :: "metadata_event \<Rightarrow> bool" where
  "is_data_event (AddData _) = True"
| "is_data_event (ExecuteTransform _) = True"
| "is_data_event _ = False"

lemma as_data_stream_event_None [simp]: "as_data_stream_event e = None \<longleftrightarrow> \<not> is_data_event e"
  by (cases e) auto

lemma as_data_stream_event_Some [simp]:
  "(\<exists>d. as_data_stream_event e = Some d) \<longleftrightarrow> is_data_event e"
  by (cases e) auto

lemma as_data_stream_block_None [simp]:
  "as_data_stream_block b = None \<longleftrightarrow> \<not> is_data_event (event b)"
  by (simp add: as_data_stream_block_def)

text \<open>
  An event flag is a single bit, at the position the generated table gives it; a flag set
  contains it exactly when that bit is set. This turns every test of the traversal into a
  statement about bit positions.
\<close>

fun event_bit :: "metadata_event \<Rightarrow> nat" where
  "event_bit (AddData _) = 0"
| "event_bit (ExecuteTransform _) = 1"
| "event_bit (Seed _) = 2"
| "event_bit (SetPollingSource _) = 3"
| "event_bit (SetTransform _) = 4"
| "event_bit (SetVocab _) = 5"
| "event_bit (SetAttachments _) = 6"
| "event_bit (SetInfo _) = 7"
| "event_bit (SetLicense _) = 8"
| "event_bit (SetDataSchema _) = 9"
| "event_bit (AddPushSource _) = 10"
| "event_bit (DisablePushSource _) = 11"
| "event_bit DisablePollingSource = 12"

lemma event_flag_bit: "event_flag e = push_bit (event_bit e) 1"
  by (cases e) (simp_all add: flag_defs)

lemma event_bit_lt: "event_bit e < 32"
  by (cases e) simp_all

lemma flags_contains_bit: "flags_contains fs (event_flag e) \<longleftrightarrow> bit fs (event_bit e)"
proof -
  have "fs AND push_bit n 1 = push_bit n 1 \<longleftrightarrow> bit fs n" if "n < 32" for n
  proof
    assume "fs AND push_bit n 1 = push_bit n 1"
    then have "bit (fs AND push_bit n 1) n \<longleftrightarrow> bit (push_bit n 1 :: u32) n" by simp
    with that show "bit fs n" by (simp add: bit_simps)
  next
    assume "bit fs n"
    then show "fs AND push_bit n 1 = push_bit n 1"
      by (intro bit_word_eqI) (auto simp: bit_simps)
  qed
  then show ?thesis by (simp add: flags_contains_def event_flag_bit event_bit_lt)
qed

lemma event_bit_discs [simp]:
  "event_bit e = 0 \<longleftrightarrow> is_AddData e"
  "event_bit e = Suc 0 \<longleftrightarrow> is_ExecuteTransform e"
  "event_bit e = 3 \<longleftrightarrow> is_SetPollingSource e"
  "event_bit e = 4 \<longleftrightarrow> is_SetTransform e"
  "event_bit e = 9 \<longleftrightarrow> is_SetDataSchema e"
  "event_bit e = 10 \<longleftrightarrow> is_AddPushSource e"
  by (cases e; simp)+

lemma is_data_event_discs: "is_data_event e \<longleftrightarrow> is_AddData e \<or> is_ExecuteTransform e"
  by (cases e) simp_all

lemma bit_flag: "m < 32 \<Longrightarrow> bit (push_bit n 1 :: u32) m \<longleftrightarrow> m = n"
  by (auto simp: bit_simps)

named_theorems flag_simps \<open>membership of event flags in the flag sets used by the code\<close>

lemma contains_flag [flag_simps]:
  "flags_contains ADD_DATA (event_flag e) \<longleftrightarrow> is_AddData e"
  "flags_contains EXECUTE_TRANSFORM (event_flag e) \<longleftrightarrow> is_ExecuteTransform e"
  "flags_contains SET_POLLING_SOURCE (event_flag e) \<longleftrightarrow> is_SetPollingSource e"
  "flags_contains SET_TRANSFORM (event_flag e) \<longleftrightarrow> is_SetTransform e"
  "flags_contains SET_DATA_SCHEMA (event_flag e) \<longleftrightarrow> is_SetDataSchema e"
  "flags_contains ADD_PUSH_SOURCE (event_flag e) \<longleftrightarrow> is_AddPushSource e"
  unfolding flags_contains_bit flag_defs bit_flag [OF event_bit_lt]
  by simp_all

lemma contains_or [flag_simps]:
  "flags_contains (f OR g) (event_flag e) \<longleftrightarrow>
     flags_contains f (event_flag e) \<or> flags_contains g (event_flag e)"
  by (simp add: flags_contains_bit bit_simps)

lemma contains_minus [flag_simps]:
  "flags_contains (flags_minus f g) (event_flag e) \<longleftrightarrow>
     flags_contains f (event_flag e) \<and> \<not> flags_contains g (event_flag e)"
  by (auto simp: flags_contains_bit flags_minus_def bit_simps event_bit_lt)

lemma contains_data_block [flag_simps]:
  "flags_contains DATA_BLOCK (event_flag e) \<longleftrightarrow> is_data_event e"
  by (simp add: DATA_BLOCK_def flag_simps is_data_event_discs)

lemma contains_empty [flag_simps]:
  "flags_is_empty fs \<Longrightarrow> \<not> flags_contains fs (event_flag e)"
  by (simp add: flags_is_empty_def flags_contains_bit)

end
