(* ===== verification/Chain_Repos.thy ===== *)
theory Chain_Repos
  imports Odf_Metadata
begin

text \<open>
  The storage below a metadata chain: the in-memory object repository
  (\<open>object_repository_in_memory.rs\<close>), the in-memory named object repository
  (\<open>named_object_repository_in_memory.rs\<close>), the block repository over the former
  (\<open>metadata_block_repository_impl.rs\<close>) and the reference repository over the latter
  (\<open>reference_repository_impl.rs\<close>). The locales \<open>block_store\<close> and \<open>ref_store\<close> are the contracts
  the chain relies on; both are interpreted on the models here.
\<close>

section \<open>Object repository\<close>

type_synonym bytes = "u8 list"
type_synonym object_repo = "multihash \<rightharpoonup> bytes"

datatype access_error = ReadOnly | Unauthorized | Forbidden

datatype get_error = GetNotFound multihash | GetAccess access_error | GetInternal string

datatype insert_error =
    HashMismatch multihash multihash  \<comment> \<open>expected, actual\<close>
  | InsertAccess access_error
  | InsertInternal string

record insert_opts =
  io_precomputed_hash :: "multihash option"
  io_expected_hash :: "multihash option"

definition obj_contains :: "object_repo \<Rightarrow> multihash \<Rightarrow> bool" where
  "obj_contains r h \<longleftrightarrow> h \<in> dom r"

definition obj_get_bytes :: "object_repo \<Rightarrow> multihash \<Rightarrow> get_error + bytes" where
  "obj_get_bytes r h = (case r h of Some bytes \<Rightarrow> Inr bytes | None \<Rightarrow> Inl (GetNotFound h))"

definition obj_get_size :: "object_repo \<Rightarrow> multihash \<Rightarrow> get_error + u64" where
  "obj_get_size r h =
     (case r h of Some bytes \<Rightarrow> Inr (of_nat (length bytes)) | None \<Rightarrow> Inl (GetNotFound h))"

definition obj_insert_bytes ::
  "externs \<Rightarrow> object_repo \<Rightarrow> bytes \<Rightarrow> insert_opts \<Rightarrow> (insert_error, multihash \<times> object_repo) res" where
  "obj_insert_bytes x r data opts =
     and_then
       (case io_precomputed_hash opts of
          Some hash \<Rightarrow> Inr hash
        | None \<Rightarrow>
            (case multihash_from_digest_sha3_256 x data of
               Inr hash \<Rightarrow> Inr hash
             | Inl _ \<Rightarrow> Inl (Panic ''Buffer too small'')))
       (\<lambda>hash.
         (case io_expected_hash opts of
            Some expected \<Rightarrow>
              if expected \<noteq> hash then Inl (Fail (HashMismatch expected hash))
              else Inr (hash, r(hash \<mapsto> data))
          | None \<Rightarrow> Inr (hash, r(hash \<mapsto> data))))"

definition obj_delete :: "object_repo \<Rightarrow> multihash \<Rightarrow> object_repo" where
  "obj_delete r h = r(h := None)"

section \<open>Named object repository\<close>

type_synonym named_repo = "string \<rightharpoonup> bytes"

datatype get_named_error = NamedNotFound string | NamedAccess access_error | NamedInternal string

definition named_get :: "named_repo \<Rightarrow> string \<Rightarrow> get_named_error + bytes" where
  "named_get r name = (case r name of Some bytes \<Rightarrow> Inr bytes | None \<Rightarrow> Inl (NamedNotFound name))"

definition named_set :: "named_repo \<Rightarrow> string \<Rightarrow> bytes \<Rightarrow> named_repo" where
  "named_set r name data = r(name \<mapsto> data)"

definition named_delete :: "named_repo \<Rightarrow> string \<Rightarrow> named_repo" where
  "named_delete r name = r(name := None)"

section \<open>Block repository\<close>

text \<open>
  The flatbuffers manifest format (\<open>serde/flatbuffers\<close>) is generated code over a third-party
  runtime and stays abstract: a \<open>codec\<close> is a pair of the serializer and the deserializer. The
  deserializer's error tells unsupported versions from everything else, which is all the
  repository looks at.
\<close>

datatype serde_error = UnsupportedVersion | OtherSerde string

record codec =
  write_manifest :: "metadata_block \<Rightarrow> serde_error + bytes"
  read_manifest :: "bytes \<Rightarrow> serde_error + metadata_block"

definition codec_ok_on :: "codec \<Rightarrow> metadata_block \<Rightarrow> bool" where
  "codec_ok_on cd b \<longleftrightarrow>
     (case write_manifest cd b of Inl _ \<Rightarrow> False | Inr bytes \<Rightarrow> read_manifest cd bytes = Inr b)"

datatype get_block_error =
    BlockNotFound multihash
  | BlockVersion multihash
  | BlockMalformed multihash
  | BlockAccess access_error
  | BlockInternal string

fun get_block_error_of_get :: "get_error \<Rightarrow> get_block_error" where
  "get_block_error_of_get (GetNotFound h) = BlockNotFound h"
| "get_block_error_of_get (GetAccess e) = BlockAccess e"
| "get_block_error_of_get (GetInternal m) = BlockInternal m"

definition deserialize_metadata_block ::
  "codec \<Rightarrow> multihash \<Rightarrow> bytes \<Rightarrow> get_block_error + metadata_block" where
  "deserialize_metadata_block cd h bytes =
     map_err (\<lambda>e. case e of UnsupportedVersion \<Rightarrow> BlockVersion h | _ \<Rightarrow> BlockMalformed h)
       (read_manifest cd bytes)"

definition repo_contains_block :: "object_repo \<Rightarrow> multihash \<Rightarrow> bool" where
  "repo_contains_block r h = obj_contains r h"

definition repo_get_block ::
  "codec \<Rightarrow> object_repo \<Rightarrow> multihash \<Rightarrow> get_block_error + metadata_block" where
  "repo_get_block cd r h =
     and_then (map_err get_block_error_of_get (obj_get_bytes r h)) (deserialize_metadata_block cd h)"

definition repo_insert_block_data ::
  "externs \<Rightarrow> object_repo \<Rightarrow> bytes \<Rightarrow> insert_opts \<Rightarrow> (insert_error, multihash \<times> object_repo) res" where
  "repo_insert_block_data x r data opts = obj_insert_bytes x r data opts"

definition repo_insert_block ::
  "externs \<Rightarrow> codec \<Rightarrow> object_repo \<Rightarrow> metadata_block \<Rightarrow> insert_opts \<Rightarrow>
   (insert_error, multihash \<times> object_repo) res" where
  "repo_insert_block x cd r b opts =
     and_then (map_err (\<lambda>_. Fail (InsertInternal ''serializer'')) (write_manifest cd b))
       (\<lambda>data. repo_insert_block_data x r data opts)"

subsection \<open>The contract of a block store\<close>

text \<open>
  \<open>sound r b h\<close> says that storing \<open>b\<close> under \<open>h\<close> loses nothing: the block survives serialization
  and \<open>h\<close> does not already name different contents. Under it, an insertion makes the block
  readable and leaves every other block as it was.
\<close>

locale block_store =
  fixes get_block :: "'r \<Rightarrow> multihash \<Rightarrow> get_block_error + metadata_block"
    and insert_block :: "'r \<Rightarrow> metadata_block \<Rightarrow> insert_opts \<Rightarrow> (insert_error, multihash \<times> 'r) res"
    and sound :: "'r \<Rightarrow> metadata_block \<Rightarrow> multihash \<Rightarrow> bool"
  assumes get_inserted:
      "insert_block r b opts = Inr (h, r') \<Longrightarrow> sound r b h \<Longrightarrow> get_block r' h = Inr b"
    and get_other:
      "insert_block r b opts = Inr (h, r') \<Longrightarrow> k \<noteq> h \<Longrightarrow> get_block r' k = get_block r k"
    and sound_present:
      "sound r b h \<Longrightarrow> get_block r h = Inr b' \<Longrightarrow> b' = b"
begin

lemma get_preserved:
  assumes "insert_block r b opts = Inr (h, r')" and "sound r b h" and "get_block r k = Inr b'"
  shows "get_block r' k = Inr b'"
proof (cases "k = h")
  case True
  with assms have "b' = b" by (blast dest: sound_present)
  with True assms show ?thesis by (simp add: get_inserted)
next
  case False
  with assms show ?thesis by (simp add: get_other)
qed

end

text \<open>
  The chain reachable from a block: the blocks met by following \<open>prev_block_hash\<close>, newest
  first, down to the block without predecessor.
\<close>

inductive chain_at :: "(multihash \<Rightarrow> get_block_error + metadata_block) \<Rightarrow> multihash \<Rightarrow>
    (multihash \<times> metadata_block) list \<Rightarrow> bool" for get where
  chain_root: "get h = Inr b \<Longrightarrow> prev_block_hash b = None \<Longrightarrow> chain_at get h [(h, b)]"
| chain_step: "get h = Inr b \<Longrightarrow> prev_block_hash b = Some p \<Longrightarrow> chain_at get p bs \<Longrightarrow>
    chain_at get h ((h, b) # bs)"

inductive_cases chain_at_NilE: "chain_at get h []"
inductive_cases chain_at_ConsE: "chain_at get h (hb # bs)"

lemma chain_at_nonempty: "chain_at get h bs \<Longrightarrow> bs \<noteq> []"
  by (auto elim: chain_at_NilE)

lemma chain_at_hd: "chain_at get h bs \<Longrightarrow> \<exists>b. hd bs = (h, b) \<and> get h = Inr b"
  by (auto elim: chain_at.cases)

lemma chain_at_unique: "chain_at get h bs \<Longrightarrow> chain_at get h cs \<Longrightarrow> bs = cs"
proof (induction arbitrary: cs rule: chain_at.induct)
  case (chain_root h b)
  from chain_root.prems chain_root.hyps show ?case by (auto elim: chain_at.cases)
next
  case (chain_step h b p bs)
  from chain_step.prems chain_step.hyps obtain cs' where "cs = (h, b) # cs'" "chain_at get p cs'"
    by (auto elim: chain_at.cases)
  with chain_step.IH show ?case by simp
qed

lemma chain_at_get: "chain_at get h bs \<Longrightarrow> (k, b) \<in> set bs \<Longrightarrow> get k = Inr b"
  by (induction rule: chain_at.induct) auto

lemma chain_at_last: "chain_at get h bs \<Longrightarrow> prev_block_hash (snd (last bs)) = None"
  by (induction rule: chain_at.induct) (auto simp: chain_at_nonempty)

lemma chain_at_butlast:
  "chain_at get h bs \<Longrightarrow> hb \<in> set (butlast bs) \<Longrightarrow> prev_block_hash (snd hb) \<noteq> None"
  by (induction rule: chain_at.induct) (auto split: if_splits)

lemma chain_at_mono:
  assumes "chain_at get h bs" and "\<And>k b. get k = Inr b \<Longrightarrow> get' k = Inr b"
  shows "chain_at get' h bs"
  using assms(1) by induction (auto intro: chain_at.intros assms(2))

context block_store begin

text \<open>An insertion keeps every existing chain, and extends the one it links to.\<close>

lemma chain_preserved:
  assumes "insert_block r b opts = Inr (h, r')" and "sound r b h"
    and "chain_at (get_block r) k bs"
  shows "chain_at (get_block r') k bs"
  using assms(3) by (rule chain_at_mono) (rule get_preserved [OF assms(1,2)])

lemma chain_extended:
  assumes "insert_block r b opts = Inr (h, r')" and "sound r b h"
    and "prev_block_hash b = Some p" and "chain_at (get_block r) p bs"
  shows "chain_at (get_block r') h ((h, b) # bs)"
  using get_inserted [OF assms(1,2)] assms(3) chain_preserved [OF assms(1,2,4)]
  by (rule chain_step)

lemma chain_started:
  assumes "insert_block r b opts = Inr (h, r')" and "sound r b h" and "prev_block_hash b = None"
  shows "chain_at (get_block r') h [(h, b)]"
  using get_inserted [OF assms(1,2)] assms(3) by (rule chain_root)

end

definition insert_sound :: "codec \<Rightarrow> object_repo \<Rightarrow> metadata_block \<Rightarrow> multihash \<Rightarrow> bool" where
  "insert_sound cd r b h \<longleftrightarrow>
     codec_ok_on cd b
     \<and> (case write_manifest cd b of Inl _ \<Rightarrow> True | Inr data \<Rightarrow> r h = None \<or> r h = Some data)"

lemma repo_insert_block_Inr:
  assumes "repo_insert_block x cd r b opts = Inr (h, r')"
  shows "\<exists>data. write_manifest cd b = Inr data \<and> r' = r(h \<mapsto> data)
           \<and> (\<forall>e. io_expected_hash opts = Some e \<longrightarrow> e = h)
           \<and> (\<forall>p. io_precomputed_hash opts = Some p \<longrightarrow> p = h)
           \<and> (io_precomputed_hash opts = None \<longrightarrow> multihash_from_digest_sha3_256 x data = Inr h)"
  using assms
  by (auto simp: repo_insert_block_def repo_insert_block_data_def obj_insert_bytes_def res_simps
      split: option.splits sum.splits if_splits)

interpretation mem_blocks: block_store "repo_get_block cd" "repo_insert_block x cd" "insert_sound cd"
  for x cd
proof unfold_locales
  fix r b opts h r' k b'
  show "repo_get_block cd r' h = Inr b"
    if "repo_insert_block x cd r b opts = Inr (h, r')" "insert_sound cd r b h"
    using that repo_insert_block_Inr [OF that(1)]
    by (auto simp: repo_get_block_def obj_get_bytes_def deserialize_metadata_block_def
        insert_sound_def codec_ok_on_def)
  show "repo_get_block cd r' k = repo_get_block cd r k"
    if "repo_insert_block x cd r b opts = Inr (h, r')" "k \<noteq> h"
    using that(2) repo_insert_block_Inr [OF that(1)]
    by (auto simp: repo_get_block_def obj_get_bytes_def)
  show "b' = b" if "insert_sound cd r b h" "repo_get_block cd r h = Inr b'"
    using that
    by (auto simp: repo_get_block_def obj_get_bytes_def deserialize_metadata_block_def
        insert_sound_def codec_ok_on_def res_simps split: option.splits sum.splits)
qed

section \<open>Reference repository\<close>

datatype block_ref = Head

fun block_ref_as_str :: "block_ref \<Rightarrow> string" where
  "block_ref_as_str Head = ''head''"

datatype get_ref_error = RefNotFound block_ref | RefAccess access_error | RefInternal string

text \<open>\<open>std::str::from_utf8\<close>: well-formed byte sequences of the Unicode standard.\<close>

definition utf8_cont :: "u8 \<Rightarrow> bool" where
  "utf8_cont b \<longleftrightarrow> 0x80 \<le> b \<and> b \<le> 0xBF"

fun valid_utf8 :: "bytes \<Rightarrow> bool" where
  "valid_utf8 [] = True"
| "valid_utf8 (b # bs) =
     (if b < 0x80 then valid_utf8 bs
      else case bs of
        [] \<Rightarrow> False
      | c # cs \<Rightarrow>
          if 0xC2 \<le> b \<and> b \<le> 0xDF then utf8_cont c \<and> valid_utf8 cs
          else (case cs of
            [] \<Rightarrow> False
          | d # ds \<Rightarrow>
              if 0xE0 \<le> b \<and> b \<le> 0xEF then
                utf8_cont c \<and> (b = 0xE0 \<longrightarrow> 0xA0 \<le> c) \<and> (b = 0xED \<longrightarrow> c \<le> 0x9F)
                \<and> utf8_cont d \<and> valid_utf8 ds
              else (case ds of
                [] \<Rightarrow> False
              | e # es \<Rightarrow>
                  0xF0 \<le> b \<and> b \<le> 0xF4 \<and> utf8_cont c \<and> (b = 0xF0 \<longrightarrow> 0x90 \<le> c)
                  \<and> (b = 0xF4 \<longrightarrow> c \<le> 0x8F) \<and> utf8_cont d \<and> utf8_cont e \<and> valid_utf8 es)))"

lemma valid_utf8_ascii: "\<forall>b \<in> set bs. b < 128 \<Longrightarrow> valid_utf8 bs"
  by (induction bs) auto

definition ref_get :: "externs \<Rightarrow> named_repo \<Rightarrow> block_ref \<Rightarrow> (get_ref_error, multihash) res" where
  "ref_get x repo r =
     (case named_get repo (block_ref_as_str r) of
        Inl (NamedNotFound _) \<Rightarrow> Inl (Fail (RefNotFound r))
      | Inl (NamedAccess e) \<Rightarrow> Inl (Fail (RefAccess e))
      | Inl (NamedInternal m) \<Rightarrow> Inl (Fail (RefInternal m))
      | Inr data \<Rightarrow>
          if \<not> valid_utf8 data then Inl (Fail (RefInternal ''utf8''))
          else (case multihash_from_multibase x data of
                  Inl (Panic m) \<Rightarrow> Inl (Panic m)
                | Inl (Fail _) \<Rightarrow> Inl (Fail (RefInternal ''multihash''))
                | Inr h \<Rightarrow> Inr h))"

definition ref_set :: "externs \<Rightarrow> named_repo \<Rightarrow> block_ref \<Rightarrow> multihash \<Rightarrow> (unit, named_repo) res" where
  "ref_set x repo r h =
     and_then (multihash_to_text x h) (\<lambda>text. Inr (named_set repo (block_ref_as_str r) text))"

definition ref_delete :: "named_repo \<Rightarrow> block_ref \<Rightarrow> named_repo" where
  "ref_delete repo r = named_delete repo (block_ref_as_str r)"

subsection \<open>The contract of a reference store\<close>

text \<open>A reference that was set reads back; an absent one reports that it is not found.\<close>

locale ref_store =
  fixes get_ref :: "'r \<Rightarrow> block_ref \<Rightarrow> (get_ref_error, multihash) res"
    and set_ref :: "'r \<Rightarrow> block_ref \<Rightarrow> multihash \<Rightarrow> (unit, 'r) res"
    and valid_hash :: "multihash \<Rightarrow> bool"
    and env_ok :: bool
  assumes set_succeeds: "env_ok \<Longrightarrow> valid_hash h \<Longrightarrow> \<exists>s'. set_ref s r h = Inr s'"
    and get_after_set: "env_ok \<Longrightarrow> valid_hash h \<Longrightarrow> set_ref s r h = Inr s' \<Longrightarrow> get_ref s' r = Inr h"
begin

lemma set_get:
  assumes "env_ok" and "valid_hash h"
  shows "\<exists>s'. set_ref s r h = Inr s' \<and> get_ref s' r = Inr h"
  using assms set_succeeds get_after_set by blast

end

interpretation mem_refs: ref_store "ref_get x" "ref_set x" wf_multihash "externs_ok x" for x
proof unfold_locales
  fix h s r s'
  show "\<exists>s'. ref_set x s r h = Inr s'" if "externs_ok x" "wf_multihash h"
    using multihash_text_roundtrip_aux [OF that] by (auto simp: ref_set_def)
  show "ref_get x s' r = Inr h"
    if "externs_ok x" "wf_multihash h" "ref_set x s r h = Inr s'"
    using multihash_text_roundtrip_aux [OF that(1,2)] that(3)
    by (auto simp: ref_set_def ref_get_def named_get_def named_set_def valid_utf8_ascii)
qed

lemma ref_get_empty [simp]: "ref_get x Map.empty r = Inl (Fail (RefNotFound r))"
  by (simp add: ref_get_def named_get_def)

end
