(* ===== verification/Chain_Visitors.thy ===== *)
theory Chain_Visitors
  imports Chain_Repos
begin

text \<open>
  Visiting a metadata chain: the visitor trait of \<open>metadata_chain_visitor.rs\<close>, the errors of a
  traversal and the single-pass traversal \<open>accept_by_interval\<close> of \<open>metadata_chain.rs\<close> that
  serves many visitors at once. The traversal follows hashes through a store, so it is a
  \<open>partial_function\<close>; on a chain it terminates and equals a recursion over the list of blocks,
  and its outcome is that of each visitor run on its own.
\<close>

section \<open>Decisions and visitors (metadata_chain_visitor.rs)\<close>

type_synonym hashed_block = "multihash \<times> metadata_block"

datatype decision =
    Stop
  | Next
  | NextWithHash multihash
  | NextOfType event_flags

text \<open>The trait \<open>MetadataChainVisitor\<close> as a record of its methods.\<close>

record ('v, 'e) visitor_ops =
  initial_decision :: "'v \<Rightarrow> decision"
  visit :: "'v \<Rightarrow> hashed_block \<Rightarrow> ('e, 'v \<times> decision) res"
  finish :: "'v \<Rightarrow> ('e, unit) res"

section \<open>Traversal errors (metadata_chain.rs)\<close>

datatype iter_blocks_error =
    IterRefNotFound block_ref
  | IterBlockNotFound multihash
  | IterBlockVersion multihash
  | IterBlockMalformed multihash
  | IterInvalidInterval multihash multihash
  | IterAccess access_error
  | IterInternal string

fun iter_error_of_get_ref :: "get_ref_error \<Rightarrow> iter_blocks_error" where
  "iter_error_of_get_ref (RefNotFound r) = IterRefNotFound r"
| "iter_error_of_get_ref (RefAccess e) = IterAccess e"
| "iter_error_of_get_ref (RefInternal m) = IterInternal m"

fun iter_error_of_get_block :: "get_block_error \<Rightarrow> iter_blocks_error" where
  "iter_error_of_get_block (BlockNotFound h) = IterBlockNotFound h"
| "iter_error_of_get_block (BlockVersion h) = IterBlockVersion h"
| "iter_error_of_get_block (BlockMalformed h) = IterBlockMalformed h"
| "iter_error_of_get_block (BlockAccess e) = IterAccess e"
| "iter_error_of_get_block (BlockInternal m) = IterInternal m"

datatype 'e accept_error = Traversal iter_blocks_error | Visitor 'e

fun visitor_fault :: "'e fault \<Rightarrow> 'e accept_error fault" where
  "visitor_fault (Panic m) = Panic m"
| "visitor_fault (Fail e) = Fail (Visitor e)"

lemma visitor_fault_Panic [simp]:
  "visitor_fault f = Panic m \<longleftrightarrow> f = Panic m" "Panic m = visitor_fault f \<longleftrightarrow> f = Panic m"
  by (cases f; auto)+

section \<open>One block, all visitors\<close>

text \<open>
  The body of the inner loop: whether the visitor counted as stopped, and its decision and
  state afterwards.
\<close>

fun visit_step :: "('v, 'e) visitor_ops \<Rightarrow> hashed_block \<Rightarrow> decision \<times> 'v \<Rightarrow>
    ('e, bool \<times> decision \<times> 'v) res" where
  "visit_step ops hb (Stop, v) = Inr (True, Stop, v)"
| "visit_step ops hb (Next, v) =
     and_then (visit ops v hb) (\<lambda>(v', d'). Inr (False, d', v'))"
| "visit_step ops hb (NextWithHash h, v) =
     (if fst hb = h then and_then (visit ops v hb) (\<lambda>(v', d'). Inr (False, d', v'))
      else Inr (False, NextWithHash h, v))"
| "visit_step ops hb (NextOfType fs, v) =
     (if flags_is_empty fs then Inr (True, Stop, v)
      else if flags_contains fs (event_flag (event (snd hb)))
           then and_then (visit ops v hb) (\<lambda>(v', d'). Inr (False, d', v'))
      else Inr (False, NextOfType fs, v))"

fun visit_block :: "('v, 'e) visitor_ops \<Rightarrow> hashed_block \<Rightarrow> (decision \<times> 'v) list \<Rightarrow>
    ('e, nat \<times> (decision \<times> 'v) list) res" where
  "visit_block ops hb [] = Inr (0, [])"
| "visit_block ops hb (dv # dvs) =
     and_then (visit_step ops hb dv) (\<lambda>(stopped, dv').
     and_then (visit_block ops hb dvs) (\<lambda>(n, dvs').
       Inr ((if stopped then Suc n else n), dv' # dvs')))"

section \<open>The traversal (accept_by_interval)\<close>

partial_function (option) accept_loop ::
  "(multihash \<Rightarrow> get_block_error + metadata_block) \<Rightarrow> ('v, 'e) visitor_ops \<Rightarrow> multihash option \<Rightarrow>
   multihash option \<Rightarrow> bool \<Rightarrow> (decision \<times> 'v) list \<Rightarrow>
   ('e accept_error, (decision \<times> 'v) list) res option" where
  "accept_loop get ops tail current all_finished dvs =
     (case current of
        None \<Rightarrow> Some (Inr dvs)
      | Some hash \<Rightarrow>
          if all_finished \<or> tail = Some hash then Some (Inr dvs)
          else (case get hash of
                  Inl e \<Rightarrow> Some (Inl (Fail (Traversal (iter_error_of_get_block e))))
                | Inr block \<Rightarrow>
                    (case visit_block ops (hash, block) dvs of
                       Inl f \<Rightarrow> Some (Inl (visitor_fault f))
                     | Inr (stopped, dvs') \<Rightarrow>
                         accept_loop get ops tail (prev_block_hash block)
                           (length dvs = stopped) dvs')))"

declare accept_loop.simps [code]

definition finish_all :: "('v, 'e) visitor_ops \<Rightarrow> 'v list \<Rightarrow> ('e accept_error, unit) res" where
  "finish_all ops vs = try_each (\<lambda>v. map_err visitor_fault (finish ops v)) vs"

definition accept_by_interval ::
  "(multihash \<Rightarrow> get_block_error + metadata_block) \<Rightarrow> ('v, 'e) visitor_ops \<Rightarrow> 'v list \<Rightarrow>
   multihash option \<Rightarrow> multihash option \<Rightarrow> ('e accept_error, 'v list) res option" where
  "accept_by_interval get ops visitors head_hash tail_hash =
     (case accept_loop get ops tail_hash head_hash False
             (map (\<lambda>v. (initial_decision ops v, v)) visitors) of
        None \<Rightarrow> None
      | Some (Inl f) \<Rightarrow> Some (Inl f)
      | Some (Inr dvs) \<Rightarrow>
          Some (and_then (finish_all ops (map snd dvs)) (\<lambda>_. Inr (map snd dvs))))"

definition accept_by_hash ::
  "(multihash \<Rightarrow> get_block_error + metadata_block) \<Rightarrow> ('v, 'e) visitor_ops \<Rightarrow> 'v list \<Rightarrow>
   multihash \<Rightarrow> ('e accept_error, 'v list) res option" where
  "accept_by_hash get ops visitors head_hash =
     accept_by_interval get ops visitors (Some head_hash) None"

section \<open>The traversal over a list of blocks\<close>

fun accept_list :: "('v, 'e) visitor_ops \<Rightarrow> bool \<Rightarrow> (decision \<times> 'v) list \<Rightarrow> hashed_block list \<Rightarrow>
    ('e, (decision \<times> 'v) list) res" where
  "accept_list ops fin dvs [] = Inr dvs"
| "accept_list ops fin dvs (hb # hbs) =
     (if fin then Inr dvs
      else and_then (visit_block ops hb dvs)
             (\<lambda>(n, dvs'). accept_list ops (length dvs = n) dvs' hbs))"

definition before_tail :: "multihash option \<Rightarrow> hashed_block list \<Rightarrow> hashed_block list" where
  "before_tail tail bs = takeWhile (\<lambda>hb. tail \<noteq> Some (fst hb)) bs"

lemma before_tail_None [simp]: "before_tail None bs = bs"
  by (simp add: before_tail_def)

lemma accept_list_fin [simp]: "accept_list ops True dvs bs = Inr dvs"
  by (cases bs) simp_all

lemma accept_loop_chain:
  assumes "chain_at get h bs"
  shows "accept_loop get ops tail (Some h) fin dvs =
           Some (map_err visitor_fault (accept_list ops fin dvs (before_tail tail bs)))"
  using assms
proof (induction arbitrary: fin dvs rule: chain_at.induct)
  case (chain_root h b)
  then show ?case
    by (simp add: accept_loop.simps before_tail_def split: sum.split)
next
  case (chain_step h b p bs)
  show ?case
  proof (cases "fin \<or> tail = Some h")
    case True
    then show ?thesis
      by (auto simp: accept_loop.simps [of get ops tail "Some h"] before_tail_def)
  next
    case False
    with chain_step show ?thesis
      by (auto simp: accept_loop.simps [of get ops tail "Some h"] before_tail_def split: sum.split)
  qed
qed

lemma accept_by_interval_chain:
  assumes "chain_at get h bs"
  shows "accept_by_interval get ops vs (Some h) tail =
           Some (and_then
             (map_err visitor_fault
               (accept_list ops False (map (\<lambda>v. (initial_decision ops v, v)) vs) (before_tail tail bs)))
             (\<lambda>dvs. and_then (finish_all ops (map snd dvs)) (\<lambda>_. Inr (map snd dvs))))"
  by (simp add: accept_by_interval_def accept_loop_chain [OF assms] split: sum.split)

lemma accept_by_interval_None:
  "accept_by_interval get ops vs None tail =
     Some (and_then (finish_all ops vs) (\<lambda>_. Inr vs))"
  by (simp add: accept_by_interval_def accept_loop.simps comp_def)

section \<open>Visitors do not interfere\<close>

text \<open>One visitor on its own, over the whole list.\<close>

fun run_visitor :: "('v, 'e) visitor_ops \<Rightarrow> decision \<times> 'v \<Rightarrow> hashed_block list \<Rightarrow>
    ('e, decision \<times> 'v) res" where
  "run_visitor ops dv [] = Inr dv"
| "run_visitor ops dv (hb # hbs) =
     and_then (visit_step ops hb dv) (\<lambda>(_, dv'). run_visitor ops dv' hbs)"

lemma run_visitor_Stop [simp]: "run_visitor ops (Stop, v) bs = Inr (Stop, v)"
  by (induction bs) simp_all

lemma visit_step_stopped: "visit_step ops hb dv = Inr (True, dv') \<Longrightarrow> fst dv' = Stop"
  by (cases "(ops, hb, dv)" rule: visit_step.cases) (auto simp: res_simps split: if_splits)

lemma visit_block_ok:
  "visit_block ops hb dvs = Inr (n, dvs') \<Longrightarrow>
     list_all2 (\<lambda>dv dv'. \<exists>s. visit_step ops hb dv = Inr (s, dv')) dvs dvs'
     \<and> n \<le> length dvs \<and> (length dvs = n \<longrightarrow> (\<forall>dv' \<in> set dvs'. fst dv' = Stop))"
proof (induction dvs arbitrary: n dvs')
  case Nil
  then show ?case by simp
next
  case (Cons dv dvs)
  then obtain s dv' m ds where s: "visit_step ops hb dv = Inr (s, dv')"
    and m: "visit_block ops hb dvs = Inr (m, ds)"
    and n: "n = (if s then Suc m else m)" "dvs' = dv' # ds"
    by (auto simp: res_simps)
  from Cons.IH [OF m] s n show ?case
    by (auto dest: visit_step_stopped split: if_splits)
qed

lemma visit_block_total:
  assumes "\<forall>dv \<in> set dvs. \<exists>r. visit_step ops hb dv = Inr r"
  shows "\<exists>r. visit_block ops hb dvs = Inr r"
  using assms
proof (induction dvs)
  case (Cons dv dvs)
  then obtain s dv' r where "visit_step ops hb dv = Inr (s, dv')" "visit_block ops hb dvs = Inr r"
    by (metis list.set_intros prod.exhaust)
  then show ?case by (cases r) simp
qed simp

lemma run_visitor_all_Stop:
  "\<forall>dv \<in> set dvs. fst dv = Stop \<Longrightarrow>
     list_all2 (\<lambda>dv dv'. run_visitor ops dv bs = Inr dv') dvs dvs' \<longleftrightarrow> dvs' = dvs"
proof (induction dvs arbitrary: dvs')
  case (Cons dv dvs)
  then show ?case by (cases dv; cases dvs') auto
qed simp

text \<open>
  The shared pass succeeds exactly when every visitor's own pass does, with the same final
  states: no visitor observes the others, and stopping early loses nothing.
\<close>

lemma list_all2_fun_comp:
  assumes "list_all2 (\<lambda>a b. f a = Inr b) xs ys"
  shows "list_all2 (\<lambda>a c. and_then (f a) g = Inr c) xs zs \<longleftrightarrow>
         list_all2 (\<lambda>b c. g b = Inr c) ys zs"
  using assms
proof (induction xs ys arbitrary: zs rule: list_all2_induct)
  case (Cons x xs y ys)
  then show ?case by (cases zs) auto
qed simp

lemma accept_list_ok:
  assumes "fin \<longrightarrow> (\<forall>dv \<in> set dvs. fst dv = Stop)"
  shows "accept_list ops fin dvs bs = Inr dvs' \<longleftrightarrow>
           list_all2 (\<lambda>dv dv'. run_visitor ops dv bs = Inr dv') dvs dvs'"
  using assms
proof (induction bs arbitrary: fin dvs)
  case Nil
  show ?case by (auto simp: list_all2_eq [symmetric])
next
  case (Cons hb bs)
  let ?step = "\<lambda>dv. map_err (\<lambda>e. e) (and_then (visit_step ops hb dv) (\<lambda>(_, dv'). Inr dv'))"
  have run: "run_visitor ops dv (hb # bs) = and_then (?step dv) (\<lambda>dv. run_visitor ops dv bs)" for dv
    by (cases "visit_step ops hb dv") auto
  show ?case
  proof (cases fin)
    case True
    with Cons.prems run_visitor_all_Stop [of dvs ops "hb # bs" dvs'] show ?thesis
      by (auto simp del: run_visitor.simps)
  next
    case False
    show ?thesis
    proof (cases "visit_block ops hb dvs")
      case (Inl f)
      then have "\<not> (\<forall>dv \<in> set dvs. \<exists>r. visit_step ops hb dv = Inr r)"
        using visit_block_total [of dvs ops hb] by force
      then have "\<not> list_all2 (\<lambda>dv dv'. run_visitor ops dv (hb # bs) = Inr dv') dvs dvs'"
        by (force simp: list_all2_conv_all_nth in_set_conv_nth res_simps)
      with False Inl show ?thesis by simp
    next
      case (Inr r)
      then obtain n ds where r: "visit_block ops hb dvs = Inr (n, ds)" by (cases r) auto
      note ok = visit_block_ok [OF r]
      have "list_all2 (\<lambda>dv dv'. ?step dv = Inr dv') dvs ds"
        using conjunct1 [OF ok] by (rule list_all2_mono) (auto simp: res_simps)
      from list_all2_fun_comp [OF this, of "\<lambda>dv. run_visitor ops dv bs" dvs']
      have "list_all2 (\<lambda>dv dv'. run_visitor ops dv (hb # bs) = Inr dv') dvs dvs' \<longleftrightarrow>
            list_all2 (\<lambda>dv dv'. run_visitor ops dv bs = Inr dv') ds dvs'"
        by (simp only: run)
      moreover have "accept_list ops (length dvs = n) ds bs = Inr dvs' \<longleftrightarrow>
            list_all2 (\<lambda>dv dv'. run_visitor ops dv bs = Inr dv') ds dvs'"
        by (rule Cons.IH) (use ok in blast)
      ultimately show ?thesis using False r by simp
    qed
  qed
qed

section \<open>The contract of a visitor\<close>

text \<open>
  A visitor answers each visit with the kind of block it wants next, and may rely on being
  shown only such blocks: many of them reach \<open>unreachable!\<close> otherwise. \<open>vinv d v\<close> is what the
  visitor's state satisfies while its decision is \<open>d\<close>, and \<open>block_ok\<close> what it assumes of
  the blocks of the chain. Under that contract the traversal never panics.
\<close>

fun wants :: "decision \<Rightarrow> hashed_block \<Rightarrow> bool" where
  "wants Stop hb = False"
| "wants Next hb = True"
| "wants (NextWithHash h) hb = (fst hb = h)"
| "wants (NextOfType fs) hb =
     (\<not> flags_is_empty fs \<and> flags_contains fs (event_flag (event (snd hb))))"

lemma visit_step_wants:
  "visit_step ops hb (d, v) =
     (if wants d hb then and_then (visit ops v hb) (\<lambda>(v', d'). Inr (False, d', v'))
      else case d of
             Stop \<Rightarrow> Inr (True, Stop, v)
           | NextOfType fs \<Rightarrow> if flags_is_empty fs then Inr (True, Stop, v) else Inr (False, d, v)
           | _ \<Rightarrow> Inr (False, d, v))"
  by (cases d) auto

locale chain_visitor =
  fixes ops :: "('v, 'e) visitor_ops"
    and vinv :: "decision \<Rightarrow> 'v \<Rightarrow> bool"
    and block_ok :: "hashed_block \<Rightarrow> bool"
  assumes visit_keeps:
      "vinv d v \<Longrightarrow> wants d hb \<Longrightarrow> block_ok hb \<Longrightarrow> visit ops v hb = Inr (v', d') \<Longrightarrow> vinv d' v'"
    and visit_no_panic:
      "vinv d v \<Longrightarrow> wants d hb \<Longrightarrow> block_ok hb \<Longrightarrow> visit ops v hb \<noteq> Inl (Panic m)"
    and stop_keeps: "vinv d v \<Longrightarrow> vinv Stop v"
    and finish_no_panic: "vinv d v \<Longrightarrow> finish ops v \<noteq> Inl (Panic m)"
begin

lemma visit_step_keeps:
  assumes "vinv d v" and "block_ok hb" and "visit_step ops hb (d, v) = Inr (s, d', v')"
  shows "vinv d' v'"
  using assms visit_keeps [OF assms(1) _ assms(2)]
  by (auto simp: visit_step_wants res_simps stop_keeps split: if_splits decision.splits)

lemma visit_step_no_panic:
  assumes "vinv d v" and "block_ok hb"
  shows "visit_step ops hb (d, v) \<noteq> Inl (Panic m)"
  using visit_no_panic [OF assms(1) _ assms(2)]
  by (auto simp: visit_step_wants res_simps split: decision.splits)

lemma visit_block_contract:
  assumes "\<forall>(d, v) \<in> set dvs. vinv d v" and "block_ok hb"
  shows "visit_block ops hb dvs \<noteq> Inl (Panic m)"
    and "visit_block ops hb dvs = Inr (n, dvs') \<Longrightarrow> \<forall>(d, v) \<in> set dvs'. vinv d v"
  using assms
  by (induction dvs arbitrary: n dvs')
    (auto simp: res_simps visit_step_no_panic dest: visit_step_keeps)

lemma accept_list_contract:
  assumes "\<forall>(d, v) \<in> set dvs. vinv d v" and "\<forall>hb \<in> set bs. block_ok hb"
  shows "accept_list ops fin dvs bs \<noteq> Inl (Panic m) \<and>
         (accept_list ops fin dvs bs = Inr dvs' \<longrightarrow> (\<forall>(d, v) \<in> set dvs'. vinv d v))"
  using assms
proof (induction bs arbitrary: fin dvs)
  case Nil
  then show ?case by simp
next
  case (Cons hb bs)
  note contract = visit_block_contract [OF Cons.prems(1), of hb]
  consider "fin" | f where "\<not> fin" "visit_block ops hb dvs = Inl f"
    | n ds where "\<not> fin" "visit_block ops hb dvs = Inr (n, ds)"
    by (cases "visit_block ops hb dvs") auto
  then show ?case
  proof cases
    case 1
    with Cons.prems(1) show ?thesis by simp
  next
    case 2
    with contract(1) Cons.prems(2) show ?thesis by auto
  next
    case 3
    then have "\<forall>(d, v) \<in> set ds. vinv d v" using contract(2) Cons.prems(2) by simp
    with Cons.IH [of ds] Cons.prems(2) 3 show ?thesis by simp
  qed
qed

lemma finish_all_no_panic:
  assumes "\<forall>(d, v) \<in> set dvs. vinv d v"
  shows "finish_all ops (map snd dvs) \<noteq> Inl (Panic m)"
proof
  assume "finish_all ops (map snd dvs) = Inl (Panic m)"
  then obtain v where v: "v \<in> set (map snd dvs)" "map_err visitor_fault (finish ops v) = Inl (Panic m)"
    unfolding finish_all_def by (blast dest: try_each_err)
  from v(1) assms obtain d where "vinv d v" by auto
  moreover from v(2) have "finish ops v = Inl (Panic m)"
    by (auto simp: res_simps)
  ultimately show False using finish_no_panic by blast
qed

lemma accept_by_interval_no_panic:
  assumes "\<forall>v \<in> set vs. vinv (initial_decision ops v) v"
    and "chain_at get h bs" and "\<forall>hb \<in> set bs. block_ok hb"
  shows "accept_by_interval get ops vs (Some h) tail \<noteq> Some (Inl (Panic m))"
proof
  let ?dvs = "map (\<lambda>v. (initial_decision ops v, v)) vs"
  let ?run = "accept_list ops False ?dvs (before_tail tail bs)"
  assume "accept_by_interval get ops vs (Some h) tail = Some (Inl (Panic m))"
  moreover have "\<forall>hb \<in> set (before_tail tail bs). block_ok hb"
    using assms(3) by (auto simp: before_tail_def dest: set_takeWhileD)
  then have "?run \<noteq> Inl (Panic m) \<and> (?run = Inr ds \<longrightarrow> (\<forall>(d, v) \<in> set ds. vinv d v))" for ds
    using assms(1) by (intro accept_list_contract) auto
  ultimately show False
    by (auto simp: accept_by_interval_chain [OF assms(2)] res_simps finish_all_no_panic)
qed

end

end
