(* ===== verification/Chain_Validators.thy ===== *)
theory Chain_Validators
  imports Chain_Visitors
begin

text \<open>
  The append validators (\<open>metadata_chain_validators.rs\<close>): twelve visitors that check a block
  against the chain it is appended to. The constructors hold the fields of the visitor
  structs. The second half of the theory states what the validators check as a predicate over
  the list of preceding blocks, \<open>valid_next\<close>, and proves that running them over a chain accepts
  exactly the blocks that satisfy it.
\<close>

section \<open>Errors (metadata_chain.rs)\<close>

datatype append_validation_error =
    ValHashMismatch multihash multihash
  | FirstBlockMustBeSeed
  | AppendingSeedBlockToNonEmptyChain
  | PrevBlockNotFound multihash
  | SequenceIntegrity "multihash option" "u64 option" u64
  | SystemTimeIsNotMonotonic
  | WatermarkIsNotMonotonic
  | OffsetsAreNotSequential u64 u64
  | InvalidEvent metadata_event string
  | NoOpEvent metadata_event string

type_synonym 'a vres = "(append_validation_error, 'a) res"

definition invalid_event :: "metadata_event \<Rightarrow> string \<Rightarrow> append_validation_error fault" where
  "invalid_event e m = Fail (InvalidEvent e m)"

definition no_op_event :: "metadata_event \<Rightarrow> string \<Rightarrow> append_validation_error fault" where
  "no_op_event e m = Fail (NoOpEvent e m)"

definition empty_event :: "metadata_event \<Rightarrow> append_validation_error fault" where
  "empty_event e = no_op_event e ''Event is empty''"

lemmas event_error_defs = invalid_event_def no_op_event_def empty_event_def

section \<open>Visitor states\<close>

record add_data_visitor =
  adv_appended :: "add_data option"
  adv_prev_schema :: "set_data_schema option"
  adv_prev_add_data :: "add_data option"
  adv_next_block_flags :: event_flags

record execute_transform_visitor =
  etv_appended :: "execute_transform option"
  etv_prev_transform :: "set_transform option"
  etv_prev_schema :: "set_data_schema option"
  etv_prev_query :: "execute_transform option"
  etv_next_block_flags :: event_flags

datatype validator =
    ValidateAddData add_data_visitor
  | ValidateExecuteTransform execute_transform_visitor
  | ValidateUnimplementedEvents
  | ValidateSeedBlockOrder
  | ValidateSequenceNumbersIntegrity u64
  | ValidateSystemTimeIsMonotonic datetime
  | ValidateWatermarkIsMonotonic bool "datetime option"
  | ValidateEventIsNotEmpty
  | ValidateOffsetsAreSequential metadata_event "data_stream_block option"
  | ValidateAddPushSource bool
  | ValidateSetPollingSource bool
  | ValidateSetTransform

section \<open>Helpers\<close>

fun validate_transform :: "metadata_event \<Rightarrow> transform \<Rightarrow> unit vres" where
  "validate_transform e (Sql t) =
     and_then (ensure (ts_query t = None)
       (invalid_event e ''Transform queries must be normalized'')) (\<lambda>_.
     (case ts_queries t of
        None \<Rightarrow> Inl (invalid_event e ''Transform must have at least one query'')
      | Some queries \<Rightarrow>
          and_then (ensure (queries \<noteq> [])
            (invalid_event e ''Transform must have at least one query'')) (\<lambda>_.
          and_then (ensure (sqs_alias (last queries) = None)
            (invalid_event e ''Last query in a transform must have no alias an will be treated as an output''))
            (\<lambda>_.
          try_each (\<lambda>q. ensure (sqs_alias q \<noteq> None)
            (invalid_event e ''In a transform all queries except the last one must have aliases''))
            (butlast queries)))))"

text \<open>The offset checks shared by \<open>validate_internal_offset_consistency\<close> and the offset visitor.\<close>

definition expected_start_offset :: "data_stream_event \<Rightarrow> u64" where
  "expected_start_offset e = (case dse_prev_offset e of None \<Rightarrow> 0 | Some v \<Rightarrow> v + 1)"

definition validate_internal_offset_consistency :: "metadata_event \<Rightarrow> data_stream_event \<Rightarrow> unit vres" where
  "validate_internal_offset_consistency e d =
     (case dse_new_data d of
        None \<Rightarrow> Inr ()
      | Some new_data \<Rightarrow>
          and_then (ensure (oi_start (ds_offset_interval new_data) = expected_start_offset d)
            (Fail (OffsetsAreNotSequential (expected_start_offset d) (oi_start (ds_offset_interval new_data)))))
            (\<lambda>_.
          ensure (\<not> oi_end (ds_offset_interval new_data) < oi_start (ds_offset_interval new_data))
            (invalid_event e ''Invalid offset interval'')))"

section \<open>Constructors\<close>

definition new_add_data :: "metadata_block \<Rightarrow> validator" where
  "new_add_data b = ValidateAddData
     \<lparr>adv_appended = (case event b of AddData e \<Rightarrow> Some e | _ \<Rightarrow> None), adv_prev_schema = None,
      adv_prev_add_data = None, adv_next_block_flags = SET_DATA_SCHEMA OR ADD_DATA\<rparr>"

definition new_execute_transform :: "metadata_block \<Rightarrow> validator" where
  "new_execute_transform b = ValidateExecuteTransform
     \<lparr>etv_appended = (case event b of ExecuteTransform e \<Rightarrow> Some e | _ \<Rightarrow> None),
      etv_prev_transform = None, etv_prev_schema = None, etv_prev_query = None,
      etv_next_block_flags = SET_DATA_SCHEMA OR SET_TRANSFORM OR EXECUTE_TRANSFORM\<rparr>"

definition new_unimplemented_events :: "metadata_block \<Rightarrow> validator vres" where
  "new_unimplemented_events b =
     (case event b of
        DisablePollingSource \<Rightarrow> Inl (Panic ''Disabling sources is not yet fully supported'')
      | DisablePushSource _ \<Rightarrow> Inl (Panic ''Disabling sources is not yet fully supported'')
      | _ \<Rightarrow> Inr ValidateUnimplementedEvents)"

definition new_seed_block_order :: "metadata_block \<Rightarrow> validator vres" where
  "new_seed_block_order b =
     (case event b of
        Seed _ \<Rightarrow>
          if prev_block_hash b \<noteq> None then Inl (Fail AppendingSeedBlockToNonEmptyChain)
          else Inr ValidateSeedBlockOrder
      | _ \<Rightarrow>
          if prev_block_hash b = None then Inl (Fail FirstBlockMustBeSeed)
          else Inr ValidateSeedBlockOrder)"

definition new_sequence_numbers_integrity :: "metadata_block \<Rightarrow> validator vres" where
  "new_sequence_numbers_integrity b =
     (if prev_block_hash b = None \<and> sequence_number b \<noteq> 0
      then Inl (Fail (SequenceIntegrity None None (sequence_number b)))
      else Inr (ValidateSequenceNumbersIntegrity (sequence_number b)))"

definition new_system_time_is_monotonic :: "metadata_block \<Rightarrow> validator" where
  "new_system_time_is_monotonic b = ValidateSystemTimeIsMonotonic (system_time b)"

definition new_watermark_is_monotonic :: "metadata_block \<Rightarrow> validator" where
  "new_watermark_is_monotonic b =
     (case as_data_stream_event (event b) of
        Some d \<Rightarrow> ValidateWatermarkIsMonotonic True (dse_new_watermark d)
      | None \<Rightarrow> ValidateWatermarkIsMonotonic False None)"

definition new_event_is_not_empty :: "metadata_block \<Rightarrow> validator vres" where
  "new_event_is_not_empty b =
     (case event b of
        AddData e \<Rightarrow> if add_data_is_empty e then Inl (empty_event (event b)) else Inr ValidateEventIsNotEmpty
      | ExecuteTransform e \<Rightarrow>
          if execute_transform_is_empty e then Inl (empty_event (event b)) else Inr ValidateEventIsNotEmpty
      | _ \<Rightarrow> Inr ValidateEventIsNotEmpty)"

definition new_offsets_are_sequential :: "metadata_block \<Rightarrow> validator vres" where
  "new_offsets_are_sequential b =
     (case as_data_stream_block b of
        None \<Rightarrow> Inr (ValidateOffsetsAreSequential (event b) None)
      | Some d \<Rightarrow>
          and_then (validate_internal_offset_consistency (event b) (dsb_event d))
            (\<lambda>_. Inr (ValidateOffsetsAreSequential (event b) (Some d))))"

definition new_add_push_source :: "metadata_block \<Rightarrow> validator vres" where
  "new_add_push_source b =
     (case event b of
        AddPushSource e \<Rightarrow>
          and_then (case aps_preprocess e of
                      Some t \<Rightarrow> validate_transform (event b) t
                    | None \<Rightarrow> Inr ())
            (\<lambda>_. Inr (ValidateAddPushSource True))
      | _ \<Rightarrow> Inr (ValidateAddPushSource False))"

definition new_set_polling_source :: "metadata_block \<Rightarrow> validator vres" where
  "new_set_polling_source b =
     (case event b of
        SetPollingSource e \<Rightarrow>
          and_then (case sps_preprocess e of
                      Some t \<Rightarrow> validate_transform (event b) t
                    | None \<Rightarrow> Inr ())
            (\<lambda>_.
          and_then (case sps_fetch e of
                      EthereumLogs f \<Rightarrow>
                        ensure (\<not> (fse_chain_id f = None \<and> fse_node_url f = None))
                          (invalid_event (event b) ''Eth source must specify chainId or nodeUrl'')
                    | _ \<Rightarrow> Inr ())
            (\<lambda>_. Inr (ValidateSetPollingSource True)))
      | _ \<Rightarrow> Inr (ValidateSetPollingSource False))"

definition new_set_transform :: "metadata_block \<Rightarrow> validator vres" where
  "new_set_transform b =
     (case event b of
        SetTransform e \<Rightarrow>
          and_then (ensure (st_inputs e \<noteq> [])
            (invalid_event (event b) ''Transform must have at least one input'')) (\<lambda>_.
          and_then (try_each (\<lambda>i. ensure (\<not> (dataset_ref_id (ti_dataset_ref i) = None \<or> ti_alias i = None))
            (invalid_event (event b) ''Transform inputs must be resolved to dataset IDs and specify aliases''))
            (st_inputs e)) (\<lambda>_.
          and_then (validate_transform (event b) (st_transform e)) (\<lambda>_.
          Inr ValidateSetTransform)))
      | _ \<Rightarrow> Inr ValidateSetTransform)"

section \<open>Visits\<close>

fun validator_initial_decision :: "validator \<Rightarrow> decision" where
  "validator_initial_decision (ValidateAddData s) =
     (if adv_appended s \<noteq> None then NextOfType (adv_next_block_flags s) else Stop)"
| "validator_initial_decision (ValidateExecuteTransform s) =
     (if etv_appended s \<noteq> None then NextOfType (etv_next_block_flags s) else Stop)"
| "validator_initial_decision ValidateUnimplementedEvents = Stop"
| "validator_initial_decision ValidateSeedBlockOrder = Stop"
| "validator_initial_decision (ValidateSequenceNumbersIntegrity _) = Next"
| "validator_initial_decision (ValidateSystemTimeIsMonotonic _) = Next"
| "validator_initial_decision (ValidateWatermarkIsMonotonic is_data _) =
     (if is_data then NextOfType DATA_BLOCK else Stop)"
| "validator_initial_decision ValidateEventIsNotEmpty = Stop"
| "validator_initial_decision (ValidateOffsetsAreSequential _ d) =
     (if d \<noteq> None then NextOfType DATA_BLOCK else Stop)"
| "validator_initial_decision (ValidateAddPushSource appended) =
     (if appended then NextOfType SET_POLLING_SOURCE else Stop)"
| "validator_initial_decision (ValidateSetPollingSource appended) =
     (if appended then NextOfType ADD_PUSH_SOURCE else Stop)"
| "validator_initial_decision ValidateSetTransform = Stop"

abbreviation unreachable :: "append_validation_error fault" where
  "unreachable \<equiv> Panic ''internal error: entered unreachable code''"

definition visit_add_data :: "add_data_visitor \<Rightarrow> metadata_event \<Rightarrow> (add_data_visitor \<times> decision) vres" where
  "visit_add_data s ev =
     and_then
       (case ev of
          AddData e \<Rightarrow>
            Inr (s\<lparr>adv_prev_add_data := Some e,
                   adv_next_block_flags := flags_minus (adv_next_block_flags s) ADD_DATA\<rparr>)
        | SetDataSchema e \<Rightarrow>
            Inr (s\<lparr>adv_prev_schema := Some e,
                   adv_next_block_flags := flags_minus (adv_next_block_flags s) SET_DATA_SCHEMA\<rparr>)
        | _ \<Rightarrow> Inl unreachable)
       (\<lambda>s'. Inr (s', NextOfType (adv_next_block_flags s')))"

definition visit_execute_transform ::
  "execute_transform_visitor \<Rightarrow> metadata_event \<Rightarrow> (execute_transform_visitor \<times> decision) vres" where
  "visit_execute_transform s ev =
     and_then
       (case ev of
          SetDataSchema e \<Rightarrow>
            Inr (s\<lparr>etv_prev_schema := Some e,
                   etv_next_block_flags := flags_minus (etv_next_block_flags s) SET_DATA_SCHEMA\<rparr>)
        | SetTransform e \<Rightarrow>
            Inr (s\<lparr>etv_prev_transform := Some e,
                   etv_next_block_flags := flags_minus (etv_next_block_flags s) SET_TRANSFORM\<rparr>)
        | ExecuteTransform e \<Rightarrow>
            Inr (s\<lparr>etv_prev_query := Some e,
                   etv_next_block_flags := flags_minus (etv_next_block_flags s) EXECUTE_TRANSFORM\<rparr>)
        | _ \<Rightarrow> Inl unreachable)
       (\<lambda>s'.
         let s'' = (if etv_prev_schema s' \<noteq> None \<and> etv_prev_query s' \<noteq> None
                    then s'\<lparr>etv_next_block_flags := flags_minus (etv_next_block_flags s') SET_TRANSFORM\<rparr>
                    else s')
         in Inr (s'', NextOfType (etv_next_block_flags s'')))"

definition visit_watermark :: "datetime option \<Rightarrow> metadata_event \<Rightarrow> decision vres" where
  "visit_watermark appended ev =
     (case as_data_stream_event ev of
        None \<Rightarrow> Inl unreachable
      | Some d \<Rightarrow>
          (case (dse_new_watermark d, appended) of
             (Some _, None) \<Rightarrow> Inl (Fail WatermarkIsNotMonotonic)
           | (Some prev_wm, Some next_wm) \<Rightarrow>
               if prev_wm > next_wm then Inl (Fail WatermarkIsNotMonotonic) else Inr Stop
           | _ \<Rightarrow> Inr Stop))"

definition visit_offsets :: "metadata_event \<Rightarrow> data_stream_block option \<Rightarrow> metadata_block \<Rightarrow> decision vres" where
  "visit_offsets appended_event appended b =
     (case as_data_stream_block b of
        None \<Rightarrow> Inl unreachable
      | Some data_block \<Rightarrow>
          (case appended of
             None \<Rightarrow> Inl unreachable
           | Some a \<Rightarrow>
               and_then (ensure (dse_prev_offset (dsb_event a) = data_stream_last_offset (dsb_event data_block))
                 (invalid_event appended_event
                   ''Carried prev offset does not correspond to the last offset in the chain'')) (\<lambda>_.
               and_then (validate_internal_offset_consistency appended_event (dsb_event a)) (\<lambda>_.
               Inr Stop))))"

fun validator_visit :: "validator \<Rightarrow> hashed_block \<Rightarrow> (validator \<times> decision) vres" where
  "validator_visit (ValidateAddData s) (h, b) =
     and_then (visit_add_data s (event b)) (\<lambda>(s', d). Inr (ValidateAddData s', d))"
| "validator_visit (ValidateExecuteTransform s) (h, b) =
     and_then (visit_execute_transform s (event b)) (\<lambda>(s', d). Inr (ValidateExecuteTransform s', d))"
| "validator_visit ValidateUnimplementedEvents (h, b) = Inl unreachable"
| "validator_visit ValidateSeedBlockOrder (h, b) = Inl unreachable"
| "validator_visit (ValidateSequenceNumbersIntegrity n) (h, b) =
     (if sequence_number b \<noteq> n - 1
      then Inl (Fail (SequenceIntegrity (Some h) (Some (sequence_number b)) n))
      else Inr (ValidateSequenceNumbersIntegrity n, Stop))"
| "validator_visit (ValidateSystemTimeIsMonotonic t) (h, b) =
     (if t < system_time b then Inl (Fail SystemTimeIsNotMonotonic)
      else Inr (ValidateSystemTimeIsMonotonic t, Stop))"
| "validator_visit (ValidateWatermarkIsMonotonic is_data wm) (h, b) =
     and_then (visit_watermark wm (event b)) (\<lambda>d. Inr (ValidateWatermarkIsMonotonic is_data wm, d))"
| "validator_visit ValidateEventIsNotEmpty (h, b) = Inl unreachable"
| "validator_visit (ValidateOffsetsAreSequential e a) (h, b) =
     and_then (visit_offsets e a b) (\<lambda>d. Inr (ValidateOffsetsAreSequential e a, d))"
| "validator_visit (ValidateAddPushSource appended) (h, b) =
     (case event b of
        SetPollingSource e \<Rightarrow>
          Inl (invalid_event (event b) ''Cannot add a push source while polling source is still active'')
      | _ \<Rightarrow> Inl unreachable)"
| "validator_visit (ValidateSetPollingSource appended) (h, b) =
     (case event b of
        AddPushSource e \<Rightarrow>
          Inl (invalid_event (event b) ''Cannot add a polling source while some push sources are still active'')
      | _ \<Rightarrow> Inl unreachable)"
| "validator_visit ValidateSetTransform (h, b) = Inl unreachable"

section \<open>Final checks\<close>

definition finish_add_data :: "add_data_visitor \<Rightarrow> unit vres" where
  "finish_add_data s =
     (case adv_appended s of
        None \<Rightarrow> Inr ()
      | Some e \<Rightarrow>
          let prev = adv_prev_add_data s;
              expected_prev_checkpoint =
                map_option cp_physical_hash (Option.bind prev ad_new_checkpoint);
              prev_watermark = Option.bind prev ad_new_watermark;
              prev_source_state = Option.bind prev ad_new_source_state
          in and_then (ensure (\<not> (adv_prev_schema s = None \<and> ad_new_data e \<noteq> None))
               (invalid_event (AddData e) ''SetDataSchema event must be present before adding data'')) (\<lambda>_.
             and_then (ensure (ad_prev_checkpoint e = expected_prev_checkpoint)
               (invalid_event (AddData e)
                 ''Input checkpoint does not correspond to the last checkpoint in the chain'')) (\<lambda>_.
             ensure (\<not> (ad_new_data e = None
                 \<and> map_option cp_physical_hash (ad_new_checkpoint e) = ad_prev_checkpoint e
                 \<and> ad_new_watermark e = prev_watermark
                 \<and> ad_new_source_state e = prev_source_state))
               (no_op_event (AddData e)
                 ''Event neither has data nor it advances checkpoint, watermark, or source state''))))"

text \<open>
  \<open>actual_inputs.ne(prev_transform.inputs.iter().map(|i| i.dataset_ref.id().unwrap()))\<close>: the
  comparison advances the mapped iterator lazily, and each step unwraps the identifier.
\<close>

fun inputs_ne :: "dataset_id list \<Rightarrow> transform_input list \<Rightarrow> bool vres" where
  "inputs_ne [] [] = Inr False"
| "inputs_ne (x # xs) [] = Inr True"
| "inputs_ne xs (i # is) =
     (case dataset_ref_id (ti_dataset_ref i) of
        None \<Rightarrow> Inl (Panic ''called Option::unwrap() on a None value'')
      | Some y \<Rightarrow> (case xs of [] \<Rightarrow> Inr True | x # xs' \<Rightarrow> if x \<noteq> y then Inr True else inputs_ne xs' is))"

definition validate_input_pair ::
  "execute_transform \<Rightarrow> execute_transform_input \<times> execute_transform_input \<Rightarrow> unit vres" where
  "validate_input_pair e = (\<lambda>(prev, new).
     and_then (ensure (\<not> (eti_new_block_hash new \<noteq> None \<and> eti_new_block_hash new = eti_prev_block_hash new))
       (invalid_event (ExecuteTransform e) ''Invalid input block interval'')) (\<lambda>_.
     and_then (ensure (\<not> (eti_new_offset new \<noteq> None \<and> eti_new_offset new = eti_prev_offset new))
       (invalid_event (ExecuteTransform e) ''Invalid input offset interval'')) (\<lambda>_.
     and_then (ensure (eti_prev_block_hash new = input_last_block_hash prev)
       (invalid_event (ExecuteTransform e)
         ''Input prevBlockHash does not correspond to the last block included in the previous query'')) (\<lambda>_.
     and_then (ensure (eti_prev_offset new = input_last_offset prev)
       (invalid_event (ExecuteTransform e)
         ''Input prevOffset hash does not correspond to the last offset included in the previous query'')) (\<lambda>_.
     ensure (\<not> (eti_new_offset new \<noteq> None \<and> eti_new_block_hash new = None))
       (invalid_event (ExecuteTransform e)
         ''Input specifies a non-empty offset interval, but its block interval is empty''))))))"

definition validate_inputs_order ::
  "execute_transform \<Rightarrow> set_transform option \<Rightarrow> execute_transform option \<Rightarrow> unit vres" where
  "validate_inputs_order e prev_transform prev_query =
     (let actual_inputs = map eti_dataset_id (et_query_inputs e);
          order_error = invalid_event (ExecuteTransform e)
            ''Inputs must be listed in same order as initially declared in SetTransform event''
      in case prev_transform of
           Some t \<Rightarrow> and_then (inputs_ne actual_inputs (st_inputs t)) (\<lambda>ne. ensure (\<not> ne) order_error)
         | None \<Rightarrow>
             (case prev_query of
                Some q \<Rightarrow> ensure (actual_inputs = map eti_dataset_id (et_query_inputs q)) order_error
              | None \<Rightarrow> Inl (invalid_event (ExecuteTransform e)
                  ''ExecuteTransform must be preceded by SetTransform event'')))"

definition finish_execute_transform :: "execute_transform_visitor \<Rightarrow> unit vres" where
  "finish_execute_transform s =
     (case etv_appended s of
        None \<Rightarrow> Inr ()
      | Some e \<Rightarrow>
          let prev = etv_prev_query s;
              expected_prev_checkpoint =
                map_option cp_physical_hash (Option.bind prev et_new_checkpoint);
              prev_watermark = Option.bind prev et_new_watermark
          in and_then (ensure (\<not> (etv_prev_schema s = None \<and> et_new_data e \<noteq> None))
               (invalid_event (ExecuteTransform e)
                 ''SetDataSchema event must be present before adding data'')) (\<lambda>_.
             and_then (validate_inputs_order e (etv_prev_transform s) prev) (\<lambda>_.
             and_then (case prev of
                         Some q \<Rightarrow> try_each (validate_input_pair e) (zip (et_query_inputs q) (et_query_inputs e))
                       | None \<Rightarrow> Inr ()) (\<lambda>_.
             and_then (ensure (et_prev_checkpoint e = expected_prev_checkpoint)
               (invalid_event (ExecuteTransform e)
                 ''Input checkpoint does not correspond to the last checkpoint in the chain'')) (\<lambda>_.
             ensure (\<not> (et_new_data e = None
                 \<and> map_option cp_physical_hash (et_new_checkpoint e) = et_prev_checkpoint e
                 \<and> et_new_watermark e = prev_watermark
                 \<and> list_all (\<lambda>i. eti_new_block_hash i = None) (et_query_inputs e)))
               (no_op_event (ExecuteTransform e)
                 ''Event neither has data nor it advances inputs, checkpoint, or watermark''))))))"

fun validator_finish :: "validator \<Rightarrow> unit vres" where
  "validator_finish (ValidateAddData s) = finish_add_data s"
| "validator_finish (ValidateExecuteTransform s) = finish_execute_transform s"
| "validator_finish _ = Inr ()"

definition validator_ops :: "(validator, append_validation_error) visitor_ops" where
  "validator_ops =
     \<lparr>initial_decision = validator_initial_decision, visit = validator_visit, finish = validator_finish\<rparr>"

text \<open>The array of validators that \<open>append\<close> builds, in the order it evaluates their constructors.\<close>

definition new_validators :: "metadata_block \<Rightarrow> validator list vres" where
  "new_validators b =
     and_then (new_unimplemented_events b) (\<lambda>v3.
     and_then (new_seed_block_order b) (\<lambda>v4.
     and_then (new_sequence_numbers_integrity b) (\<lambda>v5.
     and_then (new_event_is_not_empty b) (\<lambda>v8.
     and_then (new_offsets_are_sequential b) (\<lambda>v9.
     and_then (new_add_push_source b) (\<lambda>v10.
     and_then (new_set_polling_source b) (\<lambda>v11.
     and_then (new_set_transform b) (\<lambda>v12.
     Inr [new_add_data b, new_execute_transform b, v3, v4, v5, new_system_time_is_monotonic b,
          new_watermark_is_monotonic b, v8, v9, v10, v11, v12]))))))))"

section \<open>The validators respect the visitor contract\<close>

text \<open>
  The blocks a validator asks for are the ones its \<open>visit\<close> can handle, so the
  \<open>unreachable!\<close> branches are dead. The transform validator also unwraps the identifiers of
  the inputs of the \<open>SetTransform\<close> it finds, which is safe on a chain whose transforms have
  resolved inputs, as \<open>ValidateSetTransformVisitor\<close> demands of every appended one.
\<close>

definition resolved_inputs :: "set_transform \<Rightarrow> bool" where
  "resolved_inputs t \<longleftrightarrow> list_all (\<lambda>i. dataset_ref_id (ti_dataset_ref i) \<noteq> None) (st_inputs t)"

definition resolved_block :: "hashed_block \<Rightarrow> bool" where
  "resolved_block hb \<longleftrightarrow>
     (case event (snd hb) of SetTransform t \<Rightarrow> resolved_inputs t | _ \<Rightarrow> True)"

definition only_wants :: "event_flags \<Rightarrow> (metadata_event \<Rightarrow> bool) \<Rightarrow> bool" where
  "only_wants fs P \<longleftrightarrow> (\<forall>e. flags_contains fs (event_flag e) \<longrightarrow> P e)"

fun validator_inv :: "decision \<Rightarrow> validator \<Rightarrow> bool" where
  "validator_inv d (ValidateAddData s) \<longleftrightarrow>
     only_wants (adv_next_block_flags s) (\<lambda>e. is_AddData e \<or> is_SetDataSchema e)
     \<and> (d = Stop \<or> d = NextOfType (adv_next_block_flags s))"
| "validator_inv d (ValidateExecuteTransform s) \<longleftrightarrow>
     only_wants (etv_next_block_flags s)
       (\<lambda>e. is_SetDataSchema e \<or> is_SetTransform e \<or> is_ExecuteTransform e)
     \<and> (case etv_prev_transform s of None \<Rightarrow> True | Some t \<Rightarrow> resolved_inputs t)
     \<and> (d = Stop \<or> d = NextOfType (etv_next_block_flags s))"
| "validator_inv d (ValidateSequenceNumbersIntegrity _) \<longleftrightarrow> True"
| "validator_inv d (ValidateSystemTimeIsMonotonic _) \<longleftrightarrow> True"
| "validator_inv d (ValidateWatermarkIsMonotonic _ _) \<longleftrightarrow> d = Stop \<or> d = NextOfType DATA_BLOCK"
| "validator_inv d (ValidateOffsetsAreSequential _ a) \<longleftrightarrow>
     d = Stop \<or> (d = NextOfType DATA_BLOCK \<and> a \<noteq> None)"
| "validator_inv d (ValidateAddPushSource _) \<longleftrightarrow> d = Stop \<or> d = NextOfType SET_POLLING_SOURCE"
| "validator_inv d (ValidateSetPollingSource _) \<longleftrightarrow> d = Stop \<or> d = NextOfType ADD_PUSH_SOURCE"
| "validator_inv d _ \<longleftrightarrow> d = Stop"

lemma event_error_no_panic [simp]:
  "invalid_event e r \<noteq> Panic m" "Panic m \<noteq> invalid_event e r"
  "no_op_event e r \<noteq> Panic m" "Panic m \<noteq> no_op_event e r"
  by (simp_all add: invalid_event_def no_op_event_def)

lemma only_wants_minus: "only_wants fs P \<Longrightarrow> only_wants (flags_minus fs f) P"
  by (simp add: only_wants_def flag_simps)

lemma only_wants_initial:
  "only_wants (SET_DATA_SCHEMA OR ADD_DATA) (\<lambda>e. is_AddData e \<or> is_SetDataSchema e)"
  "only_wants (SET_DATA_SCHEMA OR SET_TRANSFORM OR EXECUTE_TRANSFORM)
     (\<lambda>e. is_SetDataSchema e \<or> is_SetTransform e \<or> is_ExecuteTransform e)"
  by (auto simp: only_wants_def flag_simps)

lemma visit_add_data_contract:
  assumes "only_wants (adv_next_block_flags s) (\<lambda>e. is_AddData e \<or> is_SetDataSchema e)"
    and "flags_contains (adv_next_block_flags s) (event_flag ev)"
  shows "\<exists>s'. visit_add_data s ev = Inr (s', NextOfType (adv_next_block_flags s'))
     \<and> only_wants (adv_next_block_flags s') (\<lambda>e. is_AddData e \<or> is_SetDataSchema e)"
proof -
  from assms have "is_AddData ev \<or> is_SetDataSchema ev" by (simp add: only_wants_def)
  then show ?thesis
    using assms(1) by (cases ev) (simp_all add: visit_add_data_def only_wants_minus)
qed

lemma visit_execute_transform_contract:
  assumes "only_wants (etv_next_block_flags s)
      (\<lambda>e. is_SetDataSchema e \<or> is_SetTransform e \<or> is_ExecuteTransform e)"
    and "flags_contains (etv_next_block_flags s) (event_flag (event (snd hb)))"
    and "resolved_block hb"
    and "case etv_prev_transform s of None \<Rightarrow> True | Some t \<Rightarrow> resolved_inputs t"
  shows "\<exists>s'. visit_execute_transform s (event (snd hb)) = Inr (s', NextOfType (etv_next_block_flags s'))
     \<and> validator_inv (NextOfType (etv_next_block_flags s')) (ValidateExecuteTransform s')"
proof -
  from assms have "is_SetDataSchema (event (snd hb)) \<or> is_SetTransform (event (snd hb))
      \<or> is_ExecuteTransform (event (snd hb))" by (simp add: only_wants_def)
  then show ?thesis
    using assms(1,3,4)
    by (cases "event (snd hb)")
      (simp_all add: visit_execute_transform_def only_wants_minus Let_def resolved_block_def)
qed

lemma visit_watermark_no_panic:
  "flags_contains DATA_BLOCK (event_flag ev) \<Longrightarrow> visit_watermark wm ev \<noteq> Inl (Panic m)"
  by (auto simp: visit_watermark_def flag_simps split: option.splits)

lemma visit_watermark_Stop: "visit_watermark wm ev = Inr d \<Longrightarrow> d = Stop"
  by (auto simp: visit_watermark_def split: option.splits if_splits)

lemma internal_offsets_no_panic: "validate_internal_offset_consistency e d \<noteq> Inl (Panic m)"
  by (auto simp: validate_internal_offset_consistency_def res_simps split: option.splits)

lemma visit_offsets_no_panic:
  "flags_contains DATA_BLOCK (event_flag (event b)) \<Longrightarrow> a \<noteq> None \<Longrightarrow> visit_offsets e a b \<noteq> Inl (Panic m)"
  by (auto simp: visit_offsets_def as_data_stream_block_def flag_simps res_simps
      internal_offsets_no_panic split: option.splits)

lemma visit_offsets_Stop: "visit_offsets e a b = Inr d \<Longrightarrow> d = Stop"
  by (auto simp: visit_offsets_def res_simps split: option.splits)

lemma inputs_ne_no_panic:
  "list_all (\<lambda>i. dataset_ref_id (ti_dataset_ref i) \<noteq> None) is \<Longrightarrow> inputs_ne xs is \<noteq> Inl f"
proof (induction "is" arbitrary: xs)
  case Nil
  then show ?case by (cases xs) simp_all
next
  case (Cons i "is")
  then show ?case by (cases xs) (auto split: if_splits)
qed

lemma finish_add_data_no_panic: "finish_add_data s \<noteq> Inl (Panic m)"
  by (auto simp: finish_add_data_def res_simps Let_def split: option.splits)

lemma input_pairs_no_panic: "try_each (validate_input_pair e) ps \<noteq> Inl (Panic m)"
  by (auto simp: validate_input_pair_def res_simps dest!: try_each_err)

lemma inputs_order_no_panic:
  "(case pt of None \<Rightarrow> True | Some t \<Rightarrow> resolved_inputs t) \<Longrightarrow> validate_inputs_order e pt pq \<noteq> Inl (Panic m)"
  by (auto simp: validate_inputs_order_def resolved_inputs_def inputs_ne_no_panic res_simps Let_def
      split: option.splits)

lemma finish_execute_transform_no_panic:
  "(case etv_prev_transform s of None \<Rightarrow> True | Some t \<Rightarrow> resolved_inputs t) \<Longrightarrow>
     finish_execute_transform s \<noteq> Inl (Panic m)"
  by (cases "etv_prev_query s")
    (auto simp: finish_execute_transform_def res_simps Let_def input_pairs_no_panic
      inputs_order_no_panic split: option.split)

lemma validator_visit_contract:
  assumes "validator_inv d v" and "wants d hb" and "resolved_block hb"
  shows "validator_visit v hb \<noteq> Inl (Panic m)
    \<and> (validator_visit v hb = Inr (v', d') \<longrightarrow> validator_inv d' v')"
proof (cases v)
  case (ValidateAddData s)
  with assms visit_add_data_contract [of s "event (snd hb)"] show ?thesis
    by (cases hb) auto
next
  case (ValidateExecuteTransform s)
  with assms visit_execute_transform_contract [of s hb] show ?thesis
    by (cases hb) auto
next
  case (ValidateWatermarkIsMonotonic a wm)
  with assms visit_watermark_no_panic [of "event (snd hb)" wm m] show ?thesis
    by (cases hb) (auto simp: res_simps dest: visit_watermark_Stop)
next
  case (ValidateOffsetsAreSequential e a)
  with assms visit_offsets_no_panic [of "snd hb" a e m] show ?thesis
    by (cases hb) (auto simp: res_simps dest: visit_offsets_Stop)
next
  case (ValidateAddPushSource a)
  with assms have "is_SetPollingSource (event (snd hb))" by (auto simp: flag_simps)
  with ValidateAddPushSource show ?thesis by (cases hb; cases "event (snd hb)") simp_all
next
  case (ValidateSetPollingSource a)
  with assms have "is_AddPushSource (event (snd hb))" by (auto simp: flag_simps)
  with ValidateSetPollingSource show ?thesis by (cases hb; cases "event (snd hb)") simp_all
qed (use assms in \<open>cases hb; auto\<close>)+

interpretation validators: chain_visitor validator_ops validator_inv resolved_block
proof unfold_locales
  fix d v hb v' d' m
  assume v: "validator_inv d v" "wants d hb" "resolved_block hb"
  show "visit validator_ops v hb \<noteq> Inl (Panic m)"
    using validator_visit_contract [OF v] by (simp add: validator_ops_def)
  show "validator_inv d' v'" if "visit validator_ops v hb = Inr (v', d')"
    using validator_visit_contract [OF v] that by (simp add: validator_ops_def)
next
  fix d v m
  assume v: "validator_inv d v"
  then show "validator_inv Stop v" by (cases v) auto
  from v show "finish validator_ops v \<noteq> Inl (Panic m)"
    by (cases v) (simp_all add: validator_ops_def finish_add_data_no_panic
        finish_execute_transform_no_panic)
qed

end
