(* ===== verification/Chain_Validity.thy ===== *)
theory Chain_Validity
  imports Chain_Validators
begin

text \<open>
  What the append validators promise, as a predicate over the preceding blocks (newest
  first), and the proof that the single-pass visitors implement it: \<open>validate_block\<close> accepts
  exactly the blocks that satisfy \<open>valid_next\<close>. The validators are also shown to respect the
  visitor contract, so their \<open>unreachable!\<close> branches are never taken.
\<close>

section \<open>Specification\<close>

fun first_of :: "('a \<Rightarrow> 'b option) \<Rightarrow> 'a list \<Rightarrow> 'b option" where
  "first_of f [] = None"
| "first_of f (x # xs) = (case f x of Some y \<Rightarrow> Some y | None \<Rightarrow> first_of f xs)"

fun as_AddData :: "metadata_event \<Rightarrow> add_data option" where
  "as_AddData (AddData e) = Some e"
| "as_AddData _ = None"

fun as_ExecuteTransform :: "metadata_event \<Rightarrow> execute_transform option" where
  "as_ExecuteTransform (ExecuteTransform e) = Some e"
| "as_ExecuteTransform _ = None"

fun as_SetDataSchema :: "metadata_event \<Rightarrow> set_data_schema option" where
  "as_SetDataSchema (SetDataSchema e) = Some e"
| "as_SetDataSchema _ = None"

fun as_SetTransform :: "metadata_event \<Rightarrow> set_transform option" where
  "as_SetTransform (SetTransform e) = Some e"
| "as_SetTransform _ = None"

text \<open>The latest event of a kind in a chain of blocks.\<close>

definition last_event :: "(metadata_event \<Rightarrow> 'b option) \<Rightarrow> metadata_block list \<Rightarrow> 'b option" where
  "last_event f bs = first_of (\<lambda>b. f (event b)) bs"

fun valid_transform :: "transform \<Rightarrow> bool" where
  "valid_transform (Sql t) \<longleftrightarrow>
     ts_query t = None \<and>
     (case ts_queries t of
        None \<Rightarrow> False
      | Some qs \<Rightarrow> qs \<noteq> [] \<and> sqs_alias (last qs) = None
                   \<and> list_all (\<lambda>q. sqs_alias q \<noteq> None) (butlast qs))"

definition valid_interval :: "data_stream_event \<Rightarrow> bool" where
  "valid_interval d \<longleftrightarrow>
     (case dse_new_data d of
        None \<Rightarrow> True
      | Some s \<Rightarrow> oi_start (ds_offset_interval s) = expected_start_offset d
                  \<and> oi_start (ds_offset_interval s) \<le> oi_end (ds_offset_interval s))"

fun watermark_le :: "datetime option \<Rightarrow> datetime option \<Rightarrow> bool" where
  "watermark_le None _ = True"
| "watermark_le (Some p) None = False"
| "watermark_le (Some p) (Some n) = (p \<le> n)"

text \<open>Two consecutive data events of a chain.\<close>

definition data_follows :: "data_stream_event \<Rightarrow> data_stream_event \<Rightarrow> bool" where
  "data_follows p d \<longleftrightarrow>
     watermark_le (dse_new_watermark p) (dse_new_watermark d)
     \<and> dse_prev_offset d = data_stream_last_offset p"

definition valid_data_event :: "metadata_block list \<Rightarrow> metadata_event \<Rightarrow> bool" where
  "valid_data_event bs e \<longleftrightarrow>
     (case as_data_stream_event e of
        None \<Rightarrow> True
      | Some d \<Rightarrow>
          valid_interval d
          \<and> (case last_event as_data_stream_event bs of None \<Rightarrow> True | Some p \<Rightarrow> data_follows p d))"

definition valid_add_data :: "metadata_block list \<Rightarrow> add_data \<Rightarrow> bool" where
  "valid_add_data bs e \<longleftrightarrow>
     \<not> add_data_is_empty e
     \<and> (ad_new_data e \<noteq> None \<longrightarrow> last_event as_SetDataSchema bs \<noteq> None)
     \<and> (let prev = last_event as_AddData bs
        in ad_prev_checkpoint e = map_option cp_physical_hash (Option.bind prev ad_new_checkpoint)
           \<and> (ad_new_data e \<noteq> None
              \<or> map_option cp_physical_hash (ad_new_checkpoint e) \<noteq> ad_prev_checkpoint e
              \<or> ad_new_watermark e \<noteq> Option.bind prev ad_new_watermark
              \<or> ad_new_source_state e \<noteq> Option.bind prev ad_new_source_state))"

text \<open>
  The blocks in which the validator looks for the transform that an \<open>ExecuteTransform\<close> runs:
  the shortest prefix that holds both a schema and an earlier \<open>ExecuteTransform\<close>.
\<close>

fun transform_window :: "bool \<Rightarrow> bool \<Rightarrow> metadata_block list \<Rightarrow> metadata_block list" where
  "transform_window schema query [] = []"
| "transform_window schema query (b # bs) =
     (if schema \<and> query then []
      else b # transform_window (schema \<or> is_SetDataSchema (event b))
                 (query \<or> is_ExecuteTransform (event b)) bs)"

lemma transform_window_done [simp]: "transform_window True True bs = []"
  by (cases bs) simp_all

definition input_follows :: "execute_transform_input \<Rightarrow> execute_transform_input \<Rightarrow> bool" where
  "input_follows prev new \<longleftrightarrow>
     (eti_new_block_hash new \<noteq> None \<longrightarrow> eti_new_block_hash new \<noteq> eti_prev_block_hash new)
     \<and> (eti_new_offset new \<noteq> None \<longrightarrow> eti_new_offset new \<noteq> eti_prev_offset new)
     \<and> eti_prev_block_hash new = input_last_block_hash prev
     \<and> eti_prev_offset new = input_last_offset prev
     \<and> (eti_new_offset new \<noteq> None \<longrightarrow> eti_new_block_hash new \<noteq> None)"

definition declared_inputs ::
  "set_transform option \<Rightarrow> execute_transform option \<Rightarrow> dataset_id list \<Rightarrow> bool" where
  "declared_inputs prev_transform prev_query ids \<longleftrightarrow>
     (case prev_transform of
        Some t \<Rightarrow> map (\<lambda>i. dataset_ref_id (ti_dataset_ref i)) (st_inputs t) = map Some ids
      | None \<Rightarrow>
          (case prev_query of
             Some q \<Rightarrow> map eti_dataset_id (et_query_inputs q) = ids
           | None \<Rightarrow> False))"

definition valid_execute_transform :: "metadata_block list \<Rightarrow> execute_transform \<Rightarrow> bool" where
  "valid_execute_transform bs e \<longleftrightarrow>
     \<not> execute_transform_is_empty e
     \<and> (et_new_data e \<noteq> None \<longrightarrow> last_event as_SetDataSchema bs \<noteq> None)
     \<and> (let prev = last_event as_ExecuteTransform bs
        in declared_inputs (last_event as_SetTransform (transform_window False False bs)) prev
             (map eti_dataset_id (et_query_inputs e))
           \<and> (case prev of
                None \<Rightarrow> True
              | Some q \<Rightarrow> list_all (\<lambda>(p, n). input_follows p n)
                  (zip (et_query_inputs q) (et_query_inputs e)))
           \<and> et_prev_checkpoint e = map_option cp_physical_hash (Option.bind prev et_new_checkpoint)
           \<and> (et_new_data e \<noteq> None
              \<or> map_option cp_physical_hash (et_new_checkpoint e) \<noteq> et_prev_checkpoint e
              \<or> et_new_watermark e \<noteq> Option.bind prev et_new_watermark
              \<or> list_ex (\<lambda>i. eti_new_block_hash i \<noteq> None) (et_query_inputs e)))"

definition valid_polling_source :: "set_polling_source \<Rightarrow> bool" where
  "valid_polling_source e \<longleftrightarrow>
     (case sps_preprocess e of None \<Rightarrow> True | Some t \<Rightarrow> valid_transform t)
     \<and> (case sps_fetch e of
          EthereumLogs f \<Rightarrow> fse_chain_id f \<noteq> None \<or> fse_node_url f \<noteq> None
        | _ \<Rightarrow> True)"

definition valid_set_transform :: "set_transform \<Rightarrow> bool" where
  "valid_set_transform e \<longleftrightarrow>
     st_inputs e \<noteq> []
     \<and> list_all (\<lambda>i. dataset_ref_id (ti_dataset_ref i) \<noteq> None \<and> ti_alias i \<noteq> None) (st_inputs e)
     \<and> valid_transform (st_transform e)"

fun valid_event :: "metadata_block list \<Rightarrow> metadata_event \<Rightarrow> bool" where
  "valid_event bs (AddData e) = valid_add_data bs e"
| "valid_event bs (ExecuteTransform e) = valid_execute_transform bs e"
| "valid_event bs (SetPollingSource e) =
     (valid_polling_source e \<and> list_all (\<lambda>b. \<not> is_AddPushSource (event b)) bs)"
| "valid_event bs (AddPushSource e) =
     ((case aps_preprocess e of None \<Rightarrow> True | Some t \<Rightarrow> valid_transform t)
      \<and> list_all (\<lambda>b. \<not> is_SetPollingSource (event b)) bs)"
| "valid_event bs (SetTransform e) = valid_set_transform e"
| "valid_event bs (DisablePushSource _) = False"
| "valid_event bs DisablePollingSource = False"
| "valid_event bs _ = True"

definition valid_next :: "metadata_block list \<Rightarrow> metadata_block \<Rightarrow> bool" where
  "valid_next bs b \<longleftrightarrow>
     (is_Seed (event b) \<longleftrightarrow> bs = [])
     \<and> (case bs of
          [] \<Rightarrow> sequence_number b = 0
        | p # _ \<Rightarrow> sequence_number b = sequence_number p + 1 \<and> system_time p \<le> system_time b)
     \<and> valid_data_event bs (event b)
     \<and> valid_event bs (event b)"

text \<open>A chain all of whose blocks were valid when they were appended; newest first.\<close>

fun valid_chain :: "metadata_block list \<Rightarrow> bool" where
  "valid_chain [] = True"
| "valid_chain (b # bs) = (valid_next bs b \<and> valid_chain bs)"

section \<open>The validators over a chain of blocks\<close>

definition validate_block :: "hashed_block list \<Rightarrow> metadata_block \<Rightarrow> (append_validation_error accept_error, validator list) res" where
  "validate_block hbs b =
     and_then (map_err visitor_fault (new_validators b)) (\<lambda>vs.
     and_then (map_err visitor_fault
       (accept_list validator_ops False (map (\<lambda>v. (validator_initial_decision v, v)) vs) hbs)) (\<lambda>dvs.
     and_then (finish_all validator_ops (map snd dvs)) (\<lambda>_. Inr (map snd dvs))))"

definition passes :: "validator \<Rightarrow> hashed_block list \<Rightarrow> bool" where
  "passes v hbs \<longleftrightarrow>
     (\<exists>d v'. run_visitor validator_ops (validator_initial_decision v, v) hbs = Inr (d, v')
             \<and> validator_finish v' = Inr ())"

lemma validator_ops_simps [simp]:
  "initial_decision validator_ops = validator_initial_decision"
  "visit validator_ops = validator_visit"
  "finish validator_ops = validator_finish"
  by (simp_all add: validator_ops_def)

lemma finish_all_ok: "finish_all ops vs = Inr () \<longleftrightarrow> (\<forall>v \<in> set vs. finish ops v = Inr ())"
  by (simp add: finish_all_def res_simps)

lemma validate_block_ok:
  "(\<exists>r. validate_block hbs b = Inr r) \<longleftrightarrow>
     (\<exists>vs. new_validators b = Inr vs \<and> (\<forall>v \<in> set vs. passes v hbs))"
  (is "?lhs \<longleftrightarrow> ?rhs")
proof -
  let ?init = "map (\<lambda>v. (validator_initial_decision v, v))"
  have acc: "(\<exists>dvs. accept_list validator_ops False (?init vs) hbs = Inr dvs
               \<and> (\<forall>v \<in> set (map snd dvs). validator_finish v = Inr ()))
             \<longleftrightarrow> (\<forall>v \<in> set vs. passes v hbs)" for vs
    unfolding accept_list_ok [of False, simplified] list_all2_map1
  proof (induction vs)
    case (Cons v vs)
    then show ?case by (auto simp: list_all2_Cons1 passes_def) force+
  qed simp
  have "?lhs \<longleftrightarrow> (\<exists>vs. new_validators b = Inr vs \<and>
      (\<exists>dvs. accept_list validator_ops False (?init vs) hbs = Inr dvs
         \<and> (\<forall>v \<in> set (map snd dvs). validator_finish v = Inr ())))"
    by (auto simp: validate_block_def res_simps finish_all_ok)
  then show ?thesis by (simp only: acc)
qed

section \<open>Each validator on its own\<close>

lemma nonempty_flags [simp]:
  "\<not> flags_is_empty DATA_BLOCK" "\<not> flags_is_empty SET_POLLING_SOURCE"
  "\<not> flags_is_empty ADD_PUSH_SOURCE" "\<not> flags_is_empty ADD_DATA"
  "\<not> flags_is_empty SET_DATA_SCHEMA" "\<not> flags_is_empty SET_TRANSFORM"
  "\<not> flags_is_empty EXECUTE_TRANSFORM"
  by (simp_all add: flags_is_empty_def flag_defs)

lemma first_of_None: "first_of f xs = None \<longleftrightarrow> (\<forall>x \<in> set xs. f x = None)"
  by (induction xs) (auto split: option.splits)

lemma first_of_map: "first_of f (map g xs) = first_of (\<lambda>x. f (g x)) xs"
  by (induction xs) (auto split: option.splits)

lemma last_event_map: "last_event f (map snd hbs) = first_of (\<lambda>hb. f (event (snd hb))) hbs"
  by (simp add: last_event_def first_of_map)

lemma last_event_simps [simp]:
  "last_event f [] = None"
  "last_event f (b # bs) = opt_or (f (event b)) (last_event f bs)"
  by (auto simp: last_event_def split: option.splits)

text \<open>A visitor that is shown at most one block: the latest of the type it asks for.\<close>

lemma run_one_shot:
  assumes "\<not> flags_is_empty fs"
    and "\<And>hb. f hb = None \<longleftrightarrow> \<not> flags_contains fs (event_flag (event (snd hb)))"
    and "\<And>hb y. f hb = Some y \<Longrightarrow>
           (if P y then visit ops v hb = Inr (v, Stop) else \<exists>e. visit ops v hb = Inl e)"
  shows "(\<exists>d v'. run_visitor ops (NextOfType fs, v) hbs = Inr (d, v') \<and> Q v') \<longleftrightarrow>
           (case first_of f hbs of None \<Rightarrow> Q v | Some y \<Rightarrow> P y \<and> Q v)"
proof (induction hbs)
  case Nil
  then show ?case by simp
next
  case (Cons hb hbs)
  show ?case
  proof (cases "f hb")
    case None
    with assms(2) [of hb] have "\<not> flags_contains fs (event_flag (event (snd hb)))" by simp
    with None assms(1) Cons show ?thesis by simp
  next
    case (Some y)
    with assms(2) [of hb] have "flags_contains fs (event_flag (event (snd hb)))" by auto
    with assms(1) assms(3) [OF Some] Some show ?thesis by (auto split: if_splits)
  qed
qed

lemma passes_Stop:
  "validator_initial_decision v = Stop \<Longrightarrow> passes v hbs \<longleftrightarrow> validator_finish v = Inr ()"
  by (simp add: passes_def)

lemma passes_sequence:
  "passes (ValidateSequenceNumbersIntegrity n) hbs \<longleftrightarrow>
     (case hbs of [] \<Rightarrow> True | (_, p) # _ \<Rightarrow> n = sequence_number p + 1)"
  by (auto simp: passes_def split: list.split)

lemma passes_system_time:
  "passes (ValidateSystemTimeIsMonotonic t) hbs \<longleftrightarrow>
     (case hbs of [] \<Rightarrow> True | (_, p) # _ \<Rightarrow> system_time p \<le> t)"
  by (auto simp: passes_def split: list.split)

lemma passes_watermark:
  "passes (ValidateWatermarkIsMonotonic True wm) hbs \<longleftrightarrow>
     (case last_event as_data_stream_event (map snd hbs) of
        None \<Rightarrow> True
      | Some p \<Rightarrow> watermark_le (dse_new_watermark p) wm)"
proof -
  let ?v = "ValidateWatermarkIsMonotonic True wm"
  let ?f = "\<lambda>hb. as_data_stream_event (event (snd hb))"
  have "(\<exists>d v'. run_visitor validator_ops (NextOfType DATA_BLOCK, ?v) hbs = Inr (d, v')
           \<and> validator_finish v' = Inr ()) \<longleftrightarrow>
        (case first_of ?f hbs of
           None \<Rightarrow> validator_finish ?v = Inr ()
         | Some p \<Rightarrow> watermark_le (dse_new_watermark p) wm \<and> validator_finish ?v = Inr ())"
  proof (rule run_one_shot)
    fix hb :: hashed_block and y
    assume "?f hb = Some y"
    then show "if watermark_le (dse_new_watermark y) wm
               then visit validator_ops ?v hb = Inr (?v, Stop)
               else \<exists>e. visit validator_ops ?v hb = Inl e"
      by (cases hb; cases "dse_new_watermark y"; cases wm) (auto simp: visit_watermark_def)
  qed (simp_all add: flag_simps)
  then show ?thesis by (simp add: passes_def last_event_map split: option.split)
qed

lemma validate_internal_offset_consistency_ok:
  "validate_internal_offset_consistency e d = Inr u \<longleftrightarrow> valid_interval d"
  by (auto simp: validate_internal_offset_consistency_def valid_interval_def res_simps
      split: option.splits)

lemma passes_offsets:
  assumes "as_data_stream_block b = Some a" and "valid_interval (dsb_event a)"
  shows "passes (ValidateOffsetsAreSequential (event b) (Some a)) hbs \<longleftrightarrow>
     (case last_event as_data_stream_event (map snd hbs) of
        None \<Rightarrow> True
      | Some p \<Rightarrow> dse_prev_offset (dsb_event a) = data_stream_last_offset p)"
proof -
  let ?v = "ValidateOffsetsAreSequential (event b) (Some a)"
  let ?f = "\<lambda>hb. as_data_stream_event (event (snd hb))"
  let ?P = "\<lambda>p. dse_prev_offset (dsb_event a) = data_stream_last_offset p"
  have int: "validate_internal_offset_consistency (event b) (dsb_event a) = Inr ()"
    using assms(2) by (simp add: validate_internal_offset_consistency_ok)
  have "(\<exists>d v'. run_visitor validator_ops (NextOfType DATA_BLOCK, ?v) hbs = Inr (d, v')
           \<and> validator_finish v' = Inr ()) \<longleftrightarrow>
        (case first_of ?f hbs of
           None \<Rightarrow> validator_finish ?v = Inr ()
         | Some p \<Rightarrow> ?P p \<and> validator_finish ?v = Inr ())"
  proof (rule run_one_shot)
    fix hb :: hashed_block and y
    assume "?f hb = Some y"
    then show "if ?P y then visit validator_ops ?v hb = Inr (?v, Stop)
               else \<exists>e. visit validator_ops ?v hb = Inl e"
      by (cases hb) (auto simp: visit_offsets_def as_data_stream_block_def int)
  qed (simp_all add: flag_simps)
  then show ?thesis by (simp add: passes_def last_event_map split: option.split)
qed

lemma passes_forbidden:
  assumes "validator_initial_decision v = NextOfType fs" and "\<not> flags_is_empty fs"
    and "\<And>hb. flags_contains fs (event_flag (event (snd hb))) \<Longrightarrow> \<exists>e. validator_visit v hb = Inl e"
  shows "passes v hbs \<longleftrightarrow> validator_finish v = Inr () \<and>
           list_all (\<lambda>hb. \<not> flags_contains fs (event_flag (event (snd hb)))) hbs"
proof -
  have "(\<exists>d v'. run_visitor validator_ops (NextOfType fs, v) hbs = Inr (d, v')
           \<and> validator_finish v' = Inr ()) \<longleftrightarrow>
        validator_finish v = Inr () \<and>
        list_all (\<lambda>hb. \<not> flags_contains fs (event_flag (event (snd hb)))) hbs"
  proof (induction hbs)
    case (Cons hb hbs)
    show ?case
    proof (cases "flags_contains fs (event_flag (event (snd hb)))")
      case True
      with assms(2,3) show ?thesis by fastforce
    next
      case False
      with assms(2) Cons show ?thesis by simp
    qed
  qed simp
  then show ?thesis by (simp add: passes_def assms(1))
qed

lemma passes_add_push_source:
  "passes (ValidateAddPushSource True) hbs \<longleftrightarrow>
     list_all (\<lambda>b. \<not> is_SetPollingSource (event b)) (map snd hbs)"
  by (subst passes_forbidden [where fs = SET_POLLING_SOURCE])
    (auto simp: flag_simps list_all_iff split: metadata_event.splits)

lemma passes_set_polling_source:
  "passes (ValidateSetPollingSource True) hbs \<longleftrightarrow>
     list_all (\<lambda>b. \<not> is_AddPushSource (event b)) (map snd hbs)"
  by (subst passes_forbidden [where fs = ADD_PUSH_SOURCE])
    (auto simp: flag_simps list_all_iff split: metadata_event.splits)

subsection \<open>The data validator collects the latest schema and the latest data event\<close>

definition add_data_flags :: "'a option \<Rightarrow> 'b option \<Rightarrow> event_flags" where
  "add_data_flags ps pa =
     (if ps = None then SET_DATA_SCHEMA else 0) OR (if pa = None then ADD_DATA else 0)"

lemma add_data_flags_minus:
  "flags_minus (add_data_flags ps pa) ADD_DATA = add_data_flags ps (Some e)"
  "flags_minus (add_data_flags ps pa) SET_DATA_SCHEMA = add_data_flags (Some x) pa"
  by (simp_all add: add_data_flags_def flags_minus_def flag_defs)

lemma add_data_flags_empty: "flags_is_empty (add_data_flags ps pa) \<longleftrightarrow> ps \<noteq> None \<and> pa \<noteq> None"
  by (auto simp: add_data_flags_def flags_is_empty_def flag_defs)

lemma add_data_flags_contains:
  "flags_contains (add_data_flags ps pa) (event_flag e) \<longleftrightarrow>
     (ps = None \<and> is_SetDataSchema e) \<or> (pa = None \<and> is_AddData e)"
proof -
  have zero: "\<not> flags_contains 0 (event_flag e)"
    by (rule contains_empty) (simp add: flags_is_empty_def)
  show ?thesis by (auto simp: add_data_flags_def contains_or flag_simps zero)
qed

lemma as_event_None [simp]:
  "as_AddData e = None \<longleftrightarrow> \<not> is_AddData e"
  "as_ExecuteTransform e = None \<longleftrightarrow> \<not> is_ExecuteTransform e"
  "as_SetDataSchema e = None \<longleftrightarrow> \<not> is_SetDataSchema e"
  "as_SetTransform e = None \<longleftrightarrow> \<not> is_SetTransform e"
  by (cases e; simp)+

lemma opt_or_assoc [simp]: "opt_or (opt_or a b) c = opt_or a (opt_or b c)"
  by (cases a) simp_all

lemma opt_or_None [simp]: "opt_or a None = a"
  by (cases a) simp_all

text \<open>The state of the data validator after a run, up to its flags.\<close>

lemma run_add_data:
  assumes "adv_next_block_flags s = add_data_flags (adv_prev_schema s) (adv_prev_add_data s)"
  shows "\<exists>d s'. run_visitor validator_ops (NextOfType (adv_next_block_flags s), ValidateAddData s) hbs
             = Inr (d, ValidateAddData s')
           \<and> adv_appended s' = adv_appended s
           \<and> adv_prev_schema s' = opt_or (adv_prev_schema s) (last_event as_SetDataSchema (map snd hbs))
           \<and> adv_prev_add_data s' = opt_or (adv_prev_add_data s) (last_event as_AddData (map snd hbs))"
  using assms
proof (induction hbs arbitrary: s)
  case Nil
  then show ?case by simp
next
  case (Cons hb hbs)
  obtain h b where hb: "hb = (h, b)" by fastforce
  let ?ps = "adv_prev_schema s" and ?pa = "adv_prev_add_data s"
  consider (stop) "?ps \<noteq> None" "?pa \<noteq> None"
    | (data) e where "event b = AddData e" "?pa = None"
    | (schema) e where "event b = SetDataSchema e" "?ps = None"
    | (skip) "\<not> (?ps \<noteq> None \<and> ?pa \<noteq> None)"
        "\<not> (?ps = None \<and> is_SetDataSchema (event b))" "\<not> (?pa = None \<and> is_AddData (event b))"
    unfolding is_AddData_def is_SetDataSchema_def by blast
  then show ?case
  proof cases
    case stop
    then show ?thesis by (auto simp: Cons.prems add_data_flags_empty)
  next
    case data
    let ?s = "s\<lparr>adv_prev_add_data := Some e, adv_next_block_flags := add_data_flags ?ps (Some e)\<rparr>"
    have "visit_add_data s (event b) = Inr (?s, NextOfType (adv_next_block_flags ?s))"
      using data by (simp add: visit_add_data_def Cons.prems add_data_flags_minus)
    moreover from Cons.IH [of ?s] obtain d s' where IH:
      "run_visitor validator_ops (NextOfType (adv_next_block_flags ?s), ValidateAddData ?s) hbs
         = Inr (d, ValidateAddData s')"
      "adv_appended s' = adv_appended s"
      "adv_prev_schema s' = opt_or ?ps (last_event as_SetDataSchema (map snd hbs))"
      "adv_prev_add_data s' = Some e" by auto
    moreover have "\<not> flags_is_empty (adv_next_block_flags s)"
      "flags_contains (adv_next_block_flags s) (event_flag (event b))"
      unfolding Cons.prems add_data_flags_empty add_data_flags_contains using data by simp_all
    ultimately have "run_visitor validator_ops (NextOfType (adv_next_block_flags s), ValidateAddData s)
        (hb # hbs) = Inr (d, ValidateAddData s')"
      using hb by simp
    with IH(2-) data hb show ?thesis by fastforce
  next
    case schema
    let ?s = "s\<lparr>adv_prev_schema := Some e, adv_next_block_flags := add_data_flags (Some e) ?pa\<rparr>"
    have "visit_add_data s (event b) = Inr (?s, NextOfType (adv_next_block_flags ?s))"
      using schema by (simp add: visit_add_data_def Cons.prems add_data_flags_minus)
    moreover from Cons.IH [of ?s] obtain d s' where IH:
      "run_visitor validator_ops (NextOfType (adv_next_block_flags ?s), ValidateAddData ?s) hbs
         = Inr (d, ValidateAddData s')"
      "adv_appended s' = adv_appended s"
      "adv_prev_schema s' = Some e"
      "adv_prev_add_data s' = opt_or ?pa (last_event as_AddData (map snd hbs))" by auto
    moreover have "\<not> flags_is_empty (adv_next_block_flags s)"
      "flags_contains (adv_next_block_flags s) (event_flag (event b))"
      unfolding Cons.prems add_data_flags_empty add_data_flags_contains using schema by simp_all
    ultimately have "run_visitor validator_ops (NextOfType (adv_next_block_flags s), ValidateAddData s)
        (hb # hbs) = Inr (d, ValidateAddData s')"
      using hb by simp
    with IH(2-) schema hb show ?thesis by fastforce
  next
    case skip
    then have "\<not> flags_is_empty (adv_next_block_flags s)"
      "\<not> flags_contains (adv_next_block_flags s) (event_flag (event b))"
      by (simp_all add: Cons.prems add_data_flags_empty add_data_flags_contains)
    moreover have "opt_or ?ps (opt_or (as_SetDataSchema (event b)) x) = opt_or ?ps x"
      "opt_or ?pa (opt_or (as_AddData (event b)) y) = opt_or ?pa y" for x y
      using skip by (cases "event b"; auto simp: opt_or_def split: option.splits)+
    ultimately show ?thesis using Cons.IH [OF Cons.prems] hb by simp
  qed
qed

subsection \<open>The transform validator collects the schema, the query and the transform\<close>

definition transform_flags :: "'a option \<Rightarrow> 'b option \<Rightarrow> 'c option \<Rightarrow> event_flags" where
  "transform_flags pt ps pq =
     (if ps = None then SET_DATA_SCHEMA else 0)
     OR (if pt = None \<and> \<not> (ps \<noteq> None \<and> pq \<noteq> None) then SET_TRANSFORM else 0)
     OR (if pq = None then EXECUTE_TRANSFORM else 0)"

lemma transform_flags_empty:
  "flags_is_empty (transform_flags pt ps pq) \<longleftrightarrow> ps \<noteq> None \<and> pq \<noteq> None"
  by (auto simp: transform_flags_def flags_is_empty_def flag_defs)

lemma transform_flags_contains:
  "flags_contains (transform_flags pt ps pq) (event_flag e) \<longleftrightarrow>
     (ps = None \<and> is_SetDataSchema e) \<or> (pq = None \<and> is_ExecuteTransform e)
     \<or> (pt = None \<and> \<not> (ps \<noteq> None \<and> pq \<noteq> None) \<and> is_SetTransform e)"
proof -
  have zero: "\<not> flags_contains 0 (event_flag e)"
    by (rule contains_empty) (simp add: flags_is_empty_def)
  show ?thesis by (auto simp: transform_flags_def contains_or flag_simps zero)
qed

lemma transform_flags_minus:
  "ps = None \<Longrightarrow> pq = None \<Longrightarrow>
     flags_minus (transform_flags pt ps pq) SET_DATA_SCHEMA = transform_flags pt (Some x) pq"
  "ps = None \<Longrightarrow> pq \<noteq> None \<Longrightarrow>
     flags_minus (flags_minus (transform_flags pt ps pq) SET_DATA_SCHEMA) SET_TRANSFORM
       = transform_flags pt (Some x) pq"
  "ps = None \<Longrightarrow> pq = None \<Longrightarrow>
     flags_minus (transform_flags pt ps pq) EXECUTE_TRANSFORM = transform_flags pt ps (Some y)"
  "ps \<noteq> None \<Longrightarrow> pq = None \<Longrightarrow>
     flags_minus (flags_minus (transform_flags pt ps pq) EXECUTE_TRANSFORM) SET_TRANSFORM
       = transform_flags pt ps (Some y)"
  "\<not> (ps \<noteq> None \<and> pq \<noteq> None) \<Longrightarrow>
     flags_minus (transform_flags pt ps pq) SET_TRANSFORM = transform_flags (Some z) ps pq"
  by (auto simp: transform_flags_def flags_minus_def flag_defs)

text \<open>The state of the transform validator after a run, up to its flags.\<close>

definition transform_collected ::
  "execute_transform_visitor \<Rightarrow> metadata_block list \<Rightarrow> execute_transform_visitor \<Rightarrow> bool" where
  "transform_collected s bs s' \<longleftrightarrow>
     etv_appended s' = etv_appended s
     \<and> etv_prev_schema s' = opt_or (etv_prev_schema s) (last_event as_SetDataSchema bs)
     \<and> etv_prev_query s' = opt_or (etv_prev_query s) (last_event as_ExecuteTransform bs)
     \<and> etv_prev_transform s' = opt_or (etv_prev_transform s)
          (last_event as_SetTransform
            (transform_window (etv_prev_schema s \<noteq> None) (etv_prev_query s \<noteq> None) bs))"

lemma visit_execute_transform_step:
  assumes "etv_next_block_flags s =
             transform_flags (etv_prev_transform s) (etv_prev_schema s) (etv_prev_query s)"
    and "flags_contains (etv_next_block_flags s) (event_flag (event b))"
  shows "\<exists>s1. visit_execute_transform s (event b) = Inr (s1, NextOfType (etv_next_block_flags s1))
           \<and> etv_next_block_flags s1 =
               transform_flags (etv_prev_transform s1) (etv_prev_schema s1) (etv_prev_query s1)
           \<and> (\<forall>bs s'. transform_collected s1 bs s' \<longrightarrow> transform_collected s (b # bs) s')"
proof -
  consider (schema) e where "event b = SetDataSchema e" "etv_prev_schema s = None"
    | (query) e where "event b = ExecuteTransform e" "etv_prev_query s = None"
    | (transform) e where "event b = SetTransform e" "etv_prev_transform s = None"
        "\<not> (etv_prev_schema s \<noteq> None \<and> etv_prev_query s \<noteq> None)"
    using assms(2) unfolding assms(1) transform_flags_contains
      is_SetDataSchema_def is_ExecuteTransform_def is_SetTransform_def by blast
  then show ?thesis
  proof cases
    case schema
    then show ?thesis
      by (cases "etv_prev_query s")
        (auto simp: visit_execute_transform_def assms(1) transform_flags_minus transform_collected_def)
  next
    case query
    then show ?thesis
      by (cases "etv_prev_schema s")
        (auto simp: visit_execute_transform_def assms(1) transform_flags_minus transform_collected_def)
  next
    case transform
    then show ?thesis
      by (auto simp: visit_execute_transform_def assms(1) transform_flags_minus transform_collected_def)
  qed
qed

lemma transform_collected_skip:
  assumes "\<not> (etv_prev_schema s = None \<and> is_SetDataSchema (event b))"
    and "\<not> (etv_prev_query s = None \<and> is_ExecuteTransform (event b))"
    and "\<not> (etv_prev_transform s = None
            \<and> \<not> (etv_prev_schema s \<noteq> None \<and> etv_prev_query s \<noteq> None) \<and> is_SetTransform (event b))"
    and "transform_collected s bs s'"
  shows "transform_collected s (b # bs) s'"
  using assms
  by (cases "event b"; cases "etv_prev_schema s"; cases "etv_prev_query s"; cases "etv_prev_transform s")
    (simp_all add: transform_collected_def)

lemma run_execute_transform:
  assumes "etv_next_block_flags s =
             transform_flags (etv_prev_transform s) (etv_prev_schema s) (etv_prev_query s)"
  shows "\<exists>d s'. run_visitor validator_ops (NextOfType (etv_next_block_flags s), ValidateExecuteTransform s) hbs
             = Inr (d, ValidateExecuteTransform s') \<and> transform_collected s (map snd hbs) s'"
  using assms
proof (induction hbs arbitrary: s)
  case Nil
  then show ?case by (simp add: transform_collected_def)
next
  case (Cons hb hbs)
  obtain h b where hb: "hb = (h, b)" by fastforce
  show ?case
  proof (cases "flags_is_empty (etv_next_block_flags s)")
    case True
    then have "transform_collected s (map snd (hb # hbs)) s"
      using hb by (auto simp: Cons.prems transform_flags_empty transform_collected_def)
    with True show ?thesis by auto
  next
    case False
    show ?thesis
    proof (cases "flags_contains (etv_next_block_flags s) (event_flag (event b))")
      case True
      from visit_execute_transform_step [OF Cons.prems True] obtain s1 where
        s1: "visit_execute_transform s (event b) = Inr (s1, NextOfType (etv_next_block_flags s1))"
          "etv_next_block_flags s1 =
             transform_flags (etv_prev_transform s1) (etv_prev_schema s1) (etv_prev_query s1)"
          "transform_collected s1 bs s' \<Longrightarrow> transform_collected s (b # bs) s'" for bs s'
        by blast
      from Cons.IH [OF s1(2)] show ?thesis
        using False True hb s1(1,3) by fastforce
    next
      case False2: False
      then have "transform_collected s (map snd hbs) s' \<Longrightarrow> transform_collected s (b # map snd hbs) s'" for s'
        by (intro transform_collected_skip) (auto simp: Cons.prems transform_flags_contains)
      with Cons.IH [OF Cons.prems] False False2 hb show ?thesis by fastforce
    qed
  qed
qed

section \<open>Validators and their constructors together\<close>

definition accepted :: "validator vres \<Rightarrow> hashed_block list \<Rightarrow> bool" where
  "accepted r hbs \<longleftrightarrow> (\<exists>v. r = Inr v \<and> passes v hbs)"

lemma new_validators_accepted:
  "(\<exists>vs. new_validators b = Inr vs \<and> (\<forall>v \<in> set vs. passes v hbs)) \<longleftrightarrow>
     passes (new_add_data b) hbs \<and> passes (new_execute_transform b) hbs
     \<and> accepted (new_unimplemented_events b) hbs \<and> accepted (new_seed_block_order b) hbs
     \<and> accepted (new_sequence_numbers_integrity b) hbs \<and> passes (new_system_time_is_monotonic b) hbs
     \<and> passes (new_watermark_is_monotonic b) hbs \<and> accepted (new_event_is_not_empty b) hbs
     \<and> accepted (new_offsets_are_sequential b) hbs \<and> accepted (new_add_push_source b) hbs
     \<and> accepted (new_set_polling_source b) hbs \<and> accepted (new_set_transform b) hbs"
  unfolding new_validators_def accepted_def and_then_eq_Inr by auto

lemma accepted_unimplemented:
  "accepted (new_unimplemented_events b) hbs \<longleftrightarrow>
     \<not> is_DisablePushSource (event b) \<and> \<not> is_DisablePollingSource (event b)"
  by (cases "event b") (simp_all add: accepted_def new_unimplemented_events_def passes_Stop)

lemma accepted_seed:
  "accepted (new_seed_block_order b) hbs \<longleftrightarrow> (is_Seed (event b) \<longleftrightarrow> prev_block_hash b = None)"
  by (cases "event b") (auto simp: accepted_def new_seed_block_order_def passes_Stop)

lemma accepted_sequence:
  assumes "prev_block_hash b = None \<longleftrightarrow> hbs = []"
  shows "accepted (new_sequence_numbers_integrity b) hbs \<longleftrightarrow>
     (case hbs of [] \<Rightarrow> sequence_number b = 0
                | (_, p) # _ \<Rightarrow> sequence_number b = sequence_number p + 1)"
  using assms
  by (auto simp: accepted_def new_sequence_numbers_integrity_def passes_sequence split: list.split)

lemma accepted_not_empty:
  "accepted (new_event_is_not_empty b) hbs \<longleftrightarrow>
     (case event b of AddData e \<Rightarrow> \<not> add_data_is_empty e
                    | ExecuteTransform e \<Rightarrow> \<not> execute_transform_is_empty e | _ \<Rightarrow> True)"
  by (cases "event b") (auto simp: accepted_def new_event_is_not_empty_def passes_Stop)

lemma accepted_data:
  "passes (new_watermark_is_monotonic b) hbs \<and> accepted (new_offsets_are_sequential b) hbs \<longleftrightarrow>
     valid_data_event (map snd hbs) (event b)"
proof (cases "as_data_stream_event (event b)")
  case None
  then show ?thesis
    by (simp add: new_watermark_is_monotonic_def new_offsets_are_sequential_def accepted_def
        passes_Stop valid_data_event_def as_data_stream_block_def
        del: as_data_stream_event_None)
next
  case (Some d)
  then obtain a where a: "as_data_stream_block b = Some a" "dsb_event a = d"
    by (auto simp: as_data_stream_block_def)
  have "accepted (new_offsets_are_sequential b) hbs \<longleftrightarrow>
          valid_interval d \<and> (case last_event as_data_stream_event (map snd hbs) of
             None \<Rightarrow> True | Some p \<Rightarrow> dse_prev_offset d = data_stream_last_offset p)"
  proof (cases "valid_interval d")
    case True
    with a passes_offsets [OF a(1)] show ?thesis
      by (simp add: new_offsets_are_sequential_def accepted_def res_simps
          validate_internal_offset_consistency_ok split: option.split)
  next
    case False
    with a show ?thesis
      by (simp add: new_offsets_are_sequential_def accepted_def res_simps
          validate_internal_offset_consistency_ok)
  qed
  with Some show ?thesis
    by (auto simp: new_watermark_is_monotonic_def passes_watermark valid_data_event_def
        data_follows_def split: option.splits)
qed

lemma validate_transform_ok: "validate_transform e t = Inr u \<longleftrightarrow> valid_transform t"
proof (cases t)
  case (Sql s)
  then show ?thesis
    by (cases "ts_queries s") (auto simp: res_simps list_all_iff)
qed

lemma accepted_add_push_source:
  "accepted (new_add_push_source b) hbs \<longleftrightarrow>
     (is_AddPushSource (event b) \<longrightarrow> valid_event (map snd hbs) (event b))"
proof (cases "event b")
  case (AddPushSource e)
  then show ?thesis
    by (cases "aps_preprocess e")
      (simp_all add: accepted_def new_add_push_source_def res_simps validate_transform_ok
        passes_add_push_source)
qed (simp_all add: accepted_def new_add_push_source_def passes_Stop)

lemma accepted_set_polling_source:
  "accepted (new_set_polling_source b) hbs \<longleftrightarrow>
     (is_SetPollingSource (event b) \<longrightarrow> valid_event (map snd hbs) (event b))"
proof (cases "event b")
  case (SetPollingSource e)
  then show ?thesis
    by (cases "sps_preprocess e"; cases "sps_fetch e")
      (auto simp: accepted_def new_set_polling_source_def res_simps validate_transform_ok
        passes_set_polling_source valid_polling_source_def)
qed (simp_all add: accepted_def new_set_polling_source_def passes_Stop)

lemma accepted_set_transform:
  "accepted (new_set_transform b) hbs \<longleftrightarrow>
     (is_SetTransform (event b) \<longrightarrow> valid_event (map snd hbs) (event b))"
proof (cases "event b")
  case (SetTransform e)
  then show ?thesis
    by (auto simp: accepted_def new_set_transform_def res_simps validate_transform_ok passes_Stop
        valid_set_transform_def list_all_iff)
qed (simp_all add: accepted_def new_set_transform_def passes_Stop)

lemma passes_add_data:
  assumes "event b = AddData e" and "\<not> add_data_is_empty e"
  shows "passes (new_add_data b) hbs \<longleftrightarrow> valid_add_data (map snd hbs) e"
proof -
  let ?s = "\<lparr>adv_appended = Some e, adv_prev_schema = None, adv_prev_add_data = None,
             adv_next_block_flags = SET_DATA_SCHEMA OR ADD_DATA\<rparr>"
  have "adv_next_block_flags ?s = add_data_flags (adv_prev_schema ?s) (adv_prev_add_data ?s)"
    by (simp add: add_data_flags_def)
  from run_add_data [OF this, of hbs] obtain d s' where
    run: "run_visitor validator_ops (NextOfType (SET_DATA_SCHEMA OR ADD_DATA), ValidateAddData ?s) hbs
            = Inr (d, ValidateAddData s')"
    and s': "adv_appended s' = Some e"
      "adv_prev_schema s' = last_event as_SetDataSchema (map snd hbs)"
      "adv_prev_add_data s' = last_event as_AddData (map snd hbs)"
    by auto
  then have "passes (new_add_data b) hbs \<longleftrightarrow> finish_add_data s' = Inr ()"
    using assms(1) by (simp add: passes_def new_add_data_def)
  also have "\<dots> \<longleftrightarrow> valid_add_data (map snd hbs) e"
    using assms(2) by (auto simp: s' finish_add_data_def valid_add_data_def res_simps Let_def)
  finally show ?thesis .
qed

lemma passes_not_add_data: "\<not> is_AddData (event b) \<Longrightarrow> passes (new_add_data b) hbs"
  by (cases "event b") (simp_all add: new_add_data_def passes_Stop finish_add_data_def)

lemma inputs_ne_False:
  "inputs_ne xs is = Inr False \<longleftrightarrow> map (\<lambda>i. dataset_ref_id (ti_dataset_ref i)) is = map Some xs"
  by (induction xs "is" rule: inputs_ne.induct) (auto split: option.splits list.splits)

lemma ex_Inr_False [simp]: "(\<exists>x. r = Inr x \<and> \<not> x) \<longleftrightarrow> r = Inr False"
  by auto

lemma validate_inputs_order_ok:
  "validate_inputs_order e pt pq = Inr u \<longleftrightarrow>
     declared_inputs pt pq (map eti_dataset_id (et_query_inputs e))"
  by (cases pt; cases pq)
    (auto simp: validate_inputs_order_def declared_inputs_def res_simps inputs_ne_False Let_def)

lemma validate_input_pair_ok: "validate_input_pair e (p, n) = Inr u \<longleftrightarrow> input_follows p n"
  by (auto simp: validate_input_pair_def input_follows_def res_simps)

lemma passes_execute_transform:
  assumes "event b = ExecuteTransform e" and "\<not> execute_transform_is_empty e"
  shows "passes (new_execute_transform b) hbs \<longleftrightarrow> valid_execute_transform (map snd hbs) e"
proof -
  let ?fs = "SET_DATA_SCHEMA OR SET_TRANSFORM OR EXECUTE_TRANSFORM"
  let ?s = "\<lparr>etv_appended = Some e, etv_prev_transform = None, etv_prev_schema = None,
             etv_prev_query = None, etv_next_block_flags = ?fs\<rparr>"
  have "etv_next_block_flags ?s =
          transform_flags (etv_prev_transform ?s) (etv_prev_schema ?s) (etv_prev_query ?s)"
    by (simp add: transform_flags_def)
  from run_execute_transform [OF this, of hbs] obtain d s' where
    run: "run_visitor validator_ops (NextOfType ?fs, ValidateExecuteTransform ?s) hbs
            = Inr (d, ValidateExecuteTransform s')"
    and s': "etv_appended s' = Some e"
      "etv_prev_schema s' = last_event as_SetDataSchema (map snd hbs)"
      "etv_prev_query s' = last_event as_ExecuteTransform (map snd hbs)"
      "etv_prev_transform s' = last_event as_SetTransform (transform_window False False (map snd hbs))"
    by (auto simp: transform_collected_def)
  have pairs: "try_each (validate_input_pair e) ps = Inr () \<longleftrightarrow> list_all (\<lambda>(p, n). input_follows p n) ps"
    for ps
    by (auto simp: res_simps list_all_iff validate_input_pair_ok)
  from run have "passes (new_execute_transform b) hbs \<longleftrightarrow> finish_execute_transform s' = Inr ()"
    using assms(1) by (simp add: passes_def new_execute_transform_def)
  also have "\<dots> \<longleftrightarrow> valid_execute_transform (map snd hbs) e"
    using assms(2)
    by (cases "last_event as_ExecuteTransform (map snd hbs)")
      (auto simp: s' finish_execute_transform_def valid_execute_transform_def and_then_eq_Inr
        ensure_eq_Inr Let_def validate_inputs_order_ok pairs list_ex_iff list_all_iff)
  finally show ?thesis .
qed

lemma passes_not_execute_transform:
  "\<not> is_ExecuteTransform (event b) \<Longrightarrow> passes (new_execute_transform b) hbs"
  by (cases "event b")
    (simp_all add: new_execute_transform_def passes_Stop finish_execute_transform_def)

text \<open>The visitors accept exactly the blocks that satisfy the specification.\<close>

lemma validate_block_iff:
  assumes "prev_block_hash b = None \<longleftrightarrow> hbs = []"
  shows "(\<exists>r. validate_block hbs b = Inr r) \<longleftrightarrow> valid_next (map snd hbs) b"
proof -
  have order: "accepted (new_sequence_numbers_integrity b) hbs
      \<and> passes (new_system_time_is_monotonic b) hbs \<longleftrightarrow>
      (case map snd hbs of [] \<Rightarrow> sequence_number b = 0
       | p # _ \<Rightarrow> sequence_number b = sequence_number p + 1 \<and> system_time p \<le> system_time b)"
    unfolding accepted_sequence [OF assms]
    by (cases hbs) (auto simp: new_system_time_is_monotonic_def passes_system_time)
  have events: "passes (new_add_data b) hbs \<and> passes (new_execute_transform b) hbs
      \<and> accepted (new_unimplemented_events b) hbs \<and> accepted (new_event_is_not_empty b) hbs
      \<and> accepted (new_add_push_source b) hbs \<and> accepted (new_set_polling_source b) hbs
      \<and> accepted (new_set_transform b) hbs \<longleftrightarrow> valid_event (map snd hbs) (event b)"
  proof (cases "event b")
    case (AddData e)
    then show ?thesis
      by (cases "add_data_is_empty e")
        (simp_all add: passes_add_data passes_not_execute_transform accepted_unimplemented
          accepted_not_empty accepted_add_push_source accepted_set_polling_source
          accepted_set_transform valid_add_data_def)
  next
    case (ExecuteTransform e)
    then show ?thesis
      by (cases "execute_transform_is_empty e")
        (simp_all add: passes_execute_transform passes_not_add_data accepted_unimplemented
          accepted_not_empty accepted_add_push_source accepted_set_polling_source
          accepted_set_transform valid_execute_transform_def)
  qed (simp_all add: passes_not_add_data passes_not_execute_transform accepted_unimplemented
      accepted_not_empty accepted_add_push_source accepted_set_polling_source accepted_set_transform)
  have "(\<exists>r. validate_block hbs b = Inr r) \<longleftrightarrow>
      (is_Seed (event b) \<longleftrightarrow> hbs = [])
      \<and> (accepted (new_sequence_numbers_integrity b) hbs \<and> passes (new_system_time_is_monotonic b) hbs)
      \<and> (passes (new_watermark_is_monotonic b) hbs \<and> accepted (new_offsets_are_sequential b) hbs)
      \<and> (passes (new_add_data b) hbs \<and> passes (new_execute_transform b) hbs
      \<and> accepted (new_unimplemented_events b) hbs \<and> accepted (new_event_is_not_empty b) hbs
      \<and> accepted (new_add_push_source b) hbs \<and> accepted (new_set_polling_source b) hbs
      \<and> accepted (new_set_transform b) hbs)"
    unfolding validate_block_ok new_validators_accepted accepted_seed assms by blast
  then show ?thesis
    unfolding order events accepted_data valid_next_def by simp
qed

section \<open>What validity of a chain means\<close>

lemma valid_chain_sequence_number:
  "valid_chain bs \<Longrightarrow> i < length bs \<Longrightarrow> sequence_number (bs ! i) = of_nat (length bs - 1 - i)"
proof (induction bs arbitrary: i)
  case (Cons b bs)
  show ?case
  proof (cases bs)
    case Nil
    with Cons.prems show ?thesis by (simp add: valid_next_def)
  next
    case (Cons p ps)
    with Cons.prems Cons.IH [of 0] have "sequence_number b = of_nat (length bs)"
      by (simp add: valid_next_def)
    then show ?thesis using Cons.prems Cons.IH by (cases i) auto
  qed
qed simp

lemma valid_chain_seed:
  "valid_chain bs \<Longrightarrow> i < length bs \<Longrightarrow> is_Seed (event (bs ! i)) \<longleftrightarrow> Suc i = length bs"
proof (induction bs arbitrary: i)
  case (Cons b bs)
  then show ?case by (cases i) (auto simp: valid_next_def)
qed simp

lemma valid_chain_system_time:
  "valid_chain bs \<Longrightarrow> sorted_wrt (\<lambda>newer older. system_time older \<le> system_time newer) bs"
proof (induction bs)
  case (Cons b bs)
  show ?case
  proof (cases bs)
    case (Cons p ps)
    have "system_time p \<le> system_time b" using Cons Cons.prems by (simp add: valid_next_def)
    with Cons Cons.IH Cons.prems show ?thesis by force
  qed simp
qed simp

lemma valid_chain_suffix: "valid_chain (as @ bs) \<Longrightarrow> valid_chain bs"
  by (induction as) auto

lemma valid_chain_resolved: "valid_chain bs \<Longrightarrow> b \<in> set bs \<Longrightarrow> resolved_block (h, b)"
proof (induction bs)
  case (Cons a bs)
  then show ?case
    by (auto simp: valid_next_def resolved_block_def resolved_inputs_def valid_set_transform_def
        list_all_iff split: metadata_event.split)
qed simp

subsection \<open>Offsets of the data slices\<close>

definition block_slice :: "metadata_block \<Rightarrow> offset_interval option" where
  "block_slice b =
     map_option ds_offset_interval (Option.bind (as_data_stream_event (event b)) dse_new_data)"

text \<open>The offset intervals of the slices of a chain, newest first.\<close>

definition slices :: "metadata_block list \<Rightarrow> offset_interval list" where
  "slices bs = List.map_filter block_slice bs"

lemma slices_simps [simp]:
  "slices [] = []"
  "slices (b # bs) = (case block_slice b of None \<Rightarrow> slices bs | Some s \<Rightarrow> s # slices bs)"
  by (simp_all add: slices_def map_filter_simps split: option.split)

text \<open>The last data event knows the last offset of the chain.\<close>

lemma last_offset_slices:
  assumes "valid_chain bs" and "slices bs = s # ss"
  shows "\<exists>p. last_event as_data_stream_event bs = Some p \<and> data_stream_last_offset p = Some (oi_end s)"
  using assms
proof (induction bs)
  case (Cons b bs)
  show ?case
  proof (cases "as_data_stream_event (event b)")
    case None
    with Cons show ?thesis by (simp add: block_slice_def last_event_def del: as_data_stream_event_None)
  next
    case (Some d)
    show ?thesis
    proof (cases "dse_new_data d")
      case (Some n)
      with \<open>as_data_stream_event (event b) = Some d\<close> Cons.prems(2) show ?thesis
        by (simp add: block_slice_def last_event_def data_stream_last_offset_def)
    next
      case None
      with Some Cons have "dse_prev_offset d = Some (oi_end s)"
        by (auto simp: block_slice_def valid_next_def valid_data_event_def data_follows_def)
      with None Some show ?thesis by (simp add: last_event_def data_stream_last_offset_def)
    qed
  qed
qed simp

definition contiguous :: "offset_interval list \<Rightarrow> bool" where
  "contiguous is \<longleftrightarrow>
     successively (\<lambda>newer older. oi_start newer = oi_end older + 1) is
     \<and> list_all (\<lambda>i. oi_start i \<le> oi_end i) is"

lemma valid_chain_contiguous: "valid_chain bs \<Longrightarrow> contiguous (slices bs)"
proof (induction bs)
  case (Cons b bs)
  then have IH: "contiguous (slices bs)" by simp
  show ?case
  proof (cases "block_slice b")
    case (Some i)
    then obtain d n where d: "as_data_stream_event (event b) = Some d" "dse_new_data d = Some n"
      "i = ds_offset_interval n"
      by (auto simp: block_slice_def bind_eq_Some_conv)
    with Cons.prems have v: "valid_interval d" "valid_data_event bs (event b)"
      by (auto simp: valid_next_def valid_data_event_def)
    then have "oi_start i \<le> oi_end i" using d by (auto simp: valid_interval_def)
    moreover have "oi_start i = oi_end s + 1" if s: "slices bs = s # ss" for s ss
      using last_offset_slices [OF _ s] Cons.prems v d
      by (auto simp: valid_interval_def valid_data_event_def data_follows_def expected_start_offset_def)
    ultimately show ?thesis
      using IH Some by (cases "slices bs") (auto simp: contiguous_def)
  qed (use IH in simp)
qed (simp add: contiguous_def)

end
