(* ===== verification/Metadata_Chain.thy ===== *)
theory Metadata_Chain
  imports Chain_Validity
begin

text \<open>
  The metadata chain itself (\<open>metadata_chain_impl.rs\<close>, with the options and errors of
  \<open>metadata_chain.rs\<close>): a block repository and a reference repository, read by iteration and
  traversal, changed by \<open>append\<close> and \<open>set_ref\<close>. An operation that changes the chain returns
  its result together with the state it leaves, also on failure. The traversals are partial
  functions, since nothing but the hashing prevents a cyclic store; they return on every
  chain that ends in a block without predecessor.
\<close>

section \<open>State, options and errors\<close>

record chain =
  meta_block_repo :: object_repo
  ref_repo :: named_repo

record set_ref_opts =
  so_validate_block_present :: bool
  so_check_ref_is :: "multihash option option"

definition default_set_ref_opts :: set_ref_opts where
  "default_set_ref_opts = \<lparr>so_validate_block_present = True, so_check_ref_is = None\<rparr>"

datatype append_validation = ValidationNone | ValidationFull

record append_opts =
  ao_validation :: append_validation
  ao_update_ref :: "block_ref option"
  ao_check_ref_is_prev_block :: bool
  ao_check_ref_is :: "multihash option option"
  ao_precomputed_hash :: "multihash option"
  ao_expected_hash :: "multihash option"

definition default_append_opts :: append_opts where
  "default_append_opts =
     \<lparr>ao_validation = ValidationFull, ao_update_ref = Some Head, ao_check_ref_is_prev_block = True,
      ao_check_ref_is = None, ao_precomputed_hash = None, ao_expected_hash = None\<rparr>"

datatype set_ref_error =
    SetRefBlockNotFound multihash
  | SetRefCASFailed block_ref "multihash option" "multihash option"  \<comment> \<open>reference, expected, actual\<close>
  | SetRefAccess access_error
  | SetRefInternal string

datatype append_error =
    AppendRefNotFound block_ref
  | RefCASFailed block_ref "multihash option" "multihash option"
  | InvalidBlock append_validation_error
  | AppendAccess access_error
  | AppendInternal string

lemma map_fault_Panic [simp]:
  "map_fault f e = Panic m \<longleftrightarrow> e = Panic m" "Panic m = map_fault f e \<longleftrightarrow> e = Panic m"
  by (cases e; auto)+

section \<open>Reading\<close>

definition chain_resolve_ref :: "externs \<Rightarrow> chain \<Rightarrow> block_ref \<Rightarrow> (get_ref_error, multihash) res" where
  "chain_resolve_ref x c r = ref_get x (ref_repo c) r"

definition chain_get_block :: "codec \<Rightarrow> chain \<Rightarrow> multihash \<Rightarrow> get_block_error + metadata_block" where
  "chain_get_block cd c h = repo_get_block cd (meta_block_repo c) h"

definition chain_contains_block :: "chain \<Rightarrow> multihash \<Rightarrow> bool" where
  "chain_contains_block c h = repo_contains_block (meta_block_repo c) h"

definition chain_try_get_ref :: "externs \<Rightarrow> chain \<Rightarrow> block_ref \<Rightarrow> (string, multihash option) res" where
  "chain_try_get_ref x c r =
     (case chain_resolve_ref x c r of
        Inr h \<Rightarrow> Inr (Some h)
      | Inl (Fail (RefNotFound _)) \<Rightarrow> Inr None
      | Inl f \<Rightarrow> Inl (map_fault (\<lambda>_. ''internal'') f))"

definition chain_try_get_block :: "codec \<Rightarrow> chain \<Rightarrow> multihash \<Rightarrow> string + metadata_block option" where
  "chain_try_get_block cd c h =
     (case chain_get_block cd c h of
        Inr b \<Rightarrow> Inr (Some b)
      | Inl (BlockNotFound _) \<Rightarrow> Inr None
      | Inl _ \<Rightarrow> Inl ''internal'')"

definition chain_get_block_by_ref :: "externs \<Rightarrow> codec \<Rightarrow> chain \<Rightarrow> block_ref \<Rightarrow> (string, metadata_block) res" where
  "chain_get_block_by_ref x cd c r =
     and_then (map_err (map_fault (\<lambda>_. ''internal'')) (chain_resolve_ref x c r)) (\<lambda>h.
       map_err (\<lambda>_. Fail ''internal'') (chain_get_block cd c h))"

text \<open>
  A stream of blocks: what it yields, and the error it ends with, if any.
\<close>

type_synonym block_stream = "hashed_block list \<times> iter_blocks_error fault option"

partial_function (option) iter_loop ::
  "(multihash \<Rightarrow> get_block_error + metadata_block) \<Rightarrow> multihash option \<Rightarrow> multihash option \<Rightarrow>
   (hashed_block list \<times> (iter_blocks_error + multihash option)) option" where
  "iter_loop get tail current =
     (case current of
        None \<Rightarrow> Some ([], Inr None)
      | Some hash \<Rightarrow>
          if Some hash = tail then Some ([], Inr (Some hash))
          else (case get hash of
                  Inl e \<Rightarrow> Some ([], Inl (iter_error_of_get_block e))
                | Inr block \<Rightarrow>
                    Option.bind (iter_loop get tail (prev_block_hash block))
                      (\<lambda>(bs, r). Some ((hash, block) # bs, r))))"

declare iter_loop.simps [code]

text \<open>The check after the loop: the tail was asked for and never met.\<close>

fun tail_error :: "bool \<Rightarrow> multihash \<Rightarrow> multihash option \<Rightarrow> iter_blocks_error + multihash option \<Rightarrow>
    iter_blocks_error fault option" where
  "tail_error ignore head tail (Inl e) = Some (Fail e)"
| "tail_error ignore head (Some t) (Inr None) =
     (if \<not> ignore then Some (Fail (IterInvalidInterval head t)) else None)"
| "tail_error ignore head tail (Inr current) = None"

definition iter_blocks_interval ::
  "codec \<Rightarrow> chain \<Rightarrow> multihash \<Rightarrow> multihash option \<Rightarrow> bool \<Rightarrow> block_stream option" where
  "iter_blocks_interval cd c head tail ignore_missing_tail =
     Option.bind (iter_loop (chain_get_block cd c) tail (Some head))
       (\<lambda>(bs, r). Some (bs, tail_error ignore_missing_tail head tail r))"

partial_function (option) iter_loop_inclusive ::
  "(multihash \<Rightarrow> get_block_error + metadata_block) \<Rightarrow> multihash \<Rightarrow> multihash \<Rightarrow>
   (hashed_block list \<times> (iter_blocks_error + multihash)) option" where
  "iter_loop_inclusive get tail current =
     (case get current of
        Inl e \<Rightarrow> Some ([], Inl (iter_error_of_get_block e))
      | Inr block \<Rightarrow>
          (if current = tail then Some ([(current, block)], Inr current)
           else case prev_block_hash block of
                  None \<Rightarrow> Some ([(current, block)], Inr current)
                | Some next \<Rightarrow>
                    Option.bind (iter_loop_inclusive get tail next)
                      (\<lambda>(bs, r). Some ((current, block) # bs, r))))"

declare iter_loop_inclusive.simps [code]

definition iter_blocks_interval_inclusive ::
  "codec \<Rightarrow> chain \<Rightarrow> multihash \<Rightarrow> multihash \<Rightarrow> bool \<Rightarrow> block_stream option" where
  "iter_blocks_interval_inclusive cd c head tail ignore_missing_tail =
     Option.bind (iter_loop_inclusive (chain_get_block cd c) tail head)
       (\<lambda>(bs, r). Some (bs,
          case r of
            Inl e \<Rightarrow> Some (Fail e)
          | Inr current \<Rightarrow>
              if \<not> ignore_missing_tail \<and> current \<noteq> tail
              then Some (Fail (IterInvalidInterval head tail)) else None))"

definition iter_blocks_interval_ref ::
  "externs \<Rightarrow> codec \<Rightarrow> chain \<Rightarrow> block_ref \<Rightarrow> block_ref option \<Rightarrow> block_stream option" where
  "iter_blocks_interval_ref x cd c head tail =
     (case chain_resolve_ref x c head of
        Inl f \<Rightarrow> Some ([], Some (map_fault iter_error_of_get_ref f))
      | Inr head_hash \<Rightarrow>
          (case (case tail of
                   None \<Rightarrow> Inr None
                 | Some r \<Rightarrow> and_then (chain_resolve_ref x c r) (\<lambda>h. Inr (Some h))) of
             Inl f \<Rightarrow> Some ([], Some (map_fault iter_error_of_get_ref f))
           | Inr tail_hash \<Rightarrow>
               Option.bind (iter_loop (chain_get_block cd c) tail_hash (Some head_hash))
                 (\<lambda>(bs, r). Some (bs, tail_error False head_hash tail_hash r))))"

definition iter_blocks :: "externs \<Rightarrow> codec \<Rightarrow> chain \<Rightarrow> block_stream option" where
  "iter_blocks x cd c = iter_blocks_interval_ref x cd c Head None"

definition iter_blocks_ref :: "externs \<Rightarrow> codec \<Rightarrow> chain \<Rightarrow> block_ref \<Rightarrow> block_stream option" where
  "iter_blocks_ref x cd c head = iter_blocks_interval_ref x cd c head None"

definition accept_by_ref ::
  "externs \<Rightarrow> codec \<Rightarrow> chain \<Rightarrow> ('v, 'e) visitor_ops \<Rightarrow> 'v list \<Rightarrow> block_ref \<Rightarrow>
   ('e accept_error, 'v list) res option" where
  "accept_by_ref x cd c ops visitors head =
     (case chain_resolve_ref x c head of
        Inl f \<Rightarrow> Some (Inl (map_fault (\<lambda>e. Traversal (iter_error_of_get_ref e)) f))
      | Inr head_hash \<Rightarrow> accept_by_hash (chain_get_block cd c) ops visitors head_hash)"

definition chain_accept ::
  "externs \<Rightarrow> codec \<Rightarrow> chain \<Rightarrow> ('v, 'e) visitor_ops \<Rightarrow> 'v list \<Rightarrow> ('e accept_error, 'v list) res option" where
  "chain_accept x cd c ops visitors = accept_by_ref x cd c ops visitors Head"

section \<open>Changing references (set_ref)\<close>

text \<open>The current value of a reference, an absent one being \<open>None\<close>.\<close>

definition current_ref :: "externs \<Rightarrow> chain \<Rightarrow> block_ref \<Rightarrow> (get_ref_error, multihash option) res" where
  "current_ref x c r =
     (case ref_get x (ref_repo c) r of
        Inr h \<Rightarrow> Inr (Some h)
      | Inl (Fail (RefNotFound _)) \<Rightarrow> Inr None
      | Inl f \<Rightarrow> Inl f)"

fun set_ref_error_of_get :: "get_ref_error \<Rightarrow> set_ref_error" where
  "set_ref_error_of_get (RefNotFound r) = SetRefInternal ''not found''"
| "set_ref_error_of_get (RefAccess e) = SetRefAccess e"
| "set_ref_error_of_get (RefInternal m) = SetRefInternal m"

definition set_ref_check ::
  "externs \<Rightarrow> chain \<Rightarrow> block_ref \<Rightarrow> multihash \<Rightarrow> set_ref_opts \<Rightarrow> (set_ref_error, unit) res" where
  "set_ref_check x c r hash opts =
     and_then
       (if so_validate_block_present opts
        then ensure (chain_contains_block c hash) (Fail (SetRefBlockNotFound hash))
        else Inr ()) (\<lambda>_.
       (case so_check_ref_is opts of
          None \<Rightarrow> Inr ()
        | Some prev_expected \<Rightarrow>
            and_then (map_err (map_fault set_ref_error_of_get) (current_ref x c r)) (\<lambda>prev_actual.
              ensure (prev_expected = prev_actual)
                (Fail (SetRefCASFailed r prev_expected prev_actual)))))"

definition chain_set_ref ::
  "externs \<Rightarrow> chain \<Rightarrow> block_ref \<Rightarrow> multihash \<Rightarrow> set_ref_opts \<Rightarrow> (set_ref_error, unit) res \<times> chain" where
  "chain_set_ref x c r hash opts =
     (case set_ref_check x c r hash opts of
        Inl f \<Rightarrow> (Inl f, c)
      | Inr _ \<Rightarrow>
          (case ref_set x (ref_repo c) r hash of
             Inl f \<Rightarrow> (Inl (map_fault (\<lambda>_. SetRefInternal ''set'') f), c)
           | Inr refs \<Rightarrow> (Inr (), c\<lparr>ref_repo := refs\<rparr>)))"

section \<open>Appending (append)\<close>

definition append_validate :: "codec \<Rightarrow> chain \<Rightarrow> metadata_block \<Rightarrow> (append_error, unit) res option" where
  "append_validate cd c block =
     (case new_validators block of
        Inl f \<Rightarrow> Some (Inl (map_fault InvalidBlock f))
      | Inr validators \<Rightarrow>
          map_option
            (\<lambda>r. case r of
               Inr _ \<Rightarrow> Inr ()
             | Inl (Panic m) \<Rightarrow> Inl (Panic m)
             | Inl (Fail (Visitor err)) \<Rightarrow> Inl (Fail (InvalidBlock err))
             | Inl (Fail (Traversal (IterBlockNotFound h))) \<Rightarrow>
                 if Some h = prev_block_hash block
                 then Inl (Fail (InvalidBlock (PrevBlockNotFound h)))
                 else Inl (Fail (AppendInternal ''block not found''))
             | Inl (Fail (Traversal _)) \<Rightarrow> Inl (Fail (AppendInternal ''traversal'')))
            (accept_by_interval (chain_get_block cd c) validator_ops validators
               (prev_block_hash block) None))"

fun append_error_of_get_ref :: "get_ref_error \<Rightarrow> append_error" where
  "append_error_of_get_ref (RefNotFound r) = AppendRefNotFound r"
| "append_error_of_get_ref (RefAccess e) = AppendAccess e"
| "append_error_of_get_ref (RefInternal m) = AppendInternal m"

fun append_error_of_insert :: "insert_error \<Rightarrow> append_error" where
  "append_error_of_insert (HashMismatch e a) = InvalidBlock (ValHashMismatch e a)"
| "append_error_of_insert (InsertAccess e) = AppendAccess e"
| "append_error_of_insert (InsertInternal m) = AppendInternal m"

definition append_check_ref ::
  "externs \<Rightarrow> chain \<Rightarrow> metadata_block \<Rightarrow> append_opts \<Rightarrow> (append_error, unit) res" where
  "append_check_ref x c block opts =
     (case ao_update_ref opts of
        Some r \<Rightarrow>
          if ao_check_ref_is opts \<noteq> None \<or> ao_check_ref_is_prev_block opts then
            (let expected = (case ao_check_ref_is opts of Some e \<Rightarrow> e | None \<Rightarrow> prev_block_hash block)
             in and_then (map_err (map_fault append_error_of_get_ref) (current_ref x c r)) (\<lambda>actual.
                  ensure (expected = actual) (Fail (RefCASFailed r expected actual))))
          else Inr ()
      | None \<Rightarrow> Inr ())"

definition append_commit ::
  "externs \<Rightarrow> codec \<Rightarrow> chain \<Rightarrow> metadata_block \<Rightarrow> append_opts \<Rightarrow> (append_error, multihash) res \<times> chain" where
  "append_commit x cd c block opts =
     (case repo_insert_block x cd (meta_block_repo c) block
             \<lparr>io_precomputed_hash = ao_precomputed_hash opts, io_expected_hash = ao_expected_hash opts\<rparr> of
        Inl f \<Rightarrow> (Inl (map_fault append_error_of_insert f), c)
      | Inr (hash, repo) \<Rightarrow>
          let c' = c\<lparr>meta_block_repo := repo\<rparr>
          in (case ao_update_ref opts of
                None \<Rightarrow> (Inr hash, c')
              | Some r \<Rightarrow>
                  (case ref_set x (ref_repo c') r hash of
                     Inl f \<Rightarrow> (Inl (map_fault (\<lambda>_. AppendInternal ''set'') f), c')
                   | Inr refs \<Rightarrow> (Inr hash, c'\<lparr>ref_repo := refs\<rparr>))))"

definition chain_append ::
  "externs \<Rightarrow> codec \<Rightarrow> chain \<Rightarrow> metadata_block \<Rightarrow> append_opts \<Rightarrow>
   ((append_error, multihash) res \<times> chain) option" where
  "chain_append x cd c block opts =
     map_option
       (\<lambda>v. case and_then v (\<lambda>_. append_check_ref x c block opts) of
              Inl f \<Rightarrow> (Inl f, c)
            | Inr _ \<Rightarrow> append_commit x cd c block opts)
       (if ao_validation opts = ValidationFull then append_validate cd c block else Some (Inr ()))"

section \<open>Iteration over a chain\<close>

lemma iter_loop_chain:
  assumes "chain_at get h bs"
  shows "iter_loop get tail (Some h) =
           Some (before_tail tail bs,
                 Inr (if tail \<in> Some ` fst ` set bs then tail else None))"
  using assms
proof (induction rule: chain_at.induct)
  case (chain_root h b)
  then show ?case
    by (auto simp: iter_loop.simps before_tail_def)
next
  case (chain_step h b p bs)
  show ?case
  proof (cases "tail = Some h")
    case True
    then show ?thesis by (auto simp: iter_loop.simps [of get "Some h" "Some h"] before_tail_def)
  next
    case False
    with chain_step show ?thesis
      by (auto simp: iter_loop.simps [of get tail "Some h"] before_tail_def)
  qed
qed

text \<open>The blocks down to and including the tail.\<close>

fun up_to_tail :: "multihash \<Rightarrow> hashed_block list \<Rightarrow> hashed_block list" where
  "up_to_tail t [] = []"
| "up_to_tail t (hb # hbs) = (if fst hb = t then [hb] else hb # up_to_tail t hbs)"

lemma iter_loop_inclusive_chain:
  assumes "chain_at get h bs"
  shows "iter_loop_inclusive get tail h =
           Some (up_to_tail tail bs,
                 Inr (if tail \<in> fst ` set bs then tail else fst (last bs)))"
  using assms
proof (induction rule: chain_at.induct)
  case (chain_root h b)
  then show ?case by (auto simp: iter_loop_inclusive.simps)
next
  case (chain_step h b p bs)
  show ?case
  proof (cases "tail = h")
    case True
    with chain_step(1) show ?thesis by (auto simp: iter_loop_inclusive.simps [of get h h])
  next
    case False
    with chain_step show ?thesis
      by (auto simp: iter_loop_inclusive.simps [of get tail h] chain_at_nonempty)
  qed
qed

section \<open>Validation of an appended block\<close>

text \<open>The blocks that precede an appended one.\<close>

definition precedes :: "codec \<Rightarrow> chain \<Rightarrow> metadata_block \<Rightarrow> hashed_block list \<Rightarrow> bool" where
  "precedes cd c b bs \<longleftrightarrow>
     (case prev_block_hash b of None \<Rightarrow> bs = [] | Some p \<Rightarrow> chain_at (chain_get_block cd c) p bs)"

lemma precedes_Nil: "precedes cd c b bs \<Longrightarrow> prev_block_hash b = None \<longleftrightarrow> bs = []"
  by (auto simp: precedes_def chain_at_nonempty split: option.splits)

lemma precedes_unique: "precedes cd c b bs \<Longrightarrow> precedes cd c b cs \<Longrightarrow> bs = cs"
  by (auto simp: precedes_def dest: chain_at_unique split: option.splits)

lemma initial_decision_ops [simp]: "initial_decision validator_ops = validator_initial_decision"
  by (simp add: validator_ops_def)

lemma accept_validators:
  assumes "precedes cd c b bs" and "new_validators b = Inr vs"
  shows "accept_by_interval (chain_get_block cd c) validator_ops vs (prev_block_hash b) None =
           Some (validate_block bs b)"
  using assms
  by (auto simp: precedes_def accept_by_interval_None accept_by_interval_chain validate_block_def
      comp_def split: option.splits)

text \<open>Traversal of an existing chain never fails, so only the validators decide.\<close>

lemma visitor_fault_not_traversal [simp]:
  "visitor_fault f \<noteq> Fail (Traversal e)" "Fail (Traversal e) \<noteq> visitor_fault f"
  by (cases f; simp)+

lemma validate_block_no_traversal: "validate_block bs b \<noteq> Inl (Fail (Traversal e))"
  by (auto simp: validate_block_def res_simps finish_all_def dest!: try_each_err)

lemma append_validate_chain:
  assumes "precedes cd c b bs"
  shows "append_validate cd c b =
           Some (map_err (map_fault (\<lambda>e. case e of Visitor err \<Rightarrow> InvalidBlock err))
                   (and_then (validate_block bs b) (\<lambda>_. Inr ())))"
proof (cases "new_validators b")
  case (Inl f)
  then show ?thesis by (cases f) (simp_all add: append_validate_def validate_block_def)
next
  case (Inr vs)
  then show ?thesis
    using validate_block_no_traversal [of bs b]
    by (auto simp: append_validate_def accept_validators [OF assms] split: sum.split fault.split
        accept_error.split)
qed

lemma append_validate_ok:
  assumes "precedes cd c b bs"
  shows "append_validate cd c b = Some (Inr u) \<longleftrightarrow> valid_next (map snd bs) b"
  using validate_block_iff [OF precedes_Nil [OF assms]]
  by (auto simp: append_validate_chain [OF assms] res_simps)


section \<open>The effect of an append\<close>

lemma current_ref_Inr:
  "current_ref x c r = Inr (Some h) \<longleftrightarrow> ref_get x (ref_repo c) r = Inr h"
  by (auto simp: current_ref_def split: sum.splits fault.splits get_ref_error.splits)

lemma append_commit_Inr:
  assumes "append_commit x cd c b opts = (Inr h, c')"
  shows "\<exists>repo. repo_insert_block x cd (meta_block_repo c) b
             \<lparr>io_precomputed_hash = ao_precomputed_hash opts, io_expected_hash = ao_expected_hash opts\<rparr>
             = Inr (h, repo)
           \<and> meta_block_repo c' = repo
           \<and> (case ao_update_ref opts of
                None \<Rightarrow> ref_repo c' = ref_repo c
              | Some r \<Rightarrow> ref_set x (ref_repo c) r h = Inr (ref_repo c'))"
  using assms by (auto simp: append_commit_def Let_def split: sum.splits option.splits)

text \<open>Either the checks fail and nothing changes, or the block is committed.\<close>

lemma chain_append_cases:
  assumes "chain_append x cd c b opts = Some (r, c')"
  obtains (rejected) f where "r = Inl f" "c' = c"
  | (committed) "append_commit x cd c b opts = (r, c')" "append_check_ref x c b opts = Inr ()"
      "ao_validation opts = ValidationFull \<longrightarrow> append_validate cd c b = Some (Inr ())"
proof -
  define v where
    "v = (if ao_validation opts = ValidationFull then append_validate cd c b else Some (Inr ()))"
  with assms obtain w where w: "v = Some w"
    "(case and_then w (\<lambda>_. append_check_ref x c b opts) of
        Inl f \<Rightarrow> (Inl f, c) | Inr _ \<Rightarrow> append_commit x cd c b opts) = (r, c')"
    by (auto simp: chain_append_def)
  show thesis
  proof (cases "and_then w (\<lambda>_. append_check_ref x c b opts)")
    case (Inl f)
    with w(2) rejected show thesis by auto
  next
    case (Inr u)
    then have "w = Inr ()" "append_check_ref x c b opts = Inr ()" by (auto simp: res_simps)
    with w v_def Inr committed show thesis by (auto split: if_splits)
  qed
qed

text \<open>
  The hash an append stores its block under: the precomputed one, or the digest of the
  serialized block.
\<close>

lemma append_hash_wf:
  assumes "externs_ok x" and "\<forall>p. io_precomputed_hash io = Some p \<longrightarrow> wf_multihash p"
    and "repo_insert_block x cd r b io = Inr (h, r')"
  shows "wf_multihash h"
proof -
  have "sha3_ok x" using assms(1) by (simp add: externs_ok_def)
  then show ?thesis
    using repo_insert_block_Inr [OF assms(3)] assms(2) multihash_from_digest_sha3_256_ok [of x]
    by (cases "io_precomputed_hash io") (auto, metis sum.inject(2))
qed

text \<open>Storing the block loses nothing: what every append below relies on.\<close>

definition append_sound :: "externs \<Rightarrow> codec \<Rightarrow> chain \<Rightarrow> metadata_block \<Rightarrow> append_opts \<Rightarrow> bool" where
  "append_sound x cd c b opts \<longleftrightarrow>
     (case ao_precomputed_hash opts of None \<Rightarrow> True | Some p \<Rightarrow> wf_multihash p)
     \<and> (case repo_insert_block x cd (meta_block_repo c) b
               \<lparr>io_precomputed_hash = ao_precomputed_hash opts, io_expected_hash = ao_expected_hash opts\<rparr> of
          Inl _ \<Rightarrow> True
        | Inr (h, _) \<Rightarrow> insert_sound cd (meta_block_repo c) b h)"

section \<open>Every chain built by validated appends is valid\<close>

inductive chain_op :: "externs \<Rightarrow> codec \<Rightarrow> chain \<Rightarrow> chain \<Rightarrow> bool" for x cd where
  step_append:
    "chain_append x cd c b opts = Some (r, c') \<Longrightarrow> ao_validation opts = ValidationFull \<Longrightarrow>
     append_sound x cd c b opts \<Longrightarrow> chain_op x cd c c'"
| step_set_ref:
    "chain_set_ref x c r h opts = (res, c') \<Longrightarrow> so_validate_block_present opts \<Longrightarrow> chain_op x cd c c'"

definition empty_chain :: chain where
  "empty_chain = \<lparr>meta_block_repo = Map.empty, ref_repo = Map.empty\<rparr>"

inductive chain_reachable :: "externs \<Rightarrow> codec \<Rightarrow> chain \<Rightarrow> bool" for x cd where
  reach_empty: "chain_reachable x cd empty_chain"
| reach_step: "chain_reachable x cd c \<Longrightarrow> chain_op x cd c c' \<Longrightarrow> chain_reachable x cd c'"

definition blocks_inv :: "codec \<Rightarrow> chain \<Rightarrow> bool" where
  "blocks_inv cd c \<longleftrightarrow>
     (\<forall>h \<in> dom (meta_block_repo c).
        wf_multihash h \<and> (\<exists>bs. chain_at (chain_get_block cd c) h bs \<and> valid_chain (map snd bs)))"

definition head_inv :: "externs \<Rightarrow> chain \<Rightarrow> bool" where
  "head_inv x c \<longleftrightarrow>
     current_ref x c Head = Inr None
     \<or> (\<exists>h. current_ref x c Head = Inr (Some h) \<and> h \<in> dom (meta_block_repo c))"

lemma chain_get_block_eq: "chain_get_block cd c = repo_get_block cd (meta_block_repo c)"
  by (rule ext) (simp add: chain_get_block_def)

lemma get_block_absent: "meta_block_repo c h = None \<Longrightarrow> chain_get_block cd c h = Inl (BlockNotFound h)"
  by (simp add: chain_get_block_def repo_get_block_def obj_get_bytes_def)

lemma get_block_dom: "chain_get_block cd c h = Inr b \<Longrightarrow> h \<in> dom (meta_block_repo c)"
  using get_block_absent by (cases "meta_block_repo c h") fastforce+

lemma blocks_inv_precedes:
  assumes "blocks_inv cd c" and "case prev_block_hash b of None \<Rightarrow> True | Some p \<Rightarrow> p \<in> dom (meta_block_repo c)"
  shows "\<exists>bs. precedes cd c b bs \<and> valid_chain (map snd bs)"
  using assms by (auto simp: blocks_inv_def precedes_def split: option.splits)

text \<open>A block that validation accepted links to a stored block.\<close>

lemma append_validate_prev:
  assumes "append_validate cd c b = Some (Inr u)" and "prev_block_hash b = Some p"
  shows "p \<in> dom (meta_block_repo c)"
proof (rule ccontr)
  assume "\<not> ?thesis"
  then have "chain_get_block cd c p = Inl (BlockNotFound p)" by (auto intro: get_block_absent)
  then have "accept_by_interval (chain_get_block cd c) validator_ops vs (Some p) None =
      Some (Inl (Fail (Traversal (IterBlockNotFound p))))" for vs
    by (simp add: accept_by_interval_def accept_loop.simps)
  with assms show False by (auto simp: append_validate_def split: sum.splits)
qed

lemma append_inserts_valid:
  assumes "blocks_inv cd c" and "append_validate cd c b = Some (Inr u)"
  shows "\<exists>bs. precedes cd c b bs \<and> valid_chain (b # map snd bs)"
proof -
  from assms obtain bs where bs: "precedes cd c b bs" "valid_chain (map snd bs)"
    using blocks_inv_precedes [OF assms(1), of b] append_validate_prev [OF assms(2)]
    by (cases "prev_block_hash b") auto
  with assms(2) append_validate_ok [OF bs(1)] show ?thesis by auto
qed

lemma insert_keeps_blocks_inv:
  assumes inv: "blocks_inv cd c" and wf: "wf_multihash h"
    and ins: "repo_insert_block x cd (meta_block_repo c) b io = Inr (h, repo)"
    and sound: "insert_sound cd (meta_block_repo c) b h"
    and bs: "precedes cd c b bs" "valid_chain (b # map snd bs)"
    and c': "meta_block_repo c' = repo"
  shows "blocks_inv cd c' \<and> chain_at (chain_get_block cd c') h ((h, b) # bs)"
proof -
  have new: "chain_at (chain_get_block cd c') h ((h, b) # bs)"
    using bs(1) mem_blocks.chain_extended [OF ins sound] mem_blocks.chain_started [OF ins sound]
    by (auto simp: precedes_def chain_get_block_eq c' split: option.splits)
  have old: "chain_at (chain_get_block cd c') k ks" if "chain_at (chain_get_block cd c) k ks" for k ks
    using mem_blocks.chain_preserved [OF ins sound] that by (simp add: chain_get_block_eq c')
  obtain data where "repo = (meta_block_repo c)(h \<mapsto> data)"
    using repo_insert_block_Inr [OF ins] by blast
  then have "dom (meta_block_repo c') = insert h (dom (meta_block_repo c))" by (simp add: c')
  moreover have "valid_chain (map snd ((h, b) # bs))" using bs(2) by simp
  ultimately show ?thesis
    using inv old new wf unfolding blocks_inv_def by (metis insert_iff)
qed

lemma ref_set_current:
  assumes "externs_ok x" and "wf_multihash h" and "ref_set x (ref_repo c) r h = Inr refs"
  shows "current_ref x (c\<lparr>ref_repo := refs\<rparr>) r = Inr (Some h)"
  using mem_refs.get_after_set [OF assms] by (simp add: current_ref_def)

lemma current_ref_cong: "ref_repo c' = ref_repo c \<Longrightarrow> current_ref x c' r = current_ref x c r"
  by (simp add: current_ref_def)


lemma repo_insert_block_no_panic:
  assumes "sha3_ok x"
  shows "repo_insert_block x cd r b io \<noteq> Inl (Panic m)"
proof -
  have "obj_insert_bytes x r data io \<noteq> Inl (Panic m)" for data
    using multihash_from_digest_sha3_256_ok [OF assms, of data]
    by (auto simp: obj_insert_bytes_def split: option.splits if_splits)
  then show ?thesis by (auto simp: repo_insert_block_def repo_insert_block_data_def res_simps)
qed

lemma append_commit_cases:
  assumes "append_commit x cd c b opts = (r, c')" and "externs_ok x" and "append_sound x cd c b opts"
  obtains (failed) f where "r = Inl f" "\<forall>m. f \<noteq> Panic m" "c' = c"
  | (stored) h io where "r = Inr h"
      "io = \<lparr>io_precomputed_hash = ao_precomputed_hash opts, io_expected_hash = ao_expected_hash opts\<rparr>"
      "repo_insert_block x cd (meta_block_repo c) b io = Inr (h, meta_block_repo c')"
      "insert_sound cd (meta_block_repo c) b h" "wf_multihash h"
      "case ao_update_ref opts of
         None \<Rightarrow> ref_repo c' = ref_repo c
       | Some s \<Rightarrow> ref_set x (ref_repo c) s h = Inr (ref_repo c')"
proof -
  define io where
    "io = \<lparr>io_precomputed_hash = ao_precomputed_hash opts, io_expected_hash = ao_expected_hash opts\<rparr>"
  note io = io_def [symmetric]
  show thesis
  proof (cases "repo_insert_block x cd (meta_block_repo c) b io")
    case (Inl f)
    have "f \<noteq> Panic m" for m
      using Inl assms(2) repo_insert_block_no_panic [of x] by (auto simp: externs_ok_def)
    with Inl failed assms(1) show thesis by (auto simp: append_commit_def io)
  next
    case (Inr hr)
    then obtain h repo where ins: "repo_insert_block x cd (meta_block_repo c) b io = Inr (h, repo)"
      by (cases hr) auto
    from assms(3) have sound: "insert_sound cd (meta_block_repo c) b h"
      and pre: "\<forall>p. io_precomputed_hash io = Some p \<longrightarrow> wf_multihash p"
      by (auto simp: append_sound_def io ins) (simp add: io_def)
    from append_hash_wf [OF assms(2) pre ins] have wf: "wf_multihash h" .
    obtain refs where "ref_set x (ref_repo c) s h = Inr refs" for s
      using mem_refs.set_succeeds [OF assms(2) wf] block_ref.exhaust by metis
    with assms(1) ins stored [OF _ io_def _ sound wf] show thesis
      by (auto simp: append_commit_def io Let_def split: option.splits)
  qed
qed

text \<open>A successful append puts the block on top of those it links to.\<close>

lemma append_chain_at:
  assumes "externs_ok x" and "append_sound x cd c b opts"
    and "chain_append x cd c b opts = Some (Inr h, c')" and "precedes cd c b bs"
  shows "chain_at (chain_get_block cd c') h ((h, b) # bs)"
  using assms(3)
proof (cases rule: chain_append_cases)
  case committed
  from committed(1) assms(1,2) show ?thesis
  proof (cases rule: append_commit_cases)
    case (stored h' io)
    then have ins: "repo_insert_block x cd (meta_block_repo c) b io = Inr (h, meta_block_repo c')"
      and sound: "insert_sound cd (meta_block_repo c) b h" by auto
    show ?thesis
      using assms(4) mem_blocks.chain_extended [OF ins sound] mem_blocks.chain_started [OF ins sound]
      by (auto simp: precedes_def chain_get_block_eq split: option.splits)
  qed simp
qed simp

lemma append_extends:
  assumes "externs_ok x" and "append_sound x cd c b opts" and "ao_update_ref opts = Some Head"
    and "chain_append x cd c b opts = Some (Inr h, c')" and "precedes cd c b bs"
  shows "chain_at (chain_get_block cd c') h ((h, b) # bs) \<and> chain_resolve_ref x c' Head = Inr h"
proof
  show "chain_at (chain_get_block cd c') h ((h, b) # bs)"
    using assms(1,2,4,5) by (rule append_chain_at)
  show "chain_resolve_ref x c' Head = Inr h"
    using assms(4)
  proof (cases rule: chain_append_cases)
    case committed
    from committed(1) assms(1,2) show ?thesis
    proof (cases rule: append_commit_cases)
      case (stored h' io)
      then show ?thesis
        using assms(3) mem_refs.get_after_set [OF assms(1) stored(5)] by (simp add: chain_resolve_ref_def)
    qed simp
  qed simp
qed

lemma set_ref_check_ok:
  "set_ref_check x c r h opts = Inr u \<longleftrightarrow>
     (so_validate_block_present opts \<longrightarrow> h \<in> dom (meta_block_repo c))
     \<and> (\<forall>e. so_check_ref_is opts = Some e \<longrightarrow> current_ref x c r = Inr e)"
  by (cases "so_check_ref_is opts")
    (auto simp: set_ref_check_def res_simps chain_contains_block_def repo_contains_block_def
      obj_contains_def)

lemma chain_set_ref_cases:
  assumes "chain_set_ref x c r h opts = (res, c')"
  obtains (failed) f where "res = Inl f" "c' = c"
  | (updated) refs where "res = Inr ()" "ref_set x (ref_repo c) r h = Inr refs" "c' = c\<lparr>ref_repo := refs\<rparr>"
      "set_ref_check x c r h opts = Inr ()"
proof (cases "set_ref_check x c r h opts")
  case (Inl f)
  with assms have "res = Inl f" "c' = c" by (auto simp: chain_set_ref_def)
  with failed show thesis by blast
next
  case (Inr u)
  then have check: "set_ref_check x c r h opts = Inr ()" by simp
  show thesis
  proof (cases "ref_set x (ref_repo c) r h")
    case (Inl f)
    with check assms have "\<exists>f. res = Inl f" "c' = c" by (auto simp: chain_set_ref_def)
    with failed show thesis by blast
  next
    case (Inr refs)
    with check assms have "res = Inr ()" "c' = c\<lparr>ref_repo := refs\<rparr>"
      by (simp_all add: chain_set_ref_def)
    with updated Inr check show thesis by blast
  qed
qed

lemma chain_op_inv:
  assumes "chain_op x cd c c'" and ok: "externs_ok x" and "blocks_inv cd c" "head_inv x c"
  shows "blocks_inv cd c' \<and> head_inv x c'"
  using assms(1)
proof cases
  case (step_append b opts r)
  from step_append(1) show ?thesis
  proof (cases rule: chain_append_cases)
    case committed
    from committed(1) ok step_append(3) show ?thesis
    proof (cases rule: append_commit_cases)
      case (stored h io)
      have "append_validate cd c b = Some (Inr ())" using committed(3) step_append(2) by simp
      with append_inserts_valid [OF assms(3)] obtain bs
        where bs: "precedes cd c b bs" "valid_chain (b # map snd bs)" by blast
      from insert_keeps_blocks_inv [OF assms(3) stored(5,3,4) bs refl]
      have inv: "blocks_inv cd c'" by blast
      have dom: "h \<in> dom (meta_block_repo c')" "dom (meta_block_repo c) \<subseteq> dom (meta_block_repo c')"
        using repo_insert_block_Inr [OF stored(3)] by auto
      have "head_inv x c'"
      proof (cases "ao_update_ref opts")
        case None
        with stored(6) have "current_ref x c' Head = current_ref x c Head"
          by (intro current_ref_cong) simp
        with assms(4) dom(2) show ?thesis unfolding head_inv_def by auto
      next
        case (Some s)
        with stored(6) have "ref_set x (ref_repo c) Head h = Inr (ref_repo c')" by (cases s) simp
        from mem_refs.get_after_set [OF ok stored(5) this] have "current_ref x c' Head = Inr (Some h)"
          by (simp add: current_ref_def)
        with dom(1) show ?thesis unfolding head_inv_def by blast
      qed
      with inv show ?thesis ..
    qed (use assms in simp)
  qed (use assms in simp)
next
  case (step_set_ref r h opts res)
  from step_set_ref(1) show ?thesis
  proof (cases rule: chain_set_ref_cases)
    case (updated refs)
    with step_set_ref(2) have dom: "h \<in> dom (meta_block_repo c)" by (simp add: set_ref_check_ok)
    with assms(3) have "wf_multihash h" by (simp add: blocks_inv_def)
    from ref_set_current [OF ok this updated(2)] dom updated(3) assms(3) show ?thesis
      by (cases r) (simp add: head_inv_def blocks_inv_def chain_get_block_eq)
  qed (use assms in simp)
qed

lemma chain_reachable_inv:
  assumes "chain_reachable x cd c" and "externs_ok x"
  shows "blocks_inv cd c \<and> head_inv x c"
  using assms(1)
proof induction
  case reach_empty
  show ?case by (simp add: blocks_inv_def head_inv_def empty_chain_def current_ref_def)
next
  case (reach_step c c')
  with chain_op_inv [OF reach_step(2) assms(2)] show ?case by blast
qed

lemma reachable_head:
  assumes "chain_reachable x cd c" and "externs_ok x" and "chain_resolve_ref x c Head = Inr h"
  shows "\<exists>bs. chain_at (chain_get_block cd c) h bs \<and> valid_chain (map snd bs)
    \<and> iter_blocks x cd c = Some (bs, None)"
proof -
  from chain_reachable_inv [OF assms(1,2)] assms(3) obtain bs
    where "chain_at (chain_get_block cd c) h bs" "valid_chain (map snd bs)"
    by (auto simp: head_inv_def blocks_inv_def current_ref_def chain_resolve_ref_def dom_def)
  then show ?thesis
    using assms(3) by (auto simp: iter_blocks_def iter_blocks_interval_ref_def iter_loop_chain)
qed

section \<open>Validation does not panic on a valid chain\<close>

lemma new_validators_no_panic:
  assumes "\<not> is_DisablePushSource (event b)" and "event b \<noteq> DisablePollingSource"
  shows "new_validators b \<noteq> Inl (Panic m)"
proof -
  have "new_unimplemented_events b \<noteq> Inl (Panic m)"
    using assms by (cases "event b") (simp_all add: new_unimplemented_events_def)
  moreover have "new_seed_block_order b \<noteq> Inl (Panic m)" "new_sequence_numbers_integrity b \<noteq> Inl (Panic m)"
    by (auto simp: new_seed_block_order_def new_sequence_numbers_integrity_def
        split: metadata_event.splits option.splits if_splits)
  moreover have "new_event_is_not_empty b \<noteq> Inl (Panic m)"
    by (auto simp: new_event_is_not_empty_def empty_event_def split: metadata_event.splits if_splits)
  moreover have "new_offsets_are_sequential b \<noteq> Inl (Panic m)"
    by (auto simp: new_offsets_are_sequential_def res_simps internal_offsets_no_panic
        split: option.splits)
  moreover have "validate_transform e t \<noteq> Inl (Panic m)" for e t
    by (cases t) (auto simp: res_simps split: option.splits dest!: try_each_err)
  then have "new_add_push_source b \<noteq> Inl (Panic m)" "new_set_polling_source b \<noteq> Inl (Panic m)"
    "new_set_transform b \<noteq> Inl (Panic m)"
    by (auto simp: new_add_push_source_def new_set_polling_source_def new_set_transform_def res_simps
        split: metadata_event.splits option.splits fetch_step.splits dest!: try_each_err)
  ultimately show ?thesis by (simp add: new_validators_def res_simps)
qed

lemma new_validator_inv:
  "validator_inv (validator_initial_decision (new_add_data b)) (new_add_data b)"
  "validator_inv (validator_initial_decision (new_execute_transform b)) (new_execute_transform b)"
  "validator_inv (validator_initial_decision (new_system_time_is_monotonic b)) (new_system_time_is_monotonic b)"
  "validator_inv (validator_initial_decision (new_watermark_is_monotonic b)) (new_watermark_is_monotonic b)"
  "new_unimplemented_events b = Inr v \<Longrightarrow> validator_inv (validator_initial_decision v) v"
  "new_seed_block_order b = Inr v \<Longrightarrow> validator_inv (validator_initial_decision v) v"
  "new_sequence_numbers_integrity b = Inr v \<Longrightarrow> validator_inv (validator_initial_decision v) v"
  "new_event_is_not_empty b = Inr v \<Longrightarrow> validator_inv (validator_initial_decision v) v"
  "new_offsets_are_sequential b = Inr v \<Longrightarrow> validator_inv (validator_initial_decision v) v"
  "new_add_push_source b = Inr v \<Longrightarrow> validator_inv (validator_initial_decision v) v"
  "new_set_polling_source b = Inr v \<Longrightarrow> validator_inv (validator_initial_decision v) v"
  "new_set_transform b = Inr v \<Longrightarrow> validator_inv (validator_initial_decision v) v"
  by (simp_all add: new_add_data_def new_execute_transform_def only_wants_initial
      new_system_time_is_monotonic_def new_watermark_is_monotonic_def)
    (auto simp: new_add_push_source_def new_set_polling_source_def new_set_transform_def
      new_unimplemented_events_def new_seed_block_order_def new_sequence_numbers_integrity_def
      new_event_is_not_empty_def new_offsets_are_sequential_def res_simps
      split: metadata_event.splits option.splits if_splits)

lemma new_validators_inv:
  assumes "new_validators b = Inr vs"
  shows "\<forall>v \<in> set vs. validator_inv (validator_initial_decision v) v"
  using assms by (auto simp: new_validators_def res_simps new_validator_inv)

lemma validate_block_no_panic:
  assumes "new_validators b = Inr vs" and "valid_chain (map snd bs)"
  shows "validate_block bs b \<noteq> Inl (Panic m)"
proof -
  let ?dvs = "map (\<lambda>v. (validator_initial_decision v, v)) vs"
  have "\<forall>hb \<in> set bs. resolved_block hb"
    using valid_chain_resolved [OF assms(2)] by force
  moreover have "\<forall>(d, v) \<in> set ?dvs. validator_inv d v"
    using new_validators_inv [OF assms(1)] by auto
  ultimately have "accept_list validator_ops False ?dvs bs \<noteq> Inl (Panic m) \<and>
      (accept_list validator_ops False ?dvs bs = Inr ds \<longrightarrow> (\<forall>(d, v) \<in> set ds. validator_inv d v))" for ds m
    using validators.accept_list_contract by blast
  then show ?thesis
    by (auto simp: validate_block_def assms(1) res_simps validators.finish_all_no_panic)
qed

lemma append_validate_no_panic:
  assumes "blocks_inv cd c" and "\<not> is_DisablePushSource (event b)" and "event b \<noteq> DisablePollingSource"
  shows "\<exists>v. append_validate cd c b = Some v \<and> (\<forall>m. v \<noteq> Inl (Panic m))"
proof (cases "new_validators b")
  case (Inl f)
  with new_validators_no_panic [OF assms(2,3)] show ?thesis
    by (auto simp: append_validate_def)
next
  case (Inr vs)
  show ?thesis
  proof (cases "case prev_block_hash b of None \<Rightarrow> True | Some p \<Rightarrow> p \<in> dom (meta_block_repo c)")
    case True
    from blocks_inv_precedes [OF assms(1) True] obtain bs
      where bs: "precedes cd c b bs" "valid_chain (map snd bs)" by blast
    have "validate_block bs b \<noteq> Inl (Panic m)" for m
      using validate_block_no_panic [OF Inr bs(2)] .
    then show ?thesis
      by (auto simp: append_validate_chain [OF bs(1)] res_simps)
  next
    case False
    then obtain p where p: "prev_block_hash b = Some p" "chain_get_block cd c p = Inl (BlockNotFound p)"
      using get_block_absent by (auto split: option.splits)
    with Inr show ?thesis
      by (simp add: append_validate_def accept_by_interval_def accept_loop.simps)
  qed
qed

lemma append_check_ref_no_panic:
  assumes "head_inv x c"
  shows "append_check_ref x c b opts \<noteq> Inl (Panic m)"
proof -
  obtain a where "current_ref x c r = Inr a" for r
    using assms by (auto simp: head_inv_def) (metis block_ref.exhaust)+
  then show ?thesis by (auto simp: append_check_ref_def res_simps Let_def split: option.split)
qed

section \<open>The default options\<close>

lemma default_opts_simps [simp]:
  "ao_validation default_append_opts = ValidationFull"
  "ao_update_ref default_append_opts = Some Head"
  "ao_check_ref_is_prev_block default_append_opts"
  "ao_check_ref_is default_append_opts = None"
  "ao_precomputed_hash default_append_opts = None"
  "ao_expected_hash default_append_opts = None"
  by (simp_all add: default_append_opts_def)

lemma default_check_ref:
  assumes "current_ref x c Head = Inr a"
  shows "append_check_ref x c b default_append_opts =
    ensure (prev_block_hash b = a) (Fail (RefCASFailed Head (prev_block_hash b) a))"
  using assms by (simp add: append_check_ref_def Let_def)

lemma default_commit:
  assumes "externs_ok x"
  shows "(\<exists>h c'. append_commit x cd c b default_append_opts = (Inr h, c')) \<longleftrightarrow>
     (\<exists>data. write_manifest cd b = Inr data)"
proof (cases "write_manifest cd b")
  case (Inl e)
  then show ?thesis by (simp add: append_commit_def repo_insert_block_def)
next
  case (Inr data)
  from assms multihash_from_digest_sha3_256_ok [of x data] obtain h
    where h: "multihash_from_digest_sha3_256 x data = Inr h" "wf_multihash h"
    by (auto simp: externs_ok_def)
  from mem_refs.set_succeeds [OF assms h(2)] obtain refs
    where "ref_set x (ref_repo c) Head h = Inr refs" by blast
  with h Inr show ?thesis
    by (simp add: append_commit_def repo_insert_block_def repo_insert_block_data_def
        obj_insert_bytes_def)
qed

end
