(* ===== verification/Externs_Instance.thy ===== *)
theory Externs_Instance
  imports Multiformats
begin

text \<open>
  A concrete instance of the third-party parameter \<open>externs\<close>: LEB128 variable-length
  integers and lowercase hexadecimal as the crates implement them, and a padding function in
  place of the SHA3-256 digest. It satisfies \<open>externs_ok\<close>, which shows that the hypotheses the
  theorems put on the parameter can hold, and the examples of the development run on it.
\<close>

section \<open>Variable-length integers\<close>

fun leb128 :: "nat \<Rightarrow> u8 list" where
  "leb128 n = (if n < 128 then [of_nat n] else of_nat (128 + n mod 128) # leb128 (n div 128))"

declare leb128.simps [simp del]

fun unleb128 :: "u8 list \<Rightarrow> (nat \<times> u8 list) option" where
  "unleb128 [] = None"
| "unleb128 (b # bs) =
     (if b < 128 then Some (unat b, bs)
      else map_option (\<lambda>(n, rest). (unat b - 128 + 128 * n, rest)) (unleb128 bs))"

lemma unat_byte: "n < 256 \<Longrightarrow> unat (of_nat n :: u8) = n"
  by (simp add: unat_of_nat take_bit_eq_mod)

lemma unleb128_leb128: "unleb128 (leb128 n @ rest) = Some (n, rest)"
proof (induction n rule: leb128.induct)
  case (1 n)
  show ?case
  proof (cases "n < 128")
    case True
    then have "(of_nat n :: u8) < 128" by (simp add: word_less_nat_alt unat_byte)
    with True show ?thesis by (simp add: leb128.simps [of n] unat_byte)
  next
    case False
    have "\<not> (of_nat (128 + n mod 128) :: u8) < 128"
      by (simp only: word_less_nat_alt unat_byte) (simp add: unat_byte)
    moreover have "unat (of_nat (128 + n mod 128) :: u8) = 128 + n mod 128" by (rule unat_byte) simp
    ultimately show ?thesis
      using 1 False by (simp add: leb128.simps [of n] del: of_nat_add)
  qed
qed

lemma length_leb128: "n < 128 ^ k \<Longrightarrow> 0 < k \<Longrightarrow> length (leb128 n) \<le> k"
proof (induction k arbitrary: n)
  case (Suc k)
  show ?case
  proof (cases "n < 128")
    case False
    with Suc.prems have "n div 128 < 128 ^ k" "0 < k"
      by (cases k; auto simp: less_mult_imp_div_less mult.commute)+
    with Suc.IH [of "n div 128"] False show ?thesis by (simp add: leb128.simps [of n])
  qed (simp add: leb128.simps)
qed simp

section \<open>Hexadecimal\<close>

definition hex_digit :: "nat \<Rightarrow> u8" where
  "hex_digit d = of_nat (if d < 10 then 48 + d else 87 + d)"

definition unhex_digit :: "u8 \<Rightarrow> nat option" where
  "unhex_digit c =
     (let n = unat c in
      if 48 \<le> n \<and> n \<le> 57 then Some (n - 48)
      else if 97 \<le> n \<and> n \<le> 102 then Some (n - 87)
      else if 65 \<le> n \<and> n \<le> 70 then Some (n - 55) else None)"

fun hex_of :: "u8 list \<Rightarrow> u8 list" where
  "hex_of [] = []"
| "hex_of (b # bs) = hex_digit (unat b div 16) # hex_digit (unat b mod 16) # hex_of bs"

fun unhex :: "u8 list \<Rightarrow> u8 list option" where
  "unhex [] = Some []"
| "unhex [c] = None"
| "unhex (c # d # cs) =
     (case (unhex_digit c, unhex_digit d, unhex cs) of
        (Some h, Some l, Some bs) \<Rightarrow> Some (of_nat (h * 16 + l) # bs)
      | _ \<Rightarrow> None)"

lemma unat_hex_digit: "d < 16 \<Longrightarrow> unat (hex_digit d) = (if d < 10 then 48 + d else 87 + d)"
  by (simp only: hex_digit_def) (rule unat_byte, auto)

lemma unhex_hex_digit: "d < 16 \<Longrightarrow> unhex_digit (hex_digit d) = Some d"
  by (auto simp: unhex_digit_def unat_hex_digit Let_def)

lemma hex_digit_ascii: "d < 16 \<Longrightarrow> hex_digit d < 128"
  by (simp add: word_less_nat_alt unat_hex_digit)

lemma byte_digits: "unat (b :: u8) div 16 < 16" "unat b mod 16 < 16"
  "of_nat (unat b div 16 * 16 + unat b mod 16) = b"
proof -
  have "unat b < 256" using unsigned_less [of b, where 'a = nat] by simp
  then show "unat b div 16 < 16" by (simp add: less_mult_imp_div_less)
  show "of_nat (unat b div 16 * 16 + unat b mod 16) = b" by (simp only: div_mult_mod_eq) simp
qed simp

lemma unhex_hex_of: "unhex (hex_of bs) = Some bs"
  by (induction bs) (simp_all add: unhex_hex_digit byte_digits del: of_nat_add of_nat_mult)

lemma length_hex_of: "length (hex_of bs) = 2 * length bs"
  by (induction bs) simp_all

lemma hex_of_ascii: "c \<in> set (hex_of bs) \<Longrightarrow> c < 128"
  by (induction bs) (auto simp: hex_digit_ascii byte_digits)

section \<open>The instance\<close>

definition pad32 :: "u8 list \<Rightarrow> u8 list" where
  "pad32 bs = take 32 (bs @ replicate 32 0)"

definition demo_externs :: externs where
  "demo_externs =
     \<lparr>uvar_encode_u32 = (\<lambda>n. leb128 (unat n)),
      uvar_decode_u32 = (\<lambda>bs. map_option (\<lambda>(n, rest). (of_nat n, rest)) (unleb128 bs)),
      uvar_decode_usize = unleb128,
      hex_encode = hex_of, hex_decode = unhex,
      bs58_encode = hex_of, bs58_decode = (\<lambda>bs n. Inl Bs58Invalid),
      sha3_256_digest = pad32\<rparr>"

lemma demo_externs_ok: "externs_ok demo_externs"
  by (auto simp: externs_ok_def varint_ok_def hex_ok_def sha3_ok_def demo_externs_def
      unleb128_leb128 unhex_hex_of length_hex_of hex_of_ascii pad32_def
      intro: length_leb128 [of _ 4, simplified])

end
