(* ===== verification/Chain_Demo.thy ===== *)
theory Chain_Demo
  imports Metadata_Chain Externs_Instance
begin

text \<open>
  A small concrete chain (a seed, a schema and a slice of ten records) over a codec that writes
  the sequence number of a block, and the hash of \<open>Externs_Instance\<close>. It is built by running
  the model's own \<open>append\<close>, and the properties of the chain are instantiated on it.
\<close>

section \<open>The example chain\<close>

definition demo_hash :: "u8 \<Rightarrow> multihash" where
  "demo_hash n = \<lparr>mh_buf = n # replicate 31 0, mh_len = 32, mh_code = Sha3_256\<rparr>"

definition demo_seed :: metadata_block where
  "demo_seed = \<lparr>system_time = 100, prev_block_hash = None, sequence_number = 0,
     event = Seed \<lparr>seed_dataset_id = DatasetID [], seed_dataset_kind = Root\<rparr>\<rparr>"

definition demo_schema :: metadata_block where
  "demo_schema = \<lparr>system_time = 110, prev_block_hash = Some (demo_hash 0), sequence_number = 1,
     event = SetDataSchema \<lparr>sds_schema = []\<rparr>\<rparr>"

definition demo_data :: metadata_block where
  "demo_data = \<lparr>system_time = 120, prev_block_hash = Some (demo_hash 1), sequence_number = 2,
     event = AddData
       \<lparr>ad_prev_checkpoint = None, ad_prev_offset = None,
        ad_new_data = Some \<lparr>ds_logical_hash = demo_hash 0, ds_physical_hash = demo_hash 0,
          ds_offset_interval = \<lparr>oi_start = 0, oi_end = 9\<rparr>, ds_size = 100\<rparr>,
        ad_new_checkpoint = None, ad_new_watermark = Some 90, ad_new_source_state = None\<rparr>\<rparr>"

definition demo_codec :: codec where
  "demo_codec =
     \<lparr>write_manifest = (\<lambda>b. Inr [of_nat (unat (sequence_number b))]),
      read_manifest = (\<lambda>bs. if bs = [0] then Inr demo_seed else if bs = [1] then Inr demo_schema
        else if bs = [2] then Inr demo_data else Inl UnsupportedVersion)\<rparr>"


definition demo1 :: chain where
  "demo1 = snd (the (chain_append demo_externs demo_codec empty_chain demo_seed default_append_opts))"

definition demo2 :: chain where
  "demo2 = snd (the (chain_append demo_externs demo_codec demo1 demo_schema default_append_opts))"

definition demo3 :: chain where
  "demo3 = snd (the (chain_append demo_externs demo_codec demo2 demo_data default_append_opts))"

lemma demo_results:
  "map_option fst (chain_append demo_externs demo_codec empty_chain demo_seed default_append_opts)
     = Some (Inr (demo_hash 0))"
  "map_option fst (chain_append demo_externs demo_codec demo1 demo_schema default_append_opts)
     = Some (Inr (demo_hash 1))"
  "map_option fst (chain_append demo_externs demo_codec demo2 demo_data default_append_opts)
     = Some (Inr (demo_hash 2))"
  by code_simp+

lemma map_fst_snd: "map_option fst p = Some a \<Longrightarrow> p = Some (a, snd (the p))"
  by (cases p) auto

lemma demo_appends:
  "chain_append demo_externs demo_codec empty_chain demo_seed default_append_opts
     = Some (Inr (demo_hash 0), demo1)"
  "chain_append demo_externs demo_codec demo1 demo_schema default_append_opts
     = Some (Inr (demo_hash 1), demo2)"
  "chain_append demo_externs demo_codec demo2 demo_data default_append_opts
     = Some (Inr (demo_hash 2), demo3)"
  unfolding demo1_def [symmetric] demo2_def [symmetric] demo3_def
  using demo_results [THEN map_fst_snd] by (simp_all add: demo1_def demo2_def)

lemma demo_reads:
  "chain_get_block demo_codec demo1 (demo_hash 0) = Inr demo_seed"
  "chain_get_block demo_codec demo2 (demo_hash 0) = Inr demo_seed"
  "chain_get_block demo_codec demo2 (demo_hash 1) = Inr demo_schema"
  "chain_get_block demo_codec demo3 (demo_hash 0) = Inr demo_seed"
  "chain_get_block demo_codec demo3 (demo_hash 1) = Inr demo_schema"
  "chain_get_block demo_codec demo3 (demo_hash 2) = Inr demo_data"
  "current_ref demo_externs demo1 Head = Inr (Some (demo_hash 0))"
  "current_ref demo_externs demo2 Head = Inr (Some (demo_hash 1))"
  "current_ref demo_externs demo3 Head = Inr (Some (demo_hash 2))"
  by code_simp+

lemma demo_sound:
  "append_sound demo_externs demo_codec empty_chain demo_seed default_append_opts"
  "append_sound demo_externs demo_codec demo1 demo_schema default_append_opts"
  "append_sound demo_externs demo_codec demo2 demo_data default_append_opts"
  by code_simp+

lemma demo_reachable:
  "chain_reachable demo_externs demo_codec demo1"
  "chain_reachable demo_externs demo_codec demo2"
  "chain_reachable demo_externs demo_codec demo3"
proof -
  have op: "chain_op demo_externs demo_codec empty_chain demo1"
    "chain_op demo_externs demo_codec demo1 demo2" "chain_op demo_externs demo_codec demo2 demo3"
    by (rule step_append [OF demo_appends(1) _ demo_sound(1)]
        step_append [OF demo_appends(2) _ demo_sound(2)]
        step_append [OF demo_appends(3) _ demo_sound(3)]; simp)+
  show 1: "chain_reachable demo_externs demo_codec demo1" by (rule reach_step [OF reach_empty op(1)])
  show 2: "chain_reachable demo_externs demo_codec demo2" by (rule reach_step [OF 1 op(2)])
  show "chain_reachable demo_externs demo_codec demo3" by (rule reach_step [OF 2 op(3)])
qed

lemma demo_links:
  "prev_block_hash demo_seed = None" "prev_block_hash demo_schema = Some (demo_hash 0)"
  "prev_block_hash demo_data = Some (demo_hash 1)"
  by (simp_all add: demo_seed_def demo_schema_def demo_data_def)

lemma demo_chain_at:
  "chain_at (chain_get_block demo_codec demo2) (demo_hash 1)
     [(demo_hash 1, demo_schema), (demo_hash 0, demo_seed)]"
  "chain_at (chain_get_block demo_codec demo3) (demo_hash 2)
     [(demo_hash 2, demo_data), (demo_hash 1, demo_schema), (demo_hash 0, demo_seed)]"
proof -
  have root: "chain_at (chain_get_block demo_codec c) (demo_hash 0) [(demo_hash 0, demo_seed)]"
    if "chain_get_block demo_codec c (demo_hash 0) = Inr demo_seed" for c
    using that demo_links(1) by (rule chain_root)
  show "chain_at (chain_get_block demo_codec demo2) (demo_hash 1)
      [(demo_hash 1, demo_schema), (demo_hash 0, demo_seed)]"
    using demo_reads(3) demo_links(2) root [OF demo_reads(2)] by (rule chain_step)
  have "chain_at (chain_get_block demo_codec demo3) (demo_hash 1)
      [(demo_hash 1, demo_schema), (demo_hash 0, demo_seed)]"
    using demo_reads(5) demo_links(2) root [OF demo_reads(4)] by (rule chain_step)
  with demo_reads(6) demo_links(3)
  show "chain_at (chain_get_block demo_codec demo3) (demo_hash 2)
      [(demo_hash 2, demo_data), (demo_hash 1, demo_schema), (demo_hash 0, demo_seed)]"
    by (rule chain_step)
qed

lemma demo_precedes:
  "precedes demo_codec demo2 demo_data [(demo_hash 1, demo_schema), (demo_hash 0, demo_seed)]"
  using demo_chain_at by (simp add: precedes_def demo_links)

end
