(* ===== verification/Chain_Properties.thy ===== *)
theory Chain_Properties
  imports Chain_Demo
begin

text \<open>
  The correctness of the metadata chain: what an append accepts, what it changes, what it
  leaves alone, how concurrent appends are told apart, and what holds of every chain that
  validated appends can build. Each theorem with hypotheses is instantiated on the chain of
  \<open>Chain_Demo\<close>.
\<close>

section \<open>Appending\<close>

text \<open>
  C1. With the default options, an append succeeds exactly when the block is a valid
  continuation of the blocks its \<open>prev_block_hash\<close> leads to, that hash is the current head, and
  the block can be serialized. The twelve visitors of \<open>append\<close>, run in one shared pass with
  early stopping, thus decide the predicate \<open>valid_next\<close>.
\<close>

theorem append_accepts_exactly_valid:
  assumes "externs_ok x" and "precedes cd c b bs" and "current_ref x c Head = Inr head"
  shows "(\<exists>h c'. chain_append x cd c b default_append_opts = Some (Inr h, c')) \<longleftrightarrow>
     valid_next (map snd bs) b \<and> prev_block_hash b = head \<and> (\<exists>data. write_manifest cd b = Inr data)"
proof (cases "valid_next (map snd bs) b")
  case True
  with append_validate_ok [OF assms(2)] have "append_validate cd c b = Some (Inr ())" by blast
  then show ?thesis
    using True default_commit [OF assms(1), of cd c b]
    by (cases "prev_block_hash b = head") (simp_all add: chain_append_def default_check_ref [OF assms(3)])
next
  case False
  have "chain_append x cd c b default_append_opts \<noteq> Some (Inr h, c')" for h c'
    using False append_validate_ok [OF assms(2)]
    by (auto elim!: chain_append_cases)
  with False show ?thesis by blast
qed

theorem append_accepts_exactly_valid_witness:
  "valid_next [demo_schema, demo_seed] demo_data
   \<and> \<not> valid_next [demo_schema, demo_seed] (demo_data\<lparr>system_time := 105\<rparr>)
   \<and> (\<exists>h c'. chain_append demo_externs demo_codec demo2 demo_data default_append_opts = Some (Inr h, c'))
   \<and> \<not> (\<exists>h c'. chain_append demo_externs demo_codec demo2 (demo_data\<lparr>system_time := 105\<rparr>)
               default_append_opts = Some (Inr h, c'))"
proof -
  note iff = append_accepts_exactly_valid [OF demo_externs_ok _ demo_reads(8)]
  have bad: "precedes demo_codec demo2 (demo_data\<lparr>system_time := 105\<rparr>)
      [(demo_hash 1, demo_schema), (demo_hash 0, demo_seed)]"
    using demo_precedes by (simp add: precedes_def)
  have "\<not> valid_next [demo_schema, demo_seed] (demo_data\<lparr>system_time := 105\<rparr>)"
    by (simp add: valid_next_def demo_data_def demo_schema_def)
  with iff [OF demo_precedes] iff [OF bad] demo_appends(3) show ?thesis by auto
qed

text \<open>
  A successful validated append that moves the head makes the new block readable under the
  returned hash, points the head at it, and iteration from the head then yields the new
  block followed by exactly the blocks that preceded it.
\<close>

theorem append_extends_chain:
  assumes "externs_ok x" and "append_sound x cd c b opts" and "ao_update_ref opts = Some Head"
    and "chain_append x cd c b opts = Some (Inr h, c')" and "precedes cd c b bs"
  shows "chain_get_block cd c' h = Inr b \<and> chain_resolve_ref x c' Head = Inr h
    \<and> iter_blocks x cd c' = Some ((h, b) # bs, None)"
proof -
  have "chain_at (chain_get_block cd c') h ((h, b) # bs)" "chain_resolve_ref x c' Head = Inr h"
    using append_extends [OF assms] by simp_all
  then show ?thesis
    using chain_at_get [of "chain_get_block cd c'" h "(h, b) # bs" h b]
    by (simp add: iter_blocks_def iter_blocks_interval_ref_def iter_loop_chain)
qed

theorem append_extends_chain_witness:
  "iter_blocks demo_externs demo_codec demo3 =
     Some ([(demo_hash 2, demo_data), (demo_hash 1, demo_schema), (demo_hash 0, demo_seed)], None)"
  using append_extends_chain [OF demo_externs_ok demo_sound(3) _ demo_appends(3) demo_precedes]
  by simp

text \<open>
  An append that fails leaves blocks and references exactly as they were, whatever its
  options: neither a rejected block nor a half-made head update is left behind.
\<close>

theorem append_failure_unchanged:
  assumes "externs_ok x" and "append_sound x cd c b opts"
    and "chain_append x cd c b opts = Some (Inl f, c')"
  shows "c' = c"
  using assms(3)
proof (cases rule: chain_append_cases)
  case committed
  from committed(1) assms(1,2) show ?thesis by (cases rule: append_commit_cases) simp_all
qed

theorem append_failure_unchanged_witness:
  "\<exists>f. chain_append demo_externs demo_codec demo3 demo_data default_append_opts = Some (Inl f, demo3)"
proof -
  have "map_option fst (chain_append demo_externs demo_codec demo3 demo_data default_append_opts)
      = Some (Inl (Fail (RefCASFailed Head (Some (demo_hash 1)) (Some (demo_hash 2)))))"
    by code_simp
  from map_fst_snd [OF this] obtain c' where
    c': "chain_append demo_externs demo_codec demo3 demo_data default_append_opts
      = Some (Inl (Fail (RefCASFailed Head (Some (demo_hash 1)) (Some (demo_hash 2)))), c')"
    by metis
  have "append_sound demo_externs demo_codec demo3 demo_data default_append_opts" by code_simp
  from append_failure_unchanged [OF demo_externs_ok this c'] c' show ?thesis by simp
qed

text \<open>
  Optimistic concurrency: when two writers prepare a block on the same head and the first
  append goes through, the second one, valid as its block may be, fails with the
  compare-and-swap error that names the head it expected and the one it found, and changes
  nothing. No update is lost.
\<close>

theorem append_stale_head_rejected:
  assumes "externs_ok x" and "append_sound x cd c b1 default_append_opts"
    and "chain_append x cd c b1 default_append_opts = Some (Inr h1, c1)"
    and "precedes cd c b1 bs" and "bs \<noteq> []"
    and "prev_block_hash b2 = prev_block_hash b1"
    and "append_validate cd c1 b2 = Some (Inr ())"
  shows "chain_append x cd c1 b2 default_append_opts =
    Some (Inl (Fail (RefCASFailed Head (prev_block_hash b2) (Some h1))), c1)"
proof -
  from assms(3) have valid: "append_validate cd c b1 = Some (Inr ())"
    by (cases rule: chain_append_cases) simp_all
  then have next_ok: "valid_next (map snd bs) b1" using append_validate_ok [OF assms(4)] by blast
  obtain p q qs where p: "prev_block_hash b1 = Some p" "bs = (p, q) # qs" "chain_get_block cd c p = Inr q"
    using assms(4,5) by (fastforce simp: precedes_def dest: chain_at_hd split: option.splits list.splits
        elim: chain_at.cases)
  from assms(3) have head: "current_ref x c1 Head = Inr (Some h1) \<and> h1 \<noteq> p"
  proof (cases rule: chain_append_cases)
    case committed
    from committed(1) assms(1,2) show ?thesis
    proof (cases rule: append_commit_cases)
      case (stored h io)
      have "q \<noteq> b1" using next_ok p(2) by (auto simp: valid_next_def)
      then have "h \<noteq> p"
        using mem_blocks.sound_present [OF stored(4)] p(3) by (auto simp: chain_get_block_eq)
      with stored mem_refs.get_after_set [OF assms(1) stored(5)] show ?thesis
        by (simp add: current_ref_def)
    qed simp
  qed simp
  then show ?thesis
    using assms(6,7) p(1) by (auto simp: chain_append_def default_check_ref ensure_def)
qed

theorem append_stale_head_rejected_witness:
  "chain_append demo_externs demo_codec demo3 (demo_data\<lparr>system_time := 130\<rparr>) default_append_opts =
     Some (Inl (Fail (RefCASFailed Head (Some (demo_hash 1)) (Some (demo_hash 2)))), demo3)"
proof -
  have "append_validate demo_codec demo3 (demo_data\<lparr>system_time := 130\<rparr>) = Some (Inr ())"
    by code_simp
  from append_stale_head_rejected [OF demo_externs_ok demo_sound(3) demo_appends(3) demo_precedes _ _ this]
  show ?thesis by (simp add: demo_links)
qed

text \<open>
  C31. In every state that validated appends and checked reference updates can reach, an append
  returns (the traversal of the chain ends), and it panics on no block except the two
  event kinds the code does not implement.
\<close>

theorem append_returns_without_panic:
  assumes "externs_ok x" and "chain_reachable x cd c" and "append_sound x cd c b opts"
    and "\<not> is_DisablePushSource (event b)" and "event b \<noteq> DisablePollingSource"
  shows "\<exists>r c'. chain_append x cd c b opts = Some (r, c') \<and> (\<forall>m. r \<noteq> Inl (Panic m))"
proof -
  note inv = chain_reachable_inv [OF assms(2,1)]
  have "\<exists>v. append_validate cd c b = Some v \<and> (\<forall>m. v \<noteq> Inl (Panic m))"
    using append_validate_no_panic [OF conjunct1 [OF inv] assms(4,5)] .
  then obtain v where v: "(if ao_validation opts = ValidationFull then append_validate cd c b else Some (Inr ())) = Some v"
    "\<forall>m. v \<noteq> Inl (Panic m)" by (cases "ao_validation opts = ValidationFull") auto
  have check: "append_check_ref x c b opts \<noteq> Inl (Panic m)" for m
    using append_check_ref_no_panic [OF conjunct2 [OF inv]] .
  obtain r c' where r: "append_commit x cd c b opts = (r, c')" by (cases "append_commit x cd c b opts") auto
  then have "r \<noteq> Inl (Panic m)" for m
    using assms(1,3) by (cases rule: append_commit_cases) auto
  with v check r show ?thesis
    by (cases "and_then v (\<lambda>_. append_check_ref x c b opts)") (auto simp: chain_append_def res_simps)
qed

theorem append_returns_without_panic_witness:
  "\<exists>r c'. chain_append demo_externs demo_codec demo2 demo_data default_append_opts = Some (r, c')
     \<and> (\<forall>m. r \<noteq> Inl (Panic m))"
  by (rule append_returns_without_panic [OF demo_externs_ok demo_reachable(2) demo_sound(3)])
    (simp_all add: demo_data_def)

text \<open>
  A block that links to an absent predecessor is rejected by validation as
  \<open>PrevBlockNotFound\<close> with that hash, and not as an internal error, provided its own
  self-contained checks pass; the chain stays as it was.
\<close>

theorem append_missing_prev:
  assumes "new_validators b = Inr vs" and "prev_block_hash b = Some p"
    and "\<not> chain_contains_block c p" and "ao_validation opts = ValidationFull"
  shows "chain_append x cd c b opts = Some (Inl (Fail (InvalidBlock (PrevBlockNotFound p))), c)"
proof -
  from assms(3) have "chain_get_block cd c p = Inl (BlockNotFound p)"
    by (intro get_block_absent)
      (auto simp: chain_contains_block_def repo_contains_block_def obj_contains_def)
  with assms show ?thesis
    by (simp add: chain_append_def append_validate_def accept_by_interval_def accept_loop.simps)
qed

theorem append_missing_prev_witness:
  "chain_append demo_externs demo_codec demo1 demo_data default_append_opts =
     Some (Inl (Fail (InvalidBlock (PrevBlockNotFound (demo_hash 1)))), demo1)"
proof -
  have "\<exists>vs. new_validators demo_data = Inr vs"
    using demo_appends(3) by (auto simp: chain_append_def append_validate_def split: sum.splits)
  then obtain vs where vs: "new_validators demo_data = Inr vs" ..
  have "\<not> chain_contains_block demo1 (demo_hash 1)" by code_simp
  from append_missing_prev [OF vs demo_links(3) this] show ?thesis by simp
qed

section \<open>Every reachable chain\<close>

text \<open>
  C2. The blocks read from the head of any reachable chain are numbered by their distance to
  the first block, only the first block is a seed, and system time never decreases along the
  chain. Iteration from the head returns all of them, without error.
\<close>

theorem reachable_chain_order:
  assumes "externs_ok x" and "chain_reachable x cd c" and "chain_resolve_ref x c Head = Inr h"
  shows "\<exists>bs. iter_blocks x cd c = Some (bs, None) \<and> bs \<noteq> [] \<and> fst (hd bs) = h
    \<and> (\<forall>i < length bs. sequence_number (snd (bs ! i)) = of_nat (length bs - 1 - i)
                       \<and> (is_Seed (event (snd (bs ! i))) \<longleftrightarrow> Suc i = length bs))
    \<and> sorted_wrt (\<lambda>newer older. system_time (snd older) \<le> system_time (snd newer)) bs"
proof -
  from reachable_head [OF assms(2,1,3)] obtain bs where bs:
    "chain_at (chain_get_block cd c) h bs" "valid_chain (map snd bs)" "iter_blocks x cd c = Some (bs, None)"
    by blast
  have "fst (hd bs) = h" "bs \<noteq> []" using chain_at_hd [OF bs(1)] chain_at_nonempty [OF bs(1)] by auto
  moreover have "sorted_wrt (\<lambda>newer older. system_time (snd older) \<le> system_time (snd newer)) bs"
    using valid_chain_system_time [OF bs(2)] by (simp add: sorted_wrt_map)
  moreover have "sequence_number (snd (bs ! i)) = of_nat (length bs - 1 - i)
      \<and> (is_Seed (event (snd (bs ! i))) \<longleftrightarrow> Suc i = length bs)" if "i < length bs" for i
    using valid_chain_sequence_number [OF bs(2), of i] valid_chain_seed [OF bs(2), of i] that by simp
  ultimately show ?thesis using bs(3) by blast
qed

theorem reachable_chain_order_witness:
  "\<exists>bs. iter_blocks demo_externs demo_codec demo3 = Some (bs, None) \<and> fst (hd bs) = demo_hash 2
     \<and> (\<forall>i < length bs. sequence_number (snd (bs ! i)) = of_nat (length bs - 1 - i))"
proof -
  have "chain_resolve_ref demo_externs demo3 Head = Inr (demo_hash 2)"
    using demo_reads(9) by (simp add: chain_resolve_ref_def current_ref_Inr)
  from reachable_chain_order [OF demo_externs_ok demo_reachable(3) this] show ?thesis by blast
qed

text \<open>
  C3. The data slices of any reachable chain have contiguous offsets: each slice starts at the
  offset after the end of the slice before it (as \<open>u64\<close> arithmetic), and no interval is
  reversed. Blocks without data in between do not break the sequence.
\<close>

theorem reachable_offsets_contiguous:
  assumes "externs_ok x" and "chain_reachable x cd c" and "chain_resolve_ref x c Head = Inr h"
  shows "\<exists>bs. iter_blocks x cd c = Some (bs, None)
    \<and> successively (\<lambda>newer older. oi_start newer = oi_end older + 1) (slices (map snd bs))
    \<and> (\<forall>i \<in> set (slices (map snd bs)). oi_start i \<le> oi_end i)"
proof -
  from reachable_head [OF assms(2,1,3)] obtain bs where bs:
    "valid_chain (map snd bs)" "iter_blocks x cd c = Some (bs, None)" by blast
  from valid_chain_contiguous [OF bs(1)] bs(2) show ?thesis
    by (auto simp: contiguous_def list_all_iff)
qed

theorem reachable_offsets_contiguous_witness:
  "\<exists>bs. iter_blocks demo_externs demo_codec demo3 = Some (bs, None)
     \<and> successively (\<lambda>newer older. oi_start newer = oi_end older + 1) (slices (map snd bs))"
proof -
  have "chain_resolve_ref demo_externs demo3 Head = Inr (demo_hash 2)"
    using demo_reads(9) by (simp add: chain_resolve_ref_def current_ref_Inr)
  from reachable_offsets_contiguous [OF demo_externs_ok demo_reachable(3) this] show ?thesis by blast
qed

section \<open>Reading and references\<close>

text \<open>
  Iterating the interval \<open>[head, tail)\<close> of a chain yields, newest first, exactly the blocks
  before the tail, always ends, and reports \<open>InvalidInterval\<close> after the last block exactly when
  the tail is not in the chain and missing tails are not ignored.
\<close>

theorem iter_interval_exact:
  assumes "chain_at (chain_get_block cd c) head bs"
  shows "iter_blocks_interval cd c head tail ignore_missing =
    Some (takeWhile (\<lambda>hb. tail \<noteq> Some (fst hb)) bs,
          case tail of
            None \<Rightarrow> None
          | Some t \<Rightarrow> if t \<in> fst ` set bs \<or> ignore_missing then None
                      else Some (Fail (IterInvalidInterval head t)))"
  using iter_loop_chain [OF assms]
  by (auto simp: iter_blocks_interval_def before_tail_def split: option.split)

theorem iter_interval_exact_witness:
  "iter_blocks_interval demo_codec demo3 (demo_hash 2) (Some (demo_hash 0)) False =
     Some ([(demo_hash 2, demo_data), (demo_hash 1, demo_schema)], None)
   \<and> iter_blocks_interval demo_codec demo3 (demo_hash 2) (Some (demo_hash 7)) False =
     Some ([(demo_hash 2, demo_data), (demo_hash 1, demo_schema), (demo_hash 0, demo_seed)],
           Some (Fail (IterInvalidInterval (demo_hash 2) (demo_hash 7))))"
  using iter_interval_exact [OF demo_chain_at(2), of "Some (demo_hash 0)" False]
    iter_interval_exact [OF demo_chain_at(2), of "Some (demo_hash 7)" False]
  by (simp add: demo_hash_def)

text \<open>
  The inclusive interval \<open>[head, tail]\<close> is the exclusive one followed by the tail block; when
  the tail is not in the chain it is the whole chain, reported as \<open>InvalidInterval\<close> unless
  missing tails are ignored.
\<close>

theorem iter_inclusive_exact:
  assumes "chain_at (chain_get_block cd c) head bs"
  shows "iter_blocks_interval_inclusive cd c head tail ignore_missing =
    (if tail \<in> fst ` set bs
     then Some (takeWhile (\<lambda>hb. tail \<noteq> fst hb) bs @ [hd (dropWhile (\<lambda>hb. tail \<noteq> fst hb) bs)], None)
     else Some (bs, if ignore_missing then None else Some (Fail (IterInvalidInterval head tail))))"
proof -
  have up_to: "up_to_tail t hbs =
      (if t \<in> fst ` set hbs then takeWhile (\<lambda>hb. t \<noteq> fst hb) hbs @ [hd (dropWhile (\<lambda>hb. t \<noteq> fst hb) hbs)]
       else hbs)" for t hbs
    by (induction hbs) auto
  have "fst (last bs) \<noteq> tail" if "tail \<notin> fst ` set bs"
    using that chain_at_nonempty [OF assms] by force
  with iter_loop_inclusive_chain [OF assms] show ?thesis
    by (simp add: iter_blocks_interval_inclusive_def up_to)
qed

theorem iter_inclusive_exact_witness:
  "iter_blocks_interval_inclusive demo_codec demo3 (demo_hash 2) (demo_hash 1) False =
     Some ([(demo_hash 2, demo_data), (demo_hash 1, demo_schema)], None)"
  using iter_inclusive_exact [OF demo_chain_at(2), of "demo_hash 1" False]
  by (simp add: demo_hash_def)

text \<open>
  \<open>set_ref\<close> moves a reference exactly when the target block is present (if that is to be
  checked) and the reference holds the expected old value (if one is given); it then reads
  back as the new hash and no block changes. In every other case the chain stays as it was.
\<close>

theorem set_ref_exact:
  assumes "externs_ok x" and "wf_multihash h"
  shows "(let (res, c') = chain_set_ref x c r h opts;
              ok = (so_validate_block_present opts \<longrightarrow> chain_contains_block c h)
                   \<and> (\<forall>e. so_check_ref_is opts = Some e \<longrightarrow> current_ref x c r = Inr e)
          in (res = Inr () \<longleftrightarrow> ok)
             \<and> (ok \<longrightarrow> chain_resolve_ref x c' r = Inr h \<and> meta_block_repo c' = meta_block_repo c)
             \<and> (\<not> ok \<longrightarrow> c' = c))"
proof (cases "set_ref_check x c r h opts")
  case (Inl f)
  with set_ref_check_ok [of x c r h opts "()"] show ?thesis
    by (auto simp: chain_set_ref_def chain_contains_block_def repo_contains_block_def obj_contains_def
        Let_def)
next
  case (Inr u)
  from mem_refs.set_get [OF assms] obtain refs where
    refs: "ref_set x (ref_repo c) r h = Inr refs" "ref_get x refs r = Inr h" by blast
  from Inr have "set_ref_check x c r h opts = Inr ()" by simp
  with set_ref_check_ok [of x c r h opts "()"] refs show ?thesis
    by (simp add: chain_set_ref_def chain_contains_block_def repo_contains_block_def obj_contains_def
        chain_resolve_ref_def)
qed

theorem set_ref_exact_witness:
  "let (res, c') = chain_set_ref demo_externs demo3 Head (demo_hash 1) default_set_ref_opts
   in res = Inr () \<and> chain_resolve_ref demo_externs c' Head = Inr (demo_hash 1)"
proof -
  have "wf_multihash (demo_hash 1)" by code_simp
  moreover have "chain_contains_block demo3 (demo_hash 1)" by code_simp
  ultimately show ?thesis
    using set_ref_exact [OF demo_externs_ok, of "demo_hash 1" demo3 Head default_set_ref_opts]
    by (simp add: default_set_ref_opts_def Let_def split: prod.splits)
qed

lemma list_all2_unzip:
  "(\<exists>ps. list_all2 (\<lambda>x p. f x = Inr p) xs ps \<and> (\<forall>y \<in> set (map snd ps). Q y) \<and> ys = map snd ps) \<longleftrightarrow>
     list_all2 (\<lambda>x y. (\<exists>d. f x = Inr (d, y)) \<and> Q y) xs ys"
  (is "(\<exists>ps. ?L xs ys ps) \<longleftrightarrow> ?R xs ys")
proof
  show "?R xs ys" if "\<exists>ps. ?L xs ys ps"
    using that by (auto simp: list_all2_map2 list_all2_conv_all_nth) (metis prod.collapse nth_mem)+
  show "\<exists>ps. ?L xs ys ps" if "?R xs ys"
    using that
  proof (induction xs ys rule: list_all2_induct)
    case (Cons x xs y ys)
    then obtain d ps where "f x = Inr (d, y)" "Q y" "?L xs ys ps" by blast
    then have "?L (x # xs) (y # ys) ((d, y) # ps)" by simp
    then show ?case by (rule exI)
  qed simp
qed

text \<open>
  Visiting a chain with several visitors in one pass gives every visitor the result of a
  pass of its own over the blocks before the tail: the pass succeeds exactly when each visitor's own
  run and its \<open>finish\<close> do, and ends in the same visitor states. Visitors do not interfere, and
  stopping the pass once all visitors have finished loses nothing.
\<close>

theorem shared_pass_equals_own_passes:
  assumes "chain_at get h bs"
  shows "accept_by_interval get ops vs (Some h) tail = Some (Inr vs') \<longleftrightarrow>
    list_all2 (\<lambda>v v'. (\<exists>d. run_visitor ops (initial_decision ops v, v) (before_tail tail bs) = Inr (d, v'))
                     \<and> finish ops v' = Inr ()) vs vs'"
  (is "?lhs \<longleftrightarrow> ?rhs")
proof -
  let ?run = "\<lambda>v. run_visitor ops (initial_decision ops v, v) (before_tail tail bs)"
  have fin: "finish_all ops us = Inr () \<longleftrightarrow> (\<forall>v \<in> set us. finish ops v = Inr ())" for us
    by (simp add: finish_all_def res_simps)
  have "?lhs \<longleftrightarrow> (\<exists>dvs. list_all2 (\<lambda>v dv. ?run v = Inr dv) vs dvs
      \<and> (\<forall>v \<in> set (map snd dvs). finish ops v = Inr ()) \<and> vs' = map snd dvs)"
    by (auto simp: accept_by_interval_chain [OF assms] res_simps accept_list_ok fin list_all2_map1)
  also have "\<dots> \<longleftrightarrow> ?rhs"
    by (rule list_all2_unzip)
  finally show ?thesis .
qed

theorem shared_pass_equals_own_passes_witness:
  "accept_by_interval (chain_get_block demo_codec demo3) validator_ops
     [ValidateSequenceNumbersIntegrity 3, ValidateSystemTimeIsMonotonic 130] (Some (demo_hash 2)) None
   = Some (Inr [ValidateSequenceNumbersIntegrity 3, ValidateSystemTimeIsMonotonic 130])"
  unfolding shared_pass_equals_own_passes [OF demo_chain_at(2)]
  by (simp add: validator_ops_def demo_data_def)

end
