(* ===== verification/Chain_Search.thy ===== *)
theory Chain_Search
  imports Chain_Demo
begin

text \<open>
  The stock visitors of \<open>metadata_chain_visitors.rs\<close> and the helpers of \<open>metadata_chain.rs\<close> built
  on them: the search for the latest block of one event type, for the latest data block and
  for the latest source state, and the fold over a chain with a callback. The contract of
  \<open>chain_visitor\<close> is interpreted on each search, and each search returns the newest matching
  block of the chain.
\<close>

section \<open>Typed blocks (metadata_block_types.rs)\<close>

record 't typed_block =
  tb_system_time :: datetime
  tb_prev_block_hash :: "multihash option"
  tb_sequence_number :: u64
  tb_event :: 't

text \<open>\<open>VariantOf<MetadataEvent>::into_variant\<close> is the argument \<open>variant\<close>.\<close>

definition into_typed :: "(metadata_event \<Rightarrow> 't option) \<Rightarrow> metadata_block \<Rightarrow> 't typed_block option" where
  "into_typed variant b =
     map_option
       (\<lambda>e. \<lparr>tb_system_time = system_time b, tb_prev_block_hash = prev_block_hash b,
             tb_sequence_number = sequence_number b, tb_event = e\<rparr>)
       (variant (event b))"

section \<open>Search for one event type\<close>

text \<open>The error type of visitors that do not fail has no values in the source.\<close>

type_synonym infallible = unit

record 't search_typed =
  sst_requested_flag :: event_flags
  sst_hashed_block :: "(multihash \<times> 't typed_block) option"

definition search_typed_new :: "event_flags \<Rightarrow> 't search_typed" where
  "search_typed_new flag = \<lparr>sst_requested_flag = flag, sst_hashed_block = None\<rparr>"

definition search_typed_visit ::
  "(metadata_event \<Rightarrow> 't option) \<Rightarrow> 't search_typed \<Rightarrow> hashed_block \<Rightarrow>
   (infallible, 't search_typed \<times> decision) res" where
  "search_typed_visit variant v = (\<lambda>(hash, block).
     if \<not> flags_contains (sst_requested_flag v) (event_flag (event block))
     then Inl (Panic ''internal error: entered unreachable code'')
     else case into_typed variant block of
            None \<Rightarrow> Inl (Panic ''called Option::unwrap() on a None value'')
          | Some t \<Rightarrow> Inr (v\<lparr>sst_hashed_block := Some (hash, t)\<rparr>, Stop))"

definition search_typed_ops :: "(metadata_event \<Rightarrow> 't option) \<Rightarrow> ('t search_typed, infallible) visitor_ops" where
  "search_typed_ops variant =
     \<lparr>initial_decision = (\<lambda>v. NextOfType (sst_requested_flag v)),
      visit = search_typed_visit variant, finish = (\<lambda>_. Inr ())\<rparr>"

definition search_typed_into_event :: "'t search_typed \<Rightarrow> 't option" where
  "search_typed_into_event v = map_option (\<lambda>(_, b). tb_event b) (sst_hashed_block v)"

section \<open>Search for a data block\<close>

datatype data_block_kind = NextDataBlock | NextFilledNewData

record search_data =
  ssd_kind :: data_block_kind
  ssd_hashed_block :: "(multihash \<times> data_stream_block) option"

definition search_data_new :: "data_block_kind \<Rightarrow> search_data" where
  "search_data_new kind = \<lparr>ssd_kind = kind, ssd_hashed_block = None\<rparr>"

definition search_data_visit :: "search_data \<Rightarrow> hashed_block \<Rightarrow> (infallible, search_data \<times> decision) res" where
  "search_data_visit v = (\<lambda>(hash, block).
     case as_data_stream_block block of
       None \<Rightarrow> Inr (v, NextOfType DATA_BLOCK)
     | Some data_block \<Rightarrow>
         if (case ssd_kind v of
               NextDataBlock \<Rightarrow> True
             | NextFilledNewData \<Rightarrow> dse_new_data (dsb_event data_block) \<noteq> None)
         then Inr (v\<lparr>ssd_hashed_block := Some (hash, data_block)\<rparr>, Stop)
         else Inr (v, NextOfType DATA_BLOCK))"

definition search_data_ops :: "(search_data, infallible) visitor_ops" where
  "search_data_ops =
     \<lparr>initial_decision = (\<lambda>v. NextOfType DATA_BLOCK), visit = search_data_visit, finish = (\<lambda>_. Inr ())\<rparr>"

section \<open>Search for the source state\<close>

record search_source_state =
  sss_source_name :: "string option"
  sss_source_state :: "source_state option"

definition search_source_state_new :: "string option \<Rightarrow> search_source_state" where
  "search_source_state_new name = \<lparr>sss_source_name = name, sss_source_state = None\<rparr>"

definition search_source_state_visit ::
  "search_source_state \<Rightarrow> hashed_block \<Rightarrow> (infallible, search_source_state \<times> decision) res" where
  "search_source_state_visit v = (\<lambda>(hash, block).
     case event block of
       AddData e \<Rightarrow>
         (case (ad_new_source_state e, sss_source_name v) of
            (Some ss, Some sn) \<Rightarrow>
              if sn \<noteq> ss_source_name ss
              then Inl (Panic ''not implemented: Differentiating between the state of multiple sources is not yet supported'')
              else Inr (v\<lparr>sss_source_state := ad_new_source_state e\<rparr>, Stop)
          | _ \<Rightarrow> Inr (v\<lparr>sss_source_state := ad_new_source_state e\<rparr>, Stop))
     | _ \<Rightarrow> Inl (Panic ''internal error: entered unreachable code''))"

definition search_source_state_ops :: "(search_source_state, infallible) visitor_ops" where
  "search_source_state_ops =
     \<lparr>initial_decision = (\<lambda>v. NextOfType ADD_DATA), visit = search_source_state_visit,
      finish = (\<lambda>_. Inr ())\<rparr>"

section \<open>Callbacks\<close>

record ('s, 'e) callback_visitor =
  cbv_state :: 's
  cbv_initial_decision :: decision
  cbv_callback :: "'s \<Rightarrow> multihash \<Rightarrow> metadata_block \<Rightarrow> 'e + ('s \<times> decision)"

definition callback_ops :: "(('s, 'e) callback_visitor, 'e) visitor_ops" where
  "callback_ops =
     \<lparr>initial_decision = cbv_initial_decision,
      visit = (\<lambda>v (hash, block).
        and_then (map_err Fail (cbv_callback v (cbv_state v) hash block))
          (\<lambda>(s, d). Inr (v\<lparr>cbv_state := s\<rparr>, d))),
      finish = (\<lambda>_. Inr ())\<rparr>"

section \<open>Chain helpers\<close>

definition accept_one_by_hash ::
  "codec \<Rightarrow> chain \<Rightarrow> ('v, 'e) visitor_ops \<Rightarrow> multihash \<Rightarrow> 'v \<Rightarrow> ('e accept_error, 'v) res option" where
  "accept_one_by_hash cd c ops head visitor =
     map_option (\<lambda>r. and_then r (\<lambda>vs. Inr (hd vs)))
       (accept_by_interval (chain_get_block cd c) ops [visitor] (Some head) None)"

definition accept_one ::
  "externs \<Rightarrow> codec \<Rightarrow> chain \<Rightarrow> ('v, 'e) visitor_ops \<Rightarrow> 'v \<Rightarrow> ('e accept_error, 'v) res option" where
  "accept_one x cd c ops visitor =
     map_option (\<lambda>r. and_then r (\<lambda>vs. Inr (hd vs))) (chain_accept x cd c ops [visitor])"

definition try_reduce_by_hash ::
  "codec \<Rightarrow> chain \<Rightarrow> multihash \<Rightarrow> 's \<Rightarrow> decision \<Rightarrow>
   ('s \<Rightarrow> multihash \<Rightarrow> metadata_block \<Rightarrow> 'e + ('s \<times> decision)) \<Rightarrow> ('e accept_error, 's) res option" where
  "try_reduce_by_hash cd c head state initial callback =
     map_option (\<lambda>r. and_then r (\<lambda>vs. Inr (cbv_state (hd vs))))
       (accept_by_hash (chain_get_block cd c) callback_ops
          [\<lparr>cbv_state = state, cbv_initial_decision = initial, cbv_callback = callback\<rparr>] head)"

definition last_data_block :: "externs \<Rightarrow> codec \<Rightarrow> chain \<Rightarrow> (infallible accept_error, search_data) res option" where
  "last_data_block x cd c = accept_one x cd c search_data_ops (search_data_new NextDataBlock)"

definition last_data_block_with_new_data ::
  "externs \<Rightarrow> codec \<Rightarrow> chain \<Rightarrow> (infallible accept_error, search_data) res option" where
  "last_data_block_with_new_data x cd c =
     accept_one x cd c search_data_ops (search_data_new NextFilledNewData)"

section \<open>The searches respect the visitor contract\<close>

interpretation search_typed: chain_visitor "search_typed_ops variant"
  "\<lambda>d v. only_wants (sst_requested_flag v) (\<lambda>e. variant e \<noteq> None)
         \<and> (d = Stop \<or> d = NextOfType (sst_requested_flag v))" "\<lambda>_. True"
  for variant
  by unfold_locales
    (auto simp: search_typed_ops_def search_typed_visit_def into_typed_def only_wants_def
      split: if_splits option.splits prod.splits)

interpretation search_data: chain_visitor search_data_ops "\<lambda>d v. True" "\<lambda>_. True"
  by unfold_locales (auto simp: search_data_ops_def search_data_visit_def
      split: option.splits if_splits prod.splits)

section \<open>What the searches find\<close>

lemma accept_one_by_hash_chain:
  assumes "chain_at (chain_get_block cd c) h bs"
    and "run_visitor ops (initial_decision ops v, v) bs = Inr (d, v')" and "finish ops v' = Inr ()"
  shows "accept_one_by_hash cd c ops h v = Some (Inr v')"
proof -
  have "accept_list ops False [(initial_decision ops v, v)] bs = Inr [(d, v')]"
    using assms(2) by (simp add: accept_list_ok)
  with assms(3) show ?thesis
    by (simp add: accept_one_by_hash_def accept_by_interval_chain [OF assms(1)] finish_all_def)
qed

lemma accept_one_eq:
  "chain_resolve_ref x c Head = Inr h \<Longrightarrow> accept_one x cd c ops v = accept_one_by_hash cd c ops h v"
  by (simp add: accept_one_def accept_one_by_hash_def chain_accept_def accept_by_ref_def accept_by_hash_def)

text \<open>A search that stops at the first block its filter selects.\<close>

lemma run_search_typed:
  assumes "only_wants f (\<lambda>e. variant e \<noteq> None)" and "\<not> flags_is_empty f"
    and "\<And>e. variant e \<noteq> None \<Longrightarrow> flags_contains f (event_flag e)"
  shows "\<exists>d. run_visitor (search_typed_ops variant)
      (NextOfType f, \<lparr>sst_requested_flag = f, sst_hashed_block = None\<rparr>) bs
    = Inr (d, \<lparr>sst_requested_flag = f, sst_hashed_block =
        first_of (\<lambda>(h, b). map_option (Pair h) (into_typed variant b)) bs\<rparr>)"
proof (induction bs)
  case (Cons hb bs)
  obtain h b where hb: "hb = (h, b)" by (cases hb)
  show ?case
  proof (cases "variant (event b)")
    case None
    with assms(1) have "\<not> flags_contains f (event_flag (event b))" by (auto simp: only_wants_def)
    with None Cons.IH assms(2) show ?thesis by (simp add: hb into_typed_def)
  next
    case (Some e)
    then have "flags_contains f (event_flag (event b))" using assms(3) by simp
    with Some assms(2) show ?thesis
      by (simp add: hb into_typed_def search_typed_ops_def search_typed_visit_def)
  qed
qed simp

definition data_block_matches :: "data_block_kind \<Rightarrow> hashed_block \<Rightarrow> (multihash \<times> data_stream_block) option" where
  "data_block_matches kind = (\<lambda>(h, b).
     case as_data_stream_block b of
       None \<Rightarrow> None
     | Some d \<Rightarrow> if kind = NextDataBlock \<or> dse_new_data (dsb_event d) \<noteq> None then Some (h, d) else None)"

lemma run_search_data:
  "\<exists>d. run_visitor search_data_ops (NextOfType DATA_BLOCK, \<lparr>ssd_kind = kind, ssd_hashed_block = None\<rparr>) bs
    = Inr (d, \<lparr>ssd_kind = kind, ssd_hashed_block = first_of (data_block_matches kind) bs\<rparr>)"
proof (induction bs)
  case (Cons hb bs)
  obtain h b where hb: "hb = (h, b)" by (cases hb)
  show ?case
  proof (cases "as_data_stream_block b")
    case None
    then have "\<not> flags_contains DATA_BLOCK (event_flag (event b))"
      by (simp add: flag_simps as_data_stream_block_def)
    moreover have "data_block_matches kind (h, b) = None"
      by (simp only: data_block_matches_def prod.case None option.case)
    ultimately show ?thesis using Cons.IH by (simp add: hb)
  next
    case (Some d)
    then have "is_data_event (event b)"
      by (cases "event b") (simp_all add: as_data_stream_block_def is_data_event_discs)
    then have "flags_contains DATA_BLOCK (event_flag (event b))" by (simp add: flag_simps)
    with Some Cons.IH show ?thesis
      by (cases kind) (auto simp: hb data_block_matches_def search_data_ops_def search_data_visit_def)
  qed
qed simp

lemma run_callback_Next:
  assumes "\<And>s h b. \<exists>s'. cb s h b = Inr (s', Next)"
  shows "run_visitor callback_ops
      (Next, \<lparr>cbv_state = s, cbv_initial_decision = Next, cbv_callback = cb\<rparr>) bs
    = Inr (Next, \<lparr>cbv_state = foldl (\<lambda>s (h, b). fst (projr (cb s h b))) s bs,
                  cbv_initial_decision = Next, cbv_callback = cb\<rparr>)"
proof (induction bs arbitrary: s)
  case (Cons hb bs)
  obtain h b where hb: "hb = (h, b)" by (cases hb)
  obtain s' where "cb s h b = Inr (s', Next)" using assms by blast
  with Cons.IH show ?case by (simp add: hb callback_ops_def)
qed simp

section \<open>The found block is the newest one\<close>

text \<open>
  Searching a chain for the latest data block returns the newest block that carries a data
  event, or nothing when there is none, without traversing more than it needs; with
  \<open>last_data_block_with_new_data\<close>, the newest one whose event has data.
\<close>

theorem last_data_block_newest:
  assumes "chain_resolve_ref x c Head = Inr h" and "chain_at (chain_get_block cd c) h bs"
  shows "last_data_block x cd c =
      Some (Inr \<lparr>ssd_kind = NextDataBlock, ssd_hashed_block = first_of (data_block_matches NextDataBlock) bs\<rparr>)
    \<and> last_data_block_with_new_data x cd c =
      Some (Inr \<lparr>ssd_kind = NextFilledNewData,
                 ssd_hashed_block = first_of (data_block_matches NextFilledNewData) bs\<rparr>)"
proof -
  have "accept_one_by_hash cd c search_data_ops h (search_data_new kind) =
      Some (Inr \<lparr>ssd_kind = kind, ssd_hashed_block = first_of (data_block_matches kind) bs\<rparr>)" for kind
    using run_search_data [of kind bs] accept_one_by_hash_chain [OF assms(2), of search_data_ops]
    by (auto simp: search_data_new_def search_data_ops_def)
  then show ?thesis
    by (simp add: last_data_block_def last_data_block_with_new_data_def accept_one_eq [OF assms(1)])
qed

theorem last_data_block_newest_witness:
  "last_data_block demo_externs demo_codec demo3 =
     Some (Inr \<lparr>ssd_kind = NextDataBlock,
       ssd_hashed_block = map_option (Pair (demo_hash 2)) (as_data_stream_block demo_data)\<rparr>)"
proof -
  have "chain_resolve_ref demo_externs demo3 Head = Inr (demo_hash 2)"
    using demo_reads(9) by (simp add: chain_resolve_ref_def current_ref_Inr)
  from last_data_block_newest [OF this demo_chain_at(2)] show ?thesis
    by (simp add: data_block_matches_def as_data_stream_block_def demo_data_def)
qed

text \<open>
  The typed searches (\<open>SearchSetTransformVisitor\<close> and its siblings) return the newest block
  of the requested event type, for every type whose flag selects exactly that variant.
\<close>

theorem search_typed_newest:
  assumes "chain_at (chain_get_block cd c) h bs" and "\<not> flags_is_empty flag"
    and "\<And>e. flags_contains flag (event_flag e) \<longleftrightarrow> variant e \<noteq> None"
  shows "accept_one_by_hash cd c (search_typed_ops variant) h (search_typed_new flag) =
    Some (Inr \<lparr>sst_requested_flag = flag, sst_hashed_block =
      first_of (\<lambda>(k, b). map_option (Pair k) (into_typed variant b)) bs\<rparr>)"
proof -
  from run_search_typed [of flag variant bs] assms(2,3) obtain d where
    "run_visitor (search_typed_ops variant) (NextOfType flag, search_typed_new flag) bs =
      Inr (d, \<lparr>sst_requested_flag = flag, sst_hashed_block =
        first_of (\<lambda>(k, b). map_option (Pair k) (into_typed variant b)) bs\<rparr>)"
    by (auto simp: only_wants_def search_typed_new_def)
  then show ?thesis
    by (intro accept_one_by_hash_chain [OF assms(1)]) (simp_all add: search_typed_ops_def search_typed_new_def)
qed

theorem search_typed_newest_witness:
  "accept_one_by_hash demo_codec demo3 (search_typed_ops as_SetDataSchema) (demo_hash 2)
     (search_typed_new SET_DATA_SCHEMA) =
   Some (Inr \<lparr>sst_requested_flag = SET_DATA_SCHEMA, sst_hashed_block =
     map_option (Pair (demo_hash 1)) (into_typed as_SetDataSchema demo_schema)\<rparr>)"
  by (subst search_typed_newest [OF demo_chain_at(2)])
    (auto simp: flag_simps into_typed_def demo_data_def demo_schema_def)

text \<open>
  Reducing a chain with a callback that always asks for the next block folds it over all
  blocks, newest first.
\<close>

theorem try_reduce_folds_chain:
  assumes "chain_at (chain_get_block cd c) h bs"
  shows "try_reduce_by_hash cd c h s Next (\<lambda>s k b. Inr (f s k b, Next) :: 'e + _) =
    Some (Inr (foldl (\<lambda>s (k, b). f s k b) s bs))"
proof -
  let ?v = "\<lambda>s. \<lparr>cbv_state = s, cbv_initial_decision = Next,
                 cbv_callback = (\<lambda>s k b. Inr (f s k b, Next) :: 'e + _)\<rparr>"
  have "run_visitor callback_ops (Next, ?v s) bs = Inr (Next, ?v (foldl (\<lambda>s (k, b). f s k b) s bs))"
    by (subst run_callback_Next) (auto simp: split_beta)
  then have "accept_list callback_ops False [(Next, ?v s)] bs =
      Inr [(Next, ?v (foldl (\<lambda>s (k, b). f s k b) s bs))]"
    by (simp add: accept_list_ok)
  then show ?thesis
    by (simp add: try_reduce_by_hash_def accept_by_hash_def accept_by_interval_chain [OF assms]
        finish_all_def callback_ops_def)
qed

theorem try_reduce_folds_chain_witness:
  "try_reduce_by_hash demo_codec demo3 (demo_hash 2) 0 Next (\<lambda>n k b. Inr (n + 1, Next) :: string + nat \<times> decision)
     = Some (Inr 3)"
  by (subst try_reduce_folds_chain [OF demo_chain_at(2)]) simp

end
