(* ===== verification/Event_Sourcing.thy ===== *)
theory Event_Sourcing
  imports Prelude
begin

text \<open>
  The event sourcing framework of \<open>src/utils/event-sourcing\<close>: projections that rebuild a state
  from events, aggregates that load, change and save such states, and the in-memory event
  store. The locales \<open>projection\<close> and \<open>event_store\<close> are the two contracts an aggregate relies
  on; under them, what is saved is what is loaded back.
\<close>

section \<open>Projections (projection.rs, projection_event.rs)\<close>

text \<open>
  \<open>ProjectionError\<close> carries the state and the event that was illegal for it. The record holds
  the methods of the traits \<open>Projection\<close> and \<open>ProjectionEvent\<close>.
\<close>

type_synonym ('s, 'e) projection_error = "'s option \<times> 'e"

record ('q, 's, 'e) projection_ops =
  apply_event :: "'s option \<Rightarrow> 'e \<Rightarrow> (('s, 'e) projection_error, 's) res"
  matches_query :: "'e \<Rightarrow> 'q \<Rightarrow> bool"

fun apply_all :: "('q, 's, 'e) projection_ops \<Rightarrow> 's option \<Rightarrow> 'e list \<Rightarrow>
    (('s, 'e) projection_error, 's option) res" where
  "apply_all P s [] = Inr s"
| "apply_all P s (e # es) = and_then (apply_event P s e) (\<lambda>s'. apply_all P (Some s') es)"

lemma apply_all_append:
  "apply_all P s (es @ fs) = and_then (apply_all P s es) (\<lambda>s'. apply_all P s' fs)"
proof (induction es arbitrary: s)
  case (Cons e es)
  then show ?case by (cases "apply_event P s e") simp_all
qed simp

lemma apply_all_Some: "apply_all P s es = Inr r \<Longrightarrow> s \<noteq> None \<or> es \<noteq> [] \<Longrightarrow> r \<noteq> None"
  by (induction es arbitrary: s) (auto simp: res_simps)

section \<open>Event stores (event_store.rs)\<close>

type_synonym event_id = int

record get_events_opts =
  geo_from :: "event_id option"
  geo_to :: "event_id option"

definition all_events :: get_events_opts where
  "all_events = \<lparr>geo_from = None, geo_to = None\<rparr>"

datatype save_events_error = NothingToSave | SaveInternal string

section \<open>The in-memory store (inmem_event_store.rs)\<close>

text \<open>
  \<open>usize::try_from(id.into_inner() + 1).unwrap()\<close> on an \<open>i64\<close>: the sum wraps at the maximum
  (giving a negative number) and negative numbers do not convert. The index of an event
  always converts to an \<open>EventID\<close>, since a vector has fewer than \<open>2\<^sup>6\<^sup>3\<close> elements.
\<close>

definition event_bound :: "event_id \<Rightarrow> ('e, nat) res" where
  "event_bound i =
     (if i + 1 < 0 \<or> i = 2 ^ 63 - 1 then Inl (Panic ''called Result::unwrap() on an Err value'')
      else Inr (nat (i + 1)))"

definition next_event :: "('e \<Rightarrow> bool) \<Rightarrow> nat \<Rightarrow> 'e list \<Rightarrow> (nat \<times> 'e) option" where
  "next_event p seen events = find (\<lambda>(_, e). p e) (drop seen (List.enumerate 0 events))"

lemma drop_enumerate: "drop n (List.enumerate k xs) = List.enumerate (k + n) (drop n xs)"
  by (induction xs arbitrary: n k) (auto simp: drop_Cons split: nat.split)

lemma next_event_bounds: "next_event p seen events = Some (i, e) \<Longrightarrow> seen \<le> i \<and> i < length events"
  by (auto simp: next_event_def drop_enumerate in_set_enumerate_eq dest!: find_mem)

function get_events_loop :: "('e \<Rightarrow> bool) \<Rightarrow> nat \<Rightarrow> 'e list \<Rightarrow> (event_id \<times> 'e) list" where
  "get_events_loop p seen events =
     (case next_event p seen events of
        None \<Rightarrow> []
      | Some (i, e) \<Rightarrow> (int i, e) # get_events_loop p (i + 1) events)"
  by pat_completeness auto
termination
  by (relation "measure (\<lambda>(p, seen, events). length events - seen)")
    (auto dest: next_event_bounds)

declare get_events_loop.simps [simp del]

definition inmem_get_events ::
  "('e \<Rightarrow> 'q \<Rightarrow> bool) \<Rightarrow> 'e list \<Rightarrow> 'q \<Rightarrow> get_events_opts \<Rightarrow> (string, (event_id \<times> 'e) list) res" where
  "inmem_get_events matches events query opts =
     and_then (case geo_from opts of None \<Rightarrow> Inr 0 | Some i \<Rightarrow> event_bound i) (\<lambda>seen.
     and_then (case geo_to opts of None \<Rightarrow> Inr (length events) | Some i \<Rightarrow> event_bound i) (\<lambda>to.
       if to > length events then Inl (Panic ''range end index out of range for slice'')
       else Inr (get_events_loop (\<lambda>e. matches e query) seen (take to events))))"

definition inmem_save_events ::
  "'e list \<Rightarrow> 'e list \<Rightarrow> (save_events_error, event_id \<times> 'e list) res" where
  "inmem_save_events stored events =
     (let stored' = stored @ events
      in if stored' = [] then Inl (Panic ''attempt to subtract with overflow'')
         else Inr (int (length stored') - 1, stored'))"

text \<open>The stream yields the matching events after the lower bound, in order, with their positions.\<close>

lemma find_split:
  "find P xs = Some x \<Longrightarrow> \<exists>us vs. xs = us @ x # vs \<and> (\<forall>u \<in> set us. \<not> P u) \<and> P x"
proof (induction xs)
  case (Cons y ys)
  show ?case
  proof (cases "P y")
    case True
    with Cons.prems have "y # ys = [] @ x # ys \<and> P x" by simp
    then show ?thesis by (metis empty_iff empty_set)
  next
    case False
    with Cons obtain us vs where "ys = us @ x # vs" "\<forall>u \<in> set us. \<not> P u" "P x" by auto
    with False have "y # ys = (y # us) @ x # vs \<and> (\<forall>u \<in> set (y # us). \<not> P u) \<and> P x" by simp
    then show ?thesis by blast
  qed
qed simp

lemma get_events_loop_eq:
  "get_events_loop p seen events =
     map (\<lambda>(i, e). (int i, e)) (filter (\<lambda>(_, e). p e) (drop seen (List.enumerate 0 events)))"
proof (induction p seen events rule: get_events_loop.induct)
  case (1 p seen events)
  show ?case
  proof (cases "next_event p seen events")
    case None
    then have "filter (\<lambda>(_, e). p e) (drop seen (List.enumerate 0 events)) = []"
      by (auto simp: next_event_def find_None filter_empty_conv)
    with None show ?thesis by (simp add: get_events_loop.simps [of p seen])
  next
    case (Some ie)
    obtain i e where [simp]: "ie = (i, e)" by (cases ie)
    with Some have ie: "next_event p seen events = Some (i, e)" by simp
    from find_split [OF this [unfolded next_event_def]] obtain us vs where
      split: "drop seen (List.enumerate 0 events) = us @ (i, e) # vs"
      "\<forall>u \<in> set us. \<not> (\<lambda>(_, e). p e) u" "p e" by auto
    have len: "length us < length (drop seen events)"
      using arg_cong [OF split(1), of length] by simp
    have "(drop seen (List.enumerate 0 events)) ! length us = (i, e)" by (simp add: split(1))
    then have i: "i = seen + length us"
      using len by (simp add: drop_enumerate nth_enumerate_eq)
    have "vs = drop (Suc (length us)) (drop seen (List.enumerate 0 events))" by (simp add: split(1))
    then have "vs = drop (i + 1) (List.enumerate 0 events)" by (simp add: i add.commute)
    moreover have "filter (\<lambda>(_, e). p e) us = []" using split(2) by (simp add: filter_empty_conv)
    ultimately show ?thesis
      using 1 [OF ie refl] ie split(3) by (simp add: get_events_loop.simps [of p seen] split(1))
  qed
qed

section \<open>Aggregates (aggregate.rs)\<close>

record ('q, 's, 'e) aggregate =
  agg_query :: 'q
  agg_state :: "'s option"
  agg_pending_events :: "'e list"
  agg_last_stored_event :: "event_id option"

datatype ('q, 's, 'e) load_error =
    LoadNotFound 'q
  | LoadProjection "('s, 'e) projection_error"
  | LoadInternal string

definition agg_new ::
  "('q, 's, 'e) projection_ops \<Rightarrow> 'q \<Rightarrow> 'e \<Rightarrow> (('s, 'e) projection_error, ('q, 's, 'e) aggregate) res" where
  "agg_new P query genesis =
     and_then (apply_event P None genesis) (\<lambda>s.
       Inr \<lparr>agg_query = query, agg_state = Some s, agg_pending_events = [genesis],
            agg_last_stored_event = None\<rparr>)"

definition agg_from_stored_event ::
  "('q, 's, 'e) projection_ops \<Rightarrow> 'q \<Rightarrow> event_id \<Rightarrow> 'e \<Rightarrow>
   (('s, 'e) projection_error, ('q, 's, 'e) aggregate) res" where
  "agg_from_stored_event P query event_id event =
     and_then (apply_event P None event) (\<lambda>s.
       Inr \<lparr>agg_query = query, agg_state = Some s, agg_pending_events = [],
            agg_last_stored_event = Some event_id\<rparr>)"

definition agg_from_stored_snapshot :: "'q \<Rightarrow> event_id \<Rightarrow> 's \<Rightarrow> ('q, 's, 'e) aggregate" where
  "agg_from_stored_snapshot query event_id state =
     \<lparr>agg_query = query, agg_state = Some state, agg_pending_events = [],
      agg_last_stored_event = Some event_id\<rparr>"

definition agg_has_updates :: "('q, 's, 'e) aggregate \<Rightarrow> bool" where
  "agg_has_updates a \<longleftrightarrow> agg_pending_events a \<noteq> []"

text \<open>The method that the derive macro of \<open>event-sourcing-macros\<close> generates under the same name.\<close>

definition derived_has_updates :: "('q, 's, 'e) aggregate \<Rightarrow> bool" where
  "derived_has_updates a \<longleftrightarrow> \<not> agg_has_updates a"

text \<open>The two readers of the state unwrap it.\<close>

definition agg_into_state :: "('q, 's, 'e) aggregate \<Rightarrow> ('f, 's) res" where
  "agg_into_state a =
     (case agg_state a of
        None \<Rightarrow> Inl (Panic ''called Option::unwrap() on a None value'')
      | Some s \<Rightarrow> Inr s)"

text \<open>
  \<open>apply\<close> returns the aggregate it leaves: on an error the state is restored from the error.
\<close>

definition agg_apply ::
  "('q, 's, 'e) projection_ops \<Rightarrow> ('q, 's, 'e) aggregate \<Rightarrow> 'e \<Rightarrow>
   (('s, 'e) projection_error, unit) res \<times> ('q, 's, 'e) aggregate" where
  "agg_apply P a event =
     (case apply_event P (agg_state a) event of
        Inr s \<Rightarrow> (Inr (), a\<lparr>agg_state := Some s, agg_pending_events := agg_pending_events a @ [event]\<rparr>)
      | Inl (Fail err) \<Rightarrow> (Inl (Fail err), a\<lparr>agg_state := fst err\<rparr>)
      | Inl (Panic m) \<Rightarrow> (Inl (Panic m), a\<lparr>agg_state := None\<rparr>))"

definition agg_apply_stored ::
  "('q, 's, 'e) projection_ops \<Rightarrow> ('q, 's, 'e) aggregate \<Rightarrow> event_id \<times> 'e \<Rightarrow>
   (('s, 'e) projection_error, ('q, 's, 'e) aggregate) res" where
  "agg_apply_stored P a = (\<lambda>(event_id, event).
     if (case agg_last_stored_event a of Some l \<Rightarrow> \<not> l < event_id | None \<Rightarrow> False)
     then Inl (Panic ''Attempting to mutate with event while state is already synced'')
     else and_then (apply_event P (agg_state a) event) (\<lambda>s.
            Inr (a\<lparr>agg_state := Some s, agg_last_stored_event := Some event_id\<rparr>)))"

fun agg_apply_stored_all ::
  "('q, 's, 'e) projection_ops \<Rightarrow> ('q, 's, 'e) aggregate \<Rightarrow> (event_id \<times> 'e) list \<Rightarrow>
   (('s, 'e) projection_error, ('q, 's, 'e) aggregate) res" where
  "agg_apply_stored_all P a [] = Inr a"
| "agg_apply_stored_all P a (ie # ies) =
     and_then (agg_apply_stored P a ie) (\<lambda>a'. agg_apply_stored_all P a' ies)"

text \<open>\<open>load_ext\<close> and \<open>update_ext\<close> on the stream that the store returned.\<close>

definition agg_load ::
  "('q, 's, 'e) projection_ops \<Rightarrow> (string, (event_id \<times> 'e) list) res \<Rightarrow> 'q \<Rightarrow>
   (('q, 's, 'e) load_error, ('q, 's, 'e) aggregate) res" where
  "agg_load P stream query =
     and_then (map_err (map_fault LoadInternal) stream) (\<lambda>events.
       case events of
         [] \<Rightarrow> Inl (Fail (LoadNotFound query))
       | (event_id, event) # rest \<Rightarrow>
           map_err (map_fault LoadProjection)
             (and_then (agg_from_stored_event P query event_id event)
               (\<lambda>a. agg_apply_stored_all P a rest)))"

definition agg_try_load ::
  "('q, 's, 'e) projection_ops \<Rightarrow> (string, (event_id \<times> 'e) list) res \<Rightarrow> 'q \<Rightarrow>
   (('q, 's, 'e) load_error, ('q, 's, 'e) aggregate option) res" where
  "agg_try_load P stream query =
     (case agg_load P stream query of
        Inr a \<Rightarrow> Inr (Some a)
      | Inl (Fail (LoadNotFound _)) \<Rightarrow> Inr None
      | Inl f \<Rightarrow> Inl f)"

definition agg_update ::
  "('q, 's, 'e) projection_ops \<Rightarrow> (string, (event_id \<times> 'e) list) res \<Rightarrow> ('q, 's, 'e) aggregate \<Rightarrow>
   (('q, 's, 'e) load_error, ('q, 's, 'e) aggregate) res" where
  "agg_update P stream a =
     (if agg_has_updates a then Inl (Panic ''assertion failed: !self.has_updates()'')
      else and_then (map_err (map_fault LoadInternal) stream) (\<lambda>events.
             map_err (map_fault LoadProjection) (agg_apply_stored_all P a events)))"

text \<open>
  \<open>save\<close>: the events are taken out of the aggregate before the store is called, so they are gone
  even when saving fails.
\<close>

definition agg_save ::
  "('st \<Rightarrow> 'q \<Rightarrow> 'e list \<Rightarrow> (save_events_error, event_id \<times> 'st) res) \<Rightarrow> 'st \<Rightarrow> ('q, 's, 'e) aggregate \<Rightarrow>
   (save_events_error, unit) res \<times> ('q, 's, 'e) aggregate \<times> 'st" where
  "agg_save save_events st a =
     (if agg_pending_events a = [] then (Inr (), a, st)
      else let a' = a\<lparr>agg_pending_events := []\<rparr>
           in (case save_events st (agg_query a) (agg_pending_events a) of
                 Inl f \<Rightarrow> (Inl f, a', st)
               | Inr (event_id, st') \<Rightarrow> (Inr (), a'\<lparr>agg_last_stored_event := Some event_id\<rparr>, st')))"

section \<open>The contracts\<close>

text \<open>A projection reports an illegal event together with the state it was illegal for.\<close>

locale projection =
  fixes P :: "('q, 's, 'e) projection_ops"
  assumes error_restores: "apply_event P s e = Inl (Fail err) \<Longrightarrow> err = (s, e)"

text \<open>
  A store is an append-only log of events with increasing identifiers. \<open>log\<close> is that log and
  \<open>store_ok\<close> the capacity condition under which reading from an identifier works.
\<close>

locale event_store =
  fixes get_events :: "'st \<Rightarrow> 'q \<Rightarrow> get_events_opts \<Rightarrow> (string, (event_id \<times> 'e) list) res"
    and save_events :: "'st \<Rightarrow> 'q \<Rightarrow> 'e list \<Rightarrow> (save_events_error, event_id \<times> 'st) res"
    and matches :: "'e \<Rightarrow> 'q \<Rightarrow> bool"
    and log :: "'st \<Rightarrow> (event_id \<times> 'e) list"
    and store_ok :: "'st \<Rightarrow> bool"
  assumes log_sorted: "sorted_wrt (<) (map fst (log st))"
    and get_all: "get_events st q all_events = Inr (filter (\<lambda>(_, e). matches e q) (log st))"
    and get_since: "store_ok st \<Longrightarrow> i \<in> fst ` set (log st) \<Longrightarrow>
      get_events st q \<lparr>geo_from = Some i, geo_to = None\<rparr> =
        Inr (filter (\<lambda>(j, e). i < j \<and> matches e q) (log st))"
    and save_appends: "es \<noteq> [] \<Longrightarrow>
      \<exists>ids st'. save_events st q es = Inr (last ids, st') \<and> length ids = length es
        \<and> log st' = log st @ zip ids es"

text \<open>
  An aggregate in step with a log: its state is the fold of the stored events of its query and
  of its own pending ones, and it knows the last identifier it has seen.
\<close>

definition synced :: "('q, 's, 'e) projection_ops \<Rightarrow> (event_id \<times> 'e) list \<Rightarrow> ('q, 's, 'e) aggregate \<Rightarrow> bool" where
  "synced P lg a \<longleftrightarrow>
     (let evs = filter (\<lambda>(_, e). matches_query P e (agg_query a)) lg
      in apply_all P None (map snd evs @ agg_pending_events a) = Inr (agg_state a)
         \<and> agg_last_stored_event a = (if evs = [] then None else Some (fst (last evs)))
         \<and> list_all (\<lambda>e. matches_query P e (agg_query a)) (agg_pending_events a))"

lemma agg_apply_stored_all_eq:
  assumes "sorted_wrt (<) (map fst ies)"
    and "\<forall>l. agg_last_stored_event a = Some l \<longrightarrow> (\<forall>i \<in> fst ` set ies. l < i)"
  shows "agg_apply_stored_all P a ies =
    and_then (apply_all P (agg_state a) (map snd ies)) (\<lambda>s.
      Inr (a\<lparr>agg_state := s, agg_last_stored_event :=
               if ies = [] then agg_last_stored_event a else Some (fst (last ies))\<rparr>))"
  using assms
proof (induction ies arbitrary: a)
  case (Cons ie ies)
  obtain i e where ie: "ie = (i, e)" by (cases ie)
  have step: "agg_apply_stored P a (i, e) = and_then (apply_event P (agg_state a) e) (\<lambda>s.
      Inr (a\<lparr>agg_state := Some s, agg_last_stored_event := Some i\<rparr>))"
    using Cons.prems(2) by (auto simp: agg_apply_stored_def ie split: option.split)
  show ?case
  proof (cases "apply_event P (agg_state a) e")
    case (Inr s)
    with Cons.IH [of "a\<lparr>agg_state := Some s, agg_last_stored_event := Some i\<rparr>"] Cons.prems(1) step
    show ?thesis by (simp add: ie)
  qed (simp add: step ie)
qed simp

lemma sorted_wrt_filter_fst: "sorted_wrt (<) (map fst xs) \<Longrightarrow> sorted_wrt (<) (map fst (filter p xs))"
  by (simp add: sorted_wrt_map sorted_wrt_filter)

lemma filter_matches_zip:
  "length ids = length es \<Longrightarrow> list_all p es \<Longrightarrow> filter (\<lambda>(_, e). p e) (zip ids es) = zip ids es"
  by (induction ids es rule: list_induct2) auto

context event_store begin

lemma load_eq:
  assumes "matches = matches_query P"
  shows "agg_load P (get_events st q all_events) q =
    (let evs = filter (\<lambda>(_, e). matches_query P e q) (log st)
     in if evs = [] then Inl (Fail (LoadNotFound q))
        else map_err (map_fault LoadProjection) (and_then (apply_all P None (map snd evs)) (\<lambda>s.
               Inr \<lparr>agg_query = q, agg_state = s, agg_pending_events = [],
                    agg_last_stored_event = Some (fst (last evs))\<rparr>)))"
proof -
  define evs where "evs = filter (\<lambda>(_, e). matches_query P e q) (log st)"
  have sorted: "sorted_wrt (<) (map fst evs)"
    unfolding evs_def using log_sorted by (rule sorted_wrt_filter_fst)
  show ?thesis
  proof (cases evs)
    case Nil
    then show ?thesis by (simp add: agg_load_def get_all assms evs_def [symmetric])
  next
    case (Cons ie rest)
    obtain i e where [simp]: "ie = (i, e)" by (cases ie)
    have "agg_apply_stored_all P \<lparr>agg_query = q, agg_state = Some s, agg_pending_events = [],
            agg_last_stored_event = Some i\<rparr> rest =
        and_then (apply_all P (Some s) (map snd rest)) (\<lambda>s. Inr \<lparr>agg_query = q, agg_state = s,
          agg_pending_events = [], agg_last_stored_event = Some (fst (last evs))\<rparr>)" for s
      using sorted by (subst agg_apply_stored_all_eq) (auto simp: Cons)
    then show ?thesis
      by (cases "apply_event P None e")
        (simp_all add: agg_load_def get_all assms evs_def [symmetric] Cons agg_from_stored_event_def)
  qed
qed

lemma load_synced:
  assumes "matches = matches_query P"
    and "apply_all P None (map snd (filter (\<lambda>(_, e). matches_query P e q) (log st))) = Inr (Some s)"
  shows "\<exists>a. agg_load P (get_events st q all_events) q = Inr a \<and> agg_query a = q \<and> agg_state a = Some s
    \<and> agg_pending_events a = [] \<and> synced P (log st) a \<and> agg_last_stored_event a \<noteq> None"
proof -
  have "filter (\<lambda>(_, e). matches_query P e q) (log st) \<noteq> []" using assms(2) by (intro notI) simp
  with assms(2) show ?thesis by (simp add: load_eq [OF assms(1)] synced_def Let_def)
qed

lemma load_missing:
  assumes "matches = matches_query P" and "filter (\<lambda>(_, e). matches_query P e q) (log st) = []"
  shows "agg_load P (get_events st q all_events) q = Inl (Fail (LoadNotFound q))"
  using assms(2) by (simp add: load_eq [OF assms(1)])

lemma save_synced:
  assumes "matches = matches_query P" and "synced P (log st) a"
  obtains st' a' where "agg_save save_events st a = (Inr (), a', st')" "synced P (log st') a'"
    "agg_state a' = agg_state a" "agg_pending_events a' = []" "agg_query a' = agg_query a"
proof (cases "agg_pending_events a = []")
  case True
  then show thesis using that [of a st] assms(2) by (simp add: agg_save_def)
next
  case False
  from save_appends [OF this] obtain ids st' where
    save: "save_events st (agg_query a) (agg_pending_events a) = Inr (last ids, st')"
    and len: "length ids = length (agg_pending_events a)"
    and lg: "log st' = log st @ zip ids (agg_pending_events a)" by blast
  have m: "list_all (\<lambda>e. matches_query P e (agg_query a)) (agg_pending_events a)"
    using assms(2) by (simp add: synced_def Let_def)
  have last_id: "fst (last (zip ids (agg_pending_events a))) = last ids"
    using len False by (metis fst_conv last_zip length_0_conv)
  let ?a = "a\<lparr>agg_pending_events := [], agg_last_stored_event := Some (last ids)\<rparr>"
  have nonempty: "zip ids (agg_pending_events a) \<noteq> []" using len False by (cases ids) auto
  have "synced P (log st') ?a"
    using assms(2) len last_id nonempty
    by (simp add: synced_def Let_def lg filter_matches_zip [OF len m] del: zip_eq_Nil_iff)
  then show thesis using that [of ?a st'] save False by (simp add: agg_save_def Let_def)
qed

text \<open>What was saved is what is loaded back.\<close>

lemma save_load:
  assumes "matches = matches_query P" and "synced P (log st) a" and "agg_state a \<noteq> None"
  shows "\<exists>a' st'. agg_save save_events st a = (Inr (), a', st')
    \<and> agg_load P (get_events st' (agg_query a) all_events) (agg_query a) = Inr a'
    \<and> agg_state a' = agg_state a"
  using assms(1,2)
proof (rule save_synced)
  fix st' a'
  assume save: "agg_save save_events st a = (Inr (), a', st')" "synced P (log st') a'"
    "agg_state a' = agg_state a" "agg_pending_events a' = []" "agg_query a' = agg_query a"
  have "filter (\<lambda>(_, e). matches_query P e (agg_query a)) (log st') \<noteq> []"
    using save(2-5) assms(3) by (auto simp: synced_def Let_def)
  with save load_eq [OF assms(1), of st' "agg_query a"] show ?thesis
    by (cases a') (auto simp: synced_def Let_def)
qed

text \<open>A refresh brings an aggregate without pending events in step with what was stored since.\<close>

lemma update_eq:
  assumes "matches = matches_query P" and "synced P lg a" and "agg_pending_events a = []"
    and "agg_last_stored_event a = Some i" and "log st = lg @ new" and "store_ok st"
  shows "agg_update P (get_events st (agg_query a) \<lparr>geo_from = agg_last_stored_event a, geo_to = None\<rparr>) a =
    (let evs = filter (\<lambda>(_, e). matches_query P e (agg_query a)) new
     in map_err (map_fault LoadProjection) (and_then (apply_all P (agg_state a) (map snd evs)) (\<lambda>s.
          Inr (a\<lparr>agg_state := s, agg_last_stored_event :=
                   if evs = [] then agg_last_stored_event a else Some (fst (last evs))\<rparr>))))"
proof -
  let ?m = "\<lambda>(_, e). matches_query P e (agg_query a)"
  from assms(2,4) have old: "filter ?m lg \<noteq> []" "i = fst (last (filter ?m lg))"
    by (auto simp: synced_def Let_def split: if_splits)
  have i: "i \<in> fst ` set (log st)"
    using old last_in_set [OF old(1)] by (auto simp: assms(5))
  have sorted: "sorted_wrt (<) (map fst (lg @ new))" using log_sorted [of st] by (simp add: assms(5))
  then have sorted_lg: "sorted_wrt (<) (map fst (filter ?m lg))"
    and newer: "\<forall>k \<in> fst ` set new. i < k"
    using old last_in_set [OF old(1)] by (auto simp: sorted_wrt_append sorted_wrt_filter_fst)
  from old(1) obtain us u where us: "filter ?m lg = us @ [u]" by (metis rev_exhaust)
  then have "\<forall>(k, e) \<in> set (filter ?m lg). \<not> i < k"
    using sorted_lg old(2) by (auto simp: sorted_wrt_append)
  then have "filter (\<lambda>(j, e). i < j \<and> matches_query P e (agg_query a)) lg = []"
    by (auto simp: filter_empty_conv)
  moreover have "filter (\<lambda>(j, e). i < j \<and> matches_query P e (agg_query a)) new = filter ?m new"
    by (rule filter_cong [OF refl]) (use newer in auto)
  ultimately have stream: "get_events st (agg_query a) \<lparr>geo_from = Some i, geo_to = None\<rparr> = Inr (filter ?m new)"
    using get_since [OF assms(6) i] by (simp add: assms(1,5))
  have "sorted_wrt (<) (map fst (filter ?m new))"
    using sorted by (simp add: sorted_wrt_append sorted_wrt_filter_fst)
  moreover have "\<forall>l. agg_last_stored_event a = Some l \<longrightarrow> (\<forall>k \<in> fst ` set (filter ?m new). l < k)"
    using newer assms(4) by auto
  ultimately show ?thesis
    using stream by (simp add: agg_update_def agg_has_updates_def assms(3,4) agg_apply_stored_all_eq Let_def)
qed

lemma update_succeeds:
  assumes "matches = matches_query P" and "synced P lg a" and "agg_pending_events a = []"
    and "agg_last_stored_event a \<noteq> None" and "log st = lg @ new" and "store_ok st"
    and "apply_all P None (map snd (filter (\<lambda>(_, e). matches_query P e (agg_query a)) (log st))) = Inr s"
  shows "\<exists>a'. agg_update P (get_events st (agg_query a) \<lparr>geo_from = agg_last_stored_event a, geo_to = None\<rparr>) a = Inr a'
    \<and> synced P (log st) a' \<and> agg_pending_events a' = [] \<and> agg_query a' = agg_query a \<and> agg_state a' = s"
proof -
  from assms(4) obtain i where i: "agg_last_stored_event a = Some i" by blast
  have "apply_all P (agg_state a) (map snd (filter (\<lambda>(_, e). matches_query P e (agg_query a)) new)) = Inr s"
    using assms(2,3,7) by (auto simp: synced_def Let_def assms(5) apply_all_append res_simps)
  with update_eq [OF assms(1-3) i assms(5,6)] assms(2,3,7) show ?thesis
    by (auto simp: synced_def Let_def assms(5))
qed

end

context projection begin

lemma apply_synced:
  assumes "synced P lg a" and "matches_query P e (agg_query a)"
    and "agg_apply P a e = (r, a')" and "\<forall>m. r \<noteq> Inl (Panic m)"
  shows "synced P lg a' \<and> (r = Inr () \<longleftrightarrow> agg_pending_events a' = agg_pending_events a @ [e])
    \<and> (r \<noteq> Inr () \<longrightarrow> a' = a)"
proof (cases "apply_event P (agg_state a) e")
  case (Inr s)
  let ?evs = "map snd (filter (\<lambda>(_, e). matches_query P e (agg_query a)) lg)"
  from assms(1) have "apply_all P None (?evs @ agg_pending_events a) = Inr (agg_state a)"
    by (simp add: synced_def Let_def)
  with Inr have "apply_all P None ((?evs @ agg_pending_events a) @ [e]) = Inr (Some s)"
    by (simp only: apply_all_append [of P None "?evs @ agg_pending_events a"]) simp
  then have "apply_all P None (?evs @ agg_pending_events a @ [e]) = Inr (Some s)" by simp
  moreover have "r = Inr ()"
    "a' = a\<lparr>agg_state := Some s, agg_pending_events := agg_pending_events a @ [e]\<rparr>"
    using Inr assms(3) by (simp_all add: agg_apply_def)
  ultimately show ?thesis using assms(1,2) by (simp add: synced_def Let_def)
next
  case (Inl f)
  with assms(3,4) obtain err where "f = Fail err" by (cases f) (auto simp: agg_apply_def)
  with Inl error_restores [of "agg_state a" e err] assms show ?thesis by (auto simp: agg_apply_def)
qed

lemma new_synced:
  assumes "agg_new P q e = Inr a" and "matches_query P e q"
    and "filter (\<lambda>(_, e). matches_query P e q) lg = []"
  shows "synced P lg a \<and> agg_query a = q \<and> agg_state a \<noteq> None"
  using assms by (auto simp: agg_new_def synced_def Let_def res_simps)

end

section \<open>The in-memory store fulfils the contract\<close>

definition indexed :: "'e list \<Rightarrow> (event_id \<times> 'e) list" where
  "indexed events = map (\<lambda>(i, e). (int i, e)) (List.enumerate 0 events)"

lemma indexed_append: "indexed (es @ fs) = indexed es @ map (\<lambda>(i, e). (int i, e)) (List.enumerate (length es) fs)"
  by (simp add: indexed_def enumerate_append_eq)

lemma filter_map_int:
  "filter (\<lambda>(_, e). p e) (map (\<lambda>(i, e). (int i, e)) xs) = map (\<lambda>(i, e). (int i, e)) (filter (\<lambda>(_, e). p e) xs)"
  by (induction xs) auto

lemma sorted_indexed: "sorted_wrt (<) (map fst (indexed events))"
proof -
  have "map fst (indexed events) = map int [0..<length events]"
    by (simp add: indexed_def comp_def split_beta flip: map_map [of int fst, unfolded comp_def])
  then show ?thesis by (simp add: sorted_wrt_map)
qed

lemma indexed_since:
  "filter (\<lambda>(j, e). int k < j \<and> p e) (indexed events) =
     map (\<lambda>(i, e). (int i, e)) (filter (\<lambda>(_, e). p e) (drop (Suc k) (List.enumerate 0 events)))"
proof -
  have "filter (\<lambda>(j, e). k < j \<and> p e) (List.enumerate n es) =
      filter (\<lambda>(_, e). p e) (drop (Suc k - n) (List.enumerate n es))" for n and es :: "'a list"
  proof (induction es arbitrary: n)
    case (Cons e es)
    then show ?case by (cases "k < n") (auto simp: Suc_diff_le)
  qed simp
  from this [of 0 events] have "filter (\<lambda>x. k < fst x \<and> p (snd x)) (List.enumerate 0 events) =
      filter (\<lambda>(_, e). p e) (drop (Suc k) (List.enumerate 0 events))"
    by (simp add: case_prod_unfold)
  then show ?thesis by (simp add: indexed_def filter_map comp_def case_prod_unfold)
qed

interpretation inmem: event_store "inmem_get_events matches" "\<lambda>st q. inmem_save_events st" matches
  indexed "\<lambda>events. length events < 2 ^ 63" for matches :: "'e \<Rightarrow> 'q \<Rightarrow> bool"
proof unfold_locales
  fix st :: "'e list" and q :: 'q and i and es :: "'e list"
  show "sorted_wrt (<) (map fst (indexed st))" by (rule sorted_indexed)
  show "inmem_get_events matches st q all_events = Inr (filter (\<lambda>(_, e). matches e q) (indexed st))"
    by (simp add: inmem_get_events_def all_events_def get_events_loop_eq indexed_def filter_map_int)
  show "inmem_get_events matches st q \<lparr>geo_from = Some i, geo_to = None\<rparr> =
      Inr (filter (\<lambda>(j, e). i < j \<and> matches e q) (indexed st))"
    if "length st < 2 ^ 63" "i \<in> fst ` set (indexed st)"
  proof -
    from that(2) obtain k where k: "i = int k" "k < length st"
      by (auto simp: indexed_def in_set_enumerate_eq)
    with that(1) have "event_bound i = (Inr (Suc k) :: (string, nat) res)"
      by (simp add: event_bound_def nat_add_distrib)
    then show ?thesis
      by (simp add: inmem_get_events_def get_events_loop_eq indexed_since k(1))
  qed
  show "\<exists>ids st'. inmem_save_events st es = Inr (last ids, st') \<and> length ids = length es
      \<and> indexed st' = indexed st @ zip ids es" if "es \<noteq> []"
  proof (intro exI conjI)
    let ?ids = "map int [length st..<length st + length es]"
    show "inmem_save_events st es = Inr (last ?ids, st @ es)"
      using that by (cases es) (simp_all add: inmem_save_events_def last_map)
    show "length ?ids = length es" by simp
    show "indexed (st @ es) = indexed st @ zip ?ids es"
      by (simp add: indexed_append enumerate_eq_zip zip_map1)
  qed
qed

section \<open>The state of a query in a log\<close>

definition log_view :: "('q, 's, 'e) projection_ops \<Rightarrow> 'e list \<Rightarrow> 'q \<Rightarrow> (('s, 'e) projection_error, 's option) res" where
  "log_view P evs q = apply_all P None (filter (\<lambda>e. matches_query P e q) evs)"

lemma indexed_events: "map snd (filter (\<lambda>(_, e). p e) (indexed evs)) = filter p evs"
proof -
  have "map snd (filter (\<lambda>(_, e). p e) (List.enumerate n evs)) = filter p evs" for n
    by (induction evs arbitrary: n) auto
  from this [of 0] show ?thesis by (simp add: indexed_def filter_map comp_def case_prod_unfold)
qed

lemma log_view_Nil [simp]: "log_view P [] q = Inr None"
  by (simp add: log_view_def)

lemma log_view_snoc:
  "log_view P (evs @ [e]) q =
     (if matches_query P e q
      then and_then (log_view P evs q) (\<lambda>s. and_then (apply_event P s e) (\<lambda>s'. Inr (Some s')))
      else log_view P evs q)"
  by (simp add: log_view_def apply_all_append)

lemma log_view_None: "log_view P evs q = Inr None \<longleftrightarrow> (\<forall>e \<in> set evs. \<not> matches_query P e q)"
proof
  assume "log_view P evs q = Inr None"
  then have "filter (\<lambda>e. matches_query P e q) evs = []"
    using apply_all_Some [of P None "filter (\<lambda>e. matches_query P e q) evs"] by (auto simp: log_view_def)
  then show "\<forall>e \<in> set evs. \<not> matches_query P e q" by (auto simp: filter_empty_conv)
qed (simp add: log_view_def)

lemma log_view_append:
  assumes "list_all (\<lambda>e. matches_query P e q) es"
  shows "log_view P (evs @ es) q = and_then (log_view P evs q) (\<lambda>s. apply_all P s es)"
proof -
  have "filter (\<lambda>e. matches_query P e q) es = es" using assms by (simp add: list_all_iff filter_id_conv)
  then show ?thesis by (simp add: log_view_def apply_all_append)
qed

text \<open>An aggregate in step with an indexed log carries the view of its query.\<close>

lemma synced_view:
  assumes "synced P (indexed evs) a"
  shows "and_then (log_view P evs (agg_query a)) (\<lambda>s. apply_all P s (agg_pending_events a)) = Inr (agg_state a)"
  using assms by (simp add: synced_def Let_def log_view_def indexed_events apply_all_append)

end
