(* ===== verification/Task_System.thy ===== *)
theory Task_System
  imports Odf_Metadata Event_Sourcing
begin

text \<open>
  The task system: the task entity and its event-sourced state
  (\<open>domain/task-system/domain/src/entities\<close>, \<open>aggregates/task.rs\<close>), the in-memory task event
  store (\<open>infra/task-system/inmem\<close>), the scheduler with its queue (\<open>task_scheduler_impl.rs\<close>) and
  the executor (\<open>task_executor_impl.rs\<close>). The services a task calls are a parameter; the current
  time is an argument of every operation that reads the clock.
\<close>

section \<open>Entities\<close>

type_synonym task_id = int

datatype pull_result_up_to_date =
    UpToDatePollingIngest bool
  | UpToDatePushIngest bool
  | UpToDateTransform
  | UpToDateSync
  | UpToDateSetWatermark

datatype pull_result =
    PullUpToDate pull_result_up_to_date
  | PullUpdated "multihash option" multihash

datatype task_result =
    TaskResultEmpty
  | UpdateDatasetResult pull_result
  | ResetDatasetResult multihash
  | CompactionDatasetResult compaction_result

datatype task_error =
    TaskErrorEmpty
  | RootDatasetCompacted dataset_id
  | ResetHeadNotFound

datatype task_outcome = TaskSuccess task_result | TaskFailed task_error | TaskCancelledOutcome

fun task_outcome_is_success :: "task_outcome \<Rightarrow> bool" where
  "task_outcome_is_success (TaskSuccess _) = True"
| "task_outcome_is_success _ = False"

datatype task_status = Queued | Running | is_Finished: Finished task_outcome

datatype logical_plan =
    UpdateDataset dataset_id bool
  | Probe "dataset_id option" "duration option" "task_outcome option"
  | HardCompactionDataset dataset_id "u64 option" "u64 option" bool
  | ResetPlan dataset_id "multihash option" "multihash option" bool

fun logical_plan_dataset_id :: "logical_plan \<Rightarrow> dataset_id option" where
  "logical_plan_dataset_id (UpdateDataset d _) = Some d"
| "logical_plan_dataset_id (Probe d _ _) = d"
| "logical_plan_dataset_id (HardCompactionDataset d _ _ _) = Some d"
| "logical_plan_dataset_id (ResetPlan d _ _ _) = Some d"

datatype task_event =
    is_TaskCreated: TaskCreated (task_event_time: datetime) (task_event_id: task_id) logical_plan
  | TaskRunning (task_event_time: datetime) (task_event_id: task_id)
  | TaskCancelled (task_event_time: datetime) (task_event_id: task_id)
  | TaskFinished (task_event_time: datetime) (task_event_id: task_id) task_outcome

record task_state =
  ts_task_id :: task_id
  ts_status :: task_status
  ts_cancellation_requested :: bool
  ts_logical_plan :: logical_plan
  ts_created_at :: datetime
  ts_ran_at :: "datetime option"
  ts_cancellation_requested_at :: "datetime option"
  ts_finished_at :: "datetime option"

section \<open>Projection (task_state.rs)\<close>

fun task_apply :: "task_state option \<Rightarrow> task_event \<Rightarrow>
    ((task_state, task_event) projection_error, task_state) res" where
  "task_apply None (TaskCreated time tid plan) =
     Inr \<lparr>ts_task_id = tid, ts_status = Queued, ts_cancellation_requested = False,
          ts_logical_plan = plan, ts_created_at = time, ts_ran_at = None,
          ts_cancellation_requested_at = None, ts_finished_at = None\<rparr>"
| "task_apply None ev = Inl (Fail (None, ev))"
| "task_apply (Some s) ev =
     (if ts_task_id s \<noteq> task_event_id ev
      then Inl (Panic ''assertion failed: s.task_id == event.task_id()'')
      else case ev of
             TaskRunning time _ \<Rightarrow>
               if ts_status s = Queued
               then Inr (s\<lparr>ts_status := Running, ts_ran_at := Some time\<rparr>)
               else Inl (Fail (Some s, ev))
           | TaskCancelled time _ \<Rightarrow>
               if ts_status s = Queued \<or> ts_status s = Running \<and> \<not> ts_cancellation_requested s
               then Inr (s\<lparr>ts_cancellation_requested := True, ts_cancellation_requested_at := Some time\<rparr>)
               else Inl (Fail (Some s, ev))
           | TaskFinished time _ outcome \<Rightarrow>
               if ts_status s = Queued \<or> ts_status s = Running
               then Inr (s\<lparr>ts_status := Finished outcome, ts_finished_at := Some time\<rparr>)
               else Inl (Fail (Some s, ev))
           | TaskCreated _ _ _ \<Rightarrow> Inl (Fail (Some s, ev)))"

definition task_matches :: "task_event \<Rightarrow> task_id \<Rightarrow> bool" where
  "task_matches e q \<longleftrightarrow> task_event_id e = q"

definition task_proj :: "(task_id, task_state, task_event) projection_ops" where
  "task_proj = \<lparr>apply_event = task_apply, matches_query = task_matches\<rparr>"

type_synonym task = "(task_id, task_state, task_event) aggregate"
type_synonym task_projection_error = "(task_state, task_event) projection_error"

section \<open>The aggregate (task.rs)\<close>

text \<open>Reading the state dereferences the aggregate, which unwraps it.\<close>

definition with_state ::
  "('q, 's, 'e) aggregate \<Rightarrow> ('s \<Rightarrow> ('f, 'a) res \<times> ('q, 's, 'e) aggregate) \<Rightarrow> ('f, 'a) res \<times> ('q, 's, 'e) aggregate" where
  "with_state a f =
     (case agg_into_state a of
        Inl p \<Rightarrow> (Inl p, a)
      | Inr s \<Rightarrow> f s)"

definition task_new :: "datetime \<Rightarrow> task_id \<Rightarrow> logical_plan \<Rightarrow> (task_projection_error, task) res" where
  "task_new now tid plan =
     (case agg_new task_proj tid (TaskCreated now tid plan) of
        Inr t \<Rightarrow> Inr t
      | Inl _ \<Rightarrow> Inl (Panic ''called Result::unwrap() on an Err value''))"

definition task_run :: "datetime \<Rightarrow> task \<Rightarrow> (task_projection_error, unit) res \<times> task" where
  "task_run now t = with_state t (\<lambda>s. agg_apply task_proj t (TaskRunning now (ts_task_id s)))"

definition task_can_cancel :: "task_state \<Rightarrow> bool" where
  "task_can_cancel s \<longleftrightarrow> (ts_status s = Queued \<or> ts_status s = Running) \<and> \<not> ts_cancellation_requested s"

definition task_cancel :: "datetime \<Rightarrow> task \<Rightarrow> (task_projection_error, unit) res \<times> task" where
  "task_cancel now t =
     with_state t (\<lambda>s.
       if ts_cancellation_requested s then (Inr (), t)
       else agg_apply task_proj t (TaskCancelled now (ts_task_id s)))"

definition task_finish :: "datetime \<Rightarrow> task_outcome \<Rightarrow> task \<Rightarrow> (task_projection_error, unit) res \<times> task" where
  "task_finish now outcome t =
     with_state t (\<lambda>s. agg_apply task_proj t (TaskFinished now (ts_task_id s) outcome))"

section \<open>The in-memory event store (inmem_task_system_event_store.rs)\<close>

record task_store =
  tst_events :: "task_event list"
  tst_tasks_by_dataset :: "dataset_id \<rightharpoonup> task_id list"
  tst_last_task_id :: "task_id option"

definition empty_task_store :: task_store where
  "empty_task_store = \<lparr>tst_events = [], tst_tasks_by_dataset = Map.empty, tst_last_task_id = None\<rparr>"

definition new_task_id :: "task_store \<Rightarrow> task_id \<times> task_store" where
  "new_task_id st =
     (let tid = (case tst_last_task_id st of Some l \<Rightarrow> wrap_i64 (l + 1) | None \<Rightarrow> 0)
      in (tid, st\<lparr>tst_last_task_id := Some tid\<rparr>))"

definition update_index_by_dataset ::
  "(dataset_id \<rightharpoonup> task_id list) \<Rightarrow> task_event \<Rightarrow> (dataset_id \<rightharpoonup> task_id list)" where
  "update_index_by_dataset index ev =
     (case ev of
        TaskCreated _ tid plan \<Rightarrow>
          (case logical_plan_dataset_id plan of
             Some d \<Rightarrow>
               index(d \<mapsto> (case index d of Some entries \<Rightarrow> entries | None \<Rightarrow> []) @ [tid])
           | None \<Rightarrow> index)
      | _ \<Rightarrow> index)"

definition task_store_get_events ::
  "task_store \<Rightarrow> task_id \<Rightarrow> get_events_opts \<Rightarrow> (string, (event_id \<times> task_event) list) res" where
  "task_store_get_events st tid opts = inmem_get_events task_matches (tst_events st) tid opts"

definition task_store_save_events ::
  "task_store \<Rightarrow> task_id \<Rightarrow> task_event list \<Rightarrow> (save_events_error, event_id \<times> task_store) res" where
  "task_store_save_events st tid events =
     (if events = [] then Inl (Fail NothingToSave)
      else let st' = st\<lparr>tst_tasks_by_dataset :=
                          foldl update_index_by_dataset (tst_tasks_by_dataset st) events\<rparr>
           in and_then (inmem_save_events (tst_events st') events)
                (\<lambda>(eid, evs). Inr (eid, st'\<lparr>tst_events := evs\<rparr>)))"

definition get_tasks_by_dataset :: "task_store \<Rightarrow> dataset_id \<Rightarrow> nat \<Rightarrow> nat \<Rightarrow> task_id list" where
  "get_tasks_by_dataset st d offset limit =
     (case tst_tasks_by_dataset st d of
        Some ids \<Rightarrow> take limit (drop offset (rev ids))
      | None \<Rightarrow> [])"

definition get_count_tasks_by_dataset :: "task_store \<Rightarrow> dataset_id \<Rightarrow> nat" where
  "get_count_tasks_by_dataset st d =
     (case tst_tasks_by_dataset st d of Some ids \<Rightarrow> length ids | None \<Rightarrow> 0)"

definition task_load :: "task_store \<Rightarrow> task_id \<Rightarrow> ((task_id, task_state, task_event) load_error, task) res" where
  "task_load st tid = agg_load task_proj (task_store_get_events st tid all_events) tid"

definition task_save :: "task_store \<Rightarrow> task \<Rightarrow> (save_events_error, unit) res \<times> task \<times> task_store" where
  "task_save st t = agg_save task_store_save_events st t"

section \<open>The scheduler (task_scheduler_impl.rs)\<close>

record scheduler =
  sch_store :: task_store
  sch_task_queue :: "task_id list"

definition empty_scheduler :: scheduler where
  "empty_scheduler = \<lparr>sch_store = empty_task_store, sch_task_queue = []\<rparr>"

datatype scheduler_error = TaskNotFound task_id | SchedulerInternal string

fun scheduler_error_of_load :: "(task_id, 's, 'e) load_error \<Rightarrow> scheduler_error" where
  "scheduler_error_of_load (LoadNotFound q) = TaskNotFound q"
| "scheduler_error_of_load (LoadProjection _) = SchedulerInternal ''projection''"
| "scheduler_error_of_load (LoadInternal m) = SchedulerInternal m"

definition internal_fault :: "'e fault \<Rightarrow> scheduler_error fault" where
  "internal_fault = map_fault (\<lambda>_. SchedulerInternal ''internal'')"

text \<open>Save a changed task, or report the failed command.\<close>

definition save_command ::
  "scheduler \<Rightarrow> (task_projection_error, unit) res \<times> task \<Rightarrow> (scheduler_error, task) res \<times> scheduler" where
  "save_command sch = (\<lambda>(r, t).
     case r of
       Inl f \<Rightarrow> (Inl (internal_fault f), sch)
     | Inr _ \<Rightarrow>
         (case task_save (sch_store sch) t of
            (Inl f, t', st') \<Rightarrow> (Inl (internal_fault f), sch\<lparr>sch_store := st'\<rparr>)
          | (Inr _, t', st') \<Rightarrow> (Inr t', sch\<lparr>sch_store := st'\<rparr>)))"

definition create_task ::
  "datetime \<Rightarrow> logical_plan \<Rightarrow> scheduler \<Rightarrow> (scheduler_error, task_state) res \<times> scheduler" where
  "create_task now plan sch =
     (let (tid, st) = new_task_id (sch_store sch);
          sch1 = sch\<lparr>sch_store := st\<rparr>
      in case task_new now tid plan of
           Inl f \<Rightarrow> (Inl (internal_fault f), sch1)
         | Inr t \<Rightarrow>
             (case save_command sch1 (Inr (), t) of
                (Inl f, sch2) \<Rightarrow> (Inl f, sch2)
              | (Inr t', sch2) \<Rightarrow>
                  (agg_into_state t', sch2\<lparr>sch_task_queue := sch_task_queue sch2 @ [tid]\<rparr>)))"

definition get_task :: "scheduler \<Rightarrow> task_id \<Rightarrow> (scheduler_error, task_state) res" where
  "get_task sch tid =
     and_then (map_err (map_fault scheduler_error_of_load) (task_load (sch_store sch) tid))
       agg_into_state"

definition cancel_task ::
  "datetime \<Rightarrow> task_id \<Rightarrow> scheduler \<Rightarrow> (scheduler_error, task_state) res \<times> scheduler" where
  "cancel_task now tid sch =
     (case map_err (map_fault scheduler_error_of_load) (task_load (sch_store sch) tid) of
        Inl f \<Rightarrow> (Inl f, sch)
      | Inr t \<Rightarrow>
          (case agg_into_state t of
             Inl f \<Rightarrow> (Inl f, sch)
           | Inr s \<Rightarrow>
               if task_can_cancel s then
                 (case save_command sch (task_cancel now t) of
                    (Inl f, sch') \<Rightarrow> (Inl f, sch')
                  | (Inr t', sch') \<Rightarrow>
                      (agg_into_state t',
                       sch'\<lparr>sch_task_queue := filter (\<lambda>q. q \<noteq> tid) (sch_task_queue sch')\<rparr>))
               else (Inr s, sch)))"

definition try_take :: "datetime \<Rightarrow> scheduler \<Rightarrow> (scheduler_error, task_id option) res \<times> scheduler" where
  "try_take now sch =
     (case sch_task_queue sch of
        [] \<Rightarrow> (Inr None, sch)
      | tid # rest \<Rightarrow>
          let sch1 = sch\<lparr>sch_task_queue := rest\<rparr>
          in (case task_load (sch_store sch1) tid of
                Inl f \<Rightarrow> (Inl (internal_fault f), sch1)
              | Inr t \<Rightarrow>
                  (case save_command sch1 (task_run now t) of
                     (Inl f, sch2) \<Rightarrow> (Inl f, sch2)
                   | (Inr t', sch2) \<Rightarrow> (Inr (Some tid), sch2))))"

text \<open>The stream of a listing ends after the first task that does not load.\<close>

fun load_tasks :: "task_store \<Rightarrow> task_id list \<Rightarrow> (scheduler_error, task_state) res list" where
  "load_tasks st [] = []"
| "load_tasks st (tid # tids) =
     (case task_load st tid of
        Inl f \<Rightarrow> [Inl (internal_fault f)]
      | Inr t \<Rightarrow> agg_into_state t # load_tasks st tids)"

definition list_tasks_by_dataset ::
  "scheduler \<Rightarrow> dataset_id \<Rightarrow> nat \<Rightarrow> nat \<Rightarrow> (scheduler_error, task_state) res list \<times> nat" where
  "list_tasks_by_dataset sch d offset limit =
     (load_tasks (sch_store sch) (get_tasks_by_dataset (sch_store sch) d offset limit),
      get_count_tasks_by_dataset (sch_store sch) d)"

section \<open>The executor (task_executor_impl.rs)\<close>

datatype task_progress_message =
    ProgressRunning datetime task_id
  | ProgressFinished datetime task_id task_outcome

text \<open>
  The services are parameters: what they return, an internal error included. A pull fails
  either because the input interval of a transformation is no longer there, or otherwise.
\<close>

datatype pull_failure = PullInvalidInterval | PullOther
datatype reset_failure = ResetBlockNotFound | ResetOther

record dataset_env_var =
  dev_key :: string
  dev_value :: "8 word list"
  dev_secret_nonce :: "8 word list option"

record ('handle, 'failure) task_services =
  svc_env_vars :: "dataset_id \<Rightarrow> (string, dataset_env_var list) res"
  svc_pull :: "dataset_id \<Rightarrow> (string \<rightharpoonup> dataset_env_var) \<Rightarrow> bool \<Rightarrow> pull_failure + pull_result"
  svc_resolve :: "dataset_id \<Rightarrow> (string, 'handle) res"
  svc_reset :: "'handle \<Rightarrow> multihash option \<Rightarrow> multihash option \<Rightarrow> reset_failure + multihash"
  svc_compact :: "'handle \<Rightarrow> u64 option \<Rightarrow> u64 option \<Rightarrow> bool \<Rightarrow> 'failure + compaction_result"

text \<open>A later variable with the same key replaces an earlier one.\<close>

definition env_var_map :: "dataset_env_var list \<Rightarrow> string \<rightharpoonup> dataset_env_var" where
  "env_var_map vars = foldl (\<lambda>m v. m(dev_key v \<mapsto> v)) Map.empty vars"

definition update_dataset_logical_plan ::
  "('h, 'f) task_services \<Rightarrow> dataset_id \<Rightarrow> bool \<Rightarrow> (string, task_outcome) res" where
  "update_dataset_logical_plan svc d fetch_uncacheable =
     and_then (svc_env_vars svc d) (\<lambda>vars.
       Inr (case svc_pull svc d (env_var_map vars) fetch_uncacheable of
              Inr pull_result \<Rightarrow> TaskSuccess (UpdateDatasetResult pull_result)
            | Inl PullInvalidInterval \<Rightarrow> TaskFailed (RootDatasetCompacted d)
            | Inl PullOther \<Rightarrow> TaskFailed TaskErrorEmpty))"

definition reset_dataset_logical_plan ::
  "('h, 'f) task_services \<Rightarrow> dataset_id \<Rightarrow> multihash option \<Rightarrow> multihash option \<Rightarrow> (string, task_outcome) res" where
  "reset_dataset_logical_plan svc d new_head old_head =
     and_then (svc_resolve svc d) (\<lambda>handle.
       Inr (case svc_reset svc handle new_head old_head of
              Inr head \<Rightarrow> TaskSuccess (ResetDatasetResult head)
            | Inl ResetBlockNotFound \<Rightarrow> TaskFailed ResetHeadNotFound
            | Inl ResetOther \<Rightarrow> TaskFailed TaskErrorEmpty))"

definition hard_compaction_logical_plan ::
  "('h, 'f) task_services \<Rightarrow> dataset_id \<Rightarrow> u64 option \<Rightarrow> u64 option \<Rightarrow> bool \<Rightarrow> (string, task_outcome) res" where
  "hard_compaction_logical_plan svc d max_slice_size max_slice_records keep_metadata_only =
     and_then (svc_resolve svc d) (\<lambda>handle.
       Inr (case svc_compact svc handle max_slice_size max_slice_records keep_metadata_only of
              Inr result \<Rightarrow> TaskSuccess (CompactionDatasetResult result)
            | Inl _ \<Rightarrow> TaskFailed TaskErrorEmpty))"

fun execute_task :: "('h, 'f) task_services \<Rightarrow> logical_plan \<Rightarrow> (string, task_outcome) res" where
  "execute_task svc (UpdateDataset d fetch_uncacheable) =
     update_dataset_logical_plan svc d fetch_uncacheable"
| "execute_task svc (Probe _ _ end_with_outcome) =
     Inr (case end_with_outcome of Some out \<Rightarrow> out | None \<Rightarrow> TaskSuccess TaskResultEmpty)"
| "execute_task svc (ResetPlan d new_head old_head _) =
     reset_dataset_logical_plan svc d new_head old_head"
| "execute_task svc (HardCompactionDataset d max_slice_size max_slice_records keep_metadata_only) =
     hard_compaction_logical_plan svc d max_slice_size max_slice_records keep_metadata_only"

record executor =
  ex_scheduler :: scheduler
  ex_messages :: "task_progress_message list"

text \<open>
  One iteration of the waiting loop of \<open>take\<close>: nothing when the queue is empty, otherwise the
  first task is handed over, loaded, and announced as running.
\<close>

definition take_task :: "datetime \<Rightarrow> datetime \<Rightarrow> executor \<Rightarrow> (scheduler_error, task option) res \<times> executor" where
  "take_task now now' ex =
     (case try_take now (ex_scheduler ex) of
        (Inl f, sch) \<Rightarrow> (Inl f, ex\<lparr>ex_scheduler := sch\<rparr>)
      | (Inr None, sch) \<Rightarrow> (Inr None, ex\<lparr>ex_scheduler := sch\<rparr>)
      | (Inr (Some tid), sch) \<Rightarrow>
          (case task_load (sch_store sch) tid of
             Inl f \<Rightarrow> (Inl (internal_fault f), ex\<lparr>ex_scheduler := sch\<rparr>)
           | Inr t \<Rightarrow>
               (Inr (Some t),
                ex\<lparr>ex_scheduler := sch, ex_messages := ex_messages ex @ [ProgressRunning now' tid]\<rparr>)))"

definition process_task_outcome ::
  "datetime \<Rightarrow> datetime \<Rightarrow> task \<Rightarrow> task_outcome \<Rightarrow> executor \<Rightarrow> (scheduler_error, unit) res \<times> executor" where
  "process_task_outcome now now' t outcome ex =
     (let sch = ex_scheduler ex
      in case agg_update task_proj
               (task_store_get_events (sch_store sch) (agg_query t)
                  \<lparr>geo_from = agg_last_stored_event t, geo_to = None\<rparr>) t of
           Inl f \<Rightarrow> (Inl (internal_fault f), ex)
         | Inr t1 \<Rightarrow>
             (case save_command sch (task_finish now outcome t1) of
                (Inl f, sch') \<Rightarrow> (Inl f, ex\<lparr>ex_scheduler := sch'\<rparr>)
              | (Inr t2, sch') \<Rightarrow>
                  (case agg_into_state t2 of
                     Inl f \<Rightarrow> (Inl f, ex\<lparr>ex_scheduler := sch'\<rparr>)
                   | Inr s \<Rightarrow>
                       (Inr (),
                        ex\<lparr>ex_scheduler := sch',
                           ex_messages := ex_messages ex @ [ProgressFinished now' (ts_task_id s) outcome]\<rparr>))))"

text \<open>One round of \<open>run\<close> for a task that was taken: \<open>?\<close> ends the loop on an internal error.\<close>

definition run_taken ::
  "('h, 'f) task_services \<Rightarrow> datetime \<Rightarrow> datetime \<Rightarrow> task \<Rightarrow> executor \<Rightarrow> (scheduler_error, unit) res \<times> executor" where
  "run_taken svc now now' t ex =
     (case and_then (agg_into_state t) (\<lambda>s. execute_task svc (ts_logical_plan s)) of
        Inl f \<Rightarrow> (Inl (internal_fault f), ex)
      | Inr outcome \<Rightarrow> process_task_outcome now now' t outcome ex)"

section \<open>The contracts hold\<close>

lemma agg_into_state_simps [simp]:
  "agg_state a = Some s \<Longrightarrow> agg_into_state a = Inr s"
  "agg_into_state a = Inr s \<longleftrightarrow> agg_state a = Some s"
  by (auto simp: agg_into_state_def split: option.splits)

lemma task_proj_simps [simp]:
  "apply_event task_proj = task_apply" "matches_query task_proj = task_matches"
  by (simp_all add: task_proj_def)

interpretation task_projection: projection task_proj
proof unfold_locales
  fix s e err
  assume "apply_event task_proj s e = Inl (Fail err)"
  then show "err = (s, e)"
    by (cases "(s, e)" rule: task_apply.cases) (auto split: task_event.splits if_splits)
qed

interpretation task_log: event_store task_store_get_events task_store_save_events task_matches
  "\<lambda>st. indexed (tst_events st)" "\<lambda>st. length (tst_events st) < 2 ^ 63"
proof unfold_locales
  fix st :: task_store and q i es
  show "sorted_wrt (<) (map fst (indexed (tst_events st)))" by (rule inmem.log_sorted)
  show "task_store_get_events st q all_events =
      Inr (filter (\<lambda>(_, e). task_matches e q) (indexed (tst_events st)))"
    by (simp add: task_store_get_events_def inmem.get_all)
  show "task_store_get_events st q \<lparr>geo_from = Some i, geo_to = None\<rparr> =
      Inr (filter (\<lambda>(j, e). i < j \<and> task_matches e q) (indexed (tst_events st)))"
    if "length (tst_events st) < 2 ^ 63" "i \<in> fst ` set (indexed (tst_events st))"
    using that by (simp add: task_store_get_events_def inmem.get_since)
  show "\<exists>ids st'. task_store_save_events st q es = Inr (last ids, st') \<and> length ids = length es
      \<and> indexed (tst_events st') = indexed (tst_events st) @ zip ids es" if "es \<noteq> []"
  proof -
    from inmem.save_appends [OF that, of "tst_events st"] obtain ids evs where
      "inmem_save_events (tst_events st) es = Inr (last ids, evs)" "length ids = length es"
      "indexed evs = indexed (tst_events st) @ zip ids es" by blast
    with that show ?thesis by (simp add: task_store_save_events_def Let_def) blast
  qed
qed

end
