(* ===== verification/Task_Properties.thy ===== *)
theory Task_Properties
  imports Task_System
begin

text \<open>
  Correctness of the task system. The state of a task is a fold of its events, so every
  operation is characterised by the one event it appends; the invariant of the scheduler and
  the executor is preserved by every interleaving of task creation, cancellation, execution
  and completion.
\<close>

section \<open>The state of a task as a fold\<close>

definition task_view :: "task_event list \<Rightarrow> task_id \<Rightarrow> (task_projection_error, task_state option) res" where
  "task_view evs tid = apply_all task_proj None (filter (\<lambda>e. task_matches e tid) evs)"

lemma task_view_Nil [simp]: "task_view [] tid = Inr None"
  by (simp add: task_view_def)

lemma task_view_append:
  "task_view (evs @ [e]) tid =
     (if task_event_id e = tid
      then and_then (task_view evs tid) (\<lambda>s. and_then (task_apply s e) (\<lambda>s'. Inr (Some s')))
      else task_view evs tid)"
  by (simp add: task_view_def task_matches_def apply_all_append)

lemma task_view_fresh: "\<forall>e \<in> set evs. task_event_id e \<noteq> tid \<Longrightarrow> task_view evs tid = Inr None"
  by (simp add: task_view_def task_matches_def filter_False)

lemma task_view_None: "task_view evs tid = Inr None \<longleftrightarrow> (\<forall>e \<in> set evs. task_event_id e \<noteq> tid)"
proof
  assume "task_view evs tid = Inr None"
  then have "filter (\<lambda>e. task_matches e tid) evs = []"
    using apply_all_Some [of task_proj None "filter (\<lambda>e. task_matches e tid) evs"]
    by (auto simp: task_view_def)
  then show "\<forall>e \<in> set evs. task_event_id e \<noteq> tid" by (auto simp: filter_empty_conv task_matches_def)
qed (rule task_view_fresh)

lemma task_load_eq:
  assumes "task_view (tst_events st) tid = Inr (Some s)"
  shows "\<exists>t. task_load st tid = Inr t \<and> agg_query t = tid \<and> agg_state t = Some s
    \<and> agg_pending_events t = [] \<and> synced task_proj (indexed (tst_events st)) t
    \<and> agg_last_stored_event t \<noteq> None"
  using task_log.load_synced [of task_proj tid st s] assms
  by (simp add: task_load_def task_view_def indexed_events)

lemma task_load_None:
  assumes "task_view (tst_events st) tid = Inr None"
  shows "task_load st tid = Inl (Fail (LoadNotFound tid))"
proof -
  have "filter (\<lambda>e. task_matches e tid) (tst_events st) = []"
    using assms by (auto simp: task_view_None filter_empty_conv task_matches_def)
  then have "filter (\<lambda>(_, e). task_matches e tid) (indexed (tst_events st)) = []"
    using indexed_events [of "\<lambda>e. task_matches e tid" "tst_events st"] by simp
  then show ?thesis using task_log.load_missing [of task_proj tid st] by (simp add: task_load_def)
qed

section \<open>What a command appends\<close>

definition add_task_event :: "task_event \<Rightarrow> task_store \<Rightarrow> task_store" where
  "add_task_event e st =
     st\<lparr>tst_events := tst_events st @ [e],
        tst_tasks_by_dataset := update_index_by_dataset (tst_tasks_by_dataset st) e\<rparr>"

lemma add_task_event_simps [simp]:
  "tst_events (add_task_event e st) = tst_events st @ [e]"
  "tst_last_task_id (add_task_event e st) = tst_last_task_id st"
  by (simp_all add: add_task_event_def)

lemma save_one:
  assumes "agg_pending_events t = [e]"
  shows "\<exists>t'. save_command sch (Inr (), t) = (Inr t', sch\<lparr>sch_store := add_task_event e (sch_store sch)\<rparr>)
    \<and> agg_state t' = agg_state t"
  using assms
  by (simp add: save_command_def task_save_def agg_save_def task_store_save_events_def
      inmem_save_events_def add_task_event_def Let_def)

text \<open>A command that the projection accepts.\<close>

lemma apply_one:
  assumes "agg_state t = Some s" and "agg_pending_events t = []" and "task_apply (Some s) e = Inr s'"
  shows "\<exists>t'. agg_apply task_proj t e = (Inr (), t') \<and> agg_pending_events t' = [e] \<and> agg_state t' = Some s'
    \<and> agg_query t' = agg_query t"
  using assms by (simp add: agg_apply_def)

section \<open>Life cycle\<close>

definition task_wf :: "task_state \<Rightarrow> bool" where
  "task_wf s \<longleftrightarrow>
     (ts_cancellation_requested s \<longleftrightarrow> ts_cancellation_requested_at s \<noteq> None)
     \<and> (is_Finished (ts_status s) \<longleftrightarrow> ts_finished_at s \<noteq> None)
     \<and> (ts_status s = Queued \<longrightarrow> ts_ran_at s = None)
     \<and> (ts_status s = Running \<longrightarrow> ts_ran_at s \<noteq> None)"

lemma task_apply_wf:
  assumes "task_apply s e = Inr s'" and "\<forall>r. s = Some r \<longrightarrow> task_wf r"
  shows "task_wf s'"
  using assms
  by (cases "(s, e)" rule: task_apply.cases)
    (auto simp: task_wf_def split: task_event.splits if_splits)

lemma task_apply_id: "task_apply s e = Inr s' \<Longrightarrow> ts_task_id s' = task_event_id e"
  by (cases "(s, e)" rule: task_apply.cases) (auto split: task_event.splits if_splits)

text \<open>The order of the status: queued, running, finished.\<close>

fun status_rank :: "task_status \<Rightarrow> nat" where
  "status_rank Queued = 0"
| "status_rank Running = 1"
| "status_rank (Finished _) = 2"

lemma task_apply_rank:
  "task_apply (Some s) e = Inr s' \<Longrightarrow>
     status_rank (ts_status s) \<le> status_rank (ts_status s') \<and> \<not> is_Finished (ts_status s)"
  by (cases "ts_status s") (auto split: task_event.splits if_splits)

lemma apply_all_wf:
  "apply_all task_proj s es = Inr (Some r) \<Longrightarrow> (\<forall>q. s = Some q \<longrightarrow> task_wf q) \<Longrightarrow> task_wf r"
proof (induction es arbitrary: s)
  case (Cons e es)
  then obtain q where q: "task_apply s e = Inr q" "apply_all task_proj (Some q) es = Inr (Some r)"
    by (auto simp: res_simps)
  then show ?case using Cons.IH [OF q(2)] task_apply_wf [OF q(1) Cons.prems(2)] by simp
qed simp

section \<open>The invariant\<close>

definition sched_inv :: "scheduler \<Rightarrow> bool" where
  "sched_inv sch \<longleftrightarrow>
     (let evs = tst_events (sch_store sch); last_id = tst_last_task_id (sch_store sch)
      in (\<forall>tid. task_view evs tid = Inr None \<or>
                (\<exists>s. task_view evs tid = Inr (Some s) \<and> ts_task_id s = tid \<and> task_wf s))
         \<and> distinct (sch_task_queue sch)
         \<and> (\<forall>tid \<in> set (sch_task_queue sch). \<exists>s. task_view evs tid = Inr (Some s)
              \<and> ts_status s = Queued \<and> \<not> ts_cancellation_requested s)
         \<and> (\<forall>e \<in> set evs. \<exists>l. last_id = Some l \<and> 0 \<le> task_event_id e \<and> task_event_id e \<le> l)
         \<and> (\<forall>l. last_id = Some l \<longrightarrow> 0 \<le> l \<and> l < int (length evs)))"

definition has_capacity :: "scheduler \<Rightarrow> bool" where
  "has_capacity sch \<longleftrightarrow> length (tst_events (sch_store sch)) < 2 ^ 63 - 1"

lemma sched_inv_empty: "sched_inv empty_scheduler"
  by (simp add: sched_inv_def empty_scheduler_def empty_task_store_def)

text \<open>Appending an accepted event of one task.\<close>

lemma sched_inv_event:
  assumes "sched_inv sch" and "task_view (tst_events (sch_store sch)) tid = Inr (Some s)"
    and "task_apply (Some s) e = Inr s'" and "task_event_id e = tid"
    and "set queue \<subseteq> set (sch_task_queue sch)" and "distinct queue" and "tid \<notin> set queue"
  shows "sched_inv (sch\<lparr>sch_store := add_task_event e (sch_store sch), sch_task_queue := queue\<rparr>)"
proof -
  let ?evs = "tst_events (sch_store sch)"
  have view: "task_view (?evs @ [e]) k = (if k = tid then Inr (Some s') else task_view ?evs k)" for k
    using assms(2,3,4) by (auto simp: task_view_append)
  have wf: "task_wf s" "ts_task_id s = tid"
    using assms(1,2) by (auto simp: sched_inv_def Let_def) (metis Inr_inject option.inject option.distinct(1))+
  have s': "ts_task_id s' = tid" "task_wf s'"
    using task_apply_id [OF assms(3)] task_apply_wf [OF assms(3)] wf assms(4) by auto
  have bound: "\<exists>l. tst_last_task_id (sch_store sch) = Some l \<and> 0 \<le> tid \<and> tid \<le> l"
  proof -
    have "\<exists>e \<in> set ?evs. task_event_id e = tid"
      using assms(2) task_view_fresh [of ?evs tid] by auto
    then show ?thesis using assms(1) by (auto simp: sched_inv_def Let_def)
  qed
  show ?thesis
    unfolding sched_inv_def Let_def
    using assms s' bound
    by (auto simp: view sched_inv_def Let_def subset_iff)
qed

section \<open>The operations under the invariant\<close>

lemma sched_inv_view:
  assumes "sched_inv sch"
  shows "task_view (tst_events (sch_store sch)) tid = Inr None \<or>
    (\<exists>s. task_view (tst_events (sch_store sch)) tid = Inr (Some s) \<and> ts_task_id s = tid \<and> task_wf s)"
  using assms by (simp add: sched_inv_def Let_def)

lemma sched_inv_queue:
  assumes "sched_inv sch" and "tid \<in> set (sch_task_queue sch)"
  shows "\<exists>s. task_view (tst_events (sch_store sch)) tid = Inr (Some s) \<and> ts_task_id s = tid
    \<and> ts_status s = Queued \<and> \<not> ts_cancellation_requested s"
proof -
  from assms obtain s where "task_view (tst_events (sch_store sch)) tid = Inr (Some s)"
    "ts_status s = Queued" "\<not> ts_cancellation_requested s"
    by (auto simp: sched_inv_def Let_def)
  with sched_inv_view [OF assms(1), of tid] show ?thesis by auto
qed

lemma new_task_id_fresh:
  assumes "sched_inv sch" and "has_capacity sch" and "new_task_id (sch_store sch) = (tid, st)"
  shows "task_view (tst_events (sch_store sch)) tid = Inr None \<and> 0 \<le> tid
    \<and> tid \<le> int (length (tst_events (sch_store sch)))
    \<and> st = (sch_store sch)\<lparr>tst_last_task_id := Some tid\<rparr>
    \<and> (\<forall>e \<in> set (tst_events (sch_store sch)). 0 \<le> task_event_id e \<and> task_event_id e < tid)"
proof (cases "tst_last_task_id (sch_store sch)")
  case None
  with assms(1) have "tst_events (sch_store sch) = []"
    by (cases "tst_events (sch_store sch)") (auto simp: sched_inv_def Let_def)
  with None assms(3) show ?thesis by (auto simp: new_task_id_def Let_def)
next
  case (Some l)
  with assms(1,2) have l: "0 \<le> l" "l < int (length (tst_events (sch_store sch)))" "l + 1 < 2 ^ 63"
    and ids: "\<forall>e \<in> set (tst_events (sch_store sch)). 0 \<le> task_event_id e \<and> task_event_id e \<le> l"
    by (auto simp: sched_inv_def Let_def has_capacity_def)
  then have "wrap_i64 (l + 1) = l + 1" by (intro wrap_i64_id) auto
  with Some l ids assms(3) show ?thesis
    by (auto simp: new_task_id_def Let_def intro!: task_view_fresh)
qed

lemma task_new_eq:
  "\<exists>t s. task_new now tid plan = Inr t \<and> agg_pending_events t = [TaskCreated now tid plan]
    \<and> agg_state t = Some s \<and> task_apply None (TaskCreated now tid plan) = Inr s"
  by (simp add: task_new_def agg_new_def)

lemma create_task_eq:
  assumes "new_task_id (sch_store sch) = (tid, st)"
  shows "create_task now plan sch =
    (Inr \<lparr>ts_task_id = tid, ts_status = Queued, ts_cancellation_requested = False, ts_logical_plan = plan,
          ts_created_at = now, ts_ran_at = None, ts_cancellation_requested_at = None, ts_finished_at = None\<rparr>,
     sch\<lparr>sch_store := add_task_event (TaskCreated now tid plan) st,
         sch_task_queue := sch_task_queue sch @ [tid]\<rparr>)"
proof -
  from task_new_eq [of now tid plan] obtain t where
    t: "task_new now tid plan = Inr t" "agg_pending_events t = [TaskCreated now tid plan]"
      "agg_state t = Some \<lparr>ts_task_id = tid, ts_status = Queued, ts_cancellation_requested = False,
         ts_logical_plan = plan, ts_created_at = now, ts_ran_at = None,
         ts_cancellation_requested_at = None, ts_finished_at = None\<rparr>" by auto
  with save_one [OF t(2), of "sch\<lparr>sch_store := st\<rparr>"] assms show ?thesis
    by (auto simp: create_task_def Let_def)
qed

lemma create_task_inv:
  assumes "sched_inv sch" and "has_capacity sch"
  shows "sched_inv (snd (create_task now plan sch))"
proof -
  obtain tid st where id: "new_task_id (sch_store sch) = (tid, st)"
    by (cases "new_task_id (sch_store sch)")
  note fresh = new_task_id_fresh [OF assms id]
  let ?evs = "tst_events (sch_store sch)" and ?e = "TaskCreated now tid plan"
  obtain s where s: "task_apply None ?e = Inr s" "ts_status s = Queued" "\<not> ts_cancellation_requested s"
    "ts_task_id s = tid" "task_wf s"
    by (auto simp: task_wf_def)
  have view: "task_view (?evs @ [?e]) k = (if k = tid then Inr (Some s) else task_view ?evs k)" for k
    using fresh s(1) by (auto simp: task_view_append)
  have "tid \<notin> set (sch_task_queue sch)"
    using sched_inv_queue [OF assms(1), of tid] fresh by auto
  then have "distinct (sch_task_queue sch @ [tid])"
    using assms(1) by (simp add: sched_inv_def Let_def)
  moreover have "task_view (?evs @ [?e]) k = Inr None \<or>
      (\<exists>s. task_view (?evs @ [?e]) k = Inr (Some s) \<and> ts_task_id s = k \<and> task_wf s)" for k
    using sched_inv_view [OF assms(1), of k] s by (auto simp: view)
  moreover have "\<exists>s. task_view (?evs @ [?e]) k = Inr (Some s) \<and> ts_status s = Queued
      \<and> \<not> ts_cancellation_requested s" if "k \<in> set (sch_task_queue sch @ [tid])" for k
    using sched_inv_queue [OF assms(1), of k] that s by (auto simp: view)
  moreover have "\<forall>e \<in> set (?evs @ [?e]). 0 \<le> task_event_id e \<and> task_event_id e \<le> tid"
    using fresh by auto
  ultimately show ?thesis
    using fresh unfolding create_task_eq [OF id] sched_inv_def Let_def by simp
qed

lemma try_take_eq:
  assumes "sched_inv sch" and "sch_task_queue sch = tid # rest"
  shows "try_take now sch =
      (Inr (Some tid), sch\<lparr>sch_store := add_task_event (TaskRunning now tid) (sch_store sch),
                           sch_task_queue := rest\<rparr>)
    \<and> (\<exists>s. task_view (tst_events (sch_store sch)) tid = Inr (Some s) \<and> ts_status s = Queued
         \<and> task_apply (Some s) (TaskRunning now tid) =
             Inr (s\<lparr>ts_status := Running, ts_ran_at := Some now\<rparr>))"
proof -
  from sched_inv_queue [OF assms(1), of tid] assms(2) obtain s where
    s: "task_view (tst_events (sch_store sch)) tid = Inr (Some s)" "ts_task_id s = tid"
      "ts_status s = Queued" by auto
  from task_load_eq [OF s(1)] obtain t where
    t: "task_load (sch_store sch) tid = Inr t" "agg_state t = Some s" "agg_pending_events t = []" by blast
  have ok: "task_apply (Some s) (TaskRunning now tid) = Inr (s\<lparr>ts_status := Running, ts_ran_at := Some now\<rparr>)"
    using s by simp
  from apply_one [OF t(2,3) ok] obtain t' where
    t': "task_run now t = (Inr (), t')" "agg_pending_events t' = [TaskRunning now tid]"
    using s(2) by (auto simp: task_run_def with_state_def t(2))
  from save_one [OF t'(2), of "sch\<lparr>sch_task_queue := rest\<rparr>"] t t' ok s(1,3) assms(2) show ?thesis
    by (auto simp: try_take_def Let_def)
qed

lemma try_take_inv:
  assumes "sched_inv sch"
  shows "sched_inv (snd (try_take now sch))"
proof (cases "sch_task_queue sch")
  case Nil
  then show ?thesis using assms by (simp add: try_take_def)
next
  case (Cons tid rest)
  from try_take_eq [OF assms Cons] obtain s where
    take: "try_take now sch = (Inr (Some tid), sch\<lparr>sch_store := add_task_event (TaskRunning now tid) (sch_store sch),
       sch_task_queue := rest\<rparr>)"
    and s: "task_view (tst_events (sch_store sch)) tid = Inr (Some s)"
      "task_apply (Some s) (TaskRunning now tid) = Inr (s\<lparr>ts_status := Running, ts_ran_at := Some now\<rparr>)"
    by blast
  have "distinct (tid # rest)" using assms Cons by (simp add: sched_inv_def Let_def)
  with sched_inv_event [OF assms s, of rest] Cons show ?thesis by (auto simp: take)
qed

lemma cancel_task_cases:
  assumes "sched_inv sch"
  obtains (missing) "cancel_task now tid sch = (Inl (Fail (TaskNotFound tid)), sch)"
    "task_view (tst_events (sch_store sch)) tid = Inr None"
  | (ignored) s where "cancel_task now tid sch = (Inr s, sch)"
    "task_view (tst_events (sch_store sch)) tid = Inr (Some s)" "\<not> task_can_cancel s"
  | (cancelled) s s' where "task_view (tst_events (sch_store sch)) tid = Inr (Some s)" "task_can_cancel s"
    "s' = s\<lparr>ts_cancellation_requested := True, ts_cancellation_requested_at := Some now\<rparr>"
    "task_apply (Some s) (TaskCancelled now tid) = Inr s'"
    "cancel_task now tid sch = (Inr s',
       sch\<lparr>sch_store := add_task_event (TaskCancelled now tid) (sch_store sch),
           sch_task_queue := filter (\<lambda>q. q \<noteq> tid) (sch_task_queue sch)\<rparr>)"
  using sched_inv_view [OF assms, of tid]
proof (elim disjE exE conjE)
  assume v: "task_view (tst_events (sch_store sch)) tid = Inr None"
  show thesis by (rule missing [OF _ v]) (simp add: cancel_task_def task_load_None [OF v])
next
  fix s assume v: "task_view (tst_events (sch_store sch)) tid = Inr (Some s)" and s: "ts_task_id s = tid"
  from task_load_eq [OF v] obtain t where
    t: "task_load (sch_store sch) tid = Inr t" "agg_state t = Some s" "agg_pending_events t = []" by blast
  show thesis
  proof (cases "task_can_cancel s")
    case False
    show thesis by (rule ignored [OF _ v False]) (simp add: cancel_task_def t False)
  next
    case True
    let ?s' = "s\<lparr>ts_cancellation_requested := True, ts_cancellation_requested_at := Some now\<rparr>"
    have ok: "task_apply (Some s) (TaskCancelled now tid) = Inr ?s'"
      using True s by (auto simp: task_can_cancel_def)
    from apply_one [OF t(2,3) ok] obtain t' where
      t': "task_cancel now t = (Inr (), t')" "agg_pending_events t' = [TaskCancelled now tid]" "agg_state t' = Some ?s'"
      using s True by (auto simp: task_cancel_def with_state_def t(2) task_can_cancel_def)
    from save_one [OF t'(2), of sch] t t' True
    have "cancel_task now tid sch = (Inr ?s',
       sch\<lparr>sch_store := add_task_event (TaskCancelled now tid) (sch_store sch),
           sch_task_queue := filter (\<lambda>q. q \<noteq> tid) (sch_task_queue sch)\<rparr>)"
      by (auto simp: cancel_task_def)
    from cancelled [OF v True refl ok this] show thesis .
  qed
qed

lemma cancel_task_inv:
  assumes "sched_inv sch"
  shows "sched_inv (snd (cancel_task now tid sch))"
  using assms
proof (cases rule: cancel_task_cases [of sch now tid])
  case (cancelled s s')
  have "distinct (sch_task_queue sch)" using assms by (simp add: sched_inv_def Let_def)
  with sched_inv_event [OF assms cancelled(1,4), of "filter (\<lambda>q. q \<noteq> tid) (sch_task_queue sch)"]
  show ?thesis by (auto simp: cancelled(5))
qed (use assms in simp_all)

section \<open>Executor and scheduler together\<close>

text \<open>
  The world is the executor with its scheduler, and the task it is executing, if any. Tasks are
  created and cancelled at any time; the executor takes a task when it has none, and reports
  the outcome of the one it has.
\<close>

type_synonym world = "executor \<times> task option"

abbreviation world_store :: "executor \<Rightarrow> task_store" where
  "world_store ex \<equiv> sch_store (ex_scheduler ex)"

inductive world_step :: "world \<Rightarrow> world \<Rightarrow> bool" where
  step_create: "has_capacity (ex_scheduler ex) \<Longrightarrow> create_task now plan (ex_scheduler ex) = (r, sch') \<Longrightarrow>
    world_step (ex, cur) (ex\<lparr>ex_scheduler := sch'\<rparr>, cur)"
| step_cancel: "has_capacity (ex_scheduler ex) \<Longrightarrow> cancel_task now tid (ex_scheduler ex) = (r, sch') \<Longrightarrow>
    world_step (ex, cur) (ex\<lparr>ex_scheduler := sch'\<rparr>, cur)"
| step_take: "has_capacity (ex_scheduler ex) \<Longrightarrow> take_task now now' ex = (Inr t, ex') \<Longrightarrow>
    world_step (ex, None) (ex', t)"
| step_finish: "has_capacity (ex_scheduler ex) \<Longrightarrow> process_task_outcome now now' t outcome ex = (r, ex') \<Longrightarrow>
    world_step (ex, Some t) (ex', None)"

inductive world_reachable :: "world \<Rightarrow> bool" where
  world_init: "world_reachable (\<lparr>ex_scheduler = empty_scheduler, ex_messages = []\<rparr>, None)"
| world_next: "world_reachable w \<Longrightarrow> world_step w w' \<Longrightarrow> world_reachable w'"

text \<open>The task the executor holds was loaded at an earlier point of the log, and is running.\<close>

definition held_inv :: "task_event list \<Rightarrow> task \<Rightarrow> bool" where
  "held_inv evs t \<longleftrightarrow>
     (\<exists>old new. evs = old @ new \<and> synced task_proj (indexed old) t)
     \<and> agg_pending_events t = [] \<and> agg_last_stored_event t \<noteq> None
     \<and> (\<exists>s. task_view evs (agg_query t) = Inr (Some s) \<and> ts_status s = Running)"

definition world_inv :: "world \<Rightarrow> bool" where
  "world_inv w \<longleftrightarrow>
     sched_inv (ex_scheduler (fst w))
     \<and> (case snd w of
          None \<Rightarrow> True
        | Some t \<Rightarrow> held_inv (tst_events (world_store (fst w))) t)
     \<and> (\<forall>tid s. task_view (tst_events (world_store (fst w))) tid = Inr (Some s) \<and> ts_status s = Running
          \<longrightarrow> (\<exists>t. snd w = Some t \<and> agg_query t = tid))"

lemma process_task_outcome_eq:
  assumes inv: "sched_inv (ex_scheduler ex)" and cap: "has_capacity (ex_scheduler ex)"
    and held: "held_inv (tst_events (world_store ex)) t"
  shows "\<exists>s. task_view (tst_events (world_store ex)) (agg_query t) = Inr (Some s)
    \<and> ts_status s = Running
    \<and> task_apply (Some s) (TaskFinished now (agg_query t) outcome) =
        Inr (s\<lparr>ts_status := Finished outcome, ts_finished_at := Some now\<rparr>)
    \<and> process_task_outcome now now' t outcome ex =
        (Inr (), ex\<lparr>ex_scheduler := (ex_scheduler ex)\<lparr>sch_store :=
              add_task_event (TaskFinished now (agg_query t) outcome) (world_store ex)\<rparr>,
            ex_messages := ex_messages ex @ [ProgressFinished now' (agg_query t) outcome]\<rparr>)"
proof -
  from held obtain old new s where
    split: "tst_events (world_store ex) = old @ new" and sy: "synced task_proj (indexed old) t"
    and s: "task_view (tst_events (world_store ex)) (agg_query t) = Inr (Some s)" "ts_status s = Running"
    and t: "agg_pending_events t = []" "agg_last_stored_event t \<noteq> None"
    by (auto simp: held_inv_def)
  have tid: "ts_task_id s = agg_query t" using sched_inv_view [OF inv, of "agg_query t"] s(1) by auto
  have fold: "apply_all task_proj None (map snd (filter (\<lambda>(_, e). matches_query task_proj e (agg_query t))
      (indexed (tst_events (world_store ex))))) = Inr (Some s)"
    using s(1) by (simp add: task_view_def indexed_events)
  obtain t1 where t1: "agg_update task_proj (task_store_get_events (world_store ex) (agg_query t)
      \<lparr>geo_from = agg_last_stored_event t, geo_to = None\<rparr>) t = Inr t1"
    "agg_pending_events t1 = []" "agg_state t1 = Some s"
    using task_log.update_succeeds [OF _ sy t, of "world_store ex" _ "Some s"] fold cap
    by (auto simp: split indexed_append has_capacity_def)
  have ok: "task_apply (Some s) (TaskFinished now (agg_query t) outcome) =
      Inr (s\<lparr>ts_status := Finished outcome, ts_finished_at := Some now\<rparr>)"
    using s(2) tid by simp
  from apply_one [OF t1(3,2) ok] obtain t2 where
    t2: "task_finish now outcome t1 = (Inr (), t2)" "agg_pending_events t2 = [TaskFinished now (agg_query t) outcome]"
      "agg_state t2 = Some (s\<lparr>ts_status := Finished outcome, ts_finished_at := Some now\<rparr>)"
    using tid by (auto simp: task_finish_def with_state_def t1(3))
  from save_one [OF t2(2), of "ex_scheduler ex"] t1 t2 tid ok s show ?thesis
    by (auto simp: process_task_outcome_def Let_def)
qed

lemma take_task_cases:
  assumes inv: "sched_inv (ex_scheduler ex)"
  obtains (idle) "take_task now now' ex = (Inr None, ex)" "sch_task_queue (ex_scheduler ex) = []"
  | (taken) tid rest t s where "sch_task_queue (ex_scheduler ex) = tid # rest"
    "take_task now now' ex = (Inr (Some t),
       ex\<lparr>ex_scheduler := (ex_scheduler ex)\<lparr>sch_store := add_task_event (TaskRunning now tid) (world_store ex),
                                             sch_task_queue := rest\<rparr>,
          ex_messages := ex_messages ex @ [ProgressRunning now' tid]\<rparr>)"
    "agg_query t = tid" "task_view (tst_events (world_store ex)) tid = Inr (Some s)" "ts_status s = Queued"
    "task_view (tst_events (world_store ex) @ [TaskRunning now tid]) tid =
       Inr (Some (s\<lparr>ts_status := Running, ts_ran_at := Some now\<rparr>))"
    "held_inv (tst_events (world_store ex) @ [TaskRunning now tid]) t"
proof (cases "sch_task_queue (ex_scheduler ex)")
  case Nil
  then show thesis by (intro idle) (simp_all add: take_task_def try_take_def)
next
  case (Cons tid rest)
  let ?st = "add_task_event (TaskRunning now tid) (world_store ex)"
  from try_take_eq [OF inv Cons, of now] obtain s where
    take: "try_take now (ex_scheduler ex) =
      (Inr (Some tid), (ex_scheduler ex)\<lparr>sch_store := ?st, sch_task_queue := rest\<rparr>)"
    and s: "task_view (tst_events (world_store ex)) tid = Inr (Some s)" "ts_status s = Queued"
      "task_apply (Some s) (TaskRunning now tid) = Inr (s\<lparr>ts_status := Running, ts_ran_at := Some now\<rparr>)"
    by blast
  then have view: "task_view (tst_events ?st) tid = Inr (Some (s\<lparr>ts_status := Running, ts_ran_at := Some now\<rparr>))"
    by (simp add: task_view_append del: task_apply.simps)
  from task_load_eq [OF view] obtain t where
    t: "task_load ?st tid = Inr t" "agg_query t = tid" "agg_pending_events t = []"
      "synced task_proj (indexed (tst_events ?st)) t" "agg_last_stored_event t \<noteq> None" by blast
  have "held_inv (tst_events (world_store ex) @ [TaskRunning now tid]) t"
  proof -
    have "\<exists>old new. tst_events ?st = old @ new \<and> synced task_proj (indexed old) t"
      using t(4) by (intro exI [of _ "tst_events ?st"] exI [of _ "[]"]) simp
    then show ?thesis unfolding held_inv_def using t view by auto
  qed
  with taken [OF Cons _ t(2) s(1,2)] view take t(1) show thesis
    by (simp add: take_task_def)
qed

lemma held_inv_append:
  assumes "held_inv evs t" and "task_view (evs @ [e]) (agg_query t) = Inr (Some s)" and "ts_status s = Running"
  shows "held_inv (evs @ [e]) t"
proof -
  from assms(1) obtain old new where "evs = old @ new" "synced task_proj (indexed old) t"
    by (auto simp: held_inv_def)
  then have "\<exists>old new. evs @ [e] = old @ new \<and> synced task_proj (indexed old) t"
    by (intro exI [of _ old] exI [of _ "new @ [e]"]) simp
  with assms show ?thesis by (auto simp: held_inv_def)
qed

text \<open>An event that leaves the set of running tasks as it is.\<close>

lemma world_inv_event:
  assumes "world_inv (ex, cur)" and "sched_inv (ex_scheduler ex')"
    and "tst_events (world_store ex') = tst_events (world_store ex) @ [e]"
    and "\<And>tid s'. task_view (tst_events (world_store ex) @ [e]) tid = Inr (Some s') \<Longrightarrow> task_event_id e = tid \<Longrightarrow>
      ts_status s' = Running \<longleftrightarrow>
        (\<exists>s. task_view (tst_events (world_store ex)) tid = Inr (Some s) \<and> ts_status s = Running)"
    and "\<And>tid. task_event_id e = tid \<Longrightarrow> \<exists>s. task_view (tst_events (world_store ex) @ [e]) tid = Inr (Some s)"
  shows "world_inv (ex', cur)"
proof -
  let ?evs = "tst_events (world_store ex)"
  have running: "(\<exists>s. task_view (?evs @ [e]) tid = Inr (Some s) \<and> ts_status s = Running) \<longleftrightarrow>
      (\<exists>s. task_view ?evs tid = Inr (Some s) \<and> ts_status s = Running)" for tid
  proof (cases "task_event_id e = tid")
    case True
    with assms(5) obtain s where s: "task_view (?evs @ [e]) tid = Inr (Some s)" by blast
    with assms(4) [OF s True] show ?thesis by auto
  qed (simp add: task_view_append)
  have "held_inv (?evs @ [e]) t" if "cur = Some t" for t
  proof -
    have h: "held_inv ?evs t" using assms(1) that by (simp add: world_inv_def)
    then have "\<exists>s. task_view ?evs (agg_query t) = Inr (Some s) \<and> ts_status s = Running"
      by (simp add: held_inv_def)
    with running obtain s where "task_view (?evs @ [e]) (agg_query t) = Inr (Some s)" "ts_status s = Running"
      by blast
    with h show ?thesis by (rule held_inv_append)
  qed
  with assms(1,2,3) running show ?thesis
    unfolding world_inv_def by (auto split: option.split)
qed

lemma world_step_inv:
  assumes "world_step w w'" and "world_inv w"
  shows "world_inv w'"
  using assms
proof (induction rule: world_step.induct)
  case (step_create ex now plan r sch' cur)
  have inv: "sched_inv (ex_scheduler ex)" using step_create(3) by (simp add: world_inv_def)
  obtain tid st where id: "new_task_id (world_store ex) = (tid, st)" by (cases "new_task_id (world_store ex)")
  note fresh = new_task_id_fresh [OF inv step_create(1) id]
  have sch': "sch' = (ex_scheduler ex)\<lparr>sch_store := add_task_event (TaskCreated now tid plan) st,
      sch_task_queue := sch_task_queue (ex_scheduler ex) @ [tid]\<rparr>"
    using step_create(2) by (simp add: create_task_eq [OF id])
  have "sched_inv sch'" using create_task_inv [OF inv step_create(1), of now plan] step_create(2) by simp
  with step_create(3) show ?case
    by (rule_tac world_inv_event [where ex = ex and e = "TaskCreated now tid plan"])
      (use fresh in \<open>auto simp: sch' task_view_append\<close>)
next
  case (step_cancel ex now tid r sch' cur)
  have inv: "sched_inv (ex_scheduler ex)" using step_cancel(3) by (simp add: world_inv_def)
  from inv show ?case
  proof (cases rule: cancel_task_cases [of "ex_scheduler ex" now tid])
    case (cancelled s s')
    have "sched_inv sch'" using cancel_task_inv [OF inv, of now tid] step_cancel(2) by simp
    with step_cancel(3) show ?thesis
      by (rule_tac world_inv_event [where ex = ex and e = "TaskCancelled now tid"])
        (use cancelled step_cancel(2) in \<open>auto simp: task_view_append simp del: task_apply.simps\<close>)
  qed (use step_cancel in simp_all)
next
  case (step_take ex now now' t ex')
  have inv: "sched_inv (ex_scheduler ex)"
    and none: "\<not> (\<exists>s. task_view (tst_events (world_store ex)) k = Inr (Some s) \<and> ts_status s = Running)" for k
    using step_take(3) by (auto simp: world_inv_def)
  from inv show ?case
  proof (cases rule: take_task_cases [of ex now now'])
    case idle
    with step_take show ?thesis by simp
  next
    case (taken tid rest u s)
    have sch: "ex_scheduler ex' = (ex_scheduler ex)\<lparr>sch_store := add_task_event (TaskRunning now tid) (world_store ex),
        sch_task_queue := rest\<rparr>" and u: "t = Some u"
      using taken(2) step_take(2) by auto
    have "ex_scheduler ex' = snd (try_take now (ex_scheduler ex))"
      using try_take_eq [OF inv taken(1), of now] sch by auto
    then have "sched_inv (ex_scheduler ex')" using try_take_inv [OF inv] by simp
    moreover have "agg_query u = k"
      if "task_view (tst_events (world_store ex) @ [TaskRunning now tid]) k = Inr (Some s')" "ts_status s' = Running"
      for k s'
      using that none [of k] taken(3) by (cases "k = tid") (auto simp: task_view_append)
    ultimately show ?thesis
      using taken(3,7) by (auto simp: world_inv_def sch u)
  qed
next
  case (step_finish ex now now' t outcome r ex')
  have inv: "sched_inv (ex_scheduler ex)" and held: "held_inv (tst_events (world_store ex)) t"
    and only: "task_view (tst_events (world_store ex)) k = Inr (Some s) \<Longrightarrow> ts_status s = Running \<Longrightarrow> agg_query t = k" for k s
    using step_finish(3) by (auto simp: world_inv_def)
  from process_task_outcome_eq [OF inv step_finish(1) held, of now outcome now'] obtain s where
    s: "task_view (tst_events (world_store ex)) (agg_query t) = Inr (Some s)" "ts_status s = Running"
      "task_apply (Some s) (TaskFinished now (agg_query t) outcome) =
        Inr (s\<lparr>ts_status := Finished outcome, ts_finished_at := Some now\<rparr>)"
    and sch: "ex_scheduler ex' = (ex_scheduler ex)\<lparr>sch_store :=
        add_task_event (TaskFinished now (agg_query t) outcome) (world_store ex)\<rparr>"
    using step_finish(2) by auto
  have "agg_query t \<notin> set (sch_task_queue (ex_scheduler ex))"
    using sched_inv_queue [OF inv, of "agg_query t"] s(1,2) by auto
  moreover have "distinct (sch_task_queue (ex_scheduler ex))" using inv by (simp add: sched_inv_def Let_def)
  ultimately have "sched_inv (ex_scheduler ex')"
    using sched_inv_event [OF inv s(1,3), of "sch_task_queue (ex_scheduler ex)"] sch by simp
  moreover have "ts_status s' \<noteq> Running"
    if "task_view (tst_events (world_store ex) @ [TaskFinished now (agg_query t) outcome]) k = Inr (Some s')" for k s'
  proof (cases "k = agg_query t")
    case True
    with that s(1,3) have "s' = s\<lparr>ts_status := Finished outcome, ts_finished_at := Some now\<rparr>"
      by (simp add: task_view_append del: task_apply.simps)
    then show ?thesis by simp
  next
    case False
    with that have "task_view (tst_events (world_store ex)) k = Inr (Some s')" by (simp add: task_view_append)
    with only False show ?thesis by blast
  qed
  ultimately show ?case by (auto simp: world_inv_def sch)
qed

lemma world_reachable_inv: "world_reachable w \<Longrightarrow> world_inv w"
proof (induction rule: world_reachable.induct)
  case world_init
  then show ?case
    using sched_inv_empty by (auto simp: world_inv_def empty_scheduler_def empty_task_store_def)
next
  case (world_next w w')
  then show ?case by (blast intro: world_step_inv)
qed

end
