(* ===== verification/Task_Claims.thy ===== *)
theory Task_Claims
  imports Task_Properties
begin

text \<open>
  What the task system promises to its clients: every task is handed over and finished exactly
  as the queue and the life cycle say, the executor never meets an error of its own, one task
  runs at a time, and the listing by dataset is complete and newest first. The claims hold in
  every reachable world, that is, for every order of creations, cancellations, hand-overs and
  completions.
\<close>

section \<open>Reading a task\<close>

lemma get_task_view:
  assumes "sched_inv sch"
  shows "get_task sch tid =
    (case task_view (tst_events (sch_store sch)) tid of
       Inr (Some s) \<Rightarrow> Inr s | _ \<Rightarrow> Inl (Fail (TaskNotFound tid)))"
  using sched_inv_view [OF assms, of tid]
proof (elim disjE exE conjE)
  assume "task_view (tst_events (sch_store sch)) tid = Inr None"
  then show ?thesis by (simp add: get_task_def task_load_None)
next
  fix s assume v: "task_view (tst_events (sch_store sch)) tid = Inr (Some s)"
  from task_load_eq [OF v] obtain t where "task_load (sch_store sch) tid = Inr t" "agg_state t = Some s" by blast
  with v show ?thesis by (simp add: get_task_def)
qed

lemma get_task_Inr:
  assumes "sched_inv sch"
  shows "get_task sch tid = Inr s \<longleftrightarrow> task_view (tst_events (sch_store sch)) tid = Inr (Some s)"
  by (simp add: get_task_view [OF assms] split: sum.split option.split)

lemma reachable_sched: "world_reachable (ex, cur) \<Longrightarrow> sched_inv (ex_scheduler ex)"
  using world_reachable_inv by (fastforce simp: world_inv_def)

section \<open>What a step appends to the log\<close>

text \<open>The reason each event is in the log.\<close>

fun event_source :: "world \<Rightarrow> task_event \<Rightarrow> bool" where
  "event_source (ex, cur) (TaskCreated _ tid _) \<longleftrightarrow>
     (\<forall>e \<in> set (tst_events (world_store ex)). task_event_id e < tid)"
| "event_source (ex, cur) (TaskRunning _ tid) \<longleftrightarrow> tid \<in> set (sch_task_queue (ex_scheduler ex))"
| "event_source (ex, cur) (TaskCancelled _ tid) \<longleftrightarrow>
     (\<exists>s. task_view (tst_events (world_store ex)) tid = Inr (Some s) \<and> task_can_cancel s)"
| "event_source (ex, cur) (TaskFinished _ tid _) \<longleftrightarrow>
     (\<exists>s. task_view (tst_events (world_store ex)) tid = Inr (Some s) \<and> ts_status s = Running)"

definition log_step :: "world \<Rightarrow> world \<Rightarrow> bool" where
  "log_step w w' \<longleftrightarrow>
     tst_events (world_store (fst w')) = tst_events (world_store (fst w))
       \<and> tst_tasks_by_dataset (world_store (fst w')) = tst_tasks_by_dataset (world_store (fst w))
     \<or> (\<exists>e. event_source w e
          \<and> tst_events (world_store (fst w')) = tst_events (world_store (fst w)) @ [e]
          \<and> tst_tasks_by_dataset (world_store (fst w')) =
              update_index_by_dataset (tst_tasks_by_dataset (world_store (fst w))) e)"

lemma log_step_same:
  "world_store ex' = world_store ex \<Longrightarrow> log_step (ex, cur) (ex', cur')"
  by (simp add: log_step_def)

lemma log_step_event:
  "event_source (ex, cur) e \<Longrightarrow> world_store ex' = add_task_event e (world_store ex\<lparr>tst_last_task_id := l\<rparr>) \<Longrightarrow>
   log_step (ex, cur) (ex', cur')"
  by (auto simp: log_step_def add_task_event_def)

lemma world_step_log: "world_step w w' \<Longrightarrow> world_inv w \<Longrightarrow> log_step w w'"
proof (induction rule: world_step.induct)
  case (step_create ex now plan r sch' cur)
  have inv: "sched_inv (ex_scheduler ex)" using step_create(3) by (simp add: world_inv_def)
  obtain tid st where id: "new_task_id (world_store ex) = (tid, st)" by (cases "new_task_id (world_store ex)")
  note fresh = new_task_id_fresh [OF inv step_create(1) id]
  then show ?case
    using step_create(2) create_task_eq [OF id, of now plan]
    by (intro log_step_event [of ex cur "TaskCreated now tid plan" _ "Some tid"]) auto
next
  case (step_cancel ex now tid r sch' cur)
  have inv: "sched_inv (ex_scheduler ex)" using step_cancel(3) by (simp add: world_inv_def)
  from inv show ?case
  proof (cases rule: cancel_task_cases [of "ex_scheduler ex" now tid])
    case (cancelled s s')
    then show ?thesis using step_cancel(2)
      by (intro log_step_event [of ex cur "TaskCancelled now tid" _ "tst_last_task_id (world_store ex)"]) auto
  qed (use step_cancel(2) in \<open>simp_all add: log_step_same\<close>)
next
  case (step_take ex now now' t ex')
  have inv: "sched_inv (ex_scheduler ex)" using step_take(3) by (simp add: world_inv_def)
  from inv show ?case
  proof (cases rule: take_task_cases [of ex now now'])
    case (taken tid rest u s)
    then show ?thesis using step_take(2)
      by (intro log_step_event [of ex None "TaskRunning now tid" _ "tst_last_task_id (world_store ex)"]) auto
  qed (use step_take(2) in \<open>simp_all add: log_step_same\<close>)
next
  case (step_finish ex now now' t outcome r ex')
  have inv: "sched_inv (ex_scheduler ex)" and held: "held_inv (tst_events (world_store ex)) t"
    using step_finish(3) by (auto simp: world_inv_def)
  from process_task_outcome_eq [OF inv step_finish(1) held, of now outcome now'] step_finish(2)
  show ?case
    by (intro log_step_event [of ex "Some t" "TaskFinished now (agg_query t) outcome" _ "tst_last_task_id (world_store ex)"])
      auto
qed

abbreviation world_steps :: "world \<Rightarrow> world \<Rightarrow> bool" where
  "world_steps \<equiv> world_step\<^sup>*\<^sup>*"

lemma world_steps_reachable: "world_steps w w' \<Longrightarrow> world_reachable w \<Longrightarrow> world_reachable w'"
  by (induction rule: rtranclp_induct) (auto intro: world_next)

section \<open>How a task evolves\<close>

definition evolves :: "task_state \<Rightarrow> task_state \<Rightarrow> bool" where
  "evolves s s' \<longleftrightarrow>
     status_rank (ts_status s) \<le> status_rank (ts_status s')
     \<and> (ts_cancellation_requested s \<longrightarrow> ts_cancellation_requested s')
     \<and> ts_logical_plan s' = ts_logical_plan s \<and> ts_created_at s' = ts_created_at s
     \<and> (is_Finished (ts_status s) \<longrightarrow> s' = s)
     \<and> (ts_status s = Queued \<and> ts_cancellation_requested s \<longrightarrow> s' = s)"

lemma evolves_refl: "evolves s s"
  by (simp add: evolves_def)

lemma evolves_trans: "evolves s s' \<Longrightarrow> evolves s' s'' \<Longrightarrow> evolves s s''"
  by (auto simp: evolves_def)

lemma event_evolves:
  assumes inv: "world_inv (ex, cur)" and src: "event_source (ex, cur) e" and id: "task_event_id e = tid"
    and v: "task_view (tst_events (world_store ex)) tid = Inr (Some s)" and step: "task_apply (Some s) e = Inr s'"
  shows "evolves s s'"
proof (cases e)
  case (TaskRunning now k)
  have "sched_inv (ex_scheduler ex)" using inv by (simp add: world_inv_def)
  from sched_inv_queue [OF this, of k] src id v step show ?thesis
    by (auto simp: TaskRunning evolves_def split: if_splits)
qed (use src id v step in \<open>auto simp: evolves_def task_can_cancel_def split: if_splits\<close>)

lemma world_step_evolves:
  assumes "world_step w w'" and inv: "world_inv w" and "get_task (ex_scheduler (fst w)) tid = Inr s"
  shows "\<exists>s'. get_task (ex_scheduler (fst w')) tid = Inr s' \<and> evolves s s'"
proof -
  obtain ex cur ex' cur' where w: "w = (ex, cur)" "w' = (ex', cur')" by (cases w; cases w')
  have "world_inv w'" using assms(1,2) by (rule world_step_inv)
  then have sched: "sched_inv (ex_scheduler ex)" "sched_inv (ex_scheduler ex')"
    using inv by (simp_all add: world_inv_def w)
  have v: "task_view (tst_events (world_store ex)) tid = Inr (Some s)"
    using assms(3) by (simp add: w get_task_Inr [OF sched(1)])
  from world_step_log [OF assms(1,2)] consider
    (same) "tst_events (world_store ex') = tst_events (world_store ex)"
    | (event) e where "event_source (ex, cur) e" "tst_events (world_store ex') = tst_events (world_store ex) @ [e]"
    by (auto simp: log_step_def w)
  then show ?thesis
  proof cases
    case same
    with v show ?thesis by (auto simp: w get_task_Inr [OF sched(2)] evolves_refl)
  next
    case (event e)
    show ?thesis
    proof (cases "task_event_id e = tid")
      case False
      with v event(2) show ?thesis by (auto simp: w get_task_Inr [OF sched(2)] evolves_refl task_view_append)
    next
      case True
      with v sched_inv_view [OF sched(2), of tid] event(2) obtain s' where s': "task_apply (Some s) e = Inr s'"
        by (cases "task_apply (Some s) e") (simp_all add: task_view_append del: task_apply.simps)
      with event_evolves [OF _ event(1) True v] inv v event(2) True show ?thesis
        by (auto simp: w get_task_Inr [OF sched(2)] task_view_append simp del: task_apply.simps)
    qed
  qed
qed

lemma world_steps_evolve:
  assumes "world_steps w w'" and "world_reachable w" and "get_task (ex_scheduler (fst w)) tid = Inr s"
  shows "\<exists>s'. get_task (ex_scheduler (fst w')) tid = Inr s' \<and> evolves s s'"
  using assms(1)
proof (induction rule: rtranclp_induct)
  case base
  then show ?case using assms(3) by (auto intro: evolves_refl)
next
  case (step v v')
  then obtain s' where s': "get_task (ex_scheduler (fst v)) tid = Inr s'" "evolves s s'" by blast
  have "world_inv v" using step(1) assms(2) by (blast intro: world_reachable_inv world_steps_reachable)
  with world_step_evolves [OF step(2) _ s'(1)] s'(2) show ?case by (blast intro: evolves_trans)
qed

section \<open>The index by dataset\<close>

fun creates_for :: "dataset_id \<Rightarrow> task_event \<Rightarrow> bool" where
  "creates_for d (TaskCreated _ _ plan) \<longleftrightarrow> logical_plan_dataset_id plan = Some d"
| "creates_for d _ \<longleftrightarrow> False"

definition tasks_created_for :: "dataset_id \<Rightarrow> task_event list \<Rightarrow> task_id list" where
  "tasks_created_for d evs = map task_event_id (filter (creates_for d) evs)"

definition index_inv :: "task_store \<Rightarrow> bool" where
  "index_inv st \<longleftrightarrow>
     (\<forall>d. (case tst_tasks_by_dataset st d of Some ids \<Rightarrow> ids | None \<Rightarrow> []) = tasks_created_for d (tst_events st))
     \<and> (\<forall>d. sorted_wrt (<) (tasks_created_for d (tst_events st)))"

lemma update_index_lookup:
  "(case update_index_by_dataset index e d of Some ids \<Rightarrow> ids | None \<Rightarrow> []) =
   (case index d of Some ids \<Rightarrow> ids | None \<Rightarrow> []) @ (if creates_for d e then [task_event_id e] else [])"
  by (cases e) (auto simp: update_index_by_dataset_def split: option.split)

lemma tasks_created_for_append:
  "tasks_created_for d (evs @ [e]) = tasks_created_for d evs @ (if creates_for d e then [task_event_id e] else [])"
  by (simp add: tasks_created_for_def)

lemma index_inv_event:
  assumes "index_inv st" and "tst_events st' = tst_events st @ [e]"
    and "tst_tasks_by_dataset st' = update_index_by_dataset (tst_tasks_by_dataset st) e"
    and "is_TaskCreated e \<Longrightarrow> \<forall>f \<in> set (tst_events st). task_event_id f < task_event_id e"
  shows "index_inv st'"
proof -
  have "task_event_id f < task_event_id e" if "creates_for d e" "f \<in> set (tst_events st)" for d f
    using that assms(4) by (cases e) auto
  then have "sorted_wrt (<) (tasks_created_for d (tst_events st'))" for d
    using assms(1)
    by (auto simp: assms(2) tasks_created_for_append index_inv_def sorted_wrt_append)
      (auto simp: tasks_created_for_def)
  with assms(1) show ?thesis
    by (simp add: index_inv_def assms(2,3) update_index_lookup tasks_created_for_append)
qed

lemma reachable_index: "world_reachable w \<Longrightarrow> index_inv (world_store (fst w))"
proof (induction rule: world_reachable.induct)
  case world_init
  then show ?case by (simp add: index_inv_def empty_scheduler_def empty_task_store_def tasks_created_for_def)
next
  case (world_next w w')
  obtain ex cur where w: "w = (ex, cur)" by (cases w)
  from world_step_log [OF world_next(2)] world_reachable_inv [OF world_next(1)] consider
    (same) "tst_events (world_store (fst w')) = tst_events (world_store ex)"
      "tst_tasks_by_dataset (world_store (fst w')) = tst_tasks_by_dataset (world_store ex)"
    | (event) e where "event_source (ex, cur) e"
      "tst_events (world_store (fst w')) = tst_events (world_store ex) @ [e]"
      "tst_tasks_by_dataset (world_store (fst w')) =
         update_index_by_dataset (tst_tasks_by_dataset (world_store ex)) e"
    by (auto simp: log_step_def w)
  then show ?case
  proof cases
    case same
    with world_next.IH show ?thesis by (simp add: index_inv_def w)
  next
    case (event e)
    have "\<forall>f \<in> set (tst_events (world_store ex)). task_event_id f < task_event_id e" if "is_TaskCreated e"
      using that event(1) by (cases e) auto
    then show ?thesis using world_next.IH event(2,3) by (auto simp: w intro: index_inv_event)
  qed
qed

lemma load_tasks_eq:
  assumes "\<forall>tid \<in> set tids. \<exists>s. get_task sch tid = Inr s"
  shows "load_tasks (sch_store sch) tids = map (get_task sch) tids"
  using assms
proof (induction tids)
  case (Cons tid tids)
  then obtain s where "get_task sch tid = Inr s" by auto
  then obtain t where t: "task_load (sch_store sch) tid = Inr t" "agg_into_state t = (Inr s :: (scheduler_error, _) res)"
    by (auto simp: get_task_def res_simps)
  with Cons \<open>get_task sch tid = Inr s\<close> show ?case by simp
qed simp

text \<open>The plan of a task is the one of its creation.\<close>

lemma apply_all_plan:
  "apply_all task_proj (Some s) es = Inr (Some s') \<Longrightarrow> ts_logical_plan s' = ts_logical_plan s"
proof (induction es arbitrary: s)
  case (Cons e es)
  then obtain q where q: "task_apply (Some s) e = Inr q" "apply_all task_proj (Some q) es = Inr (Some s')"
    by (auto simp: res_simps simp del: task_apply.simps)
  from q(1) have "ts_logical_plan q = ts_logical_plan s" by (auto split: task_event.splits if_splits)
  with Cons.IH [OF q(2)] show ?case by simp
qed simp

lemma apply_all_created:
  assumes "apply_all task_proj None es = Inr (Some s)" and "e \<in> set es" and "creates_for d e"
  shows "logical_plan_dataset_id (ts_logical_plan s) = Some d"
proof -
  from assms(2) obtain us vs where es: "es = us @ e # vs" by (meson split_list)
  from assms(3) obtain now tid plan where e: "e = TaskCreated now tid plan" "logical_plan_dataset_id plan = Some d"
    by (cases e) auto
  from assms(1) obtain r q where r: "apply_all task_proj None us = Inr r" "task_apply r e = Inr q"
    "apply_all task_proj (Some q) vs = Inr (Some s)"
    by (auto simp: es apply_all_append res_simps simp del: task_apply.simps)
  then have "ts_logical_plan q = plan" by (cases r) (auto simp: e(1) split: if_splits)
  with apply_all_plan [OF r(3)] e(2) show ?thesis by simp
qed

lemma listed_task:
  assumes "sched_inv sch" and "tid \<in> set (tasks_created_for d (tst_events (sch_store sch)))"
  shows "\<exists>s. get_task sch tid = Inr s \<and> ts_task_id s = tid \<and> logical_plan_dataset_id (ts_logical_plan s) = Some d"
proof -
  from assms(2) obtain e where e: "e \<in> set (tst_events (sch_store sch))" "creates_for d e" "task_event_id e = tid"
    by (auto simp: tasks_created_for_def)
  then have "task_view (tst_events (sch_store sch)) tid \<noteq> Inr None" by (auto simp: task_view_None)
  with sched_inv_view [OF assms(1), of tid] obtain s where
    s: "task_view (tst_events (sch_store sch)) tid = Inr (Some s)" "ts_task_id s = tid" by auto
  have "logical_plan_dataset_id (ts_logical_plan s) = Some d"
    by (rule apply_all_created [OF s(1) [unfolded task_view_def] _ e(2)]) (use e in \<open>simp add: task_matches_def\<close>)
  with s show ?thesis by (auto simp: get_task_Inr [OF assms(1)])
qed

section \<open>A concrete run\<close>

text \<open>
  Two tasks of one dataset are created, the second is cancelled while it is queued, the first
  is taken, cancelled too late, and finished.
\<close>

definition run_dataset :: dataset_id where
  "run_dataset = DatasetID [7]"

definition run_created :: executor where
  "run_created =
     (let sch1 = snd (create_task 10 (UpdateDataset run_dataset False) empty_scheduler);
          sch2 = snd (create_task 11 (Probe (Some run_dataset) None None) sch1)
      in \<lparr>ex_scheduler = sch2, ex_messages = []\<rparr>)"

definition run_cancelled :: executor where
  "run_cancelled = run_created\<lparr>ex_scheduler := snd (cancel_task 12 1 (ex_scheduler run_created))\<rparr>"

definition run_taken :: executor where
  "run_taken = snd (take_task 13 14 run_cancelled)"

definition run_task :: "task option" where
  "run_task = (case fst (take_task 13 14 run_cancelled) of Inr t \<Rightarrow> t | Inl _ \<Rightarrow> None)"

definition run_late :: executor where
  "run_late = run_taken\<lparr>ex_scheduler := snd (cancel_task 15 0 (ex_scheduler run_taken))\<rparr>"

lemma run_lengths:
  "length (tst_events (sch_store (snd (create_task 10 (UpdateDataset run_dataset False) empty_scheduler)))) = 1"
  "length (tst_events (world_store run_created)) = 2"
  "length (tst_events (world_store run_cancelled)) = 3"
  "length (tst_events (world_store run_taken)) = 4"
  "length (tst_events (world_store run_late)) = 5"
  by code_simp+

lemma run_capacity:
  "has_capacity empty_scheduler"
  "has_capacity (snd (create_task 10 (UpdateDataset run_dataset False) empty_scheduler))"
  "has_capacity (ex_scheduler run_created)" "has_capacity (ex_scheduler run_cancelled)"
  "has_capacity (ex_scheduler run_taken)" "has_capacity (ex_scheduler run_late)"
  by (simp_all only: has_capacity_def run_lengths) (simp_all add: empty_scheduler_def empty_task_store_def)

lemma run_reachable:
  "world_reachable (run_created, None)" "world_reachable (run_cancelled, None)"
  "world_reachable (run_taken, run_task)" "world_steps (run_taken, run_task) (run_late, run_task)"
  "world_reachable (run_late, run_task)"
proof -
  let ?ex0 = "\<lparr>ex_scheduler = empty_scheduler, ex_messages = []\<rparr>"
  have "world_step (?ex0, None) (?ex0\<lparr>ex_scheduler := snd (create_task 10 (UpdateDataset run_dataset False) empty_scheduler)\<rparr>, None)"
    by (rule step_create) (auto simp: run_capacity prod_eq_iff)
  note r1 = world_next [OF world_init this]
  have "world_step (?ex0\<lparr>ex_scheduler := snd (create_task 10 (UpdateDataset run_dataset False) empty_scheduler)\<rparr>, None)
      (run_created, None)"
    using step_create [where ex = "?ex0\<lparr>ex_scheduler := snd (create_task 10 (UpdateDataset run_dataset False) empty_scheduler)\<rparr>"
        and now = 11 and plan = "Probe (Some run_dataset) None None" and cur = None, OF _ prod.collapse [symmetric]]
    by (simp add: run_capacity run_created_def Let_def)
  note r2 = world_next [OF r1 this]
  show "world_reachable (run_created, None)" by (rule r2)
  have "world_step (run_created, None) (run_cancelled, None)"
    unfolding run_cancelled_def by (rule step_cancel [OF _ prod.collapse [symmetric]]) (rule run_capacity)
  note r3 = world_next [OF r2 this]
  show "world_reachable (run_cancelled, None)" by (rule r3)
  have "isl (fst (take_task 13 14 run_cancelled)) = False" by code_simp
  then have "take_task 13 14 run_cancelled = (Inr run_task, run_taken)"
    by (auto simp: run_task_def run_taken_def prod_eq_iff not_isl_iff split: sum.split)
  then have "world_step (run_cancelled, None) (run_taken, run_task)" by (intro step_take run_capacity)
  note r4 = world_next [OF r3 this]
  show "world_reachable (run_taken, run_task)" by (rule r4)
  have late: "world_step (run_taken, run_task) (run_late, run_task)"
    unfolding run_late_def by (rule step_cancel [OF _ prod.collapse [symmetric]]) (rule run_capacity)
  then show "world_steps (run_taken, run_task) (run_late, run_task)" by blast
  show "world_reachable (run_late, run_task)" by (rule world_next [OF r4 late])
qed

section \<open>Claims\<close>

text \<open>
  Whatever happened before, an executor that asks for a task gets the oldest one of the queue,
  never an error: the task was queued and not cancelled, it is now recorded as running, it has
  left the queue, and its progress is announced. With an empty queue nothing changes.
\<close>

theorem take_task_oldest:
  assumes "world_reachable (ex, None)"
  shows "sch_task_queue (ex_scheduler ex) = [] \<and> take_task now now' ex = (Inr None, ex)
    \<or> (\<exists>tid rest t ex' s.
         sch_task_queue (ex_scheduler ex) = tid # rest
         \<and> take_task now now' ex = (Inr (Some t), ex')
         \<and> get_task (ex_scheduler ex) tid = Inr s \<and> ts_status s = Queued \<and> \<not> ts_cancellation_requested s
         \<and> get_task (ex_scheduler ex') tid = Inr (s\<lparr>ts_status := Running, ts_ran_at := Some now\<rparr>)
         \<and> agg_query t = tid
         \<and> sch_task_queue (ex_scheduler ex') = rest
         \<and> ex_messages ex' = ex_messages ex @ [ProgressRunning now' tid])"
proof -
  have inv: "sched_inv (ex_scheduler ex)" using assms by (rule reachable_sched)
  then show ?thesis
  proof (cases rule: take_task_cases [of ex now now'])
    case (taken tid rest t s)
    let ?ex' = "snd (take_task now now' ex)"
    have "sched_inv (snd (try_take now (ex_scheduler ex)))" using inv by (rule try_take_inv)
    then have inv': "sched_inv (ex_scheduler ?ex')"
      using try_take_eq [OF inv taken(1), of now] taken(2) by auto
    have "\<not> ts_cancellation_requested s" using sched_inv_queue [OF inv, of tid] taken(1,4) by auto
    moreover have "get_task (ex_scheduler ?ex') tid = Inr (s\<lparr>ts_status := Running, ts_ran_at := Some now\<rparr>)"
      using taken(2,6) unfolding get_task_Inr [OF inv'] by simp
    moreover have "get_task (ex_scheduler ex) tid = Inr s" using taken(4) by (simp add: get_task_Inr [OF inv])
    ultimately show ?thesis using taken(1,2,3,5) by auto
  qed simp
qed

theorem take_task_oldest_witness:
  "world_reachable (run_cancelled, None) \<and> sch_task_queue (ex_scheduler run_cancelled) = [0]
   \<and> (\<exists>t ex' s. take_task 13 14 run_cancelled = (Inr (Some t), ex') \<and> agg_query t = 0
        \<and> get_task (ex_scheduler ex') 0 = Inr (s\<lparr>ts_status := Running, ts_ran_at := Some 13\<rparr>))"
proof -
  have "sch_task_queue (ex_scheduler run_cancelled) = [0]" by code_simp
  with take_task_oldest [OF run_reachable(2), of 13 14] run_reachable(2) show ?thesis by auto
qed

text \<open>
  C4. Whatever happened while a task was executing (other tasks created or cancelled, the task
  itself cancelled late), reporting its outcome succeeds: the task is refreshed from the log, ends
  in the final status with that outcome, and the completion is announced.
\<close>

theorem process_task_outcome_finishes:
  assumes "world_reachable (ex, Some t)" and "has_capacity (ex_scheduler ex)"
  shows "\<exists>ex' s. process_task_outcome now now' t outcome ex = (Inr (), ex')
    \<and> get_task (ex_scheduler ex) (agg_query t) = Inr s \<and> ts_status s = Running
    \<and> get_task (ex_scheduler ex') (agg_query t) =
        Inr (s\<lparr>ts_status := Finished outcome, ts_finished_at := Some now\<rparr>)
    \<and> sch_task_queue (ex_scheduler ex') = sch_task_queue (ex_scheduler ex)
    \<and> ex_messages ex' = ex_messages ex @ [ProgressFinished now' (agg_query t) outcome]"
proof -
  have inv: "sched_inv (ex_scheduler ex)" and held: "held_inv (tst_events (world_store ex)) t"
    using world_reachable_inv [OF assms(1)] by (auto simp: world_inv_def)
  from process_task_outcome_eq [OF inv assms(2) held, of now outcome now'] obtain s ex' where
    s: "task_view (tst_events (world_store ex)) (agg_query t) = Inr (Some s)" "ts_status s = Running"
      "task_apply (Some s) (TaskFinished now (agg_query t) outcome) =
         Inr (s\<lparr>ts_status := Finished outcome, ts_finished_at := Some now\<rparr>)"
    and ex': "process_task_outcome now now' t outcome ex = (Inr (), ex')"
      "ex' = ex\<lparr>ex_scheduler := (ex_scheduler ex)\<lparr>sch_store :=
              add_task_event (TaskFinished now (agg_query t) outcome) (world_store ex)\<rparr>,
            ex_messages := ex_messages ex @ [ProgressFinished now' (agg_query t) outcome]\<rparr>" by blast
  have "world_reachable (ex', None)" using assms ex'(1) by (blast intro: world_next step_finish)
  then have inv': "sched_inv (ex_scheduler ex')" by (rule reachable_sched)
  have "get_task (ex_scheduler ex') (agg_query t) = Inr (s\<lparr>ts_status := Finished outcome, ts_finished_at := Some now\<rparr>)"
    using s(1,3) unfolding get_task_Inr [OF inv'] by (simp add: ex'(2) task_view_append del: task_apply.simps)
  moreover have "get_task (ex_scheduler ex) (agg_query t) = Inr s" using s(1) by (simp add: get_task_Inr [OF inv])
  ultimately show ?thesis using s(2) ex' by auto
qed

theorem process_task_outcome_finishes_witness:
  "\<exists>t ex' s. run_task = Some t
    \<and> process_task_outcome 20 21 t (TaskSuccess TaskResultEmpty) run_late = (Inr (), ex')
    \<and> get_task (ex_scheduler ex') (agg_query t) =
        Inr (s\<lparr>ts_status := Finished (TaskSuccess TaskResultEmpty), ts_finished_at := Some 20\<rparr>)"
proof -
  have "run_task \<noteq> None" by code_simp
  then obtain t where t: "run_task = Some t" by blast
  with process_task_outcome_finishes [of run_late t 20 21 "TaskSuccess TaskResultEmpty"] run_reachable(5) run_capacity(6)
  show ?thesis by auto
qed

text \<open>
  C30. At most one task runs at a time, and it is the one the executor holds: a task reads as
  running exactly when the executor has taken it and has not reported its outcome.
\<close>

theorem running_task_is_held:
  assumes "world_reachable (ex, cur)" and "get_task (ex_scheduler ex) tid = Inr s"
  shows "ts_status s = Running \<longleftrightarrow> (\<exists>t. cur = Some t \<and> agg_query t = tid)"
proof -
  have inv: "world_inv (ex, cur)" using assms(1) by (rule world_reachable_inv)
  then have sched: "sched_inv (ex_scheduler ex)" by (simp add: world_inv_def)
  from assms(2) have v: "task_view (tst_events (world_store ex)) tid = Inr (Some s)"
    by (simp add: get_task_Inr [OF sched])
  show ?thesis
  proof
    assume "ts_status s = Running"
    with inv v show "\<exists>t. cur = Some t \<and> agg_query t = tid" by (auto simp: world_inv_def)
  next
    assume "\<exists>t. cur = Some t \<and> agg_query t = tid"
    with inv v show "ts_status s = Running" by (auto simp: world_inv_def held_inv_def)
  qed
qed

theorem running_task_is_held_witness:
  "\<exists>s t. get_task (ex_scheduler run_late) 0 = Inr s \<and> ts_status s = Running
    \<and> run_task = Some t \<and> agg_query t = 0"
proof -
  have "\<not> isl (get_task (ex_scheduler run_late) 0)" by code_simp
  then obtain s where s: "get_task (ex_scheduler run_late) 0 = Inr s" by (auto simp: not_isl_iff)
  have "map_option agg_query run_task = Some 0" by code_simp
  then obtain t where "run_task = Some t" "agg_query t = 0" by auto
  with s running_task_is_held [OF run_reachable(5) s] show ?thesis by auto
qed



text \<open>
  Creating a task succeeds with an identifier no task had before, puts it at the end of the
  queue, and what it returns is what reading the task gives; every other task is as it was.
\<close>

theorem create_task_fresh:
  assumes "world_reachable (ex, cur)" and "has_capacity (ex_scheduler ex)"
  shows "\<exists>s sch'. create_task now plan (ex_scheduler ex) = (Inr s, sch')
    \<and> get_task (ex_scheduler ex) (ts_task_id s) = Inl (Fail (TaskNotFound (ts_task_id s)))
    \<and> get_task sch' (ts_task_id s) = Inr s
    \<and> ts_status s = Queued \<and> ts_logical_plan s = plan \<and> ts_created_at s = now
    \<and> sch_task_queue sch' = sch_task_queue (ex_scheduler ex) @ [ts_task_id s]
    \<and> (\<forall>k. k \<noteq> ts_task_id s \<longrightarrow> get_task sch' k = get_task (ex_scheduler ex) k)"
proof -
  have inv: "sched_inv (ex_scheduler ex)" using assms(1) by (rule reachable_sched)
  obtain tid st where id: "new_task_id (world_store ex) = (tid, st)" by (cases "new_task_id (world_store ex)")
  note fresh = new_task_id_fresh [OF inv assms(2) id] and eq = create_task_eq [OF id, of now plan]
  have inv': "sched_inv (snd (create_task now plan (ex_scheduler ex)))"
    using inv assms(2) by (rule create_task_inv)
  have "get_task (ex_scheduler ex) tid = Inl (Fail (TaskNotFound tid))"
    using fresh by (simp add: get_task_view [OF inv])
  moreover have "get_task (snd (create_task now plan (ex_scheduler ex))) k = get_task (ex_scheduler ex) k"
    if "k \<noteq> tid" for k
    using that fresh unfolding get_task_view [OF inv'] get_task_view [OF inv] by (simp add: eq task_view_append)
  moreover have "get_task (snd (create_task now plan (ex_scheduler ex))) tid =
      fst (create_task now plan (ex_scheduler ex))"
    using fresh unfolding get_task_view [OF inv'] by (simp add: eq task_view_append)
  ultimately show ?thesis using eq by auto
qed

theorem create_task_fresh_witness:
  "\<exists>s sch'. create_task 30 (Probe None None None) (ex_scheduler run_late) = (Inr s, sch')
    \<and> get_task sch' (ts_task_id s) = Inr s \<and> get_task sch' 0 = get_task (ex_scheduler run_late) 0"
proof -
  have "\<not> isl (get_task (ex_scheduler run_late) 0)" by code_simp
  with create_task_fresh [OF run_reachable(5) run_capacity(6), of 30 "Probe None None None"]
  show ?thesis by (metis sum.disc(1))
qed

text \<open>
  Cancelling: an unknown task is reported as such; a task that is finished or was cancelled
  before is returned as it is; any other gets the cancellation mark and leaves the queue. No
  other task, and the order of the others in the queue, is touched.
\<close>

theorem cancel_task_exact:
  assumes "world_reachable (ex, cur)"
  shows "case get_task (ex_scheduler ex) tid of
      Inl f \<Rightarrow> f = Fail (TaskNotFound tid) \<and> cancel_task now tid (ex_scheduler ex) = (Inl f, ex_scheduler ex)
    | Inr s \<Rightarrow>
        if is_Finished (ts_status s) \<or> ts_cancellation_requested s
        then cancel_task now tid (ex_scheduler ex) = (Inr s, ex_scheduler ex)
        else (\<exists>s' sch'. cancel_task now tid (ex_scheduler ex) = (Inr s', sch')
          \<and> s' = s\<lparr>ts_cancellation_requested := True, ts_cancellation_requested_at := Some now\<rparr>
          \<and> get_task sch' tid = Inr s'
          \<and> sch_task_queue sch' = filter (\<lambda>k. k \<noteq> tid) (sch_task_queue (ex_scheduler ex))
          \<and> (\<forall>k. k \<noteq> tid \<longrightarrow> get_task sch' k = get_task (ex_scheduler ex) k))"
proof -
  have inv: "sched_inv (ex_scheduler ex)" using assms by (rule reachable_sched)
  have inv': "sched_inv (snd (cancel_task now tid (ex_scheduler ex)))" using inv by (rule cancel_task_inv)
  have can: "task_can_cancel s \<longleftrightarrow> \<not> (is_Finished (ts_status s) \<or> ts_cancellation_requested s)" for s
    by (cases "ts_status s") (auto simp: task_can_cancel_def)
  from inv show ?thesis
  proof (cases rule: cancel_task_cases [of "ex_scheduler ex" now tid])
    case (cancelled s s')
    have "get_task (snd (cancel_task now tid (ex_scheduler ex))) k =
        (if k = tid then Inr s' else get_task (ex_scheduler ex) k)" for k
      using cancelled(1,4) unfolding get_task_view [OF inv'] get_task_view [OF inv]
      by (simp add: cancelled(5) task_view_append del: task_apply.simps)
    then show ?thesis using cancelled can by (simp add: get_task_view [OF inv])
  qed (simp_all add: get_task_view [OF inv] can)
qed

theorem cancel_task_exact_witness:
  "\<exists>s s' sch'. get_task (ex_scheduler run_created) 1 = Inr s
    \<and> cancel_task 12 1 (ex_scheduler run_created) = (Inr s', sch')
    \<and> ts_cancellation_requested_at s' = Some 12 \<and> get_task sch' 1 = Inr s'"
proof -
  have "\<not> isl (get_task (ex_scheduler run_created) 1)" by code_simp
  then obtain s where s: "get_task (ex_scheduler run_created) 1 = Inr s" by (auto simp: not_isl_iff)
  have "map_sum id (\<lambda>s. is_Finished (ts_status s) \<or> ts_cancellation_requested s)
      (get_task (ex_scheduler run_created) 1) = Inr False" by code_simp
  with s cancel_task_exact [OF run_reachable(1), of 1 12] show ?thesis by auto
qed

text \<open>
  Over any sequence of steps a task keeps its plan and its creation time, its status only
  moves from queued to running to finished, a cancellation mark is never lost, and a finished task
  never changes again.
\<close>

theorem task_evolves_forward:
  assumes "world_reachable (ex, cur)" and "world_steps (ex, cur) (ex', cur')"
    and "get_task (ex_scheduler ex) tid = Inr s"
  shows "\<exists>s'. get_task (ex_scheduler ex') tid = Inr s'
    \<and> status_rank (ts_status s) \<le> status_rank (ts_status s')
    \<and> (ts_cancellation_requested s \<longrightarrow> ts_cancellation_requested s')
    \<and> ts_logical_plan s' = ts_logical_plan s \<and> ts_created_at s' = ts_created_at s
    \<and> (is_Finished (ts_status s) \<longrightarrow> s' = s)"
  using world_steps_evolve [OF assms(2,1)] assms(3) by (force simp: evolves_def)

theorem task_evolves_forward_witness:
  "\<exists>s s'. get_task (ex_scheduler run_taken) 0 = Inr s \<and> get_task (ex_scheduler run_late) 0 = Inr s'
    \<and> ts_status s = Running \<and> status_rank (ts_status s) \<le> status_rank (ts_status s')"
proof -
  have "map_sum id ts_status (get_task (ex_scheduler run_taken) 0) = Inr Running" by code_simp
  then obtain s where s: "get_task (ex_scheduler run_taken) 0 = Inr s" "ts_status s = Running"
    by (cases "get_task (ex_scheduler run_taken) 0") auto
  with task_evolves_forward [OF run_reachable(3,4) s(1)] show ?thesis by auto
qed



text \<open>
  The executor never decides that a task was cancelled: executing a plan gives that outcome
  only when the plan is a probe that was told to end with it.
\<close>

theorem execute_task_never_cancels:
  "execute_task svc plan = Inr TaskCancelledOutcome \<longleftrightarrow>
     (\<exists>d busy. plan = Probe d busy (Some TaskCancelledOutcome))"
  by (cases plan)
    (auto simp: update_dataset_logical_plan_def reset_dataset_logical_plan_def hard_compaction_logical_plan_def
      res_simps split: sum.splits option.splits pull_failure.splits reset_failure.splits)

text \<open>
  The listing of the tasks of a dataset is complete and exact: its total is the number of
  tasks ever created for the dataset, the requested page is a slice of all of them from the
  newest to the oldest, every entry loads, and every entry is a task for that dataset.
\<close>

theorem list_tasks_by_dataset_exact:
  assumes "world_reachable (ex, cur)" and "ids = rev (tasks_created_for d (tst_events (world_store ex)))"
  shows "list_tasks_by_dataset (ex_scheduler ex) d offset limit =
      (map (get_task (ex_scheduler ex)) (take limit (drop offset ids)), length ids)
    \<and> sorted_wrt (>) ids
    \<and> (\<forall>tid \<in> set ids. \<exists>s. get_task (ex_scheduler ex) tid = Inr s \<and> ts_task_id s = tid
          \<and> logical_plan_dataset_id (ts_logical_plan s) = Some d)"
proof -
  have inv: "sched_inv (ex_scheduler ex)" using assms(1) by (rule reachable_sched)
  have index: "(case tst_tasks_by_dataset (world_store ex) d of Some ids \<Rightarrow> ids | None \<Rightarrow> []) = rev ids"
    and sorted: "sorted_wrt (<) (rev ids)"
    using reachable_index [OF assms(1)] by (simp_all add: index_inv_def assms(2))
  have page: "get_tasks_by_dataset (world_store ex) d offset limit = take limit (drop offset ids)"
    using index by (auto simp: get_tasks_by_dataset_def split: option.splits)
  have count: "get_count_tasks_by_dataset (world_store ex) d = length ids"
    using arg_cong [OF index, of length] by (auto simp: get_count_tasks_by_dataset_def split: option.splits)
  have tasks: "\<forall>tid \<in> set ids. \<exists>s. get_task (ex_scheduler ex) tid = Inr s \<and> ts_task_id s = tid
      \<and> logical_plan_dataset_id (ts_logical_plan s) = Some d"
    using listed_task [OF inv] by (simp add: assms(2))
  have "set (take limit (drop offset ids)) \<subseteq> set ids"
    by (meson set_drop_subset set_take_subset subset_trans)
  with tasks have "load_tasks (world_store ex) (take limit (drop offset ids)) =
      map (get_task (ex_scheduler ex)) (take limit (drop offset ids))"
    by (intro load_tasks_eq) blast
  with page count sorted tasks show ?thesis by (simp add: list_tasks_by_dataset_def sorted_wrt_rev)
qed

theorem list_tasks_by_dataset_exact_witness:
  "world_reachable (run_late, run_task)
   \<and> list_tasks_by_dataset (ex_scheduler run_late) run_dataset 0 10 =
       (map (get_task (ex_scheduler run_late)) [1, 0], 2)"
proof -
  have ids: "[1, 0] = rev (tasks_created_for run_dataset (tst_events (world_store run_late)))" by code_simp
  show ?thesis
    using list_tasks_by_dataset_exact [OF run_reachable(5) ids, of 0 10] run_reachable(5) by simp
qed

end
