(* ===== verification/Event_Claims.thy ===== *)
theory Event_Claims
  imports Task_System
begin

text \<open>
  What the event sourcing framework promises on the in-memory store, for every projection: an
  exact range query, the round trip of saving and loading, and that refreshing a stale aggregate
  equals loading it anew.
\<close>

section \<open>A task log for the concrete runs\<close>

definition demo_log :: "task_event list" where
  "demo_log = [TaskCreated 1 0 (Probe None None None), TaskCreated 2 1 (Probe None None None), TaskRunning 3 0]"

definition demo_agg :: task where
  "demo_agg = \<lparr>agg_query = 0,
     agg_state = Some \<lparr>ts_task_id = 0, ts_status = Running, ts_cancellation_requested = False,
       ts_logical_plan = Probe None None None, ts_created_at = 1, ts_ran_at = Some 3,
       ts_cancellation_requested_at = None, ts_finished_at = None\<rparr>,
     agg_pending_events = [], agg_last_stored_event = Some 2\<rparr>"

lemma demo_synced: "synced task_proj (indexed demo_log) demo_agg"
  by code_simp

section \<open>Ranges\<close>

lemma enumerate_range:
  "filter (\<lambda>(i, e). n + s \<le> i \<and> i < n + t \<and> p e) (List.enumerate n es) =
   filter (\<lambda>(_, e). p e) (drop s (List.enumerate n (take t es)))"
proof (induction es arbitrary: n s t)
  case (Cons e es)
  have tail: "filter (\<lambda>(i, e). n + s \<le> i \<and> i < n + t \<and> p e) (List.enumerate (Suc n) es) =
      filter (\<lambda>(i, e). Suc n + (s - 1) \<le> i \<and> i < Suc n + (t - 1) \<and> p e) (List.enumerate (Suc n) es)"
    by (rule filter_cong [OF refl]) (auto simp: in_set_enumerate_eq)
  show ?case
  proof (cases t)
    case 0
    then show ?thesis by (auto simp: filter_empty_conv in_set_enumerate_eq)
  next
    case (Suc t')
    then show ?thesis using tail Cons.IH [of "Suc n" "s - 1" t'] by (cases s) simp_all
  qed
qed simp

lemma get_events_loop_range:
  "get_events_loop p s (take t events) =
     filter (\<lambda>(i, e). int s \<le> i \<and> i < int t \<and> p e) (indexed events)"
proof -
  have "filter (\<lambda>(i, e). s \<le> i \<and> i < t \<and> p e) (List.enumerate 0 events) =
      filter (\<lambda>(_, e). p e) (drop s (List.enumerate 0 (take t events)))"
    using enumerate_range [of 0 s t p events] by simp
  then show ?thesis
    by (simp add: get_events_loop_eq indexed_def filter_map comp_def case_prod_unfold)
qed

lemma event_bound_ok: "- 1 \<le> i \<Longrightarrow> i < 2 ^ 63 - 1 \<Longrightarrow> event_bound i = Inr (nat (i + 1))"
  by (simp add: event_bound_def)

section \<open>Claims\<close>

text \<open>
  A range query on the in-memory store returns exactly the events that match the query and lie
  after the lower and up to the upper bound, in the order they were stored, each with its
  identifier; the loop that reads the store in steps ends after the last of them.
\<close>

theorem inmem_get_events_exact:
  assumes "length events < 2 ^ 63" and "\<forall>i. geo_from opts = Some i \<longrightarrow> - 1 \<le> i \<and> i < int (length events)"
    and "\<forall>i. geo_to opts = Some i \<longrightarrow> - 1 \<le> i \<and> i < int (length events)"
  shows "inmem_get_events matches events query opts =
    Inr (filter (\<lambda>(i, e). (case geo_from opts of None \<Rightarrow> True | Some l \<Rightarrow> l < i)
                       \<and> (case geo_to opts of None \<Rightarrow> True | Some u \<Rightarrow> i \<le> u) \<and> matches e query) (indexed events))"
proof -
  define lo where "lo = (case geo_from opts of None \<Rightarrow> 0 | Some i \<Rightarrow> nat (i + 1))"
  define hi where "hi = (case geo_to opts of None \<Rightarrow> length events | Some i \<Rightarrow> nat (i + 1))"
  have small: "int (length events) < 2 ^ 63" using assms(1) by simp
  have lower: "(case geo_from opts of None \<Rightarrow> Inr 0 | Some i \<Rightarrow> event_bound i) = (Inr lo :: (string, nat) res)"
    using assms(2) small by (auto simp: lo_def event_bound_ok split: option.split)
  have upper: "(case geo_to opts of None \<Rightarrow> Inr (length events) | Some i \<Rightarrow> event_bound i) = (Inr hi :: (string, nat) res)"
    using assms(3) small by (auto simp: hi_def event_bound_ok split: option.split)
  have "hi \<le> length events" using assms(3) by (auto simp: hi_def split: option.split)
  then have "inmem_get_events matches events query opts =
      Inr (filter (\<lambda>(i, e). int lo \<le> i \<and> i < int hi \<and> matches e query) (indexed events))"
    by (simp add: inmem_get_events_def lower upper get_events_loop_range)
  also have "filter (\<lambda>(i, e). int lo \<le> i \<and> i < int hi \<and> matches e query) (indexed events) =
      filter (\<lambda>(i, e). (case geo_from opts of None \<Rightarrow> True | Some l \<Rightarrow> l < i)
        \<and> (case geo_to opts of None \<Rightarrow> True | Some u \<Rightarrow> i \<le> u) \<and> matches e query) (indexed events)"
    by (rule filter_cong [OF refl])
      (use assms(2,3) in \<open>auto simp: lo_def hi_def indexed_def in_set_enumerate_eq split: option.splits\<close>)
  finally show ?thesis .
qed

theorem inmem_get_events_exact_witness:
  "inmem_get_events task_matches demo_log 0 \<lparr>geo_from = Some 0, geo_to = Some 2\<rparr> =
     Inr [(2, TaskRunning 3 0)]"
proof -
  have "length demo_log = 3" by (simp add: demo_log_def)
  then have "inmem_get_events task_matches demo_log 0 \<lparr>geo_from = Some 0, geo_to = Some 2\<rparr> =
      Inr (filter (\<lambda>(i, e). 0 < i \<and> i \<le> 2 \<and> task_matches e 0) (indexed demo_log))"
    by (subst inmem_get_events_exact) simp_all
  also have "filter (\<lambda>(i, e). 0 < i \<and> i \<le> 2 \<and> task_matches e 0) (indexed demo_log) = [(2, TaskRunning 3 0)]"
    by code_simp
  finally show ?thesis .
qed

text \<open>
  C34. Saving and loading: an aggregate whose state is the fold of its stored and pending events is
  saved without error, and loading it back gives the very aggregate that saving left, with
  the same state and nothing pending.
\<close>

theorem save_then_load:
  assumes "synced P (indexed events) a" and "agg_state a \<noteq> None"
  shows "\<exists>a' events'. agg_save (\<lambda>st q. inmem_save_events st) events a = (Inr (), a', events')
    \<and> agg_load P (inmem_get_events (matches_query P) events' (agg_query a) all_events) (agg_query a) = Inr a'
    \<and> agg_state a' = agg_state a \<and> \<not> agg_has_updates a'"
proof -
  from inmem.save_load [OF refl assms] obtain a' events' where
    s: "agg_save (\<lambda>st q. inmem_save_events st) events a = (Inr (), a', events')"
      "agg_load P (inmem_get_events (matches_query P) events' (agg_query a) all_events) (agg_query a) = Inr a'"
      "agg_state a' = agg_state a" by blast
  then have "\<not> agg_has_updates a'"
    by (auto simp: agg_save_def agg_has_updates_def Let_def split: if_splits sum.splits prod.splits)
  with s show ?thesis by blast
qed

theorem save_then_load_witness:
  "\<exists>a a' events'. agg_apply task_proj demo_agg (TaskCancelled 8 0) = (Inr (), a)
    \<and> agg_save (\<lambda>st q. inmem_save_events st) demo_log a = (Inr (), a', events')
    \<and> agg_load task_proj (inmem_get_events (matches_query task_proj) events' 0 all_events) 0 = Inr a'
    \<and> agg_state a' = agg_state a"
proof -
  let ?r = "agg_apply task_proj demo_agg (TaskCancelled 8 0)"
  have ok: "fst ?r = Inr ()" "agg_query (snd ?r) = 0" "agg_state (snd ?r) \<noteq> None"
    "synced task_proj (indexed demo_log) (snd ?r)"
    by code_simp+
  from save_then_load [OF ok(4,3)] ok(1,2) show ?thesis by (metis prod.collapse)
qed

text \<open>
  Refreshing equals reloading: an aggregate that was in step with the store at an earlier
  moment and has nothing pending becomes, after a refresh, the aggregate that loading it from
  scratch gives, and the refresh fails exactly when and how that load fails.
\<close>

theorem update_equals_reload:
  assumes "synced P (indexed old) a" and "agg_pending_events a = []" and "agg_last_stored_event a \<noteq> None"
    and "length (old @ new) < 2 ^ 63"
  shows "agg_update P (inmem_get_events (matches_query P) (old @ new) (agg_query a)
            \<lparr>geo_from = agg_last_stored_event a, geo_to = None\<rparr>) a =
         agg_load P (inmem_get_events (matches_query P) (old @ new) (agg_query a) all_events) (agg_query a)"
proof -
  let ?m = "\<lambda>(_, e). matches_query P e (agg_query a)"
  from assms(3) obtain i where i: "agg_last_stored_event a = Some i" by blast
  define rest where "rest = map (\<lambda>(i, e). (int i, e)) (List.enumerate (length old) new)"
  have lg: "indexed (old @ new) = indexed old @ rest" by (simp add: indexed_append rest_def)
  have old: "filter ?m (indexed old) \<noteq> []" "i = fst (last (filter ?m (indexed old)))"
    "apply_all P None (map snd (filter ?m (indexed old))) = Inr (agg_state a)"
    using assms(1,2) i by (auto simp: synced_def Let_def split: if_splits)
  have "agg_load P (inmem_get_events (matches_query P) (old @ new) (agg_query a) all_events) (agg_query a) =
      map_err (map_fault LoadProjection) (and_then (apply_all P (agg_state a) (map snd (filter ?m rest))) (\<lambda>s.
        Inr \<lparr>agg_query = agg_query a, agg_state = s, agg_pending_events = [],
             agg_last_stored_event = Some (fst (last (filter ?m (indexed old) @ filter ?m rest)))\<rparr>))"
    using old by (simp add: inmem.load_eq [OF refl] lg apply_all_append)
  moreover have "a\<lparr>agg_state := s, agg_last_stored_event :=
        if filter ?m rest = [] then agg_last_stored_event a else Some (fst (last (filter ?m rest)))\<rparr> =
      \<lparr>agg_query = agg_query a, agg_state = s, agg_pending_events = [],
       agg_last_stored_event = Some (fst (last (filter ?m (indexed old) @ filter ?m rest)))\<rparr>" for s
    using assms(2) i old(2) by (cases a) simp
  ultimately show ?thesis
    using inmem.update_eq [OF refl assms(1,2) i lg assms(4)] by (simp add: Let_def)
qed

theorem update_equals_reload_witness:
  "agg_update task_proj (inmem_get_events (matches_query task_proj) (demo_log @ [TaskCancelled 8 0]) 0
      \<lparr>geo_from = Some 2, geo_to = None\<rparr>) demo_agg =
   agg_load task_proj (inmem_get_events (matches_query task_proj) (demo_log @ [TaskCancelled 8 0]) 0 all_events) 0"
  using update_equals_reload [OF demo_synced, of "[TaskCancelled 8 0]"]
  by (simp add: demo_agg_def demo_log_def)

text \<open>
  An event that a projection rejects leaves no trace: the aggregate keeps its state and its
  pending events, and an accepted one is appended to the pending events. This is stated for every
  projection that reports the state with its errors, as the task projection does.
\<close>

theorem apply_keeps_sync:
  assumes "projection P" and "synced P lg a" and "matches_query P e (agg_query a)"
    and "agg_apply P a e = (r, a')" and "\<forall>m. r \<noteq> Inl (Panic m)"
  shows "synced P lg a' \<and> (r \<noteq> Inr () \<longrightarrow> a' = a)
    \<and> (r = Inr () \<longrightarrow> agg_pending_events a' = agg_pending_events a @ [e])"
  using projection.apply_synced [OF assms] by blast

theorem apply_keeps_sync_witness:
  "projection task_proj \<and> (\<exists>err. agg_apply task_proj demo_agg (TaskRunning 5 0) = (Inl (Fail err), demo_agg))"
proof -
  have p: "projection task_proj" by (rule task_projection.projection_axioms)
  have "(case fst (agg_apply task_proj demo_agg (TaskRunning 5 0)) of Inl (Fail _) \<Rightarrow> True | _ \<Rightarrow> False)"
    by code_simp
  then obtain err a' where a': "agg_apply task_proj demo_agg (TaskRunning 5 0) = (Inl (Fail err), a')"
    by (cases "agg_apply task_proj demo_agg (TaskRunning 5 0)") (auto split: sum.splits fault.splits)
  have "matches_query task_proj (TaskRunning 5 0) (agg_query demo_agg)" by code_simp
  from apply_keeps_sync [OF p demo_synced this a'] a' p show ?thesis by simp
qed

end
