(* ===== verification/Multiformat_Claims.thy ===== *)
theory Multiformat_Claims
  imports Externs_Instance
begin

text \<open>
  What the multiformats utilities promise: codes and names of codecs are read back as they were
  written, and so are hashes in their binary and their text form.
\<close>

text \<open>
  A multicodec is recognised by exactly its own code and exactly its own name, and every other
  number or string is rejected with that number or string as the error.
\<close>

theorem multicodec_recognised_exactly:
  "(multicodec_try_from_u32 v = Inr c \<longleftrightarrow> v = multicodec_code c)
   \<and> (multicodec_from_str s = Inr c \<longleftrightarrow> s = multicodec_display c)
   \<and> (multicodec_try_from_u32 v = Inl w \<longleftrightarrow> w = v \<and> v \<notin> range multicodec_code)
   \<and> (multicodec_from_str s = Inl t \<longleftrightarrow> t = s \<and> s \<notin> range multicodec_display)"
proof (intro conjI)
  show number: "multicodec_try_from_u32 v = Inr c \<longleftrightarrow> v = multicodec_code c" for c
    using multicodec_try_from_u32_sound [of v c] by auto
  show name: "multicodec_from_str s = Inr c \<longleftrightarrow> s = multicodec_display c" for c
    using multicodec_from_str_sound [of s c] by auto
  have "multicodec_try_from_u32 v = Inl v \<or> (\<exists>c. multicodec_try_from_u32 v = Inr c)"
    by (simp add: multicodec_try_from_u32_def)
  then show "multicodec_try_from_u32 v = Inl w \<longleftrightarrow> w = v \<and> v \<notin> range multicodec_code"
    using number by auto
  have "multicodec_from_str s = Inl s \<or> (\<exists>c. multicodec_from_str s = Inr c)"
    by (simp add: multicodec_from_str_def)
  then show "multicodec_from_str s = Inl t \<longleftrightarrow> t = s \<and> s \<notin> range multicodec_display"
    using name by auto
qed

text \<open>
  A multihash is read back from its bytes and from its text exactly as it was written. Writing
  never overruns the fixed buffers, and the text is ASCII. The hypothesis is the documented
  behaviour of the varint, hex and hash crates.
\<close>

theorem multihash_roundtrip:
  assumes "externs_ok x" and "wf_multihash h"
  shows "(\<exists>bytes. multihash_as_bytes x h = Inr bytes \<and> length bytes \<le> MAX_MULTIHASH_BINARY_REPR_LEN
            \<and> multihash_from_bytes x bytes = Inr h)
    \<and> (\<exists>s. multihash_to_text x h = Inr s \<and> multihash_from_multibase x s = Inr h \<and> list_all (\<lambda>b. b < 128) s)"
  using multihash_bytes_roundtrip_aux [of x h] multihash_text_roundtrip_aux [OF assms] assms
  by (auto simp: externs_ok_def list_all_iff)

theorem multihash_roundtrip_witness:
  "\<exists>h s. multihash_from_digest_sha3_256 demo_externs [1, 2, 3] = Inr h
    \<and> multihash_to_text demo_externs h = Inr s \<and> multihash_from_multibase demo_externs s = Inr h"
proof -
  have "sha3_ok demo_externs" using demo_externs_ok by (simp add: externs_ok_def)
  from multihash_from_digest_sha3_256_ok [OF this] obtain h where
    h: "multihash_from_digest_sha3_256 demo_externs [1, 2, 3] = Inr h" "wf_multihash h" by blast
  from multihash_roundtrip [OF demo_externs_ok h(2)] h(1) show ?thesis by blast
qed

text \<open>
  Parsing a hash from text panics on exactly one input, the empty string; every other string
  is either parsed or rejected with an error. A parsed hash is always well formed.
\<close>

theorem multihash_parse_panics_only_on_empty:
  "((\<exists>m. multihash_from_multibase x s = Inl (Panic m)) \<longleftrightarrow> s = [])
   \<and> (\<forall>h. multihash_from_multibase x s = Inr h \<longrightarrow> wf_multihash h)"
proof (intro conjI allI impI)
  have "\<not> (\<exists>m. multihash_from_multibase x s = Inl (Panic m))" if "s = c # cs" for c cs
    using that
    by (auto simp: multihash_from_multibase_def multibase_decode_def res_simps
        split: sum.splits option.splits if_splits fault.splits bs58_error.splits)
  moreover have "\<exists>m. multihash_from_multibase x [] = Inl (Panic m)"
    by (simp add: multihash_from_multibase_def multibase_decode_def)
  ultimately show "(\<exists>m. multihash_from_multibase x s = Inl (Panic m)) \<longleftrightarrow> s = []"
    by (cases s) auto
next
  fix h assume "multihash_from_multibase x s = Inr h"
  then obtain c d where "multihash_new c d = Inr h"
    by (auto simp: multihash_from_multibase_def multihash_from_bytes_def res_simps
        split: sum.splits option.splits if_splits fault.splits)
  then show "wf_multihash h" by (rule wf_multihash_new)
qed

theorem multihash_parse_panics_only_on_empty_witness:
  "(\<exists>m. multihash_from_multibase demo_externs [] = Inl (Panic m))
   \<and> \<not> (\<exists>m. multihash_from_multibase demo_externs [0x66] = Inl (Panic m))"
  using multihash_parse_panics_only_on_empty [of demo_externs "[]"]
    multihash_parse_panics_only_on_empty [of demo_externs "[0x66]"] by simp

end
