(* ===== verification/Flow_Time_Wheel.thy ===== *)
theory Flow_Time_Wheel
  imports Prelude "HOL-Library.Product_Lexorder"
begin

text \<open>
  The time wheel of the flow service (\<open>flow_time_wheel.rs\<close>): when each flow is to be activated.
  The binary heap of the source is kept as the sorted list of its records, so that \<open>peek\<close> is the
  head, \<open>pop\<close> the tail and \<open>push\<close> a sorted insertion; records are ordered by activation time and
  then by flow identifier, as the derived order of the source is.
\<close>

section \<open>State and operations\<close>

type_synonym flow_id = u64
type_synonym flow_record = "datetime \<times> flow_id"

record time_wheel =
  tw_flow_heap :: "flow_record list"
  tw_activation_times :: "flow_id \<rightharpoonup> datetime"

definition empty_wheel :: time_wheel where
  "empty_wheel = \<lparr>tw_flow_heap = [], tw_activation_times = Map.empty\<rparr>"

definition nearest_activation_moment :: "time_wheel \<Rightarrow> datetime option" where
  "nearest_activation_moment w = (case tw_flow_heap w of [] \<Rightarrow> None | (t, _) # _ \<Rightarrow> Some t)"

definition is_planned_at :: "(flow_id \<rightharpoonup> datetime) \<Rightarrow> flow_id \<Rightarrow> datetime \<Rightarrow> bool" where
  "is_planned_at due f t \<longleftrightarrow> due f = Some t"

fun clean_top :: "(flow_id \<rightharpoonup> datetime) \<Rightarrow> flow_record list \<Rightarrow> flow_record list" where
  "clean_top due [] = []"
| "clean_top due ((t, f) # heap) =
     (if is_planned_at due f t then (t, f) # heap else clean_top due heap)"

definition clean_top_cancellations :: "time_wheel \<Rightarrow> time_wheel" where
  "clean_top_cancellations w = w\<lparr>tw_flow_heap := clean_top (tw_activation_times w) (tw_flow_heap w)\<rparr>"

fun take_loop ::
  "(flow_id \<rightharpoonup> datetime) \<Rightarrow> datetime \<Rightarrow> flow_record list \<Rightarrow> flow_id list \<Rightarrow> flow_id list \<times> flow_record list" where
  "take_loop due moment [] res = (res, [])"
| "take_loop due moment ((t, f) # heap) res =
     (if t > moment then (res, (t, f) # heap)
      else take_loop due moment heap (if is_planned_at due f moment then res @ [f] else res))"

definition take_nearest_planned_flows :: "time_wheel \<Rightarrow> flow_id list \<times> time_wheel" where
  "take_nearest_planned_flows w =
     (case tw_flow_heap w of
        [] \<Rightarrow> ([], w)
      | (moment, _) # _ \<Rightarrow>
          let (res, heap) = take_loop (tw_activation_times w) moment (tw_flow_heap w) []
          in (res, clean_top_cancellations (w\<lparr>tw_flow_heap := heap\<rparr>)))"

definition plan_flow :: "flow_record \<Rightarrow> time_wheel \<Rightarrow> time_wheel" where
  "plan_flow = (\<lambda>(t, f) w.
     w\<lparr>tw_activation_times := (tw_activation_times w)(f \<mapsto> t),
       tw_flow_heap := insort (t, f) (tw_flow_heap w)\<rparr>)"

definition unplan_flow :: "flow_id \<Rightarrow> time_wheel \<Rightarrow> time_wheel" where
  "unplan_flow f w = clean_top_cancellations (w\<lparr>tw_activation_times := (tw_activation_times w)(f := None)\<rparr>)"

definition activate_at :: "datetime \<Rightarrow> flow_id \<Rightarrow> time_wheel \<Rightarrow> time_wheel" where
  "activate_at t f w =
     (case tw_activation_times w f of
        Some earlier \<Rightarrow> if t < earlier then plan_flow (t, f) (unplan_flow f w) else w
      | None \<Rightarrow> plan_flow (t, f) w)"

definition get_planned_flow_activation_time :: "time_wheel \<Rightarrow> flow_id \<Rightarrow> datetime option" where
  "get_planned_flow_activation_time w f = tw_activation_times w f"

datatype time_wheel_cancel_error = FlowNotPlanned flow_id

definition cancel_flow_activation :: "flow_id \<Rightarrow> time_wheel \<Rightarrow> (time_wheel_cancel_error + unit) \<times> time_wheel" where
  "cancel_flow_activation f w =
     (if tw_activation_times w f \<noteq> None then (Inr (), unplan_flow f w)
      else (Inl (FlowNotPlanned f), w))"

section \<open>What is due\<close>

text \<open>
  A flow is waiting in the wheel when the heap still has the record of its activation time. The
  due of flows that were taken stay in the map, so the map alone does not say who is waiting.
\<close>

definition waiting :: "time_wheel \<Rightarrow> flow_id \<rightharpoonup> datetime" where
  "waiting w f =
     (case tw_activation_times w f of
        Some t \<Rightarrow> if (t, f) \<in> set (tw_flow_heap w) then Some t else None
      | None \<Rightarrow> None)"

fun top_planned :: "(flow_id \<rightharpoonup> datetime) \<Rightarrow> flow_record list \<Rightarrow> bool" where
  "top_planned due [] \<longleftrightarrow> True"
| "top_planned due ((t, f) # heap) \<longleftrightarrow> due f = Some t"

definition wheel_inv :: "time_wheel \<Rightarrow> bool" where
  "wheel_inv w \<longleftrightarrow> sorted (tw_flow_heap w) \<and> top_planned (tw_activation_times w) (tw_flow_heap w)"

lemma clean_top_sorted: "sorted heap \<Longrightarrow> sorted (clean_top due heap)"
  by (induction due heap rule: clean_top.induct) auto

lemma clean_top_head: "top_planned due (clean_top due heap)"
  by (induction due heap rule: clean_top.induct) (auto simp: is_planned_at_def)

lemma clean_top_planned:
  "is_planned_at due f t \<Longrightarrow> (t, f) \<in> set (clean_top due heap) \<longleftrightarrow> (t, f) \<in> set heap"
  by (induction due heap rule: clean_top.induct) auto

lemma clean_inv: "sorted (tw_flow_heap w) \<Longrightarrow> wheel_inv (clean_top_cancellations w)"
  using clean_top_head [of "tw_activation_times w" "tw_flow_heap w"]
  by (simp add: wheel_inv_def clean_top_cancellations_def clean_top_sorted)

lemma clean_waiting: "waiting (clean_top_cancellations w) = waiting w"
  by (rule ext) (simp add: waiting_def clean_top_cancellations_def clean_top_planned is_planned_at_def split: option.split)

lemma wheel_inv_empty: "wheel_inv empty_wheel"
  by (simp add: wheel_inv_def empty_wheel_def)

lemma waiting_empty: "waiting empty_wheel = Map.empty"
  by (rule ext) (simp add: waiting_def empty_wheel_def)

section \<open>The operations on what is due\<close>

lemma insort_head: "insort x xs = x # xs \<or> (\<exists>y ys. xs = y # ys \<and> insort x xs = y # insort x ys)"
  by (cases xs) auto

lemma plan_inv:
  assumes "wheel_inv w" and "tw_activation_times w f = None"
  shows "wheel_inv (plan_flow (t, f) w)"
proof -
  have "sorted (insort (t, f) (tw_flow_heap w))" using assms(1) by (simp add: wheel_inv_def sorted_insort)
  moreover have "top_planned ((tw_activation_times w)(f \<mapsto> t)) (insort (t, f) (tw_flow_heap w))"
    using insort_head [of "(t, f)" "tw_flow_heap w"] assms by (auto simp: wheel_inv_def)
  ultimately show ?thesis by (simp add: wheel_inv_def plan_flow_def)
qed

lemma plan_waiting: "waiting (plan_flow (t, f) w) = (waiting w)(f \<mapsto> t)"
  by (rule ext) (auto simp: waiting_def plan_flow_def set_insort_key split: option.split)

lemma unplan_inv: "wheel_inv w \<Longrightarrow> wheel_inv (unplan_flow f w)"
  by (simp add: unplan_flow_def wheel_inv_def clean_inv [unfolded wheel_inv_def])

lemma unplan_waiting: "waiting (unplan_flow f w) = (waiting w)(f := None)"
  unfolding unplan_flow_def clean_waiting by (rule ext) (simp add: waiting_def split: option.split)

lemma unplan_times: "tw_activation_times (unplan_flow f w) = (tw_activation_times w)(f := None)"
  by (simp add: unplan_flow_def clean_top_cancellations_def)

lemma activate_inv: "wheel_inv w \<Longrightarrow> wheel_inv (activate_at t f w)"
  by (auto simp: activate_at_def unplan_times intro!: plan_inv unplan_inv split: option.split)

lemma cancel_inv: "wheel_inv w \<Longrightarrow> wheel_inv (snd (cancel_flow_activation f w))"
  by (simp add: cancel_flow_activation_def unplan_inv)

text \<open>The loop splits the heap at the moment and keeps the flows that are still planned.\<close>

lemma take_loop_eq:
  assumes "sorted heap"
  shows "take_loop due moment heap res =
    (res @ map snd (filter (\<lambda>(t, f). due f = Some moment) (takeWhile (\<lambda>(t, f). t \<le> moment) heap)),
     dropWhile (\<lambda>(t, f). t \<le> moment) heap)"
  using assms
  by (induction due moment heap res rule: take_loop.induct) (auto simp: is_planned_at_def)

lemma sorted_from:
  assumes "sorted ((moment, f) # heap)" and "(t, g) \<in> set ((moment, f) # heap)"
  shows "moment \<le> t"
  using assms by (auto simp: less_eq_prod_def)

definition due_now :: "time_wheel \<Rightarrow> datetime \<Rightarrow> flow_id list" where
  "due_now w moment = map snd (filter (\<lambda>(t, f). t = moment \<and> tw_activation_times w f = Some moment) (tw_flow_heap w))"

lemma take_nearest_eq:
  assumes "wheel_inv w" and "tw_flow_heap w = (moment, f) # rest"
  shows "take_nearest_planned_flows w =
    (due_now w moment, clean_top_cancellations (w\<lparr>tw_flow_heap := filter (\<lambda>(t, g). t \<noteq> moment) (tw_flow_heap w)\<rparr>))"
proof -
  let ?heap = "tw_flow_heap w"
  have sorted: "sorted ?heap" using assms(1) by (simp add: wheel_inv_def)
  have ge: "\<forall>(t, g) \<in> set ?heap. moment \<le> t"
    using sorted sorted_from [of moment f rest] unfolding assms(2) by blast
  have sorted_fst: "sorted (map fst ?heap)"
    unfolding sorted_map by (rule sorted_wrt_mono_rel [OF _ sorted]) (auto simp: less_eq_prod_def)
  have upto: "takeWhile (\<lambda>(t, g). t \<le> moment) xs = filter (\<lambda>(t, g). t = moment) xs
      \<and> dropWhile (\<lambda>(t, g). t \<le> moment) xs = filter (\<lambda>(t, g). t \<noteq> moment) xs"
    if "sorted (map fst xs)" "\<forall>(t, g) \<in> set xs. moment \<le> t" for xs :: "flow_record list"
    using that
  proof (induction xs)
    case (Cons x xs)
    obtain t g where x: "x = (t, g)" by (cases x)
    show ?case
    proof (cases "t = moment")
      case True
      with Cons show ?thesis by (simp add: x)
    next
      case False
      with Cons.prems have "\<forall>(s, h) \<in> set (x # xs). moment < s" by (force simp: x)
      then have "filter (\<lambda>(s, h). s = moment) (x # xs) = []" "filter (\<lambda>(s, h). s \<noteq> moment) (x # xs) = x # xs"
        by (auto simp: filter_empty_conv filter_id_conv)
      with False Cons.prems(2) show ?thesis by (auto simp: x)
    qed
  qed simp
  from upto [OF sorted_fst ge] have
    "takeWhile (\<lambda>(t, g). t \<le> moment) ?heap = filter (\<lambda>(t, g). t = moment) ?heap"
    "dropWhile (\<lambda>(t, g). t \<le> moment) ?heap = filter (\<lambda>(t, g). t \<noteq> moment) ?heap" by simp_all
  then show ?thesis
    using take_loop_eq [OF sorted, of "tw_activation_times w" moment "[]"] assms(2)
    by (simp add: take_nearest_planned_flows_def due_now_def case_prod_unfold)
qed

lemma take_nearest_inv: "wheel_inv w \<Longrightarrow> wheel_inv (snd (take_nearest_planned_flows w))"
proof (cases "tw_flow_heap w")
  case Nil
  then show "wheel_inv w \<Longrightarrow> ?thesis" by (simp add: take_nearest_planned_flows_def)
next
  case (Cons r rest)
  obtain moment f where r: "r = (moment, f)" by (cases r)
  assume inv: "wheel_inv w"
  then have "sorted (filter (\<lambda>(t, g). t \<noteq> moment) (tw_flow_heap w))"
    using sorted_filter [of id "tw_flow_heap w"] by (simp add: wheel_inv_def)
  then show ?thesis using take_nearest_eq [OF inv] Cons by (simp add: r clean_inv)
qed

lemma due_now_set: "set (due_now w moment) = {f. waiting w f = Some moment}"
  by (force simp: due_now_def waiting_def split: option.splits if_splits)

lemma due_now_sorted: "wheel_inv w \<Longrightarrow> sorted (due_now w moment)"
proof -
  assume "wheel_inv w"
  then have "sorted_wrt (\<le>) (filter (\<lambda>(t, f). t = moment \<and> tw_activation_times w f = Some moment) (tw_flow_heap w))"
    by (simp add: wheel_inv_def sorted_wrt_filter)
  then show ?thesis
    unfolding due_now_def sorted_map
    by (rule sorted_wrt_mono_rel [rotated]) (auto simp: less_eq_prod_def)
qed

lemma take_waiting:
  assumes "wheel_inv w" and "nearest_activation_moment w = Some moment"
  shows "fst (take_nearest_planned_flows w) = due_now w moment"
    and "waiting (snd (take_nearest_planned_flows w)) = (\<lambda>f. if waiting w f = Some moment then None else waiting w f)"
proof -
  from assms(2) obtain f rest where heap: "tw_flow_heap w = (moment, f) # rest"
    by (auto simp: nearest_activation_moment_def split: list.splits)
  note eq = take_nearest_eq [OF assms(1) heap]
  show "fst (take_nearest_planned_flows w) = due_now w moment" by (simp add: eq)
  show "waiting (snd (take_nearest_planned_flows w)) = (\<lambda>f. if waiting w f = Some moment then None else waiting w f)"
    by (rule ext) (auto simp: eq clean_waiting waiting_def split: option.splits)
qed

lemma nearest_waiting:
  assumes "wheel_inv w"
  shows "nearest_activation_moment w = None \<longleftrightarrow> waiting w = Map.empty"
    and "nearest_activation_moment w = Some moment \<Longrightarrow> (\<exists>f. waiting w f = Some moment)"
    and "nearest_activation_moment w = Some moment \<Longrightarrow> waiting w f = Some t \<Longrightarrow> moment \<le> t"
proof -
  show "nearest_activation_moment w = None \<longleftrightarrow> waiting w = Map.empty"
  proof (cases "tw_flow_heap w")
    case (Cons r rest)
    obtain t f where "r = (t, f)" by (cases r)
    with Cons assms have "waiting w f = Some t" by (auto simp: waiting_def wheel_inv_def)
    then have "waiting w \<noteq> Map.empty" by (metis option.distinct(1))
    with Cons \<open>r = (t, f)\<close> show ?thesis by (simp add: nearest_activation_moment_def)
  qed (auto simp: nearest_activation_moment_def waiting_def fun_eq_iff split: option.split)
next
  assume "nearest_activation_moment w = Some moment"
  then obtain f rest where heap: "tw_flow_heap w = (moment, f) # rest"
    by (auto simp: nearest_activation_moment_def split: list.splits)
  with assms have "waiting w f = Some moment" by (simp add: waiting_def wheel_inv_def)
  then show "\<exists>f. waiting w f = Some moment" by blast
next
  assume "nearest_activation_moment w = Some moment" and t: "waiting w f = Some t"
  then obtain g rest where heap: "tw_flow_heap w = (moment, g) # rest"
    by (auto simp: nearest_activation_moment_def split: list.splits)
  from t have "(t, f) \<in> set (tw_flow_heap w)" by (auto simp: waiting_def split: option.splits if_splits)
  with sorted_from [of moment g rest t f] assms show "moment \<le> t" by (simp add: wheel_inv_def heap)
qed

section \<open>The contract of an activation queue\<close>

locale activation_queue =
  fixes inv :: "'w \<Rightarrow> bool" and due :: "'w \<Rightarrow> 'f \<rightharpoonup> datetime"
    and nearest :: "'w \<Rightarrow> datetime option" and take_due :: "'w \<Rightarrow> 'f list \<times> 'w"
  assumes nearest_None: "inv w \<Longrightarrow> nearest w = None \<longleftrightarrow> due w = Map.empty"
    and nearest_attained: "inv w \<Longrightarrow> nearest w = Some m \<Longrightarrow> \<exists>f. due w f = Some m"
    and nearest_least: "inv w \<Longrightarrow> nearest w = Some m \<Longrightarrow> due w f = Some t \<Longrightarrow> m \<le> t"
    and take_due_inv: "inv w \<Longrightarrow> inv (snd (take_due w))"
    and take_due_set: "inv w \<Longrightarrow> nearest w = Some m \<Longrightarrow> set (fst (take_due w)) = {f. due w f = Some m}"
    and take_due_rest: "inv w \<Longrightarrow> nearest w = Some m \<Longrightarrow>
      due (snd (take_due w)) = (\<lambda>f. if due w f = Some m then None else due w f)"
begin

lemma next_slot_later:
  assumes "inv w" and "nearest w = Some m" and "nearest (snd (take_due w)) = Some m'"
  shows "m < m'"
proof -
  from nearest_attained [OF take_due_inv [OF assms(1)] assms(3)] obtain f where
    "due (snd (take_due w)) f = Some m'" by blast
  then have "due w f = Some m'" "m' \<noteq> m"
    using take_due_rest [OF assms(1,2)] by (auto split: if_splits)
  with nearest_least [OF assms(1,2)] show ?thesis by fastforce
qed

lemma not_taken_still_due:
  "inv w \<Longrightarrow> nearest w = Some m \<Longrightarrow> due w f = Some t \<Longrightarrow>
   f \<in> set (fst (take_due w)) \<or> due (snd (take_due w)) f = Some t"
  by (auto simp: take_due_set take_due_rest)

lemma taken_was_due:
  "inv w \<Longrightarrow> due (snd (take_due w)) f = Some t \<Longrightarrow> nearest w = Some m \<Longrightarrow> due w f = Some t \<and> t \<noteq> m"
  by (auto simp: take_due_rest split: if_splits)

end

text \<open>A queue whose slots are finitely many: taking one slot per round catches up.\<close>

locale finite_activation_queue = activation_queue +
  fixes records :: "'a \<Rightarrow> nat"
  assumes take_due_shrinks: "inv w \<Longrightarrow> nearest w = Some m \<Longrightarrow> records (snd (take_due w)) < records w"
begin

lemma catch_up:
  assumes "inv w" and "records w \<le> length nows" and "\<forall>n \<in> set nows. now \<le> n"
    and "due (foldl (\<lambda>w n. case nearest w of Some m \<Rightarrow> if m \<le> n then snd (take_due w) else w | None \<Rightarrow> w) w nows) f = Some t"
  shows "now < t \<and> due w f = Some t"
  using assms
proof (induction nows arbitrary: w)
  case Nil
  then have "nearest w = None" using take_due_shrinks [of w] by (cases "nearest w") auto
  with Nil show ?case by (simp add: nearest_None)
next
  case (Cons n nows)
  let ?round = "\<lambda>w n. case nearest w of Some m \<Rightarrow> if m \<le> n then snd (take_due w) else w | None \<Rightarrow> w"
  show ?case
  proof (cases "\<exists>m \<le> n. nearest w = Some m")
    case True
    then obtain m where m: "nearest w = Some m" "m \<le> n" by blast
    have "now < t \<and> due (snd (take_due w)) f = Some t"
      using Cons.prems m take_due_shrinks [OF Cons.prems(1) m(1)]
      by (intro Cons.IH) (simp_all add: take_due_inv)
    with taken_was_due [OF Cons.prems(1) _ m(1)] show ?thesis by blast
  next
    case False
    then have later: "now < m" if "nearest w = Some m" for m using that Cons.prems(3) by force
    have stays: "foldl ?round w (n # nows) = foldl ?round w nows"
      using False by (auto split: option.split)
    have keeps: "inv w' \<Longrightarrow> due (foldl ?round w' ns) f = Some t \<Longrightarrow> due w' f = Some t" for w' ns
    proof (induction ns arbitrary: w')
      case (Cons n ns)
      let ?w = "case nearest w' of Some m \<Rightarrow> if m \<le> n then snd (take_due w') else w' | None \<Rightarrow> w'"
      have "inv ?w" using Cons.prems(1) by (auto simp: take_due_inv split: option.split)
      with Cons have "due ?w f = Some t" by simp
      with taken_was_due [OF Cons.prems(1)] show ?case by (auto split: option.splits if_splits)
    qed simp
    have "due w f = Some t" using keeps [OF Cons.prems(1)] Cons.prems(4) stays by simp
    with later nearest_None [OF Cons.prems(1)] nearest_least [OF Cons.prems(1)] show ?thesis
      by (cases "nearest w") fastforce+
  qed
qed

end

interpretation wheel_queue: activation_queue wheel_inv waiting nearest_activation_moment take_nearest_planned_flows
  by unfold_locales
    (simp_all add: nearest_waiting take_nearest_inv take_waiting due_now_set)

lemma clean_top_length: "length (clean_top due heap) \<le> length heap"
  by (induction due heap rule: clean_top.induct) auto

lemma take_nearest_shrinks:
  assumes "wheel_inv w" and "nearest_activation_moment w = Some m"
  shows "length (tw_flow_heap (snd (take_nearest_planned_flows w))) < length (tw_flow_heap w)"
proof -
  from assms(2) obtain f rest where heap: "tw_flow_heap w = (m, f) # rest"
    by (auto simp: nearest_activation_moment_def split: list.splits)
  let ?rest = "filter (\<lambda>(t, g). t \<noteq> m) (tw_flow_heap w)"
  have "length ?rest < length (tw_flow_heap w)"
    using length_filter_le [of "\<lambda>(t, g). t \<noteq> m" rest] by (simp add: heap less_Suc_eq_le)
  moreover have "length (tw_flow_heap (snd (take_nearest_planned_flows w))) \<le> length ?rest"
    by (simp add: take_nearest_eq [OF assms(1) heap] clean_top_cancellations_def clean_top_length)
  ultimately show ?thesis by simp
qed

interpretation wheel: finite_activation_queue wheel_inv waiting nearest_activation_moment take_nearest_planned_flows
  "\<lambda>w. length (tw_flow_heap w)"
  by unfold_locales (rule take_nearest_shrinks)

section \<open>Wheels in use\<close>

text \<open>
  The flow service activates a flow again only while the wheel remembers its time; a flow that
  was cancelled is aborted and never comes back. The wheels that arise this way hold each record
  once.
\<close>

inductive wheel_reachable :: "time_wheel \<Rightarrow> bool" where
  wheel_init: "wheel_reachable empty_wheel"
| wheel_activate: "wheel_reachable w \<Longrightarrow> tw_activation_times w f \<noteq> None \<or> f \<notin> snd ` set (tw_flow_heap w) \<Longrightarrow>
    wheel_reachable (activate_at t f w)"
| wheel_cancel: "wheel_reachable w \<Longrightarrow> wheel_reachable (snd (cancel_flow_activation f w))"
| wheel_take: "wheel_reachable w \<Longrightarrow> wheel_reachable (snd (take_nearest_planned_flows w))"

definition records_once :: "time_wheel \<Rightarrow> bool" where
  "records_once w \<longleftrightarrow>
     distinct (tw_flow_heap w)
     \<and> (\<forall>t f t'. (t, f) \<in> set (tw_flow_heap w) \<longrightarrow> tw_activation_times w f = Some t' \<longrightarrow> t' \<le> t)"

lemma clean_top_subset: "set (clean_top due heap) \<subseteq> set heap"
  by (induction due heap rule: clean_top.induct) auto

lemma clean_top_distinct: "distinct heap \<Longrightarrow> distinct (clean_top due heap)"
  by (induction due heap rule: clean_top.induct) auto

lemma clean_once: "records_once w \<Longrightarrow> records_once (clean_top_cancellations w)"
  using clean_top_subset [of "tw_activation_times w" "tw_flow_heap w"]
  by (simp add: records_once_def clean_top_cancellations_def clean_top_distinct) blast

lemma unplan_once: "records_once w \<Longrightarrow> records_once (unplan_flow f w)"
  unfolding unplan_flow_def by (rule clean_once) (auto simp: records_once_def)

lemma plan_once:
  assumes "records_once w" and "\<forall>t'. (t', f) \<in> set (tw_flow_heap w) \<longrightarrow> t < t'"
  shows "records_once (plan_flow (t, f) w)"
  using assms by (auto simp: records_once_def plan_flow_def set_insort_key distinct_insort)

lemma activate_once:
  assumes "records_once w" and "tw_activation_times w f \<noteq> None \<or> f \<notin> snd ` set (tw_flow_heap w)"
  shows "records_once (activate_at t f w)"
proof (cases "tw_activation_times w f")
  case None
  with assms have "\<forall>t'. (t', f) \<notin> set (tw_flow_heap w)" by force
  with None assms(1) show ?thesis by (simp add: activate_at_def plan_once)
next
  case (Some earlier)
  have "set (tw_flow_heap (unplan_flow f w)) \<subseteq> set (tw_flow_heap w)"
    by (simp add: unplan_flow_def clean_top_cancellations_def clean_top_subset)
  moreover have "\<forall>t'. (t', f) \<in> set (tw_flow_heap w) \<longrightarrow> earlier \<le> t'"
    using assms(1) Some by (auto simp: records_once_def)
  ultimately have "\<forall>t'. (t', f) \<in> set (tw_flow_heap (unplan_flow f w)) \<longrightarrow> t < t'" if "t < earlier"
    using that by fastforce
  with Some assms(1) show ?thesis by (simp add: activate_at_def plan_once unplan_once)
qed

lemma reachable_wheel: "wheel_reachable w \<Longrightarrow> wheel_inv w \<and> records_once w"
proof (induction rule: wheel_reachable.induct)
  case wheel_init
  then show ?case by (simp add: wheel_inv_empty) (simp add: records_once_def empty_wheel_def)
next
  case (wheel_activate w f t)
  then show ?case by (simp add: activate_inv activate_once)
next
  case (wheel_cancel w f)
  then show ?case by (simp add: cancel_inv) (simp add: cancel_flow_activation_def unplan_once)
next
  case (wheel_take w)
  have "records_once (snd (take_nearest_planned_flows w))"
  proof (cases "tw_flow_heap w")
    case (Cons r rest)
    obtain moment f where "r = (moment, f)" by (cases r)
    with Cons wheel_take.IH take_nearest_eq [of w moment f rest]
    have "snd (take_nearest_planned_flows w) =
        clean_top_cancellations (w\<lparr>tw_flow_heap := filter (\<lambda>(t, g). t \<noteq> moment) (tw_flow_heap w)\<rparr>)" by simp
    moreover have "records_once (w\<lparr>tw_flow_heap := filter (\<lambda>(t, g). t \<noteq> moment) (tw_flow_heap w)\<rparr>)"
      using wheel_take.IH by (auto simp: records_once_def)
    ultimately show ?thesis by (simp add: clean_once)
  qed (use wheel_take.IH in \<open>simp add: take_nearest_planned_flows_def\<close>)
  with wheel_take.IH show ?case by (simp add: take_nearest_inv)
qed

lemma due_now_once:
  assumes "wheel_inv w" and "records_once w"
  shows "due_now w moment = sorted_list_of_set {f. waiting w f = Some moment}"
proof -
  have "distinct (due_now w moment)"
    using assms(2) by (auto simp: due_now_def records_once_def distinct_map inj_on_def)
  with due_now_sorted [OF assms(1)] due_now_set [of w moment] show ?thesis
    by (metis sorted_list_of_set.idem_if_sorted_distinct)
qed

end
