(* ===== verification/Flow_Entities.thy ===== *)
theory Flow_Entities
  imports Task_System Flow_Time_Wheel
begin

text \<open>
  The entities of the flow system (\<open>domain/flow-system/domain/src/entities\<close>): keys, rules,
  triggers, start conditions and outcomes of flows, the event-sourced state of a flow and of a
  flow configuration, and the commands of their aggregates.
\<close>

section \<open>Keys and types (flow_key.rs, flow_type.rs)\<close>

datatype dataset_flow_type = Ingest | ExecuteTransformFlow | HardCompaction | ResetFlow

definition all_dataset_flow_types :: "dataset_flow_type list" where
  "all_dataset_flow_types = [Ingest, ExecuteTransformFlow, HardCompaction, ResetFlow]"

fun dataset_kind_restriction :: "dataset_flow_type \<Rightarrow> dataset_kind option" where
  "dataset_kind_restriction Ingest = Some Root"
| "dataset_kind_restriction HardCompaction = Some Root"
| "dataset_kind_restriction ExecuteTransformFlow = Some Derivative"
| "dataset_kind_restriction ResetFlow = None"

datatype system_flow_type = GC

datatype any_flow_type = DatasetType dataset_flow_type | SystemType system_flow_type

datatype followup_method = FollowupIgnore | FollowupTriggerDependent

fun success_followup_method :: "any_flow_type \<Rightarrow> followup_method" where
  "success_followup_method (DatasetType _) = FollowupTriggerDependent"
| "success_followup_method (SystemType _) = FollowupIgnore"

record flow_key_dataset =
  fkd_dataset_id :: dataset_id
  fkd_flow_type :: dataset_flow_type

datatype flow_key = DatasetKey flow_key_dataset | SystemKey system_flow_type

fun flow_key_type :: "flow_key \<Rightarrow> any_flow_type" where
  "flow_key_type (DatasetKey k) = DatasetType (fkd_flow_type k)"
| "flow_key_type (SystemKey t) = SystemType t"

section \<open>Rules (schedule.rs, transform_rule.rs, compaction_rule.rs, ingest_rule.rs, reset_rule.rs)\<close>

text \<open>
  A cron schedule is kept as its expression; what the \<open>cron\<close> crate computes from it is the
  parameter \<open>cron_after\<close> of the operations that need it. Durations are in nanoseconds.
\<close>

datatype schedule = TimeDelta duration | Cron string

definition next_activation_time ::
  "(string \<Rightarrow> datetime \<Rightarrow> datetime option) \<Rightarrow> schedule \<Rightarrow> datetime \<Rightarrow> datetime option \<Rightarrow> ('e, datetime) res" where
  "next_activation_time cron_after sched now last_success_time =
     (case sched of
        TimeDelta every \<Rightarrow>
          (case last_success_time of
             Some t \<Rightarrow> Inr (if t + every < now then now else t + every)
           | None \<Rightarrow> Inr now)
      | Cron expr \<Rightarrow>
          (case cron_after expr now of
             Some t \<Rightarrow> Inr t
           | None \<Rightarrow> Inl (Panic ''CRON expressions we allow should never expire'')))"

record transform_rule =
  tr_min_records_to_await :: u64
  tr_max_batching_interval :: duration

definition MAX_BATCHING_INTERVAL_HOURS :: int where
  "MAX_BATCHING_INTERVAL_HOURS = 24"

definition hours :: "int \<Rightarrow> duration" where
  "hours n = n * 3600 * 10 ^ 9"

datatype transform_rule_error = MinRecordsToAwaitNotPositive | MinIntervalNotPositive | MaxIntervalAboveLimit

definition transform_rule_new_checked :: "u64 \<Rightarrow> duration \<Rightarrow> transform_rule_error + transform_rule" where
  "transform_rule_new_checked min_records interval =
     (if min_records = 0 then Inl MinRecordsToAwaitNotPositive
      else if 0 \<ge> interval then Inl MinIntervalNotPositive
      else if interval > hours MAX_BATCHING_INTERVAL_HOURS then Inl MaxIntervalAboveLimit
      else Inr \<lparr>tr_min_records_to_await = min_records, tr_max_batching_interval = interval\<rparr>)"

record compaction_rule_full =
  crf_max_slice_size :: u64
  crf_max_slice_records :: u64
  crf_recursive :: bool

datatype compaction_rule = CompactionFull compaction_rule_full | CompactionMetadataOnly bool

datatype compaction_rule_error = MaxSliceRecordsNotPositive | MaxSliceSizeNotPositive

definition compaction_rule_new_checked ::
  "u64 \<Rightarrow> u64 \<Rightarrow> bool \<Rightarrow> compaction_rule_error + compaction_rule_full" where
  "compaction_rule_new_checked max_size max_records rec =
     (if max_size = 0 then Inl MaxSliceSizeNotPositive
      else if max_records = 0 then Inl MaxSliceRecordsNotPositive
      else Inr \<lparr>crf_max_slice_size = max_size, crf_max_slice_records = max_records, crf_recursive = rec\<rparr>)"

fun compaction_max_slice_size :: "compaction_rule \<Rightarrow> u64 option" where
  "compaction_max_slice_size (CompactionFull r) = Some (crf_max_slice_size r)"
| "compaction_max_slice_size (CompactionMetadataOnly _) = None"

fun compaction_max_slice_records :: "compaction_rule \<Rightarrow> u64 option" where
  "compaction_max_slice_records (CompactionFull r) = Some (crf_max_slice_records r)"
| "compaction_max_slice_records (CompactionMetadataOnly _) = None"

fun compaction_recursive :: "compaction_rule \<Rightarrow> bool" where
  "compaction_recursive (CompactionFull r) = crf_recursive r"
| "compaction_recursive (CompactionMetadataOnly rec) = rec"

record ingest_rule =
  ir_fetch_uncacheable :: bool
  ir_schedule_condition :: schedule

record reset_rule =
  rr_new_head_hash :: "multihash option"
  rr_old_head_hash :: "multihash option"
  rr_recursive :: bool

datatype flow_config_rule =
    RuleSchedule schedule
  | RuleTransform transform_rule
  | RuleCompaction compaction_rule
  | RuleIngest ingest_rule
  | RuleReset reset_rule

datatype flow_config_snapshot =
    SnapTransform transform_rule
  | SnapCompaction compaction_rule
  | SnapSchedule schedule
  | SnapIngest ingest_rule
  | SnapReset reset_rule

section \<open>Outcomes (flow_outcome.rs)\<close>

datatype flow_result_update =
    UpdateChanged "multihash option" multihash
  | UpdateUpToDate bool

datatype flow_result =
    FlowResultEmpty
  | FlowDatasetUpdate flow_result_update
  | FlowDatasetCompact multihash nat nat
  | FlowDatasetReset multihash

fun flow_result_is_empty :: "flow_result \<Rightarrow> bool" where
  "flow_result_is_empty FlowResultEmpty = True"
| "flow_result_is_empty _ = False"

datatype flow_error = FlowErrorFailed | FlowRootDatasetCompacted dataset_id | FlowResetHeadNotFound

fun flow_error_of_task_error :: "task_error \<Rightarrow> flow_error" where
  "flow_error_of_task_error TaskErrorEmpty = FlowErrorFailed"
| "flow_error_of_task_error (RootDatasetCompacted d) = FlowRootDatasetCompacted d"
| "flow_error_of_task_error ResetHeadNotFound = FlowResetHeadNotFound"

fun flow_result_of_task_result :: "task_result \<Rightarrow> flow_result" where
  "flow_result_of_task_result TaskResultEmpty = FlowResultEmpty"
| "flow_result_of_task_result (UpdateDatasetResult (PullUpToDate u)) =
     (case u of
        UpToDateSync \<Rightarrow> FlowResultEmpty
      | UpToDateTransform \<Rightarrow> FlowResultEmpty
      | UpToDateSetWatermark \<Rightarrow> FlowResultEmpty
      | UpToDatePollingIngest uncacheable \<Rightarrow> FlowDatasetUpdate (UpdateUpToDate uncacheable)
      | UpToDatePushIngest uncacheable \<Rightarrow> FlowDatasetUpdate (UpdateUpToDate uncacheable))"
| "flow_result_of_task_result (UpdateDatasetResult (PullUpdated old_head new_head)) =
     FlowDatasetUpdate (UpdateChanged old_head new_head)"
| "flow_result_of_task_result (ResetDatasetResult new_head) = FlowDatasetReset new_head"
| "flow_result_of_task_result (CompactionDatasetResult CompactionNothingToDo) = FlowResultEmpty"
| "flow_result_of_task_result (CompactionDatasetResult (CompactionSuccess _ new_head old_num new_num)) =
     FlowDatasetCompact new_head old_num new_num"

datatype flow_outcome = is_FlowSuccess: FlowSuccess flow_result | FlowFailed flow_error | FlowOutcomeAborted

fun flow_outcome_result :: "flow_outcome \<Rightarrow> flow_result option" where
  "flow_outcome_result (FlowSuccess r) = Some r"
| "flow_outcome_result _ = None"

section \<open>Triggers and start conditions (flow_trigger.rs, flow_start_condition.rs)\<close>

datatype flow_trigger =
    TriggerManual (trigger_time: datetime) account_id
  | TriggerAutoPolling (trigger_time: datetime)
  | TriggerPush (trigger_time: datetime) "string option"
  | TriggerInputDatasetFlow (trigger_time: datetime) dataset_id dataset_flow_type flow_id flow_result

fun initiator_account_id :: "flow_trigger \<Rightarrow> account_id option" where
  "initiator_account_id (TriggerManual _ a) = Some a"
| "initiator_account_id _ = None"

fun push_source_name :: "flow_trigger \<Rightarrow> string option" where
  "push_source_name (TriggerPush _ n) = n"
| "push_source_name _ = None"

text \<open>The pairs that the loop of \<open>is_unique_vs\<close> recognises as similar.\<close>

fun similar_trigger :: "flow_trigger \<Rightarrow> flow_trigger \<Rightarrow> bool" where
  "similar_trigger (TriggerManual t a) (TriggerManual t' a') \<longleftrightarrow> t = t' \<and> a = a'"
| "similar_trigger (TriggerAutoPolling _) (TriggerAutoPolling _) \<longleftrightarrow> True"
| "similar_trigger (TriggerPush _ n) (TriggerPush _ n') \<longleftrightarrow> n = n'"
| "similar_trigger (TriggerInputDatasetFlow _ d ty _ _) (TriggerInputDatasetFlow _ d' ty' _ _) \<longleftrightarrow> ty = ty' \<and> d = d'"
| "similar_trigger _ _ \<longleftrightarrow> False"

fun is_unique_vs :: "flow_trigger \<Rightarrow> flow_trigger list \<Rightarrow> bool" where
  "is_unique_vs t [] = True"
| "is_unique_vs t (existing # rest) = (if similar_trigger t existing then False else is_unique_vs t rest)"

datatype flow_start_condition =
    StartSchedule datetime
  | StartThrottling duration datetime datetime
  | StartBatching transform_rule datetime
  | StartExecutor task_id

section \<open>The state of a flow (flow_state.rs, flow_event.rs, flow_status.rs)\<close>

datatype flow_status = FlowWaiting | FlowRunning | FlowFinished

record flow_timing =
  awaiting_executor_since :: "datetime option"
  running_since :: "datetime option"
  flow_finished_at :: "datetime option"

record flow_state =
  fs_flow_id :: flow_id
  fs_flow_key :: flow_key
  fs_triggers :: "flow_trigger list"
  fs_start_condition :: "flow_start_condition option"
  fs_timing :: flow_timing
  fs_task_ids :: "task_id list"
  fs_outcome :: "flow_outcome option"
  fs_config_snapshot :: "flow_config_snapshot option"

datatype flow_event =
    is_FlowInitiated: FlowInitiated (flow_event_time: datetime) (flow_event_id: flow_id) flow_key flow_trigger
      "flow_config_snapshot option"
  | FlowStartConditionUpdated (flow_event_time: datetime) (flow_event_id: flow_id) flow_start_condition nat
  | FlowTriggerAdded (flow_event_time: datetime) (flow_event_id: flow_id) flow_trigger
  | FlowTaskScheduled (flow_event_time: datetime) (flow_event_id: flow_id) task_id
  | FlowTaskRunning (flow_event_time: datetime) (flow_event_id: flow_id) task_id
  | FlowTaskFinished (flow_event_time: datetime) (flow_event_id: flow_id) task_id task_outcome
  | FlowAborted (flow_event_time: datetime) (flow_event_id: flow_id)

fun flow_event_new_status :: "flow_event \<Rightarrow> flow_status option" where
  "flow_event_new_status (FlowInitiated _ _ _ _ _) = Some FlowWaiting"
| "flow_event_new_status (FlowStartConditionUpdated _ _ _ _) = None"
| "flow_event_new_status (FlowTriggerAdded _ _ _) = None"
| "flow_event_new_status (FlowTaskScheduled _ _ _) = None"
| "flow_event_new_status (FlowTaskRunning _ _ _) = Some FlowRunning"
| "flow_event_new_status (FlowTaskFinished _ _ _ _) = Some FlowFinished"
| "flow_event_new_status (FlowAborted _ _) = Some FlowFinished"

definition primary_trigger :: "flow_state \<Rightarrow> ('e, flow_trigger) res" where
  "primary_trigger s =
     (case fs_triggers s of
        [] \<Rightarrow> Inl (Panic ''called Option::unwrap() on a None value'')
      | t # _ \<Rightarrow> Inr t)"

definition flow_status_of :: "flow_state \<Rightarrow> flow_status" where
  "flow_status_of s =
     (if fs_outcome s \<noteq> None then FlowFinished
      else if running_since (fs_timing s) \<noteq> None then FlowRunning
      else FlowWaiting)"

definition try_result :: "flow_state \<Rightarrow> flow_result option" where
  "try_result s = (case fs_outcome s of Some out \<Rightarrow> flow_outcome_result out | None \<Rightarrow> None)"

fun flow_apply :: "flow_state option \<Rightarrow> flow_event \<Rightarrow> ((flow_state, flow_event) projection_error, flow_state) res" where
  "flow_apply None (FlowInitiated _ fid key trigger snapshot) =
     Inr \<lparr>fs_flow_id = fid, fs_flow_key = key, fs_triggers = [trigger], fs_start_condition = None,
          fs_timing = \<lparr>awaiting_executor_since = None, running_since = None, flow_finished_at = None\<rparr>,
          fs_task_ids = [], fs_outcome = None, fs_config_snapshot = snapshot\<rparr>"
| "flow_apply None ev = Inl (Fail (None, ev))"
| "flow_apply (Some s) ev =
     (if fs_flow_id s \<noteq> flow_event_id ev
      then Inl (Panic ''assertion failed: left == right'')
      else case ev of
             FlowInitiated _ _ _ _ _ \<Rightarrow> Inl (Fail (Some s, ev))
           | FlowStartConditionUpdated _ _ cond _ \<Rightarrow>
               if fs_outcome s \<noteq> None \<or> running_since (fs_timing s) \<noteq> None then Inl (Fail (Some s, ev))
               else Inr (s\<lparr>fs_start_condition := Some cond\<rparr>)
           | FlowTriggerAdded _ _ trigger \<Rightarrow>
               if fs_outcome s \<noteq> None then Inl (Fail (Some s, ev))
               else Inr (s\<lparr>fs_triggers := fs_triggers s @ [trigger]\<rparr>)
           | FlowTaskScheduled time _ tid \<Rightarrow>
               if fs_outcome s \<noteq> None then Inl (Fail (Some s, ev))
               else Inr (s\<lparr>fs_task_ids := fs_task_ids s @ [tid],
                           fs_timing := (fs_timing s)\<lparr>awaiting_executor_since := Some time\<rparr>\<rparr>)
           | FlowTaskRunning time _ tid \<Rightarrow>
               if fs_outcome s \<noteq> None \<or> tid \<notin> set (fs_task_ids s) \<or> awaiting_executor_since (fs_timing s) = None
               then Inl (Fail (Some s, ev))
               else Inr (s\<lparr>fs_timing := (fs_timing s)\<lparr>running_since := Some time\<rparr>, fs_start_condition := None\<rparr>)
           | FlowTaskFinished time _ tid outcome \<Rightarrow>
               if tid \<notin> set (fs_task_ids s) \<or> running_since (fs_timing s) = None \<or> fs_start_condition s \<noteq> None
               then Inl (Fail (Some s, ev))
               else if fs_outcome s \<noteq> None then Inr s
               else (case outcome of
                       TaskSuccess result \<Rightarrow>
                         Inr (s\<lparr>fs_outcome := Some (FlowSuccess (flow_result_of_task_result result)),
                                fs_timing := (fs_timing s)\<lparr>flow_finished_at := Some time\<rparr>\<rparr>)
                     | TaskCancelledOutcome \<Rightarrow>
                         Inr (s\<lparr>fs_outcome := Some FlowOutcomeAborted,
                                fs_timing := (fs_timing s)\<lparr>flow_finished_at := Some time\<rparr>\<rparr>)
                     | TaskFailed err \<Rightarrow>
                         Inr (s\<lparr>fs_outcome := Some (FlowFailed (flow_error_of_task_error err))\<rparr>))
           | FlowAborted time _ \<Rightarrow>
               (case fs_outcome s of
                  Some out \<Rightarrow> if is_FlowSuccess out then Inl (Fail (Some s, ev)) else Inr s
                | None \<Rightarrow>
                    Inr (s\<lparr>fs_outcome := Some FlowOutcomeAborted,
                           fs_timing := (fs_timing s)\<lparr>flow_finished_at := Some time\<rparr>,
                           fs_start_condition := None\<rparr>)))"

definition flow_matches :: "flow_event \<Rightarrow> flow_id \<Rightarrow> bool" where
  "flow_matches e q \<longleftrightarrow> flow_event_id e = q"

definition flow_proj :: "(flow_id, flow_state, flow_event) projection_ops" where
  "flow_proj = \<lparr>apply_event = flow_apply, matches_query = flow_matches\<rparr>"

type_synonym flow = "(flow_id, flow_state, flow_event) aggregate"
type_synonym flow_projection_error = "(flow_state, flow_event) projection_error"

lemma flow_proj_simps [simp]:
  "apply_event flow_proj = flow_apply" "matches_query flow_proj = flow_matches"
  by (simp_all add: flow_proj_def)

interpretation flow_projection: projection flow_proj
proof unfold_locales
  fix s e err
  assume "apply_event flow_proj s e = Inl (Fail err)"
  then show "err = (s, e)"
    by (cases "(s, e)" rule: flow_apply.cases)
      (auto split: flow_event.splits if_splits task_outcome.splits option.splits)
qed

section \<open>The flow aggregate (flow.rs)\<close>

definition flow_new ::
  "datetime \<Rightarrow> flow_id \<Rightarrow> flow_key \<Rightarrow> flow_trigger \<Rightarrow> flow_config_snapshot option \<Rightarrow> (flow_projection_error, flow) res" where
  "flow_new now fid key trigger snapshot =
     (case agg_new flow_proj fid (FlowInitiated now fid key trigger snapshot) of
        Inr a \<Rightarrow> Inr a
      | Inl _ \<Rightarrow> Inl (Panic ''called Result::unwrap() on an Err value''))"

definition set_relevant_start_condition ::
  "datetime \<Rightarrow> flow_start_condition \<Rightarrow> flow \<Rightarrow> (flow_projection_error, unit) res \<times> flow" where
  "set_relevant_start_condition now cond a =
     with_state a (\<lambda>s.
       if fs_start_condition s \<noteq> Some cond
       then agg_apply flow_proj a (FlowStartConditionUpdated now (fs_flow_id s) cond (length (fs_triggers s)))
       else (Inr (), a))"

definition add_trigger_if_unique ::
  "datetime \<Rightarrow> flow_trigger \<Rightarrow> flow \<Rightarrow> (flow_projection_error, bool) res \<times> flow" where
  "add_trigger_if_unique now trigger a =
     with_state a (\<lambda>s.
       if is_unique_vs trigger (fs_triggers s)
       then (let (r, a') = agg_apply flow_proj a (FlowTriggerAdded now (fs_flow_id s) trigger)
             in (and_then r (\<lambda>_. Inr True), a'))
       else (Inr False, a))"

definition on_task_scheduled :: "datetime \<Rightarrow> task_id \<Rightarrow> flow \<Rightarrow> (flow_projection_error, unit) res \<times> flow" where
  "on_task_scheduled now tid a =
     with_state a (\<lambda>s. agg_apply flow_proj a (FlowTaskScheduled now (fs_flow_id s) tid))"

definition on_task_running :: "datetime \<Rightarrow> task_id \<Rightarrow> flow \<Rightarrow> (flow_projection_error, unit) res \<times> flow" where
  "on_task_running now tid a =
     with_state a (\<lambda>s. agg_apply flow_proj a (FlowTaskRunning now (fs_flow_id s) tid))"

definition on_task_finished ::
  "datetime \<Rightarrow> task_id \<Rightarrow> task_outcome \<Rightarrow> flow \<Rightarrow> (flow_projection_error, unit) res \<times> flow" where
  "on_task_finished now tid outcome a =
     with_state a (\<lambda>s. agg_apply flow_proj a (FlowTaskFinished now (fs_flow_id s) tid outcome))"

definition flow_abort :: "datetime \<Rightarrow> flow \<Rightarrow> (flow_projection_error, unit) res \<times> flow" where
  "flow_abort now a =
     with_state a (\<lambda>s.
       if fs_outcome s \<noteq> Some FlowOutcomeAborted
       then agg_apply flow_proj a (FlowAborted now (fs_flow_id s))
       else (Inr (), a))"

section \<open>Flow configurations (flow_configuration_state.rs, flow_configuration.rs)\<close>

datatype flow_config_status = ConfigActive | ConfigPausedTemporarily | ConfigStoppedPermanently

definition config_status_is_active :: "flow_config_status \<Rightarrow> bool" where
  "config_status_is_active st = (case st of ConfigActive \<Rightarrow> True | _ \<Rightarrow> False)"

datatype flow_config_event =
    ConfigCreated (config_event_time: datetime) (config_event_key: flow_key) bool flow_config_rule
  | ConfigModified (config_event_time: datetime) (config_event_key: flow_key) bool flow_config_rule
  | ConfigDatasetRemoved (config_event_time: datetime) (config_event_key: flow_key)

record flow_config_state =
  fc_flow_key :: flow_key
  fc_rule :: flow_config_rule
  fc_status :: flow_config_status

definition paused_status :: "bool \<Rightarrow> flow_config_status" where
  "paused_status paused = (if paused then ConfigPausedTemporarily else ConfigActive)"

fun config_apply ::
  "flow_config_state option \<Rightarrow> flow_config_event \<Rightarrow>
   ((flow_config_state, flow_config_event) projection_error, flow_config_state) res" where
  "config_apply None (ConfigCreated _ key paused rule) =
     Inr \<lparr>fc_flow_key = key, fc_rule = rule, fc_status = paused_status paused\<rparr>"
| "config_apply None ev = Inl (Fail (None, ev))"
| "config_apply (Some s) ev =
     (if fc_flow_key s \<noteq> config_event_key ev
      then Inl (Panic ''assertion failed: left == right'')
      else case ev of
             ConfigCreated _ _ _ _ \<Rightarrow> Inl (Fail (Some s, ev))
           | ConfigModified _ _ paused rule \<Rightarrow> Inr (s\<lparr>fc_status := paused_status paused, fc_rule := rule\<rparr>)
           | ConfigDatasetRemoved _ _ \<Rightarrow>
               (case fc_flow_key s of
                  DatasetKey _ \<Rightarrow>
                    if fc_status s = ConfigStoppedPermanently then Inr s
                    else Inr (s\<lparr>fc_status := ConfigStoppedPermanently\<rparr>)
                | SystemKey _ \<Rightarrow> Inl (Fail (Some s, ev))))"

definition config_matches :: "flow_config_event \<Rightarrow> flow_key \<Rightarrow> bool" where
  "config_matches e q \<longleftrightarrow> config_event_key e = q"

definition config_proj :: "(flow_key, flow_config_state, flow_config_event) projection_ops" where
  "config_proj = \<lparr>apply_event = config_apply, matches_query = config_matches\<rparr>"

type_synonym flow_config = "(flow_key, flow_config_state, flow_config_event) aggregate"
type_synonym config_projection_error = "(flow_config_state, flow_config_event) projection_error"

lemma config_proj_simps [simp]:
  "apply_event config_proj = config_apply" "matches_query config_proj = config_matches"
  by (simp_all add: config_proj_def)

interpretation config_projection: projection config_proj
proof unfold_locales
  fix s e err
  assume "apply_event config_proj s e = Inl (Fail err)"
  then show "err = (s, e)"
    by (cases "(s, e)" rule: config_apply.cases)
      (auto split: flow_config_event.splits if_splits flow_key.splits)
qed

definition config_new ::
  "datetime \<Rightarrow> flow_key \<Rightarrow> bool \<Rightarrow> flow_config_rule \<Rightarrow> (config_projection_error, flow_config) res" where
  "config_new now key paused rule =
     (case agg_new config_proj key (ConfigCreated now key paused rule) of
        Inr a \<Rightarrow> Inr a
      | Inl _ \<Rightarrow> Inl (Panic ''called Result::unwrap() on an Err value''))"

definition modify_configuration ::
  "datetime \<Rightarrow> bool \<Rightarrow> flow_config_rule \<Rightarrow> flow_config \<Rightarrow> (config_projection_error, unit) res \<times> flow_config" where
  "modify_configuration now paused rule a =
     with_state a (\<lambda>s. agg_apply config_proj a (ConfigModified now (fc_flow_key s) paused rule))"

definition config_pause :: "datetime \<Rightarrow> flow_config \<Rightarrow> (config_projection_error, unit) res \<times> flow_config" where
  "config_pause now a =
     with_state a (\<lambda>s.
       if config_status_is_active (fc_status s)
       then agg_apply config_proj a (ConfigModified now (fc_flow_key s) True (fc_rule s))
       else (Inr (), a))"

definition config_resume :: "datetime \<Rightarrow> flow_config \<Rightarrow> (config_projection_error, unit) res \<times> flow_config" where
  "config_resume now a =
     with_state a (\<lambda>s.
       if config_status_is_active (fc_status s) then (Inr (), a)
       else agg_apply config_proj a (ConfigModified now (fc_flow_key s) False (fc_rule s)))"

definition notify_dataset_removed :: "datetime \<Rightarrow> flow_config \<Rightarrow> (config_projection_error, unit) res \<times> flow_config" where
  "notify_dataset_removed now a =
     with_state a (\<lambda>s. agg_apply config_proj a (ConfigDatasetRemoved now (fc_flow_key s)))"

section \<open>The life cycle of a flow\<close>

definition flow_wf :: "flow_state \<Rightarrow> bool" where
  "flow_wf s \<longleftrightarrow>
     fs_triggers s \<noteq> []
     \<and> (awaiting_executor_since (fs_timing s) \<noteq> None \<longleftrightarrow> fs_task_ids s \<noteq> [])
     \<and> (running_since (fs_timing s) \<noteq> None \<longrightarrow> fs_task_ids s \<noteq> [] \<and> fs_start_condition s = None)
     \<and> (flow_finished_at (fs_timing s) \<noteq> None \<longrightarrow> fs_outcome s \<noteq> None)
     \<and> (\<forall>out. fs_outcome s = Some out \<longrightarrow>
          fs_start_condition s = None
          \<and> (flow_finished_at (fs_timing s) = None \<longleftrightarrow> (\<exists>e. out = FlowFailed e))
          \<and> (out \<noteq> FlowOutcomeAborted \<longrightarrow> running_since (fs_timing s) \<noteq> None))"

lemma flow_apply_wf:
  assumes "flow_apply s e = Inr s'" and "\<forall>r. s = Some r \<longrightarrow> flow_wf r"
  shows "flow_wf s'"
  using assms
  by (cases "(s, e)" rule: flow_apply.cases)
    (auto simp: flow_wf_def split: flow_event.splits if_splits task_outcome.splits option.splits)

lemma flow_apply_id: "flow_apply s e = Inr s' \<Longrightarrow> fs_flow_id s' = flow_event_id e"
  by (cases "(s, e)" rule: flow_apply.cases)
    (auto split: flow_event.splits if_splits task_outcome.splits option.splits)

text \<open>The status an event announces is the status of the state it leads to.\<close>

lemma flow_apply_status:
  assumes "flow_apply s e = Inr s'"
  shows "flow_event_new_status e =
    (if s \<noteq> None \<and> flow_status_of s' = flow_status_of (the s) \<and> flow_event_new_status e = None then None
     else Some (flow_status_of s'))"
  using assms
  by (cases "(s, e)" rule: flow_apply.cases)
    (auto simp: flow_status_of_def split: flow_event.splits if_splits task_outcome.splits option.splits)

fun flow_status_rank :: "flow_status \<Rightarrow> nat" where
  "flow_status_rank FlowWaiting = 0"
| "flow_status_rank FlowRunning = 1"
| "flow_status_rank FlowFinished = 2"

lemma flow_apply_forward:
  "flow_apply (Some s) e = Inr s' \<Longrightarrow>
     flow_status_rank (flow_status_of s) \<le> flow_status_rank (flow_status_of s')
     \<and> fs_flow_key s' = fs_flow_key s \<and> fs_config_snapshot s' = fs_config_snapshot s
     \<and> (\<exists>ts. fs_triggers s' = fs_triggers s @ ts) \<and> (\<exists>ts. fs_task_ids s' = fs_task_ids s @ ts)
     \<and> (fs_outcome s \<noteq> None \<longrightarrow> s' = s)"
  by (auto simp: flow_status_of_def split: flow_event.splits if_splits task_outcome.splits option.splits)

end
