(* ===== verification/Flow_Store.thy ===== *)
theory Flow_Store
  imports Flow_Entities
begin

text \<open>
  The in-memory flow event store (\<open>infra/flow-system/inmem/src/flow/inmem_flow_event_store.rs\<close>):
  the log of flow events with the search index, the lists of flows and the statistics of runs
  that it keeps beside the log, and the queries over them.
\<close>

section \<open>State\<close>

record flow_run_stats =
  last_success_time :: "datetime option"
  last_attempt_time :: "datetime option"

definition default_run_stats :: flow_run_stats where
  "default_run_stats = \<lparr>last_success_time = None, last_attempt_time = None\<rparr>"

definition run_stats_merge :: "flow_run_stats \<Rightarrow> flow_run_stats \<Rightarrow> flow_run_stats" where
  "run_stats_merge old new =
     (let s1 = (if last_success_time new \<noteq> None then old\<lparr>last_success_time := last_success_time new\<rparr> else old)
      in if last_attempt_time new \<noteq> None then s1\<lparr>last_attempt_time := last_attempt_time new\<rparr> else s1)"

record flow_index_entry =
  fie_flow_type :: any_flow_type
  fie_flow_status :: flow_status
  fie_initiator :: "account_id option"

record flow_store =
  fst_events :: "flow_event list"
  fst_last_flow_id :: "flow_id option"
  fst_all_flows_by_dataset :: "dataset_id \<rightharpoonup> flow_id list"
  fst_all_system_flows :: "flow_id list"
  fst_all_flows :: "flow_id list"
  fst_search_index :: "flow_id \<rightharpoonup> flow_index_entry"
  fst_key_by_flow_id :: "flow_id \<rightharpoonup> flow_key"
  fst_dataset_run_stats :: "flow_key_dataset \<rightharpoonup> flow_run_stats"
  fst_system_run_stats :: "system_flow_type \<rightharpoonup> flow_run_stats"

definition empty_flow_store :: flow_store where
  "empty_flow_store =
     \<lparr>fst_events = [], fst_last_flow_id = None, fst_all_flows_by_dataset = Map.empty,
      fst_all_system_flows = [], fst_all_flows = [], fst_search_index = Map.empty,
      fst_key_by_flow_id = Map.empty, fst_dataset_run_stats = Map.empty, fst_system_run_stats = Map.empty\<rparr>"

definition new_flow_id :: "flow_store \<Rightarrow> flow_id \<times> flow_store" where
  "new_flow_id st =
     (let fid = (case fst_last_flow_id st of Some l \<Rightarrow> l + 1 | None \<Rightarrow> 0)
      in (fid, st\<lparr>fst_last_flow_id := Some fid\<rparr>))"

section \<open>Filters\<close>

datatype initiator_filter = InitiatorSystem | InitiatorAccount "account_id set"

record dataset_flow_filters =
  dff_by_flow_type :: "dataset_flow_type option"
  dff_by_flow_status :: "flow_status option"
  dff_by_initiator :: "initiator_filter option"

record system_flow_filters =
  sff_by_flow_type :: "system_flow_type option"
  sff_by_flow_status :: "flow_status option"
  sff_by_initiator :: "initiator_filter option"

definition dataset_flow_type_matches :: "flow_index_entry \<Rightarrow> dataset_flow_type option \<Rightarrow> bool" where
  "dataset_flow_type_matches entry flt =
     (case fie_flow_type entry of
        DatasetType dft \<Rightarrow> (case flt of Some t \<Rightarrow> t = dft | None \<Rightarrow> True)
      | SystemType _ \<Rightarrow> False)"

definition system_flow_type_matches :: "flow_index_entry \<Rightarrow> system_flow_type option \<Rightarrow> bool" where
  "system_flow_type_matches entry flt =
     (case fie_flow_type entry of
        DatasetType _ \<Rightarrow> False
      | SystemType sft \<Rightarrow> (case flt of Some t \<Rightarrow> t = sft | None \<Rightarrow> True))"

definition flow_status_matches :: "flow_index_entry \<Rightarrow> flow_status option \<Rightarrow> bool" where
  "flow_status_matches entry flt = (case flt of Some st \<Rightarrow> st = fie_flow_status entry | None \<Rightarrow> True)"

definition initiator_matches :: "flow_index_entry \<Rightarrow> initiator_filter option \<Rightarrow> bool" where
  "initiator_matches entry flt =
     (case flt of
        None \<Rightarrow> True
      | Some InitiatorSystem \<Rightarrow> fie_initiator entry = None
      | Some (InitiatorAccount accounts) \<Rightarrow>
          (case fie_initiator entry of Some a \<Rightarrow> a \<in> accounts | None \<Rightarrow> False))"

definition matches_dataset_flow_filters :: "flow_index_entry \<Rightarrow> dataset_flow_filters \<Rightarrow> bool" where
  "matches_dataset_flow_filters entry flt \<longleftrightarrow>
     dataset_flow_type_matches entry (dff_by_flow_type flt)
     \<and> flow_status_matches entry (dff_by_flow_status flt)
     \<and> initiator_matches entry (dff_by_initiator flt)"

definition matches_system_flow_filters :: "flow_index_entry \<Rightarrow> system_flow_filters \<Rightarrow> bool" where
  "matches_system_flow_filters entry flt \<longleftrightarrow>
     system_flow_type_matches entry (sff_by_flow_type flt)
     \<and> flow_status_matches entry (sff_by_flow_status flt)
     \<and> initiator_matches entry (sff_by_initiator flt)"

definition matches_dataset_flow :: "flow_store \<Rightarrow> flow_id \<Rightarrow> dataset_flow_filters \<Rightarrow> bool" where
  "matches_dataset_flow st fid flt =
     (case fst_search_index st fid of Some entry \<Rightarrow> matches_dataset_flow_filters entry flt | None \<Rightarrow> False)"

definition matches_system_flow :: "flow_store \<Rightarrow> flow_id \<Rightarrow> system_flow_filters \<Rightarrow> bool" where
  "matches_system_flow st fid flt =
     (case fst_search_index st fid of Some entry \<Rightarrow> matches_system_flow_filters entry flt | None \<Rightarrow> False)"

section \<open>Saving\<close>

definition index_initiated :: "flow_store \<Rightarrow> flow_id \<Rightarrow> flow_key \<Rightarrow> flow_trigger \<Rightarrow> flow_store" where
  "index_initiated st fid key trigger =
     (let entry = \<lparr>fie_flow_type = flow_key_type key, fie_flow_status = FlowWaiting,
                   fie_initiator = initiator_account_id trigger\<rparr>;
          st1 = st\<lparr>fst_key_by_flow_id := (fst_key_by_flow_id st)(fid \<mapsto> key)\<rparr>;
          st2 = (case key of
                   DatasetKey k \<Rightarrow>
                     st1\<lparr>fst_all_flows_by_dataset := (fst_all_flows_by_dataset st1)(fkd_dataset_id k \<mapsto>
                           (case fst_all_flows_by_dataset st1 (fkd_dataset_id k) of Some ids \<Rightarrow> ids | None \<Rightarrow> []) @ [fid])\<rparr>
                 | SystemKey _ \<Rightarrow> st1\<lparr>fst_all_system_flows := fst_all_system_flows st1 @ [fid]\<rparr>)
      in st2\<lparr>fst_search_index := (fst_search_index st2)(fid \<mapsto> entry), fst_all_flows := fst_all_flows st2 @ [fid]\<rparr>)"

definition index_run_stats ::
  "flow_store \<Rightarrow> datetime \<Rightarrow> flow_id \<Rightarrow> task_outcome \<Rightarrow> (string, flow_store) res" where
  "index_run_stats st time fid outcome =
     (let new = \<lparr>last_success_time = (if task_outcome_is_success outcome then Some time else None),
                 last_attempt_time = Some time\<rparr>
      in case fst_key_by_flow_id st fid of
           None \<Rightarrow> Inl (Panic ''Previously unseen flow ID'')
         | Some (DatasetKey k) \<Rightarrow>
             Inr (st\<lparr>fst_dataset_run_stats := (fst_dataset_run_stats st)(k \<mapsto>
                       (case fst_dataset_run_stats st k of Some old \<Rightarrow> run_stats_merge old new | None \<Rightarrow> new))\<rparr>)
         | Some (SystemKey t) \<Rightarrow>
             Inr (st\<lparr>fst_system_run_stats := (fst_system_run_stats st)(t \<mapsto>
                       (case fst_system_run_stats st t of Some old \<Rightarrow> run_stats_merge old new | None \<Rightarrow> new))\<rparr>))"

definition update_index :: "flow_store \<Rightarrow> flow_event \<Rightarrow> (string, flow_store) res" where
  "update_index st ev =
     (case ev of
        FlowInitiated _ fid key trigger _ \<Rightarrow> Inr (index_initiated st fid key trigger)
      | _ \<Rightarrow>
          (case flow_event_new_status ev of
             None \<Rightarrow> Inr st
           | Some new_status \<Rightarrow>
               (case fst_search_index st (flow_event_id ev) of
                  None \<Rightarrow> Inl (Panic ''Previously unseen flow ID'')
                | Some entry \<Rightarrow>
                    let st1 = st\<lparr>fst_search_index :=
                                   (fst_search_index st)(flow_event_id ev \<mapsto> entry\<lparr>fie_flow_status := new_status\<rparr>)\<rparr>
                    in (case ev of
                          FlowTaskFinished time fid _ outcome \<Rightarrow> index_run_stats st1 time fid outcome
                        | _ \<Rightarrow> Inr st1))))"

fun update_index_all :: "flow_store \<Rightarrow> flow_event list \<Rightarrow> (string, flow_store) res" where
  "update_index_all st [] = Inr st"
| "update_index_all st (e # es) = and_then (update_index st e) (\<lambda>st'. update_index_all st' es)"

definition flow_store_get_events ::
  "flow_store \<Rightarrow> flow_id \<Rightarrow> get_events_opts \<Rightarrow> (string, (event_id \<times> flow_event) list) res" where
  "flow_store_get_events st fid opts = inmem_get_events flow_matches (fst_events st) fid opts"

definition flow_store_save_events ::
  "flow_store \<Rightarrow> flow_id \<Rightarrow> flow_event list \<Rightarrow> (save_events_error, event_id \<times> flow_store) res" where
  "flow_store_save_events st fid events =
     and_then (map_err (map_fault SaveInternal) (update_index_all st events)) (\<lambda>st'.
       and_then (inmem_save_events (fst_events st') events)
         (\<lambda>(eid, evs). Inr (eid, st'\<lparr>fst_events := evs\<rparr>)))"

section \<open>Queries\<close>

definition get_dataset_flow_run_stats :: "flow_store \<Rightarrow> dataset_id \<Rightarrow> dataset_flow_type \<Rightarrow> flow_run_stats" where
  "get_dataset_flow_run_stats st d ty =
     (case fst_dataset_run_stats st \<lparr>fkd_dataset_id = d, fkd_flow_type = ty\<rparr> of
        Some stats \<Rightarrow> stats | None \<Rightarrow> default_run_stats)"

definition get_system_flow_run_stats :: "flow_store \<Rightarrow> system_flow_type \<Rightarrow> flow_run_stats" where
  "get_system_flow_run_stats st ty =
     (case fst_system_run_stats st ty of Some stats \<Rightarrow> stats | None \<Rightarrow> default_run_stats)"

definition get_all_flow_ids_by_dataset ::
  "flow_store \<Rightarrow> dataset_id \<Rightarrow> dataset_flow_filters \<Rightarrow> nat \<Rightarrow> nat \<Rightarrow> flow_id list" where
  "get_all_flow_ids_by_dataset st d flt offset limit =
     (case fst_all_flows_by_dataset st d of
        Some ids \<Rightarrow> take limit (drop offset (filter (\<lambda>f. matches_dataset_flow st f flt) (rev ids)))
      | None \<Rightarrow> [])"

fun unique_initiators :: "flow_store \<Rightarrow> flow_id list \<Rightarrow> account_id list \<Rightarrow> account_id list" where
  "unique_initiators st [] seen = []"
| "unique_initiators st (f # fs) seen =
     (case fst_search_index st f of
        Some entry \<Rightarrow>
          (case fie_initiator entry of
             Some a \<Rightarrow> if a \<in> set seen then unique_initiators st fs seen
                       else a # unique_initiators st fs (a # seen)
           | None \<Rightarrow> unique_initiators st fs seen)
      | None \<Rightarrow> unique_initiators st fs seen)"

definition get_unique_flow_initiator_ids_by_dataset :: "flow_store \<Rightarrow> dataset_id \<Rightarrow> account_id list" where
  "get_unique_flow_initiator_ids_by_dataset st d =
     (case fst_all_flows_by_dataset st d of Some ids \<Rightarrow> unique_initiators st ids [] | None \<Rightarrow> [])"

fun by_datasets_loop ::
  "flow_store \<Rightarrow> dataset_id set \<Rightarrow> dataset_flow_filters \<Rightarrow> nat \<Rightarrow> nat \<Rightarrow> flow_id list \<Rightarrow> flow_id list \<Rightarrow> nat \<Rightarrow>
   (string, flow_id list) res" where
  "by_datasets_loop st ds flt offset limit [] result total_count = Inr result"
| "by_datasets_loop st ds flt offset limit (f # fs) result total_count =
     (case fst_key_by_flow_id st f of
        None \<Rightarrow> Inl (Panic ''called Option::unwrap() on a None value'')
      | Some (DatasetKey k) \<Rightarrow>
          if fkd_dataset_id k \<in> ds \<and> matches_dataset_flow st f flt
          then if length result \<ge> limit then Inr result
               else by_datasets_loop st ds flt offset limit fs
                      (if total_count \<ge> offset then result @ [f] else result) (total_count + 1)
          else by_datasets_loop st ds flt offset limit fs result total_count
      | Some (SystemKey _) \<Rightarrow> by_datasets_loop st ds flt offset limit fs result total_count)"

definition get_all_flow_ids_by_datasets ::
  "flow_store \<Rightarrow> dataset_id set \<Rightarrow> dataset_flow_filters \<Rightarrow> nat \<Rightarrow> nat \<Rightarrow> (string, flow_id list) res" where
  "get_all_flow_ids_by_datasets st ds flt offset limit =
     by_datasets_loop st ds flt offset limit (rev (fst_all_flows st)) [] 0"

definition get_count_flows_by_dataset :: "flow_store \<Rightarrow> dataset_id \<Rightarrow> dataset_flow_filters \<Rightarrow> nat" where
  "get_count_flows_by_dataset st d flt =
     (case fst_all_flows_by_dataset st d of
        Some ids \<Rightarrow> length (filter (\<lambda>f. matches_dataset_flow st f flt) ids)
      | None \<Rightarrow> 0)"

definition get_all_system_flow_ids :: "flow_store \<Rightarrow> system_flow_filters \<Rightarrow> nat \<Rightarrow> nat \<Rightarrow> flow_id list" where
  "get_all_system_flow_ids st flt offset limit =
     take limit (drop offset (filter (\<lambda>f. matches_system_flow st f flt) (rev (fst_all_system_flows st))))"

definition get_count_system_flows :: "flow_store \<Rightarrow> system_flow_filters \<Rightarrow> nat" where
  "get_count_system_flows st flt = length (filter (\<lambda>f. matches_system_flow st f flt) (fst_all_system_flows st))"

definition get_all_flow_ids :: "flow_store \<Rightarrow> nat \<Rightarrow> nat \<Rightarrow> flow_id list" where
  "get_all_flow_ids st offset limit = take limit (drop offset (rev (fst_all_flows st)))"

definition get_count_all_flows :: "flow_store \<Rightarrow> nat" where
  "get_count_all_flows st = length (fst_all_flows st)"

definition flow_load :: "flow_store \<Rightarrow> flow_id \<Rightarrow> ((flow_id, flow_state, flow_event) load_error, flow) res" where
  "flow_load st fid = agg_load flow_proj (flow_store_get_events st fid all_events) fid"

definition flow_save :: "flow_store \<Rightarrow> flow \<Rightarrow> (save_events_error, unit) res \<times> flow \<times> flow_store" where
  "flow_save st a = agg_save flow_store_save_events st a"

end
