(* ===== verification/Flow_Service.thy ===== *)
theory Flow_Service
  imports Flow_Store Flow_Time_Wheel
begin

text \<open>
  The flow service (\<open>domain/flow-system/services/src/flow\<close>): active configurations, pending flows,
  the time wheel, the flow store and the task scheduler composed as \<open>flow_service_impl.rs\<close> does.

  What the service calls outside its own crates is the parameter \<open>flow_env\<close>: the run
  configuration, rounding of times, cron, dataset changes, the dependency graph and dataset
  ownership. The clock is a sequence of readings; the state counts the readings, so that two
  readings within one operation may differ. The whole service state is held by one mutex and each
  handler is taken as one step.
\<close>

section \<open>Active configurations (active_configs_state.rs)\<close>

record active_configs =
  ac_system_schedules :: "system_flow_type \<rightharpoonup> schedule"
  ac_transform_rules :: "flow_key_dataset \<rightharpoonup> transform_rule"
  ac_reset_rules :: "flow_key_dataset \<rightharpoonup> reset_rule"
  ac_compaction_rules :: "flow_key_dataset \<rightharpoonup> compaction_rule"
  ac_ingest_rules :: "flow_key_dataset \<rightharpoonup> ingest_rule"

definition empty_configs :: active_configs where
  "empty_configs = \<lparr>ac_system_schedules = Map.empty, ac_transform_rules = Map.empty, ac_reset_rules = Map.empty,
     ac_compaction_rules = Map.empty, ac_ingest_rules = Map.empty\<rparr>"

definition add_dataset_flow_config ::
  "flow_key_dataset \<Rightarrow> flow_config_rule \<Rightarrow> active_configs \<Rightarrow> (string, unit) res \<times> active_configs" where
  "add_dataset_flow_config k rule c =
     (case rule of
        RuleSchedule _ \<Rightarrow> (Inl (Panic ''internal error: entered unreachable code''), c)
      | RuleIngest r \<Rightarrow> (Inr (), c\<lparr>ac_ingest_rules := (ac_ingest_rules c)(k \<mapsto> r)\<rparr>)
      | RuleReset r \<Rightarrow> (Inr (), c\<lparr>ac_reset_rules := (ac_reset_rules c)(k \<mapsto> r)\<rparr>)
      | RuleTransform r \<Rightarrow> (Inr (), c\<lparr>ac_transform_rules := (ac_transform_rules c)(k \<mapsto> r)\<rparr>)
      | RuleCompaction r \<Rightarrow> (Inr (), c\<lparr>ac_compaction_rules := (ac_compaction_rules c)(k \<mapsto> r)\<rparr>))"

definition add_system_flow_config :: "system_flow_type \<Rightarrow> schedule \<Rightarrow> active_configs \<Rightarrow> active_configs" where
  "add_system_flow_config ty sched c = c\<lparr>ac_system_schedules := (ac_system_schedules c)(ty \<mapsto> sched)\<rparr>"

definition drop_dataset_flow_config :: "flow_key_dataset \<Rightarrow> active_configs \<Rightarrow> active_configs" where
  "drop_dataset_flow_config k c =
     c\<lparr>ac_ingest_rules := (ac_ingest_rules c)(k := None),
       ac_transform_rules := (ac_transform_rules c)(k := None),
       ac_compaction_rules := (ac_compaction_rules c)(k := None),
       ac_reset_rules := (ac_reset_rules c)(k := None)\<rparr>"

definition drop_dataset_configs :: "dataset_id \<Rightarrow> active_configs \<Rightarrow> active_configs" where
  "drop_dataset_configs d c =
     foldl (\<lambda>c ty. drop_dataset_flow_config \<lparr>fkd_dataset_id = d, fkd_flow_type = ty\<rparr> c) c all_dataset_flow_types"

fun drop_flow_config :: "flow_key \<Rightarrow> active_configs \<Rightarrow> active_configs" where
  "drop_flow_config (DatasetKey k) c = drop_dataset_flow_config k c"
| "drop_flow_config (SystemKey ty) c = c\<lparr>ac_system_schedules := (ac_system_schedules c)(ty := None)\<rparr>"

fun try_get_flow_schedule :: "active_configs \<Rightarrow> flow_key \<Rightarrow> schedule option" where
  "try_get_flow_schedule c (DatasetKey k) = map_option ir_schedule_condition (ac_ingest_rules c k)"
| "try_get_flow_schedule c (SystemKey ty) = ac_system_schedules c ty"

definition try_get_dataset_transform_rule :: "active_configs \<Rightarrow> dataset_id \<Rightarrow> dataset_flow_type \<Rightarrow> transform_rule option" where
  "try_get_dataset_transform_rule c d ty = ac_transform_rules c \<lparr>fkd_dataset_id = d, fkd_flow_type = ty\<rparr>"

fun try_get_config_snapshot_by_key :: "active_configs \<Rightarrow> flow_key \<Rightarrow> flow_config_snapshot option" where
  "try_get_config_snapshot_by_key c (SystemKey ty) = map_option SnapSchedule (try_get_flow_schedule c (SystemKey ty))"
| "try_get_config_snapshot_by_key c (DatasetKey k) =
     (case fkd_flow_type k of
        ExecuteTransformFlow \<Rightarrow> map_option SnapTransform (ac_transform_rules c k)
      | Ingest \<Rightarrow> map_option SnapIngest (ac_ingest_rules c k)
      | ResetFlow \<Rightarrow> map_option SnapReset (ac_reset_rules c k)
      | HardCompaction \<Rightarrow> map_option SnapCompaction (ac_compaction_rules c k))"

section \<open>Pending flows (pending_flows_state.rs)\<close>

record pending_flows =
  pf_dataset_flows :: "flow_key_dataset \<rightharpoonup> flow_id"
  pf_system_flows :: "system_flow_type \<rightharpoonup> flow_id"
  pf_by_tasks :: "task_id \<rightharpoonup> flow_id"

definition empty_pending :: pending_flows where
  "empty_pending = \<lparr>pf_dataset_flows = Map.empty, pf_system_flows = Map.empty, pf_by_tasks = Map.empty\<rparr>"

fun add_pending_flow :: "flow_key \<Rightarrow> flow_id \<Rightarrow> pending_flows \<Rightarrow> pending_flows" where
  "add_pending_flow (DatasetKey k) f p = p\<lparr>pf_dataset_flows := (pf_dataset_flows p)(k \<mapsto> f)\<rparr>"
| "add_pending_flow (SystemKey ty) f p = p\<lparr>pf_system_flows := (pf_system_flows p)(ty \<mapsto> f)\<rparr>"

definition track_flow_task :: "flow_id \<Rightarrow> task_id \<Rightarrow> pending_flows \<Rightarrow> pending_flows" where
  "track_flow_task f tid p = p\<lparr>pf_by_tasks := (pf_by_tasks p)(tid \<mapsto> f)\<rparr>"

definition drop_dataset_pending_flow ::
  "dataset_id \<Rightarrow> dataset_flow_type \<Rightarrow> pending_flows \<Rightarrow> flow_id option \<times> pending_flows" where
  "drop_dataset_pending_flow d ty p =
     (let k = \<lparr>fkd_dataset_id = d, fkd_flow_type = ty\<rparr>
      in (pf_dataset_flows p k, p\<lparr>pf_dataset_flows := (pf_dataset_flows p)(k := None)\<rparr>))"

fun drop_pending_flow :: "flow_key \<Rightarrow> pending_flows \<Rightarrow> flow_id option \<times> pending_flows" where
  "drop_pending_flow (DatasetKey k) p = drop_dataset_pending_flow (fkd_dataset_id k) (fkd_flow_type k) p"
| "drop_pending_flow (SystemKey ty) p =
     (pf_system_flows p ty, p\<lparr>pf_system_flows := (pf_system_flows p)(ty := None)\<rparr>)"

definition untrack_flow_by_task :: "task_id \<Rightarrow> pending_flows \<Rightarrow> pending_flows" where
  "untrack_flow_by_task tid p = p\<lparr>pf_by_tasks := (pf_by_tasks p)(tid := None)\<rparr>"

fun try_get_pending_flow :: "pending_flows \<Rightarrow> flow_key \<Rightarrow> flow_id option" where
  "try_get_pending_flow p (DatasetKey k) = pf_dataset_flows p k"
| "try_get_pending_flow p (SystemKey ty) = pf_system_flows p ty"

definition try_get_flow_id_by_task :: "pending_flows \<Rightarrow> task_id \<Rightarrow> flow_id option" where
  "try_get_flow_id_by_task p tid = pf_by_tasks p tid"

section \<open>State and environment (flow_service_impl.rs)\<close>

datatype flow_service_update = ServiceLoaded | ExecutedTimeslot | ServiceFlowRunning | ServiceFlowFinished

record flow_service =
  fsv_active_configs :: active_configs
  fsv_pending_flows :: pending_flows
  fsv_time_wheel :: time_wheel
  fsv_running :: bool
  fsv_store :: flow_store
  fsv_scheduler :: scheduler
  fsv_outbox :: "(datetime \<times> flow_service_update) list"
  fsv_readings :: nat

definition empty_service :: flow_service where
  "empty_service = \<lparr>fsv_active_configs = empty_configs, fsv_pending_flows = empty_pending, fsv_time_wheel = empty_wheel,
     fsv_running = False, fsv_store = empty_flow_store, fsv_scheduler = empty_scheduler, fsv_outbox = [], fsv_readings = 0\<rparr>"

record flow_env =
  env_clock :: "nat \<Rightarrow> datetime"
  env_throttling_period :: duration
  env_round_time :: "datetime \<Rightarrow> (string, datetime) res"
  env_cron_after :: "string \<Rightarrow> datetime \<Rightarrow> datetime option"
  env_increment_since :: "dataset_id \<Rightarrow> multihash option \<Rightarrow> (string, dataset_increment) res"
  env_downstream :: "dataset_id \<Rightarrow> (string, dataset_id list) res"
  env_owners :: "dataset_id \<Rightarrow> (string, account_id list) res"
  env_is_owned_by :: "dataset_id \<Rightarrow> account_id \<Rightarrow> (string, bool) res"
  env_owned_datasets :: "account_id \<Rightarrow> (string, dataset_id list) res"

type_synonym 'a svc_op = "flow_service \<Rightarrow> (string, 'a) res \<times> flow_service"

definition svc_now :: "flow_env \<Rightarrow> datetime svc_op" where
  "svc_now env svc = (Inr (env_clock env (fsv_readings svc)), svc\<lparr>fsv_readings := Suc (fsv_readings svc)\<rparr>)"

definition svc_result :: "(string, 'a) res \<Rightarrow> 'a svc_op" where
  "svc_result r svc = (r, svc)"

text \<open>Reading the state under the lock.\<close>

definition svc_get :: "(flow_service \<Rightarrow> 'a) \<Rightarrow> 'a svc_op" where
  "svc_get f svc = (Inr (f svc), svc)"

definition svc_configs :: "(active_configs \<Rightarrow> (string, unit) res \<times> active_configs) \<Rightarrow> unit svc_op" where
  "svc_configs f svc = (let (r, c) = f (fsv_active_configs svc) in (r, svc\<lparr>fsv_active_configs := c\<rparr>))"

definition svc_wheel :: "(time_wheel \<Rightarrow> time_wheel) \<Rightarrow> unit svc_op" where
  "svc_wheel f svc = (Inr (), svc\<lparr>fsv_time_wheel := f (fsv_time_wheel svc)\<rparr>)"

definition svc_pending :: "(pending_flows \<Rightarrow> pending_flows) \<Rightarrow> unit svc_op" where
  "svc_pending f svc = (Inr (), svc\<lparr>fsv_pending_flows := f (fsv_pending_flows svc)\<rparr>)"

definition int_err :: "'e fault \<Rightarrow> string fault" where
  "int_err = map_fault (\<lambda>_. ''internal error'')"

definition svc_load_flow :: "flow_id \<Rightarrow> flow svc_op" where
  "svc_load_flow f svc = (map_err int_err (flow_load (fsv_store svc) f), svc)"

definition svc_save_flow :: "flow \<Rightarrow> flow svc_op" where
  "svc_save_flow a svc =
     (case flow_save (fsv_store svc) a of
        (Inl e, a', st') \<Rightarrow> (Inl (int_err e), svc\<lparr>fsv_store := st'\<rparr>)
      | (Inr _, a', st') \<Rightarrow> (Inr a', svc\<lparr>fsv_store := st'\<rparr>))"

text \<open>A command on a flow aggregate: its error is internal, its result is dropped.\<close>

definition svc_command :: "(flow_projection_error, 'a) res \<times> flow \<Rightarrow> flow svc_op" where
  "svc_command ra svc = (case ra of (Inl e, a) \<Rightarrow> (Inl (int_err e), svc) | (Inr _, a) \<Rightarrow> (Inr a, svc))"

definition svc_post :: "datetime \<Rightarrow> flow_service_update \<Rightarrow> unit svc_op" where
  "svc_post time u svc = (Inr (), svc\<lparr>fsv_outbox := fsv_outbox svc @ [(time, u)]\<rparr>)"

definition svc_create_task :: "flow_env \<Rightarrow> logical_plan \<Rightarrow> task_state svc_op" where
  "svc_create_task env plan =
     fbind (svc_now env) (\<lambda>now svc.
       let (r, sch') = create_task now plan (fsv_scheduler svc)
       in (map_err int_err r, svc\<lparr>fsv_scheduler := sch'\<rparr>))"

definition svc_cancel_task :: "flow_env \<Rightarrow> task_id \<Rightarrow> unit svc_op" where
  "svc_cancel_task env tid =
     fbind (svc_now env) (\<lambda>now svc.
       let (r, sch') = cancel_task now tid (fsv_scheduler svc)
       in (and_then (map_err int_err r) (\<lambda>_. Inr ()), svc\<lparr>fsv_scheduler := sch'\<rparr>))"

section \<open>Triggering flows\<close>

datatype trigger_context = Unconditional | Scheduled schedule | Batching transform_rule

fun is_batching :: "flow_start_condition option \<Rightarrow> bool" where
  "is_batching (Some (StartBatching _ _)) = True"
| "is_batching _ = False"

definition svc_flow_run_stats :: "flow_key \<Rightarrow> flow_service \<Rightarrow> flow_run_stats" where
  "svc_flow_run_stats key svc =
     (case key of
        DatasetKey k \<Rightarrow> get_dataset_flow_run_stats (fsv_store svc) (fkd_dataset_id k) (fkd_flow_type k)
      | SystemKey ty \<Rightarrow> get_system_flow_run_stats (fsv_store svc) ty)"

definition indicate_throttling_activity :: "flow_env \<Rightarrow> flow \<Rightarrow> datetime \<Rightarrow> datetime \<Rightarrow> flow svc_op" where
  "indicate_throttling_activity env a wake_up_at shifted_from =
     fbind (svc_now env) (\<lambda>now.
       svc_command (set_relevant_start_condition now
         (StartThrottling (env_throttling_period env) wake_up_at shifted_from) a))"

definition enqueue_flow :: "flow_id \<Rightarrow> datetime \<Rightarrow> unit svc_op" where
  "enqueue_flow f t = svc_wheel (activate_at t f)"

text \<open>The records and watermarks that the triggers brought since; the counter is a \<open>u64\<close>.\<close>

fun accumulate_triggers ::
  "flow_env \<Rightarrow> flow_trigger list \<Rightarrow> u64 \<times> bool \<times> bool \<Rightarrow> (string, u64 \<times> bool \<times> bool) res" where
  "accumulate_triggers env [] acc = Inr acc"
| "accumulate_triggers env (t # ts) (records, watermark, compacted) =
     (case t of
        TriggerInputDatasetFlow _ d _ _ result \<Rightarrow>
          (case result of
             FlowResultEmpty \<Rightarrow> accumulate_triggers env ts (records, watermark, compacted)
           | FlowDatasetReset _ \<Rightarrow> accumulate_triggers env ts (records, watermark, compacted)
           | FlowDatasetCompact _ _ _ \<Rightarrow> accumulate_triggers env ts (records, watermark, True)
           | FlowDatasetUpdate (UpdateChanged old_head _) \<Rightarrow>
               and_then (env_increment_since env d old_head) (\<lambda>inc.
                 accumulate_triggers env ts
                   (records + di_num_records inc, watermark \<or> di_updated_watermark inc \<noteq> None, compacted))
           | FlowDatasetUpdate (UpdateUpToDate _) \<Rightarrow> accumulate_triggers env ts (records, watermark, compacted))
      | _ \<Rightarrow> accumulate_triggers env ts (records, watermark, compacted))"

text \<open>The activation of a batch: now if the rule is satisfied, at the deadline otherwise.\<close>

definition activate_batch ::
  "flow_env \<Rightarrow> flow_id \<Rightarrow> bool \<Rightarrow> datetime \<Rightarrow> datetime \<Rightarrow> flow \<Rightarrow> flow svc_op" where
  "activate_batch env fid now_due finish throttling_boundary a =
     (let corrected = max finish throttling_boundary in
      fbind (svc_get fsv_time_wheel) (\<lambda>wheel.
      let should_activate =
            (case get_planned_flow_activation_time wheel fid of Some t \<Rightarrow> t > corrected | None \<Rightarrow> True)
      in fbind (if should_activate then enqueue_flow fid corrected else freturn ()) (\<lambda>_.
         if now_due \<and> throttling_boundary > finish
         then indicate_throttling_activity env a throttling_boundary finish
         else freturn a)))"

definition evaluate_flow_transform_rule ::
  "flow_env \<Rightarrow> datetime \<Rightarrow> flow \<Rightarrow> transform_rule \<Rightarrow> datetime \<Rightarrow> flow svc_op" where
  "evaluate_flow_transform_rule env evaluation_time a rule throttling_boundary =
     fbind (svc_result (agg_into_state a)) (\<lambda>s.
     if flow_key_type (fs_flow_key s) \<notin> {DatasetType ExecuteTransformFlow, DatasetType HardCompaction}
     then svc_result (Inl (Panic ''assertion failed: matches!(flow.flow_key.get_type(), ...)''))
     else
     fbind (svc_result (accumulate_triggers env (fs_triggers s) (0, False, False))) (\<lambda>(records, watermark, compacted).
     fbind (svc_result (primary_trigger s)) (\<lambda>primary.
     let deadline = trigger_time primary + tr_max_batching_interval rule;
         something = (records > 0 \<or> watermark);
         satisfied = (something \<and> (records \<ge> tr_min_records_to_await rule \<or> evaluation_time \<ge> deadline))
     in
     fbind (if is_batching (fs_start_condition s) then freturn a
            else fbind (svc_now env) (\<lambda>now.
                   svc_command (set_relevant_start_condition now (StartBatching rule deadline) a))) (\<lambda>a1.
     if something \<or> compacted
     then activate_batch env (fs_flow_id s) (satisfied \<or> compacted)
            (if satisfied \<or> compacted then evaluation_time else deadline) throttling_boundary a1
     else freturn a1))))"

definition make_new_flow ::
  "flow_env \<Rightarrow> flow_key \<Rightarrow> flow_trigger \<Rightarrow> flow_config_snapshot option \<Rightarrow> flow svc_op" where
  "make_new_flow env key trigger snapshot =
     fbind (svc_now env) (\<lambda>now svc.
       let (fid, st) = new_flow_id (fsv_store svc); svc1 = svc\<lparr>fsv_store := st\<rparr>
       in case flow_new now fid key trigger snapshot of
            Inl e \<Rightarrow> (Inl (int_err e), svc1)
          | Inr a \<Rightarrow> (Inr a, svc1\<lparr>fsv_pending_flows := add_pending_flow key fid (fsv_pending_flows svc1)\<rparr>))"

definition throttling_boundary_time :: "flow_env \<Rightarrow> flow_run_stats \<Rightarrow> datetime \<Rightarrow> datetime" where
  "throttling_boundary_time env stats trig =
     (let boundary = (case last_attempt_time stats of Some t \<Rightarrow> t + env_throttling_period env | None \<Rightarrow> trig)
      in if boundary < trig then trig else boundary)"

text \<open>A trigger for a flow that is already pending.\<close>

definition merge_trigger ::
  "flow_env \<Rightarrow> flow_id \<Rightarrow> flow_trigger \<Rightarrow> trigger_context \<Rightarrow> datetime \<Rightarrow> flow svc_op" where
  "merge_trigger env fid trigger context boundary =
     fbind (svc_load_flow fid) (\<lambda>a.
     fbind (svc_now env) (\<lambda>now.
     fbind (svc_command (add_trigger_if_unique now trigger a)) (\<lambda>a1.
     fbind (svc_result (agg_into_state a1)) (\<lambda>s.
     case context of
       Batching rule \<Rightarrow>
         if is_batching (fs_start_condition s)
         then evaluate_flow_transform_rule env (trigger_time trigger) a1 rule boundary
         else freturn a1
     | _ \<Rightarrow>
         fbind (svc_get fsv_time_wheel) (\<lambda>wheel.
         case get_planned_flow_activation_time wheel (fs_flow_id s) of
           None \<Rightarrow> svc_result (Inl (Panic ''Flow expected to have activation time by now''))
         | Some planned \<Rightarrow>
             if boundary < planned
             then fbind (enqueue_flow (fs_flow_id s) boundary) (\<lambda>_.
                    if boundary > trigger_time trigger
                    then indicate_throttling_activity env a1 boundary (trigger_time trigger)
                    else freturn a1)
             else freturn a1)))))"

text \<open>A trigger that starts a new flow.\<close>

definition plan_new_flow ::
  "flow_env \<Rightarrow> flow_trigger \<Rightarrow> trigger_context \<Rightarrow> flow_run_stats \<Rightarrow> datetime \<Rightarrow> flow \<Rightarrow> flow svc_op" where
  "plan_new_flow env trigger context stats boundary a =
     fbind (svc_result (agg_into_state a)) (\<lambda>s.
     case context of
       Batching rule \<Rightarrow> evaluate_flow_transform_rule env (trigger_time trigger) a rule boundary
     | Scheduled sched \<Rightarrow>
         fbind (svc_result (next_activation_time (env_cron_after env) sched (trigger_time trigger)
                              (last_success_time stats))) (\<lambda>naive.
         fbind (enqueue_flow (fs_flow_id s) (max boundary naive)) (\<lambda>_.
         if boundary > naive then indicate_throttling_activity env a boundary naive
         else if naive > trigger_time trigger
         then fbind (svc_now env) (\<lambda>now. svc_command (set_relevant_start_condition now (StartSchedule naive) a))
         else freturn a))
     | Unconditional \<Rightarrow>
         fbind (enqueue_flow (fs_flow_id s) (max boundary (trigger_time trigger))) (\<lambda>_.
         if boundary > trigger_time trigger
         then indicate_throttling_activity env a boundary (trigger_time trigger)
         else freturn a))"

definition initiate_flow ::
  "flow_env \<Rightarrow> flow_key \<Rightarrow> flow_trigger \<Rightarrow> trigger_context \<Rightarrow> flow_config_snapshot option \<Rightarrow> flow_run_stats \<Rightarrow>
   datetime \<Rightarrow> flow svc_op" where
  "initiate_flow env key trigger context snapshot stats boundary =
     fbind (svc_get fsv_active_configs) (\<lambda>configs.
     let snap = (case snapshot of
                   Some sn \<Rightarrow> Some sn
                 | None \<Rightarrow> try_get_config_snapshot_by_key configs key) in
     fbind (make_new_flow env key trigger snap) (plan_new_flow env trigger context stats boundary))"

definition trigger_flow_common ::
  "flow_env \<Rightarrow> flow_key \<Rightarrow> flow_trigger \<Rightarrow> trigger_context \<Rightarrow> flow_config_snapshot option \<Rightarrow> flow_state svc_op" where
  "trigger_flow_common env key trigger context snapshot =
     fbind (svc_get (svc_flow_run_stats key)) (\<lambda>stats.
     fbind (svc_get fsv_pending_flows) (\<lambda>pending.
     let boundary = throttling_boundary_time env stats (trigger_time trigger) in
     fbind (case try_get_pending_flow pending key of
              Some fid \<Rightarrow> merge_trigger env fid trigger context boundary
            | None \<Rightarrow> initiate_flow env key trigger context snapshot stats boundary) (\<lambda>a.
     fbind (svc_save_flow a) (\<lambda>a'. svc_result (agg_into_state a')))))"

definition trigger_manual_flow ::
  "flow_env \<Rightarrow> datetime \<Rightarrow> flow_key \<Rightarrow> account_id \<Rightarrow> flow_config_snapshot option \<Rightarrow> flow_state svc_op" where
  "trigger_manual_flow env trig key initiator snapshot =
     fbind (svc_result (env_round_time env trig)) (\<lambda>t.
       trigger_flow_common env key (TriggerManual t initiator) Unconditional snapshot)"

definition enqueue_scheduled_auto_polling_flow :: "flow_env \<Rightarrow> datetime \<Rightarrow> flow_key \<Rightarrow> schedule \<Rightarrow> flow_state svc_op" where
  "enqueue_scheduled_auto_polling_flow env start key sched =
     trigger_flow_common env key (TriggerAutoPolling start) (Scheduled sched) None"

definition enqueue_auto_polling_flow_unconditionally :: "flow_env \<Rightarrow> datetime \<Rightarrow> flow_key \<Rightarrow> flow_state svc_op" where
  "enqueue_auto_polling_flow_unconditionally env start key =
     trigger_flow_common env key (TriggerAutoPolling start) Unconditional None"

definition try_enqueue_scheduled_auto_polling_flow_if_enabled :: "flow_env \<Rightarrow> datetime \<Rightarrow> flow_key \<Rightarrow> unit svc_op" where
  "try_enqueue_scheduled_auto_polling_flow_if_enabled env start key =
     fbind (svc_get fsv_active_configs) (\<lambda>configs.
       case try_get_flow_schedule configs key of
         Some sched \<Rightarrow> fbind (enqueue_scheduled_auto_polling_flow env start key sched) (\<lambda>_. freturn ())
       | None \<Rightarrow> freturn ())"

section \<open>Activating configurations\<close>

definition activate_flow_configuration :: "flow_env \<Rightarrow> datetime \<Rightarrow> flow_key \<Rightarrow> flow_config_rule \<Rightarrow> unit svc_op" where
  "activate_flow_configuration env start key rule =
     (case key of
        DatasetKey k \<Rightarrow>
          fbind (svc_configs (add_dataset_flow_config k rule)) (\<lambda>_.
            case rule of
              RuleTransform _ \<Rightarrow> fbind (enqueue_auto_polling_flow_unconditionally env start key) (\<lambda>_. freturn ())
            | RuleIngest r \<Rightarrow>
                fbind (enqueue_scheduled_auto_polling_flow env start key (ir_schedule_condition r)) (\<lambda>_. freturn ())
            | _ \<Rightarrow> freturn ())
      | SystemKey ty \<Rightarrow>
          (case rule of
             RuleSchedule sched \<Rightarrow>
               fbind (svc_configs (\<lambda>c. (Inr (), add_system_flow_config ty sched c))) (\<lambda>_.
                 fbind (enqueue_scheduled_auto_polling_flow env start key sched) (\<lambda>_. freturn ()))
           | _ \<Rightarrow> svc_result (Inl (Panic ''not implemented: Doubt will ever need to schedule system flows via batching rules''))))"

fun is_schedule_rule :: "flow_config_rule \<Rightarrow> bool" where
  "is_schedule_rule (RuleSchedule _) = True"
| "is_schedule_rule _ = False"

definition initialize_auto_polling_flows_from_configurations ::
  "flow_env \<Rightarrow> flow_config_state list \<Rightarrow> datetime \<Rightarrow> unit svc_op" where
  "initialize_auto_polling_flows_from_configurations env configs start =
     (let (schedule_configs, other) = partition (\<lambda>c. is_schedule_rule (fc_rule c)) configs
      in feach (\<lambda>c. activate_flow_configuration env start (fc_flow_key c) (fc_rule c)) (schedule_configs @ other))"

section \<open>Tasks of flows\<close>

definition make_task_logical_plan :: "flow_key \<Rightarrow> flow_config_snapshot option \<Rightarrow> (string, logical_plan) res" where
  "make_task_logical_plan key snapshot =
     (case key of
        DatasetKey k \<Rightarrow>
          (case fkd_flow_type k of
             HardCompaction \<Rightarrow>
               (case snapshot of
                  Some (SnapCompaction rule) \<Rightarrow>
                    Inr (HardCompactionDataset (fkd_dataset_id k) (compaction_max_slice_size rule)
                          (compaction_max_slice_records rule)
                          (case rule of CompactionMetadataOnly _ \<Rightarrow> True | CompactionFull _ \<Rightarrow> False))
                | _ \<Rightarrow> Inr (HardCompactionDataset (fkd_dataset_id k) None None False))
           | ResetFlow \<Rightarrow>
               (case snapshot of
                  Some (SnapReset rule) \<Rightarrow>
                    Inr (ResetPlan (fkd_dataset_id k) (rr_new_head_hash rule) (rr_old_head_hash rule) (rr_recursive rule))
                | _ \<Rightarrow> Inl (Fail ''Reset flow cannot be called without configuration''))
           | _ \<Rightarrow>
               Inr (UpdateDataset (fkd_dataset_id k)
                     (case snapshot of Some (SnapIngest rule) \<Rightarrow> ir_fetch_uncacheable rule | _ \<Rightarrow> False)))
      | SystemKey GC \<Rightarrow> Inr (Probe None (Some (20 * 10 ^ 9)) (Some (TaskSuccess TaskResultEmpty))))"

definition schedule_flow_task :: "flow_env \<Rightarrow> flow \<Rightarrow> datetime \<Rightarrow> task_id svc_op" where
  "schedule_flow_task env a schedule_time =
     fbind (svc_result (agg_into_state a)) (\<lambda>s.
     fbind (svc_result (make_task_logical_plan (fs_flow_key s) (fs_config_snapshot s))) (\<lambda>plan.
     fbind (svc_create_task env plan) (\<lambda>task.
     fbind (svc_command (set_relevant_start_condition schedule_time (StartExecutor (ts_task_id task)) a)) (\<lambda>a1.
     fbind (svc_command (on_task_scheduled schedule_time (ts_task_id task) a1)) (\<lambda>a2.
     fbind (svc_save_flow a2) (\<lambda>_.
     fbind (svc_pending (track_flow_task (fs_flow_id s) (ts_task_id task))) (\<lambda>_.
       freturn (ts_task_id task))))))))"

text \<open>
  Each planned flow is scheduled; an error of one is logged and does not stop the others, a
  panic does.
\<close>

fun schedule_planned :: "flow_env \<Rightarrow> datetime \<Rightarrow> flow_id list \<Rightarrow> unit svc_op" where
  "schedule_planned env slot [] svc = (Inr (), svc)"
| "schedule_planned env slot (f # fs) svc =
     (case fbind (svc_load_flow f) (\<lambda>a. schedule_flow_task env a slot) svc of
        (Inl (Panic m), svc') \<Rightarrow> (Inl (Panic m), svc')
      | (_, svc') \<Rightarrow> schedule_planned env slot fs svc')"

definition run_current_timeslot :: "flow_env \<Rightarrow> datetime \<Rightarrow> unit svc_op" where
  "run_current_timeslot env slot =
     fbind (svc_get (\<lambda>svc. take_nearest_planned_flows (fsv_time_wheel svc))) (\<lambda>(planned, w).
     fbind (svc_wheel (\<lambda>_. w)) (\<lambda>_.
       schedule_planned env slot planned))"

definition abort_flow_impl :: "flow_env \<Rightarrow> flow \<Rightarrow> flow svc_op" where
  "abort_flow_impl env a =
     fbind (svc_now env) (\<lambda>now.
     fbind (svc_command (flow_abort now a)) (\<lambda>a1.
     fbind (svc_save_flow a1) (\<lambda>a2.
     fbind (svc_result (agg_into_state a2)) (\<lambda>s.
     fbind (svc_pending (\<lambda>p. foldl (\<lambda>p tid. untrack_flow_by_task tid p) p (fs_task_ids s))) (\<lambda>_.
     fbind (feach (svc_cancel_task env) (fs_task_ids s)) (\<lambda>_.
       freturn a2))))))"

definition abort_flow :: "flow_env \<Rightarrow> flow_id \<Rightarrow> unit svc_op" where
  "abort_flow env f = fbind (svc_load_flow f) (\<lambda>a. fbind (abort_flow_impl env a) (\<lambda>_. freturn ()))"

definition cancel_scheduled_tasks :: "flow_env \<Rightarrow> flow_id \<Rightarrow> flow_state svc_op" where
  "cancel_scheduled_tasks env f =
     fbind (svc_load_flow f) (\<lambda>a.
     fbind (svc_result (agg_into_state a)) (\<lambda>s.
     fbind (case flow_status_of s of
              FlowFinished \<Rightarrow> freturn a
            | _ \<Rightarrow> abort_flow_impl env a) (\<lambda>a'.
       svc_result (agg_into_state a'))))"

end
