(* ===== verification/Flow_Handlers.thy ===== *)
theory Flow_Handlers
  imports Flow_Service
begin

text \<open>
  The rest of \<open>flow_service_impl.rs\<close>: the flows that a successful flow triggers downstream, the
  start of the service and a round of its main loop, the three message consumers, and the
  listings. \<open>flow_configuration_service.list_enabled_configurations\<close> is an argument of the start.
\<close>

section \<open>Downstream flows\<close>

datatype downstream_trigger_type = TriggerAllEnabledExecuteTransform | TriggerOwnHardCompaction | TriggerNone

record flow_plan =
  fp_flow_key :: flow_key
  fp_trigger_context :: trigger_context
  fp_config_snapshot :: "flow_config_snapshot option"

definition classify_dependent_trigger_type ::
  "dataset_flow_type \<Rightarrow> flow_config_snapshot option \<Rightarrow> downstream_trigger_type" where
  "classify_dependent_trigger_type ty snapshot =
     (case ty of
        HardCompaction \<Rightarrow>
          (case snapshot of
             Some (SnapCompaction rule) \<Rightarrow>
               if compaction_recursive rule then TriggerOwnHardCompaction else TriggerNone
           | _ \<Rightarrow> TriggerAllEnabledExecuteTransform)
      | ResetFlow \<Rightarrow>
          (case snapshot of
             Some (SnapReset rule) \<Rightarrow> if rr_recursive rule then TriggerOwnHardCompaction else TriggerNone
           | _ \<Rightarrow> TriggerNone)
      | _ \<Rightarrow> TriggerAllEnabledExecuteTransform)"

fun owned_by_any :: "flow_env \<Rightarrow> dataset_id \<Rightarrow> account_id list \<Rightarrow> (string, bool) res" where
  "owned_by_any env d [] = Inr False"
| "owned_by_any env d (owner # owners) =
     and_then (env_is_owned_by env d owner) (\<lambda>owned. if owned then Inr True else owned_by_any env d owners)"

fun own_compaction_plans :: "flow_env \<Rightarrow> account_id list \<Rightarrow> dataset_id list \<Rightarrow> (string, flow_plan list) res" where
  "own_compaction_plans env owners [] = Inr []"
| "own_compaction_plans env owners (d # ds) =
     and_then (owned_by_any env d owners) (\<lambda>owned.
     and_then (own_compaction_plans env owners ds) (\<lambda>plans.
       Inr (if owned
            then \<lparr>fp_flow_key = DatasetKey \<lparr>fkd_dataset_id = d, fkd_flow_type = HardCompaction\<rparr>,
                  fp_trigger_context = Unconditional,
                  fp_config_snapshot = Some (SnapCompaction (CompactionMetadataOnly True))\<rparr> # plans
            else plans)))"

fun transform_plans :: "active_configs \<Rightarrow> dataset_id list \<Rightarrow> flow_plan list" where
  "transform_plans c [] = []"
| "transform_plans c (d # ds) =
     (case try_get_dataset_transform_rule c d ExecuteTransformFlow of
        Some rule \<Rightarrow>
          \<lparr>fp_flow_key = DatasetKey \<lparr>fkd_dataset_id = d, fkd_flow_type = ExecuteTransformFlow\<rparr>,
           fp_trigger_context = Batching rule, fp_config_snapshot = None\<rparr> # transform_plans c ds
      | None \<Rightarrow> transform_plans c ds)"

definition make_downstream_dependencies_flow_plans ::
  "flow_env \<Rightarrow> active_configs \<Rightarrow> flow_key_dataset \<Rightarrow> flow_config_snapshot option \<Rightarrow> (string, flow_plan list) res" where
  "make_downstream_dependencies_flow_plans env c k snapshot =
     and_then (env_downstream env (fkd_dataset_id k)) (\<lambda>dependents.
       if dependents = [] then Inr []
       else case classify_dependent_trigger_type (fkd_flow_type k) snapshot of
              TriggerAllEnabledExecuteTransform \<Rightarrow> Inr (transform_plans c dependents)
            | TriggerOwnHardCompaction \<Rightarrow>
                and_then (env_owners env (fkd_dataset_id k)) (\<lambda>owners. own_compaction_plans env owners dependents)
            | TriggerNone \<Rightarrow> Inr [])"

definition enqueue_dependent_flows :: "flow_env \<Rightarrow> datetime \<Rightarrow> flow_state \<Rightarrow> flow_result \<Rightarrow> unit svc_op" where
  "enqueue_dependent_flows env success_time s result =
     (case fs_flow_key s of
        SystemKey _ \<Rightarrow>
          svc_result (Inl (Panic ''internal error: entered unreachable code: Not expecting other types of flow keys than dataset''))
      | DatasetKey k \<Rightarrow>
          fbind (svc_get fsv_active_configs) (\<lambda>configs.
          fbind (svc_result (make_downstream_dependencies_flow_plans env configs k (fs_config_snapshot s))) (\<lambda>plans.
            feach (\<lambda>plan.
              fbind (trigger_flow_common env (fp_flow_key plan)
                       (TriggerInputDatasetFlow success_time (fkd_dataset_id k) (fkd_flow_type k) (fs_flow_id s) result)
                       (fp_trigger_context plan) (fp_config_snapshot plan)) (\<lambda>_. freturn ())) plans)))"

section \<open>Start and main loop\<close>

definition svc_running :: "unit svc_op" where
  "svc_running svc = (Inr (), svc\<lparr>fsv_running := True\<rparr>)"

definition service_start :: "flow_env \<Rightarrow> flow_config_state list \<Rightarrow> datetime \<Rightarrow> unit svc_op" where
  "service_start env enabled planned_start =
     fbind svc_running (\<lambda>_.
     fbind (svc_result (env_round_time env planned_start)) (\<lambda>start.
     fbind (initialize_auto_polling_flows_from_configurations env enabled start) (\<lambda>_.
       svc_post start ServiceLoaded)))"

definition main_loop_round :: "flow_env \<Rightarrow> unit svc_op" where
  "main_loop_round env =
     fbind (svc_now env) (\<lambda>now.
     fbind (svc_get fsv_time_wheel) (\<lambda>wheel.
       case nearest_activation_moment wheel of
         Some nearest \<Rightarrow>
           if nearest \<le> now
           then fbind (run_current_timeslot env nearest) (\<lambda>_. svc_post nearest ExecutedTimeslot)
           else freturn ()
       | None \<Rightarrow> freturn ()))"

section \<open>Test driver\<close>

definition svc_cancel_activation :: "flow_id \<Rightarrow> unit svc_op" where
  "svc_cancel_activation f svc =
     (case cancel_flow_activation f (fsv_time_wheel svc) of
        (Inl _, w) \<Rightarrow> (Inl (Fail ''internal error''), svc\<lparr>fsv_time_wheel := w\<rparr>)
      | (Inr _, w) \<Rightarrow> (Inr (), svc\<lparr>fsv_time_wheel := w\<rparr>))"

definition mimic_flow_scheduled :: "flow_env \<Rightarrow> flow_id \<Rightarrow> datetime \<Rightarrow> task_id svc_op" where
  "mimic_flow_scheduled env f t =
     fbind (svc_cancel_activation f) (\<lambda>_.
     fbind (svc_load_flow f) (\<lambda>a. schedule_flow_task env a t))"

section \<open>Message consumers\<close>

definition when_running :: "unit svc_op \<Rightarrow> unit svc_op" where
  "when_running m = fbind (svc_get fsv_running) (\<lambda>running. if running then m else freturn ())"

definition on_progress_running :: "flow_env \<Rightarrow> datetime \<Rightarrow> task_id \<Rightarrow> unit svc_op" where
  "on_progress_running env time tid =
     when_running (
       fbind (svc_get fsv_pending_flows) (\<lambda>pending.
       case try_get_flow_id_by_task pending tid of
         None \<Rightarrow> freturn ()
       | Some fid \<Rightarrow>
           fbind (svc_load_flow fid) (\<lambda>a.
           fbind (svc_command (on_task_running time tid a)) (\<lambda>a1.
           fbind (svc_save_flow a1) (\<lambda>_.
             svc_post time ServiceFlowRunning)))))"

definition finish_followup :: "flow_env \<Rightarrow> datetime \<Rightarrow> flow_state \<Rightarrow> unit svc_op" where
  "finish_followup env finish_time s =
     (case try_result s of
        Some result \<Rightarrow>
          if \<not> flow_result_is_empty result \<and> success_followup_method (flow_key_type (fs_flow_key s)) = FollowupTriggerDependent
          then enqueue_dependent_flows env finish_time s result
          else freturn ()
      | None \<Rightarrow> freturn ())"

definition on_progress_finished :: "flow_env \<Rightarrow> datetime \<Rightarrow> task_id \<Rightarrow> task_outcome \<Rightarrow> unit svc_op" where
  "on_progress_finished env time tid outcome =
     when_running (
       fbind (svc_get fsv_pending_flows) (\<lambda>pending.
       fbind (svc_result (env_round_time env time)) (\<lambda>finish_time.
         case try_get_flow_id_by_task pending tid of
           None \<Rightarrow> freturn ()
         | Some fid \<Rightarrow>
             fbind (svc_load_flow fid) (\<lambda>a.
             fbind (svc_command (on_task_finished time tid outcome a)) (\<lambda>a1.
             fbind (svc_save_flow a1) (\<lambda>a2.
             fbind (svc_result (agg_into_state a2)) (\<lambda>s.
             fbind (svc_pending (\<lambda>p. snd (drop_pending_flow (fs_flow_key s) (untrack_flow_by_task tid p)))) (\<lambda>_.
             fbind (finish_followup env finish_time s) (\<lambda>_.
             fbind (if task_outcome_is_success outcome
                    then try_enqueue_scheduled_auto_polling_flow_if_enabled env finish_time (fs_flow_key s)
                    else freturn ()) (\<lambda>_.
               svc_post time ServiceFlowFinished))))))))))"

fun consume_task_progress :: "flow_env \<Rightarrow> task_progress_message \<Rightarrow> unit svc_op" where
  "consume_task_progress env (ProgressRunning time tid) = on_progress_running env time tid"
| "consume_task_progress env (ProgressFinished time tid outcome) = on_progress_finished env time tid outcome"

definition svc_drop_pending :: "flow_key \<Rightarrow> flow_id option svc_op" where
  "svc_drop_pending key svc =
     (let (f, p) = drop_pending_flow key (fsv_pending_flows svc) in (Inr f, svc\<lparr>fsv_pending_flows := p\<rparr>))"

record config_updated_message =
  cum_event_time :: datetime
  cum_flow_key :: flow_key
  cum_paused :: bool
  cum_rule :: flow_config_rule

definition consume_config_updated :: "flow_env \<Rightarrow> config_updated_message \<Rightarrow> unit svc_op" where
  "consume_config_updated env m =
     when_running
       (if cum_paused m
        then fbind (svc_configs (\<lambda>c. (Inr (), drop_flow_config (cum_flow_key m) c))) (\<lambda>_.
             fbind (svc_drop_pending (cum_flow_key m)) (\<lambda>pending.
             case pending of
               Some fid \<Rightarrow> fbind (svc_cancel_activation fid) (\<lambda>_. abort_flow env fid)
             | None \<Rightarrow> freturn ()))
        else fbind (svc_result (env_round_time env (cum_event_time m))) (\<lambda>t.
             activate_flow_configuration env t (cum_flow_key m) (cum_rule m)))"

fun drop_dataset_flows :: "dataset_id \<Rightarrow> dataset_flow_type list \<Rightarrow> flow_id list \<Rightarrow> flow_id list svc_op" where
  "drop_dataset_flows d [] fids = freturn fids"
| "drop_dataset_flows d (ty # tys) fids =
     fbind (svc_drop_pending (DatasetKey \<lparr>fkd_dataset_id = d, fkd_flow_type = ty\<rparr>)) (\<lambda>pending.
       case pending of
         Some fid \<Rightarrow> fbind (svc_cancel_activation fid) (\<lambda>_. drop_dataset_flows d tys (fids @ [fid]))
       | None \<Rightarrow> drop_dataset_flows d tys fids)"

definition abort_deleted :: "flow_env \<Rightarrow> flow_id \<Rightarrow> unit svc_op" where
  "abort_deleted env fid =
     fbind (svc_load_flow fid) (\<lambda>a.
     fbind (svc_now env) (\<lambda>now.
     fbind (svc_command (flow_abort now a)) (\<lambda>a1.
     fbind (svc_save_flow a1) (\<lambda>_. freturn ()))))"

fun consume_dataset_lifecycle :: "flow_env \<Rightarrow> dataset_lifecycle_message \<Rightarrow> unit svc_op" where
  "consume_dataset_lifecycle env (LifecycleDeleted d) =
     when_running
       (fbind (svc_configs (\<lambda>c. (Inr (), drop_dataset_configs d c))) (\<lambda>_.
        fbind (drop_dataset_flows d all_dataset_flow_types []) (\<lambda>fids.
          feach (abort_deleted env) fids)))"
| "consume_dataset_lifecycle env _ = freturn ()"

section \<open>Queries\<close>

definition list_all_flow_initiators_by_dataset :: "flow_store \<Rightarrow> dataset_id \<Rightarrow> account_id list" where
  "list_all_flow_initiators_by_dataset st d = get_unique_flow_initiator_ids_by_dataset st d"

datatype get_flow_error = FlowNotFound flow_id | GetFlowInternal

fun get_flow_error_of_load :: "(flow_id, 's, 'e) load_error \<Rightarrow> get_flow_error" where
  "get_flow_error_of_load (LoadNotFound q) = FlowNotFound q"
| "get_flow_error_of_load _ = GetFlowInternal"

definition get_flow :: "flow_store \<Rightarrow> flow_id \<Rightarrow> (get_flow_error, flow_state) res" where
  "get_flow st fid =
     and_then (map_err (map_fault get_flow_error_of_load) (flow_load st fid)) (\<lambda>a. agg_into_state a)"

text \<open>The stream of a listing: it ends at the first item that is an error.\<close>

fun load_flows :: "flow_store \<Rightarrow> flow_id list \<Rightarrow> (string, flow_state) res list" where
  "load_flows st [] = []"
| "load_flows st (f # fs) =
     (case and_then (map_err int_err (flow_load st f)) agg_into_state of
        Inl e \<Rightarrow> [Inl e]
      | Inr s \<Rightarrow> Inr s # load_flows st fs)"

record flow_listing =
  fl_matched :: "(string, flow_state) res list"
  fl_total_count :: nat

definition list_all_flows_by_dataset ::
  "flow_store \<Rightarrow> dataset_id \<Rightarrow> dataset_flow_filters \<Rightarrow> nat \<Rightarrow> nat \<Rightarrow> flow_listing" where
  "list_all_flows_by_dataset st d flt offset limit =
     \<lparr>fl_matched = load_flows st (get_all_flow_ids_by_dataset st d flt offset limit),
      fl_total_count = get_count_flows_by_dataset st d flt\<rparr>"

record account_flow_filters =
  aff_by_dataset_ids :: "dataset_id set"
  aff_by_flow_type :: "dataset_flow_type option"
  aff_by_flow_status :: "flow_status option"
  aff_by_initiator :: "initiator_filter option"

definition list_all_flows_by_account ::
  "flow_env \<Rightarrow> flow_store \<Rightarrow> account_id \<Rightarrow> account_flow_filters \<Rightarrow> nat \<Rightarrow> nat \<Rightarrow> (string, flow_listing) res" where
  "list_all_flows_by_account env st acc flt offset limit =
     and_then (env_owned_datasets env acc) (\<lambda>owned.
       let ds = (if aff_by_dataset_ids flt \<noteq> {} then filter (\<lambda>d. d \<in> aff_by_dataset_ids flt) owned else owned);
           dflt = \<lparr>dff_by_flow_type = aff_by_flow_type flt, dff_by_flow_status = aff_by_flow_status flt,
                   dff_by_initiator = aff_by_initiator flt\<rparr>
       in Inr \<lparr>fl_matched =
                 (case get_all_flow_ids_by_datasets st (set ds) dflt offset limit of
                    Inl e \<Rightarrow> [Inl e]
                  | Inr fids \<Rightarrow> load_flows st fids),
               fl_total_count = sum_list (map (\<lambda>d. get_count_flows_by_dataset st d dflt) ds)\<rparr>)"

definition no_dataset_filters :: dataset_flow_filters where
  "no_dataset_filters = \<lparr>dff_by_flow_type = None, dff_by_flow_status = None, dff_by_initiator = None\<rparr>"

definition list_all_datasets_with_flow_by_account ::
  "flow_env \<Rightarrow> flow_store \<Rightarrow> account_id \<Rightarrow> (string, dataset_id list) res" where
  "list_all_datasets_with_flow_by_account env st acc =
     and_then (env_owned_datasets env acc) (\<lambda>owned.
       Inr (filter (\<lambda>d. get_count_flows_by_dataset st d no_dataset_filters > 0) owned))"

definition list_all_system_flows :: "flow_store \<Rightarrow> system_flow_filters \<Rightarrow> nat \<Rightarrow> nat \<Rightarrow> flow_listing" where
  "list_all_system_flows st flt offset limit =
     \<lparr>fl_matched = load_flows st (get_all_system_flow_ids st flt offset limit),
      fl_total_count = get_count_system_flows st flt\<rparr>"

definition list_all_flows :: "flow_store \<Rightarrow> nat \<Rightarrow> nat \<Rightarrow> flow_listing" where
  "list_all_flows st offset limit =
     \<lparr>fl_matched = load_flows st (get_all_flow_ids st offset limit),
      fl_total_count = get_count_all_flows st\<rparr>"

end
