(* ===== verification/Flow_Store_Properties.thy ===== *)
theory Flow_Store_Properties
  imports Flow_Store
begin

text \<open>
  The flow store refines its log: the search index, the lists of flows and the run statistics
  that it maintains beside the log are functions of the log alone. Saving an aggregate that is in
  step with the log keeps this, and never meets a flow that was not indexed.
\<close>

section \<open>The log as the abstract state\<close>

abbreviation flow_view :: "flow_event list \<Rightarrow> flow_id \<Rightarrow> (flow_projection_error, flow_state option) res" where
  "flow_view \<equiv> log_view flow_proj"

definition flow_at :: "flow_event list \<Rightarrow> flow_id \<Rightarrow> flow_state option" where
  "flow_at evs f = (case flow_view evs f of Inr s \<Rightarrow> s | Inl _ \<Rightarrow> None)"

fun initiated_key :: "flow_event \<Rightarrow> (flow_id \<times> flow_key) option" where
  "initiated_key (FlowInitiated _ f key _ _) = Some (f, key)"
| "initiated_key _ = None"

definition initiated :: "flow_event list \<Rightarrow> (flow_id \<times> flow_key) list" where
  "initiated evs = List.map_filter initiated_key evs"

fun run_of :: "flow_event \<Rightarrow> (flow_id \<times> datetime \<times> task_outcome) option" where
  "run_of (FlowTaskFinished time f _ outcome) = Some (f, time, outcome)"
| "run_of _ = None"

definition runs :: "flow_event list \<Rightarrow> flow_key \<Rightarrow> (datetime \<times> task_outcome) list" where
  "runs evs key = map snd (filter (\<lambda>(f, _). map_of (initiated evs) f = Some key) (List.map_filter run_of evs))"

definition stats_of_runs :: "(datetime \<times> task_outcome) list \<Rightarrow> flow_run_stats option" where
  "stats_of_runs rs =
     (if rs = [] then None
      else let ok = filter (\<lambda>(_, out). task_outcome_is_success out) rs
           in Some \<lparr>last_success_time = (if ok = [] then None else Some (fst (last ok))),
                    last_attempt_time = Some (fst (last rs))\<rparr>)"

definition index_entry_of :: "flow_state \<Rightarrow> flow_index_entry" where
  "index_entry_of s =
     \<lparr>fie_flow_type = flow_key_type (fs_flow_key s), fie_flow_status = flow_status_of s,
      fie_initiator = initiator_account_id (hd (fs_triggers s))\<rparr>"

definition is_dataset_key :: "dataset_id \<Rightarrow> flow_key \<Rightarrow> bool" where
  "is_dataset_key d key \<longleftrightarrow> (\<exists>k. key = DatasetKey k \<and> fkd_dataset_id k = d)"

definition is_system_key :: "flow_key \<Rightarrow> bool" where
  "is_system_key key \<longleftrightarrow> (\<exists>t. key = SystemKey t)"

definition log_ok :: "flow_event list \<Rightarrow> bool" where
  "log_ok evs \<longleftrightarrow>
     (\<forall>f. flow_view evs f = Inr None \<and> map_of (initiated evs) f = None
        \<or> (\<exists>s. flow_view evs f = Inr (Some s) \<and> fs_flow_id s = f \<and> flow_wf s
              \<and> map_of (initiated evs) f = Some (fs_flow_key s)))"

definition index_ok :: "flow_event list \<Rightarrow> flow_store \<Rightarrow> bool" where
  "index_ok evs st \<longleftrightarrow>
     fst_search_index st = (\<lambda>f. map_option index_entry_of (flow_at evs f))
     \<and> fst_key_by_flow_id st = (\<lambda>f. map_option fs_flow_key (flow_at evs f))
     \<and> fst_all_flows st = map fst (initiated evs)
     \<and> (\<forall>d. (case fst_all_flows_by_dataset st d of Some ids \<Rightarrow> ids | None \<Rightarrow> []) =
            map fst (filter (\<lambda>(_, key). is_dataset_key d key) (initiated evs)))
     \<and> fst_all_system_flows st = map fst (filter (\<lambda>(_, key). is_system_key key) (initiated evs))
     \<and> (\<forall>k. fst_dataset_run_stats st k = stats_of_runs (runs evs (DatasetKey k)))
     \<and> (\<forall>t. fst_system_run_stats st t = stats_of_runs (runs evs (SystemKey t)))"

definition flow_store_inv :: "flow_store \<Rightarrow> bool" where
  "flow_store_inv st \<longleftrightarrow> log_ok (fst_events st) \<and> index_ok (fst_events st) st"

section \<open>Appending one event\<close>

lemma initiated_snoc: "initiated (evs @ [e]) = initiated evs @ (case initiated_key e of Some x \<Rightarrow> [x] | None \<Rightarrow> [])"
  by (simp add: initiated_def map_filter_def split: option.split)

lemma log_okD:
  assumes "log_ok evs"
  shows "flow_view evs f = Inr (flow_at evs f)"
    and "map_of (initiated evs) f = map_option fs_flow_key (flow_at evs f)"
    and "flow_at evs f = Some s \<Longrightarrow> fs_flow_id s = f \<and> flow_wf s"
  using assms [unfolded log_ok_def, rule_format, of f] by (auto simp: flow_at_def)

lemma flow_at_snoc:
  assumes "log_ok evs" and "flow_apply (flow_at evs f) e = Inr s'" and "flow_event_id e = f"
  shows "flow_view (evs @ [e]) g = Inr (if g = f then Some s' else flow_at evs g)"
    and "flow_at (evs @ [e]) = (flow_at evs)(f \<mapsto> s')"
proof -
  show view: "flow_view (evs @ [e]) g = Inr (if g = f then Some s' else flow_at evs g)" for g
    using assms log_okD(1) [OF assms(1)] by (auto simp: log_view_snoc flow_matches_def)
  then show "flow_at (evs @ [e]) = (flow_at evs)(f \<mapsto> s')" by (auto simp: flow_at_def)
qed

lemma flow_apply_initiates:
  assumes "flow_apply s e = Inr s'" and "flow_event_id e = f"
  shows "initiated_key e = (case s of None \<Rightarrow> Some (f, fs_flow_key s') | Some _ \<Rightarrow> None)
    \<and> (\<forall>r. s = Some r \<longrightarrow> fs_flow_key s' = fs_flow_key r)"
  using assms
  by (cases "(s, e)" rule: flow_apply.cases)
    (auto split: flow_event.splits if_splits task_outcome.splits option.splits)

lemma log_ok_snoc:
  assumes "log_ok evs" and "flow_apply (flow_at evs f) e = Inr s'" and "flow_event_id e = f"
  shows "log_ok (evs @ [e])"
proof -
  have wf: "flow_wf s'" "fs_flow_id s' = f"
    using flow_apply_wf [OF assms(2)] log_okD(3) [OF assms(1)] flow_apply_id [OF assms(2)] assms(3) by auto
  have keys: "map_of (initiated (evs @ [e])) g = map_option fs_flow_key (flow_at (evs @ [e]) g)" for g
    using log_okD(2) [OF assms(1), of g] flow_apply_initiates [OF assms(2,3)]
    by (auto simp: initiated_snoc flow_at_snoc(2) [OF assms] map_add_def split: option.splits)
  have view: "flow_view (evs @ [e]) g = Inr (flow_at (evs @ [e]) g)" for g
    by (simp add: flow_at_snoc [OF assms])
  have each: "flow_at (evs @ [e]) g = Some s \<Longrightarrow> fs_flow_id s = g \<and> flow_wf s" for g s
    using wf log_okD(3) [OF assms(1), of g s] by (auto simp: flow_at_snoc(2) [OF assms] split: if_splits)
  show ?thesis
    unfolding log_ok_def
  proof
    fix g
    show "flow_view (evs @ [e]) g = Inr None \<and> map_of (initiated (evs @ [e])) g = None
        \<or> (\<exists>s. flow_view (evs @ [e]) g = Inr (Some s) \<and> fs_flow_id s = g \<and> flow_wf s
              \<and> map_of (initiated (evs @ [e])) g = Some (fs_flow_key s))"
      using keys [of g] view [of g] each [of g] by (cases "flow_at (evs @ [e]) g") simp_all
  qed
qed

lemma log_ok_Nil: "log_ok []"
  by (simp add: log_ok_def initiated_def map_filter_def)

lemma flow_store_inv_empty: "flow_store_inv empty_flow_store"
  by (auto simp: flow_store_inv_def log_ok_Nil index_ok_def empty_flow_store_def flow_at_def initiated_def
      map_filter_def runs_def stats_of_runs_def)

section \<open>Run statistics\<close>

lemma stats_of_runs_snoc:
  "stats_of_runs (rs @ [(t, out)]) =
     (let new = \<lparr>last_success_time = (if task_outcome_is_success out then Some t else None), last_attempt_time = Some t\<rparr>
      in Some (case stats_of_runs rs of Some old \<Rightarrow> run_stats_merge old new | None \<Rightarrow> new))"
  by (auto simp: stats_of_runs_def run_stats_merge_def Let_def)

lemma log_event_initiated:
  assumes "log_ok evs" and "e \<in> set evs"
  shows "map_of (initiated evs) (flow_event_id e) \<noteq> None"
proof -
  have "flow_view evs (flow_event_id e) \<noteq> Inr None"
    using assms(2) by (auto simp: log_view_None flow_matches_def)
  then show ?thesis using log_okD(1,2) [OF assms(1), of "flow_event_id e"] by auto
qed

lemma run_of_id: "run_of e = Some (f, r) \<Longrightarrow> flow_event_id e = f"
  by (cases e) auto

lemma runs_snoc:
  assumes "log_ok evs" and "flow_apply (flow_at evs f) e = Inr s'" and "flow_event_id e = f"
  shows "runs (evs @ [e]) key = runs evs key @
    (case run_of e of Some (_, r) \<Rightarrow> if fs_flow_key s' = key then [r] else [] | None \<Rightarrow> [])"
proof -
  have old: "map_of (initiated (evs @ [e])) g = map_of (initiated evs) g"
    if "map_of (initiated evs) g \<noteq> None" for g
    using that by (auto simp: initiated_snoc map_add_def split: option.split)
  have "filter (\<lambda>(g, _). map_of (initiated (evs @ [e])) g = Some key) (List.map_filter run_of evs) =
      filter (\<lambda>(g, _). map_of (initiated evs) g = Some key) (List.map_filter run_of evs)"
  proof (rule filter_cong [OF refl], clarify)
    fix g t out assume "(g, t, out) \<in> set (List.map_filter run_of evs)"
    then obtain e' where "e' \<in> set evs" "flow_event_id e' = g"
      using run_of_id by (auto simp: map_filter_def)
    with log_event_initiated [OF assms(1)] old
    show "(map_of (initiated (evs @ [e])) g = Some key) = (map_of (initiated evs) g = Some key)" by metis
  qed
  moreover have "map_of (initiated (evs @ [e])) f = Some (fs_flow_key s')"
    using log_okD(2) [OF log_ok_snoc [OF assms], of f] by (simp add: flow_at_snoc(2) [OF assms])
  ultimately show ?thesis
    using run_of_id [of e] assms(3) by (auto simp: runs_def map_filter_def split: option.split)
qed

section \<open>The index follows the log\<close>

lemma initiated_hd: "flow_apply (Some s) e = Inr s' \<Longrightarrow> fs_triggers s \<noteq> [] \<Longrightarrow> hd (fs_triggers s') = hd (fs_triggers s)"
  using flow_apply_forward [of s e s'] by auto

lemma index_entry_step:
  assumes "flow_apply (Some s) e = Inr s'" and "flow_wf s"
  shows "index_entry_of s' =
    (case flow_event_new_status e of
       None \<Rightarrow> index_entry_of s
     | Some st \<Rightarrow> (index_entry_of s)\<lparr>fie_flow_status := st\<rparr>)"
proof -
  have "flow_event_new_status e = None \<Longrightarrow> flow_status_of s' = flow_status_of s"
    "flow_event_new_status e = Some st \<Longrightarrow> flow_status_of s' = st" for st
    using flow_apply_status [OF assms(1)] by (auto split: if_splits)
  moreover have "fs_flow_key s' = fs_flow_key s" "hd (fs_triggers s') = hd (fs_triggers s)"
    using flow_apply_forward [OF assms(1)] initiated_hd [OF assms(1)] assms(2) by (auto simp: flow_wf_def)
  ultimately show ?thesis by (simp add: index_entry_of_def split: option.split)
qed

lemma update_index_initiated:
  assumes "log_ok evs" and "index_ok evs st" and "flow_apply (flow_at evs f) e = Inr s'" and "flow_event_id e = f"
    and e: "e = FlowInitiated time f key trigger snapshot"
  shows "index_ok (evs @ [e]) (index_initiated st f key trigger)"
proof -
  have new: "flow_at evs f = None" using assms(3) by (cases "flow_at evs f") (auto simp: e split: if_splits)
  have s': "fs_flow_key s' = key" "fs_triggers s' = [trigger]" "flow_status_of s' = FlowWaiting"
    using assms(3) by (auto simp: e new flow_status_of_def)
  have runs: "runs (evs @ [e]) k = runs evs k" for k
    unfolding runs_snoc [OF assms(1,3,4)] by (simp add: e)
  have init: "initiated (evs @ [e]) = initiated evs @ [(f, key)]"
    unfolding initiated_snoc by (simp add: e)
  have entry: "index_entry_of s' = \<lparr>fie_flow_type = flow_key_type key, fie_flow_status = FlowWaiting,
      fie_initiator = initiator_account_id trigger\<rparr>"
    by (simp add: index_entry_of_def s')
  show ?thesis
    using assms(2) unfolding index_ok_def flow_at_snoc(2) [OF assms(1,3,4)] runs init
    by (cases key) (auto simp: index_initiated_def Let_def entry s' fun_eq_iff is_dataset_key_def is_system_key_def
        split: option.splits)
qed

lemma index_status_ok:
  assumes "log_ok evs" and "index_ok evs st" and "flow_apply (Some s) e = Inr s'" and "flow_at evs f = Some s"
    and "flow_event_id e = f" and "flow_event_new_status e = Some new" and "run_of e = None"
  shows "index_ok (evs @ [e]) (st\<lparr>fst_search_index := (fst_search_index st)(f \<mapsto> (index_entry_of s)\<lparr>fie_flow_status := new\<rparr>)\<rparr>)"
proof -
  have step: "flow_apply (flow_at evs f) e = Inr s'" using assms(3,4) by simp
  note snoc = flow_at_snoc(2) [OF assms(1) step assms(5)] runs_snoc [OF assms(1) step assms(5)] initiated_snoc [of evs e]
  have "initiated_key e = None" "fs_flow_key s' = fs_flow_key s"
    using flow_apply_initiates [OF assms(3,5)] by auto
  moreover have "index_entry_of s' = (index_entry_of s)\<lparr>fie_flow_status := new\<rparr>"
    using index_entry_step [OF assms(3)] log_okD(3) [OF assms(1,4)] assms(6) by simp
  ultimately show ?thesis
    using assms(2,4,7) unfolding index_ok_def snoc by (auto simp: fun_eq_iff)
qed

lemma index_run_stats_ok:
  assumes "log_ok evs" and "index_ok evs st" and "flow_apply (Some s) e = Inr s'" and "flow_at evs f = Some s"
    and e: "e = FlowTaskFinished time f tid outcome"
  shows "\<exists>st'. index_run_stats (st\<lparr>fst_search_index :=
      (fst_search_index st)(f \<mapsto> (index_entry_of s)\<lparr>fie_flow_status := FlowFinished\<rparr>)\<rparr>) time f outcome = Inr st'
    \<and> index_ok (evs @ [e]) st' \<and> fst_events st' = fst_events st"
proof -
  have step: "flow_apply (flow_at evs f) e = Inr s'" and id: "flow_event_id e = f" using assms(3,4) e by simp_all
  have key: "fs_flow_key s' = fs_flow_key s" using flow_apply_initiates [OF assms(3) id] by simp
  have runs: "runs (evs @ [e]) k = runs evs k @ (if fs_flow_key s = k then [(time, outcome)] else [])" for k
    unfolding runs_snoc [OF assms(1) step id] by (simp add: e key)
  have init: "initiated (evs @ [e]) = initiated evs" unfolding initiated_snoc by (simp add: e)
  have entry: "index_entry_of s' = (index_entry_of s)\<lparr>fie_flow_status := FlowFinished\<rparr>"
    using index_entry_step [OF assms(3)] log_okD(3) [OF assms(1,4)] by (simp add: e)
  have known: "fst_key_by_flow_id st f = Some (fs_flow_key s)" using assms(2,4) by (simp add: index_ok_def)
  show ?thesis
    using assms(2,4) unfolding index_ok_def flow_at_snoc(2) [OF assms(1) step id] runs init
    by (cases "fs_flow_key s")
      (auto simp: index_run_stats_def known Let_def stats_of_runs_snoc fun_eq_iff entry key)
qed

lemma update_index_ok:
  assumes "log_ok evs" and "index_ok evs st" and "flow_apply (flow_at evs f) e = Inr s'" and "flow_event_id e = f"
  shows "\<exists>st'. update_index st e = Inr st' \<and> index_ok (evs @ [e]) st' \<and> fst_events st' = fst_events st"
proof (cases "flow_at evs f")
  case None
  with assms(3) obtain time key trigger snapshot where e: "e = FlowInitiated time f key trigger snapshot"
    using assms(4) by (cases "(None :: flow_state option, e)" rule: flow_apply.cases) auto
  have "fst_events (index_initiated st f key trigger) = fst_events st"
    by (simp add: index_initiated_def Let_def split: flow_key.split)
  with update_index_initiated [OF assms e] show ?thesis by (simp add: update_index_def e)
next
  case (Some s)
  with assms(3) have step: "flow_apply (Some s) e = Inr s'" by simp
  have entry: "fst_search_index st f = Some (index_entry_of s)" using assms(2) Some by (simp add: index_ok_def)
  have not_init: "initiated_key e = None" using flow_apply_initiates [OF step assms(4)] by simp
  show ?thesis
  proof (cases "run_of e")
    case (Some r)
    then obtain time tid outcome where e: "e = FlowTaskFinished time f tid outcome"
      using assms(4) by (cases e) auto
    from index_run_stats_ok [OF assms(1,2) step \<open>flow_at evs f = Some s\<close> e] show ?thesis
      by (simp add: update_index_def e entry Let_def)
  next
    case no_run: None
    show ?thesis
    proof (cases "flow_event_new_status e")
      case None
      have "index_entry_of s' = index_entry_of s" "fs_flow_key s' = fs_flow_key s"
        using index_entry_step [OF step] log_okD(3) [OF assms(1) Some] None flow_apply_initiates [OF step assms(4)] by simp_all
      then have "index_ok (evs @ [e]) st"
        using assms(2) Some no_run not_init
        unfolding index_ok_def flow_at_snoc(2) [OF assms(1,3,4)] runs_snoc [OF assms(1,3,4)] initiated_snoc
        by (auto simp: fun_eq_iff)
      moreover have "update_index st e = Inr st" using None not_init by (cases e) (simp_all add: update_index_def)
      ultimately show ?thesis by simp
    next
      case (Some new)
      from index_status_ok [OF assms(1,2) step \<open>flow_at evs f = Some s\<close> assms(4) Some no_run] Some no_run not_init entry assms(4)
      show ?thesis by (cases e) (simp_all add: update_index_def Let_def)
    qed
  qed
qed

lemma update_index_last_id: "update_index st e = Inr st' \<Longrightarrow> fst_last_flow_id st' = fst_last_flow_id st"
  by (auto simp: update_index_def index_initiated_def index_run_stats_def Let_def
      split: flow_event.splits option.splits flow_key.splits)

lemma update_index_all_ok:
  assumes "log_ok evs" and "index_ok evs st" and "list_all (\<lambda>e. flow_event_id e = f) es"
    and "apply_all flow_proj (flow_at evs f) es = Inr s"
  shows "\<exists>st'. update_index_all st es = Inr st' \<and> log_ok (evs @ es) \<and> index_ok (evs @ es) st'
    \<and> fst_events st' = fst_events st \<and> fst_last_flow_id st' = fst_last_flow_id st"
  using assms
proof (induction es arbitrary: evs st)
  case (Cons e es)
  then obtain s1 where s1: "flow_apply (flow_at evs f) e = Inr s1" "apply_all flow_proj (Some s1) es = Inr s"
    and id: "flow_event_id e = f" by (auto simp: res_simps)
  from update_index_ok [OF Cons.prems(1,2) s1(1) id] obtain st1 where
    st1: "update_index st e = Inr st1" "index_ok (evs @ [e]) st1" "fst_events st1 = fst_events st" by blast
  have same: "fst_last_flow_id st1 = fst_last_flow_id st" by (rule update_index_last_id [OF st1(1)])
  have "log_ok (evs @ [e])" by (rule log_ok_snoc [OF Cons.prems(1) s1(1) id])
  moreover have "flow_at (evs @ [e]) f = Some s1" by (simp add: flow_at_snoc(2) [OF Cons.prems(1) s1(1) id])
  ultimately show ?case
    using Cons.IH [of "evs @ [e]" st1] st1 same s1(2) Cons.prems(3) by simp
qed simp

section \<open>The store as an event store\<close>

lemma flow_load_eq:
  assumes "log_ok (fst_events st)" and "flow_at (fst_events st) f = Some s"
  shows "\<exists>a. flow_load st f = Inr a \<and> agg_query a = f \<and> agg_state a = Some s
    \<and> agg_pending_events a = [] \<and> synced flow_proj (indexed (fst_events st)) a"
  using inmem.load_synced [of flow_matches flow_proj f "fst_events st" s] log_okD(1) [OF assms(1), of f] assms(2)
  by (auto simp: flow_load_def flow_store_get_events_def log_view_def indexed_events)

lemma flow_load_None:
  assumes "log_ok (fst_events st)" and "flow_at (fst_events st) f = None"
  shows "flow_load st f = Inl (Fail (LoadNotFound f))"
proof -
  have "filter (\<lambda>e. flow_matches e f) (fst_events st) = []"
    using log_okD(1) [OF assms(1), of f] assms(2) by (auto simp: log_view_None filter_empty_conv)
  then have "filter (\<lambda>(_, e). flow_matches e f) (indexed (fst_events st)) = []"
    using indexed_events [of "\<lambda>e. flow_matches e f" "fst_events st"] by simp
  then show ?thesis
    using inmem.load_missing [of flow_matches flow_proj f "fst_events st"]
    by (simp add: flow_load_def flow_store_get_events_def)
qed

lemma flow_save_ok:
  assumes inv: "flow_store_inv st" and sy: "synced flow_proj (indexed (fst_events st)) a"
  shows "\<exists>a' st'. flow_save st a = (Inr (), a', st') \<and> flow_store_inv st'
    \<and> fst_events st' = fst_events st @ agg_pending_events a \<and> fst_last_flow_id st' = fst_last_flow_id st
    \<and> agg_state a' = agg_state a \<and> agg_query a' = agg_query a \<and> agg_pending_events a' = []
    \<and> synced flow_proj (indexed (fst_events st')) a'"
proof (cases "agg_pending_events a = []")
  case True
  then show ?thesis using inv sy by (simp add: flow_save_def agg_save_def)
next
  case False
  let ?evs = "fst_events st" and ?es = "agg_pending_events a"
  let ?a = "a\<lparr>agg_pending_events := [], agg_last_stored_event := Some (int (length (?evs @ ?es)) - 1)\<rparr>"
  have ok: "log_ok ?evs" "index_ok ?evs st" using inv by (simp_all add: flow_store_inv_def)
  have ids: "list_all (\<lambda>e. flow_event_id e = agg_query a) ?es"
    using sy by (simp add: synced_def Let_def flow_matches_def)
  have "apply_all flow_proj (flow_at ?evs (agg_query a)) ?es = Inr (agg_state a)"
    using synced_view [OF sy] log_okD(1) [OF ok(1), of "agg_query a"] by simp
  from update_index_all_ok [OF ok ids this] obtain st1 where
    st1: "update_index_all st ?es = Inr st1" "log_ok (?evs @ ?es)" "index_ok (?evs @ ?es) st1" "fst_events st1 = ?evs"
      "fst_last_flow_id st1 = fst_last_flow_id st"
    by blast
  have "synced flow_proj (indexed (?evs @ ?es)) ?a"
    using inmem.save_synced [OF _ sy, of flow_matches] False
    by (auto simp: agg_save_def inmem_save_events_def Let_def)
  with False st1 show ?thesis
    by (simp add: flow_save_def agg_save_def flow_store_save_events_def inmem_save_events_def Let_def
        flow_store_inv_def index_ok_def)
qed

end
