(* ===== verification/Flow_Invariant.thy ===== *)
theory Flow_Invariant
  imports Flow_Handlers Flow_Store_Properties
begin

text \<open>
  The invariant of the flow service, and that every operation keeps it, also when it fails half
  way: the index of the store refines the log, the time wheel is a queue, no flow has two keys or
  two pending entries, and every tracked task belongs to a flow that knows it. Operations are
  compositions of \<open>fbind\<close>, so the proofs are by a small Hoare logic with a postcondition for
  success and one for failure.
\<close>

section \<open>Hoare triples for fallible state changes\<close>

definition ftriple ::
  "('s \<Rightarrow> bool) \<Rightarrow> ('s \<Rightarrow> ('e, 'a) res \<times> 's) \<Rightarrow> ('a \<Rightarrow> 's \<Rightarrow> bool) \<Rightarrow> ('s \<Rightarrow> bool) \<Rightarrow> bool" where
  "ftriple P m Q E \<longleftrightarrow> (\<forall>s. P s \<longrightarrow> (case m s of (Inr x, s') \<Rightarrow> Q x s' | (Inl _, s') \<Rightarrow> E s'))"

named_theorems svc_rules \<open>triples of the operations of the flow service\<close>

lemma ftripleI:
  assumes "\<And>s x s'. P s \<Longrightarrow> m s = (Inr x, s') \<Longrightarrow> Q x s'" and "\<And>s f s'. P s \<Longrightarrow> m s = (Inl f, s') \<Longrightarrow> E s'"
  shows "ftriple P m Q E"
  using assms unfolding ftriple_def by (auto split: prod.split sum.split)

lemma ftripleD:
  "ftriple P m Q E \<Longrightarrow> P s \<Longrightarrow> m s = (Inr x, s') \<Longrightarrow> Q x s'"
  "ftriple P m Q E \<Longrightarrow> P s \<Longrightarrow> m s = (Inl f, s') \<Longrightarrow> E s'"
  unfolding ftriple_def by fastforce+

lemma fbind_Inr: "fbind m k s = (Inr y, s') \<longleftrightarrow> (\<exists>x s1. m s = (Inr x, s1) \<and> k x s1 = (Inr y, s'))"
  by (auto simp: fbind_def split: prod.splits sum.splits)

lemma fbind_Inl:
  "fbind m k s = (Inl f, s') \<longleftrightarrow> m s = (Inl f, s') \<or> (\<exists>x s1. m s = (Inr x, s1) \<and> k x s1 = (Inl f, s'))"
  by (auto simp: fbind_def split: prod.splits sum.splits)

lemma ftriple_bind:
  assumes "ftriple P m R E" and "\<And>x. ftriple (R x) (k x) Q E"
  shows "ftriple P (fbind m k) Q E"
proof (rule ftripleI)
  fix s y s' assume "P s" and "fbind m k s = (Inr y, s')"
  then obtain x s1 where "m s = (Inr x, s1)" "k x s1 = (Inr y, s')" by (auto simp: fbind_Inr)
  with ftripleD(1) [OF assms(1) \<open>P s\<close>] show "Q y s'" by (intro ftripleD(1) [OF assms(2)])
next
  fix s f s' assume "P s" and "fbind m k s = (Inl f, s')"
  then consider "m s = (Inl f, s')" | x s1 where "m s = (Inr x, s1)" "k x s1 = (Inl f, s')" by (auto simp: fbind_Inl)
  then show "E s'"
  proof cases
    case 1
    then show ?thesis by (rule ftripleD(2) [OF assms(1) \<open>P s\<close>])
  next
    case 2
    with ftripleD(1) [OF assms(1) \<open>P s\<close>] show ?thesis by (intro ftripleD(2) [OF assms(2)])
  qed
qed

lemma ftriple_return: "(\<And>s. P s \<Longrightarrow> Q x s) \<Longrightarrow> ftriple P (freturn x) Q E"
  by (simp add: ftriple_def freturn_def)

lemma ftriple_pre:
  assumes "ftriple P' m Q E" and "\<And>s. P s \<Longrightarrow> P' s"
  shows "ftriple P m Q E"
  using assms unfolding ftriple_def by simp

lemma ftriple_post:
  assumes "ftriple P m Q' E" and "\<And>x s. Q' x s \<Longrightarrow> Q x s"
  shows "ftriple P m Q E"
  by (rule ftripleI) (auto intro: assms(2) ftripleD [OF assms(1)])

lemma ftriple_if: "ftriple P m Q E \<Longrightarrow> ftriple P m' Q E \<Longrightarrow> ftriple P (if c then m else m') Q E"
  by simp

lemma ftriple_keeps: "ftriple I m (\<lambda>_. I) I \<longleftrightarrow> (\<forall>s. I s \<longrightarrow> I (snd (m s)))"
  by (simp add: ftriple_def split_beta sum.case_eq_if)

lemma ftriple_feach: "(\<And>x. ftriple I (f x) (\<lambda>_. I) I) \<Longrightarrow> ftriple I (feach f xs) (\<lambda>_. I) I"
proof (induction xs)
  case (Cons x xs)
  have "ftriple I (fbind (f x) (\<lambda>_. feach f xs)) (\<lambda>_. I) I"
    by (rule ftriple_bind [OF Cons.prems]) (rule Cons.IH [OF Cons.prems])
  then show ?case by simp
qed (simp add: ftriple_return)

section \<open>The invariant\<close>

definition issued :: "flow_store \<Rightarrow> flow_id \<Rightarrow> bool" where
  "issued st f \<longleftrightarrow> (\<exists>l. fst_last_flow_id st = Some l \<and> f \<le> l)"

definition tracked_ok :: "flow_store \<Rightarrow> pending_flows \<Rightarrow> bool" where
  "tracked_ok st p \<longleftrightarrow>
     (\<forall>tid f. pf_by_tasks p tid = Some f \<longrightarrow> (\<exists>s. flow_at (fst_events st) f = Some s \<and> tid \<in> set (fs_task_ids s)))"

definition pending_ok :: "flow_store \<Rightarrow> pending_flows \<Rightarrow> bool" where
  "pending_ok st p \<longleftrightarrow>
     (\<forall>key f. try_get_pending_flow p key = Some f \<longrightarrow>
        issued st f \<and> (\<forall>s. flow_at (fst_events st) f = Some s \<longrightarrow> fs_flow_key s = key)
        \<and> (\<forall>key'. try_get_pending_flow p key' = Some f \<longrightarrow> key' = key))"

definition issued_ok :: "flow_store \<Rightarrow> nat \<Rightarrow> bool" where
  "issued_ok st n \<longleftrightarrow>
     (\<forall>f. flow_at (fst_events st) f \<noteq> None \<longrightarrow> issued st f) \<and> (\<forall>l. fst_last_flow_id st = Some l \<longrightarrow> unat l < n)"

definition svc_ok :: "flow_service \<Rightarrow> bool" where
  "svc_ok svc \<longleftrightarrow>
     flow_store_inv (fsv_store svc) \<and> wheel_inv (fsv_time_wheel svc)
     \<and> issued_ok (fsv_store svc) (fsv_readings svc)
     \<and> tracked_ok (fsv_store svc) (fsv_pending_flows svc) \<and> pending_ok (fsv_store svc) (fsv_pending_flows svc)"

text \<open>
  Identifiers of flows are 64 bit counters; every new flow reads the clock once, so they do not
  wrap as long as there were fewer than \<open>2\<^sup>6\<^sup>4\<close> readings.
\<close>

definition svc_inv :: "flow_service \<Rightarrow> bool" where
  "svc_inv svc \<longleftrightarrow> (fsv_readings svc < 2 ^ 64 \<longrightarrow> svc_ok svc)"

text \<open>A flow held by an operation: in step with the log, and of the key it is pending under.\<close>

definition held :: "flow_service \<Rightarrow> flow \<Rightarrow> bool" where
  "held svc a \<longleftrightarrow>
     synced flow_proj (indexed (fst_events (fsv_store svc))) a \<and> issued (fsv_store svc) (agg_query a)
     \<and> (\<exists>s. agg_state a = Some s \<and> fs_flow_id s = agg_query a
          \<and> (\<forall>key. try_get_pending_flow (fsv_pending_flows svc) key = Some (agg_query a) \<longrightarrow> fs_flow_key s = key))"

definition holds_flow :: "(flow_state \<Rightarrow> bool) \<Rightarrow> flow \<Rightarrow> flow_service \<Rightarrow> bool" where
  "holds_flow R a svc \<longleftrightarrow>
     (fsv_readings svc < 2 ^ 64 \<longrightarrow> svc_ok svc \<and> held svc a \<and> (\<forall>s. agg_state a = Some s \<longrightarrow> R s))"

abbreviation holds :: "flow \<Rightarrow> flow_service \<Rightarrow> bool" where
  "holds \<equiv> holds_flow (\<lambda>_. True)"

lemma holds_inv: "holds_flow R a svc \<Longrightarrow> svc_inv svc"
  by (simp add: holds_flow_def svc_inv_def)

lemma svc_inv_empty: "svc_inv empty_service"
proof -
  have "try_get_pending_flow empty_pending key = None" for key
    by (cases key) (simp_all add: empty_pending_def)
  then show ?thesis
    by (simp add: svc_inv_def svc_ok_def empty_service_def flow_store_inv_empty wheel_inv_empty issued_ok_def
        tracked_ok_def pending_ok_def)
      (simp add: empty_pending_def empty_flow_store_def flow_at_def)
qed
section \<open>Events of a flow\<close>

definition grows :: "flow_state \<Rightarrow> flow_state \<Rightarrow> bool" where
  "grows s s' \<longleftrightarrow> fs_flow_id s' = fs_flow_id s \<and> fs_flow_key s' = fs_flow_key s
     \<and> set (fs_task_ids s) \<subseteq> set (fs_task_ids s')"

lemma grows_refl [simp]: "grows s s"
  by (simp add: grows_def)

lemma grows_trans: "grows s s' \<Longrightarrow> grows s' s'' \<Longrightarrow> grows s s''"
  by (auto simp: grows_def)

lemma flow_apply_grows: "flow_apply (Some s) e = Inr s' \<Longrightarrow> grows s s'"
  by (cases e) (auto simp: grows_def split: if_splits task_outcome.splits option.splits)

lemma apply_all_grows: "apply_all flow_proj (Some s) es = Inr (Some s') \<Longrightarrow> grows s s'"
proof (induction es arbitrary: s)
  case (Cons e es)
  then obtain s1 where "flow_apply (Some s) e = Inr s1" "grows s1 s'" by (auto simp: res_simps)
  then show ?case by (blast intro: flow_apply_grows grows_trans)
qed simp

section \<open>Triples of the primitives\<close>

lemma issued_ok_Suc: "issued_ok st n \<Longrightarrow> issued_ok st (Suc n)"
  by (auto simp: issued_ok_def)

lemma now_rule:
  "ftriple svc_inv (svc_now env) (\<lambda>_. svc_inv) svc_inv"
  "ftriple (holds_flow R a) (svc_now env) (\<lambda>_. holds_flow R a) svc_inv"
  by (auto simp: ftriple_def svc_now_def svc_inv_def holds_flow_def svc_ok_def held_def issued_ok_Suc)

lemma result_rule:
  "ftriple svc_inv (svc_result r) (\<lambda>_. svc_inv) svc_inv"
  "ftriple (holds_flow R a) (svc_result r) (\<lambda>_. holds_flow R a) svc_inv"
  by (auto simp: ftriple_def svc_result_def dest: holds_inv split: sum.split)

lemma fail_rule:
  "ftriple svc_inv (svc_result (Inl f)) Q svc_inv"
  "ftriple (holds_flow R a) (svc_result (Inl f)) Q svc_inv"
  by (auto simp: ftriple_def svc_result_def dest: holds_inv)

lemma post_rule: "ftriple svc_inv (svc_post time u) (\<lambda>_. svc_inv) svc_inv"
  by (auto simp: ftriple_def svc_post_def svc_inv_def svc_ok_def)

lemma enqueue_rule: "ftriple (holds_flow R a) (enqueue_flow f t) (\<lambda>_. holds_flow R a) svc_inv"
  by (auto simp: ftriple_def enqueue_flow_def svc_wheel_def holds_flow_def svc_ok_def held_def activate_inv)

lemma load_rule: "ftriple svc_inv (svc_load_flow f) holds svc_inv"
proof (rule ftripleI)
  fix svc a svc'
  assume inv: "svc_inv svc" and load: "svc_load_flow f svc = (Inr a, svc')"
  let ?st = "fsv_store svc"
  show "holds a svc'" unfolding holds_flow_def
  proof
    have svc': "svc' = svc" and a: "flow_load ?st f = Inr a"
      using load by (auto simp: svc_load_flow_def res_simps)
    assume "fsv_readings svc' < 2 ^ 64"
    with inv svc' have ok: "svc_ok svc" by (simp add: svc_inv_def)
    then have log: "log_ok (fst_events ?st)" by (simp add: svc_ok_def flow_store_inv_def)
    with a obtain s where s: "flow_at (fst_events ?st) f = Some s"
      using flow_load_None [OF log, of f] by (cases "flow_at (fst_events ?st) f") auto
    with flow_load_eq [OF log s] a have "agg_query a = f" "agg_state a = Some s"
      "synced flow_proj (indexed (fst_events ?st)) a" by auto
    moreover have "fs_flow_id s = f" using log_okD(3) [OF log s] by simp
    moreover have "issued ?st f" using ok s by (simp add: svc_ok_def issued_ok_def)
    moreover have "fs_flow_key s = key" if "try_get_pending_flow (fsv_pending_flows svc) key = Some f" for key
      using ok s that by (auto simp: svc_ok_def pending_ok_def)
    ultimately show "svc_ok svc' \<and> held svc' a \<and> (\<forall>s. agg_state a = Some s \<longrightarrow> True)"
      using ok by (simp add: svc' held_def)
  qed
qed (simp add: svc_load_flow_def)

lemma flow_at_append:
  assumes "log_ok evs" and "synced flow_proj (indexed evs) a"
  shows "flow_at (evs @ agg_pending_events a) = (flow_at evs)(agg_query a := agg_state a)"
proof
  fix g
  let ?es = "agg_pending_events a"
  have ids: "list_all (\<lambda>e. flow_matches e (agg_query a)) ?es"
    using assms(2) by (simp add: synced_def Let_def)
  show "flow_at (evs @ ?es) g = ((flow_at evs)(agg_query a := agg_state a)) g"
  proof (cases "g = agg_query a")
    case True
    with synced_view [OF assms(2)] ids show ?thesis by (simp add: flow_at_def log_view_append)
  next
    case False
    with ids have "filter (\<lambda>e. flow_matches e g) ?es = []"
      by (auto simp: list_all_iff flow_matches_def filter_empty_conv)
    with False show ?thesis by (simp add: flow_at_def log_view_def)
  qed
qed

lemma held_grows:
  assumes "svc_ok svc" and "held svc a" and "flow_at (fst_events (fsv_store svc)) (agg_query a) = Some s"
  shows "\<exists>s'. agg_state a = Some s' \<and> grows s s'"
proof -
  have "log_ok (fst_events (fsv_store svc))" using assms(1) by (simp add: svc_ok_def flow_store_inv_def)
  from log_okD(1) [OF this, of "agg_query a"] have "apply_all flow_proj (Some s) (agg_pending_events a) = Inr (agg_state a)"
    using synced_view [of flow_proj "fst_events (fsv_store svc)" a] assms(2,3) by (simp add: held_def)
  with assms(2) show ?thesis by (auto simp: held_def intro: apply_all_grows)
qed

lemma save_core:
  assumes ok: "svc_ok svc" and a: "held svc a" and save: "flow_save (fsv_store svc) a = (r, a', st')"
  shows "r = Inr ()" and "svc_ok (svc\<lparr>fsv_store := st'\<rparr>)" and "held (svc\<lparr>fsv_store := st'\<rparr>) a'"
    and "agg_state a' = agg_state a" and "agg_query a' = agg_query a"
    and "flow_at (fst_events st') = (flow_at (fst_events (fsv_store svc)))(agg_query a := agg_state a)"
proof -
  let ?st = "fsv_store svc" and ?p = "fsv_pending_flows svc"
  have inv: "flow_store_inv ?st" and sy: "synced flow_proj (indexed (fst_events ?st)) a"
    using ok a by (simp_all add: svc_ok_def held_def)
  from flow_save_ok [OF inv sy] save have
    r: "r = Inr ()" and st': "flow_store_inv st'" "fst_events st' = fst_events ?st @ agg_pending_events a"
      "fst_last_flow_id st' = fst_last_flow_id ?st"
    and a': "agg_state a' = agg_state a" "agg_query a' = agg_query a" "synced flow_proj (indexed (fst_events st')) a'"
    by auto
  have at: "flow_at (fst_events st') = (flow_at (fst_events ?st))(agg_query a := agg_state a)"
    unfolding st'(2) using inv sy by (intro flow_at_append) (simp add: flow_store_inv_def)
  have issued: "issued st' = issued ?st" by (simp add: issued_def st'(3) fun_eq_iff)
  have "issued_ok st' (fsv_readings svc)"
    using ok a by (auto simp: svc_ok_def issued_ok_def at issued st'(3) held_def)
  moreover have "tracked_ok st' ?p" unfolding tracked_ok_def
  proof (intro allI impI)
    fix tid f
    assume "pf_by_tasks ?p tid = Some f"
    with ok obtain s where "flow_at (fst_events ?st) f = Some s" "tid \<in> set (fs_task_ids s)"
      by (auto simp: svc_ok_def tracked_ok_def)
    with held_grows [OF ok a] show "\<exists>s. flow_at (fst_events st') f = Some s \<and> tid \<in> set (fs_task_ids s)"
      by (cases "f = agg_query a") (auto simp: at grows_def)
  qed
  moreover have "pending_ok st' ?p"
    using ok a by (auto simp: svc_ok_def pending_ok_def at issued held_def)
  ultimately show "svc_ok (svc\<lparr>fsv_store := st'\<rparr>)" using ok st'(1) by (simp add: svc_ok_def)
  show "held (svc\<lparr>fsv_store := st'\<rparr>) a'" using a a' by (simp add: held_def issued)
qed (use flow_save_ok [of "fsv_store svc" a] ok a save in
      \<open>auto simp: svc_ok_def held_def flow_store_inv_def flow_at_append\<close>)

definition stored_flow :: "(flow_state \<Rightarrow> bool) \<Rightarrow> flow_id \<Rightarrow> flow_service \<Rightarrow> bool" where
  "stored_flow R f svc \<longleftrightarrow>
     (fsv_readings svc < 2 ^ 64 \<longrightarrow> svc_ok svc \<and> (\<exists>s. flow_at (fst_events (fsv_store svc)) f = Some s \<and> R s))"

lemma save_rules:
  "ftriple (holds_flow R a) (svc_save_flow a) (\<lambda>a' svc. holds_flow R a' svc \<and> stored_flow R (agg_query a) svc) svc_inv"
proof (rule ftripleI)
  fix svc a' svc'
  assume h: "holds_flow R a svc" and "svc_save_flow a svc = (Inr a', svc')"
  then obtain r st' where save: "flow_save (fsv_store svc) a = (r, a', st')" and svc': "svc' = svc\<lparr>fsv_store := st'\<rparr>"
    by (auto simp: svc_save_flow_def split: prod.splits sum.splits)
  {
    assume "fsv_readings svc < 2 ^ 64"
    with h have "svc_ok svc" "held svc a" "\<forall>s. agg_state a = Some s \<longrightarrow> R s" by (simp_all add: holds_flow_def)
    with save_core [OF _ _ save] have "svc_ok svc' \<and> held svc' a' \<and> (\<forall>s. agg_state a' = Some s \<longrightarrow> R s)
        \<and> (\<exists>s. flow_at (fst_events (fsv_store svc')) (agg_query a) = Some s \<and> R s)"
      by (auto simp: svc' held_def)
  }
  then show "holds_flow R a' svc' \<and> stored_flow R (agg_query a) svc'"
    by (simp add: holds_flow_def stored_flow_def svc')
next
  fix svc f svc'
  assume h: "holds_flow R a svc" and "svc_save_flow a svc = (Inl f, svc')"
  then obtain r a' st' where save: "flow_save (fsv_store svc) a = (r, a', st')" and svc': "svc' = svc\<lparr>fsv_store := st'\<rparr>"
    by (auto simp: svc_save_flow_def split: prod.splits sum.splits)
  with h save_core(2) [OF _ _ save] show "svc_inv svc'" by (simp add: holds_flow_def svc_inv_def)
qed

lemma save_rule: "ftriple (holds_flow R a) (svc_save_flow a) (holds_flow R) svc_inv"
  by (rule ftriple_post [OF save_rules]) simp

lemma save_stored:
  "ftriple (holds_flow (\<lambda>s. R s \<and> fs_flow_id s = f) a) (svc_save_flow a) (\<lambda>_. stored_flow R f) svc_inv"
proof (cases "agg_query a = f")
  case True
  show ?thesis by (rule ftriple_post [OF save_rules]) (auto simp: stored_flow_def True)
next
  case False
  then have "holds_flow (\<lambda>s. R s \<and> fs_flow_id s = f) a svc \<Longrightarrow> \<not> fsv_readings svc < 2 ^ 64" for svc
    by (auto simp: holds_flow_def held_def)
  then show ?thesis
    by (auto simp: ftriple_def svc_save_flow_def svc_inv_def stored_flow_def split: prod.split sum.split)
qed

section \<open>Commands on a held flow\<close>

definition flow_command :: "(flow \<Rightarrow> (flow_projection_error, 'a) res \<times> flow) \<Rightarrow> (flow_state \<Rightarrow> bool) \<Rightarrow> bool" where
  "flow_command c R \<longleftrightarrow>
     (\<forall>a s r a'. agg_state a = Some s \<longrightarrow> c a = (Inr r, a') \<longrightarrow>
        a' = a \<and> R s
        \<or> (\<exists>e s'. flow_apply (Some s) e = Inr s' \<and> flow_event_id e = fs_flow_id s \<and> R s'
             \<and> a' = a\<lparr>agg_state := Some s', agg_pending_events := agg_pending_events a @ [e]\<rparr>))"

lemma agg_apply_Inr:
  "agg_apply P a e = (Inr r, a') \<longleftrightarrow>
     (\<exists>s. apply_event P (agg_state a) e = Inr s
        \<and> a' = a\<lparr>agg_state := Some s, agg_pending_events := agg_pending_events a @ [e]\<rparr>)"
  by (auto simp: agg_apply_def split: sum.splits fault.splits)

lemma flow_commandI:
  assumes "\<And>a s r a'. agg_state a = Some s \<Longrightarrow> c a = (Inr r, a') \<Longrightarrow>
    a' = a \<and> R s \<or> (\<exists>e. flow_event_id e = fs_flow_id s \<and> agg_apply flow_proj a e = (Inr (), a')
      \<and> (\<forall>s'. flow_apply (Some s) e = Inr s' \<longrightarrow> R s'))"
  shows "flow_command c R"
  unfolding flow_command_def
proof (intro allI impI)
  fix a s r a' assume "agg_state a = Some s" and "c a = (Inr r, a')"
  from assms [OF this] this(1) show "a' = a \<and> R s
      \<or> (\<exists>e s'. flow_apply (Some s) e = Inr s' \<and> flow_event_id e = fs_flow_id s \<and> R s'
           \<and> a' = a\<lparr>agg_state := Some s', agg_pending_events := agg_pending_events a @ [e]\<rparr>)"
    by (auto simp: agg_apply_Inr simp del: flow_apply.simps)
qed

lemma scheduled_task_known: "flow_apply (Some s) (FlowTaskScheduled time f tid) = Inr s' \<Longrightarrow> tid \<in> set (fs_task_ids s')"
  by (auto split: if_splits)

lemma flow_commands:
  "flow_command (set_relevant_start_condition now cond) (\<lambda>_. True)"
  "flow_command (add_trigger_if_unique now trigger) (\<lambda>_. True)"
  "flow_command (on_task_scheduled now tid) (\<lambda>s. tid \<in> set (fs_task_ids s))"
  "flow_command (on_task_running now tid) (\<lambda>_. True)"
  "flow_command (on_task_finished now tid outcome) (\<lambda>_. True)"
  "flow_command (flow_abort now) (\<lambda>_. True)"
  by (rule flow_commandI;
      force simp: set_relevant_start_condition_def add_trigger_if_unique_def on_task_scheduled_def on_task_running_def
        on_task_finished_def flow_abort_def with_state_def res_simps simp del: flow_apply.simps
        intro: scheduled_task_known split: if_splits prod.splits)+

lemma command_grows:
  assumes "flow_command c R'" and R1: "\<And>s s'. R s \<Longrightarrow> grows s s' \<Longrightarrow> R1 s'"
  shows "ftriple (holds_flow R a) (svc_command (c a)) (holds_flow (\<lambda>s. R' s \<and> R1 s)) svc_inv"
proof (rule ftripleI)
  fix svc a' svc'
  assume h: "holds_flow R a svc" and "svc_command (c a) svc = (Inr a', svc')"
  then obtain r where c: "c a = (Inr r, a')" and [simp]: "svc' = svc"
    by (auto simp: svc_command_def split: prod.splits sum.splits)
  show "holds_flow (\<lambda>s. R' s \<and> R1 s) a' svc'" unfolding holds_flow_def
  proof
    assume "fsv_readings svc' < 2 ^ 64"
    with h have ok: "svc_ok svc" and held: "held svc a" and R: "\<forall>s. agg_state a = Some s \<longrightarrow> R s"
      by (simp_all add: holds_flow_def)
    then obtain s where s: "agg_state a = Some s" "R s" by (auto simp: held_def)
    from assms(1) [unfolded flow_command_def, rule_format, OF s(1) c]
    consider "a' = a" "R' s"
      | e s' where "flow_apply (Some s) e = Inr s'" "flow_event_id e = fs_flow_id s" "R' s'"
          "a' = a\<lparr>agg_state := Some s', agg_pending_events := agg_pending_events a @ [e]\<rparr>" by blast
    then show "svc_ok svc' \<and> held svc' a' \<and> (\<forall>s. agg_state a' = Some s \<longrightarrow> R' s \<and> R1 s)"
    proof cases
      case 1
      with ok held s R1 [of s s] show ?thesis by simp
    next
      case 2
      then have "agg_apply flow_proj a e = (Inr (), a')" using s by (simp add: agg_apply_def)
      with flow_projection.apply_synced [of _ a e "Inr ()" a'] held s 2(2)
      have "synced flow_proj (indexed (fst_events (fsv_store svc))) a'" by (auto simp: held_def flow_matches_def)
      moreover have "grows s s'" using 2(1) by (rule flow_apply_grows)
      ultimately have "held svc a'" using held s 2(4) by (auto simp: held_def grows_def)
      with ok 2(3,4) R1 [OF s(2) \<open>grows s s'\<close>] show ?thesis by simp
    qed
  qed
qed (auto simp: svc_command_def dest: holds_inv split: prod.splits sum.splits)

lemma command_rule:
  assumes "flow_command c R'"
  shows "ftriple (holds_flow R a) (svc_command (c a)) (holds_flow R') svc_inv"
  using command_grows [OF assms, of R "\<lambda>_. True" a] by simp

lemmas command_rules = flow_commands [THEN command_rule]

section \<open>New flows\<close>

lemma add_pending_get:
  "try_get_pending_flow (add_pending_flow key f p) key' = (if key' = key then Some f else try_get_pending_flow p key')"
  by (cases key; cases key') auto

lemma add_pending_by_tasks [simp]: "pf_by_tasks (add_pending_flow key f p) = pf_by_tasks p"
  by (cases key) simp_all

lemma new_flow_id_fresh:
  assumes "issued_ok st n" and "n < 2 ^ 64" and "new_flow_id st = (f, st')"
  shows "\<not> issued st f" and "issued st' g \<longleftrightarrow> issued st g \<or> g = f" and "unat f < Suc n"
    and "fst_last_flow_id st' = Some f"
proof -
  show last: "fst_last_flow_id st' = Some f" using assms(3) by (auto simp: new_flow_id_def Let_def)
  have "\<not> issued st f \<and> (issued st' g \<longleftrightarrow> issued st g \<or> g = f) \<and> unat f < Suc n" for g
  proof (cases "fst_last_flow_id st")
    case None
    with assms have "f = 0" by (auto simp: new_flow_id_def Let_def)
    with None last show ?thesis by (auto simp: issued_def)
  next
    case (Some l)
    with assms have "f = l + 1" "unat l < n" by (auto simp: new_flow_id_def Let_def issued_ok_def)
    with assms(2) have "unat f = Suc (unat l)" by (simp add: unat_word_ariths)
    then have "\<not> f \<le> l" "g \<le> f \<longleftrightarrow> g \<le> l \<or> g = f"
      by (simp_all add: word_le_nat_alt word_unat_eq_iff le_Suc_eq)
    with Some last \<open>unat l < n\<close> \<open>unat f = Suc (unat l)\<close> show ?thesis by (simp add: issued_def)
  qed
  then show "\<not> issued st f" "issued st' g \<longleftrightarrow> issued st g \<or> g = f" "unat f < Suc n" by blast+
qed

lemma flow_new_held:
  assumes "flow_new now f key trigger snap = Inr a"
  shows "agg_query a = f" and "\<exists>s. agg_state a = Some s \<and> fs_flow_id s = f \<and> fs_flow_key s = key"
    and "log_ok evs \<Longrightarrow> flow_at evs f = None \<Longrightarrow> synced flow_proj (indexed evs) a"
proof -
  from assms have new: "agg_new flow_proj f (FlowInitiated now f key trigger snap) = Inr a"
    by (auto simp: flow_new_def split: sum.splits)
  then show "agg_query a = f" "\<exists>s. agg_state a = Some s \<and> fs_flow_id s = f \<and> fs_flow_key s = key"
    by (auto simp: agg_new_def)
  assume "log_ok evs" "flow_at evs f = None"
  then have "filter (\<lambda>e. flow_matches e f) evs = []"
    using log_okD(1) [of evs f] by (auto simp: log_view_None filter_empty_conv)
  then have "filter (\<lambda>(_, e). flow_matches e f) (indexed evs) = []"
    using indexed_events [of "\<lambda>e. flow_matches e f" evs] by simp
  with flow_projection.new_synced [OF new] show "synced flow_proj (indexed evs) a"
    by (simp add: flow_matches_def)
qed

lemma new_flow_rule: "ftriple svc_inv (make_new_flow env key trigger snap) holds svc_inv"
proof (rule ftripleI)
  fix svc a svc'
  assume inv: "svc_inv svc" and "make_new_flow env key trigger snap svc = (Inr a, svc')"
  then obtain now f st' where id: "new_flow_id (fsv_store svc) = (f, st')"
    and new: "flow_new now f key trigger snap = Inr a"
    and svc': "svc' = svc\<lparr>fsv_readings := Suc (fsv_readings svc), fsv_store := st',
      fsv_pending_flows := add_pending_flow key f (fsv_pending_flows svc)\<rparr>"
    by (auto simp: make_new_flow_def fbind_Inr svc_now_def Let_def split: prod.splits sum.splits)
  show "holds a svc'" unfolding holds_flow_def
  proof
    assume "fsv_readings svc' < 2 ^ 64"
    with inv have n: "fsv_readings svc < 2 ^ 64" and ok: "svc_ok svc" by (simp_all add: svc' svc_inv_def)
    let ?st = "fsv_store svc"
    have same: "st' = ?st\<lparr>fst_last_flow_id := Some f\<rparr>" using id by (auto simp: new_flow_id_def Let_def)
    from ok have issued: "issued_ok ?st (fsv_readings svc)" by (simp add: svc_ok_def)
    note fresh = new_flow_id_fresh [OF this n id]
    have none: "flow_at (fst_events ?st) f = None" using issued fresh(1) by (auto simp: issued_ok_def)
    have store: "flow_store_inv st'" using ok by (simp add: svc_ok_def flow_store_inv_def index_ok_def same)
    moreover have "issued_ok st' (Suc (fsv_readings svc))"
      using issued fresh by (simp add: issued_ok_def) (simp add: same)
    moreover have "tracked_ok st' (add_pending_flow key f (fsv_pending_flows svc))"
      using ok by (simp add: svc_ok_def tracked_ok_def same)
    moreover have "pending_ok st' (add_pending_flow key f (fsv_pending_flows svc))"
      using ok none fresh(1) by (auto simp: svc_ok_def pending_ok_def add_pending_get fresh(2)) (simp_all add: same)
    ultimately have "svc_ok svc'" using ok by (simp add: svc_ok_def svc')
    moreover have "held svc' a"
      using flow_new_held [OF new] none store fresh(2) ok fresh(1)
      by (auto simp: held_def svc' add_pending_get flow_store_inv_def svc_ok_def pending_ok_def) (simp_all add: same)
    ultimately show "svc_ok svc' \<and> held svc' a \<and> (\<forall>s. agg_state a = Some s \<longrightarrow> True)" by simp
  qed
next
  fix svc e svc'
  assume inv: "svc_inv svc" and "make_new_flow env key trigger snap svc = (Inl e, svc')"
  then obtain now f st' where id: "new_flow_id (fsv_store svc) = (f, st')"
    and svc': "svc' = svc\<lparr>fsv_readings := Suc (fsv_readings svc), fsv_store := st'\<rparr>"
    by (auto simp: make_new_flow_def fbind_Inl svc_now_def Let_def split: prod.splits sum.splits)
  have same: "st' = (fsv_store svc)\<lparr>fst_last_flow_id := Some f\<rparr>" using id by (auto simp: new_flow_id_def Let_def)
  show "svc_inv svc'" unfolding svc_inv_def
  proof
    assume "fsv_readings svc' < 2 ^ 64"
    with inv have n: "fsv_readings svc < 2 ^ 64" and ok: "svc_ok svc" by (simp_all add: svc' svc_inv_def)
    then have issued: "issued_ok (fsv_store svc) (fsv_readings svc)" by (simp add: svc_ok_def)
    note fresh = new_flow_id_fresh [OF this n id]
    have "issued_ok st' (Suc (fsv_readings svc))"
      using issued fresh by (simp add: issued_ok_def) (simp add: same)
    moreover have "pending_ok st' (fsv_pending_flows svc)"
      using ok by (auto simp: svc_ok_def pending_ok_def fresh(2)) (simp_all add: same)
    ultimately show "svc_ok svc'"
      using ok by (simp add: svc_ok_def svc' tracked_ok_def flow_store_inv_def index_ok_def same)
  qed
qed

section \<open>The other primitives\<close>

lemma get_rule: "(\<And>x. ftriple P (k x) Q E) \<Longrightarrow> ftriple P (fbind (svc_get f) k) Q E"
  by (simp add: ftriple_def fbind_def svc_get_def)

lemma holds_weaken: "ftriple svc_inv m Q E \<Longrightarrow> ftriple (holds_flow R a) m Q E"
  by (erule ftriple_pre) (rule holds_inv)

lemma stored_weaken: "ftriple svc_inv m Q E \<Longrightarrow> ftriple (stored_flow R f) m Q E"
  by (erule ftriple_pre) (simp add: stored_flow_def svc_inv_def)

lemma return_rule:
  "ftriple svc_inv (freturn x) (\<lambda>_. svc_inv) E"
  "ftriple (holds_flow R a) (freturn a) holds E"
  "ftriple (holds_flow R a) (freturn x) (\<lambda>_. holds_flow R a) E"
  by (simp_all add: ftriple_def freturn_def) (simp add: holds_flow_def)

lemma configs_rule: "ftriple svc_inv (svc_configs f) (\<lambda>_. svc_inv) svc_inv"
  by (auto simp: ftriple_def svc_configs_def svc_inv_def svc_ok_def split: prod.split sum.split)

lemma scheduler_rule:
  "ftriple svc_inv (svc_create_task env plan) (\<lambda>_. svc_inv) svc_inv"
  "ftriple (holds_flow R a) (svc_create_task env plan) (\<lambda>_. holds_flow R a) svc_inv"
  "ftriple svc_inv (svc_cancel_task env tid) (\<lambda>_. svc_inv) svc_inv"
proof -
  have keep: "svc_inv (svc\<lparr>fsv_scheduler := sch\<rparr>) = svc_inv svc"
    "holds_flow R a (svc\<lparr>fsv_scheduler := sch\<rparr>) = holds_flow R a svc" for svc sch
    by (simp_all add: svc_inv_def holds_flow_def svc_ok_def held_def)
  show "ftriple svc_inv (svc_create_task env plan) (\<lambda>_. svc_inv) svc_inv"
    unfolding svc_create_task_def
    by (rule ftriple_bind [OF now_rule(1)]) (simp add: ftriple_def keep split: prod.split sum.split)
  show "ftriple (holds_flow R a) (svc_create_task env plan) (\<lambda>_. holds_flow R a) svc_inv"
    unfolding svc_create_task_def
    by (rule ftriple_bind [OF now_rule(2)]) (auto simp: ftriple_def keep dest: holds_inv split: prod.split sum.split)
  show "ftriple svc_inv (svc_cancel_task env tid) (\<lambda>_. svc_inv) svc_inv"
    unfolding svc_cancel_task_def
    by (rule ftriple_bind [OF now_rule(1)]) (simp add: ftriple_def keep split: prod.split sum.split)
qed

definition shrinks :: "(pending_flows \<Rightarrow> pending_flows) \<Rightarrow> bool" where
  "shrinks g \<longleftrightarrow>
     (\<forall>p. (\<forall>key f. try_get_pending_flow (g p) key = Some f \<longrightarrow> try_get_pending_flow p key = Some f)
        \<and> (\<forall>tid f. pf_by_tasks (g p) tid = Some f \<longrightarrow> pf_by_tasks p tid = Some f))"

lemma shrinks_comp: "shrinks g \<Longrightarrow> shrinks h \<Longrightarrow> shrinks (\<lambda>p. g (h p))"
  unfolding shrinks_def by blast

lemma shrinks_untrack: "shrinks (untrack_flow_by_task tid)"
proof -
  have "try_get_pending_flow (untrack_flow_by_task tid p) key = try_get_pending_flow p key" for p key
    by (cases key) (simp_all add: untrack_flow_by_task_def)
  then show ?thesis by (auto simp: shrinks_def untrack_flow_by_task_def split: if_splits)
qed

lemma drop_dataset_pending:
  "drop_pending_flow (DatasetKey k) p =
     (pf_dataset_flows p k, p\<lparr>pf_dataset_flows := (pf_dataset_flows p)(k := None)\<rparr>)"
proof -
  have "\<lparr>fkd_dataset_id = fkd_dataset_id k, fkd_flow_type = fkd_flow_type k\<rparr> = k" by simp
  then show ?thesis by (simp only: drop_pending_flow.simps drop_dataset_pending_flow_def Let_def)
qed

lemma drop_pending_get:
  "fst (drop_pending_flow key p) = try_get_pending_flow p key"
  "try_get_pending_flow (snd (drop_pending_flow key p)) key' = (if key' = key then None else try_get_pending_flow p key')"
  "pf_by_tasks (snd (drop_pending_flow key p)) = pf_by_tasks p"
    apply (cases key; simp add: drop_dataset_pending del: drop_pending_flow.simps(1))
   apply (cases key; cases key'; simp add: drop_dataset_pending del: drop_pending_flow.simps(1))
  apply (cases key; simp add: drop_dataset_pending del: drop_pending_flow.simps(1))
  done

lemma shrinks_drop: "shrinks (\<lambda>p. snd (drop_pending_flow key p))"
  by (simp add: shrinks_def drop_pending_get(2,3))

lemma shrinks_untrack_all: "shrinks (\<lambda>p. foldl (\<lambda>p tid. untrack_flow_by_task tid p) p tids)"
proof (induction tids)
  case (Cons tid tids)
  from shrinks_comp [OF this shrinks_untrack] show ?case by simp
qed (simp add: shrinks_def)

lemma shrink_rule:
  assumes "shrinks g"
  shows "ftriple svc_inv (svc_pending g) (\<lambda>_. svc_inv) svc_inv"
proof -
  have "tracked_ok st (g p) \<and> pending_ok st (g p)" if "tracked_ok st p" "pending_ok st p" for st p
    using assms that unfolding shrinks_def tracked_ok_def pending_ok_def by blast
  then show ?thesis by (simp add: ftriple_def svc_pending_def svc_inv_def svc_ok_def)
qed

lemma track_rule:
  "ftriple (stored_flow (\<lambda>s. tid \<in> set (fs_task_ids s)) f) (svc_pending (track_flow_task f tid)) (\<lambda>_. svc_inv) svc_inv"
proof -
  have "try_get_pending_flow (track_flow_task f tid p) key = try_get_pending_flow p key" for p key
    by (cases key) (simp_all add: track_flow_task_def)
  then have "pending_ok st (track_flow_task f tid p) = pending_ok st p" for st p by (simp add: pending_ok_def)
  then show ?thesis
    by (auto simp: ftriple_def svc_pending_def svc_inv_def stored_flow_def svc_ok_def tracked_ok_def track_flow_task_def)
qed

lemma drop_rule: "ftriple svc_inv (svc_drop_pending key) (\<lambda>_. svc_inv) svc_inv"
  using shrink_rule [OF shrinks_drop [of key]]
  by (simp add: ftriple_def svc_drop_pending_def svc_pending_def case_prod_unfold Let_def)

lemma cancel_activation_rule: "ftriple svc_inv (svc_cancel_activation f) (\<lambda>_. svc_inv) svc_inv"
proof -
  have "svc_inv (svc\<lparr>fsv_time_wheel := w\<rparr>)" if "svc_inv svc" "cancel_flow_activation f (fsv_time_wheel svc) = (r, w)" for svc r w
    using that cancel_inv [of "fsv_time_wheel svc" f] by (auto simp: svc_inv_def svc_ok_def)
  then show ?thesis by (auto simp: ftriple_def svc_cancel_activation_def split: prod.split sum.split)
qed

lemma take_rule:
  "ftriple svc_inv (fbind (svc_get (\<lambda>svc. take_nearest_planned_flows (fsv_time_wheel svc))) (\<lambda>(planned, w).
     fbind (svc_wheel (\<lambda>_. w)) (\<lambda>_. k planned))) Q E"
  if "\<And>planned. ftriple svc_inv (k planned) Q E"
proof -
  have inv: "svc_inv (svc\<lparr>fsv_time_wheel := w\<rparr>)" if "svc_inv svc" "take_nearest_planned_flows (fsv_time_wheel svc) = (fs, w)" for svc fs w
    using that take_nearest_inv [of "fsv_time_wheel svc"] by (auto simp: svc_inv_def svc_ok_def)
  show ?thesis unfolding ftriple_def
  proof (intro allI impI)
    fix svc assume "svc_inv svc"
    obtain planned w where take: "take_nearest_planned_flows (fsv_time_wheel svc) = (planned, w)" by fastforce
    from that [of planned, unfolded ftriple_def, rule_format, OF inv [OF \<open>svc_inv svc\<close> take]]
    show "case fbind (svc_get (\<lambda>svc. take_nearest_planned_flows (fsv_time_wheel svc))) (\<lambda>(planned, w).
        fbind (svc_wheel (\<lambda>_. w)) (\<lambda>_. k planned)) svc of (Inr x, s') \<Rightarrow> Q x s' | (Inl x, s') \<Rightarrow> E s'"
      by (simp add: fbind_def svc_get_def svc_wheel_def take)
  qed
qed

section \<open>The operations keep the invariant\<close>

lemma ftriple_cases:
  "ftriple P m Q E \<Longrightarrow> (\<And>y. ftriple P (k y) Q E) \<Longrightarrow> ftriple P (case x of None \<Rightarrow> m | Some y \<Rightarrow> k y) Q E"
  "(\<And>y z. ftriple P (h y z) Q E) \<Longrightarrow> ftriple P (case xy of (y, z) \<Rightarrow> h y z) Q E"
  "ftriple P m Q E \<Longrightarrow> (\<And>y. ftriple P (sch y) Q E) \<Longrightarrow> (\<And>y. ftriple P (bat y) Q E) \<Longrightarrow>
   ftriple P (case ctx of Unconditional \<Rightarrow> m | Scheduled y \<Rightarrow> sch y | Batching y \<Rightarrow> bat y) Q E"
  "(\<And>y. ftriple P (k1 y) Q E) \<Longrightarrow> (\<And>y. ftriple P (k2 y) Q E) \<Longrightarrow>
   ftriple P (case key of DatasetKey y \<Rightarrow> k1 y | SystemKey y \<Rightarrow> k2 y) Q E"
  "ftriple P m1 Q E \<Longrightarrow> ftriple P m2 Q E \<Longrightarrow> ftriple P m3 Q E \<Longrightarrow>
   ftriple P (case st of FlowWaiting \<Rightarrow> m1 | FlowRunning \<Rightarrow> m2 | FlowFinished \<Rightarrow> m3) Q E"
  "(\<And>y. ftriple P (r1 y) Q E) \<Longrightarrow> (\<And>y. ftriple P (r2 y) Q E) \<Longrightarrow> (\<And>y. ftriple P (r3 y) Q E) \<Longrightarrow>
   (\<And>y. ftriple P (r4 y) Q E) \<Longrightarrow> (\<And>y. ftriple P (r5 y) Q E) \<Longrightarrow>
   ftriple P (case rule of RuleSchedule y \<Rightarrow> r1 y | RuleTransform y \<Rightarrow> r2 y | RuleCompaction y \<Rightarrow> r3 y
      | RuleIngest y \<Rightarrow> r4 y | RuleReset y \<Rightarrow> r5 y) Q E"
  by (simp_all split: option.split prod.split trigger_context.split flow_key.split flow_status.split flow_config_rule.split)

lemmas svc_steps = ftriple_if ftriple_cases get_rule now_rule(2) now_rule(1) fail_rule result_rule(2) result_rule(1)
  return_rule(2) return_rule(3) return_rule(1) post_rule enqueue_rule load_rule save_rule command_rules new_flow_rule
  configs_rule scheduler_rule(2) scheduler_rule(1,3) drop_rule cancel_activation_rule
  shrink_rule [OF shrinks_untrack_all] shrink_rule [OF shrinks_comp [OF shrinks_drop shrinks_untrack]]
  ftriple_feach

lemma indicate_rule: "ftriple (holds_flow R a) (indicate_throttling_activity env a t t') holds svc_inv"
  unfolding indicate_throttling_activity_def by (rule svc_steps ftriple_bind)+

lemma evaluate_rule: "ftriple (holds_flow R a) (evaluate_flow_transform_rule env t a rule b) holds svc_inv"
  unfolding evaluate_flow_transform_rule_def activate_batch_def Let_def
  by (rule svc_steps indicate_rule ftriple_bind)+

lemma merge_rule: "ftriple svc_inv (merge_trigger env f trigger context boundary) holds svc_inv"
  unfolding merge_trigger_def
  by (rule svc_steps indicate_rule evaluate_rule ftriple_bind)+

lemma plan_rule: "ftriple (holds_flow R a) (plan_new_flow env trigger context stats boundary a) holds svc_inv"
  unfolding plan_new_flow_def by (rule svc_steps indicate_rule evaluate_rule ftriple_bind)+

lemma initiate_rule: "ftriple svc_inv (initiate_flow env key trigger context snap stats boundary) holds svc_inv"
  unfolding initiate_flow_def Let_def
  by (rule svc_steps plan_rule ftriple_bind)+

lemma into_state_rule: "ftriple (holds_flow R a) (svc_result r) (\<lambda>_. svc_inv) svc_inv"
  by (rule holds_weaken [OF result_rule(1)])

lemma trigger_rule: "ftriple svc_inv (trigger_flow_common env key trigger context snap) (\<lambda>_. svc_inv) svc_inv"
  unfolding trigger_flow_common_def Let_def
  by (rule into_state_rule svc_steps merge_rule initiate_rule ftriple_bind)+

lemma polling_rules:
  "ftriple svc_inv (enqueue_scheduled_auto_polling_flow env start key sched) (\<lambda>_. svc_inv) svc_inv"
  "ftriple svc_inv (enqueue_auto_polling_flow_unconditionally env start key) (\<lambda>_. svc_inv) svc_inv"
  unfolding enqueue_scheduled_auto_polling_flow_def enqueue_auto_polling_flow_unconditionally_def
  by (rule trigger_rule)+

lemma manual_rule: "ftriple svc_inv (trigger_manual_flow env trig key initiator snap) (\<lambda>_. svc_inv) svc_inv"
  unfolding trigger_manual_flow_def by (rule svc_steps trigger_rule ftriple_bind)+

lemma reschedule_rule:
  "ftriple svc_inv (try_enqueue_scheduled_auto_polling_flow_if_enabled env start key) (\<lambda>_. svc_inv) svc_inv"
  unfolding try_enqueue_scheduled_auto_polling_flow_if_enabled_def
  by (rule svc_steps polling_rules ftriple_bind)+

lemma activate_rule: "ftriple svc_inv (activate_flow_configuration env start key rule) (\<lambda>_. svc_inv) svc_inv"
  unfolding activate_flow_configuration_def
  by (rule svc_steps polling_rules ftriple_bind)+

lemma initialize_rule:
  "ftriple svc_inv (initialize_auto_polling_flows_from_configurations env configs start) (\<lambda>_. svc_inv) svc_inv"
  unfolding initialize_auto_polling_flows_from_configurations_def Let_def
  by (rule svc_steps activate_rule ftriple_bind)+

lemma schedule_task_rule: "ftriple (holds_flow R a) (schedule_flow_task env a t) (\<lambda>_. svc_inv) svc_inv"
proof -
  have into: "ftriple (holds_flow R a) (svc_result (agg_into_state a)) (\<lambda>s. holds_flow (\<lambda>s'. fs_flow_id s' = fs_flow_id s) a) svc_inv"
    by (auto simp: ftriple_def svc_result_def agg_into_state_def holds_flow_def svc_inv_def split: option.split)
  note start = command_grows [OF flow_commands(1), where ?R = "\<lambda>s'. fs_flow_id s' = f" and ?R1.0 = "\<lambda>s'. fs_flow_id s' = f" for f]
  note sched = command_grows [OF flow_commands(3), where ?R = "\<lambda>s'. True \<and> fs_flow_id s' = f" and ?R1.0 = "\<lambda>s'. fs_flow_id s' = f" for f]
  show ?thesis
    unfolding schedule_flow_task_def
    by (rule ftriple_bind, rule into, rule ftriple_bind, rule result_rule, rule ftriple_bind, rule scheduler_rule,
        rule ftriple_bind, rule start, simp add: grows_def, rule ftriple_bind, rule sched, simp add: grows_def,
        rule ftriple_bind, rule save_stored, rule ftriple_bind, rule track_rule, rule return_rule(1))
qed

lemma schedule_planned_rule: "ftriple svc_inv (schedule_planned env slot fids) (\<lambda>_. svc_inv) svc_inv"
proof -
  have step: "ftriple svc_inv (fbind (svc_load_flow f) (\<lambda>a. schedule_flow_task env a slot)) (\<lambda>_. svc_inv) svc_inv" for f
    by (rule ftriple_bind [OF load_rule schedule_task_rule])
  have "svc_inv svc \<Longrightarrow> svc_inv (snd (schedule_planned env slot fids svc))" for svc
  proof (induction fids arbitrary: svc)
    case (Cons f fids)
    from Cons.prems step [of f] have "svc_inv (snd (fbind (svc_load_flow f) (\<lambda>a. schedule_flow_task env a slot) svc))"
      by (simp add: ftriple_keeps)
    with Cons.IH show ?case by (auto split: prod.split sum.split fault.split)
  qed simp
  then show ?thesis by (simp add: ftriple_keeps)
qed

lemma timeslot_rule: "ftriple svc_inv (run_current_timeslot env slot) (\<lambda>_. svc_inv) svc_inv"
  unfolding run_current_timeslot_def by (rule take_rule) (rule schedule_planned_rule)

lemma mimic_rule: "ftriple svc_inv (mimic_flow_scheduled env f t) (\<lambda>_. svc_inv) svc_inv"
  unfolding mimic_flow_scheduled_def by (rule svc_steps schedule_task_rule ftriple_bind)+

lemma abort_impl_rule: "ftriple (holds_flow R a) (abort_flow_impl env a) (\<lambda>_. svc_inv) svc_inv"
  unfolding abort_flow_impl_def
  by (rule svc_steps holds_weaken ftriple_bind)+

lemma abort_rules:
  "ftriple svc_inv (abort_flow env f) (\<lambda>_. svc_inv) svc_inv"
  "ftriple svc_inv (cancel_scheduled_tasks env f) (\<lambda>_. svc_inv) svc_inv"
  "ftriple svc_inv (abort_deleted env f) (\<lambda>_. svc_inv) svc_inv"
  unfolding abort_flow_def cancel_scheduled_tasks_def abort_deleted_def
  by ((rule abort_impl_rule holds_weaken [OF return_rule(1)] svc_steps ftriple_bind)+)

lemma dependents_rule: "ftriple svc_inv (enqueue_dependent_flows env t s result) (\<lambda>_. svc_inv) svc_inv"
  unfolding enqueue_dependent_flows_def
  by (rule svc_steps trigger_rule ftriple_bind)+

lemma followup_rule: "ftriple svc_inv (finish_followup env t s) (\<lambda>_. svc_inv) svc_inv"
  unfolding finish_followup_def by (rule svc_steps dependents_rule ftriple_bind)+

lemma progress_rule: "ftriple svc_inv (consume_task_progress env msg) (\<lambda>_. svc_inv) svc_inv"
proof (cases msg)
  case (ProgressRunning time tid)
  show ?thesis
    unfolding ProgressRunning consume_task_progress.simps on_progress_running_def when_running_def
    by (rule svc_steps holds_weaken ftriple_bind)+
next
  case (ProgressFinished time tid outcome)
  show ?thesis
    unfolding ProgressFinished consume_task_progress.simps on_progress_finished_def when_running_def
    by (rule svc_steps reschedule_rule followup_rule holds_weaken ftriple_bind)+
qed

lemma config_updated_rule: "ftriple svc_inv (consume_config_updated env m) (\<lambda>_. svc_inv) svc_inv"
  unfolding consume_config_updated_def when_running_def
  by (rule svc_steps abort_rules activate_rule ftriple_bind)+

lemma drop_flows_rule: "ftriple svc_inv (drop_dataset_flows d tys fids) (\<lambda>_. svc_inv) svc_inv"
proof (induction tys arbitrary: fids)
  case (Cons ty tys)
  show ?case unfolding drop_dataset_flows.simps by (rule svc_steps Cons.IH ftriple_bind)+
qed (simp add: return_rule)

lemma lifecycle_rule: "ftriple svc_inv (consume_dataset_lifecycle env msg) (\<lambda>_. svc_inv) svc_inv"
proof (cases msg)
  case (LifecycleDeleted d)
  show ?thesis
    unfolding LifecycleDeleted consume_dataset_lifecycle.simps when_running_def
    by (rule svc_steps abort_rules drop_flows_rule ftriple_bind)+
qed (simp_all add: return_rule)

lemma start_rule: "ftriple svc_inv (service_start env configs t) (\<lambda>_. svc_inv) svc_inv"
proof -
  have running: "ftriple svc_inv svc_running (\<lambda>_. svc_inv) svc_inv"
    by (simp add: ftriple_def svc_running_def svc_inv_def svc_ok_def)
  show ?thesis
    unfolding service_start_def by (rule svc_steps running initialize_rule ftriple_bind)+
qed

lemma round_rule: "ftriple svc_inv (main_loop_round env) (\<lambda>_. svc_inv) svc_inv"
  unfolding main_loop_round_def by (rule svc_steps timeslot_rule ftriple_bind)+

section \<open>Every service state\<close>

text \<open>
  The requests a running service serves, one at a time and in any order: what each of them leaves
  behind is the next state, also when it failed.
\<close>

datatype svc_request =
    ReqStart "flow_config_state list" datetime
  | ReqRound
  | ReqTrigger datetime flow_key account_id "flow_config_snapshot option"
  | ReqCancel flow_id
  | ReqTaskProgress task_progress_message
  | ReqConfigUpdated config_updated_message
  | ReqLifecycle dataset_lifecycle_message

definition svc_drop_result :: "'a svc_op \<Rightarrow> unit svc_op" where
  "svc_drop_result m = fbind m (\<lambda>_. freturn ())"

fun serve :: "flow_env \<Rightarrow> svc_request \<Rightarrow> unit svc_op" where
  "serve env (ReqStart configs t) = service_start env configs t"
| "serve env ReqRound = main_loop_round env"
| "serve env (ReqTrigger t key initiator snap) = svc_drop_result (trigger_manual_flow env t key initiator snap)"
| "serve env (ReqCancel f) = svc_drop_result (cancel_scheduled_tasks env f)"
| "serve env (ReqTaskProgress msg) = consume_task_progress env msg"
| "serve env (ReqConfigUpdated msg) = consume_config_updated env msg"
| "serve env (ReqLifecycle msg) = consume_dataset_lifecycle env msg"

fun serve_all :: "flow_env \<Rightarrow> svc_request list \<Rightarrow> flow_service \<Rightarrow> flow_service" where
  "serve_all env [] svc = svc"
| "serve_all env (r # rs) svc = serve_all env rs (snd (serve env r svc))"

text \<open>Other processes may work the task queue and the environment may change between requests.\<close>

inductive svc_reachable :: "flow_service \<Rightarrow> bool" where
  reach_init: "svc_reachable (empty_service\<lparr>fsv_scheduler := sch\<rparr>)"
| reach_serve: "svc_reachable svc \<Longrightarrow> svc_reachable (snd (serve env req svc))"
| reach_tasks: "svc_reachable svc \<Longrightarrow> svc_reachable (svc\<lparr>fsv_scheduler := sch\<rparr>)"

lemma serve_rule: "ftriple svc_inv (serve env req) (\<lambda>_. svc_inv) svc_inv"
  by (cases req)
    (simp_all add: start_rule round_rule progress_rule config_updated_rule lifecycle_rule svc_drop_result_def
      ftriple_bind [OF manual_rule return_rule(1)] ftriple_bind [OF abort_rules(2) return_rule(1)])

lemma reachable_inv: "svc_reachable svc \<Longrightarrow> svc_inv svc"
proof (induction rule: svc_reachable.induct)
  case (reach_init sch)
  from svc_inv_empty show ?case by (simp add: svc_inv_def svc_ok_def)
next
  case (reach_serve svc env req)
  then show ?case using serve_rule [of env req] by (simp add: ftriple_keeps)
next
  case (reach_tasks svc sch)
  then show ?case by (simp add: svc_inv_def svc_ok_def)
qed

lemma reachable_ok: "svc_reachable svc \<Longrightarrow> fsv_readings svc < 2 ^ 64 \<Longrightarrow> svc_ok svc"
  using reachable_inv by (simp add: svc_inv_def)

lemma serve_all_reachable: "svc_reachable svc \<Longrightarrow> svc_reachable (serve_all env reqs svc)"
  by (induction reqs arbitrary: svc) (auto intro: reach_serve)

end
