(* ===== verification/Flow_Triggering.thy ===== *)
theory Flow_Triggering
  imports Flow_Invariant
begin

text \<open>
  What a trigger does: it serves exactly one flow, the pending one of the key or a new one, and
  it never plans a flow before the throttling boundary.
\<close>

section \<open>Throttling\<close>

definition planned :: "flow_service \<Rightarrow> flow_id \<Rightarrow> datetime option" where
  "planned svc f = get_planned_flow_activation_time (fsv_time_wheel svc) f"

definition delays :: "(flow_id \<rightharpoonup> datetime) \<Rightarrow> datetime \<Rightarrow> flow_service \<Rightarrow> bool" where
  "delays before b svc \<longleftrightarrow> (\<forall>f. planned svc f = before f \<or> (\<exists>t \<ge> b. planned svc f = Some t))"

definition keeps_wheel :: "'a svc_op \<Rightarrow> bool" where
  "keeps_wheel m \<longleftrightarrow> (\<forall>svc. fsv_time_wheel (snd (m svc)) = fsv_time_wheel svc)"

lemma keeps_wheel_ops:
  "keeps_wheel (svc_now env)" "keeps_wheel (svc_result r)" "keeps_wheel (freturn x)"
  "keeps_wheel (svc_load_flow f)" "keeps_wheel (svc_save_flow a)" "keeps_wheel (svc_command ra)"
  "keeps_wheel (make_new_flow env key trigger snap)"
  by (auto simp: keeps_wheel_def svc_now_def svc_result_def freturn_def svc_load_flow_def svc_save_flow_def
      svc_command_def make_new_flow_def fbind_def Let_def split: prod.split sum.split)

lemma keeps_wheel_delays:
  "keeps_wheel m \<Longrightarrow> ftriple (delays w b) m (\<lambda>_. delays w b) (delays w b)"
  by (simp add: ftriple_keeps keeps_wheel_def delays_def planned_def)

lemma activate_planned:
  "get_planned_flow_activation_time (activate_at t f w) =
     (if \<exists>t' \<le> t. tw_activation_times w f = Some t' then tw_activation_times w else (tw_activation_times w)(f \<mapsto> t))"
  by (auto simp: get_planned_flow_activation_time_def activate_at_def plan_flow_def unplan_times fun_eq_iff
      split: option.split)

lemma enqueue_delays:
  "b \<le> t \<Longrightarrow> ftriple (delays w b) (enqueue_flow f t) (\<lambda>_. delays w b) (delays w b)"
  by (auto simp: ftriple_keeps enqueue_flow_def svc_wheel_def delays_def planned_def activate_planned)
    (auto simp: get_planned_flow_activation_time_def)

lemmas delay_steps = ftriple_if ftriple_cases get_rule keeps_wheel_ops [THEN keeps_wheel_delays]

lemma indicate_delays:
  "ftriple (delays w b) (indicate_throttling_activity env a t t') (\<lambda>_. delays w b) (delays w b)"
  unfolding indicate_throttling_activity_def by (rule delay_steps ftriple_bind)+

lemma evaluate_delays:
  "ftriple (delays w b) (evaluate_flow_transform_rule env t a rule b) (\<lambda>_. delays w b) (delays w b)"
  unfolding evaluate_flow_transform_rule_def activate_batch_def Let_def
  by (rule delay_steps indicate_delays enqueue_delays max.cobounded2 ftriple_bind)+

lemma merge_delays:
  "ftriple (delays w b) (merge_trigger env f trigger context b) (\<lambda>_. delays w b) (delays w b)"
  unfolding merge_trigger_def
  by (rule delay_steps indicate_delays evaluate_delays enqueue_delays order.refl ftriple_bind)+

lemma initiate_delays:
  "ftriple (delays w b) (initiate_flow env key trigger context snap stats b) (\<lambda>_. delays w b) (delays w b)"
  unfolding initiate_flow_def plan_new_flow_def Let_def
  by (rule delay_steps indicate_delays evaluate_delays enqueue_delays max.cobounded1 ftriple_bind)+

lemma trigger_flow_common_eq:
  "trigger_flow_common env key trigger context snap svc =
     (let stats = svc_flow_run_stats key svc; b = throttling_boundary_time env stats (trigger_time trigger)
      in fbind (case try_get_pending_flow (fsv_pending_flows svc) key of
                  Some fid \<Rightarrow> merge_trigger env fid trigger context b
                | None \<Rightarrow> initiate_flow env key trigger context snap stats b) (\<lambda>a.
           fbind (svc_save_flow a) (\<lambda>a'. svc_result (agg_into_state a'))) svc)"
  by (simp add: trigger_flow_common_def fbind_def [of "svc_get _"] svc_get_def Let_def)

lemma trigger_delays:
  "delays (planned svc) (throttling_boundary_time env (svc_flow_run_stats key svc) (trigger_time trigger))
     (snd (trigger_flow_common env key trigger context snap svc))"
proof -
  let ?b = "throttling_boundary_time env (svc_flow_run_stats key svc) (trigger_time trigger)"
  have "ftriple (delays w ?b) (fbind (case try_get_pending_flow p key of
        Some fid \<Rightarrow> merge_trigger env fid trigger context ?b
      | None \<Rightarrow> initiate_flow env key trigger context snap stats ?b) (\<lambda>a.
        fbind (svc_save_flow a) (\<lambda>a'. svc_result (agg_into_state a')))) (\<lambda>_. delays w ?b) (delays w ?b)" for w p stats
    by (rule delay_steps merge_delays initiate_delays ftriple_bind)+
  from this [where w = "planned svc" and p = "fsv_pending_flows svc" and stats = "svc_flow_run_stats key svc",
      unfolded ftriple_keeps, rule_format, of svc] show ?thesis
    by (simp add: trigger_flow_common_eq Let_def) (simp add: delays_def)
qed

section \<open>One flow per trigger\<close>

text \<open>What an operation on the flow \<open>f\<close> leaves alone until it saves.\<close>

definition frame :: "nat \<Rightarrow> flow_event list \<Rightarrow> pending_flows \<Rightarrow> flow_service \<Rightarrow> bool" where
  "frame n evs p svc \<longleftrightarrow> n \<le> fsv_readings svc \<and> fst_events (fsv_store svc) = evs \<and> fsv_pending_flows svc = p"

definition frame_flow :: "nat \<Rightarrow> flow_event list \<Rightarrow> pending_flows \<Rightarrow> flow_id \<Rightarrow> flow \<Rightarrow> flow_service \<Rightarrow> bool" where
  "frame_flow n evs p f a svc \<longleftrightarrow> frame n evs p svc \<and> agg_query a = f"

lemma apply_stored_all_query: "agg_apply_stored_all P a ies = Inr a' \<Longrightarrow> agg_query a' = agg_query a"
proof (induction ies arbitrary: a)
  case (Cons ie ies)
  then obtain a1 where "agg_apply_stored P a ie = Inr a1" "agg_apply_stored_all P a1 ies = Inr a'" by (auto simp: res_simps)
  moreover from this(1) have "agg_query a1 = agg_query a"
    by (auto simp: agg_apply_stored_def res_simps split: prod.splits if_splits)
  ultimately show ?case using Cons.IH by simp
qed simp

lemma load_query: "agg_load P stream q = Inr a \<Longrightarrow> agg_query a = q"
  by (cases stream; cases "projr stream")
    (auto simp: agg_load_def agg_from_stored_event_def res_simps dest!: apply_stored_all_query)

definition keeps_query :: "(flow \<Rightarrow> (flow_projection_error, 'a) res \<times> flow) \<Rightarrow> bool" where
  "keeps_query c \<longleftrightarrow> (\<forall>a. agg_query (snd (c a)) = agg_query a)"

lemma apply_keeps_query [simp]: "agg_query (snd (agg_apply P a e)) = agg_query a"
  by (auto simp: agg_apply_def split: sum.split fault.split)

lemma commands_keep_query:
  "keeps_query (set_relevant_start_condition now cond)" "keeps_query (add_trigger_if_unique now trigger)"
  by (simp_all add: keeps_query_def set_relevant_start_condition_def add_trigger_if_unique_def with_state_def
      case_prod_unfold Let_def split: sum.split)

definition anywhere :: "flow_service \<Rightarrow> bool" where
  "anywhere svc = True"

lemma frame_load: "ftriple (frame n evs p) (svc_load_flow f) (frame_flow n evs p f) anywhere"
  by (auto simp: ftriple_def svc_load_flow_def frame_flow_def anywhere_def flow_load_def res_simps dest: load_query split: sum.split)

lemma frame_command: "keeps_query c \<Longrightarrow> ftriple (frame_flow n evs p f a) (svc_command (c a)) (frame_flow n evs p f) anywhere"
  by (auto simp: ftriple_def svc_command_def frame_flow_def anywhere_def keeps_query_def split: prod.split sum.split
      dest!: spec [of _ a])

lemma frame_ops:
  "ftriple (frame_flow n evs p f a) (svc_now env) (\<lambda>_. frame_flow n evs p f a) anywhere"
  "ftriple (frame_flow n evs p f a) (svc_result r) (\<lambda>_. frame_flow n evs p f a) anywhere"
  "ftriple (frame_flow n evs p f a) (freturn a) (frame_flow n evs p f) anywhere"
  "ftriple (frame_flow n evs p f a) (freturn x) (\<lambda>_. frame_flow n evs p f a) anywhere"
  "ftriple (frame_flow n evs p f a) (enqueue_flow g t) (\<lambda>_. frame_flow n evs p f a) anywhere"
  by (auto simp: ftriple_def svc_now_def svc_result_def freturn_def enqueue_flow_def svc_wheel_def frame_flow_def
      frame_def anywhere_def split: sum.split)

lemma frame_fail: "ftriple P (svc_result (Inl e)) Q anywhere"
  by (simp add: ftriple_def svc_result_def anywhere_def)

lemmas frame_steps = ftriple_if ftriple_cases get_rule frame_fail frame_ops frame_load
  commands_keep_query [THEN frame_command]

lemma indicate_frame:
  "ftriple (frame_flow n evs p f a) (indicate_throttling_activity env a t t') (frame_flow n evs p f) anywhere"
  unfolding indicate_throttling_activity_def by (rule frame_steps ftriple_bind)+

lemma evaluate_frame:
  "ftriple (frame_flow n evs p f a) (evaluate_flow_transform_rule env t a rule b) (frame_flow n evs p f) anywhere"
  unfolding evaluate_flow_transform_rule_def activate_batch_def Let_def
  by (rule frame_steps indicate_frame ftriple_bind)+

lemma merge_frame:
  "ftriple (frame n evs p) (merge_trigger env f trigger context b) (frame_flow n evs p f) anywhere"
  unfolding merge_trigger_def by (rule frame_steps indicate_frame evaluate_frame ftriple_bind)+

lemma frame_new:
  assumes "frame n evs p svc" and "make_new_flow env key trigger snap svc = (Inr a, svc')"
  shows "frame_flow n evs (add_pending_flow key (agg_query a) p) (agg_query a) a svc'"
    and "agg_query a = fst (new_flow_id (fsv_store svc))"
  using assms flow_new_held(1)
  by (auto simp: make_new_flow_def fbind_Inr svc_now_def Let_def frame_flow_def frame_def new_flow_id_def
      split: prod.splits sum.splits)

lemma plan_frame:
  "ftriple (frame_flow n evs p f a) (plan_new_flow env trigger context stats b a) (frame_flow n evs p f) anywhere"
  unfolding plan_new_flow_def by (rule frame_steps indicate_frame evaluate_frame ftriple_bind)+

lemma initiate_frame:
  assumes "initiate_flow env key trigger context snap stats b svc = (Inr a, svc')" and "frame n evs p svc"
  shows "\<exists>f. f = fst (new_flow_id (fsv_store svc)) \<and> frame_flow n evs (add_pending_flow key f p) f a svc'"
proof -
  from assms(1) obtain snap' a1 svc1 where new: "make_new_flow env key trigger snap' svc = (Inr a1, svc1)"
    and rest: "plan_new_flow env trigger context stats b a1 svc1 = (Inr a, svc')"
    by (auto simp: initiate_flow_def fbind_Inr svc_get_def Let_def)
  from ftripleD(1) [OF plan_frame frame_new(1) [OF assms(2) new] rest] frame_new(2) [OF assms(2) new]
  show ?thesis by auto
qed

text \<open>The state after a trigger that succeeded, given what was known when it started.\<close>

lemma trigger_serves:
  assumes ok: "svc_inv svc" and trigger: "trigger_flow_common env key trigger context snap svc = (Inr s, svc')"
    and n: "fsv_readings svc' < 2 ^ 64"
  defines "evs \<equiv> fst_events (fsv_store svc)" and "evs' \<equiv> fst_events (fsv_store svc')"
    and "pending \<equiv> try_get_pending_flow (fsv_pending_flows svc)"
    and "pending' \<equiv> try_get_pending_flow (fsv_pending_flows svc')"
  shows "flow_at evs' = (flow_at evs)(fs_flow_id s \<mapsto> s)" and "fs_flow_key s = key"
    and "pending' = pending(key \<mapsto> fs_flow_id s)"
    and "case pending key of Some f \<Rightarrow> fs_flow_id s = f \<and> flow_at evs f \<noteq> None
         | None \<Rightarrow> flow_at evs (fs_flow_id s) = None"
proof -
  let ?stats = "svc_flow_run_stats key svc"
  let ?b = "throttling_boundary_time env ?stats (trigger_time trigger)"
  let ?m = "case try_get_pending_flow (fsv_pending_flows svc) key of
      Some fid \<Rightarrow> merge_trigger env fid trigger context ?b
    | None \<Rightarrow> initiate_flow env key trigger context snap ?stats ?b"
  from trigger obtain a svc1 a' where m: "?m svc = (Inr a, svc1)" and "svc_save_flow a svc1 = (Inr a', svc')"
    and s: "agg_state a' = Some s"
    by (auto simp: trigger_flow_common_eq Let_def fbind_Inr svc_result_def agg_into_state_def split: option.splits)
  then obtain r st' where save: "flow_save (fsv_store svc1) a = (r, a', st')" and svc': "svc' = svc1\<lparr>fsv_store := st'\<rparr>"
    by (auto simp: svc_save_flow_def split: prod.splits sum.splits)
  have "ftriple svc_inv ?m holds svc_inv" by (rule ftriple_cases merge_rule initiate_rule)+
  from ftripleD(1) [OF this ok m] n have ok1: "svc_ok svc1" and held: "held svc1 a"
    by (simp_all add: holds_flow_def svc')
  note core = save_core [OF ok1 held save]
  have s_id: "fs_flow_id s = agg_query a" and s_key: "try_get_pending_flow (fsv_pending_flows svc1) k = Some (agg_query a) \<Longrightarrow> fs_flow_key s = k" for k
    using held s core(4) by (auto simp: held_def)
  have frame: "frame (fsv_readings svc) evs (fsv_pending_flows svc) svc" by (simp add: frame_def evs_def)
  have start: "svc_ok svc" if "fsv_readings svc \<le> fsv_readings svc1"
    using ok n that by (simp add: svc_inv_def svc')
  have at: "flow_at evs' = (flow_at (fst_events (fsv_store svc1)))(fs_flow_id s \<mapsto> s)"
    using core(4,6) s by (simp add: evs'_def svc' s_id)
  have "fst_events (fsv_store svc1) = evs \<and> try_get_pending_flow (fsv_pending_flows svc1) = pending(key \<mapsto> fs_flow_id s)
      \<and> (case pending key of Some f \<Rightarrow> fs_flow_id s = f \<and> flow_at evs f \<noteq> None
         | None \<Rightarrow> flow_at evs (fs_flow_id s) = None)"
  proof (cases "pending key")
    case (Some f)
    with m have merge: "merge_trigger env f trigger context ?b svc = (Inr a, svc1)" by (simp add: pending_def)
    from ftripleD(1) [OF merge_frame frame merge] have
      fr: "fst_events (fsv_store svc1) = evs" "fsv_pending_flows svc1 = fsv_pending_flows svc" "agg_query a = f"
        "fsv_readings svc \<le> fsv_readings svc1"
      by (simp_all add: frame_flow_def frame_def)
    from merge obtain a0 where "flow_load (fsv_store svc) f = Inr a0"
      by (auto simp: merge_trigger_def fbind_Inr svc_load_flow_def res_simps)
    then have "flow_at evs f \<noteq> None"
      using flow_load_None [of "fsv_store svc" f] start [OF fr(4)]
      by (auto simp: evs_def svc_ok_def flow_store_inv_def)
    with Some fr show ?thesis by (simp add: s_id pending_def fun_upd_idem)
  next
    case None
    with m have init: "initiate_flow env key trigger context snap ?stats ?b svc = (Inr a, svc1)"
      by (simp add: pending_def)
    from initiate_frame [OF init frame] obtain f where f: "f = fst (new_flow_id (fsv_store svc))"
      and fr: "fst_events (fsv_store svc1) = evs" "fsv_pending_flows svc1 = add_pending_flow key f (fsv_pending_flows svc)"
        "agg_query a = f" "fsv_readings svc \<le> fsv_readings svc1"
      by (auto simp: frame_flow_def frame_def)
    from start [OF fr(4)] have issued: "issued_ok (fsv_store svc) (fsv_readings svc)" by (simp add: svc_ok_def)
    have "fsv_readings svc < 2 ^ 64" using fr(4) n by (simp add: svc')
    from new_flow_id_fresh(1) [OF issued this, of f "snd (new_flow_id (fsv_store svc))"] f issued
    have "flow_at evs f = None" by (auto simp: evs_def issued_ok_def)
    with None fr show ?thesis by (simp add: s_id pending_def add_pending_get fun_eq_iff)
  qed
  with at s_key [of key] show "flow_at evs' = (flow_at evs)(fs_flow_id s \<mapsto> s)" "fs_flow_key s = key"
    "pending' = pending(key \<mapsto> fs_flow_id s)"
    "case pending key of Some f \<Rightarrow> fs_flow_id s = f \<and> flow_at evs f \<noteq> None
     | None \<Rightarrow> flow_at evs (fs_flow_id s) = None"
    by (simp_all add: pending'_def svc' s_id)
qed

end
