(* ===== verification/Flow_Progress.thy ===== *)
theory Flow_Progress
  imports Flow_Triggering
begin

text \<open>
  Progress of the flow service: its main loop catches up with the time wheel in boundedly many
  rounds, a batching flow with something to process is planned within its interval, and the
  paginated listing over several datasets is the page of the filtered list.
\<close>

section \<open>Rounds of the main loop\<close>

lemma keeps_wheel_bind:
  "keeps_wheel m \<Longrightarrow> (\<And>x. keeps_wheel (k x)) \<Longrightarrow> keeps_wheel (fbind m k)"
  by (auto simp: keeps_wheel_def fbind_def split: prod.split sum.split) (metis snd_conv)+

lemma keeps_wheel_tasks: "keeps_wheel (svc_create_task env plan)" "keeps_wheel (svc_pending g)" "keeps_wheel (svc_post t u)"
  by (auto simp: keeps_wheel_def svc_create_task_def svc_pending_def svc_post_def svc_now_def fbind_def Let_def split: prod.split)

lemma keeps_wheel_schedule: "keeps_wheel (schedule_flow_task env a t)"
  unfolding schedule_flow_task_def by (rule keeps_wheel_ops keeps_wheel_tasks keeps_wheel_bind)+

lemma keeps_wheel_planned: "keeps_wheel (schedule_planned env slot fids)"
proof -
  have step: "keeps_wheel (fbind (svc_load_flow f) (\<lambda>a. schedule_flow_task env a slot))" for f
    by (rule keeps_wheel_ops keeps_wheel_schedule keeps_wheel_bind)+
  have "fsv_time_wheel (snd (schedule_planned env slot fids svc)) = fsv_time_wheel svc" for svc
  proof (induction fids arbitrary: svc)
    case (Cons f fids)
    with step [of f, unfolded keeps_wheel_def, rule_format, of svc] show ?case
      by (auto split: prod.split sum.split fault.split)
  qed simp
  then show ?thesis by (simp add: keeps_wheel_def)
qed

lemma round_wheel:
  "fsv_time_wheel (snd (main_loop_round env svc)) =
     (case nearest_activation_moment (fsv_time_wheel svc) of
        Some m \<Rightarrow> if m \<le> env_clock env (fsv_readings svc) then snd (take_nearest_planned_flows (fsv_time_wheel svc))
                  else fsv_time_wheel svc
      | None \<Rightarrow> fsv_time_wheel svc)"
proof -
  have run: "fsv_time_wheel (snd (fbind (run_current_timeslot env m) (\<lambda>_. svc_post m ExecutedTimeslot) svc)) =
      snd (take_nearest_planned_flows (fsv_time_wheel svc))" for m svc
  proof -
    have "keeps_wheel (fbind (schedule_planned env m fids) (\<lambda>_. svc_post m ExecutedTimeslot))" for fids
      by (rule keeps_wheel_planned keeps_wheel_tasks keeps_wheel_bind)+
    then show ?thesis
      by (simp add: keeps_wheel_def run_current_timeslot_def fbind_def svc_get_def svc_wheel_def case_prod_unfold)
  qed
  show ?thesis
    by (simp add: main_loop_round_def fbind_def [of "svc_now _"] fbind_def [of "svc_get _"] svc_now_def svc_get_def
        run freturn_def split: option.split)
qed

fun round_clocks :: "flow_env \<Rightarrow> nat \<Rightarrow> flow_service \<Rightarrow> datetime list" where
  "round_clocks env 0 svc = []"
| "round_clocks env (Suc k) svc =
     env_clock env (fsv_readings svc) # round_clocks env k (snd (main_loop_round env svc))"

lemma rounds_wheel:
  "fsv_time_wheel (serve_all env (replicate k ReqRound) svc) =
     foldl (\<lambda>w n. case nearest_activation_moment w of
         Some m \<Rightarrow> if m \<le> n then snd (take_nearest_planned_flows w) else w | None \<Rightarrow> w)
       (fsv_time_wheel svc) (round_clocks env k svc)"
  by (induction k arbitrary: svc) (simp_all add: round_wheel)

lemma round_clocks_set: "set (round_clocks env k svc) \<subseteq> range (env_clock env)" "length (round_clocks env k svc) = k"
  by (induction k arbitrary: svc) auto

lemma rounds_catch_up:
  assumes "wheel_inv (fsv_time_wheel svc)" and "\<forall>i. now \<le> env_clock env i"
    and "length (tw_flow_heap (fsv_time_wheel svc)) \<le> k"
    and "waiting (fsv_time_wheel (serve_all env (replicate k ReqRound) svc)) f = Some t"
  shows "now < t \<and> waiting (fsv_time_wheel svc) f = Some t"
  using assms(4) unfolding rounds_wheel
  by (rule wheel.catch_up [OF assms(1), rotated 2])
    (use assms(2,3) round_clocks_set [of env k svc] in auto)

section \<open>Planning of batching flows\<close>

lemma enqueue_bounds:
  assumes "enqueue_flow f t svc = (r, svc')"
  shows "\<exists>t'. planned svc' f = Some t' \<and> t' \<le> t"
  using assms
  by (auto simp: enqueue_flow_def svc_wheel_def planned_def activate_planned)

lemma keeps_wheel_planned_eq: "keeps_wheel m \<Longrightarrow> m svc = (r, svc') \<Longrightarrow> planned svc' = planned svc"
  by (auto simp: keeps_wheel_def planned_def fun_eq_iff) (metis snd_conv)

lemma keeps_wheel_indicate: "keeps_wheel (indicate_throttling_activity env a t t')"
  unfolding indicate_throttling_activity_def by (rule keeps_wheel_ops keeps_wheel_bind)+

lemma activate_batch_bounds:
  assumes "activate_batch env f due finish b a svc = (Inr a', svc')"
  shows "\<exists>t. planned svc' f = Some t \<and> t \<le> max finish b"
proof -
  let ?at = "max finish b"
  let ?go = "case get_planned_flow_activation_time (fsv_time_wheel svc) f of Some t \<Rightarrow> t > ?at | None \<Rightarrow> True"
  from assms obtain svc2 where
    enq: "(if ?go then enqueue_flow f ?at else freturn ()) svc = (Inr (), svc2)"
    and fin: "(if due \<and> b > finish then indicate_throttling_activity env a b finish else freturn a) svc2 = (Inr a', svc')"
    by (auto simp: activate_batch_def Let_def fbind_Inr svc_get_def)
  have "\<exists>t. planned svc2 f = Some t \<and> t \<le> ?at"
  proof (cases ?go)
    case True
    with enq enqueue_bounds show ?thesis by simp
  next
    case False
    with enq show ?thesis by (auto simp: freturn_def planned_def split: option.splits)
  qed
  moreover have "planned svc' = planned svc2"
    using fin keeps_wheel_planned_eq [OF keeps_wheel_indicate] keeps_wheel_planned_eq [OF keeps_wheel_ops(3)]
    by (auto split: if_splits)
  ultimately show ?thesis by simp
qed

lemma evaluate_plans:
  assumes ev: "evaluate_flow_transform_rule env t a rule b svc = (Inr a', svc')"
    and s: "agg_state a = Some s" and trig: "fs_triggers s = primary # rest"
    and acc: "accumulate_triggers env (fs_triggers s) (0, False, False) = Inr (records, watermark, compacted)"
    and some: "records > 0 \<or> watermark \<or> compacted"
  shows "\<exists>t'. planned svc' (fs_flow_id s) = Some t'
    \<and> t' \<le> max b (max t (trigger_time primary + tr_max_batching_interval rule))"
proof -
  let ?deadline = "trigger_time primary + tr_max_batching_interval rule"
  let ?satisfied = "(records > 0 \<or> watermark) \<and> (records \<ge> tr_min_records_to_await rule \<or> t \<ge> ?deadline)"
  have primary: "primary_trigger s = (Inr primary :: (string, flow_trigger) res)" by (simp add: primary_trigger_def trig)
  have "flow_key_type (fs_flow_key s) \<in> {DatasetType ExecuteTransformFlow, DatasetType HardCompaction}"
  proof (rule ccontr)
    assume "\<not> ?thesis"
    with ev s show False
      by (simp add: evaluate_flow_transform_rule_def fbind_def [of "svc_result _"] svc_result_def agg_into_state_def)
  qed
  then have "evaluate_flow_transform_rule env t a rule b svc =
      fbind (if is_batching (fs_start_condition s) then freturn a
             else fbind (svc_now env) (\<lambda>now.
                    svc_command (set_relevant_start_condition now (StartBatching rule ?deadline) a)))
        (activate_batch env (fs_flow_id s) (?satisfied \<or> compacted) (if ?satisfied \<or> compacted then t else ?deadline) b) svc"
    using some by (simp add: evaluate_flow_transform_rule_def fbind_def [of "svc_result _"] svc_result_def
        agg_into_state_def s acc primary disj_assoc Let_def del: insert_iff accumulate_triggers.simps)
  with ev obtain a1 svc1 where "activate_batch env (fs_flow_id s) (?satisfied \<or> compacted)
      (if ?satisfied \<or> compacted then t else ?deadline) b a1 svc1 = (Inr a', svc')"
    by (auto simp only: fbind_Inr)
  from activate_batch_bounds [OF this] show ?thesis by (auto simp: max_def split: if_splits)
qed

section \<open>Pages over several datasets\<close>

definition in_datasets :: "flow_store \<Rightarrow> dataset_id set \<Rightarrow> dataset_flow_filters \<Rightarrow> flow_id \<Rightarrow> bool" where
  "in_datasets st ds flt f \<longleftrightarrow>
     (\<exists>k. fst_key_by_flow_id st f = Some (DatasetKey k) \<and> fkd_dataset_id k \<in> ds) \<and> matches_dataset_flow st f flt"

lemma by_datasets_loop_eq:
  assumes "\<forall>f \<in> set fids. fst_key_by_flow_id st f \<noteq> None"
  shows "by_datasets_loop st ds flt offset limit fids result count =
    Inr (result @ take (limit - length result) (drop (offset - count) (filter (in_datasets st ds flt) fids)))"
  using assms
proof (induction fids arbitrary: result count)
  case (Cons f fids)
  from Cons.prems obtain key where key: "fst_key_by_flow_id st f = Some key" by auto
  show ?case
  proof (cases key)
    case (DatasetKey k)
    show ?thesis
    proof (cases "fkd_dataset_id k \<in> ds \<and> matches_dataset_flow st f flt \<and> \<not> limit \<le> length result")
      case True
      then have "in_datasets st ds flt f" by (simp add: in_datasets_def key DatasetKey)
      moreover from True obtain l where "limit - length result = Suc l" "l = limit - Suc (length result)"
        by (metis Suc_diff_Suc not_le_imp_less)
      moreover have "offset - Suc count = offset - count - 1" by simp
      ultimately show ?thesis
        using Cons True by (cases "offset - count") (auto simp: key DatasetKey simp del: diff_Suc_1)
    next
      case False
      with Cons show ?thesis by (auto simp: key DatasetKey in_datasets_def)
    qed
  next
    case (SystemKey ty)
    with Cons show ?thesis by (auto simp: key in_datasets_def)
  qed
qed simp

lemma by_datasets_exact:
  assumes "flow_store_inv st"
  shows "get_all_flow_ids_by_datasets st ds flt offset limit =
    Inr (take limit (drop offset (filter (in_datasets st ds flt) (rev (fst_all_flows st)))))"
proof -
  have "fst_key_by_flow_id st f \<noteq> None" if "f \<in> set (fst_all_flows st)" for f
  proof -
    have log: "log_ok (fst_events st)" and ix: "index_ok (fst_events st) st" using assms by (simp_all add: flow_store_inv_def)
    from that ix have "map_of (initiated (fst_events st)) f \<noteq> None" by (simp add: index_ok_def map_of_eq_None_iff)
    with log_okD(2) [OF log] ix show ?thesis by (simp add: index_ok_def)
  qed
  then show ?thesis by (simp add: get_all_flow_ids_by_datasets_def by_datasets_loop_eq)
qed

end
