(* ===== verification/Flow_Claims.thy ===== *)
theory Flow_Claims
  imports Flow_Progress
begin

text \<open>
  Properties of the flow system: of its time wheel, of the flow store as a refinement of the
  event log, of triggering, planning and scheduling, and of two situations in which a flow key
  is blocked. The samples that the witnesses use are runs of the model from an empty service.
\<close>

section \<open>Pending flows that cannot take a trigger\<close>

lemma svc_command_fails:
  "fst ra = Inl (Fail err) \<Longrightarrow> svc_command ra = (\<lambda>svc. (Inl (Fail ''internal error''), svc))"
  by (cases ra) (simp add: svc_command_def fun_eq_iff int_err_def)

lemma merge_dead:
  assumes ok: "svc_ok svc" and pending: "try_get_pending_flow (fsv_pending_flows svc) key = Some f"
    and dead: "case flow_at (fst_events (fsv_store svc)) f of
      Some s \<Rightarrow> fs_outcome s \<noteq> None \<and> is_unique_vs trigger (fs_triggers s) | None \<Rightarrow> True"
  shows "\<exists>n. trigger_flow_common env key trigger ctx snap svc = (Inl (Fail ''internal error''), svc\<lparr>fsv_readings := n\<rparr>)"
proof (cases "flow_at (fst_events (fsv_store svc)) f")
  case None
  have "svc_load_flow f svc = (Inl (Fail ''internal error''), svc)"
    using flow_load_None [OF _ None] ok by (simp add: svc_load_flow_def svc_ok_def flow_store_inv_def int_err_def)
  then have "trigger_flow_common env key trigger ctx snap svc = (Inl (Fail ''internal error''), svc)"
    by (simp add: trigger_flow_common_eq pending Let_def merge_trigger_def fbind_def)
  moreover have "svc = svc\<lparr>fsv_readings := fsv_readings svc\<rparr>" by simp
  ultimately show ?thesis by metis
next
  case (Some s)
  with ok obtain a where a: "flow_load (fsv_store svc) f = Inr a" "agg_state a = Some s" "agg_query a = f"
    using flow_load_eq [of "fsv_store svc" f s] by (auto simp: svc_ok_def flow_store_inv_def)
  have "\<exists>err. fst (add_trigger_if_unique now trigger a) = Inl (Fail err)" for now
    using Some dead a(2) by (auto simp: add_trigger_if_unique_def with_state_def agg_into_state_def agg_apply_def Let_def)
  then have "svc_command (add_trigger_if_unique now trigger a) = (\<lambda>svc. (Inl (Fail ''internal error''), svc))" for now
    by (metis (no_types) svc_command_fails)
  then show ?thesis
    by (auto simp: trigger_flow_common_eq pending Let_def merge_trigger_def fbind_def svc_load_flow_def a(1) svc_now_def)
qed

lemma merge_unplanned:
  assumes ok: "svc_ok svc" and pending: "try_get_pending_flow (fsv_pending_flows svc) key = Some f"
    and s: "flow_at (fst_events (fsv_store svc)) f = Some s" "fs_outcome s = None"
    and unplanned: "planned svc f = None" and nobatch: "\<forall>rule. ctx \<noteq> Batching rule"
  shows "\<exists>n. trigger_flow_common env key trigger ctx snap svc =
    (Inl (Panic ''Flow expected to have activation time by now''), svc\<lparr>fsv_readings := n\<rparr>)"
proof -
  from ok s obtain a where a: "flow_load (fsv_store svc) f = Inr a" "agg_state a = Some s"
    using flow_load_eq [of "fsv_store svc" f s] by (auto simp: svc_ok_def flow_store_inv_def)
  have id: "fs_flow_id s = f" using ok s log_okD(3) by (auto simp: svc_ok_def flow_store_inv_def)
  have "\<exists>a' s' r. add_trigger_if_unique now trigger a = (Inr r, a') \<and> agg_state a' = Some s' \<and> fs_flow_id s' = f" for now
    using a(2) s(2) id by (auto simp: add_trigger_if_unique_def with_state_def agg_into_state_def agg_apply_def Let_def)
  then obtain a' s' r where "add_trigger_if_unique (env_clock env (fsv_readings svc)) trigger a = (Inr r, a')"
    "agg_state a' = Some s'" "fs_flow_id s' = f" by blast
  with unplanned nobatch show ?thesis
    by (cases ctx)
      (auto simp: trigger_flow_common_eq pending Let_def merge_trigger_def fbind_def svc_load_flow_def a(1) svc_now_def
        svc_command_def svc_result_def agg_into_state_def svc_get_def planned_def)
qed

section \<open>Samples\<close>

definition sample_root :: dataset_id where
  "sample_root = DatasetID [1]"

definition sample_derived :: dataset_id where
  "sample_derived = DatasetID [2]"

definition sample_rule :: transform_rule where
  "sample_rule = \<lparr>tr_min_records_to_await = 10, tr_max_batching_interval = 100\<rparr>"

definition ingest_key :: flow_key where
  "ingest_key = DatasetKey \<lparr>fkd_dataset_id = sample_root, fkd_flow_type = Ingest\<rparr>"

definition transform_key :: flow_key where
  "transform_key = DatasetKey \<lparr>fkd_dataset_id = sample_derived, fkd_flow_type = ExecuteTransformFlow\<rparr>"

text \<open>A derived dataset downstream of a root; the clock ticks with every reading.\<close>

definition sample_env :: flow_env where
  "sample_env = \<lparr>env_clock = (\<lambda>i. 1000 + int i), env_throttling_period = 10, env_round_time = Inr,
     env_cron_after = (\<lambda>_ _. None),
     env_increment_since = (\<lambda>_ _. Inr \<lparr>di_num_blocks = 1, di_num_records = 3, di_updated_watermark = None\<rparr>),
     env_downstream = (\<lambda>d. Inr (if d = sample_root then [sample_derived] else [])),
     env_owners = (\<lambda>_. Inr []), env_is_owned_by = (\<lambda>_ _. Inr False), env_owned_datasets = (\<lambda>_. Inr [])\<rparr>"

definition sample_account :: account_id where
  "sample_account = AccountID [7]"

text \<open>The transformation of the derived dataset is enabled, and its first flow has run.\<close>

definition sample_enabled :: flow_service where
  "sample_enabled = serve_all sample_env
     [ReqStart [] 5,
      ReqConfigUpdated \<lparr>cum_event_time = 6, cum_flow_key = transform_key, cum_paused = False, cum_rule = RuleTransform sample_rule\<rparr>,
      ReqRound, ReqTaskProgress (ProgressRunning 20 0),
      ReqTaskProgress (ProgressFinished 21 0 (TaskSuccess TaskResultEmpty))] empty_service"

text \<open>Then the root is ingested on request, with the given result.\<close>

definition sample_ingested :: "pull_result \<Rightarrow> flow_service" where
  "sample_ingested result = serve_all sample_env
     [ReqTrigger 22 ingest_key sample_account None, ReqRound, ReqTaskProgress (ProgressRunning 30 1),
      ReqTaskProgress (ProgressFinished 31 1 (TaskSuccess (UpdateDatasetResult result)))] sample_enabled"

definition sample_up_to_date :: flow_service where
  "sample_up_to_date = sample_ingested (PullUpToDate (UpToDatePollingIngest False))"

definition sample_triggered :: flow_service where
  "sample_triggered = serve_all sample_env [ReqStart [] 5, ReqTrigger 22 ingest_key sample_account None] empty_service"

definition sample_cancelled :: flow_service where
  "sample_cancelled = snd (serve sample_env (ReqCancel 0) sample_triggered)"

lemmas sample_defs = sample_root_def sample_derived_def sample_rule_def ingest_key_def transform_key_def sample_env_def
  sample_account_def sample_enabled_def sample_ingested_def sample_up_to_date_def sample_triggered_def sample_cancelled_def

text \<open>The definitions by which \<open>simp\<close> runs the service on a sample.\<close>

lemmas flow_eval = fbind_def freturn_def empty_configs_def add_dataset_flow_config_def add_system_flow_config_def
  drop_dataset_flow_config_def drop_dataset_configs_def try_get_dataset_transform_rule_def empty_pending_def
  track_flow_task_def drop_dataset_pending_flow_def untrack_flow_by_task_def try_get_flow_id_by_task_def
  empty_service_def svc_now_def svc_result_def svc_get_def svc_configs_def svc_wheel_def svc_pending_def int_err_def
  svc_load_flow_def svc_save_flow_def svc_command_def svc_post_def svc_create_task_def svc_cancel_task_def
  svc_flow_run_stats_def indicate_throttling_activity_def enqueue_flow_def activate_batch_def
  evaluate_flow_transform_rule_def make_new_flow_def throttling_boundary_time_def merge_trigger_def plan_new_flow_def
  initiate_flow_def trigger_flow_common_def trigger_manual_flow_def enqueue_scheduled_auto_polling_flow_def
  enqueue_auto_polling_flow_unconditionally_def try_enqueue_scheduled_auto_polling_flow_if_enabled_def
  activate_flow_configuration_def initialize_auto_polling_flows_from_configurations_def make_task_logical_plan_def
  schedule_flow_task_def run_current_timeslot_def abort_flow_impl_def abort_flow_def cancel_scheduled_tasks_def
  classify_dependent_trigger_type_def make_downstream_dependencies_flow_plans_def enqueue_dependent_flows_def
  svc_running_def service_start_def main_loop_round_def when_running_def on_progress_running_def finish_followup_def
  on_progress_finished_def svc_cancel_activation_def svc_drop_pending_def consume_config_updated_def
  abort_deleted_def default_run_stats_def run_stats_merge_def empty_flow_store_def new_flow_id_def
  index_initiated_def index_run_stats_def update_index_def flow_store_get_events_def flow_store_save_events_def
  get_dataset_flow_run_stats_def get_system_flow_run_stats_def flow_load_def flow_save_def all_dataset_flow_types_def
  next_activation_time_def primary_trigger_def flow_status_of_def try_result_def flow_matches_def flow_new_def
  set_relevant_start_condition_def add_trigger_if_unique_def on_task_scheduled_def on_task_running_def
  on_task_finished_def flow_abort_def empty_wheel_def nearest_activation_moment_def is_planned_at_def
  clean_top_cancellations_def take_nearest_planned_flows_def plan_flow_def unplan_flow_def activate_at_def
  get_planned_flow_activation_time_def cancel_flow_activation_def all_events_def event_bound_def inmem_get_events_def
  inmem_save_events_def agg_new_def agg_from_stored_event_def agg_into_state_def agg_apply_def agg_apply_stored_def
  agg_load_def agg_save_def task_matches_def with_state_def task_new_def task_can_cancel_def task_cancel_def
  empty_task_store_def wrap_i64_def new_task_id_def update_index_by_dataset_def task_store_get_events_def
  task_store_save_events_def task_load_def task_save_def empty_scheduler_def internal_fault_def save_command_def
  create_task_def cancel_task_def svc_drop_result_def get_events_loop_eq enumerate_eq_zip flow_proj_def task_proj_def
  Let_def

lemma empty_reachable: "svc_reachable empty_service"
  using reach_init [of empty_scheduler] by (simp add: empty_service_def)

lemma samples_reachable:
  "svc_reachable sample_enabled" "svc_reachable (sample_ingested result)" "svc_reachable sample_up_to_date"
  "svc_reachable sample_triggered" "svc_reachable sample_cancelled"
  unfolding sample_cancelled_def sample_up_to_date_def sample_ingested_def sample_enabled_def sample_triggered_def
  by (intro reach_serve serve_all_reachable empty_reachable)+

section \<open>The store refines the log\<close>

text \<open>
  C13. In every state that a flow service reaches by serving requests in any order, failing ones
  included, the index of the flow store is a function of its event log: the search entry and the
  key of a flow are those of the state that the events of the flow project to, the three lists
  of flows are the flows initiated for a dataset, for the system and overall in log order, and
  the run statistics of a key are the times of the last finished and of the last successful task
  of its flows.
\<close>

theorem flow_index_refines_log:
  assumes "svc_reachable svc" and "fsv_readings svc < 2 ^ 64"
  shows "index_ok (fst_events (fsv_store svc)) (fsv_store svc)"
  using reachable_ok [OF assms] by (simp add: svc_ok_def flow_store_inv_def)

theorem flow_index_refines_log_witness:
  "index_ok (fst_events (fsv_store sample_up_to_date)) (fsv_store sample_up_to_date)
   \<and> length (fst_events (fsv_store sample_up_to_date)) = 12"
proof
  have n: "fsv_readings sample_up_to_date = 8" by (simp add: flow_eval sample_defs)
  show "index_ok (fst_events (fsv_store sample_up_to_date)) (fsv_store sample_up_to_date)"
    by (rule flow_index_refines_log) (simp_all add: samples_reachable n)
  show "length (fst_events (fsv_store sample_up_to_date)) = 12" by (simp add: flow_eval sample_defs)
qed

text \<open>
  C14. In every state that a flow service reaches, a flow that is pending under a key is of that
  key and of no other, and a task that is tracked for a flow is among the tasks of that flow, which
  the log knows.
\<close>

theorem pending_and_tracked_consistent:
  assumes "svc_reachable svc" and "fsv_readings svc < 2 ^ 64"
  shows "(try_get_pending_flow (fsv_pending_flows svc) key = Some f \<longrightarrow>
       (\<forall>s. flow_at (fst_events (fsv_store svc)) f = Some s \<longrightarrow> fs_flow_key s = key)
       \<and> (\<forall>key'. try_get_pending_flow (fsv_pending_flows svc) key' = Some f \<longrightarrow> key' = key))
     \<and> (try_get_flow_id_by_task (fsv_pending_flows svc) tid = Some g \<longrightarrow>
       (\<exists>s. flow_at (fst_events (fsv_store svc)) g = Some s \<and> tid \<in> set (fs_task_ids s)))"
  using reachable_ok [OF assms] by (simp add: svc_ok_def pending_ok_def tracked_ok_def try_get_flow_id_by_task_def)

definition sample_running :: flow_service where
  "sample_running = serve_all sample_env [ReqRound, ReqTaskProgress (ProgressRunning 30 0)] sample_triggered"

lemma sample_running_facts:
  "svc_reachable sample_running" "fsv_readings sample_running = 3"
  "try_get_pending_flow (fsv_pending_flows sample_running) ingest_key = Some 0"
  "try_get_flow_id_by_task (fsv_pending_flows sample_running) 0 = Some 0"
proof -
  show "svc_reachable sample_running"
    unfolding sample_running_def by (intro serve_all_reachable samples_reachable)
  show "fsv_readings sample_running = 3" by (simp add: sample_running_def flow_eval sample_defs)
  show "try_get_pending_flow (fsv_pending_flows sample_running) ingest_key = Some 0"
    "try_get_flow_id_by_task (fsv_pending_flows sample_running) 0 = Some 0"
    by (simp_all add: sample_running_def flow_eval sample_defs)
qed

theorem pending_and_tracked_consistent_witness:
  "\<exists>s. try_get_pending_flow (fsv_pending_flows sample_running) ingest_key = Some 0
     \<and> flow_at (fst_events (fsv_store sample_running)) 0 = Some s \<and> fs_flow_key s = ingest_key \<and> 0 \<in> set (fs_task_ids s)"
  using pending_and_tracked_consistent [OF sample_running_facts(1), of ingest_key 0 0 0] sample_running_facts by auto

section \<open>Triggers\<close>

text \<open>
  C15. A trigger that succeeds serves exactly one flow, of the key it was for: the one that is
  pending for the key, or, when there is none, a flow with an identifier no other flow has, which
  becomes the pending one. No other flow changes, and the state returned is the one that the
  saved events project to.
\<close>

theorem trigger_serves_one_flow:
  assumes "svc_reachable svc" and "trigger_flow_common env key trigger ctx snap svc = (Inr s, svc')"
    and "fsv_readings svc' < 2 ^ 64"
  shows "fs_flow_key s = key
    \<and> flow_at (fst_events (fsv_store svc')) = (flow_at (fst_events (fsv_store svc)))(fs_flow_id s \<mapsto> s)
    \<and> try_get_pending_flow (fsv_pending_flows svc') = (try_get_pending_flow (fsv_pending_flows svc))(key \<mapsto> fs_flow_id s)
    \<and> (case try_get_pending_flow (fsv_pending_flows svc) key of
         Some f \<Rightarrow> fs_flow_id s = f \<and> flow_at (fst_events (fsv_store svc)) f \<noteq> None
       | None \<Rightarrow> flow_at (fst_events (fsv_store svc)) (fs_flow_id s) = None)"
  using trigger_serves [OF reachable_inv [OF assms(1)] assms(2,3)] by blast

theorem trigger_serves_one_flow_witness:
  "\<exists>s svc'. trigger_flow_common sample_env ingest_key (TriggerManual 40 sample_account) Unconditional None sample_triggered = (Inr s, svc')
    \<and> fs_flow_id s = 0 \<and> fs_flow_key s = ingest_key
    \<and> flow_at (fst_events (fsv_store svc')) = (flow_at (fst_events (fsv_store sample_triggered)))(0 \<mapsto> s)"
proof -
  have "\<exists>s svc'. trigger_flow_common sample_env ingest_key (TriggerManual 40 sample_account) Unconditional None sample_triggered
      = (Inr s, svc') \<and> fsv_readings svc' = 2 \<and> fs_flow_id s = 0"
    by (simp add: flow_eval sample_defs)
  then obtain s svc' where
    t: "trigger_flow_common sample_env ingest_key (TriggerManual 40 sample_account) Unconditional None sample_triggered = (Inr s, svc')"
      "fsv_readings svc' = 2" "fs_flow_id s = 0" by blast
  from trigger_serves_one_flow [OF samples_reachable(4) t(1)] t show ?thesis by auto
qed

text \<open>
  C16. Whatever a trigger does, and also when it fails, a flow is planned anew only for a time
  that is not before the trigger and leaves at least the mandatory throttling period since the
  last attempt to run a flow of the key.
\<close>

theorem trigger_respects_throttling:
  assumes "planned (snd (trigger_flow_common env key trigger ctx snap svc)) f = Some t"
  shows "planned svc f = Some t
    \<or> trigger_time trigger \<le> t
      \<and> (\<forall>t0. last_attempt_time (svc_flow_run_stats key svc) = Some t0 \<longrightarrow> t0 + env_throttling_period env \<le> t)"
proof -
  let ?b = "throttling_boundary_time env (svc_flow_run_stats key svc) (trigger_time trigger)"
  have "trigger_time trigger \<le> ?b"
    "\<forall>t0. last_attempt_time (svc_flow_run_stats key svc) = Some t0 \<longrightarrow> t0 + env_throttling_period env \<le> ?b"
    by (auto simp: throttling_boundary_time_def Let_def)
  moreover have "planned svc f = Some t \<or> ?b \<le> t"
    using trigger_delays [of svc env key trigger ctx snap, unfolded delays_def, rule_format, of f] assms by auto
  ultimately show ?thesis by auto
qed

theorem trigger_respects_throttling_witness:
  "planned (snd (trigger_flow_common sample_env transform_key (TriggerManual 25 sample_account) Unconditional None sample_enabled)) 1 = Some 31
   \<and> last_attempt_time (svc_flow_run_stats transform_key sample_enabled) = Some 21 \<and> (25::int) \<le> 31 \<and> (21::int) + 10 \<le> 31"
proof -
  have p: "planned (snd (trigger_flow_common sample_env transform_key (TriggerManual 25 sample_account) Unconditional None sample_enabled)) 1 = Some 31"
    by (simp add: planned_def flow_eval sample_defs)
  have "planned sample_enabled 1 = None" by (simp add: planned_def flow_eval sample_defs)
  moreover have l: "last_attempt_time (svc_flow_run_stats transform_key sample_enabled) = Some 21"
    by (simp add: flow_eval sample_defs)
  moreover have "env_throttling_period sample_env = 10" by (simp add: sample_env_def)
  ultimately show ?thesis using trigger_respects_throttling [OF p] p by simp
qed

text \<open>
  C36. A trigger that is not of a batching rule panics when the flow pending for its key has no
  planned activation, which happens to a batching flow whose inputs so far brought nothing
  to process: \<open>expect(''Flow expected to have activation time by now'')\<close>. The witness is a run
  of the service: an ingest that is up to date leaves the flow of the derived dataset pending
  without an activation, and a manual trigger of it then panics.
\<close>

theorem unplanned_pending_flow_panics:
  assumes "svc_reachable svc" and "fsv_readings svc < 2 ^ 64"
    and "try_get_pending_flow (fsv_pending_flows svc) key = Some f"
    and "flow_at (fst_events (fsv_store svc)) f = Some s" and "fs_outcome s = None"
    and "planned svc f = None" and "\<forall>rule. ctx \<noteq> Batching rule"
  shows "\<exists>n. trigger_flow_common env key trigger ctx snap svc =
    (Inl (Panic ''Flow expected to have activation time by now''), svc\<lparr>fsv_readings := n\<rparr>)"
  by (rule merge_unplanned [OF reachable_ok [OF assms(1,2)] assms(3-7)])

theorem unplanned_pending_flow_panics_witness:
  "\<exists>n. trigger_flow_common sample_env transform_key (TriggerManual 50 sample_account) Unconditional None sample_up_to_date =
    (Inl (Panic ''Flow expected to have activation time by now''), sample_up_to_date\<lparr>fsv_readings := n\<rparr>)"
proof -
  have n: "fsv_readings sample_up_to_date = 8" by (simp add: flow_eval sample_defs)
  have p: "try_get_pending_flow (fsv_pending_flows sample_up_to_date) transform_key = Some 2"
    by (simp add: flow_eval sample_defs)
  have u: "planned sample_up_to_date 2 = None" by (simp add: planned_def flow_eval sample_defs)
  have "\<exists>s. flow_at (fst_events (fsv_store sample_up_to_date)) 2 = Some s \<and> fs_outcome s = None"
    by (simp add: flow_at_def log_view_def flow_eval sample_defs)
  then obtain s where s: "flow_at (fst_events (fsv_store sample_up_to_date)) 2 = Some s" "fs_outcome s = None" by blast
  show ?thesis
    by (rule unplanned_pending_flow_panics [OF samples_reachable(3) _ p s u]) (simp_all add: n)
qed

text \<open>
  C37. A key stays blocked when the flow pending for it was never stored or is finished: every
  trigger of the key that the flow does not know yet fails with an internal error and leaves
  the flow pending. Cancelling a flow before it ran leads there, since it finishes the flow but
  does not remove it from the pending flows.
\<close>

theorem dead_pending_flow_blocks_key:
  assumes "svc_reachable svc" and "fsv_readings svc < 2 ^ 64"
    and "try_get_pending_flow (fsv_pending_flows svc) key = Some f"
    and "case flow_at (fst_events (fsv_store svc)) f of
      Some s \<Rightarrow> flow_status_of s = FlowFinished \<and> is_unique_vs trigger (fs_triggers s) | None \<Rightarrow> True"
  shows "\<exists>n. trigger_flow_common env key trigger ctx snap svc = (Inl (Fail ''internal error''), svc\<lparr>fsv_readings := n\<rparr>)"
proof (rule merge_dead [OF reachable_ok [OF assms(1,2)] assms(3)])
  show "case flow_at (fst_events (fsv_store svc)) f of
      Some s \<Rightarrow> fs_outcome s \<noteq> None \<and> is_unique_vs trigger (fs_triggers s) | None \<Rightarrow> True"
    using assms(4) by (auto simp: flow_status_of_def split: option.splits if_splits)
qed

theorem dead_pending_flow_blocks_key_witness:
  "fst (serve sample_env (ReqCancel 0) sample_triggered) = Inr ()
   \<and> (\<exists>n. trigger_flow_common sample_env ingest_key (TriggerManual 99 sample_account) Unconditional None sample_cancelled =
        (Inl (Fail ''internal error''), sample_cancelled\<lparr>fsv_readings := n\<rparr>))"
proof
  show "fst (serve sample_env (ReqCancel 0) sample_triggered) = Inr ()" by (simp add: flow_eval sample_defs)
  have n: "fsv_readings sample_cancelled = 2" by (simp add: flow_eval sample_defs)
  have p: "try_get_pending_flow (fsv_pending_flows sample_cancelled) ingest_key = Some 0"
    by (simp add: flow_eval sample_defs)
  have "case flow_at (fst_events (fsv_store sample_cancelled)) 0 of
      Some s \<Rightarrow> flow_status_of s = FlowFinished \<and> is_unique_vs (TriggerManual 99 sample_account) (fs_triggers s) | None \<Rightarrow> True"
    by (simp add: flow_at_def log_view_def flow_eval sample_defs)
  from dead_pending_flow_blocks_key [OF samples_reachable(5) _ p this] n
  show "\<exists>n. trigger_flow_common sample_env ingest_key (TriggerManual 99 sample_account) Unconditional None sample_cancelled =
      (Inl (Fail ''internal error''), sample_cancelled\<lparr>fsv_readings := n\<rparr>)" by simp
qed

section \<open>Planning and scheduling\<close>

text \<open>
  C35. A batching rule is accepted only with a positive number of records and a positive interval
  of at most 24 hours; and evaluating an accepted rule for a flow whose inputs brought records, a
  watermark or a compaction leaves the flow planned, at most 24 hours after its first trigger
  unless the evaluation itself or the throttling boundary is later.
\<close>

theorem batching_wait_bounded:
  assumes "transform_rule_new_checked min_records interval = Inr rule"
    and "evaluate_flow_transform_rule env t a rule boundary svc = (Inr a', svc')"
    and "agg_state a = Some s" and "fs_triggers s = primary # rest"
    and "accumulate_triggers env (fs_triggers s) (0, False, False) = Inr (records, watermark, compacted)"
    and "records > 0 \<or> watermark \<or> compacted"
  shows "0 < min_records \<and> 0 < interval \<and> interval \<le> hours 24
    \<and> (\<exists>t'. planned svc' (fs_flow_id s) = Some t' \<and> t' \<le> max boundary (max t (trigger_time primary + hours 24)))"
proof -
  have rule: "0 < min_records" "0 < interval" "interval \<le> hours 24" "tr_max_batching_interval rule = interval"
    using assms(1)
    by (auto simp: transform_rule_new_checked_def MAX_BATCHING_INTERVAL_HOURS_def word_neq_0_conv split: if_splits)
  with evaluate_plans [OF assms(2-6)] show ?thesis by fastforce
qed

definition sample_changed :: flow_trigger where
  "sample_changed = TriggerInputDatasetFlow 60 sample_root Ingest 1 (FlowDatasetUpdate (UpdateChanged None \<lparr>mh_buf = [1], mh_len = 1, mh_code = Sha3_256\<rparr>))"

definition sample_flow :: flow where
  "sample_flow = \<lparr>agg_query = 5,
     agg_state = Some \<lparr>fs_flow_id = 5, fs_flow_key = transform_key, fs_triggers = [sample_changed], fs_start_condition = None,
       fs_timing = \<lparr>awaiting_executor_since = None, running_since = None, flow_finished_at = None\<rparr>,
       fs_task_ids = [], fs_outcome = None, fs_config_snapshot = None\<rparr>,
     agg_pending_events = [], agg_last_stored_event = Some 0\<rparr>"

theorem batching_wait_bounded_witness:
  "\<exists>a' svc'. evaluate_flow_transform_rule sample_env 60 sample_flow sample_rule 40 sample_enabled = (Inr a', svc')
    \<and> (\<exists>t'. planned svc' 5 = Some t' \<and> t' \<le> max 40 (max 60 (60 + hours 24)))"
proof -
  have rule: "transform_rule_new_checked 10 100 = Inr sample_rule"
    by (simp add: transform_rule_new_checked_def sample_rule_def hours_def MAX_BATCHING_INTERVAL_HOURS_def)
  obtain s where s: "agg_state sample_flow = Some s" "fs_triggers s = [sample_changed]" "fs_flow_id s = 5"
    by (simp add: sample_flow_def)
  have acc: "accumulate_triggers sample_env [sample_changed] (0, False, False) = Inr (3, False, False)"
    by (simp add: sample_changed_def sample_env_def)
  have "\<exists>a' svc'. evaluate_flow_transform_rule sample_env 60 sample_flow sample_rule 40 sample_enabled = (Inr a', svc')"
    by (simp add: flow_eval sample_flow_def sample_changed_def sample_defs)
  then obtain a' svc' where ev: "evaluate_flow_transform_rule sample_env 60 sample_flow sample_rule 40 sample_enabled = (Inr a', svc')"
    by blast
  from batching_wait_bounded [OF rule ev s(1,2), unfolded s(2), OF acc] ev s(3) show ?thesis
    by (simp add: sample_changed_def hours_def)
qed

text \<open>
  C17. The main loop catches up: from a reachable state whose time wheel has \<open>n\<close> records, after
  \<open>n\<close> or more rounds at times not before \<open>now\<close> every flow still waiting is due after \<open>now\<close>,
  at the time it was waiting for before, even if scheduling some of the flows failed.
\<close>

theorem main_loop_catches_up:
  assumes "svc_reachable svc" and "fsv_readings svc < 2 ^ 64" and "\<forall>i. now \<le> env_clock env i"
    and "length (tw_flow_heap (fsv_time_wheel svc)) \<le> n"
    and "waiting (fsv_time_wheel (serve_all env (replicate n ReqRound) svc)) f = Some t"
  shows "now < t \<and> waiting (fsv_time_wheel svc) f = Some t"
proof -
  have "wheel_inv (fsv_time_wheel svc)" using reachable_ok [OF assms(1,2)] by (simp add: svc_ok_def)
  from rounds_catch_up [OF this assms(3-5)] show ?thesis .
qed

definition sample_two_flows :: flow_service where
  "sample_two_flows = serve_all sample_env
     [ReqTrigger 30 (SystemKey GC) sample_account None, ReqTrigger 5000 transform_key sample_account None] sample_triggered"

theorem main_loop_catches_up_witness:
  "waiting (fsv_time_wheel (serve_all sample_env (replicate 3 ReqRound) sample_two_flows)) 2 = Some 5000 \<and> (1000::int) < 5000
   \<and> waiting (fsv_time_wheel sample_two_flows) 0 = Some 22"
proof -
  have r: "svc_reachable sample_two_flows"
    unfolding sample_two_flows_def by (intro serve_all_reachable samples_reachable)
  have n: "fsv_readings sample_two_flows = 3" "length (tw_flow_heap (fsv_time_wheel sample_two_flows)) = 3"
    by (simp_all add: sample_two_flows_def flow_eval sample_defs)
  have w: "waiting (fsv_time_wheel (serve_all sample_env (replicate 3 ReqRound) sample_two_flows)) 2 = Some 5000"
    by (simp add: waiting_def numeral_3_eq_3 sample_two_flows_def flow_eval sample_defs)
  have "waiting (fsv_time_wheel sample_two_flows) 0 = Some 22"
    by (simp add: waiting_def sample_two_flows_def flow_eval sample_defs)
  moreover from main_loop_catches_up [OF r _ _ _ w, of 1000] n have "(1000::int) < 5000" by (simp add: sample_env_def)
  ultimately show ?thesis using w by simp
qed

section \<open>The time wheel\<close>

text \<open>
  Taking from a time wheel that was used as the service uses it yields every flow that is
  planned for the nearest moment exactly once, in the order of their identifiers, and nothing
  else; the other flows stay planned as they were, and the next moment is strictly later.
\<close>

theorem wheel_takes_nearest:
  assumes "wheel_reachable w" and "nearest_activation_moment w = Some m"
  shows "fst (take_nearest_planned_flows w) = sorted_list_of_set {f. waiting w f = Some m}
    \<and> waiting (snd (take_nearest_planned_flows w)) = (\<lambda>f. if waiting w f = Some m then None else waiting w f)
    \<and> (\<forall>f t. waiting w f = Some t \<longrightarrow> m \<le> t)
    \<and> (\<forall>m'. nearest_activation_moment (snd (take_nearest_planned_flows w)) = Some m' \<longrightarrow> m < m')"
proof -
  have inv: "wheel_inv w" "records_once w" using reachable_wheel [OF assms(1)] by simp_all
  show ?thesis
    using take_waiting [OF inv(1) assms(2)] due_now_once [OF inv, of m] nearest_waiting(3) [OF inv(1) assms(2)]
      wheel_queue.next_slot_later [OF inv(1) assms(2)]
    by simp
qed

definition sample_wheel :: time_wheel where
  "sample_wheel = snd (cancel_flow_activation 3 (activate_at 20 4 (activate_at 10 3 (activate_at 10 2 (activate_at 10 1 empty_wheel)))))"

theorem wheel_takes_nearest_witness:
  "fst (take_nearest_planned_flows sample_wheel) = sorted_list_of_set {f. waiting sample_wheel f = Some 10}
   \<and> fst (take_nearest_planned_flows sample_wheel) = [1, 2]
   \<and> waiting (snd (take_nearest_planned_flows sample_wheel)) 4 = Some 20"
proof -
  note wheel_eval = sample_wheel_def activate_at_def plan_flow_def unplan_flow_def clean_top_cancellations_def empty_wheel_def
    cancel_flow_activation_def is_planned_at_def nearest_activation_moment_def take_nearest_planned_flows_def waiting_def Let_def
  have "wheel_reachable sample_wheel"
    unfolding sample_wheel_def
    by (intro wheel_cancel wheel_activate wheel_init)
      (auto simp: activate_at_def plan_flow_def empty_wheel_def)
  moreover have m: "nearest_activation_moment sample_wheel = Some 10" by (simp add: wheel_eval)
  ultimately have "fst (take_nearest_planned_flows sample_wheel) = sorted_list_of_set {f. waiting sample_wheel f = Some 10}"
    using wheel_takes_nearest by simp
  moreover have "fst (take_nearest_planned_flows sample_wheel) = [1, 2]" by (simp add: wheel_eval word_le_nat_alt)
  moreover have "waiting (snd (take_nearest_planned_flows sample_wheel)) 4 = Some 20" by (simp add: wheel_eval word_le_nat_alt)
  ultimately show ?thesis by simp
qed

section \<open>Listings\<close>

text \<open>
  The page of flows over several datasets that the store collects in one pass with an early
  exit is the requested page of the list of all matching flows of these datasets, newest first,
  for every reachable store; the pass never meets a flow without a key.
\<close>

theorem flows_by_datasets_page:
  assumes "svc_reachable svc" and "fsv_readings svc < 2 ^ 64"
  shows "get_all_flow_ids_by_datasets (fsv_store svc) ds flt offset limit =
    Inr (take limit (drop offset (filter
      (\<lambda>f. (\<exists>k. fst_key_by_flow_id (fsv_store svc) f = Some (DatasetKey k) \<and> fkd_dataset_id k \<in> ds)
            \<and> matches_dataset_flow (fsv_store svc) f flt)
      (rev (fst_all_flows (fsv_store svc))))))"
  using by_datasets_exact [of "fsv_store svc" ds flt offset limit] reachable_ok [OF assms]
  by (simp add: svc_ok_def in_datasets_def [abs_def])

theorem flows_by_datasets_page_witness:
  "get_all_flow_ids_by_datasets (fsv_store sample_up_to_date) {sample_derived} no_dataset_filters 1 5 = Inr [0]
   \<and> take 5 (drop 1 (filter
      (\<lambda>f. (\<exists>k. fst_key_by_flow_id (fsv_store sample_up_to_date) f = Some (DatasetKey k) \<and> fkd_dataset_id k \<in> {sample_derived})
            \<and> matches_dataset_flow (fsv_store sample_up_to_date) f no_dataset_filters)
      (rev (fst_all_flows (fsv_store sample_up_to_date))))) = [0]"
proof -
  have n: "fsv_readings sample_up_to_date = 8" by (simp add: flow_eval sample_defs)
  have "get_all_flow_ids_by_datasets (fsv_store sample_up_to_date) {sample_derived} no_dataset_filters 1 5 = Inr [0]"
    by (simp add: get_all_flow_ids_by_datasets_def matches_dataset_flow_def matches_dataset_flow_filters_def
        dataset_flow_type_matches_def flow_status_matches_def initiator_matches_def no_dataset_filters_def flow_eval sample_defs)
  with flows_by_datasets_page [OF samples_reachable(3), of "{sample_derived}" no_dataset_filters 1 5] n show ?thesis by simp
qed

end
