(* ===== verification/Outbox.thy ===== *)
theory Outbox
  imports Prelude "HOL-Library.AList"
begin

text \<open>
  The messaging outbox (\<open>utils/messaging-outbox\<close>) with the in-memory repositories
  (\<open>infra/messaging-outbox/inmem\<close>): messages, consumption boundaries, routes from producers to
  consumers, the three outboxes, and the processor that relays stored messages to durable consumers.

  \<^item> The dependency injection catalog is the list of registered consumers with their metadata; the
    consumers, parsing of JSON and the state that consumers work on are the parameter \<open>outbox_env\<close>
    and the type variable of its world.
  \<^item> A message type is its name; a JSON value is its text.
  \<^item> A hash map is an association list; its iteration order is unspecified in the source, and the step
    relation of \<open>Outbox_Relay\<close> allows every order of the work that depends on it.
  \<^item> The in-memory repositories run under the no-op transaction manager, for which a transaction is
    its callback and a rollback undoes nothing.
\<close>

section \<open>Entities\<close>

type_synonym outbox_message_id = int

record outbox_message =
  om_message_id :: outbox_message_id
  om_producer_name :: string
  om_content_json :: string
  om_occurred_on :: datetime

record new_outbox_message =
  nom_producer_name :: string
  nom_content_json :: string
  nom_occurred_on :: datetime

record consumption_boundary =
  cb_producer_name :: string
  cb_consumer_name :: string
  cb_last_consumed_message_id :: outbox_message_id

datatype create_boundary_error = DuplicateConsumptionBoundary string string | CreateBoundaryInternal string

datatype update_boundary_error = ConsumptionBoundaryNotFound string string | UpdateBoundaryInternal string

definition quoted :: "string \<Rightarrow> string" where
  "quoted s = CHR 0x27 # s @ [CHR 0x27]"

fun display_create_error :: "create_boundary_error \<Rightarrow> string" where
  "display_create_error (DuplicateConsumptionBoundary c p) =
     ''A boundary for consumer '' @ quoted c @ '' and producer '' @ quoted p @ '' is already registered''"
| "display_create_error (CreateBoundaryInternal e) = e"

fun display_update_error :: "update_boundary_error \<Rightarrow> string" where
  "display_update_error (ConsumptionBoundaryNotFound c p) =
     ''A boundary for consumer '' @ quoted c @ '' and producer '' @ quoted p @ '' is not registered''"
| "display_update_error (UpdateBoundaryInternal e) = e"

section \<open>Message repository (inmem_outbox_message_repository.rs)\<close>

text \<open>The \<open>BTreeMap\<close> of messages is an association list in the order of its keys.\<close>

record message_repo =
  mr_last_message_id :: "outbox_message_id option"
  mr_messages :: "(outbox_message_id \<times> outbox_message) list"
  mr_latest_by_producer :: "(string \<times> outbox_message_id) list"

definition empty_message_repo :: message_repo where
  "empty_message_repo = \<lparr>mr_last_message_id = None, mr_messages = [], mr_latest_by_producer = []\<rparr>"

fun btree_insert :: "'k :: linorder \<Rightarrow> 'v \<Rightarrow> ('k \<times> 'v) list \<Rightarrow> ('k \<times> 'v) list" where
  "btree_insert k v [] = [(k, v)]"
| "btree_insert k v ((k', v') # kvs) =
     (if k < k' then (k, v) # (k', v') # kvs
      else if k = k' then (k, v) # kvs
      else (k', v') # btree_insert k v kvs)"

definition next_message_id :: "message_repo \<Rightarrow> outbox_message_id \<times> message_repo" where
  "next_message_id r =
     (let i = (case mr_last_message_id r of Some l \<Rightarrow> wrap_i64 (l + 1) | None \<Rightarrow> 1)
      in (i, r\<lparr>mr_last_message_id := Some i\<rparr>))"

definition push_message :: "new_outbox_message \<Rightarrow> message_repo \<Rightarrow> message_repo" where
  "push_message nm r =
     (let (i, r) = next_message_id r;
          r = r\<lparr>mr_latest_by_producer := AList.update (nom_producer_name nm) i (mr_latest_by_producer r)\<rparr>
      in r\<lparr>mr_messages := btree_insert i
             \<lparr>om_message_id = i, om_producer_name = nom_producer_name nm,
              om_content_json = nom_content_json nm, om_occurred_on = nom_occurred_on nm\<rparr>
             (mr_messages r)\<rparr>)"

text \<open>The cursor loop; the batch size is compared after a message was taken.\<close>

fun collect_messages ::
  "string \<Rightarrow> nat \<Rightarrow> outbox_message list \<Rightarrow> (outbox_message_id \<times> outbox_message) list \<Rightarrow> outbox_message list" where
  "collect_messages p batch acc [] = acc"
| "collect_messages p batch acc ((_, m) # rest) =
     (if om_producer_name m = p
      then if batch \<le> length (acc @ [m]) then acc @ [m] else collect_messages p batch (acc @ [m]) rest
      else collect_messages p batch acc rest)"

definition get_producer_messages ::
  "string \<Rightarrow> outbox_message_id \<Rightarrow> nat \<Rightarrow> message_repo \<Rightarrow> outbox_message list" where
  "get_producer_messages p above_id batch r =
     collect_messages p batch [] (dropWhile (\<lambda>(k, _). k \<le> above_id) (mr_messages r))"

definition get_latest_message_ids_by_producer :: "message_repo \<Rightarrow> (string \<times> outbox_message_id) list" where
  "get_latest_message_ids_by_producer r = mr_latest_by_producer r"

section \<open>Consumption repository (inmem_outbox_message_consumption_repository.rs)\<close>

type_synonym consumption_repo = "(string \<times> consumption_boundary) list"

definition make_key :: "string \<Rightarrow> string \<Rightarrow> string" where
  "make_key c p = c @ ''<->'' @ p"

definition list_consumption_boundaries :: "consumption_repo \<Rightarrow> consumption_boundary list" where
  "list_consumption_boundaries r = map snd r"

definition find_consumption_boundary :: "string \<Rightarrow> string \<Rightarrow> consumption_repo \<Rightarrow> consumption_boundary option" where
  "find_consumption_boundary c p r = map_of r (make_key c p)"

definition create_consumption_boundary ::
  "consumption_boundary \<Rightarrow> consumption_repo \<Rightarrow> (create_boundary_error + unit) \<times> consumption_repo" where
  "create_consumption_boundary b r =
     (let key = make_key (cb_consumer_name b) (cb_producer_name b)
      in if map_of r key = None then (Inr (), AList.update key b r)
         else (Inl (DuplicateConsumptionBoundary (cb_consumer_name b) (cb_producer_name b)), r))"

definition update_consumption_boundary ::
  "consumption_boundary \<Rightarrow> consumption_repo \<Rightarrow> (update_boundary_error + unit) \<times> consumption_repo" where
  "update_consumption_boundary b r =
     (let key = make_key (cb_consumer_name b) (cb_producer_name b)
      in case map_of r key of
           Some existing \<Rightarrow>
             (Inr (), AList.update key (existing\<lparr>cb_last_consumed_message_id := cb_last_consumed_message_id b\<rparr>) r)
         | None \<Rightarrow> (Inl (ConsumptionBoundaryNotFound (cb_consumer_name b) (cb_producer_name b)), r))"

section \<open>Consumers and routes (consumers/*.rs)\<close>

datatype durability = Durable | BestEffort

record consumer_meta =
  mcm_consumer_name :: string
  mcm_feeding_producers :: "string list"
  mcm_durability :: durability

text \<open>A registered consumer: its metadata and the message types whose consumer interface it has.\<close>

record consumer_builder =
  bld_instance_type_name :: string
  bld_metadata :: "consumer_meta list"
  bld_message_types :: "string list"

type_synonym catalog = "consumer_builder list"

record message_subscription =
  sub_producer_name :: string
  sub_consumer_name :: string

datatype consumer_filter = AllConsumers | BestEffortConsumers | SelectedConsumer string

record message_dispatcher =
  md_producer_name :: string
  md_message_type :: string

definition all_consumers_for :: "string \<Rightarrow> catalog \<Rightarrow> consumer_builder list" where
  "all_consumers_for ty cat = filter (\<lambda>b. ty \<in> set (bld_message_types b)) cat"

definition builders_for_with_meta :: "string \<Rightarrow> (consumer_meta \<Rightarrow> bool) \<Rightarrow> catalog \<Rightarrow> consumer_builder list" where
  "builders_for_with_meta ty P cat =
     filter (\<lambda>b. ty \<in> set (bld_message_types b) \<and> list_ex P (bld_metadata b)) cat"

definition best_effort_consumers_for :: "string \<Rightarrow> catalog \<Rightarrow> consumer_builder list" where
  "best_effort_consumers_for ty cat = builders_for_with_meta ty (\<lambda>meta. mcm_durability meta = BestEffort) cat"

definition particular_consumers_for :: "string \<Rightarrow> string \<Rightarrow> catalog \<Rightarrow> consumer_builder list" where
  "particular_consumers_for ty c cat = builders_for_with_meta ty (\<lambda>meta. mcm_consumer_name meta = c) cat"

fun group_dispatchers ::
  "(string \<times> message_dispatcher) list \<Rightarrow> message_dispatcher list \<Rightarrow> (string, (string \<times> message_dispatcher) list) res" where
  "group_dispatchers acc [] = Inr acc"
| "group_dispatchers acc (d # ds) =
     (if map_of acc (md_producer_name d) \<noteq> None then Inl (Panic (''Duplicate dispatcher for producer '' @ quoted (md_producer_name d)))
      else group_dispatchers (AList.update (md_producer_name d) d acc) ds)"

definition group_message_dispatchers_by_producer ::
  "message_dispatcher list \<Rightarrow> (string, (string \<times> message_dispatcher) list) res" where
  "group_message_dispatchers_by_producer ds = group_dispatchers [] ds"

fun enumerate_messaging_routes :: "catalog \<Rightarrow> durability \<Rightarrow> (string, message_subscription list) res" where
  "enumerate_messaging_routes [] d = Inr []"
| "enumerate_messaging_routes (b # bs) d =
     (if 1 < length (bld_metadata b) then Inl (Panic (''Multiple consumer metadata records unexpected for '' @ bld_instance_type_name b))
      else and_then (enumerate_messaging_routes bs d) (\<lambda>rest.
        Inr (concat (map (\<lambda>meta. if mcm_durability meta = d
               then map (\<lambda>p. \<lparr>sub_producer_name = p, sub_consumer_name = mcm_consumer_name meta\<rparr>)
                      (mcm_feeding_producers meta)
               else []) (bld_metadata b)) @ rest)))"

definition add_route :: "message_subscription \<Rightarrow> (string \<times> string list) list \<Rightarrow> (string \<times> string list) list" where
  "add_route row m =
     AList.update (sub_producer_name row)
       (case map_of m (sub_producer_name row) of
          Some cs \<Rightarrow> List.insert (sub_consumer_name row) cs
        | None \<Rightarrow> [sub_consumer_name row]) m"

definition group_consumers_by_producers :: "message_subscription list \<Rightarrow> (string \<times> string list) list" where
  "group_consumers_by_producers rows = fold add_route rows []"

section \<open>Environment and state\<close>

record outbox_config =
  obc_awaiting_step :: duration
  obc_batch_size :: int

record 'w outbox_env =
  obe_catalog :: catalog
  obe_dispatchers :: "message_dispatcher list"
  obe_config :: outbox_config
  obe_from_json :: "string \<Rightarrow> string \<Rightarrow> string + unit"
  obe_consume_message :: "consumer_builder \<Rightarrow> string \<Rightarrow> 'w \<Rightarrow> (string + unit) \<times> 'w"

record 'w outbox_state =
  obs_messages :: message_repo
  obs_boundaries :: consumption_repo
  obs_world :: 'w

definition empty_outbox :: "'w \<Rightarrow> 'w outbox_state" where
  "empty_outbox w = \<lparr>obs_messages = empty_message_repo, obs_boundaries = [], obs_world = w\<rparr>"

section \<open>Dispatching a message (message_dispatcher.rs, message_consumers_utils.rs)\<close>

definition call_consumer :: "'w outbox_env \<Rightarrow> string \<Rightarrow> consumer_builder \<Rightarrow> 'w \<Rightarrow> (string, unit) res \<times> 'w" where
  "call_consumer env content b w =
     (case obe_consume_message env b content w of
        (Inl e, w') \<Rightarrow> (Inl (Fail e), w')
      | (Inr _, w') \<Rightarrow> (Inr (), w'))"

definition consume_deserialized_message ::
  "'w outbox_env \<Rightarrow> string \<Rightarrow> consumer_filter \<Rightarrow> string \<Rightarrow> 'w \<Rightarrow> (string, unit) res \<times> 'w" where
  "consume_deserialized_message env ty flt content w =
     (case obe_from_json env ty content of
        Inl e \<Rightarrow> (Inl (Fail e), w)
      | Inr _ \<Rightarrow>
          (let consumers = (case flt of
                 AllConsumers \<Rightarrow> all_consumers_for ty (obe_catalog env)
               | BestEffortConsumers \<Rightarrow> best_effort_consumers_for ty (obe_catalog env)
               | SelectedConsumer c \<Rightarrow> particular_consumers_for ty c (obe_catalog env))
           in feach (call_consumer env content) consumers w))"

definition dispatch_message ::
  "'w outbox_env \<Rightarrow> message_dispatcher \<Rightarrow> consumer_filter \<Rightarrow> string \<Rightarrow> 'w outbox_state \<Rightarrow>
     (string, unit) res \<times> 'w outbox_state" where
  "dispatch_message env d flt content st =
     (case consume_deserialized_message env (md_message_type d) flt content (obs_world st) of
        (r, w) \<Rightarrow> (r, st\<lparr>obs_world := w\<rparr>))"

section \<open>Outboxes (services/implementation)\<close>

definition immediate_post_message ::
  "'w outbox_env \<Rightarrow> (string \<times> message_dispatcher) list \<Rightarrow> consumer_filter \<Rightarrow> string \<Rightarrow> string \<Rightarrow>
     'w outbox_state \<Rightarrow> (string, unit) res \<times> 'w outbox_state" where
  "immediate_post_message env dispatchers flt p content =
     (case map_of dispatchers p of
        Some d \<Rightarrow> dispatch_message env d flt content
      | None \<Rightarrow> freturn ())"

definition transactional_post_message ::
  "datetime \<Rightarrow> string \<Rightarrow> string \<Rightarrow> 'w outbox_state \<Rightarrow> (string, unit) res \<times> 'w outbox_state" where
  "transactional_post_message now p content st =
     (Inr (), st\<lparr>obs_messages := push_message
        \<lparr>nom_producer_name = p, nom_content_json = content, nom_occurred_on = now\<rparr> (obs_messages st)\<rparr>)"

record dispatching_outbox =
  dso_dispatchers :: "(string \<times> message_dispatcher) list"
  dso_consumer_filter :: consumer_filter
  dso_durable_producers :: "string list"
  dso_best_effort_producers :: "string list"

fun classify_message_routes :: "catalog \<Rightarrow> (string, string list \<times> string list) res" where
  "classify_message_routes [] = Inr ([], [])"
| "classify_message_routes (b # bs) =
     (if 1 < length (bld_metadata b) then Inl (Panic (''Multiple consumer metadata records unexpected for '' @ bld_instance_type_name b))
      else and_then (classify_message_routes bs) (\<lambda>(durable, best_effort).
        Inr (fold (\<lambda>meta (durable, best_effort). case mcm_durability meta of
                Durable \<Rightarrow> (List.union (mcm_feeding_producers meta) durable, best_effort)
              | BestEffort \<Rightarrow> (durable, List.union (mcm_feeding_producers meta) best_effort))
              (bld_metadata b) (durable, best_effort))))"

definition new_dispatching_outbox :: "'w outbox_env \<Rightarrow> consumer_filter \<Rightarrow> (string, dispatching_outbox) res" where
  "new_dispatching_outbox env flt =
     and_then (group_message_dispatchers_by_producer (obe_dispatchers env)) (\<lambda>dispatchers.
     and_then (classify_message_routes (obe_catalog env)) (\<lambda>(durable, best_effort).
       Inr \<lparr>dso_dispatchers = dispatchers, dso_consumer_filter = flt,
            dso_durable_producers = durable, dso_best_effort_producers = best_effort\<rparr>))"

definition dispatching_post_message ::
  "'w outbox_env \<Rightarrow> dispatching_outbox \<Rightarrow> datetime \<Rightarrow> string \<Rightarrow> string \<Rightarrow> 'w outbox_state \<Rightarrow>
     (string, unit) res \<times> 'w outbox_state" where
  "dispatching_post_message env ob now p content =
     fbind (if p \<in> set (dso_durable_producers ob) then transactional_post_message now p content else freturn ()) (\<lambda>_.
     if p \<in> set (dso_best_effort_producers ob)
     then immediate_post_message env (dso_dispatchers ob) (dso_consumer_filter ob) p content
     else freturn ())"

section \<open>The transactional processor (outbox_transactional_processor.rs)\<close>

record routes_static_info =
  rsi_message_dispatchers :: "(string \<times> message_dispatcher) list"
  rsi_durable_routes :: "message_subscription list"
  rsi_consumers_by_producers :: "(string \<times> string list) list"

definition make_static_routes_info :: "catalog \<Rightarrow> message_dispatcher list \<Rightarrow> (string, routes_static_info) res" where
  "make_static_routes_info cat ds =
     and_then (enumerate_messaging_routes cat Durable) (\<lambda>routes.
     and_then (group_message_dispatchers_by_producer ds) (\<lambda>dispatchers.
       Inr \<lparr>rsi_message_dispatchers = dispatchers, rsi_durable_routes = routes,
            rsi_consumers_by_producers = group_consumers_by_producers routes\<rparr>))"

record relay_job =
  prj_producer_name :: string
  prj_consumer_names :: "string list"

record outbox_processor =
  otp_routes_static_info :: routes_static_info
  otp_producer_relay_jobs :: "relay_job list"

definition new_outbox_processor :: "'w outbox_env \<Rightarrow> (string, outbox_processor) res" where
  "new_outbox_processor env =
     and_then (make_static_routes_info (obe_catalog env) (obe_dispatchers env)) (\<lambda>info.
       Inr \<lparr>otp_routes_static_info = info,
            otp_producer_relay_jobs = map (\<lambda>(p, cs). \<lparr>prj_producer_name = p, prj_consumer_names = cs\<rparr>)
              (rsi_consumers_by_producers info)\<rparr>)"

type_synonym ('w, 'a) outbox_op = "'w outbox_state \<Rightarrow> (string, 'a) res \<times> 'w outbox_state"

definition new_boundary :: "string \<Rightarrow> string \<Rightarrow> ('w, unit) outbox_op" where
  "new_boundary p c st =
     (case create_consumption_boundary
             \<lparr>cb_producer_name = p, cb_consumer_name = c, cb_last_consumed_message_id = 0\<rparr> (obs_boundaries st) of
        (r, bs) \<Rightarrow> (map_err (\<lambda>e. Fail (display_create_error e)) r, st\<lparr>obs_boundaries := bs\<rparr>))"

definition init_consumption_records :: "outbox_processor \<Rightarrow> ('w, unit) outbox_op" where
  "init_consumption_records proc st =
     (let consumptions = list_consumption_boundaries (obs_boundaries st);
          matched = set (map (\<lambda>b. (cb_producer_name b, cb_consumer_name b)) consumptions)
      in feach (\<lambda>(p, cs).
           feach (\<lambda>c. if (p, c) \<notin> matched then new_boundary p c else freturn ()) cs)
         (rsi_consumers_by_producers (otp_routes_static_info proc)) st)"

definition select_latest_message_ids_by_producers :: "'w outbox_state \<Rightarrow> string \<rightharpoonup> outbox_message_id" where
  "select_latest_message_ids_by_producers st = map_of (get_latest_message_ids_by_producer (obs_messages st))"

definition add_boundary ::
  "consumption_boundary \<Rightarrow> (string \<rightharpoonup> (string \<rightharpoonup> outbox_message_id)) \<Rightarrow> (string \<rightharpoonup> (string \<rightharpoonup> outbox_message_id))" where
  "add_boundary b m =
     m(cb_producer_name b \<mapsto>
         (case m (cb_producer_name b) of Some by_consumer \<Rightarrow> by_consumer | None \<Rightarrow> Map.empty)
           (cb_consumer_name b \<mapsto> cb_last_consumed_message_id b))"

definition select_latest_consumption_boundaries_by_producers ::
  "'w outbox_state \<Rightarrow> string \<rightharpoonup> (string \<rightharpoonup> outbox_message_id)" where
  "select_latest_consumption_boundaries_by_producers st =
     fold add_boundary (list_consumption_boundaries (obs_boundaries st)) Map.empty"

text \<open>The loop over the consumers, with the earliest boundary seen so far.\<close>

fun earliest_boundary ::
  "(string \<rightharpoonup> outbox_message_id) \<Rightarrow> string list \<Rightarrow> outbox_message_id option \<Rightarrow> outbox_message_id option" where
  "earliest_boundary bounds [] earliest = earliest"
| "earliest_boundary bounds (c # cs) earliest =
     (case bounds c of
        Some b \<Rightarrow> earliest_boundary bounds cs
          (case earliest of Some i \<Rightarrow> (if b < i then Some b else Some i) | None \<Rightarrow> Some b)
      | None \<Rightarrow> Some 0)"

definition determine_processed_boundary_id ::
  "relay_job \<Rightarrow> (string \<rightharpoonup> outbox_message_id) \<Rightarrow> outbox_message_id option" where
  "determine_processed_boundary_id job bounds = earliest_boundary bounds (prj_consumer_names job) None"

text \<open>What an iteration of a producer loads: nothing when all its consumers are up to date.\<close>

definition load_unprocessed ::
  "'w outbox_env \<Rightarrow> relay_job \<Rightarrow> outbox_message_id \<Rightarrow> (string \<rightharpoonup> outbox_message_id) \<Rightarrow> 'w outbox_state \<Rightarrow>
     (string, outbox_message list) res" where
  "load_unprocessed env job latest bounds st =
     (case determine_processed_boundary_id job bounds of
        Some processed \<Rightarrow>
          if processed < latest then
            if obc_batch_size (obe_config env) < 0 then Inl (Panic ''called Result::unwrap() on an Err value'')
            else Inr (get_producer_messages (prj_producer_name job) processed
                        (nat (obc_batch_size (obe_config env))) (obs_messages st))
          else Inr []
      | None \<Rightarrow> Inr [])"

definition consumer_tasks :: "relay_job \<Rightarrow> (string \<rightharpoonup> outbox_message_id) \<Rightarrow> outbox_message \<Rightarrow> string list" where
  "consumer_tasks job bounds m =
     filter (\<lambda>c. (case bounds c of Some b \<Rightarrow> b | None \<Rightarrow> 0) < om_message_id m) (prj_consumer_names job)"

definition deliver_message :: "'w outbox_env \<Rightarrow> outbox_processor \<Rightarrow> string \<Rightarrow> outbox_message \<Rightarrow> ('w, unit) outbox_op" where
  "deliver_message env proc c m =
     (case map_of (rsi_message_dispatchers (otp_routes_static_info proc)) (om_producer_name m) of
        Some d \<Rightarrow> dispatch_message env d (SelectedConsumer c) (om_content_json m)
      | None \<Rightarrow> (\<lambda>st. (Inl (Panic ''No dispatcher for producer''), st)))"

definition shift_boundary :: "string \<Rightarrow> outbox_message \<Rightarrow> ('w, unit) outbox_op" where
  "shift_boundary c m st =
     (case update_consumption_boundary
             \<lparr>cb_producer_name = om_producer_name m, cb_consumer_name = c,
              cb_last_consumed_message_id = om_message_id m\<rparr> (obs_boundaries st) of
        (r, bs) \<Rightarrow> (map_err (\<lambda>e. Fail (display_update_error e)) r, st\<lparr>obs_boundaries := bs\<rparr>))"

definition invoke_consumer :: "'w outbox_env \<Rightarrow> outbox_processor \<Rightarrow> string \<Rightarrow> outbox_message \<Rightarrow> ('w, unit) outbox_op" where
  "invoke_consumer env proc c m = fbind (deliver_message env proc c m) (\<lambda>_. shift_boundary c m)"

definition run_iteration ::
  "'w outbox_env \<Rightarrow> outbox_processor \<Rightarrow> relay_job \<Rightarrow> outbox_message_id \<Rightarrow> (string \<rightharpoonup> outbox_message_id) \<Rightarrow>
     ('w, unit) outbox_op" where
  "run_iteration env proc job latest bounds =
     fbind (\<lambda>st. (load_unprocessed env job latest bounds st, st)) (\<lambda>messages.
       feach (\<lambda>m. feach (\<lambda>c. invoke_consumer env proc c m) (consumer_tasks job bounds m)) messages)"

fun producer_tasks ::
  "(string \<rightharpoonup> outbox_message_id) \<Rightarrow> (string \<rightharpoonup> (string \<rightharpoonup> outbox_message_id)) \<Rightarrow> relay_job list \<Rightarrow>
     (relay_job \<times> outbox_message_id \<times> (string \<rightharpoonup> outbox_message_id)) list" where
  "producer_tasks latest bounds [] = []"
| "producer_tasks latest bounds (job # jobs) =
     (case latest (prj_producer_name job) of
        None \<Rightarrow> producer_tasks latest bounds jobs
      | Some l \<Rightarrow>
          (case bounds (prj_producer_name job) of
             None \<Rightarrow> producer_tasks latest bounds jobs
           | Some b \<Rightarrow> (job, l, b) # producer_tasks latest (bounds(prj_producer_name job := None)) jobs))"

definition run_relay_iteration :: "'w outbox_env \<Rightarrow> outbox_processor \<Rightarrow> ('w, unit) outbox_op" where
  "run_relay_iteration env proc st =
     feach (\<lambda>(job, latest, bounds). run_iteration env proc job latest bounds)
       (producer_tasks (select_latest_message_ids_by_producers st)
          (select_latest_consumption_boundaries_by_producers st) (otp_producer_relay_jobs proc)) st"

definition run_single_iteration_only :: "'w outbox_env \<Rightarrow> outbox_processor \<Rightarrow> ('w, unit) outbox_op" where
  "run_single_iteration_only env proc =
     fbind (init_consumption_records proc) (\<lambda>_. run_relay_iteration env proc)"

end
