(* ===== verification/Outbox_Repos.thy ===== *)
theory Outbox_Repos
  imports Outbox "HOL-Library.Sublist"
begin

text \<open>
  The contracts of the two repositories of the outbox, what the relay derives from them, and the
  proof that the in-memory repositories fulfil them: the message repository is a log per producer
  read in batches, the consumption repository is a map from routes to boundaries.
\<close>

section \<open>Lists\<close>

lemma prefix_filter_take: "prefix (filter P (take n xs)) (filter P xs)"
  by (metis append_take_drop_id filter_append prefixI)

lemma prefix_map: "prefix xs ys \<Longrightarrow> prefix (map f xs) (map f ys)"
  by (auto simp: prefix_def)

section \<open>Logs of messages\<close>

locale message_log =
  fixes good :: "'r \<Rightarrow> bool"
    and log_of :: "'r \<Rightarrow> outbox_message list"
    and push :: "new_outbox_message \<Rightarrow> 'r \<Rightarrow> 'r"
    and fetch :: "string \<Rightarrow> outbox_message_id \<Rightarrow> nat \<Rightarrow> 'r \<Rightarrow> outbox_message list"
    and latest :: "'r \<Rightarrow> (string \<times> outbox_message_id) list"
  assumes sorted_log: "good r \<Longrightarrow> sorted_wrt (<) (0 # map om_message_id (log_of r))"
    and push_log: "good r \<Longrightarrow> length (log_of r) < 2 ^ 63 - 1 \<Longrightarrow>
          good (push nm r) \<and>
          (\<exists>i. log_of (push nm r) = log_of r @ [\<lparr>om_message_id = i, om_producer_name = nom_producer_name nm,
             om_content_json = nom_content_json nm, om_occurred_on = nom_occurred_on nm\<rparr>])"
    and fetch_log: "good r \<Longrightarrow> fetch p i batch r =
          take (max 1 batch) (filter (\<lambda>m. om_producer_name m = p \<and> i < om_message_id m) (log_of r))"
    and latest_log: "good r \<Longrightarrow> map_of (latest r) p =
          (let ids = map om_message_id (filter (\<lambda>m. om_producer_name m = p) (log_of r))
           in if ids = [] then None else Some (last ids))"
begin

definition ids :: "'r \<Rightarrow> string \<Rightarrow> outbox_message_id list" where
  "ids r p = map om_message_id (filter (\<lambda>m. om_producer_name m = p) (log_of r))"

lemma sorted_ids: "good r \<Longrightarrow> sorted_wrt (<) (0 # ids r p)"
  using sorted_log [of r] by (auto simp: ids_def sorted_wrt_map sorted_wrt_filter)

lemma distinct_ids: "good r \<Longrightarrow> distinct (ids r p)"
  using sorted_ids [of r p] by (auto simp: strict_sorted_iff)

lemma push_ids:
  assumes "good r" and "length (log_of r) < 2 ^ 63 - 1"
  shows "prefix (ids r p) (ids (push nm r) p)"
  using push_log [OF assms, of nm] by (auto simp: ids_def)

lemma fetch_sound: "good r \<Longrightarrow> m \<in> set (fetch p i batch r) \<Longrightarrow> om_producer_name m = p \<and> om_message_id m \<in> set (ids r p)"
  by (auto simp: fetch_log ids_def dest!: in_set_takeD)

text \<open>
  Whatever boundary at or above the one that was asked for a consumer has, what it still has to
  consume of a batch is the beginning of what it has to consume of the log.
\<close>

lemma fetch_prefix:
  assumes "good r" and "i \<le> b"
  shows "prefix (map om_message_id (filter (\<lambda>m. b < om_message_id m) (fetch p i batch r))) (filter (\<lambda>k. b < k) (ids r p))"
proof -
  have "filter (\<lambda>k. b < k) (ids r p) =
      map om_message_id (filter (\<lambda>m. b < om_message_id m) (filter (\<lambda>m. om_producer_name m = p \<and> i < om_message_id m) (log_of r)))"
    using assms(2) by (auto simp: ids_def filter_map comp_def intro!: arg_cong [where f = "map om_message_id"] filter_cong)
  then show ?thesis by (simp add: fetch_log [OF assms(1)] prefix_map prefix_filter_take del: filter_filter)
qed

lemma fetch_ids:
  assumes "good r"
  shows "map om_message_id (fetch p i batch r) = take (max 1 batch) (filter (\<lambda>k. i < k) (ids r p))"
  by (simp add: fetch_log [OF assms] ids_def filter_map comp_def take_map conj_commute)

end

section \<open>Stores of boundaries\<close>

text \<open>\<open>lookup\<close> gives the boundary of a consumer and a producer.\<close>

definition lookup2 :: "('a \<rightharpoonup> ('b \<rightharpoonup> 'c)) \<Rightarrow> 'a \<Rightarrow> 'b \<Rightarrow> 'c option" where
  "lookup2 m a b = (case m a of Some m' \<Rightarrow> m' b | None \<Rightarrow> None)"

lemma lookup2_add_boundary:
  "lookup2 (add_boundary b m) p c =
     (if cb_producer_name b = p \<and> cb_consumer_name b = c then Some (cb_last_consumed_message_id b) else lookup2 m p c)"
  by (auto simp: lookup2_def add_boundary_def split: option.split)

lemma lookup2_fold_hit:
  assumes "b \<in> set bs" and "cb_producer_name b = p" and "cb_consumer_name b = c"
    and "\<forall>b' \<in> set bs. cb_producer_name b' = p \<longrightarrow> cb_consumer_name b' = c \<longrightarrow> cb_last_consumed_message_id b' = i"
  shows "lookup2 (fold add_boundary bs m) p c = Some i"
  using assms
proof (induction bs rule: rev_induct)
  case (snoc x bs)
  show ?case
  proof (cases "cb_producer_name x = p \<and> cb_consumer_name x = c")
    case True
    then show ?thesis using snoc.prems(4) by (simp add: lookup2_add_boundary)
  next
    case False
    then have "b \<in> set bs" using snoc.prems(1-3) by auto
    then show ?thesis using False snoc by (auto simp: lookup2_add_boundary)
  qed
qed simp

lemma lookup2_fold_miss:
  assumes "\<And>b. b \<in> set bs \<Longrightarrow> cb_producer_name b \<noteq> p \<or> cb_consumer_name b \<noteq> c"
  shows "lookup2 (fold add_boundary bs m) p c = lookup2 m p c"
  using assms by (induction bs rule: rev_induct) (auto simp: lookup2_add_boundary)

locale boundary_store =
  fixes good :: "'r \<Rightarrow> bool"
    and name_ok :: "string \<Rightarrow> bool"
    and lookup :: "'r \<Rightarrow> string \<Rightarrow> string \<Rightarrow> outbox_message_id option"
    and listing :: "'r \<Rightarrow> consumption_boundary list"
    and create :: "consumption_boundary \<Rightarrow> 'r \<Rightarrow> (create_boundary_error + unit) \<times> 'r"
    and update :: "consumption_boundary \<Rightarrow> 'r \<Rightarrow> (update_boundary_error + unit) \<times> 'r"
  assumes listing: "good r \<Longrightarrow> name_ok c \<Longrightarrow> lookup r c p = Some i \<longleftrightarrow>
        (\<exists>b \<in> set (listing r). cb_producer_name b = p \<and> cb_consumer_name b = c \<and> cb_last_consumed_message_id b = i)"
    and create_new: "good r \<Longrightarrow> name_ok (cb_consumer_name b) \<Longrightarrow> lookup r (cb_consumer_name b) (cb_producer_name b) = None \<Longrightarrow>
        \<exists>r'. create b r = (Inr (), r') \<and> good r' \<and>
          (\<forall>c p. name_ok c \<longrightarrow> lookup r' c p =
             (if c = cb_consumer_name b \<and> p = cb_producer_name b then Some (cb_last_consumed_message_id b) else lookup r c p))"
    and update_old: "good r \<Longrightarrow> name_ok (cb_consumer_name b) \<Longrightarrow> lookup r (cb_consumer_name b) (cb_producer_name b) \<noteq> None \<Longrightarrow>
        \<exists>r'. update b r = (Inr (), r') \<and> good r' \<and>
          (\<forall>c p. name_ok c \<longrightarrow> lookup r' c p =
             (if c = cb_consumer_name b \<and> p = cb_producer_name b then Some (cb_last_consumed_message_id b) else lookup r c p))"
begin

text \<open>Organising the listed boundaries by producer and consumer loses nothing.\<close>

lemma selected:
  assumes "good r" and "name_ok c"
  shows "lookup2 (fold add_boundary (listing r) Map.empty) p c = lookup r c p"
proof (cases "lookup r c p")
  case None
  then have "\<not> (\<exists>b \<in> set (listing r). cb_producer_name b = p \<and> cb_consumer_name b = c)"
    using listing [OF assms, of p] by auto
  then have "lookup2 (fold add_boundary (listing r) Map.empty) p c = lookup2 Map.empty p c"
    by (intro lookup2_fold_miss) blast
  then show ?thesis using None by (simp add: lookup2_def)
next
  case (Some i)
  then have same: "\<forall>b \<in> set (listing r). cb_producer_name b = p \<longrightarrow> cb_consumer_name b = c \<longrightarrow> cb_last_consumed_message_id b = i"
    using listing [OF assms, of p] by (metis option.inject)
  obtain b where "b \<in> set (listing r)" "cb_producer_name b = p" "cb_consumer_name b = c"
    using Some listing [OF assms] by blast
  then show ?thesis using Some lookup2_fold_hit [OF _ _ _ same] by simp
qed

lemma matched_iff:
  assumes "good r" and "name_ok c"
  shows "(p, c) \<in> set (map (\<lambda>b. (cb_producer_name b, cb_consumer_name b)) (listing r)) \<longleftrightarrow> lookup r c p \<noteq> None"
  using listing [OF assms] by (fastforce simp: image_iff)

end

section \<open>The in-memory message repository\<close>

definition message_log_of :: "message_repo \<Rightarrow> outbox_message list" where
  "message_log_of r = map snd (mr_messages r)"

definition message_repo_ok :: "message_repo \<Rightarrow> bool" where
  "message_repo_ok r \<longleftrightarrow>
     map fst (mr_messages r) = [1..int (length (mr_messages r))] \<and>
     (\<forall>(i, m) \<in> set (mr_messages r). om_message_id m = i) \<and>
     mr_last_message_id r = (if mr_messages r = [] then None else Some (int (length (mr_messages r)))) \<and>
     (\<forall>p. map_of (mr_latest_by_producer r) p =
        (let ids = map om_message_id (filter (\<lambda>m. om_producer_name m = p) (message_log_of r))
         in if ids = [] then None else Some (last ids)))"

lemma message_repo_ok_empty: "message_repo_ok empty_message_repo"
  by (simp add: message_repo_ok_def empty_message_repo_def message_log_of_def)

lemma btree_insert_last: "(\<And>k'. k' \<in> fst ` set kvs \<Longrightarrow> k' < k) \<Longrightarrow> btree_insert k v kvs = kvs @ [(k, v)]"
  by (induction k v kvs rule: btree_insert.induct) fastforce+

lemma push_message_eq:
  assumes "message_repo_ok r" and "length (mr_messages r) < 2 ^ 63 - 1"
  defines "i \<equiv> int (length (mr_messages r)) + 1"
  shows "push_message nm r =
     \<lparr>mr_last_message_id = Some i,
      mr_messages = mr_messages r @ [(i, \<lparr>om_message_id = i, om_producer_name = nom_producer_name nm,
        om_content_json = nom_content_json nm, om_occurred_on = nom_occurred_on nm\<rparr>)],
      mr_latest_by_producer = AList.update (nom_producer_name nm) i (mr_latest_by_producer r)\<rparr>"
proof -
  have "wrap_i64 (int (length (mr_messages r)) + 1) = i" unfolding i_def
    by (rule wrap_i64_id) (use assms(2) in auto)
  then have next_id: "next_message_id r = (i, r\<lparr>mr_last_message_id := Some i\<rparr>)"
    using assms(1) by (simp add: next_message_id_def message_repo_ok_def i_def Let_def split: if_splits)
  have "k < i" if "k \<in> fst ` set (mr_messages r)" for k
  proof -
    have "k \<in> set [1..int (length (mr_messages r))]"
      using assms(1) that by (metis message_repo_ok_def list.set_map)
    then show ?thesis by (simp add: i_def)
  qed
  then show ?thesis by (simp add: push_message_def next_id btree_insert_last)
qed

lemma message_repo_ok_push:
  assumes "message_repo_ok r" and "length (mr_messages r) < 2 ^ 63 - 1"
  shows "message_repo_ok (push_message nm r)"
proof -
  let ?n = "int (length (mr_messages r))"
  have "[1..?n + 1] = [1..?n] @ [?n + 1]" by (simp add: upto_rec2)
  then show ?thesis
    using assms(1) unfolding push_message_eq [OF assms] message_repo_ok_def message_log_of_def Let_def
    by (auto simp: update_conv' ac_simps)
qed

lemma collect_messages_eq:
  "length acc < max 1 batch \<Longrightarrow>
   collect_messages p batch acc kvs = acc @ take (max 1 batch - length acc) (filter (\<lambda>m. om_producer_name m = p) (map snd kvs))"
proof (induction p batch acc kvs rule: collect_messages.induct)
  case (2 p batch acc k m rest)
  then show ?case by (auto simp: take_Cons' not_le Suc_diff_Suc)
qed simp

lemma dropWhile_sorted_keys:
  "sorted_wrt (<) (map fst kvs) \<Longrightarrow> dropWhile (\<lambda>(k, _). k \<le> (i :: int)) kvs = filter (\<lambda>(k, _). i < k) kvs"
proof (induction kvs)
  case (Cons kv kvs)
  show ?case
  proof (cases "fst kv \<le> i")
    case True
    then show ?thesis using Cons by (auto simp: case_prod_beta)
  next
    case False
    then have "filter (\<lambda>kv. i < fst kv) kvs = kvs" using Cons.prems by (auto simp: filter_id_conv)
    then show ?thesis using False by (auto simp: case_prod_beta)
  qed
qed simp

lemma log_ids: "message_repo_ok r \<Longrightarrow> map om_message_id (message_log_of r) = [1..int (length (mr_messages r))]"
proof -
  assume ok: "message_repo_ok r"
  then have "\<forall>(i, m) \<in> set (mr_messages r). om_message_id m = i" by (simp add: message_repo_ok_def)
  then have "map om_message_id (message_log_of r) = map fst (mr_messages r)"
    by (auto simp: message_log_of_def)
  then show ?thesis using ok by (simp add: message_repo_ok_def)
qed

lemma sorted_keys: "message_repo_ok r \<Longrightarrow> sorted_wrt (<) (map fst (mr_messages r))"
  by (simp add: message_repo_ok_def sorted_wrt_upto)

lemma get_producer_messages_eq:
  assumes "message_repo_ok r"
  shows "get_producer_messages p i batch r =
    take (max 1 batch) (filter (\<lambda>m. om_producer_name m = p \<and> i < om_message_id m) (message_log_of r))"
proof -
  have ids: "om_message_id (snd kv) = fst kv" if "kv \<in> set (mr_messages r)" for kv
    using assms that by (auto simp: message_repo_ok_def)
  have "map snd (filter (\<lambda>(k, _). i < k) (mr_messages r)) = filter (\<lambda>m. i < om_message_id m) (message_log_of r)"
    by (simp add: message_log_of_def filter_map comp_def case_prod_beta ids cong: filter_cong)
  then show ?thesis
    by (simp add: get_producer_messages_def collect_messages_eq dropWhile_sorted_keys sorted_keys assms conj_commute)
qed

interpretation msg_log: message_log message_repo_ok message_log_of push_message get_producer_messages
  get_latest_message_ids_by_producer
proof unfold_locales
  fix r nm
  assume ok: "message_repo_ok r"
  show "sorted_wrt (<) (0 # map om_message_id (message_log_of r))"
    by (simp add: log_ids [OF ok] sorted_wrt_upto)
  assume "length (message_log_of r) < 2 ^ 63 - 1"
  then have len: "length (mr_messages r) < 2 ^ 63 - 1" by (simp add: message_log_of_def)
  show "message_repo_ok (push_message nm r) \<and>
      (\<exists>i. message_log_of (push_message nm r) = message_log_of r @ [\<lparr>om_message_id = i, om_producer_name = nom_producer_name nm,
             om_content_json = nom_content_json nm, om_occurred_on = nom_occurred_on nm\<rparr>])"
    using message_repo_ok_push [OF ok len] by (simp add: push_message_eq [OF ok len] message_log_of_def)
next
  fix r p i batch
  assume ok: "message_repo_ok r"
  show "get_producer_messages p i batch r =
      take (max 1 batch) (filter (\<lambda>m. om_producer_name m = p \<and> i < om_message_id m) (message_log_of r))"
    by (rule get_producer_messages_eq [OF ok])
  show "map_of (get_latest_message_ids_by_producer r) p =
      (let ids = map om_message_id (filter (\<lambda>m. om_producer_name m = p) (message_log_of r))
       in if ids = [] then None else Some (last ids))"
    using ok by (simp add: message_repo_ok_def get_latest_message_ids_by_producer_def)
qed

section \<open>The in-memory consumption repository\<close>

text \<open>Keys join the two names with an arrow; they are unambiguous when the name of the consumer has no \<open><\<close>.\<close>

definition consumer_name_ok :: "string \<Rightarrow> bool" where
  "consumer_name_ok c \<longleftrightarrow> CHR ''<'' \<notin> set c"

lemma make_key_inj:
  assumes "consumer_name_ok c" and "consumer_name_ok c'"
  shows "make_key c p = make_key c' p' \<longleftrightarrow> c = c' \<and> p = p'"
proof
  assume eq: "make_key c p = make_key c' p'"
  have c: "takeWhile (\<lambda>x. x \<noteq> CHR ''<'') (make_key d q) = d" if "consumer_name_ok d" for d q
    using that by (auto simp: make_key_def consumer_name_ok_def takeWhile_append)
  have "c = c'" using c [OF assms(1), of p] c [OF assms(2), of p'] eq by simp
  with eq show "c = c' \<and> p = p'" by (simp add: make_key_def)
qed simp

definition boundary_repo_ok :: "consumption_repo \<Rightarrow> bool" where
  "boundary_repo_ok r \<longleftrightarrow> distinct (map fst r) \<and>
     (\<forall>(k, b) \<in> set r. k = make_key (cb_consumer_name b) (cb_producer_name b) \<and> consumer_name_ok (cb_consumer_name b))"

definition boundary_of :: "consumption_repo \<Rightarrow> string \<Rightarrow> string \<Rightarrow> outbox_message_id option" where
  "boundary_of r c p = map_option cb_last_consumed_message_id (find_consumption_boundary c p r)"

lemma boundary_repo_ok_empty: "boundary_repo_ok []"
  by (simp add: boundary_repo_ok_def)

lemma set_update_subset: "set (AList.update k v al) \<subseteq> insert (k, v) (set al)"
  by (induction al) auto

lemma boundary_repo_ok_update:
  assumes "boundary_repo_ok r" and "consumer_name_ok (cb_consumer_name b)"
  shows "boundary_repo_ok (AList.update (make_key (cb_consumer_name b) (cb_producer_name b)) b r)"
  using assms set_update_subset [of "make_key (cb_consumer_name b) (cb_producer_name b)" b r]
  by (fastforce simp: boundary_repo_ok_def distinct_update)

lemma boundary_of_update:
  assumes "consumer_name_ok (cb_consumer_name b)" and "consumer_name_ok c"
  shows "boundary_of (AList.update (make_key (cb_consumer_name b) (cb_producer_name b)) b r) c p =
     (if c = cb_consumer_name b \<and> p = cb_producer_name b then Some (cb_last_consumed_message_id b) else boundary_of r c p)"
  using make_key_inj [OF assms(2,1), of p "cb_producer_name b"]
  by (simp add: boundary_of_def find_consumption_boundary_def update_conv')

lemma boundary_of_listing:
  assumes "boundary_repo_ok r" and "consumer_name_ok c"
  shows "boundary_of r c p = Some i \<longleftrightarrow> (\<exists>b \<in> set (list_consumption_boundaries r).
     cb_producer_name b = p \<and> cb_consumer_name b = c \<and> cb_last_consumed_message_id b = i)"
proof
  assume "boundary_of r c p = Some i"
  then obtain b where b: "map_of r (make_key c p) = Some b" "cb_last_consumed_message_id b = i"
    by (auto simp: boundary_of_def find_consumption_boundary_def)
  then have "(make_key c p, b) \<in> set r" by (simp add: map_of_SomeD)
  moreover from this have "make_key (cb_consumer_name b) (cb_producer_name b) = make_key c p" "consumer_name_ok (cb_consumer_name b)"
    using assms(1) by (auto simp: boundary_repo_ok_def)
  then have "cb_consumer_name b = c" "cb_producer_name b = p" using make_key_inj assms(2) by auto
  ultimately show "\<exists>b \<in> set (list_consumption_boundaries r).
     cb_producer_name b = p \<and> cb_consumer_name b = c \<and> cb_last_consumed_message_id b = i"
    using b(2) by (force simp: list_consumption_boundaries_def)
next
  assume "\<exists>b \<in> set (list_consumption_boundaries r).
     cb_producer_name b = p \<and> cb_consumer_name b = c \<and> cb_last_consumed_message_id b = i"
  then obtain k b where b: "(k, b) \<in> set r" "cb_producer_name b = p" "cb_consumer_name b = c" "cb_last_consumed_message_id b = i"
    by (auto simp: list_consumption_boundaries_def)
  then have "k = make_key c p" "distinct (map fst r)" using assms(1) by (auto simp: boundary_repo_ok_def)
  then show "boundary_of r c p = Some i"
    using b by (simp add: boundary_of_def find_consumption_boundary_def)
qed

interpretation boundaries: boundary_store boundary_repo_ok consumer_name_ok boundary_of list_consumption_boundaries
  create_consumption_boundary update_consumption_boundary
proof unfold_locales
  fix r and b :: consumption_boundary
  let ?key = "make_key (cb_consumer_name b) (cb_producer_name b)"
  assume ok: "boundary_repo_ok r" and name: "consumer_name_ok (cb_consumer_name b)"
  { assume "boundary_of r (cb_consumer_name b) (cb_producer_name b) = None"
    then have "create_consumption_boundary b r = (Inr (), AList.update ?key b r)"
      by (simp add: create_consumption_boundary_def boundary_of_def find_consumption_boundary_def)
    then show "\<exists>r'. create_consumption_boundary b r = (Inr (), r') \<and> boundary_repo_ok r' \<and>
        (\<forall>c p. consumer_name_ok c \<longrightarrow> boundary_of r' c p =
           (if c = cb_consumer_name b \<and> p = cb_producer_name b then Some (cb_last_consumed_message_id b) else boundary_of r c p))"
      using boundary_repo_ok_update [OF ok name] boundary_of_update [OF name] by simp }
  assume "boundary_of r (cb_consumer_name b) (cb_producer_name b) \<noteq> None"
  then obtain old where old: "map_of r ?key = Some old"
    by (auto simp: boundary_of_def find_consumption_boundary_def)
  then have "(?key, old) \<in> set r" by (simp add: map_of_SomeD)
  then have "make_key (cb_consumer_name old) (cb_producer_name old) = ?key" "consumer_name_ok (cb_consumer_name old)"
    using ok by (auto simp: boundary_repo_ok_def)
  then have "cb_consumer_name old = cb_consumer_name b" "cb_producer_name old = cb_producer_name b"
    using make_key_inj name by auto
  then have "old\<lparr>cb_last_consumed_message_id := cb_last_consumed_message_id b\<rparr> = b" by simp
  then have "update_consumption_boundary b r = (Inr (), AList.update ?key b r)"
    using old by (simp only: update_consumption_boundary_def Let_def option.case)
  then show "\<exists>r'. update_consumption_boundary b r = (Inr (), r') \<and> boundary_repo_ok r' \<and>
      (\<forall>c p. consumer_name_ok c \<longrightarrow> boundary_of r' c p =
         (if c = cb_consumer_name b \<and> p = cb_producer_name b then Some (cb_last_consumed_message_id b) else boundary_of r c p))"
    using boundary_repo_ok_update [OF ok name] boundary_of_update [OF name] by simp
qed (rule boundary_of_listing)

end
