(* ===== verification/Outbox_Relay.thy ===== *)
theory Outbox_Relay
  imports Outbox_Repos
begin

text \<open>
  The relay as a step relation. The jobs of the producers run concurrently, and so do the consumers of
  one message; each read or write of a repository, and each call of a consumer, is a step, and steps of
  different jobs and consumers interleave freely. Other code may post messages and change the world
  between any two steps, and the processor may stop at any point and be started again.

  The invariant \<open>relay_inv\<close> ties the boundaries of the routes to the deliveries recorded in the trace.
\<close>

section \<open>Steps\<close>

text \<open>Pending consumers of the current message carry a flag: has the consumer returned?\<close>

datatype relay_work = Unloaded | Feeding "(string \<times> outbox_message \<times> bool) list" "outbox_message list"

record relay_run =
  rrn_job :: relay_job
  rrn_latest :: outbox_message_id
  rrn_bounds :: "string \<rightharpoonup> outbox_message_id"
  rrn_work :: relay_work

datatype relay_phase = Stopped | Waiting | Selected "string \<rightharpoonup> outbox_message_id" | Relaying "relay_run list"

datatype relay_label = Posted string string | DeliveredTo string outbox_message | AcknowledgedBy string outbox_message | Internal

definition new_run :: "relay_job \<times> outbox_message_id \<times> (string \<rightharpoonup> outbox_message_id) \<Rightarrow> relay_run" where
  "new_run t = (case t of (job, latest, bounds) \<Rightarrow>
     \<lparr>rrn_job = job, rrn_latest = latest, rrn_bounds = bounds, rrn_work = Unloaded\<rparr>)"

definition tasks_of :: "relay_run \<Rightarrow> outbox_message \<Rightarrow> (string \<times> outbox_message \<times> bool) list" where
  "tasks_of run m = map (\<lambda>c. (c, m, False)) (consumer_tasks (rrn_job run) (rrn_bounds run) m)"

inductive relay_step ::
  "'w outbox_env \<Rightarrow> dispatching_outbox \<Rightarrow> outbox_processor \<Rightarrow>
   'w outbox_state \<Rightarrow> relay_phase \<Rightarrow> relay_label \<Rightarrow> 'w outbox_state \<Rightarrow> relay_phase \<Rightarrow> bool"
  for env ob proc where
  step_post: "dispatching_post_message env ob now p content st = (r, st') \<Longrightarrow>
     relay_step env ob proc st ph (Posted p content) st' ph"
| step_world: "relay_step env ob proc st ph Internal (st\<lparr>obs_world := w\<rparr>) ph"
| step_stop: "relay_step env ob proc st ph Internal st Stopped"
| step_start: "init_consumption_records proc st = (Inr (), st') \<Longrightarrow>
     relay_step env ob proc st Stopped Internal st' Waiting"
| step_start_failed: "init_consumption_records proc st = (Inl f, st') \<Longrightarrow>
     relay_step env ob proc st Stopped Internal st' Stopped"
| step_select_latest: "relay_step env ob proc st Waiting Internal st (Selected (select_latest_message_ids_by_producers st))"
| step_select_boundaries: "relay_step env ob proc st (Selected latest) Internal st
     (Relaying (map new_run (producer_tasks latest
        (select_latest_consumption_boundaries_by_producers st) (otp_producer_relay_jobs proc))))"
| step_load: "rrn_work run = Unloaded \<Longrightarrow>
     load_unprocessed env (rrn_job run) (rrn_latest run) (rrn_bounds run) st = Inr ms \<Longrightarrow>
     relay_step env ob proc st (Relaying (before @ run # after)) Internal
       st (Relaying (before @ run\<lparr>rrn_work := Feeding [] ms\<rparr> # after))"
| step_load_failed: "rrn_work run = Unloaded \<Longrightarrow>
     load_unprocessed env (rrn_job run) (rrn_latest run) (rrn_bounds run) st = Inl f \<Longrightarrow>
     relay_step env ob proc st (Relaying (before @ run # after)) Internal st Stopped"
| step_next: "rrn_work run = Feeding [] (m # ms) \<Longrightarrow>
     relay_step env ob proc st (Relaying (before @ run # after)) Internal
       st (Relaying (before @ run\<lparr>rrn_work := Feeding (tasks_of run m) ms\<rparr> # after))"
| step_deliver: "rrn_work run = Feeding (xs @ (c, m, False) # ys) ms \<Longrightarrow>
     deliver_message env proc c m st = (Inr (), st') \<Longrightarrow>
     relay_step env ob proc st (Relaying (before @ run # after)) (DeliveredTo c m)
       st' (Relaying (before @ run\<lparr>rrn_work := Feeding (xs @ (c, m, True) # ys) ms\<rparr> # after))"
| step_deliver_failed: "rrn_work run = Feeding (xs @ (c, m, False) # ys) ms \<Longrightarrow>
     deliver_message env proc c m st = (Inl f, st') \<Longrightarrow>
     relay_step env ob proc st (Relaying (before @ run # after)) Internal st' Stopped"
| step_shift: "rrn_work run = Feeding (xs @ (c, m, True) # ys) ms \<Longrightarrow>
     shift_boundary c m st = (Inr (), st') \<Longrightarrow>
     relay_step env ob proc st (Relaying (before @ run # after)) (AcknowledgedBy c m)
       st' (Relaying (before @ run\<lparr>rrn_work := Feeding (xs @ ys) ms\<rparr> # after))"
| step_shift_failed: "rrn_work run = Feeding (xs @ (c, m, True) # ys) ms \<Longrightarrow>
     shift_boundary c m st = (Inl f, st') \<Longrightarrow>
     relay_step env ob proc st (Relaying (before @ run # after)) Internal st' Stopped"
| step_finish: "list_all (\<lambda>run. rrn_work run = Feeding [] []) runs \<Longrightarrow>
     relay_step env ob proc st (Relaying runs) Internal st Waiting"

inductive relay_trace ::
  "'w outbox_env \<Rightarrow> dispatching_outbox \<Rightarrow> outbox_processor \<Rightarrow> 'w \<Rightarrow>
   relay_label list \<Rightarrow> 'w outbox_state \<Rightarrow> relay_phase \<Rightarrow> bool"
  for env ob proc w where
  trace_empty: "relay_trace env ob proc w [] (empty_outbox w) Stopped"
| trace_step: "relay_trace env ob proc w tr st ph \<Longrightarrow> relay_step env ob proc st ph l st' ph' \<Longrightarrow>
     relay_trace env ob proc w (tr @ [l]) st' ph'"

text \<open>The messages of a producer that a consumer was handed, in order, with repetitions.\<close>

fun delivered_ids :: "string \<Rightarrow> string \<Rightarrow> relay_label list \<Rightarrow> outbox_message_id list" where
  "delivered_ids p c [] = []"
| "delivered_ids p c (DeliveredTo c' m # tr) =
     (if c' = c \<and> om_producer_name m = p then om_message_id m # delivered_ids p c tr else delivered_ids p c tr)"
| "delivered_ids p c (_ # tr) = delivered_ids p c tr"

text \<open>What was posted for a producer, and how many posts a trace has.\<close>

fun posted_contents :: "string \<Rightarrow> relay_label list \<Rightarrow> string list" where
  "posted_contents p [] = []"
| "posted_contents p (Posted q x # tr) = (if q = p then x # posted_contents p tr else posted_contents p tr)"
| "posted_contents p (_ # tr) = posted_contents p tr"

fun posts :: "relay_label list \<Rightarrow> nat" where
  "posts [] = 0"
| "posts (Posted _ _ # tr) = Suc (posts tr)"
| "posts (_ # tr) = posts tr"

definition posted_ids :: "string \<Rightarrow> 'w outbox_state \<Rightarrow> outbox_message_id list" where
  "posted_ids p st = map om_message_id (filter (\<lambda>m. om_producer_name m = p) (message_log_of (obs_messages st)))"

definition boundary_at :: "'w outbox_state \<Rightarrow> string \<Rightarrow> string \<Rightarrow> outbox_message_id option" where
  "boundary_at st p c = boundary_of (obs_boundaries st) c p"

lemma posts_append [simp]: "posts (tr @ tr') = posts tr + posts tr'"
  by (induction tr rule: posts.induct) simp_all

lemma posted_contents_append [simp]: "posted_contents p (tr @ tr') = posted_contents p tr @ posted_contents p tr'"
  by (induction p tr rule: posted_contents.induct) simp_all

lemma delivered_ids_append: "delivered_ids p c (tr @ tr') = delivered_ids p c tr @ delivered_ids p c tr'"
  by (induction p c tr rule: delivered_ids.induct) auto

lemma delivered_ids_snoc [simp]:
  "delivered_ids p c (tr @ [Internal]) = delivered_ids p c tr"
  "delivered_ids p c (tr @ [Posted q x]) = delivered_ids p c tr"
  "delivered_ids p c (tr @ [AcknowledgedBy d m]) = delivered_ids p c tr"
  "delivered_ids p c (tr @ [DeliveredTo d m]) =
     (if d = c \<and> om_producer_name m = p then delivered_ids p c tr @ [om_message_id m] else delivered_ids p c tr)"
  by (simp_all add: delivered_ids_append)

section \<open>Routes of a processor\<close>

definition routes :: "outbox_processor \<Rightarrow> (string \<times> string list) list" where
  "routes proc = rsi_consumers_by_producers (otp_routes_static_info proc)"

definition proc_ok :: "outbox_processor \<Rightarrow> bool" where
  "proc_ok proc \<longleftrightarrow>
     distinct (map fst (routes proc)) \<and>
     (\<forall>(p, cs) \<in> set (routes proc). cs \<noteq> [] \<and> distinct cs \<and> list_all consumer_name_ok cs) \<and>
     otp_producer_relay_jobs proc =
       map (\<lambda>(p, cs). \<lparr>prj_producer_name = p, prj_consumer_names = cs\<rparr>) (routes proc)"

definition grouped_ok :: "(string \<times> string list) list \<Rightarrow> bool" where
  "grouped_ok m \<longleftrightarrow> distinct (map fst m) \<and>
     (\<forall>(p, cs) \<in> set m. cs \<noteq> [] \<and> distinct cs \<and> list_all consumer_name_ok cs)"

lemma grouped_ok_add_route:
  assumes "grouped_ok m" and "consumer_name_ok (sub_consumer_name row)"
  shows "grouped_ok (add_route row m)"
proof -
  let ?p = "sub_producer_name row" and ?c = "sub_consumer_name row"
  let ?cs = "case map_of m ?p of Some cs \<Rightarrow> List.insert ?c cs | None \<Rightarrow> [?c]"
  have "?cs \<noteq> [] \<and> distinct ?cs \<and> list_all consumer_name_ok ?cs"
    using assms by (auto simp: grouped_ok_def list_all_iff List.insert_def split: option.split dest!: map_of_SomeD)
  then show ?thesis
    using assms(1) set_update_subset [of ?p ?cs m]
    by (fastforce simp: grouped_ok_def add_route_def distinct_update)
qed

lemma grouped_ok_fold:
  "grouped_ok m \<Longrightarrow> \<forall>row \<in> set rows. consumer_name_ok (sub_consumer_name row) \<Longrightarrow> grouped_ok (fold add_route rows m)"
  by (induction rows arbitrary: m) (simp_all add: grouped_ok_add_route)

lemma new_processor_ok:
  assumes "new_outbox_processor env = Inr proc"
    and "list_all (\<lambda>row. consumer_name_ok (sub_consumer_name row)) (rsi_durable_routes (otp_routes_static_info proc))"
  shows "proc_ok proc"
proof -
  obtain info where info: "make_static_routes_info (obe_catalog env) (obe_dispatchers env) = Inr info"
    and proc: "otp_routes_static_info proc = info"
      "otp_producer_relay_jobs proc = map (\<lambda>(p, cs). \<lparr>prj_producer_name = p, prj_consumer_names = cs\<rparr>) (rsi_consumers_by_producers info)"
    using assms(1) by (auto simp: new_outbox_processor_def and_then_eq_Inr)
  have "routes proc = fold add_route (rsi_durable_routes info) []"
    using info unfolding proc(1) [symmetric]
    by (auto simp: make_static_routes_info_def and_then_eq_Inr routes_def group_consumers_by_producers_def proc(1) dest!: sym [of _ info])
  moreover have "grouped_ok (fold add_route (rsi_durable_routes info) [])"
    using assms(2) proc(1) by (intro grouped_ok_fold) (auto simp: grouped_ok_def list_all_iff)
  ultimately show ?thesis using proc by (simp add: proc_ok_def grouped_ok_def routes_def)
qed

lemma route_consumer_ok: "proc_ok proc \<Longrightarrow> (p, cs) \<in> set (routes proc) \<Longrightarrow> c \<in> set cs \<Longrightarrow> consumer_name_ok c"
  by (auto simp: proc_ok_def list_all_iff)

section \<open>Starting: boundaries for new routes\<close>

lemma feach_append: "feach f (xs @ ys) = fbind (feach f xs) (\<lambda>_. feach f ys)"
  by (induction xs) (auto simp: fbind_def freturn_def fun_eq_iff split: prod.splits sum.splits)

lemma feach_nested:
  "feach (\<lambda>(p, cs). feach (f p) cs) xs = feach (\<lambda>(p, c). f p c) (concat (map (\<lambda>(p, cs). map (Pair p) cs) xs))"
proof (induction xs)
  case (Cons x xs)
  obtain p cs where x: "x = (p, cs)" by fastforce
  have "feach (\<lambda>(p, c). f p c) (map (Pair p) cs) = feach (f p) cs" by (induction cs) simp_all
  then show ?case using Cons by (simp add: x feach_append)
qed simp

definition route_pairs :: "outbox_processor \<Rightarrow> (string \<times> string) list" where
  "route_pairs proc = concat (map (\<lambda>(p, cs). map (Pair p) cs) (routes proc))"

lemma route_pairs_iff: "(p, c) \<in> set (route_pairs proc) \<longleftrightarrow> (\<exists>cs. (p, cs) \<in> set (routes proc) \<and> c \<in> set cs)"
  by (force simp: route_pairs_def)

lemma route_pairs_ok: "proc_ok proc \<Longrightarrow> (p, c) \<in> set (route_pairs proc) \<Longrightarrow> consumer_name_ok c"
  using route_consumer_ok by (auto simp: route_pairs_iff)

lemma distinct_route_pairs:
  assumes "proc_ok proc"
  shows "distinct (route_pairs proc)"
proof -
  have "distinct (concat (map (\<lambda>(p, cs). map (Pair p) cs) m))"
    if "distinct (map fst m)" "\<forall>(p, cs) \<in> set m. distinct cs" for m :: "(string \<times> string list) list"
    using that by (induction m) (force simp: distinct_map inj_on_def)+
  then show ?thesis using assms by (auto simp: route_pairs_def proc_ok_def)
qed

lemma new_boundary_creates:
  assumes "boundary_repo_ok (obs_boundaries st)" and "consumer_name_ok c" and "boundary_at st p c = None"
  shows "\<exists>bs. new_boundary p c st = (Inr (), st\<lparr>obs_boundaries := bs\<rparr>) \<and> boundary_repo_ok bs \<and>
    (\<forall>q d. consumer_name_ok d \<longrightarrow> boundary_of bs d q = (if d = c \<and> q = p then Some 0 else boundary_at st q d))"
  using boundaries.create_new [of "obs_boundaries st" "\<lparr>cb_producer_name = p, cb_consumer_name = c, cb_last_consumed_message_id = 0\<rparr>"] assms
  by (auto simp: new_boundary_def boundary_at_def)

lemma init_pairs:
  assumes "boundary_repo_ok (obs_boundaries st)" and "distinct ps" and "\<forall>(p, c) \<in> set ps. consumer_name_ok c"
    and "\<forall>(p, c) \<in> set ps. boundary_at st p c = None \<longleftrightarrow> (p, c) \<notin> matched"
  shows "\<exists>bs. feach (\<lambda>(p, c). if (p, c) \<notin> matched then new_boundary p c else freturn ()) ps st = (Inr (), st\<lparr>obs_boundaries := bs\<rparr>) \<and>
    boundary_repo_ok bs \<and>
    (\<forall>p c. consumer_name_ok c \<longrightarrow> boundary_of bs c p =
       (if boundary_at st p c = None \<and> (p, c) \<in> set ps then Some 0 else boundary_at st p c))"
  using assms
proof (induction ps arbitrary: st)
  case Nil
  then show ?case by (auto simp: freturn_def boundary_at_def intro!: exI [of _ "obs_boundaries st"])
next
  case (Cons x ps)
  obtain p c where x: "x = (p, c)" by fastforce
  show ?case
  proof (cases "(p, c) \<in> matched")
    case True
    then show ?thesis using Cons.IH [of st] Cons.prems by (auto simp: x fbind_def freturn_def)
  next
    case False
    then obtain bs where bs: "new_boundary p c st = (Inr (), st\<lparr>obs_boundaries := bs\<rparr>)" "boundary_repo_ok bs"
      "\<forall>q d. consumer_name_ok d \<longrightarrow> boundary_of bs d q = (if d = c \<and> q = p then Some 0 else boundary_at st q d)"
      using new_boundary_creates [of st c p] Cons.prems by (auto simp: x)
    have "\<forall>(q, d) \<in> set ps. boundary_at (st\<lparr>obs_boundaries := bs\<rparr>) q d = boundary_at st q d"
      using bs(3) Cons.prems(2,3) by (auto simp: x boundary_at_def)
    then have "\<forall>(q, d) \<in> set ps. boundary_at (st\<lparr>obs_boundaries := bs\<rparr>) q d = None \<longleftrightarrow> (q, d) \<notin> matched"
      using Cons.prems(4) by fastforce
    then obtain bs' where "feach (\<lambda>(p, c). if (p, c) \<notin> matched then new_boundary p c else freturn ()) ps (st\<lparr>obs_boundaries := bs\<rparr>)
          = (Inr (), st\<lparr>obs_boundaries := bs'\<rparr>)" "boundary_repo_ok bs'"
      "\<forall>q d. consumer_name_ok d \<longrightarrow> boundary_of bs' d q = (if boundary_of bs d q = None \<and> (q, d) \<in> set ps then Some 0 else boundary_of bs d q)"
      using Cons.IH [of "st\<lparr>obs_boundaries := bs\<rparr>"] Cons.prems(2,3) bs(2) by (auto simp: x boundary_at_def)
    moreover have "boundary_at st p c = None" using Cons.prems(4) False by (auto simp: x)
    ultimately show ?thesis
      using False bs(1,3) Cons.prems(3) by (intro exI [of _ bs']) (auto simp: x fbind_def)
  qed
qed

lemma init_consumption_records_ok:
  assumes "proc_ok proc" and "boundary_repo_ok (obs_boundaries st)"
  shows "\<exists>bs. init_consumption_records proc st = (Inr (), st\<lparr>obs_boundaries := bs\<rparr>) \<and> boundary_repo_ok bs \<and>
    (\<forall>p c. consumer_name_ok c \<longrightarrow> boundary_of bs c p =
       (if boundary_at st p c = None \<and> (p, c) \<in> set (route_pairs proc) then Some 0 else boundary_at st p c))"
proof -
  let ?matched = "set (map (\<lambda>b. (cb_producer_name b, cb_consumer_name b)) (list_consumption_boundaries (obs_boundaries st)))"
  have "init_consumption_records proc st =
      feach (\<lambda>(p, c). if (p, c) \<notin> ?matched then new_boundary p c else freturn ()) (route_pairs proc) st"
    unfolding init_consumption_records_def Let_def route_pairs_def routes_def feach_nested ..
  moreover have "\<forall>(p, c) \<in> set (route_pairs proc). boundary_at st p c = None \<longleftrightarrow> (p, c) \<notin> ?matched"
    by (clarify, subst boundaries.matched_iff [OF assms(2) route_pairs_ok [OF assms(1)]]) (auto simp: boundary_at_def)
  moreover have "\<forall>(p, c) \<in> set (route_pairs proc). consumer_name_ok c"
    using route_pairs_ok [OF assms(1)] by auto
  ultimately show ?thesis
    using init_pairs [OF assms(2) distinct_route_pairs [OF assms(1)]] by presburger
qed

end
