(* ===== verification/Outbox_Invariant.thy ===== *)
theory Outbox_Invariant
  imports Outbox_Relay
begin

text \<open>
  The invariant of the relay, kept by every step of every interleaving: the boundary of a route is one
  of the posted messages, what the consumer was handed is, up to immediate repetition, a prefix of what
  the producer posted, and it is at most one message ahead of the boundary.
\<close>

section \<open>One route\<close>

definition route_inv :: "outbox_message_id list \<Rightarrow> outbox_message_id option \<Rightarrow> outbox_message_id list \<Rightarrow> bool" where
  "route_inv ids b d \<longleftrightarrow>
     (case b of
        None \<Rightarrow> d = []
      | Some i \<Rightarrow> \<exists>j k. j \<le> k \<and> k \<le> Suc j \<and> k \<le> length ids \<and> i = (0 # ids) ! j \<and> remdups_adj d = take k ids)"

lemma route_invI:
  "j \<le> k \<Longrightarrow> k \<le> Suc j \<Longrightarrow> k \<le> length ids \<Longrightarrow> i = (0 # ids) ! j \<Longrightarrow> remdups_adj d = take k ids \<Longrightarrow> route_inv ids (Some i) d"
  unfolding route_inv_def by auto

lemma route_invE:
  assumes "route_inv ids (Some i) d"
  obtains j k where "j \<le> k" "k \<le> Suc j" "k \<le> length ids" "i = (0 # ids) ! j" "remdups_adj d = take k ids"
  using assms unfolding route_inv_def by auto

lemma remdups_adj_snoc:
  "remdups_adj (xs @ [x]) = (if xs \<noteq> [] \<and> last xs = x then remdups_adj xs else remdups_adj xs @ [x])"
  by (induction xs rule: remdups_adj.induct) auto

lemma filter_above_nth:
  assumes "sorted_wrt (<) (z # ids)" and "j \<le> length ids"
  shows "filter (\<lambda>i. (z # ids) ! j < i) ids = drop j (ids :: int list)"
  using assms
proof (induction ids arbitrary: z j)
  case (Cons x ids)
  show ?case
  proof (cases j)
    case 0
    then show ?thesis using Cons.prems(1) by (auto intro: filter_True)
  next
    case (Suc j')
    moreover have "x \<le> (x # ids) ! j'"
      using Cons.prems Suc by (cases j') (auto intro: less_imp_le dest: nth_mem)
    ultimately show ?thesis using Cons.IH [of x j'] Cons.prems by simp
  qed
qed simp

lemma route_inv_extend:
  assumes "route_inv ids b d"
  shows "route_inv (ids @ new) b d"
proof (cases b)
  case (Some i)
  then obtain j k where "j \<le> k" "k \<le> Suc j" "k \<le> length ids" "i = (0 # ids) ! j" "remdups_adj d = take k ids"
    using assms by (auto elim: route_invE)
  moreover from this have "(0 # ids @ new) ! j = (0 # ids) ! j" using nth_append [of "0 # ids" new j] by simp
  ultimately show ?thesis unfolding Some by (intro route_invI [of j k]) auto
qed (use assms in \<open>simp add: route_inv_def\<close>)

lemma route_inv_new: "route_inv ids (Some 0) []"
  by (rule route_invI [of 0 0]) auto

text \<open>The next message of a route, and what is left after it.\<close>

lemma route_next:
  fixes ids :: "int list"
  assumes "sorted_wrt (<) (0 # ids)" and "j \<le> length ids" and "filter (\<lambda>i. (0 # ids) ! j < i) ids = m # rest"
  shows "j < length ids \<and> m = ids ! j \<and> filter (\<lambda>i. m < i) ids = rest"
proof -
  have drop: "drop j ids = m # rest" using filter_above_nth [OF assms(1,2)] assms(3) by simp
  then have less: "j < length ids" by (metis drop_all leI list.distinct(1))
  then have m: "m = ids ! j" and rest: "rest = drop (Suc j) ids" using drop by (auto simp: Cons_nth_drop_Suc [symmetric])
  then show ?thesis using less filter_above_nth [OF assms(1), of "Suc j"] by simp
qed

lemma route_inv_deliver:
  assumes "sorted_wrt (<) (0 # ids)" and "route_inv ids (Some b) d" and "filter (\<lambda>i. b < i) ids = m # rest"
  shows "route_inv ids (Some b) (d @ [m])"
proof -
  obtain j k where jk: "j \<le> k" "k \<le> Suc j" "k \<le> length ids" "b = (0 # ids) ! j" "remdups_adj d = take k ids"
    using assms(2) by (rule route_invE)
  have m: "j < length ids" "m = ids ! j" using route_next [OF assms(1), of j m rest] jk(1,3) assms(3) unfolding jk(4) by simp_all
  have "distinct ids" using assms(1) by (simp add: strict_sorted_iff)
  have last: "last d = last (take k ids)" "d = [] \<longleftrightarrow> take k ids = []"
    using jk(5) by (metis last_remdups_adj, metis remdups_adj_Nil_iff)
  have "remdups_adj (d @ [m]) = take (Suc j) ids"
  proof (cases "k = j")
    case True
    have "d \<noteq> [] \<Longrightarrow> last d \<noteq> m"
    proof
      assume "d \<noteq> []" "last d = m"
      then have "m \<in> set (take j ids)" using last True by (metis last_in_set)
      then show False using m \<open>distinct ids\<close> by (auto simp: in_set_conv_nth nth_eq_iff_index_eq)
    qed
    then show ?thesis using True jk(5) m by (auto simp: remdups_adj_snoc take_Suc_conv_app_nth)
  next
    case False
    then have k: "k = Suc j" using jk by simp
    then have "take k ids = take j ids @ [m]" using m by (simp add: take_Suc_conv_app_nth)
    then show ?thesis using last jk(5) k by (simp add: remdups_adj_snoc)
  qed
  then show ?thesis using jk(4) m(1) by (intro route_invI [of j "Suc j"]) simp_all
qed

lemma route_inv_shift:
  assumes "sorted_wrt (<) (0 # ids)" and "route_inv ids (Some b) d" and "filter (\<lambda>i. b < i) ids = m # rest" and "m \<in> set d"
  shows "route_inv ids (Some m) d" and "filter (\<lambda>i. m < i) ids = rest"
proof -
  obtain j k where jk: "j \<le> k" "k \<le> Suc j" "k \<le> length ids" "b = (0 # ids) ! j" "remdups_adj d = take k ids"
    using assms(2) by (rule route_invE)
  have m: "j < length ids" "m = ids ! j" "filter (\<lambda>i. m < i) ids = rest"
    using route_next [OF assms(1), of j m rest] jk(1,3) assms(3) unfolding jk(4) by auto
  have "distinct ids" using assms(1) by (simp add: strict_sorted_iff)
  have "m \<in> set (take k ids)" using assms(4) jk(5) by (metis remdups_adj_set)
  then have "k \<noteq> j" using m \<open>distinct ids\<close> by (auto simp: in_set_conv_nth nth_eq_iff_index_eq)
  then have "k = Suc j" using jk by simp
  then show "route_inv ids (Some m) d" using jk(3,5) m(2) by (intro route_invI [of "Suc j" "Suc j"]) simp_all
  show "filter (\<lambda>i. m < i) ids = rest" by (rule m(3))
qed

section \<open>The whole relay\<close>

text \<open>What a run still has to hand to a consumer.\<close>

definition remaining ::
  "(string \<rightharpoonup> outbox_message_id) \<Rightarrow> string \<Rightarrow> (string \<times> outbox_message \<times> bool) list \<Rightarrow> outbox_message list \<Rightarrow> outbox_message_id list" where
  "remaining bounds c pend rest =
     map (\<lambda>(_, m, _). om_message_id m) (filter (\<lambda>t. fst t = c) pend) @
     filter (\<lambda>i. (case bounds c of Some b \<Rightarrow> b | None \<Rightarrow> 0) < i) (map om_message_id rest)"

definition run_inv :: "outbox_processor \<Rightarrow> relay_label list \<Rightarrow> 'w outbox_state \<Rightarrow> relay_run \<Rightarrow> bool" where
  "run_inv proc tr st run \<longleftrightarrow>
     (let p = prj_producer_name (rrn_job run); cs = prj_consumer_names (rrn_job run)
      in (p, cs) \<in> set (routes proc) \<and>
         (case rrn_work run of
            Unloaded \<Rightarrow> \<forall>c \<in> set cs. rrn_bounds run c = boundary_at st p c
          | Feeding pend rest \<Rightarrow>
              distinct (map fst pend) \<and> set (map fst pend) \<subseteq> set cs \<and>
              (\<forall>(c, m, handled) \<in> set pend. om_producer_name m = p \<and>
                 (handled \<longrightarrow> om_message_id m \<in> set (delivered_ids p c tr))) \<and>
              (\<forall>m \<in> set rest. om_producer_name m = p) \<and>
              (\<forall>c \<in> set cs. \<forall>b. boundary_at st p c = Some b \<longrightarrow>
                 prefix (remaining (rrn_bounds run) c pend rest) (filter (\<lambda>i. b < i) (posted_ids p st)))))"

definition data_inv :: "relay_label list \<Rightarrow> 'w outbox_state \<Rightarrow> bool" where
  "data_inv tr st \<longleftrightarrow>
     message_repo_ok (obs_messages st) \<and> length (message_log_of (obs_messages st)) \<le> posts tr \<and>
     boundary_repo_ok (obs_boundaries st) \<and>
     (\<forall>p c. consumer_name_ok c \<longrightarrow> route_inv (posted_ids p st) (boundary_at st p c) (delivered_ids p c tr))"

definition routes_present :: "outbox_processor \<Rightarrow> 'w outbox_state \<Rightarrow> bool" where
  "routes_present proc st \<longleftrightarrow> (\<forall>(p, c) \<in> set (route_pairs proc). boundary_at st p c \<noteq> None)"

definition phase_inv :: "outbox_processor \<Rightarrow> relay_label list \<Rightarrow> 'w outbox_state \<Rightarrow> relay_phase \<Rightarrow> bool" where
  "phase_inv proc tr st ph \<longleftrightarrow>
     (ph \<noteq> Stopped \<longrightarrow> routes_present proc st) \<and>
     (\<forall>runs. ph = Relaying runs \<longrightarrow>
        distinct (map (\<lambda>run. prj_producer_name (rrn_job run)) runs) \<and> list_all (run_inv proc tr st) runs)"

definition relay_inv :: "outbox_processor \<Rightarrow> relay_label list \<Rightarrow> 'w outbox_state \<Rightarrow> relay_phase \<Rightarrow> bool" where
  "relay_inv proc tr st ph \<longleftrightarrow> data_inv tr st \<and> phase_inv proc tr st ph"

lemma sorted_posted: "data_inv tr st \<Longrightarrow> sorted_wrt (<) (0 # posted_ids p st)"
  using msg_log.sorted_ids [of "obs_messages st" p] by (simp add: data_inv_def posted_ids_def msg_log.ids_def)

lemma posted_ids_eq: "posted_ids p st = msg_log.ids (obs_messages st) p"
  by (simp add: posted_ids_def msg_log.ids_def)

lemma prefix_filter: "prefix xs ys \<Longrightarrow> prefix (filter P xs) (filter P ys)"
  by (auto simp: prefix_def)

lemma run_inv_mono:
  assumes "run_inv proc tr st run"
    and "\<And>c. c \<in> set (prj_consumer_names (rrn_job run)) \<Longrightarrow>
       boundary_at st' (prj_producer_name (rrn_job run)) c = boundary_at st (prj_producer_name (rrn_job run)) c"
    and "\<And>p. prefix (posted_ids p st) (posted_ids p st')"
    and "\<And>p c. set (delivered_ids p c tr) \<subseteq> set (delivered_ids p c tr')"
  shows "run_inv proc tr' st' run"
proof (cases "rrn_work run")
  case Unloaded
  then show ?thesis using assms(1,2) by (simp add: run_inv_def Let_def)
next
  case (Feeding pend rest)
  let ?p = "prj_producer_name (rrn_job run)" and ?cs = "prj_consumer_names (rrn_job run)"
  have inv: "(?p, ?cs) \<in> set (routes proc)" "distinct (map fst pend)" "set (map fst pend) \<subseteq> set ?cs"
    "\<forall>(c, m, handled) \<in> set pend. om_producer_name m = ?p \<and> (handled \<longrightarrow> om_message_id m \<in> set (delivered_ids ?p c tr))"
    "\<forall>m \<in> set rest. om_producer_name m = ?p"
    "\<forall>c \<in> set ?cs. \<forall>b. boundary_at st ?p c = Some b \<longrightarrow>
       prefix (remaining (rrn_bounds run) c pend rest) (filter (\<lambda>i. b < i) (posted_ids ?p st))"
    using assms(1) Feeding by (simp_all add: run_inv_def Let_def)
  have "\<forall>(c, m, handled) \<in> set pend. om_producer_name m = ?p \<and> (handled \<longrightarrow> om_message_id m \<in> set (delivered_ids ?p c tr'))"
    using inv(4) assms(4) by blast
  moreover have "\<forall>c \<in> set ?cs. \<forall>b. boundary_at st' ?p c = Some b \<longrightarrow>
       prefix (remaining (rrn_bounds run) c pend rest) (filter (\<lambda>i. b < i) (posted_ids ?p st'))"
    using inv(6) assms(2) prefix_order.trans [OF _ prefix_filter [OF assms(3)]] by auto
  ultimately show ?thesis using inv(1-3,5) Feeding by (simp add: run_inv_def Let_def)
qed

lemma phase_inv_mono:
  assumes "phase_inv proc tr st ph" and "\<And>p c. boundary_at st' p c = boundary_at st p c"
    and "\<And>p. prefix (posted_ids p st) (posted_ids p st')"
    and "\<And>p c. set (delivered_ids p c tr) \<subseteq> set (delivered_ids p c tr')"
  shows "phase_inv proc tr' st' ph"
  using assms run_inv_mono [OF _ assms(2-4)] by (auto simp: phase_inv_def routes_present_def list_all_iff)

lemma phase_inv_stopped [simp]: "phase_inv proc tr st Stopped"
  by (simp add: phase_inv_def)

subsection \<open>Effects of the operations\<close>

lemma deliver_message_effect:
  assumes "deliver_message env proc c m st = (r, st')"
  obtains w where "st' = st\<lparr>obs_world := w\<rparr>"
proof -
  have "\<exists>w. st' = st\<lparr>obs_world := w\<rparr>"
  proof (cases "map_of (rsi_message_dispatchers (otp_routes_static_info proc)) (om_producer_name m)")
    case None
    then have "st' = st\<lparr>obs_world := obs_world st\<rparr>" using assms by (simp add: deliver_message_def)
    then show ?thesis by blast
  qed (use assms in \<open>auto simp: deliver_message_def dispatch_message_def split: prod.splits\<close>)
  then show ?thesis using that by blast
qed

lemma dispatch_message_keeps:
  "dispatch_message env d flt content st = (r, st') \<Longrightarrow> obs_messages st' = obs_messages st \<and> obs_boundaries st' = obs_boundaries st"
  by (auto simp: dispatch_message_def split: prod.splits)

lemma immediate_post_keeps:
  "immediate_post_message env ds flt p content st = (r, st') \<Longrightarrow>
     obs_messages st' = obs_messages st \<and> obs_boundaries st' = obs_boundaries st"
  by (auto simp: immediate_post_message_def freturn_def split: option.splits dest: dispatch_message_keeps)

lemma post_effect:
  assumes "dispatching_post_message env ob now p content st = (r, st')"
  shows "obs_boundaries st' = obs_boundaries st"
    and "obs_messages st' = (if p \<in> set (dso_durable_producers ob)
       then push_message \<lparr>nom_producer_name = p, nom_content_json = content, nom_occurred_on = now\<rparr> (obs_messages st)
       else obs_messages st)"
  using assms unfolding dispatching_post_message_def
  by (auto simp: fbind_def freturn_def transactional_post_message_def split: if_splits dest!: immediate_post_keeps)

lemma shift_boundary_effect:
  assumes "boundary_repo_ok (obs_boundaries st)" and "consumer_name_ok c" and "boundary_at st (om_producer_name m) c \<noteq> None"
  shows "\<exists>bs. shift_boundary c m st = (Inr (), st\<lparr>obs_boundaries := bs\<rparr>) \<and> boundary_repo_ok bs \<and>
    (\<forall>q d. consumer_name_ok d \<longrightarrow> boundary_of bs d q =
       (if d = c \<and> q = om_producer_name m then Some (om_message_id m) else boundary_at st q d))"
  using boundaries.update_old [of "obs_boundaries st" "\<lparr>cb_producer_name = om_producer_name m, cb_consumer_name = c,
      cb_last_consumed_message_id = om_message_id m\<rparr>"] assms
  by (auto simp: shift_boundary_def boundary_at_def)

subsection \<open>Every step keeps the invariant\<close>

lemma data_inv_frame:
  assumes "data_inv tr st" and "obs_messages st' = obs_messages st" and "obs_boundaries st' = obs_boundaries st"
    and "\<And>p c. delivered_ids p c tr' = delivered_ids p c tr" and "posts tr \<le> posts tr'"
  shows "data_inv tr' st'"
  using assms by (auto simp: data_inv_def posted_ids_def boundary_at_def)

lemma inv_frame:
  assumes "relay_inv proc tr st ph" and "obs_messages st' = obs_messages st" and "obs_boundaries st' = obs_boundaries st"
  shows "relay_inv proc (tr @ [Internal]) st' ph"
  using assms data_inv_frame [of tr st st' "tr @ [Internal]"] phase_inv_mono [of proc tr st ph st' "tr @ [Internal]"]
  by (simp add: relay_inv_def posted_ids_def boundary_at_def)

lemma inv_post:
  assumes inv: "relay_inv proc tr st ph" and "posts tr < 2 ^ 63 - 1"
    and post: "dispatching_post_message env ob now p content st = (r, st')"
  shows "relay_inv proc (tr @ [Posted p content]) st' ph"
proof -
  have ok: "message_repo_ok (obs_messages st)" "length (message_log_of (obs_messages st)) < 2 ^ 63 - 1"
      "length (message_log_of (obs_messages st)) \<le> posts tr"
    using inv assms(2) by (auto simp: relay_inv_def data_inv_def)
  let ?nm = "\<lparr>nom_producer_name = p, nom_content_json = content, nom_occurred_on = now\<rparr>"
  have repo: "message_repo_ok (obs_messages st') \<and> length (message_log_of (obs_messages st')) \<le> Suc (posts tr)"
    using msg_log.push_log [OF ok(1,2), of ?nm] ok post_effect(2) [OF post] by (auto split: if_splits)
  have bnd: "boundary_at st' q c = boundary_at st q c" for q c by (simp add: boundary_at_def post_effect(1) [OF post])
  have pre: "prefix (posted_ids q st) (posted_ids q st')" for q
    using msg_log.push_ids [OF ok(1,2), of q ?nm] post_effect(2) [OF post] by (auto simp: posted_ids_eq split: if_splits)
  have "route_inv (posted_ids q st') (boundary_at st' q c) (delivered_ids q c tr)" if "consumer_name_ok c" for q c
  proof -
    have "route_inv (posted_ids q st) (boundary_at st q c) (delivered_ids q c tr)"
      using inv that by (simp add: relay_inv_def data_inv_def)
    then show ?thesis unfolding bnd using pre [of q] route_inv_extend by (auto simp: prefix_def)
  qed
  moreover have "boundary_repo_ok (obs_boundaries st')"
    using inv by (simp add: relay_inv_def data_inv_def post_effect(1) [OF post])
  ultimately have "data_inv (tr @ [Posted p content]) st'"
    using repo unfolding data_inv_def by simp
  moreover have "phase_inv proc (tr @ [Posted p content]) st' ph"
    by (rule phase_inv_mono [of proc tr st]) (use inv bnd pre in \<open>simp_all add: relay_inv_def\<close>)
  ultimately show ?thesis by (simp add: relay_inv_def)
qed

lemma inv_start:
  assumes inv: "relay_inv proc tr st Stopped" and proc: "proc_ok proc"
  shows "\<exists>st'. init_consumption_records proc st = (Inr (), st') \<and> relay_inv proc (tr @ [Internal]) st' Waiting"
proof -
  obtain bs where bs: "init_consumption_records proc st = (Inr (), st\<lparr>obs_boundaries := bs\<rparr>)" "boundary_repo_ok bs"
    "\<And>p c. consumer_name_ok c \<Longrightarrow> boundary_of bs c p =
       (if boundary_at st p c = None \<and> (p, c) \<in> set (route_pairs proc) then Some 0 else boundary_at st p c)"
    using init_consumption_records_ok [OF proc, of st] inv by (auto simp: relay_inv_def data_inv_def)
  let ?st = "st\<lparr>obs_boundaries := bs\<rparr>"
  have same: "posted_ids p ?st = posted_ids p st" for p by (simp add: posted_ids_def)
  have "route_inv (posted_ids p st) (boundary_at ?st p c) (delivered_ids p c tr)" if "consumer_name_ok c" for p c
  proof -
    have old: "route_inv (posted_ids p st) (boundary_at st p c) (delivered_ids p c tr)"
      using inv that by (simp add: relay_inv_def data_inv_def)
    then have "delivered_ids p c tr = []" if "boundary_at st p c = None" using that by (simp add: route_inv_def)
    then show ?thesis using old bs(3) [OF that, of p] route_inv_new by (auto simp: boundary_at_def split: if_splits)
  qed
  then have "data_inv (tr @ [Internal]) ?st"
    using inv bs(2) by (simp add: relay_inv_def data_inv_def same)
  moreover have "routes_present proc ?st"
    using bs(3) route_pairs_ok [OF proc] by (auto simp: routes_present_def boundary_at_def split: if_splits)
  ultimately show ?thesis using bs(1) by (simp add: relay_inv_def phase_inv_def)
qed

text \<open>A new iteration: the snapshot of the boundaries is accurate, one run per producer.\<close>

lemma producer_tasks_sound:
  assumes "(job, l, b) \<in> set (producer_tasks latest bounds jobs)"
  shows "job \<in> set jobs \<and> latest (prj_producer_name job) = Some l \<and> bounds (prj_producer_name job) = Some b"
  using assms
  by (induction latest bounds jobs rule: producer_tasks.induct) (fastforce split: option.splits if_splits)+

lemma producer_tasks_distinct:
  assumes "distinct (map prj_producer_name jobs)"
  shows "distinct (map (\<lambda>t. prj_producer_name (fst t)) (producer_tasks latest bounds jobs))"
  using assms
proof (induction latest bounds jobs rule: producer_tasks.induct)
  case (2 latest bounds job jobs)
  have "prj_producer_name job \<notin> (\<lambda>t. prj_producer_name (fst t)) ` set (producer_tasks latest m jobs)" for m
    using 2(4) producer_tasks_sound by fastforce
  then show ?case using 2 by (auto simp del: fun_upd_apply split: option.split)
qed simp

lemma producer_tasks_complete:
  assumes "distinct (map prj_producer_name jobs)" and "job \<in> set jobs"
    and "latest (prj_producer_name job) = Some l" and "bounds (prj_producer_name job) = Some b"
  shows "(job, l, b) \<in> set (producer_tasks latest bounds jobs)"
  using assms
proof (induction jobs arbitrary: bounds)
  case (Cons job' jobs)
  show ?case
  proof (cases "job = job'")
    case True
    then show ?thesis using Cons.prems(3,4) by simp
  next
    case False
    then have "job \<in> set jobs" "prj_producer_name job' \<noteq> prj_producer_name job" using Cons.prems(1,2) by force+
    moreover from this have "(job, l, b) \<in> set (producer_tasks latest m jobs)" if "m (prj_producer_name job) = Some b" for m
      using Cons.IH [of m] Cons.prems(1,3) that by simp
    ultimately show ?thesis using Cons.prems(4) by (auto split: option.split)
  qed
qed simp

lemma job_producers_distinct: "proc_ok proc \<Longrightarrow> distinct (map prj_producer_name (otp_producer_relay_jobs proc))"
proof -
  assume proc: "proc_ok proc"
  then have "map prj_producer_name (otp_producer_relay_jobs proc) = map fst (routes proc)"
    unfolding proc_ok_def by (elim conjE) (simp add: comp_def case_prod_beta)
  moreover have "distinct (map fst (routes proc))" using proc by (simp add: proc_ok_def)
  ultimately show ?thesis by metis
qed

lemma selected_boundary:
  assumes "boundary_repo_ok (obs_boundaries st)" and "consumer_name_ok c"
  shows "lookup2 (select_latest_consumption_boundaries_by_producers st) p c = boundary_at st p c"
  unfolding select_latest_consumption_boundaries_by_producers_def boundary_at_def by (rule boundaries.selected [OF assms])

lemma selected_task:
  assumes ok: "boundary_repo_ok (obs_boundaries st)" and proc: "proc_ok proc"
    and t: "(job, l, b) \<in> set (producer_tasks latest (select_latest_consumption_boundaries_by_producers st) (otp_producer_relay_jobs proc))"
  shows "(prj_producer_name job, prj_consumer_names job) \<in> set (routes proc)" and "latest (prj_producer_name job) = Some l"
    and "c \<in> set (prj_consumer_names job) \<Longrightarrow> b c = boundary_at st (prj_producer_name job) c"
proof -
  have job: "job \<in> set (otp_producer_relay_jobs proc)" "latest (prj_producer_name job) = Some l"
    "select_latest_consumption_boundaries_by_producers st (prj_producer_name job) = Some b"
    using producer_tasks_sound [OF t] by auto
  then show route: "(prj_producer_name job, prj_consumer_names job) \<in> set (routes proc)"
    using proc by (auto simp: proc_ok_def)
  show "latest (prj_producer_name job) = Some l" by (rule job(2))
  show "b c = boundary_at st (prj_producer_name job) c" if "c \<in> set (prj_consumer_names job)"
    using selected_boundary [OF ok route_consumer_ok [OF proc route that], of "prj_producer_name job"] job(3)
    by (simp add: lookup2_def)
qed

lemma inv_select_boundaries:
  assumes inv: "relay_inv proc tr st (Selected latest)" and proc: "proc_ok proc"
  shows "relay_inv proc (tr @ [Internal]) st (Relaying (map new_run (producer_tasks latest
    (select_latest_consumption_boundaries_by_producers st) (otp_producer_relay_jobs proc))))"
proof -
  let ?tasks = "producer_tasks latest (select_latest_consumption_boundaries_by_producers st) (otp_producer_relay_jobs proc)"
  have ok: "boundary_repo_ok (obs_boundaries st)" using inv by (simp add: relay_inv_def data_inv_def)
  have "distinct (map (\<lambda>run. prj_producer_name (rrn_job run)) (map new_run ?tasks))"
    using producer_tasks_distinct [OF job_producers_distinct [OF proc]] by (simp add: new_run_def case_prod_beta comp_def)
  moreover have "run_inv proc (tr @ [Internal]) st (new_run t)" if "t \<in> set ?tasks" for t
  proof -
    obtain job l b where t: "t = (job, l, b)" using prod_cases3 by blast
    show ?thesis using selected_task [OF ok proc that [unfolded t]] by (simp add: run_inv_def new_run_def t)
  qed
  ultimately show ?thesis
    using inv data_inv_frame [of tr st st "tr @ [Internal]"] by (auto simp: relay_inv_def phase_inv_def list_all_iff)
qed

lemma distinct_map_other:
  assumes "distinct (map f (xs @ x # ys))" and "r \<in> set xs \<union> set ys"
  shows "f r \<noteq> f x"
proof -
  have "f x \<notin> f ` (set xs \<union> set ys)" using assms(1) by (simp add: image_Un)
  then show ?thesis using assms(2) by (metis imageI)
qed

text \<open>A step of one run leaves the others alone.\<close>

lemma inv_run_step:
  assumes inv: "relay_inv proc tr st (Relaying (before @ run # after))"
    and data: "data_inv tr' st'" and present: "routes_present proc st'"
    and job: "rrn_job run' = rrn_job run" and run': "run_inv proc tr' st' run'"
    and frame: "\<And>q c. q \<noteq> prj_producer_name (rrn_job run) \<Longrightarrow> consumer_name_ok c \<Longrightarrow> boundary_at st' q c = boundary_at st q c"
    and "\<And>q. prefix (posted_ids q st) (posted_ids q st')"
    and "\<And>q c. set (delivered_ids q c tr) \<subseteq> set (delivered_ids q c tr')" and proc: "proc_ok proc"
  shows "relay_inv proc tr' st' (Relaying (before @ run' # after))"
proof -
  have "run_inv proc tr' st' r" if r: "r \<in> set before \<union> set after" for r
  proof (rule run_inv_mono [OF _ _ assms(7,8)])
    show "run_inv proc tr st r" using inv r by (auto simp: relay_inv_def phase_inv_def list_all_iff)
    then have route: "(prj_producer_name (rrn_job r), prj_consumer_names (rrn_job r)) \<in> set (routes proc)"
      by (simp add: run_inv_def Let_def)
    have "prj_producer_name (rrn_job r) \<noteq> prj_producer_name (rrn_job run)"
      using inv distinct_map_other [OF _ r, of "\<lambda>run. prj_producer_name (rrn_job run)"]
      by (simp add: relay_inv_def phase_inv_def)
    then show "boundary_at st' (prj_producer_name (rrn_job r)) c = boundary_at st (prj_producer_name (rrn_job r)) c"
      if "c \<in> set (prj_consumer_names (rrn_job r))" for c
      using frame route_consumer_ok [OF proc route that] by blast
  qed
  then show ?thesis
    using inv data present run' by (auto simp: relay_inv_def phase_inv_def list_all_iff job)
qed

lemma run_invD:
  assumes "relay_inv proc tr st (Relaying (before @ run # after))"
  shows "run_inv proc tr st run" and "data_inv tr st" and "routes_present proc st"
  using assms by (auto simp: relay_inv_def phase_inv_def)

end
