(* ===== verification/Outbox_Order.thy ===== *)
theory Outbox_Order
  imports Outbox_Invariant
begin

text \<open>
  The steps of a single run (loading a batch, taking the next message, handing it to a consumer,
  shifting the boundary) keep the invariant of the relay, hence every trace does.
\<close>

lemmas run_inv_defs = run_inv_def Let_def

section \<open>Loading a batch\<close>

lemma earliest_boundary_le:
  assumes "earliest_boundary bounds cs e = Some b" and "\<And>c. c \<in> set cs \<Longrightarrow> bounds c \<noteq> None"
  shows "(\<forall>c \<in> set cs. \<forall>i. bounds c = Some i \<longrightarrow> b \<le> i) \<and> (\<forall>i. e = Some i \<longrightarrow> b \<le> i)"
  using assms
proof (induction bounds cs e rule: earliest_boundary.induct)
  case (2 bounds c cs e)
  obtain i where i: "bounds c = Some i" using 2(3) [of c] by auto
  then show ?case using 2(1) [OF i] 2(2,3) by (cases e) (auto split: if_splits)
qed simp

lemma inv_load:
  assumes inv: "relay_inv proc tr st (Relaying (before @ run # after))" and proc: "proc_ok proc"
    and work: "rrn_work run = Unloaded"
    and load: "load_unprocessed env (rrn_job run) (rrn_latest run) (rrn_bounds run) st = Inr ms"
  shows "relay_inv proc (tr @ [Internal]) st (Relaying (before @ run\<lparr>rrn_work := Feeding [] ms\<rparr> # after))"
proof (rule inv_run_step [OF inv])
  let ?p = "prj_producer_name (rrn_job run)" and ?cs = "prj_consumer_names (rrn_job run)"
  note run = run_invD [OF inv]
  show "data_inv (tr @ [Internal]) st" by (rule data_inv_frame [OF run(2)]) simp_all
  have route: "(?p, ?cs) \<in> set (routes proc)" and snap: "\<forall>c \<in> set ?cs. rrn_bounds run c = boundary_at st ?p c"
    using run(1) work by (simp_all add: run_inv_defs)
  have ok: "message_repo_ok (obs_messages st)" using run(2) by (simp add: data_inv_def)
  have have_bounds: "rrn_bounds run c \<noteq> None" if "c \<in> set ?cs" for c
    using run(3) route snap that by (force simp: routes_present_def route_pairs_iff)
  consider "ms = []" | b n where "earliest_boundary (rrn_bounds run) ?cs None = Some b"
      "ms = get_producer_messages ?p b n (obs_messages st)"
    using load by (auto simp: load_unprocessed_def determine_processed_boundary_id_def split: option.splits if_splits)
  then have "(\<forall>m \<in> set ms. om_producer_name m = ?p) \<and> (\<forall>c \<in> set ?cs. \<forall>b. boundary_at st ?p c = Some b \<longrightarrow>
      prefix (filter (\<lambda>i. b < i) (map om_message_id ms)) (filter (\<lambda>i. b < i) (posted_ids ?p st)))"
  proof cases
    case 1
    then show ?thesis by simp
  next
    case (2 b n)
    have "b \<le> i" if "c \<in> set ?cs" "boundary_at st ?p c = Some i" for c i
      using earliest_boundary_le [OF 2(1) have_bounds] snap that by simp
    then have "prefix (filter (\<lambda>k. i < k) (map om_message_id ms)) (filter (\<lambda>k. i < k) (posted_ids ?p st))"
      if "c \<in> set ?cs" "boundary_at st ?p c = Some i" for c i
      using msg_log.fetch_prefix [OF ok, of b i ?p n] that by (simp add: 2(2) posted_ids_eq filter_map comp_def)
    then show ?thesis using msg_log.fetch_sound [OF ok] 2(2) by auto
  qed
  then show "run_inv proc (tr @ [Internal]) st (run\<lparr>rrn_work := Feeding [] ms\<rparr>)"
    using route snap by (simp add: run_inv_defs remaining_def)
qed (use run_invD [OF inv] proc in simp_all)

section \<open>The next message\<close>

lemma filter_tasks:
  assumes "distinct cs"
  shows "filter (\<lambda>t. fst t = c) (map (\<lambda>c. (c, m, False)) (filter Q cs)) = (if c \<in> set cs \<and> Q c then [(c, m, False)] else [])"
  using assms by (induction cs) auto

lemma remaining_next:
  assumes "distinct (prj_consumer_names (rrn_job run))" and "c \<in> set (prj_consumer_names (rrn_job run))"
  shows "remaining (rrn_bounds run) c (tasks_of run m) ms = remaining (rrn_bounds run) c [] (m # ms)"
  unfolding remaining_def tasks_of_def consumer_tasks_def filter_tasks [OF assms(1)] using assms(2) by auto

lemma inv_next:
  assumes inv: "relay_inv proc tr st (Relaying (before @ run # after))" and proc: "proc_ok proc"
    and work: "rrn_work run = Feeding [] (m # ms)"
  shows "relay_inv proc (tr @ [Internal]) st (Relaying (before @ run\<lparr>rrn_work := Feeding (tasks_of run m) ms\<rparr> # after))"
proof (rule inv_run_step [OF inv])
  let ?p = "prj_producer_name (rrn_job run)" and ?cs = "prj_consumer_names (rrn_job run)"
  note run = run_invD [OF inv]
  show "data_inv (tr @ [Internal]) st" by (rule data_inv_frame [OF run(2)]) simp_all
  have "(?p, ?cs) \<in> set (routes proc)" using run(1) by (simp add: run_inv_defs)
  then have dist: "distinct ?cs" using proc by (auto simp: proc_ok_def)
  have tasks: "map fst (tasks_of run m) = consumer_tasks (rrn_job run) (rrn_bounds run) m"
      "\<forall>(c, m', handled) \<in> set (tasks_of run m). m' = m \<and> \<not> handled"
    by (auto simp: tasks_of_def comp_def)
  have "distinct (map fst (tasks_of run m))" "set (map fst (tasks_of run m)) \<subseteq> set ?cs"
    unfolding tasks(1) using dist by (auto simp: consumer_tasks_def)
  then show "run_inv proc (tr @ [Internal]) st (run\<lparr>rrn_work := Feeding (tasks_of run m) ms\<rparr>)"
    using run(1) work tasks(2) remaining_next [OF dist] by (auto simp: run_inv_defs)
qed (use run_invD [OF inv] proc in simp_all)

section \<open>Handing a message to a consumer\<close>

lemma remaining_split:
  assumes "distinct (map fst (xs @ (c, m, h) # ys))"
  shows "remaining bounds c (xs @ (c, m, h) # ys) ms = om_message_id m # remaining bounds c (xs @ ys) ms"
    and "d \<noteq> c \<Longrightarrow> remaining bounds d (xs @ (c, m, h) # ys) ms = remaining bounds d (xs @ ys) ms"
proof -
  have "filter (\<lambda>t. fst t = c) xs = []" "filter (\<lambda>t. fst t = c) ys = []"
    using assms by (auto simp: filter_empty_conv)
  then show "remaining bounds c (xs @ (c, m, h) # ys) ms = om_message_id m # remaining bounds c (xs @ ys) ms"
    by (simp add: remaining_def)
qed (simp add: remaining_def)

text \<open>The message a pending consumer waits for is the first one above its boundary.\<close>

lemma pending_is_next:
  assumes inv: "relay_inv proc tr st (Relaying (before @ run # after))" and proc: "proc_ok proc"
    and work: "rrn_work run = Feeding (xs @ (c, m, h) # ys) ms"
  obtains b rest where "om_producer_name m = prj_producer_name (rrn_job run)" and "consumer_name_ok c"
    and "c \<in> set (prj_consumer_names (rrn_job run))"
    and "boundary_at st (om_producer_name m) c = Some b"
    and "filter (\<lambda>i. b < i) (posted_ids (om_producer_name m) st) = om_message_id m # rest"
    and "prefix (remaining (rrn_bounds run) c (xs @ ys) ms) rest"
proof -
  let ?p = "prj_producer_name (rrn_job run)" and ?cs = "prj_consumer_names (rrn_job run)"
  note run = run_invD [OF inv]
  have route: "(?p, ?cs) \<in> set (routes proc)" and m: "om_producer_name m = ?p" and c: "c \<in> set ?cs"
    and dist: "distinct (map fst (xs @ (c, m, h) # ys))"
    and pre: "\<And>b. boundary_at st ?p c = Some b \<Longrightarrow>
       prefix (remaining (rrn_bounds run) c (xs @ (c, m, h) # ys) ms) (filter (\<lambda>i. b < i) (posted_ids ?p st))"
    using run(1) work by (auto simp: run_inv_defs)
  have name: "consumer_name_ok c" by (rule route_consumer_ok [OF proc route c])
  have "boundary_at st ?p c \<noteq> None" using run(3) route c by (force simp: routes_present_def route_pairs_iff)
  then obtain b where b: "boundary_at st ?p c = Some b" by auto
  then obtain zs where zs: "filter (\<lambda>i. b < i) (posted_ids ?p st) = om_message_id m # remaining (rrn_bounds run) c (xs @ ys) ms @ zs"
    using pre [OF b] unfolding remaining_split(1) [OF dist] by (auto simp: prefix_def)
  then show ?thesis using that [of b "remaining (rrn_bounds run) c (xs @ ys) ms @ zs"] m name c b by simp
qed

lemma inv_deliver:
  assumes inv: "relay_inv proc tr st (Relaying (before @ run # after))" and proc: "proc_ok proc"
    and work: "rrn_work run = Feeding (xs @ (c, m, False) # ys) ms"
    and del: "deliver_message env proc c m st = (Inr (), st')"
  shows "relay_inv proc (tr @ [DeliveredTo c m]) st' (Relaying (before @ run\<lparr>rrn_work := Feeding (xs @ (c, m, True) # ys) ms\<rparr> # after))"
proof (rule inv_run_step [OF inv])
  let ?p = "prj_producer_name (rrn_job run)" and ?tr = "tr @ [DeliveredTo c m]"
  note run = run_invD [OF inv]
  obtain w where st': "st' = st\<lparr>obs_world := w\<rparr>" using del by (rule deliver_message_effect)
  have same: "posted_ids q st' = posted_ids q st" "boundary_at st' q d = boundary_at st q d" for q d
    by (simp_all add: st' posted_ids_def boundary_at_def)
  obtain b rest where nxt: "om_producer_name m = ?p" "consumer_name_ok c" "c \<in> set (prj_consumer_names (rrn_job run))"
    "boundary_at st (om_producer_name m) c = Some b"
    "filter (\<lambda>i. b < i) (posted_ids (om_producer_name m) st) = om_message_id m # rest"
    using pending_is_next [OF inv proc work] by metis
  have "route_inv (posted_ids q st) (boundary_at st q d) (delivered_ids q d ?tr)" if "consumer_name_ok d" for q d
  proof -
    have old: "route_inv (posted_ids q st) (boundary_at st q d) (delivered_ids q d tr)"
      using run(2) that by (simp add: data_inv_def)
    show ?thesis
    proof (cases "d = c \<and> q = om_producer_name m")
      case True
      then show ?thesis
        using route_inv_deliver [OF sorted_posted [OF run(2)] _ nxt(5)] old nxt(4) by simp
    qed (use old in auto)
  qed
  moreover have "obs_messages st' = obs_messages st" "obs_boundaries st' = obs_boundaries st" by (simp_all add: st')
  ultimately show "data_inv ?tr st'" using run(2) by (simp add: data_inv_def same)
  show "routes_present proc st'" using run(3) by (simp add: routes_present_def same)
  have rem: "remaining bs d (xs @ (c, m, True) # ys) ms = remaining bs d (xs @ (c, m, False) # ys) ms" for bs d
    by (simp add: remaining_def)
  have pend: "\<forall>(d, m', handled) \<in> set (xs @ (c, m, False) # ys). om_producer_name m' = ?p \<and>
      (handled \<longrightarrow> om_message_id m' \<in> set (delivered_ids ?p d tr))"
    using run(1) work by (simp add: run_inv_defs)
  have "om_producer_name m' = ?p \<and> (handled \<longrightarrow> om_message_id m' \<in> set (delivered_ids ?p d ?tr))"
    if "(d, m', handled) \<in> set (xs @ (c, m, True) # ys)" for d m' handled
  proof (cases "(d, m', handled) = (c, m, True)")
    case True
    then show ?thesis using nxt(1) by simp
  next
    case False
    then have "(d, m', handled) \<in> set (xs @ (c, m, False) # ys)" using that by auto
    from bspec [OF pend this] have "om_producer_name m' = ?p" "handled \<longrightarrow> om_message_id m' \<in> set (delivered_ids ?p d tr)"
      by simp_all
    then show ?thesis by simp
  qed
  then have "\<forall>(d, m', handled) \<in> set (xs @ (c, m, True) # ys). om_producer_name m' = ?p \<and>
      (handled \<longrightarrow> om_message_id m' \<in> set (delivered_ids ?p d ?tr))" by blast
  then show "run_inv proc ?tr st' (run\<lparr>rrn_work := Feeding (xs @ (c, m, True) # ys) ms\<rparr>)"
    using run(1) work rem by (simp add: run_inv_defs same del: delivered_ids_snoc)
  show "prefix (posted_ids q st) (posted_ids q st')" for q by (simp add: same)
  show "boundary_at st' q d = boundary_at st q d" for q d by (rule same)
qed (use proc in auto)

section \<open>Shifting a boundary\<close>

lemma inv_shift:
  assumes inv: "relay_inv proc tr st (Relaying (before @ run # after))" and proc: "proc_ok proc"
    and work: "rrn_work run = Feeding (xs @ (c, m, True) # ys) ms"
  shows "\<exists>st'. shift_boundary c m st = (Inr (), st') \<and>
    relay_inv proc (tr @ [AcknowledgedBy c m]) st' (Relaying (before @ run\<lparr>rrn_work := Feeding (xs @ ys) ms\<rparr> # after))"
proof -
  let ?p = "prj_producer_name (rrn_job run)" and ?tr = "tr @ [AcknowledgedBy c m]"
  note run = run_invD [OF inv]
  obtain b rest where nxt: "om_producer_name m = ?p" "consumer_name_ok c" "c \<in> set (prj_consumer_names (rrn_job run))"
    "boundary_at st (om_producer_name m) c = Some b"
    "filter (\<lambda>i. b < i) (posted_ids (om_producer_name m) st) = om_message_id m # rest"
    "prefix (remaining (rrn_bounds run) c (xs @ ys) ms) rest"
    using pending_is_next [OF inv proc work] by metis
  have handled: "om_message_id m \<in> set (delivered_ids ?p c tr)" and dist: "distinct (map fst (xs @ (c, m, True) # ys))"
    and route: "(?p, prj_consumer_names (rrn_job run)) \<in> set (routes proc)"
    using run(1) work by (auto simp: run_inv_defs)
  obtain bs where bs: "shift_boundary c m st = (Inr (), st\<lparr>obs_boundaries := bs\<rparr>)" "boundary_repo_ok bs"
    "\<And>q d. consumer_name_ok d \<Longrightarrow> boundary_of bs d q = (if d = c \<and> q = ?p then Some (om_message_id m) else boundary_at st q d)"
    using shift_boundary_effect [of st c m] run(2) nxt(1,2,4) by (auto simp: data_inv_def)
  let ?st = "st\<lparr>obs_boundaries := bs\<rparr>" and ?run = "run\<lparr>rrn_work := Feeding (xs @ ys) ms\<rparr>"
  have posted: "posted_ids q ?st = posted_ids q st" for q by (simp add: posted_ids_def)
  have bnd: "boundary_at ?st q d = (if d = c \<and> q = ?p then Some (om_message_id m) else boundary_at st q d)"
    if "consumer_name_ok d" for q d using bs(3) [OF that] by (simp add: boundary_at_def)
  have old: "route_inv (posted_ids q st) (boundary_at st q d) (delivered_ids q d tr)" if "consumer_name_ok d" for q d
    using run(2) that by (simp add: data_inv_def)
  note shifted = route_inv_shift [OF sorted_posted [OF run(2)] _ nxt(5) [unfolded nxt(1)] handled]
  have r0: "route_inv (posted_ids ?p st) (Some b) (delivered_ids ?p c tr)"
    using old [OF nxt(2), of ?p] nxt(1,4) by simp
  have "relay_inv proc ?tr ?st (Relaying (before @ ?run # after))"
  proof (rule inv_run_step [OF inv])
    have "route_inv (posted_ids q st) (boundary_at ?st q d) (delivered_ids q d tr)" if "consumer_name_ok d" for q d
      using old [OF that, of q] shifted(1) [OF r0] bnd [OF that, of q] by auto
    then show "data_inv ?tr ?st" using run(2) bs(2) by (simp add: data_inv_def posted)
    show "routes_present proc ?st"
      using run(3) bnd route_pairs_ok [OF proc] by (auto simp: routes_present_def split: if_splits)
    have "prefix (remaining (rrn_bounds run) d (xs @ ys) ms) (filter (\<lambda>i. b' < i) (posted_ids ?p st))"
      if d: "d \<in> set (prj_consumer_names (rrn_job run))" and b': "boundary_at ?st ?p d = Some b'" for d b'
    proof (cases "d = c")
      case True
      then show ?thesis using nxt(6) shifted(2) [OF r0] b' bnd [OF nxt(2), of ?p] by simp
    next
      case False
      then have "boundary_at st ?p d = Some b'" using bnd [OF route_consumer_ok [OF proc route d], of ?p] b' by simp
      then show ?thesis
        using run(1) work d remaining_split(2) [OF dist False] by (auto simp: run_inv_defs)
    qed
    then show "run_inv proc ?tr ?st ?run" using run(1) work by (auto simp: run_inv_defs posted)
    show "boundary_at ?st q d = boundary_at st q d" if "q \<noteq> ?p" "consumer_name_ok d" for q d
      using bnd [OF that(2)] that(1) by simp
  qed (use proc posted in auto)
  then show ?thesis using bs(1) by blast
qed

section \<open>Every trace\<close>

lemma relay_step_inv:
  assumes "relay_step env ob proc st ph l st' ph'" and "relay_inv proc tr st ph"
    and "proc_ok proc" and "posts tr < 2 ^ 63 - 1"
  shows "relay_inv proc (tr @ [l]) st' ph'"
  using assms
proof (cases rule: relay_step.cases)
  case (step_post now p content r)
  then show ?thesis using inv_post assms(2,4) by simp
next
  case (step_world w)
  then show ?thesis using inv_frame [OF assms(2), of st'] by simp
next
  case step_stop
  then show ?thesis using inv_frame [OF assms(2), of st] by (simp add: relay_inv_def)
next
  case step_start
  then show ?thesis using inv_start assms(2,3) by fastforce
next
  case (step_start_failed f)
  then show ?thesis using inv_start assms(2,3) by fastforce
next
  case step_select_latest
  then show ?thesis using inv_frame [OF assms(2), of st] by (simp add: relay_inv_def phase_inv_def)
next
  case (step_select_boundaries latest)
  then show ?thesis using inv_select_boundaries assms(2,3) by simp
next
  case (step_load run ms before after)
  then show ?thesis using inv_load assms(2,3) by simp
next
  case (step_load_failed run f before after)
  then show ?thesis using inv_frame [OF assms(2), of st] by (simp add: relay_inv_def)
next
  case (step_next run m ms before after)
  then show ?thesis using inv_next assms(2,3) by simp
next
  case (step_deliver run xs c m ys ms before after)
  then show ?thesis using inv_deliver assms(2,3) by simp
next
  case (step_deliver_failed run xs c m ys ms f before after)
  then obtain w where "st' = st\<lparr>obs_world := w\<rparr>" using deliver_message_effect by metis
  then show ?thesis using inv_frame [OF assms(2), of st'] step_deliver_failed by (simp add: relay_inv_def)
next
  case (step_shift run xs c m ys ms before after)
  then show ?thesis using inv_shift [of proc tr st before run after xs c m ys ms] assms(2,3) by auto
next
  case (step_shift_failed run xs c m ys ms f before after)
  then show ?thesis using inv_shift [of proc tr st before run after xs c m ys ms] assms(2,3) by auto
next
  case (step_finish runs)
  then show ?thesis using inv_frame [OF assms(2), of st] by (simp add: relay_inv_def phase_inv_def)
qed

lemma relay_inv_empty: "relay_inv proc [] (empty_outbox w) Stopped"
proof -
  have "message_log_of empty_message_repo = []" by (simp add: message_log_of_def empty_message_repo_def)
  then show ?thesis
    by (simp add: relay_inv_def data_inv_def empty_outbox_def message_repo_ok_empty boundary_repo_ok_empty posted_ids_def
        boundary_at_def boundary_of_def find_consumption_boundary_def route_inv_def)
qed

lemma relay_trace_inv:
  assumes "relay_trace env ob proc w tr st ph" and "proc_ok proc" and "posts tr < 2 ^ 63 - 1"
  shows "relay_inv proc tr st ph"
  using assms
proof (induction rule: relay_trace.induct)
  case trace_empty
  show ?case by (rule relay_inv_empty)
next
  case (trace_step tr st ph l st' ph')
  then have "posts tr < 2 ^ 63 - 1" by simp
  then show ?case using relay_step_inv [OF trace_step(2)] trace_step by simp
qed

end
