(* ===== verification/Outbox_Progress.thy ===== *)
theory Outbox_Progress
  imports Outbox_Order
begin

text \<open>
  The processor run one call after the other (\<open>run_single_iteration_only\<close>) is one of the runs of the
  step relation; and when the consumers succeed, its iterations bring every durable consumer up to date.
\<close>

section \<open>A sequential iteration is a run\<close>

definition extends ::
  "'w outbox_env \<Rightarrow> dispatching_outbox \<Rightarrow> outbox_processor \<Rightarrow> 'w \<Rightarrow> relay_label list \<Rightarrow> 'w outbox_state \<Rightarrow> relay_phase \<Rightarrow> bool" where
  "extends env ob proc w tr st ph \<longleftrightarrow> (\<exists>tr'. posts tr' = 0 \<and> relay_trace env ob proc w (tr @ tr') st ph)"

lemma extends_refl: "relay_trace env ob proc w tr st ph \<Longrightarrow> extends env ob proc w tr st ph"
  unfolding extends_def by (rule exI [of _ "[]"]) simp

lemma extends_step:
  assumes "extends env ob proc w tr st ph" and "relay_step env ob proc st ph l st' ph'" and "posts [l] = 0"
  shows "extends env ob proc w tr st' ph'"
proof -
  obtain tr' where "posts tr' = 0" "relay_trace env ob proc w (tr @ tr') st ph" using assms(1) by (auto simp: extends_def)
  then have "posts (tr' @ [l]) = 0 \<and> relay_trace env ob proc w (tr @ tr' @ [l]) st' ph'"
    using trace_step [OF _ assms(2), of w "tr @ tr'"] assms(3) by simp
  then show ?thesis unfolding extends_def by blast
qed

lemma fbind_ok: "fbind m k st = (Inr y, st') \<Longrightarrow> \<exists>x st1. m st = (Inr x, st1) \<and> k x st1 = (Inr y, st')"
  by (auto simp: fbind_def split: prod.splits sum.splits)

lemma sim_tasks:
  assumes "extends env ob proc w tr st (Relaying (before @ run\<lparr>rrn_work := Feeding (map (\<lambda>c. (c, m, False)) cs) ms\<rparr> # after))"
    and "feach (\<lambda>c. invoke_consumer env proc c m) cs st = (Inr (), st')"
  shows "extends env ob proc w tr st' (Relaying (before @ run\<lparr>rrn_work := Feeding [] ms\<rparr> # after))"
  using assms
proof (induction cs arbitrary: st)
  case Nil
  then show ?case by (simp add: freturn_def)
next
  case (Cons c cs)
  let ?pend = "map (\<lambda>c. (c, m, False)) cs"
  obtain st1 st2 where steps: "deliver_message env proc c m st = (Inr (), st1)" "shift_boundary c m st1 = (Inr (), st2)"
    "feach (\<lambda>c. invoke_consumer env proc c m) cs st2 = (Inr (), st')"
    using Cons.prems(2) by (auto simp: invoke_consumer_def dest!: fbind_ok)
  have "relay_step env ob proc st (Relaying (before @ run\<lparr>rrn_work := Feeding ((c, m, False) # ?pend) ms\<rparr> # after))
      (DeliveredTo c m) st1 (Relaying (before @ run\<lparr>rrn_work := Feeding ((c, m, True) # ?pend) ms\<rparr> # after))"
    using step_deliver [OF _ steps(1), of "run\<lparr>rrn_work := Feeding ((c, m, False) # ?pend) ms\<rparr>" "[]" ?pend ms] by simp
  then have "extends env ob proc w tr st1 (Relaying (before @ run\<lparr>rrn_work := Feeding ((c, m, True) # ?pend) ms\<rparr> # after))"
    using extends_step Cons.prems(1) by fastforce
  moreover have "relay_step env ob proc st1 (Relaying (before @ run\<lparr>rrn_work := Feeding ((c, m, True) # ?pend) ms\<rparr> # after))
      (AcknowledgedBy c m) st2 (Relaying (before @ run\<lparr>rrn_work := Feeding ?pend ms\<rparr> # after))"
    using step_shift [OF _ steps(2), of "run\<lparr>rrn_work := Feeding ((c, m, True) # ?pend) ms\<rparr>" "[]" ?pend ms] by simp
  ultimately have "extends env ob proc w tr st2 (Relaying (before @ run\<lparr>rrn_work := Feeding ?pend ms\<rparr> # after))"
    using extends_step by fastforce
  then show ?case using Cons.IH steps(3) by blast
qed

lemma sim_messages:
  assumes "extends env ob proc w tr st (Relaying (before @ run\<lparr>rrn_work := Feeding [] ms\<rparr> # after))"
    and "feach (\<lambda>m. feach (\<lambda>c. invoke_consumer env proc c m) (consumer_tasks (rrn_job run) (rrn_bounds run) m)) ms st = (Inr (), st')"
  shows "extends env ob proc w tr st' (Relaying (before @ run\<lparr>rrn_work := Feeding [] []\<rparr> # after))"
  using assms
proof (induction ms arbitrary: st)
  case Nil
  then show ?case by (simp add: freturn_def)
next
  case (Cons m ms)
  let ?tasks = "consumer_tasks (rrn_job run) (rrn_bounds run) m"
  obtain st1 where steps: "feach (\<lambda>c. invoke_consumer env proc c m) ?tasks st = (Inr (), st1)"
    "feach (\<lambda>m. feach (\<lambda>c. invoke_consumer env proc c m) (consumer_tasks (rrn_job run) (rrn_bounds run) m)) ms st1 = (Inr (), st')"
    using Cons.prems(2) by (auto dest!: fbind_ok)
  have "relay_step env ob proc st (Relaying (before @ run\<lparr>rrn_work := Feeding [] (m # ms)\<rparr> # after)) Internal
      st (Relaying (before @ run\<lparr>rrn_work := Feeding (map (\<lambda>c. (c, m, False)) ?tasks) ms\<rparr> # after))"
    using step_next [of "run\<lparr>rrn_work := Feeding [] (m # ms)\<rparr>" m ms] by (simp add: tasks_of_def)
  then have "extends env ob proc w tr st (Relaying (before @ run\<lparr>rrn_work := Feeding (map (\<lambda>c. (c, m, False)) ?tasks) ms\<rparr> # after))"
    using extends_step [OF Cons.prems(1)] by fastforce
  then show ?case by (intro Cons.IH [OF sim_tasks [OF _ steps(1)] steps(2)])
qed

lemma sim_run:
  assumes "extends env ob proc w tr st (Relaying (before @ new_run (job, latest, bounds) # after))"
    and "run_iteration env proc job latest bounds st = (Inr (), st')"
  shows "extends env ob proc w tr st' (Relaying (before @ (new_run (job, latest, bounds))\<lparr>rrn_work := Feeding [] []\<rparr> # after))"
proof -
  let ?run = "new_run (job, latest, bounds)"
  have run: "rrn_job ?run = job" "rrn_latest ?run = latest" "rrn_bounds ?run = bounds" "rrn_work ?run = Unloaded"
    by (simp_all add: new_run_def)
  obtain ms where load: "load_unprocessed env job latest bounds st = Inr ms"
    "feach (\<lambda>m. feach (\<lambda>c. invoke_consumer env proc c m) (consumer_tasks job bounds m)) ms st = (Inr (), st')"
    using assms(2) by (auto simp: run_iteration_def dest!: fbind_ok)
  have "relay_step env ob proc st (Relaying (before @ ?run # after)) Internal
      st (Relaying (before @ ?run\<lparr>rrn_work := Feeding [] ms\<rparr> # after))"
    using step_load [OF run(4), of env st ms] load(1) by (simp add: run)
  then have "extends env ob proc w tr st (Relaying (before @ ?run\<lparr>rrn_work := Feeding [] ms\<rparr> # after))"
    using extends_step [OF assms(1)] by fastforce
  then show ?thesis using sim_messages [where run = ?run] load(2) by (simp add: run)
qed

lemma sim_runs:
  assumes "extends env ob proc w tr st (Relaying (before @ map new_run tasks))"
    and "list_all (\<lambda>run. rrn_work run = Feeding [] []) before"
    and "feach (\<lambda>(job, latest, bounds). run_iteration env proc job latest bounds) tasks st = (Inr (), st')"
  shows "\<exists>runs. list_all (\<lambda>run. rrn_work run = Feeding [] []) runs \<and> extends env ob proc w tr st' (Relaying runs)"
  using assms
proof (induction tasks arbitrary: before st)
  case Nil
  then show ?case by (auto simp: freturn_def)
next
  case (Cons t tasks)
  obtain job latest bounds where t: "t = (job, latest, bounds)" using prod_cases3 by blast
  obtain st1 where steps: "run_iteration env proc job latest bounds st = (Inr (), st1)"
    "feach (\<lambda>(job, latest, bounds). run_iteration env proc job latest bounds) tasks st1 = (Inr (), st')"
    using Cons.prems(3) by (auto simp: t dest!: fbind_ok)
  let ?before = "before @ [(new_run t)\<lparr>rrn_work := Feeding [] []\<rparr>]"
  have "extends env ob proc w tr st1 (Relaying (?before @ map new_run tasks))"
    using sim_run [OF _ steps(1)] Cons.prems(1) by (simp add: t)
  then show ?case using Cons.IH [of st1 ?before] Cons.prems(2) steps(2) by simp
qed

lemma sim_single_iteration:
  assumes "extends env ob proc w tr st Stopped" and "run_single_iteration_only env proc st = (Inr (), st')"
  shows "extends env ob proc w tr st' Stopped"
proof -
  obtain st1 where steps: "init_consumption_records proc st = (Inr (), st1)" "run_relay_iteration env proc st1 = (Inr (), st')"
    using assms(2) by (auto simp: run_single_iteration_only_def dest!: fbind_ok)
  note start = extends_step [OF extends_step [OF extends_step [OF assms(1) step_start [OF steps(1)]] step_select_latest] step_select_boundaries]
  obtain runs where runs: "list_all (\<lambda>run. rrn_work run = Feeding [] []) runs" "extends env ob proc w tr st' (Relaying runs)"
    using sim_runs [of env ob proc w tr st1 "[]"] start steps(2) by (auto simp: run_relay_iteration_def)
  show ?thesis using extends_step [OF extends_step [OF runs(2) step_finish [OF runs(1)]] step_stop] by simp
qed

lemma sim_iterations:
  assumes "extends env ob proc w tr st Stopped" and "feach (\<lambda>_. run_single_iteration_only env proc) xs st = (Inr (), st')"
  shows "extends env ob proc w tr st' Stopped"
  using assms
proof (induction xs arbitrary: st)
  case (Cons x xs)
  obtain st1 where "run_single_iteration_only env proc st = (Inr (), st1)"
    "feach (\<lambda>_. run_single_iteration_only env proc) xs st1 = (Inr (), st')"
    using Cons.prems(2) by (auto dest!: fbind_ok)
  then show ?case using Cons.IH [OF sim_single_iteration [OF Cons.prems(1)]] by simp
qed (simp add: freturn_def)

section \<open>Consumers that succeed\<close>

text \<open>Every producer with a durable route has a dispatcher, its messages parse, and no consumer fails.\<close>

definition cooperative :: "'w outbox_env \<Rightarrow> outbox_processor \<Rightarrow> bool" where
  "cooperative env proc \<longleftrightarrow>
     0 \<le> obc_batch_size (obe_config env) \<and>
     (\<forall>(p, cs) \<in> set (routes proc). map_of (rsi_message_dispatchers (otp_routes_static_info proc)) p \<noteq> None) \<and>
     (\<forall>ty content. \<not> isl (obe_from_json env ty content)) \<and>
     (\<forall>b content w. \<not> isl (fst (obe_consume_message env b content w)))"

lemma feach_ok: "(\<And>x s. x \<in> set xs \<Longrightarrow> \<exists>s'. f x s = (Inr (), s')) \<Longrightarrow> \<exists>s'. feach f xs s = (Inr (), s')"
proof (induction xs arbitrary: s)
  case (Cons x xs)
  obtain s1 where "f x s = (Inr (), s1)" using Cons.prems [of x s] by auto
  then show ?case using Cons.IH [of s1] Cons.prems by (simp add: fbind_def)
qed (simp add: freturn_def)

lemma deliver_cooperative:
  assumes coop: "cooperative env proc" and "(om_producer_name m, cs) \<in> set (routes proc)"
  shows "\<exists>w. deliver_message env proc c m st = (Inr (), st\<lparr>obs_world := w\<rparr>)"
proof -
  obtain d where d: "map_of (rsi_message_dispatchers (otp_routes_static_info proc)) (om_producer_name m) = Some d"
    using assms by (fastforce simp: cooperative_def)
  obtain u where u: "obe_from_json env (md_message_type d) (om_content_json m) = Inr u"
    using coop by (metis cooperative_def not_isl_iff)
  have "\<exists>w'. call_consumer env (om_content_json m) b w = (Inr (), w')" for b w
  proof -
    obtain r w' where r: "obe_consume_message env b (om_content_json m) w = (r, w')" by fastforce
    then have "\<not> isl r" using coop by (metis cooperative_def fst_conv)
    then show ?thesis using r by (cases r) (auto simp: call_consumer_def)
  qed
  then obtain w' where "feach (call_consumer env (om_content_json m))
      (particular_consumers_for (md_message_type d) c (obe_catalog env)) (obs_world st) = (Inr (), w')"
    using feach_ok by metis
  then show ?thesis using d u by (auto simp: deliver_message_def dispatch_message_def consume_deserialized_message_def)
qed

section \<open>What an iteration does to the boundaries\<close>

definition moved :: "'w outbox_state \<Rightarrow> 'w outbox_state \<Rightarrow> (string \<Rightarrow> string \<Rightarrow> outbox_message_id option) \<Rightarrow> bool" where
  "moved st st' f \<longleftrightarrow> obs_messages st' = obs_messages st \<and> boundary_repo_ok (obs_boundaries st') \<and>
     (\<forall>q d. consumer_name_ok d \<longrightarrow> boundary_at st' q d = f q d)"

lemma moved_cong: "moved st st' f \<Longrightarrow> (\<And>q d. consumer_name_ok d \<Longrightarrow> f q d = g q d) \<Longrightarrow> moved st st' g"
  by (simp add: moved_def)

lemma moved_trans: "moved st st1 f \<Longrightarrow> moved st1 st2 g \<Longrightarrow> moved st st2 g"
  by (simp add: moved_def)

lemma moved_refl: "boundary_repo_ok (obs_boundaries st) \<Longrightarrow> moved st st (boundary_at st)"
  by (simp add: moved_def)

lemma invoke_cooperative:
  assumes "cooperative env proc" and "(om_producer_name m, cs) \<in> set (routes proc)" and "consumer_name_ok c"
    and "boundary_repo_ok (obs_boundaries st)" and "boundary_at st (om_producer_name m) c \<noteq> None"
  shows "\<exists>st'. invoke_consumer env proc c m st = (Inr (), st') \<and>
    moved st st' (\<lambda>q d. if d = c \<and> q = om_producer_name m then Some (om_message_id m) else boundary_at st q d)"
proof -
  obtain w where w: "deliver_message env proc c m st = (Inr (), st\<lparr>obs_world := w\<rparr>)"
    using deliver_cooperative [OF assms(1,2)] by blast
  have same: "boundary_at (st\<lparr>obs_world := w\<rparr>) q d = boundary_at st q d" for q d by (simp add: boundary_at_def)
  obtain bs where "shift_boundary c m (st\<lparr>obs_world := w\<rparr>) = (Inr (), st\<lparr>obs_world := w, obs_boundaries := bs\<rparr>)" "boundary_repo_ok bs"
    "\<forall>q d. consumer_name_ok d \<longrightarrow> boundary_of bs d q = (if d = c \<and> q = om_producer_name m then Some (om_message_id m) else boundary_at st q d)"
    using shift_boundary_effect [of "st\<lparr>obs_world := w\<rparr>" c m] assms(3-5) by (auto simp: same)
  then show ?thesis using w
    by (intro exI [of _ "st\<lparr>obs_world := w, obs_boundaries := bs\<rparr>"]) (simp add: invoke_consumer_def fbind_def moved_def boundary_at_def)
qed

lemma feed_tasks:
  assumes "cooperative env proc" and "(om_producer_name m, cs) \<in> set (routes proc)" and "list_all consumer_name_ok ds"
    and "boundary_repo_ok (obs_boundaries st)" and "\<forall>c \<in> set ds. boundary_at st (om_producer_name m) c \<noteq> None"
  shows "\<exists>st'. feach (\<lambda>c. invoke_consumer env proc c m) ds st = (Inr (), st') \<and>
    moved st st' (\<lambda>q d. if q = om_producer_name m \<and> d \<in> set ds then Some (om_message_id m) else boundary_at st q d)"
  using assms
proof (induction ds arbitrary: st)
  case Nil
  then show ?case by (simp add: freturn_def moved_refl)
next
  case (Cons c ds)
  let ?p = "om_producer_name m"
  obtain st1 where st1: "invoke_consumer env proc c m st = (Inr (), st1)"
    "moved st st1 (\<lambda>q d. if d = c \<and> q = ?p then Some (om_message_id m) else boundary_at st q d)"
    using invoke_cooperative [OF Cons.prems(1,2), of c st] Cons.prems(3-5) by auto
  have "\<forall>d \<in> set ds. boundary_at st1 ?p d \<noteq> None"
    using st1(2) Cons.prems(3,5) by (simp add: moved_def list_all_iff)
  then obtain st' where st': "feach (\<lambda>c. invoke_consumer env proc c m) ds st1 = (Inr (), st')"
    "moved st1 st' (\<lambda>q d. if q = ?p \<and> d \<in> set ds then Some (om_message_id m) else boundary_at st1 q d)"
    using Cons.IH [of st1] Cons.prems(1-3) st1(2) by (auto simp: moved_def)
  have "moved st st' (\<lambda>q d. if q = ?p \<and> d \<in> set (c # ds) then Some (om_message_id m) else boundary_at st q d)"
    by (rule moved_cong [OF moved_trans [OF st1(2) st'(2)]]) (use st1(2) in \<open>auto simp: moved_def\<close>)
  then show ?case using st1(1) st'(1) by (simp add: fbind_def)
qed

definition advance :: "outbox_message_id \<Rightarrow> outbox_message list \<Rightarrow> outbox_message_id \<Rightarrow> outbox_message_id" where
  "advance b ms = fold (\<lambda>m x. if b < om_message_id m then om_message_id m else x) ms"

lemma feed_messages:
  assumes "cooperative env proc" and "proc_ok proc" and "(p, cs) \<in> set (routes proc)"
    and "prj_consumer_names job = cs" and "\<forall>m \<in> set ms. om_producer_name m = p"
    and "boundary_repo_ok (obs_boundaries st)" and "\<forall>c \<in> set cs. boundary_at st p c \<noteq> None"
  shows "\<exists>st'. feach (\<lambda>m. feach (\<lambda>c. invoke_consumer env proc c m) (consumer_tasks job bounds m)) ms st = (Inr (), st') \<and>
    moved st st' (\<lambda>q d. if q = p \<and> d \<in> set cs
      then map_option (advance (case bounds d of Some b \<Rightarrow> b | None \<Rightarrow> 0) ms) (boundary_at st q d) else boundary_at st q d)"
  using assms
proof (induction ms arbitrary: st)
  case Nil
  have "moved st st (\<lambda>q d. if q = p \<and> d \<in> set cs
      then map_option (advance (case bounds d of Some b \<Rightarrow> b | None \<Rightarrow> 0) []) (boundary_at st q d) else boundary_at st q d)"
    by (rule moved_cong [OF moved_refl]) (use Nil in \<open>auto simp: advance_def option.map_ident\<close>)
  then show ?case by (simp add: freturn_def)
next
  case (Cons m ms)
  let ?b = "\<lambda>d. case bounds d of Some b \<Rightarrow> b | None \<Rightarrow> 0"
  have p: "om_producer_name m = p" using Cons.prems(5) by simp
  have tasks: "set (consumer_tasks job bounds m) = {c \<in> set cs. ?b c < om_message_id m}"
    using Cons.prems(4) by (auto simp: consumer_tasks_def)
  have names: "list_all consumer_name_ok (consumer_tasks job bounds m)"
    using route_consumer_ok [OF Cons.prems(2,3)] tasks by (auto simp: list_all_iff)
  obtain st1 where st1: "feach (\<lambda>c. invoke_consumer env proc c m) (consumer_tasks job bounds m) st = (Inr (), st1)"
    "moved st st1 (\<lambda>q d. if q = p \<and> d \<in> set (consumer_tasks job bounds m) then Some (om_message_id m) else boundary_at st q d)"
    using feed_tasks [OF Cons.prems(1) _ names Cons.prems(6), of m cs] Cons.prems(3,7) p tasks by auto
  have "\<forall>c \<in> set cs. boundary_at st1 p c \<noteq> None"
    using st1(2) Cons.prems(7) route_consumer_ok [OF Cons.prems(2,3)] by (auto simp: moved_def)
  then obtain st' where st': "feach (\<lambda>m. feach (\<lambda>c. invoke_consumer env proc c m) (consumer_tasks job bounds m)) ms st1 = (Inr (), st')"
    "moved st1 st' (\<lambda>q d. if q = p \<and> d \<in> set cs then map_option (advance (?b d) ms) (boundary_at st1 q d) else boundary_at st1 q d)"
    using Cons.IH [of st1] Cons.prems(1-5) st1(2) by (auto simp: moved_def)
  have "moved st st' (\<lambda>q d. if q = p \<and> d \<in> set cs then map_option (advance (?b d) (m # ms)) (boundary_at st q d) else boundary_at st q d)"
    by (rule moved_cong [OF moved_trans [OF st1(2) st'(2)]])
      (use st1(2) Cons.prems(7) tasks in \<open>auto simp: moved_def advance_def\<close>)
  then show ?case using st1(1) st'(1) by (simp add: fbind_def)
qed

lemma advance_sorted:
  assumes "sorted_wrt (<) (map om_message_id ms)"
  shows "advance b ms b = (if ms = [] then b else max b (om_message_id (last ms)))"
  using assms
proof (induction ms rule: rev_induct)
  case (snoc m ms)
  have less: "om_message_id (last ms) < om_message_id m" if "ms \<noteq> []" using snoc.prems that by (simp add: sorted_wrt_append)
  show ?case
  proof (cases "ms = []")
    case True
    then show ?thesis by (simp add: advance_def max_def)
  next
    case False
    then have "advance b ms b = max b (om_message_id (last ms))" using snoc by (simp add: sorted_wrt_append)
    moreover have "advance b (ms @ [m]) b = (if b < om_message_id m then om_message_id m else advance b ms b)"
      by (simp add: advance_def)
    ultimately show ?thesis using less [OF False] by simp
  qed
qed (simp add: advance_def)

section \<open>Progress\<close>

text \<open>The boundary is at least that of the \<open>k\<close>-th posted message, or of the last one.\<close>

definition reached :: "outbox_message_id list \<Rightarrow> nat \<Rightarrow> outbox_message_id option \<Rightarrow> bool" where
  "reached ids k b \<longleftrightarrow> (\<exists>i. b = Some i \<and> i \<in> set (0 # ids) \<and> (0 # ids) ! min k (length ids) \<le> i)"

lemma sorted_above_nth:
  assumes "sorted_wrt (<) (z # ids)" and "x \<in> set ids" and "(z # ids) ! min k (length ids) < (x :: int)"
  shows "(z # ids) ! min (Suc k) (length ids) \<le> x"
proof -
  obtain j where j: "j < length ids" "x = (z # ids) ! Suc j" using assms(2) by (auto simp: in_set_conv_nth)
  have mono: "i < l \<Longrightarrow> l \<le> length ids \<Longrightarrow> (z # ids) ! i < (z # ids) ! l" for i l
    using sorted_wrt_nth_less [OF assms(1), of i l] by simp
  have "k < Suc j"
  proof (rule ccontr)
    assume "\<not> k < Suc j"
    then have "Suc j = min k (length ids) \<or> Suc j < min k (length ids)" using j(1) by auto
    then have "x \<le> (z # ids) ! min k (length ids)"
      using mono [of "Suc j" "min k (length ids)"] unfolding j(2) by fastforce
    then show False using assms(3) by simp
  qed
  then show ?thesis using j mono [of "Suc k" "Suc j"] by (cases "k = j") (auto simp: min_def)
qed

lemma reached_last:
  assumes "sorted_wrt (<) (0 # ids)" and "reached ids k b" and "length ids \<le> k"
  shows "b = Some (last (0 # ids))"
proof -
  obtain i where i: "b = Some i" "i \<in> set (0 # ids)" "(0 # ids) ! length ids \<le> i"
    using assms(2,3) by (auto simp: reached_def min_def split: if_splits)
  obtain j where j: "j < length (0 # ids)" "i = (0 # ids) ! j" using i(2) by (metis in_set_conv_nth)
  have "j = length ids"
  proof (rule ccontr)
    assume "j \<noteq> length ids"
    then show False using sorted_wrt_nth_less [OF assms(1), of j "length ids"] i(3) j by auto
  qed
  then show ?thesis using i(1) j(2) by (simp add: last_conv_nth)
qed

lemma reached_le_last:
  assumes "sorted_wrt (<) (0 # ids)" and "i \<in> set (0 # ids)"
  shows "i \<le> last (0 # (ids :: int list))"
proof -
  obtain j where j: "j < length (0 # ids)" "i = (0 # ids) ! j" using assms(2) by (metis in_set_conv_nth)
  then show ?thesis
    using sorted_wrt_nth_less [OF assms(1), of j "length ids"] by (cases "j = length ids") (auto simp: last_conv_nth)
qed

text \<open>One iteration of one producer.\<close>

lemma earliest_some: "cs \<noteq> [] \<or> e \<noteq> None \<Longrightarrow> \<exists>b. earliest_boundary bounds cs e = Some b"
proof (induction bounds cs e rule: earliest_boundary.induct)
  case (2 bounds c cs e)
  show ?case
  proof (cases "bounds c")
    case (Some b)
    then show ?thesis using 2(1) [OF Some] by (cases e) auto
  qed simp
qed simp

lemma earliest_reached:
  assumes "earliest_boundary bounds cs e = Some b" and "\<And>c. c \<in> set cs \<Longrightarrow> bounds c \<noteq> None"
  shows "(\<exists>c \<in> set cs. bounds c = Some b) \<or> e = Some b"
  using assms
proof (induction bounds cs e rule: earliest_boundary.induct)
  case (2 bounds c cs e)
  obtain i where i: "bounds c = Some i" using 2(3) [of c] by auto
  then show ?case using 2(1) [OF i] 2(2,3) by (cases e) (auto split: if_splits)
qed simp

text \<open>Loading the first messages above the earliest boundary \<open>b\<close> brings every boundary one step further.\<close>

lemma reached_advance:
  fixes ids :: "int list"
  assumes sorted: "sorted_wrt (<) (0 # ids)" and low: "(0 # ids) ! min k (length ids) \<le> b" and "b \<le> i" and i: "i \<in> set (0 # ids)"
    and xs: "xs = (if b < last (0 # ids) then take (max 1 n) (filter (\<lambda>i. b < i) ids) else [])"
  shows "reached ids (Suc k) (Some (if xs = [] then i else max i (last xs)))"
proof (cases "b < last (0 # ids)")
  case True
  then have "ids \<noteq> []" using low by auto
  then have "last (0 # ids) \<in> set (filter (\<lambda>i. b < i) ids)" using True by simp
  then have "filter (\<lambda>i. b < i) ids \<noteq> []" by (cases "filter (\<lambda>i. b < i) ids") simp_all
  then have "xs \<noteq> []" using True xs by (simp add: max_def)
  then have "last xs \<in> set xs" by simp
  then have top: "last xs \<in> set ids" "b < last xs" using True xs by (auto dest: in_set_takeD)
  have "(0 # ids) ! min (Suc k) (length ids) \<le> last xs"
    by (rule sorted_above_nth [OF sorted top(1)]) (use low top(2) in simp)
  then show ?thesis using \<open>xs \<noteq> []\<close> i top(1) by (auto simp: reached_def max_def)
next
  case False
  then have "i = last (0 # ids)" using \<open>b \<le> i\<close> reached_le_last [OF sorted i] by simp
  moreover have "(0 # ids) ! min (Suc k) (length ids) \<le> last (0 # ids)"
    by (rule reached_le_last [OF sorted]) (rule nth_mem, simp)
  ultimately show ?thesis using False i xs by (simp add: reached_def)
qed

lemma iteration_reaches:
  assumes coop: "cooperative env proc" and proc: "proc_ok proc" and route: "(p, cs) \<in> set (routes proc)"
    and job: "job = \<lparr>prj_producer_name = p, prj_consumer_names = cs\<rparr>"
    and msgs: "message_repo_ok (obs_messages st)" and bnds: "boundary_repo_ok (obs_boundaries st)"
    and snap: "\<And>c. c \<in> set cs \<Longrightarrow> bounds c = boundary_at st p c"
    and latest: "latest = last (0 # posted_ids p st)"
    and before: "\<And>c. c \<in> set cs \<Longrightarrow> reached (posted_ids p st) k (boundary_at st p c)"
  shows "\<exists>st' f. run_iteration env proc job latest bounds st = (Inr (), st') \<and> moved st st' f \<and>
    (\<forall>q d. q \<noteq> p \<longrightarrow> f q d = boundary_at st q d) \<and> (\<forall>c \<in> set cs. reached (posted_ids p st) (Suc k) (f p c))"
proof -
  let ?ids = "posted_ids p st" and ?n = "nat (obc_batch_size (obe_config env))"
  have sorted: "sorted_wrt (<) (0 # ?ids)" using msg_log.sorted_ids [OF msgs] by (simp add: posted_ids_eq)
  have present: "bounds c \<noteq> None" if "c \<in> set cs" for c using before [OF that] snap [OF that] by (auto simp: reached_def)
  have "cs \<noteq> []" using proc route by (auto simp: proc_ok_def)
  then obtain b where b: "earliest_boundary bounds cs None = Some b" using earliest_some by blast
  obtain c0 where c0: "c0 \<in> set cs" "boundary_at st p c0 = Some b"
    using earliest_reached [OF b present] snap by auto
  have low: "(0 # ?ids) ! min k (length ?ids) \<le> b" using before [OF c0(1)] c0(2) by (simp add: reached_def)
  have b_le: "b \<le> i" if "c \<in> set cs" "boundary_at st p c = Some i" for c i
    using earliest_boundary_le [OF b present] snap that by simp
  define ms where "ms = (if b < latest then get_producer_messages p b ?n (obs_messages st) else [])"
  have load: "load_unprocessed env job latest bounds st = Inr ms"
    using coop b by (simp add: load_unprocessed_def determine_processed_boundary_id_def job cooperative_def ms_def)
  have ids: "map om_message_id ms = (if b < last (0 # ?ids) then take (max 1 ?n) (filter (\<lambda>i. b < i) ?ids) else [])"
    using msg_log.fetch_ids [OF msgs] by (simp add: ms_def posted_ids_eq latest)
  have prods: "\<forall>m \<in> set ms. om_producer_name m = p"
    using msg_log.fetch_sound [OF msgs] by (auto simp: ms_def)
  have sorted_ms: "sorted_wrt (<) (map om_message_id ms)"
    unfolding ids using sorted by (auto simp: sorted_wrt_filter sorted_wrt_take)
  obtain st' where st': "feach (\<lambda>m. feach (\<lambda>c. invoke_consumer env proc c m) (consumer_tasks job bounds m)) ms st = (Inr (), st')"
    "moved st st' (\<lambda>q d. if q = p \<and> d \<in> set cs
      then map_option (advance (case bounds d of Some b \<Rightarrow> b | None \<Rightarrow> 0) ms) (boundary_at st q d) else boundary_at st q d)"
    using feed_messages [OF coop proc route _ prods bnds, of job bounds] present snap by (auto simp: job)
  have "run_iteration env proc job latest bounds st = (Inr (), st')"
    using load st'(1) by (simp add: run_iteration_def fbind_def)
  moreover have "reached ?ids (Suc k) (map_option (advance (case bounds c of Some b \<Rightarrow> b | None \<Rightarrow> 0) ms) (boundary_at st p c))"
    if c: "c \<in> set cs" for c
  proof -
    obtain i where i: "boundary_at st p c = Some i" "i \<in> set (0 # ?ids)" using before [OF c] by (auto simp: reached_def)
    then have "reached ?ids (Suc k) (Some (if ms = [] then i else max i (om_message_id (last ms))))"
      using reached_advance [OF sorted low b_le [OF c i(1)] i(2) ids] by (auto simp: last_map)
    then show ?thesis using i snap [OF c] advance_sorted [OF sorted_ms] by simp
  qed
  ultimately show ?thesis using st'(2) by (intro exI conjI) auto
qed

section \<open>Draining the outbox\<close>

definition all_reached :: "outbox_processor \<Rightarrow> nat \<Rightarrow> 'w outbox_state \<Rightarrow> bool" where
  "all_reached proc k st \<longleftrightarrow>
     message_repo_ok (obs_messages st) \<and> boundary_repo_ok (obs_boundaries st) \<and>
     (\<forall>(p, c) \<in> set (route_pairs proc). reached (posted_ids p st) k (boundary_at st p c))"

definition task_ok ::
  "outbox_processor \<Rightarrow> nat \<Rightarrow> 'w outbox_state \<Rightarrow> relay_job \<times> outbox_message_id \<times> (string \<rightharpoonup> outbox_message_id) \<Rightarrow> bool" where
  "task_ok proc k st t \<longleftrightarrow> (case t of (job, latest, bounds) \<Rightarrow>
     (prj_producer_name job, prj_consumer_names job) \<in> set (routes proc) \<and>
     latest = last (0 # posted_ids (prj_producer_name job) st) \<and>
     (\<forall>c \<in> set (prj_consumer_names job). bounds c = boundary_at st (prj_producer_name job) c \<and>
        reached (posted_ids (prj_producer_name job) st) k (boundary_at st (prj_producer_name job) c)))"

lemma tasks_reach:
  assumes "cooperative env proc" and proc: "proc_ok proc"
    and "message_repo_ok (obs_messages st)" and "boundary_repo_ok (obs_boundaries st)"
    and "distinct (map (\<lambda>t. prj_producer_name (fst t)) tasks)" and "list_all (task_ok proc k st) tasks"
  shows "\<exists>st'. feach (\<lambda>(job, latest, bounds). run_iteration env proc job latest bounds) tasks st = (Inr (), st') \<and>
    obs_messages st' = obs_messages st \<and> boundary_repo_ok (obs_boundaries st') \<and>
    (\<forall>p c. (p, c) \<in> set (route_pairs proc) \<longrightarrow>
       (if p \<in> (\<lambda>t. prj_producer_name (fst t)) ` set tasks then reached (posted_ids p st) (Suc k) (boundary_at st' p c)
        else boundary_at st' p c = boundary_at st p c))"
  using assms
proof (induction tasks arbitrary: st)
  case Nil
  then show ?case by (simp add: freturn_def)
next
  case (Cons t tasks)
  obtain job latest bounds where t: "t = (job, latest, bounds)" using prod_cases3 by blast
  let ?p = "prj_producer_name job" and ?cs = "prj_consumer_names job"
  have ok: "task_ok proc k st (job, latest, bounds)" using Cons.prems(6) by (simp add: t)
  then have route: "(?p, ?cs) \<in> set (routes proc)" by (simp add: task_ok_def)
  obtain st1 f where st1: "run_iteration env proc job latest bounds st = (Inr (), st1)" "moved st st1 f"
    "\<forall>q d. q \<noteq> ?p \<longrightarrow> f q d = boundary_at st q d" "\<forall>c \<in> set ?cs. reached (posted_ids ?p st) (Suc k) (f ?p c)"
    using iteration_reaches [OF Cons.prems(1,2) route _ Cons.prems(3,4), of job bounds latest k] ok
    by (auto simp: task_ok_def)
  have posted: "posted_ids q st1 = posted_ids q st" for q using st1(2) by (simp add: moved_def posted_ids_def)
  have names: "consumer_name_ok c" if "(p, c) \<in> set (route_pairs proc)" for p c using route_pairs_ok [OF proc that] .
  have same: "boundary_at st1 q c = boundary_at st q c" if "q \<noteq> ?p" "consumer_name_ok c" for q c
    using st1(2,3) that by (simp add: moved_def)
  have "task_ok proc k st1 t'" if t': "t' \<in> set tasks" for t'
  proof -
    obtain job' l b where eq: "t' = (job', l, b)" using prod_cases3 by blast
    have "task_ok proc k st (job', l, b)" using Cons.prems(6) t' eq by (auto simp: list_all_iff)
    moreover have "prj_producer_name job' \<noteq> ?p" using Cons.prems(5) t' by (force simp: t eq)
    ultimately show ?thesis using same route_consumer_ok [OF proc] by (auto simp: eq task_ok_def posted)
  qed
  then have oks: "list_all (task_ok proc k st1) tasks" by (simp add: list_all_iff)
  obtain st' where st': "feach (\<lambda>(job, latest, bounds). run_iteration env proc job latest bounds) tasks st1 = (Inr (), st')"
    "obs_messages st' = obs_messages st1" "boundary_repo_ok (obs_boundaries st')"
    "\<And>p c. (p, c) \<in> set (route_pairs proc) \<Longrightarrow>
       (if p \<in> (\<lambda>t. prj_producer_name (fst t)) ` set tasks then reached (posted_ids p st) (Suc k) (boundary_at st' p c)
        else boundary_at st' p c = boundary_at st1 p c)"
    using Cons.IH [OF Cons.prems(1,2) _ _ _ oks] st1(2) Cons.prems(3,5) unfolding posted by (auto simp: moved_def)
  have fresh: "?p \<notin> (\<lambda>t. prj_producer_name (fst t)) ` set tasks" using Cons.prems(5) by (simp add: t)
  have "c \<in> set ?cs" if "(?p, c) \<in> set (route_pairs proc)" for c
    using that route proc by (auto simp: route_pairs_iff proc_ok_def dest: eq_key_imp_eq_value)
  then have "if p \<in> (\<lambda>t. prj_producer_name (fst t)) ` set (t # tasks) then reached (posted_ids p st) (Suc k) (boundary_at st' p c)
      else boundary_at st' p c = boundary_at st p c" if r: "(p, c) \<in> set (route_pairs proc)" for p c
    using st'(4) [OF r] fresh st1(2,4) same [OF _ names [OF r]] names [OF r] r
    by (cases "p = ?p") (auto simp: t moved_def split: if_splits)
  then show ?case using st'(1-3) st1(1,2) by (simp add: t fbind_def moved_def)
qed

lemma relay_iteration_reaches:
  assumes coop: "cooperative env proc" and proc: "proc_ok proc" and ok: "all_reached proc k st"
  shows "\<exists>st'. run_relay_iteration env proc st = (Inr (), st') \<and> obs_messages st' = obs_messages st \<and> all_reached proc (Suc k) st'"
proof -
  let ?latest = "select_latest_message_ids_by_producers st" and ?bounds = "select_latest_consumption_boundaries_by_producers st"
  let ?tasks = "producer_tasks ?latest ?bounds (otp_producer_relay_jobs proc)"
  have repos: "message_repo_ok (obs_messages st)" "boundary_repo_ok (obs_boundaries st)"
    and reach: "\<And>p c. (p, c) \<in> set (route_pairs proc) \<Longrightarrow> reached (posted_ids p st) k (boundary_at st p c)"
    using ok by (auto simp: all_reached_def)
  have latest: "?latest p = (if posted_ids p st = [] then None else Some (last (posted_ids p st)))" for p
    using msg_log.latest_log [OF repos(1), of p] by (simp add: select_latest_message_ids_by_producers_def posted_ids_def Let_def)
  have "task_ok proc k st t" if "t \<in> set ?tasks" for t
  proof -
    obtain job l b where t: "t = (job, l, b)" using prod_cases3 by blast
    note sel = selected_task [OF repos(2) proc that [unfolded t]]
    moreover have "reached (posted_ids (prj_producer_name job) st) k (boundary_at st (prj_producer_name job) c)"
      if "c \<in> set (prj_consumer_names job)" for c
      using reach sel(1) that by (auto simp: route_pairs_iff)
    ultimately show ?thesis using latest by (auto simp: t task_ok_def split: if_splits)
  qed
  then have "list_all (task_ok proc k st) ?tasks" by (simp add: list_all_iff)
  then obtain st' where st': "run_relay_iteration env proc st = (Inr (), st')" "obs_messages st' = obs_messages st"
    "boundary_repo_ok (obs_boundaries st')"
    "\<And>p c. (p, c) \<in> set (route_pairs proc) \<Longrightarrow>
       (if p \<in> (\<lambda>t. prj_producer_name (fst t)) ` set ?tasks then reached (posted_ids p st) (Suc k) (boundary_at st' p c)
        else boundary_at st' p c = boundary_at st p c)"
    using tasks_reach [OF coop proc repos producer_tasks_distinct [OF job_producers_distinct [OF proc]]]
    unfolding run_relay_iteration_def by blast
  have "reached (posted_ids p st) (Suc k) (boundary_at st' p c)" if r: "(p, c) \<in> set (route_pairs proc)" for p c
  proof (cases "posted_ids p st = []")
    case True
    then have "p \<notin> (\<lambda>t. prj_producer_name (fst t)) ` set ?tasks"
      using latest producer_tasks_sound by fastforce
    then show ?thesis using st'(4) [OF r] reach [OF r] True by (simp add: reached_def)
  next
    case False
    obtain cs where cs: "(p, cs) \<in> set (routes proc)" "c \<in> set cs" using r by (auto simp: route_pairs_iff)
    have "boundary_at st p c \<noteq> None" using reach [OF r] by (auto simp: reached_def)
    then obtain b where "?bounds p = Some b"
      using selected_boundary [OF repos(2) route_pairs_ok [OF proc r], of p] by (auto simp: lookup2_def split: option.splits)
    moreover have "\<lparr>prj_producer_name = p, prj_consumer_names = cs\<rparr> \<in> set (otp_producer_relay_jobs proc)"
      using proc cs(1) by (force simp: proc_ok_def)
    ultimately have "(\<lparr>prj_producer_name = p, prj_consumer_names = cs\<rparr>, last (posted_ids p st), b) \<in> set ?tasks"
      using producer_tasks_complete [OF job_producers_distinct [OF proc]] latest False by simp
    then have "p \<in> (\<lambda>t. prj_producer_name (fst t)) ` set ?tasks" by force
    then show ?thesis using st'(4) [OF r] by simp
  qed
  then have "all_reached proc (Suc k) st'"
    using st'(2,3) repos(1) by (auto simp: all_reached_def posted_ids_def)
  then show ?thesis using st'(1,2) by blast
qed

lemma init_reaches:
  assumes proc: "proc_ok proc" and repos: "message_repo_ok (obs_messages st)" "boundary_repo_ok (obs_boundaries st)"
    and routes: "\<And>p c. (p, c) \<in> set (route_pairs proc) \<Longrightarrow>
       k = 0 \<and> boundary_at st p c = None \<or> reached (posted_ids p st) k (boundary_at st p c)"
  shows "\<exists>st'. init_consumption_records proc st = (Inr (), st') \<and> obs_messages st' = obs_messages st \<and> all_reached proc k st'"
proof -
  obtain bs where bs: "init_consumption_records proc st = (Inr (), st\<lparr>obs_boundaries := bs\<rparr>)" "boundary_repo_ok bs"
    "\<And>p c. consumer_name_ok c \<Longrightarrow> boundary_of bs c p =
       (if boundary_at st p c = None \<and> (p, c) \<in> set (route_pairs proc) then Some 0 else boundary_at st p c)"
    using init_consumption_records_ok [OF proc repos(2)] by blast
  have "reached (posted_ids p st) k (boundary_of bs c p)" if r: "(p, c) \<in> set (route_pairs proc)" for p c
    using routes [OF r] bs(3) [OF route_pairs_ok [OF proc r], of p] r by (auto simp: reached_def)
  then have "all_reached proc k (st\<lparr>obs_boundaries := bs\<rparr>)"
    using repos(1) bs(2) by (auto simp: all_reached_def posted_ids_def boundary_at_def)
  then show ?thesis using bs(1) by auto
qed

lemma single_iteration_reaches:
  assumes "cooperative env proc" and "proc_ok proc" and "message_repo_ok (obs_messages st)" and "boundary_repo_ok (obs_boundaries st)"
    and "\<And>p c. (p, c) \<in> set (route_pairs proc) \<Longrightarrow>
       k = 0 \<and> boundary_at st p c = None \<or> reached (posted_ids p st) k (boundary_at st p c)"
  shows "\<exists>st'. run_single_iteration_only env proc st = (Inr (), st') \<and> obs_messages st' = obs_messages st \<and> all_reached proc (Suc k) st'"
proof -
  obtain st1 where "init_consumption_records proc st = (Inr (), st1)" "obs_messages st1 = obs_messages st" "all_reached proc k st1"
    using init_reaches [OF assms(2-5)] by blast
  then show ?thesis
    using relay_iteration_reaches [OF assms(1,2)] by (fastforce simp: run_single_iteration_only_def fbind_def)
qed

lemma iterations_reach:
  assumes "cooperative env proc" and "proc_ok proc" and "all_reached proc k st"
  shows "\<exists>st'. feach (\<lambda>_. run_single_iteration_only env proc) xs st = (Inr (), st') \<and>
    obs_messages st' = obs_messages st \<and> all_reached proc (k + length xs) st'"
  using assms(3)
proof (induction xs arbitrary: k st)
  case Nil
  then show ?case by (simp add: freturn_def)
next
  case (Cons x xs)
  obtain st1 where st1: "run_single_iteration_only env proc st = (Inr (), st1)" "obs_messages st1 = obs_messages st"
    "all_reached proc (Suc k) st1"
    using single_iteration_reaches [OF assms(1,2), of st k] Cons.prems by (auto simp: all_reached_def)
  then show ?case using Cons.IH [OF st1(3)] by (auto simp: fbind_def)
qed

lemma data_invD: "data_inv tr st \<Longrightarrow> consumer_name_ok c \<Longrightarrow> route_inv (posted_ids p st) (boundary_at st p c) (delivered_ids p c tr)"
  by (simp add: data_inv_def)

lemma route_inv_reached:
  assumes "sorted_wrt (<) (0 # ids)" and "route_inv ids (Some b) d"
  shows "reached ids 0 (Some b)"
proof -
  obtain j k where jk: "j \<le> k" "k \<le> length ids" "b = (0 # ids) ! j" using assms(2) by (auto elim: route_invE)
  then have "b \<in> set (0 # ids)" by (metis le_imp_less_Suc le_trans length_Cons nth_mem)
  then show ?thesis using assms(1) by (auto simp: reached_def)
qed

lemma route_inv_last:
  assumes "sorted_wrt (<) (0 # ids)" and "route_inv ids (Some (last (0 # ids))) d"
  shows "remdups_adj d = ids"
proof -
  obtain j k where jk: "j \<le> k" "k \<le> length ids" "last (0 # ids) = (0 # ids) ! j" "remdups_adj d = take k ids"
    using assms(2) by (auto elim: route_invE)
  have "j = length ids"
  proof (rule ccontr)
    assume "j \<noteq> length ids"
    then have "(0 # ids) ! j < (0 # ids) ! length ids" using sorted_wrt_nth_less [OF assms(1), of j "length ids"] jk by simp
    then show False using jk(3) last_conv_nth [of "0 # ids"] by simp
  qed
  then show ?thesis using jk by simp
qed

lemma drained:
  assumes coop: "cooperative env proc" and proc: "proc_ok proc" and data: "data_inv tr st"
    and n: "length (mr_messages (obs_messages st)) < n"
  shows "\<exists>st'. feach (\<lambda>_. run_single_iteration_only env proc) (replicate n ()) st = (Inr (), st') \<and> obs_messages st' = obs_messages st \<and>
    (\<forall>p c. (p, c) \<in> set (route_pairs proc) \<longrightarrow> boundary_at st' p c = Some (last (0 # posted_ids p st)))"
proof -
  have repos: "message_repo_ok (obs_messages st)" "boundary_repo_ok (obs_boundaries st)" using data by (simp_all add: data_inv_def)
  have "(0 :: nat) = 0 \<and> boundary_at st p c = None \<or> reached (posted_ids p st) 0 (boundary_at st p c)"
    if "(p, c) \<in> set (route_pairs proc)" for p c
    using route_inv_reached [OF sorted_posted [OF data, of p]] data_invD [OF data route_pairs_ok [OF proc that], of p]
    by (cases "boundary_at st p c") auto
  then obtain st1 where st1: "run_single_iteration_only env proc st = (Inr (), st1)" "obs_messages st1 = obs_messages st" "all_reached proc 1 st1"
    using single_iteration_reaches [OF coop proc repos, of 0] by auto
  obtain n' where n': "n = Suc n'" using n by (cases n) auto
  obtain st' where st': "feach (\<lambda>_. run_single_iteration_only env proc) (replicate n' ()) st1 = (Inr (), st')"
    "obs_messages st' = obs_messages st1" "all_reached proc n st'"
    using iterations_reach [OF coop proc st1(3), of "replicate n' ()"] n' by auto
  have same: "posted_ids p st' = posted_ids p st" for p using st1(2) st'(2) by (simp add: posted_ids_def)
  have short: "length (posted_ids p st) \<le> length (mr_messages (obs_messages st))" for p
    unfolding posted_ids_def message_log_of_def using length_filter_le [of _ "map snd (mr_messages (obs_messages st))"] by simp
  have "boundary_at st' p c = Some (last (0 # posted_ids p st))" if "(p, c) \<in> set (route_pairs proc)" for p c
  proof (rule reached_last [OF sorted_posted [OF data]])
    show "reached (posted_ids p st) n (boundary_at st' p c)" using st'(3) that by (auto simp: all_reached_def same)
    show "length (posted_ids p st) \<le> n" using short [of p] n by simp
  qed
  then show ?thesis using st1(1,2) st'(1,2) n' by (simp add: fbind_def)
qed

end
