(* ===== verification/Outbox_Claims.thy ===== *)
theory Outbox_Claims
  imports Outbox_Progress
begin

text \<open>
  Properties of the messaging outbox, from posting a message to its consumption by durable consumers,
  with a small configuration for which they are evaluated.
\<close>

section \<open>Posting and relaying agree on the durable producers\<close>

lemma routes_of_producers:
  assumes "enumerate_messaging_routes cat Durable = Inr rows" and "classify_message_routes cat = Inr (durable, best_effort)"
  shows "sub_producer_name ` set rows = set durable"
  using assms
proof (induction cat arbitrary: rows durable best_effort)
  case (Cons b cat)
  have one: "length (bld_metadata b) \<le> 1" using Cons.prems(1) by (simp split: if_splits)
  obtain rest where rest: "enumerate_messaging_routes cat Durable = Inr rest"
    "rows = concat (map (\<lambda>meta. if mcm_durability meta = Durable
        then map (\<lambda>p. \<lparr>sub_producer_name = p, sub_consumer_name = mcm_consumer_name meta\<rparr>) (mcm_feeding_producers meta)
        else []) (bld_metadata b)) @ rest"
    using Cons.prems(1) by (auto simp: and_then_eq_Inr split: if_splits)
  obtain d e where de: "classify_message_routes cat = Inr (d, e)"
    "(durable, best_effort) = fold (\<lambda>meta (durable, best_effort). case mcm_durability meta of
        Durable \<Rightarrow> (List.union (mcm_feeding_producers meta) durable, best_effort)
      | BestEffort \<Rightarrow> (durable, List.union (mcm_feeding_producers meta) best_effort)) (bld_metadata b) (d, e)"
    using Cons.prems(2) by (auto simp: and_then_eq_Inr split: if_splits)
  have IH: "sub_producer_name ` set rest = set d" using Cons.IH rest(1) de(1) by blast
  show ?case
  proof (cases "bld_metadata b")
    case Nil
    then show ?thesis using rest(2) de(2) IH by simp
  next
    case (Cons meta metas)
    then have "bld_metadata b = [meta]" using one by simp
    then show ?thesis using rest(2) de(2) IH by (cases "mcm_durability meta") (auto simp: image_Un image_image)
  qed
qed simp

lemma fold_add_route_producers: "fst ` set (fold add_route rows m) = sub_producer_name ` set rows \<union> fst ` set m"
  by (induction rows arbitrary: m) (auto simp: add_route_def dom_update)

lemma route_is_durable:
  assumes "new_outbox_processor env = Inr proc" and "new_dispatching_outbox env flt = Inr ob" and "(p, c) \<in> set (route_pairs proc)"
  shows "p \<in> set (dso_durable_producers ob)"
proof -
  obtain rows where rows: "enumerate_messaging_routes (obe_catalog env) Durable = Inr rows" "routes proc = fold add_route rows []"
    using assms(1) by (auto simp: new_outbox_processor_def make_static_routes_info_def and_then_eq_Inr routes_def group_consumers_by_producers_def)
  obtain best where "classify_message_routes (obe_catalog env) = Inr (dso_durable_producers ob, best)"
    using assms(2) by (auto simp: new_dispatching_outbox_def and_then_eq_Inr)
  then have "set (dso_durable_producers ob) = sub_producer_name ` set rows" using routes_of_producers [OF rows(1)] by simp
  moreover have "p \<in> fst ` set (fold add_route rows [])"
    using assms(3) unfolding rows(2) [symmetric] by (force simp: route_pairs_iff)
  ultimately show ?thesis by (simp add: fold_add_route_producers)
qed

section \<open>The log holds what was posted\<close>

definition contents_of :: "string \<Rightarrow> 'w outbox_state \<Rightarrow> string list" where
  "contents_of p st = map om_content_json (filter (\<lambda>m. om_producer_name m = p) (message_log_of (obs_messages st)))"

lemma feach_keeps:
  assumes "\<And>x s r s'. f x s = (r, s') \<Longrightarrow> g s' = g s" and "feach f xs s = (r, s')"
  shows "g s' = g s"
  using assms(2)
proof (induction xs arbitrary: s)
  case (Cons x xs)
  obtain r1 s1 where s1: "f x s = (r1, s1)" by fastforce
  have "g s1 = g s" by (rule assms(1) [OF s1])
  then show ?case using Cons s1 by (cases r1) (auto simp: fbind_def)
qed (simp add: freturn_def)

lemma new_boundary_keeps: "new_boundary p c st = (r, st') \<Longrightarrow> obs_messages st' = obs_messages st"
  by (auto simp: new_boundary_def split: prod.splits)

lemma shift_boundary_keeps: "shift_boundary c m st = (r, st') \<Longrightarrow> obs_messages st' = obs_messages st"
  by (auto simp: shift_boundary_def split: prod.splits)

lemma init_keeps_messages:
  assumes "init_consumption_records proc st = (r, st')"
  shows "obs_messages st' = obs_messages st"
  using assms unfolding init_consumption_records_def Let_def feach_nested
  by (rule feach_keeps [rotated]) (auto simp: freturn_def split: if_splits dest: new_boundary_keeps)

lemma deliver_keeps: "deliver_message env proc c m st = (r, st') \<Longrightarrow> obs_messages st' = obs_messages st"
  by (erule deliver_message_effect) simp

lemmas keeps_messages = init_keeps_messages deliver_keeps shift_boundary_keeps

lemma step_keeps_messages:
  assumes "relay_step env ob proc st ph l st' ph'" and "posts [l] = 0"
  shows "obs_messages st' = obs_messages st"
  using assms by (cases rule: relay_step.cases) (auto dest: keeps_messages)

lemma trace_contents:
  assumes "relay_trace env ob proc w tr st ph" and "proc_ok proc" and "posts tr < 2 ^ 63 - 1" and "p \<in> set (dso_durable_producers ob)"
  shows "contents_of p st = posted_contents p tr"
  using assms
proof (induction rule: relay_trace.induct)
  case trace_empty
  show ?case by (simp add: contents_of_def empty_outbox_def empty_message_repo_def message_log_of_def)
next
  case (trace_step tr st ph l st' ph')
  have bound: "posts tr < 2 ^ 63 - 1" using trace_step(5) by simp
  have IH: "contents_of p st = posted_contents p tr" using trace_step bound by blast
  have ok: "message_repo_ok (obs_messages st)" "length (message_log_of (obs_messages st)) < 2 ^ 63 - 1"
    using relay_trace_inv [OF trace_step(1,4) bound] bound by (auto simp: relay_inv_def data_inv_def)
  show ?case
  proof (cases "posts [l] = 0")
    case True
    then have "obs_messages st' = obs_messages st" using step_keeps_messages trace_step(2) by blast
    moreover have "posted_contents p [l] = []" using True by (cases l) simp_all
    ultimately show ?thesis using IH by (simp add: contents_of_def)
  next
    case False
    then obtain q x where l: "l = Posted q x" by (cases l) simp_all
    then obtain now r where "dispatching_post_message env ob now q x st = (r, st')"
      using trace_step(2) by (auto elim: relay_step.cases)
    then have "obs_messages st' = (if q \<in> set (dso_durable_producers ob)
        then push_message \<lparr>nom_producer_name = q, nom_content_json = x, nom_occurred_on = now\<rparr> (obs_messages st) else obs_messages st)"
      by (rule post_effect(2))
    then show ?thesis
      using msg_log.push_log [OF ok, of "\<lparr>nom_producer_name = q, nom_content_json = x, nom_occurred_on = now\<rparr>"] IH trace_step(6)
      by (auto simp: l contents_of_def)
  qed
qed

section \<open>A small configuration\<close>

text \<open>Producer \<open>A\<close> feeds two durable consumers that record what they are handed; batches hold one message.\<close>

definition sample_consumer :: "string \<Rightarrow> consumer_builder" where
  "sample_consumer c = \<lparr>bld_instance_type_name = c,
     bld_metadata = [\<lparr>mcm_consumer_name = c, mcm_feeding_producers = [''A''], mcm_durability = Durable\<rparr>], bld_message_types = [''T'']\<rparr>"

definition sample_env :: "(string \<times> string) list outbox_env" where
  "sample_env = \<lparr>obe_catalog = [sample_consumer ''X'', sample_consumer ''Y''],
     obe_dispatchers = [\<lparr>md_producer_name = ''A'', md_message_type = ''T''\<rparr>],
     obe_config = \<lparr>obc_awaiting_step = 1, obc_batch_size = 1\<rparr>,
     obe_from_json = (\<lambda>_ _. Inr ()),
     obe_consume_message = (\<lambda>b x w. (Inr (), w @ [(bld_instance_type_name b, x)]))\<rparr>"

definition sample_proc :: outbox_processor where
  "sample_proc = (case new_outbox_processor sample_env of Inr proc \<Rightarrow> proc | Inl _ \<Rightarrow>
     \<lparr>otp_routes_static_info = \<lparr>rsi_message_dispatchers = [], rsi_durable_routes = [], rsi_consumers_by_producers = []\<rparr>,
      otp_producer_relay_jobs = []\<rparr>)"

definition sample_outbox :: dispatching_outbox where
  "sample_outbox = \<lparr>dso_dispatchers = [(''A'', \<lparr>md_producer_name = ''A'', md_message_type = ''T''\<rparr>)],
     dso_consumer_filter = BestEffortConsumers, dso_durable_producers = [''A''], dso_best_effort_producers = []\<rparr>"

definition sample_posted :: "(string \<times> string) list outbox_state" where
  "sample_posted = snd (fbind (dispatching_post_message sample_env sample_outbox 5 ''A'' ''m1'')
     (\<lambda>_. dispatching_post_message sample_env sample_outbox 6 ''A'' ''m2'') (empty_outbox []))"

lemma sample_proc_ok:
  "new_outbox_processor sample_env = Inr sample_proc"
  "new_dispatching_outbox sample_env BestEffortConsumers = Inr sample_outbox"
  "list_all (\<lambda>row. consumer_name_ok (sub_consumer_name row)) (rsi_durable_routes (otp_routes_static_info sample_proc))"
  "set (route_pairs sample_proc) = {(''A'', ''X''), (''A'', ''Y'')}"
  by code_simp+

lemma sample_cooperative: "cooperative sample_env sample_proc"
proof -
  have "list_all (\<lambda>(p, cs). map_of (rsi_message_dispatchers (otp_routes_static_info sample_proc)) p \<noteq> None) (routes sample_proc)"
    by code_simp
  then show ?thesis by (auto simp: cooperative_def list_all_iff) (simp_all add: sample_env_def)
qed

lemma sample_trace:
  "relay_trace sample_env sample_outbox sample_proc [] [Posted ''A'' ''m1'', Posted ''A'' ''m2''] sample_posted Stopped"
proof -
  let ?st1 = "snd (dispatching_post_message sample_env sample_outbox 5 ''A'' ''m1'' (empty_outbox []))"
  have "dispatching_post_message sample_env sample_outbox 5 ''A'' ''m1'' (empty_outbox []) = (Inr (), ?st1)" by code_simp
  moreover have "dispatching_post_message sample_env sample_outbox 6 ''A'' ''m2'' ?st1 = (Inr (), sample_posted)" by code_simp
  ultimately show ?thesis
    using trace_step [OF trace_step [OF trace_empty step_post] step_post] by fastforce
qed

section \<open>Delivery\<close>

text \<open>
  C5. Messages reach durable consumers in order, without gaps, at least once. In every state that the
  processor and the posting code reach together, whatever the interleaving of producers and consumers,
  whichever consumers fail, and however often the processor stops and is started again: the stored
  messages of a producer are exactly what was posted for it, in order; the messages that a durable
  consumer was handed are, apart from repetitions of the last one, an initial segment of them; and the
  consumer's boundary is the last of that segment or the one before, so that at most one message is
  ever handed over again.\<close>

theorem relay_delivers_in_order:
  assumes "new_outbox_processor env = Inr proc" and "new_dispatching_outbox env flt = Inr ob"
    and "list_all (\<lambda>row. consumer_name_ok (sub_consumer_name row)) (rsi_durable_routes (otp_routes_static_info proc))"
    and "relay_trace env ob proc w tr st ph" and "posts tr < 2 ^ 63 - 1" and "(p, c) \<in> set (route_pairs proc)"
  shows "contents_of p st = posted_contents p tr \<and>
    (\<exists>j k. j \<le> k \<and> k \<le> Suc j \<and> k \<le> length (posted_ids p st) \<and>
       remdups_adj (delivered_ids p c tr) = take k (posted_ids p st) \<and>
       (case boundary_at st p c of None \<Rightarrow> k = 0 | Some b \<Rightarrow> b = (0 # posted_ids p st) ! j))"
proof -
  have proc: "proc_ok proc" by (rule new_processor_ok [OF assms(1,3)])
  have "route_inv (posted_ids p st) (boundary_at st p c) (delivered_ids p c tr)"
    using relay_trace_inv [OF assms(4) proc assms(5)] route_pairs_ok [OF proc assms(6)] by (simp add: relay_inv_def data_inv_def)
  then have "\<exists>j k. j \<le> k \<and> k \<le> Suc j \<and> k \<le> length (posted_ids p st) \<and>
       remdups_adj (delivered_ids p c tr) = take k (posted_ids p st) \<and>
       (case boundary_at st p c of None \<Rightarrow> k = 0 | Some b \<Rightarrow> b = (0 # posted_ids p st) ! j)"
    by (cases "boundary_at st p c") (auto simp: route_inv_def)
  then show ?thesis
    using trace_contents [OF assms(4) proc assms(5) route_is_durable [OF assms(1,2,6)]] by blast
qed

theorem relay_delivers_in_order_witness:
  "\<exists>tr st. relay_trace sample_env sample_outbox sample_proc [] tr st Stopped \<and>
     boundary_at st ''A'' ''X'' = Some 1 \<and> posted_ids ''A'' st = [1, 2] \<and> posted_contents ''A'' tr = [''m1'', ''m2''] \<and>
     contents_of ''A'' st = posted_contents ''A'' tr \<and>
     (\<exists>k. 1 \<le> k \<and> k \<le> 2 \<and> remdups_adj (delivered_ids ''A'' ''X'' tr) = take k (posted_ids ''A'' st))"
proof -
  let ?st = "snd (run_single_iteration_only sample_env sample_proc sample_posted)"
  have "run_single_iteration_only sample_env sample_proc sample_posted = (Inr (), ?st)" by code_simp
  then obtain tr where tr: "posts tr = 0"
    "relay_trace sample_env sample_outbox sample_proc [] ([Posted ''A'' ''m1'', Posted ''A'' ''m2''] @ tr) ?st Stopped"
    using sim_single_iteration [OF extends_refl [OF sample_trace]] by (auto simp: extends_def)
  have st: "boundary_at ?st ''A'' ''X'' = Some 1" "posted_ids ''A'' ?st = [1, 2]" "contents_of ''A'' ?st = [''m1'', ''m2'']" by code_simp+
  have "posts ([Posted ''A'' ''m1'', Posted ''A'' ''m2''] @ tr) < 2 ^ 63 - 1" using tr(1) by simp
  note delivery = relay_delivers_in_order [OF sample_proc_ok(1,2,3) tr(2) this, of "''A''" "''X''"]
  then obtain j k where "j \<le> k" "k \<le> Suc j" "k \<le> 2" "(1 :: int) = (0 # [1, 2]) ! j"
    "remdups_adj (delivered_ids ''A'' ''X'' ([Posted ''A'' ''m1'', Posted ''A'' ''m2''] @ tr)) = take k (posted_ids ''A'' ?st)"
    using sample_proc_ok(4) st by auto
  moreover from this have "1 \<le> k" by (cases j) auto
  moreover have "posted_contents ''A'' ([Posted ''A'' ''m1'', Posted ''A'' ''m2''] @ tr) = contents_of ''A'' ?st"
    using delivery sample_proc_ok(4) by simp
  ultimately show ?thesis using tr(2) st by metis
qed

text \<open>
  C6. The outbox drains. From every reachable state in which the processor is stopped, when consumers
  succeed, more iterations than there are stored messages finish without error; then the boundary of
  every durable consumer is the last message of its producer, and over the whole history the consumer was handed exactly the
  messages of the producer, in order, up to immediate repetitions.\<close>

theorem relay_drains_outbox:
  assumes "new_outbox_processor env = Inr proc"
    and "list_all (\<lambda>row. consumer_name_ok (sub_consumer_name row)) (rsi_durable_routes (otp_routes_static_info proc))"
    and "cooperative env proc"
    and "relay_trace env ob proc w tr st Stopped" and "posts tr < 2 ^ 63 - 1"
    and "length (mr_messages (obs_messages st)) < n"
  shows "\<exists>st' tr'. feach (\<lambda>_. run_single_iteration_only env proc) (replicate n ()) st = (Inr (), st') \<and>
    relay_trace env ob proc w (tr @ tr') st' Stopped \<and> posts tr' = 0 \<and>
    (\<forall>(p, c) \<in> set (route_pairs proc).
       boundary_at st' p c = Some (last (0 # posted_ids p st)) \<and>
       remdups_adj (delivered_ids p c (tr @ tr')) = posted_ids p st)"
proof -
  have proc: "proc_ok proc" by (rule new_processor_ok [OF assms(1,2)])
  have data: "data_inv tr st" using relay_trace_inv [OF assms(4) proc assms(5)] by (simp add: relay_inv_def)
  obtain st' where st': "feach (\<lambda>_. run_single_iteration_only env proc) (replicate n ()) st = (Inr (), st')"
    "obs_messages st' = obs_messages st"
    "\<And>p c. (p, c) \<in> set (route_pairs proc) \<Longrightarrow> boundary_at st' p c = Some (last (0 # posted_ids p st))"
    using drained [OF assms(3) proc data assms(6)] by blast
  obtain tr' where tr': "posts tr' = 0" "relay_trace env ob proc w (tr @ tr') st' Stopped"
    using sim_iterations [OF extends_refl [OF assms(4)] st'(1)] by (auto simp: extends_def)
  have data': "data_inv (tr @ tr') st'" using relay_trace_inv [OF tr'(2) proc] tr'(1) assms(5) by (simp add: relay_inv_def)
  have same: "posted_ids p st' = posted_ids p st" for p using st'(2) by (simp add: posted_ids_def)
  have "remdups_adj (delivered_ids p c (tr @ tr')) = posted_ids p st" if r: "(p, c) \<in> set (route_pairs proc)" for p c
    using route_inv_last [OF sorted_posted [OF data', of p]] data_invD [OF data' route_pairs_ok [OF proc r], of p] st'(3) [OF r]
    unfolding same by simp
  then show ?thesis using st' tr' by blast
qed

theorem relay_drains_outbox_witness:
  "\<exists>st' tr'. feach (\<lambda>_. run_single_iteration_only sample_env sample_proc) (replicate 3 ()) sample_posted = (Inr (), st') \<and>
     posts tr' = 0 \<and> boundary_at st' ''A'' ''X'' = Some 2 \<and> boundary_at st' ''A'' ''Y'' = Some 2 \<and>
     remdups_adj (delivered_ids ''A'' ''Y'' ([Posted ''A'' ''m1'', Posted ''A'' ''m2''] @ tr')) = [1, 2]"
proof -
  have "length (mr_messages (obs_messages sample_posted)) < 3" "last (0 # posted_ids ''A'' sample_posted) = 2"
    "posted_ids ''A'' sample_posted = [1, 2]" by code_simp+
  then show ?thesis
    using relay_drains_outbox [OF sample_proc_ok(1,3) sample_cooperative sample_trace, of 3] sample_proc_ok(4) by auto
qed

end
