(* ===== verification/Dataset.thy ===== *)
theory Dataset
  imports Chain_Search
begin

text \<open>
  A dataset (\<open>dataset_impl.rs\<close>, with the options, parameters and errors of
  \<open>domain/core/src/entities/dataset.rs\<close>): a metadata chain, repositories for the data slices
  and the checkpoints that its blocks refer to, and a repository of named objects that caches
  the summary. The repositories of data and checkpoints are those of a workspace on the local
  file system (\<open>object_repository_local_fs.rs\<close>): a multihash names a file, and a file is its
  contents. File system operations are taken to succeed. Each operation returns its result
  with the dataset it leaves, also on failure; it is partial for the reason the chain is.

  Two third-party functions are parameters: the logical hash of a Parquet file
  (\<open>arrow_digest\<close>), and YAML (\<open>serde_yaml\<close>) for the summary.
\<close>

section \<open>Objects on the local file system\<close>

definition get_file_physical_hash :: "externs \<Rightarrow> bytes \<Rightarrow> (string, multihash) res" where
  "get_file_physical_hash x file =
     (case multihash_new Sha3_256 (sha3_256_digest x file) of
        Inl _ \<Rightarrow> Inl (Panic ''called Result::unwrap() on an Err value'')
      | Inr h \<Rightarrow> Inr h)"

text \<open>An object that is already there is kept, and the file is then dropped.\<close>

definition fs_insert_file_move ::
  "externs \<Rightarrow> object_repo \<Rightarrow> bytes \<Rightarrow> insert_opts \<Rightarrow> (insert_error, multihash \<times> object_repo) res" where
  "fs_insert_file_move x r src opts =
     and_then
       (case io_precomputed_hash opts of
          Some hash \<Rightarrow> Inr hash
        | None \<Rightarrow> map_err (map_fault (\<lambda>_. InsertInternal ''io'')) (get_file_physical_hash x src))
       (\<lambda>hash.
         and_then
           (case io_expected_hash opts of
              Some expected \<Rightarrow> ensure (expected = hash) (Fail (HashMismatch expected hash))
            | None \<Rightarrow> Inr ())
           (\<lambda>_. if obj_contains r hash then Inr (hash, r) else Inr (hash, r(hash \<mapsto> src))))"

section \<open>State, parameters, results and errors\<close>

record dataset =
  dset_chain :: chain
  dset_data_repo :: object_repo
  dset_checkpoint_repo :: object_repo
  dset_info_repo :: named_repo

record dataset_summary =
  sm_id :: dataset_id
  sm_kind :: dataset_kind
  sm_last_block_hash :: multihash
  sm_dependencies :: "dataset_id list"
  sm_last_pulled :: "datetime option"
  sm_num_records :: u64
  sm_data_size :: u64
  sm_checkpoints_size :: u64

record 'a manifest =
  mf_kind :: string
  mf_version :: int
  mf_content :: 'a

record dataset_externs =
  parquet_logical_hash :: "bytes \<Rightarrow> string + multihash"
  summary_to_yaml :: "dataset_summary manifest \<Rightarrow> string + bytes"
  summary_from_yaml :: "bytes \<Rightarrow> string + dataset_summary manifest"

text \<open>What serde promises: a written summary is read back.\<close>

definition summary_yaml_ok :: "dataset_externs \<Rightarrow> bool" where
  "summary_yaml_ok dx \<longleftrightarrow>
     (\<forall>m. \<exists>bytes. summary_to_yaml dx m = Inr bytes \<and> summary_from_yaml dx bytes = Inr m)"

record get_summary_opts =
  gso_update_if_stale :: bool

definition default_get_summary_opts :: get_summary_opts where
  "default_get_summary_opts = \<lparr>gso_update_if_stale = True\<rparr>"

record commit_opts =
  co_block_ref :: block_ref
  co_system_time :: "datetime option"
  co_prev_block_hash :: "multihash option option"
  co_check_object_refs :: bool
  co_update_block_ref :: bool

definition default_commit_opts :: commit_opts where
  "default_commit_opts =
     \<lparr>co_block_ref = Head, co_system_time = None, co_prev_block_hash = None,
      co_check_object_refs = True, co_update_block_ref = True\<rparr>"

record commit_result =
  cr_old_head :: "multihash option"
  cr_new_head :: multihash
  cr_new_upstream_ids :: "dataset_id list"

datatype get_summary_error =
    EmptyDataset
  | SummaryAccess access_error
  | SummaryInternal string

datatype commit_error =
    CommitObjectNotFound multihash
  | MetadataAppendError append_error
  | CommitAccess access_error
  | CommitInternal string

record add_data_params =
  adp_prev_checkpoint :: "multihash option"
  adp_prev_offset :: "u64 option"
  adp_new_offset_interval :: "offset_interval option"
  adp_new_watermark :: "datetime option"
  adp_new_source_state :: "source_state option"

record execute_transform_params =
  etp_query_inputs :: "execute_transform_input list"
  etp_prev_checkpoint :: "multihash option"
  etp_prev_offset :: "u64 option"
  etp_new_offset_interval :: "offset_interval option"
  etp_new_watermark :: "datetime option"

datatype checkpoint_ref = CheckpointNew bytes | CheckpointExisted multihash

fun checkpoint_ref_file :: "checkpoint_ref \<Rightarrow> bytes option" where
  "checkpoint_ref_file (CheckpointExisted _) = None"
| "checkpoint_ref_file (CheckpointNew owned_file) = Some owned_file"

section \<open>The cached summary\<close>

definition read_summary ::
  "dataset_externs \<Rightarrow> dataset \<Rightarrow> (get_summary_error, dataset_summary option) res" where
  "read_summary dx d =
     (case named_get (dset_info_repo d) ''summary'' of
        Inl (NamedNotFound _) \<Rightarrow> Inr None
      | Inl (NamedAccess e) \<Rightarrow> Inl (Fail (SummaryAccess e))
      | Inl (NamedInternal m) \<Rightarrow> Inl (Fail (SummaryInternal m))
      | Inr data \<Rightarrow>
          and_then (map_err (\<lambda>e. Fail (SummaryInternal e)) (summary_from_yaml dx data)) (\<lambda>m.
            if mf_kind m \<noteq> ''DatasetSummary'' then Inl (Fail (SummaryInternal ''invalid object kind''))
            else Inr (Some (mf_content m))))"

definition write_summary ::
  "dataset_externs \<Rightarrow> dataset \<Rightarrow> dataset_summary \<Rightarrow> (get_summary_error, unit) res \<times> dataset" where
  "write_summary dx d s =
     (case summary_to_yaml dx \<lparr>mf_kind = ''DatasetSummary'', mf_version = 1, mf_content = s\<rparr> of
        Inl e \<Rightarrow> (Inl (Fail (SummaryInternal e)), d)
      | Inr data \<Rightarrow> (Inr (), d\<lparr>dset_info_repo := named_set (dset_info_repo d) ''summary'' data\<rparr>))"

record summary_increment =
  seen_id :: "dataset_id option"
  seen_kind :: "dataset_kind option"
  seen_head :: "multihash option"
  seen_dependencies :: "dataset_id list option"
  seen_last_pulled :: "datetime option"
  seen_num_records :: u64
  seen_data_size :: u64
  seen_checkpoints_size :: u64

definition empty_increment :: summary_increment where
  "empty_increment =
     \<lparr>seen_id = None, seen_kind = None, seen_head = None, seen_dependencies = None,
      seen_last_pulled = None, seen_num_records = 0, seen_data_size = 0, seen_checkpoints_size = 0\<rparr>"

definition seen_chain_beginning :: "summary_increment \<Rightarrow> bool" where
  "seen_chain_beginning i \<longleftrightarrow> seen_id i \<noteq> None"

definition unwrap :: "'a option \<Rightarrow> ('e, 'a) res" where
  "unwrap v = (case v of None \<Rightarrow> Inl (Panic ''called Option::unwrap() on a None value'') | Some a \<Rightarrow> Inr a)"

definition into_summary :: "summary_increment \<Rightarrow> ('e, dataset_summary) res" where
  "into_summary i =
     and_then (unwrap (seen_id i)) (\<lambda>dataset.
     and_then (unwrap (seen_kind i)) (\<lambda>kind.
     and_then (unwrap (seen_head i)) (\<lambda>head.
       Inr \<lparr>sm_id = dataset, sm_kind = kind, sm_last_block_hash = head,
            sm_dependencies = (case seen_dependencies i of None \<Rightarrow> [] | Some ids \<Rightarrow> ids),
            sm_last_pulled = seen_last_pulled i, sm_num_records = seen_num_records i,
            sm_data_size = seen_data_size i, sm_checkpoints_size = seen_checkpoints_size i\<rparr>)))"

definition apply_to_summary :: "summary_increment \<Rightarrow> dataset_summary \<Rightarrow> ('e, dataset_summary) res" where
  "apply_to_summary i s =
     and_then (unwrap (seen_head i)) (\<lambda>head.
       Inr \<lparr>sm_id = (case seen_id i of None \<Rightarrow> sm_id s | Some dataset \<Rightarrow> dataset),
            sm_kind = (case seen_kind i of None \<Rightarrow> sm_kind s | Some kind \<Rightarrow> kind),
            sm_last_block_hash = head,
            sm_dependencies = (case seen_dependencies i of None \<Rightarrow> sm_dependencies s | Some ids \<Rightarrow> ids),
            sm_last_pulled = opt_or (seen_last_pulled i) (sm_last_pulled s),
            sm_num_records = sm_num_records s + seen_num_records i,
            sm_data_size = sm_data_size s + seen_data_size i,
            sm_checkpoints_size = sm_checkpoints_size s + seen_checkpoints_size i\<rparr>)"

text \<open>The two arms of the loop for blocks with data, which read the same fields.\<close>

definition see_data ::
  "datetime \<Rightarrow> data_slice option \<Rightarrow> checkpoint option \<Rightarrow> summary_increment \<Rightarrow> summary_increment" where
  "see_data t new_data new_checkpoint i =
     (let i1 = i\<lparr>seen_last_pulled := opt_or (seen_last_pulled i) (Some t)\<rparr>;
          i2 = (case new_data of
                  None \<Rightarrow> i1
                | Some output_data \<Rightarrow>
                    let iv = ds_offset_interval output_data
                    in i1\<lparr>seen_num_records := seen_num_records i1 + (oi_end iv - oi_start iv + 1),
                          seen_data_size := seen_data_size i1 + ds_size output_data\<rparr>)
      in (case new_checkpoint of
            None \<Rightarrow> i2
          | Some cp \<Rightarrow> i2\<lparr>seen_checkpoints_size := seen_checkpoints_size i2 + cp_size cp\<rparr>))"

fun unwrap_ids :: "transform_input list \<Rightarrow> ('e, dataset_id list) res" where
  "unwrap_ids [] = Inr []"
| "unwrap_ids (i # is) =
     and_then (unwrap (dataset_ref_id (ti_dataset_ref i))) (\<lambda>id.
     and_then (unwrap_ids is) (\<lambda>ids. Inr (id # ids)))"

definition see_block :: "metadata_block \<Rightarrow> summary_increment \<Rightarrow> ('e, summary_increment) res" where
  "see_block block i =
     (case event block of
        Seed seed \<Rightarrow>
          Inr (i\<lparr>seen_id := opt_or (seen_id i) (Some (seed_dataset_id seed)),
                 seen_kind := opt_or (seen_kind i) (Some (seed_dataset_kind seed))\<rparr>)
      | SetTransform t \<Rightarrow>
          if seen_dependencies i = None
          then and_then (unwrap_ids (st_inputs t)) (\<lambda>ids. Inr (i\<lparr>seen_dependencies := Some ids\<rparr>))
          else Inr i
      | AddData e \<Rightarrow> Inr (see_data (system_time block) (ad_new_data e) (ad_new_checkpoint e) i)
      | ExecuteTransform e \<Rightarrow> Inr (see_data (system_time block) (et_new_data e) (et_new_checkpoint e) i)
      | _ \<Rightarrow> Inr i)"

fun see_blocks :: "hashed_block list \<Rightarrow> summary_increment \<Rightarrow> ('e, summary_increment) res" where
  "see_blocks [] i = Inr i"
| "see_blocks (hb # hbs) i = and_then (see_block (snd hb) i) (see_blocks hbs)"

text \<open>An error of the stream surfaces after the blocks before it were seen.\<close>

definition compute_summary_increment ::
  "codec \<Rightarrow> dataset \<Rightarrow> multihash \<Rightarrow> multihash option \<Rightarrow> (get_summary_error, summary_increment) res option" where
  "compute_summary_increment cd d current_head last_seen =
     map_option
       (\<lambda>(blocks, err).
          and_then (see_blocks blocks (empty_increment\<lparr>seen_head := Some current_head\<rparr>)) (\<lambda>i.
            case err of
              None \<Rightarrow> Inr i
            | Some f \<Rightarrow> Inl (map_fault (\<lambda>_. SummaryInternal ''iteration'') f)))
       (iter_blocks_interval cd (dset_chain d) current_head last_seen True)"

definition update_summary ::
  "externs \<Rightarrow> codec \<Rightarrow> dataset_externs \<Rightarrow> dataset \<Rightarrow> dataset_summary option \<Rightarrow>
   ((get_summary_error, dataset_summary option) res \<times> dataset) option" where
  "update_summary x cd dx d prev =
     (case chain_resolve_ref x (dset_chain d) Head of
        Inl (Fail (RefNotFound _)) \<Rightarrow> Some (Inr prev, d)
      | Inl (Fail (RefAccess e)) \<Rightarrow> Some (Inl (Fail (SummaryAccess e)), d)
      | Inl (Fail (RefInternal m)) \<Rightarrow> Some (Inl (Fail (SummaryInternal m)), d)
      | Inl (Panic m) \<Rightarrow> Some (Inl (Panic m), d)
      | Inr current_head \<Rightarrow>
          let last_seen = map_option sm_last_block_hash prev
          in if last_seen = Some current_head then Some (Inr prev, d)
             else map_option
               (\<lambda>inc.
                  case and_then inc (\<lambda>i.
                         if seen_chain_beginning i then into_summary i
                         else and_then (unwrap prev) (apply_to_summary i)) of
                    Inl f \<Rightarrow> (Inl f, d)
                  | Inr s \<Rightarrow>
                      (case write_summary dx d s of
                         (Inl f, d') \<Rightarrow> (Inl f, d')
                       | (Inr _, d') \<Rightarrow> (Inr (Some s), d')))
               (compute_summary_increment cd d current_head last_seen))"

definition get_summary ::
  "externs \<Rightarrow> codec \<Rightarrow> dataset_externs \<Rightarrow> dataset \<Rightarrow> get_summary_opts \<Rightarrow>
   ((get_summary_error, dataset_summary) res \<times> dataset) option" where
  "get_summary x cd dx d opts =
     (case read_summary dx d of
        Inl f \<Rightarrow> Some (Inl f, d)
      | Inr summary \<Rightarrow>
          map_option
            (\<lambda>(r, d'). (and_then r (\<lambda>s. case s of None \<Rightarrow> Inl (Fail EmptyDataset) | Some s \<Rightarrow> Inr s), d'))
            (if gso_update_if_stale opts then update_summary x cd dx d summary
             else Some (Inr summary, d)))"

section \<open>Committing\<close>

definition prepare_data_slice ::
  "externs \<Rightarrow> dataset_externs \<Rightarrow> offset_interval option \<Rightarrow> bytes option \<Rightarrow> (string, data_slice option) res" where
  "prepare_data_slice x dx interval data =
     (case interval of
        Some offset_interval \<Rightarrow>
          and_then (unwrap data) (\<lambda>file.
          and_then (map_err Fail (parquet_logical_hash dx file)) (\<lambda>logical_hash.
          and_then (get_file_physical_hash x file) (\<lambda>physical_hash.
            Inr (Some \<lparr>ds_logical_hash = logical_hash, ds_physical_hash = physical_hash,
                       ds_offset_interval = offset_interval, ds_size = of_nat (length file)\<rparr>))))
      | None \<Rightarrow>
          if data = None then Inr None else Inl (Panic ''assertion failed: data.is_none()''))"

definition prepare_checkpoint ::
  "externs \<Rightarrow> dataset \<Rightarrow> checkpoint_ref option \<Rightarrow> (string, checkpoint option) res" where
  "prepare_checkpoint x d cp =
     (case cp of
        None \<Rightarrow> Inr None
      | Some (CheckpointExisted hash) \<Rightarrow>
          and_then (map_err (\<lambda>_. Fail ''checkpoint'') (obj_get_size (dset_checkpoint_repo d) hash)) (\<lambda>n.
            Inr (Some \<lparr>cp_physical_hash = hash, cp_size = n\<rparr>))
      | Some (CheckpointNew file) \<Rightarrow>
          and_then (get_file_physical_hash x file) (\<lambda>hash.
            Inr (Some \<lparr>cp_physical_hash = hash, cp_size = of_nat (length file)\<rparr>)))"

definition prepare_objects ::
  "externs \<Rightarrow> dataset_externs \<Rightarrow> dataset \<Rightarrow> offset_interval option \<Rightarrow> bytes option \<Rightarrow> checkpoint_ref option \<Rightarrow>
   (string, data_slice option \<times> checkpoint option) res" where
  "prepare_objects x dx d interval data cp =
     and_then (prepare_data_slice x dx interval data) (\<lambda>data_slice.
     and_then (prepare_checkpoint x d cp) (\<lambda>checkpoint. Inr (data_slice, checkpoint)))"

definition commit_object ::
  "externs \<Rightarrow> object_repo \<Rightarrow> bytes \<Rightarrow> multihash \<Rightarrow> (string, unit) res \<times> object_repo" where
  "commit_object x r file hash =
     (case fs_insert_file_move x r file \<lparr>io_precomputed_hash = Some hash, io_expected_hash = None\<rparr> of
        Inl f \<Rightarrow> (Inl (map_fault (\<lambda>_. ''insert'') f), r)
      | Inr (_, r') \<Rightarrow> (Inr (), r'))"

definition commit_data ::
  "externs \<Rightarrow> data_slice option \<Rightarrow> bytes option \<Rightarrow> dataset \<Rightarrow> (string, unit) res \<times> dataset" where
  "commit_data x data_slice data d =
     (case data_slice of
        None \<Rightarrow> (Inr (), d)
      | Some sl \<Rightarrow>
          (case unwrap data of
             Inl f \<Rightarrow> (Inl f, d)
           | Inr file \<Rightarrow>
               let (r, repo) = commit_object x (dset_data_repo d) file (ds_physical_hash sl)
               in (r, d\<lparr>dset_data_repo := repo\<rparr>)))"

definition commit_checkpoint ::
  "externs \<Rightarrow> checkpoint option \<Rightarrow> bytes option \<Rightarrow> dataset \<Rightarrow> (string, unit) res \<times> dataset" where
  "commit_checkpoint x checkpoint_meta checkpoint d =
     (case (checkpoint_meta, checkpoint) of
        (Some meta, Some file) \<Rightarrow>
          let (r, repo) = commit_object x (dset_checkpoint_repo d) file (cp_physical_hash meta)
          in (r, d\<lparr>dset_checkpoint_repo := repo\<rparr>)
      | _ \<Rightarrow> (Inr (), d))"

definition commit_objects ::
  "externs \<Rightarrow> data_slice option \<Rightarrow> bytes option \<Rightarrow> checkpoint option \<Rightarrow> bytes option \<Rightarrow>
   dataset \<Rightarrow> (string, unit) res \<times> dataset" where
  "commit_objects x data_slice data checkpoint_meta checkpoint =
     fbind (commit_data x data_slice data) (\<lambda>_. commit_checkpoint x checkpoint_meta checkpoint)"

definition check_object_refs :: "dataset \<Rightarrow> metadata_event \<Rightarrow> (commit_error, unit) res" where
  "check_object_refs d e =
     (case as_data_stream_event e of
        None \<Rightarrow> Inr ()
      | Some ev \<Rightarrow>
          and_then
            (case dse_new_data ev of
               None \<Rightarrow> Inr ()
             | Some sl \<Rightarrow>
                 ensure (obj_contains (dset_data_repo d) (ds_physical_hash sl))
                   (Fail (CommitObjectNotFound (ds_physical_hash sl))))
            (\<lambda>_. case dse_new_checkpoint ev of
               None \<Rightarrow> Inr ()
             | Some cp \<Rightarrow>
                 ensure (obj_contains (dset_checkpoint_repo d) (cp_physical_hash cp))
                   (Fail (CommitObjectNotFound (cp_physical_hash cp)))))"

definition commit_prev_block_hash ::
  "externs \<Rightarrow> dataset \<Rightarrow> commit_opts \<Rightarrow> (commit_error, multihash option) res" where
  "commit_prev_block_hash x d opts =
     (case co_prev_block_hash opts of
        Some prev \<Rightarrow> Inr prev
      | None \<Rightarrow>
          (case chain_resolve_ref x (dset_chain d) (co_block_ref opts) of
             Inr h \<Rightarrow> Inr (Some h)
           | Inl (Fail (RefNotFound _)) \<Rightarrow> Inr None
           | Inl f \<Rightarrow> Inl (map_fault (\<lambda>_. CommitInternal ''reference'') f)))"

definition commit_sequence_number ::
  "codec \<Rightarrow> dataset \<Rightarrow> multihash option \<Rightarrow> (commit_error, u64) res" where
  "commit_sequence_number cd d prev =
     (case prev of
        None \<Rightarrow> Inr 0
      | Some h \<Rightarrow>
          and_then (map_err (\<lambda>_. Fail (CommitInternal ''block'')) (chain_get_block cd (dset_chain d) h))
            (\<lambda>b. Inr (sequence_number b + 1)))"

fun new_upstream_ids :: "bool \<Rightarrow> metadata_event \<Rightarrow> dataset_id list" where
  "new_upstream_ids True (SetTransform t) =
     List.map_filter (\<lambda>i. dataset_ref_id (ti_dataset_ref i)) (st_inputs t)"
| "new_upstream_ids _ _ = []"

definition commit_append_opts :: "commit_opts \<Rightarrow> append_opts" where
  "commit_append_opts opts =
     (if \<not> co_update_block_ref opts
      then default_append_opts\<lparr>ao_update_ref := None, ao_check_ref_is_prev_block := False\<rparr>
      else default_append_opts)"

text \<open>The block that a commit appends.\<close>

definition commit_block ::
  "externs \<Rightarrow> codec \<Rightarrow> datetime \<Rightarrow> dataset \<Rightarrow> metadata_event \<Rightarrow> commit_opts \<Rightarrow> (commit_error, metadata_block) res" where
  "commit_block x cd now d e opts =
     and_then (if co_check_object_refs opts then check_object_refs d e else Inr ()) (\<lambda>_.
     and_then (commit_prev_block_hash x d opts) (\<lambda>prev.
     and_then (commit_sequence_number cd d prev) (\<lambda>n.
       Inr \<lparr>system_time = (case co_system_time opts of Some t \<Rightarrow> t | None \<Rightarrow> now),
            prev_block_hash = prev, sequence_number = n, event = e\<rparr>)))"

definition commit_event ::
  "externs \<Rightarrow> codec \<Rightarrow> datetime \<Rightarrow> dataset \<Rightarrow> metadata_event \<Rightarrow> commit_opts \<Rightarrow>
   ((commit_error, commit_result) res \<times> dataset) option" where
  "commit_event x cd now d e opts =
     (case commit_block x cd now d e opts of
        Inl f \<Rightarrow> Some (Inl f, d)
      | Inr block \<Rightarrow>
          map_option
            (\<lambda>(r, c). (and_then (map_err (map_fault MetadataAppendError) r) (\<lambda>new_head.
                 Inr \<lparr>cr_old_head = prev_block_hash block, cr_new_head = new_head,
                      cr_new_upstream_ids = new_upstream_ids (co_update_block_ref opts) e\<rparr>),
               d\<lparr>dset_chain := c\<rparr>))
            (chain_append x cd (dset_chain d) block (commit_append_opts opts)))"

definition add_data_event :: "add_data_params \<Rightarrow> data_slice option \<Rightarrow> checkpoint option \<Rightarrow> metadata_event" where
  "add_data_event params new_data new_checkpoint =
     AddData \<lparr>ad_prev_checkpoint = adp_prev_checkpoint params, ad_prev_offset = adp_prev_offset params,
        ad_new_data = new_data, ad_new_checkpoint = new_checkpoint,
        ad_new_watermark = adp_new_watermark params, ad_new_source_state = adp_new_source_state params\<rparr>"

definition commit_add_data ::
  "externs \<Rightarrow> codec \<Rightarrow> dataset_externs \<Rightarrow> datetime \<Rightarrow> dataset \<Rightarrow> add_data_params \<Rightarrow> bytes option \<Rightarrow>
   checkpoint_ref option \<Rightarrow> commit_opts \<Rightarrow> ((commit_error, commit_result) res \<times> dataset) option" where
  "commit_add_data x cd dx now d params data_file cp opts =
     (case prepare_objects x dx d (adp_new_offset_interval params) data_file cp of
        Inl f \<Rightarrow> Some (Inl (map_fault CommitInternal f), d)
      | Inr (new_data, new_checkpoint) \<Rightarrow>
          (case commit_objects x new_data data_file new_checkpoint (Option.bind cp checkpoint_ref_file) d of
             (Inl f, d') \<Rightarrow> Some (Inl (map_fault CommitInternal f), d')
           | (Inr _, d') \<Rightarrow>
               commit_event x cd now d'
                 (add_data_event params new_data new_checkpoint)
                 (opts\<lparr>co_check_object_refs := False\<rparr>)))"

definition prepare_execute_transform ::
  "externs \<Rightarrow> dataset_externs \<Rightarrow> dataset \<Rightarrow> execute_transform_params \<Rightarrow> bytes option \<Rightarrow>
   checkpoint_ref option \<Rightarrow> (string, execute_transform) res" where
  "prepare_execute_transform x dx d params data_file cp =
     and_then (prepare_objects x dx d (etp_new_offset_interval params) data_file cp)
       (\<lambda>(new_data, new_checkpoint).
         Inr \<lparr>et_query_inputs = etp_query_inputs params, et_prev_checkpoint = etp_prev_checkpoint params,
              et_prev_offset = etp_prev_offset params, et_new_data = new_data,
              et_new_checkpoint = new_checkpoint, et_new_watermark = etp_new_watermark params\<rparr>)"

definition commit_execute_transform ::
  "externs \<Rightarrow> codec \<Rightarrow> dataset_externs \<Rightarrow> datetime \<Rightarrow> dataset \<Rightarrow> execute_transform_params \<Rightarrow> bytes option \<Rightarrow>
   checkpoint_ref option \<Rightarrow> commit_opts \<Rightarrow> ((commit_error, commit_result) res \<times> dataset) option" where
  "commit_execute_transform x cd dx now d params data cp opts =
     (case prepare_execute_transform x dx d params data cp of
        Inl f \<Rightarrow> Some (Inl (map_fault CommitInternal f), d)
      | Inr e \<Rightarrow>
          (case commit_objects x (et_new_data e) data (et_new_checkpoint e)
                  (Option.bind cp checkpoint_ref_file) d of
             (Inl f, d') \<Rightarrow> Some (Inl (map_fault CommitInternal f), d')
           | (Inr _, d') \<Rightarrow>
               commit_event x cd now d' (ExecuteTransform e) (opts\<lparr>co_check_object_refs := False\<rparr>)))"

end
