(* ===== verification/Dataset_Summary.thy ===== *)
theory Dataset_Summary
  imports Dataset
begin

text \<open>
  What the cached summary of a dataset has to say, as a function of the blocks of its chain,
  and the proof that one update, incremental or from scratch, computes it. The increment is
  additive: over a chain that is cut at the last seen block, the newer part contributes
  exactly the difference.
\<close>

section \<open>The summary of a chain\<close>

fun as_Seed :: "metadata_event \<Rightarrow> seed option" where
  "as_Seed (Seed s) = Some s"
| "as_Seed _ = None"

definition block_data :: "metadata_block \<Rightarrow> data_slice option" where
  "block_data b = Option.bind (as_data_stream_event (event b)) dse_new_data"

definition block_checkpoint :: "metadata_block \<Rightarrow> checkpoint option" where
  "block_checkpoint b = Option.bind (as_data_stream_event (event b)) dse_new_checkpoint"

definition block_pulled :: "metadata_block \<Rightarrow> datetime option" where
  "block_pulled b = (if is_data_event (event b) then Some (system_time b) else None)"

text \<open>A measure of an optional object, absent objects counting nothing.\<close>

definition amount :: "('a \<Rightarrow> u64) \<Rightarrow> 'a option \<Rightarrow> u64" where
  "amount f v = (case v of None \<Rightarrow> 0 | Some a \<Rightarrow> f a)"

definition chain_records :: "metadata_block list \<Rightarrow> u64" where
  "chain_records bs = sum_list (map (\<lambda>b. amount data_slice_num_records (block_data b)) bs)"

definition chain_data_size :: "metadata_block list \<Rightarrow> u64" where
  "chain_data_size bs = sum_list (map (\<lambda>b. amount ds_size (block_data b)) bs)"

definition chain_checkpoints_size :: "metadata_block list \<Rightarrow> u64" where
  "chain_checkpoints_size bs = sum_list (map (\<lambda>b. amount cp_size (block_checkpoint b)) bs)"

definition transform_ids :: "set_transform \<Rightarrow> dataset_id list" where
  "transform_ids t = List.map_filter (\<lambda>i. dataset_ref_id (ti_dataset_ref i)) (st_inputs t)"

text \<open>
  The summary of the blocks \<open>bs\<close>, newest first, below and with the head \<open>h\<close>: the identity from
  the seed, the inputs of the latest transform, the time of the latest data block, and the
  totals over the whole chain.
\<close>

definition summary_of :: "multihash \<Rightarrow> metadata_block list \<Rightarrow> dataset_summary" where
  "summary_of h bs =
     \<lparr>sm_id = seed_dataset_id (the (last_event as_Seed bs)),
      sm_kind = seed_dataset_kind (the (last_event as_Seed bs)),
      sm_last_block_hash = h,
      sm_dependencies = (case last_event as_SetTransform bs of None \<Rightarrow> [] | Some t \<Rightarrow> transform_ids t),
      sm_last_pulled = first_of block_pulled bs,
      sm_num_records = chain_records bs,
      sm_data_size = chain_data_size bs,
      sm_checkpoints_size = chain_checkpoints_size bs\<rparr>"

section \<open>Appending chains\<close>

lemma first_of_append: "first_of f (xs @ ys) = opt_or (first_of f xs) (first_of f ys)"
  by (induction xs) (auto split: option.split)

lemma last_event_append: "last_event f (xs @ ys) = opt_or (last_event f xs) (last_event f ys)"
  by (simp add: last_event_def first_of_append)

lemma totals_simps [simp]:
  "chain_records [] = 0" "chain_data_size [] = 0" "chain_checkpoints_size [] = 0"
  "chain_records (b # bs) = amount data_slice_num_records (block_data b) + chain_records bs"
  "chain_data_size (b # bs) = amount ds_size (block_data b) + chain_data_size bs"
  "chain_checkpoints_size (b # bs) = amount cp_size (block_checkpoint b) + chain_checkpoints_size bs"
  "chain_records (xs @ ys) = chain_records xs + chain_records ys"
  "chain_data_size (xs @ ys) = chain_data_size xs + chain_data_size ys"
  "chain_checkpoints_size (xs @ ys) = chain_checkpoints_size xs + chain_checkpoints_size ys"
  by (simp_all add: chain_records_def chain_data_size_def chain_checkpoints_size_def)

section \<open>What the loop accumulates\<close>

lemma unwrap_simps [simp]: "unwrap (Some a) = Inr a" "unwrap v = Inr a \<longleftrightarrow> v = Some a"
  by (auto simp: unwrap_def split: option.splits)

lemma unwrap_ids_resolved:
  assumes "list_all (\<lambda>i. dataset_ref_id (ti_dataset_ref i) \<noteq> None) is"
  shows "unwrap_ids is = Inr (List.map_filter (\<lambda>i. dataset_ref_id (ti_dataset_ref i)) is)"
  using assms by (induction "is") (auto simp: map_filter_simps)

lemma valid_chain_transform_resolved:
  "valid_chain bs \<Longrightarrow> b \<in> set bs \<Longrightarrow> event b = SetTransform t \<Longrightarrow>
     list_all (\<lambda>i. dataset_ref_id (ti_dataset_ref i) \<noteq> None) (st_inputs t)"
  by (induction bs) (auto simp: valid_next_def valid_set_transform_def list_all_iff)

definition increment_of :: "metadata_block list \<Rightarrow> summary_increment \<Rightarrow> summary_increment" where
  "increment_of bs i =
     i\<lparr>seen_id := opt_or (seen_id i) (map_option seed_dataset_id (last_event as_Seed bs)),
       seen_kind := opt_or (seen_kind i) (map_option seed_dataset_kind (last_event as_Seed bs)),
       seen_dependencies := opt_or (seen_dependencies i)
         (map_option transform_ids (last_event as_SetTransform bs)),
       seen_last_pulled := opt_or (seen_last_pulled i) (first_of block_pulled bs),
       seen_num_records := seen_num_records i + chain_records bs,
       seen_data_size := seen_data_size i + chain_data_size bs,
       seen_checkpoints_size := seen_checkpoints_size i + chain_checkpoints_size bs\<rparr>"

lemma increment_of_Nil [simp]: "increment_of [] i = i"
  by (simp add: increment_of_def last_event_def)

lemma map_option_opt_or: "map_option f (opt_or a b) = opt_or (map_option f a) (map_option f b)"
  by (cases a) simp_all

lemma increment_of_append: "increment_of (as @ bs) i = increment_of bs (increment_of as i)"
  by (simp add: increment_of_def last_event_append first_of_append map_option_opt_or add.assoc)

lemma see_block_increment:
  assumes "\<And>t. event b = SetTransform t \<Longrightarrow>
      list_all (\<lambda>i. dataset_ref_id (ti_dataset_ref i) \<noteq> None) (st_inputs t)"
  shows "see_block b i = Inr (increment_of [b] i)"
proof (cases "event b")
  case (SetTransform t)
  then show ?thesis
    by (cases "seen_dependencies i")
      (auto simp: unwrap_ids_resolved [OF assms [OF SetTransform]] see_block_def increment_of_def last_event_def transform_ids_def block_pulled_def
        block_data_def block_checkpoint_def amount_def)
qed (auto simp: see_block_def see_data_def increment_of_def last_event_def block_pulled_def Let_def
    block_data_def block_checkpoint_def amount_def data_slice_num_records_def split: option.split)

lemma see_blocks_increment:
  assumes "\<forall>hb \<in> set hbs. \<forall>t. event (snd hb) = SetTransform t \<longrightarrow>
      list_all (\<lambda>i. dataset_ref_id (ti_dataset_ref i) \<noteq> None) (st_inputs t)"
  shows "(see_blocks hbs i :: ('e, _) res) = Inr (increment_of (map snd hbs) i)"
  using assms
proof (induction hbs arbitrary: i)
  case (Cons hb hbs)
  then have "(see_block (snd hb) i :: ('e, _) res) = Inr (increment_of [snd hb] i)"
    by (intro see_block_increment) auto
  with Cons increment_of_append [of "[snd hb]" "map snd hbs" i] show ?case by simp
qed simp


section \<open>The chain cut at the last seen block\<close>

lemma chain_at_cut:
  assumes "chain_at get h bs" and "t \<in> fst ` set bs"
  obtains older where "bs = before_tail (Some t) bs @ older" and "chain_at get t older"
  using assms
proof (induction arbitrary: thesis rule: chain_at.induct)
  case (chain_root h b)
  have "chain_at get h [(h, b)]" using chain_root(1,2) by (rule chain_at.chain_root)
  with chain_root(3,4) show ?case by (auto simp: before_tail_def)
next
  case (chain_step h b p bs)
  have here: "chain_at get h ((h, b) # bs)" using chain_step(1,2,3) by (rule chain_at.chain_step)
  show ?case
  proof (cases "t = h")
    case True
    with here chain_step.prems(1) [of "(h, b) # bs"] show ?thesis by (simp add: before_tail_def)
  next
    case False
    with chain_step.prems(2) have "t \<in> fst ` set bs" by auto
    with chain_step.IH obtain older where "bs = before_tail (Some t) bs @ older" "chain_at get t older"
      by blast
    with False chain_step.prems(1) [of older] show ?thesis by (simp add: before_tail_def)
  qed
qed

lemma before_tail_missing: "tail \<notin> Some ` fst ` set bs \<Longrightarrow> before_tail tail bs = bs"
  by (auto simp: before_tail_def takeWhile_eq_all_conv)

text \<open>Exactly the parts of a valid chain that reach its first block hold a seed.\<close>

lemma is_Seed_as_Seed: "as_Seed e = None \<longleftrightarrow> \<not> is_Seed e"
  by (cases e) simp_all

lemma valid_chain_has_seed:
  assumes "valid_chain bs" and "bs \<noteq> []"
  shows "last_event as_Seed bs \<noteq> None"
proof -
  have "is_Seed (event (last bs))"
    using valid_chain_seed [OF assms(1), of "length bs - 1"] assms(2) by (simp add: last_conv_nth)
  with assms(2) show ?thesis by (auto simp: last_event_def first_of_None is_Seed_as_Seed)
qed

lemma valid_chain_newer_no_seed:
  assumes "valid_chain (newer @ older)" and "older \<noteq> []"
  shows "last_event as_Seed newer = None"
proof -
  have "\<not> is_Seed (event (newer ! i))" if "i < length newer" for i
    using valid_chain_seed [OF assms(1), of i] that assms(2) by (cases older) (simp_all add: nth_append)
  then show ?thesis by (auto simp: last_event_def first_of_None is_Seed_as_Seed in_set_conv_nth)
qed

section \<open>One update\<close>

lemma into_summary_of:
  assumes "last_event as_Seed bs \<noteq> None"
  shows "into_summary (increment_of bs (empty_increment\<lparr>seen_head := Some h\<rparr>)) = Inr (summary_of h bs)"
  using assms
  by (auto simp: into_summary_def increment_of_def empty_increment_def summary_of_def split: option.split)

lemma apply_to_summary_of:
  assumes "last_event as_Seed newer = None"
  shows "apply_to_summary (increment_of newer (empty_increment\<lparr>seen_head := Some h\<rparr>)) (summary_of t older) =
    Inr (summary_of h (newer @ older))"
  using assms
  by (auto simp: apply_to_summary_def increment_of_def empty_increment_def summary_of_def
      last_event_append first_of_append add.commute split: option.split)

lemma compute_summary_increment_chain:
  assumes "chain_at (chain_get_block cd (dset_chain d)) h bs" and "valid_chain (map snd bs)"
  shows "compute_summary_increment cd d h tail =
    Some (Inr (increment_of (map snd (before_tail tail bs)) (empty_increment\<lparr>seen_head := Some h\<rparr>)))"
proof -
  have "set (before_tail tail bs) \<subseteq> set bs" by (auto simp: before_tail_def dest: set_takeWhileD)
  then have "see_blocks (before_tail tail bs) i = Inr (increment_of (map snd (before_tail tail bs)) i)" for i
    using valid_chain_transform_resolved [OF assms(2)]
    by (intro see_blocks_increment) (metis image_eqI list.set_map subsetD)
  then show ?thesis
    by (cases tail)
      (auto simp: compute_summary_increment_def iter_blocks_interval_def iter_loop_chain [OF assms(1)])
qed

text \<open>
  The summary kept so far, if any, is that of some block of the store. Then the update stores
  and returns the summary of the whole chain, whether it goes through the newer blocks only
  or, after the head was moved to another history, through all of them.
\<close>

lemma update_summary_exact:
  assumes chain: "chain_at (chain_get_block cd (dset_chain d)) h bs" "valid_chain (map snd bs)"
    and head: "chain_resolve_ref x (dset_chain d) Head = Inr h"
    and prev: "\<And>s. prev = Some s \<Longrightarrow>
        \<exists>t ts. s = summary_of t (map snd ts) \<and> chain_at (chain_get_block cd (dset_chain d)) t ts"
    and yaml: "summary_yaml_ok dx"
  shows "\<exists>d'. update_summary x cd dx d prev = Some (Inr (Some (summary_of h (map snd bs))), d')
    \<and> (d' = d \<and> prev = Some (summary_of h (map snd bs))
       \<or> (Inr (), d') = write_summary dx d (summary_of h (map snd bs)))"
proof (cases "map_option sm_last_block_hash prev = Some h")
  case True
  then obtain s where s: "prev = Some s" "sm_last_block_hash s = h" by auto
  with prev obtain t ts where t: "s = summary_of t (map snd ts)"
    "chain_at (chain_get_block cd (dset_chain d)) t ts" by blast
  with s have "t = h" by (simp add: summary_of_def)
  with t chain_at_unique [OF chain(1)] s have "prev = Some (summary_of h (map snd bs))" by auto
  with True head show ?thesis by (simp add: update_summary_def)
next
  case False
  let ?tail = "map_option sm_last_block_hash prev"
  let ?inc = "increment_of (map snd (before_tail ?tail bs)) (empty_increment\<lparr>seen_head := Some h\<rparr>)"
  have new: "(if seen_chain_beginning ?inc then into_summary ?inc
      else and_then (unwrap prev) (apply_to_summary ?inc)) =
      (Inr (summary_of h (map snd bs)) :: (get_summary_error, _) res)"
  proof (cases "?tail \<in> Some ` fst ` set bs")
    case True
    then obtain s where s: "prev = Some s" "sm_last_block_hash s \<in> fst ` set bs" by auto
    with prev obtain t ts where t: "s = summary_of t (map snd ts)"
      "chain_at (chain_get_block cd (dset_chain d)) t ts" by blast
    have st: "sm_last_block_hash s = t" using t by (simp add: summary_of_def)
    with s obtain older where older: "bs = before_tail (Some t) bs @ older"
      "chain_at (chain_get_block cd (dset_chain d)) t older"
      using chain_at_cut [OF chain(1)] by metis
    with t have "ts = older" by (blast dest: chain_at_unique)
    have eq: "map snd bs = map snd (before_tail (Some t) bs) @ map snd older"
      using older(1) by (metis map_append)
    with chain(2) chain_at_nonempty [OF older(2)]
    have "last_event as_Seed (map snd (before_tail (Some t) bs)) = None"
      by (intro valid_chain_newer_no_seed [of _ "map snd older"]) auto
    with apply_to_summary_of [OF this, of h t "map snd older"] s(1) t(1) st \<open>ts = older\<close> eq
    show ?thesis by (simp add: seen_chain_beginning_def increment_of_def empty_increment_def)
  next
    case missing: False
    have "last_event as_Seed (map snd bs) \<noteq> None"
      using chain(2) chain_at_nonempty [OF chain(1)] by (intro valid_chain_has_seed) auto
    with into_summary_of [OF this, of h] before_tail_missing [OF missing] show ?thesis
      by (auto simp: seen_chain_beginning_def increment_of_def empty_increment_def)
  qed
  from yaml obtain bytes where
    "summary_to_yaml dx \<lparr>mf_kind = ''DatasetSummary'', mf_version = 1, mf_content = summary_of h (map snd bs)\<rparr>
      = Inr bytes"
    unfolding summary_yaml_ok_def by blast
  then show ?thesis
    using False head new
    by (auto simp: update_summary_def compute_summary_increment_chain [OF chain] write_summary_def Let_def)
qed

end
