(* ===== verification/Dataset_Invariant.thy ===== *)
theory Dataset_Invariant
  imports Dataset_Summary
begin

text \<open>
  The histories of a dataset: commits, summaries, insertions of objects, and the appends and
  reference updates that other services make on its chain. Every history keeps the cached
  summary that of a block of the chain (\<open>dataset_inv\<close>). In the strict histories blocks come
  from commits only, and these keep every object that a block refers to in the repositories
  (\<open>refs_inv\<close>).
\<close>

section \<open>Histories\<close>

definition empty_dataset :: dataset where
  "empty_dataset =
     \<lparr>dset_chain = empty_chain, dset_data_repo = Map.empty, dset_checkpoint_repo = Map.empty,
      dset_info_repo = Map.empty\<rparr>"

text \<open>The block of a commit survives serialization, and its hash does not collide.\<close>

definition commit_sound ::
  "externs \<Rightarrow> codec \<Rightarrow> datetime \<Rightarrow> dataset \<Rightarrow> metadata_event \<Rightarrow> commit_opts \<Rightarrow> bool" where
  "commit_sound x cd now d e opts \<longleftrightarrow>
     (case commit_block x cd now d e (opts\<lparr>co_check_object_refs := False\<rparr>) of
        Inl _ \<Rightarrow> True
      | Inr b \<Rightarrow> append_sound x cd (dset_chain d) b (commit_append_opts opts))"

inductive dataset_op ::
  "externs \<Rightarrow> codec \<Rightarrow> dataset_externs \<Rightarrow> bool \<Rightarrow> dataset \<Rightarrow> dataset \<Rightarrow> bool" for x cd dx strict where
  op_chain:
    "chain_op x cd (dset_chain d) c \<Longrightarrow> \<not> strict \<Longrightarrow> dataset_op x cd dx strict d (d\<lparr>dset_chain := c\<rparr>)"
| op_set_ref:
    "chain_set_ref x (dset_chain d) r h opts = (res, c) \<Longrightarrow> so_validate_block_present opts \<Longrightarrow>
     dataset_op x cd dx strict d (d\<lparr>dset_chain := c\<rparr>)"
| op_insert_data:
    "fs_insert_file_move x (dset_data_repo d) file opts = Inr (h, r) \<Longrightarrow>
     dataset_op x cd dx strict d (d\<lparr>dset_data_repo := r\<rparr>)"
| op_insert_checkpoint:
    "fs_insert_file_move x (dset_checkpoint_repo d) file opts = Inr (h, r) \<Longrightarrow>
     dataset_op x cd dx strict d (d\<lparr>dset_checkpoint_repo := r\<rparr>)"
| op_info:
    "name \<noteq> ''summary'' \<Longrightarrow>
     dataset_op x cd dx strict d (d\<lparr>dset_info_repo := named_set (dset_info_repo d) name data\<rparr>)"
| op_commit_event:
    "commit_event x cd now d e opts = Some (r, d') \<Longrightarrow> commit_sound x cd now d e opts \<Longrightarrow>
     strict \<longrightarrow> co_check_object_refs opts \<Longrightarrow> dataset_op x cd dx strict d d'"
| op_commit_add_data:
    "commit_add_data x cd dx now d params file cp opts = Some (r, d') \<Longrightarrow>
     \<forall>nd nc. prepare_objects x dx d (adp_new_offset_interval params) file cp = Inr (nd, nc) \<longrightarrow>
       commit_sound x cd now d (add_data_event params nd nc) opts \<Longrightarrow>
     dataset_op x cd dx strict d d'"
| op_commit_execute_transform:
    "commit_execute_transform x cd dx now d tparams file cp opts = Some (r, d') \<Longrightarrow>
     \<forall>e. prepare_execute_transform x dx d tparams file cp = Inr e \<longrightarrow>
       commit_sound x cd now d (ExecuteTransform e) opts \<Longrightarrow>
     dataset_op x cd dx strict d d'"
| op_get_summary:
    "get_summary x cd dx d gopts = Some (res, d') \<Longrightarrow> dataset_op x cd dx strict d d'"

inductive dataset_reachable ::
  "externs \<Rightarrow> codec \<Rightarrow> dataset_externs \<Rightarrow> bool \<Rightarrow> dataset \<Rightarrow> bool" for x cd dx strict where
  dreach_empty: "dataset_reachable x cd dx strict empty_dataset"
| dreach_step:
    "dataset_reachable x cd dx strict d \<Longrightarrow> dataset_op x cd dx strict d d' \<Longrightarrow>
     dataset_reachable x cd dx strict d'"

section \<open>What appends do to the stored blocks\<close>

lemma chain_append_blocks:
  assumes "chain_append x cd c b opts = Some (r, c')" and "externs_ok x" and "append_sound x cd c b opts"
  shows "(chain_get_block cd c k = Inr a \<longrightarrow> chain_get_block cd c' k = Inr a)
    \<and> (chain_get_block cd c' k = Inr a \<longrightarrow> chain_get_block cd c k = Inr a \<or> a = b)"
  using assms(1)
proof (cases rule: chain_append_cases)
  case committed
  from committed(1) assms(2,3) show ?thesis
  proof (cases rule: append_commit_cases)
    case (stored h io)
    show ?thesis
      using mem_blocks.get_preserved [OF stored(3,4)] mem_blocks.get_inserted [OF stored(3,4)]
        mem_blocks.get_other [OF stored(3), of k]
      by (cases "k = h") (auto simp: chain_get_block_eq)
  qed simp
qed simp

lemma chain_set_ref_blocks: "chain_set_ref x c r h opts = (res, c') \<Longrightarrow> meta_block_repo c' = meta_block_repo c"
  by (erule chain_set_ref_cases) auto

lemma chain_op_keeps_blocks:
  assumes "chain_op x cd c c'" and "externs_ok x" and "chain_get_block cd c k = Inr b"
  shows "chain_get_block cd c' k = Inr b"
  using assms(1)
proof cases
  case (step_append b' opts r)
  with chain_append_blocks [OF step_append(1) assms(2) step_append(3)] assms(3) show ?thesis by blast
next
  case (step_set_ref r h opts res)
  then show ?thesis using assms(3) by (simp add: chain_get_block_eq chain_set_ref_blocks)
qed

lemma chain_op_keeps_chains:
  "chain_op x cd c c' \<Longrightarrow> externs_ok x \<Longrightarrow> chain_at (chain_get_block cd c) h bs \<Longrightarrow>
     chain_at (chain_get_block cd c') h bs"
  by (erule chain_at_mono) (rule chain_op_keeps_blocks)

text \<open>A head that is set stays set.\<close>

lemma resolve_current: "chain_resolve_ref x c Head = Inr h \<longleftrightarrow> current_ref x c Head = Inr (Some h)"
  by (simp add: chain_resolve_ref_def current_ref_Inr)

lemma chain_op_keeps_head:
  assumes "chain_op x cd c c'" and ok: "externs_ok x" and "blocks_inv cd c"
    and "chain_resolve_ref x c Head = Inr h"
  shows "\<exists>h'. chain_resolve_ref x c' Head = Inr h'"
  using assms(1)
proof cases
  case (step_append b opts r)
  from step_append(1) show ?thesis
  proof (cases rule: chain_append_cases)
    case committed
    from committed(1) ok step_append(3) show ?thesis
    proof (cases rule: append_commit_cases)
      case (stored k io)
      show ?thesis
      proof (cases "ao_update_ref opts")
        case None
        with stored(6) assms(4) show ?thesis by (auto simp: chain_resolve_ref_def)
      next
        case (Some s)
        with stored(6) have "ref_set x (ref_repo c) Head k = Inr (ref_repo c')" by (cases s) simp
        from mem_refs.get_after_set [OF ok stored(5) this] show ?thesis by (simp add: chain_resolve_ref_def)
      qed
    qed (use assms in auto)
  qed (use assms in auto)
next
  case (step_set_ref r k opts res)
  from step_set_ref(1) show ?thesis
  proof (cases rule: chain_set_ref_cases)
    case (updated refs)
    with step_set_ref(2) assms(3) have "wf_multihash k" by (simp add: set_ref_check_ok blocks_inv_def)
    from ref_set_current [OF ok this updated(2)] updated(3) show ?thesis
      by (cases r) (auto simp: resolve_current)
  qed (use assms in auto)
qed

section \<open>What commits do\<close>

definition objects_grow :: "dataset \<Rightarrow> dataset \<Rightarrow> bool" where
  "objects_grow d d' \<longleftrightarrow>
     dset_chain d' = dset_chain d \<and> dset_info_repo d' = dset_info_repo d
     \<and> dset_data_repo d \<subseteq>\<^sub>m dset_data_repo d' \<and> dset_checkpoint_repo d \<subseteq>\<^sub>m dset_checkpoint_repo d'"

lemma objects_grow_refl [simp]: "objects_grow d d"
  by (simp add: objects_grow_def)

lemma objects_grow_trans: "objects_grow a b \<Longrightarrow> objects_grow b c \<Longrightarrow> objects_grow a c"
  by (auto simp: objects_grow_def intro: map_le_trans)

text \<open>The objects that an event refers to are in the repositories.\<close>

definition objects_present :: "dataset \<Rightarrow> metadata_event \<Rightarrow> bool" where
  "objects_present d e \<longleftrightarrow>
     (case as_data_stream_event e of
        None \<Rightarrow> True
      | Some ev \<Rightarrow>
          (\<forall>s. dse_new_data ev = Some s \<longrightarrow> ds_physical_hash s \<in> dom (dset_data_repo d))
          \<and> (\<forall>c. dse_new_checkpoint ev = Some c \<longrightarrow> cp_physical_hash c \<in> dom (dset_checkpoint_repo d)))"

lemma check_object_refs_ok: "check_object_refs d e = Inr u \<longleftrightarrow> objects_present d e"
  by (auto simp: check_object_refs_def objects_present_def res_simps obj_contains_def
      simp del: as_data_stream_event_None split: option.splits)

lemma objects_present_mono:
  assumes "objects_present d e" and "objects_grow d d'"
  shows "objects_present d' e"
proof -
  have "dom (dset_data_repo d) \<subseteq> dom (dset_data_repo d')"
    "dom (dset_checkpoint_repo d) \<subseteq> dom (dset_checkpoint_repo d')"
    using assms(2) by (simp_all add: objects_grow_def map_le_implies_dom_le)
  with assms(1) show ?thesis
    by (cases "as_data_stream_event e")
      (simp_all add: objects_present_def subset_iff del: as_data_stream_event_None)
qed

lemma objects_present_cong:
  "dset_data_repo d' = dset_data_repo d \<Longrightarrow> dset_checkpoint_repo d' = dset_checkpoint_repo d \<Longrightarrow>
     objects_present d' e = objects_present d e"
  by (cases "as_data_stream_event e") (simp_all add: objects_present_def del: as_data_stream_event_None)

lemma fs_insert_grows:
  assumes "fs_insert_file_move x r src opts = Inr (h, r')"
  shows "r \<subseteq>\<^sub>m r' \<and> h \<in> dom r' \<and> (\<forall>p. io_precomputed_hash opts = Some p \<longrightarrow> h = p)"
proof (cases "h \<in> dom r")
  case True
  with assms have "r' = r" by (auto simp: fs_insert_file_move_def res_simps obj_contains_def split: if_splits)
  with True assms show ?thesis by (auto simp: fs_insert_file_move_def res_simps split: if_splits)
next
  case False
  with assms have "r' = r(h \<mapsto> src)"
    by (auto simp: fs_insert_file_move_def res_simps obj_contains_def split: if_splits)
  with False assms show ?thesis by (auto simp: fs_insert_file_move_def res_simps map_le_def split: if_splits)
qed

lemma commit_object_grows:
  assumes "commit_object x r src h = (res, r')"
  shows "r \<subseteq>\<^sub>m r' \<and> (res = Inr () \<longrightarrow> h \<in> dom r')"
  using assms fs_insert_grows [of x r src "\<lparr>io_precomputed_hash = Some h, io_expected_hash = None\<rparr>"]
  by (auto simp: commit_object_def split: sum.splits)

lemma commit_data_grows:
  assumes "commit_data x nd file d = (r, d')"
  shows "objects_grow d d' \<and> (r = Inr () \<longrightarrow> (\<forall>s. nd = Some s \<longrightarrow> ds_physical_hash s \<in> dom (dset_data_repo d')))"
  using assms
  by (auto simp: commit_data_def objects_grow_def Let_def split: option.splits sum.splits prod.splits
      dest!: commit_object_grows)

lemma commit_checkpoint_grows:
  assumes "commit_checkpoint x nc file d = (r, d')"
  shows "objects_grow d d' \<and> dset_data_repo d' = dset_data_repo d
    \<and> (r = Inr () \<longrightarrow> (\<forall>c. nc = Some c \<longrightarrow> file \<noteq> None \<longrightarrow> cp_physical_hash c \<in> dom (dset_checkpoint_repo d')))"
  using assms
  by (auto simp: commit_checkpoint_def objects_grow_def Let_def split: option.splits prod.splits
      dest!: commit_object_grows)

lemma commit_objects_grows:
  assumes "commit_objects x nd file nc cfile d = (r, d')"
  shows "objects_grow d d'
    \<and> (r = Inr () \<longrightarrow> (\<forall>s. nd = Some s \<longrightarrow> ds_physical_hash s \<in> dom (dset_data_repo d'))
        \<and> (\<forall>c. nc = Some c \<longrightarrow> cfile \<noteq> None \<longrightarrow> cp_physical_hash c \<in> dom (dset_checkpoint_repo d')))"
proof (cases "commit_data x nd file d")
  case (Pair r1 d1)
  note data = commit_data_grows [OF this]
  show ?thesis
  proof (cases r1)
    case (Inl f)
    with Pair assms data show ?thesis by (auto simp: commit_objects_def fbind_def)
  next
    case (Inr u)
    with Pair assms have "commit_checkpoint x nc cfile d1 = (r, d')"
      by (simp add: commit_objects_def fbind_def)
    from commit_checkpoint_grows [OF this] data Inr show ?thesis
      by (auto intro: objects_grow_trans)
  qed
qed

lemma prepare_checkpoint_existed:
  "prepare_checkpoint x d cp = Inr (Some c) \<Longrightarrow> Option.bind cp checkpoint_ref_file = None \<Longrightarrow>
     cp_physical_hash c \<in> dom (dset_checkpoint_repo d)"
  by (auto simp: prepare_checkpoint_def res_simps obj_get_size_def
      split: option.splits checkpoint_ref.splits)

text \<open>After the objects of a data event were prepared and committed, they are all there.\<close>

lemma committed_objects:
  assumes "prepare_objects x dx d interval file cp = Inr (nd, nc)"
    and "commit_objects x nd file nc (Option.bind cp checkpoint_ref_file) d = (Inr u, d1)"
  shows "(\<forall>s. nd = Some s \<longrightarrow> ds_physical_hash s \<in> dom (dset_data_repo d1))
    \<and> (\<forall>c. nc = Some c \<longrightarrow> cp_physical_hash c \<in> dom (dset_checkpoint_repo d1))"
proof -
  have grow: "objects_grow d d1"
    and new: "\<forall>s. nd = Some s \<longrightarrow> ds_physical_hash s \<in> dom (dset_data_repo d1)"
    "\<forall>c. nc = Some c \<longrightarrow> Option.bind cp checkpoint_ref_file \<noteq> None \<longrightarrow>
      cp_physical_hash c \<in> dom (dset_checkpoint_repo d1)"
    using commit_objects_grows [OF assms(2)] by simp_all
  have "prepare_checkpoint x d cp = Inr nc" using assms(1) by (auto simp: prepare_objects_def res_simps)
  with prepare_checkpoint_existed grow
  have "cp_physical_hash c \<in> dom (dset_checkpoint_repo d1)"
    if "nc = Some c" "Option.bind cp checkpoint_ref_file = None" for c
    using that map_le_implies_dom_le [of "dset_checkpoint_repo d" "dset_checkpoint_repo d1"]
    unfolding objects_grow_def by blast
  with new show ?thesis by blast
qed


text \<open>A commit appends its block with full validation, or leaves the dataset as it was.\<close>

lemma commit_unchecked [simp]:
  "commit_prev_block_hash x d (opts\<lparr>co_check_object_refs := b\<rparr>) = commit_prev_block_hash x d opts"
  "commit_append_opts (opts\<lparr>co_check_object_refs := b\<rparr>) = commit_append_opts opts"
  by (cases "co_prev_block_hash opts"; simp add: commit_prev_block_hash_def commit_append_opts_def)+

lemma commit_block_unchecked:
  "commit_block x cd now d e opts = Inr b \<Longrightarrow>
     commit_block x cd now d e (opts\<lparr>co_check_object_refs := False\<rparr>) = Inr b"
  by (auto simp: commit_block_def res_simps)

lemma commit_block_event: "commit_block x cd now d e opts = Inr b \<Longrightarrow> event b = e"
  by (auto simp: commit_block_def res_simps)

lemma commit_append_opts_full [simp]: "ao_validation (commit_append_opts opts) = ValidationFull"
  by (simp add: commit_append_opts_def)

lemma commit_sound_cong:
  assumes "dset_chain d' = dset_chain d"
  shows "commit_sound x cd now d' e opts = commit_sound x cd now d e opts"
proof -
  have "commit_prev_block_hash x d' opts = commit_prev_block_hash x d opts"
    by (cases "co_prev_block_hash opts") (simp_all add: commit_prev_block_hash_def assms)
  moreover have "commit_sequence_number cd d' prev = commit_sequence_number cd d prev" for prev
    by (cases prev) (simp_all add: commit_sequence_number_def assms)
  ultimately have "commit_block x cd now d' e (opts\<lparr>co_check_object_refs := False\<rparr>) =
      commit_block x cd now d e (opts\<lparr>co_check_object_refs := False\<rparr>)"
    by (simp add: commit_block_def)
  then show ?thesis by (simp add: commit_sound_def assms cong: sum.case_cong)
qed

lemma commit_sound_unchecked [simp]:
  "commit_sound x cd now d e (opts\<lparr>co_check_object_refs := b\<rparr>) = commit_sound x cd now d e opts"
  by (simp add: commit_sound_def cong: sum.case_cong)

lemma commit_event_cases:
  assumes "commit_event x cd now d e opts = Some (r, d')" and "commit_sound x cd now d e opts"
  obtains (rejected) f where "r = Inl f" "d' = d"
  | (appended) b ar c where "commit_block x cd now d e opts = Inr b"
      "chain_append x cd (dset_chain d) b (commit_append_opts opts) = Some (ar, c)"
      "append_sound x cd (dset_chain d) b (commit_append_opts opts)" "d' = d\<lparr>dset_chain := c\<rparr>"
      "r = and_then (map_err (map_fault MetadataAppendError) ar) (\<lambda>new_head.
         Inr \<lparr>cr_old_head = prev_block_hash b, cr_new_head = new_head,
              cr_new_upstream_ids = new_upstream_ids (co_update_block_ref opts) e\<rparr>)"
proof (cases "commit_block x cd now d e opts")
  case (Inl f)
  with assms(1) have "r = Inl f" "d' = d" by (simp_all add: commit_event_def)
  with rejected show thesis by blast
next
  case (Inr b)
  with assms(2) have "append_sound x cd (dset_chain d) b (commit_append_opts opts)"
    by (simp add: commit_sound_def commit_block_unchecked)
  with Inr assms(1) appended show thesis by (auto simp: commit_event_def)
qed

lemma commit_event_step:
  assumes "commit_event x cd now d e opts = Some (r, d')" and "commit_sound x cd now d e opts"
    and "externs_ok x"
  shows "d' = d \<or> (\<exists>c. d' = d\<lparr>dset_chain := c\<rparr> \<and> chain_op x cd (dset_chain d) c
    \<and> (\<forall>k b. chain_get_block cd c k = Inr b \<longrightarrow> chain_get_block cd (dset_chain d) k = Inr b \<or> event b = e))"
  using assms(1,2)
proof (cases rule: commit_event_cases)
  case (appended b ar c)
  have "chain_op x cd (dset_chain d) c"
    using appended(2) _ appended(3) by (rule step_append) simp
  moreover have "chain_get_block cd (dset_chain d) k = Inr a \<or> event a = e"
    if "chain_get_block cd c k = Inr a" for k a
    using chain_append_blocks [OF appended(2) assms(3) appended(3), of k a] that
      commit_block_event [OF appended(1)] by auto
  ultimately show ?thesis using appended(4) by blast
qed simp

text \<open>A commit of data stores the objects first, then commits an event that refers to them.\<close>

definition data_commit ::
  "externs \<Rightarrow> codec \<Rightarrow> datetime \<Rightarrow> dataset \<Rightarrow> commit_opts \<Rightarrow> (commit_error, commit_result) res \<times> dataset \<Rightarrow> bool" where
  "data_commit x cd now d opts rd \<longleftrightarrow>
     (\<exists>d1. objects_grow d d1
        \<and> ((\<exists>f. rd = (Inl f, d1))
           \<or> (\<exists>e. objects_present d1 e \<and> commit_sound x cd now d1 e opts
                 \<and> commit_event x cd now d1 e (opts\<lparr>co_check_object_refs := False\<rparr>) = Some rd)))"

lemma data_commitI:
  assumes prep: "prepare_objects x dx d interval src cp = Inr (nd, nc)"
    and objs: "commit_objects x nd src nc (Option.bind cp checkpoint_ref_file) d = (Inr u, d1)"
    and ev: "Option.bind (as_data_stream_event e) dse_new_data = nd"
      "Option.bind (as_data_stream_event e) dse_new_checkpoint = nc"
    and sound: "commit_sound x cd now d e opts"
    and commit: "commit_event x cd now d1 e (opts\<lparr>co_check_object_refs := False\<rparr>) = Some rd"
  shows "data_commit x cd now d opts rd"
proof -
  have grow: "objects_grow d d1" using commit_objects_grows [OF objs] by blast
  then have "commit_sound x cd now d1 e opts"
    using sound by (simp add: objects_grow_def commit_sound_cong [of d1 d])
  moreover have "objects_present d1 e"
    using committed_objects [OF prep objs] ev
    by (cases "as_data_stream_event e") (simp_all add: objects_present_def del: as_data_stream_event_None)
  ultimately show ?thesis using grow commit unfolding data_commit_def by blast
qed

lemma data_commit_failed:
  "commit_objects x nd src nc cfile d = (Inl f, d1) \<Longrightarrow> data_commit x cd now d opts (Inl g, d1)"
  "data_commit x cd now d opts (Inl g, d)"
  unfolding data_commit_def by (blast dest: commit_objects_grows intro: objects_grow_refl)+

lemma commit_add_data_is_data_commit:
  assumes "commit_add_data x cd dx now d params src cp opts = Some rd"
    and "\<forall>nd nc. prepare_objects x dx d (adp_new_offset_interval params) src cp = Inr (nd, nc) \<longrightarrow>
      commit_sound x cd now d (add_data_event params nd nc) opts"
  shows "data_commit x cd now d opts rd"
proof (cases "prepare_objects x dx d (adp_new_offset_interval params) src cp")
  case (Inl f)
  with assms(1) show ?thesis by (auto simp: commit_add_data_def intro: data_commit_failed)
next
  case (Inr p)
  obtain nd nc where p: "p = (nd, nc)" by (cases p)
  obtain r d1 where objs: "commit_objects x nd src nc (Option.bind cp checkpoint_ref_file) d = (r, d1)"
    by (cases "commit_objects x nd src nc (Option.bind cp checkpoint_ref_file) d")
  show ?thesis
  proof (cases r)
    case (Inl f)
    with assms(1) Inr p objs show ?thesis by (auto simp: commit_add_data_def intro: data_commit_failed)
  next
    case r: (Inr u)
    show ?thesis
    proof (rule data_commitI [OF Inr [unfolded p] objs [unfolded r], of "add_data_event params nd nc"])
      show "commit_sound x cd now d (add_data_event params nd nc) opts" using assms(2) Inr p by blast
      show "commit_event x cd now d1 (add_data_event params nd nc) (opts\<lparr>co_check_object_refs := False\<rparr>) = Some rd"
        using assms(1) Inr p objs r by (simp add: commit_add_data_def)
    qed (simp_all add: add_data_event_def)
  qed
qed

lemma commit_execute_transform_is_data_commit:
  assumes "commit_execute_transform x cd dx now d params src cp opts = Some rd"
    and "\<forall>e. prepare_execute_transform x dx d params src cp = Inr e \<longrightarrow>
      commit_sound x cd now d (ExecuteTransform e) opts"
  shows "data_commit x cd now d opts rd"
proof (cases "prepare_execute_transform x dx d params src cp")
  case (Inl f)
  with assms(1) show ?thesis by (auto simp: commit_execute_transform_def intro: data_commit_failed)
next
  case (Inr e)
  then have prep: "prepare_objects x dx d (etp_new_offset_interval params) src cp =
      Inr (et_new_data e, et_new_checkpoint e)"
    by (auto simp: prepare_execute_transform_def res_simps)
  obtain r d1 where objs: "commit_objects x (et_new_data e) src (et_new_checkpoint e)
      (Option.bind cp checkpoint_ref_file) d = (r, d1)"
    by (cases "commit_objects x (et_new_data e) src (et_new_checkpoint e)
      (Option.bind cp checkpoint_ref_file) d")
  show ?thesis
  proof (cases r)
    case (Inl f)
    with assms(1) Inr objs show ?thesis
      by (auto simp: commit_execute_transform_def intro: data_commit_failed)
  next
    case r: (Inr u)
    show ?thesis
    proof (rule data_commitI [OF prep objs [unfolded r], of "ExecuteTransform e"])
      show "commit_sound x cd now d (ExecuteTransform e) opts" using assms(2) Inr by blast
      show "commit_event x cd now d1 (ExecuteTransform e) (opts\<lparr>co_check_object_refs := False\<rparr>) = Some rd"
        using assms(1) Inr objs r by (simp add: commit_execute_transform_def)
    qed simp_all
  qed
qed


section \<open>What is kept\<close>

text \<open>Whatever a dataset held, it still holds.\<close>

definition contents_kept :: "codec \<Rightarrow> dataset \<Rightarrow> dataset \<Rightarrow> bool" where
  "contents_kept cd d d' \<longleftrightarrow>
     dset_info_repo d' = dset_info_repo d
     \<and> dset_data_repo d \<subseteq>\<^sub>m dset_data_repo d' \<and> dset_checkpoint_repo d \<subseteq>\<^sub>m dset_checkpoint_repo d'
     \<and> (\<forall>k b. chain_get_block cd (dset_chain d) k = Inr b \<longrightarrow> chain_get_block cd (dset_chain d') k = Inr b)"

lemma contents_kept_refl [simp]: "contents_kept cd d d"
  by (simp add: contents_kept_def)

lemma contents_kept_chains:
  "contents_kept cd d d' \<Longrightarrow> chain_at (chain_get_block cd (dset_chain d)) h bs \<Longrightarrow>
     chain_at (chain_get_block cd (dset_chain d')) h bs"
  by (erule chain_at_mono) (simp add: contents_kept_def)

section \<open>The kinds of steps\<close>

text \<open>Every operation grows the objects, extends the chain, or writes named objects.\<close>

lemma dataset_op_kinds:
  assumes "dataset_op x cd dx strict d d'" and "externs_ok x"
  obtains (objects) "objects_grow d d'"
  | (chain) d1 c where "objects_grow d d1" "d' = d1\<lparr>dset_chain := c\<rparr>" "chain_op x cd (dset_chain d) c"
      "strict \<longrightarrow> (\<forall>k b. chain_get_block cd c k = Inr b \<longrightarrow>
         chain_get_block cd (dset_chain d) k = Inr b \<or> objects_present d1 (event b))"
  | (info) name data where "d' = d\<lparr>dset_info_repo := named_set (dset_info_repo d) name data\<rparr>"
      "name \<noteq> ''summary''"
  | (summary) r gopts where "get_summary x cd dx d gopts = Some (r, d')"
proof -
  have commit: thesis if "objects_grow d d1" and "commit_event x cd now d1 e opts = Some (r, d')"
    and "commit_sound x cd now d1 e opts" and "strict \<longrightarrow> objects_present d1 e" for d1 now e opts r
    using commit_event_step [OF that(2,3) assms(2)]
  proof (elim disjE exE conjE)
    assume "d' = d1"
    with that(1) objects show thesis by simp
  next
    fix c
    assume "d' = d1\<lparr>dset_chain := c\<rparr>" "chain_op x cd (dset_chain d1) c"
      "\<forall>k b. chain_get_block cd c k = Inr b \<longrightarrow> chain_get_block cd (dset_chain d1) k = Inr b \<or> event b = e"
    with that(1,4) chain show thesis unfolding objects_grow_def by metis
  qed
  have data: thesis if "data_commit x cd now d opts (r, d')" for now opts r
    using that unfolding data_commit_def
  proof (elim exE conjE disjE)
    fix d1 f assume "objects_grow d d1" "(r, d') = (Inl f, d1)"
    then show thesis using objects by simp
  next
    fix d1 e
    assume "objects_grow d d1" "objects_present d1 e" "commit_sound x cd now d1 e opts"
      "commit_event x cd now d1 e (opts\<lparr>co_check_object_refs := False\<rparr>) = Some (r, d')"
    then show thesis using commit [of d1 now e "opts\<lparr>co_check_object_refs := False\<rparr>" r] by simp
  qed
  from assms(1) show thesis
  proof cases
    case (op_chain c)
    with chain [OF objects_grow_refl] show thesis by blast
  next
    case (op_set_ref r h opts res c)
    have "chain_op x cd (dset_chain d) c" using op_set_ref(2,3) by (rule step_set_ref)
    moreover have "chain_get_block cd c = chain_get_block cd (dset_chain d)"
      using chain_set_ref_blocks [OF op_set_ref(2)] by (simp add: chain_get_block_eq)
    ultimately show thesis using chain [OF objects_grow_refl op_set_ref(1)] by simp
  next
    case (op_insert_data f opts h r)
    with fs_insert_grows show thesis using objects by (simp add: objects_grow_def)
  next
    case (op_insert_checkpoint f opts h r)
    with fs_insert_grows show thesis using objects by (simp add: objects_grow_def)
  next
    case (op_info name data)
    then show thesis by (rule info)
  next
    case (op_commit_event now e opts r)
    show thesis
    proof (cases "strict \<longrightarrow> objects_present d e")
      case True
      with op_commit_event show thesis using commit [OF objects_grow_refl] by blast
    next
      case False
      with op_commit_event(3) obtain f where "commit_block x cd now d e opts = Inl f"
        using check_object_refs_ok [of d e] by (cases "check_object_refs d e") (auto simp: commit_block_def)
      with op_commit_event(1) have "d' = d" by (simp add: commit_event_def)
      with objects show thesis by simp
    qed
  next
    case (op_commit_add_data now params f cp opts r)
    then show thesis using data commit_add_data_is_data_commit by blast
  next
    case (op_commit_execute_transform now tparams f cp opts r)
    then show thesis using data commit_execute_transform_is_data_commit by blast
  next
    case (op_get_summary gopts res)
    then show thesis by (rule summary)
  qed
qed


section \<open>The cached summary\<close>

definition summary_manifest :: "dataset_summary \<Rightarrow> dataset_summary manifest" where
  "summary_manifest s = \<lparr>mf_kind = ''DatasetSummary'', mf_version = 1, mf_content = s\<rparr>"

text \<open>What is cached, if anything, is the summary of some block of the store, and there is a head.\<close>

definition cache_inv :: "externs \<Rightarrow> codec \<Rightarrow> dataset_externs \<Rightarrow> dataset \<Rightarrow> bool" where
  "cache_inv x cd dx d \<longleftrightarrow>
     (\<forall>data. dset_info_repo d ''summary'' = Some data \<longrightarrow>
        (\<exists>t ts. chain_at (chain_get_block cd (dset_chain d)) t ts
           \<and> summary_from_yaml dx data = Inr (summary_manifest (summary_of t (map snd ts))))
        \<and> (\<exists>h. chain_resolve_ref x (dset_chain d) Head = Inr h))"

definition dataset_inv :: "externs \<Rightarrow> codec \<Rightarrow> dataset_externs \<Rightarrow> dataset \<Rightarrow> bool" where
  "dataset_inv x cd dx d \<longleftrightarrow> chain_reachable x cd (dset_chain d) \<and> cache_inv x cd dx d"

lemma read_summary_inv:
  assumes "cache_inv x cd dx d"
  obtains (absent) "read_summary dx d = Inr None" "dset_info_repo d ''summary'' = None"
  | (cached) t ts h where "read_summary dx d = Inr (Some (summary_of t (map snd ts)))"
      "chain_at (chain_get_block cd (dset_chain d)) t ts" "chain_resolve_ref x (dset_chain d) Head = Inr h"
proof (cases "dset_info_repo d ''summary''")
  case None
  with absent show thesis by (simp add: read_summary_def named_get_def)
next
  case (Some data)
  with assms obtain t ts h where t: "chain_at (chain_get_block cd (dset_chain d)) t ts"
    "summary_from_yaml dx data = Inr (summary_manifest (summary_of t (map snd ts)))"
    "chain_resolve_ref x (dset_chain d) Head = Inr h"
    by (auto simp: cache_inv_def)
  with Some have "read_summary dx d = Inr (Some (summary_of t (map snd ts)))"
    by (simp add: read_summary_def named_get_def summary_manifest_def)
  with t cached show thesis by blast
qed

lemma write_summary_inv:
  assumes "write_summary dx d (summary_of h (map snd bs)) = (Inr u, d')" and "summary_yaml_ok dx"
    and "chain_at (chain_get_block cd (dset_chain d)) h bs" "chain_resolve_ref x (dset_chain d) Head = Inr h"
  shows "cache_inv x cd dx d' \<and> read_summary dx d' = Inr (Some (summary_of h (map snd bs)))
    \<and> dset_chain d' = dset_chain d \<and> dset_data_repo d' = dset_data_repo d
    \<and> dset_checkpoint_repo d' = dset_checkpoint_repo d"
proof -
  from assms(2) obtain data where data:
    "summary_to_yaml dx (summary_manifest (summary_of h (map snd bs))) = Inr data"
    "summary_from_yaml dx data = Inr (summary_manifest (summary_of h (map snd bs)))"
    unfolding summary_yaml_ok_def by blast
  then have "d' = d\<lparr>dset_info_repo := named_set (dset_info_repo d) ''summary'' data\<rparr>"
    using assms(1) by (simp add: write_summary_def summary_manifest_def)
  with data assms(3,4) show ?thesis
    by (auto simp: cache_inv_def named_set_def read_summary_def named_get_def summary_manifest_def)
qed

text \<open>The outcomes of \<open>get_summary\<close> in a state that satisfies the invariant.\<close>

lemma head_or_not_found:
  assumes "chain_reachable x cd c" and "externs_ok x"
  shows "(\<exists>h. chain_resolve_ref x c Head = Inr h) \<or> (\<exists>r. chain_resolve_ref x c Head = Inl (Fail (RefNotFound r)))"
  using chain_reachable_inv [OF assms]
  by (auto simp: head_inv_def resolve_current [symmetric])
    (auto simp: current_ref_def chain_resolve_ref_def split: sum.splits fault.splits get_ref_error.splits)

lemma get_summary_outcome:
  assumes inv: "dataset_inv x cd dx d" and ok: "externs_ok x" "summary_yaml_ok dx"
  shows "\<exists>r d'. get_summary x cd dx d opts = Some (r, d') \<and> dataset_inv x cd dx d'
    \<and> dset_chain d' = dset_chain d \<and> dset_data_repo d' = dset_data_repo d
    \<and> dset_checkpoint_repo d' = dset_checkpoint_repo d
    \<and> (gso_update_if_stale opts \<longrightarrow>
        (case chain_resolve_ref x (dset_chain d) Head of
           Inl _ \<Rightarrow> r = Inl (Fail EmptyDataset)
         | Inr h \<Rightarrow> \<exists>bs. chain_at (chain_get_block cd (dset_chain d)) h bs
             \<and> r = Inr (summary_of h (map snd bs)) \<and> read_summary dx d' = Inr (Some (summary_of h (map snd bs)))))"
proof -
  have reach: "chain_reachable x cd (dset_chain d)" and cache: "cache_inv x cd dx d"
    using inv by (simp_all add: dataset_inv_def)
  obtain prev where read: "read_summary dx d = Inr prev"
    and prev: "\<And>s. prev = Some s \<Longrightarrow> (\<exists>t ts. s = summary_of t (map snd ts)
        \<and> chain_at (chain_get_block cd (dset_chain d)) t ts) \<and> (\<exists>h. chain_resolve_ref x (dset_chain d) Head = Inr h)"
    using cache by (cases rule: read_summary_inv) auto
  show ?thesis
  proof (cases "gso_update_if_stale opts")
    case False
    with read inv show ?thesis by (auto simp: get_summary_def split: option.split)
  next
    case True
    from head_or_not_found [OF reach ok(1)] show ?thesis
    proof (elim disjE exE)
      fix ref assume none: "chain_resolve_ref x (dset_chain d) Head = Inl (Fail (RefNotFound ref))"
      with prev have "prev = None" by (cases prev) auto
      with True read inv none show ?thesis by (simp add: get_summary_def update_summary_def)
    next
      fix h assume head: "chain_resolve_ref x (dset_chain d) Head = Inr h"
      from reachable_head [OF reach ok(1) head] obtain bs
        where bs: "chain_at (chain_get_block cd (dset_chain d)) h bs" "valid_chain (map snd bs)" by blast
      let ?s = "summary_of h (map snd bs)"
      from update_summary_exact [OF bs head _ ok(2), of prev] prev obtain d'
        where upd: "update_summary x cd dx d prev = Some (Inr (Some ?s), d')"
          "d' = d \<and> prev = Some ?s \<or> (Inr (), d') = write_summary dx d ?s" by blast
      have "cache_inv x cd dx d' \<and> read_summary dx d' = Inr (Some ?s) \<and> dset_chain d' = dset_chain d
        \<and> dset_data_repo d' = dset_data_repo d \<and> dset_checkpoint_repo d' = dset_checkpoint_repo d"
        using upd(2) cache read write_summary_inv [OF _ ok(2) bs(1) head, of "()" d'] by auto
      with True read upd(1) reach head bs(1) show ?thesis
        by (auto simp: get_summary_def dataset_inv_def)
    qed
  qed
qed

lemma dataset_op_inv:
  assumes op: "dataset_op x cd dx strict d d'" and inv: "dataset_inv x cd dx d"
    and ok: "externs_ok x" "summary_yaml_ok dx"
  shows "dataset_inv x cd dx d'"
  using op ok(1)
proof (cases rule: dataset_op_kinds)
  case objects
  with inv show ?thesis by (simp add: dataset_inv_def cache_inv_def objects_grow_def)
next
  case (chain d1 c)
  have reach: "chain_reachable x cd (dset_chain d)" using inv by (simp add: dataset_inv_def)
  have info: "dset_info_repo d' = dset_info_repo d" using chain(1,2) by (simp add: objects_grow_def)
  have "chain_reachable x cd (dset_chain d')" using reach_step [OF reach chain(3)] chain(2) by simp
  moreover have "cache_inv x cd dx d'"
    using inv chain_op_keeps_chains [OF chain(3) ok(1)] chain(2)
      chain_op_keeps_head [OF chain(3) ok(1)] chain_reachable_inv [OF reach ok(1)]
    unfolding dataset_inv_def cache_inv_def info by simp blast
  ultimately show ?thesis by (simp add: dataset_inv_def)
next
  case (info name data)
  with inv show ?thesis by (simp add: dataset_inv_def cache_inv_def named_set_def)
next
  case (summary r gopts)
  with get_summary_outcome [OF inv ok, of gopts] show ?thesis by auto
qed

lemma dataset_reachable_inv:
  assumes "dataset_reachable x cd dx strict d" and "externs_ok x" "summary_yaml_ok dx"
  shows "dataset_inv x cd dx d"
  using assms(1)
proof induction
  case dreach_empty
  show ?case by (simp add: dataset_inv_def cache_inv_def empty_dataset_def reach_empty)
next
  case (dreach_step d d')
  with dataset_op_inv assms(2,3) show ?case by blast
qed

section \<open>The objects of the blocks\<close>

definition refs_inv :: "codec \<Rightarrow> dataset \<Rightarrow> bool" where
  "refs_inv cd d \<longleftrightarrow> (\<forall>k b. chain_get_block cd (dset_chain d) k = Inr b \<longrightarrow> objects_present d (event b))"

lemma dataset_op_refs:
  assumes op: "dataset_op x cd dx True d d'" and refs: "refs_inv cd d" and inv: "dataset_inv x cd dx d"
    and ok: "externs_ok x" "summary_yaml_ok dx"
  shows "refs_inv cd d'"
  using op ok(1)
proof (cases rule: dataset_op_kinds)
  case objects
  with refs objects_present_mono [OF _ objects] show ?thesis by (simp add: refs_inv_def objects_grow_def)
next
  case (chain d1 c)
  have "objects_present d1 (event b)" if "chain_get_block cd c k = Inr b" for k b
    using chain(4) refs objects_present_mono [OF _ chain(1)] that unfolding refs_inv_def by blast
  with chain(2) have "objects_present d' (event b)" if "chain_get_block cd c k = Inr b" for k b
    using that by (simp add: objects_present_cong [of "d1\<lparr>dset_chain := c\<rparr>" d1])
  with chain(2) show ?thesis by (simp add: refs_inv_def)
next
  case (info name data)
  with refs show ?thesis
    by (simp add: refs_inv_def
        objects_present_cong [of "d\<lparr>dset_info_repo := named_set (dset_info_repo d) name data\<rparr>" d])
next
  case (summary r gopts)
  with get_summary_outcome [OF inv ok, of gopts] refs show ?thesis
    by (auto simp: refs_inv_def objects_present_cong [of d' d])
qed

lemma dataset_reachable_refs:
  assumes "dataset_reachable x cd dx True d" and "externs_ok x" "summary_yaml_ok dx"
  shows "refs_inv cd d"
  using assms(1)
proof induction
  case dreach_empty
  show ?case by (simp add: refs_inv_def empty_dataset_def empty_chain_def get_block_absent)
next
  case (dreach_step d d')
  with dataset_op_refs [OF dreach_step(2,3) dataset_reachable_inv [OF dreach_step(1) assms(2,3)] assms(2,3)]
  show ?case by blast
qed

section \<open>Successful commits\<close>

lemma commit_block_default:
  assumes "commit_block x cd now d e opts = Inr b" and "co_prev_block_hash opts = None"
  shows "event b = e \<and> current_ref x (dset_chain d) (co_block_ref opts) = Inr (prev_block_hash b)
    \<and> system_time b = (case co_system_time opts of Some t \<Rightarrow> t | None \<Rightarrow> now)"
  using assms
  by (auto simp: commit_block_def commit_prev_block_hash_def current_ref_def chain_resolve_ref_def res_simps
      split: sum.splits fault.splits get_ref_error.splits)

lemma commit_event_Inr:
  assumes "commit_event x cd now d e opts = Some (Inr res, d')" and "commit_sound x cd now d e opts"
  obtains b h c where "commit_block x cd now d e opts = Inr b"
    "chain_append x cd (dset_chain d) b (commit_append_opts opts) = Some (Inr h, c)"
    "append_sound x cd (dset_chain d) b (commit_append_opts opts)" "d' = d\<lparr>dset_chain := c\<rparr>"
    "res = \<lparr>cr_old_head = prev_block_hash b, cr_new_head = h,
      cr_new_upstream_ids = new_upstream_ids (co_update_block_ref opts) e\<rparr>"
  using assms
proof (cases rule: commit_event_cases)
  case (appended b ar c)
  from appended(5) [symmetric] obtain h where "ar = Inr h"
    "res = \<lparr>cr_old_head = prev_block_hash b, cr_new_head = h,
      cr_new_upstream_ids = new_upstream_ids (co_update_block_ref opts) e\<rparr>"
    by (auto simp: res_simps)
  with appended that show thesis by blast
qed simp

end
