(* ===== verification/Dataset_Demo.thy ===== *)
theory Dataset_Demo
  imports Dataset_Invariant
begin

text \<open>
  An instance of the parameters of a dataset, with a summary format that is read back as it was
  written, and the dataset that three commits build over the chain of \<open>Chain_Demo\<close>: the seed, the
  schema, and a data file of a hundred bytes with ten records.
\<close>

section \<open>Frames of numbers\<close>

definition put_frame :: "nat list \<Rightarrow> bytes" where
  "put_frame ns = leb128 (length ns) @ concat (map leb128 ns)"

fun get_nats :: "nat \<Rightarrow> bytes \<Rightarrow> (nat list \<times> bytes) option" where
  "get_nats 0 bs = Some ([], bs)"
| "get_nats (Suc k) bs =
     (case unleb128 bs of
        None \<Rightarrow> None
      | Some (n, rest) \<Rightarrow> map_option (\<lambda>(ns, rest'). (n # ns, rest')) (get_nats k rest))"

definition get_frame :: "bytes \<Rightarrow> (nat list \<times> bytes) option" where
  "get_frame bs = (case unleb128 bs of None \<Rightarrow> None | Some (k, rest) \<Rightarrow> get_nats k rest)"

fun get_frames :: "nat \<Rightarrow> bytes \<Rightarrow> nat list list option" where
  "get_frames 0 bs = Some []"
| "get_frames (Suc k) bs =
     (case get_frame bs of
        None \<Rightarrow> None
      | Some (ns, rest) \<Rightarrow> map_option ((#) ns) (get_frames k rest))"

definition put_frames :: "nat list list \<Rightarrow> bytes" where
  "put_frames fs = leb128 (length fs) @ concat (map put_frame fs)"

definition read_frames :: "bytes \<Rightarrow> nat list list option" where
  "read_frames bs = (case unleb128 bs of None \<Rightarrow> None | Some (k, rest) \<Rightarrow> get_frames k rest)"

lemma get_nats_put: "get_nats (length ns) (concat (map leb128 ns) @ rest) = Some (ns, rest)"
  by (induction ns) (simp_all add: unleb128_leb128)

lemma get_frame_put: "get_frame (put_frame ns @ rest) = Some (ns, rest)"
  by (simp add: get_frame_def put_frame_def unleb128_leb128 get_nats_put)

lemma read_frames_put: "read_frames (put_frames fs) = Some fs"
proof -
  have "get_frames (length fs) (concat (map put_frame fs)) = Some fs"
    by (induction fs) (simp_all add: get_frame_put)
  then show ?thesis by (simp add: read_frames_def put_frames_def unleb128_leb128)
qed

section \<open>Summaries as frames\<close>

definition put_int :: "int \<Rightarrow> nat list" where
  "put_int i = (if i < 0 then [1, nat (- i)] else [0, nat i])"

fun get_int :: "nat list \<Rightarrow> int option" where
  "get_int [s, n] = Some (if s = 0 then int n else - int n)"
| "get_int _ = None"

lemma get_put_int: "get_int (put_int i) = Some i"
  by (simp add: put_int_def)

fun put_hash :: "multihash \<Rightarrow> nat list" where
  "put_hash h = unat (multicodec_code (mh_code h)) # mh_len h # map unat (mh_buf h)"

fun get_hash :: "nat list \<Rightarrow> multihash option" where
  "get_hash (c # n # bs) =
     (case multicodec_try_from_u32 (of_nat c) of
        Inl _ \<Rightarrow> None
      | Inr code \<Rightarrow> Some \<lparr>mh_buf = map of_nat bs, mh_len = n, mh_code = code\<rparr>)"
| "get_hash _ = None"

lemma get_put_hash: "get_hash (put_hash h) = Some h"
  by (simp add: comp_def)

fun put_id :: "dataset_id \<Rightarrow> nat list" where
  "put_id (DatasetID bs) = map unat bs"

definition get_id :: "nat list \<Rightarrow> dataset_id" where
  "get_id ns = DatasetID (map of_nat ns)"

lemma get_put_id [simp]: "get_id (put_id i) = i"
  by (cases i) (simp add: get_id_def comp_def)

definition put_summary :: "dataset_summary manifest \<Rightarrow> nat list list" where
  "put_summary m =
     (let s = mf_content m
      in [map of_char (mf_kind m), put_int (mf_version m), put_id (sm_id s),
          [if sm_kind s = Root then 0 else 1], put_hash (sm_last_block_hash s),
          (case sm_last_pulled s of None \<Rightarrow> [] | Some t \<Rightarrow> put_int t),
          map unat [sm_num_records s, sm_data_size s, sm_checkpoints_size s]]
         @ map put_id (sm_dependencies s))"

fun get_summary_frames :: "nat list list \<Rightarrow> dataset_summary manifest option" where
  "get_summary_frames (kd # v # i # [k] # h # p # [r, n, c] # deps) =
     (case (get_int v, get_hash h) of
        (Some version, Some hash) \<Rightarrow>
          Some \<lparr>mf_kind = map char_of kd, mf_version = version,
            mf_content = \<lparr>sm_id = get_id i, sm_kind = (if k = 0 then Root else Derivative),
              sm_last_block_hash = hash, sm_dependencies = map get_id deps, sm_last_pulled = get_int p,
              sm_num_records = of_nat r, sm_data_size = of_nat n, sm_checkpoints_size = of_nat c\<rparr>\<rparr>
      | _ \<Rightarrow> None)"
| "get_summary_frames _ = None"

lemma get_put_summary: "get_summary_frames (put_summary m) = Some m"
  by (cases "sm_last_pulled (mf_content m)"; cases "sm_kind (mf_content m)")
    (simp_all add: put_summary_def Let_def get_put_int get_put_hash comp_def del: put_hash.simps)

section \<open>The instance\<close>

definition demo_dataset_externs :: dataset_externs where
  "demo_dataset_externs =
     \<lparr>parquet_logical_hash = (\<lambda>_. Inr (demo_hash 0)),
      summary_to_yaml = (\<lambda>m. Inr (put_frames (put_summary m))),
      summary_from_yaml = (\<lambda>bs. case Option.bind (read_frames bs) get_summary_frames of
          None \<Rightarrow> Inl ''malformed'' | Some m \<Rightarrow> Inr m)\<rparr>"

lemma demo_yaml_ok: "summary_yaml_ok demo_dataset_externs"
  by (simp add: summary_yaml_ok_def demo_dataset_externs_def read_frames_put get_put_summary)

section \<open>The example dataset\<close>

definition at_time :: "datetime \<Rightarrow> commit_opts" where
  "at_time t = default_commit_opts\<lparr>co_system_time := Some t\<rparr>"

definition demo_file :: bytes where
  "demo_file = replicate 100 0"

definition demo_params :: add_data_params where
  "demo_params =
     \<lparr>adp_prev_checkpoint = None, adp_prev_offset = None,
      adp_new_offset_interval = Some \<lparr>oi_start = 0, oi_end = 9\<rparr>, adp_new_watermark = Some 90,
      adp_new_source_state = None\<rparr>"

definition demo_ds1 :: dataset where
  "demo_ds1 = snd (the (commit_event demo_externs demo_codec 0 empty_dataset (event demo_seed) (at_time 100)))"

definition demo_ds2 :: dataset where
  "demo_ds2 = snd (the (commit_event demo_externs demo_codec 0 demo_ds1 (event demo_schema) (at_time 110)))"

definition demo_ds3 :: dataset where
  "demo_ds3 = snd (the (commit_add_data demo_externs demo_codec demo_dataset_externs 0 demo_ds2 demo_params
     (Some demo_file) None (at_time 120)))"

definition demo_commit :: "multihash option \<Rightarrow> u8 \<Rightarrow> commit_result" where
  "demo_commit prev n = \<lparr>cr_old_head = prev, cr_new_head = demo_hash n, cr_new_upstream_ids = []\<rparr>"

lemma demo_commit_results:
  "map_option fst (commit_event demo_externs demo_codec 0 empty_dataset (event demo_seed) (at_time 100))
     = Some (Inr (demo_commit None 0))"
  "map_option fst (commit_event demo_externs demo_codec 0 demo_ds1 (event demo_schema) (at_time 110))
     = Some (Inr (demo_commit (Some (demo_hash 0)) 1))"
  "map_option fst (commit_add_data demo_externs demo_codec demo_dataset_externs 0 demo_ds2 demo_params
     (Some demo_file) None (at_time 120)) = Some (Inr (demo_commit (Some (demo_hash 1)) 2))"
  by code_simp+

lemma demo_commits:
  "commit_event demo_externs demo_codec 0 empty_dataset (event demo_seed) (at_time 100)
     = Some (Inr (demo_commit None 0), demo_ds1)"
  "commit_event demo_externs demo_codec 0 demo_ds1 (event demo_schema) (at_time 110)
     = Some (Inr (demo_commit (Some (demo_hash 0)) 1), demo_ds2)"
  "commit_add_data demo_externs demo_codec demo_dataset_externs 0 demo_ds2 demo_params
     (Some demo_file) None (at_time 120) = Some (Inr (demo_commit (Some (demo_hash 1)) 2), demo_ds3)"
  using demo_commit_results [THEN map_fst_snd] unfolding demo_ds1_def demo_ds2_def demo_ds3_def by simp_all

lemma demo_prepare:
  "prepare_objects demo_externs demo_dataset_externs demo_ds2 (adp_new_offset_interval demo_params) (Some demo_file) None
     = Inr (block_data demo_data, None)"
  by code_simp

lemma demo_commit_sound:
  "commit_sound demo_externs demo_codec 0 empty_dataset (event demo_seed) (at_time 100)"
  "commit_sound demo_externs demo_codec 0 demo_ds1 (event demo_schema) (at_time 110)"
  "commit_sound demo_externs demo_codec 0 demo_ds2 (add_data_event demo_params (block_data demo_data) None) (at_time 120)"
  by code_simp+

lemma demo_dataset_reachable:
  "dataset_reachable demo_externs demo_codec demo_dataset_externs True demo_ds2"
  "dataset_reachable demo_externs demo_codec demo_dataset_externs True demo_ds3"
proof -
  let ?op = "dataset_op demo_externs demo_codec demo_dataset_externs True"
  have chk: "co_check_object_refs (at_time t)" for t by (simp add: at_time_def default_commit_opts_def)
  have "?op empty_dataset demo_ds1" "?op demo_ds1 demo_ds2"
    by (rule op_commit_event [OF demo_commits(1) demo_commit_sound(1)]
        op_commit_event [OF demo_commits(2) demo_commit_sound(2)]; simp add: chk)+
  then show two: "dataset_reachable demo_externs demo_codec demo_dataset_externs True demo_ds2"
    by (blast intro: dreach_empty dreach_step)
  have "?op demo_ds2 demo_ds3"
    by (rule op_commit_add_data [OF demo_commits(3)]) (auto simp: demo_prepare demo_commit_sound(3))
  with two show "dataset_reachable demo_externs demo_codec demo_dataset_externs True demo_ds3"
    by (rule dreach_step)
qed

lemma demo_dataset_reads:
  "chain_get_block demo_codec (dset_chain demo_ds3) (demo_hash 0) = Inr demo_seed"
  "chain_get_block demo_codec (dset_chain demo_ds3) (demo_hash 1) = Inr demo_schema"
  "chain_get_block demo_codec (dset_chain demo_ds3) (demo_hash 2) = Inr demo_data"
  "chain_resolve_ref demo_externs (dset_chain demo_ds3) Head = Inr (demo_hash 2)"
  by code_simp+

lemma demo_dataset_chain_at:
  "chain_at (chain_get_block demo_codec (dset_chain demo_ds3)) (demo_hash 2)
     [(demo_hash 2, demo_data), (demo_hash 1, demo_schema), (demo_hash 0, demo_seed)]"
proof -
  let ?get = "chain_get_block demo_codec (dset_chain demo_ds3)"
  have "chain_at ?get (demo_hash 0) [(demo_hash 0, demo_seed)]"
    using demo_dataset_reads(1) demo_links(1) by (rule chain_root)
  with demo_dataset_reads(2) demo_links(2)
  have "chain_at ?get (demo_hash 1) [(demo_hash 1, demo_schema), (demo_hash 0, demo_seed)]" by (rule chain_step)
  with demo_dataset_reads(3) demo_links(3) show ?thesis by (rule chain_step)
qed

end
