(* ===== verification/Dataset_Changes.thy ===== *)
theory Dataset_Changes
  imports Dataset_Invariant
begin

text \<open>
  The dataset changes service (\<open>dataset_changes_service_impl.rs\<close>, \<open>dataset_changes_service.rs\<close>):
  how many blocks and records an interval of a chain adds, and whether it moves the watermark.
  The dataset repository is an argument, a lookup of datasets by identifier. The scan of the
  interval decides on the watermark without reading past the old head in most cases; over a
  valid chain the decision is exact, because watermarks never decrease.
\<close>

section \<open>Increments\<close>

definition increment_add_assign :: "dataset_increment \<Rightarrow> dataset_increment \<Rightarrow> dataset_increment" where
  "increment_add_assign self rhs =
     \<lparr>di_num_blocks = di_num_blocks self + di_num_blocks rhs,
      di_num_records = di_num_records self + di_num_records rhs,
      di_updated_watermark =
        (case di_updated_watermark self of
           None \<Rightarrow> di_updated_watermark rhs
         | Some self_watermark \<Rightarrow>
             (case di_updated_watermark rhs of
                None \<Rightarrow> Some self_watermark
              | Some rhs_watermark \<Rightarrow> Some (max self_watermark rhs_watermark)))\<rparr>"

datatype get_dataset_error = DatasetNotFound dataset_ref | GetDatasetInternal string

datatype get_increment_error =
    IncrementDatasetNotFound dataset_ref
  | IncrementRefNotFound block_ref
  | IncrementAccess access_error
  | IncrementInternal string

section \<open>The service\<close>

definition resolve_dataset_by_id ::
  "(dataset_ref \<Rightarrow> get_dataset_error + dataset) \<Rightarrow> dataset_id \<Rightarrow> (get_increment_error, dataset) res" where
  "resolve_dataset_by_id lookup dataset =
     map_err (\<lambda>e. Fail (case e of
         DatasetNotFound r \<Rightarrow> IncrementDatasetNotFound r
       | GetDatasetInternal m \<Rightarrow> IncrementInternal m)) (lookup (RefID dataset))"

definition resolve_dataset_head :: "externs \<Rightarrow> dataset \<Rightarrow> (get_increment_error, multihash) res" where
  "resolve_dataset_head x d =
     map_err (map_fault (\<lambda>e. case e of
         RefAccess a \<Rightarrow> IncrementAccess a
       | RefNotFound r \<Rightarrow> IncrementRefNotFound r
       | RefInternal m \<Rightarrow> IncrementInternal m)) (ref_get x (ref_repo (dset_chain d)) Head)"

text \<open>The mutable variables of the scan.\<close>

record changes_scan =
  cs_num_blocks :: u64
  cs_num_records :: u64
  cs_updated_watermark :: "datetime option"
  cs_latest_watermark :: "datetime option"

fun event_num_records :: "metadata_event \<Rightarrow> u64" where
  "event_num_records (AddData e) =
     (case ad_new_data e of None \<Rightarrow> 0 | Some s \<Rightarrow> data_slice_num_records s)"
| "event_num_records (ExecuteTransform e) =
     (case et_new_data e of None \<Rightarrow> 0 | Some s \<Rightarrow> data_slice_num_records s)"
| "event_num_records _ = 0"

fun event_watermark :: "metadata_event \<Rightarrow> datetime option" where
  "event_watermark (AddData e) = ad_new_watermark e"
| "event_watermark (ExecuteTransform e) = et_new_watermark e"
| "event_watermark _ = None"

definition scan_watermark :: "metadata_event \<Rightarrow> changes_scan \<Rightarrow> changes_scan" where
  "scan_watermark e s =
     (if cs_updated_watermark s \<noteq> None then s
      else case event_watermark e of
             None \<Rightarrow> s
           | Some block_watermark \<Rightarrow>
               (case cs_latest_watermark s of
                  Some latest \<Rightarrow>
                    if block_watermark \<noteq> latest then s\<lparr>cs_updated_watermark := Some latest\<rparr> else s
                | None \<Rightarrow> s\<lparr>cs_latest_watermark := Some block_watermark\<rparr>))"

definition scan_block :: "hashed_block \<Rightarrow> changes_scan \<Rightarrow> changes_scan" where
  "scan_block hb s =
     scan_watermark (event (snd hb))
       (s\<lparr>cs_num_blocks := cs_num_blocks s + 1,
          cs_num_records := cs_num_records s + event_num_records (event (snd hb))\<rparr>)"

definition empty_scan :: changes_scan where
  "empty_scan =
     \<lparr>cs_num_blocks = 0, cs_num_records = 0, cs_updated_watermark = None, cs_latest_watermark = None\<rparr>"

definition search_data_into_event :: "search_data \<Rightarrow> data_stream_event option" where
  "search_data_into_event v = map_option (\<lambda>(_, b). dsb_event b) (ssd_hashed_block v)"

text \<open>Looking for the watermark before the interval.\<close>

definition previous_watermark_decides ::
  "codec \<Rightarrow> dataset \<Rightarrow> multihash \<Rightarrow> datetime \<Rightarrow> (string, datetime option) res option" where
  "previous_watermark_decides cd d old_head latest =
     map_option
       (\<lambda>r. and_then (map_err (map_fault (\<lambda>_. ''traversal'')) r) (\<lambda>v.
          case Option.bind (search_data_into_event v) dse_new_watermark of
            Some previous \<Rightarrow> Inr (if previous \<noteq> latest then Some latest else None)
          | None \<Rightarrow> Inr (Some latest)))
       (accept_one_by_hash cd (dset_chain d) search_data_ops old_head (search_data_new NextDataBlock))"

definition make_increment_from_interval ::
  "codec \<Rightarrow> dataset \<Rightarrow> multihash option \<Rightarrow> multihash \<Rightarrow> (string, dataset_increment) res option" where
  "make_increment_from_interval cd d old_head new_head =
     Option.bind (iter_blocks_interval cd (dset_chain d) new_head old_head False) (\<lambda>(blocks, err).
       case err of
         Some f \<Rightarrow> Some (Inl (map_fault (\<lambda>_. ''iteration'') f))
       | None \<Rightarrow>
           let s = fold scan_block blocks empty_scan;
               result = (\<lambda>updated. \<lparr>di_num_blocks = cs_num_blocks s, di_num_records = cs_num_records s,
                                    di_updated_watermark = updated\<rparr>)
           in (case (cs_updated_watermark s, cs_latest_watermark s) of
                 (None, Some latest) \<Rightarrow>
                   (case old_head of
                      Some h \<Rightarrow>
                        map_option (\<lambda>r. and_then r (\<lambda>updated. Inr (result updated)))
                          (previous_watermark_decides cd d h latest)
                    | None \<Rightarrow> Some (Inr (result (Some latest))))
               | (updated, _) \<Rightarrow> Some (Inr (result updated))))"

definition get_increment_between ::
  "codec \<Rightarrow> (dataset_ref \<Rightarrow> get_dataset_error + dataset) \<Rightarrow> dataset_id \<Rightarrow> multihash option \<Rightarrow> multihash \<Rightarrow>
   (get_increment_error, dataset_increment) res option" where
  "get_increment_between cd lookup dataset old_head new_head =
     (case resolve_dataset_by_id lookup dataset of
        Inl f \<Rightarrow> Some (Inl f)
      | Inr d \<Rightarrow>
          map_option (map_err (map_fault IncrementInternal))
            (make_increment_from_interval cd d old_head new_head))"

definition get_increment_since ::
  "externs \<Rightarrow> codec \<Rightarrow> (dataset_ref \<Rightarrow> get_dataset_error + dataset) \<Rightarrow> dataset_id \<Rightarrow> multihash option \<Rightarrow>
   (get_increment_error, dataset_increment) res option" where
  "get_increment_since x cd lookup dataset old_head =
     (case resolve_dataset_by_id lookup dataset of
        Inl f \<Rightarrow> Some (Inl f)
      | Inr d \<Rightarrow>
          (case resolve_dataset_head x d of
             Inl f \<Rightarrow> Some (Inl f)
           | Inr current_head \<Rightarrow>
               map_option (map_err (map_fault IncrementInternal))
                 (make_increment_from_interval cd d old_head current_head)))"

section \<open>Watermarks of a valid chain\<close>

definition watermark_of :: "metadata_block list \<Rightarrow> datetime option" where
  "watermark_of bs = Option.bind (last_event as_data_stream_event bs) dse_new_watermark"

lemma event_watermark_eq: "event_watermark e = Option.bind (as_data_stream_event e) dse_new_watermark"
  by (cases e) simp_all

lemma event_num_records_eq: "event_num_records (event b) = amount data_slice_num_records (block_data b)"
  by (cases "event b") (auto simp: amount_def block_data_def split: option.split)

lemma watermark_of_Cons:
  "watermark_of (b # bs) = (if is_data_event (event b) then event_watermark (event b) else watermark_of bs)"
  by (cases "event b") (simp_all add: watermark_of_def event_watermark_eq last_event_def)

lemma watermark_le_refl [simp]: "watermark_le w w"
  by (cases w) simp_all

lemma watermark_le_trans: "watermark_le a b \<Longrightarrow> watermark_le b c \<Longrightarrow> watermark_le a c"
  by (cases a; cases b; cases c) simp_all

lemma watermark_step: "valid_chain (b # bs) \<Longrightarrow> watermark_le (watermark_of bs) (watermark_of (b # bs))"
proof (cases "as_data_stream_event (event b)")
  case (Some d)
  assume "valid_chain (b # bs)"
  with Some have "case last_event as_data_stream_event bs of None \<Rightarrow> True | Some p \<Rightarrow> data_follows p d"
    by (simp add: valid_next_def valid_data_event_def)
  with Some show ?thesis
    by (cases "last_event as_data_stream_event bs")
      (simp_all add: watermark_of_def last_event_def data_follows_def del: as_data_stream_event_None)
qed (simp add: watermark_of_Cons)

lemma watermark_mono:
  "valid_chain (newer @ older) \<Longrightarrow> watermark_le (watermark_of older) (watermark_of (newer @ older))"
proof (induction newer)
  case (Cons b newer)
  then show ?case using watermark_step [of b "newer @ older"] by (auto intro: watermark_le_trans)
qed simp

lemma event_watermark_data: "event_watermark e = Some w \<Longrightarrow> is_data_event e"
  by (cases e) simp_all

lemma watermark_no_mark:
  "valid_chain (newer @ older) \<Longrightarrow> last_event event_watermark newer = None \<Longrightarrow>
     watermark_of (newer @ older) = watermark_of older"
proof (induction newer)
  case (Cons b newer)
  then have "event_watermark (event b) = None" "watermark_of (newer @ older) = watermark_of older"
    by (auto simp: last_event_def split: option.splits)
  moreover have "watermark_le (watermark_of (newer @ older)) (watermark_of (b # newer @ older))"
    using Cons.prems(1) by (intro watermark_step) simp
  ultimately show ?case
    by (cases "watermark_of older") (auto simp: watermark_of_Cons split: if_splits)
qed simp

lemma watermark_mark:
  assumes "valid_chain (newer @ older)" and "last_event event_watermark newer = Some w"
  shows "watermark_of (newer @ older) = Some w"
  using assms
proof (induction newer)
  case (Cons b newer)
  have "watermark_le (watermark_of (newer @ older)) (watermark_of (b # newer @ older))"
    using Cons.prems(1) by (intro watermark_step) simp
  with Cons show ?case
    by (cases "event_watermark (event b)")
      (auto simp: watermark_of_Cons last_event_def event_watermark_data split: if_splits option.splits)
qed (simp add: last_event_def)

lemma watermark_member:
  assumes "valid_chain (newer @ older)" and "b \<in> set newer" and "event_watermark (event b) = Some w"
  shows "watermark_le (watermark_of older) (Some w) \<and> watermark_le (Some w) (watermark_of (newer @ older))"
proof -
  from assms(2) obtain p q where newer: "newer = p @ b # q" by (meson split_list)
  have here: "watermark_of (b # q @ older) = Some w"
    using assms(3) by (simp add: watermark_of_Cons event_watermark_data)
  have "valid_chain (b # q @ older)" using assms(1) valid_chain_suffix [of p "b # q @ older"] by (simp add: newer)
  then show ?thesis
    using here assms(1) watermark_mono [of "b # q" older] watermark_mono [of p "b # q @ older"]
    by (simp add: newer)
qed


section \<open>The scan\<close>

lemma scan_counts:
  "cs_num_blocks (fold scan_block hbs s) = cs_num_blocks s + of_nat (length hbs)
   \<and> cs_num_records (fold scan_block hbs s) = cs_num_records s + chain_records (map snd hbs)"
proof (induction hbs arbitrary: s)
  case (Cons hb hbs)
  have "cs_num_blocks (scan_watermark e r) = cs_num_blocks r" "cs_num_records (scan_watermark e r) = cs_num_records r"
    for e r
    by (simp_all add: scan_watermark_def split: option.split)
  with Cons show ?case by (simp add: scan_block_def event_num_records_eq add.assoc)
qed simp

definition scan_marks :: "changes_scan \<Rightarrow> datetime option \<times> datetime option" where
  "scan_marks s = (cs_updated_watermark s, cs_latest_watermark s)"

lemma scan_marks_step:
  "scan_marks (scan_block hb s) =
     (case (scan_marks s, event_watermark (event (snd hb))) of
        ((None, Some l), Some w) \<Rightarrow> (if w \<noteq> l then Some l else None, Some l)
      | ((None, None), Some w) \<Rightarrow> (None, Some w)
      | (m, _) \<Rightarrow> m)"
  by (auto simp: scan_marks_def scan_block_def scan_watermark_def split: option.split)

lemma scan_marks_decided:
  "scan_marks s = (Some u, l) \<Longrightarrow> scan_marks (fold scan_block hbs s) = (Some u, l)"
  by (induction hbs arbitrary: s) (simp_all add: scan_marks_step)

lemma scan_marks_latest:
  "scan_marks s = (None, Some l) \<Longrightarrow> scan_marks (fold scan_block hbs s) =
     (if \<exists>hb \<in> set hbs. \<exists>w. event_watermark (event (snd hb)) = Some w \<and> w \<noteq> l then Some l else None, Some l)"
proof (induction hbs arbitrary: s)
  case (Cons hb hbs)
  show ?case
  proof (cases "event_watermark (event (snd hb))")
    case None
    with Cons show ?thesis by (simp add: scan_marks_step)
  next
    case (Some w)
    with Cons scan_marks_decided [of "scan_block hb s" l "Some l" hbs] show ?thesis
      by (cases "w = l") (simp_all add: scan_marks_step)
  qed
qed simp

lemma scan_marks_empty:
  "scan_marks s = (None, None) \<Longrightarrow> scan_marks (fold scan_block hbs s) =
     (case last_event event_watermark (map snd hbs) of
        None \<Rightarrow> (None, None)
      | Some l \<Rightarrow>
          (if \<exists>hb \<in> set hbs. \<exists>w. event_watermark (event (snd hb)) = Some w \<and> w \<noteq> l then Some l else None, Some l))"
proof (induction hbs arbitrary: s)
  case (Cons hb hbs)
  show ?case
  proof (cases "event_watermark (event (snd hb))")
    case None
    with Cons show ?thesis
      by (simp add: scan_marks_step last_event_def split: option.split)
  next
    case (Some w)
    with Cons.prems scan_marks_latest [of "scan_block hb s" w hbs] show ?thesis
      by (simp add: scan_marks_step last_event_def)
  qed
qed (simp add: last_event_def)

section \<open>The increment of an interval\<close>

text \<open>
  The increment from the blocks \<open>older\<close> to the blocks \<open>newer @ older\<close>: the watermark is updated
  when the two heads have different ones.
\<close>

definition increment_spec :: "metadata_block list \<Rightarrow> metadata_block list \<Rightarrow> dataset_increment" where
  "increment_spec newer older =
     \<lparr>di_num_blocks = of_nat (length newer), di_num_records = chain_records newer,
      di_updated_watermark =
        (if watermark_of (newer @ older) = watermark_of older then None else watermark_of (newer @ older))\<rparr>"

definition head_of :: "hashed_block list \<Rightarrow> multihash option" where
  "head_of hbs = (case hbs of [] \<Rightarrow> None | hb # _ \<Rightarrow> Some (fst hb))"

lemma chain_at_distinct: "chain_at get h bs \<Longrightarrow> distinct (map fst bs)"
proof (induction rule: chain_at.induct)
  case (chain_step h b p bs)
  have here: "chain_at get h ((h, b) # bs)" using chain_step(1,2,3) by (rule chain_at.chain_step)
  have "h \<notin> fst ` set bs"
  proof
    assume "h \<in> fst ` set bs"
    with chain_at_cut [OF chain_step(3)] obtain older
      where "bs = before_tail (Some h) bs @ older" "chain_at get h older" by metis
    with chain_at_unique [OF here] have "length bs = length (before_tail (Some h) bs) + Suc (length bs)"
      by (metis length_Cons length_append)
    then show False by simp
  qed
  with chain_step.IH show ?case by simp
qed simp

lemma chain_at_split:
  assumes "chain_at get h (newer @ older)" and "older \<noteq> []"
  shows "before_tail (head_of older) (newer @ older) = newer \<and> chain_at get (fst (hd older)) older"
proof -
  obtain k b rest where older: "older = (k, b) # rest" using assms(2) by (cases older) auto
  have "k \<notin> fst ` set newer" using chain_at_distinct [OF assms(1)] by (auto simp: older)
  then have cut: "before_tail (Some k) (newer @ older) = newer"
    by (auto simp: before_tail_def older takeWhile_append)
  obtain o' where "newer @ older = before_tail (Some k) (newer @ older) @ o'" "chain_at get k o'"
    using chain_at_cut [OF assms(1), of k] by (auto simp: older)
  with cut have "chain_at get k older" by simp
  with cut show ?thesis by (simp add: head_of_def older)
qed

lemma previous_watermark_chain:
  assumes "chain_at (chain_get_block cd (dset_chain d)) k older"
  shows "previous_watermark_decides cd d k l =
    Some (Inr (if watermark_of (map snd older) = Some l then None else Some l))"
proof -
  have "accept_one_by_hash cd (dset_chain d) search_data_ops k (search_data_new NextDataBlock) =
      Some (Inr \<lparr>ssd_kind = NextDataBlock, ssd_hashed_block = first_of (data_block_matches NextDataBlock) older\<rparr>)"
    using run_search_data [of NextDataBlock older] accept_one_by_hash_chain [OF assms, of search_data_ops]
    by (auto simp: search_data_new_def search_data_ops_def)
  moreover have "map_option (\<lambda>(_, b). dsb_event b) (first_of (data_block_matches NextDataBlock) older) =
      last_event as_data_stream_event (map snd older)"
    by (induction older)
      (auto simp: last_event_def data_block_matches_def as_data_stream_block_def
        simp del: as_data_stream_event_None split: option.split)
  ultimately show ?thesis
    by (auto simp: previous_watermark_decides_def search_data_into_event_def watermark_of_def
        split: option.split)
qed

lemma make_increment_exact:
  assumes chain: "chain_at (chain_get_block cd (dset_chain d)) h (newer @ older)"
    and valid: "valid_chain (map snd (newer @ older))"
  shows "make_increment_from_interval cd d (head_of older) h =
    Some (Inr (increment_spec (map snd newer) (map snd older)))"
proof -
  let ?s = "fold scan_block newer empty_scan"
  have cut: "iter_blocks_interval cd (dset_chain d) h (head_of older) False = Some (newer, None)"
  proof (cases older)
    case Nil
    with chain show ?thesis by (simp add: iter_blocks_interval_def iter_loop_chain head_of_def)
  next
    case (Cons hb rest)
    with chain_at_split [OF chain] show ?thesis
      by (auto simp: iter_blocks_interval_def iter_loop_chain [OF chain] head_of_def)
  qed
  have counts: "cs_num_blocks ?s = of_nat (length newer)" "cs_num_records ?s = chain_records (map snd newer)"
    using scan_counts [of newer empty_scan] by (simp_all add: empty_scan_def)
  have marks: "scan_marks ?s = (case last_event event_watermark (map snd newer) of
        None \<Rightarrow> (None, None)
      | Some l \<Rightarrow>
          (if \<exists>hb \<in> set newer. \<exists>w. event_watermark (event (snd hb)) = Some w \<and> w \<noteq> l then Some l else None, Some l))"
    by (rule scan_marks_empty) (simp add: scan_marks_def empty_scan_def)
  have valid': "valid_chain (map snd newer @ map snd older)" using valid by simp
  show ?thesis
  proof (cases "last_event event_watermark (map snd newer)")
    case None
    with watermark_no_mark [OF valid'] marks counts cut show ?thesis
      by (simp add: make_increment_from_interval_def increment_spec_def scan_marks_def)
  next
    case (Some l)
    with watermark_mark [OF valid'] have now: "watermark_of (map snd newer @ map snd older) = Some l" by simp
    show ?thesis
    proof (cases "\<exists>hb \<in> set newer. \<exists>w. event_watermark (event (snd hb)) = Some w \<and> w \<noteq> l")
      case True
      then obtain hb w where hb: "hb \<in> set newer" "event_watermark (event (snd hb)) = Some w" "w \<noteq> l" by blast
      with watermark_member [OF valid', of "snd hb" w] now
      have "watermark_of (map snd older) \<noteq> Some l" by (cases "watermark_of (map snd older)") auto
      with True Some marks counts cut now show ?thesis
        by (simp add: make_increment_from_interval_def increment_spec_def scan_marks_def)
    next
      case False
      show ?thesis
      proof (cases older)
        case Nil
        with False Some marks counts cut now show ?thesis
          by (simp add: make_increment_from_interval_def increment_spec_def scan_marks_def head_of_def
              watermark_of_def last_event_def)
      next
        case (Cons hb rest)
        with chain_at_split [OF chain] have "chain_at (chain_get_block cd (dset_chain d)) (fst hb) older"
          "head_of older = Some (fst hb)" by (simp_all add: head_of_def)
        moreover have "cs_updated_watermark ?s = None" "cs_latest_watermark ?s = Some l"
          using False Some marks by (simp_all add: scan_marks_def)
        ultimately show ?thesis
          using counts cut now
          by (simp add: make_increment_from_interval_def increment_spec_def previous_watermark_chain Let_def)
      qed
    qed
  qed
qed

text \<open>Increments of adjacent intervals add up.\<close>

lemma increment_spec_add:
  assumes "valid_chain (newer @ middle @ older)"
  shows "increment_add_assign (increment_spec middle older) (increment_spec newer (middle @ older)) =
    increment_spec (newer @ middle) older"
proof -
  have "watermark_le (watermark_of older) (watermark_of (middle @ older))"
    "watermark_le (watermark_of (middle @ older)) (watermark_of (newer @ middle @ older))"
    using assms valid_chain_suffix [of newer "middle @ older"] by (auto intro: watermark_mono)
  then show ?thesis
    by (cases "watermark_of older"; cases "watermark_of (middle @ older)";
        cases "watermark_of (newer @ middle @ older)")
      (auto simp: increment_add_assign_def increment_spec_def)
qed

end
