(* ===== verification/Dataset_Claims.thy ===== *)
theory Dataset_Claims
  imports Dataset_Demo Dataset_Changes
begin

text \<open>
  Properties of datasets: the cached summary always equals the one computed from the whole chain, commits keep
  the objects that blocks refer to, a commit of data appends the block that describes its file, and the increments
  that the changes service reports are exact and add up.
\<close>

section \<open>The summary\<close>

text \<open>
  C11. Whatever commits, resets of the head, appends by other services and earlier requests for
  the summary a dataset went through, asking for an up-to-date summary returns, and the
  incrementally maintained answer is the summary of the whole chain below the current head (or
  that the dataset is empty when there is no head); the answer is also what stays in the cache,
  and nothing else of the dataset changes.
\<close>

theorem summary_equals_recomputed:
  assumes "dataset_reachable x cd dx strict d" and "externs_ok x" and "summary_yaml_ok dx"
  shows "\<exists>r d'. get_summary x cd dx d default_get_summary_opts = Some (r, d')
    \<and> dset_chain d' = dset_chain d \<and> dset_data_repo d' = dset_data_repo d
    \<and> dset_checkpoint_repo d' = dset_checkpoint_repo d
    \<and> (case chain_resolve_ref x (dset_chain d) Head of
         Inl _ \<Rightarrow> r = Inl (Fail EmptyDataset)
       | Inr h \<Rightarrow> \<exists>bs. chain_at (chain_get_block cd (dset_chain d)) h bs
           \<and> r = Inr (summary_of h (map snd bs)) \<and> read_summary dx d' = Inr (Some (summary_of h (map snd bs))))"
  using get_summary_outcome [OF dataset_reachable_inv [OF assms] assms(2,3), of default_get_summary_opts]
  by (auto simp: default_get_summary_opts_def)

theorem summary_equals_recomputed_witness:
  "\<exists>d'. get_summary demo_externs demo_codec demo_dataset_externs demo_ds3 default_get_summary_opts =
     Some (Inr \<lparr>sm_id = DatasetID [], sm_kind = Root, sm_last_block_hash = demo_hash 2, sm_dependencies = [],
       sm_last_pulled = Some 120, sm_num_records = 10, sm_data_size = 100, sm_checkpoints_size = 0\<rparr>, d')"
proof -
  have "summary_of (demo_hash 2) [demo_data, demo_schema, demo_seed] =
      \<lparr>sm_id = DatasetID [], sm_kind = Root, sm_last_block_hash = demo_hash 2, sm_dependencies = [],
       sm_last_pulled = Some 120, sm_num_records = 10, sm_data_size = 100, sm_checkpoints_size = 0\<rparr>"
    by code_simp
  with summary_equals_recomputed [OF demo_dataset_reachable(2) demo_externs_ok demo_yaml_ok]
    chain_at_unique [OF demo_dataset_chain_at] demo_dataset_reads(4)
  show ?thesis by fastforce
qed

section \<open>Referential integrity\<close>

text \<open>
  C12. In a dataset whose blocks were all committed with \<open>commit_event\<close> under its check of object
  references, \<open>commit_add_data\<close> or \<open>commit_execute_transform\<close> (which turn that check off), every
  data slice and every checkpoint that any stored block refers to is in its repository.
\<close>

theorem committed_objects_present:
  assumes "dataset_reachable x cd dx True d" and "externs_ok x" and "summary_yaml_ok dx"
    and "chain_get_block cd (dset_chain d) k = Inr b"
  shows "(case block_data b of None \<Rightarrow> True | Some s \<Rightarrow> obj_contains (dset_data_repo d) (ds_physical_hash s))
    \<and> (case block_checkpoint b of
         None \<Rightarrow> True | Some c \<Rightarrow> obj_contains (dset_checkpoint_repo d) (cp_physical_hash c))"
proof -
  have "objects_present d (event b)"
    using dataset_reachable_refs [OF assms(1-3)] assms(4) by (simp add: refs_inv_def)
  then show ?thesis
    by (cases "as_data_stream_event (event b)")
      (auto simp: objects_present_def block_data_def block_checkpoint_def obj_contains_def
        simp del: as_data_stream_event_None split: option.split)
qed

theorem committed_objects_present_witness:
  "obj_contains (dset_data_repo demo_ds3) (demo_hash 0)"
proof -
  have "block_data demo_data = Some \<lparr>ds_logical_hash = demo_hash 0, ds_physical_hash = demo_hash 0,
      ds_offset_interval = \<lparr>oi_start = 0, oi_end = 9\<rparr>, ds_size = 100\<rparr>"
    by code_simp
  then show ?thesis
    using committed_objects_present [OF demo_dataset_reachable(2) demo_externs_ok demo_yaml_ok demo_dataset_reads(3)]
    by simp
qed

section \<open>Committing data\<close>

lemma prepare_data_slice_file:
  assumes "prepare_data_slice x dx interval src = Inr (Some s)"
  shows "\<exists>f. src = Some f \<and> get_file_physical_hash x f = Inr (ds_physical_hash s)
    \<and> parquet_logical_hash dx f = Inr (ds_logical_hash s) \<and> ds_size s = of_nat (length f)
    \<and> interval = Some (ds_offset_interval s)"
  using assms by (auto simp: prepare_data_slice_def res_simps split: option.splits if_splits)

text \<open>The file becomes the object, unless there is an object of that name already.\<close>

lemma commit_objects_data:
  assumes "commit_objects x (Some s) (Some f) nc cfile d = (Inr u, d1)"
  shows "dset_data_repo d1 (ds_physical_hash s) =
    Some (case dset_data_repo d (ds_physical_hash s) of None \<Rightarrow> f | Some old \<Rightarrow> old)"
proof -
  obtain r d0 where d0: "commit_data x (Some s) (Some f) d = (r, d0)" by (cases "commit_data x (Some s) (Some f) d")
  with assms have "commit_checkpoint x nc cfile d0 = (Inr u, d1)"
    by (auto simp: commit_objects_def fbind_def split: sum.splits)
  from commit_checkpoint_grows [OF this] d0 show ?thesis
    by (auto simp: commit_data_def commit_object_def fs_insert_file_move_def obj_contains_def
        split: if_splits option.split)
qed

text \<open>
  A commit of data that succeeds puts one block on top of the chain below the old head and
  moves the head to it. The block carries an \<open>AddData\<close> event with the given parameters, whose
  data slice names the file by its digest and has its length, its logical hash and the given
  interval. The data repository holds the file under that name, unless it already held an object
  of that name, which is kept; no object is lost.
\<close>

theorem commit_add_data_appends:
  assumes "dataset_reachable x cd dx strict d" and ok: "externs_ok x" "summary_yaml_ok dx"
    and opts: "co_prev_block_hash opts = None" "co_update_block_ref opts"
    and prep: "prepare_objects x dx d (adp_new_offset_interval params) src cp = Inr (nd, nc)"
    and sound: "commit_sound x cd now d (add_data_event params nd nc) opts"
    and res: "commit_add_data x cd dx now d params src cp opts = Some (Inr res, d')"
  shows "\<exists>b bs. event b = add_data_event params nd nc
    \<and> system_time b = (case co_system_time opts of Some t \<Rightarrow> t | None \<Rightarrow> now)
    \<and> current_ref x (dset_chain d) Head = Inr (cr_old_head res) \<and> prev_block_hash b = cr_old_head res
    \<and> precedes cd (dset_chain d) b bs
    \<and> chain_at (chain_get_block cd (dset_chain d')) (cr_new_head res) ((cr_new_head res, b) # bs)
    \<and> chain_resolve_ref x (dset_chain d') Head = Inr (cr_new_head res)
    \<and> dset_data_repo d \<subseteq>\<^sub>m dset_data_repo d' \<and> dset_checkpoint_repo d \<subseteq>\<^sub>m dset_checkpoint_repo d'
    \<and> (case nd of
         None \<Rightarrow> True
       | Some s \<Rightarrow> \<exists>f. src = Some f \<and> get_file_physical_hash x f = Inr (ds_physical_hash s)
           \<and> parquet_logical_hash dx f = Inr (ds_logical_hash s) \<and> ds_size s = of_nat (length f)
           \<and> adp_new_offset_interval params = Some (ds_offset_interval s)
           \<and> dset_data_repo d' (ds_physical_hash s) =
               Some (case dset_data_repo d (ds_physical_hash s) of None \<Rightarrow> f | Some old \<Rightarrow> old))"
proof -
  let ?e = "add_data_event params nd nc" and ?o = "opts\<lparr>co_check_object_refs := False\<rparr>"
  obtain u d1 where objs: "commit_objects x nd src nc (Option.bind cp checkpoint_ref_file) d = (Inr u, d1)"
    and commit: "commit_event x cd now d1 ?e ?o = Some (Inr res, d')"
    using res prep by (auto simp: commit_add_data_def split: prod.splits sum.splits)
  have grow: "objects_grow d d1" using commit_objects_grows [OF objs] by blast
  then have c1: "dset_chain d1 = dset_chain d" by (simp add: objects_grow_def)
  with sound have "commit_sound x cd now d1 ?e ?o" by (simp add: commit_sound_cong [of d1 d])
  from commit this obtain b h c where b: "commit_block x cd now d1 ?e ?o = Inr b"
    "chain_append x cd (dset_chain d1) b (commit_append_opts ?o) = Some (Inr h, c)"
    "append_sound x cd (dset_chain d1) b (commit_append_opts ?o)" "d' = d1\<lparr>dset_chain := c\<rparr>"
    "res = \<lparr>cr_old_head = prev_block_hash b, cr_new_head = h,
      cr_new_upstream_ids = new_upstream_ids (co_update_block_ref ?o) ?e\<rparr>"
    by (rule commit_event_Inr)
  note b = b [unfolded c1]
  have inv: "blocks_inv cd (dset_chain d) \<and> head_inv x (dset_chain d)"
    using dataset_reachable_inv [OF assms(1) ok] chain_reachable_inv [OF _ ok(1)] unfolding dataset_inv_def by blast
  have prev: "event b = ?e" "current_ref x (dset_chain d) Head = Inr (prev_block_hash b)"
    "system_time b = (case co_system_time opts of Some t \<Rightarrow> t | None \<Rightarrow> now)"
    using commit_block_default [OF b(1)] opts c1 by (cases "co_block_ref opts"; simp)+
  have "case prev_block_hash b of None \<Rightarrow> True | Some p \<Rightarrow> p \<in> dom (meta_block_repo (dset_chain d))"
    using inv prev(2) by (auto simp: head_inv_def)
  with inv obtain bs where bs: "precedes cd (dset_chain d) b bs" using blocks_inv_precedes by blast
  have "ao_update_ref (commit_append_opts ?o) = Some Head" using opts(2) by (simp add: commit_append_opts_def)
  from append_extends [OF ok(1) b(3) this b(2) bs]
  have chain: "chain_at (chain_get_block cd c) h ((h, b) # bs)" "chain_resolve_ref x c Head = Inr h" by simp_all
  have slice: "\<exists>f. src = Some f \<and> get_file_physical_hash x f = Inr (ds_physical_hash s)
      \<and> parquet_logical_hash dx f = Inr (ds_logical_hash s) \<and> ds_size s = of_nat (length f)
      \<and> adp_new_offset_interval params = Some (ds_offset_interval s)
      \<and> dset_data_repo d' (ds_physical_hash s) =
          Some (case dset_data_repo d (ds_physical_hash s) of None \<Rightarrow> f | Some old \<Rightarrow> old)" if "nd = Some s" for s
    using prepare_data_slice_file [of x dx "adp_new_offset_interval params" src s] prep that b(4)
      commit_objects_data [of x s _ nc _ d u d1] objs by (auto simp: prepare_objects_def res_simps)
  show ?thesis
    using prev bs chain grow slice b(4,5)
    by (intro exI [of _ b] exI [of _ bs]) (auto simp: objects_grow_def split: option.split)
qed

theorem commit_add_data_appends_witness:
  "\<exists>bs. chain_at (chain_get_block demo_codec (dset_chain demo_ds3)) (demo_hash 2) bs
    \<and> dset_data_repo demo_ds3 (demo_hash 0) = Some demo_file"
proof -
  have "dset_data_repo demo_ds2 (demo_hash 0) = None" by code_simp
  moreover have "co_prev_block_hash (at_time 120) = None" "co_update_block_ref (at_time 120)"
    by (simp_all add: at_time_def default_commit_opts_def)
  note commit_add_data_appends [OF demo_dataset_reachable(1) demo_externs_ok demo_yaml_ok this
      demo_prepare demo_commit_sound(3) demo_commits(3)]
  ultimately show ?thesis by (auto simp: demo_commit_def block_data_def demo_data_def)
qed


section \<open>Changes of a dataset\<close>

lemma reachable_chain_valid:
  assumes "dataset_reachable x cd dx strict d" and "externs_ok x" and "summary_yaml_ok dx"
    and "chain_at (chain_get_block cd (dset_chain d)) h bs"
  shows "valid_chain (map snd bs)"
proof -
  have "chain_reachable x cd (dset_chain d)" using dataset_reachable_inv [OF assms(1-3)] by (simp add: dataset_inv_def)
  from chain_reachable_inv [OF this assms(2)] have inv: "blocks_inv cd (dset_chain d)" by simp
  obtain b where "chain_get_block cd (dset_chain d) h = Inr b" using chain_at_hd [OF assms(4)] by blast
  from get_block_dom [OF this] inv obtain cs
    where "chain_at (chain_get_block cd (dset_chain d)) h cs" "valid_chain (map snd cs)"
    unfolding blocks_inv_def by blast
  with chain_at_unique [OF assms(4)] show ?thesis by auto
qed

text \<open>
  C22. The increment between two blocks of a dataset counts exactly the blocks and the records
  above the old head, and reports an updated watermark exactly when the newest watermark at the
  new head differs from the one at the old head; with no old head the interval is the whole
  chain. An old head that is not below the new one is an internal error.
\<close>

theorem increment_between_exact:
  assumes "dataset_reachable x cd dx strict d" and "externs_ok x" and "summary_yaml_ok dx"
    and lookup: "lookup (RefID dataset) = Inr d"
    and chain: "chain_at (chain_get_block cd (dset_chain d)) h (newer @ older)"
  shows "get_increment_between cd lookup dataset (head_of older) h =
      Some (Inr (increment_spec (map snd newer) (map snd older)))
    \<and> (t \<notin> fst ` set (newer @ older) \<longrightarrow>
         get_increment_between cd lookup dataset (Some t) h = Some (Inl (Fail (IncrementInternal ''iteration''))))"
proof -
  have "valid_chain (map snd (newer @ older))" using reachable_chain_valid [OF assms(1-3) chain] .
  from make_increment_exact [OF chain this]
  have "get_increment_between cd lookup dataset (head_of older) h =
      Some (Inr (increment_spec (map snd newer) (map snd older)))"
    by (simp add: get_increment_between_def resolve_dataset_by_id_def lookup)
  moreover have "get_increment_between cd lookup dataset (Some t) h = Some (Inl (Fail (IncrementInternal ''iteration'')))"
    if "t \<notin> fst ` set (newer @ older)"
  proof -
    have "Some t \<notin> Some ` fst ` set (newer @ older)" using that by auto
    then show ?thesis
      by (simp add: get_increment_between_def resolve_dataset_by_id_def lookup make_increment_from_interval_def
          iter_blocks_interval_def iter_loop_chain [OF chain] del: set_append)
  qed
  ultimately show ?thesis by blast
qed

theorem increment_between_exact_witness:
  "get_increment_between demo_codec (\<lambda>_. Inr demo_ds3) (DatasetID []) (Some (demo_hash 1)) (demo_hash 2) =
     Some (Inr \<lparr>di_num_blocks = 1, di_num_records = 10, di_updated_watermark = Some 90\<rparr>)
   \<and> get_increment_between demo_codec (\<lambda>_. Inr demo_ds3) (DatasetID []) (Some (demo_hash 7)) (demo_hash 2) =
     Some (Inl (Fail (IncrementInternal ''iteration'')))"
proof -
  have "increment_spec [demo_data] [demo_schema, demo_seed] =
      \<lparr>di_num_blocks = 1, di_num_records = 10, di_updated_watermark = Some 90\<rparr>"
    by code_simp
  moreover have "demo_hash 7 \<notin> {demo_hash 2, demo_hash 1, demo_hash 0}" by (simp add: demo_hash_def)
  ultimately show ?thesis
    using increment_between_exact [OF demo_dataset_reachable(2) demo_externs_ok demo_yaml_ok,
        of "\<lambda>_. Inr demo_ds3" "DatasetID []" "demo_hash 2" "[(demo_hash 2, demo_data)]"
          "[(demo_hash 1, demo_schema), (demo_hash 0, demo_seed)]" "demo_hash 7"] demo_dataset_chain_at
    by (simp add: head_of_def)
qed

text \<open>
  Increments compose: adding the increment from a middle block to the head onto the increment
  from the old head to the middle block gives the increment from the old head to the head, for
  the counts as well as for the watermark.
\<close>

theorem increments_add_up:
  assumes "dataset_reachable x cd dx strict d" and "externs_ok x" and "summary_yaml_ok dx"
    and "lookup (RefID dataset) = Inr d" and "chain_resolve_ref x (dset_chain d) Head = Inr h"
    and "chain_at (chain_get_block cd (dset_chain d)) h (newer @ (m, b) # middle @ older)"
  shows "\<exists>lower upper.
      get_increment_between cd lookup dataset (head_of older) m = Some (Inr lower)
    \<and> get_increment_since x cd lookup dataset (Some m) = Some (Inr upper)
    \<and> get_increment_since x cd lookup dataset (head_of older) = Some (Inr (increment_add_assign lower upper))"
proof -
  let ?mid = "(m, b) # middle"
  have top: "chain_at (chain_get_block cd (dset_chain d)) h (newer @ ?mid @ older)" using assms(6) by simp
  have valid: "valid_chain (map snd (newer @ ?mid @ older))" using reachable_chain_valid [OF assms(1-3) top] .
  have low: "chain_at (chain_get_block cd (dset_chain d)) m (?mid @ older)"
    using chain_at_split [OF top] by simp
  have "valid_chain (map snd (?mid @ older))" using reachable_chain_valid [OF assms(1-3) low] .
  note lower = make_increment_exact [OF low this]
  note upper = make_increment_exact [OF top valid]
  have "chain_at (chain_get_block cd (dset_chain d)) h ((newer @ ?mid) @ older)" using top by simp
  from make_increment_exact [OF this] valid
  have all: "make_increment_from_interval cd d (head_of older) h =
      Some (Inr (increment_spec (map snd (newer @ ?mid)) (map snd older)))" by simp
  have head: "ref_get x (ref_repo (dset_chain d)) Head = Inr h"
    using assms(5) by (simp add: chain_resolve_ref_def)
  have "increment_add_assign (increment_spec (map snd ?mid) (map snd older))
      (increment_spec (map snd newer) (map snd (?mid @ older))) = increment_spec (map snd (newer @ ?mid)) (map snd older)"
    using increment_spec_add [of "map snd newer" "map snd ?mid" "map snd older"] valid by simp
  with lower upper all head assms(4) show ?thesis
    by (simp add: get_increment_between_def get_increment_since_def resolve_dataset_by_id_def
        resolve_dataset_head_def head_of_def)
qed

theorem increments_add_up_witness:
  "\<exists>lower upper.
      get_increment_between demo_codec (\<lambda>_. Inr demo_ds3) (DatasetID []) None (demo_hash 1) = Some (Inr lower)
    \<and> get_increment_since demo_externs demo_codec (\<lambda>_. Inr demo_ds3) (DatasetID []) (Some (demo_hash 1)) = Some (Inr upper)
    \<and> get_increment_since demo_externs demo_codec (\<lambda>_. Inr demo_ds3) (DatasetID []) None =
        Some (Inr (increment_add_assign lower upper))"
  using increments_add_up [OF demo_dataset_reachable(2) demo_externs_ok demo_yaml_ok,
      of "\<lambda>_. Inr demo_ds3" "DatasetID []" "demo_hash 2" "[(demo_hash 2, demo_data)]" "demo_hash 1" demo_schema
        "[(demo_hash 0, demo_seed)]" "[]"] demo_dataset_chain_at demo_dataset_reads(4)
  by (simp add: head_of_def)

end
