(* ===== verification/Dependency_Graph.thy ===== *)
theory Dependency_Graph
  imports Dataset_Changes
begin

text \<open>
  The graph of dependencies between datasets (\<open>dependency_graph_service_inmem.rs\<close>), with the
  repository that feeds it from the summaries of the datasets
  (\<open>dependency_graph_repository_inmem.rs\<close>). Edges go from a dataset to those derived from it.

  The graph itself is the \<open>petgraph\<close> crate, a parameter: a record of the operations that the
  service calls on a \<open>StableDiGraph\<close>, whose documented behaviour is \<open>petgraph_ok\<close>. The service
  walks over differences of hash sets, in an order that hash sets leave open; the model takes
  the order of the list it is given, and what is proved does not depend on it.
\<close>

section \<open>The graph crate\<close>

datatype direction = Outgoing | Incoming

record 'g petgraph =
  pg_empty :: 'g
  pg_add_node :: "dataset_id \<Rightarrow> 'g \<Rightarrow> nat \<times> 'g"
  pg_node_weight :: "nat \<Rightarrow> 'g \<Rightarrow> dataset_id option"
  pg_remove_node :: "nat \<Rightarrow> 'g \<Rightarrow> 'g"
  pg_update_edge :: "nat \<Rightarrow> nat \<Rightarrow> 'g \<Rightarrow> 'g"
  pg_find_edge :: "nat \<Rightarrow> nat \<Rightarrow> 'g \<Rightarrow> nat option"
  pg_remove_edge :: "nat \<Rightarrow> 'g \<Rightarrow> 'g"
  pg_neighbors_directed :: "direction \<Rightarrow> nat \<Rightarrow> 'g \<Rightarrow> nat list"
  pg_bfs_reversed :: "nat \<Rightarrow> 'g \<Rightarrow> nat list"  \<comment> \<open>what \<open>Bfs::next\<close> yields over \<open>Reversed\<close>\<close>
  pg_dfs_finished :: "nat list \<Rightarrow> 'g \<Rightarrow> nat list"  \<comment> \<open>the \<open>Finish\<close> events of \<open>depth_first_search\<close>\<close>

definition pg_nodes :: "'g petgraph \<Rightarrow> 'g \<Rightarrow> nat \<rightharpoonup> dataset_id" where
  "pg_nodes pg g = (\<lambda>i. pg_node_weight pg i g)"

definition pg_edges :: "'g petgraph \<Rightarrow> 'g \<Rightarrow> (nat \<times> nat) set" where
  "pg_edges pg g = {(a, b). pg_find_edge pg a b g \<noteq> None}"

text \<open>
  What the crate documents, for graphs that were built with these operations (\<open>valid\<close>). A new node
  gets an index that is not in use; \<open>update_edge\<close> never makes parallel edges; removing a node
  removes its edges and keeps all other indices.
\<close>

definition petgraph_updates_ok :: "('g \<Rightarrow> bool) \<Rightarrow> 'g petgraph \<Rightarrow> bool" where
  "petgraph_updates_ok valid pg \<longleftrightarrow>
     valid (pg_empty pg) \<and> pg_nodes pg (pg_empty pg) = Map.empty \<and> pg_edges pg (pg_empty pg) = {}
     \<and> (\<forall>g w i g'. valid g \<longrightarrow> pg_add_node pg w g = (i, g') \<longrightarrow>
          valid g' \<and> pg_nodes pg g i = None \<and> pg_nodes pg g' = (pg_nodes pg g)(i \<mapsto> w)
          \<and> pg_edges pg g' = pg_edges pg g)
     \<and> (\<forall>g i. valid g \<longrightarrow>
          valid (pg_remove_node pg i g) \<and> pg_nodes pg (pg_remove_node pg i g) = (pg_nodes pg g)(i := None)
          \<and> pg_edges pg (pg_remove_node pg i g) = {(a, b) \<in> pg_edges pg g. a \<noteq> i \<and> b \<noteq> i})
     \<and> (\<forall>g a b. valid g \<longrightarrow> a \<in> dom (pg_nodes pg g) \<longrightarrow> b \<in> dom (pg_nodes pg g) \<longrightarrow>
          valid (pg_update_edge pg a b g) \<and> pg_nodes pg (pg_update_edge pg a b g) = pg_nodes pg g
          \<and> pg_edges pg (pg_update_edge pg a b g) = insert (a, b) (pg_edges pg g))
     \<and> (\<forall>g a b e. valid g \<longrightarrow> pg_find_edge pg a b g = Some e \<longrightarrow>
          valid (pg_remove_edge pg e g) \<and> pg_nodes pg (pg_remove_edge pg e g) = pg_nodes pg g
          \<and> pg_edges pg (pg_remove_edge pg e g) = pg_edges pg g - {(a, b)})"

text \<open>
  The searches visit every reachable node once, and a depth-first search of a graph without
  cycles finishes a node after all nodes that its edges lead to.
\<close>

definition petgraph_searches_ok :: "('g \<Rightarrow> bool) \<Rightarrow> 'g petgraph \<Rightarrow> bool" where
  "petgraph_searches_ok valid pg \<longleftrightarrow>
     (\<forall>g. valid g \<longrightarrow>
        pg_edges pg g \<subseteq> dom (pg_nodes pg g) \<times> dom (pg_nodes pg g)
        \<and> (\<forall>i. distinct (pg_neighbors_directed pg Outgoing i g) \<and> distinct (pg_neighbors_directed pg Incoming i g)
             \<and> set (pg_neighbors_directed pg Outgoing i g) = {b. (i, b) \<in> pg_edges pg g}
             \<and> set (pg_neighbors_directed pg Incoming i g) = {a. (a, i) \<in> pg_edges pg g})
        \<and> (\<forall>i \<in> dom (pg_nodes pg g).
             distinct (pg_bfs_reversed pg i g) \<and> set (pg_bfs_reversed pg i g) = {j. (j, i) \<in> (pg_edges pg g)\<^sup>*})
        \<and> (\<forall>roots. set roots \<subseteq> dom (pg_nodes pg g) \<longrightarrow>
             distinct (pg_dfs_finished pg roots g)
             \<and> set (pg_dfs_finished pg roots g) = (pg_edges pg g)\<^sup>* `` set roots
             \<and> (acyclic (pg_edges pg g) \<longrightarrow>
                  (\<forall>ys u zs v. pg_dfs_finished pg roots g = ys @ u # zs \<longrightarrow> (u, v) \<in> pg_edges pg g \<longrightarrow> v \<in> set ys))))"

definition petgraph_ok :: "('g \<Rightarrow> bool) \<Rightarrow> 'g petgraph \<Rightarrow> bool" where
  "petgraph_ok valid pg \<longleftrightarrow> petgraph_updates_ok valid pg \<and> petgraph_searches_ok valid pg"

section \<open>The state of the service\<close>

record 'g graph_state =
  gs_datasets_graph :: 'g
  gs_dataset_node_indices :: "dataset_id \<rightharpoonup> nat"
  gs_initially_scanned :: bool

definition default_graph_state :: "'g petgraph \<Rightarrow> 'g graph_state" where
  "default_graph_state pg =
     \<lparr>gs_datasets_graph = pg_empty pg, gs_dataset_node_indices = Map.empty, gs_initially_scanned = False\<rparr>"

datatype get_dependencies_error = DependenciesInternal string | DatasetNodeNotFound dataset_id

definition get_dataset_node :: "'g graph_state \<Rightarrow> dataset_id \<Rightarrow> dataset_id + nat" where
  "get_dataset_node st d =
     (case gs_dataset_node_indices st d of Some index \<Rightarrow> Inr index | None \<Rightarrow> Inl d)"

definition get_or_create_dataset_node :: "'g petgraph \<Rightarrow> dataset_id \<Rightarrow> 'g graph_state \<Rightarrow> nat \<times> 'g graph_state" where
  "get_or_create_dataset_node pg d st =
     (case gs_dataset_node_indices st d of
        Some index \<Rightarrow> (index, st)
      | None \<Rightarrow>
          let (node_index, g) = pg_add_node pg d (gs_datasets_graph st)
          in (node_index, st\<lparr>gs_datasets_graph := g,
                gs_dataset_node_indices := (gs_dataset_node_indices st)(d \<mapsto> node_index)\<rparr>))"

definition add_dependency :: "'g petgraph \<Rightarrow> dataset_id \<Rightarrow> dataset_id \<Rightarrow> 'g graph_state \<Rightarrow> 'g graph_state" where
  "add_dependency pg upstream downstream st =
     (let (u, st1) = get_or_create_dataset_node pg upstream st;
          (d, st2) = get_or_create_dataset_node pg downstream st1
      in st2\<lparr>gs_datasets_graph := pg_update_edge pg u d (gs_datasets_graph st2)\<rparr>)"

definition remove_dependency :: "'g petgraph \<Rightarrow> dataset_id \<Rightarrow> dataset_id \<Rightarrow> 'g graph_state \<Rightarrow> 'g graph_state" where
  "remove_dependency pg upstream downstream st =
     (let (u, st1) = get_or_create_dataset_node pg upstream st;
          (d, st2) = get_or_create_dataset_node pg downstream st1
      in (case pg_find_edge pg u d (gs_datasets_graph st2) of
            Some e \<Rightarrow> st2\<lparr>gs_datasets_graph := pg_remove_edge pg e (gs_datasets_graph st2)\<rparr>
          | None \<Rightarrow> st2))"

section \<open>The initial scan\<close>

record dataset_dependencies =
  dd_downstream_dataset_id :: dataset_id
  dd_upstream_dataset_ids :: "dataset_id list"

definition scan_dataset :: "'g petgraph \<Rightarrow> dataset_dependencies \<Rightarrow> 'g graph_state \<Rightarrow> 'g graph_state" where
  "scan_dataset pg dd st =
     (if dd_upstream_dataset_ids dd \<noteq> []
      then fold (\<lambda>u. add_dependency pg u (dd_downstream_dataset_id dd)) (dd_upstream_dataset_ids dd) st
      else snd (get_or_create_dataset_node pg (dd_downstream_dataset_id dd) st))"

text \<open>The loop ends with the stream, and also at the first error of the stream.\<close>

fun scan_stream :: "'g petgraph \<Rightarrow> (string + dataset_dependencies) list \<Rightarrow> 'g graph_state \<Rightarrow> 'g graph_state" where
  "scan_stream pg (Inr dd # stream) st = scan_stream pg stream (scan_dataset pg dd st)"
| "scan_stream pg (Inl e # stream) st = st"
| "scan_stream pg [] st = st"

definition ensure_datasets_initially_scanned_with ::
  "'g petgraph \<Rightarrow> (string + dataset_dependencies) list \<Rightarrow> 'g graph_state \<Rightarrow> (string, unit) res \<times> 'g graph_state" where
  "ensure_datasets_initially_scanned_with pg stream st =
     (Inr (), (scan_stream pg stream st)\<lparr>gs_initially_scanned := True\<rparr>)"

definition ensure_datasets_initially_scanned ::
  "'g petgraph \<Rightarrow> (string + dataset_dependencies) list option \<Rightarrow> 'g graph_state \<Rightarrow> (string, unit) res \<times> 'g graph_state" where
  "ensure_datasets_initially_scanned pg repository st =
     (if gs_initially_scanned st then (Inr (), st)
      else case repository of
             None \<Rightarrow> (Inl (Panic ''Dependencies graph repository not present''), st)
           | Some stream \<Rightarrow> ensure_datasets_initially_scanned_with pg stream st)"

definition eager_initialization ::
  "'g petgraph \<Rightarrow> (string + dataset_dependencies) list \<Rightarrow> 'g graph_state \<Rightarrow> (string, unit) res \<times> 'g graph_state" where
  "eager_initialization pg stream st =
     (if gs_initially_scanned st then (Inr (), st) else ensure_datasets_initially_scanned_with pg stream st)"

section \<open>The repository of dependencies\<close>

text \<open>
  The dependencies of every dataset, from its summary, which is brought up to date on the way.
  The stream of handles is given; an error in it ends the listing, an error of a summary is
  handed on and ends it.
\<close>

fun list_dependencies_of_all_datasets ::
  "externs \<Rightarrow> codec \<Rightarrow> dataset_externs \<Rightarrow> (dataset_id \<Rightarrow> dataset) \<Rightarrow> (string + dataset_handle) list \<Rightarrow>
   ((string + dataset_dependencies) list \<times> (dataset_id \<Rightarrow> dataset)) option" where
  "list_dependencies_of_all_datasets x cd dx datasets (Inr hdl # handles) =
     Option.bind (get_summary x cd dx (datasets (handle_id hdl)) default_get_summary_opts) (\<lambda>(r, d).
       let datasets' = datasets(handle_id hdl := d)
       in (case r of
             Inl _ \<Rightarrow> Some ([Inl ''summary''], datasets')
           | Inr summary \<Rightarrow>
               map_option
                 (\<lambda>(items, ds). (Inr \<lparr>dd_downstream_dataset_id = handle_id hdl,
                     dd_upstream_dataset_ids = sm_dependencies summary\<rparr> # items, ds))
                 (list_dependencies_of_all_datasets x cd dx datasets' handles)))"
| "list_dependencies_of_all_datasets x cd dx datasets (Inl e # handles) = Some ([], datasets)"
| "list_dependencies_of_all_datasets x cd dx datasets [] = Some ([], datasets)"

section \<open>Queries\<close>

fun get_nodes_from_dataset_ids :: "'g graph_state \<Rightarrow> dataset_id list \<Rightarrow> (get_dependencies_error, nat list) res" where
  "get_nodes_from_dataset_ids st [] = Inr []"
| "get_nodes_from_dataset_ids st (d # ds) =
     and_then (map_err (\<lambda>i. Fail (DatasetNodeNotFound i)) (get_dataset_node st d)) (\<lambda>n.
     and_then (get_nodes_from_dataset_ids st ds) (\<lambda>ns. Inr (n # ns)))"

definition node_weight_unwrap :: "'g petgraph \<Rightarrow> 'g \<Rightarrow> nat \<Rightarrow> (get_dependencies_error, dataset_id) res" where
  "node_weight_unwrap pg g i = unwrap (pg_node_weight pg i g)"

fun collect_weights :: "'g petgraph \<Rightarrow> 'g \<Rightarrow> nat list \<Rightarrow> (get_dependencies_error, dataset_id list) res" where
  "collect_weights pg g [] = Inr []"
| "collect_weights pg g (i # is) =
     and_then (node_weight_unwrap pg g i) (\<lambda>d. and_then (collect_weights pg g is) (\<lambda>ds. Inr (d # ds)))"

fun reversed_search ::
  "'g petgraph \<Rightarrow> 'g \<Rightarrow> nat list \<Rightarrow> nat set \<Rightarrow> dataset_id list \<Rightarrow> (get_dependencies_error, dataset_id list) res" where
  "reversed_search pg g [] visited result = Inr result"
| "reversed_search pg g (n # ns) visited result =
     (let new = filter (\<lambda>i. i \<notin> visited) (pg_bfs_reversed pg n g)
      in and_then (collect_weights pg g new) (\<lambda>ds.
           reversed_search pg g ns (visited \<union> set new) (result @ rev ds)))"

definition run_recursive_reversed_breadth_first_search ::
  "'g petgraph \<Rightarrow> dataset_id list \<Rightarrow> 'g graph_state \<Rightarrow> (get_dependencies_error, dataset_id list) res" where
  "run_recursive_reversed_breadth_first_search pg ids st =
     and_then (get_nodes_from_dataset_ids st ids) (\<lambda>nodes.
       reversed_search pg (gs_datasets_graph st) nodes {} [])"

definition run_recursive_depth_first_search ::
  "'g petgraph \<Rightarrow> dataset_id list \<Rightarrow> 'g graph_state \<Rightarrow> (get_dependencies_error, dataset_id list) res" where
  "run_recursive_depth_first_search pg ids st =
     and_then (get_nodes_from_dataset_ids st ids) (\<lambda>nodes.
       collect_weights pg (gs_datasets_graph st) (pg_dfs_finished pg nodes (gs_datasets_graph st)))"

text \<open>The queries scan first; the recursive ones unwrap the result of the scan.\<close>

definition with_scan ::
  "'g petgraph \<Rightarrow> (string + dataset_dependencies) list option \<Rightarrow> (string fault \<Rightarrow> get_dependencies_error fault) \<Rightarrow>
   ('g graph_state \<Rightarrow> (get_dependencies_error, 'a) res) \<Rightarrow> 'g graph_state \<Rightarrow>
   (get_dependencies_error, 'a) res \<times> 'g graph_state" where
  "with_scan pg repository on_error query st =
     (case ensure_datasets_initially_scanned pg repository st of
        (Inl f, st') \<Rightarrow> (Inl (on_error f), st')
      | (Inr _, st') \<Rightarrow> (query st', st'))"

fun scan_unwrap :: "string fault \<Rightarrow> get_dependencies_error fault" where
  "scan_unwrap (Panic m) = Panic m"
| "scan_unwrap (Fail e) = Panic ''called Result::unwrap() on an Err value''"

definition get_recursive_upstream_dependencies ::
  "'g petgraph \<Rightarrow> (string + dataset_dependencies) list option \<Rightarrow> dataset_id list \<Rightarrow> 'g graph_state \<Rightarrow>
   (get_dependencies_error, dataset_id list) res \<times> 'g graph_state" where
  "get_recursive_upstream_dependencies pg repository ids =
     with_scan pg repository scan_unwrap (run_recursive_reversed_breadth_first_search pg ids)"

definition get_recursive_downstream_dependencies ::
  "'g petgraph \<Rightarrow> (string + dataset_dependencies) list option \<Rightarrow> dataset_id list \<Rightarrow> 'g graph_state \<Rightarrow>
   (get_dependencies_error, dataset_id list) res \<times> 'g graph_state" where
  "get_recursive_downstream_dependencies pg repository ids =
     with_scan pg repository scan_unwrap (run_recursive_depth_first_search pg ids)"

definition neighbor_datasets ::
  "'g petgraph \<Rightarrow> direction \<Rightarrow> dataset_id \<Rightarrow> 'g graph_state \<Rightarrow> (get_dependencies_error, dataset_id list) res" where
  "neighbor_datasets pg dir d st =
     and_then (map_err (\<lambda>i. Fail (DatasetNodeNotFound i)) (get_dataset_node st d)) (\<lambda>n.
       collect_weights pg (gs_datasets_graph st) (pg_neighbors_directed pg dir n (gs_datasets_graph st)))"

definition get_downstream_dependencies ::
  "'g petgraph \<Rightarrow> (string + dataset_dependencies) list option \<Rightarrow> dataset_id \<Rightarrow> 'g graph_state \<Rightarrow>
   (get_dependencies_error, dataset_id list) res \<times> 'g graph_state" where
  "get_downstream_dependencies pg repository d = with_scan pg repository (map_fault DependenciesInternal) (neighbor_datasets pg Outgoing d)"

definition get_upstream_dependencies ::
  "'g petgraph \<Rightarrow> (string + dataset_dependencies) list option \<Rightarrow> dataset_id \<Rightarrow> 'g graph_state \<Rightarrow>
   (get_dependencies_error, dataset_id list) res \<times> 'g graph_state" where
  "get_upstream_dependencies pg repository d = with_scan pg repository (map_fault DependenciesInternal) (neighbor_datasets pg Incoming d)"

section \<open>Messages\<close>

definition update_dependencies :: "'g petgraph \<Rightarrow> dataset_id \<Rightarrow> dataset_id list \<Rightarrow> dataset_id list \<Rightarrow> 'g graph_state \<Rightarrow> 'g graph_state" where
  "update_dependencies pg d existing new =
     fold (\<lambda>u. add_dependency pg u d) (filter (\<lambda>u. u \<notin> set existing) (remdups new))
     \<circ> fold (\<lambda>u. remove_dependency pg u d) (filter (\<lambda>u. u \<notin> set new) (remdups existing))"

fun consume_lifecycle_message ::
  "'g petgraph \<Rightarrow> dataset_lifecycle_message \<Rightarrow> 'g graph_state \<Rightarrow> (string, unit) res \<times> 'g graph_state" where
  "consume_lifecycle_message pg (LifecycleCreated d owner visibility) st =
     (Inr (), snd (get_or_create_dataset_node pg d st))"
| "consume_lifecycle_message pg (LifecycleDeleted d) st =
     (case get_dataset_node st d of
        Inl _ \<Rightarrow> (Inl (Fail ''dataset not found''), st)
      | Inr node_index \<Rightarrow>
          (Inr (), st\<lparr>gs_datasets_graph := pg_remove_node pg node_index (gs_datasets_graph st),
                     gs_dataset_node_indices := (gs_dataset_node_indices st)(d := None)\<rparr>))"
| "consume_lifecycle_message pg (LifecycleDependenciesUpdated d new_ids) st =
     (case get_dataset_node st d of
        Inl _ \<Rightarrow> (Inl (Fail ''dataset not found''), st)
      | Inr node_index \<Rightarrow>
          (case collect_weights pg (gs_datasets_graph st)
                  (pg_neighbors_directed pg Incoming node_index (gs_datasets_graph st)) of
             Inl f \<Rightarrow> (Inl (map_fault (\<lambda>_. ''weight'') f), st)
           | Inr existing \<Rightarrow> (Inr (), update_dependencies pg d existing new_ids st)))"

end
