(* ===== verification/Dependency_Properties.thy ===== *)
theory Dependency_Properties
  imports Dependency_Graph
begin

text \<open>
  The graph as a relation between datasets. The index of nodes and the graph stay each other's
  inverse, so that a state stands for a set of datasets and a relation on them; every operation
  of the service is shown to act on these, and the queries to read them.
\<close>

section \<open>Invariant and abstraction\<close>

definition graph_inv :: "('g \<Rightarrow> bool) \<Rightarrow> 'g petgraph \<Rightarrow> 'g graph_state \<Rightarrow> bool" where
  "graph_inv valid pg st \<longleftrightarrow>
     valid (gs_datasets_graph st)
     \<and> (\<forall>d i. gs_dataset_node_indices st d = Some i \<longleftrightarrow> pg_nodes pg (gs_datasets_graph st) i = Some d)"

definition known :: "'g graph_state \<Rightarrow> dataset_id set" where
  "known st = dom (gs_dataset_node_indices st)"

text \<open>\<open>(u, d)\<close> when \<open>d\<close> is derived from \<open>u\<close>.\<close>

definition derived :: "'g petgraph \<Rightarrow> 'g graph_state \<Rightarrow> (dataset_id \<times> dataset_id) set" where
  "derived pg st =
     {(u, d). \<exists>a b. gs_dataset_node_indices st u = Some a \<and> gs_dataset_node_indices st d = Some b
        \<and> (a, b) \<in> pg_edges pg (gs_datasets_graph st)}"

definition graph_abs :: "'g petgraph \<Rightarrow> 'g graph_state \<Rightarrow> dataset_id set \<times> (dataset_id \<times> dataset_id) set" where
  "graph_abs pg st = (known st, derived pg st)"

lemma index_inj:
  "graph_inv valid pg st \<Longrightarrow> gs_dataset_node_indices st u = Some i \<Longrightarrow> gs_dataset_node_indices st v = Some i \<Longrightarrow> u = v"
  by (auto simp: graph_inv_def)

lemma edges_between_nodes:
  assumes "petgraph_ok valid pg" and "graph_inv valid pg st" and "(a, b) \<in> pg_edges pg (gs_datasets_graph st)"
  shows "\<exists>u v. gs_dataset_node_indices st u = Some a \<and> gs_dataset_node_indices st v = Some b"
proof -
  let ?N = "dom (pg_nodes pg (gs_datasets_graph st))"
  have "valid (gs_datasets_graph st)" using assms(2) by (simp add: graph_inv_def)
  then have "pg_edges pg (gs_datasets_graph st) \<subseteq> ?N \<times> ?N"
    using assms(1) unfolding petgraph_ok_def petgraph_searches_ok_def by blast
  with assms(3) have "a \<in> ?N" "b \<in> ?N" by auto
  with assms(2) show ?thesis unfolding graph_inv_def by blast
qed

lemma derived_known: "(u, v) \<in> derived pg st \<Longrightarrow> u \<in> known st \<and> v \<in> known st"
  by (auto simp: derived_def known_def)

section \<open>Changes\<close>

lemma default_graph_inv:
  "petgraph_ok valid pg \<Longrightarrow> graph_inv valid pg (default_graph_state pg) \<and> graph_abs pg (default_graph_state pg) = ({}, {})"
  by (auto simp: petgraph_ok_def petgraph_updates_ok_def graph_inv_def default_graph_state_def graph_abs_def
      known_def derived_def)

lemma add_node_law:
  assumes "petgraph_ok valid pg" and "valid g" and "pg_add_node pg w g = (i, g')"
  shows "valid g' \<and> pg_nodes pg g i = None \<and> pg_nodes pg g' = (pg_nodes pg g)(i \<mapsto> w) \<and> pg_edges pg g' = pg_edges pg g"
proof -
  from assms(1) have "\<forall>g w i g'. valid g \<longrightarrow> pg_add_node pg w g = (i, g') \<longrightarrow>
      valid g' \<and> pg_nodes pg g i = None \<and> pg_nodes pg g' = (pg_nodes pg g)(i \<mapsto> w) \<and> pg_edges pg g' = pg_edges pg g"
    unfolding petgraph_ok_def petgraph_updates_ok_def by (elim conjE)
  then show ?thesis using assms(2,3) by blast
qed

lemma create_node:
  assumes ok: "petgraph_ok valid pg" and inv: "graph_inv valid pg st"
    and new: "get_or_create_dataset_node pg d st = (i, st')"
  shows "graph_inv valid pg st' \<and> gs_dataset_node_indices st' d = Some i
    \<and> (\<forall>e j. gs_dataset_node_indices st e = Some j \<longrightarrow> gs_dataset_node_indices st' e = Some j)
    \<and> known st' = insert d (known st) \<and> derived pg st' = derived pg st"
proof (cases "gs_dataset_node_indices st d")
  case (Some j)
  with new inv show ?thesis by (auto simp: get_or_create_dataset_node_def known_def)
next
  case None
  obtain j g where add: "pg_add_node pg d (gs_datasets_graph st) = (j, g)"
    by (cases "pg_add_node pg d (gs_datasets_graph st)")
  have "valid (gs_datasets_graph st)" using inv by (simp add: graph_inv_def)
  from add_node_law [OF ok this add] have g: "valid g" "pg_nodes pg (gs_datasets_graph st) j = None"
    "pg_nodes pg g = (pg_nodes pg (gs_datasets_graph st))(j \<mapsto> d)" "pg_edges pg g = pg_edges pg (gs_datasets_graph st)"
    by blast+
  have st': "st' = st\<lparr>gs_datasets_graph := g, gs_dataset_node_indices := (gs_dataset_node_indices st)(d \<mapsto> j)\<rparr>" "i = j"
    using new None add by (auto simp: get_or_create_dataset_node_def)
  have fresh: "gs_dataset_node_indices st e \<noteq> Some j" for e using inv g(2) by (auto simp: graph_inv_def)
  have "pg_nodes pg (gs_datasets_graph st) k \<noteq> Some d" for k
    using inv None unfolding graph_inv_def by (metis option.distinct(1))
  then have "graph_inv valid pg st'" using inv g(1,3) None fresh by (auto simp: graph_inv_def st')
  moreover have "derived pg st' = derived pg st"
  proof -
    have new: "(j, b) \<notin> pg_edges pg (gs_datasets_graph st)" "(a, j) \<notin> pg_edges pg (gs_datasets_graph st)" for a b
      using edges_between_nodes [OF ok inv] fresh by blast+
    show ?thesis using None new by (auto simp: derived_def st' g(4))
  qed
  ultimately show ?thesis using st' None by (auto simp: known_def)
qed

lemma add_dependency_abs:
  assumes ok: "petgraph_ok valid pg" and inv: "graph_inv valid pg st"
  shows "graph_inv valid pg (add_dependency pg u d st) \<and> known (add_dependency pg u d st) = insert u (insert d (known st))
    \<and> derived pg (add_dependency pg u d st) = insert (u, d) (derived pg st)"
proof -
  obtain a st1 where 1: "get_or_create_dataset_node pg u st = (a, st1)" by fastforce
  obtain b st2 where 2: "get_or_create_dataset_node pg d st1 = (b, st2)" by fastforce
  note c1 = create_node [OF ok inv 1]
  note c2 = create_node [OF ok _ 2]
  have inv2: "graph_inv valid pg st2" and ab: "gs_dataset_node_indices st2 u = Some a" "gs_dataset_node_indices st2 d = Some b"
    and known2: "known st2 = insert u (insert d (known st))" and derived2: "derived pg st2 = derived pg st"
    using c1 c2 by auto
  let ?g = "gs_datasets_graph st2"
  have "valid ?g" "a \<in> dom (pg_nodes pg ?g)" "b \<in> dom (pg_nodes pg ?g)" using inv2 ab by (auto simp: graph_inv_def)
  with ok have g: "valid (pg_update_edge pg a b ?g)" "pg_nodes pg (pg_update_edge pg a b ?g) = pg_nodes pg ?g"
    "pg_edges pg (pg_update_edge pg a b ?g) = insert (a, b) (pg_edges pg ?g)"
    unfolding petgraph_ok_def petgraph_updates_ok_def by blast+
  have st': "add_dependency pg u d st = st2\<lparr>gs_datasets_graph := pg_update_edge pg a b ?g\<rparr>"
    by (simp add: add_dependency_def 1 2)
  have "derived pg (add_dependency pg u d st) = insert (u, d) (derived pg st2)"
    using ab g(3) index_inj [OF inv2] by (auto simp: derived_def st')
  then show ?thesis using inv2 g known2 derived2 by (simp add: graph_inv_def known_def st')
qed

lemma remove_dependency_abs:
  assumes ok: "petgraph_ok valid pg" and inv: "graph_inv valid pg st"
  shows "graph_inv valid pg (remove_dependency pg u d st) \<and> known (remove_dependency pg u d st) = insert u (insert d (known st))
    \<and> derived pg (remove_dependency pg u d st) = derived pg st - {(u, d)}"
proof -
  obtain a st1 where 1: "get_or_create_dataset_node pg u st = (a, st1)" by fastforce
  obtain b st2 where 2: "get_or_create_dataset_node pg d st1 = (b, st2)" by fastforce
  note c1 = create_node [OF ok inv 1]
  note c2 = create_node [OF ok _ 2]
  have inv2: "graph_inv valid pg st2" and ab: "gs_dataset_node_indices st2 u = Some a" "gs_dataset_node_indices st2 d = Some b"
    and known2: "known st2 = insert u (insert d (known st))" and derived2: "derived pg st2 = derived pg st"
    using c1 c2 by auto
  let ?g = "gs_datasets_graph st2"
  show ?thesis
  proof (cases "pg_find_edge pg a b ?g")
    case None
    then have "(u, d) \<notin> derived pg st2" using ab by (auto simp: derived_def pg_edges_def)
    with None inv2 known2 derived2 show ?thesis by (simp add: remove_dependency_def 1 2)
  next
    case (Some e)
    have "valid ?g" using inv2 by (simp add: graph_inv_def)
    with ok Some have g: "valid (pg_remove_edge pg e ?g)" "pg_nodes pg (pg_remove_edge pg e ?g) = pg_nodes pg ?g"
      "pg_edges pg (pg_remove_edge pg e ?g) = pg_edges pg ?g - {(a, b)}"
      unfolding petgraph_ok_def petgraph_updates_ok_def by blast+
    have st': "remove_dependency pg u d st = st2\<lparr>gs_datasets_graph := pg_remove_edge pg e ?g\<rparr>"
      by (simp add: remove_dependency_def 1 2 Some)
    have "derived pg (remove_dependency pg u d st) = derived pg st2 - {(u, d)}"
      using ab g(3) index_inj [OF inv2] by (auto simp: derived_def st')
    then show ?thesis using inv2 g known2 derived2 by (simp add: graph_inv_def known_def st')
  qed
qed

lemma fold_add_abs:
  assumes ok: "petgraph_ok valid pg"
  shows "graph_inv valid pg st \<Longrightarrow> graph_inv valid pg (fold (\<lambda>u. add_dependency pg u d) us st)
    \<and> known (fold (\<lambda>u. add_dependency pg u d) us st) = known st \<union> set us \<union> (if us = [] then {} else {d})
    \<and> derived pg (fold (\<lambda>u. add_dependency pg u d) us st) = derived pg st \<union> set us \<times> {d}"
proof (induction us arbitrary: st)
  case (Cons u us)
  with add_dependency_abs [OF ok Cons.prems, of u d] show ?case by auto
qed simp

lemma fold_remove_abs:
  assumes ok: "petgraph_ok valid pg"
  shows "graph_inv valid pg st \<Longrightarrow> graph_inv valid pg (fold (\<lambda>u. remove_dependency pg u d) us st)
    \<and> known (fold (\<lambda>u. remove_dependency pg u d) us st) = known st \<union> set us \<union> (if us = [] then {} else {d})
    \<and> derived pg (fold (\<lambda>u. remove_dependency pg u d) us st) = derived pg st - set us \<times> {d}"
proof (induction us arbitrary: st)
  case (Cons u us)
  with remove_dependency_abs [OF ok Cons.prems, of u d] show ?case by auto
qed simp

lemma update_dependencies_abs:
  assumes ok: "petgraph_ok valid pg" and inv: "graph_inv valid pg st" and "d \<in> known st"
    and existing: "set existing = {u. (u, d) \<in> derived pg st}"
  shows "graph_inv valid pg (update_dependencies pg d existing new st)
    \<and> known (update_dependencies pg d existing new st) = known st \<union> set new
    \<and> derived pg (update_dependencies pg d existing new st) = {(u, v) \<in> derived pg st. v \<noteq> d} \<union> set new \<times> {d}"
proof -
  let ?rem = "filter (\<lambda>u. u \<notin> set new) (remdups existing)" and ?add = "filter (\<lambda>u. u \<notin> set existing) (remdups new)"
  let ?st = "fold (\<lambda>u. remove_dependency pg u d) ?rem st"
  have "set ?rem \<subseteq> known st" using existing derived_known [of _ d pg st] by auto
  with fold_remove_abs [OF ok inv, of d ?rem] assms(3)
  have rem: "graph_inv valid pg ?st" "known ?st = known st" "derived pg ?st = derived pg st - set ?rem \<times> {d}"
    by (simp_all split: if_splits) blast+
  have "set existing \<subseteq> known st" using existing derived_known [of _ d pg st] by auto
  then have "known st \<union> set ?add \<union> (if ?add = [] then {} else {d}) = known st \<union> set new" using assms(3) by auto
  moreover have "(derived pg st - set ?rem \<times> {d}) \<union> set ?add \<times> {d} = {(u, v) \<in> derived pg st. v \<noteq> d} \<union> set new \<times> {d}"
    using existing by auto
  ultimately show ?thesis using fold_add_abs [OF ok rem(1), of d ?add] rem by (simp add: update_dependencies_def)
qed

section \<open>Reading nodes\<close>

lemma collect_weights_nodes:
  "set is \<subseteq> dom (pg_nodes pg g) \<Longrightarrow> collect_weights pg g is = Inr (map (\<lambda>i. the (pg_nodes pg g i)) is)"
  by (induction "is") (auto simp: node_weight_unwrap_def pg_nodes_def)

definition weights :: "'g petgraph \<Rightarrow> 'g graph_state \<Rightarrow> nat set \<Rightarrow> dataset_id set" where
  "weights pg st is = {d. \<exists>i \<in> is. gs_dataset_node_indices st d = Some i}"

lemma weights_image:
  assumes "graph_inv valid pg st" and "is \<subseteq> dom (pg_nodes pg (gs_datasets_graph st))"
  shows "(\<lambda>i. the (pg_nodes pg (gs_datasets_graph st) i)) ` is = weights pg st is"
  using assms unfolding graph_inv_def weights_def by force

lemma weights_inj:
  assumes "graph_inv valid pg st"
  shows "inj_on (\<lambda>i. the (pg_nodes pg (gs_datasets_graph st) i)) (dom (pg_nodes pg (gs_datasets_graph st)))"
proof (rule inj_onI)
  fix i j
  assume "i \<in> dom (pg_nodes pg (gs_datasets_graph st))" "j \<in> dom (pg_nodes pg (gs_datasets_graph st))"
    "the (pg_nodes pg (gs_datasets_graph st) i) = the (pg_nodes pg (gs_datasets_graph st) j)"
  then obtain d where "pg_nodes pg (gs_datasets_graph st) i = Some d" "pg_nodes pg (gs_datasets_graph st) j = Some d"
    by auto
  with assms show "i = j" unfolding graph_inv_def by (metis option.inject)
qed

lemma collect_distinct:
  assumes "graph_inv valid pg st" and "set is \<subseteq> dom (pg_nodes pg (gs_datasets_graph st))" and "distinct is"
  shows "\<exists>ds. collect_weights pg (gs_datasets_graph st) is = Inr ds \<and> distinct ds \<and> set ds = weights pg st (set is)"
proof -
  have "inj_on (\<lambda>i. the (pg_nodes pg (gs_datasets_graph st) i)) (set is)"
    using weights_inj [OF assms(1)] assms(2) by (rule inj_on_subset)
  with assms(3) show ?thesis
    using collect_weights_nodes [OF assms(2)] weights_image [OF assms(1,2)] by (simp add: distinct_map)
qed

lemma get_nodes_ok:
  "set ds \<subseteq> known st \<Longrightarrow> get_nodes_from_dataset_ids st ds = Inr (map (\<lambda>d. the (gs_dataset_node_indices st d)) ds)"
  by (induction ds) (auto simp: known_def get_dataset_node_def)

lemma get_nodes_missing:
  "\<not> set ds \<subseteq> known st \<Longrightarrow> \<exists>d \<in> set ds - known st. get_nodes_from_dataset_ids st ds = Inl (Fail (DatasetNodeNotFound d))"
proof (induction ds)
  case (Cons d ds)
  show ?case
  proof (cases "gs_dataset_node_indices st d")
    case None
    then show ?thesis by (auto simp: get_dataset_node_def known_def)
  next
    case (Some i)
    then have "d \<in> known st" by (auto simp: known_def)
    with Cons.prems have "\<not> set ds \<subseteq> known st" by simp
    with Cons.IH Some show ?thesis by (auto simp: get_dataset_node_def)
  qed
qed simp

section \<open>Reachability\<close>

lemma index_node:
  "graph_inv valid pg st \<Longrightarrow> gs_dataset_node_indices st d = Some i \<Longrightarrow> i \<in> dom (pg_nodes pg (gs_datasets_graph st))"
  by (auto simp: graph_inv_def)

lemma derived_iff:
  assumes "graph_inv valid pg st" and "gs_dataset_node_indices st u = Some a" "gs_dataset_node_indices st v = Some b"
  shows "(u, v) \<in> derived pg st \<longleftrightarrow> (a, b) \<in> pg_edges pg (gs_datasets_graph st)"
  using assms by (auto simp: derived_def)

lemma edges_path:
  assumes ok: "petgraph_ok valid pg" and inv: "graph_inv valid pg st" and a: "gs_dataset_node_indices st u = Some a"
  shows "(a, b) \<in> (pg_edges pg (gs_datasets_graph st))\<^sup>* \<longleftrightarrow>
    (\<exists>v. gs_dataset_node_indices st v = Some b \<and> (u, v) \<in> (derived pg st)\<^sup>*)"
proof
  assume "(a, b) \<in> (pg_edges pg (gs_datasets_graph st))\<^sup>*"
  then show "\<exists>v. gs_dataset_node_indices st v = Some b \<and> (u, v) \<in> (derived pg st)\<^sup>*"
  proof (induction rule: rtrancl_induct)
    case (step b c)
    from edges_between_nodes [OF ok inv step(2)] obtain w where w: "gs_dataset_node_indices st w = Some c" by blast
    with step derived_iff [OF inv] show ?case by (meson rtrancl.rtrancl_into_rtrancl)
  qed (use a in blast)
next
  assume "\<exists>v. gs_dataset_node_indices st v = Some b \<and> (u, v) \<in> (derived pg st)\<^sup>*"
  then obtain v where "gs_dataset_node_indices st v = Some b" "(u, v) \<in> (derived pg st)\<^sup>*" by blast
  from this(2,1) show "(a, b) \<in> (pg_edges pg (gs_datasets_graph st))\<^sup>*"
  proof (induction arbitrary: b rule: rtrancl_induct)
    case (step v w)
    from derived_known [OF step(2)] obtain c where "gs_dataset_node_indices st v = Some c" by (auto simp: known_def)
    with step derived_iff [OF inv] show ?case by (meson rtrancl.rtrancl_into_rtrancl)
  qed (use a in simp)
qed

lemma derived_acyclic:
  assumes ok: "petgraph_ok valid pg" and inv: "graph_inv valid pg st" and "acyclic (derived pg st)"
  shows "acyclic (pg_edges pg (gs_datasets_graph st))"
proof (rule acyclicI, rule allI, rule notI)
  fix a assume "(a, a) \<in> (pg_edges pg (gs_datasets_graph st))\<^sup>+"
  then obtain b where b: "(a, b) \<in> pg_edges pg (gs_datasets_graph st)" "(b, a) \<in> (pg_edges pg (gs_datasets_graph st))\<^sup>*"
    by (meson tranclD)
  from edges_between_nodes [OF ok inv b(1)] obtain u v
    where uv: "gs_dataset_node_indices st u = Some a" "gs_dataset_node_indices st v = Some b" by blast
  with b edges_path [OF ok inv uv(2)] index_inj [OF inv] have "(v, u) \<in> (derived pg st)\<^sup>*" by blast
  moreover have "(u, v) \<in> derived pg st" using derived_iff [OF inv uv] b(1) by simp
  ultimately have "(u, u) \<in> (derived pg st)\<^sup>+" by (meson rtrancl_into_trancl2)
  with assms(3) show False by (simp add: acyclic_def)
qed

end
