(* ===== verification/Dependency_Refinement.thy ===== *)
theory Dependency_Refinement
  imports Dependency_Properties "HOL-Library.Countable"
begin

text \<open>
  The abstract dependency graph, a set of datasets and a relation, and the requests that change it;
  the service refines it. The recursive searches return the closure of the relation. A graph over
  lists shows that the assumptions on the graph crate can hold.
\<close>

section \<open>The abstract graph\<close>

type_synonym abs_graph = "dataset_id set \<times> (dataset_id \<times> dataset_id) set"

definition spec_scan :: "dataset_dependencies \<Rightarrow> abs_graph \<Rightarrow> abs_graph" where
  "spec_scan dd = (\<lambda>(N, R).
     (insert (dd_downstream_dataset_id dd) (N \<union> set (dd_upstream_dataset_ids dd)),
      R \<union> set (dd_upstream_dataset_ids dd) \<times> {dd_downstream_dataset_id dd}))"

fun spec_message :: "dataset_lifecycle_message \<Rightarrow> abs_graph \<Rightarrow> abs_graph" where
  "spec_message (LifecycleCreated d _ _) (N, R) = (insert d N, R)"
| "spec_message (LifecycleDeleted d) (N, R) = (N - {d}, {(u, v) \<in> R. u \<noteq> d \<and> v \<noteq> d})"
| "spec_message (LifecycleDependenciesUpdated d new) (N, R) =
     (if d \<in> N then (N \<union> set new, {(u, v) \<in> R. v \<noteq> d} \<union> set new \<times> {d}) else (N, R))"

text \<open>The items of a stream before its first error.\<close>

definition good_items :: "(string + dataset_dependencies) list \<Rightarrow> dataset_dependencies list" where
  "good_items stream = map projr (takeWhile (\<lambda>i. \<not> isl i) stream)"

datatype graph_request =
    Initialize "(string + dataset_dependencies) list"
  | Consume dataset_lifecycle_message

fun serve_graph :: "'g petgraph \<Rightarrow> graph_request \<Rightarrow> 'g graph_state \<Rightarrow> 'g graph_state" where
  "serve_graph pg (Initialize stream) st = snd (eager_initialization pg stream st)"
| "serve_graph pg (Consume m) st = snd (consume_lifecycle_message pg m st)"

fun spec_request :: "graph_request \<Rightarrow> bool \<times> abs_graph \<Rightarrow> bool \<times> abs_graph" where
  "spec_request (Initialize stream) (scanned, G) =
     (True, if scanned then G else fold spec_scan (good_items stream) G)"
| "spec_request (Consume m) (scanned, G) = (scanned, spec_message m G)"

definition graph_after :: "'g petgraph \<Rightarrow> graph_request list \<Rightarrow> 'g graph_state" where
  "graph_after pg rs = fold (serve_graph pg) rs (default_graph_state pg)"

definition spec_after :: "graph_request list \<Rightarrow> bool \<times> abs_graph" where
  "spec_after rs = fold spec_request rs (False, {}, {})"

section \<open>Refinement\<close>

lemma scanned_simps [simp]:
  "gs_initially_scanned (snd (get_or_create_dataset_node pg d st)) = gs_initially_scanned st"
  by (auto simp: get_or_create_dataset_node_def Let_def split: option.split prod.split)

lemma scanned_dependency [simp]:
  "gs_initially_scanned (add_dependency pg u d st) = gs_initially_scanned st"
  "gs_initially_scanned (remove_dependency pg u d st) = gs_initially_scanned st"
proof -
  obtain a st1 b st2 where "get_or_create_dataset_node pg u st = (a, st1)" "get_or_create_dataset_node pg d st1 = (b, st2)"
    by fastforce
  with scanned_simps [of pg u st] scanned_simps [of pg d st1] show
    "gs_initially_scanned (add_dependency pg u d st) = gs_initially_scanned st"
    "gs_initially_scanned (remove_dependency pg u d st) = gs_initially_scanned st"
    by (simp_all add: add_dependency_def remove_dependency_def split: option.split)
qed

lemma scanned_folds [simp]:
  "gs_initially_scanned (fold (\<lambda>u. add_dependency pg u d) us st) = gs_initially_scanned st"
  "gs_initially_scanned (fold (\<lambda>u. remove_dependency pg u d) us st) = gs_initially_scanned st"
  by (induction us arbitrary: st) simp_all

lemma scan_dataset_abs:
  assumes "petgraph_ok valid pg" and "graph_inv valid pg st"
  shows "graph_inv valid pg (scan_dataset pg dd st) \<and> graph_abs pg (scan_dataset pg dd st) = spec_scan dd (graph_abs pg st)"
proof (cases "dd_upstream_dataset_ids dd = []")
  case True
  obtain i st' where "get_or_create_dataset_node pg (dd_downstream_dataset_id dd) st = (i, st')" by fastforce
  with create_node [OF assms this] True show ?thesis by (simp add: scan_dataset_def graph_abs_def spec_scan_def)
next
  case False
  with fold_add_abs [OF assms, of "dd_downstream_dataset_id dd" "dd_upstream_dataset_ids dd"] show ?thesis
    by (auto simp: scan_dataset_def graph_abs_def spec_scan_def)
qed

lemma scan_stream_abs:
  assumes "petgraph_ok valid pg"
  shows "graph_inv valid pg st \<Longrightarrow> graph_inv valid pg (scan_stream pg stream st)
    \<and> graph_abs pg (scan_stream pg stream st) = fold spec_scan (good_items stream) (graph_abs pg st)"
proof (induction stream arbitrary: st)
  case (Cons item stream)
  show ?case
  proof (cases item)
    case (Inr dd)
    with Cons.IH [of "scan_dataset pg dd st"] scan_dataset_abs [OF assms Cons.prems, of dd] show ?thesis
      by (simp add: good_items_def)
  qed (use Cons.prems in \<open>simp add: good_items_def\<close>)
qed (simp add: good_items_def)

lemma delete_abs:
  assumes ok: "petgraph_ok valid pg" and inv: "graph_inv valid pg st" and i: "gs_dataset_node_indices st d = Some i"
  defines "st' \<equiv> st\<lparr>gs_datasets_graph := pg_remove_node pg i (gs_datasets_graph st),
      gs_dataset_node_indices := (gs_dataset_node_indices st)(d := None)\<rparr>"
  shows "graph_inv valid pg st' \<and> known st' = known st - {d}
    \<and> derived pg st' = {(u, v) \<in> derived pg st. u \<noteq> d \<and> v \<noteq> d}"
proof -
  let ?g = "gs_datasets_graph st"
  have "valid ?g" using inv by (simp add: graph_inv_def)
  with ok have g: "valid (pg_remove_node pg i ?g)" "pg_nodes pg (pg_remove_node pg i ?g) = (pg_nodes pg ?g)(i := None)"
    "pg_edges pg (pg_remove_node pg i ?g) = {(a, b) \<in> pg_edges pg ?g. a \<noteq> i \<and> b \<noteq> i}"
    unfolding petgraph_ok_def petgraph_updates_ok_def by blast+
  have only: "gs_dataset_node_indices st u = Some i \<longleftrightarrow> u = d" for u using index_inj [OF inv _ i] i by blast
  have "pg_nodes pg ?g k = Some d \<longleftrightarrow> k = i" for k
    using inv i unfolding graph_inv_def by (metis option.inject)
  then have "graph_inv valid pg st'" using inv i g(1,2) only by (auto simp: graph_inv_def st'_def)
  moreover have "derived pg st' = {(u, v) \<in> derived pg st. u \<noteq> d \<and> v \<noteq> d}"
    using only i by (auto simp: derived_def st'_def g(3))
  ultimately show ?thesis by (auto simp: known_def st'_def)
qed

lemma neighbors_exact:
  assumes ok: "petgraph_ok valid pg" and inv: "graph_inv valid pg st"
  shows "(d \<notin> known st \<longrightarrow> neighbor_datasets pg dir d st = Inl (Fail (DatasetNodeNotFound d)))
    \<and> (d \<in> known st \<longrightarrow> (\<exists>ds. neighbor_datasets pg dir d st = Inr ds \<and> distinct ds
         \<and> set ds = (case dir of Outgoing \<Rightarrow> {v. (d, v) \<in> derived pg st} | Incoming \<Rightarrow> {u. (u, d) \<in> derived pg st})))"
proof (cases "gs_dataset_node_indices st d")
  case None
  then show ?thesis by (auto simp: neighbor_datasets_def get_dataset_node_def known_def)
next
  case (Some i)
  let ?g = "gs_datasets_graph st" and ?ns = "pg_neighbors_directed pg dir i (gs_datasets_graph st)"
  have "valid ?g" using inv by (simp add: graph_inv_def)
  then have ns: "distinct ?ns"
    "set ?ns = (case dir of Outgoing \<Rightarrow> {b. (i, b) \<in> pg_edges pg ?g} | Incoming \<Rightarrow> {a. (a, i) \<in> pg_edges pg ?g})"
    using ok unfolding petgraph_ok_def petgraph_searches_ok_def by (cases dir; simp)+
  have "set ?ns \<subseteq> dom (pg_nodes pg ?g)"
    using edges_between_nodes [OF ok inv] index_node [OF inv] unfolding ns(2) by (cases dir) fastforce+
  from collect_distinct [OF inv this ns(1)] obtain ds
    where ds: "collect_weights pg ?g ?ns = Inr ds" "distinct ds" "set ds = weights pg st (set ?ns)" by blast
  have "weights pg st (set ?ns) =
      (case dir of Outgoing \<Rightarrow> {v. (d, v) \<in> derived pg st} | Incoming \<Rightarrow> {u. (u, d) \<in> derived pg st})"
    using Some unfolding ns(2) weights_def derived_def by (cases dir) auto
  with ds Some show ?thesis by (auto simp: neighbor_datasets_def get_dataset_node_def known_def)
qed

lemma message_abs:
  assumes ok: "petgraph_ok valid pg" and inv: "graph_inv valid pg st"
  shows "graph_inv valid pg (snd (consume_lifecycle_message pg m st))
    \<and> graph_abs pg (snd (consume_lifecycle_message pg m st)) = spec_message m (graph_abs pg st)
    \<and> gs_initially_scanned (snd (consume_lifecycle_message pg m st)) = gs_initially_scanned st"
proof (cases m)
  case (LifecycleCreated d owner visibility)
  obtain i st' where "get_or_create_dataset_node pg d st = (i, st')" by fastforce
  with create_node [OF ok inv this] LifecycleCreated scanned_simps [of pg d st] show ?thesis
    by (simp add: graph_abs_def)
next
  case (LifecycleDeleted d)
  show ?thesis
  proof (cases "gs_dataset_node_indices st d")
    case None
    with inv derived_known [of _ _ pg st] LifecycleDeleted show ?thesis
      by (auto simp: get_dataset_node_def graph_abs_def known_def)
  next
    case (Some i)
    with delete_abs [OF ok inv Some] LifecycleDeleted show ?thesis
      by (simp add: get_dataset_node_def graph_abs_def)
  qed
next
  case (LifecycleDependenciesUpdated d new)
  show ?thesis
  proof (cases "gs_dataset_node_indices st d")
    case None
    with inv LifecycleDependenciesUpdated show ?thesis by (auto simp: get_dataset_node_def graph_abs_def known_def)
  next
    case (Some i)
    then have d: "d \<in> known st" by (auto simp: known_def)
    with neighbors_exact [OF ok inv, of d Incoming] Some obtain existing
      where ex: "collect_weights pg (gs_datasets_graph st) (pg_neighbors_directed pg Incoming i (gs_datasets_graph st)) = Inr existing"
        "set existing = {u. (u, d) \<in> derived pg st}"
      by (auto simp: neighbor_datasets_def get_dataset_node_def)
    with update_dependencies_abs [OF ok inv d ex(2), of new] LifecycleDependenciesUpdated Some d show ?thesis
      by (simp add: get_dataset_node_def graph_abs_def update_dependencies_def)
  qed
qed

lemma request_abs:
  assumes ok: "petgraph_ok valid pg" and inv: "graph_inv valid pg st"
  shows "graph_inv valid pg (serve_graph pg r st)
    \<and> (gs_initially_scanned (serve_graph pg r st), graph_abs pg (serve_graph pg r st)) =
        spec_request r (gs_initially_scanned st, graph_abs pg st)"
proof (cases r)
  case (Initialize stream)
  have scanned: "graph_inv valid pg (s\<lparr>gs_initially_scanned := b\<rparr>) = graph_inv valid pg s"
    "graph_abs pg (s\<lparr>gs_initially_scanned := b\<rparr>) = graph_abs pg s" for s b
    by (simp_all add: graph_inv_def graph_abs_def known_def derived_def)
  show ?thesis
    using inv scan_stream_abs [OF ok inv, of stream] Initialize scanned
    by (simp add: eager_initialization_def ensure_datasets_initially_scanned_with_def)
next
  case (Consume m)
  with message_abs [OF ok inv, of m] show ?thesis by simp
qed

lemma requests_abs:
  assumes "petgraph_ok valid pg"
  shows "graph_inv valid pg (graph_after pg rs)
    \<and> (gs_initially_scanned (graph_after pg rs), graph_abs pg (graph_after pg rs)) = spec_after rs"
proof -
  have "graph_inv valid pg st \<Longrightarrow> graph_inv valid pg (fold (serve_graph pg) rs st)
      \<and> (gs_initially_scanned (fold (serve_graph pg) rs st), graph_abs pg (fold (serve_graph pg) rs st)) =
          fold spec_request rs (gs_initially_scanned st, graph_abs pg st)" for st
  proof (induction rs arbitrary: st)
    case (Cons r rs)
    with request_abs [OF assms Cons.prems, of r] Cons.IH [of "serve_graph pg r st"] show ?case by simp
  qed simp
  from this [of "default_graph_state pg"] default_graph_inv [OF assms] show ?thesis
    by (simp add: graph_after_def spec_after_def default_graph_state_def)
qed

section \<open>Recursive searches\<close>

lemma known_nodes:
  assumes "graph_inv valid pg st" and "set ids \<subseteq> known st"
  shows "set (map (\<lambda>d. the (gs_dataset_node_indices st d)) ids) \<subseteq> dom (pg_nodes pg (gs_datasets_graph st))"
proof
  fix i assume "i \<in> set (map (\<lambda>d. the (gs_dataset_node_indices st d)) ids)"
  then obtain d where "gs_dataset_node_indices st d = Some i" using assms(2) by (auto simp: known_def)
  with index_node [OF assms(1)] show "i \<in> dom (pg_nodes pg (gs_datasets_graph st))" by blast
qed

lemma bfs_nodes:
  assumes ok: "petgraph_ok valid pg" and inv: "graph_inv valid pg st" and "i \<in> dom (pg_nodes pg (gs_datasets_graph st))"
  shows "distinct (pg_bfs_reversed pg i (gs_datasets_graph st))
    \<and> set (pg_bfs_reversed pg i (gs_datasets_graph st)) = {j. (j, i) \<in> (pg_edges pg (gs_datasets_graph st))\<^sup>*}
    \<and> set (pg_bfs_reversed pg i (gs_datasets_graph st)) \<subseteq> dom (pg_nodes pg (gs_datasets_graph st))"
proof -
  let ?g = "gs_datasets_graph st"
  have "valid ?g" using inv by (simp add: graph_inv_def)
  then have "distinct (pg_bfs_reversed pg i ?g)" "set (pg_bfs_reversed pg i ?g) = {j. (j, i) \<in> (pg_edges pg ?g)\<^sup>*}"
    using ok assms(3) unfolding petgraph_ok_def petgraph_searches_ok_def by blast+
  moreover have "j \<in> dom (pg_nodes pg ?g)" if "(j, i) \<in> (pg_edges pg ?g)\<^sup>*" for j
    using that assms(3) edges_between_nodes [OF ok inv] index_node [OF inv]
    by (cases rule: converse_rtranclE) blast+
  ultimately show ?thesis by auto
qed

lemma reversed_search_exact:
  assumes ok: "petgraph_ok valid pg" and inv: "graph_inv valid pg st"
  shows "set ns \<subseteq> dom (pg_nodes pg (gs_datasets_graph st)) \<Longrightarrow>
    \<exists>ds. reversed_search pg (gs_datasets_graph st) ns visited result = Inr (result @ ds) \<and> distinct ds
      \<and> set ds = weights pg st ({j. \<exists>n \<in> set ns. (j, n) \<in> (pg_edges pg (gs_datasets_graph st))\<^sup>*} - visited)"
proof (induction ns arbitrary: visited result)
  case Nil
  show ?case by (simp add: weights_def)
next
  case (Cons n ns)
  let ?g = "gs_datasets_graph st" and ?new = "filter (\<lambda>i. i \<notin> visited) (pg_bfs_reversed pg n (gs_datasets_graph st))"
  have bfs: "distinct ?new" "set ?new = {j. (j, n) \<in> (pg_edges pg ?g)\<^sup>*} - visited" "set ?new \<subseteq> dom (pg_nodes pg ?g)"
    using bfs_nodes [OF ok inv, of n] Cons.prems by auto
  from collect_distinct [OF inv bfs(3,1)] obtain ds
    where ds: "collect_weights pg ?g ?new = Inr ds" "distinct ds" "set ds = weights pg st (set ?new)" by blast
  from Cons.IH [of "visited \<union> set ?new" "result @ rev ds"] Cons.prems obtain es
    where es: "reversed_search pg ?g ns (visited \<union> set ?new) (result @ rev ds) = Inr ((result @ rev ds) @ es)" "distinct es"
      "set es = weights pg st ({j. \<exists>n \<in> set ns. (j, n) \<in> (pg_edges pg ?g)\<^sup>*} - (visited \<union> set ?new))"
    by auto
  have "set ds \<inter> set es = {}" unfolding ds(3) es(3) weights_def by auto
  moreover have "set ds \<union> set es =
      weights pg st ({j. \<exists>n \<in> set (n # ns). (j, n) \<in> (pg_edges pg ?g)\<^sup>*} - visited)"
    unfolding ds(3) es(3) bfs(2) weights_def by auto
  ultimately show ?case
    using ds(1,2) es(1,2) by (intro exI [of _ "rev ds @ es"]) (simp add: Let_def)
qed

lemma upstream_exact:
  assumes ok: "petgraph_ok valid pg" and inv: "graph_inv valid pg st" and ids: "set ids \<subseteq> known st"
  shows "\<exists>ds. run_recursive_reversed_breadth_first_search pg ids st = Inr ds \<and> distinct ds
    \<and> set ds = {u. \<exists>d \<in> set ids. (u, d) \<in> (derived pg st)\<^sup>*}"
proof -
  let ?ns = "map (\<lambda>d. the (gs_dataset_node_indices st d)) ids" and ?E = "pg_edges pg (gs_datasets_graph st)"
  have ns: "set ?ns \<subseteq> dom (pg_nodes pg (gs_datasets_graph st))"
    using known_nodes [OF inv ids] .
  have path: "(a, b) \<in> ?E\<^sup>* \<longleftrightarrow> (u, d) \<in> (derived pg st)\<^sup>*"
    if "gs_dataset_node_indices st u = Some a" "gs_dataset_node_indices st d = Some b" for u d a b
    using edges_path [OF ok inv that(1), of b] that(2) index_inj [OF inv] by blast
  have start: "u \<in> known st" if "(u, d) \<in> (derived pg st)\<^sup>*" "d \<in> known st" for u d
    using that derived_known by (cases rule: converse_rtranclE) blast+
  have "weights pg st {j. \<exists>n \<in> set ?ns. (j, n) \<in> ?E\<^sup>*} = {u. \<exists>d \<in> set ids. (u, d) \<in> (derived pg st)\<^sup>*}"
    (is "?L = ?R")
  proof (intro set_eqI iffI)
    fix u assume "u \<in> ?L"
    then obtain a d where a: "gs_dataset_node_indices st u = Some a" "d \<in> set ids"
      "(a, the (gs_dataset_node_indices st d)) \<in> ?E\<^sup>*" by (auto simp: weights_def)
    moreover obtain b where "gs_dataset_node_indices st d = Some b" using a(2) ids by (auto simp: known_def)
    ultimately show "u \<in> ?R" using path by auto
  next
    fix u assume "u \<in> ?R"
    then obtain d where d: "d \<in> set ids" "(u, d) \<in> (derived pg st)\<^sup>*" by blast
    then obtain a b where ab: "gs_dataset_node_indices st u = Some a" "gs_dataset_node_indices st d = Some b"
      using start ids by (fastforce simp: known_def)
    with d path have "(a, b) \<in> ?E\<^sup>*" by blast
    moreover have "b \<in> set ?ns" using ab(2) d(1) by (auto intro!: image_eqI [of _ _ d])
    ultimately show "u \<in> ?L" using ab(1) unfolding weights_def by blast
  qed
  with reversed_search_exact [OF ok inv ns, of "{}" "[]"] show ?thesis
    by (auto simp: run_recursive_reversed_breadth_first_search_def get_nodes_ok [OF ids])
qed

lemma downstream_exact:
  assumes ok: "petgraph_ok valid pg" and inv: "graph_inv valid pg st" and ids: "set ids \<subseteq> known st"
  shows "\<exists>ds. run_recursive_depth_first_search pg ids st = Inr ds \<and> distinct ds
    \<and> set ds = (derived pg st)\<^sup>* `` set ids
    \<and> (acyclic (derived pg st) \<longrightarrow> (\<forall>ys u zs v. ds = ys @ u # zs \<longrightarrow> (u, v) \<in> derived pg st \<longrightarrow> v \<in> set ys))"
proof -
  let ?g = "gs_datasets_graph st"
  let ?ns = "map (\<lambda>d. the (gs_dataset_node_indices st d)) ids" and ?E = "pg_edges pg ?g"
  let ?w = "\<lambda>i. the (pg_nodes pg ?g i)"
  define fs where "fs = pg_dfs_finished pg ?ns ?g"
  have "valid ?g" using inv by (simp add: graph_inv_def)
  moreover have ns: "set ?ns \<subseteq> dom (pg_nodes pg ?g)" using known_nodes [OF inv ids] .
  ultimately have fs: "distinct fs" "set fs = ?E\<^sup>* `` set ?ns"
    "acyclic ?E \<Longrightarrow> fs = ys @ u # zs \<Longrightarrow> (u, v) \<in> ?E \<Longrightarrow> v \<in> set ys" for ys u zs v
    using ok unfolding petgraph_ok_def petgraph_searches_ok_def fs_def by blast+
  have dom: "set fs \<subseteq> dom (pg_nodes pg ?g)"
  proof
    fix j assume "j \<in> set fs"
    then obtain i where "i \<in> set ?ns" "(i, j) \<in> ?E\<^sup>*" unfolding fs(2) by blast
    from this(2,1) ns show "j \<in> dom (pg_nodes pg ?g)"
      using edges_between_nodes [OF ok inv] index_node [OF inv] by (cases rule: rtranclE) blast+
  qed
  have collect: "run_recursive_depth_first_search pg ids st = Inr (map ?w fs)"
    by (simp add: run_recursive_depth_first_search_def get_nodes_ok [OF ids] collect_weights_nodes [OF dom] fs_def [symmetric])
  have dist: "distinct (map ?w fs)"
    using fs(1) inj_on_subset [OF weights_inj [OF inv] dom] by (simp add: distinct_map)
  have "v \<in> weights pg st (set fs) \<longleftrightarrow> v \<in> (derived pg st)\<^sup>* `` set ids" for v
  proof
    assume "v \<in> weights pg st (set fs)"
    then obtain d b where b: "gs_dataset_node_indices st v = Some b" "d \<in> set ids"
      "(the (gs_dataset_node_indices st d), b) \<in> ?E\<^sup>*" by (auto simp: weights_def fs(2))
    moreover obtain a where "gs_dataset_node_indices st d = Some a" using b(2) ids by (auto simp: known_def)
    ultimately show "v \<in> (derived pg st)\<^sup>* `` set ids"
      using edges_path [OF ok inv, of d a b] index_inj [OF inv, of _ b v] by (metis ImageI option.sel)
  next
    assume "v \<in> (derived pg st)\<^sup>* `` set ids"
    then obtain d where d: "d \<in> set ids" "(d, v) \<in> (derived pg st)\<^sup>*" by blast
    from d(2,1) have "v \<in> known st" using ids derived_known by (cases rule: rtranclE) blast+
    then obtain a b where ab: "gs_dataset_node_indices st d = Some a" "gs_dataset_node_indices st v = Some b"
      using d(1) ids by (auto simp: known_def)
    with d edges_path [OF ok inv ab(1), of b] have "(a, b) \<in> ?E\<^sup>*" by blast
    moreover have "a \<in> set ?ns" using ab(1) d(1) by (auto intro!: image_eqI [of _ _ d])
    ultimately show "v \<in> weights pg st (set fs)" using ab(2) unfolding weights_def fs(2) by blast
  qed
  then have set: "set (map ?w fs) = (derived pg st)\<^sup>* `` set ids" using weights_image [OF inv dom] by auto
  have "v \<in> set ys" if acyc: "acyclic (derived pg st)" and split: "map ?w fs = ys @ u # zs" and uv: "(u, v) \<in> derived pg st"
    for ys u zs v
  proof -
    from split obtain xs i js where f: "fs = xs @ i # js" "map ?w xs = ys" "?w i = u"
      by (auto simp: map_eq_append_conv map_eq_Cons_conv)
    from uv obtain a b where ab: "gs_dataset_node_indices st u = Some a" "gs_dataset_node_indices st v = Some b" "(a, b) \<in> ?E"
      by (auto simp: derived_def)
    have "pg_nodes pg ?g i = Some u" using f dom by (auto dest!: subsetD)
    with inv ab(1) have "a = i" unfolding graph_inv_def by (metis option.inject)
    with fs(3) [OF derived_acyclic [OF ok inv acyc] f(1)] ab(3) have "b \<in> set xs" by blast
    moreover have "?w b = v" using inv ab(2) by (simp add: graph_inv_def)
    ultimately show ?thesis using f(2) by force
  qed
  with collect dist set show ?thesis by blast
qed


section \<open>Instance of the graph crate\<close>

text \<open>
  Numbered nodes and pairs of numbers. The searches are stated by what they visit; the finishing
  order sorts by the number of nodes that can still be reached.
\<close>

record list_graph =
  lg_nodes :: "(nat \<times> dataset_id) list"
  lg_edges :: "(nat \<times> nat) list"
  lg_next :: nat

definition lg_valid :: "list_graph \<Rightarrow> bool" where
  "lg_valid g \<longleftrightarrow> distinct (map fst (lg_nodes g)) \<and> list_all (\<lambda>(i, _). i < lg_next g) (lg_nodes g)
     \<and> set (lg_edges g) \<subseteq> fst ` set (lg_nodes g) \<times> fst ` set (lg_nodes g)"

definition list_petgraph :: "list_graph petgraph" where
  "list_petgraph =
     \<lparr>pg_empty = \<lparr>lg_nodes = [], lg_edges = [], lg_next = 0\<rparr>,
      pg_add_node = (\<lambda>w g. (lg_next g, g\<lparr>lg_nodes := (lg_next g, w) # lg_nodes g, lg_next := Suc (lg_next g)\<rparr>)),
      pg_node_weight = (\<lambda>i g. map_of (lg_nodes g) i),
      pg_remove_node = (\<lambda>i g. g\<lparr>lg_nodes := filter (\<lambda>n. fst n \<noteq> i) (lg_nodes g),
         lg_edges := filter (\<lambda>(a, b). a \<noteq> i \<and> b \<noteq> i) (lg_edges g)\<rparr>),
      pg_update_edge = (\<lambda>a b g. g\<lparr>lg_edges := List.insert (a, b) (lg_edges g)\<rparr>),
      pg_find_edge = (\<lambda>a b g. if (a, b) \<in> set (lg_edges g) then Some (prod_encode (a, b)) else None),
      pg_remove_edge = (\<lambda>e g. g\<lparr>lg_edges := filter (\<lambda>(a, b). prod_encode (a, b) \<noteq> e) (lg_edges g)\<rparr>),
      pg_neighbors_directed = (\<lambda>dir i g. case dir of
         Outgoing \<Rightarrow> remdups (map snd (filter (\<lambda>(a, b). a = i) (lg_edges g)))
       | Incoming \<Rightarrow> remdups (map fst (filter (\<lambda>(a, b). b = i) (lg_edges g)))),
      pg_bfs_reversed = (\<lambda>i g. filter (\<lambda>j. (j, i) \<in> (set (lg_edges g))\<^sup>*) (map fst (lg_nodes g))),
      pg_dfs_finished = (\<lambda>roots g.
         sort_key (\<lambda>j. card ((set (lg_edges g))\<^sup>+ `` {j}))
           (filter (\<lambda>j. \<exists>r \<in> set roots. (r, j) \<in> (set (lg_edges g))\<^sup>*) (map fst (lg_nodes g))))\<rparr>"

lemma list_pg_nodes: "pg_nodes list_petgraph g = map_of (lg_nodes g)"
  by (simp add: pg_nodes_def list_petgraph_def)

lemma list_pg_edges: "pg_edges list_petgraph g = set (lg_edges g)"
  by (auto simp: pg_edges_def list_petgraph_def)

lemma list_pg_dom: "dom (pg_nodes list_petgraph g) = fst ` set (lg_nodes g)"
  by (simp add: list_pg_nodes dom_map_of_conv_image_fst)


lemma lg_removed_nodes: "map_of (filter (\<lambda>n. fst n \<noteq> i) ns) = (map_of ns)(i := None)"
  by (induction ns) (auto simp: fun_eq_iff)

lemma lg_updates_ok: "petgraph_updates_ok lg_valid list_petgraph"
proof -
  have add: "lg_valid g' \<and> map_of (lg_nodes g) i = None \<and> map_of (lg_nodes g') = (map_of (lg_nodes g))(i \<mapsto> w)
      \<and> set (lg_edges g') = set (lg_edges g)"
    if "lg_valid g" "pg_add_node list_petgraph w g = (i, g')" for g w i g'
  proof -
    have "i \<notin> fst ` set (lg_nodes g)" using that by (auto simp: lg_valid_def list_petgraph_def list_all_iff)
    with that show ?thesis
      by (auto simp: lg_valid_def list_petgraph_def map_of_eq_None_iff less_Suc_eq elim: list.pred_mono_strong)
  qed
  have remove: "lg_valid (pg_remove_node list_petgraph i g)" if "lg_valid g" for g i
    using that by (auto simp: lg_valid_def list_petgraph_def distinct_map_filter image_iff list_all_iff)
  have update: "lg_valid (pg_update_edge list_petgraph a b g)"
    if "lg_valid g" "map_of (lg_nodes g) a = Some v" "map_of (lg_nodes g) b = Some w" for g a b v w
    using that by (auto simp: lg_valid_def list_petgraph_def dest!: map_of_SomeD) force+
  have unlink: "lg_valid (pg_remove_edge list_petgraph e g)" if "lg_valid g" for g e
    using that by (auto simp: lg_valid_def list_petgraph_def)
  have number: "set (filter (\<lambda>(c, d). prod_encode (c, d) \<noteq> prod_encode (a, b)) es) = set es - {(a, b)}"
    for a b :: nat and es
    by auto
  show ?thesis
    unfolding petgraph_updates_ok_def list_pg_edges list_pg_nodes
    using add remove update unlink
    by (auto simp: list_petgraph_def lg_valid_def [of "\<lparr>lg_nodes = [], lg_edges = [], lg_next = 0\<rparr>"] lg_removed_nodes
        split: if_splits)
qed

lemma reach_card:
  assumes "finite E" and "acyclic E" and "(u, v) \<in> E"
  shows "card (E\<^sup>+ `` {v}) < card (E\<^sup>+ `` {u})"
proof (rule psubset_card_mono)
  show "finite (E\<^sup>+ `` {u})" using assms(1) by (simp add: finite_Image)
  have "v \<in> E\<^sup>+ `` {u}" using assms(3) by blast
  moreover have "v \<notin> E\<^sup>+ `` {v}" using assms(2) by (auto simp: acyclic_def)
  moreover have "E\<^sup>+ `` {v} \<subseteq> E\<^sup>+ `` {u}" using assms(3) by (auto intro: trancl_into_trancl2)
  ultimately show "E\<^sup>+ `` {v} \<subset> E\<^sup>+ `` {u}" by blast
qed

lemma lg_searches_ok: "petgraph_searches_ok lg_valid list_petgraph"
proof -
  have dfs: "distinct (pg_dfs_finished list_petgraph roots g)
      \<and> set (pg_dfs_finished list_petgraph roots g) = (set (lg_edges g))\<^sup>* `` set roots
      \<and> (acyclic (set (lg_edges g)) \<longrightarrow>
           (\<forall>ys u zs v. pg_dfs_finished list_petgraph roots g = ys @ u # zs \<longrightarrow> (u, v) \<in> set (lg_edges g) \<longrightarrow> v \<in> set ys))"
    if g: "lg_valid g" and roots: "set roots \<subseteq> fst ` set (lg_nodes g)" for g roots
  proof -
    let ?E = "set (lg_edges g)" and ?N = "map fst (lg_nodes g)" and ?key = "\<lambda>j. card ((set (lg_edges g))\<^sup>+ `` {j})"
    define fs where "fs = pg_dfs_finished list_petgraph roots g"
    have fs: "fs = sort_key ?key (filter (\<lambda>j. \<exists>r \<in> set roots. (r, j) \<in> ?E\<^sup>*) ?N)"
      by (simp add: fs_def list_petgraph_def)
    have "j \<in> fst ` set (lg_nodes g)" if "r \<in> set roots" "(r, j) \<in> ?E\<^sup>*" for r j
      using that(2,1) roots g by (cases rule: rtranclE) (auto simp: lg_valid_def)
    then have set: "set fs = ?E\<^sup>* `` set roots" by (auto simp: fs)
    have dist: "distinct fs" using g by (simp add: fs lg_valid_def)
    have "v \<in> set ys" if acyc: "acyclic ?E" and split: "fs = ys @ u # zs" and uv: "(u, v) \<in> ?E" for ys u zs v
    proof -
      have "u \<in> set fs" using split by simp
      with uv have "v \<in> set fs" unfolding set by (auto intro: rtrancl_into_rtrancl)
      moreover have "sorted (map ?key fs)" by (simp add: fs)
      then have "\<forall>w \<in> set (u # zs). ?key u \<le> ?key w" using split by (auto simp: sorted_append)
      with reach_card [OF _ acyc uv] have "v \<notin> set (u # zs)" by (auto simp: not_le [symmetric])
      ultimately show ?thesis using split by auto
    qed
    with set dist show ?thesis unfolding fs_def [symmetric] by blast
  qed
  have bfs: "distinct (pg_bfs_reversed list_petgraph i g)
      \<and> set (pg_bfs_reversed list_petgraph i g) = {j. (j, i) \<in> (set (lg_edges g))\<^sup>*}"
    if g: "lg_valid g" and i: "i \<in> fst ` set (lg_nodes g)" for g i
  proof -
    have "j \<in> fst ` set (lg_nodes g)" if "(j, i) \<in> (set (lg_edges g))\<^sup>*" for j
      using that g i by (cases rule: converse_rtranclE) (auto simp: lg_valid_def)
    then show ?thesis using g by (auto simp: list_petgraph_def lg_valid_def distinct_filter)
  qed
  have "set (lg_edges g) \<subseteq> fst ` set (lg_nodes g) \<times> fst ` set (lg_nodes g)" if "lg_valid g" for g
    using that by (simp add: lg_valid_def)
  moreover have "distinct (pg_neighbors_directed list_petgraph Outgoing i g)"
    "distinct (pg_neighbors_directed list_petgraph Incoming i g)"
    "set (pg_neighbors_directed list_petgraph Outgoing i g) = {b. (i, b) \<in> set (lg_edges g)}"
    "set (pg_neighbors_directed list_petgraph Incoming i g) = {a. (a, i) \<in> set (lg_edges g)}" for i g
    by (force simp: list_petgraph_def)+
  ultimately show ?thesis
    unfolding petgraph_searches_ok_def list_pg_edges list_pg_dom using dfs bfs by simp
qed

lemma list_petgraph_ok: "petgraph_ok lg_valid list_petgraph"
  by (simp add: petgraph_ok_def lg_updates_ok lg_searches_ok)

end
