(* ===== verification/Dependency_Claims.thy ===== *)
theory Dependency_Claims
  imports Dependency_Refinement Dataset_Demo
begin

text \<open>
  Properties of the dependency graph: it refines a relation between datasets that scans and messages
  change as documented, the recursive queries return the closure of that relation in an order in
  which datasets can be deleted, the graph agrees with the transforms in the chains it was built
  from, and an error during the initial scan goes unnoticed.
\<close>

section \<open>An example\<close>

definition demo_requests :: "graph_request list" where
  "demo_requests =
     [Initialize [Inr \<lparr>dd_downstream_dataset_id = DatasetID [1], dd_upstream_dataset_ids = [DatasetID [0]]\<rparr>],
      Consume (LifecycleCreated (DatasetID [2]) (AccountID []) VisibilityPublic),
      Consume (LifecycleDependenciesUpdated (DatasetID [2]) [DatasetID [1]])]"

lemma demo_requests_spec:
  "spec_after demo_requests =
     (True, {DatasetID [0], DatasetID [1], DatasetID [2]},
      {(DatasetID [0], DatasetID [1]), (DatasetID [1], DatasetID [2])})"
  by (auto simp: demo_requests_def spec_after_def good_items_def spec_scan_def)

section \<open>Direct dependencies\<close>

lemma scanned_query:
  "gs_initially_scanned st \<Longrightarrow> with_scan pg repository on_error query st = (query st, st)"
  by (simp add: with_scan_def ensure_datasets_initially_scanned_def)

lemma after_requests:
  assumes "petgraph_ok valid pg" and "spec_after rs = (scanned, N, R)"
  shows "graph_inv valid pg (graph_after pg rs) \<and> gs_initially_scanned (graph_after pg rs) = scanned
    \<and> known (graph_after pg rs) = N \<and> derived pg (graph_after pg rs) = R"
  using requests_abs [OF assms(1), of rs] assms(2) by (simp add: graph_abs_def)

text \<open>
  C23. After the initial scan and any sequence of life cycle messages, failed ones included, the
  graph holds exactly the datasets and dependencies that the scan and the messages describe: a
  created dataset is added, a deleted one goes with all its dependencies, and an update replaces the
  inputs of its dataset. The direct upstream and downstream datasets of a known dataset are
  returned each once, and an unknown dataset is reported as not found.
\<close>

theorem dependency_graph_refines:
  assumes "petgraph_ok valid pg" and "spec_after rs = (True, N, R)"
  shows "graph_abs pg (graph_after pg rs) = (N, R)
    \<and> (d \<notin> N \<longrightarrow>
         get_upstream_dependencies pg repository d (graph_after pg rs) =
           (Inl (Fail (DatasetNodeNotFound d)), graph_after pg rs)
         \<and> get_downstream_dependencies pg repository d (graph_after pg rs) =
           (Inl (Fail (DatasetNodeNotFound d)), graph_after pg rs))
    \<and> (d \<in> N \<longrightarrow> (\<exists>ups downs.
         get_upstream_dependencies pg repository d (graph_after pg rs) = (Inr ups, graph_after pg rs)
         \<and> get_downstream_dependencies pg repository d (graph_after pg rs) = (Inr downs, graph_after pg rs)
         \<and> distinct ups \<and> set ups = {u. (u, d) \<in> R} \<and> distinct downs \<and> set downs = {v. (d, v) \<in> R}))"
proof -
  note after = after_requests [OF assms]
  then have inv: "graph_inv valid pg (graph_after pg rs)" by simp
  show ?thesis
    using after neighbors_exact [OF assms(1) inv, of d Outgoing] neighbors_exact [OF assms(1) inv, of d Incoming]
    by (auto simp: graph_abs_def get_upstream_dependencies_def get_downstream_dependencies_def scanned_query)
qed

theorem dependency_graph_refines_witness:
  "\<exists>downs. get_downstream_dependencies list_petgraph None (DatasetID [1]) (graph_after list_petgraph demo_requests) =
      (Inr downs, graph_after list_petgraph demo_requests) \<and> distinct downs \<and> set downs = {DatasetID [2]}"
  using dependency_graph_refines [OF list_petgraph_ok demo_requests_spec, of "DatasetID [1]" None] by auto

section \<open>Recursive dependencies\<close>

text \<open>
  C24. The recursive queries return the given datasets together with everything upstream,
  respectively downstream, of them, each dataset once. When no dataset depends on itself, the
  downstream list puts every dataset after all datasets that are derived from it, so that
  deleting in this order never leaves a dangling reference. A request for an unknown dataset
  fails with a dataset that is not known.
\<close>

theorem recursive_dependencies_exact:
  assumes "petgraph_ok valid pg" and "spec_after rs = (True, N, R)"
  shows "(set ids \<subseteq> N \<longrightarrow> (\<exists>ups downs.
         get_recursive_upstream_dependencies pg repository ids (graph_after pg rs) = (Inr ups, graph_after pg rs)
         \<and> distinct ups \<and> set ups = {u. \<exists>d \<in> set ids. (u, d) \<in> R\<^sup>*}
         \<and> get_recursive_downstream_dependencies pg repository ids (graph_after pg rs) = (Inr downs, graph_after pg rs)
         \<and> distinct downs \<and> set downs = R\<^sup>* `` set ids
         \<and> (acyclic R \<longrightarrow> (\<forall>ys u zs v. downs = ys @ u # zs \<longrightarrow> (u, v) \<in> R \<longrightarrow> v \<in> set ys))))
    \<and> (\<not> set ids \<subseteq> N \<longrightarrow> (\<exists>d \<in> set ids - N.
         get_recursive_upstream_dependencies pg repository ids (graph_after pg rs) =
           (Inl (Fail (DatasetNodeNotFound d)), graph_after pg rs)
         \<and> get_recursive_downstream_dependencies pg repository ids (graph_after pg rs) =
           (Inl (Fail (DatasetNodeNotFound d)), graph_after pg rs)))"
proof -
  note after = after_requests [OF assms]
  then have inv: "graph_inv valid pg (graph_after pg rs)" by simp
  show ?thesis
  proof (cases "set ids \<subseteq> N")
    case True
    with after have ids: "set ids \<subseteq> known (graph_after pg rs)" by simp
    from upstream_exact [OF assms(1) inv ids] downstream_exact [OF assms(1) inv ids] after True show ?thesis
      by (simp add: get_recursive_upstream_dependencies_def get_recursive_downstream_dependencies_def scanned_query)
  next
    case False
    with after get_nodes_missing [of ids "graph_after pg rs"] obtain d
      where "d \<in> set ids - N" "get_nodes_from_dataset_ids (graph_after pg rs) ids = Inl (Fail (DatasetNodeNotFound d))"
      by auto
    with after False show ?thesis
      by (auto simp: get_recursive_upstream_dependencies_def get_recursive_downstream_dependencies_def scanned_query
          run_recursive_reversed_breadth_first_search_def run_recursive_depth_first_search_def)
  qed
qed

theorem recursive_dependencies_exact_witness:
  "\<exists>downs. get_recursive_downstream_dependencies list_petgraph None [DatasetID [0]] (graph_after list_petgraph demo_requests) =
      (Inr downs, graph_after list_petgraph demo_requests) \<and> distinct downs
    \<and> set downs = {(DatasetID [0], DatasetID [1]), (DatasetID [1], DatasetID [2])}\<^sup>* `` {DatasetID [0]}"
  using recursive_dependencies_exact [OF list_petgraph_ok demo_requests_spec, of "[DatasetID [0]]" None] by auto

section \<open>The initial scan\<close>

text \<open>
  C26. An error of the repository ends the initial scan without being reported: the scan returns
  success, the graph holds only the datasets listed before the error, and since it is marked as
  scanned no later call completes it.
\<close>

theorem scan_error_unnoticed:
  assumes "petgraph_ok valid pg"
  shows "\<exists>st. eager_initialization pg (map Inr dds @ Inl e # rest) (default_graph_state pg) = (Inr (), st)
    \<and> graph_abs pg st = fold spec_scan dds ({}, {})
    \<and> eager_initialization pg stream st = (Inr (), st)
    \<and> ensure_datasets_initially_scanned pg repository st = (Inr (), st)"
proof -
  have "good_items (map Inr dds @ Inl e # rest) = dds"
    by (induction dds) (simp_all add: good_items_def)
  then have "spec_after [Initialize (map Inr dds @ Inl e # rest)] = (True, fold spec_scan dds ({}, {}))"
    by (simp add: spec_after_def)
  with requests_abs [OF assms, of "[Initialize (map Inr dds @ Inl e # rest)]"] show ?thesis
    by (simp add: graph_after_def eager_initialization_def ensure_datasets_initially_scanned_with_def
        ensure_datasets_initially_scanned_def default_graph_state_def)
qed

theorem scan_error_unnoticed_witness:
  "\<exists>st. eager_initialization list_petgraph
      [Inl ''io'', Inr \<lparr>dd_downstream_dataset_id = DatasetID [1], dd_upstream_dataset_ids = []\<rparr>]
      (default_graph_state list_petgraph) = (Inr (), st) \<and> graph_abs list_petgraph st = ({}, {})"
  using scan_error_unnoticed [OF list_petgraph_ok, of "[]" "''io''"
      "[Inr \<lparr>dd_downstream_dataset_id = DatasetID [1], dd_upstream_dataset_ids = []\<rparr>]" "[]" None] by auto

text \<open>The inputs that the latest transform of a dataset's chain declares.\<close>

definition chain_inputs :: "externs \<Rightarrow> codec \<Rightarrow> dataset \<Rightarrow> dataset_id list \<Rightarrow> bool" where
  "chain_inputs x cd d ids \<longleftrightarrow>
     (\<exists>h bs. chain_resolve_ref x (dset_chain d) Head = Inr h \<and> chain_at (chain_get_block cd (dset_chain d)) h bs
        \<and> ids = (case last_event as_SetTransform (map snd bs) of None \<Rightarrow> [] | Some t \<Rightarrow> transform_ids t))"

lemma chain_inputs_unique: "chain_inputs x cd d ids \<Longrightarrow> chain_inputs x cd d ids' \<Longrightarrow> ids = ids'"
  by (auto simp: chain_inputs_def dest: chain_at_unique)

lemma fold_spec_scan:
  "fold spec_scan dds (N, R) =
     (N \<union> {d. \<exists>dd \<in> set dds. d = dd_downstream_dataset_id dd \<or> d \<in> set (dd_upstream_dataset_ids dd)},
      R \<union> {(u, d). \<exists>dd \<in> set dds. d = dd_downstream_dataset_id dd \<and> u \<in> set (dd_upstream_dataset_ids dd)})"
  by (induction dds arbitrary: N R) (auto simp: spec_scan_def)

lemma list_dependencies_exact:
  assumes ok: "externs_ok x" "summary_yaml_ok dx"
  shows "distinct (map handle_id handles) \<Longrightarrow>
    \<forall>hdl \<in> set handles. dataset_reachable x cd dx strict (datasets (handle_id hdl))
      \<and> (\<exists>h. chain_resolve_ref x (dset_chain (datasets (handle_id hdl))) Head = Inr h) \<Longrightarrow>
    \<exists>dds ds. list_dependencies_of_all_datasets x cd dx datasets (map Inr handles) = Some (map Inr dds, ds)
      \<and> map dd_downstream_dataset_id dds = map handle_id handles
      \<and> (\<forall>dd \<in> set dds. chain_inputs x cd (datasets (dd_downstream_dataset_id dd)) (dd_upstream_dataset_ids dd))"
proof (induction handles arbitrary: datasets)
  case (Cons hdl handles)
  let ?d = "datasets (handle_id hdl)"
  obtain h where reach: "dataset_reachable x cd dx strict ?d" and head: "chain_resolve_ref x (dset_chain ?d) Head = Inr h"
    using Cons.prems(2) by auto
  from get_summary_outcome [OF dataset_reachable_inv [OF reach ok] ok, of default_get_summary_opts] head
  obtain d' bs where sum: "get_summary x cd dx ?d default_get_summary_opts = Some (Inr (summary_of h (map snd bs)), d')"
    "chain_at (chain_get_block cd (dset_chain ?d)) h bs"
    by (auto simp: default_get_summary_opts_def)
  define upd where "upd = datasets(handle_id hdl := d')"
  have other: "upd i = datasets i" if "i \<in> handle_id ` set handles" for i
  proof -
    have "i \<noteq> handle_id hdl" using that Cons.prems(1) by (simp, metis)
    then show ?thesis by (simp add: upd_def)
  qed
  then have "\<forall>hd \<in> set handles. dataset_reachable x cd dx strict (upd (handle_id hd))
      \<and> (\<exists>h. chain_resolve_ref x (dset_chain (upd (handle_id hd))) Head = Inr h)"
    using Cons.prems(2) by simp
  with Cons.IH [of upd] Cons.prems(1) obtain dds ds
    where rest: "list_dependencies_of_all_datasets x cd dx upd (map Inr handles) = Some (map Inr dds, ds)"
      "map dd_downstream_dataset_id dds = map handle_id handles"
      "\<forall>dd \<in> set dds. chain_inputs x cd (upd (dd_downstream_dataset_id dd)) (dd_upstream_dataset_ids dd)"
    by auto
  let ?dd = "\<lparr>dd_downstream_dataset_id = handle_id hdl, dd_upstream_dataset_ids = sm_dependencies (summary_of h (map snd bs))\<rparr>"
  have "chain_inputs x cd (datasets (dd_downstream_dataset_id dd)) (dd_upstream_dataset_ids dd)" if "dd \<in> set dds" for dd
  proof -
    have "dd_downstream_dataset_id dd \<in> handle_id ` set handles" using that rest(2) by (metis image_eqI image_set)
    with other rest(3) that show ?thesis by metis
  qed
  moreover have "chain_inputs x cd ?d (dd_upstream_dataset_ids ?dd)"
    using head sum(2) by (auto simp: chain_inputs_def summary_of_def)
  ultimately show ?case
    using sum(1) rest(1,2) by (intro exI [of _ "?dd # dds"]) (simp add: upd_def)
qed simp

text \<open>
  C25. The graph that is built from the summaries of a workspace agrees with the metadata chains: for
  datasets with any history of commits, the edges into a dataset come from exactly the inputs
  that the latest transform of its chain declares, whatever was cached before.
\<close>

theorem initial_graph_matches_chains:
  assumes "petgraph_ok valid pg" and "externs_ok x" and "summary_yaml_ok dx" and "distinct (map handle_id handles)"
    and "\<forall>hdl \<in> set handles. dataset_reachable x cd dx strict (datasets (handle_id hdl))
      \<and> (\<exists>h. chain_resolve_ref x (dset_chain (datasets (handle_id hdl))) Head = Inr h)"
  shows "\<exists>stream ds st. list_dependencies_of_all_datasets x cd dx datasets (map Inr handles) = Some (stream, ds)
    \<and> eager_initialization pg stream (default_graph_state pg) = (Inr (), st)
    \<and> handle_id ` set handles \<subseteq> known st
    \<and> derived pg st = {(u, d). d \<in> handle_id ` set handles \<and> (\<exists>ids. chain_inputs x cd (datasets d) ids \<and> u \<in> set ids)}"
proof -
  from list_dependencies_exact [OF assms(2-5)] obtain dds ds
    where dds: "list_dependencies_of_all_datasets x cd dx datasets (map Inr handles) = Some (map Inr dds, ds)"
      "map dd_downstream_dataset_id dds = map handle_id handles"
      "\<forall>dd \<in> set dds. chain_inputs x cd (datasets (dd_downstream_dataset_id dd)) (dd_upstream_dataset_ids dd)" by blast
  have ids: "handle_id ` set handles = dd_downstream_dataset_id ` set dds" using dds(2) by (metis image_set)
  let ?st = "graph_after pg [Initialize (map Inr dds)]"
  have "good_items (map Inr dds) = dds" by (induction dds) (simp_all add: good_items_def)
  then have "graph_abs pg ?st = fold spec_scan dds ({}, {})"
    using requests_abs [OF assms(1), of "[Initialize (map Inr dds)]"] by (simp add: spec_after_def)
  then have abs: "known ?st = {d. \<exists>dd \<in> set dds. d = dd_downstream_dataset_id dd \<or> d \<in> set (dd_upstream_dataset_ids dd)}"
    "derived pg ?st = {(u, d). \<exists>dd \<in> set dds. d = dd_downstream_dataset_id dd \<and> u \<in> set (dd_upstream_dataset_ids dd)}"
    by (simp_all add: graph_abs_def fold_spec_scan)
  have "derived pg ?st = {(u, d). d \<in> handle_id ` set handles \<and> (\<exists>ids. chain_inputs x cd (datasets d) ids \<and> u \<in> set ids)}"
    unfolding abs(2) ids using dds(3) chain_inputs_unique by (auto simp: image_iff) blast+
  moreover have "handle_id ` set handles \<subseteq> known ?st" unfolding abs(1) ids by blast
  moreover have "eager_initialization pg (map Inr dds) (default_graph_state pg) = (Inr (), ?st)"
    by (simp add: graph_after_def eager_initialization_def ensure_datasets_initially_scanned_with_def
        default_graph_state_def)
  ultimately show ?thesis using dds(1) by blast
qed

theorem initial_graph_matches_chains_witness:
  "\<exists>stream ds st. list_dependencies_of_all_datasets demo_externs demo_codec demo_dataset_externs (\<lambda>_. demo_ds3)
      [Inr \<lparr>handle_id = DatasetID [], handle_alias = \<lparr>alias_account_name = None, alias_dataset_name = ''demo''\<rparr>\<rparr>] = Some (stream, ds)
    \<and> eager_initialization list_petgraph stream (default_graph_state list_petgraph) = (Inr (), st)
    \<and> DatasetID [] \<in> known st"
  using initial_graph_matches_chains [OF list_petgraph_ok demo_externs_ok demo_yaml_ok, of
      "[\<lparr>handle_id = DatasetID [], handle_alias = \<lparr>alias_account_name = None, alias_dataset_name = ''demo''\<rparr>\<rparr>]"
      demo_codec True "\<lambda>_. demo_ds3"] demo_dataset_reachable(2) demo_dataset_reads(4)
  by auto

end
