(* ===== verification/Chain_Compare.thy ===== *)
theory Chain_Compare
  imports Dataset_Demo "HOL-Library.Sublist"
begin

text \<open>
  Comparison of two metadata chains (\<open>metadata_chain_comparator.rs\<close>): which of them is ahead, by
  which blocks, or how far they have diverged. The comparator reads both chains lazily, block by
  block, and reports every read and every expected read to a listener; the model returns the
  sequence of these reports with the result. A lazy stream of blocks is the hash of the block it
  reads next.

  \<open>compare_chains_spec\<close> says what the comparison means for two chains given as lists, newest block
  first; \<open>compare_chains_outcome\<close> shows that the comparator computes it.
\<close>

section \<open>Results, errors and reports\<close>

datatype compare_chains_result =
    ChainsEqual
  | LhsAhead "hashed_block list"
  | LhsBehind "hashed_block list"
  | Divergence u64 u64  \<comment> \<open>uncommon blocks of the left and of the right chain\<close>

datatype common_ancestor_check = CheckSuccess "hashed_block list" | CheckFailure "u64 option"

datatype compare_chains_error =
    CompareCorrupted string
  | CompareAccess access_error
  | CompareInternal string

fun compare_error_of_get_block :: "get_block_error \<Rightarrow> compare_chains_error" where
  "compare_error_of_get_block (BlockNotFound _) = CompareCorrupted ''Metadata chain is broken''"
| "compare_error_of_get_block (BlockVersion _) = CompareCorrupted ''Metadata chain is broken''"
| "compare_error_of_get_block (BlockMalformed _) = CompareCorrupted ''Metadata chain is broken''"
| "compare_error_of_get_block (BlockAccess e) = CompareAccess e"
| "compare_error_of_get_block (BlockInternal m) = CompareInternal m"

fun compare_error_of_iter :: "iter_blocks_error \<Rightarrow> compare_chains_error fault" where
  "compare_error_of_iter (IterRefNotFound r) = Fail (CompareInternal ''reference not found'')"
| "compare_error_of_iter (IterBlockNotFound _) = Fail (CompareCorrupted ''Metadata chain is broken'')"
| "compare_error_of_iter (IterBlockVersion _) = Fail (CompareCorrupted ''Metadata chain is broken'')"
| "compare_error_of_iter (IterBlockMalformed _) = Fail (CompareCorrupted ''Metadata chain is broken'')"
| "compare_error_of_iter (IterInvalidInterval _ _) = Panic ''internal error: entered unreachable code''"
| "compare_error_of_iter (IterAccess e) = Fail (CompareAccess e)"
| "compare_error_of_iter (IterInternal m) = Fail (CompareInternal m)"

text \<open>What the listener hears.\<close>

datatype compare_report =
    LhsExpectedReads u64
  | LhsRead u64
  | RhsExpectedReads u64
  | RhsRead u64

text \<open>A computation with the reports it makes; after an error there are none.\<close>

type_synonym 'a reported = "compare_report list \<times> (compare_chains_error, 'a) res"

definition then_report :: "'a reported \<Rightarrow> ('a \<Rightarrow> 'b reported) \<Rightarrow> 'b reported" where
  "then_report m k =
     (case m of
        (rs, Inl f) \<Rightarrow> (rs, Inl f)
      | (rs, Inr a) \<Rightarrow> (case k a of (rs', r) \<Rightarrow> (rs @ rs', r)))"

section \<open>A chain that reports its reads\<close>

record chain_with_stats =
  cws_get :: "multihash \<Rightarrow> get_block_error + metadata_block"
  cws_on_expected :: "u64 \<Rightarrow> compare_report"
  cws_on_read :: "u64 \<Rightarrow> compare_report"

definition lhs_with_stats :: "(multihash \<Rightarrow> get_block_error + metadata_block) \<Rightarrow> chain_with_stats" where
  "lhs_with_stats get = \<lparr>cws_get = get, cws_on_expected = LhsExpectedReads, cws_on_read = LhsRead\<rparr>"

definition rhs_with_stats :: "(multihash \<Rightarrow> get_block_error + metadata_block) \<Rightarrow> chain_with_stats" where
  "rhs_with_stats get = \<lparr>cws_get = get, cws_on_expected = RhsExpectedReads, cws_on_read = RhsRead\<rparr>"

definition expecting_to_read_blocks :: "chain_with_stats \<Rightarrow> u64 \<Rightarrow> unit reported" where
  "expecting_to_read_blocks w n = ([cws_on_expected w n], Inr ())"

definition stats_get_block :: "chain_with_stats \<Rightarrow> multihash \<Rightarrow> metadata_block reported" where
  "stats_get_block w h = ([cws_on_read w 1], map_err (Fail \<circ> compare_error_of_get_block) (cws_get w h))"

text \<open>
  The stream of \<open>iter_blocks_interval(head, None, false)\<close>: \<open>try_next\<close> yields the next block and what
  is left of the stream; \<open>take(n)\<close> followed by \<open>try_collect\<close> never asks for more than \<open>n\<close> blocks.
\<close>

definition stats_try_next ::
  "chain_with_stats \<Rightarrow> multihash option \<Rightarrow> (hashed_block option \<times> multihash option) reported" where
  "stats_try_next w current =
     (case current of
        None \<Rightarrow> ([], Inr (None, None))
      | Some h \<Rightarrow>
          (case cws_get w h of
             Inl e \<Rightarrow> ([cws_on_read w 1], Inl (compare_error_of_iter (iter_error_of_get_block e)))
           | Inr b \<Rightarrow> ([cws_on_read w 1], Inr (Some (h, b), prev_block_hash b))))"

text \<open>\<open>int_err\<close>: any error of the stream becomes an internal one.\<close>

definition stats_try_next_int ::
  "chain_with_stats \<Rightarrow> multihash option \<Rightarrow> (hashed_block option \<times> multihash option) reported" where
  "stats_try_next_int w current =
     (case stats_try_next w current of (rs, r) \<Rightarrow> (rs, map_err (\<lambda>_. Fail (CompareInternal ''iteration'')) r))"

fun stats_take :: "chain_with_stats \<Rightarrow> nat \<Rightarrow> multihash option \<Rightarrow> hashed_block list reported" where
  "stats_take w 0 current = ([], Inr [])"
| "stats_take w (Suc n) current =
     then_report (stats_try_next w current) (\<lambda>(next_block, rest).
       case next_block of
         None \<Rightarrow> ([], Inr [])
       | Some hb \<Rightarrow> then_report (stats_take w n rest) (\<lambda>hbs. ([], Inr (hb # hbs))))"

fun stats_skip :: "chain_with_stats \<Rightarrow> nat \<Rightarrow> multihash option \<Rightarrow> multihash option reported" where
  "stats_skip w 0 current = ([], Inr current)"
| "stats_skip w (Suc n) current =
     then_report (stats_try_next_int w current) (\<lambda>(_, rest). stats_skip w n rest)"

text \<open>The whole stream; partial, as the iteration it collects.\<close>

definition stats_collect_all :: "chain_with_stats \<Rightarrow> multihash \<Rightarrow> hashed_block list reported option" where
  "stats_collect_all w head =
     Option.bind (iter_loop (cws_get w) None (Some head)) (\<lambda>(bs, r).
       Some (case tail_error False head None r of
               None \<Rightarrow> (map (\<lambda>_. cws_on_read w 1) bs, Inr bs)
             | Some (Fail e) \<Rightarrow> (map (\<lambda>_. cws_on_read w 1) bs @ [cws_on_read w 1], Inl (compare_error_of_iter e))
             | Some (Panic m) \<Rightarrow> (map (\<lambda>_. cws_on_read w 1) bs, Inl (Panic m))))"

section \<open>The comparator\<close>

definition describe_divergence :: "u64 \<Rightarrow> u64 \<Rightarrow> u64 option \<Rightarrow> compare_chains_result" where
  "describe_divergence lhs_sequence_number rhs_sequence_number last_common =
     (case last_common of
        Some n \<Rightarrow> Divergence (lhs_sequence_number - n) (rhs_sequence_number - n)
      | None \<Rightarrow> Divergence (lhs_sequence_number + 1) (rhs_sequence_number + 1))"

definition unwrap_next :: "'a option \<Rightarrow> 'a reported" where
  "unwrap_next v = ([], unwrap v)"

text \<open>
  The loop that walks both chains in step; the counter is the sequence number of the blocks it reads.
\<close>

definition read_both ::
  "chain_with_stats \<Rightarrow> chain_with_stats \<Rightarrow> multihash option \<Rightarrow> multihash option \<Rightarrow>
   (multihash \<times> multihash option \<times> multihash \<times> multihash option) reported" where
  "read_both lhs rhs lhs_stream rhs_stream =
     then_report (expecting_to_read_blocks lhs 1) (\<lambda>_.
     then_report (expecting_to_read_blocks rhs 1) (\<lambda>_.
     then_report (stats_try_next_int lhs lhs_stream) (\<lambda>(lhs_next, lhs_rest).
     then_report (unwrap_next lhs_next) (\<lambda>(lhs_block_hash, _).
     then_report (stats_try_next_int rhs rhs_stream) (\<lambda>(rhs_next, rhs_rest).
     then_report (unwrap_next rhs_next) (\<lambda>(rhs_block_hash, _).
       ([], Inr (lhs_block_hash, lhs_rest, rhs_block_hash, rhs_rest))))))))"

fun common_ancestor_loop ::
  "chain_with_stats \<Rightarrow> chain_with_stats \<Rightarrow> nat \<Rightarrow> multihash option \<Rightarrow> multihash option \<Rightarrow> u64 option reported" where
  "common_ancestor_loop lhs rhs n lhs_stream rhs_stream =
     then_report (read_both lhs rhs lhs_stream rhs_stream) (\<lambda>(lhs_hash, lhs_rest, rhs_hash, rhs_rest).
       if lhs_hash = rhs_hash then ([], Inr (Some (of_nat n)))
       else (case n of
               0 \<Rightarrow> ([], Inr None)
             | Suc m \<Rightarrow> common_ancestor_loop lhs rhs m lhs_rest rhs_rest))"

declare common_ancestor_loop.simps [simp del]

definition find_common_ancestor_sequence_number ::
  "chain_with_stats \<Rightarrow> multihash \<Rightarrow> u64 \<Rightarrow> chain_with_stats \<Rightarrow> multihash \<Rightarrow> u64 \<Rightarrow> u64 option reported" where
  "find_common_ancestor_sequence_number lhs lhs_head lhs_start rhs rhs_head rhs_start =
     then_report
       (if lhs_start > rhs_start then expecting_to_read_blocks lhs (lhs_start - rhs_start)
        else expecting_to_read_blocks rhs (rhs_start - lhs_start)) (\<lambda>_.
     then_report (stats_skip lhs (unat lhs_start - unat rhs_start) (Some lhs_head)) (\<lambda>lhs_stream.
     then_report (stats_skip rhs (unat rhs_start - unat lhs_start) (Some rhs_head)) (\<lambda>rhs_stream.
       common_ancestor_loop lhs rhs (min (unat lhs_start) (unat rhs_start)) lhs_stream rhs_stream)))"

definition check_expected_common_ancestor ::
  "chain_with_stats \<Rightarrow> u64 \<Rightarrow> multihash \<Rightarrow> chain_with_stats \<Rightarrow> u64 \<Rightarrow> multihash \<Rightarrow>
   common_ancestor_check reported" where
  "check_expected_common_ancestor ahead ahead_sequence_number ahead_head reference expected expected_hash =
     (let ahead_size = ahead_sequence_number - expected in
      then_report (expecting_to_read_blocks ahead ahead_size) (\<lambda>_.
      then_report (stats_take ahead (unat ahead_size) (Some ahead_head)) (\<lambda>ahead_blocks.
      then_report (unwrap_next (if ahead_blocks = [] then None else Some (snd (last ahead_blocks)))) (\<lambda>boundary.
        case prev_block_hash boundary of
          Some prev_hash \<Rightarrow>
            if prev_hash \<noteq> expected_hash
            then then_report
              (find_common_ancestor_sequence_number ahead prev_hash (ahead_sequence_number - ahead_size)
                 reference expected_hash expected) (\<lambda>n. ([], Inr (CheckFailure n)))
            else ([], Inr (CheckSuccess ahead_blocks))
        | None \<Rightarrow> ([], Inr (CheckSuccess ahead_blocks))))))"

text \<open>The three arms for two chains that both have a head, after their sequence numbers were read.\<close>

definition compare_heads ::
  "chain_with_stats \<Rightarrow> multihash \<Rightarrow> u64 \<Rightarrow> chain_with_stats \<Rightarrow> multihash \<Rightarrow> u64 \<Rightarrow>
   compare_chains_result reported" where
  "compare_heads lhs lhs_head lhs_sequence_number rhs rhs_head rhs_sequence_number =
     (if lhs_sequence_number = rhs_sequence_number then
        then_report
          (find_common_ancestor_sequence_number lhs lhs_head lhs_sequence_number rhs rhs_head rhs_sequence_number)
          (\<lambda>n. ([], Inr (describe_divergence lhs_sequence_number rhs_sequence_number n)))
      else if lhs_sequence_number > rhs_sequence_number then
        then_report
          (check_expected_common_ancestor lhs lhs_sequence_number lhs_head rhs rhs_sequence_number rhs_head)
          (\<lambda>check. ([], Inr (case check of
             CheckSuccess blocks \<Rightarrow> LhsAhead blocks
           | CheckFailure n \<Rightarrow> describe_divergence lhs_sequence_number rhs_sequence_number n)))
      else
        then_report
          (check_expected_common_ancestor rhs rhs_sequence_number rhs_head lhs lhs_sequence_number lhs_head)
          (\<lambda>check. ([], Inr (case check of
             CheckSuccess blocks \<Rightarrow> LhsBehind blocks
           | CheckFailure n \<Rightarrow> describe_divergence lhs_sequence_number rhs_sequence_number n))))"

definition compare_chains ::
  "codec \<Rightarrow> chain \<Rightarrow> multihash \<Rightarrow> chain \<Rightarrow> multihash option \<Rightarrow> compare_chains_result reported option" where
  "compare_chains cd lhs_chain lhs_head rhs_chain rhs_head =
     (if Some lhs_head = rhs_head then Some ([], Inr ChainsEqual)
      else
        (let lhs = lhs_with_stats (chain_get_block cd lhs_chain);
             rhs = rhs_with_stats (chain_get_block cd rhs_chain);
             lhs_read = then_report (expecting_to_read_blocks lhs 1) (\<lambda>_. stats_get_block lhs lhs_head)
         in case rhs_head of
              None \<Rightarrow>
                (case snd lhs_read of
                   Inl f \<Rightarrow> Some (fst lhs_read, Inl f)
                 | Inr lhs_block \<Rightarrow>
                     map_option
                       (\<lambda>collected.
                          then_report lhs_read (\<lambda>_.
                          then_report (expecting_to_read_blocks lhs (sequence_number lhs_block + 1)) (\<lambda>_.
                          then_report collected (\<lambda>blocks. ([], Inr (LhsAhead blocks))))))
                       (stats_collect_all lhs lhs_head))
            | Some rhs_head \<Rightarrow>
                Some
                  (then_report lhs_read (\<lambda>lhs_block.
                   then_report (expecting_to_read_blocks rhs 1) (\<lambda>_.
                   then_report (stats_get_block rhs rhs_head) (\<lambda>rhs_block.
                     compare_heads lhs lhs_head (sequence_number lhs_block)
                       rhs rhs_head (sequence_number rhs_block)))))))"

section \<open>What the comparison means\<close>

text \<open>The number of blocks that two chains share, from their first block on.\<close>

definition common_blocks :: "'a list \<Rightarrow> 'a list \<Rightarrow> nat" where
  "common_blocks lhs rhs = length (longest_common_prefix (rev lhs) (rev rhs))"

definition compare_chains_spec :: "hashed_block list \<Rightarrow> hashed_block list \<Rightarrow> compare_chains_result" where
  "compare_chains_spec lhs rhs =
     (if lhs = rhs then ChainsEqual
      else if suffix rhs lhs then LhsAhead (take (length lhs - length rhs) lhs)
      else if suffix lhs rhs then LhsBehind (take (length rhs - length lhs) rhs)
      else Divergence (of_nat (length lhs - common_blocks lhs rhs)) (of_nat (length rhs - common_blocks lhs rhs)))"

text \<open>What the listener was told to expect, and what it heard, as the counters of \<open>SyncStats\<close> add it up.\<close>

definition lhs_expected_reads :: "compare_report list \<Rightarrow> u64" where
  "lhs_expected_reads rs = sum_list (map (\<lambda>r. case r of LhsExpectedReads n \<Rightarrow> n | _ \<Rightarrow> 0) rs)"

definition lhs_reads :: "compare_report list \<Rightarrow> u64" where
  "lhs_reads rs = sum_list (map (\<lambda>r. case r of LhsRead n \<Rightarrow> n | _ \<Rightarrow> 0) rs)"

definition rhs_expected_reads :: "compare_report list \<Rightarrow> u64" where
  "rhs_expected_reads rs = sum_list (map (\<lambda>r. case r of RhsExpectedReads n \<Rightarrow> n | _ \<Rightarrow> 0) rs)"

definition rhs_reads :: "compare_report list \<Rightarrow> u64" where
  "rhs_reads rs = sum_list (map (\<lambda>r. case r of RhsRead n \<Rightarrow> n | _ \<Rightarrow> 0) rs)"

lemmas read_counters = lhs_expected_reads_def lhs_reads_def rhs_expected_reads_def rhs_reads_def

definition reads_as_expected :: "compare_report list \<Rightarrow> bool" where
  "reads_as_expected rs \<longleftrightarrow> lhs_reads rs = lhs_expected_reads rs \<and> rhs_reads rs = rhs_expected_reads rs"

lemma reads_as_expected_append [intro]:
  "reads_as_expected rs \<Longrightarrow> reads_as_expected rs' \<Longrightarrow> reads_as_expected (rs @ rs')"
  by (simp add: reads_as_expected_def read_counters)

text \<open>\<open>one_side w get\<close>: the chain \<open>w\<close> reads with \<open>get\<close> and reports as one of the two sides.\<close>

definition one_side :: "chain_with_stats \<Rightarrow> (multihash \<Rightarrow> get_block_error + metadata_block) \<Rightarrow> bool" where
  "one_side w get \<longleftrightarrow> w = lhs_with_stats get \<or> w = rhs_with_stats get"

lemma one_side_simps [simp]: "one_side (lhs_with_stats get) get" "one_side (rhs_with_stats get) get"
  by (simp_all add: one_side_def)

lemma one_side_get: "one_side w get \<Longrightarrow> cws_get w = get"
  by (auto simp: one_side_def lhs_with_stats_def rhs_with_stats_def)

lemma expected_then_read:
  assumes "one_side w get"
  shows "reads_as_expected (cws_on_expected w (of_nat n) # replicate n (cws_on_read w 1))"
  using assms
  by (auto simp: one_side_def lhs_with_stats_def rhs_with_stats_def reads_as_expected_def read_counters
      map_replicate_const sum_list_replicate)

section \<open>Reading a stream\<close>

definition stream_at ::
  "(multihash \<Rightarrow> get_block_error + metadata_block) \<Rightarrow> multihash option \<Rightarrow> hashed_block list \<Rightarrow> bool" where
  "stream_at get current bs \<longleftrightarrow>
     (case current of None \<Rightarrow> bs = [] | Some h \<Rightarrow> chain_at get h bs)"

lemma chain_at_stream: "chain_at get h bs \<Longrightarrow> \<exists>b. get h = Inr b \<and> hd bs = (h, b) \<and> stream_at get (prev_block_hash b) (tl bs)"
  by (auto simp: stream_at_def elim: chain_at.cases)

lemma then_report_simps [simp]:
  "then_report (rs, Inl f) k = (rs, Inl f)"
  "then_report (rs, Inr a) k = (rs @ fst (k a), snd (k a))"
  by (simp_all add: then_report_def split: prod.split)

lemma stats_try_next_stream:
  assumes "one_side w get" and "stream_at get current (hb # bs)"
  shows "\<exists>rest. stats_try_next w current = ([cws_on_read w 1], Inr (Some hb, rest)) \<and> stream_at get rest bs
    \<and> rest = prev_block_hash (snd hb) \<and> current = Some (fst hb)"
proof -
  obtain h where h: "current = Some h" "chain_at get h (hb # bs)"
    using assms(2) by (cases current) (auto simp: stream_at_def)
  with chain_at_stream [OF h(2)] one_side_get [OF assms(1)] show ?thesis
    by (auto simp: stats_try_next_def)
qed

lemma stats_take_stream:
  assumes "one_side w get" and "stream_at get current bs" and "n \<le> length bs"
  shows "stats_take w n current = (replicate n (cws_on_read w 1), Inr (take n bs))"
  using assms(2,3)
proof (induction n arbitrary: current bs)
  case (Suc n)
  then obtain hb bs' where bs: "bs = hb # bs'" by (cases bs) auto
  with stats_try_next_stream [OF assms(1)] Suc.prems(1) obtain rest
    where "stats_try_next w current = ([cws_on_read w 1], Inr (Some hb, rest))" "stream_at get rest bs'"
    by blast
  with Suc.IH [of rest bs'] Suc.prems(2) bs show ?case by simp
qed simp

lemma stats_collect_chain:
  assumes "one_side w get" and "chain_at get h bs"
  shows "stats_collect_all w h = Some (replicate (length bs) (cws_on_read w 1), Inr bs)"
  using iter_loop_chain [OF assms(2), of None] one_side_get [OF assms(1)]
  by (simp add: stats_collect_all_def before_tail_None map_replicate_const)

section \<open>Chains that agree\<close>

text \<open>Two stores never give different blocks for a hash; then chains that meet are the same from there on.\<close>

definition blocks_agree ::
  "(multihash \<Rightarrow> get_block_error + metadata_block) \<Rightarrow> (multihash \<Rightarrow> get_block_error + metadata_block) \<Rightarrow> bool" where
  "blocks_agree get get' \<longleftrightarrow> (\<forall>h b b'. get h = Inr b \<longrightarrow> get' h = Inr b' \<longrightarrow> b = b')"

lemma blocks_agree_sym: "blocks_agree get get' \<Longrightarrow> blocks_agree get' get"
  by (auto simp: blocks_agree_def)

lemma chains_meet:
  assumes "chain_at get h xs" and "chain_at get' h ys" and "blocks_agree get get'"
  shows "xs = ys"
  using assms(1,2)
proof (induction arbitrary: ys rule: chain_at.induct)
  case (chain_root h b)
  have same: "b' = b" if "get' h = Inr b'" for b'
    using assms(3) chain_root.hyps that by (auto simp: blocks_agree_def)
  from chain_root.prems show ?case by cases (use same chain_root.hyps in fastforce)+
next
  case (chain_step h b p bs)
  have same: "b' = b" if "get' h = Inr b'" for b'
    using assms(3) chain_step.hyps that by (auto simp: blocks_agree_def)
  from chain_step.prems show ?case by cases (use same chain_step.hyps chain_step.IH in fastforce)+
qed

lemma streams_meet:
  assumes "stream_at get c (x # xs)" and "stream_at get' c' (y # ys)" and "blocks_agree get get'"
    and "fst x = fst y"
  shows "x # xs = y # ys"
proof -
  have "c = Some (fst x)" "chain_at get (fst x) (x # xs)" "c' = Some (fst y)" "chain_at get' (fst y) (y # ys)"
    using assms(1,2) chain_at_hd by (fastforce simp: stream_at_def split: option.splits)+
  with chains_meet [OF _ _ assms(3)] assms(4) show ?thesis by metis
qed

subsection \<open>Common blocks\<close>

lemma lcp_same [simp]: "longest_common_prefix xs xs = xs"
  by (induction xs) auto

lemma lcp_append_longer:
  "length xs = length ys \<Longrightarrow> longest_common_prefix (xs @ zs) ys = longest_common_prefix xs ys"
  by (induction xs ys rule: list_induct2) auto

lemma lcp_append_longer2:
  "length xs = length ys \<Longrightarrow> longest_common_prefix xs (ys @ zs) = longest_common_prefix xs ys"
  by (induction xs ys rule: list_induct2) auto

lemma lcp_snoc:
  "length xs = length ys \<Longrightarrow> x \<noteq> y \<Longrightarrow>
     longest_common_prefix (xs @ [x]) (ys @ [y]) = longest_common_prefix xs ys"
  by (induction xs ys rule: list_induct2) auto

lemma common_blocks_same [simp]: "common_blocks xs xs = length xs"
  by (simp add: common_blocks_def)

lemma common_blocks_Cons:
  "length xs = length ys \<Longrightarrow> x \<noteq> y \<Longrightarrow> common_blocks (x # xs) (y # ys) = common_blocks xs ys"
  by (simp add: common_blocks_def lcp_snoc)

lemma common_blocks_ahead:
  "length xs = length ys \<Longrightarrow> common_blocks (zs @ xs) ys = common_blocks xs ys"
  "length xs = length ys \<Longrightarrow> common_blocks ys (zs @ xs) = common_blocks ys xs"
  by (simp_all add: common_blocks_def lcp_append_longer lcp_append_longer2)

lemma lcp_commute: "longest_common_prefix xs ys = longest_common_prefix ys xs"
  by (induction xs ys rule: longest_common_prefix.induct) auto

lemma common_blocks_commute: "common_blocks xs ys = common_blocks ys xs"
  by (simp add: common_blocks_def lcp_commute)

lemma common_blocks_le: "common_blocks xs ys \<le> length xs"
  unfolding common_blocks_def
  using prefix_length_le [OF longest_common_prefix_prefix1 [of "rev xs" "rev ys"]] by simp

lemma common_blocks_le2: "common_blocks xs ys \<le> length ys"
  using common_blocks_le [of ys xs] by (simp only: common_blocks_commute [of xs ys])

section \<open>The comparator computes the meaning\<close>

subsection \<open>The last common block\<close>

definition last_common :: "nat \<Rightarrow> u64 option" where
  "last_common k = (if k = 0 then None else Some (of_nat (k - 1)))"

lemma describe_divergence_common:
  assumes "k \<le> m" and "k \<le> n" and "0 < m" and "0 < n"
  shows "describe_divergence (of_nat (m - 1)) (of_nat (n - 1)) (last_common k) =
    Divergence (of_nat (m - k)) (of_nat (n - k))"
  using assms by (auto simp: describe_divergence_def last_common_def of_nat_diff)

lemma expect_and_read_both:
  assumes "one_side lhs get" and "one_side rhs get'"
  shows "reads_as_expected [cws_on_expected lhs 1, cws_on_expected rhs 1, cws_on_read lhs 1, cws_on_read rhs 1]"
  using assms
  by (auto simp: one_side_def lhs_with_stats_def rhs_with_stats_def reads_as_expected_def read_counters)

lemma read_both_streams:
  assumes "one_side lhs get" and "one_side rhs get'"
    and "stream_at get c (x # xs)" and "stream_at get' c' (y # ys)"
  shows "\<exists>r r'. read_both lhs rhs c c' =
      ([cws_on_expected lhs 1, cws_on_expected rhs 1, cws_on_read lhs 1, cws_on_read rhs 1],
       Inr (fst x, r, fst y, r')) \<and> stream_at get r xs \<and> stream_at get' r' ys"
  using stats_try_next_stream [OF assms(1,3)] stats_try_next_stream [OF assms(2,4)]
  by (cases x; cases y)
    (auto simp: read_both_def expecting_to_read_blocks_def stats_try_next_int_def unwrap_next_def unwrap_def)

lemma common_ancestor_loop_exact:
  assumes sides: "one_side lhs get" "one_side rhs get'" and agree: "blocks_agree get get'"
    and "stream_at get c xs" and "stream_at get' c' ys" and "length xs = Suc n" and "length ys = Suc n"
  shows "\<exists>rs. common_ancestor_loop lhs rhs n c c' = (rs, Inr (last_common (common_blocks xs ys)))
    \<and> reads_as_expected rs"
  using assms(4-7)
proof (induction n arbitrary: c c' xs ys)
  case (0 c c' xs ys)
  then obtain x y where xy: "xs = [x]" "ys = [y]" by (cases xs; cases ys) auto
  with 0 read_both_streams [OF sides] obtain r r' where read: "read_both lhs rhs c c' =
      ([cws_on_expected lhs 1, cws_on_expected rhs 1, cws_on_read lhs 1, cws_on_read rhs 1],
       Inr (fst x, r, fst y, r'))" by blast
  show ?case
  proof (cases "fst x = fst y")
    case True
    with streams_meet [OF _ _ agree] 0 xy have "x = y" by blast
    with read xy expect_and_read_both [OF sides] show ?thesis
      by (simp add: common_ancestor_loop.simps [of lhs rhs 0] last_common_def)
  next
    case False
    then have "x \<noteq> y" by auto
    with False read xy expect_and_read_both [OF sides] show ?thesis
      by (simp add: common_ancestor_loop.simps [of lhs rhs 0] last_common_def common_blocks_def)
  qed
next
  case (Suc n c c' xs ys)
  then obtain x xs' y ys' where xy: "xs = x # xs'" "ys = y # ys'" "length xs' = Suc n" "length ys' = Suc n"
    by (cases xs; cases ys) auto
  with Suc.prems read_both_streams [OF sides] obtain r r' where read: "read_both lhs rhs c c' =
      ([cws_on_expected lhs 1, cws_on_expected rhs 1, cws_on_read lhs 1, cws_on_read rhs 1],
       Inr (fst x, r, fst y, r'))" and rest: "stream_at get r xs'" "stream_at get' r' ys'" by blast
  show ?case
  proof (cases "fst x = fst y")
    case True
    with streams_meet [OF _ _ agree] Suc.prems xy have "xs = ys" by blast
    with read xy True expect_and_read_both [OF sides] show ?thesis
      by (simp add: common_ancestor_loop.simps [of lhs rhs "Suc n"] last_common_def)
  next
    case False
    then have "common_blocks xs ys = common_blocks xs' ys'" using xy by (auto intro: common_blocks_Cons)
    moreover from Suc.IH [OF rest xy(3,4)] obtain rs
      where "common_ancestor_loop lhs rhs n r r' = (rs, Inr (last_common (common_blocks xs' ys')))"
        "reads_as_expected rs" by blast
    moreover from this(2) have "reads_as_expected
        ([cws_on_expected lhs 1, cws_on_expected rhs 1, cws_on_read lhs 1, cws_on_read rhs 1] @ rs)"
      using expect_and_read_both [OF sides] by blast
    ultimately show ?thesis
      using read False by (simp add: common_ancestor_loop.simps [of lhs rhs "Suc n"])
  qed
qed

lemma nothing_expected: "one_side w get \<Longrightarrow> reads_as_expected [cws_on_expected w 0]"
  using expected_then_read [of w get 0] by simp

text \<open>The comparator only ever calls the search with equal sequence numbers.\<close>

lemma find_common_ancestor_exact:
  assumes sides: "one_side lhs get" "one_side rhs get'" and agree: "blocks_agree get get'"
    and chains: "chain_at get h xs" "chain_at get' h' ys" "length xs = length ys" "length ys \<le> 2 ^ 64"
  shows "\<exists>rs. find_common_ancestor_sequence_number lhs h (of_nat (length ys - 1)) rhs h' (of_nat (length ys - 1)) =
      (rs, Inr (last_common (common_blocks xs ys))) \<and> reads_as_expected rs"
proof -
  define n where "n = length ys - 1"
  with chains chain_at_nonempty [OF chains(2)] have n: "length xs = Suc n" "length ys = Suc n" "n < 2 ^ 64"
    by (auto simp: Suc_diff_Suc)
  then have unat: "unat (of_nat n :: u64) = n" by (simp add: unsigned_of_nat take_bit_nat_eq_self)
  have "stream_at get (Some h) xs" "stream_at get' (Some h') ys" using chains by (simp_all add: stream_at_def)
  from common_ancestor_loop_exact [OF sides agree this n(1,2)] obtain rs
    where "common_ancestor_loop lhs rhs n (Some h) (Some h') = (rs, Inr (last_common (common_blocks xs ys)))"
      "reads_as_expected rs" by blast
  then show ?thesis
    using nothing_expected [OF sides(2)] reads_as_expected_append [of "[cws_on_expected rhs 0]" rs]
    unfolding n_def [symmetric]
    by (simp add: find_common_ancestor_sequence_number_def expecting_to_read_blocks_def unat)
qed

subsection \<open>Chains of different lengths\<close>

lemma chain_at_drop:
  assumes "chain_at get h bs" and "n < length bs"
  shows "chain_at get (fst (bs ! n)) (drop n bs)"
  using assms
proof (induction arbitrary: n rule: chain_at.induct)
  case (chain_root h b)
  then show ?case by (simp add: chain_at.chain_root)
next
  case (chain_step h b p bs)
  then show ?case by (cases n) (auto intro: chain_at.chain_step)
qed

lemma chain_at_prev:
  assumes "chain_at get h bs" and "Suc n < length bs"
  shows "prev_block_hash (snd (bs ! n)) = Some (fst (bs ! Suc n))"
  using assms
proof (induction arbitrary: n rule: chain_at.induct)
  case (chain_step h b p bs)
  show ?case
  proof (cases n)
    case 0
    from chain_at_hd [OF chain_step.hyps(3)] chain_at_nonempty [OF chain_step.hyps(3)]
    have "fst (bs ! 0) = p" by (auto simp: hd_conv_nth)
    with chain_step.hyps 0 show ?thesis by simp
  next
    case (Suc m)
    with chain_step show ?thesis by simp
  qed
qed simp

lemma suffix_drop_iff: "suffix ys xs \<longleftrightarrow> length ys \<le> length xs \<and> drop (length xs - length ys) xs = ys"
  by (auto simp: suffix_def) (metis append_take_drop_id)

lemma diff_diff_cancel_group: "a - (a - b) = (b :: u64)"
  by (simp add: diff_diff_eq2)

lemma check_expected_exact:
  assumes sides: "one_side ahead get" "one_side ref get'" and agree: "blocks_agree get get'"
    and chains: "chain_at get h xs" "chain_at get' h' ys" "length ys < length xs" "length xs \<le> 2 ^ 64"
  shows "\<exists>rs. check_expected_common_ancestor ahead (of_nat (length xs - 1)) h ref (of_nat (length ys - 1)) h' =
      (rs, Inr (if suffix ys xs then CheckSuccess (take (length xs - length ys) xs)
                else CheckFailure (last_common (common_blocks xs ys)))) \<and> reads_as_expected rs"
proof -
  define m where "m = length xs - length ys"
  have ys: "0 < length ys" using chain_at_nonempty [OF chains(2)] by simp
  with chains(3,4) have m: "0 < m" "m < length xs" "m < 2 ^ 64" "length (drop m xs) = length ys"
    using length_drop [of m xs] unfolding m_def by linarith+
  have size: "of_nat (length xs - 1) - of_nat (length ys - 1) = (of_nat m :: u64)"
  proof -
    have "m = (length xs - 1) - (length ys - 1)" "length ys - 1 \<le> length xs - 1"
      using chains(3) ys by (simp_all add: m_def)
    then show ?thesis by (simp only: of_nat_diff)
  qed
  have unat: "unat (of_nat m :: u64) = m" using m(3) by (simp add: unsigned_of_nat take_bit_nat_eq_self)
  let ?taken = "replicate m (cws_on_read ahead 1)"
  have taken: "stats_take ahead m (Some h) = (?taken, Inr (take m xs))"
    using stats_take_stream [OF sides(1), of "Some h" xs m] chains(1) m(2) by (simp add: stream_at_def)
  have reads: "reads_as_expected (cws_on_expected ahead (of_nat m) # ?taken)"
    using expected_then_read [OF sides(1), of m] .
  have nonempty: "take m xs \<noteq> []" using m by auto
  then have last: "take m xs \<noteq> []" "last (take m xs) = xs ! (m - 1)"
    using m by (simp_all add: last_conv_nth min_def)
  have prev: "prev_block_hash (snd (xs ! (m - 1))) = Some (fst (xs ! m))"
    using chain_at_prev [OF chains(1), of "m - 1"] m(1,2) by simp
  have rest: "chain_at get (fst (xs ! m)) (drop m xs)" using chain_at_drop [OF chains(1) m(2)] .
  have meet: "fst (xs ! m) = h' \<longleftrightarrow> suffix ys xs"
  proof
    assume "fst (xs ! m) = h'"
    with chains_meet [OF rest _ agree] chains(2) have "drop m xs = ys" by simp
    then show "suffix ys xs" by (metis suffix_drop)
  next
    assume "suffix ys xs"
    then have "drop m xs = ys" by (simp add: suffix_drop_iff m_def)
    with chain_at_hd [OF rest] chain_at_hd [OF chains(2)] show "fst (xs ! m) = h'" by auto
  qed
  show ?thesis
  proof (cases "suffix ys xs")
    case True
    with meet taken last prev reads size unat show ?thesis
      by (simp add: check_expected_common_ancestor_def Let_def expecting_to_read_blocks_def unwrap_next_def
          unwrap_def flip: m_def)
  next
    case False
    have common: "common_blocks xs ys = common_blocks (drop m xs) ys"
      using common_blocks_ahead(1) [OF m(4), of "take m xs"] by simp
    from find_common_ancestor_exact [OF sides agree rest chains(2) m(4)] chains(3,4) obtain rs
      where rs: "find_common_ancestor_sequence_number ahead (fst (xs ! m)) (of_nat (length ys - 1)) ref h'
          (of_nat (length ys - 1)) = (rs, Inr (last_common (common_blocks xs ys)))" "reads_as_expected rs"
      by (auto simp: common)
    have down: "of_nat (length xs - 1) - of_nat m = (of_nat (length ys - 1) :: u64)"
      unfolding size [symmetric] by (rule diff_diff_cancel_group)
    from False meet taken last prev size unat rs(1) down reads_as_expected_append [OF reads rs(2)] show ?thesis
      by (simp add: check_expected_common_ancestor_def Let_def expecting_to_read_blocks_def unwrap_next_def
          unwrap_def)
  qed
qed

subsection \<open>Both chains\<close>

text \<open>A chain whose head carries the number of the blocks below it, as every valid chain does.\<close>

definition numbered_chain ::
  "(multihash \<Rightarrow> get_block_error + metadata_block) \<Rightarrow> multihash \<Rightarrow> hashed_block list \<Rightarrow> bool" where
  "numbered_chain get h bs \<longleftrightarrow>
     chain_at get h bs \<and> sequence_number (snd (hd bs)) = of_nat (length bs - 1) \<and> length bs \<le> 2 ^ 64"

lemma valid_chain_numbered:
  assumes "chain_at get h bs" and "valid_chain (map snd bs)" and "length bs \<le> 2 ^ 64"
  shows "numbered_chain get h bs"
  using assms chain_at_nonempty [OF assms(1)] valid_chain_sequence_number [OF assms(2), of 0]
  by (simp add: numbered_chain_def hd_conv_nth)

lemma read_head:
  assumes "one_side w get" and "numbered_chain get h bs"
  shows "\<exists>b. stats_get_block w h = ([cws_on_read w 1], Inr b) \<and> sequence_number b = of_nat (length bs - 1)"
  using assms chain_at_hd [of get h bs] one_side_get [OF assms(1)]
  by (auto simp: stats_get_block_def numbered_chain_def)

lemma unat_of_nat_u64: "k < 2 ^ 64 \<Longrightarrow> unat (of_nat k :: u64) = k"
  by (simp add: unsigned_of_nat take_bit_nat_eq_self)

lemma seq_order:
  assumes "0 < m" "0 < n" "m \<le> 2 ^ 64" "n \<le> 2 ^ 64"
  shows "(of_nat (m - 1) :: u64) = of_nat (n - 1) \<longleftrightarrow> m = n"
    and "(of_nat (m - 1) :: u64) < of_nat (n - 1) \<longleftrightarrow> m < n"
proof -
  have unat: "unat (of_nat (m - 1) :: u64) = m - 1" "unat (of_nat (n - 1) :: u64) = n - 1"
    by (rule unat_of_nat_u64, use assms in linarith)+
  show "(of_nat (m - 1) :: u64) = of_nat (n - 1) \<longleftrightarrow> m = n"
    unfolding word_unat_eq_iff unat using assms(1,2) by linarith
  show "(of_nat (m - 1) :: u64) < of_nat (n - 1) \<longleftrightarrow> m < n"
    unfolding word_less_nat_alt unat using assms(1,2) by linarith
qed

lemma compare_heads_exact:
  assumes agree: "blocks_agree get get'"
    and chains: "numbered_chain get h xs" "numbered_chain get' h' ys" and "h \<noteq> h'"
  shows "\<exists>rs. compare_heads (lhs_with_stats get) h (of_nat (length xs - 1)) (rhs_with_stats get') h'
      (of_nat (length ys - 1)) = (rs, Inr (compare_chains_spec xs ys)) \<and> reads_as_expected rs"
proof -
  have at: "chain_at get h xs" "chain_at get' h' ys" and bound: "length xs \<le> 2 ^ 64" "length ys \<le> 2 ^ 64"
    using chains by (simp_all add: numbered_chain_def)
  have nonempty: "0 < length xs" "0 < length ys" using chain_at_nonempty at by auto
  have differ: "xs \<noteq> ys" using assms(4) chain_at_hd [OF at(1)] chain_at_hd [OF at(2)] by auto
  define a :: u64 where "a = of_nat (length xs - 1)"
  define b :: u64 where "b = of_nat (length ys - 1)"
  note a_b_def = a_def b_def
  note order = seq_order(1) [OF nonempty bound, folded a_b_def] seq_order(2) [OF nonempty(2,1) bound(2,1), folded a_b_def]
  have diverged: "describe_divergence a b (last_common (common_blocks xs ys))
      = Divergence (of_nat (length xs - common_blocks xs ys)) (of_nat (length ys - common_blocks xs ys))"
    unfolding a_b_def by (rule describe_divergence_common [OF common_blocks_le common_blocks_le2 nonempty])
  show ?thesis
    unfolding a_b_def [symmetric]
  proof (cases "length xs" "length ys" rule: linorder_cases)
    case equal
    with differ have "\<not> suffix ys xs" "\<not> suffix xs ys" by (auto simp: suffix_drop_iff)
    with find_common_ancestor_exact [OF one_side_simps agree at equal bound(2), folded a_b_def]
      diverged differ order equal a_b_def
    show "\<exists>rs. compare_heads (lhs_with_stats get) h a (rhs_with_stats get') h' b =
        (rs, Inr (compare_chains_spec xs ys)) \<and> reads_as_expected rs"
      by (auto simp: compare_heads_def compare_chains_spec_def simp del: of_nat_diff)
  next
    case greater
    then have "\<not> suffix xs ys" by (auto simp: suffix_drop_iff)
    with check_expected_exact [OF one_side_simps agree at greater bound(1), folded a_b_def]
      diverged differ greater order
    show "\<exists>rs. compare_heads (lhs_with_stats get) h a (rhs_with_stats get') h' b =
        (rs, Inr (compare_chains_spec xs ys)) \<and> reads_as_expected rs"
      by (auto simp: compare_heads_def compare_chains_spec_def)
  next
    case less
    then have "\<not> suffix ys xs" by (auto simp: suffix_drop_iff)
    with check_expected_exact [OF one_side_simps(2,1) blocks_agree_sym [OF agree] at(2,1) less bound(2), folded a_b_def]
      diverged differ less order
    show "\<exists>rs. compare_heads (lhs_with_stats get) h a (rhs_with_stats get') h' b =
        (rs, Inr (compare_chains_spec xs ys)) \<and> reads_as_expected rs"
      by (auto simp: compare_heads_def compare_chains_spec_def common_blocks_commute [of ys])
  qed
qed

lemma compare_chains_outcome:
  assumes agree: "blocks_agree (chain_get_block cd lc) (chain_get_block cd rc)"
    and lhs: "numbered_chain (chain_get_block cd lc) lh xs"
    and rhs: "case rh of None \<Rightarrow> ys = [] | Some h \<Rightarrow> numbered_chain (chain_get_block cd rc) h ys"
  shows "\<exists>rs. compare_chains cd lc lh rc rh = Some (rs, Inr (compare_chains_spec xs ys)) \<and> reads_as_expected rs"
proof (cases rh)
  case None
  let ?w = "lhs_with_stats (chain_get_block cd lc)"
  from read_head [OF one_side_simps(1) lhs] obtain b where b: "stats_get_block ?w lh = ([cws_on_read ?w 1], Inr b)"
    "sequence_number b = of_nat (length xs - 1)" by blast
  have at: "chain_at (chain_get_block cd lc) lh xs" using lhs by (simp add: numbered_chain_def)
  then have "xs \<noteq> []" by (rule chain_at_nonempty)
  then have num: "sequence_number b + 1 = of_nat (length xs)" using b(2) by (cases xs) auto
  have "reads_as_expected [cws_on_expected ?w 1, cws_on_read ?w 1]"
    using expected_then_read [OF one_side_simps(1), of "chain_get_block cd lc" 1] by simp
  from reads_as_expected_append [OF this expected_then_read [OF one_side_simps(1), of "chain_get_block cd lc" "length xs"]]
  show ?thesis
    using None rhs b num stats_collect_chain [OF one_side_simps(1) at] \<open>xs \<noteq> []\<close>
    by (simp add: compare_chains_def Let_def expecting_to_read_blocks_def compare_chains_spec_def)
next
  case (Some h)
  with rhs have rhs: "numbered_chain (chain_get_block cd rc) h ys" by simp
  show ?thesis
  proof (cases "lh = h")
    case True
    with chains_meet [OF _ _ agree] lhs rhs have "xs = ys" by (auto simp: numbered_chain_def)
    with True Some show ?thesis
      by (simp add: compare_chains_def compare_chains_spec_def reads_as_expected_def read_counters)
  next
    case False
    let ?l = "lhs_with_stats (chain_get_block cd lc)" and ?r = "rhs_with_stats (chain_get_block cd rc)"
    from read_head [OF one_side_simps(1) lhs] obtain b where b: "stats_get_block ?l lh = ([cws_on_read ?l 1], Inr b)"
      "sequence_number b = of_nat (length xs - 1)" by blast
    from read_head [OF one_side_simps(2) rhs] obtain b' where b': "stats_get_block ?r h = ([cws_on_read ?r 1], Inr b')"
      "sequence_number b' = of_nat (length ys - 1)" by blast
    from compare_heads_exact [OF agree lhs rhs False] obtain rs where rs:
      "compare_heads ?l lh (of_nat (length xs - 1)) ?r h (of_nat (length ys - 1)) = (rs, Inr (compare_chains_spec xs ys))"
      "reads_as_expected rs" by blast
    have "reads_as_expected [cws_on_expected ?l 1, cws_on_read ?l 1, cws_on_expected ?r 1, cws_on_read ?r 1]"
      by (simp add: lhs_with_stats_def rhs_with_stats_def reads_as_expected_def read_counters)
    from reads_as_expected_append [OF this rs(2)] show ?thesis
      using Some False b b' rs(1)
      by (simp add: compare_chains_def Let_def expecting_to_read_blocks_def)
  qed
qed

end
