(* ===== verification/Sync.thy ===== *)
theory Sync
  imports Chain_Compare
begin

text \<open>
  The simple transfer protocol (\<open>simple_transfer_protocol.rs\<close>, with the results, errors and
  statistics of \<open>sync_service.rs\<close>): it copies the blocks, the data and the checkpoints of a source
  dataset to a destination, and moves the head of the destination last. The model returns the
  result, the destination it leaves (also on failure) and the statuses it reported to its
  listener, in order.

  The downloads run concurrently, in an order that the runtime chooses: \<open>schedule\<close> gives, for the
  list of downloads, the order in which they take effect. Each takes effect at once, as it moves a
  finished file in place and then updates the statistics without yielding; the first failure ends
  the transfer, so the downloads after it in this order did not happen. Creating the
  destination is the caller's function, a parameter here as it is in the code.
\<close>

section \<open>Results, errors and statistics\<close>

datatype create_dataset_error =
    CreateEmptyDataset
  | CreateNameCollision string
  | CreateRefCollision dataset_id
  | CreateInternal string

datatype sync_result = UpToDate | Updated "multihash option" multihash u64  \<comment> \<open>old head, new head, blocks\<close>

text \<open>
  The message of \<open>CorruptedSourceError\<close>; two of the messages quote values: a mismatch of hashes names
  the one \<open>declared by the source\<close>, the one that was \<open>computed\<close> and the block.
\<close>

datatype corrupted_source_error =
    CorruptedMessage string
  | DeclaredHashMismatch multihash multihash u64
  | LogicallyInconsistent multihash u64

datatype sync_error =
    SyncDatasetNotFound dataset_ref_any
  | SyncRefCollision dataset_id
  | SyncCreateDatasetFailed create_dataset_error
  | SyncUnsupportedProtocol string
  | SyncRepositoryNotFound string
  | SyncDatasetsDiverged multihash multihash "(u64 \<times> u64) option"
  | SyncDestinationAhead multihash multihash nat
  | SyncCorrupted corrupted_source_error
  | SyncUpdatedConcurrently
  | SyncAccess access_error
  | SyncInternal string

datatype sync_stage = ReadMetadata | TransferData | CommitBlocks

record sync_party_stats =
  sp_metadata_blocks_read :: u64
  sp_metadata_blocks_written :: u64
  sp_checkpoints_read :: u64
  sp_checkpoints_written :: u64
  sp_data_slices_read :: u64
  sp_data_slices_written :: u64
  sp_data_records_read :: u64
  sp_data_records_written :: u64
  sp_bytes_read :: u64
  sp_bytes_written :: u64

definition default_party_stats :: sync_party_stats where
  "default_party_stats =
     \<lparr>sp_metadata_blocks_read = 0, sp_metadata_blocks_written = 0, sp_checkpoints_read = 0,
      sp_checkpoints_written = 0, sp_data_slices_read = 0, sp_data_slices_written = 0,
      sp_data_records_read = 0, sp_data_records_written = 0, sp_bytes_read = 0, sp_bytes_written = 0\<rparr>"

record sync_stats =
  st_src :: sync_party_stats
  st_src_estimated :: sync_party_stats
  st_dst :: sync_party_stats
  st_dst_estimated :: sync_party_stats

definition default_sync_stats :: sync_stats where
  "default_sync_stats =
     \<lparr>st_src = default_party_stats, st_src_estimated = default_party_stats,
      st_dst = default_party_stats, st_dst_estimated = default_party_stats\<rparr>"

type_synonym sync_log = "(sync_stage \<times> sync_stats) list"

fun sync_error_of_compare :: "compare_chains_error \<Rightarrow> sync_error" where
  "sync_error_of_compare (CompareCorrupted m) = SyncCorrupted (CorruptedMessage m)"
| "sync_error_of_compare (CompareAccess e) = SyncAccess e"
| "sync_error_of_compare (CompareInternal m) = SyncInternal m"

section \<open>The listener of the comparison\<close>

fun compare_adapter_step :: "compare_report \<Rightarrow> sync_stats \<Rightarrow> sync_stats" where
  "compare_adapter_step (LhsExpectedReads n) s =
     s\<lparr>st_src_estimated := (st_src_estimated s)
         \<lparr>sp_metadata_blocks_read := sp_metadata_blocks_read (st_src_estimated s) + n\<rparr>\<rparr>"
| "compare_adapter_step (LhsRead n) s =
     s\<lparr>st_src := (st_src s)\<lparr>sp_metadata_blocks_read := sp_metadata_blocks_read (st_src s) + n\<rparr>\<rparr>"
| "compare_adapter_step (RhsExpectedReads n) s =
     s\<lparr>st_dst_estimated := (st_dst_estimated s)
         \<lparr>sp_metadata_blocks_read := sp_metadata_blocks_read (st_dst_estimated s) + n\<rparr>\<rparr>"
| "compare_adapter_step (RhsRead n) s =
     s\<lparr>st_dst := (st_dst s)\<lparr>sp_metadata_blocks_read := sp_metadata_blocks_read (st_dst s) + n\<rparr>\<rparr>"

text \<open>The statistics after the reports, and the status that was sent with each of them.\<close>

fun compare_adapter :: "compare_report list \<Rightarrow> sync_stats \<Rightarrow> sync_log \<times> sync_stats" where
  "compare_adapter [] s = ([], s)"
| "compare_adapter (r # rs) s =
     (let s' = compare_adapter_step r s; (log, s'') = compare_adapter rs s'
      in ((ReadMetadata, s') # log, s''))"

section \<open>Heads\<close>

definition get_src_head :: "externs \<Rightarrow> dataset_ref_any \<Rightarrow> chain \<Rightarrow> (sync_error, multihash) res" where
  "get_src_head x src_ref c =
     (case chain_resolve_ref x c Head of
        Inr head \<Rightarrow> Inr head
      | Inl (Fail (RefNotFound _)) \<Rightarrow> Inl (Fail (SyncDatasetNotFound src_ref))
      | Inl (Fail (RefAccess e)) \<Rightarrow> Inl (Fail (SyncAccess e))
      | Inl (Fail (RefInternal m)) \<Rightarrow> Inl (Fail (SyncInternal m))
      | Inl (Panic m) \<Rightarrow> Inl (Panic m))"

definition get_dest_head :: "externs \<Rightarrow> chain \<Rightarrow> (sync_error, multihash option) res" where
  "get_dest_head x c =
     (case chain_resolve_ref x c Head of
        Inr h \<Rightarrow> Inr (Some h)
      | Inl (Fail (RefNotFound _)) \<Rightarrow> Inr None
      | Inl (Fail (RefAccess e)) \<Rightarrow> Inl (Fail (SyncAccess e))
      | Inl (Fail (RefInternal m)) \<Rightarrow> Inl (Fail (SyncInternal m))
      | Inl (Panic m) \<Rightarrow> Inl (Panic m))"

fun map_block_iteration_error :: "iter_blocks_error \<Rightarrow> sync_error fault" where
  "map_block_iteration_error (IterRefNotFound _) = Fail (SyncInternal ''reference not found'')"
| "map_block_iteration_error (IterBlockNotFound _) = Fail (SyncCorrupted (CorruptedMessage ''Source metadata chain is broken''))"
| "map_block_iteration_error (IterBlockVersion _) = Fail (SyncCorrupted (CorruptedMessage ''Source metadata chain is broken''))"
| "map_block_iteration_error (IterBlockMalformed _) = Fail (SyncCorrupted (CorruptedMessage ''Source metadata chain is broken''))"
| "map_block_iteration_error (IterInvalidInterval _ _) = Panic ''internal error: entered unreachable code''"
| "map_block_iteration_error (IterAccess e) = Fail (SyncAccess e)"
| "map_block_iteration_error (IterInternal m) = Fail (SyncInternal m)"

section \<open>Downloading objects\<close>

text \<open>
  \<open>insert_stream\<close> of the repository on the local file system: the stream is written to a staging
  file and hashed; an object that exists already is kept.
\<close>

definition fs_insert_stream ::
  "externs \<Rightarrow> object_repo \<Rightarrow> bytes \<Rightarrow> insert_opts \<Rightarrow> (insert_error, multihash \<times> object_repo) res" where
  "fs_insert_stream x r src opts =
     (case multihash_new Sha3_256 (sha3_256_digest x src) of
        Inl _ \<Rightarrow> Inl (Panic ''called Result::unwrap() on an Err value'')
      | Inr actual_hash \<Rightarrow>
          let hash = (case io_precomputed_hash opts of Some hash \<Rightarrow> hash | None \<Rightarrow> actual_hash)
          in and_then
               (case io_expected_hash opts of
                  Some expected \<Rightarrow> ensure (expected = hash) (Fail (HashMismatch expected hash))
                | None \<Rightarrow> Inr ())
               (\<lambda>_. if obj_contains r hash then Inr (hash, r) else Inr (hash, r(hash \<mapsto> src))))"

text \<open>What a transfer changes: the destination, the shared statistics, and what the listener heard.\<close>

record transfer_state =
  ts_dst :: dataset
  ts_stats :: sync_stats
  ts_log :: sync_log

fun sync_error_of_get :: "string \<Rightarrow> get_error \<Rightarrow> sync_error" where
  "sync_error_of_get missing (GetNotFound _) = SyncCorrupted (CorruptedMessage missing)"
| "sync_error_of_get missing (GetAccess e) = SyncAccess e"
| "sync_error_of_get missing (GetInternal m) = SyncInternal m"

fun sync_error_of_insert :: "string \<Rightarrow> insert_error \<Rightarrow> sync_error" where
  "sync_error_of_insert mismatch (HashMismatch _ _) = SyncCorrupted (CorruptedMessage mismatch)"
| "sync_error_of_insert mismatch (InsertAccess e) = SyncAccess e"
| "sync_error_of_insert mismatch (InsertInternal m) = SyncInternal m"

text \<open>The part that the downloads of data and of checkpoints share: read the object, insert it.\<close>

definition transfer_object ::
  "externs \<Rightarrow> string \<Rightarrow> string \<Rightarrow> object_repo \<Rightarrow> object_repo \<Rightarrow> multihash \<Rightarrow> bool \<Rightarrow>
   (sync_error, object_repo) res" where
  "transfer_object x missing mismatch src_repo dst_repo hash trust_source_hashes =
     and_then (map_err (\<lambda>e. Fail (sync_error_of_get missing e)) (obj_get_bytes src_repo hash)) (\<lambda>stream.
     and_then (map_err (map_fault (sync_error_of_insert mismatch))
       (fs_insert_stream x dst_repo stream
          \<lparr>io_precomputed_hash = (if \<not> trust_source_hashes then None else Some hash),
           io_expected_hash = Some hash\<rparr>)) (\<lambda>(_, repo). Inr repo))"

definition data_transferred :: "data_slice \<Rightarrow> sync_stats \<Rightarrow> sync_stats" where
  "data_transferred sl s =
     s\<lparr>st_src := (st_src s)\<lparr>sp_data_slices_read := sp_data_slices_read (st_src s) + 1,
           sp_data_records_read := sp_data_records_read (st_src s) + data_slice_num_records sl,
           sp_bytes_read := sp_bytes_read (st_src s) + ds_size sl\<rparr>,
       st_dst := (st_dst s)\<lparr>sp_data_slices_written := sp_data_slices_written (st_dst s) + 1,
           sp_data_records_written := sp_data_records_written (st_dst s) + data_slice_num_records sl,
           sp_bytes_written := sp_bytes_written (st_dst s) + ds_size sl\<rparr>\<rparr>"

definition checkpoint_transferred :: "checkpoint \<Rightarrow> sync_stats \<Rightarrow> sync_stats" where
  "checkpoint_transferred cp s =
     s\<lparr>st_src := (st_src s)\<lparr>sp_checkpoints_read := sp_checkpoints_read (st_src s) + 1,
           sp_bytes_read := sp_bytes_read (st_src s) + cp_size cp\<rparr>,
       st_dst := (st_dst s)\<lparr>sp_checkpoints_written := sp_checkpoints_written (st_dst s) + 1,
           sp_bytes_written := sp_bytes_written (st_dst s) + cp_size cp\<rparr>\<rparr>"

definition download_block_data ::
  "externs \<Rightarrow> dataset \<Rightarrow> bool \<Rightarrow> data_slice \<Rightarrow> transfer_state \<Rightarrow> (sync_error, unit) res \<times> transfer_state" where
  "download_block_data x src trust_source_hashes sl ts =
     (case transfer_object x ''Source data file is missing''
             (''Data file hash declared by the source didn't match the computed - '' @
              ''this may be an indication of hashing algorithm mismatch or an attempted tampering'')
             (dset_data_repo src) (dset_data_repo (ts_dst ts)) (ds_physical_hash sl) trust_source_hashes of
        Inl f \<Rightarrow> (Inl f, ts)
      | Inr repo \<Rightarrow>
          let stats = data_transferred sl (ts_stats ts)
          in (Inr (), ts\<lparr>ts_dst := (ts_dst ts)\<lparr>dset_data_repo := repo\<rparr>, ts_stats := stats,
                         ts_log := ts_log ts @ [(TransferData, stats)]\<rparr>))"

definition download_block_checkpoint ::
  "externs \<Rightarrow> dataset \<Rightarrow> bool \<Rightarrow> checkpoint \<Rightarrow> transfer_state \<Rightarrow> (sync_error, unit) res \<times> transfer_state" where
  "download_block_checkpoint x src trust_source_hashes cp ts =
     (case transfer_object x ''Source checkpoint file is missing''
             (''Checkpoint file hash declared by the source didn't match the computed - '' @
              ''this may be an indication of hashing algorithm mismatch or an attempted tampering'')
             (dset_checkpoint_repo src) (dset_checkpoint_repo (ts_dst ts)) (cp_physical_hash cp) trust_source_hashes of
        Inl f \<Rightarrow> (Inl f, ts)
      | Inr repo \<Rightarrow>
          let stats = checkpoint_transferred cp (ts_stats ts)
          in (Inr (), ts\<lparr>ts_dst := (ts_dst ts)\<lparr>dset_checkpoint_repo := repo\<rparr>, ts_stats := stats,
                         ts_log := ts_log ts @ [(TransferData, stats)]\<rparr>))"

datatype download = DownloadData data_slice | DownloadCheckpoint checkpoint

fun run_download ::
  "externs \<Rightarrow> dataset \<Rightarrow> bool \<Rightarrow> download \<Rightarrow> transfer_state \<Rightarrow> (sync_error, unit) res \<times> transfer_state" where
  "run_download x src trust (DownloadData sl) = download_block_data x src trust sl"
| "run_download x src trust (DownloadCheckpoint cp) = download_block_checkpoint x src trust cp"

definition block_downloads :: "metadata_block \<Rightarrow> download list" where
  "block_downloads b =
     (case as_data_stream_block b of
        None \<Rightarrow> []
      | Some blk \<Rightarrow>
          (case dse_new_data (dsb_event blk) of None \<Rightarrow> [] | Some sl \<Rightarrow> [DownloadData sl])
          @ (case dse_new_checkpoint (dsb_event blk) of None \<Rightarrow> [] | Some cp \<Rightarrow> [DownloadCheckpoint cp]))"

definition block_download_tasks :: "hashed_block list \<Rightarrow> download list" where
  "block_download_tasks blocks = concat (map (block_downloads \<circ> snd) (rev blocks))"

section \<open>Synchronizing blocks\<close>

definition estimate_data :: "data_slice \<Rightarrow> sync_stats \<Rightarrow> sync_stats" where
  "estimate_data sl s =
     s\<lparr>st_src_estimated := (st_src_estimated s)
         \<lparr>sp_data_slices_read := sp_data_slices_read (st_src_estimated s) + 1,
          sp_bytes_read := sp_bytes_read (st_src_estimated s) + ds_size sl,
          sp_data_records_read := sp_data_records_read (st_src_estimated s) + data_slice_num_records sl\<rparr>,
       st_dst_estimated := (st_dst_estimated s)
         \<lparr>sp_data_slices_written := sp_data_slices_written (st_dst_estimated s) + 1,
          sp_bytes_written := sp_bytes_written (st_dst_estimated s) + ds_size sl,
          sp_data_records_written := sp_data_records_written (st_dst_estimated s) + data_slice_num_records sl\<rparr>\<rparr>"

definition estimate_checkpoint :: "checkpoint \<Rightarrow> sync_stats \<Rightarrow> sync_stats" where
  "estimate_checkpoint cp s =
     s\<lparr>st_src_estimated := (st_src_estimated s)
         \<lparr>sp_checkpoints_read := sp_checkpoints_read (st_src_estimated s) + 1,
          sp_bytes_read := sp_bytes_read (st_src_estimated s) + cp_size cp\<rparr>,
       st_dst_estimated := (st_dst_estimated s)
         \<lparr>sp_checkpoints_written := sp_checkpoints_written (st_dst_estimated s) + 1,
          sp_bytes_written := sp_bytes_written (st_dst_estimated s) + cp_size cp\<rparr>\<rparr>"

fun estimate_download :: "download \<Rightarrow> sync_stats \<Rightarrow> sync_stats" where
  "estimate_download (DownloadData sl) = estimate_data sl"
| "estimate_download (DownloadCheckpoint cp) = estimate_checkpoint cp"

definition estimate_stats :: "hashed_block list \<Rightarrow> sync_stats \<Rightarrow> sync_stats" where
  "estimate_stats blocks s =
     fold estimate_download (concat (map (block_downloads \<circ> snd) blocks))
       (s\<lparr>st_dst_estimated := (st_dst_estimated s)
            \<lparr>sp_metadata_blocks_written :=
               sp_metadata_blocks_written (st_dst_estimated s) + of_nat (length blocks)\<rparr>\<rparr>)"

definition sync_append_opts :: "append_validation \<Rightarrow> bool \<Rightarrow> multihash \<Rightarrow> append_opts" where
  "sync_append_opts validation trust_source_hashes hash =
     default_append_opts
       \<lparr>ao_validation := validation, ao_update_ref := None,
        ao_precomputed_hash := (if \<not> trust_source_hashes then None else Some hash),
        ao_expected_hash := Some hash\<rparr>"

fun sync_error_of_append :: "multihash \<Rightarrow> u64 \<Rightarrow> append_error \<Rightarrow> sync_error fault" where
  "sync_error_of_append hash n (InvalidBlock (ValHashMismatch expected actual)) =
     Fail (SyncCorrupted (DeclaredHashMismatch actual expected n))"
| "sync_error_of_append hash n (InvalidBlock _) = Fail (SyncCorrupted (LogicallyInconsistent hash n))"
| "sync_error_of_append hash n (AppendRefNotFound _) = Panic ''internal error: entered unreachable code''"
| "sync_error_of_append hash n (RefCASFailed _ _ _) = Panic ''internal error: entered unreachable code''"
| "sync_error_of_append hash n (AppendAccess e) = Fail (SyncAccess e)"
| "sync_error_of_append hash n (AppendInternal m) = Fail (SyncInternal m)"

fun fault_bind :: "('e \<Rightarrow> 'f fault) \<Rightarrow> 'e fault \<Rightarrow> 'f fault" where
  "fault_bind f (Panic m) = Panic m"
| "fault_bind f (Fail e) = f e"

fun commit_blocks ::
  "externs \<Rightarrow> codec \<Rightarrow> append_validation \<Rightarrow> bool \<Rightarrow> hashed_block list \<Rightarrow> transfer_state \<Rightarrow>
   ((sync_error, unit) res \<times> transfer_state) option" where
  "commit_blocks x cd validation trust [] ts = Some (Inr (), ts)"
| "commit_blocks x cd validation trust ((hash, block) # blocks) ts =
     Option.bind
       (chain_append x cd (dset_chain (ts_dst ts)) block (sync_append_opts validation trust hash))
       (\<lambda>(r, c).
          let ts' = ts\<lparr>ts_dst := (ts_dst ts)\<lparr>dset_chain := c\<rparr>\<rparr>
          in (case r of
                Inl f \<Rightarrow> Some (Inl (fault_bind (sync_error_of_append hash (sequence_number block)) f), ts')
              | Inr _ \<Rightarrow>
                  let stats = (ts_stats ts)
                        \<lparr>st_dst := (st_dst (ts_stats ts))
                           \<lparr>sp_metadata_blocks_written := sp_metadata_blocks_written (st_dst (ts_stats ts)) + 1\<rparr>\<rparr>
                  in commit_blocks x cd validation trust blocks
                       (ts'\<lparr>ts_stats := stats, ts_log := ts_log ts @ [(CommitBlocks, stats)]\<rparr>)))"

fun sync_error_of_set_ref :: "set_ref_error \<Rightarrow> sync_error" where
  "sync_error_of_set_ref (SetRefCASFailed _ _ _) = SyncUpdatedConcurrently"
| "sync_error_of_set_ref (SetRefAccess e) = SyncAccess e"
| "sync_error_of_set_ref (SetRefInternal m) = SyncInternal m"
| "sync_error_of_set_ref (SetRefBlockNotFound h) = SyncInternal ''block not found''"

definition update_dst_head ::
  "externs \<Rightarrow> multihash \<Rightarrow> multihash option \<Rightarrow> transfer_state \<Rightarrow> (sync_error, unit) res \<times> transfer_state" where
  "update_dst_head x src_head dst_head ts =
     (let (r, c) = chain_set_ref x (dset_chain (ts_dst ts)) Head src_head
                     \<lparr>so_validate_block_present = False, so_check_ref_is = Some dst_head\<rparr>
      in (map_err (map_fault sync_error_of_set_ref) r, ts\<lparr>ts_dst := (ts_dst ts)\<lparr>dset_chain := c\<rparr>\<rparr>))"

text \<open>
  The commits report the statistics from before the downloads: \<open>arc_stats\<close> is a copy, and the
  counters that the downloads advanced are not read back.
\<close>

definition synchronize_blocks ::
  "externs \<Rightarrow> codec \<Rightarrow> (download list \<Rightarrow> download list) \<Rightarrow> hashed_block list \<Rightarrow> dataset \<Rightarrow> multihash \<Rightarrow>
   multihash option \<Rightarrow> append_validation \<Rightarrow> bool \<Rightarrow> transfer_state \<Rightarrow>
   ((sync_error, unit) res \<times> transfer_state) option" where
  "synchronize_blocks x cd schedule blocks src src_head dst_head validation trust ts =
     (let stats = estimate_stats blocks (ts_stats ts);
          ts1 = ts\<lparr>ts_stats := stats, ts_log := ts_log ts @ [(TransferData, stats)]\<rparr>
      in case feach (run_download x src trust) (schedule (block_download_tasks blocks)) ts1 of
           (Inl f, ts2) \<Rightarrow> Some (Inl f, ts2)
         | (Inr _, ts2) \<Rightarrow>
             Option.bind (commit_blocks x cd validation trust (rev blocks) (ts2\<lparr>ts_stats := stats\<rparr>))
               (\<lambda>(r, ts3). case r of
                  Inl f \<Rightarrow> Some (Inl f, ts3)
                | Inr _ \<Rightarrow> Some (update_dst_head x src_head dst_head ts3)))"

section \<open>Synchronizing datasets\<close>

text \<open>Whether the comparison lets the transfer proceed, and the blocks to transfer.\<close>

definition check_comparison ::
  "bool \<Rightarrow> multihash \<Rightarrow> multihash option \<Rightarrow> compare_chains_result \<Rightarrow> (sync_error, unit) res" where
  "check_comparison force src_head dst_head comparison =
     (case comparison of
        LhsBehind rhs_ahead_blocks \<Rightarrow>
          if force then Inr ()
          else and_then (unwrap dst_head) (\<lambda>h. Inl (Fail (SyncDestinationAhead src_head h (length rhs_ahead_blocks))))
      | Divergence in_src in_dst \<Rightarrow>
          if force then Inr ()
          else and_then (unwrap dst_head) (\<lambda>h. Inl (Fail (SyncDatasetsDiverged src_head h (Some (in_src, in_dst)))))
      | _ \<Rightarrow> Inr ())"

definition collect_stream :: "block_stream \<Rightarrow> (sync_error, hashed_block list) res" where
  "collect_stream stream =
     (case snd stream of
        None \<Rightarrow> Inr (fst stream)
      | Some f \<Rightarrow> Inl (fault_bind map_block_iteration_error f))"

definition blocks_to_transfer ::
  "externs \<Rightarrow> codec \<Rightarrow> chain \<Rightarrow> compare_chains_result \<Rightarrow> (sync_error, hashed_block list) res option" where
  "blocks_to_transfer x cd src_chain comparison =
     (case comparison of
        ChainsEqual \<Rightarrow> Some (Inl (Panic ''internal error: entered unreachable code''))
      | LhsAhead src_ahead_blocks \<Rightarrow> Some (Inr src_ahead_blocks)
      | _ \<Rightarrow> map_option collect_stream (iter_blocks x cd src_chain))"

text \<open>
  The destination to write to: the given one, or one created from the seed of the source, the last
  of the blocks, which then need not be transferred.
\<close>

definition ensure_destination ::
  "(metadata_block \<Rightarrow> (create_dataset_error, dataset \<times> multihash) res) option \<Rightarrow> dataset option \<Rightarrow>
   multihash option \<Rightarrow> hashed_block list \<Rightarrow>
   (sync_error, dataset \<times> multihash option \<times> hashed_block list) res" where
  "ensure_destination dst_factory maybe_dst dst_head blocks =
     (case maybe_dst of
        Some dst \<Rightarrow> Inr (dst, dst_head, blocks)
      | None \<Rightarrow>
          and_then (unwrap (if blocks = [] then None else Some (snd (last blocks)))) (\<lambda>first_block.
          and_then (ensure (is_Seed (event first_block))
            (Fail (SyncCorrupted (CorruptedMessage ''First metadata block is not Seed'')))) (\<lambda>_.
          and_then (unwrap dst_factory) (\<lambda>factory.
          and_then (map_err (map_fault SyncCreateDatasetFailed) (factory first_block)) (\<lambda>(dst, head).
            Inr (dst, Some head, butlast blocks))))))"

text \<open>The transfer proper, after the comparison let it proceed.\<close>

definition sync_transfer ::
  "externs \<Rightarrow> codec \<Rightarrow> (download list \<Rightarrow> download list) \<Rightarrow> dataset \<Rightarrow> dataset option \<Rightarrow>
   (metadata_block \<Rightarrow> (create_dataset_error, dataset \<times> multihash) res) option \<Rightarrow>
   append_validation \<Rightarrow> bool \<Rightarrow> multihash \<Rightarrow> multihash option \<Rightarrow> hashed_block list \<Rightarrow> sync_stats \<Rightarrow> sync_log \<Rightarrow>
   ((sync_error, sync_result) res \<times> dataset option \<times> sync_log) option" where
  "sync_transfer x cd schedule src maybe_dst dst_factory validation trust src_head dst_head blocks stats log =
     (case ensure_destination dst_factory maybe_dst dst_head blocks of
        Inl f \<Rightarrow> Some (Inl f, maybe_dst, log)
      | Inr (dst, head, rest) \<Rightarrow>
          map_option
            (\<lambda>(r, ts). (and_then r (\<lambda>_. Inr (Updated dst_head src_head (of_nat (length blocks)))),
                        Some (ts_dst ts), ts_log ts))
            (synchronize_blocks x cd schedule rest src src_head head validation trust
               \<lparr>ts_dst = dst, ts_stats = stats, ts_log = log\<rparr>))"

definition sync ::
  "externs \<Rightarrow> codec \<Rightarrow> (download list \<Rightarrow> download list) \<Rightarrow> dataset_ref_any \<Rightarrow> dataset \<Rightarrow> dataset option \<Rightarrow>
   (metadata_block \<Rightarrow> (create_dataset_error, dataset \<times> multihash) res) option \<Rightarrow>
   append_validation \<Rightarrow> bool \<Rightarrow> bool \<Rightarrow>
   ((sync_error, sync_result) res \<times> dataset option \<times> sync_log) option" where
  "sync x cd schedule src_ref src maybe_dst dst_factory validation trust force =
     (case and_then (get_src_head x src_ref (dset_chain src)) (\<lambda>src_head.
           and_then (case maybe_dst of None \<Rightarrow> Inr None | Some dst \<Rightarrow> get_dest_head x (dset_chain dst)) (\<lambda>dst_head.
             Inr (src_head, dst_head))) of
        Inl f \<Rightarrow> Some (Inl f, maybe_dst, [])
      | Inr (src_head, dst_head) \<Rightarrow>
          Option.bind
            (compare_chains cd (dset_chain src) src_head
               (case maybe_dst of None \<Rightarrow> empty_chain | Some dst \<Rightarrow> dset_chain dst) dst_head)
            (\<lambda>(reports, compared).
               let (log, stats) = compare_adapter reports default_sync_stats
               in (case map_err (map_fault sync_error_of_compare) compared of
                     Inl f \<Rightarrow> Some (Inl f, maybe_dst, log)
                   | Inr comparison \<Rightarrow>
                       if comparison = ChainsEqual then Some (Inr UpToDate, maybe_dst, log)
                       else (case check_comparison force src_head dst_head comparison of
                               Inl f \<Rightarrow> Some (Inl f, maybe_dst, log)
                             | Inr _ \<Rightarrow>
                                 Option.bind (blocks_to_transfer x cd (dset_chain src) comparison)
                                   (\<lambda>collected. case collected of
                                      Inl f \<Rightarrow> Some (Inl f, maybe_dst, log)
                                    | Inr blocks \<Rightarrow>
                                        sync_transfer x cd schedule src maybe_dst dst_factory validation trust
                                          src_head dst_head blocks stats log)))))"

end
