(* ===== verification/Sync_Properties.thy ===== *)
theory Sync_Properties
  imports Sync "HOL-Library.Multiset"
begin

text \<open>
  What the simple transfer protocol does to its destination. The first part holds for every source,
  also a malformed one: the transfer reads blocks under the hashes that the source gives them, adds
  objects and blocks to the destination and moves its head last. The second part follows a transfer
  from a well-formed source to its end.

  Both rely on \<open>transfer_compatible\<close>: the blocks of the source survive serialization, and no hash
  names a block of the source and different contents in the destination.
\<close>

definition transfer_compatible :: "codec \<Rightarrow> chain \<Rightarrow> chain \<Rightarrow> bool" where
  "transfer_compatible cd src dst \<longleftrightarrow>
     (\<forall>h b. chain_get_block cd src h = Inr b \<longrightarrow>
        wf_multihash h \<and> codec_ok_on cd b
        \<and> (\<forall>data bytes. write_manifest cd b = Inr data \<longrightarrow> meta_block_repo dst h = Some bytes \<longrightarrow> bytes = data))"

lemma transfer_compatibleD:
  assumes "transfer_compatible cd src dst" and "chain_get_block cd src h = Inr b"
  shows "wf_multihash h" "codec_ok_on cd b"
    "write_manifest cd b = Inr data \<Longrightarrow> meta_block_repo dst h = None \<or> meta_block_repo dst h = Some data"
  using assms by (cases "meta_block_repo dst h"; auto simp: transfer_compatible_def)+

lemma transfer_compatible_agree:
  assumes "transfer_compatible cd src dst"
  shows "blocks_agree (chain_get_block cd src) (chain_get_block cd dst)"
  unfolding blocks_agree_def
proof (intro allI impI)
  fix h b b' assume *: "chain_get_block cd src h = Inr b" "chain_get_block cd dst h = Inr b'"
  then obtain bytes where bytes: "meta_block_repo dst h = Some bytes" "read_manifest cd bytes = Inr b'"
    by (auto simp: chain_get_block_def repo_get_block_def obj_get_bytes_def deserialize_metadata_block_def
        res_simps split: option.splits)
  from assms * have ok: "codec_ok_on cd b" and same: "\<And>data. write_manifest cd b = Inr data \<Longrightarrow> bytes = data"
    using bytes(1) by (auto simp: transfer_compatible_def)
  from ok same bytes(2) show "b = b'" by (auto simp: codec_ok_on_def split: sum.splits)
qed

section \<open>One block\<close>

lemma sync_append_opts_simps [simp]:
  "ao_validation (sync_append_opts v t h) = v" "ao_update_ref (sync_append_opts v t h) = None"
  "ao_precomputed_hash (sync_append_opts v t h) = (if t then Some h else None)"
  "ao_expected_hash (sync_append_opts v t h) = Some h"
  by (simp_all add: sync_append_opts_def)

lemma transfer_append_sound:
  assumes "transfer_compatible cd src dst" and "chain_get_block cd src h = Inr b"
  shows "append_sound x cd dst b (sync_append_opts v t h)"
proof -
  have "insert_sound cd (meta_block_repo dst) b k"
    if "repo_insert_block x cd (meta_block_repo dst) b
      \<lparr>io_precomputed_hash = if t then Some h else None, io_expected_hash = Some h\<rparr> = Inr (k, r)" for k r
  proof -
    from repo_insert_block_Inr [OF that] have "k = h" by auto
    with transfer_compatibleD(2,3) [OF assms] show ?thesis
      by (simp add: insert_sound_def split: sum.split)
  qed
  moreover have "wf_multihash h" using assms by (auto simp: transfer_compatible_def)
  ultimately show ?thesis by (auto simp: append_sound_def split: sum.split)
qed

lemma transfer_append:
  assumes append: "chain_append x cd c b (sync_append_opts v t h) = Some (r, c')" and "externs_ok x"
    and compatible: "transfer_compatible cd src c" and block: "chain_get_block cd src h = Inr b"
  shows "ref_repo c' = ref_repo c" and "transfer_compatible cd src c'"
    and "chain_get_block cd c k = Inr a \<Longrightarrow> chain_get_block cd c' k = Inr a"
    and "r = Inr h' \<Longrightarrow> chain_get_block cd c' h = Inr b"
    and "v = ValidationFull \<Longrightarrow> chain_op x cd c c'"
proof -
  note sound = transfer_append_sound [OF compatible block, of x v t]
  have "ref_repo c' = ref_repo c \<and> transfer_compatible cd src c' \<and> (r = Inr h' \<longrightarrow> chain_get_block cd c' h = Inr b)"
    using append
  proof (cases rule: chain_append_cases)
    case committed
    from committed(1) assms(2) sound show ?thesis
    proof (cases rule: append_commit_cases)
      case (stored k io)
      from repo_insert_block_Inr [OF stored(3)] stored(2) obtain data
        where data: "write_manifest cd b = Inr data" "meta_block_repo c' = (meta_block_repo c)(h \<mapsto> data)" "k = h"
        by auto
      have "transfer_compatible cd src c'"
        unfolding transfer_compatible_def
      proof (intro allI impI conjI)
        fix k a e bytes assume a: "chain_get_block cd src k = Inr a"
        show "wf_multihash k" "codec_ok_on cd a" using transfer_compatibleD [OF compatible a] by simp_all
        assume "write_manifest cd a = Inr e" "meta_block_repo c' k = Some bytes"
        then show "bytes = e"
          using transfer_compatibleD(3) [OF compatible a] a block data by (cases "k = h") auto
      qed
      moreover have "chain_get_block cd c' h = Inr b"
        using mem_blocks.get_inserted [OF stored(3,4)] data(3) by (simp add: chain_get_block_eq)
      ultimately show ?thesis using stored(6) by simp
    qed (use compatible in simp)
  qed (use compatible in simp)
  then show "ref_repo c' = ref_repo c" "transfer_compatible cd src c'"
    "r = Inr h' \<Longrightarrow> chain_get_block cd c' h = Inr b" by blast+
  show "chain_get_block cd c k = Inr a \<Longrightarrow> chain_get_block cd c' k = Inr a"
    using chain_append_blocks [OF append assms(2) sound] by blast
  show "v = ValidationFull \<Longrightarrow> chain_op x cd c c'"
    using step_append [OF append _ sound] by simp
qed

section \<open>All blocks\<close>

text \<open>What committing blocks leaves alone and what it adds.\<close>

definition blocks_added :: "codec \<Rightarrow> chain \<Rightarrow> dataset \<Rightarrow> dataset \<Rightarrow> bool" where
  "blocks_added cd src d d' \<longleftrightarrow>
     transfer_compatible cd src (dset_chain d')
     \<and> ref_repo (dset_chain d') = ref_repo (dset_chain d)
     \<and> dset_data_repo d' = dset_data_repo d \<and> dset_checkpoint_repo d' = dset_checkpoint_repo d
     \<and> dset_info_repo d' = dset_info_repo d
     \<and> (\<forall>k b. chain_get_block cd (dset_chain d) k = Inr b \<longrightarrow> chain_get_block cd (dset_chain d') k = Inr b)"

lemma blocks_added_refl: "transfer_compatible cd src (dset_chain d) \<Longrightarrow> blocks_added cd src d d"
  by (simp add: blocks_added_def)

lemma blocks_added_trans: "blocks_added cd src a b \<Longrightarrow> blocks_added cd src b c \<Longrightarrow> blocks_added cd src a c"
  by (simp add: blocks_added_def)

lemma commit_blocks_adds:
  assumes "externs_ok x"
  shows "commit_blocks x cd v t bs ts = Some (r, ts') \<Longrightarrow>
    transfer_compatible cd src (dset_chain (ts_dst ts)) \<Longrightarrow>
    \<forall>(h, b) \<in> set bs. chain_get_block cd src h = Inr b \<Longrightarrow>
    blocks_added cd src (ts_dst ts) (ts_dst ts')
    \<and> (r = Inr () \<longrightarrow> (\<forall>(h, b) \<in> set bs. chain_get_block cd (dset_chain (ts_dst ts')) h = Inr b))
    \<and> (v = ValidationFull \<longrightarrow> chain_reachable x cd (dset_chain (ts_dst ts)) \<longrightarrow>
         chain_reachable x cd (dset_chain (ts_dst ts')))"
proof (induction bs arbitrary: ts)
  case Nil
  then show ?case by (auto intro: blocks_added_refl)
next
  case (Cons hb bs)
  obtain h b where hb: "hb = (h, b)" by fastforce
  let ?c = "dset_chain (ts_dst ts)"
  from Cons.prems(1) hb obtain r0 c where append: "chain_append x cd ?c b (sync_append_opts v t h) = Some (r0, c)"
    by (auto simp: bind_eq_Some_conv)
  have block: "chain_get_block cd src h = Inr b" using Cons.prems(3) hb by simp
  note step = transfer_append [OF append assms Cons.prems(2) block]
  define d where "d = (ts_dst ts)\<lparr>dset_chain := c\<rparr>"
  have added: "blocks_added cd src (ts_dst ts) d"
    using step(1-3) by (simp add: blocks_added_def d_def)
  have reach: "v = ValidationFull \<longrightarrow> chain_reachable x cd ?c \<longrightarrow> chain_reachable x cd (dset_chain d)"
    using step(5) by (auto simp: d_def intro: reach_step)
  show ?case
  proof (cases r0)
    case (Inl f)
    with Cons.prems(1) hb append have "r \<noteq> Inr ()" "ts_dst ts' = d" by (auto simp: d_def Let_def)
    with added reach show ?thesis by simp
  next
    case (Inr h')
    define ts1 where "ts1 = (let stats = (ts_stats ts)\<lparr>st_dst := (st_dst (ts_stats ts))
        \<lparr>sp_metadata_blocks_written := sp_metadata_blocks_written (st_dst (ts_stats ts)) + 1\<rparr>\<rparr>
      in ts\<lparr>ts_dst := d, ts_stats := stats, ts_log := ts_log ts @ [(CommitBlocks, stats)]\<rparr>)"
    have ts1: "ts_dst ts1 = d" by (simp add: ts1_def Let_def)
    have "commit_blocks x cd v t bs ts1 = Some (r, ts')"
      using Cons.prems(1) hb append Inr by (simp add: ts1_def d_def Let_def)
    from Cons.IH [OF this] Cons.prems(3) added
    have IH: "blocks_added cd src d (ts_dst ts')
        \<and> (r = Inr () \<longrightarrow> (\<forall>(h, b) \<in> set bs. chain_get_block cd (dset_chain (ts_dst ts')) h = Inr b))
        \<and> (v = ValidationFull \<longrightarrow> chain_reachable x cd (dset_chain d) \<longrightarrow>
             chain_reachable x cd (dset_chain (ts_dst ts')))"
      unfolding ts1 by (simp add: blocks_added_def)
    have "chain_get_block cd (dset_chain d) h = Inr b" using step(4) Inr by (simp add: d_def)
    with IH have "chain_get_block cd (dset_chain (ts_dst ts')) h = Inr b" by (simp add: blocks_added_def)
    with IH added reach blocks_added_trans hb show ?thesis by auto
  qed
qed

section \<open>Downloads\<close>

lemma fs_insert_stream_grows:
  assumes "fs_insert_stream x r src opts = Inr (h, r')" and "io_expected_hash opts = Some k"
  shows "r \<subseteq>\<^sub>m r' \<and> k \<in> dom r' \<and> (r' k = r k \<or> r' k = Some src)"
  using assms
  by (auto simp: fs_insert_stream_def Let_def res_simps obj_contains_def map_le_def
      split: sum.splits if_splits option.splits)

lemma transfer_object_Inr:
  assumes "transfer_object x missing mismatch s d h t = Inr d'"
  shows "d \<subseteq>\<^sub>m d' \<and> h \<in> dom d'"
  using assms by (auto simp: transfer_object_def res_simps dest!: fs_insert_stream_grows)

fun download_present :: "dataset \<Rightarrow> download \<Rightarrow> bool" where
  "download_present d (DownloadData sl) \<longleftrightarrow> ds_physical_hash sl \<in> dom (dset_data_repo d)"
| "download_present d (DownloadCheckpoint cp) \<longleftrightarrow> cp_physical_hash cp \<in> dom (dset_checkpoint_repo d)"

lemma download_present_mono: "download_present d t \<Longrightarrow> objects_grow d d' \<Longrightarrow> download_present d' t"
  by (cases t) (auto simp: objects_grow_def dest!: map_le_implies_dom_le)

lemma run_download_grows:
  assumes "run_download x src t task ts = (r, ts')"
  shows "objects_grow (ts_dst ts) (ts_dst ts') \<and> (r = Inr () \<longrightarrow> download_present (ts_dst ts') task)"
  using assms
  by (cases task)
    (auto simp: download_block_data_def download_block_checkpoint_def objects_grow_def Let_def
      split: sum.splits dest!: transfer_object_Inr)

lemma downloads_grow:
  "feach (run_download x src t) tasks ts = (r, ts') \<Longrightarrow>
     objects_grow (ts_dst ts) (ts_dst ts') \<and> (r = Inr () \<longrightarrow> (\<forall>task \<in> set tasks. download_present (ts_dst ts') task))"
proof (induction tasks arbitrary: ts)
  case Nil
  then show ?case by (simp add: freturn_def)
next
  case (Cons task tasks)
  obtain r1 ts1 where first: "run_download x src t task ts = (r1, ts1)" by fastforce
  note grows = run_download_grows [OF first]
  show ?case
  proof (cases r1)
    case (Inl f)
    with Cons.prems first grows show ?thesis by (auto simp: fbind_def)
  next
    case (Inr u)
    then have ok: "r1 = Inr ()" by simp
    with Cons.prems first have rest: "feach (run_download x src t) tasks ts1 = (r, ts')" by (simp add: fbind_def)
    from Cons.IH [OF this] grows ok show ?thesis
      using objects_grow_trans download_present_mono by auto
  qed
qed

lemma block_downloads_present:
  "objects_present d (event b) \<longleftrightarrow> (\<forall>task \<in> set (block_downloads b). download_present d task)"
  by (cases "as_data_stream_event (event b)")
    (auto simp: objects_present_def block_downloads_def as_data_stream_block_def simp del: as_data_stream_event_None
      split: option.splits)

section \<open>Blocks read from an arbitrary source\<close>

text \<open>Blocks that were read one after the other from a head on.\<close>

definition read_from :: "(multihash \<Rightarrow> get_block_error + metadata_block) \<Rightarrow> multihash \<Rightarrow> hashed_block list \<Rightarrow> bool" where
  "read_from get head bs \<longleftrightarrow>
     bs \<noteq> [] \<and> fst (hd bs) = head \<and> (\<forall>(h, b) \<in> set bs. get h = Inr b)"

lemma read_fromI:
  "\<forall>(h, b) \<in> set bs. get h = Inr b \<Longrightarrow> bs \<noteq> [] \<Longrightarrow> fst (hd bs) = head \<Longrightarrow> read_from get head bs"
  by (simp add: read_from_def)

lemma iter_loop_reads_aux:
  assumes "iter_loop get tail cur = Some y"
  shows "(\<forall>(h, b) \<in> set (fst y). get h = Inr b) \<and> (fst y \<noteq> [] \<longrightarrow> cur = Some (fst (hd (fst y))))"
proof (rule iter_loop.raw_induct [where P = "\<lambda>get tail cur y. (\<forall>(h, b) \<in> set (fst y). get h = Inr b)
      \<and> (fst y \<noteq> [] \<longrightarrow> cur = Some (fst (hd (fst y))))", OF _ assms])
  fix loop get tail cur y
  assume IH: "\<And>get tail cur y. loop get tail cur = Some y \<Longrightarrow>
      (\<forall>(h, b) \<in> set (fst y). get h = Inr b) \<and> (fst y \<noteq> [] \<longrightarrow> cur = Some (fst (hd (fst y))))"
    and body: "(case cur of None \<Rightarrow> Some ([], Inr None)
      | Some hash \<Rightarrow>
          if Some hash = tail then Some ([], Inr (Some hash))
          else (case get hash of
                  Inl e \<Rightarrow> Some ([], Inl (iter_error_of_get_block e))
                | Inr block \<Rightarrow>
                    Option.bind (loop get tail (prev_block_hash block))
                      (\<lambda>(bs, r). Some ((hash, block) # bs, r)))) = Some y"
  show "(\<forall>(h, b) \<in> set (fst y). get h = Inr b) \<and> (fst y \<noteq> [] \<longrightarrow> cur = Some (fst (hd (fst y))))"
  proof (cases "fst y")
    case (Cons hb hbs)
    with body obtain h b z where z: "cur = Some h" "get h = Inr b" "loop get tail (prev_block_hash b) = Some z"
      "y = ((h, b) # fst z, snd z)"
      by (auto simp: bind_eq_Some_conv split: option.splits if_splits sum.splits)
    with IH [OF z(3)] show ?thesis by auto
  qed simp
qed

lemma iter_loop_nonempty: "iter_loop get None (Some h) = Some (bs, Inr c) \<Longrightarrow> bs \<noteq> []"
  by (subst (asm) iter_loop.simps) (auto simp: bind_eq_Some_conv split: sum.splits)

lemma iter_loop_reads:
  assumes "iter_loop get None (Some h) = Some (bs, Inr c)"
  shows "read_from get h bs"
  using iter_loop_reads_aux [OF assms] iter_loop_nonempty [OF assms] by (simp add: read_from_def)

lemma collect_all_Inr:
  assumes "stats_collect_all w h = Some (rs, Inr bs)"
  obtains c where "iter_loop (cws_get w) None (Some h) = Some (bs, Inr c)"
proof -
  from assms obtain bs' r where loop: "iter_loop (cws_get w) None (Some h) = Some (bs', r)"
    by (auto simp: stats_collect_all_def bind_eq_Some_conv)
  with assms that show thesis by (cases r) (auto simp: stats_collect_all_def)
qed

lemma tail_error_None: "tail_error False h None r = None \<longleftrightarrow> (\<exists>c. r = Inr c)"
  by (cases r) auto

lemma stats_take_reads:
  assumes "one_side w get" and "stats_take w n cur = (rs, Inr bs)"
  shows "(\<forall>(h, b) \<in> set bs. get h = Inr b) \<and> (bs \<noteq> [] \<longrightarrow> cur = Some (fst (hd bs)))"
  using assms(2)
proof (induction n arbitrary: cur rs bs)
  case (Suc n)
  show ?case
  proof (cases cur)
    case None
    with Suc.prems show ?thesis by (auto simp: stats_try_next_def)
  next
    case (Some h)
    show ?thesis
    proof (cases "get h")
      case (Inl e)
      with Some Suc.prems one_side_get [OF assms(1)] show ?thesis by (auto simp: stats_try_next_def)
    next
      case (Inr b)
      obtain rs' r where rest: "stats_take w n (prev_block_hash b) = (rs', r)" by fastforce
      with Suc.prems Some Inr one_side_get [OF assms(1)] obtain bs' where "r = Inr bs'" "bs = (h, b) # bs'"
        by (cases r) (auto simp: stats_try_next_def)
      with Suc.IH rest Inr Some show ?thesis by auto
    qed
  qed
qed simp

lemma then_report_Inr:
  "then_report m k = (rs, Inr a) \<longleftrightarrow> (\<exists>rs1 b rs2. m = (rs1, Inr b) \<and> k b = (rs2, Inr a) \<and> rs = rs1 @ rs2)"
  by (auto simp: then_report_def split: prod.splits sum.splits)

lemma check_expected_reads:
  assumes "one_side w get" and "check_expected_common_ancestor w n h ref m k = (rs, Inr (CheckSuccess bs))"
  shows "read_from get h bs"
proof -
  from assms(2) obtain rs' taken where taken: "stats_take w (unat (n - m)) (Some h) = (rs', Inr taken)"
    and "taken \<noteq> []" "taken = bs"
    unfolding check_expected_common_ancestor_def Let_def then_report_Inr
    by (auto simp: then_report_Inr unwrap_next_def unwrap_def split: if_splits option.splits)
  with stats_take_reads [OF assms(1) taken] show ?thesis by (auto simp: read_from_def)
qed

lemma not_ahead: "describe_divergence n m k \<noteq> LhsAhead bs"
  by (cases k) (simp_all add: describe_divergence_def)

lemma ahead_of_check:
  "(case check of CheckSuccess blocks \<Rightarrow> LhsAhead blocks | CheckFailure k \<Rightarrow> describe_divergence n m k) = LhsAhead bs
     \<longleftrightarrow> check = CheckSuccess bs"
  "(case check of CheckSuccess blocks \<Rightarrow> LhsBehind blocks | CheckFailure k \<Rightarrow> describe_divergence n m k) \<noteq> LhsAhead bs"
  by (cases check; simp add: not_ahead)+

lemma compare_ahead_reads:
  assumes "compare_chains cd src h dst k = Some (rs, Inr (LhsAhead bs))"
  shows "read_from (chain_get_block cd src) h bs"
proof (cases k)
  case None
  let ?w = "lhs_with_stats (chain_get_block cd src)"
  from assms None obtain rs' rs2 where "stats_collect_all ?w h = Some (rs', Inr bs)"
    by (auto simp: compare_chains_def Let_def then_report_Inr split: sum.splits)
  then obtain c where "iter_loop (chain_get_block cd src) None (Some h) = Some (bs, Inr c)"
    by (rule collect_all_Inr) (simp add: lhs_with_stats_def)
  then show ?thesis by (rule iter_loop_reads)
next
  case (Some d)
  then obtain n rsr m rs1 where
    "compare_heads (lhs_with_stats (chain_get_block cd src)) h n rsr d m = (rs1, Inr (LhsAhead bs))"
    using assms by (auto simp: compare_chains_def Let_def then_report_Inr split: if_splits)
  then obtain rs2 where
    "check_expected_common_ancestor (lhs_with_stats (chain_get_block cd src)) n h rsr m d = (rs2, Inr (CheckSuccess bs))"
    by (auto simp: compare_heads_def then_report_Inr not_ahead ahead_of_check split: if_splits)
  then show ?thesis by (rule check_expected_reads [OF one_side_simps(1)])
qed

lemma blocks_to_transfer_reads:
  assumes "chain_resolve_ref x src Head = Inr h" and "blocks_to_transfer x cd src comparison = Some (Inr bs)"
    and "compare_chains cd src h dst k = Some (rs, Inr comparison)"
  shows "read_from (chain_get_block cd src) h bs"
proof (cases "\<exists>bs'. comparison = LhsAhead bs'")
  case True
  with assms compare_ahead_reads show ?thesis by (auto simp: blocks_to_transfer_def)
next
  case False
  with assms(2) have "iter_blocks x cd src = Some (bs, None)"
    by (auto simp: blocks_to_transfer_def collect_stream_def split: compare_chains_result.splits option.splits)
  with assms(1) obtain c where "iter_loop (chain_get_block cd src) None (Some h) = Some (bs, Inr c)"
    by (auto simp: iter_blocks_def iter_blocks_interval_ref_def bind_eq_Some_conv tail_error_None)
  then show ?thesis by (rule iter_loop_reads)
qed

section \<open>The effect of a transfer\<close>

lemma grown_and_added_kept:
  assumes "objects_grow d d1" and "blocks_added cd src d1 d2"
  shows "contents_kept cd d d2" and "ref_repo (dset_chain d2) = ref_repo (dset_chain d)"
  using assms by (auto simp: contents_kept_def objects_grow_def blocks_added_def)

text \<open>A transfer that ended in the state \<open>d'\<close> before its head was moved.\<close>

definition transferred ::
  "externs \<Rightarrow> codec \<Rightarrow> append_validation \<Rightarrow> chain \<Rightarrow> hashed_block list \<Rightarrow> dataset \<Rightarrow> dataset \<Rightarrow> bool \<Rightarrow> bool" where
  "transferred x cd v src blocks d d' complete \<longleftrightarrow>
     contents_kept cd d d' \<and> ref_repo (dset_chain d') = ref_repo (dset_chain d)
     \<and> (v = ValidationFull \<longrightarrow> chain_reachable x cd (dset_chain d) \<longrightarrow> chain_reachable x cd (dset_chain d'))
     \<and> (complete \<longrightarrow> (\<forall>(h, b) \<in> set blocks.
          chain_get_block cd (dset_chain d') h = Inr b \<and> objects_present d' (event b)))"

lemma transfer_blocks_effect:
  assumes ok: "externs_ok x" and compatible: "transfer_compatible cd (dset_chain src) (dset_chain (ts_dst ts))"
    and blocks: "\<forall>(h, b) \<in> set blocks. chain_get_block cd (dset_chain src) h = Inr b"
    and downloads: "feach (run_download x src t) tasks ts = (Inr (), ts2)"
    and tasks: "set tasks = set (block_download_tasks blocks)"
    and commit: "commit_blocks x cd v t (rev blocks) (ts2\<lparr>ts_stats := stats\<rparr>) = Some (r, ts3)"
  shows "transferred x cd v (dset_chain src) blocks (ts_dst ts) (ts_dst ts3) (r = Inr ())"
proof -
  from downloads_grow [OF downloads] have grow: "objects_grow (ts_dst ts) (ts_dst ts2)"
    and present: "\<forall>task \<in> set tasks. download_present (ts_dst ts2) task" by auto
  have chain: "dset_chain (ts_dst ts2) = dset_chain (ts_dst ts)" using grow by (simp add: objects_grow_def)
  have "\<forall>(h, b) \<in> set (rev blocks). chain_get_block cd (dset_chain src) h = Inr b" using blocks by simp
  from commit_blocks_adds [OF ok commit, of "dset_chain src"] this compatible chain
  have added: "blocks_added cd (dset_chain src) (ts_dst ts2) (ts_dst ts3)"
    and stored: "r = Inr () \<longrightarrow> (\<forall>(h, b) \<in> set blocks. chain_get_block cd (dset_chain (ts_dst ts3)) h = Inr b)"
    and reach: "v = ValidationFull \<longrightarrow> chain_reachable x cd (dset_chain (ts_dst ts)) \<longrightarrow>
      chain_reachable x cd (dset_chain (ts_dst ts3))" by auto
  have "objects_present (ts_dst ts3) (event b)" if "(h, b) \<in> set blocks" for h b
  proof -
    have "set (block_downloads b) \<subseteq> set tasks" using that by (force simp: tasks block_download_tasks_def)
    with present have "objects_present (ts_dst ts2) (event b)" by (auto simp: block_downloads_present)
    then show ?thesis using added objects_present_cong [of "ts_dst ts3" "ts_dst ts2" "event b"] by (simp add: blocks_added_def)
  qed
  with stored grown_and_added_kept [OF grow added] reach show ?thesis by (auto simp: transferred_def)
qed

lemma synchronize_blocks_effect:
  assumes run: "synchronize_blocks x cd schedule blocks src src_head dst_head v t ts = Some (r, ts')"
    and ok: "externs_ok x" and compatible: "transfer_compatible cd (dset_chain src) (dset_chain (ts_dst ts))"
    and blocks: "\<forall>(h, b) \<in> set blocks. chain_get_block cd (dset_chain src) h = Inr b"
    and schedule: "\<And>tasks. mset (schedule tasks) = mset tasks"
  obtains (failed) f where "r = Inl f" "transferred x cd v (dset_chain src) blocks (ts_dst ts) (ts_dst ts') False"
  | (moved) d refs where "r = Inr ()" "transferred x cd v (dset_chain src) blocks (ts_dst ts) d True"
      "chain_set_ref x (dset_chain d) Head src_head
         \<lparr>so_validate_block_present = False, so_check_ref_is = Some dst_head\<rparr> = (Inr (), (dset_chain d)\<lparr>ref_repo := refs\<rparr>)"
      "ref_set x (ref_repo (dset_chain d)) Head src_head = Inr refs"
      "ts_dst ts' = d\<lparr>dset_chain := (dset_chain d)\<lparr>ref_repo := refs\<rparr>\<rparr>"
proof -
  define stats where "stats = estimate_stats blocks (ts_stats ts)"
  define ts1 where "ts1 = ts\<lparr>ts_stats := stats, ts_log := ts_log ts @ [(TransferData, stats)]\<rparr>"
  define tasks where "tasks = schedule (block_download_tasks blocks)"
  have ts1: "ts_dst ts1 = ts_dst ts" by (simp add: ts1_def)
  have tasks: "set tasks = set (block_download_tasks blocks)"
    using schedule by (metis tasks_def mset_eq_setD)
  obtain r2 ts2 where downloads: "feach (run_download x src t) tasks ts1 = (r2, ts2)" by fastforce
  note run = run [unfolded synchronize_blocks_def Let_def, folded stats_def, folded ts1_def tasks_def, unfolded downloads]
  show thesis
  proof (cases r2)
    case (Inl f)
    with run have res: "r = Inl f" "ts' = ts2" by auto
    have grow: "objects_grow (ts_dst ts) (ts_dst ts2)" using downloads_grow [OF downloads] ts1 by simp
    then have "transferred x cd v (dset_chain src) blocks (ts_dst ts) (ts_dst ts2) False"
      by (auto simp: transferred_def contents_kept_def objects_grow_def)
    with res failed show thesis by simp
  next
    case (Inr u)
    with downloads have finished: "feach (run_download x src t) tasks ts1 = (Inr (), ts2)" by simp
    from run Inr obtain r3 ts3 where commit:
      "commit_blocks x cd v t (rev blocks) (ts2\<lparr>ts_stats := stats\<rparr>) = Some (r3, ts3)"
      by (auto simp: bind_eq_Some_conv)
    have effect: "transferred x cd v (dset_chain src) blocks (ts_dst ts) (ts_dst ts3) (r3 = Inr ())"
      using transfer_blocks_effect [OF ok _ blocks finished tasks commit] compatible ts1 by simp
    then have partial: "transferred x cd v (dset_chain src) blocks (ts_dst ts) (ts_dst ts3) False"
      by (simp add: transferred_def)
    show thesis
    proof (cases r3)
      case (Inl f)
      with run Inr commit have "r = Inl f" "ts' = ts3" by auto
      with partial failed show thesis by simp
    next
      case (Inr u')
      let ?opts = "\<lparr>so_validate_block_present = False, so_check_ref_is = Some dst_head\<rparr>"
      obtain r4 c where set: "chain_set_ref x (dset_chain (ts_dst ts3)) Head src_head ?opts = (r4, c)" by fastforce
      from run \<open>r2 = Inr u\<close> commit Inr set
      have res: "r = map_err (map_fault sync_error_of_set_ref) r4" "ts_dst ts' = (ts_dst ts3)\<lparr>dset_chain := c\<rparr>"
        by (auto simp: update_dst_head_def)
      from set show thesis
      proof (cases rule: chain_set_ref_cases)
        case (failed f)
        with res have "r = Inl (map_fault sync_error_of_set_ref f)" "ts_dst ts' = ts_dst ts3" by simp_all
        with partial that(1) show thesis by simp
      next
        case (updated refs)
        with res set effect Inr that(2) [of "ts_dst ts3" refs] show thesis by simp
      qed
    qed
  qed
qed

text \<open>Moving the head to a block that is present is a step of a chain.\<close>

lemma set_ref_present:
  assumes "chain_set_ref x c r h \<lparr>so_validate_block_present = False, so_check_ref_is = e\<rparr> = (Inr u, c')"
    and "h \<in> dom (meta_block_repo c)"
  shows "chain_op x cd c c'"
proof -
  have "chain_set_ref x c r h \<lparr>so_validate_block_present = True, so_check_ref_is = e\<rparr> = (Inr u, c')"
    using assms by (simp add: chain_set_ref_def set_ref_check_def chain_contains_block_def repo_contains_block_def
        obj_contains_def domIff)
  then show ?thesis by (rule step_set_ref) simp
qed

section \<open>The effect of a synchronization\<close>

lemma compare_equal:
  "compare_chains cd src h dst k = Some (rs, Inr ChainsEqual) \<longleftrightarrow> k = Some h \<and> rs = []"
proof -
  have "describe_divergence n m i \<noteq> ChainsEqual" for n m i by (cases i) (simp_all add: describe_divergence_def)
  then have "compare_heads lhs h n rhs k m \<noteq> (rs', Inr ChainsEqual)" for lhs n rhs m k rs'
    by (auto simp: compare_heads_def then_report_Inr split: common_ancestor_check.splits)
  then show ?thesis
    by (auto simp: compare_chains_def Let_def then_report_Inr split: option.splits sum.splits)
qed

text \<open>
  A synchronization with an existing destination either leaves it as it is, or runs a transfer of
  blocks that were read from the head of the source.
\<close>

lemma sync_cases:
  assumes "sync x cd schedule src_ref src (Some dst) factory v t force = Some (r, d, log)"
  obtains (refused) f reports where "r = Inl f" "d = Some dst" "log = fst (compare_adapter reports default_sync_stats)"
  | (equal) h reports where "r = Inr UpToDate" "d = Some dst" "chain_resolve_ref x (dset_chain src) Head = Inr h"
      "chain_resolve_ref x (dset_chain dst) Head = Inr h" "log = fst (compare_adapter reports default_sync_stats)"
  | (ran) src_head dst_head reports comparison blocks ts r' ts' where
      "chain_resolve_ref x (dset_chain src) Head = Inr src_head" "get_dest_head x (dset_chain dst) = Inr dst_head"
      "compare_chains cd (dset_chain src) src_head (dset_chain dst) dst_head = Some (reports, Inr comparison)"
      "comparison \<noteq> ChainsEqual" "check_comparison force src_head dst_head comparison = Inr ()"
      "blocks_to_transfer x cd (dset_chain src) comparison = Some (Inr blocks)" "ts_dst ts = dst"
      "synchronize_blocks x cd schedule blocks src src_head dst_head v t ts = Some (r', ts')"
      "d = Some (ts_dst ts')" "r = and_then r' (\<lambda>_. Inr (Updated dst_head src_head (of_nat (length blocks))))"
      "compare_adapter reports default_sync_stats = (ts_log ts, ts_stats ts)" "log = ts_log ts'"
proof (cases "get_src_head x src_ref (dset_chain src)")
  case (Inl f)
  with assms refused [of f "[]"] show thesis by (auto simp: sync_def)
next
  case src_head: (Inr src_head)
  then have src: "chain_resolve_ref x (dset_chain src) Head = Inr src_head"
    by (auto simp: get_src_head_def split: sum.splits fault.splits get_ref_error.splits)
  show thesis
  proof (cases "get_dest_head x (dset_chain dst)")
    case (Inl f)
    with assms src_head refused [of f "[]"] show thesis by (auto simp: sync_def)
  next
    case dst_head: (Inr dst_head)
    from assms src_head dst_head obtain reports compared where compare:
      "compare_chains cd (dset_chain src) src_head (dset_chain dst) dst_head = Some (reports, compared)"
      by (auto simp: sync_def bind_eq_Some_conv)
    obtain log0 stats where adapter: "compare_adapter reports default_sync_stats = (log0, stats)" by fastforce
    have run: "(case map_err (map_fault sync_error_of_compare) compared of
        Inl f \<Rightarrow> Some (Inl f, Some dst, log0)
      | Inr comparison \<Rightarrow>
          if comparison = ChainsEqual then Some (Inr UpToDate, Some dst, log0)
          else (case check_comparison force src_head dst_head comparison of
                  Inl f \<Rightarrow> Some (Inl f, Some dst, log0)
                | Inr _ \<Rightarrow>
                    Option.bind (blocks_to_transfer x cd (dset_chain src) comparison)
                      (\<lambda>collected. case collected of
                         Inl f \<Rightarrow> Some (Inl f, Some dst, log0)
                       | Inr blocks \<Rightarrow> sync_transfer x cd schedule src (Some dst) factory v t
                           src_head dst_head blocks stats log0))) = Some (r, d, log)"
      using assms src_head dst_head compare adapter by (simp add: sync_def)
    show thesis
    proof (cases compared)
      case (Inl f)
      with run adapter refused [of _ reports] show thesis by auto
    next
      case comparison: (Inr comparison)
      show thesis
      proof (cases "comparison = ChainsEqual")
        case True
        with compare comparison have "dst_head = Some src_head" by (simp add: compare_equal)
        with dst_head have "chain_resolve_ref x (dset_chain dst) Head = Inr src_head"
          by (auto simp: get_dest_head_def split: sum.splits fault.splits get_ref_error.splits)
        with True run comparison adapter equal [of _ reports] src show thesis by auto
      next
        case False
        show thesis
        proof (cases "check_comparison force src_head dst_head comparison")
          case (Inl f)
          with False comparison run adapter refused [of _ reports] show thesis by auto
        next
          case check: (Inr u)
          with False comparison run obtain collected where
            collected: "blocks_to_transfer x cd (dset_chain src) comparison = Some collected"
            by (auto simp: bind_eq_Some_conv)
          show thesis
          proof (cases collected)
            case (Inl f)
            with False comparison check collected run adapter refused [of _ reports] show thesis by auto
          next
            case (Inr blocks)
            with False comparison check collected run
            have "sync_transfer x cd schedule src (Some dst) factory v t src_head dst_head blocks stats log0 = Some (r, d, log)"
              by simp
            then obtain r' ts' where "synchronize_blocks x cd schedule blocks src src_head dst_head v t
                \<lparr>ts_dst = dst, ts_stats = stats, ts_log = log0\<rparr> = Some (r', ts')" "d = Some (ts_dst ts')" "log = ts_log ts'"
              "r = and_then r' (\<lambda>_. Inr (Updated dst_head src_head (of_nat (length blocks))))"
              by (auto simp: sync_transfer_def ensure_destination_def)
            with ran [OF src dst_head _ False, of reports blocks "\<lparr>ts_dst = dst, ts_stats = stats, ts_log = log0\<rparr>" r' ts']
              compare comparison check collected adapter Inr show thesis by simp
          qed
        qed
      qed
    qed
  qed
qed

lemma sync_effect:
  assumes run: "sync x cd schedule src_ref src (Some dst) factory v t force = Some (r, d, log)"
    and ok: "externs_ok x" and compatible: "transfer_compatible cd (dset_chain src) (dset_chain dst)"
    and schedule: "\<And>tasks. mset (schedule tasks) = mset tasks"
  shows "\<exists>d'. d = Some d' \<and> contents_kept cd dst d'
    \<and> (\<forall>f. r = Inl f \<longrightarrow> ref_repo (dset_chain d') = ref_repo (dset_chain dst))
    \<and> (v = ValidationFull \<longrightarrow> chain_reachable x cd (dset_chain dst) \<longrightarrow> chain_reachable x cd (dset_chain d'))"
  using run
proof (cases rule: sync_cases)
  case (ran src_head dst_head reports comparison blocks ts r' ts')
  have reads: "read_from (chain_get_block cd (dset_chain src)) src_head blocks"
    by (rule blocks_to_transfer_reads [OF ran(1,6,3)])
  then have blocks: "\<forall>(h, b) \<in> set blocks. chain_get_block cd (dset_chain src) h = Inr b"
    by (simp add: read_from_def)
  have "transfer_compatible cd (dset_chain src) (dset_chain (ts_dst ts))" using compatible ran(7) by simp
  from ran(8) ok this blocks schedule show ?thesis
  proof (cases rule: synchronize_blocks_effect)
    case (failed f)
    with ran(7,9,10) show ?thesis by (simp add: transferred_def)
  next
    case (moved d1 refs)
    from reads moved(2) have "chain_get_block cd (dset_chain d1) src_head = Inr (snd (hd blocks))"
      by (cases blocks) (auto simp: read_from_def transferred_def)
    from set_ref_present [OF moved(3) get_block_dom [OF this]] moved(2,5) ran(7,9,10) \<open>r' = Inr ()\<close>
    have "v = ValidationFull \<longrightarrow> chain_reachable x cd (dset_chain dst) \<longrightarrow> chain_reachable x cd (dset_chain (ts_dst ts'))"
      by (auto simp: transferred_def intro: reach_step)
    moreover have "contents_kept cd dst (ts_dst ts')"
      using moved(2,5) ran(7) by (simp add: transferred_def contents_kept_def chain_get_block_eq)
    ultimately show ?thesis using ran(9,10) moved(1) by simp
  qed
qed auto

end
