(* ===== verification/Sync_Progress.thy ===== *)
theory Sync_Progress
  imports Sync_Properties
begin

text \<open>
  A synchronization from a well-formed source: when it reports success the destination has the head,
  the blocks and the objects of the source; and it does succeed when the source keeps what its
  hashes promise and the destination is behind, or the transfer is forced.
\<close>

section \<open>What success means\<close>

text \<open>The chain of a destination, empty when it has no head.\<close>

definition destination_chain :: "externs \<Rightarrow> codec \<Rightarrow> chain \<Rightarrow> hashed_block list \<Rightarrow> bool" where
  "destination_chain x cd c ys \<longleftrightarrow>
     (case get_dest_head x c of
        Inl _ \<Rightarrow> False
      | Inr None \<Rightarrow> ys = []
      | Inr (Some h) \<Rightarrow> numbered_chain (chain_get_block cd c) h ys)"

lemma destination_chain_compare:
  assumes "destination_chain x cd c ys" and "get_dest_head x c = Inr dst_head"
  shows "case dst_head of None \<Rightarrow> ys = [] | Some h \<Rightarrow> numbered_chain (chain_get_block cd c) h ys"
  using assms by (auto simp: destination_chain_def split: option.splits)

lemma destination_chain_stored:
  assumes "destination_chain x cd c ys" and "(k, b) \<in> set ys"
  shows "chain_get_block cd c k = Inr b"
  using assms chain_at_get
  by (auto simp: destination_chain_def numbered_chain_def split: sum.splits option.splits)

lemma chain_at_transfer:
  assumes "chain_at get h bs" and "\<And>k b. (k, b) \<in> set bs \<Longrightarrow> get' k = Inr b"
  shows "chain_at get' h bs"
  using assms by induction (auto intro: chain_at.intros)

lemma blocks_to_transfer_exact:
  assumes "chain_resolve_ref x c Head = Inr h" and "chain_at (chain_get_block cd c) h xs" and "xs \<noteq> ys"
  shows "blocks_to_transfer x cd c (compare_chains_spec xs ys) =
    Some (Inr (if suffix ys xs then take (length xs - length ys) xs else xs))"
proof -
  have "iter_blocks x cd c = Some (xs, None)"
    using assms(1) iter_loop_chain [OF assms(2), of None]
    by (simp add: iter_blocks_def iter_blocks_interval_ref_def)
  with assms(3) show ?thesis
    by (auto simp: blocks_to_transfer_def compare_chains_spec_def collect_stream_def)
qed

lemma sync_success:
  assumes run: "sync x cd schedule src_ref src (Some dst) factory v t force = Some (Inr res, d, log)"
    and ok: "externs_ok x" and compatible: "transfer_compatible cd (dset_chain src) (dset_chain dst)"
    and schedule: "\<And>tasks. mset (schedule tasks) = mset tasks"
    and src: "chain_resolve_ref x (dset_chain src) Head = Inr h" "numbered_chain (chain_get_block cd (dset_chain src)) h xs"
    and dst: "destination_chain x cd (dset_chain dst) ys"
  shows "\<exists>d'. d = Some d' \<and> contents_kept cd dst d' \<and> chain_resolve_ref x (dset_chain d') Head = Inr h
    \<and> chain_at (chain_get_block cd (dset_chain d')) h xs
    \<and> (\<forall>(k, b) \<in> set xs. (k, b) \<in> set ys \<or> objects_present d' (event b))"
proof -
  have at: "chain_at (chain_get_block cd (dset_chain src)) h xs" using src(2) by (simp add: numbered_chain_def)
  note agree = transfer_compatible_agree [OF compatible]
  show ?thesis
    using run
  proof (cases rule: sync_cases)
    case (equal k)
    with src(1) have "k = h" by simp
    with equal have "get_dest_head x (dset_chain dst) = Inr (Some h)" by (simp add: get_dest_head_def)
    with dst have ys: "chain_at (chain_get_block cd (dset_chain dst)) h ys"
      by (simp add: destination_chain_def numbered_chain_def)
    with chains_meet [OF at _ agree] have "xs = ys" by simp
    with equal ys \<open>k = h\<close> show ?thesis by (auto simp: split_beta)
  next
    case (ran src_head dst_head reports comparison blocks ts r' ts')
    have head: "src_head = h" using ran(1) src(1) by simp
    from compare_chains_outcome [OF agree src(2) destination_chain_compare [OF dst ran(2)]] ran(3) head
    have comparison: "comparison = compare_chains_spec xs ys" by simp
    with ran(4) have "xs \<noteq> ys" by (auto simp: compare_chains_spec_def)
    from blocks_to_transfer_exact [OF src(1) at this] ran(6) comparison
    have blocks: "blocks = (if suffix ys xs then take (length xs - length ys) xs else xs)" by simp
    have covered: "(k, b) \<in> set ys \<or> (k, b) \<in> set blocks" if "(k, b) \<in> set xs" for k b
    proof (cases "suffix ys xs")
      case True
      then have "xs = take (length xs - length ys) xs @ ys" by (rule suffix_take)
      with that blocks True show ?thesis by (metis Un_iff set_append)
    qed (use that blocks in simp)
    have read: "\<forall>(k, b) \<in> set blocks. chain_get_block cd (dset_chain src) k = Inr b"
      using blocks_to_transfer_reads [OF ran(1,6,3)] by (simp add: read_from_def)
    have "transfer_compatible cd (dset_chain src) (dset_chain (ts_dst ts))" using compatible ran(7) by simp
    from ran(8) ok this read schedule show ?thesis
    proof (cases rule: synchronize_blocks_effect)
      case (failed f)
      with ran(10) show ?thesis by simp
    next
      case (moved d1 refs)
      have kept: "contents_kept cd dst (ts_dst ts')" and new: "(k, b) \<in> set blocks \<Longrightarrow>
          chain_get_block cd (dset_chain d1) k = Inr b \<and> objects_present (ts_dst ts') (event b)" for k b
        using moved(2,5) ran(7) objects_present_cong [of "ts_dst ts'" d1]
        by (auto simp: transferred_def contents_kept_def chain_get_block_eq)
      have get: "chain_get_block cd (dset_chain (ts_dst ts')) = chain_get_block cd (dset_chain d1)"
        using moved(5) by (simp add: chain_get_block_eq)
      have "chain_get_block cd (dset_chain (ts_dst ts')) k = Inr b" if "(k, b) \<in> set xs" for k b
        using covered [OF that] new destination_chain_stored [OF dst] kept
        by (auto simp: contents_kept_def get)
      with chain_at_transfer [OF at] have chain: "chain_at (chain_get_block cd (dset_chain (ts_dst ts'))) h xs" by blast
      have "wf_multihash h"
        using chain_at_hd [OF at] transfer_compatibleD(1) [OF compatible] by auto
      with mem_refs.get_after_set [OF ok _ moved(4)] moved(5) head
      have "chain_resolve_ref x (dset_chain (ts_dst ts')) Head = Inr h" by (simp add: chain_resolve_ref_def)
      with kept chain covered new ran(9) show ?thesis by fastforce
    qed
  qed simp
qed

section \<open>When it succeeds\<close>

text \<open>
  A source that keeps what it promises: the objects of its blocks are there, and, unless the
  destination trusts its hashes, objects and blocks are those that their hashes are computed from.
\<close>

fun source_has_object :: "externs \<Rightarrow> bool \<Rightarrow> dataset \<Rightarrow> download \<Rightarrow> bool" where
  "source_has_object x trust src (DownloadData sl) \<longleftrightarrow>
     (case dset_data_repo src (ds_physical_hash sl) of
        None \<Rightarrow> False
      | Some bytes \<Rightarrow> trust \<or> multihash_new Sha3_256 (sha3_256_digest x bytes) = Inr (ds_physical_hash sl))"
| "source_has_object x trust src (DownloadCheckpoint cp) \<longleftrightarrow>
     (case dset_checkpoint_repo src (cp_physical_hash cp) of
        None \<Rightarrow> False
      | Some bytes \<Rightarrow> trust \<or> multihash_new Sha3_256 (sha3_256_digest x bytes) = Inr (cp_physical_hash cp))"

definition source_serves :: "externs \<Rightarrow> codec \<Rightarrow> bool \<Rightarrow> dataset \<Rightarrow> hashed_block list \<Rightarrow> bool" where
  "source_serves x cd trust src bs \<longleftrightarrow>
     (\<forall>(h, b) \<in> set bs.
        (\<forall>task \<in> set (block_downloads b). source_has_object x trust src task)
        \<and> (\<forall>data. write_manifest cd b = Inr data \<longrightarrow> \<not> trust \<longrightarrow> multihash_from_digest_sha3_256 x data = Inr h))"

subsection \<open>Downloads\<close>

lemma sha3_hash_exists:
  assumes "externs_ok x"
  shows "\<exists>h. multihash_new Sha3_256 (sha3_256_digest x data) = Inr h"
  using assms multihash_from_digest_sha3_256_ok [of x data]
  by (auto simp: externs_ok_def multihash_from_digest_sha3_256_def split: sum.splits)

lemma transfer_object_succeeds:
  assumes "externs_ok x" and "src_repo h = Some bytes"
    and "trust \<or> multihash_new Sha3_256 (sha3_256_digest x bytes) = Inr h"
  shows "\<exists>repo. transfer_object x missing mismatch src_repo dst_repo h trust = Inr repo"
  using assms sha3_hash_exists [OF assms(1), of bytes]
  by (auto simp: transfer_object_def fs_insert_stream_def obj_get_bytes_def Let_def)

lemma run_download_succeeds:
  assumes "externs_ok x" and "source_has_object x trust src task"
  shows "\<exists>ts'. run_download x src trust task ts = (Inr (), ts')"
proof (cases task)
  case (DownloadData sl)
  with assms(2) obtain bytes where "dset_data_repo src (ds_physical_hash sl) = Some bytes"
    "trust \<or> multihash_new Sha3_256 (sha3_256_digest x bytes) = Inr (ds_physical_hash sl)"
    by (auto split: option.splits)
  from transfer_object_succeeds [where src_repo = "dset_data_repo src", OF assms(1) this,
      of "''Source data file is missing''" "''Data file hash declared by the source didn't match the computed - '' @
          ''this may be an indication of hashing algorithm mismatch or an attempted tampering''"
        "dset_data_repo (ts_dst ts)"]
  show ?thesis using DownloadData by (elim exE) (simp add: download_block_data_def Let_def)
next
  case (DownloadCheckpoint cp)
  with assms(2) obtain bytes where "dset_checkpoint_repo src (cp_physical_hash cp) = Some bytes"
    "trust \<or> multihash_new Sha3_256 (sha3_256_digest x bytes) = Inr (cp_physical_hash cp)"
    by (auto split: option.splits)
  from transfer_object_succeeds [where src_repo = "dset_checkpoint_repo src", OF assms(1) this,
      of "''Source checkpoint file is missing''" "''Checkpoint file hash declared by the source didn't match the computed - '' @
          ''this may be an indication of hashing algorithm mismatch or an attempted tampering''"
        "dset_checkpoint_repo (ts_dst ts)"]
  show ?thesis using DownloadCheckpoint by (elim exE) (simp add: download_block_checkpoint_def Let_def)
qed

lemma downloads_succeed:
  assumes "externs_ok x" and "\<forall>task \<in> set tasks. source_has_object x trust src task"
  shows "\<exists>ts'. feach (run_download x src trust) tasks ts = (Inr (), ts')"
  using assms(2)
proof (induction tasks arbitrary: ts)
  case (Cons task tasks)
  from run_download_succeeds [OF assms(1), of trust src task ts] Cons.prems obtain ts1
    where "run_download x src trust task ts = (Inr (), ts1)" by auto
  with Cons show ?case by (simp add: fbind_def)
qed (simp add: freturn_def)

subsection \<open>Commits\<close>

lemma transfer_append_succeeds:
  assumes ok: "externs_ok x" and compatible: "transfer_compatible cd src c" and block: "chain_get_block cd src h = Inr b"
    and below: "precedes cd c b bs" and valid: "valid_next (map snd bs) b"
    and hash: "\<And>data. write_manifest cd b = Inr data \<Longrightarrow> \<not> t \<Longrightarrow> multihash_from_digest_sha3_256 x data = Inr h"
  shows "\<exists>c'. chain_append x cd c b (sync_append_opts v t h) = Some (Inr h, c')"
proof -
  have validated: "append_validate cd c b = Some (Inr ())" using append_validate_ok [OF below] valid by simp
  obtain data where data: "write_manifest cd b = Inr data"
    using transfer_compatibleD(2) [OF compatible block] by (auto simp: codec_ok_on_def split: sum.splits)
  with hash have "repo_insert_block x cd (meta_block_repo c) b
      \<lparr>io_precomputed_hash = if t then Some h else None, io_expected_hash = Some h\<rparr> =
      Inr (h, (meta_block_repo c)(h \<mapsto> data))"
    by (simp add: repo_insert_block_def repo_insert_block_data_def obj_insert_bytes_def)
  with validated show ?thesis
    by (simp add: chain_append_def append_check_ref_def append_commit_def)
qed

lemma commit_blocks_succeed:
  assumes ok: "externs_ok x"
  shows "chain_at (chain_get_block cd (dset_chain src)) h (new @ ys) \<Longrightarrow> valid_chain (map snd (new @ ys)) \<Longrightarrow>
    source_serves x cd t src new \<Longrightarrow> transfer_compatible cd (dset_chain src) (dset_chain (ts_dst ts)) \<Longrightarrow>
    \<forall>(k, b) \<in> set ys. chain_get_block cd (dset_chain (ts_dst ts)) k = Inr b \<Longrightarrow>
    \<exists>ts'. commit_blocks x cd v t (rev new) ts = Some (Inr (), ts')"
proof (induction new arbitrary: ys ts rule: rev_induct)
  case (snoc hb new)
  obtain k b where hb: "hb = (k, b)" by fastforce
  let ?src = "chain_get_block cd (dset_chain src)" and ?c = "dset_chain (ts_dst ts)"
  have at: "chain_at ?src k ((k, b) # ys)"
    using chain_at_drop [OF snoc.prems(1), of "length new"] by (simp add: hb nth_append)
  then have block: "?src k = Inr b" by (auto elim: chain_at.cases)
  have "chain_at (chain_get_block cd ?c) p ys" if "chain_at ?src p ys" for p
    using chain_at_transfer [OF that] snoc.prems(5) by blast
  with at have below: "precedes cd ?c b ys" by (auto simp: precedes_def elim: chain_at.cases)
  have valid: "valid_next (map snd ys) b"
    using valid_chain_suffix [of "map snd new" "b # map snd ys"] snoc.prems(2) by (simp add: hb)
  have "multihash_from_digest_sha3_256 x data = Inr k" if "write_manifest cd b = Inr data" "\<not> t" for data
    using snoc.prems(3) that by (auto simp: source_serves_def hb)
  from transfer_append_succeeds [OF ok snoc.prems(4) block below valid this] obtain c where
    append: "chain_append x cd ?c b (sync_append_opts v t k) = Some (Inr k, c)" by blast
  note step = transfer_append [OF append ok snoc.prems(4) block]
  have "\<exists>ts'. commit_blocks x cd v t (rev new) ts1 = Some (Inr (), ts')" if "dset_chain (ts_dst ts1) = c" for ts1
  proof (rule snoc.IH [of "hb # ys" ts1])
    show "\<forall>(k, b) \<in> set (hb # ys). chain_get_block cd (dset_chain (ts_dst ts1)) k = Inr b"
      using snoc.prems(5) step(3,4) that hb by auto
  qed (use snoc.prems(1-3) step(2) that in \<open>simp_all add: source_serves_def\<close>)
  with append show ?case by (simp add: hb Let_def)
qed simp

subsection \<open>The whole synchronization\<close>

lemma current_ref_dest_head: "get_dest_head x c = Inr dst_head \<Longrightarrow> current_ref x c Head = Inr dst_head"
  by (auto simp: get_dest_head_def current_ref_def chain_resolve_ref_def
      split: sum.splits fault.splits get_ref_error.splits)

lemma synchronize_blocks_succeeds:
  assumes ok: "externs_ok x" and compatible: "transfer_compatible cd (dset_chain src) (dset_chain (ts_dst ts))"
    and at: "chain_at (chain_get_block cd (dset_chain src)) h (new @ ys)" and valid: "valid_chain (map snd (new @ ys))"
    and serves: "source_serves x cd t src new" and head: "get_dest_head x (dset_chain (ts_dst ts)) = Inr dst_head"
    and stored: "\<forall>(k, b) \<in> set ys. chain_get_block cd (dset_chain (ts_dst ts)) k = Inr b"
    and schedule: "\<And>tasks. mset (schedule tasks) = mset tasks"
  shows "\<exists>ts'. synchronize_blocks x cd schedule new src h dst_head v t ts = Some (Inr (), ts')"
proof -
  define stats where "stats = estimate_stats new (ts_stats ts)"
  define ts1 where "ts1 = ts\<lparr>ts_stats := stats, ts_log := ts_log ts @ [(TransferData, stats)]\<rparr>"
  define tasks where "tasks = schedule (block_download_tasks new)"
  have ts1: "ts_dst ts1 = ts_dst ts" by (simp add: ts1_def)
  have tasks: "set tasks = set (block_download_tasks new)"
    using schedule by (metis tasks_def mset_eq_setD)
  then have "\<forall>task \<in> set tasks. source_has_object x t src task"
    using serves by (auto simp: block_download_tasks_def source_serves_def)
  from downloads_succeed [OF ok this] obtain ts2 where
    downloads: "feach (run_download x src t) tasks ts1 = (Inr (), ts2)" by blast
  have chain: "dset_chain (ts_dst ts2) = dset_chain (ts_dst ts)"
    using downloads_grow [OF downloads] ts1 by (simp add: objects_grow_def)
  from commit_blocks_succeed [OF ok at valid serves, of "ts2\<lparr>ts_stats := stats\<rparr>"] compatible stored chain obtain ts3 where
    commit: "commit_blocks x cd v t (rev new) (ts2\<lparr>ts_stats := stats\<rparr>) = Some (Inr (), ts3)" by auto
  have blocks: "\<forall>(k, b) \<in> set new. chain_get_block cd (dset_chain src) k = Inr b" using chain_at_get [OF at] by auto
  have "ref_repo (dset_chain (ts_dst ts3)) = ref_repo (dset_chain (ts_dst ts))"
    using transfer_blocks_effect [OF ok _ blocks downloads tasks commit] compatible ts1 by (simp add: transferred_def)
  with current_ref_dest_head [OF head] have current: "current_ref x (dset_chain (ts_dst ts3)) Head = Inr dst_head"
    using current_ref_cong by metis
  have "wf_multihash h" using chain_at_hd [OF at] transfer_compatibleD(1) [OF compatible] by auto
  from mem_refs.set_succeeds [OF ok this] obtain refs where "ref_set x (ref_repo (dset_chain (ts_dst ts3))) Head h = Inr refs"
    by blast
  with current have "\<exists>ts'. update_dst_head x h dst_head ts3 = (Inr (), ts')"
    by (simp add: update_dst_head_def chain_set_ref_def set_ref_check_def)
  with downloads commit show ?thesis
    unfolding synchronize_blocks_def Let_def stats_def [symmetric] ts1_def [symmetric] tasks_def [symmetric] by simp
qed

lemma sync_succeeds:
  assumes ok: "externs_ok x" and compatible: "transfer_compatible cd (dset_chain src) (dset_chain dst)"
    and schedule: "\<And>tasks. mset (schedule tasks) = mset tasks"
    and src: "chain_resolve_ref x (dset_chain src) Head = Inr h" "chain_at (chain_get_block cd (dset_chain src)) h xs"
      "valid_chain (map snd xs)" "length xs \<le> 2 ^ 64" "source_serves x cd t src xs"
    and dst: "destination_chain x cd (dset_chain dst) ys" and mode: "suffix ys xs \<or> force"
  shows "\<exists>res d log. sync x cd schedule src_ref src (Some dst) factory v t force = Some (Inr res, d, log)"
proof -
  have head: "get_src_head x src_ref (dset_chain src) = Inr h" using src(1) by (simp add: get_src_head_def)
  obtain dst_head where dst_head: "get_dest_head x (dset_chain dst) = Inr dst_head"
    using dst by (auto simp: destination_chain_def split: sum.splits)
  have "numbered_chain (chain_get_block cd (dset_chain src)) h xs"
    by (rule valid_chain_numbered [OF src(2,3,4)])
  from compare_chains_outcome [OF transfer_compatible_agree [OF compatible] this destination_chain_compare [OF dst dst_head]]
  obtain reports where compare: "compare_chains cd (dset_chain src) h (dset_chain dst) dst_head =
      Some (reports, Inr (compare_chains_spec xs ys))" by blast
  obtain log0 stats where adapter: "compare_adapter reports default_sync_stats = (log0, stats)" by fastforce
  show ?thesis
  proof (cases "compare_chains_spec xs ys = ChainsEqual")
    case True
    with head dst_head compare adapter show ?thesis by (simp add: sync_def)
  next
    case False
    then have "xs \<noteq> ys" by (auto simp: compare_chains_spec_def)
    note blocks = blocks_to_transfer_exact [OF src(1,2) this]
    have check: "check_comparison force h dst_head (compare_chains_spec xs ys) = Inr ()"
      using mode \<open>xs \<noteq> ys\<close> by (auto simp: check_comparison_def compare_chains_spec_def)
    define new where "new = (if suffix ys xs then take (length xs - length ys) xs else xs)"
    define old where "old = (if suffix ys xs then ys else [])"
    have split: "xs = new @ old" using suffix_take by (auto simp: new_def old_def)
    have serves: "source_serves x cd t src new" using src(5) split by (auto simp: source_serves_def)
    have stored: "\<forall>(k, b) \<in> set old. chain_get_block cd (dset_chain dst) k = Inr b"
      using destination_chain_stored [OF dst] by (auto simp: old_def)
    let ?ts = "\<lparr>ts_dst = dst, ts_stats = stats, ts_log = log0\<rparr>"
    have "\<exists>ts'. synchronize_blocks x cd schedule new src h dst_head v t ?ts = Some (Inr (), ts')"
      by (rule synchronize_blocks_succeeds [OF ok _ src(2,3) [unfolded split] serves])
        (use compatible dst_head stored schedule in simp_all)
    then obtain ts' where "synchronize_blocks x cd schedule new src h dst_head v t ?ts = Some (Inr (), ts')" by blast
    with head dst_head compare adapter False check blocks show ?thesis
      by (simp add: sync_def sync_transfer_def ensure_destination_def flip: new_def)
  qed
qed

end
