(* ===== verification/Sync_Claims.thy ===== *)
theory Sync_Claims
  imports Sync_Progress
begin

text \<open>
  Properties of the synchronization of datasets: the comparison of two chains is exact, a successful
  transfer makes the destination hold the chain and the objects of the source, a transfer from a
  source that keeps its promises succeeds, a failed one leaves the destination logically as it was,
  and a validated one never makes the destination invalid, whatever the source sends.
\<close>

section \<open>An example: a source of three blocks, a destination with the first\<close>

definition demo_src :: dataset where
  "demo_src = empty_dataset\<lparr>dset_chain := demo3, dset_data_repo := [demo_hash 0 \<mapsto> demo_file]\<rparr>"

definition demo_dst :: dataset where
  "demo_dst = empty_dataset\<lparr>dset_chain := demo1\<rparr>"

definition demo_blocks :: "hashed_block list" where
  "demo_blocks = [(demo_hash 2, demo_data), (demo_hash 1, demo_schema), (demo_hash 0, demo_seed)]"

lemma demo_sync_simps [simp]:
  "dset_chain demo_src = demo3" "dset_chain demo_dst = demo1"
  by (simp_all add: demo_src_def demo_dst_def)

lemma chain_append_stored:
  assumes "chain_append x cd c b opts = Some (Inr h, c')"
  shows "\<exists>data. write_manifest cd b = Inr data \<and> meta_block_repo c' = (meta_block_repo c)(h \<mapsto> data)"
  using assms
proof (cases rule: chain_append_cases)
  case committed
  from append_commit_Inr [OF committed(1)] show ?thesis by (auto dest!: repo_insert_block_Inr)
qed simp

lemma demo_repos:
  "meta_block_repo demo1 = [demo_hash 0 \<mapsto> [0]]"
  "meta_block_repo demo3 = [demo_hash 0 \<mapsto> [0], demo_hash 1 \<mapsto> [1], demo_hash 2 \<mapsto> [2]]"
  using demo_appends [THEN chain_append_stored]
  by (simp_all add: demo_codec_def demo_seed_def demo_schema_def demo_data_def empty_chain_def)

lemma demo_codec_ok:
  "codec_ok_on demo_codec demo_seed" "codec_ok_on demo_codec demo_schema" "codec_ok_on demo_codec demo_data"
  by code_simp+

lemma demo_hash_wf: "wf_multihash (demo_hash n)"
  by (simp add: wf_multihash_def demo_hash_def MAX_MULTIHASH_DIGEST_LEN_def)

lemma demo_hash_inject: "demo_hash m = demo_hash n \<longleftrightarrow> m = n"
  by (simp add: demo_hash_def)

lemma demo_compatible: "transfer_compatible demo_codec demo3 demo1"
proof -
  have "(h, b) \<in> set demo_blocks" if "chain_get_block demo_codec demo3 h = Inr b" for h b
  proof -
    from get_block_dom [OF that] have "h = demo_hash 0 \<or> h = demo_hash 1 \<or> h = demo_hash 2"
      by (auto simp: demo_repos)
    with that demo_reads(4-6) show ?thesis by (auto simp: demo_blocks_def)
  qed
  moreover have "meta_block_repo demo1 (demo_hash 1) = None" "meta_block_repo demo1 (demo_hash 2) = None"
    "meta_block_repo demo1 (demo_hash 0) = Some [0]" "write_manifest demo_codec demo_seed = Inr [0]"
    by (simp_all add: demo_repos demo_hash_inject demo_codec_def demo_seed_def)
  ultimately show ?thesis
    using demo_codec_ok demo_hash_wf unfolding transfer_compatible_def demo_blocks_def by fastforce
qed

lemma demo_heads:
  "chain_resolve_ref demo_externs demo3 Head = Inr (demo_hash 2)"
  "chain_resolve_ref demo_externs demo1 Head = Inr (demo_hash 0)"
  using demo_reads(7,9) by (simp_all add: resolve_current)

lemma demo_valid:
  "chain_at (chain_get_block demo_codec demo3) (demo_hash 2) demo_blocks" "valid_chain (map snd demo_blocks)"
  "chain_at (chain_get_block demo_codec demo1) (demo_hash 0) [(demo_hash 0, demo_seed)]" "valid_chain [demo_seed]"
proof -
  show at: "chain_at (chain_get_block demo_codec demo3) (demo_hash 2) demo_blocks"
    using demo_chain_at(2) by (simp add: demo_blocks_def)
  show valid: "valid_chain (map snd demo_blocks)"
    using reachable_head [OF demo_reachable(3) demo_externs_ok demo_heads(1)] chain_at_unique [OF at] by auto
  then show "valid_chain [demo_seed]" by (simp add: demo_blocks_def)
  show "chain_at (chain_get_block demo_codec demo1) (demo_hash 0) [(demo_hash 0, demo_seed)]"
    using demo_reads(1) demo_links(1) by (rule chain_root)
qed

lemma demo_destination: "destination_chain demo_externs demo_codec demo1 [(demo_hash 0, demo_seed)]"
  using valid_chain_numbered [OF demo_valid(3)] demo_valid(4)
  by (simp add: destination_chain_def get_dest_head_def demo_heads)

lemma demo_serves: "source_serves demo_externs demo_codec False demo_src demo_blocks"
proof -
  have "list_all (\<lambda>(h, b). list_all (source_has_object demo_externs False demo_src) (block_downloads b)
      \<and> (case write_manifest demo_codec b of Inl _ \<Rightarrow> True
         | Inr data \<Rightarrow> multihash_from_digest_sha3_256 demo_externs data = Inr h)) demo_blocks"
    by code_simp
  then show ?thesis by (auto simp: source_serves_def list_all_iff)
qed

section \<open>Comparing chains\<close>

text \<open>
  C18. The comparison of two valid chains whose stores never give different blocks for a hash always
  returns, with the right answer: equal; ahead or behind, with exactly the blocks that the other
  chain lacks, newest first; or diverged, with the exact numbers of blocks that are not common. The
  numbers of reads it announces to its listener are those it makes, on both sides.
\<close>

theorem compare_chains_exact:
  assumes "blocks_agree (chain_get_block cd lhs) (chain_get_block cd rhs)"
    and "chain_at (chain_get_block cd lhs) h xs" "valid_chain (map snd xs)" "length xs \<le> 2 ^ 64"
    and "case k of
           None \<Rightarrow> ys = []
         | Some k' \<Rightarrow> chain_at (chain_get_block cd rhs) k' ys \<and> valid_chain (map snd ys) \<and> length ys \<le> 2 ^ 64"
  shows "\<exists>rs. compare_chains cd lhs h rhs k = Some (rs, Inr
      (if xs = ys then ChainsEqual
       else if suffix ys xs then LhsAhead (take (length xs - length ys) xs)
       else if suffix xs ys then LhsBehind (take (length ys - length xs) ys)
       else Divergence (of_nat (length xs - common_blocks xs ys)) (of_nat (length ys - common_blocks xs ys))))
    \<and> lhs_reads rs = lhs_expected_reads rs \<and> rhs_reads rs = rhs_expected_reads rs"
proof -
  have "case k of None \<Rightarrow> ys = [] | Some k' \<Rightarrow> numbered_chain (chain_get_block cd rhs) k' ys"
    using assms(5) valid_chain_numbered by (auto split: option.splits)
  from compare_chains_outcome [OF assms(1) valid_chain_numbered [OF assms(2-4)] this] show ?thesis
    by (simp add: compare_chains_spec_def reads_as_expected_def)
qed

theorem compare_chains_exact_witness:
  "\<exists>rs. compare_chains demo_codec demo3 (demo_hash 2) demo1 (Some (demo_hash 0)) =
     Some (rs, Inr (LhsAhead [(demo_hash 2, demo_data), (demo_hash 1, demo_schema)]))
   \<and> lhs_reads rs = lhs_expected_reads rs"
  using compare_chains_exact [OF transfer_compatible_agree [OF demo_compatible] demo_valid(1,2),
      where k = "Some (demo_hash 0)" and ys = "[(demo_hash 0, demo_seed)]"] demo_valid(3,4)
  by (auto simp: demo_blocks_def suffix_def)

section \<open>Transfers\<close>

text \<open>
  C7. Whenever a synchronization from a valid source reports success, in whatever order its
  downloads took effect, the head of the destination is that of the source, the chain below it is
  block for block the chain of the source, every block that was not in the chain of the destination
  before has its data and its checkpoint there, and nothing that the destination held is lost.
\<close>

theorem sync_success_copies:
  assumes "sync x cd schedule src_ref src (Some dst) factory v t force = Some (Inr res, d, log)"
    and "externs_ok x" and "transfer_compatible cd (dset_chain src) (dset_chain dst)"
    and "\<And>tasks. mset (schedule tasks) = mset tasks"
    and "chain_resolve_ref x (dset_chain src) Head = Inr h" "chain_at (chain_get_block cd (dset_chain src)) h xs"
      "valid_chain (map snd xs)" "length xs \<le> 2 ^ 64"
    and "destination_chain x cd (dset_chain dst) ys"
  shows "\<exists>d'. d = Some d' \<and> chain_resolve_ref x (dset_chain d') Head = Inr h
    \<and> chain_at (chain_get_block cd (dset_chain d')) h xs
    \<and> (\<forall>k b. (k, b) \<in> set xs \<and> (k, b) \<notin> set ys \<longrightarrow> objects_present d' (event b))
    \<and> contents_kept cd dst d'"
  using sync_success [OF assms(1-5) valid_chain_numbered [OF assms(6-8)] assms(9)] by fastforce

theorem sync_success_copies_witness:
  "\<exists>d log. sync demo_externs demo_codec rev (AnyUrl []) demo_src (Some demo_dst) None ValidationFull False False =
      Some (Inr (Updated (Some (demo_hash 0)) (demo_hash 2) 2), Some d, log)
    \<and> chain_resolve_ref demo_externs (dset_chain d) Head = Inr (demo_hash 2)
    \<and> chain_at (chain_get_block demo_codec (dset_chain d)) (demo_hash 2) demo_blocks"
proof -
  let ?run = "sync demo_externs demo_codec rev (AnyUrl []) demo_src (Some demo_dst) None ValidationFull False False"
  have "map_option fst ?run = Some (Inr (Updated (Some (demo_hash 0)) (demo_hash 2) 2))" by code_simp
  then obtain d log where run: "?run = Some (Inr (Updated (Some (demo_hash 0)) (demo_hash 2) 2), d, log)"
    by (cases ?run) auto
  have "transfer_compatible demo_codec (dset_chain demo_src) (dset_chain demo_dst)"
    "chain_resolve_ref demo_externs (dset_chain demo_src) Head = Inr (demo_hash 2)"
    "chain_at (chain_get_block demo_codec (dset_chain demo_src)) (demo_hash 2) demo_blocks"
    "destination_chain demo_externs demo_codec (dset_chain demo_dst) [(demo_hash 0, demo_seed)]"
    "length demo_blocks \<le> 2 ^ 64"
    using demo_compatible demo_heads demo_valid demo_destination by (simp_all add: demo_blocks_def)
  from sync_success_copies [OF run demo_externs_ok this(1) mset_rev this(2,3) demo_valid(2) this(5,4)] run
  show ?thesis by blast
qed

text \<open>
  C19. A synchronization succeeds whenever the source is valid, has the objects of its blocks and,
  unless its hashes are trusted, blocks and objects that match their hashes, and the destination is
  an older version of the source, or the transfer is forced: it returns, in whatever order the
  downloads take effect, with no error and no panic.
\<close>

theorem sync_completes:
  assumes "externs_ok x" and "transfer_compatible cd (dset_chain src) (dset_chain dst)"
    and "\<And>tasks. mset (schedule tasks) = mset tasks"
    and "chain_resolve_ref x (dset_chain src) Head = Inr h" "chain_at (chain_get_block cd (dset_chain src)) h xs"
      "valid_chain (map snd xs)" "length xs \<le> 2 ^ 64" "source_serves x cd t src xs"
    and "destination_chain x cd (dset_chain dst) ys" and "suffix ys xs \<or> force"
  shows "\<exists>res d log. sync x cd schedule src_ref src (Some dst) factory v t force = Some (Inr res, d, log)"
  by (rule sync_succeeds [OF assms])

theorem sync_completes_witness:
  "\<exists>res d log. sync demo_externs demo_codec (\<lambda>tasks. tasks) (AnyUrl []) demo_src (Some demo_dst) None ValidationFull
     False False = Some (Inr res, d, log)"
proof -
  have "suffix [(demo_hash 0, demo_seed)] demo_blocks" by (simp add: demo_blocks_def suffix_def)
  then show ?thesis
    using sync_completes [of demo_externs demo_codec demo_src demo_dst "\<lambda>tasks. tasks" "demo_hash 2" demo_blocks False
        "[(demo_hash 0, demo_seed)]" False]
      demo_externs_ok demo_compatible demo_heads demo_valid demo_destination demo_serves
    by (simp add: demo_blocks_def)
qed

text \<open>
  C8. A synchronization into an existing destination that fails, at any point and in any order of the
  downloads, leaves the destination in its original logical state: its head is the same, every chain of blocks
  it had is still there block for block, its data and checkpoints are still there with the same contents, and
  what it cached is unchanged. The source may be incomplete or inconsistent; a hash that names a block in
  both datasets has to name the same block in both (\<open>transfer_compatible\<close>, as addressing by content
  gives). What a failed run may have added, blocks beside the head and files, is not taken back.
\<close>

theorem sync_failure_keeps_destination:
  assumes "sync x cd schedule src_ref src (Some dst) factory v t force = Some (Inl f, d, log)"
    and "externs_ok x" and "transfer_compatible cd (dset_chain src) (dset_chain dst)"
    and "\<And>tasks. mset (schedule tasks) = mset tasks"
  shows "\<exists>d'. d = Some d' \<and> chain_resolve_ref x (dset_chain d') Head = chain_resolve_ref x (dset_chain dst) Head
    \<and> (\<forall>h bs. chain_at (chain_get_block cd (dset_chain dst)) h bs \<longrightarrow>
         chain_at (chain_get_block cd (dset_chain d')) h bs)
    \<and> dset_data_repo dst \<subseteq>\<^sub>m dset_data_repo d' \<and> dset_checkpoint_repo dst \<subseteq>\<^sub>m dset_checkpoint_repo d'
    \<and> dset_info_repo d' = dset_info_repo dst"
proof -
  from sync_effect [OF assms] obtain d' where "d = Some d'" "contents_kept cd dst d'"
    "ref_repo (dset_chain d') = ref_repo (dset_chain dst)" by blast
  then show ?thesis
    using contents_kept_chains by (auto simp: contents_kept_def chain_resolve_ref_def)
qed

definition demo_broken_src :: dataset where
  "demo_broken_src = empty_dataset\<lparr>dset_chain := demo3\<rparr>"

theorem sync_failure_keeps_destination_witness:
  "\<exists>d log. sync demo_externs demo_codec (\<lambda>tasks. tasks) (AnyUrl []) demo_broken_src (Some demo_dst) None
       ValidationFull False False =
      Some (Inl (Fail (SyncCorrupted (CorruptedMessage ''Source data file is missing''))), Some d, log)
    \<and> chain_resolve_ref demo_externs (dset_chain d) Head = Inr (demo_hash 0)"
proof -
  let ?run = "sync demo_externs demo_codec (\<lambda>tasks. tasks) (AnyUrl []) demo_broken_src (Some demo_dst) None
       ValidationFull False False"
  let ?err = "Fail (SyncCorrupted (CorruptedMessage ''Source data file is missing''))"
  have "map_option fst ?run = Some (Inl ?err)" by code_simp
  then obtain d log where run: "?run = Some (Inl ?err, d, log)" by (cases ?run) auto
  have "transfer_compatible demo_codec (dset_chain demo_broken_src) (dset_chain demo_dst)"
    using demo_compatible by (simp add: demo_broken_src_def)
  from sync_failure_keeps_destination [OF run demo_externs_ok this refl] run demo_heads show ?thesis by auto
qed

text \<open>
  A synchronization with full validation keeps the chain of the destination one that validated
  appends and changes of its head could have built, whatever blocks the source holds and whatever the
  outcome: every stored block is part of a valid chain and the head, if any, is stored.
\<close>

theorem sync_keeps_destination_valid:
  assumes "sync x cd schedule src_ref src (Some dst) factory ValidationFull t force = Some (r, d, log)"
    and "externs_ok x" and "transfer_compatible cd (dset_chain src) (dset_chain dst)"
    and "\<And>tasks. mset (schedule tasks) = mset tasks"
    and "chain_reachable x cd (dset_chain dst)"
  shows "\<exists>d'. d = Some d' \<and> chain_reachable x cd (dset_chain d') \<and> blocks_inv cd (dset_chain d')
    \<and> head_inv x (dset_chain d')"
  using sync_effect [OF assms(1-4)] assms(5) chain_reachable_inv [OF _ assms(2)] by blast

theorem sync_keeps_destination_valid_witness:
  "\<exists>r d log. sync demo_externs demo_codec (\<lambda>tasks. tasks) (AnyUrl []) demo_broken_src (Some demo_dst) None
       ValidationFull False True = Some (r, Some d, log) \<and> blocks_inv demo_codec (dset_chain d)"
proof -
  let ?run = "sync demo_externs demo_codec (\<lambda>tasks. tasks) (AnyUrl []) demo_broken_src (Some demo_dst) None
       ValidationFull False True"
  have "?run \<noteq> None" by code_simp
  then obtain r d log where run: "?run = Some (r, d, log)" by (cases ?run) auto
  have "transfer_compatible demo_codec (dset_chain demo_broken_src) (dset_chain demo_dst)"
    using demo_compatible by (simp add: demo_broken_src_def)
  from sync_keeps_destination_valid [OF run demo_externs_ok this refl] run demo_reachable(1) show ?thesis by auto
qed

section \<open>Progress reports\<close>

text \<open>The counters that downloads advance.\<close>

definition transfer_counters :: "sync_stats \<Rightarrow> u64 \<times> u64 \<times> u64 \<times> u64" where
  "transfer_counters s =
     (sp_data_slices_written (st_dst s), sp_data_records_written (st_dst s), sp_checkpoints_written (st_dst s),
      sp_bytes_written (st_dst s))"

lemma compare_adapter_counters:
  "compare_adapter rs s = (log, s') \<Longrightarrow>
     (\<forall>e. (CommitBlocks, e) \<notin> set log) \<and> transfer_counters s' = transfer_counters s"
proof (induction rs arbitrary: s log s')
  case (Cons r rs)
  obtain log1 s1 where rest: "compare_adapter rs (compare_adapter_step r s) = (log1, s1)" by fastforce
  have "transfer_counters (compare_adapter_step r s) = transfer_counters s"
    by (cases r) (simp_all add: transfer_counters_def)
  with Cons.IH [OF rest] Cons.prems rest show ?case by (auto simp: Let_def)
qed simp

lemma downloads_log:
  "feach (run_download x src t) tasks ts = (r, ts') \<Longrightarrow> (CommitBlocks, e) \<in> set (ts_log ts') \<Longrightarrow>
     (CommitBlocks, e) \<in> set (ts_log ts)"
proof (induction tasks arbitrary: ts)
  case (Cons task tasks)
  obtain r1 ts1 where first: "run_download x src t task ts = (r1, ts1)" by fastforce
  then have "(CommitBlocks, e) \<in> set (ts_log ts1) \<Longrightarrow> (CommitBlocks, e) \<in> set (ts_log ts)"
    by (cases task) (auto simp: download_block_data_def download_block_checkpoint_def Let_def split: sum.splits)
  with Cons first show ?case by (cases r1) (auto simp: fbind_def)
qed (simp add: freturn_def)

lemma commit_blocks_log:
  "commit_blocks x cd v t bs ts = Some (r, ts') \<Longrightarrow> (CommitBlocks, e) \<in> set (ts_log ts') \<Longrightarrow>
     (CommitBlocks, e) \<in> set (ts_log ts) \<or> transfer_counters e = transfer_counters (ts_stats ts)"
proof (induction bs arbitrary: ts)
  case (Cons hb bs)
  obtain h b where hb: "hb = (h, b)" by fastforce
  from Cons.prems(1) hb obtain r0 c where
    append: "chain_append x cd (dset_chain (ts_dst ts)) b (sync_append_opts v t h) = Some (r0, c)"
    by (auto simp: bind_eq_Some_conv)
  show ?case
  proof (cases r0)
    case (Inl f)
    with Cons.prems append hb show ?thesis by (auto simp: Let_def)
  next
    case (Inr k)
    define s1 where "s1 = (ts_stats ts)\<lparr>st_dst := (st_dst (ts_stats ts))
      \<lparr>sp_metadata_blocks_written := sp_metadata_blocks_written (st_dst (ts_stats ts)) + 1\<rparr>\<rparr>"
    have "transfer_counters s1 = transfer_counters (ts_stats ts)" by (simp add: s1_def transfer_counters_def)
    moreover have "commit_blocks x cd v t bs (ts\<lparr>ts_dst := (ts_dst ts)\<lparr>dset_chain := c\<rparr>, ts_stats := s1,
        ts_log := ts_log ts @ [(CommitBlocks, s1)]\<rparr>) = Some (r, ts')"
      using Cons.prems(1) append hb Inr by (simp add: Let_def s1_def)
    from Cons.IH [OF this Cons.prems(2)] have "(CommitBlocks, e) \<in> set (ts_log ts @ [(CommitBlocks, s1)])
        \<or> transfer_counters e = transfer_counters s1" by simp
    ultimately show ?thesis by auto
  qed
qed simp

lemma estimate_counters: "transfer_counters (estimate_stats blocks s) = transfer_counters s"
proof -
  have "transfer_counters (estimate_download d s) = transfer_counters s" for d s
    by (cases d) (simp_all add: estimate_data_def estimate_checkpoint_def transfer_counters_def)
  then have "transfer_counters (fold estimate_download ds s) = transfer_counters s" for ds s
    by (induction ds arbitrary: s) simp_all
  then show ?thesis by (simp add: estimate_stats_def) (simp add: transfer_counters_def)
qed

lemma synchronize_blocks_log:
  assumes "synchronize_blocks x cd schedule blocks src src_head dst_head v t ts = Some (r, ts')"
    and "(CommitBlocks, e) \<in> set (ts_log ts')" and "(CommitBlocks, e) \<notin> set (ts_log ts)"
  shows "transfer_counters e = transfer_counters (ts_stats ts)"
proof -
  define stats where "stats = estimate_stats blocks (ts_stats ts)"
  define ts1 where "ts1 = ts\<lparr>ts_stats := stats, ts_log := ts_log ts @ [(TransferData, stats)]\<rparr>"
  obtain r2 ts2 where downloads: "feach (run_download x src t) (schedule (block_download_tasks blocks)) ts1 = (r2, ts2)"
    by fastforce
  have before: "(CommitBlocks, e) \<notin> set (ts_log ts2)"
    using downloads_log [OF downloads, of e] assms(3) by (auto simp: ts1_def)
  note run = assms(1) [unfolded synchronize_blocks_def Let_def, folded stats_def, folded ts1_def, unfolded downloads]
  from run before assms(2) obtain u where ok: "r2 = Inr u" by (cases r2) auto
  with run obtain r3 ts3 where commit: "commit_blocks x cd v t (rev blocks) (ts2\<lparr>ts_stats := stats\<rparr>) = Some (r3, ts3)"
    by (auto simp: bind_eq_Some_conv)
  have log: "ts_log ts' = ts_log ts3"
  proof (cases r3)
    case (Inl f)
    with run ok commit show ?thesis by simp
  next
    case (Inr u')
    with run ok commit have "snd (update_dst_head x src_head dst_head ts3) = ts'" by simp
    then show ?thesis by (auto simp: update_dst_head_def split_beta)
  qed
  from commit_blocks_log [OF commit, of e] assms(2) before log
  have "transfer_counters e = transfer_counters stats" by simp
  then show ?thesis by (simp add: stats_def estimate_counters)
qed

text \<open>
  The statuses that a synchronization reports while it commits blocks never count a transferred
  file, record or byte, no matter what was transferred: the stage starts from a copy of the
  statistics taken before the downloads, so the progress that was reported falls back.
\<close>

theorem commit_stage_forgets_transfers:
  assumes "sync x cd schedule src_ref src (Some dst) factory v t force = Some (r, d, log)"
    and "(CommitBlocks, s) \<in> set log"
  shows "sp_data_slices_written (st_dst s) = 0 \<and> sp_data_records_written (st_dst s) = 0
    \<and> sp_checkpoints_written (st_dst s) = 0 \<and> sp_bytes_written (st_dst s) = 0"
proof -
  have compared: "(CommitBlocks, s) \<notin> set (fst (compare_adapter reports default_sync_stats))" for reports
    using compare_adapter_counters [of reports default_sync_stats] by (metis prod.collapse)
  have "transfer_counters s = transfer_counters default_sync_stats"
    using assms(1)
  proof (cases rule: sync_cases)
    case (ran src_head dst_head reports comparison blocks ts r' ts')
    from compare_adapter_counters [OF ran(11)] synchronize_blocks_log [OF ran(8), of s] assms(2) ran(12)
    show ?thesis by simp
  qed (use compared assms(2) in auto)
  then show ?thesis by (simp add: transfer_counters_def default_sync_stats_def default_party_stats_def)
qed

theorem commit_stage_forgets_transfers_witness:
  "\<exists>r d log s1 s2. sync demo_externs demo_codec (\<lambda>tasks. tasks) (AnyUrl []) demo_src (Some demo_dst) None
       ValidationFull False False = Some (r, d, log)
    \<and> (TransferData, s1) \<in> set log \<and> sp_data_slices_written (st_dst s1) = 1
    \<and> (CommitBlocks, s2) \<in> set log \<and> sp_data_slices_written (st_dst s2) = 0"
proof -
  let ?run = "sync demo_externs demo_codec (\<lambda>tasks. tasks) (AnyUrl []) demo_src (Some demo_dst) None ValidationFull False False"
  have "case ?run of
      None \<Rightarrow> False
    | Some (_, _, log) \<Rightarrow> list_ex (\<lambda>(g, s). g = TransferData \<and> sp_data_slices_written (st_dst s) = 1) log
        \<and> list_ex (\<lambda>(g, _). g = CommitBlocks) log"
    by code_simp
  then obtain r d log where run: "?run = Some (r, d, log)"
    and logged: "list_ex (\<lambda>(g, s). g = TransferData \<and> sp_data_slices_written (st_dst s) = 1) log"
      "list_ex (\<lambda>(g, _). g = CommitBlocks) log" by (auto split: option.splits)
  from logged obtain s1 s2 where "(TransferData, s1) \<in> set log" "sp_data_slices_written (st_dst s1) = 1"
    "(CommitBlocks, s2) \<in> set log" by (auto simp: list_ex_iff)
  with run commit_stage_forgets_transfers [OF run] show ?thesis by blast
qed

end
