(* ===== verification/Compaction.thy ===== *)
theory Compaction
  imports Dataset_Demo
begin

text \<open>
  Compaction of a dataset (\<open>compaction_service_impl.rs\<close>, with the results, options and errors of
  \<open>domain/core/src/services/compaction_service.rs\<close>): adjacent data slices are merged into larger
  ones, up to a size and a number of records, and a new chain is committed next to the old one, on
  top of the seed; the head is moved to it at the end.

  The chain is walked from the newest block to the oldest. Merging the files of a batch is a query of
  DataFusion (\<open>read_parquet\<close>, \<open>sort\<close>, \<open>write_parquet\<close>), a parameter: a function from the offset column and
  the contents of the files. The url of a data slice stands for its hash, which determines it.
  Whether the caller may write to the dataset is the answer of the authorizer, a parameter too.
\<close>

section \<open>Options, results and errors (compaction_service.rs)\<close>

definition DEFAULT_MAX_SLICE_SIZE :: u64 where "DEFAULT_MAX_SLICE_SIZE = 300000000"
definition DEFAULT_MAX_SLICE_RECORDS :: u64 where "DEFAULT_MAX_SLICE_RECORDS = 10000"

record compaction_options =
  cpo_max_slice_size :: "u64 option"
  cpo_max_slice_records :: "u64 option"
  cpo_keep_metadata_only :: bool

definition default_compaction_options :: compaction_options where
  "default_compaction_options =
     \<lparr>cpo_max_slice_size = Some DEFAULT_MAX_SLICE_SIZE, cpo_max_slice_records = Some DEFAULT_MAX_SLICE_RECORDS,
      cpo_keep_metadata_only = False\<rparr>"

datatype compaction_error =
    CompactionDatasetNotFound
  | CompactionAccess access_error
  | CompactionInternal string
  | InvalidDatasetKind dataset_name

datatype unauthorized_error = UnauthorizedAccess access_error | UnauthorizedInternal string

fun compaction_error_of_unauthorized :: "unauthorized_error \<Rightarrow> compaction_error" where
  "compaction_error_of_unauthorized (UnauthorizedAccess e) = CompactionAccess e"
| "compaction_error_of_unauthorized (UnauthorizedInternal m) = CompactionInternal m"

fun compaction_error_of_get_ref :: "get_ref_error \<Rightarrow> compaction_error" where
  "compaction_error_of_get_ref (RefNotFound _) = CompactionInternal ''reference not found''"
| "compaction_error_of_get_ref (RefAccess e) = CompactionAccess e"
| "compaction_error_of_get_ref (RefInternal m) = CompactionInternal m"

fun compaction_error_of_iter :: "iter_blocks_error \<Rightarrow> compaction_error" where
  "compaction_error_of_iter (IterAccess e) = CompactionAccess e"
| "compaction_error_of_iter (IterInternal m) = CompactionInternal m"
| "compaction_error_of_iter _ = CompactionInternal ''iteration''"

fun compaction_error_of_set_ref :: "set_ref_error \<Rightarrow> compaction_error" where
  "compaction_error_of_set_ref (SetRefAccess e) = CompactionAccess e"
| "compaction_error_of_set_ref (SetRefInternal m) = CompactionInternal m"
| "compaction_error_of_set_ref _ = CompactionInternal ''set reference''"

section \<open>Batches of data slices\<close>

record batch_upper_bound =
  bub_new_source_state :: "source_state option"
  bub_new_watermark :: "datetime option"
  bub_new_checkpoint :: "checkpoint option"
  bub_end_offset :: u64

record batch_lower_bound =
  blb_prev_offset :: "u64 option"
  blb_prev_checkpoint :: "multihash option"
  blb_start_offset :: u64

record batch_info =
  bi_data_slices_batch :: "multihash list"
  bi_upper_bound :: batch_upper_bound
  bi_lower_bound :: batch_lower_bound
  bi_new_file :: "bytes option"

definition default_batch_info :: batch_info where
  "default_batch_info =
     \<lparr>bi_data_slices_batch = [],
      bi_upper_bound = \<lparr>bub_new_source_state = None, bub_new_watermark = None, bub_new_checkpoint = None,
        bub_end_offset = 0\<rparr>,
      bi_lower_bound = \<lparr>blb_prev_offset = None, blb_prev_checkpoint = None, blb_start_offset = 0\<rparr>,
      bi_new_file = None\<rparr>"

datatype data_slice_batch = CompactedBatch batch_info | SingleBlock multihash

record chain_files_info =
  cfi_old_head :: multihash
  cfi_old_num_blocks :: nat
  cfi_offset_column :: string
  cfi_data_slice_batches :: "data_slice_batch list"

definition append_add_data_batch_to_chain_info ::
  "multihash option \<Rightarrow> batch_info \<Rightarrow> data_slice_batch list \<Rightarrow> ('e, bool \<times> data_slice_batch list) res" where
  "append_add_data_batch_to_chain_info hash info batches =
     (if length (bi_data_slices_batch info) = 1 then
        and_then (unwrap hash) (\<lambda>h. Inr (True, batches @ [SingleBlock h]))
      else if length (bi_data_slices_batch info) > 1 then Inr (True, batches @ [CompactedBatch info])
      else Inr (False, batches))"

section \<open>Gathering the chain\<close>

text \<open>The variables of the loop.\<close>

record gather_state =
  gth_old_num_blocks :: nat
  gth_old_head :: "multihash option"
  gth_current_hash :: "multihash option"
  gth_vocab_event :: "set_vocab option"
  gth_info :: batch_info
  gth_batches :: "data_slice_batch list"
  gth_batch_size :: u64
  gth_batch_records :: u64

definition initial_gather_state :: gather_state where
  "initial_gather_state =
     \<lparr>gth_old_num_blocks = 0, gth_old_head = None, gth_current_hash = None, gth_vocab_event = None,
      gth_info = default_batch_info, gth_batches = [], gth_batch_size = 0, gth_batch_records = 0\<rparr>"

definition with_end_offset :: "u64 \<Rightarrow> batch_info \<Rightarrow> batch_info" where
  "with_end_offset e info = info\<lparr>bi_upper_bound := (bi_upper_bound info)\<lparr>bub_end_offset := e\<rparr>\<rparr>"

text \<open>The batch that takes the slice in: the current one, or a new one when that would exceed a limit.\<close>

definition take_slice :: "u64 \<Rightarrow> u64 \<Rightarrow> data_slice \<Rightarrow> gather_state \<Rightarrow> ('e, gather_state) res" where
  "take_slice max_size max_records sl g =
     (let interval_end = oi_end (ds_offset_interval sl);
          info = (if bi_data_slices_batch (gth_info g) = [] then with_end_offset interval_end (gth_info g)
                  else gth_info g);
          records = data_slice_num_records sl
      in if gth_batch_size g + ds_size sl > max_size \<or> gth_batch_records g + records > max_records
         then and_then (append_add_data_batch_to_chain_info (gth_current_hash g) info (gth_batches g))
                (\<lambda>(is_appended, batches).
                   let info' = (if is_appended then with_end_offset interval_end default_batch_info else info)
                   in Inr (g\<lparr>gth_batches := batches,
                             gth_info := info'\<lparr>bi_data_slices_batch := [ds_physical_hash sl]\<rparr>,
                             gth_batch_size := ds_size sl, gth_batch_records := records\<rparr>))
         else Inr (g\<lparr>gth_info := info\<lparr>bi_data_slices_batch := bi_data_slices_batch info @ [ds_physical_hash sl]\<rparr>,
                     gth_batch_size := gth_batch_size g + ds_size sl,
                     gth_batch_records := gth_batch_records g + records\<rparr>))"

definition set_lower_bound :: "multihash \<Rightarrow> add_data \<Rightarrow> data_slice \<Rightarrow> gather_state \<Rightarrow> gather_state" where
  "set_lower_bound block_hash e sl g =
     g\<lparr>gth_info := (gth_info g)\<lparr>bi_lower_bound :=
           \<lparr>blb_prev_offset = ad_prev_offset e, blb_prev_checkpoint = ad_prev_checkpoint e,
            blb_start_offset = oi_start (ds_offset_interval sl)\<rparr>\<rparr>,
       gth_current_hash := Some block_hash\<rparr>"

definition set_upper_bound :: "add_data \<Rightarrow> gather_state \<Rightarrow> gather_state" where
  "set_upper_bound e g =
     g\<lparr>gth_info := (gth_info g)\<lparr>bi_upper_bound := (bi_upper_bound (gth_info g))
         \<lparr>bub_new_checkpoint := opt_or (bub_new_checkpoint (bi_upper_bound (gth_info g))) (ad_new_checkpoint e),
          bub_new_source_state := opt_or (bub_new_source_state (bi_upper_bound (gth_info g))) (ad_new_source_state e),
          bub_new_watermark := opt_or (bub_new_watermark (bi_upper_bound (gth_info g))) (ad_new_watermark e)\<rparr>\<rparr>\<rparr>"

definition gather_add_data ::
  "bool \<Rightarrow> u64 \<Rightarrow> u64 \<Rightarrow> multihash \<Rightarrow> add_data \<Rightarrow> gather_state \<Rightarrow> ('e, gather_state) res" where
  "gather_add_data keep_metadata_only max_size max_records block_hash e g =
     and_then
       (case ad_new_data e of
          Some sl \<Rightarrow>
            if keep_metadata_only then Inr g
            else and_then (take_slice max_size max_records sl g) (\<lambda>g'. Inr (set_lower_bound block_hash e sl g'))
        | None \<Rightarrow> Inr g)
       (\<lambda>g'. Inr (set_upper_bound e g'))"

text \<open>Any event but data and the seed ends the current batch and is kept as it is.\<close>

definition gather_other :: "multihash \<Rightarrow> gather_state \<Rightarrow> ('e, gather_state) res" where
  "gather_other block_hash g =
     and_then (append_add_data_batch_to_chain_info (gth_current_hash g) (gth_info g) (gth_batches g))
       (\<lambda>(is_appended, batches).
          Inr (g\<lparr>gth_batches := batches @ [SingleBlock block_hash],
                 gth_info := (if is_appended then default_batch_info else gth_info g)\<rparr>))"

definition gather_step ::
  "bool \<Rightarrow> u64 \<Rightarrow> u64 \<Rightarrow> hashed_block \<Rightarrow> gather_state \<Rightarrow> ('e, gather_state) res" where
  "gather_step keep_metadata_only max_size max_records hb g =
     (let g1 = g\<lparr>gth_old_num_blocks := gth_old_num_blocks g + 1\<rparr>
      in case event (snd hb) of
           AddData e \<Rightarrow> gather_add_data keep_metadata_only max_size max_records (fst hb) e g1
         | Seed _ \<Rightarrow> Inr (g1\<lparr>gth_old_head := Some (fst hb)\<rparr>)
         | ExecuteTransform _ \<Rightarrow> Inr g1
         | SetVocab v \<Rightarrow> gather_other (fst hb) (g1\<lparr>gth_vocab_event := Some v\<rparr>)
         | _ \<Rightarrow> gather_other (fst hb) g1)"

fun gather_blocks ::
  "bool \<Rightarrow> u64 \<Rightarrow> u64 \<Rightarrow> hashed_block list \<Rightarrow> gather_state \<Rightarrow> ('e, gather_state) res" where
  "gather_blocks keep max_size max_records [] g = Inr g"
| "gather_blocks keep max_size max_records (hb # hbs) g =
     and_then (gather_step keep max_size max_records hb g) (gather_blocks keep max_size max_records hbs)"

definition vocab_offset_column :: "set_vocab option \<Rightarrow> string" where
  "vocab_offset_column v =
     (case Option.bind v sv_offset_column of Some column \<Rightarrow> column | None \<Rightarrow> ''offset'')"

definition gather_chain_info ::
  "externs \<Rightarrow> codec \<Rightarrow> dataset \<Rightarrow> u64 \<Rightarrow> u64 \<Rightarrow> bool \<Rightarrow> (compaction_error, chain_files_info) res option" where
  "gather_chain_info x cd d max_size max_records keep_metadata_only =
     (case chain_resolve_ref x (dset_chain d) Head of
        Inl f \<Rightarrow> Some (Inl (map_fault compaction_error_of_get_ref f))
      | Inr head \<Rightarrow>
          map_option
            (\<lambda>(blocks, err).
               and_then (gather_blocks keep_metadata_only max_size max_records blocks initial_gather_state) (\<lambda>g.
               and_then (case err of None \<Rightarrow> Inr () | Some f \<Rightarrow> Inl (map_fault compaction_error_of_iter f)) (\<lambda>_.
               and_then (unwrap (gth_old_head g)) (\<lambda>old_head.
                 Inr \<lparr>cfi_old_head = old_head, cfi_old_num_blocks = gth_old_num_blocks g,
                      cfi_offset_column = vocab_offset_column (gth_vocab_event g),
                      cfi_data_slice_batches = gth_batches g\<rparr>))))
            (iter_blocks_interval cd (dset_chain d) head None False))"

section \<open>Merging and committing\<close>

definition read_slices :: "object_repo \<Rightarrow> multihash list \<Rightarrow> bytes list option" where
  "read_slices r hashes = those (map r hashes)"

fun merge_files ::
  "(string \<Rightarrow> bytes list \<Rightarrow> string + bytes) \<Rightarrow> object_repo \<Rightarrow> string \<Rightarrow> data_slice_batch list \<Rightarrow>
   (compaction_error, data_slice_batch list) res" where
  "merge_files merge r offset_column [] = Inr []"
| "merge_files merge r offset_column (SingleBlock h # batches) =
     and_then (merge_files merge r offset_column batches) (\<lambda>rest. Inr (SingleBlock h # rest))"
| "merge_files merge r offset_column (CompactedBatch info # batches) =
     (case read_slices r (bi_data_slices_batch info) of
        None \<Rightarrow> Inl (Fail (CompactionInternal ''read parquet''))
      | Some files \<Rightarrow>
          and_then (map_err (\<lambda>m. Fail (CompactionInternal m)) (merge offset_column files)) (\<lambda>merged.
          and_then (merge_files merge r offset_column batches) (\<lambda>rest.
            Inr (CompactedBatch (info\<lparr>bi_new_file := Some merged\<rparr>) # rest))))"

definition compaction_commit_opts :: "datetime \<Rightarrow> multihash \<Rightarrow> commit_opts" where
  "compaction_commit_opts now current_head =
     \<lparr>co_block_ref = Head, co_system_time = Some now, co_prev_block_hash = Some (Some current_head),
      co_check_object_refs = False, co_update_block_ref = False\<rparr>"

definition batch_params :: "batch_info \<Rightarrow> add_data_params" where
  "batch_params info =
     \<lparr>adp_prev_checkpoint = blb_prev_checkpoint (bi_lower_bound info),
      adp_prev_offset = blb_prev_offset (bi_lower_bound info),
      adp_new_offset_interval =
        Some \<lparr>oi_start = blb_start_offset (bi_lower_bound info), oi_end = bub_end_offset (bi_upper_bound info)\<rparr>,
      adp_new_watermark = bub_new_watermark (bi_upper_bound info),
      adp_new_source_state = bub_new_source_state (bi_upper_bound info)\<rparr>"

definition batch_checkpoint :: "batch_info \<Rightarrow> checkpoint_ref option" where
  "batch_checkpoint info =
     map_option (\<lambda>cp. CheckpointExisted (cp_physical_hash cp)) (bub_new_checkpoint (bi_upper_bound info))"

text \<open>\<open>int_err\<close> of a commit, with the new head.\<close>

definition commit_outcome ::
  "((commit_error, commit_result) res \<times> dataset) option \<Rightarrow> ((compaction_error, multihash) res \<times> dataset) option" where
  "commit_outcome c =
     map_option (\<lambda>(r, d). (and_then (map_err (map_fault (\<lambda>_. CompactionInternal ''commit'')) r)
       (\<lambda>res. Inr (cr_new_head res)), d)) c"

fun commit_batch ::
  "externs \<Rightarrow> codec \<Rightarrow> dataset_externs \<Rightarrow> datetime \<Rightarrow> multihash \<Rightarrow> data_slice_batch \<Rightarrow> dataset \<Rightarrow>
   ((compaction_error, multihash) res \<times> dataset) option" where
  "commit_batch x cd dx now current_head (SingleBlock block_hash) d =
     (case chain_get_block cd (dset_chain d) block_hash of
        Inl _ \<Rightarrow> Some (Inl (Fail (CompactionInternal ''block'')), d)
      | Inr block \<Rightarrow>
          commit_outcome (commit_event x cd now d (event block) (compaction_commit_opts now current_head)))"
| "commit_batch x cd dx now current_head (CompactedBatch info) d =
     (case unwrap (bi_new_file info) of
        Inl f \<Rightarrow> Some (Inl f, d)
      | Inr file \<Rightarrow>
          commit_outcome
            (commit_add_data x cd dx now d (batch_params info) (Some file) (batch_checkpoint info)
               (compaction_commit_opts now current_head)))"

text \<open>The loop over the batches, oldest first; the clock is read at every commit.\<close>

fun commit_batches ::
  "externs \<Rightarrow> codec \<Rightarrow> dataset_externs \<Rightarrow> (nat \<Rightarrow> datetime) \<Rightarrow> nat \<Rightarrow> multihash \<Rightarrow> data_slice_batch list \<Rightarrow> dataset \<Rightarrow>
   ((compaction_error, multihash \<times> nat) res \<times> dataset) option" where
  "commit_batches x cd dx clock n current_head [] d = Some (Inr (current_head, n), d)"
| "commit_batches x cd dx clock n current_head (batch # batches) d =
     Option.bind (commit_batch x cd dx (clock n) current_head batch d) (\<lambda>(r, d').
       case r of
         Inl f \<Rightarrow> Some (Inl f, d')
       | Inr new_head \<Rightarrow> commit_batches x cd dx clock (n + 1) new_head batches d')"

definition commit_new_blocks ::
  "externs \<Rightarrow> codec \<Rightarrow> dataset_externs \<Rightarrow> (nat \<Rightarrow> datetime) \<Rightarrow> chain_files_info \<Rightarrow> dataset \<Rightarrow>
   ((compaction_error, multihash \<times> nat) res \<times> dataset) option" where
  "commit_new_blocks x cd dx clock info d =
     commit_batches x cd dx clock 1 (cfi_old_head info) (rev (cfi_data_slice_batches info)) d"

section \<open>Compacting\<close>

definition finish_compaction ::
  "externs \<Rightarrow> chain_files_info \<Rightarrow> multihash \<Rightarrow> nat \<Rightarrow> dataset \<Rightarrow> (compaction_error, compaction_result) res \<times> dataset" where
  "finish_compaction x info new_head new_num_blocks d =
     (let (r, c) = chain_set_ref x (dset_chain d) Head new_head
                     \<lparr>so_validate_block_present = True, so_check_ref_is = None\<rparr>
      in (and_then (map_err (map_fault compaction_error_of_set_ref) r) (\<lambda>_.
            Inr (CompactionSuccess (cfi_old_head info) new_head (cfi_old_num_blocks info) new_num_blocks)),
          d\<lparr>dset_chain := c\<rparr>))"

definition compact_dataset_impl ::
  "externs \<Rightarrow> codec \<Rightarrow> dataset_externs \<Rightarrow> (string \<Rightarrow> bytes list \<Rightarrow> string + bytes) \<Rightarrow> (nat \<Rightarrow> datetime) \<Rightarrow>
   u64 \<Rightarrow> u64 \<Rightarrow> bool \<Rightarrow> dataset \<Rightarrow> ((compaction_error, compaction_result) res \<times> dataset) option" where
  "compact_dataset_impl x cd dx merge clock max_size max_records keep_metadata_only d =
     Option.bind (gather_chain_info x cd d max_size max_records keep_metadata_only) (\<lambda>gathered.
       case gathered of
         Inl f \<Rightarrow> Some (Inl f, d)
       | Inr info \<Rightarrow>
           if length (cfi_data_slice_batches info) + 1 = cfi_old_num_blocks info
           then Some (Inr CompactionNothingToDo, d)
           else (case merge_files merge (dset_data_repo d) (cfi_offset_column info) (cfi_data_slice_batches info) of
                   Inl f \<Rightarrow> Some (Inl f, d)
                 | Inr batches \<Rightarrow>
                     Option.bind
                       (commit_new_blocks x cd dx clock (info\<lparr>cfi_data_slice_batches := batches\<rparr>) d) (\<lambda>(r, d').
                       case r of
                         Inl f \<Rightarrow> Some (Inl f, d')
                       | Inr (new_head, new_num_blocks) \<Rightarrow>
                           Some (finish_compaction x info new_head new_num_blocks d'))))"

definition compact_dataset ::
  "externs \<Rightarrow> codec \<Rightarrow> dataset_externs \<Rightarrow> (string \<Rightarrow> bytes list \<Rightarrow> string + bytes) \<Rightarrow> (nat \<Rightarrow> datetime) \<Rightarrow>
   (unauthorized_error, unit) res \<Rightarrow> dataset_handle \<Rightarrow> compaction_options \<Rightarrow> dataset \<Rightarrow>
   ((compaction_error, compaction_result) res \<times> dataset) option" where
  "compact_dataset x cd dx merge clock authorized handle opts d =
     (case authorized of
        Inl f \<Rightarrow> Some (Inl (map_fault compaction_error_of_unauthorized f), d)
      | Inr _ \<Rightarrow>
          Option.bind (get_summary x cd dx d default_get_summary_opts) (\<lambda>(summary, d1).
            case map_err (map_fault (\<lambda>_. CompactionInternal ''summary'')) summary of
              Inl f \<Rightarrow> Some (Inl f, d1)
            | Inr s \<Rightarrow>
                if \<not> cpo_keep_metadata_only opts \<and> sm_kind s \<noteq> Root
                then Some (Inl (Fail (InvalidDatasetKind (alias_dataset_name (handle_alias handle)))), d1)
                else compact_dataset_impl x cd dx merge clock
                       (case cpo_max_slice_size opts of Some n \<Rightarrow> n | None \<Rightarrow> DEFAULT_MAX_SLICE_SIZE)
                       (case cpo_max_slice_records opts of Some n \<Rightarrow> n | None \<Rightarrow> DEFAULT_MAX_SLICE_RECORDS)
                       (cpo_keep_metadata_only opts) d1))"

text \<open>
  Several datasets, one after the other: \<open>matched\<close> is the outcome of resolving the references against
  the repository (\<open>filter_datasets_by_local_pattern\<close>), which is a parameter, as are the answers
  of the authorizer and the readings of the clock for each dataset.
\<close>

record compaction_response =
  cresp_dataset_ref :: dataset_ref
  cresp_result :: "(compaction_error, compaction_result) res"

fun compact_all ::
  "externs \<Rightarrow> codec \<Rightarrow> dataset_externs \<Rightarrow> (string \<Rightarrow> bytes list \<Rightarrow> string + bytes) \<Rightarrow> (dataset_id \<Rightarrow> nat \<Rightarrow> datetime) \<Rightarrow>
   (dataset_handle \<Rightarrow> (unauthorized_error, unit) res) \<Rightarrow> compaction_options \<Rightarrow> dataset_handle list \<Rightarrow>
   (dataset_id \<Rightarrow> dataset) \<Rightarrow> (compaction_response list \<times> (dataset_id \<Rightarrow> dataset)) option" where
  "compact_all x cd dx merge clock authorized opts [] repo = Some ([], repo)"
| "compact_all x cd dx merge clock authorized opts (handle # handles) repo =
     Option.bind
       (compact_dataset x cd dx merge (clock (handle_id handle)) (authorized handle) handle opts (repo (handle_id handle)))
       (\<lambda>(r, d).
          map_option
            (\<lambda>(responses, repo'). (\<lparr>cresp_dataset_ref = RefHandle handle, cresp_result = r\<rparr> # responses, repo'))
            (compact_all x cd dx merge clock authorized opts handles (repo(handle_id handle := d))))"

definition compact_multi ::
  "externs \<Rightarrow> codec \<Rightarrow> dataset_externs \<Rightarrow> (string \<Rightarrow> bytes list \<Rightarrow> string + bytes) \<Rightarrow> (dataset_id \<Rightarrow> nat \<Rightarrow> datetime) \<Rightarrow>
   (dataset_handle \<Rightarrow> (unauthorized_error, unit) res) \<Rightarrow> string + dataset_handle list \<Rightarrow> compaction_options \<Rightarrow>
   (dataset_id \<Rightarrow> dataset) \<Rightarrow> (compaction_response list \<times> (dataset_id \<Rightarrow> dataset)) option" where
  "compact_multi x cd dx merge clock authorized matched opts repo =
     (case matched of
        Inl _ \<Rightarrow> Some ([], repo)
      | Inr handles \<Rightarrow> compact_all x cd dx merge clock authorized opts handles repo)"

end
