(* ===== verification/Compaction_Properties.thy ===== *)
theory Compaction_Properties
  imports Compaction
begin

text \<open>
  What compaction does to a dataset. Walking the chain gives a plan, a list of batches, whose slices
  are those of the chain with neighbours merged (\<open>coarsens\<close>) and which keeps every event that is not
  data; committing the plan on top of the seed builds a valid chain with exactly the slices and
  events of the plan; the head moves to it last.
\<close>

section \<open>Merging neighbours\<close>

text \<open>The interval from the oldest to the newest of a list of slices, newest first.\<close>

definition span_of :: "offset_interval list \<Rightarrow> offset_interval" where
  "span_of ivs = \<lparr>oi_start = oi_start (last ivs), oi_end = oi_end (hd ivs)\<rparr>"

definition coarsens :: "offset_interval list \<Rightarrow> offset_interval list \<Rightarrow> bool" where
  "coarsens xs ys \<longleftrightarrow> (\<exists>gs. concat gs = ys \<and> [] \<notin> set gs \<and> xs = map span_of gs)"

lemma coarsens_Nil [simp]: "coarsens [] ys \<longleftrightarrow> ys = []"
  by (auto simp: coarsens_def)

lemma span_of_single [simp]: "span_of [i] = i"
  by (simp add: span_of_def)

lemma coarsens_snoc: "coarsens xs ys \<Longrightarrow> coarsens (xs @ [i]) (ys @ [i])"
proof -
  assume "coarsens xs ys"
  then obtain gs where "concat gs = ys" "[] \<notin> set gs" "xs = map span_of gs" by (auto simp: coarsens_def)
  then have "concat (gs @ [[i]]) = ys @ [i] \<and> [] \<notin> set (gs @ [[i]]) \<and> xs @ [i] = map span_of (gs @ [[i]])" by simp
  then show ?thesis unfolding coarsens_def by blast
qed

lemma coarsens_merge:
  assumes "coarsens (xs @ [p]) ys"
  shows "coarsens (xs @ [\<lparr>oi_start = oi_start i, oi_end = oi_end p\<rparr>]) (ys @ [i])"
proof -
  from assms obtain gs where gs: "concat gs = ys" "[] \<notin> set gs" "xs @ [p] = map span_of gs" by (auto simp: coarsens_def)
  then obtain gs' g where "gs = gs' @ [g]" "xs = map span_of gs'" "p = span_of g"
    by (cases gs rule: rev_cases) auto
  moreover from this gs(2) have "g \<noteq> []" by auto
  ultimately have "concat (gs' @ [g @ [i]]) = ys @ [i] \<and> [] \<notin> set (gs' @ [g @ [i]])
      \<and> xs @ [\<lparr>oi_start = oi_start i, oi_end = oi_end p\<rparr>] = map span_of (gs' @ [g @ [i]])"
    using gs(1,2) by (auto simp: span_of_def)
  then show ?thesis unfolding coarsens_def by blast
qed

section \<open>What a plan stands for\<close>

text \<open>Events that compaction keeps as they are; the seed is kept apart.\<close>

definition kept_event :: "metadata_event \<Rightarrow> bool" where
  "kept_event e \<longleftrightarrow> \<not> is_AddData e \<and> \<not> is_ExecuteTransform e \<and> \<not> is_Seed e"

definition kept_events :: "metadata_block list \<Rightarrow> metadata_event list" where
  "kept_events bs = filter kept_event (map event bs)"

text \<open>The slice and the kept event that committing a batch adds to the chain.\<close>

fun batch_slice :: "(multihash \<Rightarrow> get_block_error + metadata_block) \<Rightarrow> data_slice_batch \<Rightarrow> offset_interval option" where
  "batch_slice get (SingleBlock h) = (case get h of Inl _ \<Rightarrow> None | Inr b \<Rightarrow> block_slice b)"
| "batch_slice get (CompactedBatch info) =
     Some \<lparr>oi_start = blb_start_offset (bi_lower_bound info), oi_end = bub_end_offset (bi_upper_bound info)\<rparr>"

fun batch_kept :: "(multihash \<Rightarrow> get_block_error + metadata_block) \<Rightarrow> data_slice_batch \<Rightarrow> metadata_event option" where
  "batch_kept get (SingleBlock h) =
     (case get h of Inl _ \<Rightarrow> None | Inr b \<Rightarrow> if kept_event (event b) then Some (event b) else None)"
| "batch_kept get (CompactedBatch info) = None"

fun batch_known :: "(multihash \<Rightarrow> get_block_error + metadata_block) \<Rightarrow> data_slice_batch \<Rightarrow> bool" where
  "batch_known get (SingleBlock h) \<longleftrightarrow> (\<exists>b. get h = Inr b)"
| "batch_known get (CompactedBatch info) \<longleftrightarrow> True"

lemma batch_known_mono:
  assumes "batch_known get batch" and "\<And>k b. get k = Inr b \<Longrightarrow> get' k = Inr b"
  shows "batch_slice get' batch = batch_slice get batch" "batch_kept get' batch = batch_kept get batch"
  using assms by (cases batch; auto)+

definition pending_slice :: "batch_info \<Rightarrow> offset_interval" where
  "pending_slice info =
     \<lparr>oi_start = blb_start_offset (bi_lower_bound info), oi_end = bub_end_offset (bi_upper_bound info)\<rparr>"

definition pending_slices :: "batch_info \<Rightarrow> offset_interval list" where
  "pending_slices info = (if bi_data_slices_batch info = [] then [] else [pending_slice info])"

text \<open>The plan and the open batch cover the slices \<open>ivs\<close>, and the plan keeps the events \<open>es\<close>.\<close>

definition gather_inv ::
  "(multihash \<Rightarrow> get_block_error + metadata_block) \<Rightarrow> offset_interval list \<Rightarrow> metadata_event list \<Rightarrow> gather_state \<Rightarrow> bool" where
  "gather_inv get ivs es g \<longleftrightarrow>
     coarsens (List.map_filter (batch_slice get) (gth_batches g) @ pending_slices (gth_info g)) ivs
     \<and> List.map_filter (batch_kept get) (gth_batches g) = es \<and> list_all (batch_known get) (gth_batches g)
     \<and> (length (bi_data_slices_batch (gth_info g)) = 1 \<longrightarrow>
          (\<exists>h. gth_current_hash g = Some h \<and> batch_kept get (SingleBlock h) = None
             \<and> batch_slice get (SingleBlock h) = Some (pending_slice (gth_info g))))"

lemma map_filter_append [simp]: "List.map_filter f (xs @ ys) = List.map_filter f xs @ List.map_filter f ys"
  by (induction xs) (simp_all add: map_filter_simps split: option.split)

lemma map_filter_single [simp]: "List.map_filter f [x] = (case f x of None \<Rightarrow> [] | Some y \<Rightarrow> [y])"
  by (simp add: map_filter_simps split: option.split)

lemma slices_append [simp]: "slices (as @ bs) = slices as @ slices bs"
  by (simp add: slices_def)

lemma kept_events_append [simp]: "kept_events (as @ bs) = kept_events as @ kept_events bs"
  by (simp add: kept_events_def)

lemma gather_inv_initial: "gather_inv get [] [] initial_gather_state"
  by (simp add: gather_inv_def initial_gather_state_def default_batch_info_def pending_slices_def kept_events_def
      map_filter_simps)

text \<open>Closing the open batch moves its slice into the plan.\<close>

lemma close_batch:
  assumes "coarsens (List.map_filter (batch_slice get) batches @ pending_slices info) ys"
    and "length (bi_data_slices_batch info) = 1 \<longrightarrow>
      (\<exists>h. hash = Some h \<and> batch_kept get (SingleBlock h) = None \<and> batch_slice get (SingleBlock h) = Some (pending_slice info))"
    and "list_all (batch_known get) batches"
  shows "\<exists>batches'. append_add_data_batch_to_chain_info hash info batches =
      Inr (bi_data_slices_batch info \<noteq> [], batches')
    \<and> coarsens (List.map_filter (batch_slice get) batches') ys
    \<and> List.map_filter (batch_kept get) batches' = List.map_filter (batch_kept get) batches
    \<and> list_all (batch_known get) batches'"
proof -
  consider "bi_data_slices_batch info = []" | "length (bi_data_slices_batch info) = 1"
    | "1 < length (bi_data_slices_batch info)"
    by (cases "bi_data_slices_batch info" rule: remdups_adj.cases) auto
  then show ?thesis
  proof cases
    case 1
    with assms(1,3) show ?thesis by (simp add: append_add_data_batch_to_chain_info_def pending_slices_def)
  next
    case 2
    then have ne: "bi_data_slices_batch info \<noteq> []" by auto
    from 2 assms(2) obtain h where "hash = Some h" "batch_kept get (SingleBlock h) = None"
      "batch_slice get (SingleBlock h) = Some (pending_slice info)" by auto
    moreover from this have "batch_known get (SingleBlock h)" by (simp split: sum.splits)
    ultimately show ?thesis using 2 ne assms(1,3)
      by (simp add: append_add_data_batch_to_chain_info_def pending_slices_def unwrap_def
          del: batch_slice.simps batch_kept.simps batch_known.simps)
  next
    case 3
    then have "bi_data_slices_batch info \<noteq> []" by auto
    with 3 assms(1,3) show ?thesis
      by (simp add: append_add_data_batch_to_chain_info_def pending_slices_def pending_slice_def)
  qed
qed


section \<open>One block\<close>

lemma bound_simps [simp]:
  "bi_data_slices_batch (with_end_offset n info) = bi_data_slices_batch info"
  "pending_slice (info\<lparr>bi_data_slices_batch := hs\<rparr>) = pending_slice info"
  "gth_batches (set_lower_bound h e sl g) = gth_batches g" "gth_batches (set_upper_bound e g) = gth_batches g"
  "gth_current_hash (set_lower_bound h e sl g) = Some h" "gth_current_hash (set_upper_bound e g) = gth_current_hash g"
  "bi_data_slices_batch (gth_info (set_lower_bound h e sl g)) = bi_data_slices_batch (gth_info g)"
  "bi_data_slices_batch (gth_info (set_upper_bound e g)) = bi_data_slices_batch (gth_info g)"
  "pending_slice (gth_info (set_lower_bound h e sl g)) =
     \<lparr>oi_start = oi_start (ds_offset_interval sl), oi_end = oi_end (pending_slice (gth_info g))\<rparr>"
  "pending_slice (gth_info (set_upper_bound e g)) = pending_slice (gth_info g)"
  "oi_end (pending_slice (with_end_offset n info)) = n"
  by (simp_all add: with_end_offset_def set_lower_bound_def set_upper_bound_def pending_slice_def)

lemma gather_inv_cong:
  assumes "gather_inv get ivs es g" and "gth_batches g' = gth_batches g" and "gth_current_hash g' = gth_current_hash g"
    and "bi_data_slices_batch (gth_info g') = bi_data_slices_batch (gth_info g)"
    and "pending_slice (gth_info g') = pending_slice (gth_info g)"
  shows "gather_inv get ivs es g'"
  using assms(1) unfolding gather_inv_def pending_slices_def assms(2-) .

lemma take_slice_inv:
  assumes inv: "gather_inv get ivs es g" and get: "get h = Inr b" and ev: "event b = AddData e" "ad_new_data e = Some sl"
  shows "\<exists>g'. (take_slice max_size max_records sl g :: ('e, gather_state) res) = Inr g' \<and> gather_inv get (ivs @ [ds_offset_interval sl]) es (set_lower_bound h e sl g')
    \<and> gth_old_num_blocks g' = gth_old_num_blocks g \<and> gth_old_head g' = gth_old_head g
    \<and> bi_data_slices_batch (gth_info g') \<noteq> []"
proof -
  let ?i = "ds_offset_interval sl"
  have b: "block_slice b = Some ?i" "\<not> kept_event (event b)" using ev by (simp_all add: block_slice_def kept_event_def)
  have iv: "\<lparr>oi_start = oi_start ?i, oi_end = oi_end ?i\<rparr> = ?i" by simp
  define info where "info = (if bi_data_slices_batch (gth_info g) = [] then with_end_offset (oi_end ?i) (gth_info g)
                  else gth_info g)"
  have info: "bi_data_slices_batch info = bi_data_slices_batch (gth_info g)" by (simp add: info_def)
  have pend: "pending_slices info = pending_slices (gth_info g)" by (simp add: info_def pending_slices_def)
  have fresh: "oi_end (pending_slice info) = oi_end ?i" if "bi_data_slices_batch (gth_info g) = []"
    using that by (simp add: info_def)
  have cover: "coarsens (List.map_filter (batch_slice get) (gth_batches g) @ pending_slices info) ivs"
    and kept: "List.map_filter (batch_kept get) (gth_batches g) = es"
    and one: "length (bi_data_slices_batch info) = 1 \<longrightarrow>
      (\<exists>k. gth_current_hash g = Some k \<and> batch_kept get (SingleBlock k) = None
         \<and> batch_slice get (SingleBlock k) = Some (pending_slice info))"
    and known: "list_all (batch_known get) (gth_batches g)"
    using inv pend by (auto simp: gather_inv_def info_def)
  have single: "batch_kept get (SingleBlock h) = None" "batch_slice get (SingleBlock h) = Some ?i"
    using get b by simp_all
  show ?thesis
  proof (cases "gth_batch_size g + ds_size sl > max_size \<or> gth_batch_records g + data_slice_num_records sl > max_records")
    case True
    from close_batch [OF cover one known] obtain batches where close:
      "(append_add_data_batch_to_chain_info (gth_current_hash g) info (gth_batches g) :: ('e, _) res) =
         Inr (bi_data_slices_batch info \<noteq> [], batches)"
      "coarsens (List.map_filter (batch_slice get) batches) ivs"
      "List.map_filter (batch_kept get) batches = es" "list_all (batch_known get) batches" using kept by auto
    let ?info' = "(if bi_data_slices_batch info \<noteq> [] then with_end_offset (oi_end ?i) default_batch_info else info)"
    let ?g = "g\<lparr>gth_batches := batches, gth_info := ?info'\<lparr>bi_data_slices_batch := [ds_physical_hash sl]\<rparr>,
        gth_batch_size := ds_size sl, gth_batch_records := data_slice_num_records sl\<rparr>"
    have taken: "(take_slice max_size max_records sl g :: ('e, gather_state) res) = Inr ?g"
      using True close(1) unfolding take_slice_def Let_def info_def by (simp cong: if_cong)
    have "oi_end (pending_slice ?info') = oi_end ?i" using fresh info by simp
    then have "gather_inv get (ivs @ [ds_offset_interval sl]) es (set_lower_bound h e sl ?g)"
      using coarsens_snoc [OF close(2), of ?i] close(3,4) b single ev
      by (simp add: gather_inv_def pending_slices_def iv del: batch_slice.simps batch_kept.simps)
    with taken show ?thesis by simp
  next
    case False
    let ?g = "g\<lparr>gth_info := info\<lparr>bi_data_slices_batch := bi_data_slices_batch info @ [ds_physical_hash sl]\<rparr>,
        gth_batch_size := gth_batch_size g + ds_size sl,
        gth_batch_records := gth_batch_records g + data_slice_num_records sl\<rparr>"
    have taken: "(take_slice max_size max_records sl g :: ('e, gather_state) res) = Inr ?g"
      using False unfolding take_slice_def Let_def info_def by simp
    have "gather_inv get (ivs @ [ds_offset_interval sl]) es (set_lower_bound h e sl ?g)"
    proof (cases "bi_data_slices_batch info = []")
      case True
      with fresh info have "oi_end (pending_slice info) = oi_end ?i" by simp
      with True cover coarsens_snoc [of _ ivs ?i] kept known b single ev show ?thesis
        by (simp add: gather_inv_def pending_slices_def iv del: batch_slice.simps batch_kept.simps)
    next
      case False
      with cover have "coarsens (List.map_filter (batch_slice get) (gth_batches g) @ [pending_slice info]) ivs"
        by (simp add: pending_slices_def)
      from coarsens_merge [OF this, of ?i] False kept known b ev show ?thesis
        by (simp add: gather_inv_def pending_slices_def)
    qed
    with taken show ?thesis by simp
  qed
qed

lemma gather_other_inv:
  assumes inv: "gather_inv get ivs es g" and get: "get h = Inr b" and ev: "kept_event (event b)"
  shows "\<exists>g'. (gather_other h g :: ('e, gather_state) res) = Inr g' \<and> gather_inv get ivs (es @ [event b]) g'
    \<and> gth_old_num_blocks g' = gth_old_num_blocks g \<and> gth_old_head g' = gth_old_head g
    \<and> bi_data_slices_batch (gth_info g') = []"
proof -
  have b: "block_slice b = None" using ev by (cases "event b") (simp_all add: block_slice_def kept_event_def)
  from close_batch [of get "gth_batches g" "gth_info g" ivs "gth_current_hash g"] inv obtain batches where close:
    "(append_add_data_batch_to_chain_info (gth_current_hash g) (gth_info g) (gth_batches g) :: ('e, _) res) =
       Inr (bi_data_slices_batch (gth_info g) \<noteq> [], batches)"
    "coarsens (List.map_filter (batch_slice get) batches) ivs"
    "List.map_filter (batch_kept get) batches = es" "list_all (batch_known get) batches" by (auto simp: gather_inv_def)
  let ?g = "g\<lparr>gth_batches := batches @ [SingleBlock h],
      gth_info := (if bi_data_slices_batch (gth_info g) \<noteq> [] then default_batch_info else gth_info g)\<rparr>"
  have "(gather_other h g :: ('e, gather_state) res) = Inr ?g" using close(1) by (simp add: gather_other_def)
  moreover have "bi_data_slices_batch (gth_info ?g) = []" by (simp add: default_batch_info_def)
  moreover from this have "gather_inv get ivs (es @ [event b]) ?g"
    using close(2-4) get ev b by (simp add: gather_inv_def pending_slices_def)
  ultimately show ?thesis by auto
qed

text \<open>The slices that compaction carries over: none when it keeps only the metadata.\<close>

definition carried :: "bool \<Rightarrow> metadata_block list \<Rightarrow> offset_interval list" where
  "carried keep bs = (if keep then [] else slices bs)"

lemma carried_Cons: "carried keep (b # bs) = carried keep [b] @ carried keep bs"
  by (simp add: carried_def split: option.split)

definition open_batch :: "gather_state \<Rightarrow> bool" where
  "open_batch g \<longleftrightarrow> bi_data_slices_batch (gth_info g) \<noteq> []"

definition gathers :: "bool \<Rightarrow> hashed_block \<Rightarrow> gather_state \<Rightarrow> gather_state \<Rightarrow> bool" where
  "gathers keep hb g g' \<longleftrightarrow>
     gth_old_num_blocks g' = gth_old_num_blocks g + 1
     \<and> gth_old_head g' = (if is_Seed (event (snd hb)) then Some (fst hb) else gth_old_head g)
     \<and> (open_batch g' \<longrightarrow> \<not> kept_event (event (snd hb))
          \<and> (open_batch g \<or> (\<exists>e. event (snd hb) = AddData e \<and> ad_new_data e \<noteq> None)))"

lemma gather_add_data_inv:
  assumes inv: "gather_inv get ivs es g" and get: "get h = Inr b" and ev: "event b = AddData e"
  shows "\<exists>g'. (gather_add_data keep max_size max_records h e g :: ('e, gather_state) res) = Inr g'
    \<and> gather_inv get (ivs @ carried keep [b]) es g'
    \<and> gth_old_num_blocks g' = gth_old_num_blocks g \<and> gth_old_head g' = gth_old_head g
    \<and> (open_batch g' \<longrightarrow> open_batch g \<or> ad_new_data e \<noteq> None)"
proof (cases "keep \<or> ad_new_data e = None")
  case True
  have "gather_inv get ivs es (set_upper_bound e g)" using inv by (rule gather_inv_cong) simp_all
  moreover have "carried keep [b] = []" using True ev by (auto simp: carried_def block_slice_def)
  moreover have "gather_add_data keep max_size max_records h e g = Inr (set_upper_bound e g)"
    using True by (auto simp: gather_add_data_def split: option.split)
  ultimately show ?thesis by (auto simp: set_upper_bound_def open_batch_def)
next
  case False
  then obtain sl where sl: "\<not> keep" "ad_new_data e = Some sl" by auto
  from take_slice_inv [OF inv get ev sl(2)] obtain g' where g':
    "(take_slice max_size max_records sl g :: ('e, gather_state) res) = Inr g'"
    "gather_inv get (ivs @ [ds_offset_interval sl]) es (set_lower_bound h e sl g')"
    "gth_old_num_blocks g' = gth_old_num_blocks g" "gth_old_head g' = gth_old_head g" by blast
  let ?g = "set_upper_bound e (set_lower_bound h e sl g')"
  have "gather_inv get (ivs @ [ds_offset_interval sl]) es ?g" using g'(2) by (rule gather_inv_cong) simp_all
  moreover have "carried keep [b] = [ds_offset_interval sl]" using sl ev by (simp add: carried_def block_slice_def)
  ultimately show ?thesis
    using sl g' by (simp add: gather_add_data_def set_upper_bound_def set_lower_bound_def)
qed

lemma gather_step_inv:
  assumes inv: "gather_inv get ivs es g" and get: "get (fst hb) = Inr (snd hb)"
    and transforms: "keep \<or> \<not> is_ExecuteTransform (event (snd hb))"
  shows "\<exists>g'. (gather_step keep max_size max_records hb g :: ('e, gather_state) res) = Inr g'
    \<and> gather_inv get (ivs @ carried keep [snd hb]) (es @ kept_events [snd hb]) g' \<and> gathers keep hb g g'"
proof -
  obtain h b where hb: "hb = (h, b)" by fastforce
  define g1 where "g1 = g\<lparr>gth_old_num_blocks := gth_old_num_blocks g + 1\<rparr>"
  have inv1: "gather_inv get ivs es g1" using inv by (rule gather_inv_cong) (simp_all add: g1_def)
  show ?thesis
  proof (cases "kept_event (event b)")
    case True
    define g2 where "g2 = (case event b of SetVocab v \<Rightarrow> g1\<lparr>gth_vocab_event := Some v\<rparr> | _ \<Rightarrow> g1)"
    have g2: "gather_inv get ivs es g2" "gth_old_num_blocks g2 = gth_old_num_blocks g + 1" "gth_old_head g2 = gth_old_head g"
      by (rule gather_inv_cong [OF inv1]; simp add: g2_def split: metadata_event.split)
        (simp_all add: g2_def g1_def split: metadata_event.split)
    have step: "(gather_step keep max_size max_records hb g :: ('e, gather_state) res) = gather_other h g2"
      using True by (cases "event b") (simp_all add: gather_step_def hb g1_def g2_def kept_event_def)
    have none: "carried keep [b] = []" "kept_events [b] = [event b]" "\<not> is_Seed (event b)"
      using True by (cases "event b"; simp add: carried_def block_slice_def kept_events_def kept_event_def)+
    from gather_other_inv [OF g2(1) _ True, of h] get obtain g' where
      "(gather_other h g2 :: ('e, gather_state) res) = Inr g'" "gather_inv get ivs (es @ [event b]) g'"
      "gth_old_num_blocks g' = gth_old_num_blocks g2" "gth_old_head g' = gth_old_head g2" "\<not> open_batch g'"
      by (auto simp: hb open_batch_def)
    with step none g2 show ?thesis by (simp add: hb gathers_def)
  next
    case False
    then have kept: "kept_events [b] = []" by (simp add: kept_events_def)
    consider (data) e where "event b = AddData e" | (seed) s where "event b = Seed s"
      | (transform) t where "event b = ExecuteTransform t"
      using False by (cases "event b") (auto simp: kept_event_def)
    then show ?thesis
    proof cases
      case data
      from gather_add_data_inv [OF inv1 _ data, of h keep max_size max_records] get obtain g' where
        "(gather_add_data keep max_size max_records h e g1 :: ('e, gather_state) res) = Inr g'"
        "gather_inv get (ivs @ carried keep [b]) es g'" "gth_old_num_blocks g' = gth_old_num_blocks g1"
        "gth_old_head g' = gth_old_head g1" "open_batch g' \<longrightarrow> open_batch g1 \<or> ad_new_data e \<noteq> None"
        by (auto simp: hb)
      with data kept False show ?thesis
        by (auto simp: gather_step_def hb gathers_def g1_def open_batch_def)
    next
      case seed
      have "gather_inv get ivs es (g1\<lparr>gth_old_head := Some h\<rparr>)" using inv1 by (rule gather_inv_cong) simp_all
      with seed kept False show ?thesis
        by (auto simp: gather_step_def hb gathers_def g1_def open_batch_def carried_def block_slice_def)
    next
      case transform
      with inv1 kept transforms False show ?thesis
        by (auto simp: gather_step_def hb gathers_def g1_def open_batch_def carried_def)
    qed
  qed
qed

section \<open>The whole chain\<close>

text \<open>The plan of a valid chain: it covers the slices, keeps the events and leaves no batch open.\<close>

lemma gather_blocks_inv:
  "gather_inv get ivs es g \<Longrightarrow> \<forall>(h, b) \<in> set hbs. get h = Inr b \<and> (keep \<or> \<not> is_ExecuteTransform (event b)) \<Longrightarrow>
   valid_chain (map snd hbs) \<Longrightarrow> (open_batch g \<longrightarrow> last_event as_SetDataSchema (map snd hbs) \<noteq> None) \<Longrightarrow>
   \<exists>g'. (gather_blocks keep max_size max_records hbs g :: ('e, gather_state) res) = Inr g'
     \<and> gather_inv get (ivs @ carried keep (map snd hbs)) (es @ kept_events (map snd hbs)) g'
     \<and> gth_old_num_blocks g' = gth_old_num_blocks g + length hbs
     \<and> (hbs \<noteq> [] \<longrightarrow> gth_old_head g' = Some (fst (last hbs))) \<and> \<not> open_batch g'"
proof (induction hbs arbitrary: g ivs es)
  case Nil
  then show ?case by (simp add: carried_def kept_events_def)
next
  case (Cons hb hbs)
  obtain h b where hb: "hb = (h, b)" by fastforce
  from gather_step_inv [OF Cons.prems(1), of hb keep max_size max_records] Cons.prems(2) obtain g' where g':
    "(gather_step keep max_size max_records hb g :: ('e, gather_state) res) = Inr g'"
    "gather_inv get (ivs @ carried keep [b]) (es @ kept_events [b]) g'" "gathers keep hb g g'" by (auto simp: hb)
  have valid: "valid_chain (map snd hbs)" "valid_next (map snd hbs) b" using Cons.prems(3) by (simp_all add: hb)
  have schema: "last_event as_SetDataSchema (map snd hbs) \<noteq> None" if "open_batch g'"
  proof -
    from g'(3) that consider "open_batch g" "\<not> kept_event (event b)" | e where "event b = AddData e" "ad_new_data e \<noteq> None"
      by (auto simp: gathers_def hb)
    then show ?thesis
    proof cases
      case 1
      with Cons.prems(4) show ?thesis by (cases "event b") (simp_all add: hb kept_event_def)
    next
      case 2
      with valid(2) show ?thesis by (simp add: valid_next_def valid_add_data_def)
    qed
  qed
  from Cons.IH [OF g'(2) _ valid(1)] Cons.prems(2) schema obtain g'' where g'':
    "(gather_blocks keep max_size max_records hbs g' :: ('e, gather_state) res) = Inr g''"
    "gather_inv get ((ivs @ carried keep [b]) @ carried keep (map snd hbs)) ((es @ kept_events [b]) @ kept_events (map snd hbs)) g''"
    "gth_old_num_blocks g'' = gth_old_num_blocks g' + length hbs"
    "hbs \<noteq> [] \<longrightarrow> gth_old_head g'' = Some (fst (last hbs))" "\<not> open_batch g''" by auto
  have head: "gth_old_head g'' = Some (fst (last (hb # hbs)))"
  proof (cases hbs)
    case Nil
    with valid(2) have "is_Seed (event b)" by (simp add: valid_next_def)
    moreover have "g'' = g'" using Nil g''(1) by simp
    ultimately show ?thesis using g'(3) Nil by (simp add: gathers_def hb)
  qed (use g''(4) in simp)
  have "kept_events (map snd (hb # hbs)) = kept_events [b] @ kept_events (map snd hbs)"
    by (simp add: kept_events_def hb)
  with g' g'' head show ?case
    using carried_Cons [of keep b "map snd hbs"] by (simp add: hb gathers_def)
qed


section \<open>The files of a plan\<close>

text \<open>The data files of added data, and those that a batch brings into the new chain.\<close>

definition added_file :: "metadata_block \<Rightarrow> multihash option" where
  "added_file b = (case event b of AddData e \<Rightarrow> map_option ds_physical_hash (ad_new_data e) | _ \<Rightarrow> None)"

definition carried_files :: "bool \<Rightarrow> metadata_block list \<Rightarrow> multihash list" where
  "carried_files keep bs = (if keep then [] else List.map_filter added_file bs)"

fun batch_files :: "(multihash \<Rightarrow> get_block_error + metadata_block) \<Rightarrow> data_slice_batch \<Rightarrow> multihash list" where
  "batch_files get (SingleBlock h) = (case get h of Inl _ \<Rightarrow> [] | Inr b \<Rightarrow> (case added_file b of None \<Rightarrow> [] | Some f \<Rightarrow> [f]))"
| "batch_files get (CompactedBatch info) = bi_data_slices_batch info"

fun merges_some :: "data_slice_batch \<Rightarrow> bool" where
  "merges_some (SingleBlock h) \<longleftrightarrow> True"
| "merges_some (CompactedBatch info) \<longleftrightarrow> bi_data_slices_batch info \<noteq> []"

definition plan_files :: "(multihash \<Rightarrow> get_block_error + metadata_block) \<Rightarrow> data_slice_batch list \<Rightarrow> multihash list" where
  "plan_files get batches = concat (map (batch_files get) batches)"

definition gather_files :: "(multihash \<Rightarrow> get_block_error + metadata_block) \<Rightarrow> multihash list \<Rightarrow> gather_state \<Rightarrow> bool" where
  "gather_files get fs g \<longleftrightarrow>
     plan_files get (gth_batches g) @ bi_data_slices_batch (gth_info g) = fs \<and> list_all merges_some (gth_batches g)
     \<and> (length (bi_data_slices_batch (gth_info g)) = 1 \<longrightarrow>
          (\<exists>h. gth_current_hash g = Some h \<and> batch_files get (SingleBlock h) = bi_data_slices_batch (gth_info g)))"

lemma close_files:
  assumes "append_add_data_batch_to_chain_info hash info batches = Inr (appended, batches')"
    and "length (bi_data_slices_batch info) = 1 \<longrightarrow> (\<exists>h. hash = Some h \<and> batch_files get (SingleBlock h) = bi_data_slices_batch info)"
  shows "plan_files get batches' = plan_files get batches @ bi_data_slices_batch info"
    and "list_all merges_some batches' \<longleftrightarrow> list_all merges_some batches" and "appended \<longleftrightarrow> bi_data_slices_batch info \<noteq> []"
  using assms
  by (cases "bi_data_slices_batch info" rule: remdups_adj.cases;
      auto simp: append_add_data_batch_to_chain_info_def plan_files_def res_simps unwrap_def simp del: batch_files.simps(1))+

lemma gather_other_files:
  assumes "gather_files get fs g" and "(gather_other h g :: ('e, gather_state) res) = Inr g'" and "batch_files get (SingleBlock h) = []"
  shows "gather_files get fs g'"
proof -
  obtain appended batches where close:
    "(append_add_data_batch_to_chain_info (gth_current_hash g) (gth_info g) (gth_batches g) :: ('e, _) res) = Inr (appended, batches)"
    "g' = g\<lparr>gth_batches := batches @ [SingleBlock h], gth_info := (if appended then default_batch_info else gth_info g)\<rparr>"
    using assms(2) by (auto simp: gather_other_def res_simps)
  then show ?thesis
    using close_files [OF close(1), of get] assms(1,3) by (auto simp: gather_files_def plan_files_def default_batch_info_def)
qed

lemma take_slice_files:
  assumes "gather_files get fs g" and "(take_slice max_size max_records sl g :: ('e, gather_state) res) = Inr g'"
    and "batch_files get (SingleBlock h) = [ds_physical_hash sl]"
  shows "gather_files get (fs @ [ds_physical_hash sl]) (set_lower_bound h e sl g')"
proof (cases "gth_batch_size g + ds_size sl > max_size \<or> gth_batch_records g + data_slice_num_records sl > max_records")
  case True
  define info where "info = (if bi_data_slices_batch (gth_info g) = [] then with_end_offset (oi_end (ds_offset_interval sl)) (gth_info g)
                  else gth_info g)"
  have info: "bi_data_slices_batch info = bi_data_slices_batch (gth_info g)" by (simp add: info_def)
  from True assms(2) obtain appended batches where close:
    "(append_add_data_batch_to_chain_info (gth_current_hash g) info (gth_batches g) :: ('e, _) res) = Inr (appended, batches)"
    "gth_batches g' = batches" "bi_data_slices_batch (gth_info g') = [ds_physical_hash sl]"
    by (auto simp: take_slice_def Let_def info_def [symmetric] res_simps)
  then show ?thesis
    using close_files [OF close(1), of get] assms(1,3) info by (auto simp: gather_files_def)
next
  case False
  then have "gth_batches g' = gth_batches g"
    "bi_data_slices_batch (gth_info g') = bi_data_slices_batch (gth_info g) @ [ds_physical_hash sl]"
    using assms(2) by (auto simp: take_slice_def Let_def)
  then show ?thesis using assms(1,3) by (auto simp: gather_files_def)
qed

lemma gather_step_files:
  assumes inv: "gather_files get fs g" and get: "get (fst hb) = Inr (snd hb)"
    and step: "(gather_step keep max_size max_records hb g :: ('e, gather_state) res) = Inr g'"
  shows "gather_files get (fs @ carried_files keep [snd hb]) g'"
proof -
  obtain h b where hb: "hb = (h, b)" by fastforce
  have inv1: "gather_files get fs (g\<lparr>gth_old_num_blocks := n\<rparr>)" "gather_files get fs (g\<lparr>gth_old_num_blocks := n, gth_vocab_event := v\<rparr>)"
    "gather_files get fs (g\<lparr>gth_old_num_blocks := n, gth_old_head := k\<rparr>)" for n v k
    using inv by (simp_all add: gather_files_def)
  have bound: "gather_files get fs' (set_upper_bound e g0) \<longleftrightarrow> gather_files get fs' g0" for fs' e g0
    by (simp add: gather_files_def)
  have kept: ?thesis if other: "kept_event (event b)"
  proof -
    obtain g2 where "(gather_other h g2 :: ('e, gather_state) res) = Inr g'" "gather_files get fs g2"
      using step inv1 other by (cases "event b") (auto simp: hb gather_step_def kept_event_def)
    moreover have "batch_files get (SingleBlock h) = []" "carried_files keep [b] = []"
      using other get by (cases "event b"; simp add: hb added_file_def kept_event_def carried_files_def)+
    ultimately show ?thesis using gather_other_files by (simp add: hb)
  qed
  show ?thesis
  proof (cases "event b")
    case (AddData e)
    let ?g = "g\<lparr>gth_old_num_blocks := gth_old_num_blocks g + 1\<rparr>"
    have add: "(gather_add_data keep max_size max_records h e ?g :: ('e, gather_state) res) = Inr g'"
      using AddData step by (simp add: hb gather_step_def)
    show ?thesis
    proof (cases "keep \<or> ad_new_data e = None")
      case True
      then have "g' = set_upper_bound e ?g" "carried_files keep [b] = []"
        using add AddData by (auto simp: gather_add_data_def carried_files_def added_file_def map_filter_simps split: option.splits)
      then show ?thesis using inv1(1) bound by (simp add: hb)
    next
      case False
      then obtain sl where sl: "\<not> keep" "ad_new_data e = Some sl" by auto
      then obtain g1 where g1: "(take_slice max_size max_records sl ?g :: ('e, gather_state) res) = Inr g1"
        "g' = set_upper_bound e (set_lower_bound h e sl g1)" using add by (auto simp: gather_add_data_def res_simps)
      have "batch_files get (SingleBlock h) = [ds_physical_hash sl]" using get AddData sl by (simp add: hb added_file_def)
      from take_slice_files [OF inv1(1) g1(1) this] show ?thesis
        using g1(2) sl AddData bound by (simp add: hb carried_files_def added_file_def)
    qed
  next
    case (Seed s)
    then show ?thesis using step inv1 by (auto simp: hb gather_step_def carried_files_def added_file_def)
  next
    case (ExecuteTransform t)
    then show ?thesis using step inv1 by (auto simp: hb gather_step_def carried_files_def added_file_def)
  qed (use kept in \<open>auto simp: kept_event_def\<close>)
qed

lemma gather_blocks_files:
  assumes "gather_files get fs g" and "\<forall>(h, b) \<in> set hbs. get h = Inr b"
    and "(gather_blocks keep max_size max_records hbs g :: ('e, gather_state) res) = Inr g'"
  shows "gather_files get (fs @ carried_files keep (map snd hbs)) g'"
  using assms
proof (induction hbs arbitrary: fs g)
  case (Cons hb hbs)
  then obtain g1 where step: "(gather_step keep max_size max_records hb g :: ('e, gather_state) res) = Inr g1"
    and rest: "(gather_blocks keep max_size max_records hbs g1 :: ('e, gather_state) res) = Inr g'" by (auto simp: res_simps)
  have "gather_files get (fs @ carried_files keep [snd hb]) g1" using gather_step_files [OF Cons.prems(1) _ step] Cons.prems(2) by auto
  from Cons.IH [OF this _ rest] Cons.prems(2) show ?case
    by (auto simp: carried_files_def map_filter_simps split: option.splits if_splits)
qed (simp add: carried_files_def map_filter_simps)

lemma gather_files_initial: "gather_files get [] initial_gather_state"
  by (simp add: gather_files_def initial_gather_state_def default_batch_info_def plan_files_def)

text \<open>A plan for the whole chain, as \<open>gather_chain_info\<close> returns it.\<close>

lemma gather_chain_info_plan:
  assumes head: "chain_resolve_ref x (dset_chain d) Head = Inr h"
    and chain: "chain_at (chain_get_block cd (dset_chain d)) h bs" "valid_chain (map snd bs)"
    and transforms: "keep \<or> (\<forall>b \<in> set bs. \<not> is_ExecuteTransform (event (snd b)))"
  shows "\<exists>info. gather_chain_info x cd d max_size max_records keep = Some (Inr info)
    \<and> cfi_old_head info = fst (last bs) \<and> cfi_old_num_blocks info = length bs
    \<and> coarsens (List.map_filter (batch_slice (chain_get_block cd (dset_chain d))) (cfi_data_slice_batches info))
        (carried keep (map snd bs))
    \<and> List.map_filter (batch_kept (chain_get_block cd (dset_chain d))) (cfi_data_slice_batches info) =
        kept_events (map snd bs)
    \<and> list_all (batch_known (chain_get_block cd (dset_chain d))) (cfi_data_slice_batches info)
    \<and> plan_files (chain_get_block cd (dset_chain d)) (cfi_data_slice_batches info) = carried_files keep (map snd bs)
    \<and> list_all merges_some (cfi_data_slice_batches info)"
proof -
  let ?get = "chain_get_block cd (dset_chain d)"
  have blocks: "\<forall>(k, b) \<in> set bs. ?get k = Inr b \<and> (keep \<or> \<not> is_ExecuteTransform (event b))"
    using chain_at_get [OF chain(1)] transforms by force
  have ne: "bs \<noteq> []" using chain(1) by (rule chain_at_nonempty)
  have closed: "\<not> open_batch initial_gather_state"
    by (simp add: open_batch_def initial_gather_state_def default_batch_info_def)
  from gather_blocks_inv [OF gather_inv_initial blocks chain(2), of max_size max_records] closed ne obtain g where g:
    "(gather_blocks keep max_size max_records bs initial_gather_state :: (compaction_error, gather_state) res) = Inr g"
    "gather_inv ?get (carried keep (map snd bs)) (kept_events (map snd bs)) g"
    "gth_old_num_blocks g = length bs" "gth_old_head g = Some (fst (last bs))" "\<not> open_batch g"
    by (auto simp: initial_gather_state_def)
  have "gather_files ?get ([] @ carried_files keep (map snd bs)) g"
    using gather_blocks_files [OF gather_files_initial _ g(1)] blocks by force
  moreover have "iter_blocks_interval cd (dset_chain d) h None False = Some (bs, None)"
    using iter_loop_chain [OF chain(1), of None] by (simp add: iter_blocks_interval_def)
  ultimately show ?thesis using g head
    by (simp add: gather_chain_info_def unwrap_def gather_inv_def gather_files_def pending_slices_def open_batch_def)
qed

end
