(* ===== verification/Compaction_Commit.thy ===== *)
theory Compaction_Commit
  imports Compaction_Properties
begin

text \<open>
  Committing a plan: every batch adds one block on top of the previous one, without touching the
  head; the old chain stays stored below the old head. The commits are assumed sound one by one along
  the run, as in the histories of \<open>Dataset_Invariant\<close>.
\<close>

section \<open>Commits beside the head\<close>

text \<open>Something was added, the head is where it was.\<close>

definition built_beside :: "externs \<Rightarrow> codec \<Rightarrow> dataset \<Rightarrow> dataset \<Rightarrow> bool" where
  "built_beside x cd d d' \<longleftrightarrow>
     contents_kept cd d d' \<and> ref_repo (dset_chain d') = ref_repo (dset_chain d)
     \<and> (chain_reachable x cd (dset_chain d) \<longrightarrow> chain_reachable x cd (dset_chain d'))"

lemma built_beside_refl [simp]: "built_beside x cd d d"
  by (simp add: built_beside_def)

lemma built_beside_trans: "built_beside x cd a b \<Longrightarrow> built_beside x cd b c \<Longrightarrow> built_beside x cd a c"
  by (auto simp: built_beside_def contents_kept_def intro: map_le_trans)

lemma built_beside_chains:
  "built_beside x cd d d' \<Longrightarrow> chain_at (chain_get_block cd (dset_chain d)) h bs \<Longrightarrow>
     chain_at (chain_get_block cd (dset_chain d')) h bs"
  by (auto simp: built_beside_def intro: contents_kept_chains)

lemma objects_grow_beside: "objects_grow d d' \<Longrightarrow> built_beside x cd d d'"
  by (simp add: objects_grow_def built_beside_def contents_kept_def)

lemma commit_beside:
  assumes commit: "commit_event x cd now d e opts = Some (r, d')" and sound: "commit_sound x cd now d e opts"
    and ok: "externs_ok x" and opts: "\<not> co_update_block_ref opts" "co_prev_block_hash opts = Some (Some head)"
  shows "built_beside x cd d d'"
    and "r = Inr res \<Longrightarrow> chain_at (chain_get_block cd (dset_chain d)) head hbs \<Longrightarrow>
      \<exists>b. event b = e \<and> chain_at (chain_get_block cd (dset_chain d')) (cr_new_head res) ((cr_new_head res, b) # hbs)"
proof -
  have noref: "ao_update_ref (commit_append_opts opts) = None" using opts(1) by (simp add: commit_append_opts_def)
  show "built_beside x cd d d'"
    using commit sound
  proof (cases rule: commit_event_cases)
    case (appended b ar c)
    have op: "chain_op x cd (dset_chain d) c" using appended(2) _ appended(3) by (rule step_append) simp
    have "ref_repo c = ref_repo (dset_chain d)"
      using appended(2)
    proof (cases rule: chain_append_cases)
      case committed
      from committed(1) ok appended(3) show ?thesis by (cases rule: append_commit_cases) (use noref in auto)
    qed simp
    with op appended(4) chain_op_keeps_blocks [OF op ok] show ?thesis
      by (auto simp: built_beside_def contents_kept_def intro: reach_step)
  qed simp
  assume res: "r = Inr res" and at: "chain_at (chain_get_block cd (dset_chain d)) head hbs"
  from commit [unfolded res] sound obtain b h c where b: "commit_block x cd now d e opts = Inr b"
    "chain_append x cd (dset_chain d) b (commit_append_opts opts) = Some (Inr h, c)"
    "append_sound x cd (dset_chain d) b (commit_append_opts opts)" "d' = d\<lparr>dset_chain := c\<rparr>" "cr_new_head res = h"
    by (rule commit_event_Inr) simp
  have "prev_block_hash b = Some head" using b(1) opts(2) by (auto simp: commit_block_def commit_prev_block_hash_def res_simps)
  with at have "precedes cd (dset_chain d) b hbs" by (simp add: precedes_def)
  from append_chain_at [OF ok b(3,2) this] b(4,5) commit_block_event [OF b(1)]
  show "\<exists>b. event b = e \<and> chain_at (chain_get_block cd (dset_chain d')) (cr_new_head res) ((cr_new_head res, b) # hbs)"
    by auto
qed

lemma commit_add_data_beside:
  assumes commit: "commit_add_data x cd dx now d params src cp opts = Some (r, d')"
    and sound: "\<And>nd nc. prepare_objects x dx d (adp_new_offset_interval params) src cp = Inr (nd, nc) \<Longrightarrow>
      commit_sound x cd now d (add_data_event params nd nc) opts"
    and ok: "externs_ok x" and opts: "\<not> co_update_block_ref opts" "co_prev_block_hash opts = Some (Some head)"
  shows "built_beside x cd d d' \<and> (r = Inr res \<longrightarrow> chain_at (chain_get_block cd (dset_chain d)) head hbs \<longrightarrow>
    (\<exists>b nd nc. prepare_objects x dx d (adp_new_offset_interval params) src cp = Inr (nd, nc)
      \<and> event b = add_data_event params nd nc \<and> (\<forall>s. nd = Some s \<longrightarrow> ds_physical_hash s \<in> dom (dset_data_repo d'))
      \<and> chain_at (chain_get_block cd (dset_chain d')) (cr_new_head res) ((cr_new_head res, b) # hbs)))"
proof (cases "prepare_objects x dx d (adp_new_offset_interval params) src cp")
  case (Inl f)
  with commit show ?thesis by (auto simp: commit_add_data_def)
next
  case (Inr p)
  obtain nd nc where p: "p = (nd, nc)" by fastforce
  let ?e = "add_data_event params nd nc" and ?opts = "opts\<lparr>co_check_object_refs := False\<rparr>"
  obtain r1 d1 where objs: "commit_objects x nd src nc (Option.bind cp checkpoint_ref_file) d = (r1, d1)" by fastforce
  from commit_objects_grows [OF objs] have grow: "objects_grow d d1" by blast
  then have chain: "dset_chain d1 = dset_chain d" by (simp add: objects_grow_def)
  show ?thesis
  proof (cases r1)
    case (Inl f)
    with commit Inr p objs objects_grow_beside [OF grow] show ?thesis by (auto simp: commit_add_data_def)
  next
    case r1: (Inr u)
    with commit Inr p objs have ev: "commit_event x cd now d1 ?e ?opts = Some (r, d')"
      by (simp add: commit_add_data_def)
    have "commit_sound x cd now d1 ?e ?opts"
      using sound Inr p commit_sound_cong [OF chain] by simp
    note beside = commit_beside [OF ev this ok, of head, simplified chain, simplified, OF opts]
    have "built_beside x cd d d'" using objects_grow_beside [OF grow] beside(1) by (rule built_beside_trans)
    moreover have "\<forall>s. nd = Some s \<longrightarrow> ds_physical_hash s \<in> dom (dset_data_repo d')"
    proof (intro allI impI)
      fix s assume "nd = Some s"
      then have "ds_physical_hash s \<in> dom (dset_data_repo d1)" using commit_objects_grows [OF objs] r1 by simp
      moreover have "dset_data_repo d1 \<subseteq>\<^sub>m dset_data_repo d'" using beside(1) by (simp add: built_beside_def contents_kept_def)
      ultimately show "ds_physical_hash s \<in> dom (dset_data_repo d')" using map_le_implies_dom_le by blast
    qed
    ultimately show ?thesis using beside(2) Inr p by blast
  qed
qed

section \<open>One batch\<close>

lemma compaction_opts_simps [simp]:
  "\<not> co_update_block_ref (compaction_commit_opts now head)"
  "co_prev_block_hash (compaction_commit_opts now head) = Some (Some head)"
  "(compaction_commit_opts now head)\<lparr>co_check_object_refs := False\<rparr> = compaction_commit_opts now head"
  by (simp_all add: compaction_commit_opts_def)

fun batch_sound ::
  "externs \<Rightarrow> codec \<Rightarrow> dataset_externs \<Rightarrow> datetime \<Rightarrow> multihash \<Rightarrow> data_slice_batch \<Rightarrow> dataset \<Rightarrow> bool" where
  "batch_sound x cd dx now head (SingleBlock h) d \<longleftrightarrow>
     (case chain_get_block cd (dset_chain d) h of
        Inl _ \<Rightarrow> True
      | Inr b \<Rightarrow> commit_sound x cd now d (event b) (compaction_commit_opts now head))"
| "batch_sound x cd dx now head (CompactedBatch info) d \<longleftrightarrow>
     (case prepare_objects x dx d (adp_new_offset_interval (batch_params info)) (bi_new_file info) (batch_checkpoint info) of
        Inl _ \<Rightarrow> True
      | Inr (nd, nc) \<Rightarrow>
          commit_sound x cd now d (add_data_event (batch_params info) nd nc) (compaction_commit_opts now head))"

text \<open>The block that a batch becomes.\<close>

fun batch_block ::
  "externs \<Rightarrow> object_repo \<Rightarrow> (multihash \<Rightarrow> get_block_error + metadata_block) \<Rightarrow> data_slice_batch \<Rightarrow> metadata_block \<Rightarrow> bool" where
  "batch_block x r get (SingleBlock h) b \<longleftrightarrow> (\<exists>old. get h = Inr old \<and> event b = event old)"
| "batch_block x r get (CompactedBatch info) b \<longleftrightarrow>
     (\<exists>sl cp file. event b = add_data_event (batch_params info) (Some sl) cp
        \<and> ds_offset_interval sl = pending_slice info \<and> bi_new_file info = Some file
        \<and> get_file_physical_hash x file = Inr (ds_physical_hash sl) \<and> ds_physical_hash sl \<in> dom r)"

lemma batch_block_slice: "batch_block x r get batch b \<Longrightarrow> block_slice b = batch_slice get batch"
  by (cases batch) (auto simp: block_slice_def add_data_event_def pending_slice_def)

lemma batch_block_kept:
  "batch_block x r get batch b \<Longrightarrow> batch_kept get batch = (if kept_event (event b) then Some (event b) else None)"
  by (cases batch) (auto simp: add_data_event_def kept_event_def)

lemma batch_block_mono:
  "batch_block x r get batch b \<Longrightarrow> r \<subseteq>\<^sub>m r' \<Longrightarrow> (\<And>k a. get k = Inr a \<Longrightarrow> get' k = Inr a) \<Longrightarrow> batch_block x r' get' batch b"
proof (cases batch)
  case (CompactedBatch info)
  assume "batch_block x r get batch b" "r \<subseteq>\<^sub>m r'"
  then show ?thesis using CompactedBatch map_le_implies_dom_le [of r r'] unfolding CompactedBatch batch_block.simps by blast
qed auto

lemma commit_outcome_Some:
  assumes "commit_outcome c = Some (r, d')"
  obtains r0 where "c = Some (r0, d')" "r = Inr h \<longleftrightarrow> (\<exists>res. r0 = Inr res \<and> cr_new_head res = h)"
  using assms by (auto simp: commit_outcome_def res_simps)

lemma prepare_objects_interval:
  assumes "prepare_objects x dx d (Some iv) src cp = Inr (nd, nc)"
  shows "\<exists>sl file. nd = Some sl \<and> ds_offset_interval sl = iv \<and> src = Some file \<and> get_file_physical_hash x file = Inr (ds_physical_hash sl)"
  using assms by (auto simp: prepare_objects_def prepare_data_slice_def unwrap_def res_simps split: option.splits)

lemma commit_batch_effect:
  assumes commit: "commit_batch x cd dx now head batch d = Some (r, d')"
    and sound: "batch_sound x cd dx now head batch d" and ok: "externs_ok x"
  shows "built_beside x cd d d' \<and> (r = Inr h' \<longrightarrow> chain_at (chain_get_block cd (dset_chain d)) head hbs \<longrightarrow>
      (\<exists>b. batch_block x (dset_data_repo d') (chain_get_block cd (dset_chain d)) batch b
        \<and> chain_at (chain_get_block cd (dset_chain d')) h' ((h', b) # hbs)))"
proof (cases batch)
  case (SingleBlock h)
  show ?thesis
  proof (cases "chain_get_block cd (dset_chain d) h")
    case (Inl f)
    with commit SingleBlock show ?thesis by auto
  next
    case (Inr old)
    with commit SingleBlock obtain r0 where r0:
      "commit_event x cd now d (event old) (compaction_commit_opts now head) = Some (r0, d')"
      "r = Inr h' \<longleftrightarrow> (\<exists>res. r0 = Inr res \<and> cr_new_head res = h')"
      by (auto elim: commit_outcome_Some [where h = h'])
    have "commit_sound x cd now d (event old) (compaction_commit_opts now head)"
      using sound SingleBlock Inr by simp
    from commit_beside [OF r0(1) this ok] r0(2) Inr SingleBlock show ?thesis by fastforce
  qed
next
  case (CompactedBatch info)
  show ?thesis
  proof (cases "bi_new_file info")
    case None
    with commit CompactedBatch show ?thesis by (auto simp: unwrap_def)
  next
    case (Some data)
    with commit CompactedBatch obtain r0 where r0:
      "commit_add_data x cd dx now d (batch_params info) (Some data) (batch_checkpoint info)
         (compaction_commit_opts now head) = Some (r0, d')"
      "r = Inr h' \<longleftrightarrow> (\<exists>res. r0 = Inr res \<and> cr_new_head res = h')"
      by (auto simp: unwrap_def elim: commit_outcome_Some [where h = h'])
    have block: "batch_block x (dset_data_repo d') (chain_get_block cd (dset_chain d)) batch b"
      if "prepare_objects x dx d (adp_new_offset_interval (batch_params info)) (Some data) (batch_checkpoint info) = Inr (nd, nc)"
        "event b = add_data_event (batch_params info) nd nc" "\<forall>s. nd = Some s \<longrightarrow> ds_physical_hash s \<in> dom (dset_data_repo d')" for b nd nc
      using prepare_objects_interval [of x dx d _ "Some data" "batch_checkpoint info" nd nc] that CompactedBatch Some
      by (fastforce simp: batch_params_def pending_slice_def)
    have each: "commit_sound x cd now d (add_data_event (batch_params info) nd nc) (compaction_commit_opts now head)"
      if "prepare_objects x dx d (adp_new_offset_interval (batch_params info)) (Some data) (batch_checkpoint info) = Inr (nd, nc)"
      for nd nc using that sound CompactedBatch Some by simp
    note beside = commit_add_data_beside [OF r0(1) each ok compaction_opts_simps(1,2), simplified]
    have "\<exists>b. batch_block x (dset_data_repo d') (chain_get_block cd (dset_chain d)) batch b
        \<and> chain_at (chain_get_block cd (dset_chain d')) h' ((h', b) # hbs)"
      if "r = Inr h'" "chain_at (chain_get_block cd (dset_chain d)) head hbs"
    proof -
      from that(1) r0(2) obtain res where res: "r0 = Inr res" "cr_new_head res = h'" by blast
      with beside that(2) block show ?thesis by metis
    qed
    with beside show ?thesis by blast
  qed
qed

section \<open>All batches\<close>

fun batches_sound ::
  "externs \<Rightarrow> codec \<Rightarrow> dataset_externs \<Rightarrow> (nat \<Rightarrow> datetime) \<Rightarrow> nat \<Rightarrow> multihash \<Rightarrow> data_slice_batch list \<Rightarrow> dataset \<Rightarrow> bool" where
  "batches_sound x cd dx clock n head [] d \<longleftrightarrow> True"
| "batches_sound x cd dx clock n head (batch # batches) d \<longleftrightarrow>
     batch_sound x cd dx (clock n) head batch d
     \<and> (case commit_batch x cd dx (clock n) head batch d of
          Some (Inr new_head, d') \<Rightarrow> batches_sound x cd dx clock (n + 1) new_head batches d'
        | _ \<Rightarrow> True)"

lemma commit_batches_effect:
  assumes ok: "externs_ok x"
  shows "commit_batches x cd dx clock n head batches d = Some (r, d') \<Longrightarrow>
    batches_sound x cd dx clock n head batches d \<Longrightarrow>
    built_beside x cd d d' \<and> (\<forall>h' m. r = Inr (h', m) \<longrightarrow> chain_at (chain_get_block cd (dset_chain d)) head hbs \<longrightarrow>
      m = n + length batches
      \<and> (\<exists>new. list_all2 (batch_block x (dset_data_repo d') (chain_get_block cd (dset_chain d'))) batches (rev (map snd new))
          \<and> chain_at (chain_get_block cd (dset_chain d')) h' (new @ hbs)))"
proof (induction batches arbitrary: n head d hbs)
  case Nil
  then show ?case by auto
next
  case (Cons batch batches)
  from Cons.prems(1) obtain r1 d1 where commit: "commit_batch x cd dx (clock n) head batch d = Some (r1, d1)"
    by (auto simp: bind_eq_Some_conv)
  have sound: "batch_sound x cd dx (clock n) head batch d" using Cons.prems(2) by simp
  note first = commit_batch_effect [OF commit sound ok]
  show ?case
  proof (cases r1)
    case (Inl f)
    with Cons.prems(1) commit first show ?thesis by auto
  next
    case (Inr h1)
    with Cons.prems commit have rest: "commit_batches x cd dx clock (n + 1) h1 batches d1 = Some (r, d')"
      "batches_sound x cd dx clock (n + 1) h1 batches d1" by simp_all
    have built: "built_beside x cd d d'" "built_beside x cd d1 d'"
      using first Cons.IH [OF rest] built_beside_trans by blast+
    then have keep: "chain_get_block cd (dset_chain d) k = Inr a \<Longrightarrow> chain_get_block cd (dset_chain d') k = Inr a" for k a
      by (simp add: built_beside_def contents_kept_def)
    have "m = n + length (batch # batches)
      \<and> (\<exists>new. list_all2 (batch_block x (dset_data_repo d') (chain_get_block cd (dset_chain d'))) (batch # batches) (rev (map snd new))
          \<and> chain_at (chain_get_block cd (dset_chain d')) h' (new @ hbs))"
      if "r = Inr (h', m)" "chain_at (chain_get_block cd (dset_chain d)) head hbs" for h' m
    proof -
      from first Inr that(2) obtain b where b: "batch_block x (dset_data_repo d1) (chain_get_block cd (dset_chain d)) batch b"
        "chain_at (chain_get_block cd (dset_chain d1)) h1 ((h1, b) # hbs)" by blast
      from Cons.IH [OF rest, of "(h1, b) # hbs"] that(1) b(2) obtain new where new: "m = n + 1 + length batches"
        "list_all2 (batch_block x (dset_data_repo d') (chain_get_block cd (dset_chain d'))) batches (rev (map snd new))"
        "chain_at (chain_get_block cd (dset_chain d')) h' (new @ (h1, b) # hbs)" by auto
      have "dset_data_repo d1 \<subseteq>\<^sub>m dset_data_repo d'" using built(2) by (simp add: built_beside_def contents_kept_def)
      from new(2) batch_block_mono [OF b(1) this keep]
      have "list_all2 (batch_block x (dset_data_repo d') (chain_get_block cd (dset_chain d'))) (batch # batches) (rev (map snd (new @ [(h1, b)])))"
        by simp
      moreover have "chain_at (chain_get_block cd (dset_chain d')) h' ((new @ [(h1, b)]) @ hbs)" using new(3) by simp
      moreover have "m = n + length (batch # batches)" using new(1) by simp
      ultimately show ?thesis by blast
    qed
    with built show ?thesis by blast
  qed
qed

section \<open>The chain of a plan\<close>

lemma list_all2_map_filter:
  "list_all2 P xs ys \<Longrightarrow> (\<And>x y. P x y \<Longrightarrow> f x = g y) \<Longrightarrow> List.map_filter f xs = List.map_filter g ys"
  by (induction rule: list_all2_induct) (simp_all add: map_filter_simps split: option.split)

lemma map_filter_cong_all:
  "list_all P xs \<Longrightarrow> (\<And>x. P x \<Longrightarrow> f x = g x) \<Longrightarrow> List.map_filter f xs = List.map_filter g xs"
  by (induction xs) (simp_all add: map_filter_simps split: option.split)

lemma kept_events_map_filter:
  "kept_events bs = List.map_filter (\<lambda>b. if kept_event (event b) then Some (event b) else None) bs"
  by (induction bs) (simp_all add: kept_events_def map_filter_simps)

lemma committed_plan:
  assumes blocks: "list_all2 (batch_block x r get') batches bs" and known: "list_all (batch_known get) batches"
    and keep: "\<And>k b. get k = Inr b \<Longrightarrow> get' k = Inr b"
  shows "slices bs = List.map_filter (batch_slice get) batches" "kept_events bs = List.map_filter (batch_kept get) batches"
proof -
  have "slices bs = List.map_filter (batch_slice get') batches"
    unfolding slices_def using list_all2_map_filter [OF blocks, of "batch_slice get'" block_slice] batch_block_slice
    by metis
  also have "\<dots> = List.map_filter (batch_slice get) batches"
    using batch_known_mono(1) keep by (intro map_filter_cong_all [OF known]) blast
  finally show "slices bs = List.map_filter (batch_slice get) batches" .
  have "kept_events bs = List.map_filter (batch_kept get') batches"
    unfolding kept_events_map_filter
    by (rule list_all2_map_filter [OF blocks, symmetric]) (rule batch_block_kept)
  also have "\<dots> = List.map_filter (batch_kept get) batches"
    using batch_known_mono(2) keep by (intro map_filter_cong_all [OF known]) blast
  finally show "kept_events bs = List.map_filter (batch_kept get) batches" .
qed

text \<open>Merging the files changes nothing else of a plan.\<close>

fun merged_batch ::
  "(string \<Rightarrow> bytes list \<Rightarrow> string + bytes) \<Rightarrow> object_repo \<Rightarrow> string \<Rightarrow> data_slice_batch \<Rightarrow> data_slice_batch \<Rightarrow> bool" where
  "merged_batch merge r column (SingleBlock h) batch \<longleftrightarrow> batch = SingleBlock h"
| "merged_batch merge r column (CompactedBatch info) batch \<longleftrightarrow>
     (\<exists>files merged. read_slices r (bi_data_slices_batch info) = Some files \<and> merge column files = Inr merged
        \<and> batch = CompactedBatch (info\<lparr>bi_new_file := Some merged\<rparr>))"

lemma merge_files_same:
  "merge_files merge r column batches = Inr batches' \<Longrightarrow> list_all2 (merged_batch merge r column) batches batches'"
  by (induction merge r column batches arbitrary: batches' rule: merge_files.induct)
    (auto simp: res_simps split: option.splits)

lemma merged_batch_same:
  assumes "merged_batch merge r column a b"
  shows "batch_slice get b = batch_slice get a" "batch_kept get b = batch_kept get a" "batch_known get b = batch_known get a"
  using assms by (cases a; auto)+

lemma merged_plan_same:
  assumes "list_all2 (merged_batch merge r column) batches batches'"
  shows "List.map_filter (batch_slice get) batches' = List.map_filter (batch_slice get) batches"
    "List.map_filter (batch_kept get) batches' = List.map_filter (batch_kept get) batches"
    "list_all (batch_known get) batches' = list_all (batch_known get) batches" "length batches' = length batches"
proof -
  show "List.map_filter (batch_slice get) batches' = List.map_filter (batch_slice get) batches"
    "List.map_filter (batch_kept get) batches' = List.map_filter (batch_kept get) batches"
    by (rule list_all2_map_filter [OF assms, symmetric], simp only: merged_batch_same)+
  show "list_all (batch_known get) batches' = list_all (batch_known get) batches"
    using assms by (induction rule: list_all2_induct) (simp_all add: merged_batch_same(3))
  show "length batches' = length batches" using assms by (simp add: list_all2_lengthD)
qed

section \<open>A whole run\<close>

definition compaction_sound ::
  "externs \<Rightarrow> codec \<Rightarrow> dataset_externs \<Rightarrow> (string \<Rightarrow> bytes list \<Rightarrow> string + bytes) \<Rightarrow> (nat \<Rightarrow> datetime) \<Rightarrow>
   u64 \<Rightarrow> u64 \<Rightarrow> bool \<Rightarrow> dataset \<Rightarrow> bool" where
  "compaction_sound x cd dx merge clock max_size max_records keep d \<longleftrightarrow>
     (case gather_chain_info x cd d max_size max_records keep of
        Some (Inr info) \<Rightarrow>
          (case merge_files merge (dset_data_repo d) (cfi_offset_column info) (cfi_data_slice_batches info) of
             Inr batches \<Rightarrow> batches_sound x cd dx clock 1 (cfi_old_head info) (rev batches) d
           | _ \<Rightarrow> True)
      | _ \<Rightarrow> True)"

lemma compact_impl_cases:
  assumes "compact_dataset_impl x cd dx merge clock max_size max_records keep d = Some (r, d')"
    and "compaction_sound x cd dx merge clock max_size max_records keep d"
  obtains (early) f where "r = Inl f" "d' = d"
  | (nothing) "r = Inr CompactionNothingToDo" "d' = d"
  | (commit_failed) n h batches f where "r = Inl f" "commit_batches x cd dx clock n h batches d = Some (Inl f, d')"
      "batches_sound x cd dx clock n h batches d"
  | (committed) info batches new_head num d1 where
      "gather_chain_info x cd d max_size max_records keep = Some (Inr info)"
      "list_all2 (merged_batch merge (dset_data_repo d) (cfi_offset_column info)) (cfi_data_slice_batches info) batches"
      "commit_batches x cd dx clock 1 (cfi_old_head info) (rev batches) d = Some (Inr (new_head, num), d1)"
      "batches_sound x cd dx clock 1 (cfi_old_head info) (rev batches) d"
      "(r, d') = finish_compaction x info new_head num d1"
proof -
  from assms(1) obtain gathered where gathered: "gather_chain_info x cd d max_size max_records keep = Some gathered"
    by (auto simp: compact_dataset_impl_def bind_eq_Some_conv)
  show thesis
  proof (cases gathered)
    case (Inl f)
    with assms(1) gathered early show thesis by (auto simp: compact_dataset_impl_def)
  next
    case (Inr info)
    show thesis
    proof (cases "length (cfi_data_slice_batches info) + 1 = cfi_old_num_blocks info")
      case True
      with assms(1) gathered Inr have "r = Inr CompactionNothingToDo" "d' = d"
        by (auto simp: compact_dataset_impl_def)
      then show thesis by (rule nothing)
    next
      case False
      show thesis
      proof (cases "merge_files merge (dset_data_repo d) (cfi_offset_column info) (cfi_data_slice_batches info)")
        case (Inl f)
        with False assms(1) gathered Inr early show thesis by (auto simp: compact_dataset_impl_def)
      next
        case merged: (Inr batches)
        have sound: "batches_sound x cd dx clock 1 (cfi_old_head info) (rev batches) d"
          using assms(2) gathered Inr merged by (simp add: compaction_sound_def)
        from assms(1) gathered Inr merged False obtain r1 d1 where commits:
          "commit_batches x cd dx clock 1 (cfi_old_head info) (rev batches) d = Some (r1, d1)"
          "(case r1 of Inl f \<Rightarrow> Some (Inl f, d1)
            | Inr (new_head, num) \<Rightarrow> Some (finish_compaction x info new_head num d1)) = Some (r, d')"
          by (auto simp: compact_dataset_impl_def commit_new_blocks_def bind_eq_Some_conv)
        show thesis
        proof (cases r1)
          case (Inl f)
          with commits sound commit_failed show thesis by auto
        next
          case r1: (Inr p)
          obtain new_head num where "p = (new_head, num)" by fastforce
          with commits sound r1 committed [OF gathered [unfolded Inr] merge_files_same [OF merged]] show thesis by auto
        qed
      qed
    qed
  qed
qed

lemma finish_compaction_failed:
  assumes "(Inl f, d') = finish_compaction x info new_head num d"
  shows "d' = d"
  using assms
  by (auto simp: finish_compaction_def res_simps split: prod.splits elim: chain_set_ref_cases)

lemma finish_compaction_done:
  assumes "(Inr res, d') = finish_compaction x info new_head num d" and "externs_ok x"
    and "blocks_inv cd (dset_chain d)"
  shows "res = CompactionSuccess (cfi_old_head info) new_head (cfi_old_num_blocks info) num
    \<and> chain_resolve_ref x (dset_chain d') Head = Inr new_head \<and> chain_op x cd (dset_chain d) (dset_chain d')
    \<and> (\<exists>c. d' = d\<lparr>dset_chain := c\<rparr> \<and> meta_block_repo c = meta_block_repo (dset_chain d))"
proof -
  let ?opts = "\<lparr>so_validate_block_present = True, so_check_ref_is = None\<rparr>"
  obtain r c where set: "chain_set_ref x (dset_chain d) Head new_head ?opts = (r, c)" by fastforce
  from assms(1) set have r: "r = Inr ()" and d': "d' = d\<lparr>dset_chain := c\<rparr>"
    and res: "res = CompactionSuccess (cfi_old_head info) new_head (cfi_old_num_blocks info) num"
    by (cases r; simp add: finish_compaction_def)+
  from set show ?thesis
  proof (cases rule: chain_set_ref_cases)
    case (updated refs)
    from updated(4) have "new_head \<in> dom (meta_block_repo (dset_chain d))" by (simp add: set_ref_check_ok)
    with assms(3) have "wf_multihash new_head" by (simp add: blocks_inv_def)
    from ref_set_current [OF assms(2) this updated(2)] updated(3)
    have "chain_resolve_ref x c Head = Inr new_head" by (simp add: resolve_current)
    with res d' updated(3) step_set_ref [OF set] show ?thesis by auto
  qed (use r in simp)
qed


text \<open>What a run leaves in place, whatever its outcome.\<close>

lemma compact_impl_keeps:
  assumes run: "compact_dataset_impl x cd dx merge clock max_size max_records keep d = Some (r, d')"
    and sound: "compaction_sound x cd dx merge clock max_size max_records keep d"
    and ok: "externs_ok x" and reach: "chain_reachable x cd (dset_chain d)"
  shows "contents_kept cd d d' \<and> chain_reachable x cd (dset_chain d')
    \<and> ((\<forall>oh nh n m. r \<noteq> Inr (CompactionSuccess oh nh n m)) \<longrightarrow>
         chain_resolve_ref x (dset_chain d') Head = chain_resolve_ref x (dset_chain d) Head)"
proof -
  have stays: "?thesis" if "built_beside x cd d d'"
    using that reach by (simp add: built_beside_def chain_resolve_ref_def)
  from run sound show ?thesis
  proof (cases rule: compact_impl_cases)
    case (commit_failed n h batches f)
    from commit_batches_effect [OF ok commit_failed(2,3)] stays show ?thesis by blast
  next
    case (committed info batches new_head num d1)
    from commit_batches_effect [OF ok committed(3,4)] have beside: "built_beside x cd d d1" by blast
    show ?thesis
    proof (cases r)
      case (Inl f)
      with committed(5) finish_compaction_failed beside stays show ?thesis by metis
    next
      case (Inr res)
      have inv: "blocks_inv cd (dset_chain d1)"
        using beside reach chain_reachable_inv [OF _ ok] by (simp add: built_beside_def)
      from finish_compaction_done [OF committed(5) [unfolded Inr] ok inv] beside reach Inr show ?thesis
        by (auto simp: built_beside_def contents_kept_def chain_get_block_eq intro: reach_step)
    qed
  qed (use stays in simp_all)
qed

text \<open>The chain below the new head, block by block.\<close>

lemma compact_impl_success:
  assumes run: "compact_dataset_impl x cd dx merge clock max_size max_records keep d =
      Some (Inr (CompactionSuccess old_head new_head num new_num), d')"
    and sound: "compaction_sound x cd dx merge clock max_size max_records keep d"
    and ok: "externs_ok x" and reach: "chain_reachable x cd (dset_chain d)"
    and gathered: "gather_chain_info x cd d max_size max_records keep = Some (Inr info)"
    and seed: "chain_at (chain_get_block cd (dset_chain d)) (cfi_old_head info) hbs"
  shows "\<exists>new batches. chain_resolve_ref x (dset_chain d') Head = Inr new_head
    \<and> chain_at (chain_get_block cd (dset_chain d')) new_head (new @ hbs)
    \<and> list_all2 (merged_batch merge (dset_data_repo d) (cfi_offset_column info)) (cfi_data_slice_batches info) batches
    \<and> list_all2 (batch_block x (dset_data_repo d') (chain_get_block cd (dset_chain d'))) batches (map snd new)
    \<and> old_head = cfi_old_head info \<and> num = cfi_old_num_blocks info \<and> new_num = 1 + length new"
  using run sound
proof (cases rule: compact_impl_cases)
  case (committed info' batches h m d1)
  have info: "info' = info" using committed(1) gathered by simp
  from commit_batches_effect [OF ok committed(3,4), of hbs] seed info obtain new where
    beside: "built_beside x cd d d1" and m: "m = 1 + length batches"
    and new: "list_all2 (batch_block x (dset_data_repo d1) (chain_get_block cd (dset_chain d1))) (rev batches) (rev (map snd new))"
    "chain_at (chain_get_block cd (dset_chain d1)) h (new @ hbs)" by auto
  have inv: "blocks_inv cd (dset_chain d1)"
    using beside reach chain_reachable_inv [OF _ ok] by (simp add: built_beside_def)
  note finished = finish_compaction_done [OF committed(5) ok inv]
  then have "chain_get_block cd (dset_chain d') = chain_get_block cd (dset_chain d1)" "dset_data_repo d' = dset_data_repo d1"
    by (auto simp: chain_get_block_eq)
  moreover have "list_all2 (batch_block x (dset_data_repo d1) (chain_get_block cd (dset_chain d1))) batches (map snd new)"
    using new(1) by (simp add: list_all2_rev)
  moreover from this have "length batches = length new" by (simp add: list_all2_lengthD)
  ultimately show ?thesis using new(2) finished committed(2) m info by (intro exI [of _ new] exI [of _ batches]) simp
qed simp_all

section \<open>The service call\<close>

definition compact_dataset_sound ::
  "externs \<Rightarrow> codec \<Rightarrow> dataset_externs \<Rightarrow> (string \<Rightarrow> bytes list \<Rightarrow> string + bytes) \<Rightarrow> (nat \<Rightarrow> datetime) \<Rightarrow>
   compaction_options \<Rightarrow> dataset \<Rightarrow> bool" where
  "compact_dataset_sound x cd dx merge clock opts d \<longleftrightarrow>
     (case get_summary x cd dx d default_get_summary_opts of
        None \<Rightarrow> True
      | Some (_, d1) \<Rightarrow>
          compaction_sound x cd dx merge clock
            (case cpo_max_slice_size opts of Some n \<Rightarrow> n | None \<Rightarrow> DEFAULT_MAX_SLICE_SIZE)
            (case cpo_max_slice_records opts of Some n \<Rightarrow> n | None \<Rightarrow> DEFAULT_MAX_SLICE_RECORDS)
            (cpo_keep_metadata_only opts) d1)"

lemma compact_dataset_cases:
  assumes run: "compact_dataset x cd dx merge clock authorized handle opts d = Some (r, d')"
    and sound: "compact_dataset_sound x cd dx merge clock opts d"
    and inv: "dataset_inv x cd dx d" "externs_ok x" "summary_yaml_ok dx"
  obtains (refused) f where "r = Inl f" "d' = d" | (checked) d1 f where "r = Inl f" "d' = d1"
      "dset_chain d1 = dset_chain d" "dset_data_repo d1 = dset_data_repo d" "dset_checkpoint_repo d1 = dset_checkpoint_repo d"
  | (ran) d1 max_size max_records where
      "dset_chain d1 = dset_chain d" "dset_data_repo d1 = dset_data_repo d" "dset_checkpoint_repo d1 = dset_checkpoint_repo d"
      "compact_dataset_impl x cd dx merge clock max_size max_records (cpo_keep_metadata_only opts) d1 = Some (r, d')"
      "compaction_sound x cd dx merge clock max_size max_records (cpo_keep_metadata_only opts) d1"
proof (cases authorized)
  case (Inl f)
  with run have "r = Inl (map_fault compaction_error_of_unauthorized f)" "d' = d" by (auto simp: compact_dataset_def)
  then show thesis by (rule refused)
next
  case (Inr u)
  from get_summary_outcome [OF inv, of default_get_summary_opts] obtain s d1
    where summary: "get_summary x cd dx d default_get_summary_opts = Some (s, d1)"
      and d1: "dset_chain d1 = dset_chain d" "dset_data_repo d1 = dset_data_repo d"
        "dset_checkpoint_repo d1 = dset_checkpoint_repo d" by blast
  show thesis
  proof (cases "\<exists>f. r = Inl f \<and> d' = d1")
    case True
    with d1 checked show thesis by blast
  next
    case False
    with run Inr summary sound ran [OF d1] show thesis
      by (auto simp: compact_dataset_def compact_dataset_sound_def split: sum.splits if_splits)
  qed
qed

end
