(* ===== verification/Compaction_Demo.thy ===== *)
theory Compaction_Demo
  imports Compaction_Commit
begin

text \<open>
  Two small datasets and their compaction, on a codec that writes the position of a block in a
  table: one with two slices of ten records, which become one of twenty, and one whose last block only
  moves the watermark.
\<close>

section \<open>Blocks\<close>

definition demo_slice :: "bytes \<Rightarrow> u64 \<Rightarrow> u64 \<Rightarrow> data_slice" where
  "demo_slice file a b =
     \<lparr>ds_logical_hash = demo_hash 0,
      ds_physical_hash = \<lparr>mh_buf = file @ replicate (32 - length file) 0, mh_len = 32, mh_code = Sha3_256\<rparr>,
      ds_offset_interval = \<lparr>oi_start = a, oi_end = b\<rparr>, ds_size = of_nat (length file)\<rparr>"

definition demo_add :: "u64 option \<Rightarrow> data_slice option \<Rightarrow> datetime \<Rightarrow> metadata_event" where
  "demo_add prev sl wm =
     AddData \<lparr>ad_prev_checkpoint = None, ad_prev_offset = prev, ad_new_data = sl, ad_new_checkpoint = None,
       ad_new_watermark = Some wm, ad_new_source_state = None\<rparr>"

definition demo_block :: "datetime \<Rightarrow> u8 \<Rightarrow> u64 \<Rightarrow> metadata_event \<Rightarrow> metadata_block" where
  "demo_block t prev n e = \<lparr>system_time = t, prev_block_hash = Some (demo_hash prev), sequence_number = n, event = e\<rparr>"

definition demo_first :: metadata_event where
  "demo_first = demo_add None (Some (demo_slice [1] 0 9)) 90"

definition demo_second :: metadata_event where
  "demo_second = demo_add (Some 9) (Some (demo_slice [2] 10 19)) 95"

definition demo_watermark :: metadata_event where
  "demo_watermark = demo_add (Some 9) None 99"

text \<open>The blocks of both datasets, then those that compaction adds to them.\<close>

definition demo_table :: "metadata_block list" where
  "demo_table =
     [demo_seed, demo_schema, demo_block 120 1 2 demo_first, demo_block 130 2 3 demo_second,
      demo_block 130 2 3 demo_watermark,
      demo_block 201 0 1 (event demo_schema),
      demo_block 202 5 2 (demo_add None (Some (demo_slice [1, 2] 0 19)) 95),
      demo_block 202 5 2 demo_first]"

fun position :: "'a \<Rightarrow> 'a list \<Rightarrow> nat option" where
  "position a [] = None"
| "position a (b # bs) = (if a = b then Some 0 else map_option Suc (position a bs))"

definition table_codec :: codec where
  "table_codec =
     \<lparr>write_manifest = (\<lambda>b. case position b demo_table of None \<Rightarrow> Inl (OtherSerde ''unknown block'') | Some n \<Rightarrow> Inr [of_nat n]),
      read_manifest = (\<lambda>bs. case bs of
          [n] \<Rightarrow> if unat n < length demo_table then Inr (demo_table ! unat n) else Inl UnsupportedVersion
        | _ \<Rightarrow> Inl UnsupportedVersion)\<rparr>"


section \<open>The datasets\<close>

definition add_params :: "u64 option \<Rightarrow> u64 \<Rightarrow> u64 \<Rightarrow> datetime \<Rightarrow> add_data_params" where
  "add_params prev a b wm =
     \<lparr>adp_prev_checkpoint = None, adp_prev_offset = prev, adp_new_offset_interval = Some \<lparr>oi_start = a, oi_end = b\<rparr>,
      adp_new_watermark = Some wm, adp_new_source_state = None\<rparr>"

definition commit_demo :: "datetime \<Rightarrow> metadata_event \<Rightarrow> dataset \<Rightarrow> ((commit_error, commit_result) res \<times> dataset) option" where
  "commit_demo t e d = commit_event demo_externs table_codec 0 d e (at_time t)"

definition add_demo ::
  "datetime \<Rightarrow> add_data_params \<Rightarrow> bytes \<Rightarrow> dataset \<Rightarrow> ((commit_error, commit_result) res \<times> dataset) option" where
  "add_demo t params file d =
     commit_add_data demo_externs table_codec demo_dataset_externs 0 d params (Some file) None (at_time t)"

definition plain1 :: dataset where "plain1 = snd (the (commit_demo 100 (event demo_seed) empty_dataset))"
definition plain2 :: dataset where "plain2 = snd (the (commit_demo 110 (event demo_schema) plain1))"
definition plain3 :: dataset where "plain3 = snd (the (add_demo 120 (add_params None 0 9 90) [1] plain2))"
definition two_slices :: dataset where "two_slices = snd (the (add_demo 130 (add_params (Some 9) 10 19 95) [2] plain3))"
definition moved_watermark :: dataset where "moved_watermark = snd (the (commit_demo 130 demo_watermark plain3))"

lemma plain_commit_results:
  "map_option fst (commit_demo 100 (event demo_seed) empty_dataset) = Some (Inr (demo_commit None 0))"
  "map_option fst (commit_demo 110 (event demo_schema) plain1) = Some (Inr (demo_commit (Some (demo_hash 0)) 1))"
  "map_option fst (add_demo 120 (add_params None 0 9 90) [1] plain2) = Some (Inr (demo_commit (Some (demo_hash 1)) 2))"
  "map_option fst (add_demo 130 (add_params (Some 9) 10 19 95) [2] plain3) = Some (Inr (demo_commit (Some (demo_hash 2)) 3))"
  "map_option fst (commit_demo 130 demo_watermark plain3) = Some (Inr (demo_commit (Some (demo_hash 2)) 4))"
  by code_simp+


lemma plain_commits:
  "commit_demo 100 (event demo_seed) empty_dataset = Some (Inr (demo_commit None 0), plain1)"
  "commit_demo 110 (event demo_schema) plain1 = Some (Inr (demo_commit (Some (demo_hash 0)) 1), plain2)"
  "add_demo 120 (add_params None 0 9 90) [1] plain2 = Some (Inr (demo_commit (Some (demo_hash 1)) 2), plain3)"
  "add_demo 130 (add_params (Some 9) 10 19 95) [2] plain3 = Some (Inr (demo_commit (Some (demo_hash 2)) 3), two_slices)"
  "commit_demo 130 demo_watermark plain3 = Some (Inr (demo_commit (Some (demo_hash 2)) 4), moved_watermark)"
  using plain_commit_results [THEN map_fst_snd]
  unfolding plain1_def plain2_def plain3_def two_slices_def moved_watermark_def by simp_all

lemma plain_sound:
  "commit_sound demo_externs table_codec 0 empty_dataset (event demo_seed) (at_time 100)"
  "commit_sound demo_externs table_codec 0 plain1 (event demo_schema) (at_time 110)"
  "prepare_objects demo_externs demo_dataset_externs plain2 (adp_new_offset_interval (add_params None 0 9 90)) (Some [1]) None
     = Inr (Some (demo_slice [1] 0 9), None)"
  "commit_sound demo_externs table_codec 0 plain2 (add_data_event (add_params None 0 9 90) (Some (demo_slice [1] 0 9)) None) (at_time 120)"
  "prepare_objects demo_externs demo_dataset_externs plain3 (adp_new_offset_interval (add_params (Some 9) 10 19 95)) (Some [2]) None
     = Inr (Some (demo_slice [2] 10 19), None)"
  "commit_sound demo_externs table_codec 0 plain3 (add_data_event (add_params (Some 9) 10 19 95) (Some (demo_slice [2] 10 19)) None) (at_time 130)"
  "commit_sound demo_externs table_codec 0 plain3 demo_watermark (at_time 130)"
  by code_simp+

lemma plain_reachable:
  "dataset_reachable demo_externs table_codec demo_dataset_externs True two_slices"
  "dataset_reachable demo_externs table_codec demo_dataset_externs True moved_watermark"
proof -
  let ?op = "dataset_op demo_externs table_codec demo_dataset_externs True"
  have chk: "co_check_object_refs (at_time t)" for t by (simp add: at_time_def default_commit_opts_def)
  note commits = plain_commits [unfolded commit_demo_def add_demo_def]
  have "?op empty_dataset plain1" "?op plain1 plain2" and last: "?op plain3 moved_watermark"
    by (rule op_commit_event [OF commits(1) plain_sound(1)] op_commit_event [OF commits(2) plain_sound(2)]
        op_commit_event [OF commits(5) plain_sound(7)]; simp add: chk)+
  moreover have "?op plain2 plain3"
    by (rule op_commit_add_data [OF commits(3)]) (auto simp: plain_sound)
  ultimately have three: "dataset_reachable demo_externs table_codec demo_dataset_externs True plain3"
    by (blast intro: dreach_empty dreach_step)
  then show "dataset_reachable demo_externs table_codec demo_dataset_externs True moved_watermark"
    using last by (rule dreach_step)
  have "?op plain3 two_slices"
    by (rule op_commit_add_data [OF commits(4)]) (auto simp: plain_sound)
  with three show "dataset_reachable demo_externs table_codec demo_dataset_externs True two_slices"
    by (rule dreach_step)
qed

lemma plain_reads_two:
  "list_all (\<lambda>n. chain_get_block table_codec (dset_chain two_slices) (demo_hash (of_nat n)) = Inr (demo_table ! n)) [0, 1, 2, 3]"
  "chain_resolve_ref demo_externs (dset_chain two_slices) Head = Inr (demo_hash 3)"
  by code_simp+

lemma plain_reads_moved:
  "list_all (\<lambda>n. chain_get_block table_codec (dset_chain moved_watermark) (demo_hash (of_nat n)) = Inr (demo_table ! n)) [0, 1, 2, 4]"
  "chain_resolve_ref demo_externs (dset_chain moved_watermark) Head = Inr (demo_hash 4)"
  by code_simp+

lemmas plain_reads = plain_reads_two(1) plain_reads_moved(1) plain_reads_two(2) plain_reads_moved(2)

definition plain_chain :: "u8 \<Rightarrow> metadata_event \<Rightarrow> hashed_block list" where
  "plain_chain n e =
     [(demo_hash n, demo_block 130 2 3 e), (demo_hash 2, demo_block 120 1 2 demo_first),
      (demo_hash 1, demo_schema), (demo_hash 0, demo_seed)]"

lemma plain_chain_at:
  "chain_at (chain_get_block table_codec (dset_chain two_slices)) (demo_hash 3) (plain_chain 3 demo_second)"
  "chain_at (chain_get_block table_codec (dset_chain moved_watermark)) (demo_hash 4) (plain_chain 4 demo_watermark)"
proof -
  have "chain_at get (demo_hash n) (plain_chain n e)"
    if "get (demo_hash 0) = Inr demo_seed" "get (demo_hash 1) = Inr demo_schema"
      "get (demo_hash 2) = Inr (demo_block 120 1 2 demo_first)" "get (demo_hash n) = Inr (demo_block 130 2 3 e)" for get n e
    unfolding plain_chain_def using that demo_links
    by (auto intro!: chain_step [of get] chain_root simp: demo_block_def)
  with plain_reads(1,2)
  show "chain_at (chain_get_block table_codec (dset_chain two_slices)) (demo_hash 3) (plain_chain 3 demo_second)"
    "chain_at (chain_get_block table_codec (dset_chain moved_watermark)) (demo_hash 4) (plain_chain 4 demo_watermark)"
    by (simp_all add: demo_table_def)
qed

section \<open>Their compaction\<close>

definition demo_handle :: dataset_handle where
  "demo_handle = \<lparr>handle_id = DatasetID [], handle_alias = \<lparr>alias_account_name = None, alias_dataset_name = ''demo''\<rparr>\<rparr>"

definition demo_merge :: "string \<Rightarrow> bytes list \<Rightarrow> string + bytes" where
  "demo_merge column files = Inr (concat (rev files))"

definition demo_clock :: "nat \<Rightarrow> datetime" where
  "demo_clock n = 200 + int n"

definition compact_demo :: "(unauthorized_error, unit) res \<Rightarrow> dataset \<Rightarrow> ((compaction_error, compaction_result) res \<times> dataset) option" where
  "compact_demo authorized d =
     compact_dataset demo_externs table_codec demo_dataset_externs demo_merge demo_clock authorized
       demo_handle default_compaction_options d"

definition compacted :: "dataset \<Rightarrow> dataset" where
  "compacted d = snd (the (compact_demo (Inr ()) d))"

lemma compact_demo_results:
  "map_option fst (compact_demo (Inr ()) two_slices) = Some (Inr (CompactionSuccess (demo_hash 0) (demo_hash 6) 4 3))"
  "map_option fst (compact_demo (Inr ()) moved_watermark) = Some (Inr (CompactionSuccess (demo_hash 0) (demo_hash 7) 4 3))"
  by code_simp+

lemma compact_demo_runs:
  "compact_demo (Inr ()) two_slices = Some (Inr (CompactionSuccess (demo_hash 0) (demo_hash 6) 4 3), compacted two_slices)"
  "compact_demo (Inr ()) moved_watermark =
     Some (Inr (CompactionSuccess (demo_hash 0) (demo_hash 7) 4 3), compacted moved_watermark)"
  using compact_demo_results [THEN map_fst_snd] by (simp_all add: compacted_def)

lemma compact_demo_sound:
  "compact_dataset_sound demo_externs table_codec demo_dataset_externs demo_merge demo_clock default_compaction_options two_slices"
  "compact_dataset_sound demo_externs table_codec demo_dataset_externs demo_merge demo_clock default_compaction_options moved_watermark"
  by code_simp+


text \<open>A run that fails when the files are merged.\<close>

definition full_disk :: "string \<Rightarrow> bytes list \<Rightarrow> string + bytes" where
  "full_disk column files = Inl ''no space left on device''"

definition failing_demo :: "((compaction_error, compaction_result) res \<times> dataset) option" where
  "failing_demo =
     compact_dataset demo_externs table_codec demo_dataset_externs full_disk demo_clock (Inr ()) demo_handle
       default_compaction_options two_slices"

lemma failing_demo_runs:
  "failing_demo = Some (Inl (Fail (CompactionInternal ''no space left on device'')), snd (the failing_demo))"
  "compact_dataset_sound demo_externs table_codec demo_dataset_externs full_disk demo_clock default_compaction_options two_slices"
proof -
  have "map_option fst failing_demo = Some (Inl (Fail (CompactionInternal ''no space left on device'')))" by code_simp
  then show "failing_demo = Some (Inl (Fail (CompactionInternal ''no space left on device'')), snd (the failing_demo))"
    by (rule map_fst_snd)
  show "compact_dataset_sound demo_externs table_codec demo_dataset_externs full_disk demo_clock default_compaction_options two_slices"
    by code_simp
qed

end
