(* ===== verification/Compaction_Claims.thy ===== *)
theory Compaction_Claims
  imports Compaction_Demo
begin

text \<open>
  The properties of compaction: what a successful run leaves of the dataset, that any other run
  leaves the head where it was, and one case in which a run forgets a block.
\<close>

section \<open>Chains\<close>

lemma chain_at_seed: "chain_at get h bs \<Longrightarrow> chain_at get (fst (last bs)) [last bs]"
  by (induction rule: chain_at.induct) (auto simp: chain_at_nonempty intro: chain_root)

lemma reachable_valid:
  assumes "chain_reachable x cd c" and "externs_ok x" and "chain_resolve_ref x c Head = Inr h"
    and "chain_at (chain_get_block cd c) h bs"
  shows "valid_chain (map snd bs)"
  using reachable_head [OF assms(1-3)] chain_at_unique [OF assms(4)] by blast

lemma chain_last_seed: "valid_chain (map snd bs) \<Longrightarrow> bs \<noteq> [] \<Longrightarrow> is_Seed (event (snd (last bs)))"
  by (induction bs) (auto simp: valid_next_def)

section \<open>Plans grow at their end\<close>

lemma append_batch_prefix:
  "append_add_data_batch_to_chain_info hash info batches = Inr (a, batches') \<Longrightarrow> \<exists>more. batches' = batches @ more"
  by (auto simp: append_add_data_batch_to_chain_info_def res_simps split: if_splits)

lemma gather_step_prefix:
  assumes "gather_step keep max_size max_records hb g = Inr g'"
  shows "\<exists>more. gth_batches g' = gth_batches g @ more"
  using assms
  by (auto simp: gather_step_def gather_other_def gather_add_data_def take_slice_def Let_def res_simps
      split: metadata_event.splits option.splits if_splits dest!: append_batch_prefix)

lemma gather_blocks_prefix:
  "(gather_blocks keep max_size max_records hbs g :: ('e, gather_state) res) = Inr g' \<Longrightarrow> \<exists>more. gth_batches g' = gth_batches g @ more"
proof (induction hbs arbitrary: g)
  case (Cons hb hbs)
  then obtain g1 where "(gather_step keep max_size max_records hb g :: ('e, gather_state) res) = Inr g1"
    "(gather_blocks keep max_size max_records hbs g1 :: ('e, gather_state) res) = Inr g'" by (auto simp: res_simps)
  with Cons.IH gather_step_prefix show ?case by fastforce
qed simp

text \<open>A block without data above a single block with data leaves no trace in the plan.\<close>

lemma gather_dataless:
  assumes ev: "event b2 = AddData e2" "ad_new_data e2 = None" "event b1 = AddData e1" "ad_new_data e1 = Some sl"
      "kept_event (event c)"
    and run: "(gather_blocks False max_size max_records ((h2, b2) # (h1, b1) # (k, c) # rest) initial_gather_state
      :: ('e, gather_state) res) = Inr g"
  shows "\<exists>more. gth_batches g = SingleBlock h1 # more"
proof -
  from run obtain g2 g1 g0 where steps:
    "(gather_step False max_size max_records (h2, b2) initial_gather_state :: ('e, gather_state) res) = Inr g2"
    "(gather_step False max_size max_records (h1, b1) g2 :: ('e, gather_state) res) = Inr g1"
    "(gather_step False max_size max_records (k, c) g1 :: ('e, gather_state) res) = Inr g0"
    "(gather_blocks False max_size max_records rest g0 :: ('e, gather_state) res) = Inr g"
    by (auto simp: res_simps)
  have g2: "gth_batches g2 = []" "bi_data_slices_batch (gth_info g2) = []"
    using steps(1) ev by (auto simp: gather_step_def gather_add_data_def initial_gather_state_def default_batch_info_def
        set_upper_bound_def)
  have g1: "gth_batches g1 = []" "bi_data_slices_batch (gth_info g1) = [ds_physical_hash sl]" "gth_current_hash g1 = Some h1"
    using steps(2) ev g2
    by (auto simp: gather_step_def gather_add_data_def take_slice_def append_add_data_batch_to_chain_info_def Let_def
        res_simps split: if_splits)
  have "gth_batches g0 = [SingleBlock h1, SingleBlock k]"
    using steps(3) ev(5) g1
    by (cases "event c") (auto simp: gather_step_def gather_other_def kept_event_def unwrap_def
        append_add_data_batch_to_chain_info_def res_simps)
  with gather_blocks_prefix [OF steps(4)] show ?thesis by auto
qed

text \<open>
  Blocks of executed transforms leave no trace in the plan of a compaction that keeps data, with or without a slice: the plan is
  that of the chain without them.
\<close>

lemma take_slice_num:
  "take_slice max_size max_records sl (g\<lparr>gth_old_num_blocks := n\<rparr>) =
     (map_sum (\<lambda>f. f) (\<lambda>r. r\<lparr>gth_old_num_blocks := n\<rparr>) (take_slice max_size max_records sl g) :: ('e, gather_state) res)"
  by (auto simp: take_slice_def Let_def and_then_def split: sum.split)

lemma gather_other_num:
  "gather_other h (g\<lparr>gth_old_num_blocks := n\<rparr>) =
     (map_sum (\<lambda>f. f) (\<lambda>r. r\<lparr>gth_old_num_blocks := n\<rparr>) (gather_other h g) :: ('e, gather_state) res)"
  by (auto simp: gather_other_def and_then_def split: sum.split)

lemma gather_add_data_num:
  "gather_add_data keep max_size max_records h e (g\<lparr>gth_old_num_blocks := n\<rparr>) =
     (map_sum (\<lambda>f. f) (\<lambda>r. r\<lparr>gth_old_num_blocks := n\<rparr>) (gather_add_data keep max_size max_records h e g) :: ('e, gather_state) res)"
proof (cases "ad_new_data e")
  case (Some sl)
  then show ?thesis
    by (cases "take_slice max_size max_records sl g :: ('e, gather_state) res")
      (simp_all add: gather_add_data_def take_slice_num set_lower_bound_def set_upper_bound_def and_then_def)
qed (simp add: gather_add_data_def set_upper_bound_def and_then_def)

lemma gather_step_num:
  "gather_step keep max_size max_records hb (g\<lparr>gth_old_num_blocks := n\<rparr>) =
     (map_sum (\<lambda>f. f) (\<lambda>r. r\<lparr>gth_old_num_blocks := n + 1\<rparr>) (gather_step keep max_size max_records hb g) :: ('e, gather_state) res)"
proof (cases "event (snd hb)")
  case (SetVocab v)
  have "(gather_other (fst hb) (g\<lparr>gth_old_num_blocks := k, gth_vocab_event := Some v\<rparr>) :: ('e, gather_state) res) =
      map_sum (\<lambda>f. f) (\<lambda>r. r\<lparr>gth_old_num_blocks := k\<rparr>) (gather_other (fst hb) (g\<lparr>gth_vocab_event := Some v\<rparr>))" for k
    using gather_other_num [of "fst hb" k "g\<lparr>gth_vocab_event := Some v\<rparr>"] by (cases g) simp
  then show ?thesis using SetVocab by (simp add: gather_step_def sum.map_comp comp_def)
qed (simp_all add: gather_step_def Let_def gather_other_num gather_add_data_num sum.map_comp comp_def)

lemma gather_skips_transforms:
  "map_sum (\<lambda>f. f) gth_batches (gather_blocks keep max_size max_records hbs g) =
     (map_sum (\<lambda>f. f) gth_batches (gather_blocks keep max_size max_records
        (filter (\<lambda>hb. \<not> is_ExecuteTransform (event (snd hb))) hbs) (g\<lparr>gth_old_num_blocks := n\<rparr>))
      :: ('e, data_slice_batch list) res)"
proof (induction hbs arbitrary: g n)
  case (Cons hb hbs)
  show ?case
  proof (cases "is_ExecuteTransform (event (snd hb))")
    case True
    then have "gather_step keep max_size max_records hb g =
        (Inr (g\<lparr>gth_old_num_blocks := gth_old_num_blocks g + 1\<rparr>) :: ('e, gather_state) res)"
      by (cases "event (snd hb)") (simp_all add: gather_step_def)
    then show ?thesis using True Cons.IH [of "g\<lparr>gth_old_num_blocks := gth_old_num_blocks g + 1\<rparr>" n]
      by (simp add: and_then_def)
  next
    case False
    then show ?thesis using Cons.IH
      by (cases "gather_step keep max_size max_records hb g :: ('e, gather_state) res")
        (simp_all add: gather_step_num and_then_def)
  qed
qed simp

section \<open>Files\<close>

text \<open>
  A data file of the new chain is the one file of its group \<open>g\<close> of the old chain, or the result of merging the
  contents of the group; the new chain refers to it by its hash and it is stored.
\<close>

definition compacted_file ::
  "externs \<Rightarrow> (string \<Rightarrow> bytes list \<Rightarrow> string + bytes) \<Rightarrow> string \<Rightarrow> object_repo \<Rightarrow> object_repo \<Rightarrow> multihash list \<Rightarrow> multihash \<Rightarrow> bool" where
  "compacted_file x merge column r r' g f \<longleftrightarrow> g = [f]
     \<or> (\<exists>files file. read_slices r g = Some files \<and> merge column files = Inr file
          \<and> get_file_physical_hash x file = Inr f \<and> f \<in> dom r')"

definition files_compacted ::
  "externs \<Rightarrow> (string \<Rightarrow> bytes list \<Rightarrow> string + bytes) \<Rightarrow> object_repo \<Rightarrow> object_repo \<Rightarrow> multihash list \<Rightarrow> multihash list \<Rightarrow> bool" where
  "files_compacted x merge r r' new old \<longleftrightarrow>
     (\<exists>column groups. concat groups = old \<and> [] \<notin> set groups \<and> list_all2 (compacted_file x merge column r r') groups new)"

lemma committed_batch_file:
  assumes "merged_batch merge r column plan batch" and "batch_block x r' get' batch b" and "batch_known get plan" and "merges_some plan"
    and keep: "\<And>k a. get k = Inr a \<Longrightarrow> get' k = Inr a"
  shows "case added_file b of None \<Rightarrow> batch_files get plan = []
    | Some f \<Rightarrow> batch_files get plan \<noteq> [] \<and> compacted_file x merge column r r' (batch_files get plan) f"
proof (cases plan)
  case (SingleBlock h)
  then obtain old where old: "get h = Inr old" using assms(3) by auto
  then have "event b = event old" using assms(1,2) SingleBlock keep [OF old] by auto
  then have "added_file b = added_file old" by (simp add: added_file_def)
  then show ?thesis using SingleBlock old by (simp add: compacted_file_def split: option.split)
next
  case (CompactedBatch info)
  then show ?thesis using assms(1,2,4)
    by (auto simp: added_file_def add_data_event_def compacted_file_def)
qed

lemma concat_nonempty: "concat (filter (\<lambda>g. g \<noteq> []) gs) = concat gs"
  by (induction gs) auto

lemma committed_files:
  assumes "list_all2 (merged_batch merge r column) plan batches" and "list_all2 (batch_block x r' get') batches bs"
    and "list_all (batch_known get) plan" and "list_all merges_some plan" and keep: "\<And>k a. get k = Inr a \<Longrightarrow> get' k = Inr a"
  shows "list_all2 (compacted_file x merge column r r') (filter (\<lambda>g. g \<noteq> []) (map (batch_files get) plan)) (List.map_filter added_file bs)"
  using assms(1-4)
proof (induction plan arbitrary: batches bs)
  case Nil
  then show ?case by (auto simp: map_filter_simps)
next
  case (Cons p plan)
  then obtain batch batches' b bs' where split: "batches = batch # batches'" "bs = b # bs'" "merged_batch merge r column p batch"
    "batch_block x r' get' batch b" by (auto simp: list_all2_Cons1)
  from committed_batch_file [OF split(3,4) _ _ keep] Cons.prems(3,4) Cons.IH [of batches' bs'] Cons.prems(1,2) split(1,2)
  show ?case by (auto simp: map_filter_simps split: option.splits)
qed

section \<open>Properties\<close>

lemma seed_carries_nothing:
  assumes "valid_chain (map snd bs)" and "bs \<noteq> []"
  shows "block_slice (snd (last bs)) = None" "kept_events [snd (last bs)] = []" "added_file (snd (last bs)) = None"
  using chain_last_seed [OF assms] by (auto simp: block_slice_def kept_events_def kept_event_def added_file_def is_Seed_def)

lemma plan_files_compacted:
  assumes "list_all2 (merged_batch merge r column) plan batches" and "list_all2 (batch_block x r' get') batches bs"
    and "list_all (batch_known get) plan" and "list_all merges_some plan" and keep: "\<And>k a. get k = Inr a \<Longrightarrow> get' k = Inr a"
  shows "files_compacted x merge r r' (List.map_filter added_file bs) (plan_files get plan)"
  unfolding files_compacted_def plan_files_def using committed_files [OF assms]
  by (intro exI [of _ column] exI [of _ "filter (\<lambda>g. g \<noteq> []) (map (batch_files get) plan)"]) (simp add: concat_nonempty)

lemma compact_impl_preserves:
  assumes run: "compact_dataset_impl x cd dx merge clock max_size max_records keep d =
      Some (Inr (CompactionSuccess old_head new_head num new_num), d')"
    and sound: "compaction_sound x cd dx merge clock max_size max_records keep d"
    and ok: "externs_ok x" and reach: "chain_reachable x cd (dset_chain d)"
    and head: "chain_resolve_ref x (dset_chain d) Head = Inr h" and chain: "chain_at (chain_get_block cd (dset_chain d)) h bs"
    and transforms: "keep \<or> (\<forall>b \<in> set bs. \<not> is_ExecuteTransform (event (snd b)))"
  shows "\<exists>bs'. chain_resolve_ref x (dset_chain d') Head = Inr new_head
    \<and> chain_at (chain_get_block cd (dset_chain d')) new_head bs' \<and> valid_chain (map snd bs')
    \<and> coarsens (slices (map snd bs')) (carried keep (map snd bs))
    \<and> files_compacted x merge (dset_data_repo d) (dset_data_repo d') (List.map_filter added_file (map snd bs'))
        (carried_files keep (map snd bs))
    \<and> kept_events (map snd bs') = kept_events (map snd bs)
    \<and> last bs' = last bs \<and> fst (last bs) = old_head \<and> num = length bs \<and> new_num = length bs'"
proof -
  let ?get = "chain_get_block cd (dset_chain d)"
  note valid = reachable_valid [OF reach ok head chain]
  note last = seed_carries_nothing [OF valid chain_at_nonempty [OF chain]]
  from gather_chain_info_plan [OF head chain valid transforms, of max_size max_records] obtain info where info:
    "gather_chain_info x cd d max_size max_records keep = Some (Inr info)"
    "cfi_old_head info = fst (last bs)" "cfi_old_num_blocks info = length bs"
    "coarsens (List.map_filter (batch_slice ?get) (cfi_data_slice_batches info)) (carried keep (map snd bs))"
    "List.map_filter (batch_kept ?get) (cfi_data_slice_batches info) = kept_events (map snd bs)"
    "list_all (batch_known ?get) (cfi_data_slice_batches info)"
    "plan_files ?get (cfi_data_slice_batches info) = carried_files keep (map snd bs)"
    "list_all merges_some (cfi_data_slice_batches info)" by blast
  have seed: "chain_at ?get (cfi_old_head info) [last bs]" using chain_at_seed [OF chain] info(2) by simp
  from compact_impl_success [OF run sound ok reach info(1) seed] obtain new batches where new:
    "chain_resolve_ref x (dset_chain d') Head = Inr new_head"
    "chain_at (chain_get_block cd (dset_chain d')) new_head (new @ [last bs])"
    "list_all2 (merged_batch merge (dset_data_repo d) (cfi_offset_column info)) (cfi_data_slice_batches info) batches"
    "list_all2 (batch_block x (dset_data_repo d') (chain_get_block cd (dset_chain d'))) batches (map snd new)"
    "old_head = cfi_old_head info" "num = cfi_old_num_blocks info" "new_num = 1 + length new" by blast
  have keeps: "contents_kept cd d d'" "chain_reachable x cd (dset_chain d')"
    using compact_impl_keeps [OF run sound ok reach] by blast+
  then have get: "?get k = Inr b \<Longrightarrow> chain_get_block cd (dset_chain d') k = Inr b" for k b by (simp add: contents_kept_def)
  have known: "list_all (batch_known ?get) batches" using info(6) merged_plan_same(3) [OF new(3)] by simp
  note plan = committed_plan [OF new(4) known get]
  have "files_compacted x merge (dset_data_repo d) (dset_data_repo d') (List.map_filter added_file (map snd (new @ [last bs])))
      (carried_files keep (map snd bs))"
    using plan_files_compacted [OF new(3,4) info(6,8) get] info(7) last(3) by simp
  moreover have "coarsens (slices (map snd (new @ [last bs]))) (carried keep (map snd bs))"
    using info(4) plan(1) last(1) merged_plan_same(1) [OF new(3)] by simp
  moreover have "kept_events (map snd (new @ [last bs])) = kept_events (map snd bs)"
    using info(5) plan(2) last(2) merged_plan_same(2) [OF new(3)] by simp
  ultimately show ?thesis
    using new info(2,3) reachable_valid [OF keeps(2) ok new(1,2)] by (intro exI [of _ "new @ [last bs]"]) simp
qed

text \<open>
  C9. A successful compaction leaves a valid chain under the head that it reports, on the same seed. The offset
  intervals of its slices are those of the old chain, in order, with neighbours merged; its data files are those of the
  old chain, in order, each one as it was or as the result of merging the contents of a run of neighbours, named by its
  hash and stored (there are no slices and files when only the metadata is kept); and every event that
  is neither data nor a transform is there, in the same order. The result counts the blocks of both chains. When data is
  kept, the old chain is assumed to have no \<open>ExecuteTransform\<close>: compaction passes over such blocks, which the validators do
  not forbid in a root dataset (\<open>gather_skips_transforms\<close>). How the contents of files are merged is the query, a parameter.
\<close>
theorem compaction_preserves_data:
  assumes "dataset_reachable x cd dx strict d" and "externs_ok x" and "summary_yaml_ok dx"
    and "chain_resolve_ref x (dset_chain d) Head = Inr h" and "chain_at (chain_get_block cd (dset_chain d)) h bs"
    and "cpo_keep_metadata_only opts \<or> (\<forall>b \<in> set bs. \<not> is_ExecuteTransform (event (snd b)))"
    and "compact_dataset_sound x cd dx merge clock opts d"
    and "compact_dataset x cd dx merge clock authorized handle opts d =
      Some (Inr (CompactionSuccess old_head new_head num new_num), d')"
  shows "\<exists>bs'. chain_resolve_ref x (dset_chain d') Head = Inr new_head
    \<and> chain_at (chain_get_block cd (dset_chain d')) new_head bs' \<and> valid_chain (map snd bs')
    \<and> coarsens (slices (map snd bs')) (if cpo_keep_metadata_only opts then [] else slices (map snd bs))
    \<and> files_compacted x merge (dset_data_repo d) (dset_data_repo d') (List.map_filter added_file (map snd bs'))
        (if cpo_keep_metadata_only opts then [] else List.map_filter added_file (map snd bs))
    \<and> kept_events (map snd bs') = kept_events (map snd bs)
    \<and> last bs' = last bs \<and> fst (last bs) = old_head \<and> num = length bs \<and> new_num = length bs'"
proof -
  from dataset_reachable_inv [OF assms(1-3)] have inv: "dataset_inv x cd dx d" .
  then have reach: "chain_reachable x cd (dset_chain d)" by (simp add: dataset_inv_def)
  from assms(8,7) inv assms(2,3) show ?thesis
  proof (cases rule: compact_dataset_cases)
    case (ran d1 max_size max_records)
    from compact_impl_preserves [OF ran(4,5) assms(2), of h bs] reach assms(4-6) ran(1,2) show ?thesis
      by (simp add: carried_def carried_files_def)
  qed simp_all
qed

theorem compaction_preserves_data_witness:
  "\<exists>bs'. chain_resolve_ref demo_externs (dset_chain (compacted two_slices)) Head = Inr (demo_hash 6)
    \<and> chain_at (chain_get_block table_codec (dset_chain (compacted two_slices))) (demo_hash 6) bs'
    \<and> valid_chain (map snd bs') \<and> coarsens (slices (map snd bs')) [\<lparr>oi_start = 10, oi_end = 19\<rparr>, \<lparr>oi_start = 0, oi_end = 9\<rparr>]
    \<and> kept_events (map snd bs') = [event demo_schema] \<and> length bs' = 3"
proof -
  have keep: "\<not> cpo_keep_metadata_only default_compaction_options" by (simp add: default_compaction_options_def)
  have chain: "slices (map snd (plain_chain 3 demo_second)) = [\<lparr>oi_start = 10, oi_end = 19\<rparr>, \<lparr>oi_start = 0, oi_end = 9\<rparr>]"
    "kept_events (map snd (plain_chain 3 demo_second)) = [event demo_schema]"
    "list_all (\<lambda>b. \<not> is_ExecuteTransform (event (snd b))) (plain_chain 3 demo_second)"
    by code_simp+
  from chain(3) have none: "cpo_keep_metadata_only default_compaction_options
      \<or> (\<forall>b \<in> set (plain_chain 3 demo_second). \<not> is_ExecuteTransform (event (snd b)))" by (simp add: list_all_iff)
  from compaction_preserves_data [OF plain_reachable(1) demo_externs_ok demo_yaml_ok plain_reads(3) plain_chain_at(1) none
      compact_demo_sound(1) compact_demo_runs(1) [unfolded compact_demo_def]]
  show ?thesis unfolding chain(1,2) if_not_P [OF keep] by (elim exE conjE) (intro exI conjI, assumption+, simp)
qed

text \<open>
  C10. A compaction that ends in any other way than success, refused, with nothing to do or failing
  at any stage, leaves the head where it was; whatever its outcome, every block, data file and checkpoint
  that was stored still is, and the chain stays one that validated appends can build.
\<close>
theorem compaction_failure_keeps_head:
  assumes "dataset_reachable x cd dx strict d" and "externs_ok x" and "summary_yaml_ok dx"
    and "compact_dataset_sound x cd dx merge clock opts d"
    and "compact_dataset x cd dx merge clock authorized handle opts d = Some (r, d')"
  shows "((\<forall>oh nh n m. r \<noteq> Inr (CompactionSuccess oh nh n m)) \<longrightarrow>
      chain_resolve_ref x (dset_chain d') Head = chain_resolve_ref x (dset_chain d) Head)
    \<and> (\<forall>k b. chain_get_block cd (dset_chain d) k = Inr b \<longrightarrow> chain_get_block cd (dset_chain d') k = Inr b)
    \<and> dset_data_repo d \<subseteq>\<^sub>m dset_data_repo d' \<and> dset_checkpoint_repo d \<subseteq>\<^sub>m dset_checkpoint_repo d'
    \<and> chain_reachable x cd (dset_chain d')"
proof -
  from dataset_reachable_inv [OF assms(1-3)] have inv: "dataset_inv x cd dx d" .
  then have reach: "chain_reachable x cd (dset_chain d)" by (simp add: dataset_inv_def)
  from assms(5,4) inv assms(2,3) show ?thesis
  proof (cases rule: compact_dataset_cases)
    case (ran d1 max_size max_records)
    with compact_impl_keeps [OF ran(4,5) assms(2)] reach show ?thesis by (auto simp: contents_kept_def)
  qed (use reach in simp_all)
qed

theorem compaction_failure_keeps_head_witness:
  "chain_resolve_ref demo_externs (dset_chain (snd (the failing_demo))) Head = Inr (demo_hash 3)
    \<and> chain_get_block table_codec (dset_chain (snd (the failing_demo))) (demo_hash 2) = Inr (demo_table ! 2)
    \<and> chain_reachable demo_externs table_codec (dset_chain (snd (the failing_demo)))"
  using compaction_failure_keeps_head [OF plain_reachable(1) demo_externs_ok demo_yaml_ok failing_demo_runs(2)
      failing_demo_runs(1) [unfolded failing_demo_def]] plain_reads(1,3)
  by (simp add: failing_demo_def)

text \<open>
  C38. A block at the head that adds no slice, but a new watermark, source state or checkpoint, is forgotten by a
  compaction that keeps data, if the block below it adds a slice and the one below that is neither data, a
  transform nor the seed: after a successful run the latest data event of the dataset is the one below
  the old head, for any chain further down that has no transforms.
\<close>
theorem compaction_drops_dataless_block:
  assumes "dataset_reachable x cd dx strict d" and "externs_ok x" and "summary_yaml_ok dx"
    and "chain_resolve_ref x (dset_chain d) Head = Inr h2"
    and "chain_at (chain_get_block cd (dset_chain d)) h2 ((h2, b2) # (h1, b1) # (k, c) # rest)"
    and "event b2 = AddData e2" and "ad_new_data e2 = None" and "event b1 = AddData e1" and "ad_new_data e1 = Some sl"
    and "kept_event (event c)" and "\<forall>b \<in> set rest. \<not> is_ExecuteTransform (event (snd b))"
    and "\<not> cpo_keep_metadata_only opts" and "compact_dataset_sound x cd dx merge clock opts d"
    and "compact_dataset x cd dx merge clock authorized handle opts d =
      Some (Inr (CompactionSuccess old_head new_head num new_num), d')"
  shows "\<exists>bs'. chain_resolve_ref x (dset_chain d') Head = Inr new_head
    \<and> chain_at (chain_get_block cd (dset_chain d')) new_head bs' \<and> last_event as_AddData (map snd bs') = Some e1"
proof -
  let ?bs = "(h2, b2) # (h1, b1) # (k, c) # rest"
  from dataset_reachable_inv [OF assms(1-3)] have inv: "dataset_inv x cd dx d" .
  then have reach: "chain_reachable x cd (dset_chain d)" by (simp add: dataset_inv_def)
  note valid = reachable_valid [OF reach assms(2,4,5)]
  from assms(14,13) inv assms(2,3) show ?thesis
  proof (cases rule: compact_dataset_cases)
    case (ran d1 max_size max_records)
    have transforms: "\<forall>b \<in> set ?bs. \<not> is_ExecuteTransform (event (snd b))"
      using assms(6,8,10,11) by (auto simp: kept_event_def)
    from gather_chain_info_plan [of x d1 h2 cd ?bs False max_size max_records] assms(4,5) valid ran(1) transforms
    obtain info where info: "gather_chain_info x cd d1 max_size max_records False = Some (Inr info)"
      "cfi_old_head info = fst (last ?bs)" by auto
    have "iter_blocks_interval cd (dset_chain d1) h2 None False = Some (?bs, None)"
      using iter_loop_chain [OF assms(5), of None] ran(1) by (simp add: iter_blocks_interval_def)
    with info(1) assms(4) ran(1) have "\<exists>g. gather_blocks False max_size max_records ?bs initial_gather_state =
        (Inr g :: (compaction_error, gather_state) res) \<and> cfi_data_slice_batches info = gth_batches g"
      by (auto simp: gather_chain_info_def res_simps simp del: gather_blocks.simps)
    with gather_dataless [OF assms(6-10)] obtain more where plan: "cfi_data_slice_batches info = SingleBlock h1 # more"
      by metis
    have reach1: "chain_reachable x cd (dset_chain d1)" using reach ran(1) by simp
    have seed: "chain_at (chain_get_block cd (dset_chain d1)) (cfi_old_head info) [last ?bs]"
      using chain_at_seed [OF assms(5)] info(2) ran(1) by simp
    note keep = assms(12)
    from compact_impl_success [OF ran(4,5) assms(2) reach1 _ seed] info(1) keep obtain new batches where new:
      "chain_resolve_ref x (dset_chain d') Head = Inr new_head"
      "chain_at (chain_get_block cd (dset_chain d')) new_head (new @ [last ?bs])"
      "list_all2 (merged_batch merge (dset_data_repo d1) (cfi_offset_column info)) (cfi_data_slice_batches info) batches"
      "list_all2 (batch_block x (dset_data_repo d') (chain_get_block cd (dset_chain d'))) batches (map snd new)" by auto
    from new(3,4) plan obtain b bs' where b: "map snd new = b # bs'"
      "batch_block x (dset_data_repo d') (chain_get_block cd (dset_chain d')) (SingleBlock h1) b"
      by (auto simp: list_all2_Cons1)
    have "chain_get_block cd (dset_chain d') h1 = Inr b1"
      using compact_impl_keeps [OF ran(4,5) assms(2) reach1] chain_at_get [OF assms(5), of h1 b1] ran(1)
      by (auto simp: contents_kept_def)
    with b(2) assms(8) have "event b = AddData e1" by simp
    with b(1) have "last_event as_AddData (map snd (new @ [last ?bs])) = Some e1" by simp
    with new(1,2) show ?thesis by blast
  qed simp_all
qed

theorem compaction_drops_dataless_block_witness:
  "\<exists>bs' e. chain_resolve_ref demo_externs (dset_chain (compacted moved_watermark)) Head = Inr (demo_hash 7)
    \<and> chain_at (chain_get_block table_codec (dset_chain (compacted moved_watermark))) (demo_hash 7) bs'
    \<and> last_event as_AddData (map snd bs') = Some e \<and> ad_new_watermark e = Some 90
    \<and> map_option ad_new_watermark (last_event as_AddData (map snd (plain_chain 4 demo_watermark))) = Some (Some 99)"
proof -
  obtain e1 e2 where ev: "demo_watermark = AddData e2" "ad_new_data e2 = None" "demo_first = AddData e1"
    "ad_new_data e1 = Some (demo_slice [1] 0 9)" "ad_new_watermark e1 = Some 90"
    by (simp add: demo_watermark_def demo_first_def demo_add_def)
  have blocks: "event (demo_block t n m e) = e" for t n m e by (simp add: demo_block_def)
  have other: "kept_event (event demo_schema)" "\<not> cpo_keep_metadata_only default_compaction_options"
    by (simp_all add: kept_event_def demo_schema_def default_compaction_options_def)
  have rest: "\<forall>b \<in> set [(demo_hash 0, demo_seed)]. \<not> is_ExecuteTransform (event (snd b))" by (simp add: demo_seed_def)
  note run = compaction_drops_dataless_block [OF plain_reachable(2) demo_externs_ok demo_yaml_ok plain_reads(4)
      plain_chain_at(2) [unfolded plain_chain_def], unfolded blocks, OF ev(1-4) other(1) rest other(2) compact_demo_sound(2)
      compact_demo_runs(2) [unfolded compact_demo_def]]
  have "map_option ad_new_watermark (last_event as_AddData (map snd (plain_chain 4 demo_watermark))) = Some (Some 99)"
    by code_simp
  with run ev(5) show ?thesis by blast
qed

end
