(* ===== verification/Dids.thy ===== *)
theory Dids
  imports Odf_Metadata Externs_Instance
begin

text \<open>
  Decentralized identifiers: the \<open>did:key\<close> method (\<open>utils/multiformats/src/did_key.rs\<close>), the
  \<open>did:odf\<close> method over it (\<open>opendatafabric/src/formats/did_odf.rs\<close>), and the identifiers of datasets
  and accounts (\<open>identity/dataset_id.rs\<close>, \<open>account_id.rs\<close>), which wrap the latter. Strings are their
  UTF-8 bytes. Generating keys is left out.
\<close>

section \<open>Buffers\<close>

definition MAX_DID_KEY_LEN :: nat where "MAX_DID_KEY_LEN = 32"

definition MAX_DID_BINARY_REPR_LEN :: nat where
  "MAX_DID_BINARY_REPR_LEN = MAX_VARINT_LEN + MAX_DID_KEY_LEN"

definition MAX_DID_MULTIBASE_REPR_LEN :: nat where
  "MAX_DID_MULTIBASE_REPR_LEN = 1 + MAX_DID_BINARY_REPR_LEN * 2"

definition ascii :: "string \<Rightarrow> u8 list" where
  "ascii s = map of_char s"

definition MAX_DID_CANONICAL_STRING_REPR_LEN :: nat where
  "MAX_DID_CANONICAL_STRING_REPR_LEN = length (ascii ''did:key:'') + MAX_DID_MULTIBASE_REPR_LEN"

lemmas did_len_defs =
  MAX_DID_KEY_LEN_def MAX_DID_BINARY_REPR_LEN_def MAX_DID_MULTIBASE_REPR_LEN_def
  MAX_DID_CANONICAL_STRING_REPR_LEN_def MAX_VARINT_LEN_def

section \<open>The key method\<close>

datatype did_key = DidKey (did_public_key: "u8 list")

datatype did_key_error = UnsupportedKeyType multicodec

definition did_key_new :: "multicodec \<Rightarrow> u8 list \<Rightarrow> (did_key_error, did_key) res" where
  "did_key_new key_type public_key =
     (if key_type \<noteq> Ed25519Pub then Inl (Fail (UnsupportedKeyType key_type))
      else if length public_key \<noteq> MAX_DID_KEY_LEN
      then Inl (Panic ''assertion failed: Ed25519Pub key expects 32 bytes'')
      else Inr (DidKey public_key))"

text \<open>\<open>DidKeyBytes::new\<close> writes into a fixed buffer and unwraps each write.\<close>

definition did_key_as_bytes :: "externs \<Rightarrow> did_key \<Rightarrow> (unit, u8 list) res" where
  "did_key_as_bytes x d =
     (let bytes = uvar_encode_u32 x (multicodec_code Ed25519Pub) @ did_public_key d
      in if length bytes > MAX_DID_BINARY_REPR_LEN then Inl (Panic ''failed to write whole buffer'')
         else Inr bytes)"

text \<open>The sources of a \<open>DeserializeError\<close> and of a \<open>ParseError\<close>, which also names the string.\<close>

datatype did_deserialize_error =
    DidVarint
  | DidUnsupportedCode u32
  | DidKeyInvalid did_key_error

datatype did_parse_source =
    DidBase multibase_error
  | DidDeserialize did_deserialize_error
  | DidNested did_parse_error
and did_parse_error = DidParseError "u8 list" "did_parse_source option"

definition did_key_from_bytes :: "externs \<Rightarrow> u8 list \<Rightarrow> (did_deserialize_error, did_key) res" where
  "did_key_from_bytes x bytes =
     (case uvar_decode_u32 x bytes of
        None \<Rightarrow> Inl (Fail DidVarint)
      | Some (key_type, key_bytes) \<Rightarrow>
          (case multicodec_try_from_u32 key_type of
             Inl c \<Rightarrow> Inl (Fail (DidUnsupportedCode c))
           | Inr key_type \<Rightarrow> map_err (map_fault DidKeyInvalid) (did_key_new key_type key_bytes)))"

definition did_key_from_multibase :: "externs \<Rightarrow> u8 list \<Rightarrow> (did_parse_error, did_key) res" where
  "did_key_from_multibase x s =
     and_then (map_err (map_fault (\<lambda>e. DidParseError s (Some (DidBase e))))
       (multibase_decode x s (MAX_VARINT_LEN + MAX_DID_KEY_LEN))) (\<lambda>bytes.
       map_err (map_fault (\<lambda>e. DidParseError s (Some (DidDeserialize e)))) (did_key_from_bytes x bytes))"

text \<open>\<open>starts_with\<close>, then the rest of the string.\<close>

definition strip_prefix :: "u8 list \<Rightarrow> u8 list \<Rightarrow> u8 list option" where
  "strip_prefix p s = (if take (length p) s = p then Some (drop (length p) s) else None)"

definition did_key_from_did_str :: "externs \<Rightarrow> u8 list \<Rightarrow> (did_parse_error, did_key) res" where
  "did_key_from_did_str x s =
     (case strip_prefix (ascii ''did:key:'') s of
        None \<Rightarrow> Inl (Fail (DidParseError s None))
      | Some rest \<Rightarrow> map_err (map_fault (\<lambda>e. DidParseError s (Some (DidNested e)))) (did_key_from_multibase x rest))"

text \<open>\<open>DidKeyMultibaseFmt\<close> with an encoding.\<close>

definition did_key_multibase :: "externs \<Rightarrow> multibase \<Rightarrow> did_key \<Rightarrow> (unit, u8 list) res" where
  "did_key_multibase x encoding d =
     and_then (did_key_as_bytes x d) (\<lambda>bytes. multibase_encode x MAX_DID_MULTIBASE_REPR_LEN bytes encoding)"

text \<open>\<open>to_stack_string\<close>: the formatted string in a fixed buffer.\<close>

definition did_stack_string :: "u8 list \<Rightarrow> (unit, u8 list) res" where
  "did_stack_string s =
     (if length s > MAX_DID_CANONICAL_STRING_REPR_LEN then Inl (Panic ''failed to write whole buffer'') else Inr s)"

definition did_key_as_did_str :: "externs \<Rightarrow> did_key \<Rightarrow> (unit, u8 list) res" where
  "did_key_as_did_str x d =
     and_then (did_key_multibase x Base58Btc d) (\<lambda>s. did_stack_string (ascii ''did:key:'' @ s))"

section \<open>The ODF method\<close>

datatype did_odf = DidOdf (did_odf_key: did_key)

definition did_odf_from_bytes :: "externs \<Rightarrow> u8 list \<Rightarrow> (did_deserialize_error, did_odf) res" where
  "did_odf_from_bytes x bytes = and_then (did_key_from_bytes x bytes) (\<lambda>d. Inr (DidOdf d))"

definition did_odf_as_bytes :: "externs \<Rightarrow> did_odf \<Rightarrow> (unit, u8 list) res" where
  "did_odf_as_bytes x d = did_key_as_bytes x (did_odf_key d)"

text \<open>\<open>e.source.unwrap()\<close> of the error of the wrapped identifier.\<close>

fun did_error_source :: "u8 list \<Rightarrow> did_parse_error fault \<Rightarrow> did_parse_error fault" where
  "did_error_source s (Panic m) = Panic m"
| "did_error_source s (Fail (DidParseError v None)) = Panic ''called Option::unwrap() on a None value''"
| "did_error_source s (Fail (DidParseError v (Some src))) = Fail (DidParseError s (Some src))"

definition did_odf_from_multibase :: "externs \<Rightarrow> u8 list \<Rightarrow> (did_parse_error, did_odf) res" where
  "did_odf_from_multibase x s =
     and_then (map_err (did_error_source s) (did_key_from_multibase x s)) (\<lambda>d. Inr (DidOdf d))"

definition did_odf_from_did_str :: "externs \<Rightarrow> u8 list \<Rightarrow> (did_parse_error, did_odf) res" where
  "did_odf_from_did_str x s =
     (case strip_prefix (ascii ''did:odf:'') s of
        None \<Rightarrow> Inl (Fail (DidParseError s None))
      | Some rest \<Rightarrow> map_err (map_fault (\<lambda>e. DidParseError s (Some (DidNested e)))) (did_odf_from_multibase x rest))"

definition did_odf_as_did_str :: "externs \<Rightarrow> did_odf \<Rightarrow> (unit, u8 list) res" where
  "did_odf_as_did_str x d =
     and_then (did_key_multibase x Base16 (did_odf_key d)) (\<lambda>s. did_stack_string (ascii ''did:odf:'' @ s))"

section \<open>Identifiers of datasets and accounts\<close>

fun dataset_id_did :: "dataset_id \<Rightarrow> did_odf" where
  "dataset_id_did (DatasetID key) = DidOdf (DidKey key)"

fun account_id_did :: "account_id \<Rightarrow> did_odf" where
  "account_id_did (AccountID key) = DidOdf (DidKey key)"

definition dataset_id_new :: "did_odf \<Rightarrow> dataset_id" where
  "dataset_id_new d = DatasetID (did_public_key (did_odf_key d))"

definition account_id_new :: "did_odf \<Rightarrow> account_id" where
  "account_id_new d = AccountID (did_public_key (did_odf_key d))"

definition dataset_id_from_did_str :: "externs \<Rightarrow> u8 list \<Rightarrow> (did_parse_error, dataset_id) res" where
  "dataset_id_from_did_str x s = and_then (did_odf_from_did_str x s) (\<lambda>d. Inr (dataset_id_new d))"

definition account_id_from_did_str :: "externs \<Rightarrow> u8 list \<Rightarrow> (did_parse_error, account_id) res" where
  "account_id_from_did_str x s = and_then (did_odf_from_did_str x s) (\<lambda>d. Inr (account_id_new d))"

section \<open>Splitting strings\<close>

text \<open>\<open>str::split\<close> on one character: a string without it is its own single part.\<close>

fun split_on :: "char \<Rightarrow> string \<Rightarrow> string list" where
  "split_on c [] = [[]]"
| "split_on c (a # s) =
     (if a = c then [] # split_on c s
      else (case split_on c s of [] \<Rightarrow> [[a]] | part # parts \<Rightarrow> (a # part) # parts))"

lemma split_on_Cons [simp]: "split_on c s \<noteq> []"
  by (cases s) (auto split: list.split)

lemma split_on_plain: "c \<notin> set s \<Longrightarrow> split_on c s = [s]"
  by (induction s) auto

lemma split_on_append: "c \<notin> set s \<Longrightarrow> split_on c (s @ c # t) = s # split_on c t"
  by (induction s) auto

section \<open>Round trips\<close>

text \<open>The invariant of the type: the array holds exactly one key.\<close>

definition wf_did :: "did_odf \<Rightarrow> bool" where
  "wf_did d \<longleftrightarrow> length (did_public_key (did_odf_key d)) = MAX_DID_KEY_LEN"

lemma did_bytes:
  assumes "varint_ok x" and "wf_did d"
  shows "\<exists>bytes. did_odf_as_bytes x d = Inr bytes \<and> length bytes \<le> MAX_DID_BINARY_REPR_LEN
    \<and> did_odf_from_bytes x bytes = Inr d"
proof -
  let ?bytes = "uvar_encode_u32 x 0xed @ did_public_key (did_odf_key d)"
  have "length (uvar_encode_u32 x 0xed) \<le> 4"
    using assms(1) multicodec_code_bound [of Ed25519Pub] by (simp add: varint_ok_def)
  then have len: "length ?bytes \<le> MAX_DID_BINARY_REPR_LEN" using assms(2) by (simp add: wf_did_def did_len_defs)
  have code: "multicodec_try_from_u32 0xed = Inr Ed25519Pub" using multicodec_u32_roundtrip [of Ed25519Pub] by simp
  have "did_odf_from_bytes x ?bytes = Inr d"
    using assms by (simp add: did_odf_from_bytes_def did_key_from_bytes_def varint_ok_def code did_key_new_def wf_did_def)
  with len show ?thesis by (auto simp: did_odf_as_bytes_def did_key_as_bytes_def Let_def)
qed

lemma did_text:
  assumes "externs_ok x" and "wf_did d"
  shows "\<exists>s. did_odf_as_did_str x d = Inr s \<and> did_odf_from_did_str x s = Inr d \<and> (\<forall>b \<in> set s. b < 128)"
proof -
  have ok: "varint_ok x" "hex_ok x" using assms(1) by (simp_all add: externs_ok_def)
  from did_bytes [OF ok(1) assms(2)] obtain bytes where b: "did_odf_as_bytes x d = Inr bytes"
    "length bytes \<le> MAX_DID_BINARY_REPR_LEN" "did_odf_from_bytes x bytes = Inr d" by blast
  let ?t = "0x66 # hex_encode x bytes"
  have enc: "multibase_encode x MAX_DID_MULTIBASE_REPR_LEN bytes Base16 = Inr ?t"
    using ok(2) b(2) by (simp add: multibase_encode_def hex_ok_def did_len_defs)
  then have dec: "multibase_decode x ?t (MAX_VARINT_LEN + MAX_DID_KEY_LEN) = Inr bytes"
    using ok(2) b(2) by (auto intro: multibase_base16_roundtrip simp: MAX_DID_BINARY_REPR_LEN_def)
  have "did_key_from_bytes x bytes = Inr (did_odf_key d)"
    using b(3) by (auto simp: did_odf_from_bytes_def res_simps)
  with dec have parsed: "did_odf_from_multibase x ?t = Inr d"
    by (simp add: did_odf_from_multibase_def did_key_from_multibase_def)
  let ?s = "ascii ''did:odf:'' @ ?t"
  have len: "length (ascii ''did:odf:'') = 8" by (simp add: ascii_def)
  have "did_odf_as_did_str x d = Inr ?s"
    using b(1,2) enc ok(2) len
    by (simp add: did_odf_as_did_str_def did_key_multibase_def did_odf_as_bytes_def did_stack_string_def hex_ok_def did_len_defs)
      (simp add: ascii_def)
  moreover have "did_odf_from_did_str x ?s = Inr d"
    using parsed by (simp add: did_odf_from_did_str_def strip_prefix_def)
  moreover have "\<forall>b \<in> set ?s. b < 128"
    using ok(2) by (auto simp: hex_ok_def ascii_def)
  ultimately show ?thesis by blast
qed

section \<open>Panics\<close>

lemma did_key_new_outcome:
  "did_key_new c key = Inr d \<Longrightarrow> c = Ed25519Pub \<and> length key = MAX_DID_KEY_LEN \<and> d = DidKey key"
  "(\<exists>m. did_key_new c key = Inl (Panic m)) \<longleftrightarrow> c = Ed25519Pub \<and> length key \<noteq> MAX_DID_KEY_LEN"
  by (auto simp: did_key_new_def split: if_splits)

text \<open>The bytes of an Ed25519 key of the wrong length.\<close>

definition wrong_length_key :: "externs \<Rightarrow> u8 list \<Rightarrow> bool" where
  "wrong_length_key x bytes \<longleftrightarrow>
     (case uvar_decode_u32 x bytes of
        None \<Rightarrow> False
      | Some (code, key) \<Rightarrow> code = multicodec_code Ed25519Pub \<and> length key \<noteq> MAX_DID_KEY_LEN)"

lemma map_fault_panic [simp]: "map_fault f e = Panic m \<longleftrightarrow> e = Panic m"
  by (cases e) auto

lemma did_key_from_bytes_panics: "(\<exists>m. did_key_from_bytes x bytes = Inl (Panic m)) \<longleftrightarrow> wrong_length_key x bytes"
proof (cases "uvar_decode_u32 x bytes")
  case (Some p)
  obtain code key where p: "p = (code, key)" by fastforce
  show ?thesis
  proof (cases "multicodec_try_from_u32 code")
    case (Inl c)
    then have "code \<noteq> multicodec_code Ed25519Pub" by (auto simp: multicodec_try_from_u32_def)
    with Some p Inl show ?thesis by (simp add: did_key_from_bytes_def wrong_length_key_def)
  next
    case (Inr c)
    then have code: "code = multicodec_code c" by (rule multicodec_try_from_u32_sound)
    then have "code = multicodec_code Ed25519Pub \<longleftrightarrow> c = Ed25519Pub" by (cases c) simp_all
    with Some p Inr did_key_new_outcome(2) [of c key] show ?thesis
      by (auto simp: did_key_from_bytes_def wrong_length_key_def res_simps eq_commute [of "Panic _"])
  qed
qed (simp add: did_key_from_bytes_def wrong_length_key_def)

lemma did_key_from_bytes_wf: "did_key_from_bytes x bytes = Inr d \<Longrightarrow> length (did_public_key d) = MAX_DID_KEY_LEN"
  by (auto simp: did_key_from_bytes_def res_simps split: option.splits sum.splits dest!: did_key_new_outcome(1))

lemma map_fault_fail: "map_fault f e = Fail y \<longleftrightarrow> (\<exists>z. e = Fail z \<and> y = f z)"
  by (cases e) auto

lemma did_key_from_multibase_source:
  assumes "did_key_from_multibase x s = Inl (Fail (DidParseError v src))"
  shows "src \<noteq> None"
  using assms by (auto simp: did_key_from_multibase_def res_simps eq_commute [of "Fail _"] map_fault_fail)

lemma multibase_decode_panics: "(\<exists>m. multibase_decode x s n = Inl (Panic m)) \<longleftrightarrow> s = []"
  by (auto simp: multibase_decode_def split: list.splits option.splits sum.splits bs58_error.splits)

lemma did_error_source_panic:
  assumes "did_key_from_multibase x s = Inl e"
  shows "did_error_source t e = Panic m \<longleftrightarrow> e = Panic m"
proof (cases e)
  case (Fail f)
  obtain v src where "f = DidParseError v src" by (cases f)
  with Fail assms did_key_from_multibase_source [of x s v src] show ?thesis by (cases src) auto
qed simp

lemma did_odf_from_multibase_panics:
  "(\<exists>m. did_odf_from_multibase x s = Inl (Panic m)) \<longleftrightarrow>
     s = [] \<or> (\<exists>bytes. multibase_decode x s MAX_DID_BINARY_REPR_LEN = Inr bytes \<and> wrong_length_key x bytes)"
proof -
  have "(\<exists>m. did_odf_from_multibase x s = Inl (Panic m)) \<longleftrightarrow> (\<exists>m. did_key_from_multibase x s = Inl (Panic m))"
    using did_error_source_panic [of x s]
    by (cases "did_key_from_multibase x s") (auto simp: did_odf_from_multibase_def)
  also have "\<dots> \<longleftrightarrow> (\<exists>m. multibase_decode x s MAX_DID_BINARY_REPR_LEN = Inl (Panic m))
      \<or> (\<exists>bytes. multibase_decode x s MAX_DID_BINARY_REPR_LEN = Inr bytes \<and> (\<exists>m. did_key_from_bytes x bytes = Inl (Panic m)))"
    by (auto simp: did_key_from_multibase_def res_simps eq_commute [of "Panic _"] MAX_DID_BINARY_REPR_LEN_def)
  finally show ?thesis by (simp only: multibase_decode_panics did_key_from_bytes_panics)
qed

lemma strip_prefix_Some: "strip_prefix p s = Some rest \<longleftrightarrow> s = p @ rest"
  by (auto simp: strip_prefix_def) (metis append_take_drop_id)

section \<open>Properties\<close>

text \<open>
  An identifier is read back from its bytes and from its \<open>did:odf:\<close> string exactly as it was written.
  Writing never overruns the fixed buffers and gives ASCII; so different datasets, and different accounts, have
  different strings. The hypothesis is the documented behaviour of the varint, hex and hash crates.
\<close>

theorem did_roundtrip:
  assumes "externs_ok x" and "wf_did (dataset_id_did i)"
  shows "(\<exists>bytes. did_odf_as_bytes x (dataset_id_did i) = Inr bytes \<and> length bytes \<le> MAX_DID_BINARY_REPR_LEN
      \<and> did_odf_from_bytes x bytes = Inr (dataset_id_did i))
    \<and> (\<exists>s. did_odf_as_did_str x (dataset_id_did i) = Inr s \<and> dataset_id_from_did_str x s = Inr i
      \<and> list_all (\<lambda>b. b < 128) s)"
proof -
  have "dataset_id_new (dataset_id_did i) = i" by (cases i) (simp add: dataset_id_new_def)
  moreover have "varint_ok x" using assms(1) by (simp add: externs_ok_def)
  ultimately show ?thesis
    using did_text [OF assms] did_bytes [OF _ assms(2)] by (fastforce simp: dataset_id_from_did_str_def list_all_iff)
qed

theorem did_roundtrip_witness:
  "\<exists>s. did_odf_as_did_str demo_externs (dataset_id_did (DatasetID (replicate 32 7))) = Inr s
    \<and> dataset_id_from_did_str demo_externs s = Inr (DatasetID (replicate 32 7))"
  using did_roundtrip [OF demo_externs_ok, of "DatasetID (replicate 32 7)"]
  by (auto simp: wf_did_def MAX_DID_KEY_LEN_def)

text \<open>
  C39. Parsing a dataset identifier panics, instead of returning an error, on exactly two kinds of input: the bare prefix
  \<open>did:odf:\<close>, and a well-encoded Ed25519 identifier whose key is not 32 bytes long. Every other
  string is parsed to a well-formed identifier or rejected.
\<close>

theorem did_parse_panics:
  "((\<exists>m. dataset_id_from_did_str x s = Inl (Panic m)) \<longleftrightarrow>
      (\<exists>rest. s = ascii ''did:odf:'' @ rest
         \<and> (rest = [] \<or> (\<exists>bytes. multibase_decode x rest MAX_DID_BINARY_REPR_LEN = Inr bytes \<and> wrong_length_key x bytes))))
   \<and> (\<forall>i. dataset_id_from_did_str x s = Inr i \<longrightarrow> wf_did (dataset_id_did i))"
proof (intro conjI allI impI)
  show "(\<exists>m. dataset_id_from_did_str x s = Inl (Panic m)) \<longleftrightarrow>
      (\<exists>rest. s = ascii ''did:odf:'' @ rest
         \<and> (rest = [] \<or> (\<exists>bytes. multibase_decode x rest MAX_DID_BINARY_REPR_LEN = Inr bytes \<and> wrong_length_key x bytes)))"
  proof (cases "strip_prefix (ascii ''did:odf:'') s")
    case None
    then have "s \<noteq> ascii ''did:odf:'' @ rest" for rest using strip_prefix_Some by (metis option.distinct(1))
    with None show ?thesis by (simp add: dataset_id_from_did_str_def did_odf_from_did_str_def)
  next
    case (Some rest)
    then have s: "s = ascii ''did:odf:'' @ rest" by (simp add: strip_prefix_Some)
    have "(\<exists>m. dataset_id_from_did_str x s = Inl (Panic m)) \<longleftrightarrow> (\<exists>m. did_odf_from_multibase x rest = Inl (Panic m))"
      using Some by (auto simp: dataset_id_from_did_str_def did_odf_from_did_str_def res_simps eq_commute [of "Panic _"])
    then show ?thesis by (simp only: did_odf_from_multibase_panics s same_append_eq) blast
  qed
next
  fix i assume "dataset_id_from_did_str x s = Inr i"
  then show "wf_did (dataset_id_did i)"
    by (auto simp: dataset_id_from_did_str_def did_odf_from_did_str_def did_odf_from_multibase_def
        did_key_from_multibase_def did_key_from_bytes_wf res_simps wf_did_def dataset_id_new_def
        split: option.splits)
qed

theorem did_parse_panics_witness:
  "(\<exists>m. dataset_id_from_did_str demo_externs (ascii ''did:odf:fed0101'') = Inl (Panic m))
   \<and> \<not> (\<exists>m. dataset_id_from_did_str demo_externs (ascii ''did:odf:f0101'') = Inl (Panic m))"
proof -
  have short: "multibase_decode demo_externs (ascii ''fed0101'') MAX_DID_BINARY_REPR_LEN = Inr [0xed, 1, 1]"
    "wrong_length_key demo_externs [0xed, 1, 1]"
    and other: "multibase_decode demo_externs (ascii ''f0101'') MAX_DID_BINARY_REPR_LEN = Inr [1, 1]"
    "\<not> wrong_length_key demo_externs [1, 1]"
    and app: "ascii ''did:odf:fed0101'' = ascii ''did:odf:'' @ ascii ''fed0101''"
    "ascii ''did:odf:f0101'' = ascii ''did:odf:'' @ ascii ''f0101''" "ascii ''f0101'' \<noteq> []"
    by code_simp+
  show ?thesis
    using did_parse_panics [of demo_externs "ascii ''did:odf:fed0101''"]
      did_parse_panics [of demo_externs "ascii ''did:odf:f0101''"] short other
    by (simp add: app)
qed

end
