(* ===== verification/Rebac.thy ===== *)
theory Rebac
  imports Dids "HOL-Library.AList" "HOL-Library.Multiset"
begin

text \<open>
  Relation-based access control (\<open>domain/auth-rebac\<close>): entities, properties and relations with
  their names, the in-memory repository (\<open>infra/auth-rebac/inmem\<close>), the service that datasets and
  accounts use, and the consumer of messages on the life cycle of datasets.

  A hash map is an association list, a hash set a list without repetitions; the order in which
  they are iterated is a parameter, \<open>rebac_order\<close>.
\<close>

section \<open>Names (property.rs, relation.rs)\<close>

datatype dataset_property_name = AllowsAnonymousRead | AllowsPublicRead
datatype account_property_name = IsAnAdmin
datatype property_name = DatasetProperty dataset_property_name | AccountProperty account_property_name
datatype account_to_dataset_relation = Reader | Editor
datatype relation = AccountToDataset account_to_dataset_relation

type_synonym property_value = string

text \<open>The names that \<open>strum\<close> derives in snake case.\<close>

fun dataset_property_display :: "dataset_property_name \<Rightarrow> string" where
  "dataset_property_display AllowsAnonymousRead = ''allows_anonymous_read''"
| "dataset_property_display AllowsPublicRead = ''allows_public_read''"

fun account_property_display :: "account_property_name \<Rightarrow> string" where
  "account_property_display IsAnAdmin = ''is_an_admin''"

fun account_to_dataset_display :: "account_to_dataset_relation \<Rightarrow> string" where
  "account_to_dataset_display Reader = ''reader''"
| "account_to_dataset_display Editor = ''editor''"

definition dataset_property_from_str :: "string \<Rightarrow> dataset_property_name option" where
  "dataset_property_from_str s =
     (if s = ''allows_anonymous_read'' then Some AllowsAnonymousRead
      else if s = ''allows_public_read'' then Some AllowsPublicRead else None)"

definition account_property_from_str :: "string \<Rightarrow> account_property_name option" where
  "account_property_from_str s = (if s = ''is_an_admin'' then Some IsAnAdmin else None)"

definition account_to_dataset_from_str :: "string \<Rightarrow> account_to_dataset_relation option" where
  "account_to_dataset_from_str s =
     (if s = ''reader'' then Some Reader else if s = ''editor'' then Some Editor else None)"

fun property_group :: "property_name \<Rightarrow> string" where
  "property_group (DatasetProperty _) = ''dataset''"
| "property_group (AccountProperty _) = ''account''"

fun property_name_display :: "property_name \<Rightarrow> string" where
  "property_name_display (DatasetProperty p) = ''dataset'' @ ''/'' @ dataset_property_display p"
| "property_name_display (AccountProperty p) = ''account'' @ ''/'' @ account_property_display p"

datatype name_error =
    InvalidFormat string
  | UnexpectedGroup string
  | UnexpectedName string string  \<comment> \<open>group and name\<close>

definition property_name_from_str :: "string \<Rightarrow> name_error + property_name" where
  "property_name_from_str s =
     (case split_on (CHR ''/'') s of
        [grp, name] \<Rightarrow>
          if grp = ''dataset'' then
            (case dataset_property_from_str name of
               Some p \<Rightarrow> Inr (DatasetProperty p) | None \<Rightarrow> Inl (UnexpectedName grp name))
          else if grp = ''account'' then
            (case account_property_from_str name of
               Some p \<Rightarrow> Inr (AccountProperty p) | None \<Rightarrow> Inl (UnexpectedName grp name))
          else Inl (UnexpectedGroup grp)
      | _ \<Rightarrow> Inl (InvalidFormat s))"

fun relation_group :: "relation \<Rightarrow> string" where
  "relation_group (AccountToDataset _) = ''account->dataset''"

fun relation_display :: "relation \<Rightarrow> string" where
  "relation_display (AccountToDataset r) = ''account->dataset'' @ ''/'' @ account_to_dataset_display r"

definition relation_from_str :: "string \<Rightarrow> name_error + relation" where
  "relation_from_str s =
     (case split_on (CHR ''/'') s of
        [grp, name] \<Rightarrow>
          if grp = ''account->dataset'' then
            (case account_to_dataset_from_str name of
               Some r \<Rightarrow> Inr (AccountToDataset r) | None \<Rightarrow> Inl (UnexpectedName grp name))
          else Inl (UnexpectedGroup grp)
      | _ \<Rightarrow> Inl (InvalidFormat s))"

definition allows_public_read :: "bool \<Rightarrow> dataset_property_name \<times> property_value" where
  "allows_public_read allows = (AllowsPublicRead, if allows then ''true'' else ''false'')"

section \<open>Entities (entity.rs)\<close>

datatype entity_type = DatasetEntity | AccountEntity

text \<open>The identifier is the text of the identifier of the dataset or the account.\<close>

record entity =
  entity_type :: entity_type
  entity_id :: "u8 list"

definition entity_new_account :: "u8 list \<Rightarrow> entity" where
  "entity_new_account i = \<lparr>entity_type = AccountEntity, entity_id = i\<rparr>"

definition entity_new_dataset :: "u8 list \<Rightarrow> entity" where
  "entity_new_dataset i = \<lparr>entity_type = DatasetEntity, entity_id = i\<rparr>"

record entity_with_relation =
  ewr_entity :: entity
  ewr_relation :: relation

section \<open>The repository (inmem_rebac_repository.rs)\<close>

record entities_relations_row =
  row_subject_entity :: entity
  row_relationship :: relation
  row_object_entity :: entity

record rebac_state =
  entities_properties_map :: "(entity \<times> (property_name \<times> property_value) list) list"
  entities_relations_rows :: "entities_relations_row list"

definition default_rebac_state :: rebac_state where
  "default_rebac_state = \<lparr>entities_properties_map = [], entities_relations_rows = []\<rparr>"

record rebac_order =
  order_properties :: "(property_name \<times> property_value) list \<Rightarrow> (property_name \<times> property_value) list"
  order_rows :: "entities_relations_row list \<Rightarrow> entities_relations_row list"

definition rebac_order_ok :: "rebac_order \<Rightarrow> bool" where
  "rebac_order_ok ord \<longleftrightarrow>
     (\<forall>ps. mset (order_properties ord ps) = mset ps) \<and> (\<forall>rs. mset (order_rows ord rs) = mset rs)"

datatype delete_entity_property_error = EntityPropertyNotFound entity property_name | DeletePropertyInternal string
datatype delete_entity_properties_error = EntityNotFound entity | DeletePropertiesInternal string
datatype insert_entities_relation_error = RelationDuplicate entity relation entity | InsertRelationInternal string
datatype delete_entities_relation_error = RelationNotFound entity relation entity | DeleteRelationInternal string

definition set_entity_property :: "entity \<Rightarrow> property_name \<Rightarrow> property_value \<Rightarrow> rebac_state \<Rightarrow> rebac_state" where
  "set_entity_property e p v st =
     (let properties = (case map_of (entities_properties_map st) e of None \<Rightarrow> [] | Some ps \<Rightarrow> ps)
      in st\<lparr>entities_properties_map := AList.update e (AList.update p v properties) (entities_properties_map st)\<rparr>)"

definition delete_entity_property ::
  "entity \<Rightarrow> property_name \<Rightarrow> rebac_state \<Rightarrow> (delete_entity_property_error + unit) \<times> rebac_state" where
  "delete_entity_property e p st =
     (case map_of (entities_properties_map st) e of
        None \<Rightarrow> (Inl (EntityPropertyNotFound e p), st)
      | Some properties \<Rightarrow>
          (if map_of properties p = None then Inl (EntityPropertyNotFound e p) else Inr (),
           st\<lparr>entities_properties_map := AList.update e (AList.delete p properties) (entities_properties_map st)\<rparr>))"

definition delete_entity_properties ::
  "entity \<Rightarrow> rebac_state \<Rightarrow> (delete_entity_properties_error + unit) \<times> rebac_state" where
  "delete_entity_properties e st =
     (if map_of (entities_properties_map st) e = None then Inl (EntityNotFound e) else Inr (),
      st\<lparr>entities_properties_map := AList.delete e (entities_properties_map st)\<rparr>)"

definition get_entity_properties :: "rebac_order \<Rightarrow> entity \<Rightarrow> rebac_state \<Rightarrow> (property_name \<times> property_value) list" where
  "get_entity_properties ord e st =
     (case map_of (entities_properties_map st) e of
        None \<Rightarrow> []
      | Some properties \<Rightarrow> order_properties ord properties)"

definition entities_relations_row_new :: "entity \<Rightarrow> relation \<Rightarrow> entity \<Rightarrow> entities_relations_row" where
  "entities_relations_row_new s r t = \<lparr>row_subject_entity = s, row_relationship = r, row_object_entity = t\<rparr>"

definition insert_entities_relation ::
  "entity \<Rightarrow> relation \<Rightarrow> entity \<Rightarrow> rebac_state \<Rightarrow> (insert_entities_relation_error + unit) \<times> rebac_state" where
  "insert_entities_relation s r t st =
     (let row = entities_relations_row_new s r t
      in if row \<in> set (entities_relations_rows st) then (Inl (RelationDuplicate s r t), st)
         else (Inr (), st\<lparr>entities_relations_rows := row # entities_relations_rows st\<rparr>))"

definition delete_entities_relation ::
  "entity \<Rightarrow> relation \<Rightarrow> entity \<Rightarrow> rebac_state \<Rightarrow> (delete_entities_relation_error + unit) \<times> rebac_state" where
  "delete_entities_relation s r t st =
     (let row = entities_relations_row_new s r t
      in (if row \<in> set (entities_relations_rows st) then Inr () else Inl (RelationNotFound s r t),
          st\<lparr>entities_relations_rows := removeAll row (entities_relations_rows st)\<rparr>))"

definition get_rows :: "rebac_order \<Rightarrow> (entities_relations_row \<Rightarrow> 'a option) \<Rightarrow> rebac_state \<Rightarrow> 'a list" where
  "get_rows ord f st = List.map_filter f (order_rows ord (entities_relations_rows st))"

definition row_object :: "entities_relations_row \<Rightarrow> entity_with_relation" where
  "row_object row = \<lparr>ewr_entity = row_object_entity row, ewr_relation = row_relationship row\<rparr>"

definition get_subject_entity_relations :: "rebac_order \<Rightarrow> entity \<Rightarrow> rebac_state \<Rightarrow> entity_with_relation list" where
  "get_subject_entity_relations ord s =
     get_rows ord (\<lambda>row. if row_subject_entity row = s then Some (row_object row) else None)"

definition get_subject_entity_relations_by_object_type ::
  "rebac_order \<Rightarrow> entity \<Rightarrow> entity_type \<Rightarrow> rebac_state \<Rightarrow> entity_with_relation list" where
  "get_subject_entity_relations_by_object_type ord s t =
     get_rows ord (\<lambda>row. if row_subject_entity row = s \<and> entity_type (row_object_entity row) = t
       then Some (row_object row) else None)"

definition get_relations_between_entities :: "rebac_order \<Rightarrow> entity \<Rightarrow> entity \<Rightarrow> rebac_state \<Rightarrow> relation list" where
  "get_relations_between_entities ord s t =
     get_rows ord (\<lambda>row. if row_subject_entity row = s \<and> row_object_entity row = t
       then Some (row_relationship row) else None)"

end
