(* ===== verification/Rebac_Service.thy ===== *)
theory Rebac_Service
  imports Rebac
begin

text \<open>
  The access service (\<open>rebac_service_impl.rs\<close>) over the in-memory repository, and the consumer of
  messages on the life cycle of datasets (\<open>multi_tenant_rebac_dataset_lifecycle_message_consumer.rs\<close>).
  The service names a dataset or an account by the text of its identifier, hides the repository's
  complaints about missing and duplicate rows, and passes internal errors on.
\<close>

type_synonym 'a rebac_op = "rebac_state \<Rightarrow> (string, 'a) res \<times> rebac_state"

section \<open>The service\<close>

definition did_string :: "externs \<Rightarrow> did_odf \<Rightarrow> (string, u8 list) res" where
  "did_string x d = map_err (map_fault (\<lambda>_. '''')) (did_odf_as_did_str x d)"

definition account_entity :: "externs \<Rightarrow> account_id \<Rightarrow> (string, entity) res" where
  "account_entity x a = and_then (did_string x (account_id_did a)) (\<lambda>s. Inr (entity_new_account s))"

definition dataset_entity :: "externs \<Rightarrow> dataset_id \<Rightarrow> (string, entity) res" where
  "dataset_entity x d = and_then (did_string x (dataset_id_did d)) (\<lambda>s. Inr (entity_new_dataset s))"

text \<open>The \<open>?\<close> operator on a step that does not touch the repository.\<close>

definition with_entity :: "(string, entity) res \<Rightarrow> (entity \<Rightarrow> 'a rebac_op) \<Rightarrow> 'a rebac_op" where
  "with_entity e f st = (case e of Inl er \<Rightarrow> (Inl er, st) | Inr e \<Rightarrow> f e st)"

fun map_delete_entity_property_result :: "delete_entity_property_error + unit \<Rightarrow> (string, unit) res" where
  "map_delete_entity_property_result (Inr _) = Inr ()"
| "map_delete_entity_property_result (Inl (EntityPropertyNotFound _ _)) = Inr ()"
| "map_delete_entity_property_result (Inl (DeletePropertyInternal m)) = Inl (Fail m)"

fun map_delete_properties_result :: "delete_entity_properties_error + unit \<Rightarrow> (string, unit) res" where
  "map_delete_properties_result (Inr _) = Inr ()"
| "map_delete_properties_result (Inl (EntityNotFound _)) = Inr ()"
| "map_delete_properties_result (Inl (DeletePropertiesInternal m)) = Inl (Fail m)"

fun map_insert_relation_result :: "insert_entities_relation_error + unit \<Rightarrow> (string, unit) res" where
  "map_insert_relation_result (Inr _) = Inr ()"
| "map_insert_relation_result (Inl (RelationDuplicate _ _ _)) = Inr ()"
| "map_insert_relation_result (Inl (InsertRelationInternal m)) = Inl (Fail m)"

fun map_delete_relation_result :: "delete_entities_relation_error + unit \<Rightarrow> (string, unit) res" where
  "map_delete_relation_result (Inr _) = Inr ()"
| "map_delete_relation_result (Inl (RelationNotFound _ _ _)) = Inr ()"
| "map_delete_relation_result (Inl (DeleteRelationInternal m)) = Inl (Fail m)"

definition set_account_property :: "externs \<Rightarrow> account_id \<Rightarrow> account_property_name \<Rightarrow> property_value \<Rightarrow> unit rebac_op" where
  "set_account_property x a p v =
     with_entity (account_entity x a) (\<lambda>e st. (Inr (), set_entity_property e (AccountProperty p) v st))"

definition unset_account_property :: "externs \<Rightarrow> account_id \<Rightarrow> account_property_name \<Rightarrow> unit rebac_op" where
  "unset_account_property x a p =
     with_entity (account_entity x a)
       (\<lambda>e st. apfst map_delete_entity_property_result (delete_entity_property e (AccountProperty p) st))"

definition get_account_properties ::
  "externs \<Rightarrow> rebac_order \<Rightarrow> account_id \<Rightarrow> (property_name \<times> property_value) list rebac_op" where
  "get_account_properties x ord a =
     with_entity (account_entity x a) (\<lambda>e st. (Inr (get_entity_properties ord e st), st))"

definition set_dataset_property :: "externs \<Rightarrow> dataset_id \<Rightarrow> dataset_property_name \<Rightarrow> property_value \<Rightarrow> unit rebac_op" where
  "set_dataset_property x d p v =
     with_entity (dataset_entity x d) (\<lambda>e st. (Inr (), set_entity_property e (DatasetProperty p) v st))"

definition unset_dataset_property :: "externs \<Rightarrow> dataset_id \<Rightarrow> dataset_property_name \<Rightarrow> unit rebac_op" where
  "unset_dataset_property x d p =
     with_entity (dataset_entity x d)
       (\<lambda>e st. apfst map_delete_entity_property_result (delete_entity_property e (DatasetProperty p) st))"

definition delete_dataset_properties :: "externs \<Rightarrow> dataset_id \<Rightarrow> unit rebac_op" where
  "delete_dataset_properties x d =
     with_entity (dataset_entity x d) (\<lambda>e st. apfst map_delete_properties_result (delete_entity_properties e st))"

definition get_dataset_properties ::
  "externs \<Rightarrow> rebac_order \<Rightarrow> dataset_id \<Rightarrow> (property_name \<times> property_value) list rebac_op" where
  "get_dataset_properties x ord d =
     with_entity (dataset_entity x d) (\<lambda>e st. (Inr (get_entity_properties ord e st), st))"

definition insert_account_dataset_relation ::
  "externs \<Rightarrow> account_id \<Rightarrow> account_to_dataset_relation \<Rightarrow> dataset_id \<Rightarrow> unit rebac_op" where
  "insert_account_dataset_relation x a r d =
     with_entity (account_entity x a) (\<lambda>s. with_entity (dataset_entity x d) (\<lambda>t st.
       apfst map_insert_relation_result (insert_entities_relation s (AccountToDataset r) t st)))"

definition delete_account_dataset_relation ::
  "externs \<Rightarrow> account_id \<Rightarrow> account_to_dataset_relation \<Rightarrow> dataset_id \<Rightarrow> unit rebac_op" where
  "delete_account_dataset_relation x a r d =
     with_entity (account_entity x a) (\<lambda>s. with_entity (dataset_entity x d) (\<lambda>t st.
       apfst map_delete_relation_result (delete_entities_relation s (AccountToDataset r) t st)))"

definition get_account_dataset_relations ::
  "externs \<Rightarrow> rebac_order \<Rightarrow> account_id \<Rightarrow> entity_with_relation list rebac_op" where
  "get_account_dataset_relations x ord a =
     with_entity (account_entity x a) (\<lambda>e st. (Inr (get_subject_entity_relations ord e st), st))"

section \<open>The consumer\<close>

definition handle_dataset_created :: "externs \<Rightarrow> dataset_id \<Rightarrow> dataset_visibility \<Rightarrow> unit rebac_op" where
  "handle_dataset_created x d visibility =
     (let (name, value) = allows_public_read (visibility_is_public visibility)
      in set_dataset_property x d name value)"

fun rebac_consume_message :: "externs \<Rightarrow> dataset_lifecycle_message \<Rightarrow> unit rebac_op" where
  "rebac_consume_message x (LifecycleCreated d _ visibility) = handle_dataset_created x d visibility"
| "rebac_consume_message x (LifecycleDeleted d) = delete_dataset_properties x d"
| "rebac_consume_message x (LifecycleDependenciesUpdated _ _) = Pair (Inr ())"

end
