(* ===== verification/Rebac_Claims.thy ===== *)
theory Rebac_Claims
  imports Rebac_Service
begin

text \<open>
  The contract of the repository of access properties and relations as a locale, interpreted on the
  in-memory repository; the service refines a table of properties by dataset and account and a set of
  relations between them. The names of properties and relations are read back as written.
\<close>

section \<open>Names\<close>

lemma property_name_roundtrip: "property_name_from_str (property_name_display p) = Inr p"
proof (cases p)
  case (DatasetProperty q)
  then show ?thesis by (cases q) (simp_all add: property_name_from_str_def dataset_property_from_str_def)
next
  case (AccountProperty q)
  then show ?thesis by (cases q) (simp add: property_name_from_str_def account_property_from_str_def)
qed

lemma relation_roundtrip: "relation_from_str (relation_display r) = Inr r"
proof (cases r)
  case (AccountToDataset q)
  then show ?thesis by (cases q) (simp_all add: relation_from_str_def account_to_dataset_from_str_def)
qed

lemma property_name_from_str_sound: "property_name_from_str s = Inr p \<Longrightarrow> property_name_display p = s"
proof -
  assume *: "property_name_from_str s = Inr p"
  have join: "split_on c t = [u, v] \<Longrightarrow> t = u @ c # v" for c t u v
  proof (induction t arbitrary: u)
    case (Cons a t)
    have single: "split_on c w = [z] \<Longrightarrow> w = z" for w z
      by (induction w arbitrary: z) (auto split: if_splits list.splits)
    from Cons show ?case by (auto split: if_splits list.splits dest: single)
  qed simp
  from * show ?thesis
    by (auto simp: property_name_from_str_def dataset_property_from_str_def account_property_from_str_def
        split: list.splits if_splits option.splits dest!: join)
qed

section \<open>The contract of the repository\<close>

type_synonym property_table = "entity \<Rightarrow> property_name \<Rightarrow> property_value option"

datatype repo_command =
    CmdSet entity property_name property_value
  | CmdDelete entity property_name
  | CmdDeleteAll entity
  | CmdInsertRow entities_relations_row
  | CmdDeleteRow entities_relations_row
  | CmdNothing

fun spec_command :: "repo_command \<Rightarrow> property_table \<times> entities_relations_row set \<Rightarrow> property_table \<times> entities_relations_row set" where
  "spec_command (CmdSet e p v) (t, rs) = (t(e := (t e)(p \<mapsto> v)), rs)"
| "spec_command (CmdDelete e p) (t, rs) = (t(e := (t e)(p := None)), rs)"
| "spec_command (CmdDeleteAll e) (t, rs) = (t(e := Map.empty), rs)"
| "spec_command (CmdInsertRow row) (t, rs) = (t, insert row rs)"
| "spec_command (CmdDeleteRow row) (t, rs) = (t, rs - {row})"
| "spec_command CmdNothing (t, rs) = (t, rs)"

locale rebac_repository =
  fixes inv :: "'s \<Rightarrow> bool"
    and table :: "'s \<Rightarrow> property_table"
    and rows :: "'s \<Rightarrow> entities_relations_row set"
    and exec :: "repo_command \<Rightarrow> 's \<Rightarrow> 's"
    and empty :: 's
  assumes inv_empty: "inv empty"
    and empty: "table empty = (\<lambda>_. Map.empty)" "rows empty = {}"
    and inv_exec: "inv s \<Longrightarrow> inv (exec c s)"
    and exec: "inv s \<Longrightarrow> (table (exec c s), rows (exec c s)) = spec_command c (table s, rows s)"
begin

definition view :: "'s \<Rightarrow> property_table \<times> entities_relations_row set" where
  "view s = (table s, rows s)"

lemma inv_run: "inv s \<Longrightarrow> inv (fold exec cs s)"
  by (induction cs arbitrary: s) (simp_all add: inv_exec)

lemma view_run: "inv s \<Longrightarrow> view (fold exec cs s) = fold spec_command cs (view s)"
  by (induction cs arbitrary: s) (simp_all add: inv_exec exec view_def)

lemma run_from_empty:
  "inv (fold exec cs empty)
   \<and> (table (fold exec cs empty), rows (fold exec cs empty)) = fold spec_command cs (\<lambda>_. Map.empty, {})"
  using inv_run [OF inv_empty] view_run [OF inv_empty] by (simp add: view_def empty)

end

section \<open>The in-memory repository fulfils it\<close>

definition wf_rebac :: "rebac_state \<Rightarrow> bool" where
  "wf_rebac st \<longleftrightarrow> distinct (map fst (entities_properties_map st))
     \<and> (\<forall>(e, ps) \<in> set (entities_properties_map st). distinct (map fst ps))
     \<and> distinct (entities_relations_rows st)"

definition table_of :: "rebac_state \<Rightarrow> property_table" where
  "table_of st e = (case map_of (entities_properties_map st) e of None \<Rightarrow> Map.empty | Some ps \<Rightarrow> map_of ps)"

definition rows_of :: "rebac_state \<Rightarrow> entities_relations_row set" where
  "rows_of st = set (entities_relations_rows st)"

fun exec_command :: "repo_command \<Rightarrow> rebac_state \<Rightarrow> rebac_state" where
  "exec_command (CmdSet e p v) st = set_entity_property e p v st"
| "exec_command (CmdDelete e p) st = snd (delete_entity_property e p st)"
| "exec_command (CmdDeleteAll e) st = snd (delete_entity_properties e st)"
| "exec_command (CmdInsertRow row) st =
     snd (insert_entities_relation (row_subject_entity row) (row_relationship row) (row_object_entity row) st)"
| "exec_command (CmdDeleteRow row) st =
     snd (delete_entities_relation (row_subject_entity row) (row_relationship row) (row_object_entity row) st)"
| "exec_command CmdNothing st = st"

lemmas rebac_ops = set_entity_property_def delete_entity_property_def delete_entity_properties_def
  insert_entities_relation_def delete_entities_relation_def entities_relations_row_new_def Let_def

lemma properties_update_subset: "set (AList.update k v al) \<subseteq> insert (k, v) (set al)"
  by (induction al) auto

lemma wf_update:
  assumes "wf_rebac st" and "distinct (map fst ps)"
  shows "wf_rebac (st\<lparr>entities_properties_map := AList.update e ps (entities_properties_map st)\<rparr>)"
  using assms properties_update_subset [of e ps "entities_properties_map st"]
  by (auto simp: wf_rebac_def distinct_update)

lemma wf_properties: "wf_rebac st \<Longrightarrow> map_of (entities_properties_map st) e = Some ps \<Longrightarrow> distinct (map fst ps)"
  by (auto simp: wf_rebac_def dest: map_of_SomeD)

lemma row_eta [simp]: "\<lparr>row_subject_entity = row_subject_entity row, row_relationship = row_relationship row,
    row_object_entity = row_object_entity row\<rparr> = row"
  by (cases row) simp

lemma wf_exec: "wf_rebac st \<Longrightarrow> wf_rebac (exec_command c st)"
proof (cases c)
  case (CmdSet e p v)
  assume "wf_rebac st"
  then show ?thesis using CmdSet
    by (auto simp: rebac_ops intro!: wf_update distinct_update dest: wf_properties split: option.split)
next
  case (CmdDelete e p)
  assume "wf_rebac st"
  then show ?thesis using CmdDelete
    by (auto simp: rebac_ops intro!: wf_update distinct_delete dest: wf_properties split: option.split)
next
  case (CmdDeleteAll e)
  assume "wf_rebac st"
  then show ?thesis using CmdDeleteAll
    by (auto simp: rebac_ops wf_rebac_def AList.delete_eq distinct_map_filter split: prod.splits)
qed (auto simp: rebac_ops wf_rebac_def distinct_removeAll)

lemma exec_view: "(table_of (exec_command c st), rows_of (exec_command c st)) = spec_command c (table_of st, rows_of st)"
  by (cases c)
    (auto simp: rebac_ops table_of_def rows_of_def update_conv' delete_conv' fun_eq_iff split: option.split)

interpretation repo: rebac_repository wf_rebac table_of rows_of exec_command default_rebac_state
  by unfold_locales
    (simp_all add: wf_exec exec_view, simp_all add: default_rebac_state_def wf_rebac_def table_of_def rows_of_def fun_eq_iff)

section \<open>Reading the repository\<close>

lemma get_entity_properties_view:
  assumes "wf_rebac st" and "rebac_order_ok ord"
  shows "distinct (map fst (get_entity_properties ord e st))" "map_of (get_entity_properties ord e st) = table_of st e"
proof -
  have perm: "mset (order_properties ord ps) = mset ps" for ps using assms(2) by (simp add: rebac_order_ok_def)
  have "distinct (map fst (order_properties ord ps)) \<and> map_of (order_properties ord ps) = map_of ps"
    if "distinct (map fst ps)" for ps
  proof -
    have "mset (map fst (order_properties ord ps)) = mset (map fst ps)" using perm by simp
    then have dist: "distinct (map fst (order_properties ord ps))" using that by (metis mset_eq_imp_distinct_iff)
    moreover have "set (order_properties ord ps) = set ps" using perm by (metis set_mset_mset)
    ultimately show ?thesis using that by (metis map_of_inject_set)
  qed
  then show "distinct (map fst (get_entity_properties ord e st))" "map_of (get_entity_properties ord e st) = table_of st e"
    using wf_properties [OF assms(1)] by (simp_all add: get_entity_properties_def table_of_def split: option.split)
qed

lemma map_filter_if: "List.map_filter (\<lambda>r. if P r then Some (f r) else None) rs = map f (filter P rs)"
  by (induction rs) (simp_all add: map_filter_simps)

lemma get_subject_entity_relations_view:
  assumes "wf_rebac st" and "rebac_order_ok ord"
  shows "distinct (get_subject_entity_relations ord e st)"
    "set (get_subject_entity_relations ord e st) = row_object ` {row \<in> rows_of st. row_subject_entity row = e}"
proof -
  let ?rows = "order_rows ord (entities_relations_rows st)"
  have perm: "mset ?rows = mset (entities_relations_rows st)" using assms(2) by (simp add: rebac_order_ok_def)
  then have rows: "distinct ?rows" "set ?rows = rows_of st"
    using assms(1) by (metis mset_eq_imp_distinct_iff wf_rebac_def, metis set_mset_mset rows_of_def)
  have eq: "get_subject_entity_relations ord e st = map row_object (filter (\<lambda>row. row_subject_entity row = e) ?rows)"
    unfolding get_subject_entity_relations_def get_rows_def by (rule map_filter_if)
  have "inj_on row_object {row. row_subject_entity row = e}"
    by (rule inj_onI) (simp add: row_object_def)
  then show "distinct (get_subject_entity_relations ord e st)"
    unfolding eq using rows(1) by (auto simp: distinct_map intro: inj_on_subset)
  show "set (get_subject_entity_relations ord e st) = row_object ` {row \<in> rows_of st. row_subject_entity row = e}"
    unfolding eq using rows(2) by auto
qed

section \<open>The access specification\<close>

text \<open>What the service promises: a table of properties and a set of relations, by identifier.\<close>

datatype holder = OfAccount account_id | OfDataset dataset_id

record access_spec =
  spec_properties :: "holder \<Rightarrow> property_name \<Rightarrow> property_value option"
  spec_relations :: "(account_id \<times> account_to_dataset_relation \<times> dataset_id) set"

datatype rebac_request =
    SetAccountProperty account_id account_property_name property_value
  | UnsetAccountProperty account_id account_property_name
  | SetDatasetProperty dataset_id dataset_property_name property_value
  | UnsetDatasetProperty dataset_id dataset_property_name
  | DeleteDatasetProperties dataset_id
  | InsertRelation account_id account_to_dataset_relation dataset_id
  | DeleteRelation account_id account_to_dataset_relation dataset_id
  | ConsumeLifecycle dataset_lifecycle_message

definition spec_set :: "holder \<Rightarrow> property_name \<Rightarrow> property_value option \<Rightarrow> access_spec \<Rightarrow> access_spec" where
  "spec_set h p v a = a\<lparr>spec_properties := (spec_properties a)(h := (spec_properties a h)(p := v))\<rparr>"

definition spec_clear :: "holder \<Rightarrow> access_spec \<Rightarrow> access_spec" where
  "spec_clear h a = a\<lparr>spec_properties := (spec_properties a)(h := Map.empty)\<rparr>"

fun spec_lifecycle :: "dataset_lifecycle_message \<Rightarrow> access_spec \<Rightarrow> access_spec" where
  "spec_lifecycle (LifecycleCreated d _ visibility) a =
     spec_set (OfDataset d) (DatasetProperty AllowsPublicRead)
       (Some (if visibility = VisibilityPublic then ''true'' else ''false'')) a"
| "spec_lifecycle (LifecycleDeleted d) a = spec_clear (OfDataset d) a"
| "spec_lifecycle (LifecycleDependenciesUpdated _ _) a = a"

fun spec_request :: "rebac_request \<Rightarrow> access_spec \<Rightarrow> access_spec" where
  "spec_request (SetAccountProperty i p v) a = spec_set (OfAccount i) (AccountProperty p) (Some v) a"
| "spec_request (UnsetAccountProperty i p) a = spec_set (OfAccount i) (AccountProperty p) None a"
| "spec_request (SetDatasetProperty d p v) a = spec_set (OfDataset d) (DatasetProperty p) (Some v) a"
| "spec_request (UnsetDatasetProperty d p) a = spec_set (OfDataset d) (DatasetProperty p) None a"
| "spec_request (DeleteDatasetProperties d) a = spec_clear (OfDataset d) a"
| "spec_request (InsertRelation i r d) a = a\<lparr>spec_relations := insert (i, r, d) (spec_relations a)\<rparr>"
| "spec_request (DeleteRelation i r d) a = a\<lparr>spec_relations := spec_relations a - {(i, r, d)}\<rparr>"
| "spec_request (ConsumeLifecycle m) a = spec_lifecycle m a"

definition empty_access :: access_spec where
  "empty_access = \<lparr>spec_properties = (\<lambda>_. Map.empty), spec_relations = {}\<rparr>"

fun service_request :: "externs \<Rightarrow> rebac_request \<Rightarrow> unit rebac_op" where
  "service_request x (SetAccountProperty i p v) = set_account_property x i p v"
| "service_request x (UnsetAccountProperty i p) = unset_account_property x i p"
| "service_request x (SetDatasetProperty d p v) = set_dataset_property x d p v"
| "service_request x (UnsetDatasetProperty d p) = unset_dataset_property x d p"
| "service_request x (DeleteDatasetProperties d) = delete_dataset_properties x d"
| "service_request x (InsertRelation i r d) = insert_account_dataset_relation x i r d"
| "service_request x (DeleteRelation i r d) = delete_account_dataset_relation x i r d"
| "service_request x (ConsumeLifecycle m) = rebac_consume_message x m"

fun service_run :: "externs \<Rightarrow> rebac_request list \<Rightarrow> unit rebac_op" where
  "service_run x [] st = (Inr (), st)"
| "service_run x (q # qs) st =
     (case service_request x q st of
        (Inl e, st) \<Rightarrow> (Inl e, st)
      | (Inr _, st) \<Rightarrow> service_run x qs st)"

definition wf_account :: "account_id \<Rightarrow> bool" where "wf_account a \<longleftrightarrow> wf_did (account_id_did a)"
definition wf_dataset :: "dataset_id \<Rightarrow> bool" where "wf_dataset d \<longleftrightarrow> wf_did (dataset_id_did d)"

fun wf_lifecycle :: "dataset_lifecycle_message \<Rightarrow> bool" where
  "wf_lifecycle (LifecycleCreated d _ _) \<longleftrightarrow> wf_dataset d"
| "wf_lifecycle (LifecycleDeleted d) \<longleftrightarrow> wf_dataset d"
| "wf_lifecycle (LifecycleDependenciesUpdated d _) \<longleftrightarrow> wf_dataset d"

fun wf_request :: "rebac_request \<Rightarrow> bool" where
  "wf_request (SetAccountProperty i p v) \<longleftrightarrow> wf_account i"
| "wf_request (UnsetAccountProperty i p) \<longleftrightarrow> wf_account i"
| "wf_request (SetDatasetProperty d p v) \<longleftrightarrow> wf_dataset d"
| "wf_request (UnsetDatasetProperty d p) \<longleftrightarrow> wf_dataset d"
| "wf_request (DeleteDatasetProperties d) \<longleftrightarrow> wf_dataset d"
| "wf_request (InsertRelation i r d) \<longleftrightarrow> wf_account i \<and> wf_dataset d"
| "wf_request (DeleteRelation i r d) \<longleftrightarrow> wf_account i \<and> wf_dataset d"
| "wf_request (ConsumeLifecycle m) \<longleftrightarrow> wf_lifecycle m"

section \<open>The service refines it\<close>

definition did_text_of :: "externs \<Rightarrow> did_odf \<Rightarrow> u8 list" where
  "did_text_of x d = (case did_odf_as_did_str x d of Inr s \<Rightarrow> s | Inl _ \<Rightarrow> [])"

fun holder_entity :: "externs \<Rightarrow> holder \<Rightarrow> entity" where
  "holder_entity x (OfAccount i) = entity_new_account (did_text_of x (account_id_did i))"
| "holder_entity x (OfDataset d) = entity_new_dataset (did_text_of x (dataset_id_did d))"

fun wf_holder :: "holder \<Rightarrow> bool" where
  "wf_holder (OfAccount i) \<longleftrightarrow> wf_account i"
| "wf_holder (OfDataset d) \<longleftrightarrow> wf_dataset d"

definition relation_row :: "externs \<Rightarrow> account_id \<times> account_to_dataset_relation \<times> dataset_id \<Rightarrow> entities_relations_row" where
  "relation_row x = (\<lambda>(i, r, d).
     entities_relations_row_new (holder_entity x (OfAccount i)) (AccountToDataset r) (holder_entity x (OfDataset d)))"

lemma did_text_of_inj:
  assumes "externs_ok x" and "wf_did d" and "wf_did d'" and "did_text_of x d = did_text_of x d'"
  shows "d = d'"
  using did_text [OF assms(1,2)] did_text [OF assms(1,3)] assms(4) by (auto simp: did_text_of_def)

lemma holder_entity_inj:
  assumes "externs_ok x" and "wf_holder h" and "wf_holder h'" and "holder_entity x h = holder_entity x h'"
  shows "h = h'"
proof -
  have acc: "account_id_did i = account_id_did j \<longleftrightarrow> i = j" for i j by (cases i; cases j) simp
  have dat: "dataset_id_did i = dataset_id_did j \<longleftrightarrow> i = j" for i j by (cases i; cases j) simp
  show ?thesis
    using assms by (cases h; cases h')
      (auto simp: wf_account_def wf_dataset_def entity_new_account_def entity_new_dataset_def acc dat
        dest!: did_text_of_inj [OF assms(1), rotated 2])
qed

lemma relation_row_inj:
  assumes "externs_ok x" and "wf_account i" "wf_account i'" "wf_dataset d" "wf_dataset d'"
    and "relation_row x (i, r, d) = relation_row x (i', r', d')"
  shows "i = i' \<and> r = r' \<and> d = d'"
  using assms holder_entity_inj [OF assms(1), of "OfAccount i" "OfAccount i'"]
    holder_entity_inj [OF assms(1), of "OfDataset d" "OfDataset d'"]
  by (simp add: relation_row_def entities_relations_row_new_def)

lemma entity_of_id:
  assumes "externs_ok x"
  shows "wf_account i \<Longrightarrow> account_entity x i = Inr (holder_entity x (OfAccount i))"
    "wf_dataset d \<Longrightarrow> dataset_entity x d = Inr (holder_entity x (OfDataset d))"
  using did_text [OF assms, of "account_id_did i"] did_text [OF assms, of "dataset_id_did d"]
  by (auto simp: account_entity_def dataset_entity_def did_string_def did_text_of_def wf_account_def wf_dataset_def)

fun lifecycle_command :: "externs \<Rightarrow> dataset_lifecycle_message \<Rightarrow> repo_command" where
  "lifecycle_command x (LifecycleCreated d _ visibility) =
     CmdSet (holder_entity x (OfDataset d)) (DatasetProperty AllowsPublicRead)
       (if visibility = VisibilityPublic then ''true'' else ''false'')"
| "lifecycle_command x (LifecycleDeleted d) = CmdDeleteAll (holder_entity x (OfDataset d))"
| "lifecycle_command x (LifecycleDependenciesUpdated _ _) = CmdNothing"

fun request_command :: "externs \<Rightarrow> rebac_request \<Rightarrow> repo_command" where
  "request_command x (SetAccountProperty i p v) = CmdSet (holder_entity x (OfAccount i)) (AccountProperty p) v"
| "request_command x (UnsetAccountProperty i p) = CmdDelete (holder_entity x (OfAccount i)) (AccountProperty p)"
| "request_command x (SetDatasetProperty d p v) = CmdSet (holder_entity x (OfDataset d)) (DatasetProperty p) v"
| "request_command x (UnsetDatasetProperty d p) = CmdDelete (holder_entity x (OfDataset d)) (DatasetProperty p)"
| "request_command x (DeleteDatasetProperties d) = CmdDeleteAll (holder_entity x (OfDataset d))"
| "request_command x (InsertRelation i r d) = CmdInsertRow (relation_row x (i, r, d))"
| "request_command x (DeleteRelation i r d) = CmdDeleteRow (relation_row x (i, r, d))"
| "request_command x (ConsumeLifecycle m) = lifecycle_command x m"

lemma hidden_results:
  "apfst map_delete_entity_property_result (delete_entity_property e p st) = (Inr (), snd (delete_entity_property e p st))"
  "apfst map_delete_properties_result (delete_entity_properties e st) = (Inr (), snd (delete_entity_properties e st))"
  "apfst map_insert_relation_result (insert_entities_relation e r e' st) = (Inr (), snd (insert_entities_relation e r e' st))"
  "apfst map_delete_relation_result (delete_entities_relation e r e' st) = (Inr (), snd (delete_entities_relation e r e' st))"
  by (simp_all add: rebac_ops split: option.split)

lemmas service_defs = set_account_property_def unset_account_property_def set_dataset_property_def
  unset_dataset_property_def delete_dataset_properties_def insert_account_dataset_relation_def
  delete_account_dataset_relation_def with_entity_def handle_dataset_created_def allows_public_read_def

lemma consume_exec:
  assumes "externs_ok x" and "wf_lifecycle m"
  shows "rebac_consume_message x m st = (Inr (), exec_command (lifecycle_command x m) st)"
proof (cases m)
  case (LifecycleCreated d owner visibility)
  with assms show ?thesis by (cases visibility) (simp_all add: service_defs entity_of_id)
qed (use assms in \<open>simp_all add: service_defs entity_of_id hidden_results\<close>)

lemma service_request_exec:
  assumes "externs_ok x" and "wf_request q"
  shows "service_request x q st = (Inr (), exec_command (request_command x q) st)"
  using assms consume_exec [OF assms(1)]
  by (cases q) (simp_all add: service_defs entity_of_id hidden_results relation_row_def entities_relations_row_new_def)

lemma service_run_exec:
  assumes "externs_ok x" and "list_all wf_request qs"
  shows "service_run x qs st = (Inr (), fold exec_command (map (request_command x) qs) st)"
  using assms(2) by (induction qs arbitrary: st) (simp_all add: service_request_exec [OF assms(1)])

definition agrees :: "externs \<Rightarrow> property_table \<times> entities_relations_row set \<Rightarrow> access_spec \<Rightarrow> bool" where
  "agrees x v a \<longleftrightarrow> (\<forall>h. wf_holder h \<longrightarrow> fst v (holder_entity x h) = spec_properties a h)
     \<and> snd v = relation_row x ` spec_relations a
     \<and> (\<forall>(i, r, d) \<in> spec_relations a. wf_account i \<and> wf_dataset d)"

lemma agrees_set:
  assumes "externs_ok x" and "agrees x (t, rs) a" and "wf_holder h"
  shows "agrees x (t(holder_entity x h := (t (holder_entity x h))(p := v)), rs) (spec_set h p v a)"
    "agrees x (t(holder_entity x h := Map.empty), rs) (spec_clear h a)"
  using assms holder_entity_inj [OF assms(1)] by (auto simp: agrees_def spec_set_def spec_clear_def)

lemma agrees_rows:
  assumes "externs_ok x" and "agrees x (t, rs) a" and "wf_account i" and "wf_dataset d"
  shows "agrees x (t, insert (relation_row x (i, r, d)) rs) (a\<lparr>spec_relations := insert (i, r, d) (spec_relations a)\<rparr>)"
    "agrees x (t, rs - {relation_row x (i, r, d)}) (a\<lparr>spec_relations := spec_relations a - {(i, r, d)}\<rparr>)"
proof -
  show "agrees x (t, insert (relation_row x (i, r, d)) rs) (a\<lparr>spec_relations := insert (i, r, d) (spec_relations a)\<rparr>)"
    using assms(2-) by (auto simp: agrees_def)
  have "relation_row x q = relation_row x (i, r, d) \<Longrightarrow> q \<in> spec_relations a \<Longrightarrow> q = (i, r, d)" for q
    using assms(2-) relation_row_inj [OF assms(1)] by (cases q) (fastforce simp: agrees_def)
  then show "agrees x (t, rs - {relation_row x (i, r, d)}) (a\<lparr>spec_relations := spec_relations a - {(i, r, d)}\<rparr>)"
    using assms(2) by (auto simp: agrees_def)
qed

lemma agrees_request:
  assumes "externs_ok x" and "agrees x v a" and "wf_request q"
  shows "agrees x (spec_command (request_command x q) v) (spec_request q a)"
proof -
  obtain t rs where v: "v = (t, rs)" by fastforce
  note step = agrees_set [OF assms(1), of t rs a] agrees_rows [OF assms(1), of t rs a]
  show ?thesis
  proof (cases q)
    case (ConsumeLifecycle m)
    then show ?thesis using assms(2,3) step(1,2) [of "OfDataset _"] v
      by (cases m) (simp_all del: holder_entity.simps)
  qed (use assms(2,3) step(1,2) [of "OfAccount _"] step(1,2) [of "OfDataset _"] step(3,4) v in \<open>simp_all del: holder_entity.simps\<close>)
qed

lemma agrees_run:
  assumes "externs_ok x" and "agrees x v a" and "list_all wf_request qs"
  shows "agrees x (fold spec_command (map (request_command x) qs) v) (fold spec_request qs a)"
  using assms(2,3) by (induction qs arbitrary: v a) (simp_all add: agrees_request [OF assms(1)])

lemma service_state:
  assumes "externs_ok x" and "list_all wf_request qs"
  shows "\<exists>st. service_run x qs default_rebac_state = (Inr (), st) \<and> wf_rebac st
    \<and> agrees x (table_of st, rows_of st) (fold spec_request qs empty_access)"
proof -
  let ?st = "fold exec_command (map (request_command x) qs) default_rebac_state"
  have "agrees x (\<lambda>_. Map.empty, {}) empty_access" by (simp add: agrees_def empty_access_def)
  from agrees_run [OF assms(1) this assms(2)] show ?thesis
    using service_run_exec [OF assms] repo.run_from_empty [of "map (request_command x) qs"] by simp
qed

lemma subject_rows:
  assumes "externs_ok x" and "wf_account i" and "agrees x (t, rows_of st) a"
  shows "row_object ` {row \<in> rows_of st. row_subject_entity row = holder_entity x (OfAccount i)}
    = (\<lambda>(r, d). \<lparr>ewr_entity = holder_entity x (OfDataset d), ewr_relation = AccountToDataset r\<rparr>)
        ` {(r, d). (i, r, d) \<in> spec_relations a}"
proof -
  have rows: "rows_of st = relation_row x ` spec_relations a" and wf: "\<forall>(i, r, d) \<in> spec_relations a. wf_account i \<and> wf_dataset d"
    using assms(3) by (simp_all add: agrees_def)
  have "row_subject_entity (relation_row x (j, r, d)) = holder_entity x (OfAccount i) \<longleftrightarrow> j = i"
    if "(j, r, d) \<in> spec_relations a" for j r d
    using that wf holder_entity_inj [OF assms(1), of "OfAccount j" "OfAccount i"] assms(2)
    by (fastforce simp: relation_row_def entities_relations_row_new_def)
  then have "{row \<in> rows_of st. row_subject_entity row = holder_entity x (OfAccount i)}
      = (\<lambda>(r, d). relation_row x (i, r, d)) ` {(r, d). (i, r, d) \<in> spec_relations a}"
    unfolding rows by (auto simp: image_iff)
  then show ?thesis
    by (simp add: image_image case_prod_unfold relation_row_def entities_relations_row_new_def row_object_def)
qed

section \<open>Properties\<close>

text \<open>
  C27. The access service refines a table of properties and a set of relations keyed by the identifiers of accounts and
  datasets. From the empty repository, any sequence of requests and life cycle messages with well-formed identifiers
  succeeds, and afterwards each account and each dataset has exactly the properties of the table, once
  each, and each account exactly the relations of the set, whatever the order in which the hash maps are iterated. In
  particular two identifiers never share their rows.
\<close>

theorem rebac_service_refines:
  assumes "externs_ok x" and "rebac_order_ok ord" and "list_all wf_request qs"
  shows "\<exists>st a. a = fold spec_request qs empty_access \<and> service_run x qs default_rebac_state = (Inr (), st)
    \<and> (\<forall>i. wf_account i \<longrightarrow> (\<exists>ps. get_account_properties x ord i st = (Inr ps, st)
          \<and> distinct (map fst ps) \<and> map_of ps = spec_properties a (OfAccount i)))
    \<and> (\<forall>d. wf_dataset d \<longrightarrow> (\<exists>ps. get_dataset_properties x ord d st = (Inr ps, st)
          \<and> distinct (map fst ps) \<and> map_of ps = spec_properties a (OfDataset d)))
    \<and> (\<forall>i. wf_account i \<longrightarrow> (\<exists>rs. get_account_dataset_relations x ord i st = (Inr rs, st) \<and> distinct rs
          \<and> set rs = (\<lambda>(r, d). \<lparr>ewr_entity = holder_entity x (OfDataset d), ewr_relation = AccountToDataset r\<rparr>)
              ` {(r, d). (i, r, d) \<in> spec_relations a}))"
proof -
  let ?a = "fold spec_request qs empty_access"
  obtain st where st: "service_run x qs default_rebac_state = (Inr (), st)" "wf_rebac st"
    "agrees x (table_of st, rows_of st) ?a" using service_state [OF assms(1,3)] by blast
  note props = get_entity_properties_view [OF st(2) assms(2)]
  note rels = get_subject_entity_relations_view [OF st(2) assms(2)]
  have table: "wf_holder h \<Longrightarrow> table_of st (holder_entity x h) = spec_properties ?a h" for h
    using st(3) by (simp add: agrees_def)
  have "\<exists>ps. get_account_properties x ord i st = (Inr ps, st) \<and> distinct (map fst ps) \<and> map_of ps = spec_properties ?a (OfAccount i)"
    if "wf_account i" for i
    using props [of "holder_entity x (OfAccount i)"] table [of "OfAccount i"] that
    by (simp add: get_account_properties_def with_entity_def entity_of_id assms(1))
  moreover have "\<exists>ps. get_dataset_properties x ord d st = (Inr ps, st) \<and> distinct (map fst ps) \<and> map_of ps = spec_properties ?a (OfDataset d)"
    if "wf_dataset d" for d
    using props [of "holder_entity x (OfDataset d)"] table [of "OfDataset d"] that
    by (simp add: get_dataset_properties_def with_entity_def entity_of_id assms(1))
  moreover have "\<exists>rs. get_account_dataset_relations x ord i st = (Inr rs, st) \<and> distinct rs
      \<and> set rs = (\<lambda>(r, d). \<lparr>ewr_entity = holder_entity x (OfDataset d), ewr_relation = AccountToDataset r\<rparr>)
          ` {(r, d). (i, r, d) \<in> spec_relations ?a}" if "wf_account i" for i
    using rels [of "holder_entity x (OfAccount i)"] subject_rows [OF assms(1) that st(3)] that
    by (simp add: get_account_dataset_relations_def with_entity_def entity_of_id assms(1) del: holder_entity.simps)
  ultimately show ?thesis using st(1) by blast
qed

text \<open>The sample: a public dataset that an account may edit, deleted and created again as private.\<close>

definition demo_dataset :: dataset_id where "demo_dataset = DatasetID (replicate 32 7)"
definition demo_account :: account_id where "demo_account = AccountID (replicate 32 9)"
definition demo_rebac_order :: rebac_order where "demo_rebac_order = \<lparr>order_properties = rev, order_rows = rev\<rparr>"

definition demo_requests :: "rebac_request list" where
  "demo_requests =
    [ConsumeLifecycle (LifecycleCreated demo_dataset demo_account VisibilityPublic),
     InsertRelation demo_account Editor demo_dataset,
     ConsumeLifecycle (LifecycleDeleted demo_dataset),
     ConsumeLifecycle (LifecycleCreated demo_dataset demo_account VisibilityPrivate)]"

lemma demo_rebac_ok:
  "rebac_order_ok demo_rebac_order" "list_all wf_request demo_requests" "wf_account demo_account" "wf_dataset demo_dataset"
  by (simp_all add: rebac_order_ok_def demo_rebac_order_def demo_requests_def wf_account_def wf_dataset_def wf_did_def
      demo_dataset_def demo_account_def MAX_DID_KEY_LEN_def)

theorem rebac_service_refines_witness:
  "\<exists>st ps. service_run demo_externs demo_requests default_rebac_state = (Inr (), st)
    \<and> get_dataset_properties demo_externs demo_rebac_order demo_dataset st = (Inr ps, st)
    \<and> map_of ps = [DatasetProperty AllowsPublicRead \<mapsto> ''false'']"
proof -
  have "spec_properties (fold spec_request demo_requests empty_access) (OfDataset demo_dataset)
      = [DatasetProperty AllowsPublicRead \<mapsto> ''false'']"
    by (simp add: demo_requests_def empty_access_def spec_set_def spec_clear_def fun_eq_iff)
  then show ?thesis
    using rebac_service_refines [OF demo_externs_ok demo_rebac_ok(1,2)] demo_rebac_ok(4) by (metis (no_types, lifting))
qed

text \<open>
  C40. Deleting a dataset removes its properties but none of its relations. In any state of the repository,
  consuming the message that a dataset is deleted leaves the dataset without properties, and every account keeps
  every relation to it; the message that a dataset with this identifier is created again does not remove them either, so an
  account that could edit the deleted dataset can edit the new one.
\<close>

theorem deleted_dataset_keeps_relations:
  assumes "externs_ok x" and "wf_dataset d" and "wf_account i"
  shows "\<exists>st' st'' rs. rebac_consume_message x (LifecycleDeleted d) st = (Inr (), st')
    \<and> get_dataset_properties x ord d st' = (Inr [], st')
    \<and> rebac_consume_message x (LifecycleCreated d owner visibility) st' = (Inr (), st'')
    \<and> get_account_dataset_relations x ord i st = (Inr rs, st)
    \<and> get_account_dataset_relations x ord i st'' = (Inr rs, st'')
    \<and> entities_relations_rows st'' = entities_relations_rows st"
proof -
  define st' where "st' = exec_command (lifecycle_command x (LifecycleDeleted d)) st"
  define st'' where "st'' = exec_command (lifecycle_command x (LifecycleCreated d owner visibility)) st'"
  have steps: "rebac_consume_message x (LifecycleDeleted d) st = (Inr (), st')"
    "rebac_consume_message x (LifecycleCreated d owner visibility) st' = (Inr (), st'')"
    using assms(2) consume_exec [OF assms(1)] by (simp_all only: st'_def st''_def wf_lifecycle.simps)
  have rows: "entities_relations_rows st'' = entities_relations_rows st" by (simp add: st''_def st'_def rebac_ops)
  have "get_entity_properties ord (holder_entity x (OfDataset d)) st' = []"
    by (simp add: st'_def get_entity_properties_def rebac_ops delete_conv')
  then have "get_dataset_properties x ord d st' = (Inr [], st')"
    using assms(1,2) by (simp add: get_dataset_properties_def with_entity_def entity_of_id)
  moreover have "get_account_dataset_relations x ord i s
      = (Inr (get_subject_entity_relations ord (holder_entity x (OfAccount i)) s), s)" for s
    using assms(1,3) by (simp add: get_account_dataset_relations_def with_entity_def entity_of_id)
  moreover have "get_subject_entity_relations ord e st'' = get_subject_entity_relations ord e st" for e
    using rows by (simp add: get_subject_entity_relations_def get_rows_def)
  ultimately show ?thesis using steps rows by simp
qed

definition demo_shared :: rebac_state where
  "demo_shared = \<lparr>entities_properties_map = [],
     entities_relations_rows = [relation_row demo_externs (demo_account, Editor, demo_dataset)]\<rparr>"

theorem deleted_dataset_keeps_relations_witness:
  "\<exists>st' st''. rebac_consume_message demo_externs (LifecycleDeleted demo_dataset) demo_shared = (Inr (), st')
    \<and> rebac_consume_message demo_externs (LifecycleCreated demo_dataset (AccountID []) VisibilityPrivate) st' = (Inr (), st'')
    \<and> get_account_dataset_relations demo_externs demo_rebac_order demo_account st'' =
        (Inr [\<lparr>ewr_entity = holder_entity demo_externs (OfDataset demo_dataset), ewr_relation = AccountToDataset Editor\<rparr>], st'')"
proof -
  have "get_account_dataset_relations demo_externs demo_rebac_order demo_account demo_shared =
      (Inr [\<lparr>ewr_entity = holder_entity demo_externs (OfDataset demo_dataset), ewr_relation = AccountToDataset Editor\<rparr>], demo_shared)"
    using demo_rebac_ok(3) demo_externs_ok
    by (simp add: get_account_dataset_relations_def with_entity_def entity_of_id get_subject_entity_relations_def get_rows_def
        demo_rebac_order_def demo_shared_def relation_row_def entities_relations_row_new_def row_object_def map_filter_simps)
  then show ?thesis
    using deleted_dataset_keeps_relations [OF demo_externs_ok demo_rebac_ok(4,3), of demo_shared demo_rebac_order "AccountID []" VisibilityPrivate]
    by auto
qed

end
