(* ===== verification/Identity.thy ===== *)
theory Identity
  imports Dids
begin

text \<open>
  The grammar of dataset identity (\<open>opendatafabric/src/identity/grammar.rs\<close>). A string is the list of its
  bytes, each a \<open>char\<close>; a matcher returns the matched head and the rest.
\<close>

type_synonym matcher = "string \<Rightarrow> (string \<times> string) option"

section \<open>Combinators\<close>

definition match_non_eof :: matcher where
  "match_non_eof s = (if s = [] then None else Some ([], s))"

text \<open>
  The loop ends when the matcher fails, and then the result is \<open>Some\<close>. A matcher that does
  not shorten its input would make it run forever; the model returns \<open>None\<close> there.
\<close>

function match_many_loop :: "matcher \<Rightarrow> string \<Rightarrow> nat \<Rightarrow> string \<Rightarrow> (string \<times> string) option" where
  "match_many_loop m s len tail =
     (case m tail of
        Some (head, ntail) \<Rightarrow>
          if length ntail < length tail then match_many_loop m s (len + length head) ntail else None
      | None \<Rightarrow> Some (take len s, drop len s))"
  by pat_completeness auto
termination by (relation "measure (\<lambda>(m, s, len, tail). length tail)") auto

declare match_many_loop.simps [simp del]

definition match_zero_or_many :: "string \<Rightarrow> matcher \<Rightarrow> (string \<times> string) option" where
  "match_zero_or_many s m = match_many_loop m s 0 s"

definition match_one_or_many :: "string \<Rightarrow> matcher \<Rightarrow> (string \<times> string) option" where
  "match_one_or_many s m =
     Option.bind (m s) (\<lambda>(h, t). Option.bind (match_zero_or_many t m) (\<lambda>(hh, tt).
       Some (take (length h + length hh) s, tt)))"

definition match_alt :: "string \<Rightarrow> matcher \<Rightarrow> matcher \<Rightarrow> (string \<times> string) option" where
  "match_alt s m1 m2 = (case m1 s of Some r \<Rightarrow> Some r | None \<Rightarrow> m2 s)"

definition match_opt :: "string \<Rightarrow> matcher \<Rightarrow> (string \<times> string) option" where
  "match_opt s m = (case m s of Some r \<Rightarrow> Some r | None \<Rightarrow> Some ([], s))"

definition match_char :: "string \<Rightarrow> char \<Rightarrow> (string \<times> string) option" where
  "match_char s c = (if s \<noteq> [] \<and> hd s = c then Some (take 1 s, drop 1 s) else None)"

definition match_one_of_chars :: "string \<Rightarrow> char list \<Rightarrow> (string \<times> string) option" where
  "match_one_of_chars s cs = (if s \<noteq> [] \<and> hd s \<in> set cs then Some (take 1 s, drop 1 s) else None)"

definition match_str :: "string \<Rightarrow> string \<Rightarrow> (string \<times> string) option" where
  "match_str s p = (if take (length p) s = p then Some (take (length p) s, drop (length p) s) else None)"

definition in_range :: "char \<Rightarrow> char \<Rightarrow> char \<Rightarrow> bool" where
  "in_range a z c \<longleftrightarrow> (of_char a :: nat) \<le> of_char c \<and> (of_char c :: nat) \<le> of_char z"

definition is_ascii_alphanumeric :: "char \<Rightarrow> bool" where
  "is_ascii_alphanumeric c \<longleftrightarrow>
     in_range (CHR ''0'') (CHR ''9'') c \<or> in_range (CHR ''A'') (CHR ''Z'') c \<or> in_range (CHR ''a'') (CHR ''z'') c"

definition match_predicate :: "string \<Rightarrow> (char \<Rightarrow> bool) \<Rightarrow> (string \<times> string) option" where
  "match_predicate s pred =
     (let matched = length (takeWhile pred s)
      in if matched = 0 then None else Some (take matched s, drop matched s))"

definition match_alphanums :: matcher where
  "match_alphanums s =
     (let alnums = length (takeWhile is_ascii_alphanumeric s)
      in if alnums = 0 then None else Some (take alnums s, drop alnums s))"

definition match_multibase :: matcher where
  "match_multibase s =
     match_predicate s (\<lambda>b. in_range (CHR ''a'') (CHR ''z'') b \<or> in_range (CHR ''A'') (CHR ''Z'') b
       \<or> in_range (CHR ''0'') (CHR ''9'') b \<or> b = CHR ''+'' \<or> b = CHR ''/'' \<or> b = CHR ''='')"

section \<open>Schemes and host names\<close>

definition scheme_char :: "char \<Rightarrow> bool" where
  "scheme_char b \<longleftrightarrow> in_range (CHR ''a'') (CHR ''z'') b \<or> in_range (CHR ''A'') (CHR ''Z'') b \<or> in_range (CHR ''0'') (CHR ''9'') b"

definition match_scheme :: matcher where
  "match_scheme s =
     Option.bind (match_predicate s scheme_char) (\<lambda>(h, t).
     Option.bind (match_zero_or_many t (\<lambda>s.
       Option.bind (match_char s (CHR ''+'')) (\<lambda>(_, t).
       Option.bind (match_predicate t scheme_char) (\<lambda>(h, tt). Some (take (Suc (length h)) s, tt))))) (\<lambda>(hh, tt).
     Some (take (length h + length hh) s, tt)))"

definition match_url :: matcher where
  "match_url s =
     Option.bind (match_scheme s) (\<lambda>(scheme, t). Option.bind (match_str t ''://'') (\<lambda>_. Some (scheme, s)))"

definition match_subdomain :: matcher where
  "match_subdomain s =
     Option.bind (match_alphanums s) (\<lambda>(h, t).
     Option.bind (match_zero_or_many t (\<lambda>s.
       Option.bind (match_char s (CHR ''-'')) (\<lambda>(_, t).
       Option.bind (match_alphanums t) (\<lambda>(h, tt). Some (take (Suc (length h)) s, tt))))) (\<lambda>(hh, tt).
     Some (take (length h + length hh) s, tt)))"

definition match_hostname :: matcher where
  "match_hostname s =
     Option.bind (match_subdomain s) (\<lambda>(h, t).
     Option.bind (match_zero_or_many t (\<lambda>s.
       Option.bind (match_char s (CHR ''.'')) (\<lambda>(_, t).
       Option.bind (match_subdomain t) (\<lambda>(h, tt). Some (take (Suc (length h)) s, tt))))) (\<lambda>(hh, tt).
     Some (take (length h + length hh) s, tt)))"

section \<open>Patterns\<close>

definition match_dot_or_dash :: matcher where
  "match_dot_or_dash s = match_one_of_chars s [CHR ''.'', CHR ''-'']"

definition match_hostname_pattern_start_element :: matcher where
  "match_hostname_pattern_start_element s =
     Option.bind (match_hostname s) (\<lambda>(h1, t1). Option.bind (match_opt t1 match_dot_or_dash) (\<lambda>(h2, t2).
       Some (take (length h1 + length h2) s, t2)))"

definition match_hostname_pattern_middle_element :: matcher where
  "match_hostname_pattern_middle_element s =
     Option.bind (match_alt s
       (\<lambda>s. Option.bind (match_opt s match_dot_or_dash) (\<lambda>(h1, t1).
            Option.bind (match_hostname t1) (\<lambda>(h2, t2).
            Option.bind (match_opt t2 match_dot_or_dash) (\<lambda>(h3, t3).
              Some (take (length h1 + length h2 + length h3) s, t3)))))
       match_dot_or_dash) (\<lambda>(h1, t1).
     Option.bind (match_non_eof t1) (\<lambda>(h2, t2). Some (take (length h1 + length h2) s, t2)))"

definition match_hostname_pattern_end_element :: matcher where
  "match_hostname_pattern_end_element s =
     Option.bind (match_opt s match_dot_or_dash) (\<lambda>(h1, t1). Option.bind (match_hostname t1) (\<lambda>(h2, t2).
       Some (take (length h1 + length h2) s, t2)))"

definition match_percents :: matcher where
  "match_percents s = match_one_or_many s (\<lambda>s. match_char s (CHR ''%''))"

definition match_hostname_pattern :: matcher where
  "match_hostname_pattern s =
     Option.bind (match_opt s match_hostname_pattern_start_element) (\<lambda>(h1, t1).
     Option.bind (match_zero_or_many t1 (\<lambda>s.
       Option.bind (match_percents s) (\<lambda>(h1, t1).
       Option.bind (match_hostname_pattern_middle_element t1) (\<lambda>(h2, t2).
         Some (take (length h1 + length h2) s, t2))))) (\<lambda>(h2, t2).
     Option.bind (match_percents t2) (\<lambda>(h3, t3).
     Option.bind (match_opt t3 match_hostname_pattern_end_element) (\<lambda>(h4, t4).
       Some (take (length h1 + length h2 + length h3 + length h4) s, t4)))))"

section \<open>Identifiers, names and aliases\<close>

definition match_dataset_id :: matcher where
  "match_dataset_id s =
     Option.bind (match_str s ''did:odf:'') (\<lambda>(h, t). Option.bind (match_multibase t) (\<lambda>(hh, tt).
       Some (take (length h + length hh) s, tt)))"

definition match_dataset_name :: matcher where "match_dataset_name s = match_hostname s"

definition match_dataset_name_pattern :: matcher where
  "match_dataset_name_pattern s = match_alt s match_hostname_pattern match_hostname"

definition match_account_name :: matcher where "match_account_name s = match_hostname s"
definition match_repo_name :: matcher where "match_repo_name s = match_hostname s"

text \<open>\<open>str::split_once\<close>.\<close>

fun split_once :: "char \<Rightarrow> string \<Rightarrow> (string \<times> string) option" where
  "split_once c [] = None"
| "split_once c (a # s) =
     (if a = c then Some ([], s) else map_option (\<lambda>(h, t). (a # h, t)) (split_once c s))"

definition match_remote_dataset_id :: "string \<Rightarrow> (string option \<times> string \<times> string) option" where
  "match_remote_dataset_id s =
     (case split_once (CHR ''/'') s of
        None \<Rightarrow> Option.bind (match_dataset_id s) (\<lambda>(i, tail). Some (None, i, tail))
      | Some (head, tail) \<Rightarrow>
          (case match_repo_name head of
             Some (repo, []) \<Rightarrow> Option.bind (match_dataset_id tail) (\<lambda>(i, tail). Some (Some repo, i, tail))
           | _ \<Rightarrow> None))"

definition match_dataset_alias :: "string \<Rightarrow> (string option \<times> string \<times> string) option" where
  "match_dataset_alias s =
     (case split_once (CHR ''/'') s of
        None \<Rightarrow> Option.bind (match_dataset_name s) (\<lambda>(ds, tail). Some (None, ds, tail))
      | Some (acc, ds) \<Rightarrow>
          (case match_account_name acc of
             Some (acc, []) \<Rightarrow> Option.bind (match_dataset_name ds) (\<lambda>(ds, tail). Some (Some acc, ds, tail))
           | _ \<Rightarrow> None))"

definition match_dataset_alias_remote :: "string \<Rightarrow> (string \<times> string option \<times> string \<times> string) option" where
  "match_dataset_alias_remote s =
     (case split_once (CHR ''/'') s of
        None \<Rightarrow> None
      | Some (repo, rest) \<Rightarrow>
          (case match_repo_name repo of
             Some (repo, []) \<Rightarrow>
               (case split_once (CHR ''/'') rest of
                  Some (acc, rest) \<Rightarrow>
                    (case match_account_name acc of
                       Some (acc, []) \<Rightarrow>
                         Option.bind (match_dataset_name rest) (\<lambda>(ds, tail). Some (repo, Some acc, ds, tail))
                     | _ \<Rightarrow> None)
                | None \<Rightarrow> Option.bind (match_dataset_name rest) (\<lambda>(ds, tail). Some (repo, None, ds, tail)))
           | _ \<Rightarrow> None))"

end
