(* ===== verification/Identity_Refs.thy ===== *)
theory Identity_Refs
  imports Identity
begin

text \<open>
  Names, aliases and references of datasets (\<open>identity/dataset_identity.rs\<close>, \<open>dataset_refs.rs\<close>,
  \<open>dataset_handles.rs\<close>): parsing, printing, equality, ordering and conversions. A parser returns the
  value it could not parse, as \<open>ParseError::new\<close> does. The \<open>url\<close> and \<open>like\<close> crates are parameters.
\<close>

section \<open>Orderings\<close>

datatype ordering = OrdLess | OrdEqual | OrdGreater

fun then_cmp :: "ordering \<Rightarrow> ordering \<Rightarrow> ordering" where
  "then_cmp OrdEqual r = r"
| "then_cmp OrdLess _ = OrdLess"
| "then_cmp OrdGreater _ = OrdGreater"

definition nat_cmp :: "nat \<Rightarrow> nat \<Rightarrow> ordering" where
  "nat_cmp a b = (if a < b then OrdLess else if a = b then OrdEqual else OrdGreater)"

fun list_cmp :: "('a \<Rightarrow> 'a \<Rightarrow> ordering) \<Rightarrow> 'a list \<Rightarrow> 'a list \<Rightarrow> ordering" where
  "list_cmp f [] [] = OrdEqual"
| "list_cmp f [] (_ # _) = OrdLess"
| "list_cmp f (_ # _) [] = OrdGreater"
| "list_cmp f (a # as) (b # bs) = then_cmp (f a b) (list_cmp f as bs)"

fun option_cmp :: "('a \<Rightarrow> 'a \<Rightarrow> ordering) \<Rightarrow> 'a option \<Rightarrow> 'a option \<Rightarrow> ordering" where
  "option_cmp f None None = OrdEqual"
| "option_cmp f None (Some _) = OrdLess"
| "option_cmp f (Some _) None = OrdGreater"
| "option_cmp f (Some a) (Some b) = f a b"

definition str_cmp :: "string \<Rightarrow> string \<Rightarrow> ordering" where
  "str_cmp = list_cmp (\<lambda>a b. nat_cmp (of_char a) (of_char b))"

section \<open>Names (newtype_str!)\<close>

definition to_ascii_lowercase :: "char \<Rightarrow> char" where
  "to_ascii_lowercase c = (if in_range (CHR ''A'') (CHR ''Z'') c then char_of ((of_char c :: nat) + 32) else c)"

definition into_lowercase :: "string \<Rightarrow> string" where
  "into_lowercase = map to_ascii_lowercase"

definition name_eq :: "string \<Rightarrow> string \<Rightarrow> bool" where
  "name_eq a b \<longleftrightarrow> into_lowercase a = into_lowercase b"

definition name_cmp :: "string \<Rightarrow> string \<Rightarrow> ordering" where
  "name_cmp a b = str_cmp (into_lowercase a) (into_lowercase b)"

definition name_from_str :: "matcher \<Rightarrow> string \<Rightarrow> string + string" where
  "name_from_str parse s = (case parse s of Some (_, []) \<Rightarrow> Inr s | _ \<Rightarrow> Inl s)"

definition dataset_name_from_str :: "string \<Rightarrow> string + dataset_name" where
  "dataset_name_from_str = name_from_str match_dataset_name"

definition dataset_name_pattern_from_str :: "string \<Rightarrow> string + string" where
  "dataset_name_pattern_from_str = name_from_str match_dataset_name_pattern"

definition account_name_from_str :: "string \<Rightarrow> string + account_name" where
  "account_name_from_str = name_from_str match_account_name"

definition repo_name_from_str :: "string \<Rightarrow> string + repo_name" where
  "repo_name_from_str = name_from_str match_repo_name"

section \<open>Aliases\<close>

fun option_name_eq :: "string option \<Rightarrow> string option \<Rightarrow> bool" where
  "option_name_eq None None \<longleftrightarrow> True"
| "option_name_eq (Some a) (Some b) \<longleftrightarrow> name_eq a b"
| "option_name_eq _ _ \<longleftrightarrow> False"

definition dataset_alias_new :: "account_name option \<Rightarrow> dataset_name \<Rightarrow> dataset_alias" where
  "dataset_alias_new a n = \<lparr>alias_account_name = a, alias_dataset_name = n\<rparr>"

definition dataset_alias_eq :: "dataset_alias \<Rightarrow> dataset_alias \<Rightarrow> bool" where
  "dataset_alias_eq a b \<longleftrightarrow> option_name_eq (alias_account_name a) (alias_account_name b)
     \<and> name_eq (alias_dataset_name a) (alias_dataset_name b)"

definition dataset_alias_cmp :: "dataset_alias \<Rightarrow> dataset_alias \<Rightarrow> ordering" where
  "dataset_alias_cmp a b = then_cmp (option_cmp name_cmp (alias_account_name a) (alias_account_name b))
     (name_cmp (alias_dataset_name a) (alias_dataset_name b))"

definition dataset_alias_from_str :: "string \<Rightarrow> string + dataset_alias" where
  "dataset_alias_from_str s =
     (case match_dataset_alias s of Some (acc, ds, []) \<Rightarrow> Inr (dataset_alias_new acc ds) | _ \<Rightarrow> Inl s)"

definition dataset_alias_display :: "dataset_alias \<Rightarrow> string" where
  "dataset_alias_display a =
     (case alias_account_name a of None \<Rightarrow> [] | Some acc \<Rightarrow> acc @ ''/'') @ alias_dataset_name a"

definition dataset_alias_remote_new :: "repo_name \<Rightarrow> account_name option \<Rightarrow> dataset_name \<Rightarrow> dataset_alias_remote" where
  "dataset_alias_remote_new r a n = \<lparr>remote_repo_name = r, remote_account_name = a, remote_dataset_name = n\<rparr>"

definition dataset_alias_remote_eq :: "dataset_alias_remote \<Rightarrow> dataset_alias_remote \<Rightarrow> bool" where
  "dataset_alias_remote_eq a b \<longleftrightarrow> name_eq (remote_repo_name a) (remote_repo_name b)
     \<and> option_name_eq (remote_account_name a) (remote_account_name b)
     \<and> name_eq (remote_dataset_name a) (remote_dataset_name b)"

definition dataset_alias_remote_cmp :: "dataset_alias_remote \<Rightarrow> dataset_alias_remote \<Rightarrow> ordering" where
  "dataset_alias_remote_cmp a b = then_cmp (name_cmp (remote_repo_name a) (remote_repo_name b))
     (then_cmp (option_cmp name_cmp (remote_account_name a) (remote_account_name b))
       (name_cmp (remote_dataset_name a) (remote_dataset_name b)))"

definition dataset_alias_remote_from_str :: "string \<Rightarrow> string + dataset_alias_remote" where
  "dataset_alias_remote_from_str s =
     (case match_dataset_alias_remote s of
        Some (repo, acc, ds, []) \<Rightarrow> Inr (dataset_alias_remote_new repo acc ds) | _ \<Rightarrow> Inl s)"

definition dataset_alias_remote_display :: "dataset_alias_remote \<Rightarrow> string" where
  "dataset_alias_remote_display a =
     remote_repo_name a @ ''/'' @ (case remote_account_name a of None \<Rightarrow> [] | Some acc \<Rightarrow> acc @ ''/'') @ remote_dataset_name a"

section \<open>Patterns of aliases\<close>

record dataset_alias_pattern =
  pattern_account_name :: "account_name option"
  pattern_dataset_name :: string

definition dataset_alias_pattern_from_str :: "string \<Rightarrow> string + dataset_alias_pattern" where
  "dataset_alias_pattern_from_str s =
     (case split_once (CHR ''/'') s of
        Some (account, name) \<Rightarrow>
          (case dataset_name_pattern_from_str name of
             Inr p \<Rightarrow>
               (case account_name_from_str account of
                  Inr a \<Rightarrow> Inr \<lparr>pattern_account_name = Some a, pattern_dataset_name = p\<rparr>
                | Inl _ \<Rightarrow> Inl s)
           | Inl _ \<Rightarrow> Inl s)
      | None \<Rightarrow>
          (case dataset_name_pattern_from_str s of
             Inr p \<Rightarrow> Inr \<lparr>pattern_account_name = None, pattern_dataset_name = p\<rparr>
           | Inl _ \<Rightarrow> Inl s))"

text \<open>\<open>ILike::ilike(..).unwrap()\<close>: the crate may reject a pattern.\<close>

definition dataset_name_pattern_matches :: "(string \<Rightarrow> string \<Rightarrow> bool option) \<Rightarrow> string \<Rightarrow> dataset_name \<Rightarrow> (unit, bool) res" where
  "dataset_name_pattern_matches ilike p name =
     (case ilike name p of Some b \<Rightarrow> Inr b | None \<Rightarrow> Inl (Panic ''called Result::unwrap() on an Err value''))"

definition dataset_alias_pattern_matches ::
  "(string \<Rightarrow> string \<Rightarrow> bool option) \<Rightarrow> dataset_alias_pattern \<Rightarrow> dataset_handle \<Rightarrow> (unit, bool) res" where
  "dataset_alias_pattern_matches ilike p h =
     (if pattern_account_name p = None \<or> option_name_eq (pattern_account_name p) (alias_account_name (handle_alias h))
      then dataset_name_pattern_matches ilike (pattern_dataset_name p) (alias_dataset_name (handle_alias h))
      else Inr False)"

section \<open>References\<close>

text \<open>What the code uses of the \<open>url\<close> crate.\<close>

record url_crate =
  url_from_str :: "string \<Rightarrow> url option"
  url_path_segments :: "url \<Rightarrow> string list option"
  url_host_domain :: "url \<Rightarrow> string option"

definition text_of_bytes :: "u8 list \<Rightarrow> string" where
  "text_of_bytes bytes = map (\<lambda>b. char_of (unat b)) bytes"

text \<open>\<open>as_did_str\<close> written with \<open>Display\<close>.\<close>

definition dataset_id_display :: "externs \<Rightarrow> dataset_id \<Rightarrow> (unit, string) res" where
  "dataset_id_display x i =
     and_then (did_key_multibase x Base16 (did_odf_key (dataset_id_did i))) (\<lambda>s. Inr (''did:odf:'' @ text_of_bytes s))"

text \<open>\<open>DatasetID::from_did_str\<close> in a match: an error is a branch, a panic is not.\<close>

definition parse_id_or :: "externs \<Rightarrow> string \<Rightarrow> (dataset_id \<Rightarrow> 'a) \<Rightarrow> (string, 'a) res \<Rightarrow> (string, 'a) res" where
  "parse_id_or x s f otherwise =
     (case dataset_id_from_did_str x (ascii s) of
        Inr i \<Rightarrow> Inr (f i)
      | Inl (Panic m) \<Rightarrow> Inl (Panic m)
      | Inl (Fail _) \<Rightarrow> otherwise)"

subsection \<open>Local references\<close>

fun dataset_ref_alias :: "dataset_ref \<Rightarrow> dataset_alias option" where
  "dataset_ref_alias (RefID _) = None"
| "dataset_ref_alias (RefAlias a) = Some a"
| "dataset_ref_alias (RefHandle h) = Some (handle_alias h)"

definition dataset_ref_account_name :: "dataset_ref \<Rightarrow> account_name option" where
  "dataset_ref_account_name r = Option.bind (dataset_ref_alias r) alias_account_name"

definition dataset_ref_dataset_name :: "dataset_ref \<Rightarrow> dataset_name option" where
  "dataset_ref_dataset_name r = map_option alias_dataset_name (dataset_ref_alias r)"

definition dataset_ref_from_str :: "externs \<Rightarrow> string \<Rightarrow> (string, dataset_ref) res" where
  "dataset_ref_from_str x s =
     parse_id_or x s RefID
       (case dataset_alias_from_str s of Inr a \<Rightarrow> Inr (RefAlias a) | Inl _ \<Rightarrow> Inl (Fail s))"

fun dataset_ref_display :: "externs \<Rightarrow> dataset_ref \<Rightarrow> (unit, string) res" where
  "dataset_ref_display x (RefID i) = dataset_id_display x i"
| "dataset_ref_display x (RefAlias a) = Inr (dataset_alias_display a)"
| "dataset_ref_display x (RefHandle h) = Inr (dataset_alias_display (handle_alias h))"

fun dataset_ref_eq :: "dataset_ref \<Rightarrow> dataset_ref \<Rightarrow> bool" where
  "dataset_ref_eq (RefID i) (RefID j) \<longleftrightarrow> i = j"
| "dataset_ref_eq (RefAlias a) (RefAlias b) \<longleftrightarrow> dataset_alias_eq a b"
| "dataset_ref_eq (RefHandle g) (RefHandle h) \<longleftrightarrow>
     handle_id g = handle_id h \<and> dataset_alias_eq (handle_alias g) (handle_alias h)"
| "dataset_ref_eq _ _ \<longleftrightarrow> False"

fun dataset_id_cmp :: "dataset_id \<Rightarrow> dataset_id \<Rightarrow> ordering" where
  "dataset_id_cmp (DatasetID k) (DatasetID l) = list_cmp (\<lambda>a b. nat_cmp (unat a) (unat b)) k l"

text \<open>The code takes the names of \<open>self\<close> on both sides.\<close>

definition dataset_ref_cmp :: "dataset_ref \<Rightarrow> dataset_ref \<Rightarrow> ordering" where
  "dataset_ref_cmp self other =
     then_cmp (option_cmp name_cmp (dataset_ref_account_name self) (dataset_ref_account_name self))
       (then_cmp (option_cmp name_cmp (dataset_ref_dataset_name self) (dataset_ref_dataset_name self))
         (option_cmp dataset_id_cmp (dataset_ref_id self) (dataset_ref_id other)))"

subsection \<open>Remote references\<close>

fun remote_ref_id :: "dataset_ref_remote \<Rightarrow> dataset_id option" where
  "remote_ref_id (RemoteID _ i) = Some i"
| "remote_ref_id (RemoteAlias _) = None"
| "remote_ref_id (RemoteUrl _) = None"
| "remote_ref_id (RemoteHandle h) = Some (remote_handle_id h)"

fun remote_ref_alias :: "dataset_ref_remote \<Rightarrow> dataset_alias_remote option" where
  "remote_ref_alias (RemoteID _ _) = None"
| "remote_ref_alias (RemoteUrl _) = None"
| "remote_ref_alias (RemoteAlias a) = Some a"
| "remote_ref_alias (RemoteHandle h) = Some (remote_handle_alias h)"

fun remote_ref_url :: "dataset_ref_remote \<Rightarrow> url option" where
  "remote_ref_url (RemoteUrl u) = Some u"
| "remote_ref_url (RemoteID _ _) = None"
| "remote_ref_url (RemoteAlias _) = None"
| "remote_ref_url (RemoteHandle _) = None"

definition remote_ref_dataset_name :: "dataset_ref_remote \<Rightarrow> dataset_name option" where
  "remote_ref_dataset_name r = map_option remote_dataset_name (remote_ref_alias r)"

definition remote_ref_account_name :: "dataset_ref_remote \<Rightarrow> account_name option" where
  "remote_ref_account_name r = Option.bind (remote_ref_alias r) remote_account_name"

fun remote_ref_repo_name :: "dataset_ref_remote \<Rightarrow> repo_name option" where
  "remote_ref_repo_name (RemoteID r _) = r"
| "remote_ref_repo_name (RemoteAlias a) = Some (remote_repo_name a)"
| "remote_ref_repo_name (RemoteUrl _) = None"
| "remote_ref_repo_name (RemoteHandle h) = Some (remote_repo_name (remote_handle_alias h))"

definition url_or_fail :: "url_crate \<Rightarrow> string \<Rightarrow> (url \<Rightarrow> 'a) \<Rightarrow> (string, 'a) res" where
  "url_or_fail uc s f =
     (case match_url s of
        Some _ \<Rightarrow> (case url_from_str uc s of Some u \<Rightarrow> Inr (f u) | None \<Rightarrow> Inl (Fail s))
      | None \<Rightarrow> Inl (Fail s))"

definition remote_ref_from_str :: "externs \<Rightarrow> url_crate \<Rightarrow> string \<Rightarrow> (string, dataset_ref_remote) res" where
  "remote_ref_from_str x uc s =
     (case match_remote_dataset_id s of
        Some (repo, i, []) \<Rightarrow> parse_id_or x i (RemoteID repo) (Inl (Fail s))
      | _ \<Rightarrow>
          (case dataset_alias_remote_from_str s of
             Inr a \<Rightarrow> Inr (RemoteAlias a)
           | Inl _ \<Rightarrow> url_or_fail uc s RemoteUrl))"

fun remote_ref_display :: "externs \<Rightarrow> dataset_ref_remote \<Rightarrow> (unit, string) res" where
  "remote_ref_display x (RemoteID None i) = dataset_id_display x i"
| "remote_ref_display x (RemoteID (Some repo) i) = and_then (dataset_id_display x i) (\<lambda>s. Inr (repo @ ''/'' @ s))"
| "remote_ref_display x (RemoteAlias a) = Inr (dataset_alias_remote_display a)"
| "remote_ref_display x (RemoteUrl u) = Inr u"
| "remote_ref_display x (RemoteHandle h) = Inr (dataset_alias_remote_display (remote_handle_alias h))"

text \<open>The code takes the URL and the repository of \<open>self\<close> on both sides.\<close>

definition remote_ref_cmp :: "dataset_ref_remote \<Rightarrow> dataset_ref_remote \<Rightarrow> ordering" where
  "remote_ref_cmp self other =
     then_cmp (option_cmp str_cmp (remote_ref_url self) (remote_ref_url self))
       (then_cmp (option_cmp dataset_alias_remote_cmp (remote_ref_alias self) (remote_ref_alias other))
         (then_cmp (option_cmp name_cmp (remote_ref_repo_name self) (remote_ref_repo_name self))
           (option_cmp dataset_id_cmp (remote_ref_id self) (remote_ref_id other))))"

subsection \<open>References of either kind\<close>

fun any_ref_id :: "dataset_ref_any \<Rightarrow> dataset_id option" where
  "any_ref_id (AnyID _ i) = Some i"
| "any_ref_id _ = None"

text \<open>\<open>Ok\<close> is a local reference, \<open>Err\<close> a remote one.\<close>

fun any_into_local_ref :: "(repo_name \<Rightarrow> bool) \<Rightarrow> dataset_ref_any \<Rightarrow> dataset_ref_remote + dataset_ref" where
  "any_into_local_ref is_repo (AnyID None i) = Inr (RefID i)"
| "any_into_local_ref is_repo (AnyID (Some repo) i) = Inl (RemoteID (Some repo) i)"
| "any_into_local_ref is_repo (AnyLocalAlias a n) = Inr (RefAlias (dataset_alias_new a n))"
| "any_into_local_ref is_repo (AnyRemoteAlias r a n) = Inl (RemoteAlias (dataset_alias_remote_new r a n))"
| "any_into_local_ref is_repo (AnyAmbiguousAlias p n) =
     (if is_repo p then Inl (RemoteAlias (dataset_alias_remote_new p None n))
      else Inr (RefAlias (dataset_alias_new (Some p) n)))"
| "any_into_local_ref is_repo (AnyUrl u) = Inl (RemoteUrl u)"
| "any_into_local_ref is_repo (AnyLocalHandle h) = Inr (RefHandle h)"
| "any_into_local_ref is_repo (AnyRemoteHandle h) = Inl (RemoteHandle h)"

fun any_into_remote_ref :: "(repo_name \<Rightarrow> bool) \<Rightarrow> dataset_ref_any \<Rightarrow> dataset_ref + dataset_ref_remote" where
  "any_into_remote_ref is_repo (AnyID repo i) = Inr (RemoteID repo i)"
| "any_into_remote_ref is_repo (AnyLocalAlias a n) = Inl (RefAlias (dataset_alias_new a n))"
| "any_into_remote_ref is_repo (AnyRemoteAlias r a n) = Inr (RemoteAlias (dataset_alias_remote_new r a n))"
| "any_into_remote_ref is_repo (AnyAmbiguousAlias p n) =
     (if is_repo p then Inr (RemoteAlias (dataset_alias_remote_new p None n))
      else Inl (RefAlias (dataset_alias_new (Some p) n)))"
| "any_into_remote_ref is_repo (AnyUrl u) = Inr (RemoteUrl u)"
| "any_into_remote_ref is_repo (AnyLocalHandle h) = Inl (RefHandle h)"
| "any_into_remote_ref is_repo (AnyRemoteHandle h) = Inr (RemoteHandle h)"

fun any_ref_display :: "externs \<Rightarrow> dataset_ref_any \<Rightarrow> (unit, string) res" where
  "any_ref_display x (AnyID None i) = dataset_id_display x i"
| "any_ref_display x (AnyID (Some repo) i) = and_then (dataset_id_display x i) (\<lambda>s. Inr (repo @ ''/'' @ s))"
| "any_ref_display x (AnyLocalAlias None n) = Inr n"
| "any_ref_display x (AnyLocalAlias (Some a) n) = Inr (a @ ''/'' @ n)"
| "any_ref_display x (AnyRemoteAlias r None n) = Inr (r @ ''/'' @ n)"
| "any_ref_display x (AnyRemoteAlias r (Some a) n) = Inr (r @ ''/'' @ a @ ''/'' @ n)"
| "any_ref_display x (AnyAmbiguousAlias p n) = Inr (p @ ''/'' @ n)"
| "any_ref_display x (AnyUrl u) = Inr u"
| "any_ref_display x (AnyLocalHandle h) = Inr (dataset_alias_display (handle_alias h))"
| "any_ref_display x (AnyRemoteHandle h) = Inr (dataset_alias_remote_display (remote_handle_alias h))"

definition any_ref_from_str :: "externs \<Rightarrow> url_crate \<Rightarrow> string \<Rightarrow> (string, dataset_ref_any) res" where
  "any_ref_from_str x uc s =
     (case match_remote_dataset_id s of
        Some (repo, i, []) \<Rightarrow> parse_id_or x i (AnyID repo) (Inl (Fail s))
      | _ \<Rightarrow>
          (case dataset_name_from_str s of
             Inr n \<Rightarrow> Inr (AnyLocalAlias None n)
           | Inl _ \<Rightarrow>
               (case dataset_alias_remote_from_str s of
                  Inr a \<Rightarrow>
                    (case remote_account_name a of
                       Some acc \<Rightarrow> Inr (AnyRemoteAlias (remote_repo_name a) (Some acc) (remote_dataset_name a))
                     | None \<Rightarrow> Inr (AnyAmbiguousAlias (remote_repo_name a) (remote_dataset_name a)))
                | Inl _ \<Rightarrow> url_or_fail uc s AnyUrl)))"

fun dataset_ref_into_any :: "dataset_ref \<Rightarrow> dataset_ref_any" where
  "dataset_ref_into_any (RefID i) = AnyID None i"
| "dataset_ref_into_any (RefAlias a) = AnyLocalAlias (alias_account_name a) (alias_dataset_name a)"
| "dataset_ref_into_any (RefHandle h) = AnyLocalHandle h"

fun remote_ref_into_any :: "dataset_ref_remote \<Rightarrow> dataset_ref_any" where
  "remote_ref_into_any (RemoteID repo i) = AnyID repo i"
| "remote_ref_into_any (RemoteAlias a) =
     AnyRemoteAlias (remote_repo_name a) (remote_account_name a) (remote_dataset_name a)"
| "remote_ref_into_any (RemoteUrl u) = AnyUrl u"
| "remote_ref_into_any (RemoteHandle h) = AnyRemoteHandle h"

subsection \<open>Patterns of references\<close>

datatype dataset_ref_pattern =
    PatternRef dataset_ref
  | PatternAlias dataset_alias_pattern

definition dataset_ref_pattern_matches ::
  "(string \<Rightarrow> string \<Rightarrow> bool option) \<Rightarrow> dataset_ref_pattern \<Rightarrow> dataset_handle \<Rightarrow> (unit, bool) res" where
  "dataset_ref_pattern_matches ilike p h =
     (case p of
        PatternRef (RefID i) \<Rightarrow> Inr (i = handle_id h)
      | PatternRef (RefAlias a) \<Rightarrow> Inr (dataset_alias_eq a (handle_alias h))
      | PatternRef (RefHandle g) \<Rightarrow> Inr (dataset_ref_eq (RefHandle g) (RefHandle h))
      | PatternAlias q \<Rightarrow> dataset_alias_pattern_matches ilike q h)"

fun dataset_ref_pattern_as_ref :: "dataset_ref_pattern \<Rightarrow> dataset_ref option" where
  "dataset_ref_pattern_as_ref (PatternAlias _) = None"
| "dataset_ref_pattern_as_ref (PatternRef r) = Some r"

definition dataset_ref_pattern_from_str :: "externs \<Rightarrow> string \<Rightarrow> (string, dataset_ref_pattern) res" where
  "dataset_ref_pattern_from_str x s =
     (if CHR ''%'' \<in> set s then
        (case dataset_alias_pattern_from_str s of Inr p \<Rightarrow> Inr (PatternAlias p) | Inl _ \<Rightarrow> Inl (Fail s))
      else
        (case dataset_ref_from_str x s of
           Inr r \<Rightarrow> Inr (PatternRef r)
         | Inl (Panic m) \<Rightarrow> Inl (Panic m)
         | Inl (Fail _) \<Rightarrow> Inl (Fail s)))"

datatype dataset_ref_any_pattern =
    AnyPatternRef dataset_ref_any
  | AnyPatternRemote repo_name account_name string
  | AnyPatternAmbiguous string string
  | AnyPatternLocal string

fun any_pattern_is_remote :: "bool \<Rightarrow> dataset_ref_any_pattern \<Rightarrow> bool" where
  "any_pattern_is_remote multitenant (AnyPatternRef _) = False"
| "any_pattern_is_remote multitenant (AnyPatternLocal _) = False"
| "any_pattern_is_remote multitenant (AnyPatternRemote _ _ _) = True"
| "any_pattern_is_remote multitenant (AnyPatternAmbiguous _ _) = (\<not> multitenant)"

fun any_pattern_repo_name :: "bool \<Rightarrow> dataset_ref_any_pattern \<Rightarrow> (unit, repo_name option) res" where
  "any_pattern_repo_name multitenant (AnyPatternRef _) = Inr None"
| "any_pattern_repo_name multitenant (AnyPatternLocal _) = Inr None"
| "any_pattern_repo_name multitenant (AnyPatternRemote repo _ _) = Inr (Some repo)"
| "any_pattern_repo_name multitenant (AnyPatternAmbiguous p _) =
     (if multitenant then Inr None
      else (case repo_name_from_str p of
              Inr r \<Rightarrow> Inr (Some r)
            | Inl _ \<Rightarrow> Inl (Panic ''called Result::unwrap() on an Err value'')))"

definition any_pattern_from_str :: "externs \<Rightarrow> url_crate \<Rightarrow> string \<Rightarrow> (string, dataset_ref_any_pattern) res" where
  "any_pattern_from_str x uc s =
     (if CHR ''%'' \<in> set s then
        (case split_once (CHR ''/'') s of
           Some (repo, rest) \<Rightarrow>
             (case repo_name_from_str repo of
                Inr repo \<Rightarrow>
                  (case split_once (CHR ''/'') rest of
                     Some (account, name) \<Rightarrow>
                       (case account_name_from_str account of
                          Inr acc \<Rightarrow>
                            (case dataset_name_pattern_from_str name of
                               Inr p \<Rightarrow> Inr (AnyPatternRemote repo acc p)
                             | Inl _ \<Rightarrow> Inl (Fail s))
                        | Inl _ \<Rightarrow> Inl (Fail s))
                   | None \<Rightarrow>
                       (case dataset_name_pattern_from_str rest of
                          Inr p \<Rightarrow> Inr (AnyPatternAmbiguous repo p)
                        | Inl _ \<Rightarrow> Inl (Fail s)))
              | Inl _ \<Rightarrow> Inl (Fail s))
         | None \<Rightarrow>
             (case dataset_name_pattern_from_str s of
                Inr p \<Rightarrow> Inr (AnyPatternLocal p)
              | Inl _ \<Rightarrow> Inl (Fail s)))
      else
        (case any_ref_from_str x uc s of
           Inr r \<Rightarrow> Inr (AnyPatternRef r)
         | Inl (Panic m) \<Rightarrow> Inl (Panic m)
         | Inl (Fail _) \<Rightarrow> Inl (Fail s)))"

end
