(* ===== verification/Identity_Properties.thy ===== *)
theory Identity_Properties
  imports Identity_Refs
begin

text \<open>
  The matchers of the grammar recognise the languages that their comments give. A locale states what a
  greedy matcher of tokens promises; the combinator for repetition with a separator, which the
  grammar spells out for schemes, subdomains and host names, keeps the promise.
\<close>

section \<open>Greedy matchers\<close>

definition stops :: "char set \<Rightarrow> string \<Rightarrow> bool" where
  "stops S t \<longleftrightarrow> t = [] \<or> hd t \<notin> S"

definition sep_step :: "char \<Rightarrow> matcher \<Rightarrow> matcher" where
  "sep_step c e s =
     Option.bind (match_char s c) (\<lambda>(_, t). Option.bind (e t) (\<lambda>(h, tt). Some (take (Suc (length h)) s, tt)))"

definition sep_list :: "char \<Rightarrow> matcher \<Rightarrow> matcher" where
  "sep_list c e s =
     Option.bind (e s) (\<lambda>(h, t). Option.bind (match_zero_or_many t (sep_step c e)) (\<lambda>(hh, tt).
       Some (take (length h + length hh) s, tt)))"

definition separated :: "char \<Rightarrow> (string \<Rightarrow> bool) \<Rightarrow> string \<Rightarrow> bool" where
  "separated c A s \<longleftrightarrow> list_all A (split_on c s)"

text \<open>The matches that the loop strings together, one after another.\<close>

inductive munches :: "matcher \<Rightarrow> string \<Rightarrow> string list \<Rightarrow> string \<Rightarrow> bool" for m where
  munch_stop: "m t = None \<Longrightarrow> munches m t [] t"
| munch_more: "m t = Some (h, t') \<Longrightarrow> munches m t' hs t'' \<Longrightarrow> munches m t (h # hs) t''"

definition splitting :: "matcher \<Rightarrow> bool" where
  "splitting m \<longleftrightarrow> (\<forall>s h t. m s = Some (h, t) \<longrightarrow> s = h @ t \<and> h \<noteq> [])"

lemma splittingD: "splitting m \<Longrightarrow> m s = Some (h, t) \<Longrightarrow> s = h @ t \<and> h \<noteq> []"
  by (simp add: splitting_def)

lemma munches_total: "splitting m \<Longrightarrow> \<exists>hs t'. munches m t hs t'"
proof (induction "length t" arbitrary: t rule: less_induct)
  case less
  show ?case
  proof (cases "m t")
    case None
    then show ?thesis by (blast intro: munch_stop)
  next
    case (Some r)
    then obtain h t' where r: "m t = Some (h, t')" by (cases r) simp
    then have "length t' < length t" using splittingD [OF less(2)] by fastforce
    then obtain hs u where "munches m t' hs u" using less by blast
    then have "munches m t (h # hs) u" by (rule munches.munch_more [of m, OF r])
    then show ?thesis by blast
  qed
qed

lemma munches_append: "munches m t hs t' \<Longrightarrow> splitting m \<Longrightarrow> t = concat hs @ t'"
  by (induction rule: munches.induct) (auto dest: splittingD)

lemma match_many_loop_munches:
  "munches m t hs t' \<Longrightarrow> splitting m \<Longrightarrow> match_many_loop m (q @ t) (length q) t = Some (q @ concat hs, t')"
proof (induction arbitrary: q rule: munches.induct)
  case (munch_stop t)
  then show ?case by (simp add: match_many_loop.simps)
next
  case (munch_more t h t' hs t'')
  then have t: "t = h @ t'" "h \<noteq> []" using splittingD by blast+
  with munch_more show ?case
    using munch_more.IH [of "q @ h"] by (subst match_many_loop.simps) simp
qed

text \<open>The loop never runs forever on such a matcher, and its result is the matches joined.\<close>

lemma match_zero_or_many_munches:
  assumes "splitting m"
  shows "match_zero_or_many t m = Some (h, t') \<longleftrightarrow> (\<exists>hs. munches m t hs t' \<and> h = concat hs)"
proof -
  obtain hs u where run: "munches m t hs u" using munches_total [OF assms] by blast
  have eq: "match_zero_or_many t m = Some (concat gs, u)" if "munches m t gs u" for gs u
    using match_many_loop_munches [OF that assms, of "[]"] by (simp add: match_zero_or_many_def)
  show ?thesis
  proof
    assume "match_zero_or_many t m = Some (h, t')"
    with eq [OF run] run show "\<exists>hs. munches m t hs t' \<and> h = concat hs" by (intro exI [of _ hs]) simp
  next
    assume "\<exists>hs. munches m t hs t' \<and> h = concat hs"
    then show "match_zero_or_many t m = Some (h, t')" using eq by blast
  qed
qed

section \<open>Splitting at a character\<close>

lemma split_on_join:
  assumes "split_on c s = p # ps"
  shows "s = p @ concat (map (Cons c) ps) \<and> c \<notin> set p"
  using assms
proof (induction s arbitrary: p ps)
  case (Cons a s)
  obtain q qs where q: "split_on c s = q # qs" by (cases "split_on c s") auto
  then have "s = q @ concat (map (Cons c) qs) \<and> c \<notin> set q" by (rule Cons(1))
  moreover have "(if a = c then p = [] \<and> ps = q # qs else p = a # q \<and> ps = qs)"
    using Cons(2) q by (simp split: if_splits)
  ultimately show ?case by (cases "a = c") simp_all
qed simp

lemma split_on_concat: "list_all (\<lambda>p. c \<notin> set p) (p # ps) \<Longrightarrow> split_on c (p @ concat (map (Cons c) ps)) = p # ps"
proof (induction ps arbitrary: p)
  case Nil
  then show ?case by (simp add: split_on_plain)
next
  case (Cons q ps)
  then show ?case by (simp add: split_on_append)
qed

section \<open>Tokens\<close>

locale token_matcher =
  fixes e :: matcher and A :: "string \<Rightarrow> bool" and S :: "char set"
  assumes sound: "e s = Some (h, t) \<Longrightarrow> s = h @ t \<and> A h"
    and complete: "A p \<Longrightarrow> stops S t \<Longrightarrow> e (p @ t) = Some (p, t)"
    and nonempty: "A p \<Longrightarrow> p \<noteq> []"
    and alphabet: "A p \<Longrightarrow> set p \<subseteq> S"
begin

lemma accepts: "(\<exists>h. e s = Some (h, [])) \<longleftrightarrow> A s" "A s \<Longrightarrow> e s = Some (s, [])"
  using sound [of s _ "[]"] complete [of s "[]"] by (auto simp: stops_def)

lemma step_Some: "sep_step c e s = Some (h, t) \<longleftrightarrow> (\<exists>p. s = c # p @ t \<and> e (p @ t) = Some (p, t) \<and> h = c # p)"
proof
  assume "sep_step c e s = Some (h, t)"
  then obtain p s' where *: "s = c # s'" "e s' = Some (p, t)" "h = take (Suc (length p)) s"
    by (cases s) (auto simp: sep_step_def match_char_def bind_eq_Some_conv split: if_splits)
  then have "s' = p @ t" using sound by blast
  with * show "\<exists>p. s = c # p @ t \<and> e (p @ t) = Some (p, t) \<and> h = c # p" by simp
qed (auto simp: sep_step_def match_char_def)

lemma step_splitting: "splitting (sep_step c e)"
  by (auto simp: splitting_def step_Some)

lemma step_munches: "munches (sep_step c e) t hs t' \<Longrightarrow> \<exists>ps. list_all A ps \<and> hs = map (Cons c) ps"
proof (induction rule: munches.induct)
  case (munch_more t h t' hs t'')
  from munch_more(1) obtain p where p: "h = c # p" "e (p @ t') = Some (p, t')" by (auto simp: step_Some)
  from munch_more(3) obtain ps where "list_all A ps" "hs = map (Cons c) ps" by blast
  moreover have "A p" using sound [OF p(2)] by simp
  ultimately show ?case using p(1) by (intro exI [of _ "p # ps"]) simp
qed simp

lemma munches_step:
  assumes "c \<notin> S" and "stops (insert c S) t"
  shows "list_all A ps \<Longrightarrow> munches (sep_step c e) (concat (map (Cons c) ps) @ t) (map (Cons c) ps) t"
proof (induction ps)
  case Nil
  have "sep_step c e t = None" using assms(2) by (auto simp: sep_step_def match_char_def stops_def)
  then show ?case by (simp add: munch_stop)
next
  case (Cons p ps)
  let ?rest = "concat (map (Cons c) ps) @ t"
  have "stops S ?rest" using assms by (cases ps) (auto simp: stops_def)
  then have "e (p @ ?rest) = Some (p, ?rest)" using Cons(2) complete by simp
  then show ?case using Cons by (auto intro!: munch_more simp: step_Some)
qed

lemma sep_list_token:
  assumes "c \<notin> S"
  shows "token_matcher (sep_list c e) (separated c A) (insert c S)"
proof
  have clean: "A p \<Longrightarrow> c \<notin> set p" for p using alphabet assms by blast
  note many = match_zero_or_many_munches [OF step_splitting]
  show "s = h @ t \<and> separated c A h" if "sep_list c e s = Some (h, t)" for s h t
  proof -
    from that obtain p t0 hs where p: "e s = Some (p, t0)" "munches (sep_step c e) t0 hs t"
      "h = take (length p + length (concat hs)) s"
      by (auto simp: sep_list_def bind_eq_Some_conv many)
    obtain ps where ps: "list_all A ps" "hs = map (Cons c) ps" using step_munches [OF p(2)] by blast
    have s: "s = p @ concat hs @ t" "A p" using sound [OF p(1)] munches_append [OF p(2) step_splitting] by auto
    with p(3) have h: "h = p @ concat (map (Cons c) ps)" by (simp add: ps(2))
    then have "split_on c h = p # ps" using split_on_concat [of c p ps] ps(1) s(2) clean by (simp add: list_all_iff)
    with s h ps show ?thesis by (simp add: separated_def)
  qed
  show "sep_list c e (q @ t) = Some (q, t)" if "separated c A q" "stops (insert c S) t" for q t
  proof -
    obtain p ps where split: "split_on c q = p # ps" by (cases "split_on c q") auto
    have q: "q = p @ concat (map (Cons c) ps)" "A p" "list_all A ps"
      using split_on_join [OF split] that(1) split by (simp_all add: separated_def)
    let ?rest = "concat (map (Cons c) ps) @ t"
    have "stops S ?rest" using assms that(2) by (cases ps) (auto simp: stops_def)
    then have "e (p @ ?rest) = Some (p, ?rest)" using complete [OF q(2)] by simp
    moreover have "match_zero_or_many ?rest (sep_step c e) = Some (concat (map (Cons c) ps), t)"
      using munches_step [OF assms that(2) q(3)] many by blast
    ultimately show ?thesis by (simp add: sep_list_def q(1))
  qed
  show "q \<noteq> []" if "separated c A q" for q using that nonempty [of "[]"] by (auto simp: separated_def)
  show "set q \<subseteq> insert c S" if "separated c A q" for q
  proof -
    obtain p ps where split: "split_on c q = p # ps" by (cases "split_on c q") auto
    then have "A p" "list_all A ps" using that by (simp_all add: separated_def)
    then have "set p \<subseteq> S" "\<forall>r \<in> set ps. set r \<subseteq> S" using alphabet by (auto simp: list_all_iff)
    then show ?thesis using split_on_join [OF split] by auto
  qed
qed

end

section \<open>The tokens of the grammar\<close>

definition alphanums :: "char set" where "alphanums = {c. is_ascii_alphanumeric c}"

definition is_word :: "string \<Rightarrow> bool" where "is_word p \<longleftrightarrow> p \<noteq> [] \<and> list_all is_ascii_alphanumeric p"
definition is_subdomain :: "string \<Rightarrow> bool" where "is_subdomain = separated (CHR ''-'') is_word"
definition is_hostname :: "string \<Rightarrow> bool" where "is_hostname = separated (CHR ''.'') is_subdomain"

definition host_chars :: "char set" where
  "host_chars = insert (CHR ''.'') (insert (CHR ''-'') alphanums)"

lemma scheme_char_eq: "scheme_char = is_ascii_alphanumeric"
  by (auto simp: scheme_char_def is_ascii_alphanumeric_def fun_eq_iff)

lemma match_alphanums_eq: "match_alphanums s = match_predicate s is_ascii_alphanumeric"
  by (simp add: match_alphanums_def match_predicate_def)

interpretation word: token_matcher match_alphanums is_word alphanums
proof
  fix s h t p
  show "s = h @ t \<and> is_word h" if "match_alphanums s = Some (h, t)"
  proof -
    define n where "n = length (takeWhile is_ascii_alphanumeric s)"
    have split: "h = take n s" "t = drop n s" "n \<noteq> 0"
      using that by (auto simp: match_alphanums_def Let_def n_def split: if_splits)
    then have app: "s = h @ t" by simp
    have "take n s = takeWhile is_ascii_alphanumeric s" unfolding n_def by (rule takeWhile_eq_take [symmetric])
    then have "is_word h" using split n_def by (auto simp: is_word_def list_all_iff dest: set_takeWhileD)
    with app show ?thesis by simp
  qed
  show "match_alphanums (p @ t) = Some (p, t)" if "is_word p" "stops alphanums t"
  proof -
    have "takeWhile is_ascii_alphanumeric t = []" using that(2) by (cases t) (auto simp: stops_def alphanums_def)
    then have "takeWhile is_ascii_alphanumeric (p @ t) = p" using that(1) by (simp add: is_word_def list_all_iff)
    with that(1) show ?thesis by (simp add: match_alphanums_def is_word_def)
  qed
qed (auto simp: is_word_def alphanums_def list_all_iff)

lemma separators: "CHR ''-'' \<notin> alphanums" "CHR ''.'' \<notin> insert (CHR ''-'') alphanums" "CHR ''+'' \<notin> alphanums"
  "CHR ''/'' \<notin> host_chars" "CHR '':'' \<notin> host_chars" "CHR ''%'' \<notin> host_chars"
  by (simp_all add: alphanums_def host_chars_def is_ascii_alphanumeric_def in_range_def)

lemma match_subdomain_eq: "match_subdomain = sep_list (CHR ''-'') match_alphanums"
  by (rule ext) (simp add: match_subdomain_def sep_list_def sep_step_def [abs_def])

interpretation subdomain: token_matcher match_subdomain is_subdomain "insert (CHR ''-'') alphanums"
  unfolding match_subdomain_eq is_subdomain_def by (rule word.sep_list_token) (rule separators)

lemma match_hostname_eq: "match_hostname = sep_list (CHR ''.'') match_subdomain"
  by (rule ext) (simp add: match_hostname_def sep_list_def sep_step_def [abs_def])

interpretation hostname: token_matcher match_hostname is_hostname host_chars
  unfolding match_hostname_eq is_hostname_def host_chars_def by (rule subdomain.sep_list_token) (rule separators)

definition is_scheme :: "string \<Rightarrow> bool" where "is_scheme = separated (CHR ''+'') is_word"

lemma match_scheme_eq: "match_scheme = sep_list (CHR ''+'') match_alphanums"
  by (rule ext) (simp add: match_scheme_def sep_list_def sep_step_def [abs_def] scheme_char_eq match_alphanums_eq [symmetric])

interpretation scheme: token_matcher match_scheme is_scheme "insert (CHR ''+'') alphanums"
  unfolding match_scheme_eq is_scheme_def by (rule word.sep_list_token) (rule separators)

end
