(* ===== verification/Identity_Claims.thy ===== *)
theory Identity_Claims
  imports Identity_Properties
begin

text \<open>
  Aliases and references: what the parsers accept, that printing is their inverse, and how references
  are ordered.
\<close>

section \<open>Aliases\<close>

lemma match_hostname_full: "match_hostname s = Some (h, []) \<longleftrightarrow> is_hostname s \<and> h = s"
  using hostname.sound [of s h "[]"] hostname.accepts(2) [of s] by auto

lemma case_hostname [simp]:
  "(case match_hostname s of None \<Rightarrow> e | Some (h, []) \<Rightarrow> f h | Some (h, t # ts) \<Rightarrow> e) = (if is_hostname s then f s else e)"
proof (cases "is_hostname s")
  case True
  then show ?thesis by (simp add: hostname.accepts(2))
next
  case False
  then show ?thesis using match_hostname_full [of s] by (simp split: option.split list.split prod.split)
qed

lemma name_from_str_hostname: "name_from_str match_hostname s = (if is_hostname s then Inr s else Inl s)"
  by (simp add: name_from_str_def)

lemma dataset_name_from_str_eq: "dataset_name_from_str s = (if is_hostname s then Inr s else Inl s)"
  unfolding dataset_name_from_str_def by (simp add: match_dataset_name_def [abs_def] name_from_str_hostname)

lemma split_once_Some: "split_once c s = Some (h, t) \<longleftrightarrow> s = h @ c # t \<and> c \<notin> set h"
proof (induction s arbitrary: h)
  case (Cons a s)
  then show ?case by (cases h) auto
qed simp

lemma append_sep_eq: "c \<notin> set a \<Longrightarrow> c \<notin> set b \<Longrightarrow> a @ c # d = b @ c # e \<longleftrightarrow> a = b \<and> d = e"
proof (induction a arbitrary: b)
  case Nil
  then show ?case by (cases b) auto
next
  case (Cons x a)
  then show ?case by (cases b) auto
qed

lemma split_once_None: "split_once c s = None \<longleftrightarrow> c \<notin> set s"
  by (induction s) auto

lemma hostname_chars: "is_hostname s \<Longrightarrow> CHR ''/'' \<notin> set s \<and> CHR '':'' \<notin> set s \<and> CHR ''%'' \<notin> set s"
  using hostname.alphabet separators by blast

definition wf_alias :: "dataset_alias \<Rightarrow> bool" where
  "wf_alias a \<longleftrightarrow> is_hostname (alias_dataset_name a) \<and> pred_option is_hostname (alias_account_name a)"

definition wf_alias_remote :: "dataset_alias_remote \<Rightarrow> bool" where
  "wf_alias_remote a \<longleftrightarrow> is_hostname (remote_repo_name a) \<and> pred_option is_hostname (remote_account_name a)
     \<and> is_hostname (remote_dataset_name a)"

lemma match_dataset_alias_full:
  "match_dataset_alias s = Some (acc, ds, []) \<longleftrightarrow>
     is_hostname ds \<and> (case acc of None \<Rightarrow> s = ds | Some a \<Rightarrow> is_hostname a \<and> s = a @ ''/'' @ ds)"
proof (cases "split_once (CHR ''/'') s")
  case None
  then have "CHR ''/'' \<notin> set s" by (simp add: split_once_None)
  with None show ?thesis
    by (auto simp: match_dataset_alias_def match_dataset_name_def bind_eq_Some_conv match_hostname_full split: option.splits)
next
  case (Some p)
  obtain a d where p: "p = (a, d)" by fastforce
  with Some have s: "s = a @ CHR ''/'' # d" "CHR ''/'' \<notin> set a" by (simp_all add: split_once_Some)
  have "match_dataset_alias s = Some (acc, ds, []) \<longleftrightarrow> is_hostname a \<and> acc = Some a \<and> is_hostname d \<and> ds = d"
    using Some p
    by (auto simp: match_dataset_alias_def match_account_name_def match_dataset_name_def bind_eq_Some_conv match_hostname_full)
  also have "\<dots> \<longleftrightarrow> is_hostname ds \<and> (case acc of None \<Rightarrow> s = ds | Some a \<Rightarrow> is_hostname a \<and> s = a @ ''/'' @ ds)"
  proof (cases acc)
    case None
    then show ?thesis using s hostname_chars [of ds] by auto
  next
    case (Some b)
    have "is_hostname b \<Longrightarrow> a @ CHR ''/'' # d = b @ CHR ''/'' # ds \<longleftrightarrow> a = b \<and> d = ds"
      using s(2) hostname_chars [of b] by (simp add: append_sep_eq)
    with Some s(1) show ?thesis by (cases "is_hostname b") auto
  qed
  finally show ?thesis .
qed

lemma dataset_alias_exact: "dataset_alias_from_str s = Inr a \<longleftrightarrow> wf_alias a \<and> dataset_alias_display a = s"
proof -
  have "dataset_alias_from_str s = Inr a \<longleftrightarrow>
      match_dataset_alias s = Some (alias_account_name a, alias_dataset_name a, [])"
    by (cases a) (auto simp: dataset_alias_from_str_def dataset_alias_new_def split: option.splits list.splits)
  then show ?thesis
    by (auto simp: match_dataset_alias_full wf_alias_def dataset_alias_display_def split: option.splits)
qed

lemma match_dataset_alias_remote_eq:
  "match_dataset_alias_remote s = Some (repo, acc, ds, []) \<longleftrightarrow>
     is_hostname repo \<and> (\<exists>rest. s = repo @ ''/'' @ rest \<and> match_dataset_alias rest = Some (acc, ds, []))"
proof (cases "split_once (CHR ''/'') s")
  case None
  then have "CHR ''/'' \<notin> set s" by (simp add: split_once_None)
  with None show ?thesis by (auto simp: match_dataset_alias_remote_def)
next
  case (Some p)
  obtain r rest where p: "p = (r, rest)" by fastforce
  with Some have s: "s = r @ CHR ''/'' # rest" "CHR ''/'' \<notin> set r" by (simp_all add: split_once_Some)
  have "match_dataset_alias_remote s = Some (repo, acc, ds, []) \<longleftrightarrow>
      is_hostname r \<and> repo = r \<and> match_dataset_alias rest = Some (acc, ds, [])"
    using Some p
    by (auto simp: match_dataset_alias_remote_def match_dataset_alias_def match_repo_name_def match_account_name_def
        match_dataset_name_def bind_eq_Some_conv match_hostname_full split: option.split)
  moreover have "is_hostname repo \<Longrightarrow> s = repo @ CHR ''/'' # rest' \<longleftrightarrow> r = repo \<and> rest = rest'" for rest'
    using s hostname_chars [of repo] by (simp add: append_sep_eq)
  ultimately show ?thesis by auto
qed

lemma dataset_alias_remote_exact:
  "dataset_alias_remote_from_str s = Inr a \<longleftrightarrow> wf_alias_remote a \<and> dataset_alias_remote_display a = s"
proof -
  have "dataset_alias_remote_from_str s = Inr a \<longleftrightarrow>
      match_dataset_alias_remote s = Some (remote_repo_name a, remote_account_name a, remote_dataset_name a, [])"
    by (cases a) (auto simp: dataset_alias_remote_from_str_def dataset_alias_remote_new_def split: option.splits list.splits)
  then show ?thesis
    by (auto simp: match_dataset_alias_remote_eq match_dataset_alias_full wf_alias_remote_def
        dataset_alias_remote_display_def split: option.splits)
qed

section \<open>Identifiers\<close>

text \<open>The \<open>hex\<close> crate writes lowercase hexadecimal digits.\<close>

definition hex_digits_ok :: "externs \<Rightarrow> bool" where
  "hex_digits_ok x \<longleftrightarrow> (\<forall>bs. \<forall>b \<in> set (hex_encode x bs). is_ascii_alphanumeric (char_of (unat b)))"

lemma ascii_text_of_bytes: "ascii (text_of_bytes bs) = bs"
proof -
  have "of_char (char_of (unat b) :: char) = (b :: u8)" for b
  proof -
    have "unat b < 256" using unsigned_less [of b] by simp
    then have "(of_char (char_of (unat b) :: char) :: nat) = unat b" by simp
    then have "of_nat (of_char (char_of (unat b) :: char)) = (of_nat (unat b) :: u8)" by (simp only:)
    then show ?thesis by (simp only: of_nat_of_char) simp
  qed
  then show ?thesis by (induction bs) (simp_all add: ascii_def text_of_bytes_def)
qed

lemma text_of_ascii: "text_of_bytes (ascii s) = s"
proof -
  have "unat (of_char c :: u8) = of_char c" for c :: char
  proof -
    have "(of_char c :: nat) < 256" by simp
    then have "unat (of_nat (of_char c) :: u8) = of_char c" by (simp add: unat_of_nat del: of_nat_of_char)
    then show ?thesis by (simp add: of_nat_of_char)
  qed
  then show ?thesis by (induction s) (simp_all add: ascii_def text_of_bytes_def)
qed

lemma ascii_append: "ascii (s @ t) = ascii s @ ascii t"
  by (simp add: ascii_def)

lemma dataset_id_text:
  assumes "externs_ok x" and "hex_digits_ok x" and "wf_did (dataset_id_did i)"
  shows "\<exists>w. dataset_id_display x i = Inr (''did:odf:'' @ w) \<and> is_word w
    \<and> dataset_id_from_did_str x (ascii (''did:odf:'' @ w)) = Inr i"
proof -
  obtain s where s: "did_odf_as_did_str x (dataset_id_did i) = Inr s" "did_odf_from_did_str x s = Inr (dataset_id_did i)"
    using did_text [OF assms(1,3)] by blast
  then obtain t where t: "did_key_multibase x Base16 (did_odf_key (dataset_id_did i)) = Inr t" "s = ascii ''did:odf:'' @ t"
    by (auto simp: did_odf_as_did_str_def did_stack_string_def res_simps split: if_splits)
  then obtain bytes where "t = 0x66 # hex_encode x bytes"
    by (auto simp: did_key_multibase_def multibase_encode_def res_simps split: if_splits)
  then have "is_word (text_of_bytes t)"
    using assms(2) by (auto simp: is_word_def text_of_bytes_def hex_digits_ok_def list_all_iff)
      (simp add: is_ascii_alphanumeric_def in_range_def)
  moreover have "dataset_id_new (dataset_id_did i) = i" by (cases i) (simp add: dataset_id_new_def)
  moreover have "ascii (''did:odf:'' @ text_of_bytes t) = s" by (simp only: ascii_append ascii_text_of_bytes t(2))
  ultimately show ?thesis
    using s(2) t(1) by (intro exI [of _ "text_of_bytes t"] conjI)
      (simp_all add: dataset_id_display_def dataset_id_from_did_str_def del: append.simps)
qed

lemma match_predicate_all: "s \<noteq> [] \<Longrightarrow> \<forall>c \<in> set s. P c \<Longrightarrow> match_predicate s P = Some (s, [])"
  by (simp add: match_predicate_def takeWhile_eq_all_conv [THEN iffD2])

lemma word_chars:
  assumes "is_word w"
  shows "CHR ''/'' \<notin> set w \<and> match_multibase w = Some (w, [])"
proof
  have all: "\<forall>c \<in> set w. is_ascii_alphanumeric c" "w \<noteq> []" using assms by (simp_all add: is_word_def list_all_iff)
  then show "CHR ''/'' \<notin> set w" by (auto simp: is_ascii_alphanumeric_def in_range_def)
  show "match_multibase w = Some (w, [])"
    unfolding match_multibase_def using all by (intro match_predicate_all) (auto simp: is_ascii_alphanumeric_def)
qed

lemma match_dataset_id_text: "is_word w \<Longrightarrow> match_dataset_id (''did:odf:'' @ w) = Some (''did:odf:'' @ w, [])"
  using word_chars [of w] by (simp add: match_dataset_id_def match_str_def)

lemma match_remote_dataset_id_text:
  assumes "is_word w"
  shows "match_remote_dataset_id (''did:odf:'' @ w) = Some (None, ''did:odf:'' @ w, [])"
    "is_hostname repo \<Longrightarrow> match_remote_dataset_id (repo @ ''/'' @ ''did:odf:'' @ w) = Some (Some repo, ''did:odf:'' @ w, [])"
proof -
  have "split_once (CHR ''/'') (''did:odf:'' @ w) = None" using word_chars [OF assms] by (simp add: split_once_None)
  then show "match_remote_dataset_id (''did:odf:'' @ w) = Some (None, ''did:odf:'' @ w, [])"
    using match_dataset_id_text [OF assms] by (simp add: match_remote_dataset_id_def del: append.simps split_once.simps)
  assume repo: "is_hostname repo"
  have "split_once (CHR ''/'') (repo @ CHR ''/'' # (''did:odf:'' @ w)) = Some (repo, ''did:odf:'' @ w)"
    using hostname_chars [OF repo] by (simp only: split_once_Some) simp
  then show "match_remote_dataset_id (repo @ ''/'' @ ''did:odf:'' @ w) = Some (Some repo, ''did:odf:'' @ w, [])"
    using match_dataset_id_text [OF assms] repo by (simp add: match_remote_dataset_id_def match_repo_name_def)
qed

lemma match_remote_dataset_id_names:
  assumes "CHR '':'' \<notin> set s"
  shows "match_remote_dataset_id s = None"
proof -
  have none: "match_dataset_id t = None" if "CHR '':'' \<notin> set t" for t
    using that by (auto simp: match_dataset_id_def match_str_def) (metis in_set_takeD list.set_intros)
  show ?thesis
  proof (cases "split_once (CHR ''/'') s")
    case None
    then show ?thesis using none [OF assms] by (simp add: match_remote_dataset_id_def)
  next
    case (Some p)
    obtain h t where p: "p = (h, t)" by fastforce
    then have "CHR '':'' \<notin> set t" using Some assms by (auto simp: split_once_Some)
    then show ?thesis using Some p none [of t] by (simp add: match_remote_dataset_id_def match_repo_name_def)
  qed
qed

text \<open>A string with a scheme is neither an identifier nor a name nor an alias.\<close>

lemma match_url_others:
  assumes "match_url s \<noteq> None"
  shows "match_remote_dataset_id s = None \<and> \<not> is_hostname s \<and> match_dataset_alias_remote s = None"
proof -
  obtain h t where h: "match_scheme s = Some (h, t)" "match_str t ''://'' \<noteq> None"
    using assms by (auto simp: match_url_def split: bind_splits)
  then obtain rest where s: "s = h @ '':'' @ ''/'' @ ''/'' @ rest" and sch: "is_scheme h"
    using scheme.sound [OF h(1)] by (auto simp: match_str_def split: if_splits) (metis append_take_drop_id append_Cons append_Nil)
  have "CHR ''/'' \<notin> set h" using scheme.alphabet [OF sch] by (auto simp: alphanums_def is_ascii_alphanumeric_def in_range_def)
  then have "split_once (CHR ''/'') s = Some (h @ '':'', CHR ''/'' # rest)" by (simp add: split_once_Some s)
  moreover have "\<not> is_hostname (h @ '':'')" "\<not> is_hostname s" using hostname_chars [of "h @ '':''"] hostname_chars [of s] s by auto
  ultimately show ?thesis
    by (simp add: match_remote_dataset_id_def match_dataset_alias_remote_def match_repo_name_def)
qed

section \<open>References\<close>

text \<open>
  What a reference reads back as: a handle loses its identifier, and an alias of two parts does not say
  whether the first is an account or a repository.
\<close>

fun printed_ref :: "dataset_ref \<Rightarrow> dataset_ref" where
  "printed_ref (RefID i) = RefID i"
| "printed_ref (RefAlias a) = RefAlias a"
| "printed_ref (RefHandle h) = RefAlias (handle_alias h)"

fun wf_ref :: "dataset_ref \<Rightarrow> bool" where
  "wf_ref (RefID i) \<longleftrightarrow> wf_did (dataset_id_did i)"
| "wf_ref (RefAlias a) \<longleftrightarrow> wf_alias a"
| "wf_ref (RefHandle h) \<longleftrightarrow> wf_alias (handle_alias h)"

fun two_parts :: "string option \<Rightarrow> dataset_name \<Rightarrow> dataset_ref_any" where
  "two_parts None n = AnyLocalAlias None n"
| "two_parts (Some p) n = AnyAmbiguousAlias p n"

fun three_parts :: "repo_name \<Rightarrow> account_name option \<Rightarrow> dataset_name \<Rightarrow> dataset_ref_any" where
  "three_parts r None n = AnyAmbiguousAlias r n"
| "three_parts r (Some a) n = AnyRemoteAlias r (Some a) n"

fun printed_any :: "dataset_ref_any \<Rightarrow> dataset_ref_any" where
  "printed_any (AnyID repo i) = AnyID repo i"
| "printed_any (AnyLocalAlias a n) = two_parts a n"
| "printed_any (AnyRemoteAlias r a n) = three_parts r a n"
| "printed_any (AnyAmbiguousAlias p n) = AnyAmbiguousAlias p n"
| "printed_any (AnyUrl u) = AnyUrl u"
| "printed_any (AnyLocalHandle h) = two_parts (alias_account_name (handle_alias h)) (alias_dataset_name (handle_alias h))"
| "printed_any (AnyRemoteHandle h) =
     three_parts (remote_repo_name (remote_handle_alias h)) (remote_account_name (remote_handle_alias h))
       (remote_dataset_name (remote_handle_alias h))"

text \<open>The \<open>url\<close> crate parses what it prints, and a printed URL starts with its scheme and \<open>://\<close>.\<close>

definition url_ok :: "url_crate \<Rightarrow> url \<Rightarrow> bool" where
  "url_ok uc u \<longleftrightarrow> url_from_str uc u = Some u \<and> match_url u \<noteq> None"

fun wf_any :: "url_crate \<Rightarrow> dataset_ref_any \<Rightarrow> bool" where
  "wf_any uc (AnyID repo i) \<longleftrightarrow> pred_option is_hostname repo \<and> wf_did (dataset_id_did i)"
| "wf_any uc (AnyLocalAlias a n) \<longleftrightarrow> pred_option is_hostname a \<and> is_hostname n"
| "wf_any uc (AnyRemoteAlias r a n) \<longleftrightarrow> is_hostname r \<and> pred_option is_hostname a \<and> is_hostname n"
| "wf_any uc (AnyAmbiguousAlias p n) \<longleftrightarrow> is_hostname p \<and> is_hostname n"
| "wf_any uc (AnyUrl u) \<longleftrightarrow> url_ok uc u"
| "wf_any uc (AnyLocalHandle h) \<longleftrightarrow> wf_alias (handle_alias h)"
| "wf_any uc (AnyRemoteHandle h) \<longleftrightarrow> wf_alias_remote (remote_handle_alias h)"

lemma any_ref_of_id:
  assumes "externs_ok x" and "hex_digits_ok x" and "wf_any uc (AnyID repo i)"
  shows "\<exists>s. any_ref_display x (AnyID repo i) = Inr s \<and> any_ref_from_str x uc s = Inr (AnyID repo i)"
proof -
  obtain w where w: "dataset_id_display x i = Inr (''did:odf:'' @ w)" "is_word w"
    "dataset_id_from_did_str x (ascii (''did:odf:'' @ w)) = Inr i"
    using dataset_id_text [OF assms(1,2)] assms(3) by auto
  note parse = match_remote_dataset_id_text [OF w(2)]
  show ?thesis
  proof (cases repo)
    case None
    then show ?thesis using w parse(1) by (simp add: any_ref_from_str_def parse_id_or_def del: append.simps)
  next
    case (Some r)
    then have "is_hostname r" using assms(3) by simp
    then show ?thesis using w parse(2) [of r] Some
      by (simp add: any_ref_from_str_def parse_id_or_def del: append.simps)
  qed
qed

lemma any_ref_of_name:
  assumes "is_hostname n"
  shows "any_ref_from_str x uc n = Inr (AnyLocalAlias None n)"
  using assms hostname_chars [OF assms] by (simp add: any_ref_from_str_def match_remote_dataset_id_names dataset_name_from_str_eq)

lemma any_ref_of_parts:
  assumes "is_hostname r" and "pred_option is_hostname a" and "is_hostname n"
  shows "any_ref_from_str x uc (dataset_alias_remote_display (dataset_alias_remote_new r a n)) = Inr (three_parts r a n)"
proof -
  let ?a = "dataset_alias_remote_new r a n"
  let ?s = "dataset_alias_remote_display ?a"
  have "CHR '':'' \<notin> set ?s" "CHR ''/'' \<in> set ?s"
    using assms hostname_chars by (auto simp: dataset_alias_remote_display_def dataset_alias_remote_new_def split: option.splits)
  moreover from this have "\<not> is_hostname ?s" using hostname_chars by blast
  moreover have "dataset_alias_remote_from_str ?s = Inr ?a"
    using assms by (simp add: dataset_alias_remote_exact wf_alias_remote_def dataset_alias_remote_new_def)
  ultimately show ?thesis
    by (cases a) (simp_all add: any_ref_from_str_def match_remote_dataset_id_names dataset_name_from_str_eq dataset_alias_remote_new_def)
qed

lemma two_parts_text:
  "any_ref_from_str x uc (p @ ''/'' @ n) = Inr (AnyAmbiguousAlias p n)" if "is_hostname p" "is_hostname n"
  using any_ref_of_parts [OF that(1) _ that(2), of None x uc] by (simp add: dataset_alias_remote_display_def dataset_alias_remote_new_def)

lemma any_ref_text:
  assumes "externs_ok x" and "hex_digits_ok x" and "wf_any uc r"
  shows "\<exists>s. any_ref_display x r = Inr s \<and> any_ref_from_str x uc s = Inr (printed_any r)"
proof (cases r)
  case (AnyID repo i)
  then show ?thesis using any_ref_of_id [OF assms(1,2)] assms(3) by simp
next
  case (AnyRemoteAlias q a n)
  then have "any_ref_display x r = Inr (dataset_alias_remote_display (dataset_alias_remote_new q a n))"
    by (cases a) (simp_all add: dataset_alias_remote_display_def dataset_alias_remote_new_def)
  then show ?thesis using any_ref_of_parts [of q a n] assms(3) AnyRemoteAlias by simp
next
  case (AnyLocalAlias a n)
  then show ?thesis using any_ref_of_name [of n] assms(3) two_parts_text [of "the a" n] by (cases a) simp_all
next
  case (AnyAmbiguousAlias p n)
  then show ?thesis using two_parts_text [of p n] assms(3) by simp
next
  case (AnyUrl u)
  then have url: "match_url u \<noteq> None" "url_from_str uc u = Some u"
    using assms(3) by (simp_all add: url_ok_def)
  then show ?thesis using match_url_others [OF url(1)] AnyUrl
    by (auto simp: any_ref_from_str_def dataset_name_from_str_eq dataset_alias_remote_from_str_def url_or_fail_def)
next
  case (AnyLocalHandle h)
  then have "wf_alias (handle_alias h)" using assms(3) by simp
  then show ?thesis
    using any_ref_of_name [of "alias_dataset_name (handle_alias h)"] AnyLocalHandle
      two_parts_text [of "the (alias_account_name (handle_alias h))" "alias_dataset_name (handle_alias h)"]
    by (cases "alias_account_name (handle_alias h)") (simp_all add: wf_alias_def dataset_alias_display_def)
next
  case (AnyRemoteHandle h)
  let ?a = "remote_handle_alias h"
  have "dataset_alias_remote_new (remote_repo_name ?a) (remote_account_name ?a) (remote_dataset_name ?a) = ?a"
    by (simp add: dataset_alias_remote_new_def)
  then show ?thesis
    using any_ref_of_parts [of "remote_repo_name ?a" "remote_account_name ?a" "remote_dataset_name ?a" x uc] assms(3) AnyRemoteHandle
    by (simp add: wf_alias_remote_def)
qed

lemma no_did_prefix:
  assumes "CHR '':'' \<notin> set s"
  shows "strip_prefix (ascii ''did:odf:'') (ascii s) = None"
proof (cases "strip_prefix (ascii ''did:odf:'') (ascii s)")
  case (Some rest)
  then have "ascii s = ascii ''did:odf:'' @ rest" by (simp add: strip_prefix_Some)
  then have "s = text_of_bytes (ascii ''did:odf:'' @ rest)" by (metis text_of_ascii)
  then have "s = ''did:odf:'' @ text_of_bytes rest"
    using text_of_ascii [of "''did:odf:''"] by (simp only: text_of_bytes_def map_append)
  then show ?thesis using assms by simp
qed simp

lemma dataset_ref_text:
  assumes "externs_ok x" and "hex_digits_ok x" and "wf_ref r"
  shows "\<exists>s. dataset_ref_display x r = Inr s \<and> dataset_ref_from_str x s = Inr (printed_ref r)"
proof -
  have parsed: "dataset_ref_from_str x (dataset_alias_display a) = Inr (RefAlias a)" if "wf_alias a" for a
  proof -
    have "CHR '':'' \<notin> set (dataset_alias_display a)"
      using that hostname_chars
      by (cases "alias_account_name a") (auto simp: wf_alias_def dataset_alias_display_def)
    then have "strip_prefix (ascii ''did:odf:'') (ascii (dataset_alias_display a)) = None"
      using no_did_prefix by blast
    moreover have "dataset_alias_from_str (dataset_alias_display a) = Inr a" using that by (simp add: dataset_alias_exact)
    ultimately show ?thesis
      by (simp add: dataset_ref_from_str_def parse_id_or_def dataset_id_from_did_str_def did_odf_from_did_str_def)
  qed
  show ?thesis
  proof (cases r)
    case (RefID i)
    then show ?thesis using dataset_id_text [OF assms(1,2), of i] assms(3)
      by (auto simp: dataset_ref_from_str_def parse_id_or_def simp del: append.simps)
  qed (use assms(3) parsed in simp_all)
qed

section \<open>Orderings\<close>

lemma then_cmp_equal: "then_cmp a b = OrdEqual \<longleftrightarrow> a = OrdEqual \<and> b = OrdEqual"
  by (cases a) simp_all

lemma list_cmp_equal: "(\<And>a b. f a b = OrdEqual \<longleftrightarrow> a = b) \<Longrightarrow> list_cmp f as bs = OrdEqual \<longleftrightarrow> as = bs"
  by (induction f as bs rule: list_cmp.induct) (simp_all add: then_cmp_equal)

lemma option_cmp_equal: "(\<And>a b. f a b = OrdEqual \<longleftrightarrow> a = b) \<Longrightarrow> option_cmp f a b = OrdEqual \<longleftrightarrow> a = b"
  by (cases a; cases b) simp_all

lemma str_cmp_equal: "str_cmp a b = OrdEqual \<longleftrightarrow> a = b"
  unfolding str_cmp_def by (rule list_cmp_equal) (simp add: nat_cmp_def)

lemma name_cmp_equal: "name_cmp a b = OrdEqual \<longleftrightarrow> name_eq a b"
  by (simp add: name_cmp_def name_eq_def str_cmp_equal)

lemma dataset_id_cmp_equal: "dataset_id_cmp i j = OrdEqual \<longleftrightarrow> i = j"
proof -
  have "list_cmp (\<lambda>a b :: u8. nat_cmp (unat a) (unat b)) k l = OrdEqual \<longleftrightarrow> k = l" for k l
    by (rule list_cmp_equal) (auto simp: nat_cmp_def word_unat_eq_iff)
  then show ?thesis by (cases i; cases j) simp
qed

lemma option_name_cmp_equal: "option_cmp name_cmp a b = OrdEqual \<longleftrightarrow> option_name_eq a b"
  by (cases a; cases b) (simp_all add: name_cmp_equal)

lemma dataset_alias_cmp_equal: "dataset_alias_cmp a b = OrdEqual \<longleftrightarrow> dataset_alias_eq a b"
  by (simp add: dataset_alias_cmp_def dataset_alias_eq_def then_cmp_equal option_name_cmp_equal name_cmp_equal)

lemma option_name_cmp_refl [simp]: "option_cmp name_cmp a a = OrdEqual"
  by (cases a) (simp_all add: name_cmp_equal name_eq_def)

section \<open>Properties\<close>

text \<open>
  C28. Parsing an alias is exactly the inverse of printing it. A string is accepted as a local alias if and only if it is the
  text of an alias whose parts are host names by the published grammar (words of ASCII letters and digits, joined by
  dashes into subdomains, joined by dots), and then it parses to that alias; the same holds for remote aliases. So the
  parsers accept nothing else, and no string has two readings.
\<close>

theorem alias_grammar_exact:
  "(dataset_alias_from_str s = Inr a \<longleftrightarrow> wf_alias a \<and> dataset_alias_display a = s)
   \<and> (dataset_alias_remote_from_str s = Inr b \<longleftrightarrow> wf_alias_remote b \<and> dataset_alias_remote_display b = s)
   \<and> dataset_name_from_str s = (if is_hostname s then Inr s else Inl s)"
  by (simp add: dataset_alias_exact dataset_alias_remote_exact dataset_name_from_str_eq)

text \<open>
  C29. A well-formed reference is printed without a panic and reads back as the same reference, up to what the text
  cannot say: a handle reads back as its alias, and an alias of two parts as an ambiguous one. An
  ambiguous reference is then resolved by whether its prefix names a repository: a local alias comes back exactly when
  its account is not taken for a repository. The hypotheses are the documented behaviour of the crates for varints, hex
  and URLs.
\<close>

theorem reference_roundtrip:
  assumes "externs_ok x" and "hex_digits_ok x"
  shows "(wf_ref r \<longrightarrow> (\<exists>s. dataset_ref_display x r = Inr s \<and> dataset_ref_from_str x s = Inr (printed_ref r)))
    \<and> (wf_any uc a \<longrightarrow> (\<exists>s. any_ref_display x a = Inr s \<and> any_ref_from_str x uc s = Inr (printed_any a)))
    \<and> (any_into_local_ref is_repo (printed_any (AnyLocalAlias (Some p) n)) = any_into_local_ref is_repo (AnyLocalAlias (Some p) n)
        \<longleftrightarrow> \<not> is_repo p)"
proof (intro conjI impI)
  show "\<exists>s. dataset_ref_display x r = Inr s \<and> dataset_ref_from_str x s = Inr (printed_ref r)" if "wf_ref r"
    using dataset_ref_text [OF assms that] .
  show "\<exists>s. any_ref_display x a = Inr s \<and> any_ref_from_str x uc s = Inr (printed_any a)" if "wf_any uc a"
    using any_ref_text [OF assms that] .
qed simp

lemma demo_hex_digits: "hex_digits_ok demo_externs"
proof -
  have "is_ascii_alphanumeric (char_of (unat (hex_digit d)))" if "d < 16" for d
    using that unat_hex_digit [OF that] by (auto simp: is_ascii_alphanumeric_def in_range_def)
  then have "\<forall>b \<in> set (hex_of bs). is_ascii_alphanumeric (char_of (unat b))" for bs
    by (induction bs) (auto simp: byte_digits)
  then show ?thesis by (simp add: hex_digits_ok_def demo_externs_def)
qed

definition demo_urls :: url_crate where
  "demo_urls = \<lparr>url_from_str = Some, url_path_segments = (\<lambda>_. None), url_host_domain = (\<lambda>_. None)\<rparr>"

theorem reference_roundtrip_witness:
  "\<exists>s. any_ref_display demo_externs (AnyUrl ''odf+https://a/b'') = Inr s
    \<and> any_ref_from_str demo_externs demo_urls s = Inr (AnyUrl ''odf+https://a/b'')"
proof -
  have "wf_any demo_urls (AnyUrl ''odf+https://a/b'')" by code_simp
  then show ?thesis
    using reference_roundtrip [OF demo_externs_ok demo_hex_digits, of "RefID (DatasetID [])" demo_urls "AnyUrl ''odf+https://a/b''",
        THEN conjunct2, THEN conjunct1]
    by (simp only: printed_any.simps)
qed

text \<open>
  The order of references does not look at all of a reference. \<open>DatasetRef::cmp\<close> compares the account and the name of
  \<open>self\<close> with themselves, so only identifiers count; \<open>DatasetRefRemote::cmp\<close> does the same with the URL and the
  repository, so only the alias and the identifier count, and any two URLs compare as equal.
\<close>

lemma reference_order_ignores_names:
  "dataset_ref_cmp r r' = option_cmp dataset_id_cmp (dataset_ref_id r) (dataset_ref_id r')"
  "remote_ref_cmp s s' = then_cmp (option_cmp dataset_alias_remote_cmp (remote_ref_alias s) (remote_ref_alias s'))
     (option_cmp dataset_id_cmp (remote_ref_id s) (remote_ref_id s'))"
  "remote_ref_cmp (RemoteUrl u) (RemoteUrl v) = OrdEqual"
proof -
  have str: "str_cmp u u = OrdEqual" for u by (simp add: str_cmp_equal)
  then have url: "option_cmp str_cmp u u = OrdEqual" for u by (cases u) simp_all
  show "dataset_ref_cmp r r' = option_cmp dataset_id_cmp (dataset_ref_id r) (dataset_ref_id r')"
    by (simp add: dataset_ref_cmp_def)
  show "remote_ref_cmp s s' = then_cmp (option_cmp dataset_alias_remote_cmp (remote_ref_alias s) (remote_ref_alias s'))
      (option_cmp dataset_id_cmp (remote_ref_id s) (remote_ref_id s'))"
    by (simp add: remote_ref_cmp_def url)
  show "remote_ref_cmp (RemoteUrl u) (RemoteUrl v) = OrdEqual" by (simp add: remote_ref_cmp_def str)
qed

end
