(* ===== verification/Pull_Planner.thy ===== *)
theory Pull_Planner
  imports Identity_Refs Task_System Sync
begin

text \<open>
  Pulling datasets (\<open>pull_service_impl.rs\<close>, \<open>pull_service.rs\<close>): the plan. The service walks down the
  dependencies of the requested datasets, gives every dataset a depth, and orders the
  datasets by depth. The repository of datasets, the registry of remote aliases and the
  summaries of datasets are the interfaces that the service is given; what it reads of them is
  \<open>pull_env\<close>. An internal error is its message. A depth is an \<open>i32\<close>, here an \<open>int\<close>: it is at most the length of
  a path of dependencies.
\<close>

section \<open>Remote aliases (remote_aliases_registry_impl.rs)\<close>

datatype remote_alias_kind = AliasPull | AliasPush

record dataset_config =
  pull_aliases :: "dataset_ref_remote list"
  push_aliases :: "dataset_ref_remote list"

definition aliases_get_by_kind :: "remote_alias_kind \<Rightarrow> dataset_config \<Rightarrow> dataset_ref_remote list" where
  "aliases_get_by_kind kind c = (case kind of AliasPull \<Rightarrow> pull_aliases c | AliasPush \<Rightarrow> push_aliases c)"

definition aliases_put :: "remote_alias_kind \<Rightarrow> dataset_ref_remote list \<Rightarrow> dataset_config \<Rightarrow> dataset_config" where
  "aliases_put kind rs c = (case kind of AliasPull \<Rightarrow> c\<lparr>pull_aliases := rs\<rparr> | AliasPush \<Rightarrow> c\<lparr>push_aliases := rs\<rparr>)"

text \<open>The equality that \<open>derive(PartialEq)\<close> gives: names are compared without regard to case.\<close>

fun remote_ref_eq :: "dataset_ref_remote \<Rightarrow> dataset_ref_remote \<Rightarrow> bool" where
  "remote_ref_eq (RemoteID r i) (RemoteID q j) \<longleftrightarrow> option_name_eq r q \<and> i = j"
| "remote_ref_eq (RemoteAlias a) (RemoteAlias b) \<longleftrightarrow> dataset_alias_remote_eq a b"
| "remote_ref_eq (RemoteUrl u) (RemoteUrl v) \<longleftrightarrow> u = v"
| "remote_ref_eq (RemoteHandle g) (RemoteHandle h) \<longleftrightarrow>
     remote_handle_id g = remote_handle_id h \<and> dataset_alias_remote_eq (remote_handle_alias g) (remote_handle_alias h)"
| "remote_ref_eq _ _ \<longleftrightarrow> False"

definition aliases_contains :: "dataset_ref_remote \<Rightarrow> remote_alias_kind \<Rightarrow> dataset_config \<Rightarrow> bool" where
  "aliases_contains r kind c \<longleftrightarrow> (\<exists>a \<in> set (aliases_get_by_kind kind c). remote_ref_eq a r)"

definition aliases_is_empty :: "remote_alias_kind \<Rightarrow> dataset_config \<Rightarrow> bool" where
  "aliases_is_empty kind c \<longleftrightarrow> aliases_get_by_kind kind c = []"

text \<open>The result and the configuration that is written back.\<close>

definition aliases_add :: "dataset_ref_remote \<Rightarrow> remote_alias_kind \<Rightarrow> dataset_config \<Rightarrow> bool \<times> dataset_config" where
  "aliases_add r kind c =
     (if \<not> aliases_contains r kind c then (True, aliases_put kind (aliases_get_by_kind kind c @ [r]) c) else (False, c))"

fun remove_first :: "('a \<Rightarrow> bool) \<Rightarrow> 'a list \<Rightarrow> 'a list option" where
  "remove_first P [] = None"
| "remove_first P (a # as) = (if P a then Some as else map_option (Cons a) (remove_first P as))"

definition aliases_delete :: "dataset_ref_remote \<Rightarrow> remote_alias_kind \<Rightarrow> dataset_config \<Rightarrow> bool \<times> dataset_config" where
  "aliases_delete r kind c =
     (case remove_first (\<lambda>a. remote_ref_eq a r) (aliases_get_by_kind kind c) of
        Some rs \<Rightarrow> (True, aliases_put kind rs c)
      | None \<Rightarrow> (False, c))"

definition aliases_clear :: "remote_alias_kind \<Rightarrow> dataset_config \<Rightarrow> nat \<times> dataset_config" where
  "aliases_clear kind c = (length (aliases_get_by_kind kind c), aliases_put kind [] c)"

section \<open>Requests, items and errors\<close>

datatype get_aliases_error = AliasesDatasetNotFound dataset_ref | AliasesInternal string

datatype pull_error =
    PullNotFound dataset_ref
  | PullNoSource
  | PullAmbiguousSource
  | PullInvalidOperation string
  | PullPollingIngestError string
  | PullTransformError string
  | PullSyncError sync_error
  | PullInternal string

record pull_request =
  req_local_ref :: "dataset_ref option"
  req_remote_ref :: "dataset_ref_remote option"

definition pull_request_from_any_ref :: "(repo_name \<Rightarrow> bool) \<Rightarrow> dataset_ref_any \<Rightarrow> pull_request" where
  "pull_request_from_any_ref is_repo r =
     (case any_into_local_ref is_repo r of
        Inr local \<Rightarrow> \<lparr>req_local_ref = Some local, req_remote_ref = None\<rparr>
      | Inl remote \<Rightarrow> \<lparr>req_local_ref = None, req_remote_ref = Some remote\<rparr>)"

record pull_item =
  pi_depth :: int
  pi_local_ref :: dataset_ref
  pi_remote_ref :: "dataset_ref_remote option"
  pi_original_request :: "pull_request option"

definition pull_item_cmp :: "pull_item \<Rightarrow> pull_item \<Rightarrow> ordering" where
  "pull_item_cmp self other =
     (if pi_depth self < pi_depth other then OrdLess
      else if pi_depth self > pi_depth other then OrdGreater
      else if (pi_remote_ref self \<noteq> None) \<noteq> (pi_remote_ref other \<noteq> None) then
        (if pi_remote_ref self \<noteq> None then OrdLess else OrdGreater)
      else
        (case (dataset_ref_alias (pi_local_ref self), dataset_ref_alias (pi_local_ref other)) of
           (Some lhs, Some rhs) \<Rightarrow> dataset_alias_cmp lhs rhs
         | (Some _, None) \<Rightarrow> OrdGreater
         | (None, Some _) \<Rightarrow> OrdLess
         | (None, None) \<Rightarrow> OrdEqual))"

text \<open>\<open>slice::sort\<close> is stable.\<close>

fun insert_item :: "pull_item \<Rightarrow> pull_item list \<Rightarrow> pull_item list" where
  "insert_item a [] = [a]"
| "insert_item a (b # bs) = (if pull_item_cmp a b \<noteq> OrdGreater then a # b # bs else b # insert_item a bs)"

definition sort_items :: "pull_item list \<Rightarrow> pull_item list" where
  "sort_items items = foldr insert_item items []"

section \<open>What the service reads\<close>

datatype current_account_subject = Logged account_name | Anonymous

record pull_env =
  pe_try_resolve_dataset_ref :: "dataset_ref \<Rightarrow> string + dataset_handle option"
  pe_is_multi_tenant :: bool
  pe_get_datasets_by_owner :: "account_name \<Rightarrow> (string + dataset_handle) list"
  pe_get_remote_aliases :: "dataset_ref \<Rightarrow> get_aliases_error + dataset_config"
  pe_dependencies :: "dataset_handle \<Rightarrow> string + dataset_id list"  \<comment> \<open>of the summary\<close>
  pe_current_account :: current_account_subject
  pe_url :: url_crate

definition int_err :: "string + 'a \<Rightarrow> (pull_error, 'a) res" where
  "int_err r = map_err (\<lambda>m. Fail (PullInternal m)) r"

text \<open>\<open>.int_err()?\<close> on the error of the registry.\<close>

fun aliases_error_text :: "get_aliases_error \<Rightarrow> string" where
  "aliases_error_text (AliasesDatasetNotFound _) = ''Dataset not found''"
| "aliases_error_text (AliasesInternal m) = m"

definition has_pull_alias :: "pull_env \<Rightarrow> dataset_handle \<Rightarrow> dataset_ref_remote \<Rightarrow> string + bool" where
  "has_pull_alias env h r =
     map_err aliases_error_text (and_then (pe_get_remote_aliases env (RefHandle h)) (\<lambda>c. Inr (aliases_contains r AliasPull c)))"

fun search_pull_alias :: "pull_env \<Rightarrow> dataset_ref_remote \<Rightarrow> (string + dataset_handle) list \<Rightarrow> string + dataset_handle option" where
  "search_pull_alias env r [] = Inr None"
| "search_pull_alias env r (Inl e # rest) = Inl e"
| "search_pull_alias env r (Inr h # rest) =
     and_then (has_pull_alias env h r) (\<lambda>found. if found then Inr (Some h) else search_pull_alias env r rest)"

definition quick_pull_alias :: "pull_env \<Rightarrow> dataset_ref_remote \<Rightarrow> string + dataset_handle option" where
  "quick_pull_alias env r =
     (case remote_ref_dataset_name r of
        None \<Rightarrow> Inr None
      | Some name \<Rightarrow>
          and_then (pe_try_resolve_dataset_ref env (RefAlias (dataset_alias_new None name))) (\<lambda>handle.
            case handle of
              None \<Rightarrow> Inr None
            | Some h \<Rightarrow> and_then (has_pull_alias env h r) (\<lambda>found. Inr (if found then Some h else None))))"

definition try_inverse_lookup_dataset_by_pull_alias :: "pull_env \<Rightarrow> dataset_ref_remote \<Rightarrow> string + dataset_handle option" where
  "try_inverse_lookup_dataset_by_pull_alias env r =
     and_then (quick_pull_alias env r) (\<lambda>found.
       case found of
         Some h \<Rightarrow> Inr (Some h)
       | None \<Rightarrow>
           (case pe_current_account env of
              Logged name \<Rightarrow> search_pull_alias env r (pe_get_datasets_by_owner env name)
            | Anonymous \<Rightarrow> Inr None))"

definition resolve_pull_alias :: "pull_env \<Rightarrow> dataset_ref \<Rightarrow> (pull_error, dataset_ref_remote option) res" where
  "resolve_pull_alias env r =
     (case pe_get_remote_aliases env r of
        Inl (AliasesDatasetNotFound d) \<Rightarrow> Inl (Fail (PullNotFound d))
      | Inl (AliasesInternal m) \<Rightarrow> Inl (Fail (PullInternal m))
      | Inr c \<Rightarrow>
          (case aliases_get_by_kind AliasPull c of
             [] \<Rightarrow> Inr None
           | [a] \<Rightarrow> Inr (Some a)
           | _ \<Rightarrow> Inl (Fail PullAmbiguousSource)))"

definition infer_local_name_from_url :: "url_crate \<Rightarrow> url \<Rightarrow> pull_error + dataset_name" where
  "infer_local_name_from_url uc u =
     (let from_path = Option.bind (url_path_segments uc u) (\<lambda>path.
            Option.bind (List.find (\<lambda>s. s \<noteq> []) (rev path)) (\<lambda>s.
              case dataset_name_from_str s of Inr n \<Rightarrow> Some n | Inl _ \<Rightarrow> None));
          from_host = Option.bind (url_host_domain uc u) (\<lambda>host.
            case dataset_name_from_str host of Inr n \<Rightarrow> Some n | Inl _ \<Rightarrow> None)
      in case from_path of
           Some n \<Rightarrow> Inr n
         | None \<Rightarrow>
             (case from_host of
                Some n \<Rightarrow> Inr n
              | None \<Rightarrow> Inl (PullInvalidOperation
                  ''Unable to infer local name from remote URL, please specify the destination explicitly'')))"

section \<open>The walk (collect_pull_graph_depth_first)\<close>

definition resolve_local_handle :: "pull_env \<Rightarrow> pull_request \<Rightarrow> (pull_error, dataset_handle option) res" where
  "resolve_local_handle env req =
     (case req_local_ref req of
        Some r \<Rightarrow>
          and_then (int_err (pe_try_resolve_dataset_ref env r)) (\<lambda>handle.
            if handle = None \<and> req_remote_ref req = None then Inl (Fail (PullNotFound r)) else Inr handle)
      | None \<Rightarrow>
          (case req_remote_ref req of
             Some r \<Rightarrow> int_err (try_inverse_lookup_dataset_by_pull_alias env r)
           | None \<Rightarrow> Inl (Panic ''Pull request must contain either local or remote reference'')))"

definition infer_local_alias :: "pull_env \<Rightarrow> dataset_ref_remote \<Rightarrow> (pull_error, dataset_alias) res" where
  "infer_local_alias env r =
     (case r of
        RemoteID _ _ \<Rightarrow> Inl (Panic ''not implemented: Pulling from remote by ID is not supported'')
      | RemoteAlias a \<Rightarrow> Inr (dataset_alias_new None (remote_dataset_name a))
      | RemoteHandle h \<Rightarrow> Inr (dataset_alias_new None (remote_dataset_name (remote_handle_alias h)))
      | RemoteUrl u \<Rightarrow>
          and_then
            (if pe_is_multi_tenant env then
               (case pe_current_account env of
                  Anonymous \<Rightarrow> Inl (Panic ''Anonymous account misused, use multi-tenant alias'')
                | Logged name \<Rightarrow> Inr (Some name))
             else Inr None) (\<lambda>account.
          and_then (map_err Fail (infer_local_name_from_url (pe_url env) u)) (\<lambda>name.
            Inr (dataset_alias_new account name))))"

definition resolve_local_alias :: "pull_env \<Rightarrow> pull_request \<Rightarrow> dataset_handle option \<Rightarrow> (pull_error, dataset_alias) res" where
  "resolve_local_alias env req handle =
     (case handle of
        Some h \<Rightarrow> Inr (handle_alias h)
      | None \<Rightarrow>
          (case req_local_ref req of
             Some r \<Rightarrow> (case dataset_ref_alias r of Some a \<Rightarrow> Inr a | None \<Rightarrow> Inl (Fail (PullNotFound r)))
           | None \<Rightarrow>
               (case req_remote_ref req of
                  Some r \<Rightarrow> infer_local_alias env r
                | None \<Rightarrow> Inl (Panic ''internal error: entered unreachable code''))))"

definition resolve_remote_ref :: "pull_env \<Rightarrow> pull_request \<Rightarrow> dataset_handle option \<Rightarrow> (pull_error, dataset_ref_remote option) res" where
  "resolve_remote_ref env req handle =
     (case req_remote_ref req of
        Some r \<Rightarrow> Inr (Some r)
      | None \<Rightarrow> (case handle of Some h \<Rightarrow> resolve_pull_alias env (RefHandle h) | None \<Rightarrow> Inr None))"

text \<open>The local dataset of a request, if it exists, and the alias it has or is created with.\<close>

definition resolved :: "pull_env \<Rightarrow> pull_request \<Rightarrow> (pull_error, dataset_handle option \<times> dataset_alias) res" where
  "resolved env req = and_then (resolve_local_handle env req) (\<lambda>handle.
     and_then (resolve_local_alias env req handle) (\<lambda>a. Inr (handle, a)))"

text \<open>\<open>visited\<close>: a hash map with the equality of aliases on its keys.\<close>

type_synonym visited = "(dataset_alias \<times> pull_item) list"

definition visited_get :: "visited \<Rightarrow> dataset_alias \<Rightarrow> pull_item option" where
  "visited_get v a = map_option snd (List.find (\<lambda>(k, _). dataset_alias_eq k a) v)"

definition visited_modify :: "(pull_item \<Rightarrow> pull_item) \<Rightarrow> dataset_alias \<Rightarrow> visited \<Rightarrow> visited" where
  "visited_modify f a v = map (\<lambda>(k, item). (k, if dataset_alias_eq k a then f item else item)) v"

text \<open>\<open>HashMap::insert\<close> keeps the key of an entry that it replaces.\<close>

definition visited_insert :: "dataset_alias \<Rightarrow> pull_item \<Rightarrow> visited \<Rightarrow> visited" where
  "visited_insert a item v =
     (if visited_get v a = None then v @ [(a, item)] else visited_modify (\<lambda>_. item) a v)"

text \<open>The loop over the dependencies: the greatest depth, from \<open>-1\<close>.\<close>

fun descend ::
  "(dataset_id \<Rightarrow> visited \<Rightarrow> ((pull_error, int) res \<times> visited) option) \<Rightarrow> dataset_id list \<Rightarrow> int \<Rightarrow> visited \<Rightarrow>
   ((pull_error, int) res \<times> visited) option" where
  "descend f [] max_dep_depth v = Some (Inr max_dep_depth, v)"
| "descend f (d # ds) max_dep_depth v =
     (case f d v of
        None \<Rightarrow> None
      | Some (Inl e, v) \<Rightarrow> Some (Inl e, v)
      | Some (Inr depth, v) \<Rightarrow> descend f ds (max max_dep_depth depth) v)"

definition mark_explicit :: "bool \<Rightarrow> pull_request \<Rightarrow> pull_item \<Rightarrow> pull_item" where
  "mark_explicit explicit req item = (if explicit then item\<lparr>pi_original_request := Some req\<rparr> else item)"

definition dependency_request :: "dataset_id \<Rightarrow> pull_request" where
  "dependency_request d = \<lparr>req_local_ref = Some (RefID d), req_remote_ref = None\<rparr>"

text \<open>
  A dataset is visited only once its dependencies are, so the walk does not return on a cycle: \<open>None\<close>
  when the fuel, the length of the path from a request, is used up.
\<close>

fun collect_depth_first ::
  "pull_env \<Rightarrow> bool \<Rightarrow> nat \<Rightarrow> pull_request \<Rightarrow> bool \<Rightarrow> visited \<Rightarrow> ((pull_error, int) res \<times> visited) option" where
  "collect_depth_first env create 0 req explicit v = None"
| "collect_depth_first env create (Suc n) req explicit v =
     (case resolved env req of
        Inl e \<Rightarrow> Some (Inl e, v)
      | Inr (handle, local_alias) \<Rightarrow>
          if handle = None \<and> \<not> create then
            Some (Inl (Fail (PullInvalidOperation ''Dataset does not exist and auto-create is switched off'')), v)
          else
          (case visited_get v local_alias of
             Some item \<Rightarrow> Some (Inr (pi_depth item), visited_modify (mark_explicit explicit req) local_alias v)
           | None \<Rightarrow>
               (case resolve_remote_ref env req handle of
                  Inl e \<Rightarrow> Some (Inl e, v)
                | Inr (Some remote) \<Rightarrow>
                    let item = \<lparr>pi_depth = 0,
                          pi_local_ref = (case handle of Some h \<Rightarrow> RefHandle h | None \<Rightarrow> RefAlias local_alias),
                          pi_remote_ref = Some remote, pi_original_request = None\<rparr>
                    in Some (Inr 0, visited_insert local_alias (mark_explicit explicit req item) v)
                | Inr None \<Rightarrow>
                    (case handle of
                       None \<Rightarrow> Some (Inl (Panic ''called Option::unwrap() on a None value''), v)
                     | Some h \<Rightarrow>
                         (case int_err (pe_dependencies env h) of
                            Inl e \<Rightarrow> Some (Inl e, v)
                          | Inr deps \<Rightarrow>
                              (case descend (\<lambda>d. collect_depth_first env create n (dependency_request d) False) deps (-1) v of
                                 None \<Rightarrow> None
                               | Some (Inl e, v) \<Rightarrow> Some (Inl e, v)
                               | Some (Inr max_dep_depth, v) \<Rightarrow>
                                   let item = \<lparr>pi_depth = max_dep_depth + 1, pi_local_ref = RefHandle h,
                                         pi_remote_ref = None, pi_original_request = None\<rparr>
                                   in Some (Inr (pi_depth item),
                                        visited_insert local_alias (mark_explicit explicit req item) v)))))))"

declare collect_depth_first.simps(2) [simp del]

section \<open>The plan (collect_pull_graph)\<close>

record pull_response =
  resp_original_request :: "pull_request option"
  resp_local_ref :: "dataset_ref option"
  resp_remote_ref :: "dataset_ref_remote option"
  resp_result :: "pull_error + pull_result"

text \<open>A panic ends the call; an error of a request is its response.\<close>

fun collect_requests ::
  "pull_env \<Rightarrow> bool \<Rightarrow> nat \<Rightarrow> pull_request list \<Rightarrow> visited \<Rightarrow> pull_response list \<Rightarrow>
   (unit, visited \<times> pull_response list) res option" where
  "collect_requests env create n [] v errors = Some (Inr (v, errors))"
| "collect_requests env create n (req # reqs) v errors =
     (case collect_depth_first env create n req True v of
        None \<Rightarrow> None
      | Some (Inl (Panic m), v) \<Rightarrow> Some (Inl (Panic m))
      | Some (Inl (Fail e), v) \<Rightarrow>
          collect_requests env create n reqs v
            (errors @ [\<lparr>resp_original_request = Some req, resp_local_ref = None, resp_remote_ref = None, resp_result = Inl e\<rparr>])
      | Some (Inr _, v) \<Rightarrow> collect_requests env create n reqs v errors)"

text \<open>\<open>iteration\<close> is the order in which the values of the hash map are iterated.\<close>

definition collect_pull_graph ::
  "pull_env \<Rightarrow> (pull_item list \<Rightarrow> pull_item list) \<Rightarrow> bool \<Rightarrow> nat \<Rightarrow> pull_request list \<Rightarrow>
   (unit, pull_item list \<times> pull_response list) res option" where
  "collect_pull_graph env iteration create n reqs =
     map_option (\<lambda>r. and_then r (\<lambda>(v, errors). Inr (sort_items (iteration (map snd v)), errors)))
       (collect_requests env create n reqs [] [])"

end
