(* ===== verification/Pull_Service.thy ===== *)
theory Pull_Service
  imports Pull_Planner
begin

text \<open>
  Pulling datasets (\<open>pull_service_impl.rs\<close>): running the plan. The plan is cut into batches of
  datasets of the same depth and kind; each batch is given to the ingest, the sync or the
  transform service, and the first batch with a failure is the last one. The three
  services, the registry of aliases and the writer are the interfaces the service is given; they
  act on a state \<open>'w\<close> that the model passes along.
\<close>

section \<open>Results of the services\<close>

datatype polling_ingest_result =
    IngestUpToDate bool bool  \<comment> \<open>no source defined, uncacheable\<close>
  | IngestUpdated multihash multihash bool bool  \<comment> \<open>old head, new head, has more, uncacheable\<close>

datatype transform_result = TransformUpToDate | TransformUpdated multihash multihash

fun pull_result_of_ingest :: "polling_ingest_result \<Rightarrow> pull_result" where
  "pull_result_of_ingest (IngestUpToDate _ uncacheable) = PullUpToDate (UpToDatePollingIngest uncacheable)"
| "pull_result_of_ingest (IngestUpdated old_head new_head _ _) = PullUpdated (Some old_head) new_head"

fun pull_result_of_transform :: "transform_result \<Rightarrow> pull_result" where
  "pull_result_of_transform TransformUpToDate = PullUpToDate UpToDateTransform"
| "pull_result_of_transform (TransformUpdated old_head new_head) = PullUpdated (Some old_head) new_head"

fun pull_result_of_sync :: "sync_result \<Rightarrow> pull_result" where
  "pull_result_of_sync UpToDate = PullUpToDate UpToDateSync"
| "pull_result_of_sync (Updated old_head new_head _) = PullUpdated old_head new_head"

definition map_result :: "('e \<Rightarrow> pull_error) \<Rightarrow> ('a \<Rightarrow> pull_result) \<Rightarrow> 'e + 'a \<Rightarrow> pull_error + pull_result" where
  "map_result f g r = (case r of Inl e \<Rightarrow> Inl (f e) | Inr a \<Rightarrow> Inr (g a))"

record 'w pull_services =
  ps_ingest_multi :: "dataset_ref list \<Rightarrow> 'w \<Rightarrow> (dataset_ref \<times> (string + polling_ingest_result)) list \<times> 'w"
  ps_sync_multi :: "(dataset_ref_any \<times> dataset_ref_any) list \<Rightarrow> 'w \<Rightarrow>
    (dataset_ref_any \<times> dataset_ref_any \<times> (sync_error + sync_result)) list \<times> 'w"
  ps_transform_multi :: "dataset_ref list \<Rightarrow> bool \<Rightarrow> 'w \<Rightarrow> (dataset_ref \<times> (string + transform_result)) list \<times> 'w"
  ps_get_remote_aliases :: "dataset_ref \<Rightarrow> 'w \<Rightarrow> get_aliases_error + dataset_config"
  ps_write_config :: "dataset_ref \<Rightarrow> dataset_config \<Rightarrow> 'w \<Rightarrow> (string + unit) \<times> 'w"

section \<open>Responses\<close>

definition into_response_ingest :: "pull_item \<Rightarrow> dataset_ref \<times> (string + polling_ingest_result) \<Rightarrow> pull_response" where
  "into_response_ingest item r =
     \<lparr>resp_original_request = pi_original_request item, resp_local_ref = Some (fst r), resp_remote_ref = None,
      resp_result = map_result PullPollingIngestError pull_result_of_ingest (snd r)\<rparr>"

definition result_ok :: "'e + 'a \<Rightarrow> 'a option" where
  "result_ok r = (case r of Inr a \<Rightarrow> Some a | Inl _ \<Rightarrow> None)"

definition into_response_sync ::
  "pull_item \<Rightarrow> dataset_ref_any \<times> dataset_ref_any \<times> (sync_error + sync_result) \<Rightarrow> pull_response" where
  "into_response_sync item = (\<lambda>(src, dst, result).
     \<lparr>resp_original_request = pi_original_request item, resp_local_ref = result_ok (any_into_local_ref (\<lambda>_. True) dst),
      resp_remote_ref = result_ok (any_into_remote_ref (\<lambda>_. True) src),
      resp_result = map_result PullSyncError pull_result_of_sync result\<rparr>)"

definition into_response_transform :: "pull_item \<Rightarrow> dataset_ref \<times> (string + transform_result) \<Rightarrow> pull_response" where
  "into_response_transform item r =
     \<lparr>resp_original_request = pi_original_request item, resp_local_ref = Some (fst r), resp_remote_ref = None,
      resp_result = map_result PullTransformError pull_result_of_transform (snd r)\<rparr>"

text \<open>The equality that \<open>derive(PartialEq)\<close> gives.\<close>

fun any_ref_eq :: "dataset_ref_any \<Rightarrow> dataset_ref_any \<Rightarrow> bool" where
  "any_ref_eq (AnyID r i) (AnyID q j) \<longleftrightarrow> option_name_eq r q \<and> i = j"
| "any_ref_eq (AnyRemoteAlias r a n) (AnyRemoteAlias q b m) \<longleftrightarrow> name_eq r q \<and> option_name_eq a b \<and> name_eq n m"
| "any_ref_eq (AnyLocalAlias a n) (AnyLocalAlias b m) \<longleftrightarrow> option_name_eq a b \<and> name_eq n m"
| "any_ref_eq (AnyAmbiguousAlias p n) (AnyAmbiguousAlias q m) \<longleftrightarrow> p = q \<and> name_eq n m"
| "any_ref_eq (AnyUrl u) (AnyUrl v) \<longleftrightarrow> u = v"
| "any_ref_eq (AnyLocalHandle g) (AnyLocalHandle h) \<longleftrightarrow> dataset_ref_eq (RefHandle g) (RefHandle h)"
| "any_ref_eq (AnyRemoteHandle g) (AnyRemoteHandle h) \<longleftrightarrow>
     remote_handle_id g = remote_handle_id h \<and> dataset_alias_remote_eq (remote_handle_alias g) (remote_handle_alias h)"
| "any_ref_eq _ _ \<longleftrightarrow> False"

text \<open>The assertions on the responses of a service: as many as requests, each for its item.\<close>

definition check_responses :: "(pull_item \<Rightarrow> 'r \<Rightarrow> bool) \<Rightarrow> (pull_item \<Rightarrow> 'r \<Rightarrow> pull_response) \<Rightarrow> pull_item list \<Rightarrow> 'r list \<Rightarrow> (string, pull_response list) res" where
  "check_responses same respond batch rs =
     (if length batch \<noteq> length rs then Inl (Panic ''assertion failed: batch.len() == responses.len()'')
      else if \<not> list_all (\<lambda>(item, r). same item r) (zip batch rs) then Inl (Panic ''assertion failed: reference of the response'')
      else Inr (map (\<lambda>(item, r). respond item r) (zip batch rs)))"

section \<open>Batches\<close>

definition pull_ingest_multi :: "'w pull_services \<Rightarrow> pull_item list \<Rightarrow> 'w \<Rightarrow> (string, pull_response list) res \<times> 'w" where
  "pull_ingest_multi svc batch w =
     (let (rs, w) = ps_ingest_multi svc (map pi_local_ref batch) w
      in (check_responses (\<lambda>item r. dataset_ref_eq (pi_local_ref item) (fst r)) into_response_ingest batch rs, w))"

text \<open>Newly synced datasets are associated with their remotes.\<close>

fun associate :: "'w pull_services \<Rightarrow> pull_response list \<Rightarrow> 'w \<Rightarrow> (string, unit) res \<times> 'w" where
  "associate svc [] w = (Inr (), w)"
| "associate svc (r # rs) w =
     (case (resp_result r, resp_remote_ref r) of
        (Inr (PullUpdated None _), Some remote) \<Rightarrow>
          (case resp_local_ref r of
             None \<Rightarrow> (Inl (Panic ''called Option::unwrap() on a None value''), w)
           | Some local \<Rightarrow>
               (case ps_get_remote_aliases svc local w of
                  Inl e \<Rightarrow> (Inl (Fail (aliases_error_text e)), w)
                | Inr c \<Rightarrow>
                    let (added, c') = aliases_add remote AliasPull c;
                        (result, w) = (if added then ps_write_config svc local c' w else (Inr (), w))
                    in case result of Inl e \<Rightarrow> (Inl (Fail e), w) | Inr _ \<Rightarrow> associate svc rs w))
      | _ \<Rightarrow> associate svc rs w)"

definition pull_sync_multi :: "'w pull_services \<Rightarrow> bool \<Rightarrow> pull_item list \<Rightarrow> 'w \<Rightarrow> (string, pull_response list) res \<times> 'w" where
  "pull_sync_multi svc add_aliases batch w =
     (if \<not> list_all (\<lambda>item. pi_remote_ref item \<noteq> None) batch
      then (Inl (Panic ''called Option::unwrap() on a None value''), w)
      else
        let (rs, w) = ps_sync_multi svc (map (\<lambda>item. (remote_ref_into_any (the (pi_remote_ref item)),
              dataset_ref_into_any (pi_local_ref item))) batch) w
        in case check_responses (\<lambda>item (src, dst, result). any_ref_eq (dataset_ref_into_any (pi_local_ref item)) dst)
               into_response_sync batch rs of
             Inl e \<Rightarrow> (Inl e, w)
           | Inr results \<Rightarrow>
               if add_aliases then
                 (case associate svc results w of (Inl e, w) \<Rightarrow> (Inl e, w) | (Inr _, w) \<Rightarrow> (Inr results, w))
               else (Inr results, w))"

definition pull_transform_multi :: "'w pull_services \<Rightarrow> bool \<Rightarrow> pull_item list \<Rightarrow> 'w \<Rightarrow> (string, pull_response list) res \<times> 'w" where
  "pull_transform_multi svc reset_derivatives batch w =
     (let (rs, w) = ps_transform_multi svc (map pi_local_ref batch) reset_derivatives w
      in (check_responses (\<lambda>item r. dataset_ref_eq (pi_local_ref item) (fst r)) into_response_transform batch rs, w))"

text \<open>Indexing the first element panics on an empty slice; the loop below never passes one.\<close>

definition same_batch :: "pull_item \<Rightarrow> pull_item \<Rightarrow> bool" where
  "same_batch first item \<longleftrightarrow> pi_depth item = pi_depth first \<and> (pi_remote_ref item \<noteq> None) = (pi_remote_ref first \<noteq> None)"

fun pull_slice :: "pull_item list \<Rightarrow> (unit, int \<times> bool \<times> pull_item list \<times> pull_item list) res" where
  "pull_slice [] = Inl (Panic ''index out of bounds: the len is 0 but the index is 0'')"
| "pull_slice (first # rest) =
     (let count = length (takeWhile (same_batch first) (first # rest))
      in Inr (pi_depth first, pi_remote_ref first \<noteq> None, take count (first # rest), drop count (first # rest)))"

section \<open>Running the plan (pull_multi_ext)\<close>

record pull_multi_options =
  opt_recursive :: bool
  opt_all :: bool
  opt_add_aliases :: bool
  opt_create_if_not_exists :: bool
  opt_reset_derivatives :: bool

definition run_batch :: "'w pull_services \<Rightarrow> pull_multi_options \<Rightarrow> int \<Rightarrow> bool \<Rightarrow> pull_item list \<Rightarrow> 'w \<Rightarrow> (string, pull_response list) res \<times> 'w" where
  "run_batch svc opts depth is_remote batch w =
     (if depth = 0 \<and> \<not> is_remote then pull_ingest_multi svc batch w
      else if depth = 0 \<and> is_remote then pull_sync_multi svc (opt_add_aliases opts) batch w
      else pull_transform_multi svc (opt_reset_derivatives opts) batch w)"

text \<open>The loop, with the results so far.\<close>

function run_plan ::
  "'w pull_services \<Rightarrow> pull_multi_options \<Rightarrow> pull_item list \<Rightarrow> pull_response list \<Rightarrow> 'w \<Rightarrow> (string, pull_response list) res \<times> 'w" where
  "run_plan svc opts [] results w = (Inr results, w)"
| "run_plan svc opts (first # rest) results w =
     (case pull_slice (first # rest) of
        Inl (Panic m) \<Rightarrow> (Inl (Panic m), w)
      | Inl (Fail _) \<Rightarrow> (Inl (Fail ''''), w)
      | Inr (depth, is_remote, batch, tail) \<Rightarrow>
          (case run_batch svc opts depth is_remote batch w of
             (Inl e, w) \<Rightarrow> (Inl e, w)
           | (Inr level, w) \<Rightarrow>
               if list_ex (\<lambda>r. isl (resp_result r)) level then (Inr (results @ level), w)
               else run_plan svc opts tail (results @ level) w))"
  by pat_completeness auto
termination
  by (relation "measure (\<lambda>(svc, opts, rest, results, w). length rest)")
    (auto simp: same_batch_def Let_def less_Suc_eq_le)

fun try_collect :: "(string + 'a) list \<Rightarrow> string + 'a list" where
  "try_collect [] = Inr []"
| "try_collect (Inl e # rest) = Inl e"
| "try_collect (Inr a # rest) = and_then (try_collect rest) (\<lambda>as. Inr (a # as))"

definition retain_plan :: "pull_multi_options \<Rightarrow> pull_item list \<Rightarrow> pull_item list" where
  "retain_plan opts plan =
     (if opt_recursive opts \<or> opt_all opts then plan else filter (\<lambda>item. pi_original_request item \<noteq> None) plan)"

definition requests_or_all :: "pull_env \<Rightarrow> pull_multi_options \<Rightarrow> account_name \<Rightarrow> pull_request list \<Rightarrow> string + pull_request list" where
  "requests_or_all env opts account reqs =
     (if \<not> opt_all opts then Inr reqs
      else and_then (try_collect (pe_get_datasets_by_owner env account)) (\<lambda>handles.
        Inr (map (\<lambda>h. \<lparr>req_local_ref = Some (RefHandle h), req_remote_ref = None\<rparr>) handles)))"

definition pull_multi_ext ::
  "pull_env \<Rightarrow> 'w pull_services \<Rightarrow> (pull_item list \<Rightarrow> pull_item list) \<Rightarrow> nat \<Rightarrow> pull_request list \<Rightarrow> pull_multi_options \<Rightarrow> 'w \<Rightarrow>
   ((string, pull_response list) res \<times> 'w) option" where
  "pull_multi_ext env svc iteration n reqs opts w =
     (case pe_current_account env of
        Anonymous \<Rightarrow> Some (Inl (Fail ''Anonymous account misused, use multi-tenant alias''), w)
      | Logged account \<Rightarrow>
          (case requests_or_all env opts account reqs of
             Inl e \<Rightarrow> Some (Inl (Fail e), w)
           | Inr reqs \<Rightarrow>
               (case collect_pull_graph env iteration (opt_create_if_not_exists opts) n reqs of
                  None \<Rightarrow> None
                | Some (Inl (Panic m)) \<Rightarrow> Some (Inl (Panic m), w)
                | Some (Inl (Fail _)) \<Rightarrow> Some (Inl (Fail ''''), w)
                | Some (Inr (plan, errors)) \<Rightarrow>
                    if errors \<noteq> [] then Some (Inr errors, w)
                    else Some (run_plan svc opts (retain_plan opts plan) [] w))))"

definition pull_multi ::
  "pull_env \<Rightarrow> 'w pull_services \<Rightarrow> (pull_item list \<Rightarrow> pull_item list) \<Rightarrow> nat \<Rightarrow> dataset_ref_any list \<Rightarrow> pull_multi_options \<Rightarrow> 'w \<Rightarrow>
   ((string, pull_response list) res \<times> 'w) option" where
  "pull_multi env svc iteration n refs opts w =
     pull_multi_ext env svc iteration n (map (pull_request_from_any_ref (\<lambda>_. \<not> pe_is_multi_tenant env)) refs) opts w"

record pull_options =
  one_add_aliases :: bool
  one_create_if_not_exists :: bool
  one_reset_derivatives :: bool

definition pull_ext ::
  "pull_env \<Rightarrow> 'w pull_services \<Rightarrow> (pull_item list \<Rightarrow> pull_item list) \<Rightarrow> nat \<Rightarrow> pull_request \<Rightarrow> pull_options \<Rightarrow> 'w \<Rightarrow>
   ((pull_error, pull_result) res \<times> 'w) option" where
  "pull_ext env svc iteration n req opts w =
     (case pull_multi_ext env svc iteration n [req]
             \<lparr>opt_recursive = False, opt_all = False, opt_add_aliases = one_add_aliases opts,
              opt_create_if_not_exists = one_create_if_not_exists opts, opt_reset_derivatives = one_reset_derivatives opts\<rparr> w of
        None \<Rightarrow> None
      | Some (Inl (Panic m), w) \<Rightarrow> Some (Inl (Panic m), w)
      | Some (Inl (Fail m), w) \<Rightarrow> Some (Inl (Fail (PullInternal m)), w)
      | Some (Inr [r], w) \<Rightarrow> Some (map_err Fail (resp_result r), w)
      | Some (Inr _, w) \<Rightarrow> Some (Inl (Panic ''assertion failed: responses.len() == 1''), w))"

definition pull ::
  "pull_env \<Rightarrow> 'w pull_services \<Rightarrow> (pull_item list \<Rightarrow> pull_item list) \<Rightarrow> nat \<Rightarrow> dataset_ref_any \<Rightarrow> pull_options \<Rightarrow> 'w \<Rightarrow>
   ((pull_error, pull_result) res \<times> 'w) option" where
  "pull env svc iteration n r opts w =
     pull_ext env svc iteration n (pull_request_from_any_ref (\<lambda>_. \<not> pe_is_multi_tenant env) r) opts w"

end
