(* ===== verification/Pull_Properties.thy ===== *)
theory Pull_Properties
  imports Pull_Service
begin

text \<open>
  The plan of a pull: the walk over the dependencies keeps an invariant of the datasets it has
  visited, and ends when the dependencies have no cycle.
\<close>

section \<open>The map of visited datasets\<close>

lemma name_eq_equiv: "name_eq a a" "name_eq a b \<longleftrightarrow> name_eq b a" "name_eq a b \<Longrightarrow> name_eq b c \<Longrightarrow> name_eq a c"
  by (auto simp: name_eq_def)

lemma option_name_eq_map: "option_name_eq a b \<longleftrightarrow> map_option into_lowercase a = map_option into_lowercase b"
  by (cases a; cases b) (auto simp: name_eq_def)

text \<open>Aliases are equal when their canonical forms are.\<close>

definition alias_key :: "dataset_alias \<Rightarrow> string option \<times> string" where
  "alias_key a = (map_option into_lowercase (alias_account_name a), into_lowercase (alias_dataset_name a))"

lemma dataset_alias_eq_key: "dataset_alias_eq a b \<longleftrightarrow> alias_key a = alias_key b"
  by (auto simp: dataset_alias_eq_def alias_key_def option_name_eq_map name_eq_def)

lemma visited_get_Nil [simp]: "visited_get [] a = None"
  by (simp add: visited_get_def)

lemma visited_get_Cons:
  "visited_get ((k, item) # v) a = (if alias_key k = alias_key a then Some item else visited_get v a)"
  by (simp add: visited_get_def dataset_alias_eq_key)

lemma visited_get_cong: "alias_key a = alias_key b \<Longrightarrow> visited_get v a = visited_get v b"
  by (simp add: visited_get_def dataset_alias_eq_key)

lemma visited_get_append: "visited_get (v @ w) a = (case visited_get v a of Some item \<Rightarrow> Some item | None \<Rightarrow> visited_get w a)"
  by (induction v) (auto simp: visited_get_Cons)

lemma visited_get_modify:
  "visited_get (visited_modify f a v) b = (if alias_key a = alias_key b then map_option f (visited_get v b) else visited_get v b)"
  unfolding visited_modify_def by (induction v) (auto simp: visited_get_Cons dataset_alias_eq_key)

lemma visited_get_insert:
  "visited_get (visited_insert a item v) b = (if alias_key a = alias_key b then Some item else visited_get v b)"
  by (auto simp: visited_insert_def visited_get_append visited_get_Cons visited_get_modify visited_get_cong [of a b]
      split: option.split)

definition keys_apart :: "visited \<Rightarrow> bool" where
  "keys_apart v \<longleftrightarrow> distinct (map (alias_key \<circ> fst) v)"

lemma modify_keys: "map (alias_key \<circ> fst) (visited_modify f a v) = map (alias_key \<circ> fst) v"
  by (simp add: visited_modify_def split_def)

lemma visited_get_None: "visited_get v a = None \<longleftrightarrow> alias_key a \<notin> set (map (alias_key \<circ> fst) v)"
proof (induction v)
  case (Cons p v)
  then show ?case by (cases p) (simp add: visited_get_Cons eq_commute)
qed simp

lemma keys_apart_insert: "keys_apart v \<Longrightarrow> keys_apart (visited_insert a item v)"
  using visited_get_None [of v a] by (auto simp: keys_apart_def visited_insert_def modify_keys)

lemma keys_apart_modify: "keys_apart v \<Longrightarrow> keys_apart (visited_modify f a v)"
  by (simp add: keys_apart_def modify_keys)

lemma visited_get_in: "keys_apart v \<Longrightarrow> (k, item) \<in> set v \<Longrightarrow> visited_get v k = Some item"
proof (induction v)
  case (Cons p v)
  obtain k' item' where p: "p = (k', item')" by fastforce
  show ?case
  proof (cases "p = (k, item)")
    case True
    then show ?thesis by (simp add: visited_get_Cons)
  next
    case False
    then have "(k, item) \<in> set v" using Cons(3) by simp
    moreover from this have "alias_key k' \<noteq> alias_key k" using Cons(2) p by (force simp: keys_apart_def)
    ultimately show ?thesis using Cons p by (simp add: visited_get_Cons keys_apart_def)
  qed
qed simp

lemma visited_get_Some: "visited_get v a = Some item \<Longrightarrow> \<exists>k. (k, item) \<in> set v \<and> alias_key k = alias_key a"
  by (induction v) (auto simp: visited_get_Cons split: if_splits)

section \<open>The invariant\<close>

definition item_ok :: "pull_env \<Rightarrow> visited \<Rightarrow> pull_item \<Rightarrow> bool" where
  "item_ok env v item \<longleftrightarrow>
     (case pi_remote_ref item of
        Some _ \<Rightarrow> pi_depth item = 0
      | None \<Rightarrow> (\<exists>h deps. pi_local_ref item = RefHandle h \<and> pe_dependencies env h = Inr deps
          \<and> 0 \<le> pi_depth item \<and> (pi_depth item = 0 \<longleftrightarrow> deps = [])
          \<and> (\<forall>d \<in> set deps. \<exists>dh it. pe_try_resolve_dataset_ref env (RefID d) = Inr (Some dh)
               \<and> visited_get v (handle_alias dh) = Some it \<and> pi_depth it < pi_depth item)))"

definition visited_ok :: "pull_env \<Rightarrow> visited \<Rightarrow> bool" where
  "visited_ok env v \<longleftrightarrow> keys_apart v
     \<and> (\<forall>a item. visited_get v a = Some item \<longrightarrow>
          item_ok env v item \<and> (\<exists>k. dataset_ref_alias (pi_local_ref item) = Some k \<and> alias_key k = alias_key a))"

text \<open>Later visits keep what an entry says, except for the request it answers.\<close>

definition same_node :: "pull_item \<Rightarrow> pull_item \<Rightarrow> bool" where
  "same_node a b \<longleftrightarrow> pi_depth a = pi_depth b \<and> pi_local_ref a = pi_local_ref b \<and> pi_remote_ref a = pi_remote_ref b
     \<and> (pi_original_request a \<noteq> None \<longrightarrow> pi_original_request b \<noteq> None)"

definition visited_grows :: "visited \<Rightarrow> visited \<Rightarrow> bool" where
  "visited_grows v v' \<longleftrightarrow> (\<forall>a item. visited_get v a = Some item \<longrightarrow> (\<exists>item'. visited_get v' a = Some item' \<and> same_node item item'))"

lemma visited_grows_refl [simp]: "visited_grows v v"
  by (simp add: visited_grows_def same_node_def)

lemma visited_grows_trans: "visited_grows u v \<Longrightarrow> visited_grows v w \<Longrightarrow> visited_grows u w"
  unfolding visited_grows_def same_node_def by (metis (no_types, lifting))

lemma visited_growsD: "visited_grows v v' \<Longrightarrow> visited_get v a = Some item \<Longrightarrow> \<exists>item'. visited_get v' a = Some item' \<and> same_node item item'"
  by (auto simp: visited_grows_def)

lemma item_ok_grows:
  assumes "visited_grows v v'" and "item_ok env v item"
  shows "item_ok env v' item"
proof (cases "pi_remote_ref item")
  case None
  then obtain h deps where h: "pi_local_ref item = RefHandle h" "pe_dependencies env h = Inr deps" "0 \<le> pi_depth item"
    "pi_depth item = 0 \<longleftrightarrow> deps = []"
    "\<forall>d \<in> set deps. \<exists>dh it. pe_try_resolve_dataset_ref env (RefID d) = Inr (Some dh)
       \<and> visited_get v (handle_alias dh) = Some it \<and> pi_depth it < pi_depth item"
    using assms(2) by (auto simp: item_ok_def)
  have "\<exists>dh it. pe_try_resolve_dataset_ref env (RefID d) = Inr (Some dh)
      \<and> visited_get v' (handle_alias dh) = Some it \<and> pi_depth it < pi_depth item" if mem: "d \<in> set deps" for d
  proof -
    obtain dh it where it: "pe_try_resolve_dataset_ref env (RefID d) = Inr (Some dh)"
      "visited_get v (handle_alias dh) = Some it" "pi_depth it < pi_depth item" using bspec [OF h(5) mem] by blast
    obtain it' where "visited_get v' (handle_alias dh) = Some it'" "same_node it it'"
      using visited_growsD [OF assms(1) it(2)] by blast
    with it show ?thesis by (auto simp: same_node_def)
  qed
  with h None show ?thesis by (auto simp: item_ok_def)
qed (use assms(2) in \<open>simp add: item_ok_def\<close>)

lemma item_ok_same: "same_node a b \<Longrightarrow> item_ok env v a \<Longrightarrow> item_ok env v b"
  unfolding item_ok_def same_node_def by (elim conjE) (simp split: option.splits)

lemma mark_same: "same_node item (mark_explicit explicit req item)"
  by (simp add: same_node_def mark_explicit_def)

lemma visited_grows_modify: "visited_grows v (visited_modify (mark_explicit explicit req) a v)"
  by (auto simp: visited_grows_def visited_get_modify mark_same) (simp add: same_node_def)

lemma visited_ok_modify:
  assumes "visited_ok env v"
  shows "visited_ok env (visited_modify (mark_explicit explicit req) a v)"
proof -
  let ?v = "visited_modify (mark_explicit explicit req) a v"
  have "item_ok env ?v item \<and> (\<exists>k. dataset_ref_alias (pi_local_ref item) = Some k \<and> alias_key k = alias_key b)"
    if get: "visited_get ?v b = Some item" for b item
  proof -
    obtain item0 where "visited_get v b = Some item0" "same_node item0 item"
      using get mark_same by (auto simp: visited_get_modify same_node_def split: if_splits)
    then show ?thesis
      using assms item_ok_grows [OF visited_grows_modify] item_ok_same by (fastforce simp: visited_ok_def same_node_def)
  qed
  then show ?thesis using assms by (simp add: visited_ok_def keys_apart_modify)
qed

lemma visited_grows_insert: "visited_get v a = None \<Longrightarrow> visited_grows v (visited_insert a item v)"
proof (unfold visited_grows_def, intro allI impI)
  fix b it assume none: "visited_get v a = None" and some: "visited_get v b = Some it"
  then have "alias_key a \<noteq> alias_key b" using visited_get_cong [of a b v] by auto
  then show "\<exists>it'. visited_get (visited_insert a item v) b = Some it' \<and> same_node it it'"
    using some by (simp add: visited_get_insert same_node_def)
qed

lemma visited_ok_insert:
  assumes "visited_ok env v" and "visited_get v a = None" and "item_ok env v item"
    and "dataset_ref_alias (pi_local_ref item) = Some k" and "alias_key k = alias_key a"
  shows "visited_ok env (visited_insert a item v)"
proof -
  have ok: "item_ok env (visited_insert a item v) it" if "item_ok env v it" for it
    using item_ok_grows [OF visited_grows_insert [OF assms(2)] that] .
  show ?thesis
    using assms ok by (auto simp: visited_ok_def keys_apart_insert visited_get_insert split: if_splits)
qed

section \<open>The walk\<close>

text \<open>The dependencies of datasets have no cycle: each has a smaller rank than the dataset derived from it.\<close>

definition acyclic_workspace :: "pull_env \<Rightarrow> (dataset_alias \<Rightarrow> nat) \<Rightarrow> bool" where
  "acyclic_workspace env rank \<longleftrightarrow>
     (\<forall>a b. dataset_alias_eq a b \<longrightarrow> rank a = rank b)
     \<and> (\<forall>h deps d dh. pe_dependencies env h = Inr deps \<longrightarrow> d \<in> set deps \<longrightarrow>
          pe_try_resolve_dataset_ref env (RefID d) = Inr (Some dh) \<longrightarrow> rank (handle_alias dh) < rank (handle_alias h))"

lemma rank_key: "acyclic_workspace env rank \<Longrightarrow> alias_key a = alias_key b \<Longrightarrow> rank a = rank b"
proof -
  assume "acyclic_workspace env rank" and key: "alias_key a = alias_key b"
  then have "\<forall>a b. alias_key a = alias_key b \<longrightarrow> rank a = rank b"
    unfolding acyclic_workspace_def dataset_alias_eq_key by (elim conjE)
  from this [THEN spec, THEN spec, THEN mp, OF key] show ?thesis .
qed

lemma rank_dependency:
  "acyclic_workspace env rank \<Longrightarrow> pe_dependencies env h = Inr deps \<Longrightarrow> d \<in> set deps \<Longrightarrow>
   pe_try_resolve_dataset_ref env (RefID d) = Inr (Some dh) \<Longrightarrow> rank (handle_alias dh) < rank (handle_alias h)"
proof -
  assume "acyclic_workspace env rank" and step: "pe_dependencies env h = Inr deps" "d \<in> set deps"
    "pe_try_resolve_dataset_ref env (RefID d) = Inr (Some dh)"
  then have "\<forall>h deps d dh. pe_dependencies env h = Inr deps \<longrightarrow> d \<in> set deps \<longrightarrow>
      pe_try_resolve_dataset_ref env (RefID d) = Inr (Some dh) \<longrightarrow> rank (handle_alias dh) < rank (handle_alias h)"
    by (simp add: acyclic_workspace_def)
  from this [THEN spec, THEN spec, THEN spec, THEN spec, THEN mp, THEN mp, THEN mp, OF step] show ?thesis .
qed

lemma collect_unfold:
  "collect_depth_first env create (Suc n) req explicit v =
     (case resolved env req of
        Inl e \<Rightarrow> Some (Inl e, v)
      | Inr (handle, a) \<Rightarrow>
          if handle = None \<and> \<not> create then
            Some (Inl (Fail (PullInvalidOperation ''Dataset does not exist and auto-create is switched off'')), v)
          else
          (case visited_get v a of
             Some item \<Rightarrow> Some (Inr (pi_depth item), visited_modify (mark_explicit explicit req) a v)
           | None \<Rightarrow>
               (case resolve_remote_ref env req handle of
                  Inl e \<Rightarrow> Some (Inl e, v)
                | Inr (Some remote) \<Rightarrow>
                    Some (Inr 0, visited_insert a (mark_explicit explicit req
                      \<lparr>pi_depth = 0, pi_local_ref = (case handle of Some h \<Rightarrow> RefHandle h | None \<Rightarrow> RefAlias a),
                       pi_remote_ref = Some remote, pi_original_request = None\<rparr>) v)
                | Inr None \<Rightarrow>
                    (case handle of
                       None \<Rightarrow> Some (Inl (Panic ''called Option::unwrap() on a None value''), v)
                     | Some h \<Rightarrow>
                         (case int_err (pe_dependencies env h) of
                            Inl e \<Rightarrow> Some (Inl e, v)
                          | Inr deps \<Rightarrow>
                              (case descend (\<lambda>d. collect_depth_first env create n (dependency_request d) False) deps (-1) v of
                                 None \<Rightarrow> None
                               | Some (Inl e, v) \<Rightarrow> Some (Inl e, v)
                               | Some (Inr m, v) \<Rightarrow>
                                   Some (Inr (m + 1), visited_insert a (mark_explicit explicit req
                                     \<lparr>pi_depth = m + 1, pi_local_ref = RefHandle h, pi_remote_ref = None,
                                      pi_original_request = None\<rparr>) v)))))))"
  unfolding collect_depth_first.simps(2) Let_def pull_item.select_convs ..

lemma resolved_handle: "resolved env req = Inr (Some h, a) \<Longrightarrow> a = handle_alias h"
  by (auto simp: resolved_def res_simps resolve_local_alias_def)

lemma resolved_dependency:
  "resolved env (dependency_request d) = Inr (handle, a) \<Longrightarrow>
     \<exists>dh. handle = Some dh \<and> a = handle_alias dh \<and> pe_try_resolve_dataset_ref env (RefID d) = Inr (Some dh)"
  by (auto simp: resolved_def res_simps resolve_local_handle_def resolve_local_alias_def dependency_request_def int_err_def
      split: if_splits option.splits)

text \<open>What one call does: it keeps the invariant, and what it adds lies below the dataset it is called for.\<close>

definition adds_below :: "(dataset_alias \<Rightarrow> nat) \<Rightarrow> nat \<Rightarrow> visited \<Rightarrow> visited \<Rightarrow> bool" where
  "adds_below rank m v v' \<longleftrightarrow> (\<forall>b. visited_get v b = None \<longrightarrow> visited_get v' b \<noteq> None \<longrightarrow> rank b < m)"

lemma adds_below_refl [simp]: "adds_below rank m v v"
  by (simp add: adds_below_def)

lemma adds_below_trans: "adds_below rank m u v \<Longrightarrow> adds_below rank m v w \<Longrightarrow> adds_below rank m u w"
  unfolding adds_below_def by (metis (no_types))

lemma adds_below_mono: "adds_below rank m u v \<Longrightarrow> m \<le> n \<Longrightarrow> adds_below rank n u v"
  unfolding adds_below_def by (meson less_le_trans)

definition walked :: "pull_env \<Rightarrow> (dataset_alias \<Rightarrow> nat) \<Rightarrow> nat \<Rightarrow> visited \<Rightarrow> visited \<Rightarrow> bool" where
  "walked env rank m v v' \<longleftrightarrow> visited_ok env v' \<and> visited_grows v v' \<and> adds_below rank m v v'"

lemma walked_refl: "visited_ok env v \<Longrightarrow> walked env rank m v v"
  by (simp add: walked_def)

lemma walked_trans: "walked env rank m u v \<Longrightarrow> walked env rank m v w \<Longrightarrow> walked env rank m u w"
  by (simp add: walked_def visited_grows_trans [of u v w] adds_below_trans [of rank m u v w])

lemma walked_mono: "walked env rank m u v \<Longrightarrow> m \<le> n \<Longrightarrow> walked env rank n u v"
  by (simp add: walked_def adds_below_mono [of rank m u v n])

lemma walked_modify: "visited_ok env v \<Longrightarrow> walked env rank m v (visited_modify (mark_explicit explicit req) a v)"
  by (auto simp: walked_def visited_ok_modify visited_grows_modify adds_below_def visited_get_modify split: if_splits)

lemma walked_insert:
  assumes "acyclic_workspace env rank" and "visited_ok env v" and "visited_get v a = None" and "item_ok env v item"
    and "dataset_ref_alias (pi_local_ref item) = Some k" and "alias_key k = alias_key a"
  shows "walked env rank (Suc (rank a)) v (visited_insert a item v)"
proof -
  have "rank b < Suc (rank a)" if "visited_get v b = None" "visited_get (visited_insert a item v) b \<noteq> None" for b
    using that rank_key [OF assms(1), of a b] by (simp add: visited_get_insert split: if_splits)
  then show ?thesis
    using visited_ok_insert [OF assms(2-6)] visited_grows_insert [OF assms(3)] by (simp add: walked_def adds_below_def)
qed

text \<open>The call on a dependency, and its result.\<close>

definition visits :: "pull_env \<Rightarrow> dataset_id \<Rightarrow> int \<Rightarrow> visited \<Rightarrow> bool" where
  "visits env d depth v \<longleftrightarrow> (\<exists>dh it. pe_try_resolve_dataset_ref env (RefID d) = Inr (Some dh)
     \<and> visited_get v (handle_alias dh) = Some it \<and> pi_depth it = depth)"

definition walks :: "pull_env \<Rightarrow> (dataset_alias \<Rightarrow> nat) \<Rightarrow> nat \<Rightarrow> dataset_id \<Rightarrow> (visited \<Rightarrow> ((pull_error, int) res \<times> visited) option) \<Rightarrow> bool" where
  "walks env rank m d f \<longleftrightarrow> (\<forall>u u' r. visited_ok env u \<longrightarrow> f u = Some (r, u') \<longrightarrow>
     walked env rank m u u' \<and> (\<forall>depth. r = Inr depth \<longrightarrow> 0 \<le> depth \<and> visits env d depth u'))"

lemma walksD:
  assumes "walks env rank m d f" and "visited_ok env u" and "f u = Some (r, u')"
  shows "walked env rank m u u'" and "r = Inr depth \<Longrightarrow> 0 \<le> depth \<and> visits env d depth u'"
  using assms unfolding walks_def by blast+

lemma visits_grows: "visits env d depth u \<Longrightarrow> visited_grows u v \<Longrightarrow> visits env d depth v"
proof -
  assume "visits env d depth u" and visited_grows: "visited_grows u v"
  then obtain dh it where it: "pe_try_resolve_dataset_ref env (RefID d) = Inr (Some dh)"
    "visited_get u (handle_alias dh) = Some it" "pi_depth it = depth" by (auto simp: visits_def)
  from visited_growsD [OF visited_grows it(2)] obtain it' where "visited_get v (handle_alias dh) = Some it'" "same_node it it'" by blast
  with it show ?thesis by (auto simp: visits_def same_node_def)
qed

lemma visited_depth: "visited_ok env v \<Longrightarrow> visited_get v a = Some item \<Longrightarrow> 0 \<le> pi_depth item"
proof -
  assume "visited_ok env v" "visited_get v a = Some item"
  then have "item_ok env v item" by (simp add: visited_ok_def)
  then show ?thesis by (cases "pi_remote_ref item") (auto simp: item_ok_def)
qed

lemma descend_walks:
  assumes "\<forall>d \<in> set ds. walks env rank m d (f d)" and "visited_ok env v" and "descend f ds k v = Some (r, v')"
  shows "walked env rank m v v' \<and>
    (\<forall>x. r = Inr x \<longrightarrow> k \<le> x \<and> (\<forall>d \<in> set ds. \<exists>depth. 0 \<le> depth \<and> depth \<le> x \<and> visits env d depth v'))"
  using assms
proof (induction ds arbitrary: k v)
  case Nil
  then show ?case by (auto simp: walked_refl)
next
  case (Cons d ds)
  then have w: "walks env rank m d (f d)" by simp
  obtain s u where fd: "f d v = Some (s, u)" using Cons.prems(3) by (cases "f d v") auto
  note first = walksD [OF w Cons.prems(2) fd]
  then have ok: "visited_ok env u" by (simp add: walked_def)
  show ?case
  proof (cases s)
    case (Inl e)
    then have "r = Inl e" "v' = u" using Cons.prems(3) fd by simp_all
    then show ?thesis using first(1) by simp
  next
    case (Inr depth)
    then have run: "descend f ds (max k depth) u = Some (r, v')" using Cons.prems(3) fd by simp
    note rest = Cons.IH [OF _ ok run]
    have "walked env rank m u v'" and later: "\<And>x. r = Inr x \<Longrightarrow> max k depth \<le> x
        \<and> (\<forall>d \<in> set ds. \<exists>depth. 0 \<le> depth \<and> depth \<le> x \<and> visits env d depth v')"
      using rest Cons.prems(1) by simp_all
    moreover have "visits env d depth v'" using first(2) [OF Inr] \<open>walked env rank m u v'\<close> visits_grows
      unfolding walked_def by blast
    ultimately show ?thesis using walked_trans [OF first(1)] first(2) [OF Inr] by auto
  qed
qed

definition outcome :: "pull_env \<Rightarrow> (dataset_alias \<Rightarrow> nat) \<Rightarrow> bool \<Rightarrow> pull_request \<Rightarrow> visited \<Rightarrow> (pull_error, int) res \<Rightarrow> visited \<Rightarrow> bool" where
  "outcome env rank explicit req v r v' \<longleftrightarrow>
     (case resolved env req of
        Inl e \<Rightarrow> r = Inl e \<and> v' = v
      | Inr (handle, a) \<Rightarrow> walked env rank (Suc (rank a)) v v'
          \<and> (\<forall>depth. r = Inr depth \<longrightarrow> 0 \<le> depth
               \<and> (\<exists>it. visited_get v' a = Some it \<and> pi_depth it = depth
                    \<and> (explicit \<longrightarrow> pi_original_request it = Some req))))"

lemma mark_explicit_simps [simp]:
  "pi_depth (mark_explicit explicit req it) = pi_depth it"
  "pi_local_ref (mark_explicit explicit req it) = pi_local_ref it"
  "pi_remote_ref (mark_explicit explicit req it) = pi_remote_ref it"
  "pi_original_request (mark_explicit True req it) = Some req"
  by (simp_all add: mark_explicit_def)

lemma dependency_walks:
  assumes acyclic: "acyclic_workspace env rank" and deps: "pe_dependencies env h = Inr deps" and mem: "d \<in> set deps"
    and f: "\<And>w w' t. visited_ok env w \<Longrightarrow> f w = Some (t, w') \<Longrightarrow> outcome env rank False (dependency_request d) w t w'"
  shows "walks env rank (rank (handle_alias h)) d f"
proof (unfold walks_def, intro allI impI)
  fix w w' t assume ok: "visited_ok env w" and run: "f w = Some (t, w')"
  note out = f [OF ok run, unfolded outcome_def]
  show "walked env rank (rank (handle_alias h)) w w' \<and> (\<forall>depth. t = Inr depth \<longrightarrow> 0 \<le> depth \<and> visits env d depth w')"
  proof (cases "resolved env (dependency_request d)")
    case (Inl e)
    then show ?thesis using out ok by (simp add: walked_refl)
  next
    case (Inr q)
    then obtain dh where q: "q = (Some dh, handle_alias dh)" and dh: "pe_try_resolve_dataset_ref env (RefID d) = Inr (Some dh)"
      using resolved_dependency by (cases q) blast
    then have "Suc (rank (handle_alias dh)) \<le> rank (handle_alias h)"
      using rank_dependency [OF acyclic deps mem dh] by simp
    then show ?thesis using out Inr q dh walked_mono [of env rank _ w w' "rank (handle_alias h)"] by (auto simp: visits_def)
  qed
qed

lemma descended_item_ok:
  assumes deps: "pe_dependencies env h = Inr deps" and run: "descend f deps (-1) v = Some (Inr x, u)" and low: "-1 \<le> x"
    and reached: "\<forall>d \<in> set deps. \<exists>depth. 0 \<le> depth \<and> depth \<le> x \<and> visits env d depth u"
    and item: "pi_depth item = x + 1" "pi_local_ref item = RefHandle h" "pi_remote_ref item = None"
  shows "item_ok env u item"
proof -
  have "\<exists>dh it. pe_try_resolve_dataset_ref env (RefID d) = Inr (Some dh)
      \<and> visited_get u (handle_alias dh) = Some it \<and> pi_depth it < x + 1" if "d \<in> set deps" for d
    using reached that by (fastforce simp: visits_def)
  moreover have "x + 1 = 0 \<longleftrightarrow> deps = []"
  proof (cases deps)
    case Nil
    then show ?thesis using run by simp
  next
    case (Cons d ds)
    then show ?thesis using reached by auto
  qed
  ultimately show ?thesis using low deps item by (auto simp: item_ok_def)
qed

lemma adds_below_absent: "adds_below rank (rank a) v u \<Longrightarrow> visited_get v a = None \<Longrightarrow> visited_get u a = None"
  unfolding adds_below_def by (metis less_irrefl)

text \<open>The three ways a call goes on for a dataset that it sees for the first time.\<close>

lemma collect_cases:
  assumes "collect_depth_first env create (Suc n) req explicit v = Some (r, v')" and "resolved env req = Inr (handle, a)"
    and "visited_get v a = None"
  obtains (same) "v' = v" "\<And>depth. r \<noteq> Inr depth"
    | (remote) item where "v' = visited_insert a (mark_explicit explicit req item) v" "r = Inr 0"
        "pi_depth item = 0" "pi_remote_ref item \<noteq> None"
        "pi_local_ref item = (case handle of Some h \<Rightarrow> RefHandle h | None \<Rightarrow> RefAlias a)"
    | (down) h deps s u where "handle = Some h" "pe_dependencies env h = Inr deps"
        "descend (\<lambda>d. collect_depth_first env create n (dependency_request d) False) deps (-1) v = Some (s, u)"
        "case s of Inl e \<Rightarrow> r = Inl e \<and> v' = u
         | Inr x \<Rightarrow> r = Inr (x + 1) \<and> v' = visited_insert a (mark_explicit explicit req
             \<lparr>pi_depth = x + 1, pi_local_ref = RefHandle h, pi_remote_ref = None, pi_original_request = None\<rparr>) u"
  using assms by (auto simp: collect_unfold int_err_def res_simps split: if_splits sum.splits option.splits)

lemma descended_outcome:
  assumes acyclic: "acyclic_workspace env rank" and ok: "visited_ok env v"
    and res: "resolved env req = Inr (Some h, a)" and new: "visited_get v a = None" and deps: "pe_dependencies env h = Inr deps"
    and walks: "\<forall>d \<in> set deps. walks env rank (rank a) d (f d)" and run: "descend f deps (-1) v = Some (s, u)"
    and after: "case s of Inl e \<Rightarrow> r = Inl e \<and> v' = u
      | Inr x \<Rightarrow> r = Inr (x + 1) \<and> v' = visited_insert a (mark_explicit explicit req
          \<lparr>pi_depth = x + 1, pi_local_ref = RefHandle h, pi_remote_ref = None, pi_original_request = None\<rparr>) u"
  shows "outcome env rank explicit req v r v'"
proof -
  have a: "a = handle_alias h" using res by (rule resolved_handle)
  have down: "walked env rank (rank a) v u"
    "\<And>x. s = Inr x \<Longrightarrow> -1 \<le> x \<and> (\<forall>d \<in> set deps. \<exists>depth. 0 \<le> depth \<and> depth \<le> x \<and> visits env d depth u)"
    using descend_walks [OF walks ok run] by simp_all
  have up: "walked env rank (Suc (rank a)) v u" using down(1) by (rule walked_mono) simp
  show ?thesis
  proof (cases s)
    case (Inl e)
    then show ?thesis using after up res by (simp add: outcome_def)
  next
    case (Inr x)
    let ?item = "mark_explicit explicit req
      \<lparr>pi_depth = x + 1, pi_local_ref = RefHandle h, pi_remote_ref = None, pi_original_request = None\<rparr>"
    have item: "item_ok env u ?item" using descended_item_ok [OF deps run [unfolded Inr]] down(2) [OF Inr] by simp
    have "visited_get u a = None" using down(1) new adds_below_absent unfolding walked_def by blast
    moreover have "visited_ok env u" using down(1) by (simp add: walked_def)
    ultimately have "walked env rank (Suc (rank a)) u (visited_insert a ?item u)"
      using walked_insert [OF acyclic _ _ item, of a "handle_alias h"] a by simp
    from walked_trans [OF up this] show ?thesis
      using after Inr res down(2) [OF Inr] by (auto simp: outcome_def visited_get_insert)
  qed
qed

lemma collect_walks:
  assumes acyclic: "acyclic_workspace env rank"
  shows "visited_ok env v \<Longrightarrow> collect_depth_first env create n req explicit v = Some (r, v') \<Longrightarrow>
     outcome env rank explicit req v r v'"
proof (induction n arbitrary: req explicit v r v')
  case (Suc n)
  show ?case
  proof (cases "resolved env req")
    case (Inl e)
    then show ?thesis using Suc.prems(2) by (simp add: collect_unfold outcome_def)
  next
    case (Inr p)
    obtain handle a where "p = (handle, a)" by fastforce
    with Inr have res: "resolved env req = Inr (handle, a)" by simp
    show ?thesis
    proof (cases "visited_get v a")
      case (Some item)
      then have "0 \<le> pi_depth item" using visited_depth Suc.prems(1) by blast
      then show ?thesis using Suc.prems res Some
        by (auto simp: outcome_def collect_unfold walked_refl walked_modify visited_get_modify split: if_splits)
    next
      case None
      show ?thesis
      proof (cases rule: collect_cases [OF Suc.prems(2) res None, consumes 0, case_names same remote down])
        case same
        then show ?thesis using Suc.prems(1) res by (simp add: walked_refl outcome_def)
      next
        case (remote item)
        have "item_ok env v (mark_explicit explicit req item)" using remote(3,4) by (auto simp: item_ok_def)
        moreover have "\<exists>k. dataset_ref_alias (pi_local_ref (mark_explicit explicit req item)) = Some k \<and> alias_key k = alias_key a"
          using remote(5) res resolved_handle [of env req] by (cases handle) auto
        ultimately have "walked env rank (Suc (rank a)) v v'"
          unfolding remote(1) using walked_insert [OF acyclic Suc.prems(1) None] by blast
        then show ?thesis using remote res by (auto simp: outcome_def visited_get_insert)
      next
        case (down h deps s u)
        have "rank a = rank (handle_alias h)" using res down(1) resolved_handle by blast
        then have "\<forall>d \<in> set deps. walks env rank (rank a) d (collect_depth_first env create n (dependency_request d) False)"
          using dependency_walks [OF acyclic down(2)] Suc.IH by metis
        with descended_outcome [OF acyclic Suc.prems(1) _ None down(2) _ down(3,4)] res down(1) show ?thesis by simp
      qed
    qed
  qed
qed simp

end
