(* ===== verification/Pull_Order.thy ===== *)
theory Pull_Order
  imports Pull_Planner Identity_Claims "HOL-Library.Multiset"
begin

text \<open>
  The order of a plan. A locale states what \<open>Ord::cmp\<close> promises; the comparisons of names, aliases and
  items of a plan keep it, so that a plan is sorted, and the same whatever the order in which the
  hash map of visited datasets is iterated.
\<close>

section \<open>Comparisons\<close>

fun reverse_ordering :: "ordering \<Rightarrow> ordering" where
  "reverse_ordering OrdLess = OrdGreater"
| "reverse_ordering OrdEqual = OrdEqual"
| "reverse_ordering OrdGreater = OrdLess"

locale comparison =
  fixes cmp :: "'a \<Rightarrow> 'a \<Rightarrow> ordering"
  assumes cmp_flip: "cmp b a = reverse_ordering (cmp a b)"
    and cmp_equal: "cmp a b = OrdEqual \<Longrightarrow> cmp a c = cmp b c"
    and cmp_less: "cmp a b = OrdLess \<Longrightarrow> cmp b c = OrdLess \<Longrightarrow> cmp a c = OrdLess"
begin

definition le :: "'a \<Rightarrow> 'a \<Rightarrow> bool" where
  "le a b \<longleftrightarrow> cmp a b \<noteq> OrdGreater"

lemma cmp_refl: "cmp a a = OrdEqual"
  using cmp_flip [of a a] by (cases "cmp a a") auto

lemma le_total: "le a b \<or> le b a"
  using cmp_flip [of a b] by (cases "cmp a b") (auto simp: le_def)

lemma le_antisym: "le a b \<Longrightarrow> le b a \<Longrightarrow> cmp a b = OrdEqual"
  using cmp_flip [of b a] by (cases "cmp a b") (auto simp: le_def)

lemma le_trans: "le a b \<Longrightarrow> le b c \<Longrightarrow> le a c"
proof (cases "cmp a b")
  case OrdLess
  assume "le b c"
  show ?thesis
  proof (cases "cmp b c")
    case OrdEqual
    then have "cmp c b = OrdEqual" using cmp_flip [of c b] by simp
    then have "cmp c a = cmp b a" by (rule cmp_equal)
    then show ?thesis using OrdLess cmp_flip [of a b] cmp_flip [of a c] by (cases "cmp a c") (auto simp: le_def)
  qed (use OrdLess cmp_less [of a b c] \<open>le b c\<close> in \<open>auto simp: le_def\<close>)
qed (auto simp: le_def cmp_equal [of a b c])

lemma cmp_equal_right: "cmp b c = OrdEqual \<Longrightarrow> cmp a b = cmp a c"
  using cmp_equal [of b c a] cmp_flip [of a b] cmp_flip [of a c] by simp

text \<open>One sorted list of given elements, when no two of them compare as equal.\<close>

lemma sorted_unique:
  assumes "sorted_wrt le xs" and "sorted_wrt le ys" and "mset xs = mset ys"
    and "\<forall>a \<in> set xs. \<forall>b \<in> set xs. cmp a b = OrdEqual \<longrightarrow> a = b"
  shows "xs = ys"
  using assms
proof (induction xs arbitrary: ys)
  case (Cons x xs)
  then obtain y zs where ys: "ys = y # zs" by (cases ys) auto
  have same: "set (x # xs) = set ys" using Cons.prems(3) by (metis set_mset_mset)
  have "le a a" for a by (simp add: le_def cmp_refl)
  then have "\<forall>a \<in> set (x # xs). le x a" and "\<forall>a \<in> set ys. le y a" using Cons.prems(1,2) ys by simp_all
  then have "le x y" and "le y x" using same ys by (metis list.set_intros(1))+
  then have "x = y" using le_antisym Cons.prems(4) same ys by (metis list.set_intros(1))
  moreover from this have "xs = zs" using Cons.IH [of zs] Cons.prems ys by simp
  ultimately show ?case using ys by simp
qed simp

end

lemma comparison_key: "comparison f \<Longrightarrow> comparison (\<lambda>a b. f (g a) (g b))"
  unfolding comparison_def by blast

lemma comparison_linorder: "comparison (\<lambda>a b :: 'a :: linorder. if a < b then OrdLess else if a > b then OrdGreater else OrdEqual)"
  by unfold_locales (auto split: if_splits)

lemma nat_cmp_linorder: "nat_cmp = (\<lambda>a b. if a < b then OrdLess else if a > b then OrdGreater else OrdEqual)"
  by (intro ext) (auto simp: nat_cmp_def)

text \<open>Of three results \<open>x\<close>, \<open>y\<close> and \<open>z\<close> for \<open>a\<close> and \<open>b\<close>, \<open>b\<close> and \<open>c\<close>, \<open>a\<close> and \<open>c\<close>: lexicographic comparison.\<close>

lemma then_cmp_less:
  assumes "x = OrdEqual \<Longrightarrow> z = y" and "y = OrdEqual \<Longrightarrow> x = z" and "x = OrdLess \<Longrightarrow> y = OrdLess \<Longrightarrow> z = OrdLess"
    and "x' = OrdLess \<Longrightarrow> y' = OrdLess \<Longrightarrow> z' = OrdLess" and "then_cmp x x' = OrdLess" and "then_cmp y y' = OrdLess"
  shows "then_cmp z z' = OrdLess"
proof (cases x)
  case OrdEqual
  then show ?thesis using assms(1,4,5,6) by (cases y) simp_all
next
  case OrdLess
  then show ?thesis using assms(2,3,6) by (cases y) simp_all
next
  case OrdGreater
  then show ?thesis using assms(5) by simp
qed

lemma comparison_less_step:
  assumes f: "comparison f" and "x' = OrdLess \<Longrightarrow> y' = OrdLess \<Longrightarrow> z' = OrdLess"
    and "then_cmp (f a b) x' = OrdLess" and "then_cmp (f b c) y' = OrdLess"
  shows "then_cmp (f a c) z' = OrdLess"
  by (rule then_cmp_less [OF comparison.cmp_equal [OF f] comparison.cmp_equal_right [OF f] comparison.cmp_less [OF f] assms(2-4)])

lemma comparison_flip_step:
  "comparison f \<Longrightarrow> y = reverse_ordering x \<Longrightarrow> then_cmp (f b a) y = reverse_ordering (then_cmp (f a b) x)"
  using comparison.cmp_flip [of f b a] by (cases "f a b") simp_all

lemma comparison_equal_step:
  "comparison f \<Longrightarrow> then_cmp (f a b) x = OrdEqual \<Longrightarrow> (x = OrdEqual \<Longrightarrow> y = z) \<Longrightarrow> then_cmp (f a c) y = then_cmp (f b c) z"
  using comparison.cmp_equal [of f a b c] by (simp add: then_cmp_equal)

lemma comparison_then:
  assumes f: "comparison f" and g: "comparison g"
  shows "comparison (\<lambda>a b. then_cmp (f a b) (g a b))"
proof
  fix a b c
  show "then_cmp (f b a) (g b a) = reverse_ordering (then_cmp (f a b) (g a b))"
    by (rule comparison_flip_step [OF f comparison.cmp_flip [OF g]])
  show "then_cmp (f a c) (g a c) = then_cmp (f b c) (g b c)" if "then_cmp (f a b) (g a b) = OrdEqual"
    by (rule comparison_equal_step [OF f that comparison.cmp_equal [OF g]])
  show "then_cmp (f a c) (g a c) = OrdLess"
    if "then_cmp (f a b) (g a b) = OrdLess" "then_cmp (f b c) (g b c) = OrdLess"
    by (rule comparison_less_step [OF f comparison.cmp_less [OF g] that])
qed

lemma comparison_option:
  assumes f: "comparison f"
  shows "comparison (option_cmp f)"
proof
  fix a b c
  show "option_cmp f b a = reverse_ordering (option_cmp f a b)"
    using comparison.cmp_flip [OF f, of "the b" "the a"] by (cases a; cases b) simp_all
  show "option_cmp f a c = option_cmp f b c" if "option_cmp f a b = OrdEqual"
    using that comparison.cmp_equal [OF f, of "the a" "the b" "the c"] by (cases a; cases b; cases c) simp_all
  show "option_cmp f a c = OrdLess" if "option_cmp f a b = OrdLess" "option_cmp f b c = OrdLess"
    using that comparison.cmp_less [OF f, of "the a" "the b" "the c"] by (cases a; cases b; cases c) simp_all
qed

lemma list_cmp_flip: "comparison f \<Longrightarrow> list_cmp f bs as = reverse_ordering (list_cmp f as bs)"
proof (induction f as bs rule: list_cmp.induct)
  case (4 f a as b bs)
  then show ?case by (simp add: comparison_flip_step)
qed simp_all

lemma list_cmp_equal_left: "comparison f \<Longrightarrow> list_cmp f as bs = OrdEqual \<Longrightarrow> list_cmp f as cs = list_cmp f bs cs"
proof (induction f as bs arbitrary: cs rule: list_cmp.induct)
  case (4 f a as b bs)
  then show ?case by (cases cs) (auto intro: comparison_equal_step)
qed simp_all

lemma list_cmp_less: "comparison f \<Longrightarrow> list_cmp f as bs = OrdLess \<Longrightarrow> list_cmp f bs cs = OrdLess \<Longrightarrow> list_cmp f as cs = OrdLess"
proof (induction f as bs arbitrary: cs rule: list_cmp.induct)
  case (2 f b bs)
  then show ?case by (cases cs) simp_all
next
  case (4 f a as b bs)
  show ?case
  proof (cases cs)
    case (Cons c cs')
    then show ?thesis using comparison_less_step [OF 4(2) 4(1)] 4(2-4) by simp
  qed (use 4 in simp)
qed simp_all

lemma comparison_list: "comparison f \<Longrightarrow> comparison (list_cmp f)"
  by unfold_locales (rule list_cmp_flip list_cmp_equal_left list_cmp_less; assumption)+

lemma comparison_name: "comparison name_cmp"
proof -
  have "comparison str_cmp"
    unfolding str_cmp_def nat_cmp_linorder by (intro comparison_list comparison_key [OF comparison_linorder])
  then show ?thesis unfolding name_cmp_def [abs_def] by (rule comparison_key)
qed

lemma comparison_alias: "comparison dataset_alias_cmp"
  unfolding dataset_alias_cmp_def [abs_def]
  by (intro comparison_then comparison_key [OF comparison_option [OF comparison_name]] comparison_key [OF comparison_name])

section \<open>Items\<close>

lemma pull_item_cmp_lex:
  "pull_item_cmp = (\<lambda>a b.
     then_cmp (if pi_depth a < pi_depth b then OrdLess else if pi_depth a > pi_depth b then OrdGreater else OrdEqual)
       (then_cmp (if (pi_remote_ref a = None) < (pi_remote_ref b = None) then OrdLess
                  else if (pi_remote_ref a = None) > (pi_remote_ref b = None) then OrdGreater else OrdEqual)
         (option_cmp dataset_alias_cmp (dataset_ref_alias (pi_local_ref a)) (dataset_ref_alias (pi_local_ref b)))))"
  by (intro ext) (auto simp: pull_item_cmp_def split: option.split)

interpretation items: comparison pull_item_cmp
  unfolding pull_item_cmp_lex
  by (intro comparison_then comparison_key [OF comparison_option [OF comparison_alias]]
      comparison_key [OF comparison_linorder, of pi_depth] comparison_key [OF comparison_linorder, of "\<lambda>a. pi_remote_ref a = None"])

lemma mset_insert_item [simp]: "mset (insert_item a bs) = add_mset a (mset bs)"
  by (induction bs) simp_all

lemma mset_sort_items [simp]: "mset (sort_items as) = mset as"
  unfolding sort_items_def by (induction as) simp_all

lemma set_insert_item: "set (insert_item a bs) = insert a (set bs)"
  by (induction bs) auto

lemma sorted_insert_item: "sorted_wrt items.le bs \<Longrightarrow> sorted_wrt items.le (insert_item a bs)"
proof (induction bs)
  case (Cons b bs)
  then show ?case
    using items.le_total [of a b] items.le_trans [of a b] by (auto simp: set_insert_item items.le_def)
qed simp

lemma sorted_sort_items: "sorted_wrt items.le (sort_items as)"
  unfolding sort_items_def by (induction as) (simp_all add: sorted_insert_item)

text \<open>Items that come earlier have no greater depth, and of one depth those with a remote come first.\<close>

lemma le_depth: "items.le a b \<Longrightarrow> pi_depth a \<le> pi_depth b"
  by (simp add: items.le_def pull_item_cmp_def split: if_splits)

lemma item_cmp_equal:
  "pull_item_cmp a b = OrdEqual \<Longrightarrow> dataset_ref_alias (pi_local_ref a) = Some k \<Longrightarrow>
     \<exists>l. dataset_ref_alias (pi_local_ref b) = Some l \<and> dataset_alias_eq k l"
  by (auto simp: pull_item_cmp_def dataset_alias_cmp_equal split: if_splits option.splits)

end
