(* ===== verification/Pull_Plan.thy ===== *)
theory Pull_Plan
  imports Pull_Properties Pull_Order
begin

text \<open>
  The plan of a pull, continued: the walk returns when the dependencies have no cycle, a plan has
  nothing but what was asked for and what that depends on, and it lists dependencies first.
\<close>

section \<open>The walk returns\<close>

lemma descend_mono:
  assumes "\<And>d u y. f d u = Some y \<Longrightarrow> g d u = Some y" and "descend f ds k v = Some x"
  shows "descend g ds k v = Some x"
  using assms(2)
proof (induction ds arbitrary: k v)
  case (Cons d ds)
  then obtain s u where fd: "f d v = Some (s, u)" by (cases "f d v") auto
  from assms(1) [OF this] show ?case using Cons fd by (cases s) auto
qed simp

lemma collect_None:
  "collect_depth_first env create (Suc n) req explicit v = None \<Longrightarrow>
     \<exists>h a deps. resolved env req = Inr (Some h, a) \<and> pe_dependencies env h = Inr deps
       \<and> descend (\<lambda>d. collect_depth_first env create n (dependency_request d) False) deps (-1) v = None"
  by (cases "resolved env req")
    (auto simp: collect_unfold int_err_def res_simps split: sum.splits option.splits if_splits)

lemma collect_mono:
  "collect_depth_first env create n req explicit v = Some x \<Longrightarrow> n \<le> m \<Longrightarrow> collect_depth_first env create m req explicit v = Some x"
proof (induction n arbitrary: m create req explicit v x)
  case (Suc n)
  from Suc.prems(2) obtain k where m: "m = Suc k" "n \<le> k" by (cases m) auto
  have down: "descend (\<lambda>d. collect_depth_first env c k (dependency_request d) False) deps j u = Some y"
    if "descend (\<lambda>d. collect_depth_first env c n (dependency_request d) False) deps j u = Some y" for c deps j u y
    using Suc.IH [OF _ m(2)] that by (rule descend_mono)
  show ?case using Suc.prems(1) unfolding m(1) collect_unfold
    by (auto simp: down split: sum.split_asm option.split_asm if_split_asm)
qed simp

lemma descend_returns:
  assumes "\<And>d u. d \<in> set ds \<Longrightarrow> \<exists>y. f d u = Some y"
  shows "\<exists>y. descend f ds k v = Some y"
  using assms
proof (induction ds arbitrary: k v)
  case (Cons d ds)
  obtain s u where fd: "f d v = Some (s, u)" using Cons.prems [of d v] by auto
  then show ?case using Cons.IH Cons.prems by (cases s) auto
qed simp

text \<open>Two more than the rank of a dataset: one for the dataset, one for a dependency that is not found.\<close>

definition enough_fuel :: "pull_env \<Rightarrow> (dataset_alias \<Rightarrow> nat) \<Rightarrow> nat \<Rightarrow> pull_request \<Rightarrow> bool" where
  "enough_fuel env rank n req \<longleftrightarrow> 0 < n \<and> (\<forall>handle a. resolved env req = Inr (handle, a) \<longrightarrow> Suc (rank a) < n)"

lemma collect_returns:
  assumes acyclic: "acyclic_workspace env rank"
  shows "enough_fuel env rank n req \<Longrightarrow> \<exists>y. collect_depth_first env create n req explicit v = Some y"
proof (induction n arbitrary: req explicit v)
  case (Suc n)
  have down: "\<exists>y. descend (\<lambda>d. collect_depth_first env create n (dependency_request d) False) deps k u = Some y"
    if res: "resolved env req = Inr (Some h, a)" and deps: "pe_dependencies env h = Inr deps" for h a deps k u
  proof (rule descend_returns, rule Suc.IH)
    fix d assume mem: "d \<in> set deps"
    have "rank (handle_alias h) < n" using Suc.prems res resolved_handle [OF res] by (auto simp: enough_fuel_def)
    then show "enough_fuel env rank n (dependency_request d)"
      using rank_dependency [OF acyclic deps mem] resolved_dependency [of env d] by (fastforce simp: enough_fuel_def)
  qed
  show ?case
  proof (rule ccontr)
    assume "\<not> ?thesis"
    then have "collect_depth_first env create (Suc n) req explicit v = None" using not_None_eq by blast
    from collect_None [OF this] obtain h a deps where "resolved env req = Inr (Some h, a)" "pe_dependencies env h = Inr deps"
      "descend (\<lambda>d. collect_depth_first env create n (dependency_request d) False) deps (-1) v = None" by blast
    with down [of h a deps "-1" v] show False by simp
  qed
qed (simp add: enough_fuel_def)

definition fuel_for :: "pull_env \<Rightarrow> (dataset_alias \<Rightarrow> nat) \<Rightarrow> pull_request list \<Rightarrow> nat" where
  "fuel_for env rank reqs = 2 + sum_list (map (\<lambda>req. case resolved env req of Inr (_, a) \<Rightarrow> rank a | Inl _ \<Rightarrow> 0) reqs)"

lemma fuel_for_enough: "req \<in> set reqs \<Longrightarrow> fuel_for env rank reqs \<le> n \<Longrightarrow> enough_fuel env rank n req"
  using member_le_sum_list [of "case resolved env req of Inr (_, a) \<Rightarrow> rank a | Inl _ \<Rightarrow> 0"
      "map (\<lambda>req. case resolved env req of Inr (_, a) \<Rightarrow> rank a | Inl _ \<Rightarrow> 0) reqs"]
  by (auto simp: fuel_for_def enough_fuel_def)

lemma collect_requests_returns:
  assumes acyclic: "acyclic_workspace env rank" and "\<forall>req \<in> set reqs. enough_fuel env rank N req"
  shows "\<exists>x. \<forall>n \<ge> N. collect_requests env create n reqs v errors = Some x"
  using assms(2)
proof (induction reqs arbitrary: v errors)
  case (Cons req reqs)
  obtain s u where run: "collect_depth_first env create N req True v = Some (s, u)"
    using collect_returns [OF acyclic, of N req create True v] Cons.prems by auto
  then have all: "collect_depth_first env create n req True v = Some (s, u)" if "n \<ge> N" for n
    using collect_mono that by blast
  have rest: "\<exists>x. \<forall>n \<ge> N. collect_requests env create n reqs u es = Some x" for es
    using Cons by simp
  show ?case
  proof (cases s)
    case (Inl e)
    then show ?thesis using all rest by (cases e) auto
  next
    case (Inr depth)
    then show ?thesis using all rest by auto
  qed
qed simp

section \<open>What a plan has\<close>

text \<open>A dataset that is not synced from a remote depends on the datasets of its summary.\<close>

definition depends_on :: "pull_env \<Rightarrow> pull_item \<Rightarrow> dataset_alias \<Rightarrow> bool" where
  "depends_on env item b \<longleftrightarrow> pi_remote_ref item = None
     \<and> (\<exists>h deps d dh. pi_local_ref item = RefHandle h \<and> pe_dependencies env h = Inr deps \<and> d \<in> set deps
          \<and> pe_try_resolve_dataset_ref env (RefID d) = Inr (Some dh) \<and> dataset_alias_eq (handle_alias dh) b)"

definition supported :: "pull_env \<Rightarrow> (string option \<times> string) set \<Rightarrow> visited \<Rightarrow> bool" where
  "supported env S v \<longleftrightarrow> (\<forall>b it. visited_get v b = Some it \<longrightarrow>
     pi_original_request it \<noteq> None \<or> alias_key b \<in> S \<or> (\<exists>c jt. visited_get v c = Some jt \<and> depends_on env jt b))"

lemma depends_on_same: "same_node a b \<Longrightarrow> depends_on env a c \<Longrightarrow> depends_on env b c"
  by (simp add: depends_on_def same_node_def)

lemma depends_on_cong: "alias_key b = alias_key c \<Longrightarrow> depends_on env it b \<longleftrightarrow> depends_on env it c"
  by (simp add: depends_on_def dataset_alias_eq_key)

lemma supported_mono: "supported env S v \<Longrightarrow> S \<subseteq> T \<Longrightarrow> supported env T v"
  unfolding supported_def by (meson subsetD)

text \<open>A dataset that was supported stays so as the map visited_grows.\<close>

lemma supported_grows:
  assumes "supported env S v" and "visited_grows v v'" and "visited_get v b = Some it" and "visited_get v' b = Some it'"
  shows "pi_original_request it' \<noteq> None \<or> alias_key b \<in> S \<or> (\<exists>c jt. visited_get v' c = Some jt \<and> depends_on env jt b)"
proof -
  have same: "same_node it it'" using visited_growsD [OF assms(2,3)] assms(4) by auto
  from assms(1,3) consider "pi_original_request it \<noteq> None" | "alias_key b \<in> S"
    | c jt where "visited_get v c = Some jt" "depends_on env jt b" unfolding supported_def by blast
  then show ?thesis
  proof cases
    case 3
    then show ?thesis using visited_growsD [OF assms(2)] depends_on_same by blast
  qed (use same in \<open>auto simp: same_node_def\<close>)
qed

lemma supported_modify: "supported env S v \<Longrightarrow> supported env S (visited_modify (mark_explicit explicit req) a v)"
proof (subst supported_def, intro allI impI)
  let ?v = "visited_modify (mark_explicit explicit req) a v"
  fix b it assume sup: "supported env S v" and get: "visited_get ?v b = Some it"
  from get obtain it0 where "visited_get v b = Some it0" by (auto simp: visited_get_modify split: if_splits)
  from supported_grows [OF sup visited_grows_modify this get]
  show "pi_original_request it \<noteq> None \<or> alias_key b \<in> S \<or> (\<exists>c jt. visited_get ?v c = Some jt \<and> depends_on env jt b)" .
qed

lemma supported_insert:
  assumes "supported env (S \<union> D) v" and "visited_get v a = None"
    and "\<And>b. alias_key b \<in> D \<Longrightarrow> depends_on env item b"
  shows "supported env (insert (alias_key a) S) (visited_insert a item v)"
proof (subst supported_def, intro allI impI)
  fix b it assume get: "visited_get (visited_insert a item v) b = Some it"
  let ?goal = "pi_original_request it \<noteq> None \<or> alias_key b \<in> insert (alias_key a) S
    \<or> (\<exists>c jt. visited_get (visited_insert a item v) c = Some jt \<and> depends_on env jt b)"
  show ?goal
  proof (cases "alias_key b = alias_key a")
    case False
    then have "visited_get v b = Some it" using get by (simp add: visited_get_insert)
    note old = supported_grows [OF assms(1) visited_grows_insert [OF assms(2)] this get]
    have "visited_get (visited_insert a item v) a = Some item" by (simp add: visited_get_insert)
    then show ?goal using old assms(3) [of b] by blast
  qed simp
qed

definition dependency_keys :: "pull_env \<Rightarrow> dataset_id list \<Rightarrow> (string option \<times> string) set" where
  "dependency_keys env ds = {alias_key (handle_alias dh) | d dh. d \<in> set ds \<and> pe_try_resolve_dataset_ref env (RefID d) = Inr (Some dh)}"

lemma descend_supported:
  assumes "\<And>d S u u' depth. d \<in> set ds \<Longrightarrow> visited_ok env u \<Longrightarrow> f d u = Some (Inr depth, u') \<Longrightarrow> supported env S u \<Longrightarrow>
      supported env (S \<union> dependency_keys env [d]) u' \<and> visited_ok env u'"
    and "visited_ok env v" and "descend f ds k v = Some (Inr x, v')" and "supported env S v"
  shows "supported env (S \<union> dependency_keys env ds) v'"
  using assms
proof (induction ds arbitrary: k v S)
  case Nil
  then show ?case by (simp add: dependency_keys_def)
next
  case (Cons d ds)
  obtain depth u where fd: "f d v = Some (Inr depth, u)" and rest: "descend f ds (max k depth) u = Some (Inr x, v')"
    using Cons.prems(3) by (auto split: option.splits sum.splits prod.splits)
  have step: "supported env (S \<union> dependency_keys env [d]) u" "visited_ok env u"
    using Cons.prems(1) [OF _ Cons.prems(2) fd Cons.prems(4)] by simp_all
  have "S \<union> dependency_keys env [d] \<union> dependency_keys env ds = S \<union> dependency_keys env (d # ds)"
    by (auto simp: dependency_keys_def)
  with Cons.IH [OF Cons.prems(1) step(2) rest step(1)] show ?case by simp
qed

lemma outcome_ok: "outcome env rank explicit req v r v' \<Longrightarrow> visited_ok env v \<Longrightarrow> visited_ok env v' \<and> visited_grows v v'"
  by (auto simp: outcome_def walked_def split: sum.splits prod.splits)

lemma descend_collect_walked:
  assumes "acyclic_workspace env rank" and "visited_ok env v" and "pe_dependencies env h = Inr deps"
    and "descend (\<lambda>d. collect_depth_first env create n (dependency_request d) False) deps k v = Some (s, u)"
  shows "walked env rank (rank (handle_alias h)) v u"
  using descend_walks [OF _ assms(2,4)] dependency_walks [OF assms(1,3)] collect_walks [OF assms(1)] by blast

lemma dependency_supported:
  assumes acyclic: "acyclic_workspace env rank" and ok: "visited_ok env w"
    and run: "collect_depth_first env create n (dependency_request d) False w = Some (Inr k, w')"
    and sup: "\<And>handle a. resolved env (dependency_request d) = Inr (handle, a) \<Longrightarrow> supported env (insert (alias_key a) T) w'"
  shows "supported env (T \<union> dependency_keys env [d]) w' \<and> visited_ok env w'"
proof -
  have out: "outcome env rank False (dependency_request d) w (Inr k) w'" using collect_walks [OF acyclic ok run] .
  then obtain dh where dh: "resolved env (dependency_request d) = Inr (Some dh, handle_alias dh)"
    "pe_try_resolve_dataset_ref env (RefID d) = Inr (Some dh)"
    using resolved_dependency [of env d] by (auto simp: outcome_def split: sum.splits)
  have "insert (alias_key (handle_alias dh)) T \<subseteq> T \<union> dependency_keys env [d]"
    using dh(2) by (auto simp: dependency_keys_def)
  then show ?thesis using sup [OF dh(1)] outcome_ok [OF out ok] supported_mono by blast
qed

lemma collect_supported:
  assumes acyclic: "acyclic_workspace env rank"
  shows "visited_ok env v \<Longrightarrow> collect_depth_first env create n req explicit v = Some (Inr depth, v') \<Longrightarrow>
    resolved env req = Inr (handle, a) \<Longrightarrow> supported env S v \<Longrightarrow> supported env (insert (alias_key a) S) v'"
proof (induction n arbitrary: req explicit v depth v' handle a S)
  case (Suc n)
  show ?case
  proof (cases "visited_get v a")
    case (Some item)
    then have "v' = visited_modify (mark_explicit explicit req) a v"
      using Suc.prems(2,3) by (auto simp: collect_unfold split: if_splits)
    then show ?thesis using supported_mono [OF supported_modify [OF Suc.prems(4)] subset_insertI] by simp
  next
    case None
    show ?thesis
    proof (cases rule: collect_cases [OF Suc.prems(2,3) None, consumes 0, case_names same remote down])
      case (remote item)
      then show ?thesis using supported_insert [of env S "{}" v a] Suc.prems(4) None by simp
    next
      case (down h deps s u)
      let ?item = "\<lambda>x. mark_explicit explicit req
          \<lparr>pi_depth = x + 1, pi_local_ref = RefHandle h, pi_remote_ref = None, pi_original_request = None\<rparr>"
      from down(4) obtain x where s: "s = Inr x" and v': "v' = visited_insert a (?item x) u" by (cases s) auto
      have a: "a = handle_alias h" using Suc.prems(3) down(1) resolved_handle by blast
      have step: "supported env (T \<union> dependency_keys env [d]) w' \<and> visited_ok env w'"
        if "visited_ok env w" "collect_depth_first env create n (dependency_request d) False w = Some (Inr k, w')"
          "supported env T w" for d T w w' k
        using dependency_supported [OF acyclic that(1,2)] Suc.IH [OF that(1,2) _ that(3)] by blast
      have "supported env (S \<union> dependency_keys env deps) u"
        using step Suc.prems(1) down(3) [unfolded s] Suc.prems(4) by (rule descend_supported)
      moreover have "visited_get u a = None"
        using descend_collect_walked [OF acyclic Suc.prems(1) down(2,3)] None adds_below_absent unfolding walked_def a by blast
      moreover have "depends_on env (?item x) b" if "alias_key b \<in> dependency_keys env deps" for b
        using that down(2) by (auto simp: dependency_keys_def depends_on_def dataset_alias_eq_key)
      ultimately show ?thesis unfolding v' by (rule supported_insert)
    qed blast
  qed
qed simp

text \<open>The requests of the plan are requests that were made, on their datasets.\<close>

definition asked :: "pull_env \<Rightarrow> pull_request set \<Rightarrow> visited \<Rightarrow> bool" where
  "asked env R v \<longleftrightarrow> (\<forall>b it q. visited_get v b = Some it \<longrightarrow> pi_original_request it = Some q \<longrightarrow>
     q \<in> R \<and> (\<exists>handle a. resolved env q = Inr (handle, a) \<and> alias_key a = alias_key b))"

lemma asked_mark:
  assumes "asked env R v" and "explicit \<Longrightarrow> req \<in> R" and "resolved env req = Inr (handle, a)"
  shows "asked env R (visited_modify (mark_explicit explicit req) a v)"
    and "pi_original_request item = None \<Longrightarrow> asked env R (visited_insert a (mark_explicit explicit req item) v)"
  using assms by (auto simp: asked_def visited_get_modify visited_get_insert mark_explicit_def split: if_splits)

lemma descend_asked:
  assumes "\<And>d u u' s. asked env R u \<Longrightarrow> f d u = Some (s, u') \<Longrightarrow> asked env R u'"
    and "asked env R v" and "descend f ds k v = Some (s, v')"
  shows "asked env R v'"
  using assms(2,3)
proof (induction ds arbitrary: k v)
  case (Cons d ds)
  obtain t u where fd: "f d v = Some (t, u)" using Cons.prems(2) by (cases "f d v") auto
  have "asked env R u" using assms(1) [OF Cons.prems(1) fd] .
  then show ?case using Cons fd by (cases t) auto
qed simp

lemma collect_asked:
  "asked env R v \<Longrightarrow> (explicit \<Longrightarrow> req \<in> R) \<Longrightarrow> collect_depth_first env create n req explicit v = Some (r, v') \<Longrightarrow> asked env R v'"
proof (induction n arbitrary: req explicit v r v')
  case (Suc n)
  show ?case
  proof (cases "resolved env req")
    case (Inl e)
    then show ?thesis using Suc.prems by (simp add: collect_unfold)
  next
    case (Inr p)
    obtain handle a where "p = (handle, a)" by fastforce
    with Inr have res: "resolved env req = Inr (handle, a)" by simp
    show ?thesis
    proof (cases "visited_get v a")
      case (Some item)
      then show ?thesis using Suc.prems(3) asked_mark(1) [OF Suc.prems(1,2) res] Suc.prems(1) res
        by (auto simp: collect_unfold split: if_splits)
    next
      case None
      have down: "asked env R u"
        if "descend (\<lambda>d. collect_depth_first env create n (dependency_request d) False) deps (-1) v = Some (s, u)" for deps s u
        using Suc.IH [of _ False] Suc.prems(1) that by (rule descend_asked) simp_all
      show ?thesis using Suc.prems(1,3) res None
        by (auto simp: collect_unfold split: sum.splits option.splits if_splits prod.splits
          intro!: asked_mark(2) [OF _ Suc.prems(2) res] dest: down)
    qed
  qed
qed simp

section \<open>All requests\<close>

definition covered :: "pull_env \<Rightarrow> pull_request \<Rightarrow> visited \<Rightarrow> bool" where
  "covered env req v \<longleftrightarrow> (\<exists>handle a it. resolved env req = Inr (handle, a) \<and> visited_get v a = Some it \<and> pi_original_request it \<noteq> None)"

lemma covered_grows: "covered env req v \<Longrightarrow> visited_grows v v' \<Longrightarrow> covered env req v'"
  unfolding covered_def same_node_def visited_grows_def by blast

text \<open>What the walk over the requests gives when none of them fails.\<close>

definition gathered :: "pull_env \<Rightarrow> pull_request list \<Rightarrow> visited \<Rightarrow> bool" where
  "gathered env reqs v \<longleftrightarrow> visited_ok env v \<and> asked env (set reqs) v \<and> supported env {} v \<and> (\<forall>req \<in> set reqs. covered env req v)"

lemma asked_mono: "asked env R v \<Longrightarrow> R \<subseteq> Q \<Longrightarrow> asked env Q v"
  unfolding asked_def by (meson subsetD)

lemma supported_drop:
  assumes "supported env {alias_key a} v" and "visited_get v a = Some it" and "pi_original_request it = Some q"
  shows "supported env {} v"
proof (subst supported_def, intro allI impI)
  fix b jt assume b: "visited_get v b = Some jt"
  show "pi_original_request jt \<noteq> None \<or> alias_key b \<in> {} \<or> (\<exists>c jt. visited_get v c = Some jt \<and> depends_on env jt b)"
  proof (cases "alias_key b = alias_key a")
    case True
    then show ?thesis using b assms(2,3) visited_get_cong [OF True, of v] by simp
  next
    case False
    then show ?thesis using b assms(1) unfolding supported_def by blast
  qed
qed

lemma gathered_step:
  assumes acyclic: "acyclic_workspace env rank" and v: "gathered env before v"
    and run: "collect_depth_first env create n req True v = Some (Inr depth, u)"
  shows "gathered env (before @ [req]) u"
proof -
  have ok: "visited_ok env v" using v by (simp add: gathered_def)
  have out: "outcome env rank True req v (Inr depth) u" using collect_walks [OF acyclic ok run] .
  then obtain handle a it where a: "resolved env req = Inr (handle, a)" "visited_get u a = Some it" "pi_original_request it = Some req"
    by (auto simp: outcome_def split: sum.splits prod.splits)
  have "supported env {alias_key a} u" using collect_supported [OF acyclic ok run a(1)] v by (simp add: gathered_def)
  then have "supported env {} u" using supported_drop a by blast
  moreover have "asked env (set (before @ [req])) u"
    using collect_asked [OF _ _ run, of "set (before @ [req])"] asked_mono [of env "set before" v "set (before @ [req])"] v
    by (auto simp: gathered_def)
  moreover have "covered env req u" using a by (simp add: covered_def)
  moreover have "\<forall>q \<in> set before. covered env q u" using v covered_grows outcome_ok [OF out ok]
    unfolding gathered_def by blast
  ultimately show ?thesis using outcome_ok [OF out ok] by (simp add: gathered_def)
qed

lemma collect_requests_errors: "collect_requests env create n reqs v es = Some (Inr (v', es')) \<Longrightarrow> \<exists>more. es' = es @ more"
proof (induction reqs arbitrary: v es)
  case (Cons req reqs)
  then show ?case by (auto split: option.splits sum.splits prod.splits fault.splits) (metis append.assoc)+
qed simp

lemma collect_requests_gathered:
  assumes acyclic: "acyclic_workspace env rank"
  shows "gathered env before v \<Longrightarrow> collect_requests env create n reqs v [] = Some (Inr (v', [])) \<Longrightarrow> gathered env (before @ reqs) v'"
proof (induction reqs arbitrary: before v)
  case (Cons req reqs)
  obtain depth u where run: "collect_depth_first env create n req True v = Some (Inr depth, u)"
    and rest: "collect_requests env create n reqs u [] = Some (Inr (v', []))"
    using Cons.prems(2) by (auto dest: collect_requests_errors split: option.splits sum.splits prod.splits fault.splits)
  from Cons.IH [OF gathered_step [OF acyclic Cons.prems(1) run] rest] show ?case by simp
qed simp

end
