(* ===== verification/Pull_Claims.thy ===== *)
theory Pull_Claims
  imports Pull_Plan
begin

text \<open>
  Pulling datasets: what a plan promises, and how it is run.
\<close>

section \<open>Plans\<close>

definition item_for :: "dataset_alias \<Rightarrow> pull_item \<Rightarrow> bool" where
  "item_for a item \<longleftrightarrow> (\<exists>k. dataset_ref_alias (pi_local_ref item) = Some k \<and> dataset_alias_eq k a)"

text \<open>No dataset twice, in the order of the items.\<close>

definition plan_ordered :: "pull_item list \<Rightarrow> bool" where
  "plan_ordered plan \<longleftrightarrow>
     (\<forall>i < length plan. \<exists>a. dataset_ref_alias (pi_local_ref (plan ! i)) = Some a
        \<and> (\<forall>j < i. \<not> item_for a (plan ! j) \<and> pull_item_cmp (plan ! j) (plan ! i) = OrdLess))"

text \<open>Datasets of a remote have depth 0; of the others, those without dependencies, and the dependencies come first.\<close>

definition dependencies_first :: "pull_env \<Rightarrow> pull_item list \<Rightarrow> bool" where
  "dependencies_first env plan \<longleftrightarrow>
     (\<forall>i < length plan. case pi_remote_ref (plan ! i) of
        Some _ \<Rightarrow> pi_depth (plan ! i) = 0
      | None \<Rightarrow> (\<exists>h deps. pi_local_ref (plan ! i) = RefHandle h \<and> pe_dependencies env h = Inr deps
          \<and> (pi_depth (plan ! i) = 0 \<longleftrightarrow> deps = [])
          \<and> (\<forall>d \<in> set deps. \<exists>dh j. pe_try_resolve_dataset_ref env (RefID d) = Inr (Some dh) \<and> j < i
               \<and> item_for (handle_alias dh) (plan ! j) \<and> pi_depth (plan ! j) < pi_depth (plan ! i))))"

text \<open>Every request has its dataset in the plan, and every dataset of the plan has a request or is needed.\<close>

definition answers_requests :: "pull_env \<Rightarrow> pull_request list \<Rightarrow> pull_item list \<Rightarrow> bool" where
  "answers_requests env reqs plan \<longleftrightarrow>
     (\<forall>req \<in> set reqs. \<exists>handle a. resolved env req = Inr (handle, a)
        \<and> (\<exists>item \<in> set plan. item_for a item \<and> pi_original_request item \<noteq> None))
     \<and> (\<forall>item \<in> set plan. case pi_original_request item of
          Some q \<Rightarrow> q \<in> set reqs \<and> (\<exists>handle a. resolved env q = Inr (handle, a) \<and> item_for a item)
        | None \<Rightarrow> (\<exists>other \<in> set plan. \<exists>a. item_for a item \<and> depends_on env other a))"

lemma visited_values:
  assumes "visited_ok env v" and "item \<in> set (map snd v)"
  shows "\<exists>k. visited_get v k = Some item \<and> item_for k item \<and> item_ok env v item"
proof -
  obtain k where "(k, item) \<in> set v" using assms(2) by auto
  then have "visited_get v k = Some item" using assms(1) visited_get_in unfolding visited_ok_def by blast
  moreover from this obtain l where "dataset_ref_alias (pi_local_ref item) = Some l" "alias_key l = alias_key k" "item_ok env v item"
    using assms(1) unfolding visited_ok_def by blast
  ultimately show ?thesis by (auto simp: item_for_def dataset_alias_eq_key)
qed

lemma visited_value: "visited_ok env v \<Longrightarrow> visited_get v a = Some item \<Longrightarrow> item \<in> set (map snd v) \<and> item_for a item"
proof -
  assume "visited_ok env v" and get: "visited_get v a = Some item"
  then obtain k where "dataset_ref_alias (pi_local_ref item) = Some k" "alias_key k = alias_key a" unfolding visited_ok_def by blast
  then show ?thesis using visited_get_Some [OF get] by (force simp: item_for_def dataset_alias_eq_key)
qed

lemma item_for_key: "item_for a item \<Longrightarrow> item_for b item \<Longrightarrow> alias_key a = alias_key b"
  by (auto simp: item_for_def dataset_alias_eq_key)

lemma same_item:
  assumes "visited_ok env v" and "item \<in> set (map snd v)" and "other \<in> set (map snd v)" and "item_for a item" and "item_for a other"
  shows "item = other"
proof -
  obtain k l where k: "visited_get v k = Some item" "item_for k item" and l: "visited_get v l = Some other" "item_for l other"
    using visited_values [OF assms(1,2)] visited_values [OF assms(1,3)] by blast
  have "alias_key k = alias_key l" using item_for_key [OF k(2) assms(4)] item_for_key [OF l(2) assms(5)] by simp
  then show ?thesis using k(1) l(1) visited_get_cong [of k l v] by simp
qed

lemma visited_distinct: "visited_ok env v \<Longrightarrow> distinct (map snd v)"
proof (subst distinct_map, intro conjI inj_onI)
  assume ok: "visited_ok env v"
  then have apart: "keys_apart v" by (simp add: visited_ok_def)
  then show "distinct v" by (simp add: keys_apart_def distinct_map)
  fix p q assume p: "p \<in> set v" and q: "q \<in> set v" and same: "snd p = snd q"
  have get: "visited_get v (fst p) = Some (snd p)" "visited_get v (fst q) = Some (snd q)"
    using visited_get_in [OF apart, of "fst p" "snd p"] visited_get_in [OF apart, of "fst q" "snd q"] p q by simp_all
  then have "alias_key (fst p) = alias_key (fst q)"
    using item_for_key visited_value [OF ok get(1)] visited_value [OF ok get(2)] unfolding same by blast
  moreover have "inj_on (alias_key \<circ> fst) (set v)" using apart by (simp add: keys_apart_def distinct_map)
  ultimately show "p = q" using p q inj_onD [of "alias_key \<circ> fst" "set v" p q] by simp
qed

lemma equal_items:
  assumes "visited_ok env v" and "a \<in> set (map snd v)" and "b \<in> set (map snd v)" and "pull_item_cmp a b = OrdEqual"
  shows "a = b"
proof -
  obtain k where k: "dataset_ref_alias (pi_local_ref a) = Some k"
    using visited_values [OF assms(1,2)] by (auto simp: item_for_def)
  then have "item_for k a" by (simp add: item_for_def dataset_alias_eq_key)
  moreover have "item_for k b" using item_cmp_equal [OF assms(4) k] by (auto simp: item_for_def dataset_alias_eq_key)
  ultimately show ?thesis by (rule same_item [OF assms(1-3)])
qed

lemma plan_unique:
  assumes "visited_ok env v" and "mset plan = mset (map snd v)" and "sorted_wrt items.le plan"
  shows "plan = sort_items (map snd v)"
proof (rule items.sorted_unique [OF assms(3) sorted_sort_items])
  have "set plan = set (map snd v)" using assms(2) by (metis set_mset_mset)
  then show "\<forall>a \<in> set plan. \<forall>b \<in> set plan. pull_item_cmp a b = OrdEqual \<longrightarrow> a = b" using equal_items [OF assms(1)] by simp
qed (use assms(2) in simp)

lemma sorted_plan:
  assumes ok: "visited_ok env v"
  shows "set (sort_items (map snd v)) = set (map snd v)"
    and "distinct (sort_items (map snd v))"
    and "i < j \<Longrightarrow> j < length (sort_items (map snd v)) \<Longrightarrow>
      pull_item_cmp (sort_items (map snd v) ! i) (sort_items (map snd v) ! j) = OrdLess"
proof -
  let ?plan = "sort_items (map snd v)"
  have m: "mset ?plan = mset (map snd v)" by simp
  show set: "set ?plan = set (map snd v)" using m by (metis set_mset_mset)
  show dist: "distinct ?plan" using visited_distinct [OF ok] m by (metis mset_eq_imp_distinct_iff)
  show "pull_item_cmp (?plan ! i) (?plan ! j) = OrdLess" if ij: "i < j" "j < length ?plan"
  proof -
    have "items.le (?plan ! i) (?plan ! j)" using sorted_wrt_nth_less [OF sorted_sort_items ij] .
    moreover have "pull_item_cmp (?plan ! i) (?plan ! j) \<noteq> OrdEqual"
    proof
      assume "pull_item_cmp (?plan ! i) (?plan ! j) = OrdEqual"
      moreover have "?plan ! i \<in> set (map snd v)" "?plan ! j \<in> set (map snd v)" using ij set nth_mem by fastforce+
      ultimately have "?plan ! i = ?plan ! j" using equal_items [OF ok] by blast
      then show False using dist ij by (simp add: nth_eq_iff_index_eq)
    qed
    ultimately show ?thesis by (cases "pull_item_cmp (?plan ! i) (?plan ! j)") (auto simp: items.le_def)
  qed
qed

lemma plan_is_ordered:
  assumes ok: "visited_ok env v"
  shows "plan_ordered (sort_items (map snd v))"
proof (unfold plan_ordered_def, intro allI impI)
  let ?plan = "sort_items (map snd v)"
  fix i assume i: "i < length ?plan"
  then have mem: "?plan ! i \<in> set (map snd v)" using sorted_plan(1) [OF ok] nth_mem by fastforce
  then obtain a where a: "dataset_ref_alias (pi_local_ref (?plan ! i)) = Some a"
    using visited_values [OF ok] by (force simp: item_for_def)
  have "\<not> item_for a (?plan ! j) \<and> pull_item_cmp (?plan ! j) (?plan ! i) = OrdLess" if j: "j < i" for j
  proof
    show less: "pull_item_cmp (?plan ! j) (?plan ! i) = OrdLess" using sorted_plan(3) [OF ok j i] .
    have "?plan ! j \<in> set (map snd v)" using sorted_plan(1) [OF ok] i j nth_mem [of j ?plan] by simp
    moreover have "item_for a (?plan ! i)" using a by (simp add: item_for_def dataset_alias_eq_key)
    ultimately show "\<not> item_for a (?plan ! j)" using same_item [OF ok mem] less items.cmp_refl by fastforce
  qed
  with a show "\<exists>a. dataset_ref_alias (pi_local_ref (?plan ! i)) = Some a
      \<and> (\<forall>j < i. \<not> item_for a (?plan ! j) \<and> pull_item_cmp (?plan ! j) (?plan ! i) = OrdLess)" by blast
qed

lemma plan_position:
  assumes ok: "visited_ok env v" and i: "i < length (sort_items (map snd v))" and it: "it \<in> set (map snd v)"
    and less: "pi_depth it < pi_depth (sort_items (map snd v) ! i)"
  shows "\<exists>j < i. sort_items (map snd v) ! j = it"
proof -
  let ?plan = "sort_items (map snd v)"
  have "it \<in> set ?plan" using sorted_plan(1) [OF ok] it by simp
  then obtain j where j: "j < length ?plan" "?plan ! j = it" by (auto simp: in_set_conv_nth)
  have "\<not> i \<le> j"
  proof
    assume "i \<le> j"
    then have "pi_depth (?plan ! i) \<le> pi_depth (?plan ! j)"
      using sorted_wrt_nth_less [OF sorted_sort_items _ j(1), of i] le_depth by (cases "i = j") auto
    then show False using less j(2) by simp
  qed
  then show ?thesis using j(2) not_le by blast
qed

lemma plan_dependencies_first:
  assumes ok: "visited_ok env v"
  shows "dependencies_first env (sort_items (map snd v))"
proof (unfold dependencies_first_def, intro allI impI)
  let ?plan = "sort_items (map snd v)"
  fix i assume i: "i < length ?plan"
  then have "?plan ! i \<in> set (map snd v)" using sorted_plan(1) [OF ok] nth_mem by fastforce
  then have item: "item_ok env v (?plan ! i)" using visited_values [OF ok] by blast
  show "case pi_remote_ref (?plan ! i) of Some _ \<Rightarrow> pi_depth (?plan ! i) = 0
      | None \<Rightarrow> (\<exists>h deps. pi_local_ref (?plan ! i) = RefHandle h \<and> pe_dependencies env h = Inr deps
          \<and> (pi_depth (?plan ! i) = 0 \<longleftrightarrow> deps = [])
          \<and> (\<forall>d \<in> set deps. \<exists>dh j. pe_try_resolve_dataset_ref env (RefID d) = Inr (Some dh) \<and> j < i
               \<and> item_for (handle_alias dh) (?plan ! j) \<and> pi_depth (?plan ! j) < pi_depth (?plan ! i)))"
  proof (cases "pi_remote_ref (?plan ! i)")
    case None
    then obtain h deps where h: "pi_local_ref (?plan ! i) = RefHandle h" "pe_dependencies env h = Inr deps"
      "pi_depth (?plan ! i) = 0 \<longleftrightarrow> deps = []"
      "\<forall>d \<in> set deps. \<exists>dh it. pe_try_resolve_dataset_ref env (RefID d) = Inr (Some dh)
         \<and> visited_get v (handle_alias dh) = Some it \<and> pi_depth it < pi_depth (?plan ! i)"
      using item by (auto simp: item_ok_def)
    have "\<exists>dh j. pe_try_resolve_dataset_ref env (RefID d) = Inr (Some dh) \<and> j < i
        \<and> item_for (handle_alias dh) (?plan ! j) \<and> pi_depth (?plan ! j) < pi_depth (?plan ! i)" if d: "d \<in> set deps" for d
      using bspec [OF h(4) d] visited_value [OF ok] plan_position [OF ok i] by metis
    with h(1-3) None show ?thesis by auto
  qed (use item in \<open>simp add: item_ok_def\<close>)
qed

lemma plan_answers_requests:
  assumes all: "gathered env reqs v"
  shows "answers_requests env reqs (sort_items (map snd v))"
proof (unfold answers_requests_def, intro conjI ballI)
  have ok: "visited_ok env v" using all by (simp add: gathered_def)
  note set = sorted_plan(1) [OF ok]
  fix req assume "req \<in> set reqs"
  then have "covered env req v" using all by (simp add: gathered_def)
  then show "\<exists>handle a. resolved env req = Inr (handle, a)
      \<and> (\<exists>item \<in> set (sort_items (map snd v)). item_for a item \<and> pi_original_request item \<noteq> None)"
    unfolding covered_def set using visited_value [OF ok] by blast
next
  have ok: "visited_ok env v" using all by (simp add: gathered_def)
  note set = sorted_plan(1) [OF ok]
  fix item assume "item \<in> set (sort_items (map snd v))"
  then obtain k where k: "visited_get v k = Some item" "item_for k item" using visited_values [OF ok] unfolding set by blast
  show "case pi_original_request item of
      Some q \<Rightarrow> q \<in> set reqs \<and> (\<exists>handle a. resolved env q = Inr (handle, a) \<and> item_for a item)
    | None \<Rightarrow> (\<exists>other \<in> set (sort_items (map snd v)). \<exists>a. item_for a item \<and> depends_on env other a)"
  proof (cases "pi_original_request item")
    case None
    then obtain c jt where "visited_get v c = Some jt" "depends_on env jt k"
      using all k(1) unfolding gathered_def supported_def by blast
    then have "\<exists>other \<in> set (map snd v). \<exists>a. item_for a item \<and> depends_on env other a"
      using k(2) visited_value [OF ok] by blast
    then show ?thesis using None unfolding set by simp
  next
    case (Some q)
    then have "q \<in> set reqs" and "\<exists>handle a. resolved env q = Inr (handle, a) \<and> alias_key a = alias_key k"
      using all k(1) unfolding gathered_def asked_def by blast+
    then show ?thesis using Some k(2) by (auto simp: item_for_def dataset_alias_eq_key)
  qed
qed

lemma gathered_Nil: "gathered env [] []"
  by (simp add: gathered_def visited_ok_def asked_def supported_def keys_apart_def)

text \<open>The plan, for every order in which the hash map is iterated and all fuel that is enough.\<close>

lemma pull_graph_returns:
  assumes acyclic: "acyclic_workspace env rank"
  shows "\<exists>N r. \<forall>n \<ge> N. collect_requests env create n reqs [] [] = Some r"
  using collect_requests_returns [OF acyclic, of reqs "fuel_for env rank reqs"] fuel_for_enough by blast

lemma requests_visited_ok:
  assumes acyclic: "acyclic_workspace env rank"
  shows "visited_ok env v \<Longrightarrow> collect_requests env create n reqs v es = Some (Inr (v', es')) \<Longrightarrow> visited_ok env v'"
proof (induction reqs arbitrary: v es)
  case (Cons req reqs)
  obtain s u where run: "collect_depth_first env create n req True v = Some (s, u)" using Cons.prems(2) by (auto split: option.splits)
  have "visited_ok env u" using outcome_ok [OF collect_walks [OF acyclic Cons.prems(1) run] Cons.prems(1)] by simp
  then show ?case using Cons run by (auto split: sum.splits fault.splits)
qed simp

lemma graph_any_order:
  assumes ok: "visited_ok env v" and "\<forall>xs. mset (iteration xs) = mset xs"
  shows "sort_items (iteration (map snd v)) = sort_items (map snd v)"
  by (rule plan_unique [OF ok _ sorted_sort_items]) (simp add: spec [OF assms(2)])

lemma graph_result:
  assumes acyclic: "acyclic_workspace env rank" and "\<forall>xs. mset (iteration xs) = mset xs"
  shows "collect_pull_graph env iteration create n reqs = collect_pull_graph env (\<lambda>xs. xs) create n reqs"
proof -
  have "visited_ok env []" using gathered_Nil [of env] by (simp add: gathered_def)
  then have "sort_items (iteration (map snd v)) = sort_items (map snd v)"
    if "collect_requests env create n reqs [] [] = Some (Inr (v, es))" for v es
    using graph_any_order [OF requests_visited_ok [OF acyclic _ that] assms(2)] by simp
  then show ?thesis
    by (cases "collect_requests env create n reqs [] []") (auto simp: collect_pull_graph_def and_then_def split: sum.split)
qed

text \<open>
  C20. In a workspace whose dependencies have no cycle, planning a pull returns, given enough fuel, with a result that does
  not depend on the order in which the hash map of visited datasets is iterated. When no request fails, the plan lists no
  dataset twice and is strictly sorted by depth, then datasets with a remote first, then by alias; datasets with a remote and
  datasets without dependencies, and no others, have depth 0; the dependencies of every dataset without a remote come earlier,
  with a smaller depth; every request is answered by its dataset, every recorded request was made for the dataset it
  is recorded at, and every other dataset of the plan is a dependency of one in the plan.
\<close>

theorem pull_plan_correct:
  assumes "acyclic_workspace env rank"
  shows "\<exists>N result. (\<forall>n \<ge> N. \<forall>iteration. (\<forall>xs. mset (iteration xs) = mset xs) \<longrightarrow>
      collect_pull_graph env iteration create n reqs = Some result)
    \<and> (\<forall>plan. result = Inr (plan, []) \<longrightarrow>
         plan_ordered plan \<and> dependencies_first env plan \<and> answers_requests env reqs plan)"
proof -
  obtain N r where run: "\<forall>n \<ge> N. collect_requests env create n reqs [] [] = Some r"
    using pull_graph_returns [OF assms, of create reqs] by blast
  define result where "result = and_then r (\<lambda>(v, errors). Inr (sort_items (map snd v), errors))"
  have graph: "collect_pull_graph env iteration create n reqs = Some result"
    if "n \<ge> N" "\<forall>xs. mset (iteration xs) = mset xs" for n iteration
    unfolding graph_result [OF assms that(2)] using run that(1) by (simp add: collect_pull_graph_def result_def)
  have "plan_ordered plan \<and> dependencies_first env plan \<and> answers_requests env reqs plan" if res: "result = Inr (plan, [])" for plan
  proof -
    obtain v where v: "r = Inr (v, [])" "plan = sort_items (map snd v)" using res unfolding result_def by (auto simp: res_simps split: prod.splits)
    then have "gathered env reqs v" using collect_requests_gathered [OF assms gathered_Nil] run by fastforce
    then show ?thesis unfolding v(2)
      using plan_is_ordered plan_dependencies_first plan_answers_requests unfolding gathered_def by blast
  qed
  with graph show ?thesis by blast
qed

section \<open>An example\<close>

text \<open>A derived dataset \<open>d\<close> over a root \<open>r\<close> and a dataset \<open>m\<close> that is synced from a remote.\<close>

definition demo_handle :: "string \<Rightarrow> u8 \<Rightarrow> dataset_handle" where
  "demo_handle name b = \<lparr>handle_id = DatasetID [b], handle_alias = dataset_alias_new None name\<rparr>"

definition demo_remote :: dataset_ref_remote where
  "demo_remote = RemoteAlias (dataset_alias_remote_new ''hub'' None ''m'')"

definition demo_pull_env :: pull_env where
  "demo_pull_env =
     \<lparr>pe_try_resolve_dataset_ref = (\<lambda>r. Inr (
        if r = RefID (DatasetID [1]) \<or> r = RefHandle (demo_handle ''r'' 1) then Some (demo_handle ''r'' 1)
        else if r = RefID (DatasetID [2]) \<or> r = RefHandle (demo_handle ''m'' 2) then Some (demo_handle ''m'' 2)
        else if r = RefID (DatasetID [3]) \<or> r = RefHandle (demo_handle ''d'' 3) then Some (demo_handle ''d'' 3)
        else None)),
      pe_is_multi_tenant = False,
      pe_get_datasets_by_owner = (\<lambda>_. [Inr (demo_handle ''d'' 3), Inr (demo_handle ''r'' 1), Inr (demo_handle ''m'' 2)]),
      pe_get_remote_aliases = (\<lambda>r. Inr \<lparr>pull_aliases = (if r = RefHandle (demo_handle ''m'' 2) then [demo_remote] else []),
        push_aliases = []\<rparr>),
      pe_dependencies = (\<lambda>h. Inr (if h = demo_handle ''d'' 3 then [DatasetID [1], DatasetID [2]] else [])),
      pe_current_account = Logged ''kamu'',
      pe_url = demo_urls\<rparr>"

definition demo_rank :: "dataset_alias \<Rightarrow> nat" where
  "demo_rank a = (if into_lowercase (alias_dataset_name a) = ''d'' then 1 else 0)"

definition demo_pull_request :: pull_request where
  "demo_pull_request = \<lparr>req_local_ref = Some (RefID (DatasetID [3])), req_remote_ref = None\<rparr>"

lemma demo_acyclic: "acyclic_workspace demo_pull_env demo_rank"
proof -
  have "demo_rank a = demo_rank b" if "dataset_alias_eq a b" for a b
    using that by (simp add: demo_rank_def dataset_alias_eq_def name_eq_def)
  moreover have "demo_rank (handle_alias (demo_handle ''d'' 3)) = 1" "demo_rank (handle_alias (demo_handle ''r'' 1)) = 0"
    "demo_rank (handle_alias (demo_handle ''m'' 2)) = 0" by code_simp+
  ultimately show ?thesis by (auto simp: acyclic_workspace_def demo_pull_env_def split: if_splits)
qed

lemma demo_plan:
  "map_option (map_sum (\<lambda>_. ()) (\<lambda>(plan, errors). (map (\<lambda>item. (pi_depth item, dataset_ref_alias (pi_local_ref item))) plan, errors)))
     (collect_pull_graph demo_pull_env rev True 3 [demo_pull_request]) =
   Some (Inr ([(0, Some (dataset_alias_new None ''m'')), (0, Some (dataset_alias_new None ''r'')),
     (1, Some (dataset_alias_new None ''d''))], []))"
  by code_simp

theorem pull_plan_correct_witness:
  "(\<exists>N result. (\<forall>n \<ge> N. \<forall>iteration. (\<forall>xs. mset (iteration xs) = mset xs) \<longrightarrow>
      collect_pull_graph demo_pull_env iteration True n [demo_pull_request] = Some result)
    \<and> (\<forall>plan. result = Inr (plan, []) \<longrightarrow>
         plan_ordered plan \<and> dependencies_first demo_pull_env plan \<and> answers_requests demo_pull_env [demo_pull_request] plan))
   \<and> map_option (map_sum (\<lambda>_. ()) (\<lambda>(plan, errors). (map (\<lambda>item. (pi_depth item, dataset_ref_alias (pi_local_ref item))) plan, errors)))
     (collect_pull_graph demo_pull_env rev True 3 [demo_pull_request]) =
   Some (Inr ([(0, Some (dataset_alias_new None ''m'')), (0, Some (dataset_alias_new None ''r'')),
     (1, Some (dataset_alias_new None ''d''))], []))"
  using pull_plan_correct [OF demo_acyclic, of True "[demo_pull_request]"] demo_plan by (rule conjI)

end
