(* ===== verification/Pull_Run.thy ===== *)
theory Pull_Run
  imports Pull_Claims
begin

text \<open>
  Running the plan of a pull: batches run in the order of the plan, nothing runs after a batch that
  failed, and a dataset is pulled only after its dependencies were. The ingest, sync and transform
  services answer every request; what the pull service relies on is \<open>answers_all\<close>.
\<close>

section \<open>Responses\<close>

definition answers_all :: "'w pull_services \<Rightarrow> bool" where
  "answers_all svc \<longleftrightarrow>
     (\<forall>refs w. list_all2 (\<lambda>r a. dataset_ref_eq r (fst a)) refs (fst (ps_ingest_multi svc refs w)))
     \<and> (\<forall>refs reset w. list_all2 (\<lambda>r a. dataset_ref_eq r (fst a)) refs (fst (ps_transform_multi svc refs reset w)))
     \<and> (\<forall>reqs w. list_all2 (\<lambda>q a. any_ref_eq (snd q) (fst (snd a))) reqs (fst (ps_sync_multi svc reqs w)))"

lemma answers_allD:
  assumes "answers_all svc"
  shows "list_all2 (\<lambda>r a. dataset_ref_eq r (fst a)) refs (fst (ps_ingest_multi svc refs w))"
    and "list_all2 (\<lambda>r a. dataset_ref_eq r (fst a)) refs (fst (ps_transform_multi svc refs reset w))"
    and "list_all2 (\<lambda>q a. any_ref_eq (snd q) (fst (snd a))) reqs (fst (ps_sync_multi svc reqs w))"
  using assms unfolding answers_all_def by blast+

definition response_for :: "pull_item \<Rightarrow> pull_response \<Rightarrow> bool" where
  "response_for item r \<longleftrightarrow> resp_original_request r = pi_original_request item
     \<and> (\<exists>l. resp_local_ref r = Some l \<and> dataset_ref_eq (pi_local_ref item) l)"

lemma check_responses_ok:
  assumes "list_all2 same batch rs" and "\<And>item r. same item r \<Longrightarrow> response_for item (respond item r)"
  shows "\<exists>level. check_responses same respond batch rs = Inr level \<and> list_all2 response_for batch level"
  using assms by (auto simp: check_responses_def list_all2_conv_all_nth list_all_length)

lemma sync_response: "any_ref_eq (dataset_ref_into_any r) dst \<Longrightarrow> \<exists>l. any_into_local_ref is_repo dst = Inr l \<and> dataset_ref_eq r l"
  by (cases r; cases dst) (auto simp: dataset_alias_eq_def dataset_alias_new_def elim!: option_name_eq.elims)

lemma ingest_batch:
  assumes "answers_all svc"
  shows "\<exists>level w'. pull_ingest_multi svc batch w = (Inr level, w') \<and> list_all2 response_for batch level"
proof -
  obtain rs w' where run: "ps_ingest_multi svc (map pi_local_ref batch) w = (rs, w')" by fastforce
  then have "list_all2 (\<lambda>item r. dataset_ref_eq (pi_local_ref item) (fst r)) batch rs"
    using answers_allD(1) [OF assms, of "map pi_local_ref batch" w] by (simp add: list.rel_map(1))
  from check_responses_ok [OF this, of into_response_ingest] show ?thesis
    using run by (auto simp: pull_ingest_multi_def response_for_def into_response_ingest_def)
qed

lemma transform_batch:
  assumes "answers_all svc"
  shows "\<exists>level w'. pull_transform_multi svc reset batch w = (Inr level, w') \<and> list_all2 response_for batch level"
proof -
  obtain rs w' where run: "ps_transform_multi svc (map pi_local_ref batch) reset w = (rs, w')" by fastforce
  then have "list_all2 (\<lambda>item r. dataset_ref_eq (pi_local_ref item) (fst r)) batch rs"
    using answers_allD(2) [OF assms, of "map pi_local_ref batch" reset w] by (simp add: list.rel_map(1))
  from check_responses_ok [OF this, of into_response_transform] show ?thesis
    using run by (auto simp: pull_transform_multi_def response_for_def into_response_transform_def)
qed

lemma associate_never_panics:
  "list_all (\<lambda>r. resp_local_ref r \<noteq> None) rs \<Longrightarrow> associate svc rs w = (Inl e, w') \<Longrightarrow> \<exists>m. e = Fail m"
  by (induction svc rs w rule: associate.induct)
    (auto split: sum.splits option.splits pull_result.splits prod.splits if_splits simp: Let_def)

lemma sync_batch:
  assumes "answers_all svc" and "\<forall>item \<in> set batch. pi_remote_ref item \<noteq> None"
  shows "\<exists>r w'. pull_sync_multi svc add batch w = (r, w') \<and>
    (case r of Inl e \<Rightarrow> \<exists>m. e = Fail m | Inr level \<Rightarrow> list_all2 response_for batch level)"
proof -
  let ?same = "\<lambda>item a. any_ref_eq (dataset_ref_into_any (pi_local_ref item)) (fst (snd a))"
  obtain rs w' where run: "ps_sync_multi svc (map (\<lambda>item. (remote_ref_into_any (the (pi_remote_ref item)),
      dataset_ref_into_any (pi_local_ref item))) batch) w = (rs, w')" by fastforce
  then have all: "list_all2 ?same batch rs"
    using answers_allD(3) [OF assms(1), of "map (\<lambda>item. (remote_ref_into_any (the (pi_remote_ref item)),
      dataset_ref_into_any (pi_local_ref item))) batch" w] by (simp add: list.rel_map(1))
  have "response_for item (into_response_sync item a)" if "?same item a" for item a
    using sync_response [OF that, of "\<lambda>_. True"] by (auto simp: response_for_def into_response_sync_def result_ok_def split: prod.splits)
  from check_responses_ok [where respond = into_response_sync, OF all this] obtain level where
    level: "check_responses ?same into_response_sync batch rs = Inr level" "list_all2 response_for batch level" by blast
  have locals: "list_all (\<lambda>r. resp_local_ref r \<noteq> None) level"
    using level(2) by (auto simp: list_all2_conv_all_nth list_all_length response_for_def)
  have "pull_sync_multi svc add batch w =
      (if add then (case associate svc level w' of (Inl e, w) \<Rightarrow> (Inl e, w) | (Inr _, w) \<Rightarrow> (Inr level, w)) else (Inr level, w'))"
    using assms(2) run level(1) by (simp add: pull_sync_multi_def list_all_iff split_def Let_def)
  then show ?thesis using level(2) associate_never_panics [OF locals]
    by (auto split: prod.splits sum.splits)
qed

section \<open>Batches\<close>

lemma batch_runs:
  assumes "answers_all svc" and "\<forall>item \<in> set batch. same_batch first item"
  shows "\<exists>r w'. run_batch svc opts (pi_depth first) (pi_remote_ref first \<noteq> None) batch w = (r, w') \<and>
    (case r of Inl e \<Rightarrow> \<exists>m. e = Fail m | Inr level \<Rightarrow> list_all2 response_for batch level)"
proof -
  consider "pi_depth first = 0 \<and> pi_remote_ref first = None" | "pi_depth first = 0 \<and> pi_remote_ref first \<noteq> None" | "pi_depth first \<noteq> 0"
    by blast
  then show ?thesis
  proof cases
    case 1
    then show ?thesis using ingest_batch [OF assms(1), of batch w] by (auto simp: run_batch_def)
  next
    case 2
    then have "\<forall>item \<in> set batch. pi_remote_ref item \<noteq> None" using assms(2) by (auto simp: same_batch_def)
    then show ?thesis using 2 sync_batch [OF assms(1), of batch "opt_add_aliases opts" w] by (simp add: run_batch_def)
  next
    case 3
    then show ?thesis using transform_batch [OF assms(1), of "opt_reset_derivatives opts" batch w] by (auto simp: run_batch_def)
  qed
qed

text \<open>
  What a run gives: responses to the first datasets of the plan, all of it unless one failed; a
  response that failed belongs to the last batch.
\<close>

definition pulled :: "pull_item list \<Rightarrow> pull_response list \<Rightarrow> bool" where
  "pulled plan responses \<longleftrightarrow> length responses \<le> length plan \<and> list_all2 response_for (take (length responses) plan) responses
     \<and> (length responses < length plan \<longrightarrow> (\<exists>r \<in> set responses. isl (resp_result r)))
     \<and> (\<forall>i < length responses. isl (resp_result (responses ! i)) \<longrightarrow>
          (\<forall>j < length responses. i < j \<longrightarrow> same_batch (plan ! i) (plan ! j)))"

lemma pulled_failed:
  assumes "list_all2 response_for batch level" and "list_ex (\<lambda>r. isl (resp_result r)) level" and "\<forall>item \<in> set batch. same_batch first item"
  shows "pulled (batch @ tail) level"
proof -
  have len: "length batch = length level" using assms(1) by (rule list_all2_lengthD)
  have "same_batch ((batch @ tail) ! i) ((batch @ tail) ! j)" if "i < length level" "j < length level" for i j
    using assms(3) that len nth_mem [of i batch] nth_mem [of j batch] by (simp add: nth_append same_batch_def)
  then show ?thesis using assms(1,2) len by (simp add: pulled_def list_ex_iff)
qed

lemma pulled_append:
  assumes "list_all2 response_for batch level" and "\<not> list_ex (\<lambda>r. isl (resp_result r)) level" and "pulled tail later"
  shows "pulled (batch @ tail) (level @ later)"
proof -
  have len: "length batch = length level" using assms(1) by (rule list_all2_lengthD)
  have fail: "isl (resp_result ((level @ later) ! i)) \<Longrightarrow> i < length (level @ later) \<Longrightarrow> length level \<le> i" for i
    using assms(2) nth_mem [of i level] by (cases "i < length level") (auto simp: list_ex_iff nth_append)
  have "same_batch ((batch @ tail) ! i) ((batch @ tail) ! j)"
    if i: "i < length (level @ later)" "isl (resp_result ((level @ later) ! i))" and j: "j < length (level @ later)" "i < j" for i j
  proof -
    obtain k l where "i = length level + k" "j = length level + l" using fail [OF i(2,1)] j(2) by (metis le_iff_add less_imp_le_nat order_trans)
    then show ?thesis using assms(3) i j len by (simp add: pulled_def nth_append)
  qed
  then show ?thesis using assms(1,3) len by (auto simp: pulled_def list_all2_appendI)
qed

lemma slice_parts:
  assumes "pull_slice (first # rest) = Inr (depth, is_remote, batch, tail)"
  shows "depth = pi_depth first" and "is_remote \<longleftrightarrow> pi_remote_ref first \<noteq> None" and "first # rest = batch @ tail"
    and "\<forall>item \<in> set batch. same_batch first item"
proof -
  have parts: "batch = takeWhile (same_batch first) (first # rest)"
    using assms unfolding pull_slice.simps Let_def by (metis (no_types, lifting) Pair_inject sum.inject(2) takeWhile_eq_take)
  show "\<forall>item \<in> set batch. same_batch first item" unfolding parts by (blast dest: set_takeWhileD)
qed (use assms in \<open>auto simp: Let_def\<close>)

lemma run_plan_pulled:
  "answers_all svc \<Longrightarrow> case fst (run_plan svc opts plan results w) of Inl e \<Rightarrow> \<exists>m. e = Fail m
    | Inr all \<Rightarrow> \<exists>responses. all = results @ responses \<and> pulled plan responses"
proof (induction svc opts plan results w rule: run_plan.induct)
  case (1 svc opts results w)
  then show ?case by (simp add: pulled_def)
next
  case (2 svc opts first rest results w)
  obtain depth is_remote batch tail where slice: "pull_slice (first # rest) = Inr (depth, is_remote, batch, tail)"
    by (simp add: Let_def)
  note parts = slice_parts [OF slice]
  obtain r w' where run: "run_batch svc opts depth is_remote batch w = (r, w')"
    and out: "case r of Inl e \<Rightarrow> \<exists>m. e = Fail m | Inr level \<Rightarrow> list_all2 response_for batch level"
    using batch_runs [OF 2(2) parts(4), of opts w] unfolding parts(1,2) by blast
  show ?case
  proof (cases r)
    case (Inl e)
    then show ?thesis using out run slice by (simp del: pull_slice.simps)
  next
    case (Inr level)
    show ?thesis
    proof (cases "list_ex (\<lambda>r. isl (resp_result r)) level")
      case True
      have "run_plan svc opts (first # rest) results w = (Inr (results @ level), w')"
        using Inr run slice True by (simp del: pull_slice.simps)
      then show ?thesis using Inr out True pulled_failed [of batch level first tail] parts(4) unfolding parts(3) by simp
    next
      case False
      have step: "run_plan svc opts (first # rest) results w = run_plan svc opts tail (results @ level) w'"
        using Inr run slice False by (simp del: pull_slice.simps)
      have "case fst (run_plan svc opts tail (results @ level) w') of Inl e \<Rightarrow> \<exists>m. e = Fail m
          | Inr all \<Rightarrow> \<exists>responses. all = (results @ level) @ responses \<and> pulled tail responses"
        using 2(1) [OF slice _ _ _ run [symmetric] Inr False 2(2)] by simp
      then show ?thesis unfolding parts(3) step [unfolded parts(3)] using pulled_append [of batch level tail] out Inr False
        by (auto split: sum.splits)
    qed
  qed
qed

section \<open>Dependencies\<close>

lemma deeper_than_dependencies:
  assumes ok: "visited_ok env v" and "x \<in> set (map snd v)" and "y \<in> set (map snd v)" and "depends_on env y a" and "item_for a x"
  shows "pi_depth x < pi_depth y"
proof -
  have item: "item_ok env v y" using visited_values [OF ok assms(3)] by blast
  obtain h deps d dh where d: "pi_remote_ref y = None" "pi_local_ref y = RefHandle h" "pe_dependencies env h = Inr deps" "d \<in> set deps"
    "pe_try_resolve_dataset_ref env (RefID d) = Inr (Some dh)" "alias_key (handle_alias dh) = alias_key a"
    using assms(4) unfolding depends_on_def dataset_alias_eq_key by blast
  then have "\<forall>d \<in> set deps. \<exists>dh it. pe_try_resolve_dataset_ref env (RefID d) = Inr (Some dh)
      \<and> visited_get v (handle_alias dh) = Some it \<and> pi_depth it < pi_depth y" using item by (simp add: item_ok_def)
  from bspec [OF this d(4)] obtain it where it: "visited_get v (handle_alias dh) = Some it" "pi_depth it < pi_depth y" using d(5) by auto
  then have "it \<in> set (map snd v)" "item_for a it"
    using visited_value [OF ok it(1)] d(6) by (auto simp: item_for_def dataset_alias_eq_key)
  then show ?thesis using same_item [OF ok _ assms(2) _ assms(5)] it(2) by blast
qed

text \<open>Dependencies that the plan has come earlier, and were pulled without an error.\<close>

definition dependencies_pulled :: "pull_env \<Rightarrow> pull_item list \<Rightarrow> pull_response list \<Rightarrow> bool" where
  "dependencies_pulled env plan responses \<longleftrightarrow>
     (\<forall>j < length responses. \<forall>i < length plan. \<forall>a. depends_on env (plan ! j) a \<longrightarrow> item_for a (plan ! i) \<longrightarrow>
        i < j \<and> \<not> isl (resp_result (responses ! i)))"

lemma pulled_dependencies:
  assumes ok: "visited_ok env v" and sorted: "sorted_wrt items.le plan" and sub: "set plan \<subseteq> set (map snd v)" and run: "pulled plan responses"
  shows "dependencies_pulled env plan responses"
proof (unfold dependencies_pulled_def, intro allI impI)
  fix j i a assume j: "j < length responses" and i: "i < length plan" and dep: "depends_on env (plan ! j) a" "item_for a (plan ! i)"
  have len: "j < length plan" using run j by (simp add: pulled_def)
  then have less: "pi_depth (plan ! i) < pi_depth (plan ! j)"
    using deeper_than_dependencies [OF ok _ _ dep] sub i nth_mem by blast
  have "\<not> j \<le> i"
  proof
    assume "j \<le> i"
    then have "pi_depth (plan ! j) \<le> pi_depth (plan ! i)"
      using sorted_wrt_nth_less [OF sorted _ i, of j] le_depth by (cases "j = i") auto
    then show False using less by simp
  qed
  moreover have "\<not> same_batch (plan ! i) (plan ! j)" using less by (simp add: same_batch_def)
  moreover have "i < length responses" using calculation(1) j by simp
  moreover have "isl (resp_result (responses ! i)) \<longrightarrow> i < length responses \<longrightarrow> i < j \<longrightarrow> same_batch (plan ! i) (plan ! j)"
    using run j unfolding pulled_def by blast
  ultimately show "i < j \<and> \<not> isl (resp_result (responses ! i))" by simp
qed

lemma retain_sorted:
  "sorted_wrt items.le plan \<Longrightarrow> sorted_wrt items.le (retain_plan opts plan)" "set (retain_plan opts plan) \<subseteq> set plan"
  by (auto simp: retain_plan_def sorted_wrt_filter)

lemma graph_visited:
  assumes "acyclic_workspace env rank" and "\<forall>xs. mset (iteration xs) = mset xs"
    and "collect_pull_graph env iteration create n reqs = Some (Inr (plan, errors))"
  shows "\<exists>v. collect_requests env create n reqs [] [] = Some (Inr (v, errors)) \<and> visited_ok env v \<and> plan = sort_items (map snd v)"
proof -
  obtain v where v: "collect_requests env create n reqs [] [] = Some (Inr (v, errors))" "plan = sort_items (map snd v)"
    using assms(3) unfolding graph_result [OF assms(1,2)] by (auto simp: collect_pull_graph_def res_simps split: prod.splits)
  then show ?thesis using requests_visited_ok [OF assms(1) _ v(1)] gathered_Nil [of env] by (auto simp: gathered_def)
qed

lemma pull_multi_ext_cases:
  assumes "pull_multi_ext env svc iteration n reqs opts w = Some (Inr responses, w')"
  obtains account all plan errors where "pe_current_account env = Logged account" "requests_or_all env opts account reqs = Inr all"
    "collect_pull_graph env iteration (opt_create_if_not_exists opts) n all = Some (Inr (plan, errors))"
    "if errors \<noteq> [] then responses = errors \<and> w' = w else run_plan svc opts (retain_plan opts plan) [] w = (Inr responses, w')"
  using assms by (auto simp: pull_multi_ext_def split: current_account_subject.splits sum.splits option.splits fault.splits if_splits)

text \<open>
  C21. When a pull of several datasets returns responses, in a workspace whose dependencies have no cycle and on
  ingest, sync and transform services that answer each of their requests: either a request could not be planned, and then
  the responses are the errors of such requests and nothing was done; or there is one response for each of the
  first datasets of the plan, in its order, on that dataset and with its request, and for all of the plan unless a
  response is a failure; only the last batch can have failures; and every dependency of a pulled dataset that is in the plan
  was pulled before it, without an error. A recursive pull, or one of all datasets, has all dependencies in the plan.
\<close>

theorem pull_runs_dependencies_first:
  assumes "acyclic_workspace env rank" and "\<forall>xs. mset (iteration xs) = mset xs" and "answers_all svc"
    and "pull_multi_ext env svc iteration n reqs opts w = Some (Inr responses, w')"
  shows "\<exists>account all plan errors. pe_current_account env = Logged account \<and> requests_or_all env opts account reqs = Inr all
    \<and> collect_pull_graph env iteration (opt_create_if_not_exists opts) n all = Some (Inr (plan, errors))
    \<and> (if errors \<noteq> [] then responses = errors \<and> w' = w
       else pulled (retain_plan opts plan) responses \<and> dependencies_pulled env (retain_plan opts plan) responses
         \<and> (opt_recursive opts \<or> opt_all opts \<longrightarrow> dependencies_first env (retain_plan opts plan)))"
proof -
  obtain account all plan errors where run: "pe_current_account env = Logged account" "requests_or_all env opts account reqs = Inr all"
    "collect_pull_graph env iteration (opt_create_if_not_exists opts) n all = Some (Inr (plan, errors))"
    "if errors \<noteq> [] then responses = errors \<and> w' = w else run_plan svc opts (retain_plan opts plan) [] w = (Inr responses, w')"
    using pull_multi_ext_cases [OF assms(4)] by blast
  obtain v where v: "visited_ok env v" "plan = sort_items (map snd v)" using graph_visited [OF assms(1,2) run(3)] by blast
  have "pulled (retain_plan opts plan) responses \<and> dependencies_pulled env (retain_plan opts plan) responses" if "errors = []"
  proof -
    have "pulled (retain_plan opts plan) responses"
      using run_plan_pulled [OF assms(3), where opts = opts and plan = "retain_plan opts plan" and results = "[]" and w = w] run(4) that by simp
    then show ?thesis
      using pulled_dependencies [OF v(1) retain_sorted(1)] retain_sorted(2) sorted_sort_items sorted_plan(1) [OF v(1)]
      unfolding v(2) by metis
  qed
  moreover have "dependencies_first env (retain_plan opts plan)" if "opt_recursive opts \<or> opt_all opts"
    using plan_dependencies_first [OF v(1)] that v(2) by (simp add: retain_plan_def)
  ultimately show ?thesis using run by metis
qed

text \<open>Services that find every dataset up to date; the state is the sizes of the batches they ran.\<close>

definition demo_services :: "nat list pull_services" where
  "demo_services =
     \<lparr>ps_ingest_multi = (\<lambda>refs w. (map (\<lambda>r. (r, Inr (IngestUpToDate False False))) refs, w @ [length refs])),
      ps_sync_multi = (\<lambda>reqs w. (map (\<lambda>(src, dst). (src, dst, Inr UpToDate)) reqs, w @ [length reqs])),
      ps_transform_multi = (\<lambda>refs _ w. (map (\<lambda>r. (r, Inr TransformUpToDate)) refs, w @ [length refs])),
      ps_get_remote_aliases = (\<lambda>_ _. Inr \<lparr>pull_aliases = [], push_aliases = []\<rparr>),
      ps_write_config = (\<lambda>_ _ w. (Inr (), w))\<rparr>"

definition demo_options :: pull_multi_options where
  "demo_options = \<lparr>opt_recursive = True, opt_all = False, opt_add_aliases = True, opt_create_if_not_exists = True,
     opt_reset_derivatives = False\<rparr>"

definition demo_responses :: "pull_response list" where
  "demo_responses = (case pull_multi_ext demo_pull_env demo_services rev 3 [demo_pull_request] demo_options [] of
     Some (Inr rs, _) \<Rightarrow> rs | _ \<Rightarrow> [])"

lemma ref_eq_refl [simp]: "dataset_ref_eq r r" "any_ref_eq a a"
  by (cases r; simp add: dataset_alias_eq_key) (cases a; simp add: name_eq_def option_name_eq_map dataset_alias_remote_eq_def dataset_alias_eq_key)

lemma demo_answers: "answers_all demo_services"
  by (auto simp: answers_all_def demo_services_def list.rel_map list.rel_refl split_def)

lemma demo_pull:
  "pull_multi_ext demo_pull_env demo_services rev 3 [demo_pull_request] demo_options [] = Some (Inr demo_responses, [1, 1, 1])"
  "map resp_result demo_responses = [Inr (PullUpToDate UpToDateSync), Inr (PullUpToDate (UpToDatePollingIngest False)), Inr (PullUpToDate UpToDateTransform)]"
  by code_simp+

theorem pull_runs_dependencies_first_witness:
  "\<exists>account all plan errors. pe_current_account demo_pull_env = Logged account
    \<and> requests_or_all demo_pull_env demo_options account [demo_pull_request] = Inr all
    \<and> collect_pull_graph demo_pull_env rev (opt_create_if_not_exists demo_options) 3 all = Some (Inr (plan, errors))
    \<and> (if errors \<noteq> [] then demo_responses = errors \<and> [1, 1, 1] = ([] :: nat list)
       else pulled (retain_plan demo_options plan) demo_responses
         \<and> dependencies_pulled demo_pull_env (retain_plan demo_options plan) demo_responses
         \<and> (opt_recursive demo_options \<or> opt_all demo_options \<longrightarrow> dependencies_first demo_pull_env (retain_plan demo_options plan)))"
  by (rule pull_runs_dependencies_first [OF demo_acyclic _ demo_answers demo_pull(1)]) simp

section \<open>Panics\<close>

lemma resolved_panic:
  assumes "pe_current_account env = Logged account"
  shows "(\<exists>m. resolved env req = Inl (Panic m)) \<longleftrightarrow> req_local_ref req = None \<and> (req_remote_ref req = None
    \<or> (\<exists>repo i. req_remote_ref req = Some (RemoteID repo i)
         \<and> try_inverse_lookup_dataset_by_pull_alias env (RemoteID repo i) = Inr None))"
proof (cases "req_local_ref req")
  case None
  show ?thesis
  proof (cases "req_remote_ref req")
    case (Some r)
    then show ?thesis using assms None
      by (cases r) (auto simp: resolved_def res_simps resolve_local_handle_def resolve_local_alias_def infer_local_alias_def int_err_def
          split: option.splits if_splits)
  qed (use None in \<open>simp add: resolved_def resolve_local_handle_def and_then_def\<close>)
next
  case (Some r)
  then show ?thesis
    by (auto simp: resolved_def res_simps resolve_local_handle_def resolve_local_alias_def int_err_def split: option.splits if_splits)
qed

lemma resolved_without_handle: "resolved env req = Inr (None, a) \<Longrightarrow> req_remote_ref req \<noteq> None"
  by (auto simp: resolved_def res_simps resolve_local_handle_def int_err_def split: option.splits if_splits)

lemma descend_panics: "descend f ds k v = Some (Inl (Panic m), v') \<Longrightarrow> \<exists>d \<in> set ds. \<exists>u u'. f d u = Some (Inl (Panic m), u')"
proof (induction ds arbitrary: k v)
  case (Cons d ds)
  then obtain s u where fd: "f d v = Some (s, u)" by (cases "f d v") auto
  then show ?case using Cons by (cases s) auto
qed simp

lemma resolve_pull_alias_no_panic: "resolve_pull_alias env r \<noteq> Inl (Panic m)"
  by (auto simp: resolve_pull_alias_def split: sum.splits get_aliases_error.splits list.splits)

lemma dependency_no_panic: "resolved env (dependency_request d) \<noteq> Inl (Panic m)"
  by (auto simp: resolved_def res_simps dependency_request_def resolve_local_handle_def resolve_local_alias_def int_err_def
      split: option.splits if_splits)

lemma collect_panics: "collect_depth_first env create n req explicit v = Some (Inl (Panic m), v') \<Longrightarrow> resolved env req = Inl (Panic m)"
proof (induction n arbitrary: req explicit v v')
  case (Suc n)
  have "descend (\<lambda>d. collect_depth_first env create n (dependency_request d) False) deps (-1) v \<noteq> Some (Inl (Panic m), u)" for deps u
    using descend_panics Suc.IH dependency_no_panic by blast
  then show ?case using Suc.prems resolved_without_handle [of env req]
    by (auto simp: collect_unfold int_err_def map_err_def resolve_remote_ref_def resolve_pull_alias_no_panic
        split: sum.splits option.splits if_splits)
qed simp

lemma collect_panics_iff:
  assumes "0 < n"
  shows "(\<exists>u. collect_depth_first env create n req explicit v = Some (Inl (Panic m), u)) \<longleftrightarrow> resolved env req = Inl (Panic m)"
proof
  assume "resolved env req = Inl (Panic m)"
  moreover obtain k where "n = Suc k" using assms gr0_implies_Suc by blast
  ultimately show "\<exists>u. collect_depth_first env create n req explicit v = Some (Inl (Panic m), u)" by (simp add: collect_unfold)
qed (use collect_panics in blast)

text \<open>One request retains one dataset of the plan.\<close>

lemma one_retained:
  assumes all: "gathered env [req] v" and opts: "\<not> opt_recursive opts" "\<not> opt_all opts"
  shows "\<exists>item. retain_plan opts (sort_items (map snd v)) = [item]"
proof -
  let ?plan = "sort_items (map snd v)"
  have ok: "visited_ok env v" using all by (simp add: gathered_def)
  note set = sorted_plan(1) [OF ok]
  obtain handle a it where it: "resolved env req = Inr (handle, a)" "visited_get v a = Some it" "pi_original_request it \<noteq> None"
    using all by (auto simp: gathered_def covered_def)
  have mem: "it \<in> set (map snd v)" "item_for a it" using visited_value [OF ok it(2)] by simp_all
  have only: "other = it" if other: "other \<in> set (map snd v)" "pi_original_request other \<noteq> None" for other
  proof -
    obtain k where k: "visited_get v k = Some other" "item_for k other" using visited_values [OF ok other(1)] by blast
    obtain q where "pi_original_request other = Some q" using other(2) by blast
    then have "q \<in> set [req]" "\<exists>handle b. resolved env q = Inr (handle, b) \<and> alias_key b = alias_key k"
      using all k(1) unfolding gathered_def asked_def by blast+
    then have "alias_key a = alias_key k" using it(1) by simp
    then have "item_for a other" using k(2) by (auto simp: item_for_def dataset_alias_eq_key)
    then show ?thesis using same_item [OF ok other(1) mem(1) _ mem(2)] by simp
  qed
  have "set (retain_plan opts ?plan) = {item \<in> set ?plan. pi_original_request item \<noteq> None}"
    using opts by (simp add: retain_plan_def)
  also have "\<dots> = {it}" unfolding set using mem(1) it(3) only by blast
  finally have "set (retain_plan opts ?plan) = {it}" .
  moreover have "distinct (retain_plan opts ?plan)" using sorted_plan(2) [OF ok] by (simp add: retain_plan_def)
  ultimately have "length (retain_plan opts ?plan) = 1" using distinct_card [of "retain_plan opts ?plan"] by simp
  then show ?thesis by (simp add: length_Suc_conv)
qed

lemma run_one: "answers_all svc \<Longrightarrow> run_plan svc opts [item] [] w = (Inr responses, w') \<Longrightarrow> \<exists>r. responses = [r]"
  using run_plan_pulled [of svc, where opts = opts and plan = "[item]" and results = "[]" and w = w]
  by (cases responses) (auto simp: pulled_def)

lemma run_no_panic: "answers_all svc \<Longrightarrow> run_plan svc opts plan [] w \<noteq> (Inl (Panic m), w')"
  using run_plan_pulled [of svc, where opts = opts and plan = plan and results = "[]" and w = w] by auto

lemma collect_one:
  "collect_requests env create n [req] [] [] =
     (case collect_depth_first env create n req True [] of
        None \<Rightarrow> None
      | Some (Inl (Panic m), v) \<Rightarrow> Some (Inl (Panic m))
      | Some (Inl (Fail e), v) \<Rightarrow>
          Some (Inr (v, [\<lparr>resp_original_request = Some req, resp_local_ref = None, resp_remote_ref = None, resp_result = Inl e\<rparr>]))
      | Some (Inr _, v) \<Rightarrow> Some (Inr (v, [])))"
  by (auto split: option.split sum.split fault.split)

lemma pull_ext_fault:
  assumes "pe_current_account env = Logged account"
    and "collect_depth_first env (one_create_if_not_exists opts) n req True [] = Some (Inl e, v)"
  shows "pull_ext env svc iteration n req opts w = Some (Inl e, w)"
  using assms by (cases e) (simp_all add: pull_ext_def pull_multi_ext_def requests_or_all_def collect_pull_graph_def
      collect_one and_then_def map_err_def del: collect_requests.simps)

lemma pull_ext_returns:
  assumes acyclic: "acyclic_workspace env rank" and iter: "\<forall>xs. mset (iteration xs) = mset xs" and svc: "answers_all svc"
    and account: "pe_current_account env = Logged account"
    and run: "collect_depth_first env (one_create_if_not_exists opts) n req True [] = Some (Inr depth, v)"
  shows "\<exists>r w'. pull_ext env svc iteration n req opts w = Some (r, w') \<and> (\<forall>m. r \<noteq> Inl (Panic m))"
proof -
  let ?opts = "\<lparr>opt_recursive = False, opt_all = False, opt_add_aliases = one_add_aliases opts,
    opt_create_if_not_exists = one_create_if_not_exists opts, opt_reset_derivatives = one_reset_derivatives opts\<rparr>"
  have reqs: "collect_requests env (one_create_if_not_exists opts) n [req] [] [] = Some (Inr (v, []))"
    unfolding collect_one using run by simp
  have all: "gathered env [req] v" using collect_requests_gathered [OF acyclic gathered_Nil reqs] by simp
  then obtain item where item: "retain_plan ?opts (sort_items (map snd v)) = [item]" using one_retained [of env req v ?opts] by auto
  have graph: "collect_pull_graph env iteration (one_create_if_not_exists opts) n [req] = Some (Inr (sort_items (map snd v), []))"
    unfolding graph_result [OF acyclic iter] using reqs by (simp add: collect_pull_graph_def and_then_def)
  obtain r w' where plan: "run_plan svc ?opts [item] [] w = (r, w')" by fastforce
  have multi: "pull_multi_ext env svc iteration n [req] ?opts w = Some (r, w')"
    using account graph item plan by (simp add: pull_multi_ext_def requests_or_all_def)
  show ?thesis
  proof (cases r)
    case (Inl e)
    then have "e \<noteq> Panic m" for m using plan run_no_panic [OF svc] by blast
    then obtain m where "e = Fail m" by (cases e) auto
    then show ?thesis using multi Inl by (simp add: pull_ext_def)
  next
    case (Inr responses)
    then obtain a where "responses = [a]" using run_one [OF svc] plan by blast
    then show ?thesis using multi Inr by (cases "resp_result a") (simp_all add: pull_ext_def map_err_def)
  qed
qed

text \<open>
  Pulling one dataset, for a logged in account, in a workspace whose dependencies have no cycle, on
  services that answer all their requests: the call returns, and exactly one response is
  there for the assertion on their number. It panics for one kind of request only: a remote
  reference by identifier that no local dataset has as a pull alias (and a request with no
  reference at all).\<close>
theorem pull_panics_exactly:
  assumes "acyclic_workspace env rank" and "\<forall>xs. mset (iteration xs) = mset xs" and "answers_all svc"
    and "pe_current_account env = Logged account"
  shows "\<exists>N. \<forall>n \<ge> N. \<exists>r w'. pull_ext env svc iteration n req opts w = Some (r, w')
    \<and> ((\<exists>m. r = Inl (Panic m)) \<longleftrightarrow> req_local_ref req = None \<and> (req_remote_ref req = None
         \<or> (\<exists>repo i. req_remote_ref req = Some (RemoteID repo i)
              \<and> try_inverse_lookup_dataset_by_pull_alias env (RemoteID repo i) = Inr None)))"
proof (rule exI [of _ "fuel_for env rank [req]"], intro allI impI)
  let ?create = "one_create_if_not_exists opts"
  fix n assume n: "fuel_for env rank [req] \<le> n"
  then have fuel: "enough_fuel env rank n req" by (intro fuel_for_enough) simp_all
  then have pos: "0 < n" by (simp add: enough_fuel_def)
  obtain s v where run: "collect_depth_first env ?create n req True [] = Some (s, v)"
    using collect_returns [OF assms(1) fuel, of ?create True "[]"] by auto
  have panic: "(\<exists>m. s = Inl (Panic m)) \<longleftrightarrow> (\<exists>m. resolved env req = Inl (Panic m))"
    using collect_panics_iff [OF pos, of env ?create req True "[]"] run by auto
  show "\<exists>r w'. pull_ext env svc iteration n req opts w = Some (r, w')
    \<and> ((\<exists>m. r = Inl (Panic m)) \<longleftrightarrow> req_local_ref req = None \<and> (req_remote_ref req = None
         \<or> (\<exists>repo i. req_remote_ref req = Some (RemoteID repo i)
              \<and> try_inverse_lookup_dataset_by_pull_alias env (RemoteID repo i) = Inr None)))"
    unfolding resolved_panic [OF assms(4), symmetric] panic [symmetric]
  proof (cases s)
    case (Inl e)
    then show "\<exists>r w'. pull_ext env svc iteration n req opts w = Some (r, w') \<and> ((\<exists>m. r = Inl (Panic m)) \<longleftrightarrow> (\<exists>m. s = Inl (Panic m)))"
      using pull_ext_fault [OF assms(4) run [unfolded Inl], of svc iteration w] by auto
  next
    case (Inr depth)
    then show "\<exists>r w'. pull_ext env svc iteration n req opts w = Some (r, w') \<and> ((\<exists>m. r = Inl (Panic m)) \<longleftrightarrow> (\<exists>m. s = Inl (Panic m)))"
      using pull_ext_returns [OF assms run [unfolded Inr], of w] by auto
  qed
qed

definition demo_pull_options :: pull_options where
  "demo_pull_options = \<lparr>one_add_aliases = True, one_create_if_not_exists = True, one_reset_derivatives = False\<rparr>"

definition by_id_request :: pull_request where
  "by_id_request = \<lparr>req_local_ref = None, req_remote_ref = Some (RemoteID (Some ''hub'') (DatasetID [3]))\<rparr>"

theorem pull_panics_exactly_witness:
  "(\<exists>N. \<forall>n \<ge> N. \<exists>m w'. pull_ext demo_pull_env demo_services rev n by_id_request demo_pull_options [] = Some (Inl (Panic m), w'))
   \<and> pull demo_pull_env demo_services rev 2 (AnyID (Some ''hub'') (DatasetID [3])) demo_pull_options [] =
       Some (Inl (Panic ''not implemented: Pulling from remote by ID is not supported''), [])"
proof
  have account: "pe_current_account demo_pull_env = Logged ''kamu''" by (simp add: demo_pull_env_def)
  have none: "try_inverse_lookup_dataset_by_pull_alias demo_pull_env (RemoteID (Some ''hub'') (DatasetID [3])) = Inr None"
    by code_simp
  have req: "req_local_ref by_id_request = None" "req_remote_ref by_id_request = Some (RemoteID (Some ''hub'') (DatasetID [3]))"
    by (simp_all add: by_id_request_def)
  have rev: "\<forall>xs :: pull_item list. mset (rev xs) = mset xs" by simp
  show "\<exists>N. \<forall>n \<ge> N. \<exists>m w'. pull_ext demo_pull_env demo_services rev n by_id_request demo_pull_options [] = Some (Inl (Panic m), w')"
    using pull_panics_exactly [OF demo_acyclic rev demo_answers account, of by_id_request demo_pull_options "[]"] req none by fastforce
  show "pull demo_pull_env demo_services rev 2 (AnyID (Some ''hub'') (DatasetID [3])) demo_pull_options [] =
       Some (Inl (Panic ''not implemented: Pulling from remote by ID is not supported''), [])"
    by code_simp
qed

end
