(* ===== verification/Spec2Isabelle.thy ===== *)
theory Spec2Isabelle
  imports Chain_Properties Chain_Search Task_Claims Event_Claims Multiformat_Claims Flow_Claims Outbox_Claims Dataset_Claims Dependency_Claims Sync_Claims Compaction_Claims Rebac_Claims Identity_Claims Pull_Run
begin

text \<open>
  A verification library for kamu-cli, the command line tool and node of the Open Data Fabric.
  It models the core of the repository: the identity of datasets, the metadata chain of a dataset and the dataset
  around it, with its synchronization and compaction, the event-sourcing framework, the task system and the flow
  system built on it, access properties and relations, and the messaging outbox that connects them. Paths below are
  under \<open>src/src/\<close>.

  \<^bold>\<open>How the parts interact.\<close> A dataset is a chain of metadata blocks in content-addressed
  repositories; appending a block runs a set of validators that visit the chain backwards. Commits
  store data and checkpoints beside the chain, and a summary of the chain is cached. A dataset is
  copied to another place by comparing the two chains and transferring what is missing, and
  compacted by merging its data files and rebuilding its chain. People name datasets by references, which a grammar
  tells apart into identifiers, aliases and URLs.
  Tasks, flows and flow configurations are aggregates: their state is the projection of the events
  that an event store keeps. The flow service decides when a flow runs, keeps the pending flows and
  their activation times, asks the task scheduler for tasks, and learns of their progress and of
  changes of configurations and datasets from messages. The outbox stores these messages and relays
  them to the consumers that ask for durable delivery.

  \<^bold>\<open>Theories and sources.\<close>
  \<^item> \<open>Prelude\<close>: machine types, results and panics as values, shared lemmas.
  \<^item> \<open>Multiformats\<close> (\<open>utils/multiformats\<close>): multicodec, multibase, multihash.
  \<^item> \<open>Odf_Metadata\<close> (\<open>domain/opendatafabric/src/dtos\<close>): metadata blocks and events, flags, the
    data stream view, offsets.
  \<^item> \<open>Chain_Repos\<close> (\<open>infra/core/src/repos\<close>): in-memory object and named repositories, the block
    and the reference repository over them, as locales with interpretations.
  \<^item> \<open>Chain_Visitors\<close>, \<open>Chain_Validators\<close>, \<open>Chain_Validity\<close>, \<open>Metadata_Chain\<close>,
    \<open>Chain_Search\<close> (\<open>domain/core/src/repos/metadata_chain_visitor*.rs\<close>,
    \<open>infra/core/src/repos/metadata_chain_*.rs\<close>): the visitor protocol and its visitors, the
    validators of an append, what they accept together, the chain itself and searches over it.
    \<open>Externs_Instance\<close> and \<open>Chain_Demo\<close> give the parameters a concrete instance;
    \<open>Chain_Properties\<close> holds the properties.
  \<^item> \<open>Dataset\<close> (\<open>infra/core/src/repos/dataset_impl.rs\<close>): commits of events and of data, and the
    cached summary. \<open>Dataset_Summary\<close>: what the summary is of a chain. \<open>Dataset_Invariant\<close>: the
    histories of a dataset and their invariants. \<open>Dataset_Changes\<close>
    (\<open>dataset_changes_service_impl.rs\<close>): increments between two blocks. \<open>Dataset_Demo\<close>: a
    concrete dataset; properties in \<open>Dataset_Claims\<close>.
  \<^item> \<open>Dependency_Graph\<close> (\<open>infra/core/src/dependency_graph_*.rs\<close>): the graph of datasets that are
    derived from each other. \<open>Dependency_Properties\<close>: the state as a relation between datasets.
    \<open>Dependency_Refinement\<close>: the abstract graph that requests change, and the searches; properties
    in \<open>Dependency_Claims\<close>.
  \<^item> \<open>Chain_Compare\<close> (\<open>metadata_chain_comparator.rs\<close>), \<open>Sync\<close> (\<open>simple_transfer_protocol.rs\<close>): how two
    chains relate, and the transfer of blocks, data and checkpoints. \<open>Sync_Properties\<close>: what the
    transfer keeps of the destination. \<open>Sync_Progress\<close>: that it completes; properties in
    \<open>Sync_Claims\<close>.
  \<^item> \<open>Compaction\<close> (\<open>compaction_service_impl.rs\<close>): gathering the slices of a chain into batches, merging
    them, committing the new blocks. \<open>Compaction_Properties\<close>: the invariant of the gathered batches.
    \<open>Compaction_Commit\<close>: the chain that is committed. \<open>Compaction_Demo\<close>: a concrete dataset; properties in
    \<open>Compaction_Claims\<close>.
  \<^item> \<open>Dids\<close> (\<open>did_key.rs\<close>, \<open>did_odf.rs\<close>): identifiers and their text, with a property on panics. \<open>Identity\<close>
    (\<open>identity/grammar.rs\<close>): the matchers. \<open>Identity_Refs\<close> (\<open>dataset_identity.rs\<close>,
    \<open>dataset_refs.rs\<close>): names, aliases, references and patterns. \<open>Identity_Properties\<close>: the contract of a
    greedy matcher as a locale, and its interpretations. Properties in \<open>Identity_Claims\<close>.
  \<^item> \<open>Pull_Planner\<close>, \<open>Pull_Service\<close> (\<open>infra/core/src/pull_service_impl.rs\<close>, \<open>remote_aliases_registry_impl.rs\<close>): planning a pull
    over the dependencies of datasets and running the plan in batches; the dataset repository and the ingest, sync and transform
    services are parameters. \<open>Pull_Order\<close>: comparisons as a locale, and the order of plans. \<open>Pull_Properties\<close>,
    \<open>Pull_Plan\<close>: the invariant of the walk, and that it returns when the dependencies have no cycle; its fuel bounds the
    depth of the recursion, and two more than the rank of a requested dataset are enough. Properties in \<open>Pull_Claims\<close> and \<open>Pull_Run\<close>.
  \<^item> \<open>Rebac\<close>, \<open>Rebac_Service\<close> (\<open>domain/auth-rebac\<close>, \<open>infra/auth-rebac/inmem\<close>): access properties and relations,
    the in-memory repository, the service and its message consumer. \<open>Rebac_Claims\<close>: the
    contract of the repository as a locale, its interpretation, and the properties.
  \<^item> \<open>Event_Sourcing\<close> (\<open>utils/event-sourcing\<close>): projections, aggregates, the in-memory event
    store, and the contracts \<open>projection\<close> and \<open>event_store\<close>; properties in \<open>Event_Claims\<close>.
  \<^item> \<open>Task_System\<close>, \<open>Task_Properties\<close>, \<open>Task_Claims\<close> (\<open>domain/task-system\<close>,
    \<open>infra/task-system/inmem\<close>): task entity and aggregate, store, scheduler, executor.
  \<^item> \<open>Flow_Entities\<close> (\<open>domain/flow-system/domain\<close>): keys, rules, triggers, outcomes, and the
    projections and aggregates of flows and of flow configurations.
  \<^item> \<open>Flow_Time_Wheel\<close> (\<open>flow_time_wheel.rs\<close>): the heap of activations and the contract of an
    activation queue that it fulfils.
  \<^item> \<open>Flow_Store\<close>, \<open>Flow_Store_Properties\<close> (\<open>infra/flow-system/inmem\<close>): the event store of flows
    with its index and queries, and that the index is a function of the log.
  \<^item> \<open>Flow_Service\<close>, \<open>Flow_Handlers\<close> (\<open>flow_service_impl.rs\<close>, \<open>active_configs_state.rs\<close>,
    \<open>pending_flows_state.rs\<close>): the service, one definition per method, over one state record.
  \<^item> \<open>Flow_Invariant\<close>: a Hoare logic for the operations of the service and the invariant that every
    one of them keeps, also when it fails. \<open>Flow_Triggering\<close>, \<open>Flow_Progress\<close>: what a trigger
    does, and progress of the main loop; properties in \<open>Flow_Claims\<close>.
  \<^item> \<open>Outbox\<close> (\<open>utils/messaging-outbox\<close>, \<open>infra/messaging-outbox/inmem\<close>): messages, consumption
    boundaries, routes, the three outboxes and the processor that relays stored messages.
    \<open>Outbox_Repos\<close>: the contracts of the two repositories and their in-memory interpretations.
    \<open>Outbox_Relay\<close>, \<open>Outbox_Invariant\<close>, \<open>Outbox_Order\<close>: the relay as a step relation with
    interleaved producers, consumers, posts and restarts, and its invariant. \<open>Outbox_Progress\<close>: the
    sequential processor is one of these runs and drains the outbox; properties in \<open>Outbox_Claims\<close>.

  \<^bold>\<open>State and operations.\<close> Structs are records, enums are datatypes with the constructors of the
  source (renamed where they clash). Code that mutates is a function from the state to the result
  and the state it leaves; in the flow service it is composed with \<open>fbind\<close>, the question mark
  operator of the source on a state. Errors are values of \<open>'e fault\<close>, where \<open>Panic\<close> is a panic
  with its message. What the code takes from crates outside the repository, and services that a
  component only receives as trait objects, are parameters: the externs records of the chain and of
  a dataset, the graph crate with its documented laws, the
  services of the task executor, and \<open>flow_env\<close> of the flow service (clock, time rounding, cron,
  dataset changes, dependency graph, ownership). A clock is a sequence of readings.

  \<^bold>\<open>Concurrency.\<close> Every operation that the source runs under a lock or as one message handler is
  one step; in the relay of the outbox every access to a repository and every call of a consumer is.
  Runs are lists of requests or step relations with any interleaving of such steps.

  \<^bold>\<open>Bounds and fuel.\<close> Walks along a chain follow hashes and may not end on a cyclic store; they are
  \<open>partial_function (option)\<close>, and properties prove that they return on the chains that appending
  builds. Words are kept where they wrap: identifiers of flows are 64 bit, so the flow properties
  ask for fewer than \<open>2\<^sup>6\<^sup>4\<close> clock readings (every new flow reads the clock once); task properties
  ask for fewer than \<open>2\<^sup>6\<^sup>3 - 1\<close> events.

  \<^bold>\<open>What the properties show.\<close> Which blocks an append accepts and that chains stay ordered with
  contiguous offsets; that iteration and searches return exactly the blocks they should; that the
  cached summary equals the one of the whole chain, that committed objects are there, and that
  reported increments are exact and add up; that the dependency graph refines a relation that agrees
  with the chains, and that its recursive listings are complete and ordered; that aggregates and stores agree; the life cycle of tasks; that the flow store refines its log, that the
  service keeps its pending flows consistent under every sequence of requests, that a trigger
  serves one flow and respects throttling, that batching waits are bounded and the main loop
  catches up; that durable consumers are handed every message in order and the outbox drains; that a
  successful transfer makes the destination a copy and a failed one leaves its head, that compaction keeps
  the data and a failed one keeps the head; that aliases are parsed exactly as the grammar says and
  references are read back as printed; that a pull is planned with dependencies
  first and stops at the first batch that fails; that the access service refines a table and a
  relation; and defects, stated as theorems with the run that shows them.

  \<^bold>\<open>Not modelled.\<close> SQL repositories and migrations, storage over HTTP, S3 and IPFS, query and ingest
  engines, the GraphQL, HTTP, OData and FlightSQL adapters, the command line and generated
  serialisers: they are glue around databases, engines and frameworks outside the repository.
  Within the repository's own logic, the push and reset services, the flow configuration
  service, dataset ownership, accounts and access tokens are left out: they forward to services
  that are modelled here, to SQL tables or to third-party cryptography.
\<close>

end
